(* ===== verification/Prelude.thy ===== *)
theory Prelude
  imports Main "HOL-Library.Word" "HOL-Library.List_Lexorder" "HOL-Library.Product_Lexorder"
begin

text \<open>
  Shared vocabulary of the development: the machine types the Rust source uses, the errors
  (\<open>src/error.rs\<close>) and the result type of every fallible operation, the checked arithmetic and
  the big- and little-endian integer encodings of the standard library, and byte-level readers,
  the model of \<open>std::io::Read::read_exact\<close> on a cursor.

  A reader is a function from the bytes that remain to a value and the bytes left over, or to a
  failure. A failure is either an \<open>Err\<close> the Rust function returns or a panic. The target is a
  64-bit one: \<open>usize\<close> has the width of \<open>u64\<close>.
\<close>

section \<open>Machine types and failures\<close>

type_synonym byte = "8 word"
type_synonym bytes = "8 word list"
type_synonym u32 = "32 word"
type_synonym u64 = "64 word"
type_synonym u128 = "128 word"

text \<open>
  \<open>f64\<close>: a finite value is an integer over a power of two, \<open>Dyadic m e\<close> the value of \<open>m / 2 ^ e\<close>;
  both zeros are \<open>Dyadic 0 0\<close>. Every comparison with a NaN is false.
\<close>

datatype f64 = NaN | Infinite bool | Dyadic int nat

definition f64_le :: "f64 \<Rightarrow> f64 \<Rightarrow> bool" where
  "f64_le a b =
     (case (a, b) of
        (NaN, _) \<Rightarrow> False
      | (_, NaN) \<Rightarrow> False
      | (Infinite pos, Infinite pos') \<Rightarrow> \<not> pos \<or> pos'
      | (Infinite pos, Dyadic _ _) \<Rightarrow> \<not> pos
      | (Dyadic _ _, Infinite pos) \<Rightarrow> pos
      | (Dyadic m e, Dyadic m' e') \<Rightarrow> m * 2 ^ e' \<le> m' * 2 ^ e)"

text \<open>\<open>std::io::ErrorKind\<close>, as far as the storage code distinguishes the kinds.\<close>

datatype io_kind = UnexpectedEof | OtherIo

text \<open>
  \<open>DBError\<close>. The messages keep the constant text of the source; what \<open>format!\<close> interpolates
  into them (paths, checksums in hexadecimal) is left out.
\<close>

datatype db_error =
    IO io_kind
  | TryIntoError
  | Corrupted string
  | MutexPoisoned string
  | StorageError string
  | NotFound

text \<open>What can come out of a Rust call instead of its value: an \<open>Err\<close> or a panic.\<close>

datatype failure = Err db_error | Panic string

type_synonym 'a result = "failure + 'a"

named_theorems reader_simps \<open>how readers act on encoded input\<close>
named_theorems codec_defs \<open>definitions of encoders and decoders\<close>

definition rbind :: "'a result \<Rightarrow> ('a \<Rightarrow> 'b result) \<Rightarrow> 'b result" where
  "rbind r f = (case r of Inl e \<Rightarrow> Inl e | Inr x \<Rightarrow> f x)"

lemma rbind_simps [simp]:
  "rbind (Inl e) f = Inl e"
  "rbind (Inr x) f = f x"
  by (simp_all add: rbind_def)

lemma rbind_eq_Inr: "rbind r f = Inr y \<longleftrightarrow> (\<exists>x. r = Inr x \<and> f x = Inr y)"
  by (cases r) auto

lemma rbind_eq_Inl: "rbind r f = Inl e \<longleftrightarrow> r = Inl e \<or> (\<exists>x. r = Inr x \<and> f x = Inl e)"
  by (cases r) auto

lemma rbind_assoc: "rbind (rbind r f) g = rbind r (\<lambda>x. rbind (f x) g)"
  by (cases r) auto

definition guard_err :: "bool \<Rightarrow> db_error \<Rightarrow> unit result" where
  "guard_err c e = (if c then Inl (Err e) else Inr ())"

lemma guard_err_eq_Inr [simp]: "guard_err c e = Inr u \<longleftrightarrow> \<not> c"
  by (simp add: guard_err_def)

lemma guard_err_False [simp]: "guard_err False e = Inr ()"
  by (simp add: guard_err_def)

lemma guard_err_True [simp]: "guard_err True e = Inl (Err e)"
  by (simp add: guard_err_def)

text \<open>\<open>map_err(|_| e)\<close>: an error is replaced, a panic is not caught.\<close>

definition map_err :: "db_error \<Rightarrow> 'a result \<Rightarrow> 'a result" where
  "map_err e r = (case r of Inl (Err _) \<Rightarrow> Inl (Err e) | _ \<Rightarrow> r)"

lemma map_err_simps [simp]:
  "map_err e (Inr x) = Inr x" "map_err e (Inl (Err e')) = Inl (Err e)"
  "map_err e (Inl (Panic m)) = Inl (Panic m)"
  by (simp_all add: map_err_def)

lemma map_err_eq_Inr [simp]: "map_err e r = Inr x \<longleftrightarrow> r = Inr x"
  by (auto simp: map_err_def split: sum.splits failure.splits)

definition is_ok :: "'a result \<Rightarrow> bool" where
  "is_ok r = (case r of Inl _ \<Rightarrow> False | Inr _ \<Rightarrow> True)"

lemma is_ok_simps [simp]: "is_ok (Inr x)" "\<not> is_ok (Inl e)"
  by (simp_all add: is_ok_def)

section \<open>Arithmetic of the standard library\<close>

definition usize_max :: nat where "usize_max = 2 ^ 64 - 1"
definition isize_max :: nat where "isize_max = 2 ^ 63 - 1"

lemma size_bounds: "usize_max = 18446744073709551615" "isize_max = 9223372036854775807"
  by (simp_all add: usize_max_def isize_max_def)

text \<open>\<open>checked_add\<close>, \<open>checked_sub\<close> and \<open>saturating_add\<close> on \<open>u64\<close>.\<close>

definition checked_add :: "u64 \<Rightarrow> u64 \<Rightarrow> u64 option" where
  "checked_add a b = (if unat a + unat b < 2 ^ 64 then Some (a + b) else None)"

definition checked_sub :: "u64 \<Rightarrow> u64 \<Rightarrow> u64 option" where
  "checked_sub a b = (if b \<le> a then Some (a - b) else None)"

definition saturating_add :: "u64 \<Rightarrow> u64 \<Rightarrow> u64" where
  "saturating_add a b = (if unat a + unat b < 2 ^ 64 then a + b else - 1)"

lemma unat_lt_64 [simp]: "unat (w :: u64) < 18446744073709551616"
  using unsigned_less [of w, where ?'a = nat] by simp

lemma unat_lt_32 [simp]: "unat (w :: u32) < 4294967296"
  using unsigned_less [of w, where ?'a = nat] by simp

lemma unat_lt_8 [simp]: "unat (w :: byte) < 256"
  using unsigned_less [of w, where ?'a = nat] by simp

lemma checked_add_Some:
  "checked_add a b = Some c \<Longrightarrow> c = a + b \<and> unat c = unat a + unat b"
  by (auto simp: checked_add_def unat_word_ariths split: if_splits)

lemma checked_add_one_Some:
  assumes "checked_add a 1 = Some c"
  shows "unat c = Suc (unat a)" "a < c" "c = a + 1"
  using checked_add_Some [OF assms] by (auto simp: word_less_nat_alt)

lemma checked_add_one_room: "checked_add a 1 = Some c \<Longrightarrow> unat a < 18446744073709551615"
  by (auto simp: checked_add_def split: if_splits)

lemma checked_sub_Some:
  "checked_sub a b = Some c \<Longrightarrow> c = a - b \<and> unat c = unat a - unat b"
  by (auto simp: checked_sub_def unat_sub word_le_nat_alt split: if_splits)

section \<open>Integer encodings\<close>

text \<open>
  \<open>to_le_bytes\<close> and \<open>to_be_bytes\<close>: the \<open>n\<close> low-order bytes of a number. \<open>le_val\<close> and
  \<open>be_val\<close> read them back (\<open>from_le_bytes\<close>, \<open>from_be_bytes\<close>).
\<close>

fun le_bytes :: "nat \<Rightarrow> nat \<Rightarrow> bytes" where
  "le_bytes 0 v = []"
| "le_bytes (Suc n) v = of_nat (v mod 256) # le_bytes n (v div 256)"

fun le_val :: "bytes \<Rightarrow> nat" where
  "le_val [] = 0"
| "le_val (b # bs) = unat b + 256 * le_val bs"

definition be_bytes :: "nat \<Rightarrow> nat \<Rightarrow> bytes" where
  "be_bytes n v = rev (le_bytes n v)"

definition be_val :: "bytes \<Rightarrow> nat" where
  "be_val bs = le_val (rev bs)"

lemma length_le_bytes [simp]: "length (le_bytes n v) = n"
  by (induction n arbitrary: v) auto

lemma length_be_bytes [simp]: "length (be_bytes n v) = n"
  by (simp add: be_bytes_def)

lemma unat_of_nat_byte [simp]: "unat (of_nat n :: byte) = n mod 256"
  by (simp add: unsigned_of_nat take_bit_eq_mod)

lemma le_val_le_bytes [simp]: "le_val (le_bytes n v) = v mod 256 ^ n"
proof (induction n arbitrary: v)
  case (Suc n)
  have "v mod (256 * 256 ^ n) = 256 * (v div 256 mod 256 ^ n) + v mod 256"
    by (rule mod_mult2_eq)
  with Suc show ?case by simp
qed simp

lemma be_val_be_bytes [simp]: "be_val (be_bytes n v) = v mod 256 ^ n"
  by (simp add: be_val_def be_bytes_def)

lemma le_val_less: "le_val bs < 256 ^ length bs"
proof (induction bs)
  case (Cons b bs)
  have "256 * le_val bs + 256 \<le> 256 * 256 ^ length bs"
    using Cons by simp
  then have "unat b + 256 * le_val bs < 256 * 256 ^ length bs"
    using unat_lt_8 [of b] by linarith
  then show ?case by simp
qed simp

lemma le_bytes_le_val: "le_bytes (length bs) (le_val bs) = bs"
  by (induction bs) simp_all

lemma be_bytes_be_val: "length bs = n \<Longrightarrow> be_bytes n (be_val bs) = bs"
  unfolding be_bytes_def be_val_def using le_bytes_le_val [of "rev bs"] by simp

definition u32_be :: "u32 \<Rightarrow> bytes" where "u32_be w = be_bytes 4 (unat w)"
definition u64_be :: "u64 \<Rightarrow> bytes" where "u64_be w = be_bytes 8 (unat w)"
definition u128_be :: "u128 \<Rightarrow> bytes" where "u128_be w = be_bytes 16 (unat w)"
definition u32_le :: "u32 \<Rightarrow> bytes" where "u32_le w = le_bytes 4 (unat w)"
definition u64_le :: "u64 \<Rightarrow> bytes" where "u64_le w = le_bytes 8 (unat w)"

definition u32_of_be :: "bytes \<Rightarrow> u32" where "u32_of_be bs = of_nat (be_val bs)"
definition u64_of_be :: "bytes \<Rightarrow> u64" where "u64_of_be bs = of_nat (be_val bs)"
definition u128_of_be :: "bytes \<Rightarrow> u128" where "u128_of_be bs = of_nat (be_val bs)"
definition u32_of_le :: "bytes \<Rightarrow> u32" where "u32_of_le bs = of_nat (le_val bs)"
definition u64_of_le :: "bytes \<Rightarrow> u64" where "u64_of_le bs = of_nat (le_val bs)"

lemma length_int_bytes [simp]:
  "length (u32_be a) = 4" "length (u64_be b) = 8" "length (u128_be c) = 16"
  "length (u32_le a) = 4" "length (u64_le b) = 8"
  by (simp_all add: u32_be_def u64_be_def u128_be_def u32_le_def u64_le_def)

lemma int_bytes_not_Nil [simp]: "u32_be a \<noteq> []" "u64_be b \<noteq> []"
  using length_int_bytes(1) [of a] length_int_bytes(2) [of b] by fastforce+

lemma unat_mod_width:
  "unat (a :: u32) mod 256 ^ 4 = unat a"
  "unat (b :: u64) mod 256 ^ 8 = unat b"
  "unat (c :: u128) mod 256 ^ 16 = unat c"
  using unsigned_less [of a, where ?'a = nat] unsigned_less [of b, where ?'a = nat]
    unsigned_less [of c, where ?'a = nat]
  by simp_all

lemma int_of_bytes [simp]:
  "u32_of_be (u32_be a) = a" "u64_of_be (u64_be b) = b" "u128_of_be (u128_be c) = c"
  "u32_of_le (u32_le a) = a" "u64_of_le (u64_le b) = b"
  by (simp_all add: u32_of_be_def u64_of_be_def u128_of_be_def u32_of_le_def u64_of_le_def
      u32_be_def u64_be_def u128_be_def u32_le_def u64_le_def unat_mod_width del: power_numeral)

lemma unat_of_nat_32: "n < 2 ^ 32 \<Longrightarrow> unat (of_nat n :: u32) = n"
  by (simp add: unsigned_of_nat take_bit_eq_mod)

lemma unat_of_nat_64: "n < 2 ^ 64 \<Longrightarrow> unat (of_nat n :: u64) = n"
  by (simp add: unsigned_of_nat take_bit_eq_mod)

lemma bytes_of_u32_of_be: "length bs = 4 \<Longrightarrow> u32_be (u32_of_be bs) = bs"
proof -
  assume len: "length bs = 4"
  have "be_val bs < 2 ^ 32"
    using le_val_less [of "rev bs"] len by (simp add: be_val_def)
  then show ?thesis
    by (simp add: u32_be_def u32_of_be_def unat_of_nat_32 be_bytes_be_val len)
qed

lemma u32_of_be_iff: "length bs = 4 \<Longrightarrow> u32_of_be bs = w \<longleftrightarrow> bs = u32_be w"
  using bytes_of_u32_of_be by auto

lemma bytes_of_u64_of_be: "length bs = 8 \<Longrightarrow> u64_be (u64_of_be bs) = bs"
proof -
  assume len: "length bs = 8"
  have "be_val bs < 2 ^ 64"
    using le_val_less [of "rev bs"] len by (simp add: be_val_def)
  then show ?thesis
    by (simp add: u64_be_def u64_of_be_def unat_of_nat_64 be_bytes_be_val len)
qed

section \<open>Byte readers\<close>

type_synonym 'a reader = "bytes \<Rightarrow> ('a \<times> bytes) result"

definition rd_return :: "'a \<Rightarrow> 'a reader" where
  "rd_return x bs = Inr (x, bs)"

definition rd_fail :: "failure \<Rightarrow> 'a reader" where
  "rd_fail e bs = Inl e"

definition rd_bind :: "'a reader \<Rightarrow> ('a \<Rightarrow> 'b reader) \<Rightarrow> 'b reader" where
  "rd_bind p f bs = (case p bs of Inl e \<Rightarrow> Inl e | Inr (x, rest) \<Rightarrow> f x rest)"

definition rd_lift :: "'a result \<Rightarrow> 'a reader" where
  "rd_lift r bs = (case r of Inl e \<Rightarrow> Inl e | Inr x \<Rightarrow> Inr (x, bs))"

text \<open>\<open>read_exact\<close> into a buffer of \<open>n\<close> bytes.\<close>

definition read_exact :: "nat \<Rightarrow> bytes reader" where
  "read_exact n bs =
     (if n \<le> length bs then Inr (take n bs, drop n bs) else Inl (Err (IO UnexpectedEof)))"

text \<open>
  \<open>let mut buf = vec![0u8; n]; reader.read_exact(&mut buf)\<close>: the allocation panics when \<open>n\<close>
  exceeds \<open>isize::MAX\<close>, before anything is read.
\<close>

definition read_buf :: "nat \<Rightarrow> bytes reader" where
  "read_buf n = (if isize_max < n then rd_fail (Panic ''capacity overflow'') else read_exact n)"

definition read_u8 :: "byte reader" where
  "read_u8 = rd_bind (read_exact 1) (\<lambda>b. rd_return (hd b))"

definition read_u32_be :: "u32 reader" where
  "read_u32_be = rd_bind (read_exact 4) (\<lambda>b. rd_return (u32_of_be b))"

definition read_u64_be :: "u64 reader" where
  "read_u64_be = rd_bind (read_exact 8) (\<lambda>b. rd_return (u64_of_be b))"

definition read_u128_be :: "u128 reader" where
  "read_u128_be = rd_bind (read_exact 16) (\<lambda>b. rd_return (u128_of_be b))"

definition read_u32_le :: "u32 reader" where
  "read_u32_le = rd_bind (read_exact 4) (\<lambda>b. rd_return (u32_of_le b))"

definition read_u64_le :: "u64 reader" where
  "read_u64_le = rd_bind (read_exact 8) (\<lambda>b. rd_return (u64_of_le b))"

text \<open>\<open>for _ in 0..n { v.push(p(reader)?) }\<close>\<close>

fun rd_times :: "nat \<Rightarrow> 'a reader \<Rightarrow> 'a list reader" where
  "rd_times 0 p bs = Inr ([], bs)"
| "rd_times (Suc n) p bs =
     (case p bs of Inl e \<Rightarrow> Inl e
      | Inr (x, rest) \<Rightarrow>
          (case rd_times n p rest of Inl e \<Rightarrow> Inl e | Inr (xs, rest') \<Rightarrow> Inr (x # xs, rest')))"

lemma rd_return_apply [reader_simps]: "rd_return x bs = Inr (x, bs)"
  by (simp add: rd_return_def)

lemma rd_fail_apply [reader_simps]: "rd_fail e bs = Inl e"
  by (simp add: rd_fail_def)

lemma rd_lift_Inr [reader_simps]: "rd_lift (Inr x) bs = Inr (x, bs)"
  by (simp add: rd_lift_def)

lemma rd_lift_Inl [reader_simps]: "rd_lift (Inl e) bs = Inl e"
  by (simp add: rd_lift_def)

lemma rd_bind_Inr [reader_simps]: "p bs = Inr (x, rest) \<Longrightarrow> rd_bind p f bs = f x rest"
  by (simp add: rd_bind_def)

lemma rd_bind_Inl [reader_simps]: "p bs = Inl e \<Longrightarrow> rd_bind p f bs = Inl e"
  by (simp add: rd_bind_def)

lemma rd_bind_eq_Inr:
  "rd_bind p f bs = Inr r \<longleftrightarrow> (\<exists>x rest. p bs = Inr (x, rest) \<and> f x rest = Inr r)"
  by (auto simp: rd_bind_def split: sum.splits)

lemma read_exact_append [reader_simps]:
  "length xs = n \<Longrightarrow> read_exact n (xs @ rest) = Inr (xs, rest)"
  by (simp add: read_exact_def)

lemma read_exact_all [reader_simps]: "length xs = n \<Longrightarrow> read_exact n xs = Inr (xs, [])"
  by (simp add: read_exact_def)

lemma read_exact_short [reader_simps]:
  "length xs < n \<Longrightarrow> read_exact n xs = Inl (Err (IO UnexpectedEof))"
  by (simp add: read_exact_def)

lemma read_exact_Inr:
  "read_exact n bs = Inr (x, rest) \<longleftrightarrow> length x = n \<and> bs = x @ rest"
  by (auto simp: read_exact_def split: if_splits)

lemma read_buf_append [reader_simps]:
  "length xs = n \<Longrightarrow> n \<le> isize_max \<Longrightarrow> read_buf n (xs @ rest) = Inr (xs, rest)"
  by (simp add: read_buf_def read_exact_append)

lemma read_buf_Inr: "read_buf n bs = Inr (x, rest) \<Longrightarrow> length x = n \<and> bs = x @ rest"
  by (auto simp: read_buf_def read_exact_Inr rd_fail_def split: if_splits)

lemma read_buf_overflow: "isize_max < n \<Longrightarrow> read_buf n bs = Inl (Panic ''capacity overflow'')"
  by (simp add: read_buf_def rd_fail_def)

lemma read_int_append [reader_simps]:
  "read_u8 (b # rest) = Inr (b, rest)"
  "read_u32_be (u32_be v32 @ rest) = Inr (v32, rest)"
  "read_u64_be (u64_be v64 @ rest) = Inr (v64, rest)"
  "read_u128_be (u128_be v128 @ rest) = Inr (v128, rest)"
  "read_u32_le (u32_le v32 @ rest) = Inr (v32, rest)"
  "read_u64_le (u64_le v64 @ rest) = Inr (v64, rest)"
  by (simp_all add: read_u8_def read_u32_be_def read_u64_be_def read_u128_be_def read_u32_le_def
      read_u64_le_def rd_bind_def read_exact_def rd_return_def)

lemma read_int_all [reader_simps]:
  "read_u32_be (u32_be v32) = Inr (v32, [])"
  "read_u64_be (u64_be v64) = Inr (v64, [])"
  "read_u32_le (u32_le v32) = Inr (v32, [])"
  "read_u64_le (u64_le v64) = Inr (v64, [])"
  by (simp_all add: read_u32_be_def read_u64_be_def read_u32_le_def
      read_u64_le_def rd_bind_def read_exact_def rd_return_def)

lemma read_int_short [reader_simps]:
  "length bs < 4 \<Longrightarrow> read_u32_be bs = Inl (Err (IO UnexpectedEof))"
  "length bs < 8 \<Longrightarrow> read_u64_be bs = Inl (Err (IO UnexpectedEof))"
  by (simp_all add: read_u32_be_def read_u64_be_def rd_bind_def read_exact_def)

lemma rd_times_length: "rd_times n p bs = Inr (xs, rest) \<Longrightarrow> length xs = n"
  by (induction n arbitrary: bs xs rest) (auto split: sum.splits prod.splits)

section \<open>The contract of a codec\<close>

text \<open>
  Every on-disk structure comes as a pair of functions, an encoder and a decoder that consumes
  what the encoder wrote and leaves the rest of the stream in place. The law is stated once; what
  clients need of it (sequences of encoded values, injectivity of a stream) is proved once.
\<close>

locale codec =
  fixes enc :: "'a \<Rightarrow> bytes"
    and dec :: "'a reader"
    and wf :: "'a \<Rightarrow> bool"
  assumes dec_enc: "wf x \<Longrightarrow> dec (enc x @ rest) = Inr (x, rest)"
begin

lemma dec_enc_all: "wf x \<Longrightarrow> dec (enc x) = Inr (x, [])"
  using dec_enc [of x "[]"] by simp

lemma rd_times_enc:
  "list_all wf xs \<Longrightarrow> rd_times (length xs) dec (concat (map enc xs) @ rest) = Inr (xs, rest)"
  by (induction xs) (simp_all add: dec_enc)

lemma enc_stream_inject:
  assumes "wf x" "wf y" "enc x @ r = enc y @ s"
  shows "x = y \<and> r = s"
proof -
  have "Inr (x, r) = dec (enc x @ r)" using assms(1) by (simp add: dec_enc)
  also have "\<dots> = dec (enc y @ s)" using assms(3) by simp
  also have "\<dots> = Inr (y, s)" using assms(2) by (simp add: dec_enc)
  finally show ?thesis by simp
qed

lemma enc_inject: "wf x \<Longrightarrow> wf y \<Longrightarrow> enc x = enc y \<Longrightarrow> x = y"
  using enc_stream_inject [of x y "[]" "[]"] by simp

end

interpretation u32_codec: codec u32_be read_u32_be "\<lambda>_. True"
  by unfold_locales (simp add: reader_simps)

interpretation u64_codec: codec u64_be read_u64_be "\<lambda>_. True"
  by unfold_locales (simp add: reader_simps)

end
