(* ===== verification/Binary_Search.thy ===== *)
theory Binary_Search
  imports Prelude
begin

text \<open>
  \<open>std::cmp::Ordering\<close> and \<open>slice::binary_search_by\<close>, as the standard library of the Rust 2024
  edition implements it: a half-interval search that keeps the last position not above the target.
\<close>

datatype ordering = Less | Equal | Greater

definition cmp :: "'a::linorder \<Rightarrow> 'a \<Rightarrow> ordering" where
  "cmp a b = (if a < b then Less else if a = b then Equal else Greater)"

lemma cmp_eq_simps [simp]:
  "cmp a b = Less \<longleftrightarrow> a < b" "cmp a b = Equal \<longleftrightarrow> a = b" "cmp a b = Greater \<longleftrightarrow> b < a"
  by (auto simp: cmp_def)

datatype search_result = Found nat | Missing nat

function search_loop :: "('a \<Rightarrow> ordering) \<Rightarrow> 'a list \<Rightarrow> nat \<Rightarrow> nat \<Rightarrow> nat" where
  "search_loop f xs base len =
     (if 1 < len then
        let half = len div 2; mid = base + half
        in search_loop f xs (if f (xs ! mid) = Greater then base else mid) (len - half)
      else base)"
  by pat_completeness auto
termination
  by (relation "measure (\<lambda>(f, xs, base, len). len)") auto

declare search_loop.simps [simp del]

definition binary_search_by :: "('a \<Rightarrow> ordering) \<Rightarrow> 'a list \<Rightarrow> search_result" where
  "binary_search_by f xs =
     (if xs = [] then Missing 0
      else let base = search_loop f xs 0 (length xs) in
        case f (xs ! base) of
          Equal \<Rightarrow> Found base
        | Less \<Rightarrow> Missing (Suc base)
        | Greater \<Rightarrow> Missing base)"

text \<open>
  If exactly the positions up to \<open>t\<close> are not above the target, the loop ends at \<open>t\<close>.
\<close>

lemma search_loop_target:
  assumes "\<And>i. i < length xs \<Longrightarrow> f (xs ! i) \<noteq> Greater \<longleftrightarrow> i \<le> t"
    and "base \<le> t" "t < base + len" "base + len \<le> length xs"
  shows "search_loop f xs base len = t"
  using assms
proof (induction f xs base len rule: search_loop.induct)
  case (1 f xs base len)
  show ?case
  proof (cases "1 < len")
    case False
    with "1.prems" show ?thesis by (simp add: search_loop.simps)
  next
    case True
    let ?half = "len div 2"
    have mid: "base + ?half < length xs" using True "1.prems" by linarith
    have above: "f (xs ! (base + ?half)) = Greater \<longleftrightarrow> \<not> base + ?half \<le> t"
      using "1.prems"(1) [OF mid] by blast
    have "search_loop f xs (if f (xs ! (base + ?half)) = Greater then base else base + ?half)
        (len - ?half) = t"
      using True above "1.prems" by (intro "1.IH") auto
    with True show ?thesis by (subst search_loop.simps) (simp add: Let_def)
  qed
qed

lemma binary_search_by_found:
  assumes "t < length xs" "f (xs ! t) = Equal"
    and "\<And>i. i < t \<Longrightarrow> f (xs ! i) \<noteq> Greater"
    and "\<And>i. t < i \<Longrightarrow> i < length xs \<Longrightarrow> f (xs ! i) = Greater"
  shows "binary_search_by f xs = Found t"
proof -
  have "search_loop f xs 0 (length xs) = t"
  proof (rule search_loop_target)
    fix i assume "i < length xs"
    then show "f (xs ! i) \<noteq> Greater \<longleftrightarrow> i \<le> t"
      using assms by (metis ordering.distinct(6) linorder_neqE_nat nat_less_le not_less)
  qed (use assms(1) in auto)
  with assms show ?thesis by (auto simp: binary_search_by_def Let_def)
qed

lemma binary_search_by_missing:
  assumes "t \<le> length xs"
    and "\<And>i. i < t \<Longrightarrow> f (xs ! i) = Less"
    and "\<And>i. t \<le> i \<Longrightarrow> i < length xs \<Longrightarrow> f (xs ! i) = Greater"
  shows "binary_search_by f xs = Missing t"
proof (cases t)
  case 0
  have "xs \<noteq> [] \<Longrightarrow> search_loop f xs 0 len = 0" if "len \<le> length xs" for len
    using that assms(3) unfolding 0
  proof (induction len rule: less_induct)
    case (less len)
    show ?case
    proof (cases "1 < len")
      case True
      then have "f (xs ! (len div 2)) = Greater" using less.prems by simp
      with True less show ?thesis by (subst search_loop.simps) (simp add: Let_def)
    qed (simp add: search_loop.simps)
  qed
  with assms(3) show ?thesis by (auto simp: binary_search_by_def 0 Let_def)
next
  case (Suc m)
  have "search_loop f xs 0 (length xs) = m"
  proof (rule search_loop_target)
    fix i assume i: "i < length xs"
    show "f (xs ! i) \<noteq> Greater \<longleftrightarrow> i \<le> m"
    proof (cases "i \<le> m")
      case True
      then have "f (xs ! i) = Less" using assms(2) [of i] Suc by simp
      with True show ?thesis by simp
    next
      case False
      then have "f (xs ! i) = Greater" using assms(3) [of i] Suc i by simp
      with False show ?thesis by simp
    qed
  qed (use assms(1) Suc in auto)
  with assms Suc show ?thesis by (auto simp: binary_search_by_def Let_def)
qed

text \<open>Whatever the comparison says, a position that is reported found compares equal.\<close>

lemma search_loop_in_range:
  "0 < len \<Longrightarrow> base + len \<le> n \<Longrightarrow> search_loop f xs base len < n"
proof (induction f xs base len rule: search_loop.induct)
  case (1 f xs base len)
  show ?case
  proof (cases "1 < len")
    case True
    let ?half = "len div 2"
    have "search_loop f xs (if f (xs ! (base + ?half)) = Greater then base else base + ?half)
        (len - ?half) < n"
      using True "1.prems" by (intro "1.IH") auto
    with True show ?thesis by (subst search_loop.simps) (simp add: Let_def)
  next
    case False
    with "1.prems" show ?thesis by (simp add: search_loop.simps)
  qed
qed

lemma binary_search_by_FoundD:
  "binary_search_by f xs = Found i \<Longrightarrow> i < length xs \<and> f (xs ! i) = Equal"
  using search_loop_in_range [of "length xs" 0 "length xs" f xs]
  by (auto simp: binary_search_by_def Let_def split: if_splits ordering.splits)

end
