(* ===== verification/Records.thy ===== *)
theory Records
  imports Binary_Search
begin

text \<open>
  \<open>src/storage/record.rs\<close>: the timestamped \<open>Record\<close> of the first table format, the WAL-format
  reader \<open>decode_record\<close>, and \<open>MemtableRecord\<close>, the versioned record the memtable and the
  current tables hold. The checksum \<open>crc32fast::hash\<close> is the parameter \<open>crc\<close>: no result here
  depends on which function it is.
\<close>

section \<open>Record kinds\<close>

datatype record_type = Put | Delete

definition rt_byte :: "record_type \<Rightarrow> byte" where
  "rt_byte t = (case t of Put \<Rightarrow> 1 | Delete \<Rightarrow> 2)"

definition rt_of_byte :: "string \<Rightarrow> byte \<Rightarrow> record_type result" where
  "rt_of_byte msg b =
     (if b = 1 then Inr Put else if b = 2 then Inr Delete else Inl (Err (Corrupted msg)))"

lemma rt_of_byte_rt_byte [simp]: "rt_of_byte msg (rt_byte t) = Inr t"
  by (cases t) (simp_all add: rt_byte_def rt_of_byte_def)

lemma rt_of_byte_Inr: "rt_of_byte msg b = Inr t \<Longrightarrow> b = rt_byte t"
  by (auto simp: rt_of_byte_def rt_byte_def split: if_splits)

section \<open>Record\<close>

record kv_record =
  r_key :: bytes
  r_value :: bytes
  r_type :: record_type
  r_timestamp :: u64
  r_offset :: u64

definition Record_new :: "bytes \<Rightarrow> bytes \<Rightarrow> record_type \<Rightarrow> u64 \<Rightarrow> kv_record" where
  "Record_new k v t ts = \<lparr>r_key = k, r_value = v, r_type = t, r_timestamp = ts, r_offset = 0\<rparr>"

definition Record_tombstone :: "bytes \<Rightarrow> u64 \<Rightarrow> kv_record" where
  "Record_tombstone k ts =
     \<lparr>r_key = k, r_value = [], r_type = Delete, r_timestamp = ts, r_offset = 0\<rparr>"

definition Record_encode :: "(bytes \<Rightarrow> u32) \<Rightarrow> kv_record \<Rightarrow> bytes" where
  [codec_defs]: "Record_encode crc r =
     (let checksum = crc (r_value r) in
      [rt_byte (r_type r)] @ u64_be (r_timestamp r)
      @ u64_be (of_nat (length (r_key r))) @ u64_be (of_nat (length (r_value r)))
      @ r_key r @ r_value r @ u32_be checksum)"

definition Record_decode :: "(bytes \<Rightarrow> u32) \<Rightarrow> kv_record reader" where
  [codec_defs]: "Record_decode crc =
     rd_bind read_u8 (\<lambda>record_type_byte.
     rd_bind read_u64_be (\<lambda>timestamp.
     rd_bind read_u64_be (\<lambda>key_len.
     rd_bind read_u64_be (\<lambda>value_len.
     rd_bind (read_buf (unat key_len)) (\<lambda>key_buf.
     rd_bind (read_buf (unat value_len)) (\<lambda>value_buf.
     rd_bind read_u32_be (\<lambda>checksum.
     rd_bind (rd_lift (guard_err (crc value_buf \<noteq> checksum) (Corrupted ''Checksum mismatch''))) (\<lambda>_.
     rd_bind (rd_lift (rt_of_byte ''Invalid record type'' record_type_byte)) (\<lambda>record_type.
     rd_return \<lparr>r_key = key_buf, r_value = value_buf, r_type = record_type,
       r_timestamp = timestamp,
       r_offset = of_nat (1 + 8 + 8 + 8 + unat key_len + unat value_len + 4)\<rparr>)))))))))"

text \<open>\<open>PartialEq\<close> leaves the offset out; \<open>Ord\<close> looks at key and timestamp only.\<close>

definition Record_eq :: "kv_record \<Rightarrow> kv_record \<Rightarrow> bool" where
  "Record_eq a b \<longleftrightarrow> r_key a = r_key b \<and> r_value a = r_value b \<and> r_type a = r_type b
     \<and> r_timestamp a = r_timestamp b"

definition Record_cmp :: "kv_record \<Rightarrow> kv_record \<Rightarrow> ordering" where
  "Record_cmp a b =
     (let res = cmp (r_key a) (r_key b) in
      if res \<noteq> Equal then res else cmp (r_timestamp b) (r_timestamp a))"

definition Record_wf :: "kv_record \<Rightarrow> bool" where
  "Record_wf r \<longleftrightarrow> length (r_key r) \<le> isize_max \<and> length (r_value r) \<le> isize_max"

lemma le_isize_max_unat: "n \<le> isize_max \<Longrightarrow> unat (of_nat n :: u64) = n"
  by (rule unat_of_nat_64) (simp add: isize_max_def)

lemma Record_decode_encode:
  assumes "Record_wf r"
  shows "Record_decode crc (Record_encode crc r @ rest)
    = Inr (r\<lparr>r_offset := of_nat (length (Record_encode crc r))\<rparr>, rest)"
  using assms
  by (simp add: codec_defs reader_simps Record_wf_def le_isize_max_unat Let_def)

section \<open>WAL-format records\<close>

record decode_record_result =
  dr_key :: bytes
  dr_val :: bytes
  dr_type :: record_type
  dr_lsn :: u64
  dr_offset :: u64

definition decode_record :: "(bytes \<Rightarrow> u32) \<Rightarrow> bytes \<Rightarrow> u64 \<Rightarrow> decode_record_result result" where
  [codec_defs]: "decode_record crc file offset = map_sum id fst (
     (rd_bind read_u8 (\<lambda>t.
      rd_bind (rd_lift (rt_of_byte ''Invalid record type'' t)) (\<lambda>record_type.
      rd_bind read_u64_be (\<lambda>lsn.
      rd_bind read_u64_be (\<lambda>timestamp.
      rd_bind read_u64_be (\<lambda>key_len.
      rd_bind read_u64_be (\<lambda>value_len.
      rd_bind (read_buf (unat key_len)) (\<lambda>key.
      rd_bind (read_buf (unat value_len)) (\<lambda>value.
      rd_bind read_u32_be (\<lambda>checksum.
      rd_bind (rd_lift (guard_err (crc value \<noteq> checksum) (Corrupted ''Checksum mismatch''))) (\<lambda>_.
      rd_return \<lparr>dr_key = key, dr_val = value, dr_type = record_type, dr_lsn = lsn,
        dr_offset = offset + 1 + 8 + 8 + 8 + key_len + value_len + 4\<rparr>))))))))))) (drop (unat offset) file))"

text \<open>The layout \<open>decode_record\<close> reads: kind, LSN, timestamp, lengths, key, value, checksum.\<close>

definition wal_record_layout :: "(bytes \<Rightarrow> u32) \<Rightarrow> record_type \<Rightarrow> u64 \<Rightarrow> u64 \<Rightarrow> bytes \<Rightarrow> bytes \<Rightarrow> bytes" where
  "wal_record_layout crc t lsn ts k v =
     [rt_byte t] @ u64_be lsn @ u64_be ts @ u64_be (of_nat (length k)) @ u64_be (of_nat (length v))
     @ k @ v @ u32_be (crc v)"

section \<open>MemtableRecord\<close>

record memtable_record =
  mr_type :: record_type
  mr_lsn :: u64
  mr_key :: bytes
  mr_value :: bytes

definition MemtableRecord_new :: "bytes \<Rightarrow> record_type \<Rightarrow> u64 \<Rightarrow> memtable_record" where
  "MemtableRecord_new v t lsn = \<lparr>mr_type = t, mr_lsn = lsn, mr_key = [], mr_value = v\<rparr>"

definition with_key :: "memtable_record \<Rightarrow> bytes \<Rightarrow> memtable_record" where
  "with_key r k = r\<lparr>mr_key := k\<rparr>"

definition mr_encode :: "memtable_record \<Rightarrow> bytes \<Rightarrow> bytes" where
  [codec_defs]: "mr_encode r key =
     u32_le (of_nat (length key)) @ key @ u32_le (of_nat (length (mr_value r))) @ mr_value r
     @ [rt_byte (mr_type r)] @ u64_le (mr_lsn r)"

definition record_length :: "memtable_record \<Rightarrow> bytes \<Rightarrow> nat" where
  "record_length r key = 4 + length key + 4 + length (mr_value r) + 1 + 8"

definition mr_decode :: "memtable_record reader" where
  [codec_defs]: "mr_decode =
     rd_bind read_u32_le (\<lambda>key_len.
     rd_bind (read_buf (unat key_len)) (\<lambda>key_buf.
     rd_bind read_u32_le (\<lambda>value_len.
     rd_bind (read_buf (unat value_len)) (\<lambda>value_buf.
     rd_bind read_u8 (\<lambda>t.
     rd_bind (rd_lift (rt_of_byte ''Invalid record type'' t)) (\<lambda>record_type.
     rd_bind read_u64_le (\<lambda>lsn.
     rd_return \<lparr>mr_type = record_type, mr_lsn = lsn, mr_key = key_buf, mr_value = value_buf\<rparr>)))))))"

definition mr_async_decode :: "memtable_record reader" where
  "mr_async_decode =
     rd_bind read_u32_le (\<lambda>key_len.
     rd_bind (read_buf (unat key_len)) (\<lambda>key_buf.
     rd_bind read_u32_le (\<lambda>value_len.
     rd_bind (read_buf (unat value_len)) (\<lambda>value_buf.
     rd_bind read_u8 (\<lambda>t.
     rd_bind (rd_lift (rt_of_byte ''Invalid record type'' t)) (\<lambda>record_type.
     rd_bind read_u64_le (\<lambda>lsn.
     rd_return \<lparr>mr_type = record_type, mr_lsn = lsn, mr_key = key_buf, mr_value = value_buf\<rparr>)))))))"

definition mr_cmp :: "memtable_record \<Rightarrow> memtable_record \<Rightarrow> ordering" where
  "mr_cmp a b =
     (let res = cmp (mr_key a) (mr_key b) in
      if res \<noteq> Equal then res else cmp (mr_lsn b) (mr_lsn a))"

text \<open>Lengths are written as \<open>u32\<close>: a record fits when both lengths do.\<close>

definition mr_wf :: "memtable_record \<Rightarrow> bool" where
  "mr_wf r \<longleftrightarrow> length (mr_key r) < 2 ^ 32 \<and> length (mr_value r) < 2 ^ 32"

lemma length_mr_encode: "length (mr_encode r key) = record_length r key"
  by (simp add: mr_encode_def record_length_def)

lemma u32_le_isize_max [simp]: "unat (w :: u32) \<le> isize_max"
proof -
  have "unat w \<le> 9223372036854775807" using unat_lt_32 [of w] by linarith
  then show ?thesis by (simp add: isize_max_def)
qed

lemma mr_decode_encode:
  assumes "length key < 2 ^ 32" "length (mr_value r) < 2 ^ 32"
  shows "mr_decode (mr_encode r key @ rest) = Inr (with_key r key, rest)"
  using assms by (simp add: codec_defs reader_simps unat_of_nat_32 with_key_def
      isize_max_def)

interpretation mr_codec: codec "\<lambda>r. mr_encode r (mr_key r)" mr_decode mr_wf
  by unfold_locales (simp add: mr_decode_encode mr_wf_def with_key_def)

lemma mr_async_decode_eq: "mr_async_decode = mr_decode"
  by (simp add: mr_async_decode_def mr_decode_def)

section \<open>Properties\<close>

text \<open>
  C38: decoding what \<open>Record::encode\<close> wrote gives back the record, equal in the sense of
  \<open>PartialEq\<close>, with its offset set to the encoded length, and consumes exactly the encoding.
\<close>

theorem Record_roundtrip:
  assumes "length (r_key r) \<le> isize_max" "length (r_value r) \<le> isize_max"
  shows "\<exists>r'. Record_decode crc (Record_encode crc r @ rest) = Inr (r', rest)
    \<and> Record_eq r' r \<and> r_offset r' = of_nat (length (Record_encode crc r))"
  using Record_decode_encode [of r crc rest] assms by (simp add: Record_wf_def Record_eq_def)

theorem Record_roundtrip_witness:
  "\<exists>r'. Record_decode (\<lambda>_. 7) (Record_encode (\<lambda>_. 7) (Record_new [1, 2] [3] Put 5) @ [9]) = Inr (r', [9])
     \<and> Record_eq r' (Record_new [1, 2] [3] Put 5)"
  using Record_roundtrip [of "Record_new [1, 2] [3] Put 5" "\<lambda>_. 7" "[9]"]
  by (auto simp: Record_new_def isize_max_def)

text \<open>
  C39: \<open>decode_record\<close> reads a WAL-format record back, but the offset it reports as the position
  of the next record is 8 short of the record's end: the timestamp it reads is not counted.
\<close>

theorem decode_record_offset:
  assumes "length k \<le> isize_max" and "length v \<le> isize_max" and "length pre < 2 ^ 64"
  shows "\<exists>d. decode_record crc (pre @ wal_record_layout crc t lsn ts k v @ rest) (of_nat (length pre)) = Inr d
    \<and> dr_key d = k \<and> dr_val d = v \<and> dr_type d = t \<and> dr_lsn d = lsn
    \<and> dr_offset d + 8 = of_nat (length (pre @ wal_record_layout crc t lsn ts k v))"
  using assms
  by (simp add: codec_defs wal_record_layout_def reader_simps unat_of_nat_64 le_isize_max_unat)

theorem decode_record_offset_witness:
  "\<exists>d. decode_record (\<lambda>_. 0) ([8] @ wal_record_layout (\<lambda>_. 0) Put 3 4 [1] [2] @ []) 1 = Inr d
     \<and> dr_key d = [1] \<and> dr_offset d + 8 = of_nat (length ([8] @ wal_record_layout (\<lambda>_. 0) Put 3 4 [1] [2]))"
  using decode_record_offset [of "[1]" "[2]" "[8]" "\<lambda>_. 0" Put 3 4 "[]"]
  by (auto simp: isize_max_def)

end
