(* ===== verification/Admission.thy ===== *)
theory Admission
  imports Records
begin

text \<open>
  The admission queue in front of the write-ahead log (\<open>src/storage/writemanager/admission.rs\<close>): writers
  wait for a slot and for byte permits, get a ticket and join a queue; one runner drains the queue in
  batches and completes the requests in ticket order.

  A semaphore is the number of its free permits: an acquisition waits (\<open>None\<close>) until enough are
  free. The mutex around the state makes each operation one step; nothing panics while it is held,
  so it is never poisoned. Completing a request sends its result on a channel of its own; the channels
  are the list \<open>aq_sent\<close> of what was sent for which ticket, \<open>None\<close> when the sender was dropped.
\<close>

datatype batch_operation = Batch_Put bytes bytes | Batch_Delete bytes

definition MAX_ADMITTED_REQUESTS :: nat where "MAX_ADMITTED_REQUESTS = 64"
definition ADMITTED_BYTE_BUDGET :: nat where "ADMITTED_BYTE_BUDGET = 16 * 1024 * 1024"
definition MAX_DRAIN_REQUESTS :: nat where "MAX_DRAIN_REQUESTS = 64"
definition MAX_DRAIN_BYTES :: nat where "MAX_DRAIN_BYTES = ADMITTED_BYTE_BUDGET"

text \<open>A request holds one slot permit and \<open>rq_permits\<close> byte permits until it is dropped.\<close>

record request =
  rq_operations :: "batch_operation list"
  rq_ticket :: u64
  rq_permits :: nat
  rq_byte_weight :: nat

record admission_queue =
  aq_requests :: "request list"
  aq_running :: bool
  aq_next_ticket :: u64
  aq_completed_ticket :: u64
  aq_slots :: nat
  aq_bytes :: nat
  aq_sent :: "(u64 \<times> unit result option) list"

record enqueued =
  eq_ticket :: u64
  eq_should_start_runner :: bool

definition AdmissionQueue_new :: admission_queue where
  "AdmissionQueue_new =
     \<lparr>aq_requests = [], aq_running = False, aq_next_ticket = 0, aq_completed_ticket = 0,
      aq_slots = MAX_ADMITTED_REQUESTS, aq_bytes = ADMITTED_BYTE_BUDGET, aq_sent = []\<rparr>"

section \<open>Operations\<close>

text \<open>
  \<open>enqueue\<close> has two points at which it waits, so it is three steps: a slot, the byte permits, and
  the part under the mutex. Permits are given back when they go out of scope, also on an error.
\<close>

definition acquire_slot :: "admission_queue \<Rightarrow> admission_queue option" where
  "acquire_slot q = (if 0 < aq_slots q then Some (q\<lparr>aq_slots := aq_slots q - 1\<rparr>) else None)"

definition release_slot :: "admission_queue \<Rightarrow> admission_queue" where
  "release_slot q = q\<lparr>aq_slots := aq_slots q + 1\<rparr>"

definition byte_permits :: "nat \<Rightarrow> nat" where
  "byte_permits estimated_bytes = max (min estimated_bytes ADMITTED_BYTE_BUDGET) 1"

definition acquire_bytes :: "nat \<Rightarrow> admission_queue \<Rightarrow> admission_queue option" where
  "acquire_bytes n q = (if n \<le> aq_bytes q then Some (q\<lparr>aq_bytes := aq_bytes q - n\<rparr>) else None)"

definition release_request :: "nat \<Rightarrow> admission_queue \<Rightarrow> admission_queue" where
  "release_request permits q = q\<lparr>aq_slots := aq_slots q + 1, aq_bytes := aq_bytes q + permits\<rparr>"

definition admit ::
  "batch_operation list \<Rightarrow> nat \<Rightarrow> admission_queue \<Rightarrow> enqueued result \<times> admission_queue" where
  "admit operations estimated_bytes q =
     (case checked_add (aq_next_ticket q) 1 of
        None \<Rightarrow> (Inl (Err (StorageError ''write admission ticket exhausted'')),
                 release_request (byte_permits estimated_bytes) q)
      | Some ticket \<Rightarrow>
          (Inr \<lparr>eq_ticket = ticket, eq_should_start_runner = \<not> aq_running q\<rparr>,
           q\<lparr>aq_next_ticket := ticket,
             aq_requests := aq_requests q @
               [\<lparr>rq_operations = operations, rq_ticket = ticket,
                 rq_permits = byte_permits estimated_bytes, rq_byte_weight = estimated_bytes\<rparr>],
             aq_running := True\<rparr>))"

definition enqueue ::
  "batch_operation list \<Rightarrow> nat \<Rightarrow> admission_queue \<Rightarrow> (enqueued result \<times> admission_queue) option" where
  "enqueue operations estimated_bytes q =
     Option.bind (acquire_slot q) (\<lambda>q.
     Option.bind (acquire_bytes (byte_permits estimated_bytes) q) (\<lambda>q.
     Some (admit operations estimated_bytes q)))"

text \<open>The loop of \<open>drain_ready\<close>: \<open>taken\<close> and \<open>bytes\<close> are its variables, the last argument the queue.\<close>

fun drain_loop ::
  "nat \<Rightarrow> nat \<Rightarrow> request list \<Rightarrow> nat \<Rightarrow> request list \<Rightarrow> request list \<times> request list" where
  "drain_loop max_requests max_bytes taken bytes [] = (taken, [])"
| "drain_loop max_requests max_bytes taken bytes (next_rq # rest) =
     (if max_requests \<le> length taken then (taken, next_rq # rest)
      else if taken \<noteq> [] \<and> (max_bytes - bytes < rq_byte_weight next_rq
                \<or> list_ex (\<lambda>r. max_bytes < rq_byte_weight r) taken)
      then (taken, next_rq # rest)
      else if max_bytes < rq_byte_weight next_rq then (taken @ [next_rq], rest)
      else drain_loop max_requests max_bytes (taken @ [next_rq])
             (min usize_max (bytes + rq_byte_weight next_rq)) rest)"

definition drain_ready ::
  "nat \<Rightarrow> nat \<Rightarrow> admission_queue \<Rightarrow> request list option \<times> admission_queue" where
  "drain_ready max_requests max_bytes q =
     (if aq_requests q = [] then (None, q\<lparr>aq_running := False\<rparr>)
      else case drain_loop max_requests max_bytes [] 0 (aq_requests q) of
             (taken, rest) \<Rightarrow> (Some taken, q\<lparr>aq_requests := rest\<rparr>))"

definition complete ::
  "request \<Rightarrow> unit result \<Rightarrow> admission_queue \<Rightarrow> unit result \<times> admission_queue" where
  "complete request r q =
     (if rq_ticket request \<noteq> aq_completed_ticket q + 1 \<or> aq_next_ticket q < rq_ticket request
      then (Inl (Err (StorageError ''out-of-order write completion'')),
            release_request (rq_permits request) (q\<lparr>aq_sent := aq_sent q @ [(rq_ticket request, None)]\<rparr>))
      else (Inr (),
            release_request (rq_permits request)
              (q\<lparr>aq_completed_ticket := rq_ticket request,
                 aq_sent := aq_sent q @ [(rq_ticket request, Some r)]\<rparr>)))"

definition last_admitted_ticket :: "admission_queue \<Rightarrow> u64" where
  "last_admitted_ticket q = aq_next_ticket q"

text \<open>The condition \<open>await_completed_through\<close> waits for; it is checked after every completion.\<close>

definition await_completed_through :: "u64 \<Rightarrow> admission_queue \<Rightarrow> bool" where
  "await_completed_through ticket q \<longleftrightarrow> ticket \<le> aq_completed_ticket q"

section \<open>What draining takes\<close>

lemma drain_loop_append: "drain_loop mr mb taken bytes queue = (taken', rest) \<Longrightarrow> taken @ queue = taken' @ rest"
  by (induction mr mb taken bytes queue rule: drain_loop.induct) (auto split: if_splits)

lemma drain_loop_prefix: "drain_loop mr mb taken bytes queue = (taken', rest) \<Longrightarrow> \<exists>more. taken' = taken @ more"
proof (induction mr mb taken bytes queue rule: drain_loop.induct)
  case (2 mr mb taken bytes r rest')
  then show ?case by (auto split: if_splits)
qed simp

lemma drain_loop_takes:
  assumes "drain_loop mr mb [] 0 queue = (taken, rest)" and "queue \<noteq> []" and "0 < mr"
  shows "taken \<noteq> []"
proof -
  obtain r queue' where "queue = r # queue'" using assms(2) by (cases queue) auto
  with assms(1,3) show ?thesis by (auto split: if_splits dest: drain_loop_prefix)
qed

lemma drain_loop_count:
  "drain_loop mr mb taken bytes queue = (taken', rest) \<Longrightarrow> length taken \<le> mr \<Longrightarrow> length taken' \<le> mr"
  by (induction mr mb taken bytes queue rule: drain_loop.induct) (auto split: if_splits)

definition total_weight :: "request list \<Rightarrow> nat" where
  "total_weight rs = sum_list (map rq_byte_weight rs)"

lemma total_weight_simps [simp]:
  "total_weight [] = 0" "total_weight (xs @ ys) = total_weight xs + total_weight ys"
  "total_weight (r # xs) = rq_byte_weight r + total_weight xs"
  by (simp_all add: total_weight_def)

lemma drain_loop_weight:
  "drain_loop mr mb taken bytes queue = (taken', rest) \<Longrightarrow> mb \<le> usize_max \<Longrightarrow> bytes = total_weight taken \<Longrightarrow>
     bytes \<le> mb \<Longrightarrow> total_weight taken' \<le> mb \<or> length taken' = 1"
proof (induction mr mb taken bytes queue rule: drain_loop.induct)
  case (2 mr mb taken bytes r rest')
  show ?case
  proof (cases "mr \<le> length taken \<or> (taken \<noteq> [] \<and> (mb - bytes < rq_byte_weight r
                \<or> list_ex (\<lambda>r. mb < rq_byte_weight r) taken)) \<or> mb < rq_byte_weight r")
    case True
    with 2 show ?thesis by (auto split: if_splits)
  next
    case False
    then have w: "bytes + rq_byte_weight r \<le> mb" using 2(4,5) by (cases "taken = []") auto
    then have m: "min usize_max (bytes + rq_byte_weight r) = bytes + rq_byte_weight r" using 2(3) by simp
    show ?thesis
      by (rule 2(1)) (use 2 False w m in auto)
  qed
qed simp

text \<open>What one call of \<open>drain_ready\<close> takes: a non-empty prefix of the queue within both limits.\<close>

lemma drain_ready_Some:
  assumes "drain_ready mr mb q = (Some taken, q')" and "0 < mr" and "mb \<le> usize_max"
  shows "aq_requests q = taken @ aq_requests q' \<and> taken \<noteq> [] \<and> length taken \<le> mr
     \<and> (total_weight taken \<le> mb \<or> length taken = 1) \<and> q' = q\<lparr>aq_requests := aq_requests q'\<rparr>"
proof -
  from assms(1) obtain rest where ne: "aq_requests q \<noteq> []"
    and d: "drain_loop mr mb [] 0 (aq_requests q) = (taken, rest)" and q': "q' = q\<lparr>aq_requests := rest\<rparr>"
    by (auto simp: drain_ready_def split: if_splits prod.splits)
  show ?thesis
    using drain_loop_append [OF d] drain_loop_takes [OF d ne assms(2)] drain_loop_count [OF d]
      drain_loop_weight [OF d assms(3)] q' by simp
qed

lemma drain_ready_None: "drain_ready mr mb q = (None, q') \<longleftrightarrow> aq_requests q = [] \<and> q' = q\<lparr>aq_running := False\<rparr>"
  by (auto simp: drain_ready_def split: prod.splits)

section \<open>Writers and runners\<close>

text \<open>
  The tasks around a queue. \<open>ad_waiting\<close> are writers that hold a slot and wait for byte permits;
  \<open>ad_runners\<close> are the runner tasks, each with the requests it has drained and not yet completed.
  \<open>write_batch\<close> starts a runner when \<open>should_start_runner\<close> says so; \<open>run_write_admission\<close> alternates
  draining and completing and stops when there is nothing to drain
  (\<open>src/storage/writemanager/write.rs\<close>). A writer may be cancelled while it waits.
\<close>

record admission =
  ad_queue :: admission_queue
  ad_waiting :: "(batch_operation list \<times> nat) list"
  ad_runners :: "request list list"

inductive writer_step :: "admission \<Rightarrow> admission \<Rightarrow> bool" where
  slot: "acquire_slot (ad_queue s) = Some q \<Longrightarrow>
     writer_step s (s\<lparr>ad_queue := q, ad_waiting := ad_waiting s @ [(operations, bytes)]\<rparr>)"
| cancel: "ad_waiting s = before @ w # after \<Longrightarrow>
     writer_step s (s\<lparr>ad_queue := release_slot (ad_queue s), ad_waiting := before @ after\<rparr>)"
| admitted: "ad_waiting s = before @ (operations, bytes) # after \<Longrightarrow>
     acquire_bytes (byte_permits bytes) (ad_queue s) = Some q \<Longrightarrow> admit operations bytes q = (Inr e, q') \<Longrightarrow>
     writer_step s (s\<lparr>ad_queue := q', ad_waiting := before @ after,
       ad_runners := ad_runners s @ (if eq_should_start_runner e then [[]] else [])\<rparr>)"
| exhausted: "ad_waiting s = before @ (operations, bytes) # after \<Longrightarrow>
     acquire_bytes (byte_permits bytes) (ad_queue s) = Some q \<Longrightarrow> admit operations bytes q = (Inl e, q') \<Longrightarrow>
     writer_step s (s\<lparr>ad_queue := q', ad_waiting := before @ after\<rparr>)"

inductive runner_step :: "admission \<Rightarrow> admission \<Rightarrow> bool" where
  drain: "ad_runners s = before @ [] # after \<Longrightarrow>
     drain_ready MAX_DRAIN_REQUESTS MAX_DRAIN_BYTES (ad_queue s) = (Some requests, q) \<Longrightarrow>
     runner_step s (s\<lparr>ad_queue := q, ad_runners := before @ requests # after\<rparr>)"
| finish: "ad_runners s = before @ (r # rs) # after \<Longrightarrow> complete r res (ad_queue s) = (u, q) \<Longrightarrow>
     runner_step s (s\<lparr>ad_queue := q, ad_runners := before @ rs # after\<rparr>)"
| stop: "ad_runners s = before @ [] # after \<Longrightarrow>
     drain_ready MAX_DRAIN_REQUESTS MAX_DRAIN_BYTES (ad_queue s) = (None, q) \<Longrightarrow>
     runner_step s (s\<lparr>ad_queue := q, ad_runners := before @ after\<rparr>)"

definition admission_init :: admission where
  "admission_init = \<lparr>ad_queue = AdmissionQueue_new, ad_waiting = [], ad_runners = []\<rparr>"

inductive admission_run :: "admission \<Rightarrow> bool" where
  start: "admission_run admission_init"
| writer: "admission_run s \<Longrightarrow> writer_step s t \<Longrightarrow> admission_run t"
| runner: "admission_run s \<Longrightarrow> runner_step s t \<Longrightarrow> admission_run t"

inductive_cases runner_stepE: "runner_step s t"
inductive_cases writer_stepE: "writer_step s t"

text \<open>The admitted requests that are not completed, in the order they will be.\<close>

definition in_flight :: "admission \<Rightarrow> request list" where
  "in_flight s = concat (ad_runners s) @ aq_requests (ad_queue s)"

definition tickets_from :: "u64 \<Rightarrow> nat \<Rightarrow> u64 list" where
  "tickets_from a n = map (\<lambda>i. a + of_nat i) [1..<Suc n]"

definition admission_inv :: "admission \<Rightarrow> bool" where
  "admission_inv s \<longleftrightarrow>
     (let q = ad_queue s; c = aq_completed_ticket q; n = aq_next_ticket q in
      length (ad_runners s) = (if aq_running q then 1 else 0)
      \<and> (aq_requests q \<noteq> [] \<longrightarrow> aq_running q)
      \<and> unat n = unat c + length (in_flight s)
      \<and> map rq_ticket (in_flight s) = tickets_from c (length (in_flight s))
      \<and> map fst (aq_sent q) = tickets_from 0 (unat c) \<and> (\<forall>x \<in> set (aq_sent q). snd x \<noteq> None)
      \<and> aq_slots q + length (ad_waiting s) + length (in_flight s) = MAX_ADMITTED_REQUESTS
      \<and> aq_bytes q + sum_list (map rq_permits (in_flight s)) = ADMITTED_BYTE_BUDGET)"

lemma tickets_from_Nil [simp]: "tickets_from a 0 = []"
  by (simp add: tickets_from_def)

lemma tickets_from_snoc: "tickets_from a (Suc n) = tickets_from a n @ [a + of_nat (Suc n)]"
  by (simp add: tickets_from_def)

lemma tickets_from_Cons: "tickets_from a (Suc n) = (a + 1) # tickets_from (a + 1) n"
  by (induction n) (simp_all add: tickets_from_snoc tickets_from_def)

lemma length_tickets_from [simp]: "length (tickets_from a n) = n"
  by (simp add: tickets_from_def)

lemma admission_inv_start: "admission_inv admission_init"
  by (simp add: admission_inv_def admission_init_def AdmissionQueue_new_def in_flight_def)

lemma one_runner:
  assumes "admission_inv s"
  shows "(ad_runners s = [] \<and> aq_requests (ad_queue s) = [] \<and> \<not> aq_running (ad_queue s))
     \<or> (\<exists>ds. ad_runners s = [ds] \<and> aq_running (ad_queue s))"
  using assms by (auto simp: admission_inv_def Let_def length_Suc_conv split: if_splits)

lemma admission_inv_admitted:
  assumes inv: "admission_inv s" and w: "ad_waiting s = before @ (operations, bytes) # after"
    and acq: "acquire_bytes (byte_permits bytes) (ad_queue s) = Some q" and adm: "admit operations bytes q = (Inr e, q')"
  shows "admission_inv (s\<lparr>ad_queue := q', ad_waiting := before @ after,
           ad_runners := ad_runners s @ (if eq_should_start_runner e then [[]] else [])\<rparr>)"
proof -
  let ?r = "\<lparr>rq_operations = operations, rq_ticket = aq_next_ticket q + 1, rq_permits = byte_permits bytes,
             rq_byte_weight = bytes\<rparr>"
  let ?s = "s\<lparr>ad_queue := q', ad_waiting := before @ after,
           ad_runners := ad_runners s @ (if eq_should_start_runner e then [[]] else [])\<rparr>"
  from acq have q: "q = (ad_queue s)\<lparr>aq_bytes := aq_bytes (ad_queue s) - byte_permits bytes\<rparr>"
    and room: "byte_permits bytes \<le> aq_bytes (ad_queue s)"
    by (auto simp: acquire_bytes_def split: if_splits)
  from adm obtain t where t: "checked_add (aq_next_ticket q) 1 = Some t"
    and e: "eq_should_start_runner e = (\<not> aq_running q)"
    and q': "q' = q\<lparr>aq_next_ticket := t, aq_requests := aq_requests q @ [?r], aq_running := True\<rparr>"
    by (auto simp: admit_def split: option.splits dest: checked_add_one_Some(3))
  have next_t: "unat t = Suc (unat (aq_next_ticket q))" "t = aq_next_ticket q + 1"
    using checked_add_one_Some [OF t] by simp_all
  let ?n = "length (in_flight s)"
  have n: "unat (aq_next_ticket q) = unat (aq_completed_ticket q) + ?n"
    using inv by (simp add: admission_inv_def Let_def q)
  then have "(of_nat (unat (aq_next_ticket q)) :: u64) = of_nat (unat (aq_completed_ticket q) + ?n)" by (simp only:)
  then have tk: "aq_next_ticket q + 1 = aq_completed_ticket q + of_nat (Suc ?n)" by simp
  have fl: "in_flight ?s = in_flight s @ [?r]" by (simp add: in_flight_def q' q)
  have tks: "map rq_ticket (in_flight ?s) = tickets_from (aq_completed_ticket (ad_queue ?s)) (length (in_flight ?s))"
    using inv tk unfolding fl by (simp add: admission_inv_def Let_def tickets_from_snoc q q' del: of_nat_Suc)
  have rest: "unat (aq_next_ticket (ad_queue ?s)) = unat (aq_completed_ticket (ad_queue ?s)) + length (in_flight ?s)"
    "aq_slots (ad_queue ?s) + length (ad_waiting ?s) + length (in_flight ?s) = MAX_ADMITTED_REQUESTS"
    "aq_bytes (ad_queue ?s) + sum_list (map rq_permits (in_flight ?s)) = ADMITTED_BYTE_BUDGET"
    unfolding fl using inv next_t n room w by (simp_all add: admission_inv_def Let_def q q')
  have runners: "length (ad_runners ?s) = (if aq_running (ad_queue ?s) then 1 else 0)"
    using inv e by (simp add: admission_inv_def Let_def q q')
  show ?thesis
    unfolding admission_inv_def Let_def
    using tks rest runners inv by (simp add: admission_inv_def Let_def q q')
qed

lemma admission_inv_writer:
  assumes inv: "admission_inv s" and step: "writer_step s t"
  shows "admission_inv t"
  using step
proof (cases rule: writer_step.cases)
  case (slot q operations bytes)
  with inv show ?thesis by (auto simp: admission_inv_def Let_def in_flight_def acquire_slot_def split: if_splits)
next
  case (cancel before w after)
  with inv show ?thesis by (auto simp: admission_inv_def Let_def in_flight_def release_slot_def)
next
  case (admitted before operations bytes after q e q')
  with admission_inv_admitted [OF inv] show ?thesis by simp
next
  case (exhausted before operations bytes after q e q')
  then have "q' = (ad_queue s)\<lparr>aq_slots := aq_slots (ad_queue s) + 1\<rparr>"
    by (auto simp: admit_def acquire_bytes_def release_request_def split: option.splits if_splits)
  with inv exhausted show ?thesis by (simp add: admission_inv_def Let_def in_flight_def)
qed

lemma singleton_append: "before @ y # after = [x] \<longleftrightarrow> before = [] \<and> y = x \<and> after = []"
  by (cases before) auto

lemma admission_inv_finish:
  assumes inv: "admission_inv s" and rn: "ad_runners s = [r # rs]" and fin: "complete r res (ad_queue s) = (u, q)"
  shows "admission_inv (s\<lparr>ad_queue := q, ad_runners := [rs]\<rparr>) \<and> u = Inr ()"
proof -
  let ?q = "ad_queue s" and ?s = "s\<lparr>ad_queue := q, ad_runners := [rs]\<rparr>"
  let ?c = "aq_completed_ticket ?q"
  have fl: "in_flight s = r # rs @ aq_requests ?q" using rn by (simp add: in_flight_def)
  have n: "unat (aq_next_ticket ?q) = unat ?c + length (in_flight s)"
    and tk: "map rq_ticket (in_flight s) = tickets_from ?c (length (in_flight s))"
    using inv by (simp_all add: admission_inv_def Let_def)
  have t: "rq_ticket r = ?c + 1" and tl: "map rq_ticket (rs @ aq_requests ?q) = tickets_from (?c + 1) (length (rs @ aq_requests ?q))"
    using tk by (simp_all add: fl tickets_from_Cons)
  have "unat ?c + 1 < 2 ^ 64" using n fl unat_lt_64 [of "aq_next_ticket ?q"] by simp
  then have c1: "unat (?c + 1) = Suc (unat ?c)" by (simp add: unat_word_ariths)
  then have "?c + 1 \<le> aq_next_ticket ?q" using n fl by (simp add: word_le_nat_alt)
  then have u: "u = Inr ()" and q: "q = release_request (rq_permits r)
      (?q\<lparr>aq_completed_ticket := ?c + 1, aq_sent := aq_sent ?q @ [(?c + 1, Some res)]\<rparr>)"
    using fin t by (auto simp: complete_def split: if_splits)
  have fl': "in_flight ?s = rs @ aq_requests ?q" by (simp add: in_flight_def q release_request_def)
  have sent: "map fst (aq_sent (ad_queue ?s)) = tickets_from 0 (unat (aq_completed_ticket (ad_queue ?s)))"
    "\<forall>x \<in> set (aq_sent (ad_queue ?s)). snd x \<noteq> None"
    using inv c1 by (auto simp: admission_inv_def Let_def q release_request_def tickets_from_snoc add.commute)
  have tk': "map rq_ticket (in_flight ?s) = tickets_from (aq_completed_ticket (ad_queue ?s)) (length (in_flight ?s))"
    using tl unfolding fl' by (simp add: q release_request_def)
  have counts: "unat (aq_next_ticket (ad_queue ?s)) = unat (aq_completed_ticket (ad_queue ?s)) + length (in_flight ?s)"
    "aq_slots (ad_queue ?s) + length (ad_waiting ?s) + length (in_flight ?s) = MAX_ADMITTED_REQUESTS"
    "aq_bytes (ad_queue ?s) + sum_list (map rq_permits (in_flight ?s)) = ADMITTED_BYTE_BUDGET"
    unfolding fl' using inv n c1 fl by (simp_all add: admission_inv_def Let_def q release_request_def)
  have run: "aq_running (ad_queue ?s)" using inv rn by (simp add: admission_inv_def Let_def q release_request_def split: if_splits)
  have "admission_inv ?s" unfolding admission_inv_def Let_def using sent tk' counts run by simp
  with u show ?thesis by simp
qed

lemma admission_inv_runner:
  assumes inv: "admission_inv s" and step: "runner_step s t"
  shows "admission_inv t"
  using step
proof (cases rule: runner_step.cases)
  case (drain before after requests q)
  then have rn: "ad_runners s = [[]]" "before = []" "after = []"
    using one_runner [OF inv] by (auto simp: singleton_append)
  have lim: "0 < MAX_DRAIN_REQUESTS" "MAX_DRAIN_BYTES \<le> usize_max"
    by (simp_all add: MAX_DRAIN_REQUESTS_def MAX_DRAIN_BYTES_def ADMITTED_BYTE_BUDGET_def size_bounds)
  note d = drain_ready_Some [OF drain(3) lim]
  obtain rest where q: "q = (ad_queue s)\<lparr>aq_requests := rest\<rparr>" "aq_requests (ad_queue s) = requests @ rest"
    using d by metis
  then have "in_flight t = in_flight s" using rn drain by (simp add: in_flight_def)
  with inv show ?thesis using one_runner [OF inv] rn by (simp add: admission_inv_def Let_def drain q)
next
  case (finish before r rs after res u q)
  then have "ad_runners s = [r # rs]" "before = []" "after = []"
    using one_runner [OF inv] by (auto simp: singleton_append)
  with admission_inv_finish [OF inv] finish show ?thesis by simp
next
  case (stop before after q)
  then have "ad_runners s = [[]]" "before = []" "after = []"
    using one_runner [OF inv] by (auto simp: singleton_append)
  with inv stop show ?thesis
    by (auto simp: admission_inv_def Let_def drain_ready_None in_flight_def)
qed

lemma admission_run_inv: "admission_run s \<Longrightarrow> admission_inv s"
  by (induction rule: admission_run.induct)
    (auto intro: admission_inv_start admission_inv_writer admission_inv_runner)

section \<open>Properties\<close>

text \<open>
  C31: whatever writers and runners do, and in whatever order, a pending request always has exactly
  one runner (no wake-up is lost and no two runners race), requests complete in the order they were
  admitted, each ticket exactly once and with a result, at most 64 requests are admitted at a time,
  and the byte permits of the admitted requests never exceed the budget.
\<close>

theorem admission_safe:
  assumes "admission_run s"
  shows "length (ad_runners s) = (if aq_running (ad_queue s) then 1 else 0)
     \<and> (in_flight s \<noteq> [] \<longrightarrow> length (ad_runners s) = 1)
     \<and> map rq_ticket (in_flight s) = tickets_from (aq_completed_ticket (ad_queue s)) (length (in_flight s))
     \<and> map fst (aq_sent (ad_queue s)) = tickets_from 0 (unat (aq_completed_ticket (ad_queue s)))
     \<and> (\<forall>x \<in> set (aq_sent (ad_queue s)). snd x \<noteq> None)
     \<and> length (in_flight s) \<le> MAX_ADMITTED_REQUESTS
     \<and> sum_list (map rq_permits (in_flight s)) \<le> ADMITTED_BYTE_BUDGET"
proof -
  have inv: "admission_inv s" by (rule admission_run_inv [OF assms])
  then have "in_flight s \<noteq> [] \<longrightarrow> length (ad_runners s) = 1"
    using one_runner [OF inv] by (auto simp: in_flight_def)
  with inv show ?thesis by (simp add: admission_inv_def Let_def)
qed

text \<open>Two steps per request and one to stop: how much a runner has left to do.\<close>

definition runner_work :: "admission \<Rightarrow> nat" where
  "runner_work s = 2 * length (aq_requests (ad_queue s)) + length (concat (ad_runners s)) + length (ad_runners s)"

lemma runner_work_decreases:
  assumes "runner_step s t"
  shows "runner_work t < runner_work s"
  using assms
proof (cases rule: runner_step.cases)
  case (drain before after requests q)
  have "aq_requests (ad_queue s) = requests @ aq_requests q \<and> requests \<noteq> []"
    using drain_ready_Some [OF drain(3)]
    by (simp add: MAX_DRAIN_REQUESTS_def MAX_DRAIN_BYTES_def ADMITTED_BYTE_BUDGET_def size_bounds)
  then show ?thesis using drain by (auto simp: runner_work_def)
next
  case (finish before r rs after res u q)
  then have "aq_requests q = aq_requests (ad_queue s)"
    by (auto simp: complete_def release_request_def split: if_splits)
  then show ?thesis using finish by (simp add: runner_work_def)
next
  case (stop before after q)
  then show ?thesis by (auto simp: runner_work_def drain_ready_None)
qed

lemma runner_step_exists:
  assumes "admission_inv s" and "ad_runners s \<noteq> []"
  shows "\<exists>t. runner_step s t"
proof -
  obtain ds where ds: "ad_runners s = [] @ ds # []" using one_runner [OF assms(1)] assms(2) by auto
  show ?thesis
  proof (cases ds)
    case Nil
    obtain d q where dq: "drain_ready MAX_DRAIN_REQUESTS MAX_DRAIN_BYTES (ad_queue s) = (d, q)" by force
    show ?thesis
    proof (cases d)
      case None
      with Nil ds dq runner_step.stop [of s "[]" "[]" q] show ?thesis by auto
    next
      case (Some requests)
      with Nil ds dq runner_step.drain [of s "[]" "[]" requests q] show ?thesis by auto
    qed
  next
    case (Cons r rs)
    obtain u q where "complete r (Inr ()) (ad_queue s) = (u, q)" by force
    with Cons ds runner_step.finish [of s "[]" r rs "[]" "Inr ()" u q] show ?thesis by auto
  qed
qed

lemma runner_step_next_ticket: "runner_step s t \<Longrightarrow> aq_next_ticket (ad_queue t) = aq_next_ticket (ad_queue s)"
  by (erule runner_step.cases) (auto simp: drain_ready_def complete_def release_request_def split: if_splits prod.splits)

text \<open>
  C32: every admitted write is completed. From any state the system can reach, a sequence of steps
  of the runner alone is finite, at most \<open>runner_work\<close> long; and it can only come to a stop when the
  queue is empty, every ticket handed out is complete with a result sent, the barrier
  \<open>await_completed_through\<close> is open for all of them, and a writer that waits for byte permits can take
  them.
\<close>

theorem admission_live:
  assumes run: "admission_run s" and steps: "(runner_step ^^ n) s t"
  shows "n \<le> runner_work s
     \<and> ((\<nexists>u. runner_step t u) \<longrightarrow>
          in_flight t = [] \<and> \<not> aq_running (ad_queue t)
          \<and> aq_completed_ticket (ad_queue t) = aq_next_ticket (ad_queue s)
          \<and> map fst (aq_sent (ad_queue t)) = tickets_from 0 (unat (aq_next_ticket (ad_queue s)))
          \<and> await_completed_through (last_admitted_ticket (ad_queue s)) (ad_queue t)
          \<and> (\<forall>(operations, bytes) \<in> set (ad_waiting t). acquire_bytes (byte_permits bytes) (ad_queue t) \<noteq> None))"
proof -
  have reach: "admission_run u \<and> k + runner_work u \<le> runner_work s
      \<and> aq_next_ticket (ad_queue u) = aq_next_ticket (ad_queue s)" if "(runner_step ^^ k) s u" for k u
    using that
  proof (induction k arbitrary: u)
    case (Suc k)
    then obtain v where v: "(runner_step ^^ k) s v" "runner_step v u" by (auto simp: relcompp_apply)
    with Suc.IH [OF v(1)] runner_work_decreases [OF v(2)] runner_step_next_ticket [OF v(2)] show ?case
      by (auto intro: admission_run.runner)
  qed (use run in simp)
  have inv: "admission_inv t" using reach [OF steps] admission_run_inv by blast
  have "in_flight t = [] \<and> \<not> aq_running (ad_queue t)" if "\<nexists>u. runner_step t u"
    using runner_step_exists [OF inv] that one_runner [OF inv] by (auto simp: in_flight_def)
  moreover have "aq_completed_ticket (ad_queue t) = aq_next_ticket (ad_queue t) \<and> aq_bytes (ad_queue t) = ADMITTED_BYTE_BUDGET"
    if "in_flight t = []" using inv that by (simp add: admission_inv_def Let_def word_unat_eq_iff)
  moreover have "byte_permits b \<le> ADMITTED_BYTE_BUDGET" for b
    by (simp add: byte_permits_def ADMITTED_BYTE_BUDGET_def)
  moreover have "map fst (aq_sent (ad_queue t)) = tickets_from 0 (unat (aq_completed_ticket (ad_queue t)))"
    using inv by (simp add: admission_inv_def Let_def)
  ultimately show ?thesis
    using reach [OF steps] by (simp add: await_completed_through_def last_admitted_ticket_def acquire_bytes_def)
qed

text \<open>
  C33: draining respects its limits. What one call hands to the runner is the front of the queue, not
  empty, at most 64 requests, and at most 16 MiB of estimated payload unless it is a single request.
\<close>

theorem drain_ready_bounded:
  assumes "drain_ready MAX_DRAIN_REQUESTS MAX_DRAIN_BYTES q = (Some taken, q')"
  shows "aq_requests q = taken @ aq_requests q' \<and> taken \<noteq> [] \<and> length taken \<le> MAX_DRAIN_REQUESTS
     \<and> (total_weight taken \<le> MAX_DRAIN_BYTES \<or> length taken = 1)"
  using drain_ready_Some [OF assms]
  by (simp add: MAX_DRAIN_REQUESTS_def MAX_DRAIN_BYTES_def ADMITTED_BYTE_BUDGET_def size_bounds)

section \<open>Witnesses\<close>

text \<open>One writer admitted, its runner started; then everything completed.\<close>

definition sample_request :: request where
  "sample_request = \<lparr>rq_operations = [Batch_Put [1] [2]], rq_ticket = 1, rq_permits = 101, rq_byte_weight = 101\<rparr>"

definition sample_admission :: admission where
  "sample_admission =
     \<lparr>ad_queue = \<lparr>aq_requests = [sample_request], aq_running = True, aq_next_ticket = 1, aq_completed_ticket = 0,
                  aq_slots = 63, aq_bytes = 16777115, aq_sent = []\<rparr>,
      ad_waiting = [], ad_runners = [[]]\<rparr>"

definition sample_idle :: admission where
  "sample_idle =
     \<lparr>ad_queue = \<lparr>aq_requests = [], aq_running = False, aq_next_ticket = 1, aq_completed_ticket = 1,
                  aq_slots = 64, aq_bytes = 16777216, aq_sent = [(1, Some (Inr ()))]\<rparr>,
      ad_waiting = [], ad_runners = []\<rparr>"

lemma sample_admission_run: "admission_run sample_admission"
proof -
  let ?q = "AdmissionQueue_new\<lparr>aq_slots := 63\<rparr>"
  let ?s = "admission_init\<lparr>ad_queue := ?q, ad_waiting := [([Batch_Put [1] [2]], 101)]\<rparr>"
  have "writer_step admission_init ?s"
    using writer_step.slot [of admission_init ?q "[Batch_Put [1] [2]]" 101]
    by (simp add: admission_init_def acquire_slot_def AdmissionQueue_new_def MAX_ADMITTED_REQUESTS_def)
  moreover have "writer_step ?s sample_admission"
    using writer_step.admitted [of ?s "[]" "[Batch_Put [1] [2]]" 101 "[]" "?q\<lparr>aq_bytes := 16777115\<rparr>"
        "\<lparr>eq_ticket = 1, eq_should_start_runner = True\<rparr>" "ad_queue sample_admission"]
    by (simp add: admission_init_def acquire_bytes_def AdmissionQueue_new_def sample_admission_def admit_def
        byte_permits_def ADMITTED_BYTE_BUDGET_def checked_add_def sample_request_def)
  ultimately show ?thesis by (meson admission_run.start admission_run.writer)
qed

lemma sample_runner_steps: "(runner_step ^^ 3) sample_admission sample_idle"
proof -
  let ?s = "sample_admission\<lparr>ad_queue := (ad_queue sample_admission)\<lparr>aq_requests := []\<rparr>, ad_runners := [[sample_request]]\<rparr>"
  let ?t = "sample_idle\<lparr>ad_queue := (ad_queue sample_idle)\<lparr>aq_running := True\<rparr>, ad_runners := [[]]\<rparr>"
  have "runner_step sample_admission ?s"
    using runner_step.drain [of sample_admission "[]" "[]" "[sample_request]" "(ad_queue sample_admission)\<lparr>aq_requests := []\<rparr>"]
    by (simp add: sample_admission_def drain_ready_def MAX_DRAIN_REQUESTS_def MAX_DRAIN_BYTES_def
        ADMITTED_BYTE_BUDGET_def sample_request_def)
  moreover have "runner_step ?s ?t"
    using runner_step.finish [of ?s "[]" sample_request "[]" "[]" "Inr ()" "Inr ()" "(ad_queue sample_idle)\<lparr>aq_running := True\<rparr>"]
    by (simp add: sample_admission_def sample_idle_def complete_def release_request_def sample_request_def)
  moreover have "runner_step ?t sample_idle"
    using runner_step.stop [of ?t "[]" "[]" "ad_queue sample_idle"]
    by (simp add: sample_idle_def drain_ready_def)
  ultimately show ?thesis by (auto simp: numeral_3_eq_3 relcompp_apply)
qed

theorem admission_safe_witness:
  "admission_run sample_admission \<and> length (ad_runners sample_admission) = 1
   \<and> map rq_ticket (in_flight sample_admission) = tickets_from 0 1"
  using sample_admission_run admission_safe [OF sample_admission_run]
  by (simp add: sample_admission_def in_flight_def)

theorem admission_live_witness:
  "(runner_step ^^ 3) sample_admission sample_idle \<and> 3 \<le> runner_work sample_admission
   \<and> aq_completed_ticket (ad_queue sample_idle) = 1"
proof -
  have "\<nexists>u. runner_step sample_idle u" by (auto simp: sample_idle_def elim!: runner_stepE)
  then show ?thesis
    using sample_runner_steps admission_live [OF sample_admission_run sample_runner_steps]
    by (simp add: sample_admission_def)
qed

theorem drain_ready_bounded_witness:
  "drain_ready MAX_DRAIN_REQUESTS MAX_DRAIN_BYTES (ad_queue sample_admission)
     = (Some [sample_request], (ad_queue sample_admission)\<lparr>aq_requests := []\<rparr>)
   \<and> length [sample_request] \<le> MAX_DRAIN_REQUESTS"
proof -
  have d: "drain_ready MAX_DRAIN_REQUESTS MAX_DRAIN_BYTES (ad_queue sample_admission)
     = (Some [sample_request], (ad_queue sample_admission)\<lparr>aq_requests := []\<rparr>)"
    by (simp add: sample_admission_def drain_ready_def MAX_DRAIN_REQUESTS_def MAX_DRAIN_BYTES_def
        ADMITTED_BYTE_BUDGET_def sample_request_def)
  then show ?thesis using drain_ready_bounded [OF d] by blast
qed

end
