(* ===== verification/Wal_Format.thy ===== *)
theory Wal_Format
  imports Records
begin

text \<open>
  The byte formats of the write-ahead log (\<open>src/storage/recovermanager/wal.rs\<close>,
  \<open>src/storage/recovermanager/log_store.rs\<close>): commands, the segment header, the frames of a
  transaction, the records of the old format and the references to logged values. \<open>crc\<close> is
  \<open>crc32fast::hash\<close>; an incremental \<open>Hasher\<close> fed in pieces is \<open>crc\<close> of their concatenation.
\<close>

section \<open>Constants\<close>

definition WAL_HEADER_SIZE :: nat where "WAL_HEADER_SIZE = 36"
definition WAL_MAGIC :: bytes where "WAL_MAGIC = [0x57, 0x41, 0x4C, 0x4D, 0x47, 0x49, 0x43, 0]"
definition WAL_VERSION :: u64 where "WAL_VERSION = 2"
definition LEGACY_WAL_VERSION :: u64 where "LEGACY_WAL_VERSION = 1"
definition MAX_FRAME_SIZE :: nat where "MAX_FRAME_SIZE = 67108864"
definition FRAME_HEADER_SIZE :: nat where "FRAME_HEADER_SIZE = 20"
definition MAX_GROUP_COUNT :: nat where "MAX_GROUP_COUNT = 1024"
definition MAX_GROUP_ENCODED_SIZE :: nat where "MAX_GROUP_ENCODED_SIZE = 268435456"
definition WAL_VALUE_REF_VERSION :: byte where "WAL_VALUE_REF_VERSION = 1"
definition WAL_VALUE_REF_ENCODED_SIZE :: nat where "WAL_VALUE_REF_ENCODED_SIZE = 94"
definition MIN_WAL_UPDATE_FRAME_SIZE :: nat where
  "MIN_WAL_UPDATE_FRAME_SIZE = FRAME_HEADER_SIZE + 42"
definition MAX_WAL_UPDATE_FRAME_SIZE :: nat where
  "MAX_WAL_UPDATE_FRAME_SIZE = FRAME_HEADER_SIZE + MAX_FRAME_SIZE"

lemmas wal_sizes = WAL_HEADER_SIZE_def MAX_FRAME_SIZE_def FRAME_HEADER_SIZE_def
  MAX_GROUP_COUNT_def MAX_GROUP_ENCODED_SIZE_def WAL_VALUE_REF_ENCODED_SIZE_def
  MIN_WAL_UPDATE_FRAME_SIZE_def MAX_WAL_UPDATE_FRAME_SIZE_def

section \<open>Commands\<close>

record log_command =
  lc_record_type :: record_type
  lc_key :: bytes
  lc_value :: bytes
  lc_lsn :: u64

definition LogCommand_new :: "record_type \<Rightarrow> bytes \<Rightarrow> bytes \<Rightarrow> u64 \<Rightarrow> log_command" where
  "LogCommand_new t k v lsn = \<lparr>lc_record_type = t, lc_key = k, lc_value = v, lc_lsn = lsn\<rparr>"

definition LogCommand_serialize :: "log_command \<Rightarrow> bytes" where
  "LogCommand_serialize c =
     [rt_byte (lc_record_type c)]
     @ u64_le (of_nat (length (lc_key c))) @ lc_key c
     @ u64_le (of_nat (length (lc_value c))) @ lc_value c
     @ u64_le (lc_lsn c)"

text \<open>\<open>data[a..b]\<close>, with the bounds computed in \<open>usize\<close>: a panic unless \<open>a \<le> b \<le> len\<close>.\<close>

definition slice_index :: "bytes \<Rightarrow> u64 \<Rightarrow> u64 \<Rightarrow> bytes result" where
  "slice_index data a b =
     (if a \<le> b \<and> unat b \<le> length data
      then Inr (take (unat b - unat a) (drop (unat a) data))
      else Inl (Panic ''range out of bounds''))"

definition LogCommand_deserialize :: "bytes \<Rightarrow> log_command result" where
  "LogCommand_deserialize data =
     (case data of
        [] \<Rightarrow> Inl (Panic ''index out of bounds'')
      | b # _ \<Rightarrow>
          rbind (rt_of_byte ''Invalid record type'' b) (\<lambda>record_type.
          rbind (slice_index data 1 9) (\<lambda>key_len_buf.
          let key_len = u64_of_le key_len_buf in
          rbind (slice_index data 9 (9 + key_len)) (\<lambda>key.
          let value_len_start = 9 + key_len in
          rbind (slice_index data value_len_start (value_len_start + 8)) (\<lambda>value_len_buf.
          let value_len = u64_of_le value_len_buf in
          rbind (slice_index data (value_len_start + 8) (value_len_start + 8 + value_len)) (\<lambda>v.
          let lsn_start = value_len_start + 8 + value_len in
          rbind (slice_index data lsn_start (lsn_start + 8)) (\<lambda>lsn_buf.
          Inr \<lparr>lc_record_type = record_type, lc_key = key, lc_value = v,
               lc_lsn = u64_of_le lsn_buf\<rparr>)))))))"

section \<open>The segment header\<close>

record wal_header =
  wh_magic :: bytes
  wh_version :: u64
  wh_last_checkpoint :: u64
  wh_last_checkpoint_offset :: u64

definition WALHeader_encode :: "(bytes \<Rightarrow> u32) \<Rightarrow> wal_header \<Rightarrow> bytes" where
  "WALHeader_encode crc h =
     (let buf = wh_magic h @ u64_be (wh_version h) @ u64_be (wh_last_checkpoint h)
                @ u64_be (wh_last_checkpoint_offset h)
      in buf @ u32_be (crc buf))"

definition WALHeader_decode :: "(bytes \<Rightarrow> u32) \<Rightarrow> bytes \<Rightarrow> wal_header result" where
  "WALHeader_decode crc buf =
     (if length buf < WAL_HEADER_SIZE
      then Inl (Err (Corrupted ''Buffer too short for WAL header''))
      else
        let magic = take 8 buf;
            version = u64_of_be (take 8 (drop 8 buf))
        in
        if magic \<noteq> WAL_MAGIC then Inl (Err (Corrupted ''Invalid WAL magic number''))
        else if version \<noteq> LEGACY_WAL_VERSION \<and> version \<noteq> WAL_VERSION
        then Inl (Err (Corrupted ''Unsupported WAL version''))
        else if u32_of_be (take 4 (drop 32 buf)) \<noteq> crc (take 32 buf)
        then Inl (Err (Corrupted ''WAL header checksum mismatch''))
        else Inr \<lparr>wh_magic = magic, wh_version = version,
                  wh_last_checkpoint = u64_of_be (take 8 (drop 16 buf)),
                  wh_last_checkpoint_offset = u64_of_be (take 8 (drop 24 buf))\<rparr>)"

definition WALHeader_default :: wal_header where
  "WALHeader_default =
     \<lparr>wh_magic = WAL_MAGIC, wh_version = WAL_VERSION, wh_last_checkpoint = 0,
      wh_last_checkpoint_offset = 0\<rparr>"

section \<open>Frames\<close>

datatype transaction_record = Update log_command | Commit

record wal_frame =
  fr_lsn :: u64
  fr_transaction_id :: u64
  fr_previous_lsn :: u64
  fr_record :: transaction_record

definition frame_body :: "wal_frame \<Rightarrow> bytes" where
  "frame_body f =
     (case fr_record f of Update _ \<Rightarrow> 1 | Commit \<Rightarrow> 2)
     # u64_be (fr_transaction_id f) @ u64_be (fr_previous_lsn f)
     @ (case fr_record f of
          Update c \<Rightarrow>
            rt_byte (lc_record_type c) # u64_be (lc_lsn c)
            @ u64_be (of_nat (length (lc_key c))) @ u64_be (of_nat (length (lc_value c)))
            @ lc_key c @ lc_value c
        | Commit \<Rightarrow> [])"

definition encode_frame :: "(bytes \<Rightarrow> u32) \<Rightarrow> wal_frame \<Rightarrow> bytes result" where
  "encode_frame crc f =
     rbind (case fr_record f of
              Update c \<Rightarrow>
                guard_err (MAX_FRAME_SIZE < 42 + length (lc_key c) + length (lc_value c))
                  (StorageError ''WAL frame exceeds 64 MiB'')
            | Commit \<Rightarrow> Inr ()) (\<lambda>_.
     let body = frame_body f in
     rbind (guard_err (MAX_FRAME_SIZE < length body) (StorageError ''WAL frame exceeds 64 MiB''))
       (\<lambda>_.
     let bytes = u64_be (fr_lsn f) @ u32_be (of_nat (length body));
         bytes = bytes @ u32_be (crc (bytes @ body));
         bytes = bytes @ u32_be (crc bytes)
     in Inr (bytes @ body)))"

text \<open>\<open>Decoder::take\<close> is \<open>read_exact\<close>; \<open>number\<close> and \<open>payload\<close> read through it.\<close>

definition decode_record_type :: "byte \<Rightarrow> record_type result" where
  "decode_record_type b = rt_of_byte ''Invalid WAL operation'' b"

definition decode_frame :: "u64 \<Rightarrow> bytes \<Rightarrow> wal_frame result" where
  "decode_frame lsn body =
     rbind (rd_bind read_u8 (\<lambda>kind.
            rd_bind read_u64_be (\<lambda>transaction_id.
            rd_bind read_u64_be (\<lambda>previous_lsn.
            rd_bind
              (if kind = 1 then
                 rd_bind read_u8 (\<lambda>t.
                 rd_bind (rd_lift (decode_record_type t)) (\<lambda>record_type.
                 rd_bind read_u64_be (\<lambda>command_lsn.
                 rd_bind read_u64_be (\<lambda>key_length.
                 rd_bind read_u64_be (\<lambda>value_length.
                 rd_bind (read_exact (unat key_length)) (\<lambda>key.
                 rd_bind (read_exact (unat value_length)) (\<lambda>v.
                 rd_bind (rd_lift (guard_err (record_type = Delete \<and> v \<noteq> [])
                            (Corrupted ''Delete contains a value''))) (\<lambda>_.
                 rd_return (Update (LogCommand_new record_type key v command_lsn)))))))))) 
               else if kind = 2 then rd_return Commit
               else rd_fail (Err (Corrupted ''Invalid WAL transaction record''))) (\<lambda>record.
            rd_return \<lparr>fr_lsn = lsn, fr_transaction_id = transaction_id,
                       fr_previous_lsn = previous_lsn, fr_record = record\<rparr>)))) body)
       (\<lambda>(frame, remaining).
     if remaining \<noteq> [] then Inl (Err (Corrupted ''Trailing WAL record bytes'')) else Inr frame)"

definition be_u32 :: "bytes \<Rightarrow> nat \<Rightarrow> u32" where
  "be_u32 bytes offset = u32_of_be (take 4 (drop offset bytes))"

definition be_u64 :: "bytes \<Rightarrow> nat \<Rightarrow> u64" where
  "be_u64 bytes offset = u64_of_be (take 8 (drop offset bytes))"

definition decode_frame_header :: "(bytes \<Rightarrow> u32) \<Rightarrow> bytes \<Rightarrow> (u64 \<times> u32) result" where
  "decode_frame_header crc bytes =
     (if be_u32 bytes 16 \<noteq> crc (take 16 bytes)
      then Inl (Err (Corrupted ''WAL frame header checksum mismatch''))
      else Inr (be_u64 bytes 0, be_u32 bytes 8))"

definition verify_frame_body :: "(bytes \<Rightarrow> u32) \<Rightarrow> bytes \<Rightarrow> bytes \<Rightarrow> u32 result" where
  "verify_frame_body crc header body =
     (let checksum = be_u32 header 12 in
      if checksum \<noteq> crc (take 12 header @ body)
      then Inl (Err (Corrupted ''WAL frame checksum mismatch'')) else Inr checksum)"

section \<open>Records of the old format\<close>

record wal_record =
  wr_record_type :: byte
  wr_lsn :: u64
  wr_key :: bytes
  wr_value :: bytes
  wr_checksum :: u32

definition decode_legacy :: "(bytes \<Rightarrow> u32) \<Rightarrow> bytes \<Rightarrow> (wal_record \<times> nat) result" where
  "decode_legacy crc bytes =
     rbind (rd_bind read_u8 (\<lambda>t.
            rd_bind (rd_lift (decode_record_type t)) (\<lambda>_.
            rd_bind read_u64_be (\<lambda>lsn.
            rd_bind read_u64_be (\<lambda>key_length.
            rd_bind (read_exact (unat key_length)) (\<lambda>key.
            rd_bind read_u64_be (\<lambda>value_length.
            rd_bind (read_exact (unat value_length)) (\<lambda>v rest.
            rd_bind read_u32_be (\<lambda>checksum.
            rd_return (\<lparr>wr_record_type = t, wr_lsn = lsn, wr_key = key, wr_value = v,
                        wr_checksum = checksum\<rparr>, length bytes - length rest)) rest))))))) bytes)
       (\<lambda>((record, payload_length), remaining).
     if crc (take payload_length bytes) \<noteq> wr_checksum record
     then Inl (Err (Corrupted ''Legacy WAL checksum mismatch''))
     else Inr (record, length bytes - length remaining))"

section \<open>Value references\<close>

record wal_value_ref =
  vr_segment_id :: u64
  vr_transaction_id :: u64
  vr_transaction_start_offset :: u64
  vr_commit_offset :: u64
  vr_commit_lsn :: u64
  vr_frame_offset :: u64
  vr_frame_length :: u32
  vr_physical_lsn :: u64
  vr_application_sequence :: u64
  vr_record_type :: record_type
  vr_key_length :: u32
  vr_key_checksum :: u32
  vr_value_length :: u64
  vr_value_checksum :: u32

definition WalValueRef_payload :: "wal_value_ref \<Rightarrow> bytes" where
  "WalValueRef_payload r =
     [WAL_VALUE_REF_VERSION]
     @ u64_be (vr_segment_id r) @ u64_be (vr_transaction_id r)
     @ u64_be (vr_transaction_start_offset r) @ u64_be (vr_commit_offset r)
     @ u64_be (vr_commit_lsn r) @ u64_be (vr_frame_offset r) @ u32_be (vr_frame_length r)
     @ u64_be (vr_physical_lsn r) @ u64_be (vr_application_sequence r)
     @ [rt_byte (vr_record_type r)]
     @ u32_be (vr_key_length r) @ u32_be (vr_key_checksum r)
     @ u64_be (vr_value_length r) @ u32_be (vr_value_checksum r)"

definition WalValueRef_encode :: "(bytes \<Rightarrow> u32) \<Rightarrow> wal_value_ref \<Rightarrow> bytes" where
  "WalValueRef_encode crc r =
     (let bytes = WalValueRef_payload r in bytes @ u32_be (crc bytes))"

definition WalValueRef_validate :: "wal_value_ref \<Rightarrow> unit result" where
  "WalValueRef_validate r =
     rbind (guard_err (vr_transaction_id r = 0 \<or> vr_physical_lsn r < vr_transaction_id r
                       \<or> vr_commit_lsn r \<le> vr_physical_lsn r)
              (Corrupted ''Invalid WAL value reference LSNs'')) (\<lambda>_.
     rbind (guard_err (vr_transaction_start_offset r < of_nat WAL_HEADER_SIZE
                       \<or> vr_commit_offset r \<le> vr_transaction_start_offset r
                       \<or> vr_frame_offset r < vr_transaction_start_offset r)
              (Corrupted ''Invalid WAL value reference offsets'')) (\<lambda>_.
     case checked_add (vr_frame_offset r) (ucast (vr_frame_length r)) of
       None \<Rightarrow> Inl (Err (Corrupted ''WAL value reference overflow''))
     | Some frame_end \<Rightarrow>
     rbind (guard_err (vr_commit_offset r < frame_end)
              (Corrupted ''WAL value reference frame is not before its commit'')) (\<lambda>_.
     let body_length = 42 + unat (vr_key_length r) + unat (vr_value_length r) in
     rbind (guard_err (usize_max < body_length)
              (Corrupted ''WAL value reference length overflow'')) (\<lambda>_.
     rbind (guard_err (MAX_FRAME_SIZE < body_length)
              (Corrupted ''WAL value reference payload is too large'')) (\<lambda>_.
     rbind (guard_err (unat (vr_frame_length r) \<noteq> FRAME_HEADER_SIZE + body_length
                       \<or> \<not> (MIN_WAL_UPDATE_FRAME_SIZE \<le> unat (vr_frame_length r)
                            \<and> unat (vr_frame_length r) \<le> MAX_WAL_UPDATE_FRAME_SIZE))
              (Corrupted ''Invalid WAL value reference frame length'')) (\<lambda>_.
     guard_err (vr_record_type r = Delete \<and> vr_value_length r \<noteq> 0)
       (Corrupted ''Delete WAL value reference has a value'')))))))"

definition WalValueRef_decode :: "(bytes \<Rightarrow> u32) \<Rightarrow> bytes \<Rightarrow> wal_value_ref result" where
  "WalValueRef_decode crc bytes =
     (if length bytes \<noteq> WAL_VALUE_REF_ENCODED_SIZE
      then Inl (Err (Corrupted ''Invalid WAL value reference length''))
      else if bytes ! 0 \<noteq> WAL_VALUE_REF_VERSION
      then Inl (Err (Corrupted ''Unsupported WAL value reference version''))
      else if crc (take 90 bytes) \<noteq> be_u32 bytes 90
      then Inl (Err (Corrupted ''WAL value reference checksum mismatch''))
      else
        rbind (decode_record_type (bytes ! 69)) (\<lambda>record_type.
        let r = \<lparr>vr_segment_id = be_u64 bytes 1, vr_transaction_id = be_u64 bytes 9,
                 vr_transaction_start_offset = be_u64 bytes 17, vr_commit_offset = be_u64 bytes 25,
                 vr_commit_lsn = be_u64 bytes 33, vr_frame_offset = be_u64 bytes 41,
                 vr_frame_length = be_u32 bytes 49, vr_physical_lsn = be_u64 bytes 53,
                 vr_application_sequence = be_u64 bytes 61, vr_record_type = record_type,
                 vr_key_length = be_u32 bytes 70, vr_key_checksum = be_u32 bytes 74,
                 vr_value_length = be_u64 bytes 78, vr_value_checksum = be_u32 bytes 86\<rparr>
        in rbind (WalValueRef_validate r) (\<lambda>_. Inr r)))"

section \<open>Round trips\<close>

subsection \<open>Headers\<close>

lemma length_WAL_MAGIC [simp]: "length WAL_MAGIC = 8"
  by (simp add: WAL_MAGIC_def)

definition versioned_header :: "u64 \<Rightarrow> wal_header" where
  "versioned_header version = WALHeader_default\<lparr>wh_version := version\<rparr>"

definition header_ok :: "wal_header \<Rightarrow> bool" where
  "header_ok h \<longleftrightarrow>
     wh_magic h = WAL_MAGIC \<and> (wh_version h = LEGACY_WAL_VERSION \<or> wh_version h = WAL_VERSION)"

lemma length_WALHeader_encode:
  "header_ok h \<Longrightarrow> length (WALHeader_encode crc h) = WAL_HEADER_SIZE"
  by (simp add: WALHeader_encode_def header_ok_def Let_def WAL_HEADER_SIZE_def)

lemma WALHeader_decode_encode:
  assumes "header_ok h"
  shows "WALHeader_decode crc (WALHeader_encode crc h @ rest) = Inr h"
  using assms
  by (simp add: WALHeader_decode_def WALHeader_encode_def header_ok_def Let_def WAL_HEADER_SIZE_def)

lemma header_ok_default [simp]: "header_ok WALHeader_default"
  by (simp add: header_ok_def WALHeader_default_def)

subsection \<open>Frames\<close>

text \<open>The frames the log writes: of a size the format allows, no value on a delete.\<close>

definition command_ok :: "log_command \<Rightarrow> bool" where
  "command_ok c \<longleftrightarrow>
     42 + length (lc_key c) + length (lc_value c) \<le> MAX_FRAME_SIZE
     \<and> (lc_record_type c = Delete \<longrightarrow> lc_value c = [])"

definition frame_ok :: "wal_frame \<Rightarrow> bool" where
  "frame_ok f \<longleftrightarrow> (case fr_record f of Update c \<Rightarrow> command_ok c | Commit \<Rightarrow> True)"

definition frame_head :: "(bytes \<Rightarrow> u32) \<Rightarrow> wal_frame \<Rightarrow> bytes" where
  "frame_head crc f =
     (let bytes = u64_be (fr_lsn f) @ u32_be (of_nat (length (frame_body f)));
          bytes = bytes @ u32_be (crc (bytes @ frame_body f))
      in bytes @ u32_be (crc bytes))"

definition frame_bytes :: "(bytes \<Rightarrow> u32) \<Rightarrow> wal_frame \<Rightarrow> bytes" where
  "frame_bytes crc f = frame_head crc f @ frame_body f"

definition frame_crc :: "(bytes \<Rightarrow> u32) \<Rightarrow> wal_frame \<Rightarrow> u32" where
  "frame_crc crc f = crc (u64_be (fr_lsn f) @ u32_be (of_nat (length (frame_body f))) @ frame_body f)"

lemma length_frame_head [simp]: "length (frame_head crc f) = FRAME_HEADER_SIZE"
  by (simp add: frame_head_def FRAME_HEADER_SIZE_def Let_def)

lemma length_frame_body:
  "length (frame_body f) =
     (case fr_record f of Update c \<Rightarrow> 42 + length (lc_key c) + length (lc_value c) | Commit \<Rightarrow> 17)"
  by (simp add: frame_body_def split: transaction_record.split)

lemma frame_body_bounds:
  assumes "frame_ok f"
  shows "17 \<le> length (frame_body f)" "length (frame_body f) \<le> MAX_FRAME_SIZE"
  using assms
  by (auto simp: length_frame_body frame_ok_def command_ok_def MAX_FRAME_SIZE_def
      split: transaction_record.splits)

lemma length_frame_bytes: "length (frame_bytes crc f) = FRAME_HEADER_SIZE + length (frame_body f)"
  by (simp add: frame_bytes_def)

lemma frame_bytes_size:
  "frame_ok f \<Longrightarrow> 0 < length (frame_bytes crc f)"
  "frame_ok f \<Longrightarrow> length (frame_bytes crc f) < 2 ^ 32"
  using frame_body_bounds [of f] by (simp_all add: length_frame_bytes wal_sizes)

lemma encode_frame_ok: "frame_ok f \<Longrightarrow> encode_frame crc f = Inr (frame_bytes crc f)"
  using frame_body_bounds [of f]
  by (auto simp: encode_frame_def frame_bytes_def frame_head_def frame_ok_def command_ok_def Let_def
      split: transaction_record.splits)

lemma encode_frame_Inr:
  assumes "encode_frame crc f = Inr bytes"
    and "\<And>c. fr_record f = Update c \<Longrightarrow> lc_record_type c = Delete \<Longrightarrow> lc_value c = []"
  shows "frame_ok f \<and> bytes = frame_bytes crc f"
proof -
  have "frame_ok f"
    using assms
    by (auto simp: encode_frame_def frame_ok_def command_ok_def rbind_eq_Inr Let_def not_less
        split: transaction_record.splits)
  then show ?thesis using encode_frame_ok [of f crc] assms(1) by simp
qed

lemma unat_len_body:
  "frame_ok f \<Longrightarrow> unat (of_nat (length (frame_body f)) :: u32) = length (frame_body f)"
  using frame_body_bounds [of f] by (intro unat_of_nat_32) (simp add: MAX_FRAME_SIZE_def)

lemma decode_frame_header_head:
  "decode_frame_header crc (frame_head crc f) = Inr (fr_lsn f, of_nat (length (frame_body f)))"
  by (simp add: decode_frame_header_def frame_head_def be_u32_def be_u64_def Let_def)

lemma verify_frame_body_head:
  "verify_frame_body crc (frame_head crc f) (frame_body f) = Inr (frame_crc crc f)"
  by (simp add: verify_frame_body_def frame_head_def be_u32_def Let_def frame_crc_def)

lemma decode_frame_body:
  assumes "frame_ok f"
  shows "decode_frame (fr_lsn f) (frame_body f) = Inr f"
proof (cases "fr_record f")
  case (Update c)
  with assms have "length (lc_key c) < 2 ^ 64" "length (lc_value c) < 2 ^ 64"
    "lc_record_type c = Delete \<Longrightarrow> lc_value c = []"
    by (auto simp: frame_ok_def command_ok_def MAX_FRAME_SIZE_def)
  with Update show ?thesis
    by (cases "lc_record_type c") (simp_all add: decode_frame_def frame_body_def reader_simps unat_of_nat_64 decode_record_type_def
        LogCommand_new_def)
next
  case Commit
  then show ?thesis
    by (cases f) (simp add: decode_frame_def frame_body_def reader_simps)
qed

subsection \<open>Commands and value references\<close>

lemma length_WalValueRef_payload [simp]: "length (WalValueRef_payload r) = 90"
  by (simp add: WalValueRef_payload_def)

lemma WalValueRef_decode_encode:
  assumes "WalValueRef_validate r = Inr ()"
  shows "WalValueRef_decode crc (WalValueRef_encode crc r) = Inr r"
proof -
  let ?b = "WalValueRef_encode crc r"
  have len: "length ?b = 94" by (simp add: WalValueRef_encode_def Let_def)
  have first: "?b ! 0 = WAL_VALUE_REF_VERSION" "?b ! 69 = rt_byte (vr_record_type r)"
    by (simp_all add: WalValueRef_encode_def WalValueRef_payload_def nth_append nth_Cons' Let_def)
  have sum: "crc (take 90 ?b) = be_u32 ?b 90"
    by (simp add: WalValueRef_encode_def be_u32_def Let_def)
  have fields: "be_u64 ?b 1 = vr_segment_id r" "be_u64 ?b 9 = vr_transaction_id r"
    "be_u64 ?b 17 = vr_transaction_start_offset r" "be_u64 ?b 25 = vr_commit_offset r"
    "be_u64 ?b 33 = vr_commit_lsn r" "be_u64 ?b 41 = vr_frame_offset r"
    "be_u32 ?b 49 = vr_frame_length r" "be_u64 ?b 53 = vr_physical_lsn r"
    "be_u64 ?b 61 = vr_application_sequence r" "be_u32 ?b 70 = vr_key_length r"
    "be_u32 ?b 74 = vr_key_checksum r" "be_u64 ?b 78 = vr_value_length r"
    "be_u32 ?b 86 = vr_value_checksum r"
    by (simp_all add: WalValueRef_encode_def WalValueRef_payload_def be_u64_def be_u32_def
        drop_Cons' Let_def)
  have surj: "\<lparr>vr_segment_id = vr_segment_id r, vr_transaction_id = vr_transaction_id r,
      vr_transaction_start_offset = vr_transaction_start_offset r,
      vr_commit_offset = vr_commit_offset r, vr_commit_lsn = vr_commit_lsn r,
      vr_frame_offset = vr_frame_offset r, vr_frame_length = vr_frame_length r,
      vr_physical_lsn = vr_physical_lsn r, vr_application_sequence = vr_application_sequence r,
      vr_record_type = vr_record_type r, vr_key_length = vr_key_length r,
      vr_key_checksum = vr_key_checksum r, vr_value_length = vr_value_length r,
      vr_value_checksum = vr_value_checksum r\<rparr> = r"
    by (cases r) simp
  show ?thesis
    unfolding WalValueRef_decode_def
    using assms len by (simp add: first sum fields fields(1) [simplified] surj
        WAL_VALUE_REF_ENCODED_SIZE_def decode_record_type_def Let_def)
qed

lemma slice_index_append:
  assumes "unat a = length pre" "unat b = length pre + length mid"
  shows "slice_index (pre @ mid @ post) a b = Inr mid"
  using assms by (simp add: slice_index_def word_le_nat_alt)

lemma LogCommand_deserialize_serialize:
  assumes "length (LogCommand_serialize c) \<le> isize_max"
  shows "LogCommand_deserialize (LogCommand_serialize c) = Inr c"
proof -
  let ?t = "[rt_byte (lc_record_type c)]" and ?kl = "u64_le (of_nat (length (lc_key c)))"
  let ?vl = "u64_le (of_nat (length (lc_value c)))" and ?l = "u64_le (lc_lsn c)"
  let ?k = "of_nat (length (lc_key c)) :: u64" and ?v = "of_nat (length (lc_value c)) :: u64"
  have len: "25 + length (lc_key c) + length (lc_value c) \<le> isize_max"
    using assms by (simp add: LogCommand_serialize_def)
  have pos: "unat (of_nat n :: u64) = n" if "n \<le> 25 + length (lc_key c) + length (lc_value c)" for n
    using that len by (intro unat_of_nat_64) (simp add: isize_max_def)
  let ?d = "LogCommand_serialize c"
  have s1: "slice_index ?d 1 9 = Inr ?kl"
    using slice_index_append [of 1 ?t 9 ?kl "lc_key c @ ?vl @ lc_value c @ ?l"]
    by (simp add: LogCommand_serialize_def)
  have s2: "slice_index ?d 9 (of_nat (9 + length (lc_key c))) = Inr (lc_key c)"
    using slice_index_append [of 9 "?t @ ?kl" "of_nat (9 + length (lc_key c))" "lc_key c"
        "?vl @ lc_value c @ ?l"] pos
    by (simp add: LogCommand_serialize_def del: of_nat_add)
  have s3: "slice_index ?d (of_nat (9 + length (lc_key c))) (of_nat (17 + length (lc_key c))) = Inr ?vl"
    using slice_index_append [of "of_nat (9 + length (lc_key c))" "?t @ ?kl @ lc_key c"
        "of_nat (17 + length (lc_key c))" ?vl "lc_value c @ ?l"] pos
    by (simp add: LogCommand_serialize_def del: of_nat_add)
  have s4: "slice_index ?d (of_nat (17 + length (lc_key c)))
      (of_nat (17 + length (lc_key c) + length (lc_value c))) = Inr (lc_value c)"
    using slice_index_append [of "of_nat (17 + length (lc_key c))" "?t @ ?kl @ lc_key c @ ?vl"
        "of_nat (17 + length (lc_key c) + length (lc_value c))" "lc_value c" ?l] pos
    by (simp add: LogCommand_serialize_def del: of_nat_add)
  have s5: "slice_index ?d (of_nat (17 + length (lc_key c) + length (lc_value c)))
      (of_nat (25 + length (lc_key c) + length (lc_value c))) = Inr ?l"
    using slice_index_append [of "of_nat (17 + length (lc_key c) + length (lc_value c))"
        "?t @ ?kl @ lc_key c @ ?vl @ lc_value c"
        "of_nat (25 + length (lc_key c) + length (lc_value c))" ?l "[]"] pos
    by (simp add: LogCommand_serialize_def del: of_nat_add)
  obtain xs where xs: "?d = rt_byte (lc_record_type c) # xs" by (simp add: LogCommand_serialize_def)
  note slices = s1 s2 s3 s4 s5
  show ?thesis
    unfolding LogCommand_deserialize_def
    using slices [unfolded xs, simplified] by (simp add: xs Let_def add.assoc)
qed

end
