(* ===== verification/Generation_Codec.thy ===== *)
theory Generation_Codec
  imports Wal_Format
begin

text \<open>
  The small files and values of the store that keeps values in its log
  (\<open>src/storage/experimental.rs\<close>): the reference to a logged value that the index stores instead of
  the value, \<open>CURRENT\<close>, the root marker, the generation reservation and the seal of a generation. Each
  is a fixed layout ending in a checksum of what precedes it.

  The contract \<open>exact_codec\<close> is what the callers rely on: a decoder accepts exactly the bytes its
  encoder writes for a valid value, so a torn, padded or altered file is refused.
\<close>

definition REFERENCE_VALUE_VERSION :: byte where "REFERENCE_VALUE_VERSION = 1"
definition REFERENCE_VALUE_ENCODED_SIZE :: nat where
  "REFERENCE_VALUE_ENCODED_SIZE = 1 + 8 + WAL_VALUE_REF_ENCODED_SIZE + 4"
definition CURRENT_VERSION :: byte where "CURRENT_VERSION = 1"
definition CURRENT_ENCODED_SIZE :: nat where "CURRENT_ENCODED_SIZE = 1 + 8 + 8 + 4"
definition ROOT_MARKER_MAGIC :: bytes where
  "ROOT_MARKER_MAGIC = map (of_nat \<circ> of_char) ''CEREDB-EXP-WAL'' @ [0, 0]"
definition ROOT_MARKER_VERSION :: u64 where "ROOT_MARKER_VERSION = 1"
definition ROOT_MARKER_ENCODED_SIZE :: nat where "ROOT_MARKER_ENCODED_SIZE = 16 + 8 + 4"
definition NEXT_GENERATION_VERSION :: byte where "NEXT_GENERATION_VERSION = 1"
definition NEXT_GENERATION_ENCODED_SIZE :: nat where "NEXT_GENERATION_ENCODED_SIZE = 1 + 8 + 4"
definition GENERATION_SEAL_VERSION :: byte where "GENERATION_SEAL_VERSION = 2"
definition GENERATION_SEAL_HEADER_SIZE :: nat where "GENERATION_SEAL_HEADER_SIZE = 1 + 8 * 4 + 4"
definition GENERATION_SEAL_ENTRY_SIZE :: nat where "GENERATION_SEAL_ENTRY_SIZE = 8 + 8 + 4"

lemmas generation_sizes =
  REFERENCE_VALUE_ENCODED_SIZE_def CURRENT_ENCODED_SIZE_def ROOT_MARKER_ENCODED_SIZE_def
  NEXT_GENERATION_ENCODED_SIZE_def GENERATION_SEAL_HEADER_SIZE_def GENERATION_SEAL_ENTRY_SIZE_def
  WAL_VALUE_REF_ENCODED_SIZE_def

section \<open>References to logged values\<close>

record reference_value =
  rv_generation :: u64
  rv_reference :: wal_value_ref

definition ReferenceValue_encode :: "(bytes \<Rightarrow> u32) \<Rightarrow> reference_value \<Rightarrow> bytes" where
  "ReferenceValue_encode crc v =
     (let bytes = [REFERENCE_VALUE_VERSION] @ u64_be (rv_generation v) @ WalValueRef_encode crc (rv_reference v)
      in bytes @ u32_be (crc bytes))"

definition ReferenceValue_validate :: "reference_value \<Rightarrow> unit result" where
  "ReferenceValue_validate v =
     rbind (guard_err (rv_generation v = 0) (Corrupted ''Invalid reference value generation'')) (\<lambda>_.
     guard_err (vr_record_type (rv_reference v) \<noteq> Put) (Corrupted ''Reference value does not reference a put''))"

definition ReferenceValue_decode :: "(bytes \<Rightarrow> u32) \<Rightarrow> bytes \<Rightarrow> reference_value result" where
  "ReferenceValue_decode crc bytes =
     (if length bytes \<noteq> REFERENCE_VALUE_ENCODED_SIZE
      then Inl (Err (Corrupted ''Invalid reference value length''))
      else if bytes ! 0 \<noteq> REFERENCE_VALUE_VERSION
      then Inl (Err (Corrupted ''Unsupported reference value version''))
      else if crc (take (REFERENCE_VALUE_ENCODED_SIZE - 4) bytes) \<noteq> be_u32 bytes (REFERENCE_VALUE_ENCODED_SIZE - 4)
      then Inl (Err (Corrupted ''Reference value checksum mismatch''))
      else
        rbind (WalValueRef_decode crc (take WAL_VALUE_REF_ENCODED_SIZE (drop 9 bytes))) (\<lambda>reference.
        let v = \<lparr>rv_generation = be_u64 bytes 1, rv_reference = reference\<rparr>
        in rbind (ReferenceValue_validate v) (\<lambda>_. Inr v)))"

section \<open>The files of a root directory\<close>

record current_state =
  cs_generation :: u64
  cs_application_sequence_floor :: u64

definition CurrentState_encode :: "(bytes \<Rightarrow> u32) \<Rightarrow> current_state \<Rightarrow> bytes" where
  "CurrentState_encode crc s =
     (let bytes = [CURRENT_VERSION] @ u64_be (cs_generation s) @ u64_be (cs_application_sequence_floor s)
      in bytes @ u32_be (crc bytes))"

definition CurrentState_decode :: "(bytes \<Rightarrow> u32) \<Rightarrow> bytes \<Rightarrow> current_state result" where
  "CurrentState_decode crc bytes =
     (if length bytes \<noteq> CURRENT_ENCODED_SIZE then Inl (Err (Corrupted ''Invalid CURRENT length''))
      else if bytes ! 0 \<noteq> CURRENT_VERSION then Inl (Err (Corrupted ''Unsupported CURRENT version''))
      else if crc (take (CURRENT_ENCODED_SIZE - 4) bytes) \<noteq> be_u32 bytes (CURRENT_ENCODED_SIZE - 4)
      then Inl (Err (Corrupted ''CURRENT checksum mismatch''))
      else if be_u64 bytes 1 = 0 then Inl (Err (Corrupted ''Invalid CURRENT generation''))
      else Inr \<lparr>cs_generation = be_u64 bytes 1, cs_application_sequence_floor = be_u64 bytes 9\<rparr>)"

definition RootMarker_encode :: "(bytes \<Rightarrow> u32) \<Rightarrow> unit \<Rightarrow> bytes" where
  "RootMarker_encode crc _ =
     (let bytes = ROOT_MARKER_MAGIC @ u64_be ROOT_MARKER_VERSION in bytes @ u32_be (crc bytes))"

definition RootMarker_decode :: "(bytes \<Rightarrow> u32) \<Rightarrow> bytes \<Rightarrow> unit result" where
  "RootMarker_decode crc bytes =
     (if length bytes \<noteq> ROOT_MARKER_ENCODED_SIZE
      then Inl (Err (Corrupted ''Invalid experimental root marker length''))
      else if take 16 bytes \<noteq> ROOT_MARKER_MAGIC
      then Inl (Err (Corrupted ''Invalid experimental root marker magic''))
      else if be_u64 bytes 16 \<noteq> ROOT_MARKER_VERSION
      then Inl (Err (Corrupted ''Unsupported experimental root marker version''))
      else if crc (take (ROOT_MARKER_ENCODED_SIZE - 4) bytes) \<noteq> be_u32 bytes (ROOT_MARKER_ENCODED_SIZE - 4)
      then Inl (Err (Corrupted ''Root marker checksum mismatch''))
      else Inr ())"

record generation_reservation =
  gr_next_generation :: u64

definition GenerationReservation_encode :: "(bytes \<Rightarrow> u32) \<Rightarrow> generation_reservation \<Rightarrow> bytes" where
  "GenerationReservation_encode crc g =
     (let bytes = [NEXT_GENERATION_VERSION] @ u64_be (gr_next_generation g) in bytes @ u32_be (crc bytes))"

definition GenerationReservation_decode :: "(bytes \<Rightarrow> u32) \<Rightarrow> bytes \<Rightarrow> generation_reservation result" where
  "GenerationReservation_decode crc bytes =
     (if length bytes \<noteq> NEXT_GENERATION_ENCODED_SIZE
      then Inl (Err (Corrupted ''Invalid generation reservation length''))
      else if bytes ! 0 \<noteq> NEXT_GENERATION_VERSION
      then Inl (Err (Corrupted ''Unsupported generation reservation version''))
      else if crc (take (NEXT_GENERATION_ENCODED_SIZE - 4) bytes) \<noteq> be_u32 bytes (NEXT_GENERATION_ENCODED_SIZE - 4)
      then Inl (Err (Corrupted ''Generation reservation checksum mismatch''))
      else if be_u64 bytes 1 = 0 then Inl (Err (Corrupted ''Invalid reserved generation''))
      else Inr \<lparr>gr_next_generation = be_u64 bytes 1\<rparr>)"

section \<open>Seals\<close>

record wal_segment_fingerprint =
  fp_segment_id :: u64
  fp_length :: u64
  fp_checksum :: u32

record generation_seal =
  gs_generation :: u64
  gs_application_sequence_floor :: u64
  gs_max_live_application_sequence :: u64
  gs_next_physical_lsn :: u64
  gs_wal_segments :: "wal_segment_fingerprint list"

definition fingerprint_bytes :: "wal_segment_fingerprint \<Rightarrow> bytes" where
  "fingerprint_bytes f = u64_be (fp_segment_id f) @ u64_be (fp_length f) @ u32_be (fp_checksum f)"

definition GenerationSeal_encode :: "(bytes \<Rightarrow> u32) \<Rightarrow> generation_seal \<Rightarrow> bytes" where
  "GenerationSeal_encode crc s =
     (let bytes = [GENERATION_SEAL_VERSION] @ u64_be (gs_generation s)
                  @ u64_be (gs_application_sequence_floor s) @ u64_be (gs_max_live_application_sequence s)
                  @ u64_be (gs_next_physical_lsn s) @ u32_be (of_nat (length (gs_wal_segments s)))
                  @ concat (map fingerprint_bytes (gs_wal_segments s))
      in bytes @ u32_be (crc bytes))"

definition fingerprint_at :: "bytes \<Rightarrow> nat \<Rightarrow> wal_segment_fingerprint" where
  "fingerprint_at bytes index =
     (let offset = GENERATION_SEAL_HEADER_SIZE + index * GENERATION_SEAL_ENTRY_SIZE
      in \<lparr>fp_segment_id = be_u64 bytes offset, fp_length = be_u64 bytes (offset + 8),
          fp_checksum = be_u32 bytes (offset + 16)\<rparr>)"

fun seal_segments ::
  "bytes \<Rightarrow> nat list \<Rightarrow> wal_segment_fingerprint list \<Rightarrow> wal_segment_fingerprint list result" where
  "seal_segments bytes [] wal_segments = Inr wal_segments"
| "seal_segments bytes (index # rest) wal_segments =
     (let segment = fingerprint_at bytes index
      in if wal_segments \<noteq> [] \<and> fp_segment_id segment \<le> fp_segment_id (last wal_segments)
         then Inl (Err (Corrupted ''Generation seal WAL segments are not ordered''))
         else seal_segments bytes rest (wal_segments @ [segment]))"

definition GenerationSeal_decode :: "(bytes \<Rightarrow> u32) \<Rightarrow> bytes \<Rightarrow> generation_seal result" where
  "GenerationSeal_decode crc bytes =
     (if length bytes < GENERATION_SEAL_HEADER_SIZE + 4
      then Inl (Err (Corrupted ''Invalid generation seal length''))
      else if bytes ! 0 \<noteq> GENERATION_SEAL_VERSION
      then Inl (Err (Corrupted ''Unsupported generation seal version''))
      else
        let segment_count = unat (be_u32 bytes 33);
            expected_length = GENERATION_SEAL_HEADER_SIZE + segment_count * GENERATION_SEAL_ENTRY_SIZE + 4
        in
        if usize_max < expected_length then Inl (Err (Corrupted ''Generation seal length overflow''))
        else if length bytes \<noteq> expected_length then Inl (Err (Corrupted ''Invalid generation seal length''))
        else if crc (take (expected_length - 4) bytes) \<noteq> be_u32 bytes (expected_length - 4)
        then Inl (Err (Corrupted ''Generation seal checksum mismatch''))
        else if be_u64 bytes 1 = 0 then Inl (Err (Corrupted ''Invalid generation seal generation''))
        else
          rbind (seal_segments bytes [0..<segment_count] []) (\<lambda>wal_segments.
          Inr \<lparr>gs_generation = be_u64 bytes 1, gs_application_sequence_floor = be_u64 bytes 9,
               gs_max_live_application_sequence = be_u64 bytes 17, gs_next_physical_lsn = be_u64 bytes 25,
               gs_wal_segments = wal_segments\<rparr>))"

section \<open>Exact codecs\<close>

locale exact_codec =
  fixes enc :: "'a \<Rightarrow> bytes"
    and dec :: "bytes \<Rightarrow> 'a result"
    and valid :: "'a \<Rightarrow> bool"
  assumes dec_enc: "valid x \<Longrightarrow> dec (enc x) = Inr x"
    and dec_only: "dec bytes = Inr x \<Longrightarrow> valid x \<and> bytes = enc x"
begin

lemma dec_iff: "dec bytes = Inr x \<longleftrightarrow> valid x \<and> bytes = enc x"
  using dec_enc dec_only by blast

lemma enc_inject: "valid x \<Longrightarrow> enc x = enc y \<Longrightarrow> x = y \<or> \<not> valid y"
  using dec_enc by (metis Inr_inject)

lemma refuses: "is_ok (dec bytes) \<longleftrightarrow> (\<exists>x. valid x \<and> bytes = enc x)"
proof (cases "dec bytes")
  case (Inl e)
  then show ?thesis using dec_enc by fastforce
next
  case (Inr x)
  then show ?thesis using dec_only by auto
qed

end

text \<open>Reading a field back: consecutive fields of a byte string, from the right.\<close>

lemma take_drop_join: "m = n + k \<Longrightarrow> take k (drop n bs) @ drop m bs = drop n bs"
  by (metis append_take_drop_id drop_drop add.commute)

lemma be_field [simp]:
  "n + 8 \<le> length bs \<Longrightarrow> u64_be (be_u64 bs n) = take 8 (drop n bs)"
  "n + 4 \<le> length bs \<Longrightarrow> u32_be (be_u32 bs n) = take 4 (drop n bs)"
  by (simp_all add: be_u64_def be_u32_def bytes_of_u64_of_be bytes_of_u32_of_be)

lemma nth_0_drop: "bs \<noteq> [] \<Longrightarrow> bs ! 0 # drop 1 bs = bs"
  by (cases bs) simp_all

lemma byte_field: "n < length bs \<Longrightarrow> [bs ! n] = take 1 (drop n bs)"
  by (simp add: take_Suc_conv_app_nth Cons_nth_drop_Suc [symmetric])

lemma prefix_field: "xs @ drop n bs = bs \<Longrightarrow> length xs = n \<Longrightarrow> xs = take n bs"
  by (metis append_eq_conv_conj)

subsection \<open>Log references\<close>

lemma decode_record_type_Inr: "decode_record_type b = Inr t \<Longrightarrow> rt_byte t = b"
  by (auto simp: decode_record_type_def rt_of_byte_def rt_byte_def split: if_splits)

lemma WalValueRef_decode_Inr:
  assumes "WalValueRef_decode crc bs = Inr r"
  shows "WalValueRef_validate r = Inr () \<and> bs = WalValueRef_encode crc r"
proof -
  from assms obtain t where len: "length bs = 94" and v: "bs ! 0 = WAL_VALUE_REF_VERSION"
    and sum: "crc (take 90 bs) = be_u32 bs 90" and t: "decode_record_type (bs ! 69) = Inr t"
    and ok: "WalValueRef_validate r = Inr ()"
    and r: "r = \<lparr>vr_segment_id = be_u64 bs 1, vr_transaction_id = be_u64 bs 9,
                 vr_transaction_start_offset = be_u64 bs 17, vr_commit_offset = be_u64 bs 25,
                 vr_commit_lsn = be_u64 bs 33, vr_frame_offset = be_u64 bs 41,
                 vr_frame_length = be_u32 bs 49, vr_physical_lsn = be_u64 bs 53,
                 vr_application_sequence = be_u64 bs 61, vr_record_type = t,
                 vr_key_length = be_u32 bs 70, vr_key_checksum = be_u32 bs 74,
                 vr_value_length = be_u64 bs 78, vr_value_checksum = be_u32 bs 86\<rparr>"
    by (auto simp: WalValueRef_decode_def rbind_eq_Inr Let_def WAL_VALUE_REF_ENCODED_SIZE_def split: if_splits)
  have t': "[rt_byte t] = take 1 (drop 69 bs)" using decode_record_type_Inr [OF t] byte_field [of 69 bs] len by simp
  have v': "[WAL_VALUE_REF_VERSION] = take 1 (drop 0 bs)" using v byte_field [of 0 bs] len by simp
  have "WalValueRef_payload r @ drop 90 bs = bs"
    unfolding WalValueRef_payload_def r wal_value_ref.simps t' v'
    using len by (simp only: append_assoc be_field take_drop_join) simp
  then have p: "WalValueRef_payload r = take 90 bs" by (metis append_eq_conv_conj length_WalValueRef_payload)
  have "u32_be (crc (take 90 bs)) = drop 90 bs" using sum len by simp
  with p ok show ?thesis by (simp add: WalValueRef_encode_def Let_def)
qed

interpretation ref_codec: exact_codec "WalValueRef_encode crc" "WalValueRef_decode crc"
  "\<lambda>r. WalValueRef_validate r = Inr ()" for crc
  by unfold_locales (auto simp: WalValueRef_decode_encode dest: WalValueRef_decode_Inr)

definition reference_ok :: "reference_value \<Rightarrow> bool" where
  "reference_ok v \<longleftrightarrow> ReferenceValue_validate v = Inr () \<and> WalValueRef_validate (rv_reference v) = Inr ()"

lemma length_WalValueRef_encode [simp]: "length (WalValueRef_encode crc r) = 94"
  by (simp add: WalValueRef_encode_def Let_def)

lemma ReferenceValue_decode_encode:
  assumes "reference_ok v"
  shows "ReferenceValue_decode crc (ReferenceValue_encode crc v) = Inr v"
proof -
  let ?b = "ReferenceValue_encode crc v"
  have b: "length ?b = 107" "?b ! 0 = REFERENCE_VALUE_VERSION" "crc (take 103 ?b) = be_u32 ?b 103"
    "be_u64 ?b 1 = rv_generation v" "take 94 (drop 9 ?b) = WalValueRef_encode crc (rv_reference v)"
    by (simp_all add: ReferenceValue_encode_def Let_def be_u32_def be_u64_def drop_Cons' take_Cons')
  with assms show ?thesis
    by (cases v) (simp add: ReferenceValue_decode_def generation_sizes reference_ok_def ref_codec.dec_enc Let_def)
qed

lemma ReferenceValue_decode_Inr:
  assumes "ReferenceValue_decode crc bs = Inr v"
  shows "reference_ok v \<and> bs = ReferenceValue_encode crc v"
proof -
  from assms obtain r where len: "length bs = 107" and ver: "bs ! 0 = REFERENCE_VALUE_VERSION"
    and sum: "crc (take 103 bs) = be_u32 bs 103" and r: "WalValueRef_decode crc (take 94 (drop 9 bs)) = Inr r"
    and ok: "ReferenceValue_validate v = Inr ()" and v: "v = \<lparr>rv_generation = be_u64 bs 1, rv_reference = r\<rparr>"
    by (auto simp: ReferenceValue_decode_def rbind_eq_Inr Let_def generation_sizes split: if_splits)
  note ref = ref_codec.dec_only [OF r]
  have ver': "[REFERENCE_VALUE_VERSION] = take 1 (drop 0 bs)" using ver byte_field [of 0 bs] len by simp
  have "[REFERENCE_VALUE_VERSION] @ u64_be (be_u64 bs 1) @ take 94 (drop 9 bs) @ drop 103 bs = bs"
    unfolding ver' using len by (simp only: be_field take_drop_join) simp
  then have p: "[REFERENCE_VALUE_VERSION] @ u64_be (be_u64 bs 1) @ WalValueRef_encode crc r = take 103 bs"
    using ref by (intro prefix_field) simp_all
  have "u32_be (crc (take 103 bs)) = drop 103 bs" using sum len by simp
  with p ref ok v show ?thesis by (simp add: ReferenceValue_encode_def reference_ok_def Let_def)
qed

interpretation reference_codec: exact_codec "ReferenceValue_encode crc" "ReferenceValue_decode crc" reference_ok for crc
  by unfold_locales (auto simp: ReferenceValue_decode_encode dest: ReferenceValue_decode_Inr)

subsection \<open>Root files\<close>

lemma CurrentState_decode_encode:
  assumes "cs_generation s \<noteq> 0"
  shows "CurrentState_decode crc (CurrentState_encode crc s) = Inr s"
proof -
  let ?b = "CurrentState_encode crc s"
  have b: "length ?b = 21" "?b ! 0 = CURRENT_VERSION" "crc (take 17 ?b) = be_u32 ?b 17"
    "be_u64 ?b 1 = cs_generation s" "be_u64 ?b 9 = cs_application_sequence_floor s"
    by (simp_all add: CurrentState_encode_def Let_def be_u32_def be_u64_def drop_Cons' take_Cons')
  with assms show ?thesis by (cases s) (simp add: CurrentState_decode_def generation_sizes)
qed

lemma CurrentState_decode_Inr:
  assumes "CurrentState_decode crc bs = Inr s"
  shows "cs_generation s \<noteq> 0 \<and> bs = CurrentState_encode crc s"
proof -
  from assms have len: "length bs = 21" and ver: "bs ! 0 = CURRENT_VERSION"
    and sum: "crc (take 17 bs) = be_u32 bs 17" and ok: "cs_generation s \<noteq> 0"
    and s: "cs_generation s = be_u64 bs 1" "cs_application_sequence_floor s = be_u64 bs 9"
    by (auto simp: CurrentState_decode_def generation_sizes split: if_splits)
  have ver': "[CURRENT_VERSION] = take 1 (drop 0 bs)" using ver byte_field [of 0 bs] len by simp
  have "[CURRENT_VERSION] @ u64_be (be_u64 bs 1) @ u64_be (be_u64 bs 9) @ drop 17 bs = bs"
    unfolding ver' using len by (simp only: be_field take_drop_join) simp
  then have p: "[CURRENT_VERSION] @ u64_be (be_u64 bs 1) @ u64_be (be_u64 bs 9) = take 17 bs"
    by (intro prefix_field) simp_all
  have "u32_be (crc (take 17 bs)) = drop 17 bs" using sum len by simp
  with p ok s show ?thesis by (simp add: CurrentState_encode_def Let_def)
qed

interpretation current_codec: exact_codec "CurrentState_encode crc" "CurrentState_decode crc"
  "\<lambda>s. cs_generation s \<noteq> 0" for crc
  by unfold_locales (auto simp: CurrentState_decode_encode dest: CurrentState_decode_Inr)

lemma length_ROOT_MARKER_MAGIC [simp]: "length ROOT_MARKER_MAGIC = 16"
  by (simp add: ROOT_MARKER_MAGIC_def)

lemma RootMarker_decode_encode: "RootMarker_decode crc (RootMarker_encode crc u) = Inr u"
  by (simp add: RootMarker_decode_def RootMarker_encode_def generation_sizes Let_def be_u32_def be_u64_def)

lemma RootMarker_decode_Inr:
  assumes "RootMarker_decode crc bs = Inr u"
  shows "bs = RootMarker_encode crc u"
proof -
  from assms have len: "length bs = 28" and magic: "take 16 (drop 0 bs) = ROOT_MARKER_MAGIC"
    and ver: "be_u64 bs 16 = ROOT_MARKER_VERSION" and sum: "crc (take 24 bs) = be_u32 bs 24"
    by (auto simp: RootMarker_decode_def generation_sizes split: if_splits)
  have "ROOT_MARKER_MAGIC @ u64_be ROOT_MARKER_VERSION @ drop 24 bs = bs"
    unfolding magic [symmetric] ver [symmetric] using len by (simp only: be_field take_drop_join) simp
  then have p: "ROOT_MARKER_MAGIC @ u64_be ROOT_MARKER_VERSION = take 24 bs" by (intro prefix_field) simp_all
  have "u32_be (crc (take 24 bs)) = drop 24 bs" using sum len by simp
  with p show ?thesis by (simp add: RootMarker_encode_def Let_def)
qed

interpretation marker_codec: exact_codec "RootMarker_encode crc" "RootMarker_decode crc" "\<lambda>_. True" for crc
  by unfold_locales (auto simp: RootMarker_decode_encode dest: RootMarker_decode_Inr)

lemma GenerationReservation_decode_encode:
  assumes "gr_next_generation g \<noteq> 0"
  shows "GenerationReservation_decode crc (GenerationReservation_encode crc g) = Inr g"
proof -
  let ?b = "GenerationReservation_encode crc g"
  have b: "length ?b = 13" "?b ! 0 = NEXT_GENERATION_VERSION" "crc (take 9 ?b) = be_u32 ?b 9"
    "be_u64 ?b 1 = gr_next_generation g"
    by (simp_all add: GenerationReservation_encode_def Let_def be_u32_def be_u64_def drop_Cons' take_Cons')
  with assms show ?thesis by (cases g) (simp add: GenerationReservation_decode_def generation_sizes)
qed

lemma GenerationReservation_decode_Inr:
  assumes "GenerationReservation_decode crc bs = Inr g"
  shows "gr_next_generation g \<noteq> 0 \<and> bs = GenerationReservation_encode crc g"
proof -
  from assms have len: "length bs = 13" and ver: "bs ! 0 = NEXT_GENERATION_VERSION"
    and sum: "crc (take 9 bs) = be_u32 bs 9" and ok: "gr_next_generation g \<noteq> 0"
    and g: "gr_next_generation g = be_u64 bs 1"
    by (auto simp: GenerationReservation_decode_def generation_sizes split: if_splits)
  have ver': "[NEXT_GENERATION_VERSION] = take 1 (drop 0 bs)" using ver byte_field [of 0 bs] len by simp
  have "[NEXT_GENERATION_VERSION] @ u64_be (be_u64 bs 1) @ drop 9 bs = bs"
    unfolding ver' using len by (simp only: be_field take_drop_join) simp
  then have p: "[NEXT_GENERATION_VERSION] @ u64_be (be_u64 bs 1) = take 9 bs" by (intro prefix_field) simp_all
  have "u32_be (crc (take 9 bs)) = drop 9 bs" using sum len by simp
  with p ok g show ?thesis by (simp add: GenerationReservation_encode_def Let_def)
qed

interpretation reservation_codec: exact_codec "GenerationReservation_encode crc" "GenerationReservation_decode crc"
  "\<lambda>g. gr_next_generation g \<noteq> 0" for crc
  by unfold_locales (auto simp: GenerationReservation_decode_encode dest: GenerationReservation_decode_Inr)

subsection \<open>Seals\<close>

definition seal_ok :: "generation_seal \<Rightarrow> bool" where
  "seal_ok s \<longleftrightarrow>
     gs_generation s \<noteq> 0 \<and> length (gs_wal_segments s) < 2 ^ 32
     \<and> sorted_wrt (<) (map fp_segment_id (gs_wal_segments s))"

lemma length_fingerprint_bytes [simp]: "length (fingerprint_bytes f) = 20"
  by (simp add: fingerprint_bytes_def)

lemma length_fingerprints [simp]: "length (concat (map fingerprint_bytes fs)) = 20 * length fs"
  by (induction fs) simp_all

lemma drop_fingerprints:
  "i \<le> length fs \<Longrightarrow> drop (20 * i) (concat (map fingerprint_bytes fs)) = concat (map fingerprint_bytes (drop i fs))"
proof (induction i arbitrary: fs)
  case (Suc i)
  then obtain f gs where fs: "fs = f # gs" by (cases fs) auto
  have "20 * Suc i = 20 * i + length (fingerprint_bytes f)" by simp
  then have "drop (20 * Suc i) (concat (map fingerprint_bytes fs)) = drop (20 * i) (concat (map fingerprint_bytes gs))"
    unfolding fs by (metis append_eq_conv_conj concat.simps(2) drop_drop list.simps(9))
  with Suc fs show ?case by simp
qed simp

lemma fingerprint_at_nth:
  assumes "length h = 37" and "i < length fs"
  shows "fingerprint_at (h @ concat (map fingerprint_bytes fs) @ rest) i = fs ! i"
proof -
  let ?b = "h @ concat (map fingerprint_bytes fs) @ rest"
  obtain tail where d: "drop (37 + i * 20) ?b = fingerprint_bytes (fs ! i) @ tail"
  proof
    have "drop (37 + i * 20) ?b = drop (20 * i) (concat (map fingerprint_bytes fs)) @ rest"
      using assms by (simp add: mult.commute)
    also have "\<dots> = concat (map fingerprint_bytes (drop i fs)) @ rest" using assms(2) by (simp add: drop_fingerprints)
    also have "drop i fs = fs ! i # drop (Suc i) fs" using assms(2) by (simp add: Cons_nth_drop_Suc)
    finally show "drop (37 + i * 20) ?b = fingerprint_bytes (fs ! i) @ concat (map fingerprint_bytes (drop (Suc i) fs)) @ rest"
      by simp
  qed
  have d': "drop (k + (37 + i * 20)) ?b = drop k (fingerprint_bytes (fs ! i) @ tail)" for k
    using d by (metis drop_drop)
  have "be_u64 ?b (37 + i * 20) = fp_segment_id (fs ! i)" "be_u64 ?b (37 + i * 20 + 8) = fp_length (fs ! i)"
    "be_u32 ?b (37 + i * 20 + 16) = fp_checksum (fs ! i)"
    using d d' [of 8] d' [of 16] by (simp_all add: be_u64_def be_u32_def fingerprint_bytes_def add.commute add.left_commute)
  then show ?thesis by (cases "fs ! i") (simp add: fingerprint_at_def generation_sizes Let_def)
qed

lemma seal_segments_iff:
  "seal_segments bs is acc = Inr segs \<longleftrightarrow>
     segs = acc @ map (fingerprint_at bs) is
     \<and> sorted_wrt (<) ((if acc = [] then [] else [fp_segment_id (last acc)]) @ map (fp_segment_id \<circ> fingerprint_at bs) is)"
proof (induction "is" arbitrary: acc)
  case (Cons i "is")
  let ?f = "fingerprint_at bs i"
  have "sorted_wrt (<) (a # fp_segment_id ?f # map (fp_segment_id \<circ> fingerprint_at bs) is)
      \<longleftrightarrow> a < fp_segment_id ?f \<and> sorted_wrt (<) (fp_segment_id ?f # map (fp_segment_id \<circ> fingerprint_at bs) is)" for a
    by (auto intro: less_trans)
  then show ?case using Cons [of "acc @ [?f]"] by (auto simp: Let_def not_le intro: less_trans)
qed auto

lemma GenerationSeal_decode_encode:
  assumes "seal_ok s"
  shows "GenerationSeal_decode crc (GenerationSeal_encode crc s) = Inr s"
proof -
  let ?b = "GenerationSeal_encode crc s" and ?segs = "gs_wal_segments s"
  let ?h = "[GENERATION_SEAL_VERSION] @ u64_be (gs_generation s) @ u64_be (gs_application_sequence_floor s)
     @ u64_be (gs_max_live_application_sequence s) @ u64_be (gs_next_physical_lsn s) @ u32_be (of_nat (length ?segs))"
  let ?n = "length ?segs"
  have n: "unat (of_nat ?n :: u32) = ?n" using assms by (intro unat_of_nat_32) (simp add: seal_ok_def)
  have b: "?b = ?h @ concat (map fingerprint_bytes ?segs) @ u32_be (crc (?h @ concat (map fingerprint_bytes ?segs)))"
    by (simp add: GenerationSeal_encode_def Let_def)
  have len: "length ?b = 41 + ?n * 20" by (simp add: b)
  have fields: "?b ! 0 = GENERATION_SEAL_VERSION" "be_u32 ?b 33 = of_nat ?n" "be_u64 ?b 1 = gs_generation s"
    "be_u64 ?b 9 = gs_application_sequence_floor s" "be_u64 ?b 17 = gs_max_live_application_sequence s"
    "be_u64 ?b 25 = gs_next_physical_lsn s"
    by (simp_all add: b be_u64_def be_u32_def drop_Cons' take_Cons')
  have "crc (take n (p @ u32_be (crc p))) = be_u32 (p @ u32_be (crc p)) n" if "length p = n" for p n
    using that by (simp add: be_u32_def)
  from this [of "?h @ concat (map fingerprint_bytes ?segs)" "37 + ?n * 20"]
  have sum: "crc (take (37 + ?n * 20) ?b) = be_u32 ?b (37 + ?n * 20)"
    unfolding b by (simp del: append_Cons)
  have at: "map (fingerprint_at ?b) [0..<?n] = ?segs"
  proof (intro nth_equalityI)
    fix i assume "i < length (map (fingerprint_at ?b) [0..<?n])"
    then have "fingerprint_at ?b i = ?segs ! i" unfolding b by (intro fingerprint_at_nth) simp_all
    with \<open>i < _\<close> show "map (fingerprint_at ?b) [0..<?n] ! i = ?segs ! i" by simp
  qed simp
  have "map (fp_segment_id \<circ> fingerprint_at ?b) [0..<?n] = map fp_segment_id ?segs"
    by (simp only: map_map [symmetric] at)
  then have "seal_segments ?b [0..<?n] [] = Inr ?segs"
    using assms at by (simp add: seal_segments_iff seal_ok_def)
  moreover have "?n * 20 + 41 \<le> usize_max" using assms by (simp add: seal_ok_def size_bounds)
  moreover have "\<lparr>gs_generation = gs_generation s, gs_application_sequence_floor = gs_application_sequence_floor s,
      gs_max_live_application_sequence = gs_max_live_application_sequence s,
      gs_next_physical_lsn = gs_next_physical_lsn s, gs_wal_segments = ?segs\<rparr> = s"
    by (cases s) simp
  moreover have "gs_generation s \<noteq> 0" using assms by (simp add: seal_ok_def)
  ultimately show ?thesis
    using len sum
    by (simp add: GenerationSeal_decode_def generation_sizes Let_def fields fields(3) [simplified] n add.commute)
qed

lemma fingerprint_bytes_at:
  assumes "37 + i * 20 + 20 \<le> length bs"
  shows "fingerprint_bytes (fingerprint_at bs i) = take 20 (drop (37 + i * 20) bs)"
proof -
  let ?o = "37 + i * 20"
  have "u64_be (be_u64 bs ?o) @ u64_be (be_u64 bs (?o + 8)) @ u32_be (be_u32 bs (?o + 16)) @ drop (?o + 20) bs = drop ?o bs"
    using assms by (simp only: be_field take_drop_join)
  then show ?thesis
    by (simp add: fingerprint_bytes_def fingerprint_at_def generation_sizes Let_def prefix_field [of _ 20 "drop ?o bs"])
qed

lemma fingerprints_at:
  "37 + n * 20 \<le> length bs \<Longrightarrow>
     concat (map fingerprint_bytes (map (fingerprint_at bs) [0..<n])) @ drop (37 + n * 20) bs = drop 37 bs"
proof (induction n)
  case (Suc n)
  have "take 20 (drop (37 + n * 20) bs) @ drop (37 + Suc n * 20) bs = drop (37 + n * 20) bs"
    by (rule take_drop_join) simp
  with Suc show ?case by (simp add: fingerprint_bytes_at)
qed simp

lemma GenerationSeal_decode_Inr:
  assumes "GenerationSeal_decode crc bs = Inr s"
  shows "seal_ok s \<and> bs = GenerationSeal_encode crc s"
proof -
  define n where "n = unat (be_u32 bs 33)"
  from assms obtain segs where len: "length bs = 41 + n * 20" and ver: "bs ! 0 = GENERATION_SEAL_VERSION"
    and sum: "crc (take (37 + n * 20) bs) = be_u32 bs (37 + n * 20)" and gen: "be_u64 bs 1 \<noteq> 0"
    and segs: "seal_segments bs [0..<n] [] = Inr segs"
    and s: "s = \<lparr>gs_generation = be_u64 bs 1, gs_application_sequence_floor = be_u64 bs 9,
               gs_max_live_application_sequence = be_u64 bs 17, gs_next_physical_lsn = be_u64 bs 25,
               gs_wal_segments = segs\<rparr>"
    by (auto simp: GenerationSeal_decode_def rbind_eq_Inr Let_def generation_sizes n_def split: if_splits)
  have segs': "segs = map (fingerprint_at bs) [0..<n]" "sorted_wrt (<) (map fp_segment_id segs)"
    using segs by (auto simp: seal_segments_iff)
  have cnt: "of_nat (length segs) = be_u32 bs 33" and small: "length segs < 2 ^ 32"
    by (simp_all add: segs'(1) n_def)
  let ?p = "[GENERATION_SEAL_VERSION] @ u64_be (be_u64 bs 1) @ u64_be (be_u64 bs 9) @ u64_be (be_u64 bs 17)
     @ u64_be (be_u64 bs 25) @ u32_be (be_u32 bs 33) @ concat (map fingerprint_bytes segs)"
  have ver': "[GENERATION_SEAL_VERSION] = take 1 (drop 0 bs)" using ver byte_field [of 0 bs] len by simp
  have fp: "concat (map fingerprint_bytes segs) @ drop (37 + n * 20) bs = drop 37 bs"
    unfolding segs'(1) by (rule fingerprints_at) (simp add: len)
  have "?p @ drop (37 + n * 20) bs = bs"
    unfolding ver' append_assoc fp using len by (simp only: be_field take_drop_join) simp
  then have p: "?p = take (37 + n * 20) bs" by (rule prefix_field) (simp add: segs'(1) del: map_map)
  have "u32_be (crc (take (37 + n * 20) bs)) = drop (37 + n * 20) bs" using sum len by simp
  with p s gen small segs'(2) show ?thesis
    by (simp add: GenerationSeal_encode_def Let_def seal_ok_def cnt)
qed

interpretation seal_codec: exact_codec "GenerationSeal_encode crc" "GenerationSeal_decode crc" seal_ok for crc
  by unfold_locales (auto simp: GenerationSeal_decode_encode dest: GenerationSeal_decode_Inr)

section \<open>Properties\<close>

text \<open>
  C34: the small files of a generational root and the references to logged values are read exactly:
  a decoder returns a value if and only if the value is valid and the bytes are what the encoder
  writes for it. So every valid value survives a round trip, and a file that is cut short, padded
  or changed in any field is refused, whatever the checksum function is.
\<close>

theorem generation_files_exact:
  "(ReferenceValue_decode crc bytes = Inr v \<longleftrightarrow> reference_ok v \<and> bytes = ReferenceValue_encode crc v)
   \<and> (CurrentState_decode crc bytes = Inr c \<longleftrightarrow> cs_generation c \<noteq> 0 \<and> bytes = CurrentState_encode crc c)
   \<and> (RootMarker_decode crc bytes = Inr u \<longleftrightarrow> bytes = RootMarker_encode crc u)
   \<and> (GenerationReservation_decode crc bytes = Inr g
        \<longleftrightarrow> gr_next_generation g \<noteq> 0 \<and> bytes = GenerationReservation_encode crc g)
   \<and> (GenerationSeal_decode crc bytes = Inr s \<longleftrightarrow> seal_ok s \<and> bytes = GenerationSeal_encode crc s)"
  by (simp add: reference_codec.dec_iff current_codec.dec_iff marker_codec.dec_iff reservation_codec.dec_iff
      seal_codec.dec_iff)

end
