(* ===== verification/Wal_Recovery.thy ===== *)
theory Wal_Recovery
  imports Wal_Format
begin

text \<open>
  Recovery of the write-ahead log (\<open>src/storage/recovermanager/wal.rs\<close>): the analysis that checks
  the chain of frames, the redo that keeps the updates of committed transactions, and the scan of a
  segment with its three ways of treating an incomplete tail. \<open>BTreeMap\<close>s and \<open>BTreeSet\<close>s that are
  only looked up are maps and sets; \<open>latest_lsn + 1\<close> wraps, as in a release build.
\<close>

section \<open>Analysis\<close>

record frame_position =
  fp_segment_id :: u64
  fp_offset :: u64
  fp_length :: u32

record update_position =
  up_segment_id :: u64
  up_transaction_start_offset :: u64
  up_frame_offset :: u64
  up_frame_length :: u32
  up_physical_lsn :: u64

record commit_position =
  cp_frame_offset :: u64
  cp_commit_lsn :: u64

record logged_update =
  lu_transaction_id :: u64
  lu_command :: log_command
  lu_checksum :: u32
  lu_position :: "update_position option"

record analysis =
  an_latest_lsn :: u64
  an_previous_lsns :: "u64 \<rightharpoonup> u64"
  an_committed :: "u64 set"
  an_updates :: "logged_update list"
  an_legacy :: "wal_record list"
  an_track_refs :: bool
  an_transaction_starts :: "u64 \<rightharpoonup> u64"
  an_commit_positions :: "u64 \<rightharpoonup> commit_position"

definition Analysis_default :: analysis where
  "Analysis_default =
     \<lparr>an_latest_lsn = 0, an_previous_lsns = Map.empty, an_committed = {}, an_updates = [],
      an_legacy = [], an_track_refs = False, an_transaction_starts = Map.empty,
      an_commit_positions = Map.empty\<rparr>"

definition unwrap_or :: "'a \<Rightarrow> 'a option \<Rightarrow> 'a" where
  "unwrap_or d x = (case x of None \<Rightarrow> d | Some v \<Rightarrow> v)"

definition accept_update ::
  "wal_frame \<Rightarrow> log_command \<Rightarrow> u32 \<Rightarrow> frame_position \<Rightarrow> u64 \<Rightarrow> analysis \<Rightarrow> analysis" where
  "accept_update f c checksum pos previous_lsn a =
     (let starts = (if an_track_refs a \<and> previous_lsn = 0
                    then (an_transaction_starts a)(fr_transaction_id f \<mapsto> fp_offset pos)
                    else an_transaction_starts a);
          position =
            (if an_track_refs a
             then Some \<lparr>up_segment_id = fp_segment_id pos,
                        up_transaction_start_offset =
                          unwrap_or (fp_offset pos) (starts (fr_transaction_id f)),
                        up_frame_offset = fp_offset pos, up_frame_length = fp_length pos,
                        up_physical_lsn = fr_lsn f\<rparr>
             else None)
      in a\<lparr>an_transaction_starts := starts,
           an_updates := an_updates a @ [\<lparr>lu_transaction_id = fr_transaction_id f, lu_command = c,
                                          lu_checksum = checksum, lu_position = position\<rparr>]\<rparr>)"

definition accept_commit :: "wal_frame \<Rightarrow> frame_position \<Rightarrow> analysis \<Rightarrow> analysis" where
  "accept_commit f pos a =
     a\<lparr>an_committed := insert (fr_transaction_id f) (an_committed a),
       an_commit_positions :=
         (if an_track_refs a
          then (an_commit_positions a)(fr_transaction_id f \<mapsto>
                 \<lparr>cp_frame_offset = fp_offset pos, cp_commit_lsn = fr_lsn f\<rparr>)
          else an_commit_positions a)\<rparr>"

definition Analysis_accept ::
  "wal_frame \<Rightarrow> u32 \<Rightarrow> frame_position \<Rightarrow> analysis \<Rightarrow> analysis result" where
  "Analysis_accept f checksum pos a =
     (let previous_lsn = unwrap_or 0 (an_previous_lsns a (fr_transaction_id f)) in
      if fr_lsn f \<noteq> an_latest_lsn a + 1 \<or> fr_transaction_id f = 0
         \<or> fr_transaction_id f \<in> an_committed a \<or> fr_previous_lsn f \<noteq> previous_lsn
      then Inl (Err (Corrupted ''Invalid WAL transaction chain''))
      else
        rbind (case fr_record f of
                 Update c \<Rightarrow> Inr (accept_update f c checksum pos previous_lsn a)
               | Commit \<Rightarrow>
                   if previous_lsn = 0 then Inl (Err (Corrupted ''Commit without update''))
                   else Inr (accept_commit f pos a)) (\<lambda>a.
        Inr (a\<lparr>an_latest_lsn := fr_lsn f,
               an_previous_lsns := (an_previous_lsns a)(fr_transaction_id f \<mapsto> fr_lsn f)\<rparr>)))"

definition update_record :: "logged_update \<Rightarrow> wal_record" where
  "update_record u =
     \<lparr>wr_record_type = rt_byte (lc_record_type (lu_command u)), wr_lsn = lc_lsn (lu_command u),
      wr_key = lc_key (lu_command u), wr_value = lc_value (lu_command u),
      wr_checksum = lu_checksum u\<rparr>"

definition Analysis_redo :: "analysis \<Rightarrow> wal_record list" where
  "Analysis_redo a =
     an_legacy a
     @ map update_record (filter (\<lambda>u. lu_transaction_id u \<in> an_committed a) (an_updates a))"

record recovered_wal_update =
  ru_record :: wal_record
  ru_reference :: wal_value_ref

definition update_reference ::
  "(bytes \<Rightarrow> u32) \<Rightarrow> logged_update \<Rightarrow> update_position \<Rightarrow> commit_position \<Rightarrow> wal_value_ref" where
  "update_reference crc u p c =
     \<lparr>vr_segment_id = up_segment_id p, vr_transaction_id = lu_transaction_id u,
      vr_transaction_start_offset = up_transaction_start_offset p,
      vr_commit_offset = cp_frame_offset c, vr_commit_lsn = cp_commit_lsn c,
      vr_frame_offset = up_frame_offset p, vr_frame_length = up_frame_length p,
      vr_physical_lsn = up_physical_lsn p, vr_application_sequence = lc_lsn (lu_command u),
      vr_record_type = lc_record_type (lu_command u),
      vr_key_length = of_nat (length (lc_key (lu_command u))),
      vr_key_checksum = crc (lc_key (lu_command u)),
      vr_value_length = of_nat (length (lc_value (lu_command u))),
      vr_value_checksum = crc (lc_value (lu_command u))\<rparr>"

fun redo_refs_loop ::
  "(bytes \<Rightarrow> u32) \<Rightarrow> analysis \<Rightarrow> logged_update list \<Rightarrow> recovered_wal_update list result" where
  "redo_refs_loop crc a [] = Inr []"
| "redo_refs_loop crc a (u # us) =
     (if lu_transaction_id u \<notin> an_committed a then redo_refs_loop crc a us
      else
        (case lu_position u of
           None \<Rightarrow> Inl (Err (StorageError ''WAL recovery is missing an update position''))
         | Some p \<Rightarrow>
             (case an_commit_positions a (lu_transaction_id u) of
                None \<Rightarrow> Inl (Err (StorageError ''WAL recovery is missing a commit position''))
              | Some c \<Rightarrow>
                  if 2 ^ 32 \<le> length (lc_key (lu_command u))
                  then Inl (Err (Corrupted ''WAL key length overflow''))
                  else
                    rbind (redo_refs_loop crc a us) (\<lambda>rs.
                    Inr (\<lparr>ru_record = update_record u, ru_reference = update_reference crc u p c\<rparr>
                         # rs)))))"

definition Analysis_redo_with_refs ::
  "(bytes \<Rightarrow> u32) \<Rightarrow> analysis \<Rightarrow> recovered_wal_update list result" where
  "Analysis_redo_with_refs crc a =
     (if an_legacy a \<noteq> []
      then Inl (Err (StorageError ''Legacy WAL records do not carry value references''))
      else redo_refs_loop crc a (an_updates a))"

section \<open>Scanning a segment\<close>

datatype tail_handling = Repair | Allow | Reject

text \<open>One frame at the head of the bytes that remain: none complete, or its parts.\<close>

definition next_frame ::
  "(bytes \<Rightarrow> u32) \<Rightarrow> bytes \<Rightarrow> (wal_frame \<times> u32 \<times> nat) option result" where
  "next_frame crc rest =
     (if length rest < FRAME_HEADER_SIZE then Inr None
      else
        let frame_header = take FRAME_HEADER_SIZE rest in
        rbind (decode_frame_header crc frame_header) (\<lambda>(lsn, len).
        let len = unat len in
        if len < 17 \<or> MAX_FRAME_SIZE < len then Inl (Err (Corrupted ''Invalid WAL frame size''))
        else if length rest - FRAME_HEADER_SIZE < len then Inr None
        else
          let body = take len (drop FRAME_HEADER_SIZE rest) in
          rbind (verify_frame_body crc frame_header body) (\<lambda>checksum.
          rbind (map_err (Corrupted ''Invalid WAL frame'') (decode_frame lsn body)) (\<lambda>frame.
          Inr (Some (frame, checksum, FRAME_HEADER_SIZE + len))))))"

lemma next_frame_length:
  "next_frame crc rest = Inr (Some (frame, checksum, n)) \<Longrightarrow> 0 < n \<and> n \<le> length rest"
  by (auto simp: next_frame_def Let_def rbind_eq_Inr FRAME_HEADER_SIZE_def split: if_split_asm)

function scan_loop ::
  "(bytes \<Rightarrow> u32) \<Rightarrow> u64 \<Rightarrow> u64 \<Rightarrow> bytes \<Rightarrow> nat \<Rightarrow> analysis \<Rightarrow> (nat \<times> analysis) result" where
  "scan_loop crc version segment_id bytes offset a =
     (if length bytes \<le> offset then Inr (offset, a)
      else if version = LEGACY_WAL_VERSION then
        (case decode_legacy crc (drop offset bytes) of
           Inr (record, len) \<Rightarrow>
             (let a' = a\<lparr>an_legacy := an_legacy a @ [record]\<rparr>
              in if len = 0 then Inr (offset, a')
                 else scan_loop crc version segment_id bytes (offset + len) a')
         | Inl e \<Rightarrow> if e = Err (IO UnexpectedEof) then Inr (offset, a) else Inl e)
      else
        (case next_frame crc (drop offset bytes) of
           Inl e \<Rightarrow> Inl e
         | Inr None \<Rightarrow> Inr (offset, a)
         | Inr (Some (frame, checksum, n)) \<Rightarrow>
             (case Analysis_accept frame checksum
                     \<lparr>fp_segment_id = segment_id, fp_offset = of_nat offset, fp_length = of_nat n\<rparr> a of
                Inl e \<Rightarrow> Inl e
              | Inr a' \<Rightarrow> scan_loop crc version segment_id bytes (offset + n) a')))"
  by pat_completeness auto
termination
  by (relation "measure (\<lambda>(crc, version, segment_id, bytes, offset, a). length bytes - offset)")
    (auto dest: next_frame_length)

declare scan_loop.simps [simp del]

text \<open>
  What an incomplete header may still become: the headers of both formats, the old one only when
  nothing has been scanned yet, whichever the bytes are a prefix of.
\<close>

definition complete_header :: "(bytes \<Rightarrow> u32) \<Rightarrow> bytes \<Rightarrow> analysis \<Rightarrow> bytes option" where
  "complete_header crc bytes a =
     List.find (\<lambda>header. take (length bytes) header = bytes)
       (map (\<lambda>version. WALHeader_encode crc (versioned_header version))
          (filter (\<lambda>version. version \<noteq> LEGACY_WAL_VERSION \<or> an_latest_lsn a = 0)
             [WAL_VERSION, LEGACY_WAL_VERSION]))"

text \<open>
  The scan returns the version, the analysis and the bytes the file holds afterwards: completed or
  cut to the last whole frame when repairing, as they were otherwise.
\<close>

definition scan_segment_with_tail_handling ::
  "(bytes \<Rightarrow> u32) \<Rightarrow> tail_handling \<Rightarrow> u64 \<Rightarrow> bytes \<Rightarrow> analysis \<Rightarrow>
   (u64 \<times> analysis \<times> bytes) result" where
  "scan_segment_with_tail_handling crc tail_mode segment_id file_bytes a =
     rbind (if length file_bytes < WAL_HEADER_SIZE \<and> tail_mode \<noteq> Reject then
              (case complete_header crc file_bytes a of
                 None \<Rightarrow> Inl (Err (Corrupted ''Invalid incomplete WAL header''))
               | Some header \<Rightarrow>
                   Inr (header, if tail_mode = Repair then header else file_bytes))
            else Inr (file_bytes, file_bytes)) (\<lambda>(bytes, file_bytes).
     rbind (WALHeader_decode crc bytes) (\<lambda>header.
     rbind (guard_err (wh_version header = LEGACY_WAL_VERSION \<and> an_latest_lsn a \<noteq> 0)
              (Corrupted ''Legacy WAL after transactional segment'')) (\<lambda>_.
     rbind (guard_err (wh_last_checkpoint header \<noteq> 0 \<or> wh_last_checkpoint_offset header \<noteq> 0)
              (Corrupted ''Unsupported WAL checkpoint metadata'')) (\<lambda>_.
     rbind (scan_loop crc (wh_version header) (if an_track_refs a then segment_id else 0) bytes
              WAL_HEADER_SIZE a) (\<lambda>(offset, a).
     if offset \<noteq> length bytes then
       (case tail_mode of
          Repair \<Rightarrow> Inr (wh_version header, a, take offset bytes)
        | Allow \<Rightarrow> Inr (wh_version header, a, file_bytes)
        | Reject \<Rightarrow> Inl (Err (Corrupted ''Incomplete WAL frame in sealed segment'')))
     else Inr (wh_version header, a, file_bytes))))))"

definition scan_segment ::
  "(bytes \<Rightarrow> u32) \<Rightarrow> bool \<Rightarrow> u64 \<Rightarrow> bytes \<Rightarrow> analysis \<Rightarrow> (u64 \<times> analysis \<times> bytes) result" where
  "scan_segment crc repair_tail segment_id bytes a =
     scan_segment_with_tail_handling crc (if repair_tail then Repair else Reject) segment_id bytes a"

section \<open>Scanning what was written\<close>

lemma next_frame_bytes:
  assumes "frame_ok f"
  shows "next_frame crc (frame_bytes crc f @ rest)
         = Inr (Some (f, frame_crc crc f, length (frame_bytes crc f)))"
  using frame_body_bounds [OF assms]
  by (simp add: next_frame_def frame_bytes_def decode_frame_header_head unat_len_body [OF assms]
      verify_frame_body_head decode_frame_body [OF assms] Let_def)

lemma next_frame_torn:
  assumes "frame_ok f" and "n < length (frame_bytes crc f)"
  shows "next_frame crc (take n (frame_bytes crc f)) = Inr None"
proof (cases "n < FRAME_HEADER_SIZE")
  case False
  then have "n - FRAME_HEADER_SIZE < length (frame_body f)"
    using assms(2) length_frame_bytes [of crc f] by linarith
  with False show ?thesis
    using frame_body_bounds [OF assms(1)] assms(2)
    by (simp add: next_frame_def frame_bytes_def decode_frame_header_head min_def
        unat_len_body [OF assms(1)] Let_def)
qed (use assms(2) in \<open>simp add: next_frame_def\<close>)

abbreviation frames_bytes :: "(bytes \<Rightarrow> u32) \<Rightarrow> wal_frame list \<Rightarrow> bytes" where
  "frames_bytes crc fs \<equiv> concat (map (frame_bytes crc) fs)"

text \<open>Accepting a list of frames, the first at the given offset.\<close>

fun accept_frames ::
  "(bytes \<Rightarrow> u32) \<Rightarrow> u64 \<Rightarrow> nat \<Rightarrow> wal_frame list \<Rightarrow> analysis \<Rightarrow> analysis result" where
  "accept_frames crc segment_id offset [] a = Inr a"
| "accept_frames crc segment_id offset (f # fs) a =
     rbind (Analysis_accept f (frame_crc crc f)
              \<lparr>fp_segment_id = segment_id, fp_offset = of_nat offset,
               fp_length = of_nat (length (frame_bytes crc f))\<rparr> a)
       (accept_frames crc segment_id (offset + length (frame_bytes crc f)) fs)"

definition torn_frame :: "(bytes \<Rightarrow> u32) \<Rightarrow> bytes \<Rightarrow> bool" where
  "torn_frame crc bs \<longleftrightarrow>
     (\<exists>f n. frame_ok f \<and> n < length (frame_bytes crc f) \<and> bs = take n (frame_bytes crc f))"

lemma torn_frame_Nil [simp]: "torn_frame crc []"
proof -
  let ?f = "\<lparr>fr_lsn = 0, fr_transaction_id = 0, fr_previous_lsn = 0, fr_record = Commit\<rparr>"
  have "frame_ok ?f" by (simp add: frame_ok_def)
  moreover have "0 < length (frame_bytes crc ?f)" by (rule frame_bytes_size(1)) fact
  ultimately show ?thesis unfolding torn_frame_def by (metis take_0)
qed

lemma scan_loop_frames:
  assumes "list_all frame_ok fs" and "torn_frame crc torn" and "version \<noteq> LEGACY_WAL_VERSION"
  shows "scan_loop crc version sid (pre @ frames_bytes crc fs @ torn) (length pre) a
         = rbind (accept_frames crc sid (length pre) fs a) (\<lambda>a'.
             Inr (length pre + length (frames_bytes crc fs), a'))"
  using assms(1)
proof (induction fs arbitrary: pre a)
  case Nil
  from assms(2) have "next_frame crc torn = Inr None"
    by (auto simp: torn_frame_def next_frame_torn)
  with assms(3) show ?case by (simp add: scan_loop.simps)
next
  case (Cons f fs)
  let ?rest = "frames_bytes crc fs @ torn"
  have "0 < length (frame_bytes crc f)" using Cons.prems frame_bytes_size(1) by simp
  then show ?case
    using Cons.IH [of "pre @ frame_bytes crc f"] Cons.prems assms(3)
      next_frame_bytes [of f crc ?rest]
    by (subst scan_loop.simps) (simp add: add.assoc rbind_assoc split: sum.split)
qed

text \<open>A scan that reached the end goes on where it stood when more bytes follow.\<close>

lemma next_frame_append:
  assumes "next_frame crc rest = Inr (Some r)"
  shows "next_frame crc (rest @ ext) = Inr (Some r)"
proof -
  from assms obtain lsn len c f where *: "\<not> length rest < FRAME_HEADER_SIZE"
    "decode_frame_header crc (take FRAME_HEADER_SIZE rest) = Inr (lsn, len)"
    "\<not> (unat len < 17 \<or> MAX_FRAME_SIZE < unat len)" "\<not> length rest - FRAME_HEADER_SIZE < unat len"
    "verify_frame_body crc (take FRAME_HEADER_SIZE rest) (take (unat len) (drop FRAME_HEADER_SIZE rest))
     = Inr c"
    "decode_frame lsn (take (unat len) (drop FRAME_HEADER_SIZE rest)) = Inr f"
    "r = (f, c, FRAME_HEADER_SIZE + unat len)"
    by (auto simp: next_frame_def Let_def rbind_eq_Inr split: if_split_asm)
  then have "take (unat len) (drop FRAME_HEADER_SIZE (rest @ ext))
      = take (unat len) (drop FRAME_HEADER_SIZE rest)"
    and "take FRAME_HEADER_SIZE (rest @ ext) = take FRAME_HEADER_SIZE rest"
    and "\<not> length (rest @ ext) - FRAME_HEADER_SIZE < unat len"
    and "\<not> length (rest @ ext) < FRAME_HEADER_SIZE"
    by auto
  with * show ?thesis by (simp add: next_frame_def Let_def del: length_append take_append drop_append)
qed

lemma scan_loop_append:
  assumes "scan_loop crc version sid bytes offset a = Inr (length bytes, a')"
    and "version \<noteq> LEGACY_WAL_VERSION" and "offset \<le> length bytes"
  shows "scan_loop crc version sid (bytes @ ext) offset a
         = scan_loop crc version sid (bytes @ ext) (length bytes) a'"
  using assms
proof (induction crc version sid bytes offset a rule: scan_loop.induct)
  case (1 crc version sid bytes offset a)
  show ?case
  proof (cases "offset = length bytes")
    case True
    with "1.prems"(1) show ?thesis by (simp add: scan_loop.simps [of _ _ _ bytes])
  next
    case False
    with "1.prems" have lt: "\<not> length bytes \<le> offset" "offset < length bytes" by simp_all
    with "1.prems" obtain f c n a2 where
      nf: "next_frame crc (drop offset bytes) = Inr (Some (f, c, n))"
      and acc: "Analysis_accept f c
        \<lparr>fp_segment_id = sid, fp_offset = of_nat offset, fp_length = of_nat n\<rparr> a = Inr a2"
      and rest: "scan_loop crc version sid bytes (offset + n) a2 = Inr (length bytes, a')"
      by (auto simp: scan_loop.simps [of _ _ _ bytes offset] split: sum.splits option.splits)
    have "offset + n \<le> length bytes" using next_frame_length [OF nf] lt by auto
    with "1.IH"(2) [OF lt(1) "1.prems"(2) nf refl refl refl acc rest "1.prems"(2)] lt
      next_frame_append [OF nf, of ext] acc "1.prems"(2)
    show ?thesis by (subst scan_loop.simps) simp
  qed
qed

section \<open>Transactions in the log\<close>

text \<open>
  The frames of a transaction: its updates in order, each pointing back to the one before, and the
  commit. \<open>log_frames\<close> are the frames of consecutive transactions from an LSN on.
\<close>

fun update_frames :: "u64 \<Rightarrow> u64 \<Rightarrow> u64 \<Rightarrow> log_command list \<Rightarrow> wal_frame list" where
  "update_frames tid prev lsn [] = []"
| "update_frames tid prev lsn (c # cs) =
     \<lparr>fr_lsn = lsn, fr_transaction_id = tid, fr_previous_lsn = prev, fr_record = Update c\<rparr>
     # update_frames tid lsn (lsn + 1) cs"

definition tx_frames :: "u64 \<Rightarrow> log_command list \<Rightarrow> wal_frame list" where
  "tx_frames lsn cs =
     update_frames lsn 0 lsn cs
     @ [\<lparr>fr_lsn = lsn + of_nat (length cs), fr_transaction_id = lsn,
         fr_previous_lsn = lsn + of_nat (length cs) - 1, fr_record = Commit\<rparr>]"

fun log_frames :: "u64 \<Rightarrow> log_command list list \<Rightarrow> wal_frame list" where
  "log_frames lsn [] = []"
| "log_frames lsn (cs # css) = tx_frames lsn cs @ log_frames (lsn + of_nat (length cs + 1)) css"

text \<open>The transactions whose frames, the commit included, are among the first \<open>k\<close>.\<close>

fun complete_txs :: "nat \<Rightarrow> log_command list list \<Rightarrow> log_command list list" where
  "complete_txs k [] = []"
| "complete_txs k (cs # css) =
     (if length cs < k then cs # complete_txs (k - (length cs + 1)) css else [])"

definition tx_frame_count :: "log_command list list \<Rightarrow> nat" where
  "tx_frame_count css = sum_list (map (\<lambda>cs. length cs + 1) css)"

lemma tx_frame_count_simps [simp]:
  "tx_frame_count [] = 0" "tx_frame_count (cs # css) = length cs + 1 + tx_frame_count css"
  by (simp_all add: tx_frame_count_def)

lemma length_update_frames [simp]: "length (update_frames tid prev lsn cs) = length cs"
  by (induction cs arbitrary: prev lsn) auto

lemma length_tx_frames [simp]: "length (tx_frames lsn cs) = length cs + 1"
  by (simp add: tx_frames_def)

lemma length_log_frames [simp]: "length (log_frames lsn css) = tx_frame_count css"
  by (induction css arbitrary: lsn) auto

lemma take_update_frames: "take k (update_frames tid prev lsn cs) = update_frames tid prev lsn (take k cs)"
  by (induction cs arbitrary: prev lsn k) (auto simp: take_Cons')

lemma complete_txs_all: "tx_frame_count css \<le> k \<Longrightarrow> complete_txs k css = css"
  by (induction k css rule: complete_txs.induct) auto

lemma complete_txs_prefix: "\<exists>n. complete_txs k css = take n css"
proof (induction k css rule: complete_txs.induct)
  case (2 k cs css)
  show ?case
  proof (cases "length cs < k")
    case True
    with 2 obtain n where "complete_txs (k - (length cs + 1)) css = take n css" by auto
    with True have "complete_txs k (cs # css) = take (Suc n) (cs # css)" by simp
    then show ?thesis ..
  next
    case False
    then have "complete_txs k (cs # css) = take 0 (cs # css)" by simp
    then show ?thesis ..
  qed
qed simp

text \<open>What recovery returns of the transactions: the commands of the committed ones, in log order.\<close>

definition committed_commands :: "analysis \<Rightarrow> log_command list" where
  "committed_commands a =
     map lu_command (filter (\<lambda>u. lu_transaction_id u \<in> an_committed a) (an_updates a))"

text \<open>Every transaction seen so far has an id up to the latest LSN, so the next one is new.\<close>

definition tids_below :: "analysis \<Rightarrow> bool" where
  "tids_below a \<longleftrightarrow>
     (\<forall>t \<in> dom (an_previous_lsns a) \<union> an_committed a \<union> lu_transaction_id ` set (an_updates a).
        t \<le> an_latest_lsn a)"

lemma accept_frames_append:
  "accept_frames crc sid off (xs @ ys) a =
     rbind (accept_frames crc sid off xs a)
       (accept_frames crc sid (off + length (frames_bytes crc xs)) ys)"
  by (induction xs arbitrary: off a) (auto simp: rbind_def add.assoc split: sum.split)

text \<open>How updates \<open>cs\<close> of the transaction \<open>tid\<close> extend an analysis.\<close>

definition open_ext :: "u64 \<Rightarrow> log_command list \<Rightarrow> analysis \<Rightarrow> analysis \<Rightarrow> bool" where
  "open_ext tid cs a a' \<longleftrightarrow>
     an_latest_lsn a' = an_latest_lsn a + of_nat (length cs) \<and> an_committed a' = an_committed a
     \<and> an_legacy a' = an_legacy a \<and> an_track_refs a' = an_track_refs a
     \<and> an_previous_lsns a' = (if cs = [] then an_previous_lsns a
                               else (an_previous_lsns a)(tid \<mapsto> an_latest_lsn a'))
     \<and> (\<exists>us. an_updates a' = an_updates a @ us \<and> map lu_command us = cs
              \<and> (\<forall>u \<in> set us. lu_transaction_id u = tid))"

lemma open_ext_refl: "open_ext tid [] a a"
  by (simp add: open_ext_def)

lemma open_ext_trans:
  assumes "open_ext tid cs a b" and "open_ext tid ds b d"
  shows "open_ext tid (cs @ ds) a d"
proof -
  obtain us vs where "an_updates b = an_updates a @ us" "map lu_command us = cs"
    "\<forall>u \<in> set us. lu_transaction_id u = tid"
    "an_updates d = an_updates b @ vs" "map lu_command vs = ds"
    "\<forall>u \<in> set vs. lu_transaction_id u = tid"
    using assms unfolding open_ext_def by blast
  then have "an_updates d = an_updates a @ (us @ vs) \<and> map lu_command (us @ vs) = cs @ ds
      \<and> (\<forall>u \<in> set (us @ vs). lu_transaction_id u = tid)"
    by auto
  with assms show ?thesis unfolding open_ext_def by (auto simp: algebra_simps)
qed

lemma accept_update_ext:
  assumes "tid \<noteq> 0" and "tid \<notin> an_committed a" and "unwrap_or 0 (an_previous_lsns a tid) = prev"
  shows "\<exists>a'. Analysis_accept \<lparr>fr_lsn = an_latest_lsn a + 1, fr_transaction_id = tid,
                fr_previous_lsn = prev, fr_record = Update c\<rparr> checksum pos a = Inr a'
              \<and> open_ext tid [c] a a'"
  using assms by (simp add: Analysis_accept_def accept_update_def Let_def open_ext_def)

lemma accept_update_frames:
  assumes "tid \<noteq> 0" and "tid \<notin> an_committed a" and "unwrap_or 0 (an_previous_lsns a tid) = prev"
  shows "\<exists>a'. accept_frames crc sid off (update_frames tid prev (an_latest_lsn a + 1) cs) a = Inr a'
              \<and> open_ext tid cs a a'"
  using assms
proof (induction cs arbitrary: a prev off)
  case Nil
  show ?case by (simp add: open_ext_refl)
next
  case (Cons c cs)
  let ?lsn = "an_latest_lsn a + 1"
  let ?f = "\<lparr>fr_lsn = ?lsn, fr_transaction_id = tid, fr_previous_lsn = prev, fr_record = Update c\<rparr>"
  let ?pos = "\<lparr>fp_segment_id = sid, fp_offset = of_nat off,
               fp_length = of_nat (length (frame_bytes crc ?f))\<rparr>"
  obtain a1 where a1: "Analysis_accept ?f (frame_crc crc ?f) ?pos a = Inr a1"
    and ext: "open_ext tid [c] a a1"
    using accept_update_ext [OF Cons.prems] by blast
  from ext have "an_latest_lsn a1 = ?lsn" "an_committed a1 = an_committed a"
    "unwrap_or 0 (an_previous_lsns a1 tid) = ?lsn"
    by (auto simp: open_ext_def unwrap_or_def)
  with Cons.IH [of a1 ?lsn "off + length (frame_bytes crc ?f)"] Cons.prems
  obtain a' where "accept_frames crc sid (off + length (frame_bytes crc ?f))
        (update_frames tid ?lsn (?lsn + 1) cs) a1 = Inr a'" "open_ext tid cs a1 a'"
    by auto
  with a1 open_ext_trans [OF ext, of cs a'] show ?case by auto
qed

lemma lsn_add:
  assumes "unat (lsn :: u64) + n < 2 ^ 64"
  shows "unat (lsn + of_nat n) = unat lsn + n"
  using assms by (simp add: unat_word_ariths unat_of_nat_64)

lemma tids_below_fresh:
  assumes "tids_below a" and "an_latest_lsn a < tid"
  shows "an_previous_lsns a tid = None" "tid \<notin> an_committed a"
    "\<forall>u \<in> set (an_updates a). lu_transaction_id u \<noteq> tid"
  using assms by (auto simp: tids_below_def dom_def dest!: bspec [of _ _ tid])

lemma open_ext_below:
  assumes "open_ext tid cs a a'" and "tids_below a" and "tid = an_latest_lsn a + 1"
    and "unat (an_latest_lsn a) + length cs < 2 ^ 64"
  shows "tids_below a'"
proof (cases "cs = []")
  case True
  with assms show ?thesis by (auto simp: open_ext_def tids_below_def)
next
  case False
  then have n: "0 < length cs" by simp
  have le: "an_latest_lsn a \<le> an_latest_lsn a'"
    using assms(1,4) lsn_add [of "an_latest_lsn a" "length cs"]
    by (simp add: open_ext_def word_le_nat_alt)
  have "unat (an_latest_lsn a) + 1 < 2 ^ 64" using assms(4) n by linarith
  from lsn_add [OF this] have "unat tid = unat (an_latest_lsn a) + 1" using assms(3) by simp
  moreover have "unat (an_latest_lsn a') = unat (an_latest_lsn a) + length cs"
    using assms(1,4) lsn_add [of "an_latest_lsn a" "length cs"] by (simp add: open_ext_def)
  ultimately have tid: "tid \<le> an_latest_lsn a'"
    using n unfolding word_le_nat_alt by linarith
  from assms(1) obtain us where "an_updates a' = an_updates a @ us"
    "\<forall>u \<in> set us. lu_transaction_id u = tid"
    by (auto simp: open_ext_def)
  moreover have "an_committed a' = an_committed a"
    and "dom (an_previous_lsns a') = insert tid (dom (an_previous_lsns a))"
    using assms(1) False by (auto simp: open_ext_def)
  ultimately show ?thesis
    using assms(2) le tid unfolding tids_below_def by (auto intro: order_trans)
qed

lemma open_ext_committed:
  assumes "open_ext tid cs a a'" and "tid \<notin> an_committed a"
  shows "committed_commands a' = committed_commands a"
proof -
  from assms(1) obtain us where "an_updates a' = an_updates a @ us"
    "\<forall>u \<in> set us. lu_transaction_id u = tid" "an_committed a' = an_committed a"
    by (auto simp: open_ext_def)
  with assms(2) show ?thesis by (simp add: committed_commands_def filter_empty_conv)
qed

text \<open>What an analysis keeps when a whole or partial transaction is accepted.\<close>

definition tx_ext :: "log_command list \<Rightarrow> nat \<Rightarrow> analysis \<Rightarrow> analysis \<Rightarrow> bool" where
  "tx_ext cs n a a' \<longleftrightarrow>
     tids_below a' \<and> an_latest_lsn a' = an_latest_lsn a + of_nat n
     \<and> committed_commands a' = committed_commands a @ cs
     \<and> an_legacy a' = an_legacy a \<and> an_track_refs a' = an_track_refs a"

lemma tx_ext_trans: "tx_ext cs n a b \<Longrightarrow> tx_ext ds k b d \<Longrightarrow> tx_ext (cs @ ds) (n + k) a d"
  by (simp add: tx_ext_def algebra_simps)

lemma fresh_tid:
  assumes "tids_below a" and "unat (an_latest_lsn a) + 1 < 2 ^ 64"
  shows "an_latest_lsn a < an_latest_lsn a + 1" "an_latest_lsn a + 1 \<noteq> 0"
    "an_latest_lsn a + 1 \<notin> an_committed a"
    "unwrap_or 0 (an_previous_lsns a (an_latest_lsn a + 1)) = 0"
proof -
  show lt: "an_latest_lsn a < an_latest_lsn a + 1"
    using lsn_add [of "an_latest_lsn a" 1] assms(2) by (simp add: word_less_nat_alt)
  then show "an_latest_lsn a + 1 \<noteq> 0" using word_not_simps(1) by metis
  show "an_latest_lsn a + 1 \<notin> an_committed a"
    "unwrap_or 0 (an_previous_lsns a (an_latest_lsn a + 1)) = 0"
    using tids_below_fresh [OF assms(1) lt] by (simp_all add: unwrap_or_def)
qed

lemma accept_partial_tx:
  assumes "tids_below a" and "unat (an_latest_lsn a) + length cs < 2 ^ 64"
  shows "\<exists>a'. accept_frames crc sid off
                (update_frames (an_latest_lsn a + 1) 0 (an_latest_lsn a + 1) cs) a = Inr a'
              \<and> tx_ext [] (length cs) a a'"
proof (cases "cs = []")
  case True
  with assms show ?thesis by (simp add: tx_ext_def)
next
  case False
  then have "unat (an_latest_lsn a) + 1 < 2 ^ 64"
    using assms(2) by (cases cs) auto
  note fresh = fresh_tid [OF assms(1) this]
  from accept_update_frames [OF fresh(2-4)] obtain a' where
    "accept_frames crc sid off (update_frames (an_latest_lsn a + 1) 0 (an_latest_lsn a + 1) cs) a
     = Inr a'" and ext: "open_ext (an_latest_lsn a + 1) cs a a'"
    by blast
  moreover have "tx_ext [] (length cs) a a'"
    using ext open_ext_below [OF ext assms(1) refl assms(2)] open_ext_committed [OF ext fresh(3)]
    by (simp add: tx_ext_def open_ext_def)
  ultimately show ?thesis by blast
qed

lemma accept_commit_ext:
  assumes ext: "open_ext tid cs a b" and "cs \<noteq> []" and "tids_below a" and "tid = an_latest_lsn a + 1"
    and room: "unat (an_latest_lsn a) + (length cs + 1) < 2 ^ 64"
  shows "\<exists>d. Analysis_accept \<lparr>fr_lsn = an_latest_lsn b + 1, fr_transaction_id = tid,
                fr_previous_lsn = an_latest_lsn b, fr_record = Commit\<rparr> checksum pos b = Inr d
             \<and> tx_ext cs (length cs + 1) a d"
proof -
  have "unat (an_latest_lsn a) + 1 < 2 ^ 64" using room by simp
  note fresh = fresh_tid [OF assms(3) this]
  have below: "tids_below b" using open_ext_below [OF ext assms(3,4)] room by simp
  have latest: "unat (an_latest_lsn b) = unat (an_latest_lsn a) + length cs"
    using ext room lsn_add [of "an_latest_lsn a" "length cs"] by (simp add: open_ext_def)
  then have nz: "an_latest_lsn b \<noteq> 0"
    using assms(2) by (metis add_is_0 length_0_conv unsigned_0)
  have next_lsn: "an_latest_lsn b \<le> an_latest_lsn b + 1"
    using lsn_add [of "an_latest_lsn b" 1] latest room by (simp add: word_le_nat_alt)
  have prev: "an_previous_lsns b tid = Some (an_latest_lsn b)" and com: "an_committed b = an_committed a"
    using ext assms(2) by (auto simp: open_ext_def)
  let ?f = "\<lparr>fr_lsn = an_latest_lsn b + 1, fr_transaction_id = tid,
             fr_previous_lsn = an_latest_lsn b, fr_record = Commit\<rparr>"
  obtain d where d: "Analysis_accept ?f checksum pos b = Inr d"
    and eqs: "an_latest_lsn d = an_latest_lsn b + 1" "an_committed d = insert tid (an_committed b)"
      "an_updates d = an_updates b" "an_legacy d = an_legacy b" "an_track_refs d = an_track_refs b"
      "dom (an_previous_lsns d) = insert tid (dom (an_previous_lsns b))"
    using fresh assms(4) prev nz com
    by (simp add: Analysis_accept_def accept_commit_def Let_def unwrap_or_def)
  have tid: "tid \<le> an_latest_lsn b" using below prev by (auto simp: tids_below_def)
  have "tids_below d"
    using below tid next_lsn eqs unfolding tids_below_def by (auto intro: order_trans)
  moreover have "committed_commands d = committed_commands a @ cs"
  proof -
    from ext obtain us where "an_updates b = an_updates a @ us" "map lu_command us = cs"
      "\<forall>u \<in> set us. lu_transaction_id u = tid"
      by (auto simp: open_ext_def)
    moreover have "\<forall>u \<in> set (an_updates a). lu_transaction_id u \<noteq> tid"
      using tids_below_fresh(3) [OF assms(3) fresh(1)] assms(4) by simp
    ultimately show ?thesis
      using eqs com by (auto simp: committed_commands_def cong: filter_cong)
  qed
  ultimately show ?thesis
    using d eqs ext by (auto simp: tx_ext_def open_ext_def algebra_simps)
qed

lemma accept_tx:
  assumes "tids_below a" and "cs \<noteq> []" and "unat (an_latest_lsn a) + (length cs + 1) < 2 ^ 64"
  shows "\<exists>a'. accept_frames crc sid off (tx_frames (an_latest_lsn a + 1) cs) a = Inr a'
              \<and> tx_ext cs (length cs + 1) a a'"
proof -
  let ?tid = "an_latest_lsn a + 1"
  have "unat (an_latest_lsn a) + 1 < 2 ^ 64" using assms(3) by simp
  note fresh = fresh_tid [OF assms(1) this]
  obtain b where b: "accept_frames crc sid off (update_frames ?tid 0 ?tid cs) a = Inr b"
    and ext: "open_ext ?tid cs a b"
    using accept_update_frames [OF fresh(2-4)] by blast
  then have "an_latest_lsn b = an_latest_lsn a + of_nat (length cs)" by (simp add: open_ext_def)
  then have frames: "tx_frames ?tid cs = update_frames ?tid 0 ?tid cs
      @ [\<lparr>fr_lsn = an_latest_lsn b + 1, fr_transaction_id = ?tid,
          fr_previous_lsn = an_latest_lsn b, fr_record = Commit\<rparr>]" (is "_ = _ @ [?commit]")
    by (simp add: tx_frames_def algebra_simps)
  let ?pos = "\<lparr>fp_segment_id = sid,
      fp_offset = of_nat (off + length (frames_bytes crc (update_frames ?tid 0 ?tid cs))),
      fp_length = of_nat (length (frame_bytes crc ?commit))\<rparr>"
  obtain d where "Analysis_accept ?commit (frame_crc crc ?commit) ?pos b = Inr d"
    "tx_ext cs (length cs + 1) a d"
    using accept_commit_ext [OF ext assms(2,1) refl assms(3)] by blast
  then show ?thesis
    unfolding frames accept_frames_append by (simp add: b)
qed

text \<open>
  The first \<open>k\<close> frames of a list of transactions: the complete ones are recovered, the rest is
  carried as an uncommitted transaction.
\<close>

lemma accept_log_prefix:
  assumes "tids_below a" and "list_all (\<lambda>cs. cs \<noteq> []) css"
    and "unat (an_latest_lsn a) + tx_frame_count css < 2 ^ 64"
  shows "\<exists>a'. accept_frames crc sid off (take k (log_frames (an_latest_lsn a + 1) css)) a = Inr a'
              \<and> tx_ext (concat (complete_txs k css)) (min k (tx_frame_count css)) a a'"
  using assms
proof (induction css arbitrary: a off k)
  case Nil
  then show ?case by (simp add: tx_ext_def)
next
  case (Cons cs css)
  let ?lsn = "an_latest_lsn a + 1"
  show ?case
  proof (cases "length cs < k")
    case True
    have "cs \<noteq> []" "unat (an_latest_lsn a) + (length cs + 1) < 2 ^ 64" using Cons.prems by auto
    then obtain b where b: "accept_frames crc sid off (tx_frames ?lsn cs) a = Inr b"
      and ext: "tx_ext cs (length cs + 1) a b"
      using accept_tx [OF Cons.prems(1)] by blast
    then have latest: "an_latest_lsn b = an_latest_lsn a + of_nat (length cs + 1)" "tids_below b"
      by (simp_all only: tx_ext_def)
    then have "unat (an_latest_lsn b) = unat (an_latest_lsn a) + (length cs + 1)"
      using Cons.prems(3) lsn_add [of "an_latest_lsn a" "length cs + 1"] by simp
    with Cons.IH [of b "off + length (frames_bytes crc (tx_frames ?lsn cs))" "k - (length cs + 1)"]
      latest Cons.prems
    obtain d where "accept_frames crc sid (off + length (frames_bytes crc (tx_frames ?lsn cs)))
        (take (k - (length cs + 1)) (log_frames (an_latest_lsn b + 1) css)) b = Inr d"
      and "tx_ext (concat (complete_txs (k - (length cs + 1)) css))
             (min (k - (length cs + 1)) (tx_frame_count css)) b d"
      by auto
    moreover have "length cs + 1 + min (k - (length cs + 1)) (tx_frame_count css)
        = min k (length cs + 1 + tx_frame_count css)"
      using True by auto
    ultimately show ?thesis
      using True b tx_ext_trans [OF ext] latest(1)
      by (fastforce simp: accept_frames_append algebra_simps)
  next
    case False
    then have "take k (log_frames ?lsn (cs # css)) = update_frames ?lsn 0 ?lsn (take k cs)"
      by (simp add: tx_frames_def take_update_frames)
    moreover have "unat (an_latest_lsn a) + length (take k cs) < 2 ^ 64"
      using Cons.prems(3) by simp
    ultimately show ?thesis
      using accept_partial_tx [OF Cons.prems(1), of "take k cs" crc sid off] False
      by (auto simp: min_def split: if_splits)
  qed
qed

text \<open>Cutting the bytes of frames anywhere leaves whole frames and a torn one.\<close>

fun whole_frames :: "(bytes \<Rightarrow> u32) \<Rightarrow> nat \<Rightarrow> wal_frame list \<Rightarrow> nat" where
  "whole_frames crc n [] = 0"
| "whole_frames crc n (f # fs) =
     (if length (frame_bytes crc f) \<le> n
      then Suc (whole_frames crc (n - length (frame_bytes crc f)) fs) else 0)"

lemma take_frames_bytes:
  assumes "list_all frame_ok fs"
  shows "\<exists>torn. take n (frames_bytes crc fs) = frames_bytes crc (take (whole_frames crc n fs) fs) @ torn
              \<and> torn_frame crc torn"
  using assms
proof (induction crc n fs rule: whole_frames.induct)
  case (2 crc n f fs)
  show ?case
  proof (cases "length (frame_bytes crc f) \<le> n")
    case True
    with 2 obtain torn where "take (n - length (frame_bytes crc f)) (frames_bytes crc fs)
        = frames_bytes crc (take (whole_frames crc (n - length (frame_bytes crc f)) fs) fs) @ torn"
      "torn_frame crc torn"
      by auto
    with True show ?thesis by auto
  next
    case False
    with 2 have "torn_frame crc (take n (frame_bytes crc f))"
      unfolding torn_frame_def by (intro exI [of _ f] exI [of _ n]) simp
    with False show ?thesis by simp
  qed
qed simp

lemma whole_frames_all:
  "length (frames_bytes crc fs) \<le> n \<Longrightarrow> whole_frames crc n fs = length fs"
  by (induction crc n fs rule: whole_frames.induct) auto

end
