(* ===== verification/Utf8.thy ===== *)
theory Utf8
  imports Prelude
begin

text \<open>
  Rust strings are byte sequences in UTF-8. \<open>utf8_valid\<close> is the check of \<open>str::from_utf8\<close>:
  no stray continuation byte, no overlong form, no surrogate, nothing past U+10FFFF.
\<close>

definition utf8_cont :: "byte \<Rightarrow> bool" where
  "utf8_cont b \<longleftrightarrow> 0x80 \<le> b \<and> b \<le> 0xBF"

text \<open>The bytes of the character at the head, 0 when no character starts there.\<close>

definition utf8_char3 :: "byte \<Rightarrow> byte \<Rightarrow> byte \<Rightarrow> bool" where
  "utf8_char3 b c1 c2 \<longleftrightarrow>
     utf8_cont c1 \<and> utf8_cont c2 \<and> (b = 0xE0 \<longrightarrow> 0xA0 \<le> c1) \<and> (b = 0xED \<longrightarrow> c1 \<le> 0x9F)"

definition utf8_char4 :: "byte \<Rightarrow> byte \<Rightarrow> byte \<Rightarrow> byte \<Rightarrow> bool" where
  "utf8_char4 b c1 c2 c3 \<longleftrightarrow>
     utf8_cont c1 \<and> utf8_cont c2 \<and> utf8_cont c3
     \<and> (b = 0xF0 \<longrightarrow> 0x90 \<le> c1) \<and> (b = 0xF4 \<longrightarrow> c1 \<le> 0x8F)"

definition utf8_len :: "bytes \<Rightarrow> nat" where
  "utf8_len bs =
     (case bs of
        [] \<Rightarrow> 0
      | b # cs \<Rightarrow>
          if b < 0x80 then 1
          else if 0xC2 \<le> b \<and> b \<le> 0xDF then
            (case cs of c1 # _ \<Rightarrow> if utf8_cont c1 then 2 else 0 | _ \<Rightarrow> 0)
          else if 0xE0 \<le> b \<and> b \<le> 0xEF then
            (case cs of c1 # c2 # _ \<Rightarrow> if utf8_char3 b c1 c2 then 3 else 0 | _ \<Rightarrow> 0)
          else if 0xF0 \<le> b \<and> b \<le> 0xF4 then
            (case cs of c1 # c2 # c3 # _ \<Rightarrow> if utf8_char4 b c1 c2 c3 then 4 else 0 | _ \<Rightarrow> 0)
          else 0)"

function utf8_valid :: "bytes \<Rightarrow> bool" where
  "utf8_valid bs =
     (if bs = [] then True
      else if utf8_len bs = 0 then False
      else utf8_valid (drop (utf8_len bs) bs))"
  by auto
termination
  by (relation "measure length") auto

declare utf8_valid.simps [simp del]

lemma utf8_valid_Nil [simp]: "utf8_valid []"
  by (simp add: utf8_valid.simps)

lemma utf8_valid_Cons_ascii: "b < 0x80 \<Longrightarrow> utf8_valid (b # bs) = utf8_valid bs"
  by (simp add: utf8_valid.simps [of "b # bs"] utf8_len_def)

lemma utf8_valid_ascii: "\<forall>b \<in> set bs. b < 0x80 \<Longrightarrow> utf8_valid bs"
  by (induction bs) (auto simp: utf8_valid_Cons_ascii)

lemma list_upto4_cases:
  obtains "xs = []" | a where "xs = [a]" | a b where "xs = [a, b]" | a b c where "xs = [a, b, c]"
  | a b c d ds where "xs = a # b # c # d # ds"
  by (metis neq_Nil_conv)

lemma utf8_len_append: "0 < utf8_len xs \<Longrightarrow> utf8_len (xs @ ys) = utf8_len xs"
  by (cases xs rule: list_upto4_cases) (auto simp: utf8_len_def cong: if_cong split: if_split_asm)

lemma utf8_len_le: "utf8_len xs \<le> length xs"
  by (cases xs rule: list_upto4_cases) (simp_all add: utf8_len_def)

lemma utf8_valid_append: "utf8_valid xs \<Longrightarrow> utf8_valid ys \<Longrightarrow> utf8_valid (xs @ ys)"
proof (induction xs rule: utf8_valid.induct)
  case (1 bs)
  show ?case
  proof (cases "bs = []")
    case False
    with "1.prems" have "0 < utf8_len bs" "utf8_valid (drop (utf8_len bs) bs)"
      by (simp_all add: utf8_valid.simps [of bs] split: if_splits)
    with 1 False show ?thesis
      by (simp add: utf8_valid.simps [of "bs @ ys"] utf8_len_append utf8_len_le)
  qed (use "1.prems" in simp)
qed

end
