(* ===== verification/Manifest_Codec.thy ===== *)
theory Manifest_Codec
  imports Btree_Map Utf8
begin

text \<open>
  The manifest log of \<open>src/storage/manifest_codec.rs\<close>: the table metadata, the entries and their
  payloads, and \<open>replay_manifest\<close>, which rebuilds the state from the bytes of the file. The
  functions of the source are followed by the abstract view, a list of \<open>manifest_op\<close>s folded over
  the initial state, and by the lemmas that relate the two.

  Paths are the UTF-8 bytes of the \<open>String\<close>. \<open>crc\<close> is \<open>crc32fast::hash\<close>. The checked additions
  on offsets are kept; the addition \<open>meta.file_id + 1\<close> wraps, as in a release build.
\<close>

section \<open>Data\<close>

definition ENTRY_KIND_ADD :: byte where "ENTRY_KIND_ADD = 1"
definition ENTRY_KIND_REMOVE :: byte where "ENTRY_KIND_REMOVE = 2"
definition ENTRY_KIND_CHECKPOINT :: byte where "ENTRY_KIND_CHECKPOINT = 3"
definition ENTRY_KIND_COMPACTION :: byte where "ENTRY_KIND_COMPACTION = 4"
definition ENTRY_KIND_RECOVERY_CHECKPOINT :: byte where "ENTRY_KIND_RECOVERY_CHECKPOINT = 5"
definition ENTRY_KIND_COMPACTION_OUTPUTS :: byte where "ENTRY_KIND_COMPACTION_OUTPUTS = 6"

lemmas entry_kinds =
  ENTRY_KIND_ADD_def ENTRY_KIND_REMOVE_def ENTRY_KIND_CHECKPOINT_def ENTRY_KIND_COMPACTION_def
  ENTRY_KIND_RECOVERY_CHECKPOINT_def ENTRY_KIND_COMPACTION_OUTPUTS_def

definition MANIFEST_VERSION :: u32 where "MANIFEST_VERSION = 1"

record sstable_meta =
  sm_file_id :: u64
  sm_level :: u32
  sm_path :: bytes
  sm_record_count :: u64
  sm_smallest_key :: bytes
  sm_largest_key :: bytes
  sm_bloom_offset :: u64
  sm_bloom_size :: u64

record recovery_checkpoint =
  rc_replay_start_segment :: u64
  rc_next_physical_lsn :: u64
  rc_committed_sequence :: u64

type_synonym level_files = "(u64, sstable_meta) btree_map"
type_synonym levels = "(u32, level_files) btree_map"

record manifest_state =
  ms_version :: u32
  ms_next_file_id :: u64
  ms_checkpoint_lsn :: u64
  ms_active_wal_segment :: u64
  ms_recovery_checkpoint :: "recovery_checkpoint option"
  ms_levels :: levels

definition ManifestState_default :: manifest_state where
  "ManifestState_default =
     \<lparr>ms_version = MANIFEST_VERSION, ms_next_file_id = 1, ms_checkpoint_lsn = 0,
      ms_active_wal_segment = 0, ms_recovery_checkpoint = None, ms_levels = []\<rparr>"

section \<open>Payloads\<close>

definition push_bytes :: "bytes \<Rightarrow> bytes \<Rightarrow> bytes result" where
  "push_bytes buf value =
     (if 2 ^ 32 \<le> length value then Inl (Err (StorageError ''field length exceeds u32''))
      else Inr (buf @ u32_be (of_nat (length value)) @ value))"

definition read_vec :: "bytes reader" where
  "read_vec = rd_bind read_u32_be (\<lambda>len. read_buf (unat len))"

definition read_string :: "bytes reader" where
  "read_string = rd_bind read_vec (\<lambda>bytes.
     if utf8_valid bytes then rd_return bytes
     else rd_fail (Err (Corrupted ''invalid UTF-8 in manifest path'')))"

definition encode_add_payload :: "sstable_meta \<Rightarrow> bytes result" where
  "encode_add_payload meta =
     rbind (push_bytes (u32_be (sm_level meta) @ u64_be (sm_file_id meta)
                        @ u64_be (sm_record_count meta)) (sm_path meta)) (\<lambda>payload.
     rbind (push_bytes (payload @ u64_be (sm_bloom_offset meta) @ u64_be (sm_bloom_size meta))
                       (sm_smallest_key meta)) (\<lambda>payload.
     push_bytes payload (sm_largest_key meta)))"

definition decode_add_payload :: "bytes \<Rightarrow> sstable_meta result" where
  "decode_add_payload payload =
     rbind (rd_bind read_u32_be (\<lambda>level.
            rd_bind read_u64_be (\<lambda>file_id.
            rd_bind read_u64_be (\<lambda>record_count.
            rd_bind read_string (\<lambda>path.
            rd_bind (\<lambda>rest. if 16 \<le> length rest
                            then rd_bind read_u64_be (\<lambda>a. rd_bind read_u64_be (\<lambda>b. rd_return (a, b))) rest
                            else rd_return (0, 0) rest) (\<lambda>(bloom_offset, bloom_size).
            rd_bind (\<lambda>rest. if rest \<noteq> []
                            then rd_bind read_vec (\<lambda>a. rd_bind read_vec (\<lambda>b. rd_return (a, b))) rest
                            else rd_return ([], []) rest) (\<lambda>(smallest_key, largest_key).
            rd_return \<lparr>sm_file_id = file_id, sm_level = level, sm_path = path,
                       sm_record_count = record_count, sm_smallest_key = smallest_key,
                       sm_largest_key = largest_key, sm_bloom_offset = bloom_offset,
                       sm_bloom_size = bloom_size\<rparr>)))))) payload)
       (\<lambda>(meta, _). Inr meta)"

definition encode_remove_payload :: "u32 \<Rightarrow> u64 \<Rightarrow> bytes" where
  "encode_remove_payload level file_id = u32_be level @ u64_be file_id"

definition decode_remove_payload :: "bytes \<Rightarrow> (u32 \<times> u64) result" where
  "decode_remove_payload payload =
     (if length payload \<noteq> 12
      then Inl (Err (Corrupted ''remove payload length must be 12 bytes''))
      else Inr (u32_of_be (take 4 payload), u64_of_be (drop 4 payload)))"

definition encode_checkpoint_payload :: "u64 \<Rightarrow> u64 \<Rightarrow> bytes" where
  "encode_checkpoint_payload lsn segment = u64_be lsn @ u64_be segment"

definition decode_checkpoint_payload :: "bytes \<Rightarrow> (u64 \<times> u64) result" where
  "decode_checkpoint_payload payload =
     (if length payload \<noteq> 16
      then Inl (Err (Corrupted ''checkpoint payload length must be 16 bytes''))
      else Inr (u64_of_be (take 8 payload), u64_of_be (drop 8 payload)))"

definition encode_compaction_payload ::
  "(u32 \<times> u64) list \<Rightarrow> sstable_meta option \<Rightarrow> bytes result" where
  "encode_compaction_payload removals outp =
     (if 2 ^ 32 \<le> length removals then Inl (Err (StorageError ''too many compaction inputs''))
      else
        let payload = u32_be (of_nat (length removals))
                      @ concat (map (\<lambda>(level, file_id). encode_remove_payload level file_id) removals)
        in (case outp of
              None \<Rightarrow> Inr payload
            | Some meta \<Rightarrow> rbind (encode_add_payload meta) (\<lambda>m. Inr (payload @ m))))"

definition read_removal :: "(u32 \<times> u64) reader" where
  "read_removal = rd_bind read_u32_be (\<lambda>level. rd_bind read_u64_be (\<lambda>file_id.
     rd_return (level, file_id)))"

definition decode_compaction_payload ::
  "bytes \<Rightarrow> ((u32 \<times> u64) list \<times> sstable_meta option) result" where
  "decode_compaction_payload payload =
     rbind (rd_bind read_u32_be (\<lambda>count.
            if (length payload - 4) div 12 < unat count
            then rd_fail (Err (Corrupted ''invalid compaction input count''))
            else rd_times (unat count) read_removal) payload) (\<lambda>(removals, remaining).
     if remaining = [] then Inr (removals, None)
     else rbind (decode_add_payload remaining) (\<lambda>meta. Inr (removals, Some meta)))"

text \<open>One turn of the output loop: a length, then the metadata in the slice of that length.\<close>

definition read_output :: "sstable_meta reader" where
  "read_output = rd_bind read_u32_be (\<lambda>len rest.
     if length rest < unat len then Inl (Err (Corrupted ''truncated compaction output''))
     else rbind (decode_add_payload (take (unat len) rest)) (\<lambda>meta.
          Inr (meta, drop (unat len) rest)))"

definition decode_compaction_outputs ::
  "bytes \<Rightarrow> ((u32 \<times> u64) list \<times> sstable_meta list) result" where
  "decode_compaction_outputs payload =
     rbind (rd_bind read_u32_be (\<lambda>count.
            rd_bind (if (length payload - 8) div 12 < unat count
                     then rd_fail (Err (Corrupted ''invalid compaction input count''))
                     else rd_times (unat count) read_removal) (\<lambda>removals.
            rd_bind read_u32_be (\<lambda>count rest.
            rd_bind (if length rest div 4 < unat count
                     then rd_fail (Err (Corrupted ''invalid compaction output count''))
                     else rd_times (unat count) read_output) (\<lambda>outputs.
            rd_return (removals, outputs)) rest))) payload) (\<lambda>(r, remaining).
     if remaining \<noteq> [] then Inl (Err (Corrupted ''trailing compaction output bytes'')) else Inr r)"

definition encode_recovery_payload :: "recovery_checkpoint \<Rightarrow> bytes" where
  "encode_recovery_payload c =
     u64_be (rc_replay_start_segment c) @ u64_be (rc_next_physical_lsn c)
     @ u64_be (rc_committed_sequence c)"

section \<open>State updates\<close>

definition levels_insert :: "sstable_meta \<Rightarrow> levels \<Rightarrow> levels" where
  "levels_insert meta levels =
     bt_insert (sm_level meta)
       (bt_insert (sm_file_id meta) meta
          (case map_of levels (sm_level meta) of None \<Rightarrow> [] | Some files \<Rightarrow> files)) levels"

definition levels_remove :: "u32 \<Rightarrow> u64 \<Rightarrow> levels \<Rightarrow> levels" where
  "levels_remove level file_id levels =
     (case map_of levels level of
        None \<Rightarrow> levels
      | Some files \<Rightarrow>
          let files' = bt_remove file_id files
          in if files' = [] then bt_remove level levels else bt_insert level files' levels)"

definition apply_output :: "manifest_state \<Rightarrow> sstable_meta \<Rightarrow> manifest_state" where
  "apply_output st meta =
     st\<lparr>ms_next_file_id := max (ms_next_file_id st) (sm_file_id meta + 1),
        ms_levels := levels_insert meta (ms_levels st)\<rparr>"

definition apply_compaction ::
  "manifest_state \<Rightarrow> (u32 \<times> u64) list \<Rightarrow> sstable_meta list \<Rightarrow> manifest_state" where
  "apply_compaction st removals outputs =
     foldl apply_output
       (st\<lparr>ms_levels := foldl (\<lambda>ls (level, file_id). levels_remove level file_id ls)
                          (ms_levels st) removals\<rparr>)
       outputs"

section \<open>Entries and replay\<close>

definition encode_entry :: "(bytes \<Rightarrow> u32) \<Rightarrow> byte \<Rightarrow> bytes \<Rightarrow> bytes result" where
  "encode_entry crc kind payload =
     (if 2 ^ 32 \<le> length payload then Inl (Err (StorageError ''manifest entry payload too large''))
      else
        let bytes = kind # u32_be (of_nat (length payload)) @ payload
        in Inr (bytes @ u32_be (crc bytes)))"

definition slice :: "bytes \<Rightarrow> nat \<Rightarrow> nat \<Rightarrow> bytes" where
  "slice data a b = take (b - a) (drop a data)"

definition decode_entry :: "(bytes \<Rightarrow> u32) \<Rightarrow> bytes \<Rightarrow> nat \<Rightarrow> (byte \<times> bytes \<times> nat) result" where
  "decode_entry crc data offset =
     (let header_end = offset + 5 in
      if usize_max < header_end then Inl (Err (Corrupted ''manifest offset overflow''))
      else if length data < header_end
      then Inl (Err (Corrupted ''truncated manifest entry header''))
      else
        let kind = data ! offset;
            len = unat (u32_of_be (slice data (offset + 1) (offset + 5)));
            payload_end = header_end + len;
            checksum_end = payload_end + 4
        in
        if usize_max < payload_end then Inl (Err (Corrupted ''manifest payload overflow''))
        else if usize_max < checksum_end then Inl (Err (Corrupted ''manifest checksum overflow''))
        else if length data < checksum_end
        then Inl (Err (Corrupted ''truncated manifest entry payload''))
        else if u32_of_be (slice data payload_end checksum_end) \<noteq> crc (slice data offset payload_end)
        then Inl (Err (Corrupted ''manifest entry checksum mismatch''))
        else Inr (kind, slice data header_end payload_end, checksum_end))"

text \<open>The body of the replay loop after \<open>decode_entry\<close>.\<close>

definition replay_entry :: "byte \<Rightarrow> bytes \<Rightarrow> manifest_state \<Rightarrow> manifest_state result" where
  "replay_entry kind payload st =
     (if kind = ENTRY_KIND_ADD then
        rbind (decode_add_payload payload) (\<lambda>meta.
          let st' = st\<lparr>ms_levels := levels_insert meta (ms_levels st)\<rparr>
          in Inr (if ms_next_file_id st \<le> sm_file_id meta
                  then st'\<lparr>ms_next_file_id := sm_file_id meta + 1\<rparr> else st'))
      else if kind = ENTRY_KIND_REMOVE then
        rbind (decode_remove_payload payload) (\<lambda>(level, file_id).
          Inr (st\<lparr>ms_levels := levels_remove level file_id (ms_levels st)\<rparr>))
      else if kind = ENTRY_KIND_COMPACTION then
        rbind (decode_compaction_payload payload) (\<lambda>(removals, outp).
          Inr (apply_compaction st removals (case outp of None \<Rightarrow> [] | Some m \<Rightarrow> [m])))
      else if kind = ENTRY_KIND_COMPACTION_OUTPUTS then
        rbind (decode_compaction_outputs payload) (\<lambda>(removals, outputs).
          Inr (apply_compaction st removals outputs))
      else if kind = ENTRY_KIND_CHECKPOINT then
        rbind (decode_checkpoint_payload payload) (\<lambda>(_, segment).
          Inr (st\<lparr>ms_active_wal_segment := segment\<rparr>))
      else if kind = ENTRY_KIND_RECOVERY_CHECKPOINT then
        (if length payload \<noteq> 24
         then Inl (Err (Corrupted ''recovery checkpoint payload length must be 24 bytes''))
         else
           let c = \<lparr>rc_replay_start_segment = u64_of_be (slice payload 0 8),
                    rc_next_physical_lsn = u64_of_be (slice payload 8 16),
                    rc_committed_sequence = u64_of_be (slice payload 16 24)\<rparr>
           in Inr (st\<lparr>ms_active_wal_segment := rc_replay_start_segment c,
                      ms_recovery_checkpoint := Some c\<rparr>))
      else Inl (Err (Corrupted ''unknown manifest entry kind'')))"

lemma decode_entry_progress:
  "decode_entry crc data offset = Inr (kind, payload, next_offset) \<Longrightarrow>
     offset < next_offset \<and> next_offset \<le> length data"
  by (auto simp: decode_entry_def Let_def split: if_splits)

function replay_loop ::
  "(bytes \<Rightarrow> u32) \<Rightarrow> bytes \<Rightarrow> nat \<Rightarrow> manifest_state \<Rightarrow> manifest_state result" where
  "replay_loop crc data offset st =
     (if offset < length data then
        (case decode_entry crc data offset of
           Inl e \<Rightarrow> Inl e
         | Inr (kind, payload, next_offset) \<Rightarrow>
             (case replay_entry kind payload st of
                Inl e \<Rightarrow> Inl e
              | Inr st' \<Rightarrow> replay_loop crc data next_offset st'))
      else Inr st)"
  by auto
termination
  by (relation "measure (\<lambda>(crc, data, offset, st). length data - offset)")
    (auto dest: decode_entry_progress)

declare replay_loop.simps [simp del]

definition replay_manifest :: "(bytes \<Rightarrow> u32) \<Rightarrow> bytes \<Rightarrow> manifest_state result" where
  "replay_manifest crc data = replay_loop crc data 0 ManifestState_default"

section \<open>Round trips of the payloads\<close>

lemma read_vec_field:
  assumes "length v < 2 ^ 32"
  shows "read_vec (u32_be (of_nat (length v)) @ v @ rest) = Inr (v, rest)"
  using assms by (simp add: read_vec_def reader_simps unat_of_nat_32 isize_max_def)

lemmas read_vec_last = read_vec_field [where rest = "[]", simplified]

lemma read_string_field:
  assumes "length v < 2 ^ 32" and "utf8_valid v"
  shows "read_string (u32_be (of_nat (length v)) @ v @ rest) = Inr (v, rest)"
  using assms by (simp add: read_string_def reader_simps read_vec_field)

definition meta_ok :: "sstable_meta \<Rightarrow> bool" where
  "meta_ok meta \<longleftrightarrow>
     utf8_valid (sm_path meta) \<and> length (sm_path meta) < 2 ^ 32
     \<and> length (sm_smallest_key meta) < 2 ^ 32 \<and> length (sm_largest_key meta) < 2 ^ 32
     \<and> sm_file_id meta \<noteq> - 1"

definition add_payload :: "sstable_meta \<Rightarrow> bytes" where
  "add_payload meta =
     u32_be (sm_level meta) @ u64_be (sm_file_id meta) @ u64_be (sm_record_count meta)
     @ u32_be (of_nat (length (sm_path meta))) @ sm_path meta
     @ u64_be (sm_bloom_offset meta) @ u64_be (sm_bloom_size meta)
     @ u32_be (of_nat (length (sm_smallest_key meta))) @ sm_smallest_key meta
     @ u32_be (of_nat (length (sm_largest_key meta))) @ sm_largest_key meta"

lemma add_payload_not_Nil [simp]: "add_payload meta \<noteq> []"
proof -
  have "length (add_payload meta) \<noteq> 0" by (simp add: add_payload_def)
  then show ?thesis by (metis list.size(3))
qed

lemma encode_add_payload_ok: "meta_ok meta \<Longrightarrow> encode_add_payload meta = Inr (add_payload meta)"
  by (simp add: encode_add_payload_def push_bytes_def meta_ok_def add_payload_def)

lemma decode_add_payload_ok:
  "meta_ok meta \<Longrightarrow> decode_add_payload (add_payload meta) = Inr meta"
  by (simp add: decode_add_payload_def add_payload_def meta_ok_def reader_simps
      read_string_field read_vec_field read_vec_last)

interpretation removal_codec:
  codec "\<lambda>(level, file_id). encode_remove_payload level file_id" read_removal "\<lambda>_. True"
  by unfold_locales (auto simp: encode_remove_payload_def read_removal_def reader_simps)

definition removals_payload :: "(u32 \<times> u64) list \<Rightarrow> bytes" where
  "removals_payload removals =
     u32_be (of_nat (length removals))
     @ concat (map (\<lambda>(level, file_id). encode_remove_payload level file_id) removals)"

lemma length_removals:
  "length (concat (map (\<lambda>(level, file_id). encode_remove_payload level file_id) removals))
   = 12 * length removals"
  by (induction removals) (auto simp: encode_remove_payload_def)

lemma read_removals:
  "rd_times (length removals) read_removal
     (concat (map (\<lambda>(level, file_id). encode_remove_payload level file_id) removals) @ rest)
   = Inr (removals, rest)"
  by (rule removal_codec.rd_times_enc) (simp add: list_all_iff)

lemma encode_compaction_payload_ok:
  assumes "length removals < 2 ^ 32" and "\<forall>m \<in> set_option outp. meta_ok m"
  shows "encode_compaction_payload removals outp
         = Inr (removals_payload removals @ (case outp of None \<Rightarrow> [] | Some m \<Rightarrow> add_payload m))"
  using assms
  by (auto simp: encode_compaction_payload_def removals_payload_def Let_def encode_add_payload_ok
      split: option.splits)

lemma decode_compaction_payload_ok:
  assumes "length removals < 2 ^ 32" and "\<forall>m \<in> set_option outp. meta_ok m"
  shows "decode_compaction_payload
           (removals_payload removals @ (case outp of None \<Rightarrow> [] | Some m \<Rightarrow> add_payload m))
         = Inr (removals, outp)"
proof -
  have guard: "\<not> (length (removals_payload removals @ xs) - 4) div 12 < length removals" for xs
    by (simp add: removals_payload_def length_removals)
  show ?thesis
    using assms guard [of "case outp of None \<Rightarrow> [] | Some m \<Rightarrow> add_payload m"]
    by (auto simp: decode_compaction_payload_def removals_payload_def reader_simps unat_of_nat_32
        read_removals read_removals [where rest = "[]", simplified] decode_add_payload_ok
        split: option.splits)
qed

definition output_field :: "sstable_meta \<Rightarrow> bytes" where
  "output_field meta = u32_be (of_nat (length (add_payload meta))) @ add_payload meta"

definition output_ok :: "sstable_meta \<Rightarrow> bool" where
  "output_ok meta \<longleftrightarrow> meta_ok meta \<and> length (add_payload meta) < 2 ^ 32"

interpretation output_codec: codec output_field read_output output_ok
  by unfold_locales
    (simp add: output_field_def read_output_def output_ok_def reader_simps unat_of_nat_32
      decode_add_payload_ok)

lemma length_output_fields: "4 * length outputs \<le> length (concat (map output_field outputs))"
  by (induction outputs) (auto simp: output_field_def)

lemma read_outputs:
  "list_all output_ok outputs \<Longrightarrow>
     rd_times (length outputs) read_output (concat (map output_field outputs)) = Inr (outputs, [])"
  using output_codec.rd_times_enc [of outputs "[]"] by simp

lemma decode_compaction_outputs_ok:
  assumes "length removals < 2 ^ 32" and "length outputs < 2 ^ 32"
    and "list_all output_ok outputs"
  shows "decode_compaction_outputs
           (removals_payload removals @ u32_be (of_nat (length outputs))
            @ concat (map output_field outputs))
         = Inr (removals, outputs)"
proof -
  have guard: "\<not> (length (removals_payload removals @ u32_be n @ xs) - 8) div 12 < length removals"
    for n xs
    by (simp add: removals_payload_def length_removals)
  have guard2: "\<not> length (concat (map output_field outputs)) div 4 < length outputs"
    using length_output_fields [of outputs] by simp
  show ?thesis
    using assms guard [of "of_nat (length outputs)" "concat (map output_field outputs)"] guard2
    by (simp add: decode_compaction_outputs_def removals_payload_def reader_simps unat_of_nat_32
        read_removals read_outputs)
qed

section \<open>The abstract log\<close>

text \<open>
  What an entry means, apart from its bytes. \<open>op_bytes\<close> is the entry the manager writes for an
  operation, \<open>apply_op\<close> what replaying it does to the state.
\<close>

datatype manifest_op =
    OpAdd sstable_meta
  | OpRemove u32 u64
  | OpCompact "(u32 \<times> u64) list" "sstable_meta list"
  | OpCheckpoint u64 u64
  | OpRecovery recovery_checkpoint

fun apply_op :: "manifest_state \<Rightarrow> manifest_op \<Rightarrow> manifest_state" where
  "apply_op st (OpAdd meta) =
     st\<lparr>ms_levels := levels_insert meta (ms_levels st),
        ms_next_file_id := (if ms_next_file_id st \<le> sm_file_id meta then sm_file_id meta + 1
                            else ms_next_file_id st)\<rparr>"
| "apply_op st (OpRemove level file_id) =
     st\<lparr>ms_levels := levels_remove level file_id (ms_levels st)\<rparr>"
| "apply_op st (OpCompact removals outputs) = apply_compaction st removals outputs"
| "apply_op st (OpCheckpoint lsn segment) = st\<lparr>ms_active_wal_segment := segment\<rparr>"
| "apply_op st (OpRecovery c) =
     st\<lparr>ms_active_wal_segment := rc_replay_start_segment c, ms_recovery_checkpoint := Some c\<rparr>"

fun op_kind :: "manifest_op \<Rightarrow> byte" where
  "op_kind (OpAdd _) = ENTRY_KIND_ADD"
| "op_kind (OpRemove _ _) = ENTRY_KIND_REMOVE"
| "op_kind (OpCompact _ outputs) =
     (if length outputs \<le> 1 then ENTRY_KIND_COMPACTION else ENTRY_KIND_COMPACTION_OUTPUTS)"
| "op_kind (OpCheckpoint _ _) = ENTRY_KIND_CHECKPOINT"
| "op_kind (OpRecovery _) = ENTRY_KIND_RECOVERY_CHECKPOINT"

fun op_payload :: "manifest_op \<Rightarrow> bytes" where
  "op_payload (OpAdd meta) = add_payload meta"
| "op_payload (OpRemove level file_id) = encode_remove_payload level file_id"
| "op_payload (OpCompact removals outputs) =
     removals_payload removals
     @ (if length outputs \<le> 1 then concat (map add_payload outputs)
        else u32_be (of_nat (length outputs)) @ concat (map output_field outputs))"
| "op_payload (OpCheckpoint lsn segment) = encode_checkpoint_payload lsn segment"
| "op_payload (OpRecovery c) = encode_recovery_payload c"

fun op_fields_ok :: "manifest_op \<Rightarrow> bool" where
  "op_fields_ok (OpAdd meta) = meta_ok meta"
| "op_fields_ok (OpCompact removals outputs) =
     (length removals < 2 ^ 32 \<and> length outputs < 2 ^ 32
      \<and> list_all (if length outputs \<le> 1 then meta_ok else output_ok) outputs)"
| "op_fields_ok _ = True"

definition op_ok :: "manifest_op \<Rightarrow> bool" where
  "op_ok op \<longleftrightarrow> op_fields_ok op \<and> length (op_payload op) < 2 ^ 32"

definition op_bytes :: "(bytes \<Rightarrow> u32) \<Rightarrow> manifest_op \<Rightarrow> bytes" where
  "op_bytes crc op =
     (let bytes = op_kind op # u32_be (of_nat (length (op_payload op))) @ op_payload op
      in bytes @ u32_be (crc bytes))"

definition manifest_bytes :: "(bytes \<Rightarrow> u32) \<Rightarrow> manifest_op list \<Rightarrow> bytes" where
  "manifest_bytes crc ops = concat (map (op_bytes crc) ops)"

lemma encode_entry_op:
  "op_ok op \<Longrightarrow> encode_entry crc (op_kind op) (op_payload op) = Inr (op_bytes crc op)"
  by (simp add: encode_entry_def op_ok_def op_bytes_def)

lemma length_op_bytes: "length (op_bytes crc op) = 9 + length (op_payload op)"
  by (simp add: op_bytes_def Let_def)

lemma at_most_one_cases: "length xs \<le> 1 \<longleftrightarrow> xs = [] \<or> (\<exists>x. xs = [x])"
  by (cases xs) auto

lemma replay_entry_op:
  assumes "op_ok op"
  shows "replay_entry (op_kind op) (op_payload op) st = Inr (apply_op st op)"
proof (cases op)
  case (OpAdd meta)
  with assms show ?thesis
    by (simp add: op_ok_def replay_entry_def decode_add_payload_ok Let_def)
next
  case (OpCompact removals outputs)
  show ?thesis
  proof (cases "length outputs \<le> 1")
    case True
    then obtain outp where outp: "outputs = (case outp of None \<Rightarrow> [] | Some m \<Rightarrow> [m])"
      unfolding at_most_one_cases by (metis option.simps(4,5))
    show ?thesis
      using assms OpCompact outp decode_compaction_payload_ok [of removals outp]
      by (cases outp) (simp_all add: op_ok_def replay_entry_def entry_kinds)
  next
    case False
    then show ?thesis
      using assms OpCompact decode_compaction_outputs_ok [of removals outputs]
      by (simp add: op_ok_def replay_entry_def entry_kinds)
  qed
qed (simp_all add: replay_entry_def entry_kinds decode_remove_payload_def encode_remove_payload_def
    decode_checkpoint_payload_def encode_checkpoint_payload_def encode_recovery_payload_def
    slice_def)

lemma slice_append [simp]: "slice (pre @ xs) (length pre + a) (length pre + b) = slice xs a b"
  by (simp add: slice_def)

lemma decode_entry_shift:
  assumes "length (pre @ data) \<le> isize_max" and "offset \<le> length data"
  shows "decode_entry crc (pre @ data) (length pre + offset) =
         rbind (decode_entry crc data offset) (\<lambda>(k, p, n). Inr (k, p, length pre + n))"
proof -
  have small: "length pre + (offset + (9 + unat (w :: u32))) \<le> usize_max" for w
    using assms unat_lt_32 [of w] unfolding length_append size_bounds by linarith
  have sl: "slice (pre @ data) (length pre + offset) (length pre + e) = slice data offset e" for e
    by simp
  show ?thesis
    using assms small [of 0] small [of "u32_of_be (slice data (offset + 1) (offset + 5))"]
      slice_append [of pre data "offset + 1" "offset + 5"]
    by (simp add: decode_entry_def Let_def nth_append add.assoc slice_append [of pre data])
qed

lemma decode_entry_op:
  assumes "op_ok op" and "length (pre @ op_bytes crc op @ post) \<le> isize_max"
  shows "decode_entry crc (pre @ op_bytes crc op @ post) (length pre)
         = Inr (op_kind op, op_payload op, length pre + length (op_bytes crc op))"
proof -
  let ?bytes = "op_kind op # u32_be (of_nat (length (op_payload op))) @ op_payload op"
  have len: "unat (of_nat (length (op_payload op)) :: u32) = length (op_payload op)"
    using assms(1) by (simp add: op_ok_def unat_of_nat_32)
  have "9 + length (op_payload op) \<le> usize_max"
    using assms(1) by (simp add: op_ok_def usize_max_def)
  then have "decode_entry crc (op_bytes crc op @ post) 0
        = Inr (op_kind op, op_payload op, length (op_bytes crc op))"
    by (simp add: decode_entry_def op_bytes_def Let_def slice_def len take_Cons' drop_Cons')
  then show ?thesis
    using decode_entry_shift [of pre "op_bytes crc op @ post" 0 crc] assms(2) by simp
qed

lemma manifest_bytes_simps [simp]:
  "manifest_bytes crc [] = []"
  "manifest_bytes crc (op # ops) = op_bytes crc op @ manifest_bytes crc ops"
  "manifest_bytes crc (ops @ ops') = manifest_bytes crc ops @ manifest_bytes crc ops'"
  by (simp_all add: manifest_bytes_def)

lemma replay_loop_ops:
  assumes "list_all op_ok ops" and "length (pre @ manifest_bytes crc ops @ post) \<le> isize_max"
  shows "replay_loop crc (pre @ manifest_bytes crc ops @ post) (length pre) st
         = replay_loop crc (pre @ manifest_bytes crc ops @ post)
             (length pre + length (manifest_bytes crc ops)) (foldl apply_op st ops)"
  using assms
proof (induction ops arbitrary: pre st)
  case (Cons op ops)
  let ?data = "pre @ manifest_bytes crc (op # ops) @ post"
  have "replay_loop crc ?data (length pre) st
        = replay_loop crc ?data (length pre + length (op_bytes crc op)) (apply_op st op)"
    using Cons.prems decode_entry_op [of op pre crc "manifest_bytes crc ops @ post"]
    by (subst replay_loop.simps) (simp add: replay_entry_op length_op_bytes)
  then show ?case
    using Cons.IH [of "pre @ op_bytes crc op" "apply_op st op"] Cons.prems
    by (simp add: add.assoc)
qed simp

lemma replay_manifest_ops:
  assumes "list_all op_ok ops" and "length (manifest_bytes crc ops) \<le> isize_max"
  shows "replay_manifest crc (manifest_bytes crc ops)
         = Inr (foldl apply_op ManifestState_default ops)"
  using replay_loop_ops [of ops "[]" crc "[]"] assms
  by (simp add: replay_manifest_def replay_loop.simps [of _ _ "length _"])

text \<open>An entry cut short is reported, never skipped.\<close>

lemma decode_entry_torn:
  assumes "op_ok op" and "n < length (op_bytes crc op)"
    and "length (pre @ op_bytes crc op) \<le> isize_max"
  shows "\<exists>msg. decode_entry crc (pre @ take n (op_bytes crc op)) (length pre)
               = Inl (Err (Corrupted msg))"
proof -
  let ?e = "op_bytes crc op"
  have len: "unat (of_nat (length (op_payload op)) :: u32) = length (op_payload op)"
    using assms(1) by (simp add: op_ok_def unat_of_nat_32)
  have small: "9 + length (op_payload op) \<le> usize_max"
    using assms(1) by (simp add: op_ok_def usize_max_def)
  have "\<exists>msg. decode_entry crc (take n ?e) 0 = Inl (Err (Corrupted msg))"
  proof (cases "n < 5")
    case False
    then have "slice (take n ?e) 1 5 = u32_be (of_nat (length (op_payload op)))"
      by (simp add: slice_def op_bytes_def Let_def drop_take take_Cons' min_def)
    then show ?thesis
      using small assms(2) False length_op_bytes [of crc op]
      by (simp add: decode_entry_def Let_def len)
  qed (use assms(2) in \<open>simp add: decode_entry_def usize_max_def\<close>)
  then show ?thesis
    using decode_entry_shift [of pre "take n ?e" 0 crc] assms by auto
qed

lemma replay_manifest_torn:
  assumes "list_all op_ok ops" and "op_ok op" and "0 < n" and "n < length (op_bytes crc op)"
    and "length (manifest_bytes crc (ops @ [op])) \<le> isize_max"
  shows "\<exists>msg. replay_manifest crc (manifest_bytes crc ops @ take n (op_bytes crc op))
               = Inl (Err (Corrupted msg))"
proof -
  let ?pre = "manifest_bytes crc ops" and ?torn = "take n (op_bytes crc op)"
  obtain msg where "decode_entry crc (?pre @ ?torn) (length ?pre) = Inl (Err (Corrupted msg))"
    using decode_entry_torn [of op n crc ?pre] assms by auto
  moreover have "replay_loop crc (?pre @ ?torn) 0 ManifestState_default
      = replay_loop crc (?pre @ ?torn) (length ?pre) (foldl apply_op ManifestState_default ops)"
    using replay_loop_ops [of ops "[]" crc ?torn] assms by simp
  ultimately show ?thesis
    using assms(3,4) by (simp add: replay_manifest_def replay_loop.simps [of _ _ "length ?pre"])
qed

end
