(* ===== verification/Wal.thy ===== *)
theory Wal
  imports Wal_Recovery Manifest_Codec
begin

text \<open>
  \<open>WALManager\<close> of \<open>src/storage/recovermanager/wal.rs\<close>. The log directory is the list of its entries
  in the order \<open>read_dir\<close> yields them; entries whose name is not a number with the suffix
  \<open>.log\<close> are ignored by every function and left out. The mutex around the writer state makes an
  operation one step. What the file system did is an argument: an append or the creation of a
  segment may fail after part of its bytes were written.

  A manager whose write was interrupted stays poisoned; \<open>new_inner\<close> is the only way back.
\<close>

section \<open>The directory\<close>

datatype file_kind = RegularFile | Directory | Symlink | SpecialFile

record dir_entry =
  de_id :: u64
  de_canonical :: bool
  de_kind :: file_kind
  de_bytes :: bytes

type_synonym wal_directory = "dir_entry list"

definition segment_file :: "wal_directory \<Rightarrow> u64 \<Rightarrow> bytes option" where
  "segment_file dir i =
     map_option de_bytes (List.find (\<lambda>e. de_canonical e \<and> de_id e = i) dir)"

definition write_file :: "u64 \<Rightarrow> bytes \<Rightarrow> wal_directory \<Rightarrow> wal_directory" where
  "write_file i bytes dir =
     map (\<lambda>e. if de_canonical e \<and> de_id e = i then e\<lparr>de_bytes := bytes\<rparr> else e) dir"

fun collect_segments :: "u64 option \<Rightarrow> wal_directory \<Rightarrow> u64 list result" where
  "collect_segments floor [] = Inr []"
| "collect_segments floor (e # es) =
     (if (case floor of None \<Rightarrow> False | Some f \<Rightarrow> de_id e < f) then collect_segments floor es
      else if \<not> de_canonical e then Inl (Err (Corrupted ''WAL segment filename is not canonical''))
      else if de_kind e \<noteq> RegularFile
      then Inl (Err (Corrupted ''WAL segment is not a regular file''))
      else rbind (collect_segments floor es) (\<lambda>ids. Inr (de_id e # ids)))"

fun windows_ok :: "u64 list \<Rightarrow> bool" where
  "windows_ok (a # b # ids) = (a \<noteq> b \<and> checked_add a 1 = Some b \<and> windows_ok (b # ids))"
| "windows_ok _ = True"

definition segment_paths :: "wal_directory \<Rightarrow> u64 option \<Rightarrow> u64 list result" where
  "segment_paths dir floor =
     rbind (collect_segments floor dir) (\<lambda>ids.
     let paths = sort ids;
         first = (case floor of Some f \<Rightarrow> f | None \<Rightarrow> if paths = [] then 0 else hd paths);
         paths = filter (\<lambda>i. first \<le> i) paths
     in
     if floor \<noteq> None \<and> (if paths = [] then None else Some (hd paths)) \<noteq> floor
     then Inl (Err (Corrupted ''Missing WAL checkpoint segment''))
     else if \<not> windows_ok paths
     then Inl (Err (Corrupted ''Duplicate or missing WAL segment''))
     else Inr paths)"

datatype create_io = CreateOk | CreateFail "nat option"

definition create_segment ::
  "(bytes \<Rightarrow> u32) \<Rightarrow> create_io \<Rightarrow> u64 \<Rightarrow> wal_directory \<Rightarrow> unit result \<times> wal_directory" where
  "create_segment crc io i dir =
     (if segment_file dir i \<noteq> None then (Inl (Err (IO OtherIo)), dir)
      else
        let header = WALHeader_encode crc WALHeader_default;
            entry = \<lparr>de_id = i, de_canonical = True, de_kind = RegularFile, de_bytes = header\<rparr>
        in case io of
             CreateOk \<Rightarrow> (Inr (), dir @ [entry])
           | CreateFail None \<Rightarrow> (Inl (Err (IO OtherIo)), dir)
           | CreateFail (Some n) \<Rightarrow>
               (Inl (Err (IO OtherIo)), dir @ [entry\<lparr>de_bytes := take n header\<rparr>]))"

section \<open>The manager\<close>

record writer_state =
  ws_segment_id :: u64
  ws_size :: u64
  ws_next_lsn :: u64
  ws_poisoned :: bool
  ws_sealed :: "u64 set"
  ws_checkpoint :: "recovery_checkpoint option"

record wal_manager =
  wm_state :: writer_state
  wm_max_segment_size :: u64
  wm_dir :: wal_directory
  wm_raw_writes :: bool
  wm_checkpoint_owner :: bool
  wm_owner_registered :: bool
  wm_token :: "nat option"

definition ensure_healthy :: "writer_state \<Rightarrow> unit result" where
  "ensure_healthy st =
     guard_err (ws_poisoned st)
       (StorageError ''WAL write interrupted or failed; reopen before reuse'')"

text \<open>
  Scanning the segments of a directory in order, the last one with \<open>last_mode\<close>, the others
  rejecting an incomplete tail. The directory returned has the repaired bytes.
\<close>

fun scan_paths ::
  "(bytes \<Rightarrow> u32) \<Rightarrow> tail_handling \<Rightarrow> wal_directory \<Rightarrow> u64 list \<Rightarrow> u64 \<Rightarrow> analysis \<Rightarrow>
   (wal_directory \<times> u64 \<times> analysis) result" where
  "scan_paths crc last_mode dir [] version a = Inr (dir, version, a)"
| "scan_paths crc last_mode dir (i # ids) version a =
     (case segment_file dir i of
        None \<Rightarrow> Inl (Err (IO OtherIo))
      | Some bytes \<Rightarrow>
          rbind (scan_segment_with_tail_handling crc (if ids = [] then last_mode else Reject) i bytes a)
            (\<lambda>(version, a, bytes). scan_paths crc last_mode (write_file i bytes dir) ids version a))"

definition checkpoint_analysis ::
  "recovery_checkpoint option \<Rightarrow> bool \<Rightarrow> analysis result" where
  "checkpoint_analysis checkpoint track_refs =
     (let a = Analysis_default\<lparr>an_track_refs := track_refs\<rparr> in
      case checkpoint of
        None \<Rightarrow> Inr a
      | Some c \<Rightarrow>
          (case checked_sub (rc_next_physical_lsn c) 1 of
             None \<Rightarrow> Inl (Err (Corrupted ''invalid checkpoint physical LSN''))
           | Some lsn \<Rightarrow> Inr (a\<lparr>an_latest_lsn := lsn\<rparr>)))"

definition new_inner ::
  "(bytes \<Rightarrow> u32) \<Rightarrow> create_io \<Rightarrow> wal_directory \<Rightarrow> u64 \<Rightarrow> recovery_checkpoint option \<Rightarrow> bool \<Rightarrow>
   wal_manager result" where
  "new_inner crc io dir max_segment_size checkpoint checkpoint_owner =
     rbind (segment_paths dir (map_option rc_replay_start_segment checkpoint)) (\<lambda>paths.
     rbind (checkpoint_analysis checkpoint False) (\<lambda>a.
     rbind (scan_paths crc Repair dir paths WAL_VERSION a) (\<lambda>(dir, latest_version, a).
     let segment_id = (if paths = [] then 0 else last paths);
         fresh = (paths = [] \<or> latest_version = LEGACY_WAL_VERSION)
     in
     rbind (if latest_version = LEGACY_WAL_VERSION \<and> paths \<noteq> [] then
              (case checked_add segment_id 1 of
                 None \<Rightarrow> Inl (Err (StorageError ''WAL segment ID exhausted''))
               | Some i \<Rightarrow> Inr i)
            else Inr segment_id) (\<lambda>segment_id.
     rbind (if fresh then
              (case create_segment crc io segment_id dir of
                 (Inl e, _) \<Rightarrow> Inl e | (Inr _, dir) \<Rightarrow> Inr dir)
            else Inr dir) (\<lambda>dir.
     (case segment_file dir segment_id of
        None \<Rightarrow> Inl (Err (IO OtherIo))
      | Some bytes \<Rightarrow>
          Inr \<lparr>wm_state = \<lparr>ws_segment_id = segment_id, ws_size = of_nat (length bytes),
                           ws_next_lsn = an_latest_lsn a + 1, ws_poisoned = False,
                           ws_sealed = set paths - {segment_id}, ws_checkpoint = checkpoint\<rparr>,
               wm_max_segment_size = max_segment_size, wm_dir = dir, wm_raw_writes = False,
               wm_checkpoint_owner = checkpoint_owner, wm_owner_registered = False,
               wm_token = None\<rparr>))))))"

definition WALManager_new ::
  "(bytes \<Rightarrow> u32) \<Rightarrow> create_io \<Rightarrow> wal_directory \<Rightarrow> u64 \<Rightarrow> wal_manager result" where
  "WALManager_new crc io dir max_segment_size = new_inner crc io dir max_segment_size None False"

definition new_with_checkpoint ::
  "(bytes \<Rightarrow> u32) \<Rightarrow> create_io \<Rightarrow> wal_directory \<Rightarrow> u64 \<Rightarrow> recovery_checkpoint option \<Rightarrow>
   wal_manager result" where
  "new_with_checkpoint crc io dir max_segment_size checkpoint =
     new_inner crc io dir max_segment_size checkpoint True"

section \<open>Appending\<close>

record planned_update =
  pu_transaction_id :: u64
  pu_transaction_start_offset :: u64
  pu_frame_offset :: u64
  pu_frame_length :: u32
  pu_physical_lsn :: u64
  pu_application_sequence :: u64
  pu_record_type :: record_type
  pu_key_length :: u32
  pu_key_checksum :: u32
  pu_value_length :: u64
  pu_value_checksum :: u32

record planned_transaction =
  pt_updates :: "planned_update list"
  pt_commit_offset :: u64
  pt_commit_lsn :: u64

text \<open>The loop over the commands of one transaction, with the variables it carries.\<close>

record plan_state =
  pl_bytes :: bytes
  pl_next_lsn :: u64
  pl_previous_lsn :: u64
  pl_group_size :: nat
  pl_updates :: "planned_update list"

definition plan_update ::
  "(bytes \<Rightarrow> u32) \<Rightarrow> bool \<Rightarrow> u64 \<Rightarrow> u64 \<Rightarrow> log_command \<Rightarrow> plan_state \<Rightarrow> plan_state result" where
  "plan_update crc collecting transaction_id start_offset c p =
     rbind (guard_err (lc_record_type c = Delete \<and> lc_value c \<noteq> [])
              (StorageError ''Delete contains a value'')) (\<lambda>_.
     rbind (guard_err (2 ^ 32 \<le> length (lc_key c)) (StorageError ''WAL key length overflow'')) (\<lambda>_.
     rbind (encode_frame crc
              \<lparr>fr_lsn = pl_next_lsn p, fr_transaction_id = transaction_id,
               fr_previous_lsn = pl_previous_lsn p, fr_record = Update c\<rparr>) (\<lambda>frame.
     rbind (guard_err (2 ^ 32 \<le> length frame) (StorageError ''WAL frame length overflow'')) (\<lambda>_.
     let updates =
           (if collecting then
              pl_updates p @
                [\<lparr>pu_transaction_id = transaction_id, pu_transaction_start_offset = start_offset,
                  pu_frame_offset = of_nat (length (pl_bytes p)),
                  pu_frame_length = of_nat (length frame), pu_physical_lsn = pl_next_lsn p,
                  pu_application_sequence = lc_lsn c, pu_record_type = lc_record_type c,
                  pu_key_length = of_nat (length (lc_key c)), pu_key_checksum = crc (lc_key c),
                  pu_value_length = of_nat (length (lc_value c)),
                  pu_value_checksum = crc (lc_value c)\<rparr>]
            else pl_updates p);
         group_size = pl_group_size p + length frame
     in
     rbind (guard_err (usize_max < group_size) (StorageError ''WAL transaction size overflow'')) (\<lambda>_.
     rbind (guard_err (MAX_GROUP_ENCODED_SIZE < group_size)
              (StorageError ''WAL transaction exceeds group limit'')) (\<lambda>_.
     (case checked_add (pl_next_lsn p) 1 of
        None \<Rightarrow> Inl (Err (StorageError ''WAL LSN exhausted''))
      | Some next_lsn \<Rightarrow>
          Inr \<lparr>pl_bytes = pl_bytes p @ frame, pl_next_lsn = next_lsn,
               pl_previous_lsn = pl_next_lsn p, pl_group_size = group_size,
               pl_updates = updates\<rparr>)))))))"

fun plan_updates ::
  "(bytes \<Rightarrow> u32) \<Rightarrow> bool \<Rightarrow> u64 \<Rightarrow> u64 \<Rightarrow> log_command list \<Rightarrow> plan_state \<Rightarrow> plan_state result" where
  "plan_updates crc collecting tid start_offset [] p = Inr p"
| "plan_updates crc collecting tid start_offset (c # cs) p =
     rbind (plan_update crc collecting tid start_offset c p)
       (plan_updates crc collecting tid start_offset cs)"

definition plan_transaction ::
  "(bytes \<Rightarrow> u32) \<Rightarrow> bool \<Rightarrow> log_command list \<Rightarrow> bytes \<times> u64 \<times> planned_transaction list \<Rightarrow>
   (bytes \<times> u64 \<times> planned_transaction list) result" where
  "plan_transaction crc collecting commands s =
     (case s of (bytes, next_lsn, planned) \<Rightarrow>
        rbind (guard_err (commands = []) (StorageError ''WAL transaction must contain an update''))
          (\<lambda>_.
        let transaction_id = next_lsn in
        rbind (plan_updates crc collecting transaction_id (of_nat (length bytes)) commands
                 \<lparr>pl_bytes = bytes, pl_next_lsn = next_lsn, pl_previous_lsn = 0, pl_group_size = 0,
                  pl_updates = []\<rparr>) (\<lambda>p.
        let commit_offset = of_nat (length (pl_bytes p)); commit_lsn = pl_next_lsn p in
        rbind (encode_frame crc
                 \<lparr>fr_lsn = pl_next_lsn p, fr_transaction_id = transaction_id,
                  fr_previous_lsn = pl_previous_lsn p, fr_record = Commit\<rparr>) (\<lambda>commit.
        rbind (guard_err (usize_max < pl_group_size p + length commit)
                 (StorageError ''WAL transaction size overflow'')) (\<lambda>_.
        rbind (guard_err (MAX_GROUP_ENCODED_SIZE < pl_group_size p + length commit)
                 (StorageError ''WAL transaction exceeds group limit'')) (\<lambda>_.
        let planned =
              (if collecting
               then planned @ [\<lparr>pt_updates = pl_updates p, pt_commit_offset = commit_offset,
                                pt_commit_lsn = commit_lsn\<rparr>]
               else planned)
        in (case checked_add (pl_next_lsn p) 1 of
              None \<Rightarrow> Inl (Err (StorageError ''WAL LSN exhausted''))
            | Some next_lsn \<Rightarrow> Inr (pl_bytes p @ commit, next_lsn, planned))))))))"

fun plan_groups ::
  "(bytes \<Rightarrow> u32) \<Rightarrow> bool \<Rightarrow> log_command list list \<Rightarrow> bytes \<times> u64 \<times> planned_transaction list \<Rightarrow>
   (bytes \<times> u64 \<times> planned_transaction list) result" where
  "plan_groups crc collecting [] s = Inr s"
| "plan_groups crc collecting (commands # groups) s =
     rbind (plan_transaction crc collecting commands s) (plan_groups crc collecting groups)"

definition offset_add :: "u64 \<Rightarrow> u64 \<Rightarrow> u64 result" where
  "offset_add a b =
     (case checked_add a b of
        None \<Rightarrow> Inl (Err (StorageError ''WAL offset overflow'')) | Some c \<Rightarrow> Inr c)"

fun rmap :: "('a \<Rightarrow> 'b result) \<Rightarrow> 'a list \<Rightarrow> 'b list result" where
  "rmap f [] = Inr []"
| "rmap f (x # xs) = rbind (f x) (\<lambda>y. rbind (rmap f xs) (\<lambda>ys. Inr (y # ys)))"

definition update_receipt ::
  "u64 \<Rightarrow> u64 \<Rightarrow> u64 \<Rightarrow> u64 \<Rightarrow> planned_update \<Rightarrow> wal_value_ref result" where
  "update_receipt segment_id segment_start commit_offset commit_lsn u =
     rbind (offset_add segment_start (pu_transaction_start_offset u)) (\<lambda>start_offset.
     rbind (offset_add segment_start (pu_frame_offset u)) (\<lambda>frame_offset.
     Inr \<lparr>vr_segment_id = segment_id, vr_transaction_id = pu_transaction_id u,
          vr_transaction_start_offset = start_offset, vr_commit_offset = commit_offset,
          vr_commit_lsn = commit_lsn, vr_frame_offset = frame_offset,
          vr_frame_length = pu_frame_length u, vr_physical_lsn = pu_physical_lsn u,
          vr_application_sequence = pu_application_sequence u,
          vr_record_type = pu_record_type u, vr_key_length = pu_key_length u,
          vr_key_checksum = pu_key_checksum u, vr_value_length = pu_value_length u,
          vr_value_checksum = pu_value_checksum u\<rparr>))"

definition transaction_receipts ::
  "u64 \<Rightarrow> u64 \<Rightarrow> planned_transaction \<Rightarrow> wal_value_ref list result" where
  "transaction_receipts segment_id segment_start t =
     rbind (offset_add segment_start (pt_commit_offset t)) (\<lambda>commit_offset.
     rmap (update_receipt segment_id segment_start commit_offset (pt_commit_lsn t)) (pt_updates t))"

text \<open>What the file system did with a rotation and with the write of an append.\<close>

datatype rotate_io = RotateIo create_io | RotateSyncFail

datatype write_io = WriteOk | WriteFail nat

definition rotate_locked ::
  "(bytes \<Rightarrow> u32) \<Rightarrow> rotate_io \<Rightarrow> wal_manager \<Rightarrow> unit result \<times> wal_manager" where
  "rotate_locked crc io m =
     (case io of
        RotateSyncFail \<Rightarrow> (Inl (Err (IO OtherIo)), m)
      | RotateIo cio \<Rightarrow>
          (case checked_add (ws_segment_id (wm_state m)) 1 of
             None \<Rightarrow> (Inl (Err (StorageError ''WAL segment ID exhausted'')), m)
           | Some next_id \<Rightarrow>
               (case create_segment crc cio next_id (wm_dir m) of
                  (Inl e, dir) \<Rightarrow> (Inl e, m\<lparr>wm_dir := dir\<rparr>)
                | (Inr _, dir) \<Rightarrow>
                    (Inr (), m\<lparr>wm_dir := dir,
                               wm_state := (wm_state m)\<lparr>
                                 ws_sealed := insert (ws_segment_id (wm_state m))
                                                (ws_sealed (wm_state m)),
                                 ws_segment_id := next_id,
                                 ws_size := of_nat WAL_HEADER_SIZE\<rparr>\<rparr>))))"

definition set_poisoned :: "bool \<Rightarrow> wal_manager \<Rightarrow> wal_manager" where
  "set_poisoned b m = m\<lparr>wm_state := (wm_state m)\<lparr>ws_poisoned := b\<rparr>\<rparr>"

definition append_file :: "bytes \<Rightarrow> wal_manager \<Rightarrow> wal_manager" where
  "append_file bytes m =
     (let i = ws_segment_id (wm_state m) in
      case segment_file (wm_dir m) i of
        None \<Rightarrow> m
      | Some old \<Rightarrow> m\<lparr>wm_dir := write_file i (old @ bytes) (wm_dir m)\<rparr>)"

text \<open>The part of \<open>append_transactions\<close> after the segment has been chosen.\<close>

definition write_planned ::
  "write_io \<Rightarrow> bytes \<Rightarrow> u64 \<Rightarrow> planned_transaction list \<Rightarrow> wal_manager \<Rightarrow>
   wal_value_ref list list result \<times> wal_manager" where
  "write_planned wio bytes next_lsn planned m =
     (case rmap (transaction_receipts (ws_segment_id (wm_state m)) (ws_size (wm_state m))) planned of
        Inl e \<Rightarrow> (Inl e, m)
      | Inr receipts \<Rightarrow>
          (case wio of
             WriteFail n \<Rightarrow> (Inl (Err (IO OtherIo)), append_file (take n bytes) m)
           | WriteOk \<Rightarrow>
               let m = append_file bytes m
               in (Inr receipts,
                   m\<lparr>wm_state := (wm_state m)\<lparr>
                       ws_size := ws_size (wm_state m) + of_nat (length bytes),
                       ws_next_lsn := next_lsn, ws_poisoned := False\<rparr>\<rparr>)))"

definition append_transactions ::
  "(bytes \<Rightarrow> u32) \<Rightarrow> rotate_io \<Rightarrow> write_io \<Rightarrow> bool \<Rightarrow> log_command list list \<Rightarrow> wal_manager \<Rightarrow>
   wal_value_ref list list result \<times> wal_manager" where
  "append_transactions crc rio wio collecting groups m =
     (if groups = [] then (Inr [], m)
      else if MAX_GROUP_COUNT < length groups
      then (Inl (Err (StorageError ''WAL transaction group exceeds count limit'')), m)
      else
        (case rbind (ensure_healthy (wm_state m)) (\<lambda>_.
                plan_groups crc collecting groups ([], ws_next_lsn (wm_state m), [])) of
           Inl e \<Rightarrow> (Inl e, m)
         | Inr (bytes, next_lsn, planned) \<Rightarrow>
             let m = set_poisoned True m in
             if of_nat WAL_HEADER_SIZE < ws_size (wm_state m)
                \<and> wm_max_segment_size m < saturating_add (ws_size (wm_state m)) (of_nat (length bytes))
             then (case rotate_locked crc rio m of
                     (Inl e, m) \<Rightarrow> (Inl e, m)
                   | (Inr _, m) \<Rightarrow> write_planned wio bytes next_lsn planned m)
             else write_planned wio bytes next_lsn planned m))"

definition mark_untracked_mutation :: "wal_manager \<Rightarrow> wal_manager" where
  "mark_untracked_mutation m = m\<lparr>wm_raw_writes := True\<rparr>"

definition write_transactions_inner ::
  "(bytes \<Rightarrow> u32) \<Rightarrow> rotate_io \<Rightarrow> write_io \<Rightarrow> log_command list list \<Rightarrow> wal_manager \<Rightarrow>
   unit result \<times> wal_manager" where
  "write_transactions_inner crc rio wio groups m =
     apfst (map_sum id (\<lambda>_. ())) (append_transactions crc rio wio False groups m)"

definition write_transaction ::
  "(bytes \<Rightarrow> u32) \<Rightarrow> rotate_io \<Rightarrow> write_io \<Rightarrow> log_command list \<Rightarrow> wal_manager \<Rightarrow>
   unit result \<times> wal_manager" where
  "write_transaction crc rio wio commands m =
     write_transactions_inner crc rio wio [commands] (mark_untracked_mutation m)"

definition write_log ::
  "(bytes \<Rightarrow> u32) \<Rightarrow> rotate_io \<Rightarrow> write_io \<Rightarrow> bytes \<Rightarrow> bytes \<Rightarrow> u64 \<Rightarrow> record_type \<Rightarrow> wal_manager \<Rightarrow>
   u64 result \<times> wal_manager" where
  "write_log crc rio wio key v lsn record_type m =
     apfst (map_sum id (\<lambda>_. lsn))
       (write_transaction crc rio wio [LogCommand_new record_type key v lsn] m)"

text \<open>\<open>Arc::ptr_eq\<close> on the owner's token is equality of its address.\<close>

definition append_engine_transactions ::
  "(bytes \<Rightarrow> u32) \<Rightarrow> rotate_io \<Rightarrow> write_io \<Rightarrow> log_command list list \<Rightarrow> nat option \<Rightarrow> bool \<Rightarrow>
   wal_manager \<Rightarrow> wal_value_ref list list result \<times> wal_manager" where
  "append_engine_transactions crc rio wio groups owner collecting m =
     (let owns_checkpoint = (wm_token m \<noteq> None \<and> owner = wm_token m) in
      append_transactions crc rio wio collecting groups
        (if owns_checkpoint then m else mark_untracked_mutation m))"

definition write_engine_transactions ::
  "(bytes \<Rightarrow> u32) \<Rightarrow> rotate_io \<Rightarrow> write_io \<Rightarrow> log_command list list \<Rightarrow> nat option \<Rightarrow> wal_manager \<Rightarrow>
   unit result \<times> wal_manager" where
  "write_engine_transactions crc rio wio groups owner m =
     apfst (map_sum id (\<lambda>_. ())) (append_engine_transactions crc rio wio groups owner False m)"

definition write_engine_transaction ::
  "(bytes \<Rightarrow> u32) \<Rightarrow> rotate_io \<Rightarrow> write_io \<Rightarrow> log_command list \<Rightarrow> nat option \<Rightarrow> wal_manager \<Rightarrow>
   unit result \<times> wal_manager" where
  "write_engine_transaction crc rio wio commands owner m =
     apfst (map_sum id (\<lambda>_. ())) (append_engine_transactions crc rio wio [commands] owner False m)"

definition append_engine_transactions_with_receipts ::
  "(bytes \<Rightarrow> u32) \<Rightarrow> rotate_io \<Rightarrow> write_io \<Rightarrow> log_command list list \<Rightarrow> nat option \<Rightarrow> wal_manager \<Rightarrow>
   wal_value_ref list list result \<times> wal_manager" where
  "append_engine_transactions_with_receipts crc rio wio groups owner m =
     append_engine_transactions crc rio wio groups owner True m"

section \<open>Recovery through a manager\<close>

definition analyze_committed ::
  "(bytes \<Rightarrow> u32) \<Rightarrow> bool \<Rightarrow> wal_manager \<Rightarrow> analysis result" where
  "analyze_committed crc track_refs m =
     rbind (ensure_healthy (wm_state m)) (\<lambda>_.
     rbind (checkpoint_analysis (ws_checkpoint (wm_state m)) track_refs) (\<lambda>a.
     rbind (segment_paths (wm_dir m)
              (map_option rc_replay_start_segment (ws_checkpoint (wm_state m)))) (\<lambda>paths.
     rbind (scan_paths crc Reject (wm_dir m) paths WAL_VERSION a) (\<lambda>(_, _, a). Inr a))))"

definition recover_records :: "(bytes \<Rightarrow> u32) \<Rightarrow> wal_manager \<Rightarrow> wal_record list result" where
  "recover_records crc m = rbind (analyze_committed crc False m) (\<lambda>a. Inr (Analysis_redo a))"

definition recover_records_with_refs ::
  "(bytes \<Rightarrow> u32) \<Rightarrow> wal_manager \<Rightarrow> recovered_wal_update list result" where
  "recover_records_with_refs crc m =
     rbind (analyze_committed crc True m) (Analysis_redo_with_refs crc)"

definition recover_commands :: "(bytes \<Rightarrow> u32) \<Rightarrow> wal_manager \<Rightarrow> log_command list result" where
  "recover_commands crc m =
     rbind (recover_records crc m)
       (rmap (\<lambda>r. rbind (decode_record_type (wr_record_type r)) (\<lambda>t.
                Inr (LogCommand_new t (wr_key r) (wr_value r) (wr_lsn r)))))"

text \<open>\<open>recover\<close> inserts into a map from keys to kinds and values, the later record winning.\<close>

fun recover_insert ::
  "wal_record list \<Rightarrow> (bytes \<rightharpoonup> record_type \<times> bytes) \<Rightarrow> (bytes \<rightharpoonup> record_type \<times> bytes) result" where
  "recover_insert [] memtable = Inr memtable"
| "recover_insert (r # rs) memtable =
     rbind (decode_record_type (wr_record_type r)) (\<lambda>t.
       recover_insert rs (memtable(wr_key r \<mapsto> (t, wr_value r))))"

definition recover ::
  "(bytes \<Rightarrow> u32) \<Rightarrow> (bytes \<rightharpoonup> record_type \<times> bytes) \<Rightarrow> wal_manager \<Rightarrow>
   (bytes \<rightharpoonup> record_type \<times> bytes) result" where
  "recover crc memtable m =
     rbind (recover_records crc m) (\<lambda>rs. recover_insert rs memtable)"

definition preflight_recovery :: "(bytes \<Rightarrow> u32) \<Rightarrow> wal_directory \<Rightarrow> (u64 \<times> u64) result" where
  "preflight_recovery crc dir =
     rbind (segment_paths dir None) (\<lambda>paths.
     rbind (scan_paths crc Allow dir paths WAL_VERSION (Analysis_default\<lparr>an_track_refs := True\<rparr>))
       (\<lambda>(_, _, a).
     (case checked_add (an_latest_lsn a) 1 of
        None \<Rightarrow> Inl (Err (Corrupted ''WAL physical LSN overflow''))
      | Some next_physical_lsn \<Rightarrow>
          rbind (Analysis_redo_with_refs crc a) (\<lambda>updates.
          Inr (fold max (map (wr_lsn \<circ> ru_record) updates) 0, next_physical_lsn)))))"

definition recovery_position :: "wal_manager \<Rightarrow> (u64 \<times> u64) result" where
  "recovery_position m =
     rbind (ensure_healthy (wm_state m)) (\<lambda>_.
     Inr (ws_segment_id (wm_state m), ws_next_lsn (wm_state m)))"

definition trusted_recovery_position :: "wal_manager \<Rightarrow> (u64 \<times> u64) option result" where
  "trusted_recovery_position m =
     rbind (ensure_healthy (wm_state m)) (\<lambda>_.
     Inr (if wm_raw_writes m then None
          else Some (ws_segment_id (wm_state m), ws_next_lsn (wm_state m))))"

definition register_checkpoint_owner :: "nat \<Rightarrow> wal_manager \<Rightarrow> nat option \<times> wal_manager" where
  "register_checkpoint_owner address m =
     (if \<not> wm_checkpoint_owner m \<or> wm_owner_registered m then (None, m)
      else (Some address, m\<lparr>wm_owner_registered := True, wm_token := Some address\<rparr>))"

definition owns_recovery_checkpoints :: "nat option \<Rightarrow> wal_manager \<Rightarrow> bool" where
  "owns_recovery_checkpoints owner m \<longleftrightarrow>
     wm_checkpoint_owner m \<and> wm_token m \<noteq> None \<and> owner = wm_token m"

section \<open>Rotation and reclamation\<close>

definition rotate_wal_file ::
  "(bytes \<Rightarrow> u32) \<Rightarrow> rotate_io \<Rightarrow> wal_manager \<Rightarrow> u64 result \<times> wal_manager" where
  "rotate_wal_file crc io m =
     (case ensure_healthy (wm_state m) of
        Inl e \<Rightarrow> (Inl e, m)
      | Inr _ \<Rightarrow>
          (case rotate_locked crc io (set_poisoned True m) of
             (Inl e, m) \<Rightarrow> (Inl e, m)
           | (Inr _, m) \<Rightarrow>
               let m = set_poisoned False m in (Inr (ws_segment_id (wm_state m)), m)))"

definition change_to_reserve :: "u64 \<Rightarrow> wal_manager \<Rightarrow> u64 result \<times> wal_manager" where
  "change_to_reserve locked_wal m =
     (case ensure_healthy (wm_state m) of
        Inl e \<Rightarrow> (Inl e, m)
      | Inr _ \<Rightarrow>
          if locked_wal \<notin> ws_sealed (wm_state m)
          then (Inl (Err (StorageError ''WAL segment is not sealed'')), m)
          else (Inr locked_wal,
                m\<lparr>wm_state := (wm_state m)\<lparr>ws_sealed := ws_sealed (wm_state m) - {locked_wal}\<rparr>\<rparr>))"

text \<open>
  The deletion loop. \<open>remove_ok\<close> says for which entries the file system carries out
  \<open>remove_file\<close>; the loop stops at the first failure.
\<close>

fun reclaim_loop ::
  "(dir_entry \<Rightarrow> bool) \<Rightarrow> dir_entry list \<Rightarrow> wal_manager \<Rightarrow> bool \<Rightarrow> bool \<times> bool \<times> wal_manager" where
  "reclaim_loop remove_ok [] m removed_any = (removed_any, True, m)"
| "reclaim_loop remove_ok (e # es) m removed_any =
     (if de_kind e = Symlink \<or> (de_kind e \<noteq> RegularFile \<and> de_kind e \<noteq> Directory)
      then reclaim_loop remove_ok es m removed_any
      else if \<not> remove_ok e then (removed_any, False, m)
      else reclaim_loop remove_ok es
             (m\<lparr>wm_dir := remove1 e (wm_dir m),
                wm_state := (wm_state m)\<lparr>ws_sealed := ws_sealed (wm_state m) - {de_id e}\<rparr>\<rparr>) True)"

definition reclaim_checkpointed_segments ::
  "(dir_entry \<Rightarrow> bool) \<Rightarrow> bool \<Rightarrow> recovery_checkpoint \<Rightarrow> wal_manager \<Rightarrow> unit result \<times> wal_manager" where
  "reclaim_checkpointed_segments remove_ok sync_ok c m =
     (if \<not> wm_checkpoint_owner m
      then (Inl (Err (StorageError ''WAL manager has no engine checkpoint authority'')), m)
      else
        (case ensure_healthy (wm_state m) of
           Inl e \<Rightarrow> (Inl e, m)
         | Inr _ \<Rightarrow>
             if ws_segment_id (wm_state m) < rc_replay_start_segment c
                \<or> ws_next_lsn (wm_state m) < rc_next_physical_lsn c
             then (Inl (Err (StorageError ''WAL checkpoint is ahead of the writer state'')), m)
             else
               let m = m\<lparr>wm_state := (wm_state m)\<lparr>ws_checkpoint := Some c\<rparr>\<rparr>;
                   covered = sort_key de_id
                     (filter (\<lambda>e. de_id e < rc_replay_start_segment c) (wm_dir m))
               in (case reclaim_loop remove_ok covered m False of
                     (removed_any, completed, m) \<Rightarrow>
                       if removed_any \<and> \<not> sync_ok then (Inl (Err (IO OtherIo)), m)
                       else (if completed then Inr () else Inl (Err (IO OtherIo)), m))))"

section \<open>The log store interface\<close>

text \<open>
  \<open>impl LogStore for WALManager\<close>, and the default method of the trait
  (\<open>src/storage/recovermanager/log_store.rs\<close>) over any implementation of \<open>append\<close>.
\<close>

definition LogStore_append ::
  "(bytes \<Rightarrow> u32) \<Rightarrow> rotate_io \<Rightarrow> write_io \<Rightarrow> log_command \<Rightarrow> wal_manager \<Rightarrow> u64 result \<times> wal_manager" where
  "LogStore_append crc rio wio command m =
     apfst (map_sum id (\<lambda>_. lc_lsn command)) (write_transaction crc rio wio [command] m)"

definition LogStore_mark_reserved :: "u64 \<Rightarrow> wal_manager \<Rightarrow> unit result \<times> wal_manager" where
  "LogStore_mark_reserved segment_id m = apfst (map_sum id (\<lambda>_. ())) (change_to_reserve segment_id m)"

fun append_entries_from_leader ::
  "(log_command \<Rightarrow> 's \<Rightarrow> u64 result \<times> 's) \<Rightarrow> log_command list \<Rightarrow> 's \<Rightarrow> unit result \<times> 's" where
  "append_entries_from_leader append_entry [] s = (Inr (), s)"
| "append_entries_from_leader append_entry (e # es) s =
     (case append_entry e s of
        (Inl err, s) \<Rightarrow> (Inl err, s)
      | (Inr _, s) \<Rightarrow> append_entries_from_leader append_entry es s)"

end
