(* ===== verification/Blocks.thy ===== *)
theory Blocks
  imports Records
begin

text \<open>
  \<open>src/storage/checksum.rs\<close> and \<open>src/storage/writemanager/block.rs\<close>: the data blocks of a table
  and the builder that packs sorted records into them. \<open>roll_record\<close> is the step both the flush
  (\<open>write.rs\<close>) and the compaction (\<open>compaction.rs\<close>) perform for each record: add it, and when
  the block is full emit the block and add the record to the next one.
\<close>

section \<open>Checksums\<close>

definition calculate_crc32 :: "(bytes \<Rightarrow> u32) \<Rightarrow> bytes \<Rightarrow> u32" where
  "calculate_crc32 crc data = crc data"

definition verify_crc32 :: "(bytes \<Rightarrow> u32) \<Rightarrow> bytes \<Rightarrow> u32 \<Rightarrow> unit result" where
  "verify_crc32 crc data expected =
     (let actual = calculate_crc32 crc data in
      if actual = expected then Inr () else Inl (Err (Corrupted ''CRC32 mismatch'')))"

lemma verify_crc32_eq_Inr [simp]: "verify_crc32 crc data e = Inr u \<longleftrightarrow> crc data = e"
  by (simp add: verify_crc32_def calculate_crc32_def Let_def)

lemma verify_crc32_ok [simp]: "verify_crc32 crc data (crc data) = Inr ()"
  by simp

section \<open>Blocks\<close>

record block =
  b_offset :: u64
  b_first_key :: bytes
  b_last_key :: bytes
  b_record_count :: u32
  b_data_size :: u32
  b_data :: "memtable_record list option"

definition block_records :: "block \<Rightarrow> memtable_record list" where
  "block_records b = (case b_data b of None \<Rightarrow> [] | Some rs \<Rightarrow> rs)"

definition block_header :: "bytes \<Rightarrow> bytes \<Rightarrow> u32 \<Rightarrow> u32 \<Rightarrow> bytes" where
  "block_header fk lk cnt sz =
     u32_be (of_nat (length fk)) @ fk @ u32_be (of_nat (length lk)) @ lk @ u32_be cnt @ u32_be sz"

definition Block_encode :: "(bytes \<Rightarrow> u32) \<Rightarrow> block \<Rightarrow> bytes" where
  [codec_defs]: "Block_encode crc b =
     (let buf = block_header (b_first_key b) (b_last_key b) (b_record_count b) (b_data_size b)
            @ (case b_data b of None \<Rightarrow> []
               | Some records \<Rightarrow> concat (map (\<lambda>r. mr_encode r (mr_key r)) records));
          checksum = calculate_crc32 crc buf
      in buf @ u32_be checksum)"

definition Block_read :: "(bytes \<Rightarrow> u32) \<Rightarrow> u64 \<Rightarrow> block reader" where
  [codec_defs]: "Block_read crc offset =
     rd_bind read_u32_be (\<lambda>first_key_len.
     rd_bind (read_buf (unat first_key_len)) (\<lambda>first_key.
     rd_bind read_u32_be (\<lambda>last_key_len.
     rd_bind (read_buf (unat last_key_len)) (\<lambda>last_key.
     rd_bind read_u32_be (\<lambda>record_count.
     rd_bind read_u32_be (\<lambda>data_size.
     rd_bind (read_buf (unat data_size)) (\<lambda>record_bytes.
     rd_bind read_u32_be (\<lambda>stored_checksum.
     rd_bind (rd_lift (verify_crc32 crc
        (u32_be first_key_len @ first_key @ u32_be last_key_len @ last_key
         @ u32_be record_count @ u32_be data_size @ record_bytes) stored_checksum)) (\<lambda>_.
     rd_bind (rd_lift (rd_times (unat record_count) mr_decode record_bytes)) (\<lambda>records.
     rd_return \<lparr>b_offset = offset, b_first_key = first_key, b_last_key = last_key,
       b_record_count = record_count, b_data_size = data_size,
       b_data = Some (fst records)\<rparr>))))))))))"

text \<open>\<open>Block::decode\<close> seeks to the offset first; \<open>Block::async_decode\<close> reads from where the
  reader stands and reports offset 0.\<close>

definition Block_decode :: "(bytes \<Rightarrow> u32) \<Rightarrow> bytes \<Rightarrow> u64 \<Rightarrow> block result" where
  [codec_defs]: "Block_decode crc file offset =
     map_sum id fst (Block_read crc offset (drop (unat offset) file))"

definition Block_async_decode :: "(bytes \<Rightarrow> u32) \<Rightarrow> block reader" where
  [codec_defs]: "Block_async_decode crc = Block_read crc 0"

section \<open>The block builder\<close>

definition SSTABLE_BLOCK_SIZE :: nat where "SSTABLE_BLOCK_SIZE = 4096"

record block_builder =
  bb_data :: "memtable_record list"
  bb_data_size :: nat
  bb_first_key :: "bytes option"
  bb_last_key :: "bytes option"
  bb_record_count :: u32
  bb_block_offset :: u64

datatype block_builder_state = EnoughSpace | Full block bytes

definition BlockBuilder_new :: "u64 \<Rightarrow> block_builder" where
  "BlockBuilder_new offset =
     \<lparr>bb_data = [], bb_data_size = 0, bb_first_key = None, bb_last_key = None,
      bb_record_count = 0, bb_block_offset = offset\<rparr>"

definition unwrap_or_default :: "bytes option \<Rightarrow> bytes" where
  "unwrap_or_default o' = (case o' of None \<Rightarrow> [] | Some k \<Rightarrow> k)"

definition add_record ::
  "(bytes \<Rightarrow> u32) \<Rightarrow> block_builder \<Rightarrow> bytes \<Rightarrow> memtable_record \<Rightarrow>
   (block_builder \<times> block_builder_state) result" where
  "add_record crc bb key record =
     (if bb_data bb \<noteq> [] \<and> bb_data_size bb + record_length record key > SSTABLE_BLOCK_SIZE then
        let block = \<lparr>b_offset = bb_block_offset bb,
                     b_first_key = unwrap_or_default (bb_first_key bb),
                     b_last_key = unwrap_or_default (bb_last_key bb),
                     b_record_count = bb_record_count bb,
                     b_data_size = of_nat (bb_data_size bb),
                     b_data = Some (bb_data bb)\<rparr>;
            block_data = Block_encode crc block
        in case checked_add (bb_block_offset bb) (of_nat (length block_data)) of
             None \<Rightarrow> Inl (Panic ''block offset overflow'')
           | Some offset \<Rightarrow>
               Inr (\<lparr>bb_data = [], bb_data_size = 0, bb_first_key = None, bb_last_key = None,
                     bb_record_count = 0, bb_block_offset = offset\<rparr>, Full block block_data)
      else
        let first_key = (if bb_first_key bb = None then Some key else bb_first_key bb);
            first_key = (if key < unwrap_or_default first_key then Some key else first_key);
            last_key = (if key > unwrap_or_default (bb_last_key bb) then Some key
                        else bb_last_key bb)
        in Inr (\<lparr>bb_data = bb_data bb @ [\<lparr>mr_type = mr_type record, mr_lsn = mr_lsn record,
                                         mr_key = key, mr_value = mr_value record\<rparr>],
                 bb_data_size = bb_data_size bb + record_length record key,
                 bb_first_key = first_key, bb_last_key = last_key,
                 bb_record_count = bb_record_count bb + 1,
                 bb_block_offset = bb_block_offset bb\<rparr>, EnoughSpace))"

definition build :: "block_builder \<Rightarrow> (block \<times> bytes) option result" where
  "build bb =
     (if bb_data bb = [] then Inr None
      else case bb_first_key bb of
          None \<Rightarrow> Inl (Panic ''called Option::unwrap() on a None value'')
        | Some first_key \<Rightarrow>
            (case bb_last_key bb of
               None \<Rightarrow> Inl (Panic ''called Option::unwrap() on a None value'')
             | Some last_key \<Rightarrow>
                 Inr (Some (\<lparr>b_offset = bb_block_offset bb, b_first_key = first_key,
                             b_last_key = last_key, b_record_count = bb_record_count bb,
                             b_data_size = of_nat (bb_data_size bb),
                             b_data = Some (bb_data bb)\<rparr>, []))))"

definition bb_is_empty :: "block_builder \<Rightarrow> bool" where
  "bb_is_empty bb \<longleftrightarrow> bb_data bb = []"

definition bb_size :: "block_builder \<Rightarrow> nat" where
  "bb_size bb = length (bb_data bb)"

definition roll_record ::
  "(bytes \<Rightarrow> u32) \<Rightarrow> bytes \<Rightarrow> memtable_record \<Rightarrow> block_builder \<times> block list \<Rightarrow>
   (block_builder \<times> block list) result" where
  "roll_record crc key record st =
     rbind (add_record crc (fst st) key record) (\<lambda>(bb, state).
       case state of
         EnoughSpace \<Rightarrow> Inr (bb, snd st)
       | Full block block_bytes \<Rightarrow>
           rbind (add_record crc bb key record) (\<lambda>(bb', state').
             Inr (bb', snd st @ [block])))"

fun roll_records ::
  "(bytes \<Rightarrow> u32) \<Rightarrow> memtable_record list \<Rightarrow> block_builder \<times> block list \<Rightarrow>
   (block_builder \<times> block list) result" where
  "roll_records crc [] st = Inr st"
| "roll_records crc (r # rs) st =
     rbind (roll_record crc (mr_key r) r st) (roll_records crc rs)"

text \<open>The whole packing loop, with the last partial block taken from the builder.\<close>

definition pack_blocks :: "(bytes \<Rightarrow> u32) \<Rightarrow> memtable_record list \<Rightarrow> block list result" where
  "pack_blocks crc rs =
     rbind (roll_records crc rs (BlockBuilder_new 0, [])) (\<lambda>(bb, blocks).
     rbind (build bb) (\<lambda>last_block.
       Inr (case last_block of None \<Rightarrow> blocks | Some (b, _) \<Rightarrow> blocks @ [b])))"

section \<open>Well-formed blocks and the block codec\<close>

definition rec_len :: "memtable_record \<Rightarrow> nat" where
  "rec_len r = record_length r (mr_key r)"

definition recs_len :: "memtable_record list \<Rightarrow> nat" where
  "recs_len rs = sum_list (map rec_len rs)"

lemma recs_len_simps [simp]:
  "recs_len [] = 0" "recs_len (r # rs) = rec_len r + recs_len rs"
  "recs_len (rs @ ss) = recs_len rs + recs_len ss"
  by (simp_all add: recs_len_def)

lemma rec_len_ge: "17 \<le> rec_len r" "17 + length (mr_key r) \<le> rec_len r"
  "17 + length (mr_value r) \<le> rec_len r"
  by (simp_all add: rec_len_def record_length_def)

lemma length_concat_mr_encode:
  "length (concat (map (\<lambda>r. mr_encode r (mr_key r)) rs)) = recs_len rs"
  by (induction rs) (simp_all add: length_mr_encode rec_len_def)

lemma recs_len_member: "r \<in> set rs \<Longrightarrow> rec_len r \<le> recs_len rs"
  by (induction rs) auto

lemma length_le_recs_len: "17 * length rs \<le> recs_len rs"
  by (induction rs) (use rec_len_ge in \<open>auto intro: add_mono\<close>)

text \<open>
  What a block on disk satisfies: its counters describe its records, its key range is the keys of
  its first and last record, and its keys ascend.
\<close>

definition block_ok :: "block \<Rightarrow> bool" where
  "block_ok b \<longleftrightarrow>
     (case b_data b of
        None \<Rightarrow> False
      | Some rs \<Rightarrow> rs \<noteq> [] \<and> recs_len rs < 2 ^ 32
          \<and> b_record_count b = of_nat (length rs) \<and> b_data_size b = of_nat (recs_len rs)
          \<and> b_first_key b = mr_key (hd rs) \<and> b_last_key b = mr_key (last rs)
          \<and> sorted_wrt (<) (map mr_key rs))"

lemma block_okE:
  assumes "block_ok b"
  obtains rs where "b_data b = Some rs" "rs \<noteq> []" "recs_len rs < 2 ^ 32"
    "b_record_count b = of_nat (length rs)" "b_data_size b = of_nat (recs_len rs)"
    "b_first_key b = mr_key (hd rs)" "b_last_key b = mr_key (last rs)"
    "sorted_wrt (<) (map mr_key rs)"
  using assms by (auto simp: block_ok_def split: option.splits)

lemma recs_len_mr_wf: "recs_len rs < 2 ^ 32 \<Longrightarrow> list_all mr_wf rs"
proof (unfold list_all_iff, intro ballI)
  fix r assume "recs_len rs < 2 ^ 32" "r \<in> set rs"
  then show "mr_wf r"
    using recs_len_member [of r rs] rec_len_ge(2,3) [of r] by (simp add: mr_wf_def)
qed

lemma Block_read_encode:
  assumes "block_ok b"
  shows "Block_read crc off (Block_encode crc b @ rest) = Inr (b\<lparr>b_offset := off\<rparr>, rest)"
proof -
  from assms obtain rs where rs: "b_data b = Some rs" "rs \<noteq> []" "recs_len rs < 2 ^ 32"
    "b_record_count b = of_nat (length rs)" "b_data_size b = of_nat (recs_len rs)"
    "b_first_key b = mr_key (hd rs)" "b_last_key b = mr_key (last rs)"
    by (rule block_okE)
  have wf: "list_all mr_wf rs" using rs(3) by (rule recs_len_mr_wf)
  then have keys: "length (mr_key (hd rs)) < 2 ^ 32" "length (mr_key (last rs)) < 2 ^ 32"
    using rs(2) by (simp_all add: list_all_iff mr_wf_def)
  have cnt: "length rs < 2 ^ 32"
    using rs(3) length_le_recs_len [of rs] by simp
  have dec: "rd_times (length rs) mr_decode (concat (map (\<lambda>r. mr_encode r (mr_key r)) rs))
      = Inr (rs, [])"
    using mr_codec.rd_times_enc [OF wf, of "[]"] by simp
  note lens = unat_of_nat_32 [OF keys(1)] unat_of_nat_32 [OF keys(2)] unat_of_nat_32 [OF cnt]
    unat_of_nat_32 [OF rs(3)]
  have bound: "length (mr_key (hd rs)) \<le> isize_max" "length (mr_key (last rs)) \<le> isize_max"
    "recs_len rs \<le> isize_max"
    using keys rs(3) by (simp_all add: isize_max_def)
  show ?thesis
    using bound
    by (simp add: Block_read_def Block_encode_def rs block_header_def lens reader_simps
        length_concat_mr_encode dec Let_def calculate_crc32_def)
qed

lemma Block_decode_encode:
  assumes "block_ok b" "length pre < 2 ^ 64"
  shows "Block_decode crc (pre @ Block_encode crc b @ rest) (of_nat (length pre))
    = Inr (b\<lparr>b_offset := of_nat (length pre)\<rparr>)"
  using assms by (simp add: Block_decode_def Block_read_encode unat_of_nat_64)

interpretation block_codec: codec "Block_encode crc" "Block_async_decode crc"
    "\<lambda>b. block_ok b \<and> b_offset b = 0" for crc
  by unfold_locales (simp add: Block_async_decode_def Block_read_encode)

section \<open>What the builder maintains\<close>

text \<open>
  The builder's fields describe its records. The last key is tracked with a strict comparison
  against the default empty key, so it stays \<open>None\<close> as long as the only key seen is the empty one.
\<close>

definition bb_inv :: "block_builder \<Rightarrow> bool" where
  "bb_inv bb \<longleftrightarrow>
     (let rs = bb_data bb in
      bb_data_size bb = recs_len rs \<and> bb_record_count bb = of_nat (length rs)
      \<and> bb_first_key bb = (if rs = [] then None else Some (mr_key (hd rs)))
      \<and> bb_last_key bb = (if rs = [] \<or> mr_key (last rs) = [] then None else Some (mr_key (last rs)))
      \<and> sorted_wrt (<) (map mr_key rs) \<and> recs_len rs < 2 ^ 32
      \<and> (recs_len rs \<le> SSTABLE_BLOCK_SIZE \<or> length rs = 1))"

definition block_small :: "block \<Rightarrow> bool" where
  "block_small b \<longleftrightarrow>
     recs_len (block_records b) \<le> SSTABLE_BLOCK_SIZE \<or> length (block_records b) = 1"

lemma bb_inv_new [simp]: "bb_inv (BlockBuilder_new off)"
  by (simp add: bb_inv_def BlockBuilder_new_def)

lemma BlockBuilder_new_sel [simp]:
  "bb_data (BlockBuilder_new off) = []" "bb_block_offset (BlockBuilder_new off) = off"
  by (simp_all add: BlockBuilder_new_def)

lemma bytes_gt_Nil: "(k :: bytes) > [] \<longleftrightarrow> k \<noteq> []"
  by (cases k) auto

lemma not_less_Nil: "\<not> (k :: bytes) < []"
  by (cases k) auto

lemma sorted_hd_le_last:
  "xs \<noteq> [] \<Longrightarrow> sorted_wrt (<) (map f xs) \<Longrightarrow> f (hd xs) \<le> (f (last xs) :: 'b::linorder)"
  by (cases xs) (auto intro: less_imp_le simp: last_in_set)

lemma add_record_room:
  assumes inv: "bb_inv bb" and new: "\<forall>r' \<in> set (bb_data bb). mr_key r' < key"
    and room: "bb_data bb = [] \<or> bb_data_size bb + record_length r key \<le> SSTABLE_BLOCK_SIZE"
    and small: "record_length r key < 2 ^ 32"
  shows "\<exists>bb'. add_record crc bb key r = Inr (bb', EnoughSpace) \<and> bb_inv bb'
    \<and> bb_data bb' = bb_data bb @ [with_key r key] \<and> bb_block_offset bb' = bb_block_offset bb"
proof -
  obtain bb' where add: "add_record crc bb key r = Inr (bb', EnoughSpace)"
    and data: "bb_data bb' = bb_data bb @ [with_key r key]"
    and off: "bb_block_offset bb' = bb_block_offset bb"
    using room by (auto simp: add_record_def Let_def with_key_def)
  have lt: "mr_key (last (bb_data bb)) < key" "mr_key (hd (bb_data bb)) < key"
    if "bb_data bb \<noteq> []" using new that by auto
  have nonempty: "key \<noteq> []" if "bb_data bb \<noteq> []"
    using lt(1) [OF that] not_less_Nil by auto
  have sorted: "sorted_wrt (<) (map mr_key (bb_data bb'))"
    using inv new by (auto simp: data bb_inv_def Let_def sorted_wrt_append with_key_def)
  have "bb_inv bb'"
    using inv room small add sorted lt nonempty
    by (auto simp: add_record_def Let_def bb_inv_def with_key_def rec_len_def record_length_def
        unwrap_or_default_def SSTABLE_BLOCK_SIZE_def bytes_gt_Nil not_less_Nil
        split: if_splits)
  with add data off show ?thesis by blast
qed

lemma Block_encode_length:
  assumes "block_ok b"
  shows "length (Block_encode crc b) \<le> 5 * recs_len (block_records b)"
proof -
  from assms obtain rs where rs: "b_data b = Some rs" "rs \<noteq> []"
    "b_first_key b = mr_key (hd rs)" "b_last_key b = mr_key (last rs)"
    by (rule block_okE)
  have "rec_len (hd rs) \<le> recs_len rs" "rec_len (last rs) \<le> recs_len rs"
    using rs(2) by (simp_all add: recs_len_member)
  then show ?thesis
    using rs rec_len_ge(2) [of "hd rs"] rec_len_ge(2) [of "last rs"]
    by (simp add: Block_encode_def block_header_def block_records_def length_concat_mr_encode Let_def)
qed

section \<open>What the packing loop maintains\<close>

definition roll_inv :: "(bytes \<Rightarrow> u32) \<Rightarrow> memtable_record list \<Rightarrow> block_builder \<times> block list \<Rightarrow> bool" where
  "roll_inv crc rs st \<longleftrightarrow>
     bb_inv (fst st) \<and> (\<forall>b \<in> set (snd st). block_ok b \<and> block_small b)
     \<and> concat (map block_records (snd st)) @ bb_data (fst st) = rs
     \<and> unat (bb_block_offset (fst st)) \<le> 5 * recs_len (concat (map block_records (snd st)))
     \<and> (bb_data (fst st) = [] \<longrightarrow> rs = [])"

lemma roll_record_inv:
  assumes inv: "roll_inv crc rs st"
    and new: "\<forall>r' \<in> set rs. mr_key r' < mr_key r"
    and small: "rec_len r < 2 ^ 32" and total: "5 * recs_len (rs @ [r]) < 2 ^ 64"
  shows "\<exists>st'. roll_record crc (mr_key r) r st = Inr st' \<and> roll_inv crc (rs @ [r]) st'"
proof -
  obtain bb blocks where st: "st = (bb, blocks)" by (cases st)
  have inv': "bb_inv bb" "\<forall>b \<in> set blocks. block_ok b \<and> block_small b"
    "concat (map block_records blocks) @ bb_data bb = rs"
    "unat (bb_block_offset bb) \<le> 5 * recs_len (concat (map block_records blocks))"
    using inv by (auto simp: roll_inv_def st)
  have wk: "with_key r (mr_key r) = r" by (simp add: with_key_def)
  have new': "\<forall>r' \<in> set (bb_data bb). mr_key r' < mr_key r"
    using new inv'(3) by auto
  show ?thesis
  proof (cases "bb_data bb \<noteq> [] \<and> bb_data_size bb + record_length r (mr_key r) > SSTABLE_BLOCK_SIZE")
    case False
    then obtain bb' where "add_record crc bb (mr_key r) r = Inr (bb', EnoughSpace)" "bb_inv bb'"
      "bb_data bb' = bb_data bb @ [r]" "bb_block_offset bb' = bb_block_offset bb"
      using add_record_room [OF inv'(1) new', of r crc] small
      by (auto simp: rec_len_def wk)
    with inv' show ?thesis by (auto simp: roll_record_def st roll_inv_def)
  next
    case True
    let ?blk = "\<lparr>b_offset = bb_block_offset bb, b_first_key = unwrap_or_default (bb_first_key bb),
      b_last_key = unwrap_or_default (bb_last_key bb), b_record_count = bb_record_count bb,
      b_data_size = of_nat (bb_data_size bb), b_data = Some (bb_data bb)\<rparr>"
    have blk: "block_ok ?blk" "block_records ?blk = bb_data bb" "block_small ?blk"
      using True inv'(1)
      by (auto simp: block_ok_def block_records_def block_small_def bb_inv_def
          unwrap_or_default_def Let_def)
    let ?n = "length (Block_encode crc ?blk)"
    have n: "?n \<le> 5 * recs_len (bb_data bb)"
      using Block_encode_length [OF blk(1), of crc] by (simp add: blk(2))
    have sum: "unat (bb_block_offset bb) + ?n \<le> 5 * recs_len rs"
      using inv'(4) n by (simp add: inv'(3) [symmetric])
    have nlt: "?n < 2 ^ 64" and slt: "unat (bb_block_offset bb) + ?n < 2 ^ 64"
      using sum total by simp_all
    let ?bb1 = "BlockBuilder_new (bb_block_offset bb + of_nat ?n)"
    have add1: "add_record crc bb (mr_key r) r = Inr (?bb1, Full ?blk (Block_encode crc ?blk))"
      using True slt nlt
      by (simp add: add_record_def Let_def BlockBuilder_new_def checked_add_def
          unat_of_nat_64 [OF nlt])
    obtain bb2 where add2: "add_record crc ?bb1 (mr_key r) r = Inr (bb2, EnoughSpace)" "bb_inv bb2"
      "bb_data bb2 = [r]" "bb_block_offset bb2 = bb_block_offset ?bb1"
      using add_record_room [of ?bb1 "mr_key r" r crc] small
      by (auto simp: rec_len_def wk)
    have "unat (bb_block_offset bb + of_nat ?n) = unat (bb_block_offset bb) + ?n"
      using slt by (simp add: unat_word_ariths unat_of_nat_64 [OF nlt])
    then show ?thesis
      using add1 add2 inv' blk sum
      by (auto simp: roll_record_def st roll_inv_def)
  qed
qed

lemma roll_records_inv:
  assumes "roll_inv crc rs st"
    and "sorted_wrt (<) (map mr_key (rs @ ss))" "\<forall>r \<in> set ss. rec_len r < 2 ^ 32"
    and "5 * recs_len (rs @ ss) < 2 ^ 64"
  shows "\<exists>st'. roll_records crc ss st = Inr st' \<and> roll_inv crc (rs @ ss) st'"
  using assms
proof (induction ss arbitrary: rs st)
  case (Cons r ss)
  have "\<exists>st'. roll_record crc (mr_key r) r st = Inr st' \<and> roll_inv crc (rs @ [r]) st'"
    using Cons.prems by (intro roll_record_inv) (auto simp: sorted_wrt_append)
  then obtain st' where st': "roll_record crc (mr_key r) r st = Inr st'" "roll_inv crc (rs @ [r]) st'"
    by blast
  with Cons.IH [OF st'(2)] Cons.prems show ?case by simp
qed simp

text \<open>Only a last block holding nothing but the empty key makes \<open>build\<close> panic.\<close>

lemma build_inv:
  assumes "bb_inv bb" "bb_data bb \<noteq> []" "map mr_key (bb_data bb) \<noteq> [[]]"
  shows "\<exists>b. build bb = Inr (Some (b, [])) \<and> block_ok b \<and> block_small b
    \<and> block_records b = bb_data bb"
proof -
  have "mr_key (last (bb_data bb)) \<noteq> []"
  proof
    assume last: "mr_key (last (bb_data bb)) = []"
    obtain rs r where rs: "bb_data bb = rs @ [r]" using assms(2) by (cases "bb_data bb" rule: rev_cases) auto
    then have "\<forall>r' \<in> set rs. mr_key r' < []"
      using assms(1) last by (auto simp: bb_inv_def Let_def sorted_wrt_append)
    then have "rs = []" by (cases rs) (auto simp: not_less_Nil)
    with assms(3) rs last show False by simp
  qed
  with assms(1,2) show ?thesis
    by (auto simp: build_def bb_inv_def Let_def block_ok_def block_small_def block_records_def)
qed

lemma pack_blocks_ok:
  assumes sorted: "sorted_wrt (<) (map mr_key rs)" and small: "\<forall>r \<in> set rs. rec_len r < 2 ^ 32"
    and total: "5 * recs_len rs < 2 ^ 64" and key: "map mr_key rs \<noteq> [[]]"
  shows "\<exists>blocks. pack_blocks crc rs = Inr blocks \<and> concat (map block_records blocks) = rs
    \<and> (\<forall>b \<in> set blocks. block_ok b \<and> block_small b)"
proof -
  have init: "roll_inv crc [] (BlockBuilder_new 0, [])"
    by (simp add: roll_inv_def BlockBuilder_new_def bb_inv_def)
  obtain bb blocks where roll: "roll_records crc rs (BlockBuilder_new 0, []) = Inr (bb, blocks)"
    and inv: "roll_inv crc rs (bb, blocks)"
    using roll_records_inv [OF init, of rs] sorted small total by auto
  show ?thesis
  proof (cases "bb_data bb = []")
    case True
    with inv have "rs = []" by (simp add: roll_inv_def)
    then show ?thesis by (simp add: pack_blocks_def BlockBuilder_new_def build_def)
  next
    case False
    have "map mr_key (bb_data bb) \<noteq> [[]]"
    proof
      assume lone: "map mr_key (bb_data bb) = [[]]"
      have "\<forall>r \<in> set (concat (map block_records blocks)). mr_key r < []"
        using inv sorted lone by (auto simp: roll_inv_def sorted_wrt_append)
      then have "concat (map block_records blocks) = []"
        by (metis not_less_Nil last_in_set)
      with inv lone key show False by (simp add: roll_inv_def)
    qed
    then obtain b where "build bb = Inr (Some (b, []))" "block_ok b" "block_small b"
      "block_records b = bb_data bb"
      using build_inv [of bb] inv False by (auto simp: roll_inv_def)
    with roll inv show ?thesis
      by (auto simp: pack_blocks_def roll_inv_def)
  qed
qed

lemma pack_blocks_lone:
  "mr_key r = [] \<Longrightarrow> pack_blocks crc [r] = Inl (Panic ''called Option::unwrap() on a None value'')"
  by (simp add: pack_blocks_def roll_record_def add_record_def BlockBuilder_new_def build_def
      unwrap_or_default_def Let_def)

lemma pack_blocks_not_lone: "pack_blocks crc rs = Inr blocks \<Longrightarrow> map mr_key rs \<noteq> [[]]"
  using pack_blocks_lone by auto

section \<open>Properties\<close>

text \<open>
  C19: packing loses, duplicates and reorders nothing. Records with ascending keys, each
  below 4 GiB, go into blocks whose records read in order are the input; each block is well-formed
  (counts, sizes and key range describe its records) and holds at most 4096 bytes of records unless
  it is a single oversized one.
\<close>

theorem pack_blocks_correct:
  assumes "sorted_wrt (<) (map mr_key rs)" and "\<forall>r \<in> set rs. rec_len r < 2 ^ 32"
    and "5 * recs_len rs < 2 ^ 64" and "map mr_key rs \<noteq> [[]]"
  shows "\<exists>blocks. pack_blocks crc rs = Inr blocks \<and> concat (map block_records blocks) = rs
    \<and> (\<forall>b \<in> set blocks. block_ok b
          \<and> (recs_len (block_records b) \<le> SSTABLE_BLOCK_SIZE \<or> length (block_records b) = 1))"
  using pack_blocks_ok [OF assms] by (simp add: block_small_def)

definition sample_record :: "byte \<Rightarrow> memtable_record" where
  "sample_record b = \<lparr>mr_type = Put, mr_lsn = 1, mr_key = [b], mr_value = [7]\<rparr>"

theorem pack_blocks_correct_witness:
  "\<exists>blocks. pack_blocks (\<lambda>_. 0) [sample_record 1, sample_record 2] = Inr blocks
     \<and> concat (map block_records blocks) = [sample_record 1, sample_record 2]"
  using pack_blocks_correct [of "[sample_record 1, sample_record 2]" "\<lambda>_. 0"]
  by (auto simp: sample_record_def rec_len_def record_length_def)

text \<open>
  C40: a block that holds only a record with the empty key cannot be built: \<open>build\<close> unwraps a
  last key that was never set, since no key is greater than the default empty one.
\<close>

theorem pack_blocks_empty_key_panics:
  assumes "mr_key r = []"
  shows "pack_blocks crc [r] = Inl (Panic ''called Option::unwrap() on a None value'')"
  using assms by (rule pack_blocks_lone)

theorem pack_blocks_empty_key_panics_witness:
  "pack_blocks (\<lambda>_. 0) [MemtableRecord_new [7] Put 1]
   = Inl (Panic ''called Option::unwrap() on a None value'')"
  using pack_blocks_empty_key_panics [of "MemtableRecord_new [7] Put 1" "\<lambda>_. 0"]
  by (simp add: MemtableRecord_new_def)

end
