(* ===== verification/Bloom_Filter.thy ===== *)
theory Bloom_Filter
  imports Prelude
begin

text \<open>
  \<open>src/storage/bloom.rs\<close>: the wrapper that stores a Bloom filter in a table. The filter itself is
  the crate \<open>fastbloom\<close>, a parameter: \<open>bloom_api\<close> holds the operations the wrapper calls, over
  the crate's filter type \<open>'f\<close> and the type \<open>'r\<close> of a false-positive rate.
\<close>

record ('f, 'r) bloom_api =
  bf_with_num_bits :: "nat \<Rightarrow> u128 \<Rightarrow> nat \<Rightarrow> 'f"
  bf_with_false_pos :: "'r \<Rightarrow> u128 \<Rightarrow> nat \<Rightarrow> 'f"
  bf_from_vec :: "u64 list \<Rightarrow> u128 \<Rightarrow> u32 \<Rightarrow> 'f"
  bf_insert :: "bytes \<Rightarrow> 'f \<Rightarrow> 'f"
  bf_contains :: "'f \<Rightarrow> bytes \<Rightarrow> bool"
  bf_clear :: "'f \<Rightarrow> 'f"
  bf_num_bits :: "'f \<Rightarrow> nat"
  bf_num_hashes :: "'f \<Rightarrow> u32"
  bf_as_slice :: "'f \<Rightarrow> u64 list"

text \<open>
  What the crate documents and the storage code relies on: an inserted key is reported present,
  and stays so under later insertions.
\<close>

definition bloom_no_false_negatives :: "('f, 'r) bloom_api \<Rightarrow> bool" where
  "bloom_no_false_negatives api \<longleftrightarrow>
     (\<forall>f k. bf_contains api (bf_insert api k f) k)
     \<and> (\<forall>f k k'. bf_contains api f k \<longrightarrow> bf_contains api (bf_insert api k' f) k)"

text \<open>
  A filter is determined by its bitmap, its seed and its number of hashes: rebuilding it from them
  gives the same filter back. \<open>seed_of\<close> is the seed the filter was built with.
\<close>

definition bloom_rebuilds :: "('f, 'r) bloom_api \<Rightarrow> ('f \<Rightarrow> u128) \<Rightarrow> bool" where
  "bloom_rebuilds api seed_of \<longleftrightarrow>
     (\<forall>f. bf_from_vec api (bf_as_slice api f) (seed_of f) (bf_num_hashes api f) = f)"

record 'f bloom_wrapper =
  bl_filter :: 'f
  bl_seed :: u128

definition DEFAULT_BLOOM_SEED :: u128 where "DEFAULT_BLOOM_SEED = 0"

definition bloom_new :: "('f, 'r) bloom_api \<Rightarrow> nat \<Rightarrow> nat \<Rightarrow> 'f bloom_wrapper" where
  "bloom_new api num_bits expected_items =
     (let seed = DEFAULT_BLOOM_SEED in
      \<lparr>bl_filter = bf_with_num_bits api num_bits seed expected_items, bl_seed = seed\<rparr>)"

definition bloom_with_rate :: "('f, 'r) bloom_api \<Rightarrow> nat \<Rightarrow> 'r \<Rightarrow> 'f bloom_wrapper" where
  "bloom_with_rate api expected_items rate =
     (let seed = DEFAULT_BLOOM_SEED in
      \<lparr>bl_filter = bf_with_false_pos api rate seed expected_items, bl_seed = seed\<rparr>)"

definition bloom_insert :: "('f, 'r) bloom_api \<Rightarrow> bytes \<Rightarrow> 'f bloom_wrapper \<Rightarrow> 'f bloom_wrapper" where
  "bloom_insert api key w = w\<lparr>bl_filter := bf_insert api key (bl_filter w)\<rparr>"

definition bloom_contains :: "('f, 'r) bloom_api \<Rightarrow> 'f bloom_wrapper \<Rightarrow> bytes \<Rightarrow> bool" where
  "bloom_contains api w key = bf_contains api (bl_filter w) key"

definition bloom_clear :: "('f, 'r) bloom_api \<Rightarrow> 'f bloom_wrapper \<Rightarrow> 'f bloom_wrapper" where
  "bloom_clear api w = w\<lparr>bl_filter := bf_clear api (bl_filter w)\<rparr>"

definition bloom_encode :: "('f, 'r) bloom_api \<Rightarrow> 'f bloom_wrapper \<Rightarrow> bytes" where
  [codec_defs]: "bloom_encode api w =
     (let num_bits = of_nat (bf_num_bits api (bl_filter w)) :: u64;
          num_hashes = bf_num_hashes api (bl_filter w);
          bitmap_slice = bf_as_slice api (bl_filter w);
          num_words = of_nat (length bitmap_slice) :: u64
      in u128_be (bl_seed w) @ u64_be num_bits @ u32_be num_hashes @ u64_be num_words
         @ concat (map u64_be bitmap_slice))"

text \<open>\<open>Vec::with_capacity(num_words)\<close> of 8-byte words panics past \<open>isize::MAX\<close> bytes.\<close>

definition bloom_decode :: "('f, 'r) bloom_api \<Rightarrow> 'f bloom_wrapper reader" where
  [codec_defs]: "bloom_decode api =
     rd_bind read_u128_be (\<lambda>seed.
     rd_bind read_u64_be (\<lambda>num_bits.
     rd_bind read_u32_be (\<lambda>num_hashes.
     rd_bind read_u64_be (\<lambda>num_words.
     rd_bind (if isize_max < 8 * unat num_words then rd_fail (Panic ''capacity overflow'')
              else rd_times (unat num_words) read_u64_be) (\<lambda>bitmap_words.
     rd_return \<lparr>bl_filter = bf_from_vec api bitmap_words seed num_hashes, bl_seed = seed\<rparr>)))))"

definition bloom_async_decode :: "('f, 'r) bloom_api \<Rightarrow> 'f bloom_wrapper reader" where
  "bloom_async_decode api =
     rd_bind read_u128_be (\<lambda>seed.
     rd_bind read_u64_be (\<lambda>num_bits.
     rd_bind read_u32_be (\<lambda>num_hashes.
     rd_bind read_u64_be (\<lambda>num_words.
     rd_bind (if isize_max < 8 * unat num_words then rd_fail (Panic ''capacity overflow'')
              else rd_times (unat num_words) read_u64_be) (\<lambda>bitmap_words.
     rd_return \<lparr>bl_filter = bf_from_vec api bitmap_words seed num_hashes, bl_seed = seed\<rparr>)))))"

lemma bloom_async_decode_eq: "bloom_async_decode api = bloom_decode api"
  by (simp add: bloom_async_decode_def bloom_decode_def)

text \<open>Wrappers that can be stored: bitmap of an allocatable size, seed as the filter was built.\<close>

definition bloom_wf :: "('f, 'r) bloom_api \<Rightarrow> 'f bloom_wrapper \<Rightarrow> bool" where
  "bloom_wf api w \<longleftrightarrow>
     8 * length (bf_as_slice api (bl_filter w)) \<le> isize_max
     \<and> bf_from_vec api (bf_as_slice api (bl_filter w)) (bl_seed w)
         (bf_num_hashes api (bl_filter w)) = bl_filter w"

text \<open>
  The shape of a filter that the checks accept: at least one hash, no more hashes than bits, and a bitmap of
  64-bit words that holds the bits.
\<close>

definition bloom_shape :: "('f, 'r) bloom_api \<Rightarrow> 'f bloom_wrapper \<Rightarrow> bool" where
  "bloom_shape api w \<longleftrightarrow>
     (let f = bl_filter w in
      bf_num_hashes api f \<noteq> 0 \<and> unat (bf_num_hashes api f) \<le> bf_num_bits api f \<and> 0 < bf_num_bits api f
      \<and> bf_num_bits api f + 63 \<le> usize_max \<and> length (bf_as_slice api f) = (bf_num_bits api f + 63) div 64)"

lemma bloom_decode_encode:
  assumes "bloom_wf api w"
  shows "bloom_decode api (bloom_encode api w @ rest) = Inr (w, rest)"
proof -
  let ?ws = "bf_as_slice api (bl_filter w)"
  have lt: "length ?ws < 2 ^ 64" using assms by (simp add: bloom_wf_def isize_max_def)
  have "rd_times (length ?ws) read_u64_be (concat (map u64_be ?ws) @ rest) = Inr (?ws, rest)"
    by (rule u64_codec.rd_times_enc) (simp add: list_all_iff)
  then show ?thesis
    using assms by (simp add: codec_defs reader_simps unat_of_nat_64 [OF lt] Let_def bloom_wf_def)
qed

interpretation bloom_codec: codec "bloom_encode api" "bloom_decode api" "bloom_wf api" for api
  by unfold_locales (rule bloom_decode_encode)

text \<open>Inserting a list of keys, and that none of them is ever denied.\<close>

fun bloom_insert_all :: "('f, 'r) bloom_api \<Rightarrow> bytes list \<Rightarrow> 'f bloom_wrapper \<Rightarrow> 'f bloom_wrapper" where
  "bloom_insert_all api [] w = w"
| "bloom_insert_all api (k # ks) w = bloom_insert_all api ks (bloom_insert api k w)"

lemma bloom_insert_all_keeps:
  assumes "bloom_no_false_negatives api" "bloom_contains api w k"
  shows "bloom_contains api (bloom_insert_all api ks w) k"
  using assms(2)
  by (induction ks arbitrary: w)
    (use assms(1) in \<open>auto simp: bloom_no_false_negatives_def bloom_contains_def bloom_insert_def\<close>)

lemma bloom_insert_all_contains:
  assumes "bloom_no_false_negatives api" "k \<in> set ks"
  shows "bloom_contains api (bloom_insert_all api ks w) k"
  using assms(2)
proof (induction ks arbitrary: w)
  case (Cons k' ks)
  have "bloom_contains api (bloom_insert api k w) k"
    using assms(1) by (simp add: bloom_no_false_negatives_def bloom_contains_def bloom_insert_def)
  with Cons bloom_insert_all_keeps [OF assms(1)] show ?case by auto
qed simp

lemma bloom_insert_all_append:
  "bloom_insert_all api (ks @ ls) w = bloom_insert_all api ls (bloom_insert_all api ks w)"
  by (induction ks arbitrary: w) auto

lemma bl_seed_insert_all [simp]: "bl_seed (bloom_insert_all api ks w) = bl_seed w"
  by (induction ks arbitrary: w) (auto simp: bloom_insert_def)

end
