(* ===== verification/Table_Index.thy ===== *)
theory Table_Index
  imports Prelude
begin

text \<open>
  The index entries of \<open>src/storage/index.rs\<close> and the 64-byte footer of
  \<open>src/storage/footer.rs\<close> with its section readers.
\<close>

section \<open>Index entries\<close>

record index_entry =
  ie_key :: bytes
  ie_offset :: u64

definition IndexEntry_encode :: "index_entry \<Rightarrow> bytes" where
  [codec_defs]: "IndexEntry_encode e =
     u64_be (of_nat (length (ie_key e))) @ ie_key e @ u64_be (ie_offset e)"

definition IndexEntry_decode :: "index_entry reader" where
  [codec_defs]: "IndexEntry_decode =
     rd_bind read_u64_be (\<lambda>key_len.
     rd_bind (read_buf (unat key_len)) (\<lambda>key.
     rd_bind read_u64_be (\<lambda>offset.
     rd_return \<lparr>ie_key = key, ie_offset = offset\<rparr>)))"

record sparse_index_entry =
  si_first_key :: bytes
  si_block_offset :: u64
  si_last_key :: bytes
  si_record_count :: u32

definition SparseIndexEntry_encode :: "sparse_index_entry \<Rightarrow> bytes" where
  [codec_defs]: "SparseIndexEntry_encode e =
     u64_be (of_nat (length (si_first_key e))) @ si_first_key e
     @ u64_be (si_block_offset e)
     @ u64_be (of_nat (length (si_last_key e))) @ si_last_key e
     @ u32_be (si_record_count e)"

definition SparseIndexEntry_decode :: "sparse_index_entry reader" where
  [codec_defs]: "SparseIndexEntry_decode =
     rd_bind read_u64_be (\<lambda>first_key_len.
     rd_bind (read_buf (unat first_key_len)) (\<lambda>first_key.
     rd_bind read_u64_be (\<lambda>block_offset.
     rd_bind read_u64_be (\<lambda>last_key_len.
     rd_bind (read_buf (unat last_key_len)) (\<lambda>last_key.
     rd_bind read_u32_be (\<lambda>record_count.
     rd_return \<lparr>si_first_key = first_key, si_block_offset = block_offset,
       si_last_key = last_key, si_record_count = record_count\<rparr>))))))"

definition SparseIndexEntry_async_decode :: "sparse_index_entry reader" where
  "SparseIndexEntry_async_decode =
     rd_bind read_u64_be (\<lambda>first_key_len.
     rd_bind (read_buf (unat first_key_len)) (\<lambda>first_key.
     rd_bind read_u64_be (\<lambda>block_offset.
     rd_bind read_u64_be (\<lambda>last_key_len.
     rd_bind (read_buf (unat last_key_len)) (\<lambda>last_key.
     rd_bind read_u32_be (\<lambda>record_count.
     rd_return \<lparr>si_first_key = first_key, si_block_offset = block_offset,
       si_last_key = last_key, si_record_count = record_count\<rparr>))))))"

definition verify_index_checksum :: "(bytes \<Rightarrow> u32) \<Rightarrow> bytes \<Rightarrow> u32 \<Rightarrow> unit result" where
  "verify_index_checksum crc data expected =
     guard_err (crc data \<noteq> expected) (Corrupted ''Index block checksum mismatch'')"

definition ie_wf :: "index_entry \<Rightarrow> bool" where
  "ie_wf e \<longleftrightarrow> length (ie_key e) \<le> isize_max"

definition si_wf :: "sparse_index_entry \<Rightarrow> bool" where
  "si_wf e \<longleftrightarrow> length (si_first_key e) \<le> isize_max \<and> length (si_last_key e) \<le> isize_max"

lemma unat_of_nat_isize: "n \<le> isize_max \<Longrightarrow> unat (of_nat n :: u64) = n"
  by (rule unat_of_nat_64) (simp add: isize_max_def)

interpretation ie_codec: codec IndexEntry_encode IndexEntry_decode ie_wf
  by unfold_locales (simp add: codec_defs reader_simps ie_wf_def unat_of_nat_isize)

interpretation si_codec: codec SparseIndexEntry_encode SparseIndexEntry_decode si_wf
  by unfold_locales (simp add: codec_defs reader_simps si_wf_def unat_of_nat_isize)

lemma SparseIndexEntry_async_decode_eq: "SparseIndexEntry_async_decode = SparseIndexEntry_decode"
  by (simp add: SparseIndexEntry_async_decode_def SparseIndexEntry_decode_def)

section \<open>The footer\<close>

definition FOOTER_SIZE :: nat where "FOOTER_SIZE = 64"
definition MAGIC_NUMBER :: u32 where "MAGIC_NUMBER = 0xDB055555"

record sstable_footer =
  data_block_start :: u64
  data_block_end :: u64
  index_block_start :: u64
  index_block_end :: u64
  index_checksum :: u32
  bloom_block_start :: u64
  bloom_block_end :: u64
  bloom_checksum :: u32

definition Footer_encode :: "(bytes \<Rightarrow> u32) \<Rightarrow> sstable_footer \<Rightarrow> bytes" where
  [codec_defs]: "Footer_encode crc f =
     (let buf = u64_be (data_block_start f) @ u64_be (data_block_end f)
            @ u64_be (index_block_start f) @ u64_be (index_block_end f) @ u32_be (index_checksum f)
            @ u64_be (bloom_block_start f) @ u64_be (bloom_block_end f) @ u32_be (bloom_checksum f)
            @ u32_be MAGIC_NUMBER;
          footer_checksum = crc buf
      in buf @ u32_be footer_checksum)"

definition Footer_decode :: "(bytes \<Rightarrow> u32) \<Rightarrow> sstable_footer reader" where
  [codec_defs]: "Footer_decode crc =
     rd_bind (read_exact 8) (\<lambda>b1. rd_bind (read_exact 8) (\<lambda>b2.
     rd_bind (read_exact 8) (\<lambda>b3. rd_bind (read_exact 8) (\<lambda>b4.
     rd_bind (read_exact 4) (\<lambda>c1.
     rd_bind (read_exact 8) (\<lambda>b5. rd_bind (read_exact 8) (\<lambda>b6.
     rd_bind (read_exact 4) (\<lambda>c2.
     rd_bind (read_exact 4) (\<lambda>magic_buf.
     rd_bind (rd_lift (guard_err (u32_of_be magic_buf \<noteq> MAGIC_NUMBER)
                (Corrupted ''Invalid magic number''))) (\<lambda>_.
     rd_bind (read_exact 4) (\<lambda>checksum_buf.
     rd_bind (rd_lift (guard_err
                (u32_of_be checksum_buf \<noteq> crc (b1 @ b2 @ b3 @ b4 @ c1 @ b5 @ b6 @ c2 @ magic_buf))
                (Corrupted ''Footer checksum mismatch''))) (\<lambda>_.
     rd_return \<lparr>data_block_start = u64_of_be b1, data_block_end = u64_of_be b2,
       index_block_start = u64_of_be b3, index_block_end = u64_of_be b4,
       index_checksum = u32_of_be c1,
       bloom_block_start = u64_of_be b5, bloom_block_end = u64_of_be b6,
       bloom_checksum = u32_of_be c2\<rparr>))))))))))))"

text \<open>\<open>seek(SeekFrom::End(-64))\<close> fails on a file shorter than the footer.\<close>

definition seek_footer :: "bytes \<Rightarrow> bytes result" where
  "seek_footer file =
     (if length file < FOOTER_SIZE then Inl (Err (IO OtherIo))
      else Inr (drop (length file - FOOTER_SIZE) file))"

definition read_sstable_footer :: "(bytes \<Rightarrow> u32) \<Rightarrow> bytes \<Rightarrow> sstable_footer result" where
  [codec_defs]: "read_sstable_footer crc file =
     rbind (seek_footer file) (\<lambda>rest. map_sum id fst (Footer_decode crc rest))"

definition Footer_async_decode :: "(bytes \<Rightarrow> u32) \<Rightarrow> bytes \<Rightarrow> sstable_footer result" where
  [codec_defs]: "Footer_async_decode crc file =
     rbind (seek_footer file) (\<lambda>rest.
     rbind (read_exact FOOTER_SIZE rest) (\<lambda>(buf, _). map_sum id fst (Footer_decode crc buf)))"

definition verify_bloom_checksum :: "(bytes \<Rightarrow> u32) \<Rightarrow> bytes \<Rightarrow> u32 \<Rightarrow> unit result" where
  "verify_bloom_checksum crc data expected =
     guard_err (crc data \<noteq> expected) (Corrupted ''Bloom filter checksum mismatch'')"

definition read_sstable_sparse_index ::
  "(bytes \<Rightarrow> u32) \<Rightarrow> bytes \<Rightarrow> sstable_footer \<Rightarrow> sparse_index_entry list result" where
  [codec_defs]: "read_sstable_sparse_index crc file footer =
     (let index_size = index_block_end footer - index_block_start footer in
      rbind (read_buf (unat index_size) (drop (unat (index_block_start footer)) file))
        (\<lambda>(index_data, _).
      rbind (verify_index_checksum crc index_data (index_checksum footer)) (\<lambda>_.
      rbind (read_u64_be index_data) (\<lambda>(entry_count, cursor).
      map_sum id fst (rd_times (unat entry_count) SparseIndexEntry_decode cursor)))))"

definition read_sstable_index ::
  "(bytes \<Rightarrow> u32) \<Rightarrow> bytes \<Rightarrow> sstable_footer \<Rightarrow> (bytes \<rightharpoonup> u64) result" where
  [codec_defs]: "read_sstable_index crc file footer =
     (let index_size = index_block_end footer - index_block_start footer in
      rbind (read_buf (unat index_size) (drop (unat (index_block_start footer)) file))
        (\<lambda>(index_data, _).
      rbind (verify_index_checksum crc index_data (index_checksum footer)) (\<lambda>_.
      rbind (read_u64_be index_data) (\<lambda>(entry_count, cursor).
      rbind (rd_times (unat entry_count) IndexEntry_decode cursor) (\<lambda>(entries, _).
      Inr (foldl (\<lambda>index e. index(ie_key e \<mapsto> ie_offset e)) Map.empty entries))))))"

lemma length_Footer_encode [simp]: "length (Footer_encode crc f) = FOOTER_SIZE"
  by (simp add: Footer_encode_def FOOTER_SIZE_def Let_def)

lemma Footer_decode_encode: "Footer_decode crc (Footer_encode crc f @ rest) = Inr (f, rest)"
  by (simp add: codec_defs reader_simps Let_def)

interpretation footer_codec: codec "Footer_encode crc" "Footer_decode crc" "\<lambda>_. True" for crc
  by unfold_locales (rule Footer_decode_encode)

lemma seek_footer_append:
  "seek_footer (pre @ Footer_encode crc f) = Inr (Footer_encode crc f)"
  by (simp add: seek_footer_def)

lemma Footer_async_decode_append:
  "Footer_async_decode crc (pre @ Footer_encode crc f) = Inr f"
  using footer_codec.dec_enc_all [of crc f]
  by (simp add: Footer_async_decode_def seek_footer_append reader_simps)

lemma read_sstable_footer_append:
  "read_sstable_footer crc (pre @ Footer_encode crc f) = Inr f"
  using footer_codec.dec_enc_all [of crc f]
  by (simp add: read_sstable_footer_def seek_footer_append)

text \<open>A footer is only accepted with its own checksum and the magic number in place.\<close>

lemma Footer_decode_sound:
  assumes "Footer_decode crc bs = Inr (f, rest)"
  shows "bs = Footer_encode crc f @ rest"
  using assms
  by (auto simp: Footer_decode_def Footer_encode_def rd_bind_eq_Inr read_exact_Inr rd_lift_def
      rd_return_def guard_err_def Let_def bytes_of_u32_of_be bytes_of_u64_of_be u32_of_be_iff
      split: sum.splits if_splits)

section \<open>Properties\<close>

text \<open>
  C30: the footer decoder accepts exactly the encodings. It succeeds on a byte sequence if and
  only if the sequence starts with the encoding of the footer it returns, magic number and checksum
  included, and leaves what follows.
\<close>

theorem Footer_decode_exact:
  "Footer_decode crc bs = Inr (f, rest) \<longleftrightarrow> bs = Footer_encode crc f @ rest"
  using Footer_decode_sound [of crc bs f rest] by (auto simp: Footer_decode_encode)

end
