(* ===== verification/SSTables.thy ===== *)
theory SSTables
  imports Blocks Bloom_Filter Table_Index
begin

text \<open>
  \<open>src/storage/sstable_codec.rs\<close>: a table file is its blocks, a sparse index with one entry per
  block, the Bloom filter and the footer, in that order. Reading goes through the footer; a block
  is found by binary search in the sparse index.
\<close>

record 'f sstable_codec =
  sc_blocks :: "block list"
  sc_index :: "sparse_index_entry list"
  sc_bloom :: "'f bloom_wrapper"

definition SSTableCodec_new ::
  "block list \<Rightarrow> sparse_index_entry list \<Rightarrow> 'f bloom_wrapper \<Rightarrow> 'f sstable_codec" where
  "SSTableCodec_new blocks index bloom = \<lparr>sc_blocks = blocks, sc_index = index, sc_bloom = bloom\<rparr>"

section \<open>Serialization\<close>

text \<open>The loop over the blocks: one index entry per block, at the offset the output has reached.\<close>

fun serialize_blocks ::
  "(bytes \<Rightarrow> u32) \<Rightarrow> block list \<Rightarrow> bytes \<times> sparse_index_entry list \<Rightarrow>
   bytes \<times> sparse_index_entry list" where
  "serialize_blocks crc [] acc = acc"
| "serialize_blocks crc (b # bs) (out, indexes) =
     serialize_blocks crc bs
       (out @ Block_encode crc b,
        indexes @ [\<lparr>si_first_key = b_first_key b, si_block_offset = of_nat (length out),
                    si_last_key = b_last_key b, si_record_count = b_record_count b\<rparr>])"

definition encode_index :: "sparse_index_entry list \<Rightarrow> bytes" where
  "encode_index indexes =
     u64_be (of_nat (length indexes)) @ concat (map SparseIndexEntry_encode indexes)"

definition serialize ::
  "(bytes \<Rightarrow> u32) \<Rightarrow> ('f, 'r) bloom_api \<Rightarrow> 'f sstable_codec \<Rightarrow> bytes \<times> sstable_footer" where
  "serialize crc api t =
     (let (out, indexes) = serialize_blocks crc (sc_blocks t) ([], []);
          block_offset = of_nat (length out);
          index_block = encode_index indexes;
          out = out @ index_block;
          index_offset = of_nat (length out);
          bloom_block = bloom_encode api (sc_bloom t);
          out = out @ bloom_block;
          bloom_offset = of_nat (length out);
          footer = \<lparr>data_block_start = 0, data_block_end = block_offset,
                    index_block_start = block_offset, index_block_end = index_offset,
                    index_checksum = crc index_block,
                    bloom_block_start = index_offset, bloom_block_end = bloom_offset,
                    bloom_checksum = crc bloom_block\<rparr>
      in (out @ Footer_encode crc footer, footer))"

section \<open>Reading\<close>

definition deserialize_sections ::
  "(bytes \<Rightarrow> u32) \<Rightarrow> ('f, 'r) bloom_api \<Rightarrow> bytes \<Rightarrow>
   (sstable_footer \<times> sparse_index_entry list \<times> 'f bloom_wrapper) result" where
  "deserialize_sections crc api file =
     rbind (Footer_async_decode crc file) (\<lambda>footer.
     rbind (read_u64_be (drop (unat (data_block_end footer)) file)) (\<lambda>(index_len, rest).
     rbind (rd_times (unat index_len) SparseIndexEntry_async_decode rest) (\<lambda>(indexes, _).
     rbind (bloom_async_decode api (drop (unat (bloom_block_start footer)) file)) (\<lambda>(bloom, _).
       Inr (footer, indexes, bloom)))))"

definition deserialize ::
  "(bytes \<Rightarrow> u32) \<Rightarrow> ('f, 'r) bloom_api \<Rightarrow> bytes \<Rightarrow> 'f sstable_codec result" where
  "deserialize crc api file =
     rbind (deserialize_sections crc api file) (\<lambda>(footer, index, bloom).
       Inr \<lparr>sc_blocks = [], sc_index = index, sc_bloom = bloom\<rparr>)"

definition deserialize_footer :: "(bytes \<Rightarrow> u32) \<Rightarrow> bytes \<Rightarrow> sstable_footer result" where
  "deserialize_footer crc file = Footer_async_decode crc file"

definition entry_cmp :: "bytes \<Rightarrow> sparse_index_entry \<Rightarrow> ordering" where
  "entry_cmp key entry =
     (if key < si_first_key entry then Greater
      else if key > si_last_key entry then Less else Equal)"

definition index_position :: "sparse_index_entry list \<Rightarrow> bytes \<Rightarrow> nat result" where
  "index_position index key =
     (case binary_search_by (entry_cmp key) index of
        Found pos \<Rightarrow> Inr pos
      | Missing pos \<Rightarrow>
          (if pos = 0
           then Inl (Err (StorageError ''key is smaller than the first key in the index''))
           else Inr (pos - 1)))"

definition get_block ::
  "(bytes \<Rightarrow> u32) \<Rightarrow> bytes \<Rightarrow> sstable_footer \<Rightarrow> sparse_index_entry list \<Rightarrow> bytes \<Rightarrow>
   block result" where
  "get_block crc file footer index key =
     rbind (index_position index key) (\<lambda>pos.
       let start = si_block_offset (index ! pos);
           end_off = (if pos + 1 < length index then si_block_offset (index ! (pos + 1))
                   else data_block_end footer)
       in rbind (guard_err (end_off < start) (Corrupted ''invalid block range in sparse index'')) (\<lambda>_.
          map_sum id fst (Block_async_decode crc (drop (unat start) file))))"

fun get_blocks ::
  "(bytes \<Rightarrow> u32) \<Rightarrow> bytes \<Rightarrow> sstable_footer \<Rightarrow> sparse_index_entry list \<Rightarrow>
   sparse_index_entry list \<Rightarrow> block list result" where
  "get_blocks crc file footer index [] = Inr []"
| "get_blocks crc file footer index (entry # entries) =
     rbind (get_block crc file footer index (si_first_key entry)) (\<lambda>block.
     rbind (get_blocks crc file footer index entries) (\<lambda>blocks. Inr (block # blocks)))"

definition get_all_blocks ::
  "(bytes \<Rightarrow> u32) \<Rightarrow> bytes \<Rightarrow> sstable_footer \<Rightarrow> sparse_index_entry list \<Rightarrow> block list result" where
  "get_all_blocks crc file footer index = get_blocks crc file footer index index"

definition range_from_index :: "sparse_index_entry list \<Rightarrow> (bytes \<times> bytes) option" where
  "range_from_index index =
     (if index = [] then None
      else Some (si_first_key (hd index), si_last_key (last index)))"

text \<open>\<open>Vec::with_capacity(count)\<close> of 64-byte entries panics past \<open>isize::MAX\<close> bytes.\<close>

definition decode_sparse_index :: "bytes \<Rightarrow> sparse_index_entry list result" where
  "decode_sparse_index index_block =
     rbind (guard_err (length index_block < 8) (Corrupted ''Index block too small'')) (\<lambda>_.
     rbind (read_u64_be index_block) (\<lambda>(cnt, cursor).
       if isize_max < 64 * unat cnt then Inl (Panic ''capacity overflow'')
       else map_sum id fst (rd_times (unat cnt) SparseIndexEntry_decode cursor)))"

definition read_sstable_bloom ::
  "(bytes \<Rightarrow> u32) \<Rightarrow> ('f, 'r) bloom_api \<Rightarrow> bytes \<Rightarrow> sstable_footer \<Rightarrow> 'f bloom_wrapper result" where
  "read_sstable_bloom crc api file footer =
     (let bloom_size = bloom_block_end footer - bloom_block_start footer in
      rbind (read_buf (unat bloom_size) (drop (unat (bloom_block_start footer)) file))
        (\<lambda>(bloom_data, _).
      rbind (verify_bloom_checksum crc bloom_data (bloom_checksum footer)) (\<lambda>_.
      map_sum id fst (bloom_decode api bloom_data))))"

definition codec_next :: "'f sstable_codec \<Rightarrow> block option \<times> 'f sstable_codec" where
  "codec_next t =
     (if sc_blocks t = [] then (None, t)
      else (Some (hd (sc_blocks t)), t\<lparr>sc_blocks := tl (sc_blocks t)\<rparr>))"

section \<open>The index a table is written with\<close>

text \<open>The index entries of consecutive blocks, the first at offset \<open>off\<close>.\<close>

fun block_index :: "(bytes \<Rightarrow> u32) \<Rightarrow> nat \<Rightarrow> block list \<Rightarrow> sparse_index_entry list" where
  "block_index crc off [] = []"
| "block_index crc off (b # bs) =
     \<lparr>si_first_key = b_first_key b, si_block_offset = of_nat off,
      si_last_key = b_last_key b, si_record_count = b_record_count b\<rparr>
     # block_index crc (off + length (Block_encode crc b)) bs"

abbreviation blocks_bytes :: "(bytes \<Rightarrow> u32) \<Rightarrow> block list \<Rightarrow> bytes" where
  "blocks_bytes crc bs \<equiv> concat (map (Block_encode crc) bs)"

lemma serialize_blocks_eq:
  "serialize_blocks crc bs (out, indexes)
    = (out @ blocks_bytes crc bs, indexes @ block_index crc (length out) bs)"
  by (induction bs arbitrary: out indexes) simp_all

lemma length_block_index [simp]: "length (block_index crc off bs) = length bs"
  by (induction bs arbitrary: off) simp_all

lemma nth_block_index:
  "i < length bs \<Longrightarrow> block_index crc off bs ! i =
     \<lparr>si_first_key = b_first_key (bs ! i),
      si_block_offset = of_nat (off + length (blocks_bytes crc (take i bs))),
      si_last_key = b_last_key (bs ! i), si_record_count = b_record_count (bs ! i)\<rparr>"
proof (induction bs arbitrary: off i)
  case (Cons b bs)
  then show ?case by (cases i) (simp_all add: algebra_simps)
qed simp

text \<open>
  The blocks of a table: each well-formed, keys ascending through the whole table.
\<close>

definition table_records :: "block list \<Rightarrow> memtable_record list" where
  "table_records bs = concat (map block_records bs)"

definition blocks_ok :: "block list \<Rightarrow> bool" where
  "blocks_ok bs \<longleftrightarrow>
     (\<forall>b \<in> set bs. block_ok b) \<and> sorted_wrt (<) (map mr_key (table_records bs))"

lemma blocks_ok_append:
  "blocks_ok (bs @ cs) \<longleftrightarrow> blocks_ok bs \<and> blocks_ok cs
    \<and> (\<forall>r \<in> set (table_records bs). \<forall>s \<in> set (table_records cs). mr_key r < mr_key s)"
  by (auto simp: blocks_ok_def table_records_def sorted_wrt_append)

lemma block_ok_ends:
  assumes "block_ok b"
  obtains r s where "r \<in> set (block_records b)" "s \<in> set (block_records b)"
    "b_first_key b = mr_key r" "b_last_key b = mr_key s" "b_first_key b \<le> b_last_key b"
proof -
  from assms obtain rs where rs: "b_data b = Some rs" "rs \<noteq> []"
    "b_first_key b = mr_key (hd rs)" "b_last_key b = mr_key (last rs)"
    "sorted_wrt (<) (map mr_key rs)"
    by (rule block_okE)
  then show ?thesis
    using that [of "hd rs" "last rs"] sorted_hd_le_last [of rs mr_key]
    by (simp add: block_records_def)
qed

lemma block_ok_key_range:
  assumes "block_ok b" "r \<in> set (block_records b)"
  shows "b_first_key b \<le> mr_key r \<and> mr_key r \<le> b_last_key b"
proof -
  from assms(1) obtain rs where rs: "b_data b = Some rs" "rs \<noteq> []"
    "b_first_key b = mr_key (hd rs)" "b_last_key b = mr_key (last rs)"
    "sorted_wrt (<) (map mr_key rs)"
    by (rule block_okE)
  have le: "mr_key (hd rs) \<le> mr_key r" if "r \<in> set rs"
    using rs(2,5) that by (cases rs) auto
  have ge: "mr_key r \<le> mr_key (last rs)" if "r \<in> set rs"
    using rs(2,5) that by (cases rs rule: rev_cases) (auto simp: sorted_wrt_append)
  show ?thesis using le ge assms(2) rs by (simp add: block_records_def)
qed

lemma blocks_ok_nth_less:
  assumes "blocks_ok bs" "i < j" "j < length bs"
  shows "b_last_key (bs ! i) < b_first_key (bs ! j)"
proof -
  have split: "bs = take j bs @ bs ! j # drop (Suc j) bs"
    using assms(3) by (simp add: id_take_nth_drop)
  have "\<forall>r \<in> set (table_records (take j bs)).
      \<forall>s \<in> set (table_records (bs ! j # drop (Suc j) bs)). mr_key r < mr_key s"
    using assms(1) split blocks_ok_append by metis
  then have ok: "\<forall>r \<in> set (table_records (take j bs)). \<forall>s \<in> set (block_records (bs ! j)).
      mr_key r < mr_key s" "block_ok (bs ! j)"
    using assms(1,3) by (auto simp: table_records_def blocks_ok_def)
  have i: "bs ! i \<in> set (take j bs)" using assms by (auto simp: in_set_conv_nth)
  then have "block_ok (bs ! i)" using assms(1) by (auto simp: blocks_ok_def dest: in_set_takeD)
  then obtain r where "r \<in> set (block_records (bs ! i))" "b_last_key (bs ! i) = mr_key r"
    by (rule block_ok_ends)
  moreover obtain s where "s \<in> set (block_records (bs ! j))" "b_first_key (bs ! j) = mr_key s"
    using ok(2) by (rule block_ok_ends)
  ultimately show ?thesis using ok(1) i by (auto simp: table_records_def)
qed

text \<open>Binary search finds the block whose key range holds the key.\<close>

lemma index_position_block:
  assumes ok: "blocks_ok bs" and i: "i < length bs"
    and key: "b_first_key (bs ! i) \<le> key" "key \<le> b_last_key (bs ! i)"
  shows "index_position (block_index crc off bs) key = Inr i"
proof -
  have "binary_search_by (entry_cmp key) (block_index crc off bs) = Found i"
  proof (rule binary_search_by_found)
    show "i < length (block_index crc off bs)" using i by simp
    show "entry_cmp key (block_index crc off bs ! i) = Equal"
      using i key by (simp add: nth_block_index entry_cmp_def not_less)
  next
    fix j assume j: "j < i"
    have bj: "block_ok (bs ! j)" using ok i j by (simp add: blocks_ok_def)
    have "b_first_key (bs ! j) \<le> b_last_key (bs ! j)" by (rule block_ok_ends [OF bj])
    also have "\<dots> < b_first_key (bs ! i)" using blocks_ok_nth_less [OF ok j i] .
    finally show "entry_cmp key (block_index crc off bs ! j) \<noteq> Greater"
      using key i j by (simp add: nth_block_index entry_cmp_def)
  next
    fix j assume j: "i < j" "j < length (block_index crc off bs)"
    then have "b_last_key (bs ! i) < b_first_key (bs ! j)"
      using blocks_ok_nth_less [OF ok] by simp
    with key j show "entry_cmp key (block_index crc off bs ! j) = Greater"
      by (auto simp: nth_block_index entry_cmp_def)
  qed
  then show ?thesis by (simp add: index_position_def)
qed

section \<open>Reading back what was written\<close>

definition table_footer ::
  "(bytes \<Rightarrow> u32) \<Rightarrow> ('f, 'r) bloom_api \<Rightarrow> 'f sstable_codec \<Rightarrow> sstable_footer" where
  "table_footer crc api t = snd (serialize crc api t)"

definition table_file ::
  "(bytes \<Rightarrow> u32) \<Rightarrow> ('f, 'r) bloom_api \<Rightarrow> 'f sstable_codec \<Rightarrow> bytes" where
  "table_file crc api t = fst (serialize crc api t)"

definition table_index :: "(bytes \<Rightarrow> u32) \<Rightarrow> 'f sstable_codec \<Rightarrow> sparse_index_entry list" where
  "table_index crc t = block_index crc 0 (sc_blocks t)"

definition table_ok ::
  "(bytes \<Rightarrow> u32) \<Rightarrow> ('f, 'r) bloom_api \<Rightarrow> 'f sstable_codec \<Rightarrow> bool" where
  "table_ok crc api t \<longleftrightarrow>
     blocks_ok (sc_blocks t) \<and> bloom_wf api (sc_bloom t)
     \<and> length (table_file crc api t) \<le> isize_max"

lemma table_file_eq:
  "table_file crc api t = blocks_bytes crc (sc_blocks t) @ encode_index (table_index crc t)
     @ bloom_encode api (sc_bloom t) @ Footer_encode crc (table_footer crc api t)"
  by (simp add: table_file_def table_footer_def table_index_def serialize_def
      serialize_blocks_eq Let_def)

lemma table_footer_sel:
  "data_block_start (table_footer crc api t) = 0"
  "data_block_end (table_footer crc api t) = of_nat (length (blocks_bytes crc (sc_blocks t)))"
  "index_block_start (table_footer crc api t) = of_nat (length (blocks_bytes crc (sc_blocks t)))"
  "index_block_end (table_footer crc api t) = of_nat (length (blocks_bytes crc (sc_blocks t)
     @ encode_index (table_index crc t)))"
  "index_checksum (table_footer crc api t) = crc (encode_index (table_index crc t))"
  "bloom_block_start (table_footer crc api t) = of_nat (length (blocks_bytes crc (sc_blocks t)
     @ encode_index (table_index crc t)))"
  "bloom_block_end (table_footer crc api t) = of_nat (length (blocks_bytes crc (sc_blocks t)
     @ encode_index (table_index crc t) @ bloom_encode api (sc_bloom t)))"
  "bloom_checksum (table_footer crc api t) = crc (bloom_encode api (sc_bloom t))"
  by (simp_all add: table_footer_def table_index_def serialize_def serialize_blocks_eq Let_def)

lemma block_index_wf:
  assumes "\<forall>b \<in> set bs. block_ok b"
  shows "list_all si_wf (block_index crc off bs)"
  using assms
proof (induction bs arbitrary: off)
  case (Cons b bs)
  then have "block_ok b" by simp
  then obtain r s where rs: "r \<in> set (block_records b)" "s \<in> set (block_records b)"
    "b_first_key b = mr_key r" "b_last_key b = mr_key s"
    by (rule block_ok_ends)
  have "list_all mr_wf (block_records b)"
    using \<open>block_ok b\<close> by (auto elim!: block_okE simp: block_records_def intro: recs_len_mr_wf)
  then have "mr_wf r" "mr_wf s" using rs by (auto simp: list_all_iff)
  with Cons rs show ?case by (auto simp: si_wf_def mr_wf_def isize_max_def)
qed simp

lemma length_le_encode_index: "length idx \<le> length (encode_index idx)"
proof -
  have "length idx \<le> length (concat (map SparseIndexEntry_encode idx))"
    by (induction idx) (simp_all add: SparseIndexEntry_encode_def)
  then show ?thesis by (simp add: encode_index_def)
qed

lemma rd_times_index:
  assumes "list_all si_wf idx" "length idx < 2 ^ 64"
  shows "rbind (read_u64_be (encode_index idx @ rest)) (\<lambda>(n, bs).
      rd_times (unat n) SparseIndexEntry_async_decode bs) = Inr (idx, rest)"
  using si_codec.rd_times_enc [OF assms(1), of rest] assms(2)
  by (simp add: encode_index_def reader_simps unat_of_nat_64 SparseIndexEntry_async_decode_eq)

lemma deserialize_sections_file:
  assumes "table_ok crc api t"
  shows "deserialize_sections crc api (table_file crc api t)
    = Inr (table_footer crc api t, table_index crc t, sc_bloom t)"
proof -
  let ?B = "blocks_bytes crc (sc_blocks t)" and ?I = "encode_index (table_index crc t)"
  let ?F = "bloom_encode api (sc_bloom t)" and ?f = "table_footer crc api t"
  have len: "length (?B @ ?I @ ?F) < 2 ^ 64"
    using assms by (simp add: table_ok_def table_file_eq isize_max_def)
  have wf: "list_all si_wf (table_index crc t)"
    using assms by (auto simp: table_index_def table_ok_def blocks_ok_def intro: block_index_wf)
  have cnt: "length (table_index crc t) < 2 ^ 64"
    using len length_le_encode_index [of "table_index crc t"] by simp
  have foot: "Footer_async_decode crc (table_file crc api t) = Inr ?f"
    using Footer_async_decode_append [of crc "?B @ ?I @ ?F" ?f] by (simp add: table_file_eq)
  have idx: "drop (unat (data_block_end ?f)) (table_file crc api t)
      = ?I @ ?F @ Footer_encode crc ?f"
    using len by (simp add: table_footer_sel table_file_eq unat_of_nat_64)
  have "unat (bloom_block_start ?f) = length (?B @ ?I)"
    unfolding table_footer_sel by (rule unat_of_nat_64) (use len in simp)
  then have blm: "drop (unat (bloom_block_start ?f)) (table_file crc api t)
      = ?F @ Footer_encode crc ?f"
    by (simp add: table_file_eq)
  have bloom: "bloom_async_decode api (?F @ Footer_encode crc ?f)
      = Inr (sc_bloom t, Footer_encode crc ?f)"
    using assms by (simp add: bloom_async_decode_eq bloom_decode_encode table_ok_def)
  show ?thesis
    using rd_times_index [OF wf cnt, of "?F @ Footer_encode crc ?f"] bloom
    by (auto simp: deserialize_sections_def foot idx blm rbind_eq_Inr split: prod.splits)
qed

lemma get_block_file:
  assumes ok: "table_ok crc api t" and i: "i < length (sc_blocks t)"
    and key: "b_first_key (sc_blocks t ! i) \<le> key" "key \<le> b_last_key (sc_blocks t ! i)"
  shows "get_block crc (table_file crc api t) (table_footer crc api t) (table_index crc t) key
    = Inr ((sc_blocks t ! i)\<lparr>b_offset := 0\<rparr>)"
proof -
  let ?bs = "sc_blocks t" and ?pre = "\<lambda>j. blocks_bytes crc (take j (sc_blocks t))"
  have bs: "blocks_ok ?bs" using ok by (simp add: table_ok_def)
  have blk: "block_ok (?bs ! i)" using bs i by (simp add: blocks_ok_def)
  have split: "?bs = take i ?bs @ ?bs ! i # drop (Suc i) ?bs"
    using i by (simp add: id_take_nth_drop)
  obtain rest where bytes: "table_file crc api t = ?pre i @ Block_encode crc (?bs ! i) @ rest"
  proof -
    have "blocks_bytes crc ?bs
        = ?pre i @ Block_encode crc (?bs ! i) @ blocks_bytes crc (drop (Suc i) ?bs)"
      by (subst split) simp
    then show ?thesis using that by (simp add: table_file_eq)
  qed
  have mono: "length (?pre i) \<le> length (?pre j)" if "i \<le> j" for j
    using that by (auto simp: le_iff_add take_add)
  have lt: "length (?pre j) < 2 ^ 64" for j
  proof -
    have "length (?pre j) \<le> length (?pre j @ blocks_bytes crc (drop j ?bs))" by simp
    also have "?pre j @ blocks_bytes crc (drop j ?bs) = blocks_bytes crc ?bs"
      by (metis append_take_drop_id concat_append map_append)
    finally show ?thesis using ok by (simp add: table_ok_def table_file_eq isize_max_def)
  qed
  have pos: "index_position (table_index crc t) key = Inr i"
    unfolding table_index_def using bs i key by (rule index_position_block)
  have start: "si_block_offset (table_index crc t ! i) = of_nat (length (?pre i))"
    using i by (simp add: table_index_def nth_block_index)
  have ends: "(if Suc i < length (table_index crc t)
      then si_block_offset (table_index crc t ! Suc i)
      else data_block_end (table_footer crc api t))
      = of_nat (length (?pre (min (Suc i) (length ?bs))))"
    using i by (simp add: table_index_def nth_block_index table_footer_sel min_def)
  have "\<not> (of_nat (length (?pre (min (Suc i) (length ?bs)))) :: u64) < of_nat (length (?pre i))"
    using mono [of "min (Suc i) (length ?bs)"] i lt
    by (simp add: word_less_nat_alt unat_of_nat_64)
  then show ?thesis
    using blk lt [of i]
    by (simp add: get_block_def pos start Let_def bytes unat_of_nat_64
        Block_async_decode_def Block_read_encode ends cong: if_cong split del: if_split)
qed

lemma get_blocks_file:
  assumes ok: "table_ok crc api t"
  shows "get_all_blocks crc (table_file crc api t) (table_footer crc api t) (table_index crc t)
    = Inr (map (\<lambda>b. b\<lparr>b_offset := 0\<rparr>) (sc_blocks t))"
proof -
  let ?get = "get_blocks crc (table_file crc api t) (table_footer crc api t) (table_index crc t)"
  have "?get (drop j (table_index crc t)) = Inr (map (\<lambda>b. b\<lparr>b_offset := 0\<rparr>) (drop j (sc_blocks t)))"
    if "j \<le> length (sc_blocks t)" for j
    using that
  proof (induction j rule: inc_induct)
    case base
    show ?case by (simp add: table_index_def)
  next
    case (step j)
    have blk: "block_ok (sc_blocks t ! j)"
      using ok step by (simp add: table_ok_def blocks_ok_def)
    have le: "b_first_key (sc_blocks t ! j) \<le> b_last_key (sc_blocks t ! j)"
      by (rule block_ok_ends [OF blk])
    have "drop j (table_index crc t) = table_index crc t ! j # drop (Suc j) (table_index crc t)"
      using step by (simp add: Cons_nth_drop_Suc table_index_def)
    moreover have "drop j (sc_blocks t) = sc_blocks t ! j # drop (Suc j) (sc_blocks t)"
      using step by (simp add: Cons_nth_drop_Suc)
    ultimately show ?case
      using step get_block_file [OF ok step(2) order_refl le]
      by (simp add: table_index_def nth_block_index)
  qed
  from this [of 0] show ?thesis by (simp add: get_all_blocks_def)
qed

section \<open>Properties\<close>

lemma block_records_offset [simp]: "block_records (b\<lparr>b_offset := off\<rparr>) = block_records b"
  by (simp add: block_records_def)

lemma blocks_ok_packed:
  "sorted_wrt (<) (map mr_key (concat (map block_records bs))) \<Longrightarrow> \<forall>b \<in> set bs. block_ok b \<Longrightarrow>
     blocks_ok bs"
  by (simp add: blocks_ok_def table_records_def)

text \<open>
  C16: a table file reads back as it was written. Records with ascending keys are packed into
  blocks and serialized with a filter; opening the file returns its footer, its sparse index and the
  filter, and reading every block through the index returns the same records in the same order.
\<close>

theorem sstable_roundtrip:
  assumes "sorted_wrt (<) (map mr_key rs)" and "\<forall>r \<in> set rs. rec_len r < 2 ^ 32"
    and "5 * recs_len rs < 2 ^ 64" and "map mr_key rs \<noteq> [[]]"
    and "bloom_wf api bloom"
    and "pack_blocks crc rs = Inr blocks"
    and "serialize crc api (SSTableCodec_new blocks index bloom) = (bytes, footer)"
    and "length bytes \<le> isize_max"
  shows "\<exists>idx bs. deserialize_sections crc api bytes = Inr (footer, idx, bloom)
     \<and> get_all_blocks crc bytes footer idx = Inr bs \<and> concat (map block_records bs) = rs"
proof -
  let ?t = "SSTableCodec_new blocks index bloom"
  obtain "concat (map block_records blocks) = rs" and "\<forall>b \<in> set blocks. block_ok b"
    using pack_blocks_ok [OF assms(1-4), of crc] assms(6) by auto
  moreover from this have "blocks_ok blocks"
    using assms(1) by (intro blocks_ok_packed) auto
  moreover have "bytes = table_file crc api ?t" "footer = table_footer crc api ?t"
    using assms(7) by (simp_all add: table_file_def table_footer_def)
  ultimately have "table_ok crc api ?t" "table_file crc api ?t = bytes"
    "table_footer crc api ?t = footer" "sc_blocks ?t = blocks"
    using assms(5,8) by (simp_all add: table_ok_def SSTableCodec_new_def)
  then show ?thesis
    using deserialize_sections_file [of crc api ?t] get_blocks_file [of crc api ?t]
      \<open>concat (map block_records blocks) = rs\<close>
    by (simp add: SSTableCodec_new_def comp_def)
qed

text \<open>
  C18: a point lookup reads the right block. For every record of a table the block that
  \<open>get_block\<close> finds by binary search for the record's key holds that record, and no other record
  with the same key.
\<close>

theorem get_block_finds_record:
  assumes "table_ok crc api t" and "r \<in> set (table_records (sc_blocks t))"
  shows "\<exists>b. get_block crc (table_file crc api t) (table_footer crc api t) (table_index crc t) (mr_key r)
             = Inr b
     \<and> filter (\<lambda>s. mr_key s = mr_key r) (block_records b) = [r]"
proof -
  obtain b where "b \<in> set (sc_blocks t)" "r \<in> set (block_records b)"
    using assms(2) by (auto simp: table_records_def)
  then obtain i where i: "i < length (sc_blocks t)" "r \<in> set (block_records (sc_blocks t ! i))"
    by (auto simp: in_set_conv_nth [of b])
  have ok: "block_ok (sc_blocks t ! i)" using assms(1) i(1) by (simp add: table_ok_def blocks_ok_def)
  then have dist: "distinct (map mr_key (block_records (sc_blocks t ! i)))"
    by (auto elim!: block_okE simp: block_records_def strict_sorted_iff)
  have "filter (\<lambda>s. mr_key s = mr_key r) rs = [r]"
    if "distinct (map mr_key rs)" "r \<in> set rs" for rs
    using that by (induction rs) (auto simp: filter_empty_conv image_iff)
  with dist i(2) get_block_file [OF assms(1) i(1)] block_ok_key_range [OF ok i(2)] show ?thesis
    by simp
qed

text \<open>
  C28: a key that was inserted into a table's filter is never denied after the filter went
  through the file.
\<close>

theorem bloom_survives_table:
  assumes "bloom_no_false_negatives api" and "table_ok crc api t"
    and "sc_bloom t = bloom_insert_all api ks w" and "k \<in> set ks"
  shows "\<exists>footer idx bloom. deserialize_sections crc api (table_file crc api t) = Inr (footer, idx, bloom)
     \<and> bloom_contains api bloom k"
  using deserialize_sections_file [OF assms(2)] bloom_insert_all_contains [OF assms(1,4), of w] assms(3)
  by simp

subsection \<open>A concrete filter and table\<close>

text \<open>A one-word filter that hashes a key to its length, which meets the crate's contract.\<close>

definition word_bloom :: "(u64, f64) bloom_api" where
  "word_bloom =
     \<lparr>bf_with_num_bits = (\<lambda>_ _ _. 0), bf_with_false_pos = (\<lambda>_ _ _. 0),
      bf_from_vec = (\<lambda>ws _ _. hd ws),
      bf_insert = (\<lambda>k f. set_bit (length k mod 64) f),
      bf_contains = (\<lambda>f k. bit f (length k mod 64)), bf_clear = (\<lambda>_. 0),
      bf_num_bits = (\<lambda>_. 64), bf_num_hashes = (\<lambda>_. 1), bf_as_slice = (\<lambda>f. [f])\<rparr>"

lemma word_bloom_ok: "bloom_no_false_negatives word_bloom"
  by (auto simp: bloom_no_false_negatives_def word_bloom_def bit_set_bit_iff)

lemma word_bloom_wf: "bloom_wf word_bloom w"
  by (simp add: bloom_wf_def word_bloom_def isize_max_def)

lemma word_bloom_shape: "bloom_shape word_bloom w"
  by (simp add: bloom_shape_def word_bloom_def usize_max_def)

definition sample_block :: block where
  "sample_block =
     \<lparr>b_offset = 0, b_first_key = [1], b_last_key = [2], b_record_count = 2, b_data_size = 38,
      b_data = Some [sample_record 1, sample_record 2]\<rparr>"

definition sample_table :: "u64 sstable_codec" where
  "sample_table =
     SSTableCodec_new [sample_block] [] (bloom_insert_all word_bloom [[1], [2]] \<lparr>bl_filter = 0, bl_seed = 0\<rparr>)"

lemma sample_pack: "pack_blocks (\<lambda>_. 0) [sample_record 1, sample_record 2] = Inr [sample_block]"
  by (simp add: pack_blocks_def roll_record_def add_record_def BlockBuilder_new_def build_def
      unwrap_or_default_def Let_def sample_record_def record_length_def SSTABLE_BLOCK_SIZE_def
      sample_block_def)

lemma sample_block_ok: "block_ok sample_block"
  by (simp add: block_ok_def sample_block_def sample_record_def rec_len_def record_length_def)

lemma sample_table_length: "length (table_file (\<lambda>_. 0) word_bloom sample_table) \<le> isize_max"
  by (simp add: table_file_eq sample_table_def SSTableCodec_new_def table_index_def encode_index_def
      SparseIndexEntry_encode_def Block_encode_def sample_block_def block_header_def Let_def
      bloom_encode_def length_mr_encode record_length_def sample_record_def word_bloom_def
      FOOTER_SIZE_def isize_max_def)

lemma sample_table_ok: "table_ok (\<lambda>_. 0) word_bloom sample_table"
  using sample_table_length sample_block_ok word_bloom_wf
  by (simp add: table_ok_def blocks_ok_def table_records_def sample_table_def SSTableCodec_new_def
      sample_block_def block_records_def sample_record_def)

theorem sstable_roundtrip_witness:
  "\<exists>bytes footer idx bs.
     serialize (\<lambda>_. 0) word_bloom sample_table = (bytes, footer)
     \<and> deserialize_sections (\<lambda>_. 0) word_bloom bytes = Inr (footer, idx, sc_bloom sample_table)
     \<and> get_all_blocks (\<lambda>_. 0) bytes footer idx = Inr bs
     \<and> concat (map block_records bs) = [sample_record 1, sample_record 2]"
proof -
  obtain bytes footer where ser: "serialize (\<lambda>_. 0) word_bloom sample_table = (bytes, footer)"
    by (cases "serialize (\<lambda>_. 0) word_bloom sample_table")
  then have "length bytes \<le> isize_max" using sample_table_length by (simp add: table_file_def)
  with ser sstable_roundtrip [of "[sample_record 1, sample_record 2]" word_bloom _ "\<lambda>_. 0",
      OF _ _ _ _ word_bloom_wf sample_pack]
  show ?thesis
    unfolding sample_table_def
    by (fastforce simp: sample_record_def rec_len_def record_length_def SSTableCodec_new_def)
qed

theorem get_block_finds_record_witness:
  "\<exists>b. get_block (\<lambda>_. 0) (table_file (\<lambda>_. 0) word_bloom sample_table)
         (table_footer (\<lambda>_. 0) word_bloom sample_table) (table_index (\<lambda>_. 0) sample_table) [2] = Inr b
     \<and> filter (\<lambda>s. mr_key s = [2]) (block_records b) = [sample_record 2]"
  using get_block_finds_record [OF sample_table_ok, of "sample_record 2"]
  by (simp add: sample_table_def SSTableCodec_new_def table_records_def sample_block_def
      block_records_def sample_record_def)

theorem bloom_survives_table_witness:
  "\<exists>footer idx bloom. deserialize_sections (\<lambda>_. 0) word_bloom (table_file (\<lambda>_. 0) word_bloom sample_table)
       = Inr (footer, idx, bloom) \<and> bloom_contains word_bloom bloom [2]"
  using bloom_survives_table [OF word_bloom_ok sample_table_ok, of "[[1], [2]]" _ "[2]"]
  by (simp add: sample_table_def SSTableCodec_new_def)

end
