(* ===== verification/Lru_Cache.thy ===== *)
theory Lru_Cache
  imports Prelude
begin

text \<open>
  \<open>LruFileCache\<close> of \<open>src/storage/manifest_codec.rs\<close>: the cache of open table files. A handle is
  opaque (type \<open>'h\<close>); opening a file is an operation of the file system, the argument \<open>open_file\<close>.
  \<open>lru_order\<close> runs from the least to the most recently used path.
\<close>

record 'h lru_cache =
  lru_handles :: "bytes \<rightharpoonup> 'h"
  lru_order :: "bytes list"
  lru_capacity :: nat

definition DEFAULT_FILE_CACHE_CAPACITY :: nat where "DEFAULT_FILE_CACHE_CAPACITY = 64"

definition lru_new :: "nat \<Rightarrow> 'h lru_cache" where
  "lru_new cap = \<lparr>lru_handles = Map.empty, lru_order = [], lru_capacity = cap\<rparr>"

definition lru_touch :: "bytes \<Rightarrow> 'h lru_cache \<Rightarrow> 'h lru_cache" where
  "lru_touch path c = c\<lparr>lru_order := filter (\<lambda>p. p \<noteq> path) (lru_order c) @ [path]\<rparr>"

definition lru_evict_oldest :: "'h lru_cache \<Rightarrow> 'h lru_cache" where
  "lru_evict_oldest c =
     (case lru_order c of
        [] \<Rightarrow> c
      | oldest # order \<Rightarrow>
          c\<lparr>lru_order := order, lru_handles := (lru_handles c)(oldest := None)\<rparr>)"

definition lru_len :: "'h lru_cache \<Rightarrow> nat" where
  "lru_len c = card (dom (lru_handles c))"

definition lru_is_empty :: "'h lru_cache \<Rightarrow> bool" where
  "lru_is_empty c \<longleftrightarrow> lru_len c = 0"

definition get_or_open ::
  "(bytes \<Rightarrow> 'h result) \<Rightarrow> bytes \<Rightarrow> 'h lru_cache \<Rightarrow> 'h result \<times> 'h lru_cache" where
  "get_or_open open_file path c =
     (case lru_handles c path of
        Some h \<Rightarrow> (Inr h, lru_touch path c)
      | None \<Rightarrow>
          (case open_file path of
             Inl e \<Rightarrow> (Inl e, c)
           | Inr h \<Rightarrow>
               let c' = (if lru_capacity c \<le> lru_len c then lru_evict_oldest c else c)
               in (Inr h, c'\<lparr>lru_handles := (lru_handles c')(path \<mapsto> h),
                            lru_order := lru_order c' @ [path]\<rparr>)))"

definition lru_remove :: "bytes \<Rightarrow> 'h lru_cache \<Rightarrow> 'h lru_cache" where
  "lru_remove path c =
     c\<lparr>lru_handles := (lru_handles c)(path := None),
       lru_order := filter (\<lambda>p. p \<noteq> path) (lru_order c)\<rparr>"

definition lru_clear :: "'h lru_cache \<Rightarrow> 'h lru_cache" where
  "lru_clear c = c\<lparr>lru_handles := Map.empty, lru_order := []\<rparr>"

text \<open>The two fields agree, no path is listed twice, and the capacity is respected.\<close>

definition lru_inv :: "'h lru_cache \<Rightarrow> bool" where
  "lru_inv c \<longleftrightarrow>
     distinct (lru_order c) \<and> set (lru_order c) = dom (lru_handles c)
     \<and> length (lru_order c) \<le> lru_capacity c"

lemma lru_len_order: "lru_inv c \<Longrightarrow> lru_len c = length (lru_order c)"
  by (metis lru_inv_def lru_len_def distinct_card)

lemma lru_inv_new: "lru_inv (lru_new cap)"
  by (simp add: lru_inv_def lru_new_def)

lemma length_filter_one:
  "distinct xs \<Longrightarrow> x \<in> set xs \<Longrightarrow> Suc (length (filter (\<lambda>y. y \<noteq> x) xs)) = length xs"
proof (induction xs)
  case (Cons y ys)
  have "x \<notin> set ys \<Longrightarrow> filter (\<lambda>z. z \<noteq> x) ys = ys" by (rule filter_True) auto
  with Cons show ?case by auto
qed simp

lemma lru_inv_touch:
  assumes "lru_inv c" and "lru_handles c path \<noteq> None"
  shows "lru_inv (lru_touch path c)"
proof -
  have "path \<in> set (lru_order c)" using assms by (auto simp: lru_inv_def)
  with assms show ?thesis
    using length_filter_one [of "lru_order c" path]
    by (auto simp: lru_inv_def lru_touch_def)
qed

lemma lru_inv_remove: "lru_inv c \<Longrightarrow> lru_inv (lru_remove path c)"
  by (auto simp: lru_inv_def lru_remove_def intro: order_trans [OF length_filter_le])

lemma lru_inv_clear: "lru_inv (lru_clear c)"
  by (simp add: lru_inv_def lru_clear_def)

lemma lru_inv_evict: "lru_inv c \<Longrightarrow> lru_inv (lru_evict_oldest c)"
  by (auto simp: lru_inv_def lru_evict_oldest_def split: list.splits)

lemma lru_evict_oldest_order: "lru_order (lru_evict_oldest c) = tl (lru_order c)"
  by (simp add: lru_evict_oldest_def split: list.splits)

lemma lru_evict_oldest_frame:
  "lru_capacity (lru_evict_oldest c) = lru_capacity c"
  "lru_handles c p = None \<Longrightarrow> lru_handles (lru_evict_oldest c) p = None"
  by (simp_all add: lru_evict_oldest_def split: list.splits)

text \<open>Room for one more: what \<open>get_or_open\<close> does before it inserts.\<close>

definition lru_make_room :: "'h lru_cache \<Rightarrow> 'h lru_cache" where
  "lru_make_room c = (if lru_capacity c \<le> lru_len c then lru_evict_oldest c else c)"

lemma lru_make_room_inv:
  assumes "lru_inv c" and "0 < lru_capacity c"
  shows "lru_inv (lru_make_room c)"
    and "length (lru_order (lru_make_room c)) < lru_capacity (lru_make_room c)"
    and "lru_capacity (lru_make_room c) = lru_capacity c"
proof -
  have "length (lru_order c) \<le> lru_capacity c" using assms by (simp add: lru_inv_def)
  then show "lru_inv (lru_make_room c)"
    and "length (lru_order (lru_make_room c)) < lru_capacity (lru_make_room c)"
    and "lru_capacity (lru_make_room c) = lru_capacity c"
    using assms lru_len_order [OF assms(1)]
    by (auto simp: lru_make_room_def lru_inv_evict lru_evict_oldest_order lru_evict_oldest_frame)
qed

lemma lru_make_room_None:
  "lru_handles c p = None \<Longrightarrow> lru_handles (lru_make_room c) p = None"
  by (simp add: lru_make_room_def lru_evict_oldest_frame)

lemma lru_inv_insert:
  assumes "lru_inv c" and "length (lru_order c) < lru_capacity c" and "lru_handles c p = None"
  shows "lru_inv (c\<lparr>lru_handles := (lru_handles c)(p \<mapsto> h), lru_order := lru_order c @ [p]\<rparr>)"
  using assms by (auto simp: lru_inv_def dom_def)

lemma lru_inv_get_or_open:
  assumes "lru_inv c" and "0 < lru_capacity c"
  shows "lru_inv (snd (get_or_open open_file path c))"
proof (cases "lru_handles c path")
  case (Some h)
  with assms show ?thesis by (simp add: get_or_open_def lru_inv_touch)
next
  case None
  show ?thesis
    using assms None lru_make_room_inv [OF assms] lru_make_room_None [OF None]
      lru_inv_insert [of "lru_make_room c" path]
    by (cases "open_file path") (simp_all add: get_or_open_def Let_def lru_make_room_def)
qed

end
