(* ===== verification/Manifest.thy ===== *)
theory Manifest
  imports Manifest_Codec Lru_Cache
begin

text \<open>
  \<open>ManifestManager\<close> of \<open>src/storage/manifest_codec.rs\<close>. A manager is the contents of the
  manifest file, the state in memory and the cache of table handles. The mutex around the state
  makes each operation one step, so an operation is a function from a manager to its result and the
  manager after it. Its I/O argument says what the file system did with the append: all of the
  entry is durable (\<open>AppendOk\<close>), or the append failed after some number of its bytes had reached
  the file (\<open>AppendFail\<close>).
\<close>

record manifest_snapshot =
  sn_version :: u32
  sn_next_file_id :: u64
  sn_active_wal_segment :: u64
  sn_recovery_checkpoint :: "recovery_checkpoint option"
  sn_levels :: "(u32, sstable_meta list) btree_map"

definition snapshot_levels :: "levels \<Rightarrow> (u32, sstable_meta list) btree_map" where
  "snapshot_levels ls = map (\<lambda>(level, files). (level, bt_values files)) ls"

definition snapshot_from_state :: "manifest_state \<Rightarrow> manifest_snapshot" where
  "snapshot_from_state st =
     \<lparr>sn_version = ms_version st, sn_next_file_id = ms_next_file_id st,
      sn_active_wal_segment = ms_active_wal_segment st,
      sn_recovery_checkpoint = ms_recovery_checkpoint st,
      sn_levels = snapshot_levels (ms_levels st)\<rparr>"

record 'h manifest_manager =
  mm_file :: bytes
  mm_state :: manifest_state
  mm_cache :: "'h lru_cache"

datatype append_io = AppendOk | AppendFail nat

definition append_manifest_entry :: "append_io \<Rightarrow> bytes \<Rightarrow> bytes \<Rightarrow> unit result \<times> bytes" where
  "append_manifest_entry io entry manifest =
     (case io of
        AppendOk \<Rightarrow> (Inr (), manifest @ entry)
      | AppendFail n \<Rightarrow> (Inl (Err (IO OtherIo)), manifest @ take n entry))"

datatype file_read = ReadOk bytes | ReadNotFound | ReadFailed

definition load_or_create ::
  "(bytes \<Rightarrow> u32) \<Rightarrow> file_read \<Rightarrow> 'h manifest_manager result" where
  "load_or_create crc rd =
     rbind (case rd of ReadOk content \<Rightarrow> Inr content
            | ReadNotFound \<Rightarrow> Inr []
            | ReadFailed \<Rightarrow> Inl (Err (IO OtherIo))) (\<lambda>bytes.
     rbind (replay_manifest crc bytes) (\<lambda>st.
     Inr \<lparr>mm_file = bytes, mm_state = st,
          mm_cache = lru_new DEFAULT_FILE_CACHE_CAPACITY\<rparr>))"

definition read_existing_snapshot ::
  "(bytes \<Rightarrow> u32) \<Rightarrow> bool \<Rightarrow> file_read \<Rightarrow> manifest_snapshot result" where
  "read_existing_snapshot crc is_file rd =
     (case rd of
        ReadOk bytes \<Rightarrow>
          if \<not> is_file then Inl (Err (Corrupted ''manifest is not a regular file''))
          else rbind (replay_manifest crc bytes) (\<lambda>st. Inr (snapshot_from_state st))
      | _ \<Rightarrow> Inl (Err (IO OtherIo)))"

definition allocate_file_id :: "'h manifest_manager \<Rightarrow> u64 result \<times> 'h manifest_manager" where
  "allocate_file_id m =
     (let file_id = ms_next_file_id (mm_state m)
      in case checked_add file_id 1 of
           None \<Rightarrow> (Inl (Err (StorageError ''manifest file id overflow'')), m)
         | Some n \<Rightarrow> (Inr file_id, m\<lparr>mm_state := (mm_state m)\<lparr>ms_next_file_id := n\<rparr>\<rparr>))"

text \<open>
  The common shape of the durable operations: encode the entry, append it, and only after a
  successful append update the state in memory.
\<close>

definition append_then ::
  "append_io \<Rightarrow> bytes result \<Rightarrow> 'h manifest_manager
   \<Rightarrow> ('h manifest_manager \<Rightarrow> unit result \<times> 'h manifest_manager)
   \<Rightarrow> unit result \<times> 'h manifest_manager" where
  "append_then io entry m k =
     (case entry of
        Inl e \<Rightarrow> (Inl e, m)
      | Inr bytes \<Rightarrow>
          (case append_manifest_entry io bytes (mm_file m) of
             (Inl e, f) \<Rightarrow> (Inl e, m\<lparr>mm_file := f\<rparr>)
           | (Inr _, f) \<Rightarrow> k (m\<lparr>mm_file := f\<rparr>)))"

definition register_apply ::
  "sstable_meta \<Rightarrow> 'h manifest_manager \<Rightarrow> unit result \<times> 'h manifest_manager" where
  "register_apply meta m =
     (let st = (mm_state m)\<lparr>ms_levels := levels_insert meta (ms_levels (mm_state m))\<rparr>
      in if ms_next_file_id st \<le> sm_file_id meta then
           (case checked_add (sm_file_id meta) 1 of
              None \<Rightarrow> (Inl (Err (StorageError ''manifest file id overflow'')), m\<lparr>mm_state := st\<rparr>)
            | Some n \<Rightarrow> (Inr (), m\<lparr>mm_state := st\<lparr>ms_next_file_id := n\<rparr>\<rparr>))
         else (Inr (), m\<lparr>mm_state := st\<rparr>))"

definition register_sstable ::
  "(bytes \<Rightarrow> u32) \<Rightarrow> append_io \<Rightarrow> sstable_meta \<Rightarrow> 'h manifest_manager
   \<Rightarrow> unit result \<times> 'h manifest_manager" where
  "register_sstable crc io meta m =
     append_then io (rbind (encode_add_payload meta) (encode_entry crc ENTRY_KIND_ADD)) m
       (register_apply meta)"

fun push_outputs :: "bytes \<Rightarrow> sstable_meta list \<Rightarrow> bytes result" where
  "push_outputs payload [] = Inr payload"
| "push_outputs payload (meta # metas) =
     rbind (encode_add_payload meta) (\<lambda>b.
     rbind (push_bytes payload b) (\<lambda>payload. push_outputs payload metas))"

text \<open>The encoding half of \<open>publish_compaction\<close>, then the operation.\<close>

definition compaction_entry ::
  "(bytes \<Rightarrow> u32) \<Rightarrow> (u32 \<times> u64) list \<Rightarrow> sstable_meta list \<Rightarrow> bytes result" where
  "compaction_entry crc removals outputs =
     (if length outputs \<le> 1 then
        rbind (encode_compaction_payload removals
                 (case outputs of [] \<Rightarrow> None | meta # _ \<Rightarrow> Some meta))
          (encode_entry crc ENTRY_KIND_COMPACTION)
      else
        rbind (encode_compaction_payload removals None) (\<lambda>payload.
        rbind (guard_err (2 ^ 32 \<le> length outputs)
                 (StorageError ''too many compaction outputs'')) (\<lambda>_.
        rbind (push_outputs (payload @ u32_be (of_nat (length outputs))) outputs)
          (encode_entry crc ENTRY_KIND_COMPACTION_OUTPUTS))))"

definition publish_compaction ::
  "(bytes \<Rightarrow> u32) \<Rightarrow> append_io \<Rightarrow> manifest_snapshot \<Rightarrow> sstable_meta list \<Rightarrow> sstable_meta list
   \<Rightarrow> 'h manifest_manager \<Rightarrow> unit result \<times> 'h manifest_manager" where
  "publish_compaction crc io expected inputs outputs m =
     (if snapshot_levels (ms_levels (mm_state m)) \<noteq> sn_levels expected
      then (Inl (Err (StorageError ''manifest changed during compaction'')), m)
      else
        let removals = map (\<lambda>meta. (sm_level meta, sm_file_id meta)) inputs
        in append_then io (compaction_entry crc removals outputs) m (\<lambda>m.
             (Inr (), m\<lparr>mm_state := apply_compaction (mm_state m) removals outputs\<rparr>)))"

definition evict_file :: "bytes \<Rightarrow> 'h manifest_manager \<Rightarrow> 'h manifest_manager" where
  "evict_file path m = m\<lparr>mm_cache := lru_remove path (mm_cache m)\<rparr>"

definition remove_sstable ::
  "(bytes \<Rightarrow> u32) \<Rightarrow> append_io \<Rightarrow> u32 \<Rightarrow> u64 \<Rightarrow> 'h manifest_manager
   \<Rightarrow> unit result \<times> 'h manifest_manager" where
  "remove_sstable crc io level file_id m =
     (let path = (case map_of (ms_levels (mm_state m)) level of
                    None \<Rightarrow> None
                  | Some files \<Rightarrow> map_option sm_path (map_of files file_id))
      in append_then io (encode_entry crc ENTRY_KIND_REMOVE (encode_remove_payload level file_id)) m
           (\<lambda>m. let m' = m\<lparr>mm_state := (mm_state m)\<lparr>ms_levels :=
                            levels_remove level file_id (ms_levels (mm_state m))\<rparr>\<rparr>
                in (Inr (), case path of None \<Rightarrow> m' | Some p \<Rightarrow> evict_file p m')))"

definition mark_checkpoint ::
  "(bytes \<Rightarrow> u32) \<Rightarrow> append_io \<Rightarrow> u64 \<Rightarrow> u64 \<Rightarrow> 'h manifest_manager
   \<Rightarrow> unit result \<times> 'h manifest_manager" where
  "mark_checkpoint crc io lsn segment m =
     append_then io (encode_entry crc ENTRY_KIND_CHECKPOINT (encode_checkpoint_payload lsn segment)) m
       (\<lambda>m. (Inr (), m\<lparr>mm_state := (mm_state m)\<lparr>ms_checkpoint_lsn := lsn,
                                         ms_active_wal_segment := segment\<rparr>\<rparr>))"

definition publish_recovery_checkpoint ::
  "(bytes \<Rightarrow> u32) \<Rightarrow> append_io \<Rightarrow> recovery_checkpoint \<Rightarrow> 'h manifest_manager
   \<Rightarrow> unit result \<times> 'h manifest_manager" where
  "publish_recovery_checkpoint crc io c m =
     append_then io (encode_entry crc ENTRY_KIND_RECOVERY_CHECKPOINT (encode_recovery_payload c)) m
       (\<lambda>m. (Inr (), m\<lparr>mm_state := (mm_state m)\<lparr>ms_active_wal_segment := rc_replay_start_segment c,
                                         ms_recovery_checkpoint := Some c\<rparr>\<rparr>))"

definition snapshot :: "'h manifest_manager \<Rightarrow> manifest_snapshot" where
  "snapshot m = snapshot_from_state (mm_state m)"

definition get_or_open_file ::
  "(bytes \<Rightarrow> 'h result) \<Rightarrow> bytes \<Rightarrow> 'h manifest_manager \<Rightarrow> 'h result \<times> 'h manifest_manager" where
  "get_or_open_file open_file path m =
     (case get_or_open open_file path (mm_cache m) of
        (r, c) \<Rightarrow> (r, m\<lparr>mm_cache := c\<rparr>))"

definition clear_file_cache :: "'h manifest_manager \<Rightarrow> 'h manifest_manager" where
  "clear_file_cache m = m\<lparr>mm_cache := lru_clear (mm_cache m)\<rparr>"

definition file_cache_len :: "'h manifest_manager \<Rightarrow> nat" where
  "file_cache_len m = lru_len (mm_cache m)"

section \<open>Requests\<close>

text \<open>The calls a client can make, as data, so that a run of the manager is a list of them.\<close>

datatype manifest_request =
    AllocateFileId
  | RegisterSSTable sstable_meta
  | PublishCompaction manifest_snapshot "sstable_meta list" "sstable_meta list"
  | RemoveSSTable u32 u64
  | MarkCheckpoint u64 u64
  | PublishRecoveryCheckpoint recovery_checkpoint
  | EvictFile bytes

fun serve ::
  "(bytes \<Rightarrow> u32) \<Rightarrow> append_io \<Rightarrow> manifest_request \<Rightarrow> 'h manifest_manager
   \<Rightarrow> bool \<times> 'h manifest_manager" where
  "serve crc io AllocateFileId m = map_prod is_ok id (allocate_file_id m)"
| "serve crc io (RegisterSSTable meta) m = map_prod is_ok id (register_sstable crc io meta m)"
| "serve crc io (PublishCompaction expected inputs outputs) m =
     map_prod is_ok id (publish_compaction crc io expected inputs outputs m)"
| "serve crc io (RemoveSSTable level file_id) m =
     map_prod is_ok id (remove_sstable crc io level file_id m)"
| "serve crc io (MarkCheckpoint lsn segment) m =
     map_prod is_ok id (mark_checkpoint crc io lsn segment m)"
| "serve crc io (PublishRecoveryCheckpoint c) m =
     map_prod is_ok id (publish_recovery_checkpoint crc io c m)"
| "serve crc io (EvictFile path) m = (True, evict_file path m)"

fun serve_all ::
  "(bytes \<Rightarrow> u32) \<Rightarrow> manifest_request list \<Rightarrow> 'h manifest_manager \<Rightarrow> 'h manifest_manager" where
  "serve_all crc [] m = m"
| "serve_all crc (r # rs) m = serve_all crc rs (snd (serve crc AppendOk r m))"

section \<open>The file and the state in memory agree\<close>

text \<open>
  \<open>replayed ops\<close> is what replaying the entries \<open>ops\<close> gives. The state in memory agrees with it up
  to the file ids handed out since (\<open>allocate_file_id\<close> writes nothing) and the checkpoint LSN,
  which replay drops.
\<close>

definition replayed :: "manifest_op list \<Rightarrow> manifest_state" where
  "replayed ops = foldl apply_op ManifestState_default ops"

definition agrees :: "manifest_state \<Rightarrow> manifest_state \<Rightarrow> bool" where
  "agrees a b \<longleftrightarrow>
     ms_version a = ms_version b \<and> ms_levels a = ms_levels b
     \<and> ms_active_wal_segment a = ms_active_wal_segment b
     \<and> ms_recovery_checkpoint a = ms_recovery_checkpoint b
     \<and> ms_next_file_id a \<le> ms_next_file_id b"

definition mm_inv :: "(bytes \<Rightarrow> u32) \<Rightarrow> manifest_op list \<Rightarrow> 'h manifest_manager \<Rightarrow> bool" where
  "mm_inv crc ops m \<longleftrightarrow>
     list_all op_ok ops \<and> mm_file m = manifest_bytes crc ops
     \<and> agrees (replayed ops) (mm_state m)"

lemma replayed_snoc [simp]: "replayed (ops @ [op]) = apply_op (replayed ops) op"
  by (simp add: replayed_def)

definition new_meta_ok :: "sstable_meta \<Rightarrow> bool" where
  "new_meta_ok meta \<longleftrightarrow> utf8_valid (sm_path meta) \<and> sm_file_id meta \<noteq> - 1"

fun request_ok :: "manifest_request \<Rightarrow> bool" where
  "request_ok (RegisterSSTable meta) = new_meta_ok meta"
| "request_ok (PublishCompaction _ _ outputs) = list_all new_meta_ok outputs"
| "request_ok _ = True"

text \<open>Encoding checks the lengths, so what was encoded is well formed.\<close>

lemma encode_add_payload_Inr:
  "encode_add_payload meta = Inr p \<Longrightarrow> new_meta_ok meta \<Longrightarrow> meta_ok meta \<and> p = add_payload meta"
  by (auto simp: encode_add_payload_def push_bytes_def rbind_eq_Inr meta_ok_def add_payload_def
      new_meta_ok_def split: if_splits)

lemma encode_entry_Inr:
  "encode_entry crc (op_kind op) (op_payload op) = Inr e \<Longrightarrow> op_fields_ok op \<Longrightarrow>
     op_ok op \<and> e = op_bytes crc op"
  by (auto simp: encode_entry_def op_ok_def op_bytes_def Let_def split: if_splits)

lemma push_outputs_Inr:
  "push_outputs p metas = Inr q \<Longrightarrow> list_all new_meta_ok metas \<Longrightarrow>
     list_all output_ok metas \<and> q = p @ concat (map output_field metas)"
proof (induction metas arbitrary: p)
  case (Cons meta metas)
  then obtain b where "encode_add_payload meta = Inr b" and "length b < 2 ^ 32"
    and rest: "push_outputs (p @ u32_be (of_nat (length b)) @ b) metas = Inr q"
    by (auto simp: rbind_eq_Inr push_bytes_def split: if_splits)
  with Cons.prems Cons.IH [OF rest] show ?case
    by (auto simp: output_ok_def output_field_def dest!: encode_add_payload_Inr)
qed simp

lemma encode_compaction_payload_Inr:
  assumes "encode_compaction_payload removals outp = Inr p" and "\<forall>m \<in> set_option outp. new_meta_ok m"
  shows "length removals < 2 ^ 32 \<and> (\<forall>m \<in> set_option outp. meta_ok m)
         \<and> p = removals_payload removals @ (case outp of None \<Rightarrow> [] | Some m \<Rightarrow> add_payload m)"
  using assms
  by (auto simp: encode_compaction_payload_def removals_payload_def Let_def rbind_eq_Inr
      dest!: encode_add_payload_Inr split: if_splits option.splits)

lemma compaction_entry_Inr:
  assumes "compaction_entry crc removals outputs = Inr e" and "list_all new_meta_ok outputs"
  shows "op_ok (OpCompact removals outputs) \<and> e = op_bytes crc (OpCompact removals outputs)"
proof (cases "length outputs \<le> 1")
  case True
  let ?outp = "case outputs of [] \<Rightarrow> None | meta # _ \<Rightarrow> Some meta"
  obtain p where p: "encode_compaction_payload removals ?outp = Inr p"
    and e: "encode_entry crc ENTRY_KIND_COMPACTION p = Inr e"
    using assms(1) True by (auto simp: compaction_entry_def rbind_eq_Inr)
  have one: "outputs = [] \<or> (\<exists>m. outputs = [m])" using True by (simp only: at_most_one_cases)
  have "\<forall>m \<in> set_option ?outp. new_meta_ok m" using assms(2) by (cases outputs) auto
  with p have "length removals < 2 ^ 32" "\<forall>m \<in> set_option ?outp. meta_ok m"
    "p = op_payload (OpCompact removals outputs)"
    using one encode_compaction_payload_Inr [OF p] by auto
  then show ?thesis
    using encode_entry_Inr [of crc "OpCompact removals outputs" e] e one by auto
next
  case False
  obtain p q where p: "encode_compaction_payload removals None = Inr p"
    and q: "push_outputs (p @ u32_be (of_nat (length outputs))) outputs = Inr q"
    and n: "length outputs < 2 ^ 32"
    and e: "encode_entry crc ENTRY_KIND_COMPACTION_OUTPUTS q = Inr e"
    using assms(1) False by (auto simp: compaction_entry_def rbind_eq_Inr)
  show ?thesis
    using push_outputs_Inr [OF q assms(2)] encode_compaction_payload_Inr [OF p]
      encode_entry_Inr [of crc "OpCompact removals outputs" e] e n False
    by simp
qed

text \<open>The entry a request appends, \<open>None\<close> for one that appends nothing.\<close>

fun request_op :: "manifest_request \<Rightarrow> manifest_op option" where
  "request_op (RegisterSSTable meta) = Some (OpAdd meta)"
| "request_op (PublishCompaction _ inputs outputs) =
     Some (OpCompact (map (\<lambda>meta. (sm_level meta, sm_file_id meta)) inputs) outputs)"
| "request_op (RemoveSSTable level file_id) = Some (OpRemove level file_id)"
| "request_op (MarkCheckpoint lsn segment) = Some (OpCheckpoint lsn segment)"
| "request_op (PublishRecoveryCheckpoint c) = Some (OpRecovery c)"
| "request_op _ = None"

lemma agrees_outputs:
  "agrees a b \<Longrightarrow> agrees (foldl apply_output a outputs) (foldl apply_output b outputs)"
  by (induction outputs arbitrary: a b)
    (auto simp: agrees_def apply_output_def max_def intro: order_trans)

lemma agrees_compaction:
  "agrees a b \<Longrightarrow> agrees (apply_compaction a removals outputs) (apply_compaction b removals outputs)"
  unfolding apply_compaction_def by (rule agrees_outputs) (simp add: agrees_def)

lemma file_id_next: "(i :: u64) \<noteq> - 1 \<Longrightarrow> checked_add i 1 = Some (i + 1)"
proof -
  assume "i \<noteq> - 1"
  then have "unat i \<noteq> unat (- 1 :: u64)" by (simp only: word_unat_eq_iff not_False_eq_True)
  moreover have "unat (- 1 :: u64) = 18446744073709551615"
    by (simp add: unsigned_minus_1_eq_mask mask_eq_exp_minus_1)
  ultimately have "unat i < 18446744073709551615" using unat_lt_64 [of i] by linarith
  then show ?thesis by (simp add: checked_add_def)
qed

text \<open>
  One request: it is refused and changes nothing, or its entry reaches the file, whole if the append
  succeeds and the state then follows, in part if it fails and the state stays.
\<close>

definition appended :: "append_io \<Rightarrow> bytes \<Rightarrow> bytes" where
  "appended io entry = (case io of AppendOk \<Rightarrow> entry | AppendFail n \<Rightarrow> take n entry)"

definition served ::
  "(bytes \<Rightarrow> u32) \<Rightarrow> append_io \<Rightarrow> manifest_op \<Rightarrow> 'h manifest_manager \<Rightarrow> 'h manifest_manager \<Rightarrow> bool" where
  "served crc io op m m' \<longleftrightarrow>
     op_ok op \<and> mm_file m' = mm_file m @ appended io (op_bytes crc op)
     \<and> (if io = AppendOk
        then \<forall>a. agrees a (mm_state m) \<longrightarrow> agrees (apply_op a op) (mm_state m')
        else mm_state m' = mm_state m)"

definition follows :: "manifest_op \<Rightarrow> ('h manifest_manager \<Rightarrow> unit result \<times> 'h manifest_manager) \<Rightarrow> bool" where
  "follows op k \<longleftrightarrow>
     (\<forall>m. mm_file (snd (k m)) = mm_file m
          \<and> (\<forall>a. agrees a (mm_state m) \<longrightarrow> agrees (apply_op a op) (mm_state (snd (k m)))))"

lemma append_then_cases:
  assumes "\<And>e. entry = Inr e \<Longrightarrow> op_ok op \<and> e = op_bytes crc op" and "follows op k"
  shows "(\<forall>io. snd (append_then io entry m k) = m)
         \<or> (\<forall>io. served crc io op m (snd (append_then io entry m k)))"
proof (cases entry)
  case (Inr e)
  with assms(1) have e: "op_ok op" "e = op_bytes crc op" by simp_all
  have "served crc io op m (snd (append_then io entry m k))" for io
  proof (cases io)
    case AppendOk
    have "mm_file (snd (k (m\<lparr>mm_file := f\<rparr>))) = f" for f
      using assms(2) by (simp add: follows_def)
    moreover have "\<forall>a. agrees a (mm_state m) \<longrightarrow>
        agrees (apply_op a op) (mm_state (snd (k (m\<lparr>mm_file := f\<rparr>))))" for f
      using assms(2) by (simp add: follows_def)
    ultimately show ?thesis
      using AppendOk Inr e
      by (simp add: append_then_def append_manifest_entry_def served_def appended_def)
  next
    case (AppendFail n)
    with Inr e show ?thesis
      by (simp add: append_then_def append_manifest_entry_def served_def appended_def)
  qed
  then show ?thesis by blast
qed (simp add: append_then_def)

lemma follows_register: "new_meta_ok meta \<Longrightarrow> follows (OpAdd meta) (register_apply meta)"
  by (auto simp: follows_def register_apply_def new_meta_ok_def agrees_def Let_def file_id_next
      not_le intro: inc_le)

lemma register_cases:
  assumes "new_meta_ok meta"
  shows "(\<forall>io. snd (register_sstable crc io meta m) = m)
         \<or> (\<forall>io. served crc io (OpAdd meta) m (snd (register_sstable crc io meta m)))"
  unfolding register_sstable_def
proof (rule append_then_cases)
  fix e
  assume "rbind (encode_add_payload meta) (encode_entry crc ENTRY_KIND_ADD) = Inr e"
  then obtain p where "encode_add_payload meta = Inr p" "encode_entry crc ENTRY_KIND_ADD p = Inr e"
    by (auto simp: rbind_eq_Inr)
  then show "op_ok (OpAdd meta) \<and> e = op_bytes crc (OpAdd meta)"
    using encode_add_payload_Inr [of meta p] encode_entry_Inr [of crc "OpAdd meta" e] assms by simp
qed (rule follows_register [OF assms])

lemma publish_cases:
  assumes "list_all new_meta_ok outputs"
  shows "(\<forall>io. snd (publish_compaction crc io expected inputs outputs m) = m)
         \<or> (\<forall>io. served crc io
             (OpCompact (map (\<lambda>meta. (sm_level meta, sm_file_id meta)) inputs) outputs) m
             (snd (publish_compaction crc io expected inputs outputs m)))"
proof -
  let ?rs = "map (\<lambda>meta. (sm_level meta, sm_file_id meta)) inputs"
  let ?k = "\<lambda>m. (Inr (), m\<lparr>mm_state := apply_compaction (mm_state m) ?rs outputs\<rparr>)"
  have "follows (OpCompact ?rs outputs) ?k"
    by (simp add: follows_def agrees_compaction)
  then have "(\<forall>io. snd (append_then io (compaction_entry crc ?rs outputs) m ?k) = m)
      \<or> (\<forall>io. served crc io (OpCompact ?rs outputs) m
          (snd (append_then io (compaction_entry crc ?rs outputs) m ?k)))"
    by (intro append_then_cases) (auto dest: compaction_entry_Inr [OF _ assms] simp del: op_kind.simps)
  then show ?thesis by (simp add: publish_compaction_def Let_def)
qed

lemma remove_cases:
  "(\<forall>io. snd (remove_sstable crc io level file_id m) = m)
   \<or> (\<forall>io. served crc io (OpRemove level file_id) m (snd (remove_sstable crc io level file_id m)))"
  unfolding remove_sstable_def Let_def
proof (rule append_then_cases)
  show "op_ok (OpRemove level file_id) \<and> e = op_bytes crc (OpRemove level file_id)"
    if "encode_entry crc ENTRY_KIND_REMOVE (encode_remove_payload level file_id) = Inr e" for e
    using that encode_entry_Inr [of crc "OpRemove level file_id" e] by simp
qed (auto simp: follows_def agrees_def evict_file_def split: option.split)

lemma mark_cases:
  "(\<forall>io. snd (mark_checkpoint crc io lsn segment m) = m)
   \<or> (\<forall>io. served crc io (OpCheckpoint lsn segment) m (snd (mark_checkpoint crc io lsn segment m)))"
  unfolding mark_checkpoint_def
proof (rule append_then_cases)
  show "op_ok (OpCheckpoint lsn segment) \<and> e = op_bytes crc (OpCheckpoint lsn segment)"
    if "encode_entry crc ENTRY_KIND_CHECKPOINT (encode_checkpoint_payload lsn segment) = Inr e" for e
    using that encode_entry_Inr [of crc "OpCheckpoint lsn segment" e] by simp
qed (simp add: follows_def agrees_def)

lemma recovery_cases:
  "(\<forall>io. snd (publish_recovery_checkpoint crc io c m) = m)
   \<or> (\<forall>io. served crc io (OpRecovery c) m (snd (publish_recovery_checkpoint crc io c m)))"
  unfolding publish_recovery_checkpoint_def
proof (rule append_then_cases)
  show "op_ok (OpRecovery c) \<and> e = op_bytes crc (OpRecovery c)"
    if "encode_entry crc ENTRY_KIND_RECOVERY_CHECKPOINT (encode_recovery_payload c) = Inr e" for e
    using that encode_entry_Inr [of crc "OpRecovery c" e] by simp
qed (simp add: follows_def agrees_def)

lemma serve_cases:
  assumes "request_ok r" and "request_op r = Some op"
  shows "(\<forall>io. snd (serve crc io r m) = m) \<or> (\<forall>io. served crc io op m (snd (serve crc io r m)))"
proof (cases r)
  case (RegisterSSTable meta)
  with assms register_cases [of meta crc m] show ?thesis by auto
next
  case (PublishCompaction expected inputs outputs)
  with assms publish_cases [of outputs crc expected inputs m] show ?thesis by auto
next
  case (RemoveSSTable level file_id)
  with assms remove_cases [of crc level file_id m] show ?thesis by auto
next
  case (MarkCheckpoint lsn segment)
  with assms mark_cases [of crc lsn segment m] show ?thesis by auto
next
  case (PublishRecoveryCheckpoint c)
  with assms recovery_cases [of crc c m] show ?thesis by auto
qed (use assms(2) in simp_all)

lemma serve_idle:
  assumes "request_op r = None"
  shows "mm_file (snd (serve crc io r m)) = mm_file m"
    and "agrees a (mm_state m) \<Longrightarrow> agrees a (mm_state (snd (serve crc io r m)))"
  using assms
  by (cases r; auto simp: allocate_file_id_def evict_file_def agrees_def Let_def
        split: option.splits dest: checked_add_one_Some(2))+

lemma serve_inv:
  assumes "mm_inv crc ops m" and "request_ok r"
  shows "\<exists>ops'. mm_inv crc ops' (snd (serve crc AppendOk r m))"
proof (cases "request_op r")
  case None
  with assms serve_idle [OF None] show ?thesis unfolding mm_inv_def by metis
next
  case (Some op)
  have "snd (serve crc AppendOk r m) = m \<or> served crc AppendOk op m (snd (serve crc AppendOk r m))"
    using serve_cases [OF assms(2) Some] by blast
  then show ?thesis
  proof
    assume "served crc AppendOk op m (snd (serve crc AppendOk r m))"
    then have "mm_inv crc (ops @ [op]) (snd (serve crc AppendOk r m))"
      using assms(1) by (simp add: mm_inv_def served_def appended_def)
    then show ?thesis ..
  qed (use assms(1) in auto)
qed

lemma serve_all_inv:
  assumes "mm_inv crc ops m" and "list_all request_ok rs"
  shows "\<exists>ops'. mm_inv crc ops' (serve_all crc rs m)"
  using assms
proof (induction rs arbitrary: ops m)
  case (Cons r rs)
  then obtain ops' where "mm_inv crc ops' (snd (serve crc AppendOk r m))"
    using serve_inv [of crc ops m r] by auto
  with Cons show ?case by simp
qed auto

lemma load_new: "load_or_create crc ReadNotFound = Inr m \<Longrightarrow> mm_inv crc [] m"
  by (auto simp: load_or_create_def replay_manifest_def replay_loop.simps mm_inv_def replayed_def
      agrees_def)

lemma load_inv:
  assumes "mm_inv crc ops m" and "length (mm_file m) \<le> isize_max"
  shows "load_or_create crc (ReadOk (mm_file m)) =
         Inr \<lparr>mm_file = mm_file m, mm_state = replayed ops,
              mm_cache = lru_new DEFAULT_FILE_CACHE_CAPACITY\<rparr>"
  using assms by (simp add: load_or_create_def mm_inv_def replay_manifest_ops replayed_def)

section \<open>The set of live tables\<close>

text \<open>The tables as one map from level and file id, the abstract content of a manifest.\<close>

definition tables :: "levels \<Rightarrow> (u32 \<times> u64) \<rightharpoonup> sstable_meta" where
  "tables ls = (\<lambda>(level, file_id). case map_of ls level of
     None \<Rightarrow> None | Some files \<Rightarrow> map_of files file_id)"

lemma tables_insert:
  "tables (levels_insert meta ls) = (tables ls)((sm_level meta, sm_file_id meta) \<mapsto> meta)"
  by (auto simp: tables_def levels_insert_def fun_eq_iff split: option.splits)

lemma tables_remove: "tables (levels_remove level file_id ls) = (tables ls)((level, file_id) := None)"
proof (cases "map_of ls level")
  case (Some files)
  have "map_of (bt_remove file_id files) = (map_of files)(file_id := None)" by simp
  then have "bt_remove file_id files = [] \<Longrightarrow> i \<noteq> file_id \<Longrightarrow> map_of files i = None" for i
    by (metis fun_upd_apply map_of.simps(1))
  with Some show ?thesis
    by (auto simp: tables_def levels_remove_def fun_eq_iff Let_def split: option.splits)
qed (auto simp: tables_def levels_remove_def fun_eq_iff)

lemma restrict_upd_None: "(f(x := None)) |` (- S) = f |` (- insert x S)"
  by (auto simp: fun_eq_iff restrict_map_def)

lemma tables_remove_all:
  "tables (foldl (\<lambda>ls (level, file_id). levels_remove level file_id ls) ls removals)
   = (tables ls) |` (- set removals)"
  by (induction removals arbitrary: ls) (auto simp: tables_remove restrict_upd_None simp del: restrict_fun_upd)

definition keyed_meta :: "sstable_meta \<Rightarrow> (u32 \<times> u64) \<times> sstable_meta" where
  "keyed_meta meta = ((sm_level meta, sm_file_id meta), meta)"

lemma tables_outputs:
  "tables (ms_levels (foldl apply_output st outputs))
   = tables (ms_levels st) ++ map_of (rev (map keyed_meta outputs))"
  by (induction outputs arbitrary: st)
    (auto simp: apply_output_def tables_insert keyed_meta_def fun_eq_iff map_add_def
      split: option.splits)

lemma tables_compaction:
  "tables (ms_levels (apply_compaction st removals outputs))
   = (tables (ms_levels st) |` (- set removals)) ++ map_of (rev (map keyed_meta outputs))"
  by (simp add: apply_compaction_def tables_outputs tables_remove_all)

text \<open>Every live table has an id below the next one.\<close>

definition ids_below :: "manifest_state \<Rightarrow> bool" where
  "ids_below st \<longleftrightarrow> (\<forall>level i. tables (ms_levels st) (level, i) \<noteq> None \<longrightarrow> i < ms_next_file_id st)"

lemma less_inc: "(i :: u64) \<noteq> - 1 \<Longrightarrow> i < i + 1"
  using checked_add_one_Some(2) [OF file_id_next] by simp

lemma less_next: "(i :: u64) \<le> j \<Longrightarrow> j \<noteq> - 1 \<Longrightarrow> i < j + 1"
  using less_inc by (metis le_less_trans)

lemma ids_below_output:
  "ids_below st \<Longrightarrow> sm_file_id meta \<noteq> - 1 \<Longrightarrow> ids_below (apply_output st meta)"
  by (auto simp: ids_below_def apply_output_def tables_insert less_max_iff_disj less_inc)

lemma ids_below_outputs:
  "ids_below st \<Longrightarrow> list_all (\<lambda>m. sm_file_id m \<noteq> - 1) outputs \<Longrightarrow>
     ids_below (foldl apply_output st outputs)"
  by (induction outputs arbitrary: st) (auto simp: ids_below_output)

lemma ids_below_op:
  assumes "ids_below st" and "op_ok op"
  shows "ids_below (apply_op st op)"
proof (cases op)
  case (OpAdd meta)
  with assms show ?thesis
    by (auto simp: ids_below_def tables_insert op_ok_def meta_ok_def not_le
        intro!: less_next intro: order.trans [OF less_imp_le])
next
  case (OpCompact removals outputs)
  have "list_all (\<lambda>m. sm_file_id m \<noteq> - 1) outputs"
    using assms(2) OpCompact
    by (auto simp: op_ok_def output_ok_def meta_ok_def list_all_iff split: if_splits)
  moreover have "ids_below (st\<lparr>ms_levels := foldl (\<lambda>ls (level, file_id).
      levels_remove level file_id ls) (ms_levels st) removals\<rparr>)"
    using assms(1) by (auto simp: ids_below_def tables_remove_all restrict_map_def)
  ultimately show ?thesis
    using OpCompact by (simp add: apply_compaction_def ids_below_outputs)
qed (use assms in \<open>auto simp: ids_below_def tables_remove\<close>)

lemma ids_below_replayed: "list_all op_ok ops \<Longrightarrow> ids_below (replayed ops)"
proof (induction ops rule: rev_induct)
  case Nil
  show ?case by (simp add: replayed_def ids_below_def ManifestState_default_def tables_def)
qed (simp add: ids_below_op)

lemma ids_below_agrees: "agrees a b \<Longrightarrow> ids_below a \<Longrightarrow> ids_below b"
  by (auto simp: agrees_def ids_below_def intro: less_le_trans)

section \<open>Properties\<close>

lemma run_inv:
  assumes "load_or_create crc ReadNotFound = Inr m0" and "list_all request_ok rs"
  obtains ops where "mm_inv crc ops (serve_all crc rs m0)"
  using serve_all_inv [OF load_new [OF assms(1)] assms(2)] by blast

text \<open>
  C9: reopening a manifest restores what the manager had in memory. For any sequence of
  requests served from an empty manifest with successful appends, replaying the file succeeds and
  gives the same tables, write-ahead-log segment and recovery checkpoint; the next file id after
  reopening is at most the live one and still above the id of every live table.
\<close>

theorem manifest_reopen:
  assumes "load_or_create crc ReadNotFound = Inr m0" and "list_all request_ok rs"
    and "m = serve_all crc rs m0" and "length (mm_file m) \<le> isize_max"
  shows "\<exists>m'. load_or_create crc (ReadOk (mm_file m)) = Inr m'
              \<and> sn_levels (snapshot m') = sn_levels (snapshot m)
              \<and> sn_active_wal_segment (snapshot m') = sn_active_wal_segment (snapshot m)
              \<and> sn_recovery_checkpoint (snapshot m') = sn_recovery_checkpoint (snapshot m)
              \<and> sn_next_file_id (snapshot m') \<le> sn_next_file_id (snapshot m)
              \<and> ids_below (mm_state m')"
proof -
  obtain ops where inv: "mm_inv crc ops m" using run_inv assms(1-3) by blast
  have "ids_below (replayed ops)" using inv by (simp add: mm_inv_def ids_below_replayed)
  with inv show ?thesis
    unfolding load_inv [OF inv assms(4)]
    by (simp add: mm_inv_def agrees_def snapshot_def snapshot_from_state_def)
qed

text \<open>
  C17: an append that fails part way is never half applied. Whatever number of bytes of the
  entry reached the file, the state in memory is unchanged, and reopening the file finds the tables
  as before the request, or as after it, or reports corruption.
\<close>

theorem manifest_crash_atomic:
  assumes "load_or_create crc ReadNotFound = Inr m0" and "list_all request_ok rs"
    and "m = serve_all crc rs m0" and "request_ok r" and "request_op r \<noteq> None"
    and "length (mm_file (snd (serve crc AppendOk r m))) \<le> isize_max"
    and "m' = snd (serve crc (AppendFail n) r m)"
  shows "mm_state m' = mm_state m \<and>
         (load_or_create crc (ReadOk (mm_file m')) = load_or_create crc (ReadOk (mm_file m))
          \<or> load_or_create crc (ReadOk (mm_file m'))
             = load_or_create crc (ReadOk (mm_file (snd (serve crc AppendOk r m))))
          \<or> (\<exists>msg. load_or_create crc (ReadOk (mm_file m')) = Inl (Err (Corrupted msg))))"
proof -
  obtain ops where inv: "mm_inv crc ops m" using run_inv assms(1-3) by blast
  obtain op where op: "request_op r = Some op" using assms(5) by blast
  from serve_cases [OF assms(4) op, of crc m] show ?thesis
  proof
    assume all: "\<forall>io. served crc io op m (snd (serve crc io r m))"
    then have ok: "op_ok op" and f: "mm_file m' = mm_file m @ take n (op_bytes crc op)"
      and f': "mm_file (snd (serve crc AppendOk r m)) = mm_file m @ op_bytes crc op"
      and st: "mm_state m' = mm_state m"
      by (auto simp: served_def appended_def assms(7) dest: spec [of _ "AppendFail n"]
          spec [of _ AppendOk])
    consider "n = 0" | "length (op_bytes crc op) \<le> n" | "0 < n" "n < length (op_bytes crc op)"
      by linarith
    then show ?thesis
    proof cases
      case 3
      have "\<exists>msg. replay_manifest crc (mm_file m') = Inl (Err (Corrupted msg))"
        using replay_manifest_torn [of ops op n crc] 3 inv ok f f' assms(6)
        by (simp add: mm_inv_def)
      then show ?thesis using st by (auto simp: load_or_create_def)
    qed (use st f f' in simp_all)
  qed (use assms(7) in simp)
qed

text \<open>
  C26: a published compaction replaces its inputs by its outputs and touches nothing else.
  When \<open>publish_compaction\<close> succeeds, the live tables are the previous ones without the inputs,
  with the outputs added; when the tables are not those of the snapshot the compaction started
  from, it fails and changes nothing.
\<close>

theorem publish_compaction_effect:
  assumes "publish_compaction crc io expected inputs outputs m = (r, m')"
  shows "(if sn_levels (snapshot m) \<noteq> sn_levels expected
          then r = Inl (Err (StorageError ''manifest changed during compaction'')) \<and> m' = m
          else is_ok r \<longrightarrow>
            tables (ms_levels (mm_state m'))
            = (tables (ms_levels (mm_state m)) |` (- set (map (fst \<circ> keyed_meta) inputs)))
              ++ map_of (rev (map keyed_meta outputs)))"
  using assms
  by (auto simp: publish_compaction_def snapshot_def snapshot_from_state_def append_then_def
      append_manifest_entry_def tables_compaction keyed_meta_def comp_def Let_def
      split: sum.splits append_io.splits)

lemma next_id_outputs: "ms_next_file_id st \<le> ms_next_file_id (foldl apply_output st outputs)"
proof (induction outputs arbitrary: st)
  case (Cons meta outputs)
  have "ms_next_file_id st \<le> ms_next_file_id (apply_output st meta)"
    by (simp add: apply_output_def)
  with Cons [of "apply_output st meta"] show ?case by (simp add: order_trans)
qed simp

lemma append_then_next:
  assumes "\<And>m. ms_next_file_id (mm_state m) \<le> ms_next_file_id (mm_state (snd (k m)))"
  shows "ms_next_file_id (mm_state m) \<le> ms_next_file_id (mm_state (snd (append_then io e m k)))"
  using assms [of "m\<lparr>mm_file := _\<rparr>"]
  by (auto simp: append_then_def append_manifest_entry_def split: sum.splits append_io.splits)

lemma serve_next_mono:
  "ms_next_file_id (mm_state m) \<le> ms_next_file_id (mm_state (snd (serve crc io r m)))"
proof (cases r)
  case AllocateFileId
  then show ?thesis
    by (auto simp: allocate_file_id_def Let_def split: option.split dest!: checked_add_one_Some(2))
next
  case (RegisterSSTable meta)
  have "ms_next_file_id (mm_state m) \<le> ms_next_file_id (mm_state (snd (register_apply meta m)))"
    for m :: "'a manifest_manager"
    by (auto simp: register_apply_def Let_def split: option.split dest!: checked_add_one_Some(2))
  with RegisterSSTable show ?thesis by (simp add: register_sstable_def append_then_next)
next
  case (PublishCompaction expected inputs outputs)
  have "ms_next_file_id st \<le> ms_next_file_id (apply_compaction st rs outputs)" for st rs
    using next_id_outputs [of "st\<lparr>ms_levels := _\<rparr>"] by (simp add: apply_compaction_def)
  with PublishCompaction show ?thesis by (simp add: publish_compaction_def append_then_next Let_def)
qed (auto simp: remove_sstable_def mark_checkpoint_def publish_recovery_checkpoint_def evict_file_def
    Let_def split: option.split intro!: append_then_next)

lemma serve_all_next_mono:
  "ms_next_file_id (mm_state m) \<le> ms_next_file_id (mm_state (serve_all crc rs m))"
  by (induction rs arbitrary: m) (auto intro: order_trans [OF serve_next_mono])

text \<open>
  C27: file ids are never handed out twice. An id that \<open>allocate_file_id\<close> returns is above the
  id of every live table, and whatever requests follow, a later allocation returns a larger one.
\<close>

theorem allocate_file_id_fresh:
  assumes "load_or_create crc ReadNotFound = Inr m0" and "list_all request_ok rs"
    and "allocate_file_id (serve_all crc rs m0) = (Inr i, m)"
  shows "(\<forall>level j. tables (ms_levels (mm_state m)) (level, j) \<noteq> None \<longrightarrow> j < i)
         \<and> (\<forall>rs' i' m'. allocate_file_id (serve_all crc rs' m) = (Inr i', m') \<longrightarrow> i < i')"
proof -
  obtain ops where "mm_inv crc ops (serve_all crc rs m0)" using run_inv assms(1,2) by blast
  then have "ids_below (mm_state (serve_all crc rs m0))"
    using ids_below_agrees ids_below_replayed by (auto simp: mm_inv_def)
  moreover have i: "i = ms_next_file_id (mm_state (serve_all crc rs m0))"
    and lt: "i < ms_next_file_id (mm_state m)"
    and ls: "ms_levels (mm_state m) = ms_levels (mm_state (serve_all crc rs m0))"
    using assms(3) by (auto simp: allocate_file_id_def Let_def split: option.splits
        dest!: checked_add_one_Some(2))
  moreover have "i < i'" if "allocate_file_id (serve_all crc rs' m) = (Inr i', m')" for rs' i' m'
    using that serve_all_next_mono [of m crc rs'] lt
    by (auto simp: allocate_file_id_def Let_def split: option.splits)
  ultimately show ?thesis unfolding ids_below_def by metis
qed

text \<open>
  C29: the handle cache stays within its capacity and consistent, and a hit is answered without
  opening the file.
\<close>

theorem get_or_open_correct:
  assumes "lru_inv c" and "0 < lru_capacity c" and "get_or_open open_file path c = (r, c')"
  shows "lru_inv c' \<and> lru_len c' \<le> lru_capacity c'
         \<and> (\<forall>h. lru_handles c path = Some h \<longrightarrow> r = Inr h \<and> lru_handles c' = lru_handles c)
         \<and> (\<forall>h. r = Inr h \<longrightarrow> lru_handles c' path = Some h \<and> last (lru_order c') = path)"
proof -
  have inv: "lru_inv c'" using lru_inv_get_or_open [OF assms(1,2), of open_file path] assms(3) by simp
  moreover have "lru_len c' \<le> lru_capacity c'"
    using inv lru_len_order [OF inv] by (simp add: lru_inv_def)
  ultimately show ?thesis
    using assms(3) by (auto simp: get_or_open_def lru_touch_def Let_def split: option.splits sum.splits)
qed

definition sample_meta :: "u64 \<Rightarrow> sstable_meta" where
  "sample_meta i =
     \<lparr>sm_file_id = i, sm_level = 0, sm_path = [0x61], sm_record_count = 1, sm_smallest_key = [1],
      sm_largest_key = [2], sm_bloom_offset = 0, sm_bloom_size = 0\<rparr>"

definition sample_manager :: "unit manifest_manager" where
  "sample_manager =
     \<lparr>mm_file = [], mm_state = ManifestState_default, mm_cache = lru_new DEFAULT_FILE_CACHE_CAPACITY\<rparr>"

lemma sample_load: "load_or_create crc ReadNotFound = Inr sample_manager"
  by (simp add: load_or_create_def replay_manifest_def replay_loop.simps sample_manager_def)

lemma sample_meta_ok: "i \<noteq> - 1 \<Longrightarrow> new_meta_ok (sample_meta i)"
  by (simp add: new_meta_ok_def sample_meta_def utf8_valid_Cons_ascii)

lemma sample_register_file:
  "mm_file (snd (register_sstable crc AppendOk (sample_meta i) sample_manager))
   = op_bytes crc (OpAdd (sample_meta i))"
  by (simp add: register_sstable_def append_then_def append_manifest_entry_def encode_add_payload_def
      push_bytes_def sample_meta_def encode_entry_def op_bytes_def add_payload_def Let_def
      sample_manager_def register_apply_def split: option.split)

lemma sample_bytes_length: "length (op_bytes crc (OpAdd (sample_meta i))) \<le> isize_max"
  by (simp add: length_op_bytes add_payload_def sample_meta_def isize_max_def)

theorem manifest_reopen_witness:
  "\<exists>m'. load_or_create (\<lambda>_. 0)
          (ReadOk (mm_file (serve_all (\<lambda>_. 0) [RegisterSSTable (sample_meta 7)] sample_manager)))
        = Inr (m' :: unit manifest_manager)
        \<and> ids_below (mm_state m')"
proof -
  have "length (mm_file (serve_all (\<lambda>_. 0) [RegisterSSTable (sample_meta 7)] sample_manager))
        \<le> isize_max"
    using sample_bytes_length [of "\<lambda>_. 0" 7] by (simp add: sample_register_file)
  from manifest_reopen [OF sample_load _ refl this] show ?thesis
    by (auto simp: sample_meta_ok)
qed

theorem manifest_crash_atomic_witness:
  "mm_state (snd (serve (\<lambda>_. 0) (AppendFail 3) (RegisterSSTable (sample_meta 7)) sample_manager))
   = mm_state sample_manager"
proof -
  have "length (mm_file (snd (serve (\<lambda>_. 0) AppendOk (RegisterSSTable (sample_meta 7)) sample_manager)))
        \<le> isize_max"
    using sample_bytes_length [of "\<lambda>_. 0" 7] by (simp add: sample_register_file)
  with manifest_crash_atomic [OF sample_load [of "\<lambda>_. 0"], of "[]" sample_manager
      "RegisterSSTable (sample_meta 7)" _ 3]
  show ?thesis by (auto simp: sample_meta_ok)
qed

theorem publish_compaction_effect_witness:
  "\<exists>r m'. publish_compaction (\<lambda>_. 0) AppendOk (snapshot sample_manager) [] [sample_meta 7]
            sample_manager = (r, m')
          \<and> is_ok r \<and> tables (ms_levels (mm_state m')) (0, 7) = Some (sample_meta 7)"
proof -
  let ?call = "publish_compaction (\<lambda>_. 0) AppendOk (snapshot sample_manager) [] [sample_meta 7]
                 sample_manager"
  obtain r m' where call: "?call = (r, m')" by (cases ?call)
  then have "is_ok r"
    by (auto simp: publish_compaction_def snapshot_def snapshot_from_state_def append_then_def
        append_manifest_entry_def compaction_entry_def encode_compaction_payload_def
        encode_add_payload_def push_bytes_def encode_entry_def sample_meta_def Let_def
        encode_remove_payload_def)
  with publish_compaction_effect [OF call] have "tables (ms_levels (mm_state m')) (0, 7)
      = Some (sample_meta 7)"
    by (simp add: keyed_meta_def sample_meta_def)
  with call \<open>is_ok r\<close> show ?thesis by blast
qed

theorem allocate_file_id_fresh_witness:
  "\<exists>m. allocate_file_id (serve_all (\<lambda>_. 0) [] sample_manager) = (Inr 1, m)
       \<and> (\<forall>rs' i' m'. allocate_file_id (serve_all (\<lambda>_. 0) rs' m) = (Inr i', m') \<longrightarrow> 1 < i')"
proof -
  obtain m where "allocate_file_id (serve_all (\<lambda>_. 0) [] sample_manager) = (Inr 1, m)"
    by (simp add: allocate_file_id_def sample_manager_def ManifestState_default_def checked_add_def)
  with allocate_file_id_fresh [OF sample_load [of "\<lambda>_. 0"], of "[]" 1 m] show ?thesis by simp
qed

theorem get_or_open_correct_witness:
  "lru_len (snd (get_or_open (\<lambda>_. Inr ()) [0x61] (lru_new 2))) \<le> 2"
proof -
  obtain r c' where g: "get_or_open (\<lambda>_. Inr ()) [0x61] (lru_new 2) = (r, c')"
    by (cases "get_or_open (\<lambda>_. Inr ()) [0x61] (lru_new 2)")
  then have "lru_capacity c' = 2"
    by (auto simp: get_or_open_def lru_new_def lru_len_def Let_def)
  with get_or_open_correct [OF lru_inv_new _ g] have "lru_len c' \<le> 2" by (simp add: lru_new_def)
  then show ?thesis by (simp add: g)
qed

end
