(* ===== verification/Newest.thy ===== *)
theory Newest
  imports Records Btree_Map
begin

text \<open>
  Newest version wins. A key has many versions, told apart by their LSN: in the memtable, in the
  tables of level 0 and in the deeper levels. Three loops of the engine keep one version per key,
  each with its own rule for replacing the version it holds: the range scan
  (\<open>src/storage/readmanager/read.rs\<close>, \<open>is_newer_record\<close>), the compaction
  (\<open>src/storage/compactionmanager/compaction.rs\<close>, \<open>choose_winner\<close>) and the flush
  (\<open>src/storage/writemanager/write.rs\<close>, \<open>existing.lsn < record.lsn\<close>). The locale
  \<open>newest_wins\<close> states what the three rules have in common; its lemmas say which version such a
  loop ends with.
\<close>

section \<open>The rules\<close>

definition is_newer_record :: "memtable_record \<Rightarrow> memtable_record \<Rightarrow> bool" where
  "is_newer_record candidate current \<longleftrightarrow>
     mr_lsn candidate > mr_lsn current
     \<or> (mr_lsn candidate = mr_lsn current \<and> mr_type candidate = Delete \<and> mr_type current \<noteq> Delete)"

definition choose_winner :: "memtable_record \<Rightarrow> memtable_record \<Rightarrow> memtable_record" where
  "choose_winner current candidate =
     (if mr_lsn candidate > mr_lsn current then candidate
      else if mr_lsn candidate < mr_lsn current then current
      else (case (mr_type current, mr_type candidate) of
              (Delete, _) \<Rightarrow> current
            | (_, Delete) \<Rightarrow> candidate
            | _ \<Rightarrow> current))"

definition scan_pick :: "memtable_record \<Rightarrow> memtable_record \<Rightarrow> memtable_record" where
  "scan_pick current candidate = (if is_newer_record candidate current then candidate else current)"

definition flush_pick :: "memtable_record \<Rightarrow> memtable_record \<Rightarrow> memtable_record" where
  "flush_pick existing record = (if mr_lsn existing < mr_lsn record then record else existing)"

section \<open>Merging into a map from keys\<close>

definition merge_record ::
  "(memtable_record \<Rightarrow> memtable_record \<Rightarrow> memtable_record) \<Rightarrow> bytes \<times> memtable_record \<Rightarrow>
   (bytes, memtable_record) btree_map \<Rightarrow> (bytes, memtable_record) btree_map" where
  "merge_record pick e merged =
     bt_insert (fst e)
       (case map_of merged (fst e) of None \<Rightarrow> snd e | Some current \<Rightarrow> pick current (snd e)) merged"

fun merge_records ::
  "(memtable_record \<Rightarrow> memtable_record \<Rightarrow> memtable_record) \<Rightarrow> (bytes \<times> memtable_record) list \<Rightarrow>
   (bytes, memtable_record) btree_map \<Rightarrow> (bytes, memtable_record) btree_map" where
  "merge_records pick [] merged = merged"
| "merge_records pick (e # es) merged = merge_records pick es (merge_record pick e merged)"

lemma merge_records_append:
  "merge_records pick (es @ fs) m = merge_records pick fs (merge_records pick es m)"
  by (induction es arbitrary: m) auto

lemma bt_ok_merge_record [simp]: "bt_ok m \<Longrightarrow> bt_ok (merge_record pick e m)"
  by (simp add: merge_record_def)

lemma bt_ok_merge_records [simp]: "bt_ok m \<Longrightarrow> bt_ok (merge_records pick es m)"
  by (induction es arbitrary: m) auto

text \<open>
  \<open>newest es k r\<close>: among the versions \<open>es\<close>, \<open>r\<close> is one of \<open>k\<close> with the greatest LSN.
\<close>

definition newest :: "(bytes \<times> memtable_record) set \<Rightarrow> bytes \<Rightarrow> memtable_record \<Rightarrow> bool" where
  "newest es k r \<longleftrightarrow> (k, r) \<in> es \<and> (\<forall>r'. (k, r') \<in> es \<longrightarrow> mr_lsn r' \<le> mr_lsn r)"

text \<open>A key and an LSN identify a version.\<close>

definition versioned :: "(bytes \<times> memtable_record) set \<Rightarrow> bool" where
  "versioned es \<longleftrightarrow> (\<forall>k r r'. (k, r) \<in> es \<longrightarrow> (k, r') \<in> es \<longrightarrow> mr_lsn r = mr_lsn r' \<longrightarrow> r = r')"

lemma versioned_mono: "versioned es \<Longrightarrow> fs \<subseteq> es \<Longrightarrow> versioned fs"
  by (auto simp: versioned_def)

lemma newest_unique: "versioned es \<Longrightarrow> newest es k r \<Longrightarrow> newest es k r' \<Longrightarrow> r = r'"
  unfolding newest_def versioned_def by (meson antisym)

lemma newest_exists:
  assumes "finite es" and "(k, r) \<in> es"
  shows "\<exists>r'. newest es k r'"
proof -
  let ?ls = "(\<lambda>e. mr_lsn (snd e)) ` {e \<in> es. fst e = k}"
  have fin: "finite ?ls" using assms(1) by simp
  have ne: "?ls \<noteq> {}" using assms(2) by force
  obtain r' where r': "(k, r') \<in> es" "mr_lsn r' = Max ?ls" using Max_in [OF fin ne] by force
  moreover have "mr_lsn r'' \<le> Max ?ls" if "(k, r'') \<in> es" for r''
    by (rule Max_ge [OF fin]) (use that in force)
  ultimately show ?thesis by (auto simp: newest_def)
qed

text \<open>A map holds a newest version of every key that has one.\<close>

definition holds_newest :: "(bytes, memtable_record) btree_map \<Rightarrow> (bytes \<times> memtable_record) set \<Rightarrow> bool" where
  "holds_newest m es \<longleftrightarrow>
     (\<forall>k. map_of m k = None \<longleftrightarrow> (\<forall>r. (k, r) \<notin> es)) \<and> (\<forall>k r. map_of m k = Some r \<longrightarrow> newest es k r)"

lemma holds_newest_lookup:
  assumes "holds_newest m es" and "versioned es"
  shows "map_of m k = Some r \<longleftrightarrow> newest es k r"
proof
  show "newest es k r" if "map_of m k = Some r" using assms(1) that by (simp add: holds_newest_def)
  assume n: "newest es k r"
  then obtain r' where r': "map_of m k = Some r'"
    using assms(1) by (auto simp: holds_newest_def newest_def)
  then have "newest es k r'" using assms(1) by (simp add: holds_newest_def)
  with n newest_unique [OF assms(2)] r' show "map_of m k = Some r" by metis
qed

locale newest_wins =
  fixes pick :: "memtable_record \<Rightarrow> memtable_record \<Rightarrow> memtable_record"
  assumes pick_one: "pick current candidate = current \<or> pick current candidate = candidate"
    and pick_lsn: "mr_lsn (pick current candidate) = max (mr_lsn current) (mr_lsn candidate)"
begin

lemma holds_newest_record:
  assumes "holds_newest m es"
  shows "holds_newest (merge_record pick f m) (insert f es)"
  unfolding holds_newest_def
proof (intro conjI allI impI)
  obtain kf rf where f: "f = (kf, rf)" by (cases f)
  show "map_of (merge_record pick f m) k = None \<longleftrightarrow> (\<forall>r. (k, r) \<notin> insert f es)" for k
    using assms by (auto simp: merge_record_def f holds_newest_def)
  fix k r
  assume k: "map_of (merge_record pick f m) k = Some r"
  show "newest (insert f es) k r"
  proof (cases "k = kf")
    case False
    with k assms show ?thesis by (auto simp: merge_record_def newest_def f holds_newest_def)
  next
    case True
    show ?thesis
    proof (cases "map_of m kf")
      case None
      with k True assms show ?thesis by (auto simp: merge_record_def newest_def f holds_newest_def)
    next
      case (Some current)
      with k True have r: "r = pick current rf" by (simp add: merge_record_def f)
      have "newest es kf current" using assms Some by (simp add: holds_newest_def)
      with r True pick_one [of current rf] pick_lsn [of current rf] show ?thesis
        by (auto simp: newest_def f max_def split: if_splits intro: order_trans)
    qed
  qed
qed

lemma merged_newest: "holds_newest m es \<Longrightarrow> holds_newest (merge_records pick fs m) (es \<union> set fs)"
proof (induction fs arbitrary: m es)
  case (Cons f fs)
  from Cons.IH [OF holds_newest_record [OF Cons.prems, of f]] show ?case by simp
qed simp

lemma merged_from_empty: "holds_newest (merge_records pick fs []) (set fs)"
  using merged_newest [of "[]" "{}" fs] by (simp add: holds_newest_def)

lemma merged_lookup:
  assumes "versioned (set fs)"
  shows "map_of (merge_records pick fs []) k = Some r \<longleftrightarrow> newest (set fs) k r"
  using holds_newest_lookup [OF merged_from_empty assms] .

end

interpretation scan_newest: newest_wins scan_pick
  by unfold_locales (auto simp: scan_pick_def is_newer_record_def max_def)

interpretation compaction_newest: newest_wins choose_winner
  by unfold_locales (auto simp: choose_winner_def max_def split: record_type.splits)

interpretation flush_newest: newest_wins flush_pick
  by unfold_locales (auto simp: flush_pick_def max_def)

text \<open>On versions told apart by their LSN the three rules end with the same map.\<close>

lemma merges_agree:
  assumes "versioned (set fs)"
  shows "merge_records choose_winner fs [] = merge_records scan_pick fs []"
    and "merge_records flush_pick fs [] = merge_records scan_pick fs []"
proof -
  have eq: "m = merge_records scan_pick fs []"
    if "bt_ok m" "\<And>k r. map_of m k = Some r \<longleftrightarrow> newest (set fs) k r" for m
  proof (rule bt_ok_ext [OF that(1)])
    show "map_of m = map_of (merge_records scan_pick fs [])"
      using that(2) scan_newest.merged_lookup [OF assms] by (metis not_Some_eq ext)
  qed simp
  show "merge_records choose_winner fs [] = merge_records scan_pick fs []"
    by (rule eq) (simp_all add: compaction_newest.merged_lookup [OF assms])
  show "merge_records flush_pick fs [] = merge_records scan_pick fs []"
    by (rule eq) (simp_all add: flush_newest.merged_lookup [OF assms])
qed

end
