(* ===== verification/Read_Path.thy ===== *)
theory Read_Path
  imports SSTables Manifest Newest
begin

text \<open>
  \<open>src/storage/readmanager/read.rs\<close>: point reads and range scans over the memtable and the tables
  the manifest lists. A table handle is the contents of its file: table files are written once.
  Opening a path is the argument \<open>open_file\<close>, the file system. The leases a read takes only order
  it against compactions, so a read is one step on the memtable and the manifest manager, which it
  changes only in the handle cache.
\<close>

type_synonym memtable = "(bytes \<times> u64, memtable_record) btree_map"

datatype 'a bound = Included 'a | Excluded 'a | Unbounded

type_synonym key_range = "bytes bound \<times> bytes bound"

record read_manager =
  rm_memtable :: memtable
  rm_manifest :: "bytes manifest_manager"

definition ReadManager_new :: "memtable \<Rightarrow> bytes manifest_manager \<Rightarrow> read_manager" where
  "ReadManager_new memtable manifest = \<lparr>rm_memtable = memtable, rm_manifest = manifest\<rparr>"

definition set_memtable :: "memtable \<Rightarrow> read_manager \<Rightarrow> read_manager" where
  "set_memtable memtable rm = rm\<lparr>rm_memtable := memtable\<rparr>"

section \<open>Ranges\<close>

definition above :: "'a::linorder bound \<Rightarrow> 'a \<Rightarrow> bool" where
  "above b x = (case b of Included a \<Rightarrow> a \<le> x | Excluded a \<Rightarrow> a < x | Unbounded \<Rightarrow> True)"

definition below :: "'a::linorder bound \<Rightarrow> 'a \<Rightarrow> bool" where
  "below b x = (case b of Included a \<Rightarrow> x \<le> a | Excluded a \<Rightarrow> x < a | Unbounded \<Rightarrow> True)"

text \<open>\<open>SkipMap::range\<close>: the entries between two bounds, in key order.\<close>

definition skip_range ::
  "'k::linorder bound \<times> 'k bound \<Rightarrow> ('k, 'v) btree_map \<Rightarrow> ('k, 'v) btree_map" where
  "skip_range bs m = filter (\<lambda>e. above (fst bs) (fst e) \<and> below (snd bs) (fst e)) m"

definition u64_max :: u64 where "u64_max = - 1"

definition collect_range_bounds :: "key_range \<Rightarrow> (bytes \<times> u64) bound \<times> (bytes \<times> u64) bound" where
  "collect_range_bounds rng =
     (case fst rng of
        Included key \<Rightarrow> Included (key, 0)
      | Excluded key \<Rightarrow> Excluded (key, u64_max)
      | Unbounded \<Rightarrow> Unbounded,
      case snd rng of
        Included key \<Rightarrow> Included (key, u64_max)
      | Excluded key \<Rightarrow> Excluded (key, 0)
      | Unbounded \<Rightarrow> Unbounded)"

definition bound_key :: "'a bound \<Rightarrow> 'a option" where
  "bound_key b = (case b of Included k \<Rightarrow> Some k | Excluded k \<Rightarrow> Some k | Unbounded \<Rightarrow> None)"

definition ranges_overlap :: "key_range \<Rightarrow> bytes \<Rightarrow> bytes \<Rightarrow> bool" where
  "ranges_overlap rng sst_start sst_end =
     (let range_start = bound_key (fst rng); range_end = bound_key (snd rng) in
      if (case range_end of Some e \<Rightarrow> sst_start > e | None \<Rightarrow> False) then False
      else if (case range_start of Some s \<Rightarrow> sst_end < s | None \<Rightarrow> False) then False
      else True)"

definition key_in_range :: "bytes \<Rightarrow> key_range \<Rightarrow> bool" where
  "key_in_range key rng =
     (if (case fst rng of
            Included start \<Rightarrow> key < start | Excluded start \<Rightarrow> key \<le> start | Unbounded \<Rightarrow> False)
      then False
      else if (case snd rng of
                 Included e \<Rightarrow> key > e | Excluded e \<Rightarrow> key \<ge> e | Unbounded \<Rightarrow> False)
      then False
      else True)"

section \<open>Range scans\<close>

definition keep_newer ::
  "bytes \<Rightarrow> memtable_record \<Rightarrow> (bytes, memtable_record) btree_map \<Rightarrow>
   (bytes, memtable_record) btree_map" where
  "keep_newer key candidate merged =
     (let is_newer = (case map_of merged key of
                        Some current \<Rightarrow> is_newer_record candidate current | None \<Rightarrow> True)
      in if is_newer then bt_insert key candidate merged else merged)"

fun scan_memtable ::
  "u64 \<Rightarrow> memtable \<Rightarrow> (bytes, memtable_record) btree_map \<Rightarrow> (bytes, memtable_record) btree_map" where
  "scan_memtable sequence_number [] merged = merged"
| "scan_memtable sequence_number (((key, lsn), record) # es) merged =
     scan_memtable sequence_number es
       (if lsn > sequence_number then merged else keep_newer key record merged)"

fun scan_block ::
  "key_range \<Rightarrow> u64 \<Rightarrow> memtable_record list \<Rightarrow> (bytes, memtable_record) btree_map \<Rightarrow>
   (bytes, memtable_record) btree_map" where
  "scan_block rng sequence_number [] merged = merged"
| "scan_block rng sequence_number (record # records) merged =
     scan_block rng sequence_number records
       (if mr_lsn record > sequence_number then merged
        else if \<not> key_in_range (mr_key record) rng then merged
        else keep_newer (mr_key record) record merged)"

fun scan_blocks ::
  "(bytes \<Rightarrow> u32) \<Rightarrow> bytes \<Rightarrow> sstable_footer \<Rightarrow> sparse_index_entry list \<Rightarrow> key_range \<Rightarrow> u64 \<Rightarrow>
   sparse_index_entry list \<Rightarrow> (bytes, memtable_record) btree_map \<Rightarrow>
   (bytes, memtable_record) btree_map result" where
  "scan_blocks crc file footer index rng sequence_number [] merged = Inr merged"
| "scan_blocks crc file footer index rng sequence_number (entry # entries) merged =
     (if \<not> ranges_overlap rng (si_first_key entry) (si_last_key entry)
      then scan_blocks crc file footer index rng sequence_number entries merged
      else rbind (get_block crc file footer index (si_first_key entry)) (\<lambda>block.
             scan_blocks crc file footer index rng sequence_number entries
               (case b_data block of
                  Some records \<Rightarrow> scan_block rng sequence_number records merged
                | None \<Rightarrow> merged)))"

definition scan_single_sstable ::
  "(bytes \<Rightarrow> u32) \<Rightarrow> ('f, 'r) bloom_api \<Rightarrow> (bytes \<Rightarrow> bytes result) \<Rightarrow> sstable_meta \<Rightarrow> key_range \<Rightarrow>
   u64 \<Rightarrow> (bytes, memtable_record) btree_map \<Rightarrow> bytes manifest_manager \<Rightarrow>
   (bytes, memtable_record) btree_map result \<times> bytes manifest_manager" where
  "scan_single_sstable crc api open_file sstable rng sequence_number merged mm =
     (if \<not> ranges_overlap rng (sm_smallest_key sstable) (sm_largest_key sstable) then (Inr merged, mm)
      else
        (case get_or_open_file open_file (sm_path sstable) mm of
           (Inl e, mm) \<Rightarrow> (Inl e, mm)
         | (Inr file, mm) \<Rightarrow>
             (rbind (deserialize_sections crc api file) (\<lambda>(footer, index, _).
                scan_blocks crc file footer index rng sequence_number index merged), mm)))"

fun scan_sstables ::
  "(bytes \<Rightarrow> u32) \<Rightarrow> ('f, 'r) bloom_api \<Rightarrow> (bytes \<Rightarrow> bytes result) \<Rightarrow> sstable_meta list \<Rightarrow> key_range \<Rightarrow>
   u64 \<Rightarrow> (bytes, memtable_record) btree_map \<Rightarrow> bytes manifest_manager \<Rightarrow>
   (bytes, memtable_record) btree_map result \<times> bytes manifest_manager" where
  "scan_sstables crc api open_file [] rng sequence_number merged mm = (Inr merged, mm)"
| "scan_sstables crc api open_file (sstable # sstables) rng sequence_number merged mm =
     (case scan_single_sstable crc api open_file sstable rng sequence_number merged mm of
        (Inl e, mm) \<Rightarrow> (Inl e, mm)
      | (Inr merged, mm) \<Rightarrow>
          scan_sstables crc api open_file sstables rng sequence_number merged mm)"

text \<open>The files of all levels, from level 0 down, as \<open>levels.sort_by_key\<close> orders them.\<close>

definition level_order :: "manifest_snapshot \<Rightarrow> sstable_meta list" where
  "level_order snap = concat (map snd (sn_levels snap))"

definition scan_records_range ::
  "(bytes \<Rightarrow> u32) \<Rightarrow> ('f, 'r) bloom_api \<Rightarrow> (bytes \<Rightarrow> bytes result) \<Rightarrow> key_range \<Rightarrow> u64 \<Rightarrow> read_manager \<Rightarrow>
   (bytes \<times> memtable_record) list result \<times> read_manager" where
  "scan_records_range crc api open_file rng sequence_number rm =
     (let merged = scan_memtable sequence_number
                     (skip_range (collect_range_bounds rng) (rm_memtable rm)) [];
          manifest_snapshot = snapshot (rm_manifest rm)
      in case scan_sstables crc api open_file (level_order manifest_snapshot) rng sequence_number
                merged (rm_manifest rm) of
           (Inl e, mm) \<Rightarrow> (Inl e, rm\<lparr>rm_manifest := mm\<rparr>)
         | (Inr merged, mm) \<Rightarrow>
             (Inr (sort_key fst (filter (\<lambda>e. mr_type (snd e) \<noteq> Delete) merged)),
              rm\<lparr>rm_manifest := mm\<rparr>))"

definition scan_range ::
  "(bytes \<Rightarrow> u32) \<Rightarrow> ('f, 'r) bloom_api \<Rightarrow> (bytes \<Rightarrow> bytes result) \<Rightarrow> key_range \<Rightarrow> u64 \<Rightarrow> read_manager \<Rightarrow>
   (bytes \<times> bytes) list result \<times> read_manager" where
  "scan_range crc api open_file rng sequence_number rm =
     apfst (map_sum id (map (\<lambda>(key, record). (key, mr_value record))))
       (scan_records_range crc api open_file rng sequence_number rm)"

section \<open>Point reads\<close>

fun find_record :: "bytes \<Rightarrow> memtable_record list \<Rightarrow> memtable_record option" where
  "find_record key [] = None"
| "find_record key (record # records) = (if mr_key record = key then Some record else find_record key records)"

fun search_blocks ::
  "(bytes \<Rightarrow> u32) \<Rightarrow> bytes \<Rightarrow> sstable_footer \<Rightarrow> sparse_index_entry list \<Rightarrow> bytes \<Rightarrow>
   sparse_index_entry list \<Rightarrow> memtable_record option result" where
  "search_blocks crc file footer index key [] = Inr None"
| "search_blocks crc file footer index key (entry # entries) =
     (if key < si_first_key entry \<or> key > si_last_key entry
      then search_blocks crc file footer index key entries
      else rbind (get_block crc file footer index (si_first_key entry)) (\<lambda>block.
             case (case b_data block of Some records \<Rightarrow> find_record key records | None \<Rightarrow> None) of
               Some record \<Rightarrow> Inr (Some record)
             | None \<Rightarrow> search_blocks crc file footer index key entries))"

text \<open>\<open>get_from_single_sstable\<close> takes the sequence number of the reader and does not look at it.\<close>

definition get_from_single_sstable ::
  "(bytes \<Rightarrow> u32) \<Rightarrow> ('f, 'r) bloom_api \<Rightarrow> (bytes \<Rightarrow> bytes result) \<Rightarrow> sstable_meta \<Rightarrow> bytes \<Rightarrow> u64 \<Rightarrow>
   bytes manifest_manager \<Rightarrow> memtable_record option result \<times> bytes manifest_manager" where
  "get_from_single_sstable crc api open_file sstable key sequence_number mm =
     (case get_or_open_file open_file (sm_path sstable) mm of
        (Inl e, mm) \<Rightarrow> (Inl e, mm)
      | (Inr file, mm) \<Rightarrow>
          (rbind (deserialize_sections crc api file) (\<lambda>(footer, index, bloom).
             if \<not> bloom_contains api bloom key then Inr None
             else search_blocks crc file footer index key index), mm))"

text \<open>Level 0: every file, keeping the record with the highest LSN.\<close>

fun best_of_level0 ::
  "(bytes \<Rightarrow> u32) \<Rightarrow> ('f, 'r) bloom_api \<Rightarrow> (bytes \<Rightarrow> bytes result) \<Rightarrow> sstable_meta list \<Rightarrow> bytes \<Rightarrow>
   u64 \<Rightarrow> memtable_record option \<Rightarrow> bytes manifest_manager \<Rightarrow>
   memtable_record option result \<times> bytes manifest_manager" where
  "best_of_level0 crc api open_file [] key sequence_number best mm = (Inr best, mm)"
| "best_of_level0 crc api open_file (sstable # sstables) key sequence_number best mm =
     (case get_from_single_sstable crc api open_file sstable key sequence_number mm of
        (Inl e, mm) \<Rightarrow> (Inl e, mm)
      | (Inr found, mm) \<Rightarrow>
          best_of_level0 crc api open_file sstables key sequence_number
            (case found of
               None \<Rightarrow> best
             | Some record \<Rightarrow>
                 (if (case best of Some current \<Rightarrow> mr_lsn record > mr_lsn current | None \<Rightarrow> True)
                  then Some record else best)) mm)"

text \<open>Deeper levels: the first match.\<close>

fun first_of_level ::
  "(bytes \<Rightarrow> u32) \<Rightarrow> ('f, 'r) bloom_api \<Rightarrow> (bytes \<Rightarrow> bytes result) \<Rightarrow> sstable_meta list \<Rightarrow> bytes \<Rightarrow>
   u64 \<Rightarrow> bytes manifest_manager \<Rightarrow> memtable_record option result \<times> bytes manifest_manager" where
  "first_of_level crc api open_file [] key sequence_number mm = (Inr None, mm)"
| "first_of_level crc api open_file (sstable # sstables) key sequence_number mm =
     (case get_from_single_sstable crc api open_file sstable key sequence_number mm of
        (Inl e, mm) \<Rightarrow> (Inl e, mm)
      | (Inr (Some record), mm) \<Rightarrow> (Inr (Some record), mm)
      | (Inr None, mm) \<Rightarrow> first_of_level crc api open_file sstables key sequence_number mm)"

fun get_from_levels ::
  "(bytes \<Rightarrow> u32) \<Rightarrow> ('f, 'r) bloom_api \<Rightarrow> (bytes \<Rightarrow> bytes result) \<Rightarrow> (u32 \<times> sstable_meta list) list \<Rightarrow>
   bytes \<Rightarrow> u64 \<Rightarrow> bytes manifest_manager \<Rightarrow> memtable_record option result \<times> bytes manifest_manager" where
  "get_from_levels crc api open_file [] key sequence_number mm = (Inr None, mm)"
| "get_from_levels crc api open_file ((level, files) # levels) key sequence_number mm =
     (case (if level = 0 then best_of_level0 crc api open_file files key sequence_number None mm
            else first_of_level crc api open_file (rev files) key sequence_number mm) of
        (Inl e, mm) \<Rightarrow> (Inl e, mm)
      | (Inr (Some record), mm) \<Rightarrow>
          (Inr (case mr_type record of Delete \<Rightarrow> None | _ \<Rightarrow> Some record), mm)
      | (Inr None, mm) \<Rightarrow> get_from_levels crc api open_file levels key sequence_number mm)"

definition get_from_sstable ::
  "(bytes \<Rightarrow> u32) \<Rightarrow> ('f, 'r) bloom_api \<Rightarrow> (bytes \<Rightarrow> bytes result) \<Rightarrow> manifest_snapshot \<Rightarrow> bytes \<Rightarrow> u64 \<Rightarrow>
   bytes manifest_manager \<Rightarrow> memtable_record option result \<times> bytes manifest_manager" where
  "get_from_sstable crc api open_file manifest_snapshot key sequence_number mm =
     get_from_levels crc api open_file (sn_levels manifest_snapshot) key sequence_number mm"

definition ReadManager_get ::
  "(bytes \<Rightarrow> u32) \<Rightarrow> ('f, 'r) bloom_api \<Rightarrow> (bytes \<Rightarrow> bytes result) \<Rightarrow> bytes \<Rightarrow> u64 \<Rightarrow> read_manager \<Rightarrow>
   memtable_record option result \<times> read_manager" where
  "ReadManager_get crc api open_file key sequence_number rm =
     (let versions = skip_range (Included (key, 0), Included (key, sequence_number)) (rm_memtable rm);
          in_mem = (if versions = [] then None else Some (snd (last versions)))
      in if in_mem \<noteq> None then (Inr in_mem, rm)
         else
           (case get_from_sstable crc api open_file (snapshot (rm_manifest rm)) key sequence_number
                   (rm_manifest rm) of
              (res, mm) \<Rightarrow> (res, rm\<lparr>rm_manifest := mm\<rparr>)))"

end
