(* ===== verification/Config.thy ===== *)
theory Config
  imports Prelude
begin

text \<open>
  \<open>src/storage/config.rs\<close>: the tunable parameters of the engine, their limits and the builder;
  \<open>src/config.rs\<close>: the command line options they are made from. Arithmetic on \<open>u64\<close> and \<open>usize\<close>
  wraps, as in a release build.
\<close>

section \<open>Parameters of the engine\<close>

record storage_config =
  memtable_size_threshold :: u64
  sstable_block_size :: u64
  max_level0_files :: u64
  target_sstable_bytes :: u64
  level_base_bytes :: u64
  level_size_multiplier :: u64
  wal_segment_size :: u64
  bloom_false_positive_rate :: f64
  max_sstable_file_handles :: u64

text \<open>\<open>0.01\<close> is the double nearest to one hundredth.\<close>

definition one_percent :: f64 where
  "one_percent = Dyadic 5764607523034235 59"

definition StorageConfig_default :: storage_config where
  "StorageConfig_default =
     \<lparr>memtable_size_threshold = 4 * 1024 * 1024, sstable_block_size = 4096, max_level0_files = 2,
      target_sstable_bytes = 2 * 1024 * 1024, level_base_bytes = 16 * 1024 * 1024,
      level_size_multiplier = 10, wal_segment_size = 1024 * 1024,
      bloom_false_positive_rate = one_percent, max_sstable_file_handles = 64\<rparr>"

definition StorageConfig_validate :: "storage_config \<Rightarrow> unit result" where
  "StorageConfig_validate c =
     rbind (guard_err (memtable_size_threshold c < 1024 * 1024)
              (StorageError ''memtable_size_threshold must be >= 1 MB'')) (\<lambda>_.
     rbind (guard_err (memtable_size_threshold c > 64 * 1024 * 1024)
              (StorageError ''memtable_size_threshold must be <= 64 MB'')) (\<lambda>_.
     rbind (guard_err (sstable_block_size c < 1024)
              (StorageError ''sstable_block_size must be >= 1 KB'')) (\<lambda>_.
     rbind (guard_err (sstable_block_size c > 64 * 1024)
              (StorageError ''sstable_block_size must be <= 64 KB'')) (\<lambda>_.
     rbind (guard_err (max_level0_files c < 1 \<or> max_level0_files c > 10)
              (StorageError ''max_level0_files must be between 1 and 10'')) (\<lambda>_.
     rbind (guard_err (target_sstable_bytes c = 0 \<or> level_base_bytes c = 0 \<or> level_size_multiplier c < 2)
              (StorageError ''compaction byte targets must be positive and level_size_multiplier >= 2'')) (\<lambda>_.
     rbind (guard_err (wal_segment_size c < 256 * 1024)
              (StorageError ''wal_segment_size must be >= 256 KB'')) (\<lambda>_.
     rbind (guard_err (wal_segment_size c > 10 * 1024 * 1024)
              (StorageError ''wal_segment_size must be <= 10 MB'')) (\<lambda>_.
     rbind (guard_err (f64_le (bloom_false_positive_rate c) (Dyadic 0 0)
                       \<or> f64_le (Dyadic 1 0) (bloom_false_positive_rate c))
              (StorageError ''bloom_false_positive_rate must be between 0.0 and 1.0 (exclusive)'')) (\<lambda>_.
     guard_err (max_sstable_file_handles c < 8 \<or> max_sstable_file_handles c > 512)
       (StorageError ''max_sstable_file_handles must be between 8 and 512''))))))))))"

section \<open>The builder\<close>

record storage_config_builder =
  sb_memtable_size_threshold :: "u64 option"
  sb_sstable_block_size :: "u64 option"
  sb_max_level0_files :: "u64 option"
  sb_target_sstable_bytes :: "u64 option"
  sb_level_base_bytes :: "u64 option"
  sb_level_size_multiplier :: "u64 option"
  sb_wal_segment_size :: "u64 option"
  sb_bloom_false_positive_rate :: "f64 option"
  sb_max_sstable_file_handles :: "u64 option"





definition set_target_sstable_bytes :: "u64 \<Rightarrow> storage_config_builder \<Rightarrow> storage_config_builder" where
  "set_target_sstable_bytes bytes b = b\<lparr>sb_target_sstable_bytes := Some bytes\<rparr>"

definition set_level_base_bytes :: "u64 \<Rightarrow> storage_config_builder \<Rightarrow> storage_config_builder" where
  "set_level_base_bytes bytes b = b\<lparr>sb_level_base_bytes := Some bytes\<rparr>"

definition set_level_size_multiplier :: "u64 \<Rightarrow> storage_config_builder \<Rightarrow> storage_config_builder" where
  "set_level_size_multiplier multiplier b = b\<lparr>sb_level_size_multiplier := Some multiplier\<rparr>"



definition set_max_sstable_file_handles :: "u64 \<Rightarrow> storage_config_builder \<Rightarrow> storage_config_builder" where
  "set_max_sstable_file_handles count b = b\<lparr>sb_max_sstable_file_handles := Some count\<rparr>"

definition unwrap_or :: "'a option \<Rightarrow> 'a \<Rightarrow> 'a" where
  "unwrap_or x d = (case x of None \<Rightarrow> d | Some v \<Rightarrow> v)"

lemma unwrap_or_simps [simp]: "unwrap_or None d = d" "unwrap_or (Some v) d = v"
  by (simp_all add: unwrap_or_def)

text \<open>The record \<open>build\<close> makes, before it is validated.\<close>

definition filled :: "storage_config_builder \<Rightarrow> storage_config" where
  "filled b =
     (let d = StorageConfig_default in
      \<lparr>memtable_size_threshold = unwrap_or (sb_memtable_size_threshold b) (memtable_size_threshold d),
       sstable_block_size = unwrap_or (sb_sstable_block_size b) (sstable_block_size d),
       max_level0_files = unwrap_or (sb_max_level0_files b) (max_level0_files d),
       target_sstable_bytes = unwrap_or (sb_target_sstable_bytes b) (target_sstable_bytes d),
       level_base_bytes = unwrap_or (sb_level_base_bytes b) (level_base_bytes d),
       level_size_multiplier = unwrap_or (sb_level_size_multiplier b) (level_size_multiplier d),
       wal_segment_size = unwrap_or (sb_wal_segment_size b) (wal_segment_size d),
       bloom_false_positive_rate =
         unwrap_or (sb_bloom_false_positive_rate b) (bloom_false_positive_rate d),
       max_sstable_file_handles =
         unwrap_or (sb_max_sstable_file_handles b) (max_sstable_file_handles d)\<rparr>)"

definition StorageConfigBuilder_build :: "storage_config_builder \<Rightarrow> storage_config result" where
  "StorageConfigBuilder_build b =
     (let config = filled b in rbind (StorageConfig_validate config) (\<lambda>_. Inr config))"

section \<open>Command line options\<close>

record cli_config =
  log_level :: string
  verbose :: bool
  memtable_size_mb :: u64
  block_size_kb :: u64
  cli_max_level0_files :: u64
  wal_segment_size_mb :: u64
  bloom_fp_rate :: f64

datatype level_filter = LevelOff | LevelError | LevelWarn | LevelInfo | LevelDebug | LevelTrace

text \<open>\<open>to_lowercase\<close>, on the ASCII letters the names below consist of.\<close>

definition to_lowercase :: "string \<Rightarrow> string" where
  "to_lowercase s =
     map (\<lambda>c. if (of_char c :: nat) \<in> {65..90} then char_of ((of_char c :: nat) + 32) else c) s"

definition get_log_level :: "cli_config \<Rightarrow> level_filter" where
  "get_log_level c =
     (if verbose c then LevelDebug
      else let s = to_lowercase (log_level c) in
        if s = ''off'' then LevelOff
        else if s = ''error'' then LevelError
        else if s = ''warn'' then LevelWarn
        else if s = ''info'' then LevelInfo
        else if s = ''debug'' then LevelDebug
        else if s = ''trace'' then LevelTrace
        else LevelInfo)"


section \<open>Properties\<close>

text \<open>
  The limits that \<open>validate\<close> enforces. They are the documented ones except for the rate, documented as
  0.0001 to 0.1 and checked only to lie strictly between 0 and 1 (\<open>rate_ok\<close>).
\<close>

definition config_ok :: "storage_config \<Rightarrow> bool" where
  "config_ok c \<longleftrightarrow>
     memtable_size_threshold c \<in> {1048576 .. 67108864} \<and> sstable_block_size c \<in> {1024 .. 65536}
     \<and> max_level0_files c \<in> {1 .. 10} \<and> 0 < target_sstable_bytes c \<and> 0 < level_base_bytes c
     \<and> 2 \<le> level_size_multiplier c \<and> wal_segment_size c \<in> {262144 .. 10485760}
     \<and> max_sstable_file_handles c \<in> {8 .. 512}"

definition rate_ok :: "f64 \<Rightarrow> bool" where
  "rate_ok r = (case r of Dyadic m e \<Rightarrow> 0 < m \<and> m < 2 ^ e | _ \<Rightarrow> False)"

lemma rate_check:
  "\<not> f64_le r (Dyadic 0 0) \<and> \<not> f64_le (Dyadic 1 0) r \<longleftrightarrow> rate_ok r \<or> r = NaN"
  by (cases r) (auto simp: f64_le_def rate_ok_def)

lemma word_one_le: "(1 :: u64) \<le> w \<longleftrightarrow> w \<noteq> 0"
  using word_less_1 [of w] by (auto simp: not_less [symmetric])

lemma validate_iff: "is_ok (StorageConfig_validate c)
   \<longleftrightarrow> config_ok c \<and> (rate_ok (bloom_false_positive_rate c) \<or> bloom_false_positive_rate c = NaN)"
  unfolding rate_check [symmetric]
  by (auto simp: StorageConfig_validate_def config_ok_def guard_err_def rbind_def word_gt_0 not_less
      not_le word_one_le)

text \<open>
  C35: the builder gives out only configurations within the limits that \<open>validate\<close> enforces. \<open>build\<close>
  succeeds exactly when the sizes and counts, defaults filled in, are within those limits and the false
  positive rate lies strictly between 0 and 1 or is not a number, and it then returns those parameters.
  The narrower range 0.0001 to 0.1 that the field's documentation gives is not enforced.
\<close>

theorem build_within_limits:
  "StorageConfigBuilder_build b = Inr c \<longleftrightarrow>
     c = filled b \<and> config_ok c
     \<and> (rate_ok (bloom_false_positive_rate c) \<or> bloom_false_positive_rate c = NaN)"
  using validate_iff [of "filled b"]
  by (auto simp: StorageConfigBuilder_build_def rbind_eq_Inr is_ok_def Let_def split: sum.splits)





end
