(* ===== verification/Paths.thy ===== *)
theory Paths
  imports Prelude
begin

text \<open>
  The parts of \<open>std::path\<close> and \<open>std::fmt\<close> the storage code names its files with, on Unix: a path is
  its bytes, components are separated by \<open>/\<close>, and empty and \<open>.\<close> components inside a path do not
  count. \<open>path_parent\<close> follows \<open>Path::parent\<close>: the last component is dropped and what is left is
  trimmed on the right.
\<close>

definition ascii :: "string \<Rightarrow> bytes" where
  "ascii s = map of_char s"

abbreviation slash :: byte where "slash \<equiv> 0x2F"
abbreviation dot :: byte where "dot \<equiv> 0x2E"

text \<open>\<open>format!\<close> of an unsigned integer.\<close>

fun decimal :: "nat \<Rightarrow> bytes" where
  "decimal n = (if n < 10 then [of_nat (48 + n)] else decimal (n div 10) @ [of_nat (48 + n mod 10)])"

declare decimal.simps [simp del]

definition path_join :: "bytes \<Rightarrow> bytes \<Rightarrow> bytes" where
  "path_join dir name =
     (if name \<noteq> [] \<and> hd name = slash then name
      else if dir = [] \<or> last dir = slash then dir @ name
      else dir @ [slash] @ name)"

text \<open>The bytes before the body: the root, or a leading \<open>.\<close> component.\<close>

definition has_root :: "bytes \<Rightarrow> bool" where
  "has_root p \<longleftrightarrow> p \<noteq> [] \<and> hd p = slash"

definition leading_dot :: "bytes \<Rightarrow> bool" where
  "leading_dot p \<longleftrightarrow> \<not> has_root p \<and> p \<noteq> [] \<and> hd p = dot \<and> (tl p = [] \<or> hd (tl p) = slash)"

definition before_body :: "bytes \<Rightarrow> nat" where
  "before_body p = (if has_root p \<or> leading_dot p then 1 else 0)"

text \<open>The last component, and what is before its separator.\<close>

definition split_last :: "bytes \<Rightarrow> bytes \<times> bytes" where
  "split_last b =
     (let c = takeWhile (\<lambda>x. x \<noteq> slash) (rev b)
      in (take (length b - Suc (length c)) b, rev c))"

lemma split_last_shorter: "b \<noteq> [] \<Longrightarrow> length (fst (split_last b)) < length b"
  by (cases b) (auto simp: split_last_def Let_def)

function path_trim :: "bytes \<Rightarrow> bytes" where
  "path_trim b =
     (if b = [] then []
      else if snd (split_last b) = [] \<or> snd (split_last b) = [dot] then path_trim (fst (split_last b))
      else b)"
  by auto
termination by (relation "measure length") (auto simp: split_last_shorter)

declare path_trim.simps [simp del]

definition path_parent :: "bytes \<Rightarrow> bytes option" where
  "path_parent p =
     (let n = before_body p; body = path_trim (drop n p)
      in if body \<noteq> [] then Some (take n p @ path_trim (fst (split_last body)))
         else if has_root p then None
         else if leading_dot p then Some [] else None)"

section \<open>Facts\<close>

text \<open>A name that is one component.\<close>

definition plain_name :: "bytes \<Rightarrow> bool" where
  "plain_name name \<longleftrightarrow> name \<noteq> [] \<and> name \<noteq> [dot] \<and> slash \<notin> set name"

lemma split_last_join: "slash \<notin> set name \<Longrightarrow> split_last (dir @ slash # name) = (dir, name)"
proof -
  assume n: "slash \<notin> set name"
  have "takeWhile (\<lambda>x. x \<noteq> slash) (rev name @ slash # rev dir) = rev name"
    using n by (subst takeWhile_append2) auto
  then show ?thesis by (simp add: split_last_def Let_def)
qed

text \<open>A directory in normal form: it does not end in something \<open>path_trim\<close> removes.\<close>

definition plain_dir :: "bytes \<Rightarrow> bool" where
  "plain_dir dir \<longleftrightarrow> before_body dir < length dir \<and> path_trim (drop (before_body dir) dir) = drop (before_body dir) dir"

lemma path_trim_join: "plain_name name \<Longrightarrow> path_trim (dir @ slash # name) = dir @ slash # name"
  by (subst path_trim.simps) (simp add: split_last_join plain_name_def)

lemma before_body_append: "before_body dir < length dir \<Longrightarrow> before_body (dir @ rest) = before_body dir"
  by (cases dir; cases "tl dir") (auto simp: before_body_def has_root_def leading_dot_def split: if_splits)

lemma path_trim_length: "length (path_trim b) \<le> length b"
proof (induction b rule: path_trim.induct)
  case (1 b)
  show ?case
  proof (cases "b \<noteq> [] \<and> (snd (split_last b) = [] \<or> snd (split_last b) = [dot])")
    case True
    then have "path_trim b = path_trim (fst (split_last b))" by (subst path_trim.simps) simp
    moreover have "length (path_trim (fst (split_last b))) \<le> length (fst (split_last b))"
      using 1 True by blast
    ultimately show ?thesis using split_last_shorter [of b] True by simp
  next
    case False
    then show ?thesis by (subst path_trim.simps) auto
  qed
qed

lemma plain_dir_not_slash: "plain_dir dir \<Longrightarrow> dir \<noteq> [] \<and> last dir \<noteq> slash"
proof -
  assume p: "plain_dir dir"
  let ?b = "drop (before_body dir) dir"
  have ne: "?b \<noteq> []" and trim: "path_trim ?b = ?b" using p by (auto simp: plain_dir_def)
  have "last ?b \<noteq> slash"
  proof
    assume "last ?b = slash"
    then have "?b = butlast ?b @ slash # []" using ne by (metis append_butlast_last_id)
    then have "split_last ?b = (butlast ?b, [])" using split_last_join [of "[]" "butlast ?b"] by simp
    then have "length (path_trim ?b) < length ?b"
      using ne path_trim_length [of "butlast ?b"]
      by (subst path_trim.simps) (auto intro: le_less_trans)
    with trim show False by simp
  qed
  with ne show ?thesis by auto
qed

lemma path_parent_join:
  assumes "plain_dir dir" and "plain_name name"
  shows "path_parent (path_join dir name) = Some dir"
proof -
  have n: "name \<noteq> []" "slash \<notin> set name" using assms(2) by (auto simp: plain_name_def)
  have j: "path_join dir name = dir @ slash # name"
    using n plain_dir_not_slash [OF assms(1)] by (cases name) (auto simp: path_join_def)
  have lt: "before_body dir < length dir" using assms(1) by (simp add: plain_dir_def)
  have bb: "before_body (dir @ slash # name) = before_body dir" using lt by (rule before_body_append)
  have "drop (before_body dir) (dir @ slash # name) = drop (before_body dir) dir @ slash # name"
    using lt by simp
  then show ?thesis
    using assms lt by (simp add: path_parent_def j bb Let_def path_trim_join split_last_join n plain_dir_def)
qed

end
