(* ===== verification/Table_Files.thy ===== *)
theory Table_Files
  imports Manifest SSTables Paths
begin

text \<open>
  Table files on disk, as the flush (\<open>src/storage/writemanager/write.rs\<close>) and the compaction
  (\<open>src/storage/compactionmanager/compaction.rs\<close>) use them. The directory tree is a map from paths
  to contents. Which calls fail is an argument of each operation, \<open>faults\<close>: \<open>None\<close> when the call on
  that path succeeds, \<open>Some n\<close> when it fails, a write after \<open>n\<close> bytes.
\<close>

type_synonym files = "bytes \<Rightarrow> bytes option"

datatype fs_call = MakeDirs | OpenFile | Metadata | CreateNew | WriteAll | SyncAll | SyncDir | RemoveFile

type_synonym faults = "fs_call \<Rightarrow> bytes \<Rightarrow> nat option"

definition io_fault :: "faults \<Rightarrow> fs_call \<Rightarrow> bytes \<Rightarrow> unit result" where
  "io_fault faults c path = guard_err (faults c path \<noteq> None) (IO OtherIo)"

text \<open>The contents of a file, and the two calls that read a directory entry.\<close>

definition file_contents :: "files \<Rightarrow> bytes \<Rightarrow> bytes result" where
  "file_contents fs path = (case fs path of None \<Rightarrow> Inl (Err (IO OtherIo)) | Some c \<Rightarrow> Inr c)"

definition open_path :: "faults \<Rightarrow> files \<Rightarrow> bytes \<Rightarrow> bytes result" where
  "open_path faults fs path = rbind (io_fault faults OpenFile path) (\<lambda>_. file_contents fs path)"

definition metadata_len :: "faults \<Rightarrow> files \<Rightarrow> bytes \<Rightarrow> u64 result" where
  "metadata_len faults fs path =
     rbind (io_fault faults Metadata path) (\<lambda>_.
     rbind (file_contents fs path) (\<lambda>c. Inr (of_nat (length c))))"

lemma open_path_Inr: "open_path faults fs path = Inr c \<Longrightarrow> fs path = Some c"
  by (auto simp: open_path_def file_contents_def rbind_eq_Inr split: option.splits)

lemma metadata_len_Inr: "metadata_len faults fs path = Inr n \<Longrightarrow> \<exists>c. fs path = Some c \<and> n = of_nat (length c)"
  by (auto simp: metadata_len_def file_contents_def rbind_eq_Inr split: option.splits)

section \<open>Creating a table file under a fresh id\<close>

lemma allocate_next:
  "allocate_file_id m = (Inr i, m') \<Longrightarrow>
     i = ms_next_file_id (mm_state m) \<and> unat (ms_next_file_id (mm_state m')) = Suc (unat i)
     \<and> ms_levels (mm_state m') = ms_levels (mm_state m) \<and> mm_cache m' = mm_cache m"
  by (auto simp: allocate_file_id_def Let_def split: option.splits dest!: checked_add_one_Some(1))

text \<open>
  The loop around \<open>create_new\<close>: an id whose file already exists is skipped. \<open>before\<close> is what the
  caller does before it creates the file. The loop ends because the ids are bounded.
\<close>

function create_table_file ::
  "(u64 \<Rightarrow> bytes) \<Rightarrow> (bytes \<Rightarrow> unit result) \<Rightarrow> faults \<Rightarrow> files \<Rightarrow> 'h manifest_manager \<Rightarrow>
   (u64 \<times> bytes) result \<times> 'h manifest_manager" where
  "create_table_file path_of before faults fs mm =
     (case allocate_file_id mm of
        (Inl e, mm') \<Rightarrow> (Inl e, mm')
      | (Inr file_id, mm') \<Rightarrow>
          (case before (path_of file_id) of
             Inl e \<Rightarrow> (Inl e, mm')
           | Inr _ \<Rightarrow>
               (if faults CreateNew (path_of file_id) \<noteq> None then (Inl (Err (IO OtherIo)), mm')
                else if fs (path_of file_id) \<noteq> None
                then create_table_file path_of before faults fs mm'
                else (Inr (file_id, path_of file_id), mm'))))"
  by pat_completeness auto
termination
proof (relation "measure (\<lambda>(path_of, before, faults, fs, mm). 2 ^ 64 - unat (ms_next_file_id (mm_state mm)))")
  fix path_of before faults fs and mm mm' :: "'h manifest_manager" and r file_id u
  assume "(r, mm') = allocate_file_id mm" and "r = Inr file_id"
  then have "unat (ms_next_file_id (mm_state mm')) = Suc (unat (ms_next_file_id (mm_state mm)))"
    using allocate_next [of mm file_id mm'] by simp
  moreover have "unat (ms_next_file_id (mm_state mm')) < 2 ^ 64" by simp
  ultimately show "((path_of, before, faults, fs, mm'), path_of, before, faults, fs, mm)
    \<in> measure (\<lambda>(path_of, before, faults, fs, mm). 2 ^ 64 - unat (ms_next_file_id (mm_state mm)))"
    by simp
qed simp

declare create_table_file.simps [simp del]

text \<open>Writing the new file: the bytes and \<open>sync_all\<close>.\<close>

definition write_table_file :: "faults \<Rightarrow> bytes \<Rightarrow> bytes \<Rightarrow> files \<Rightarrow> unit result \<times> files" where
  "write_table_file faults path encoded fs =
     (case faults WriteAll path of
        Some n \<Rightarrow> (Inl (Err (IO OtherIo)), fs(path \<mapsto> take n encoded))
      | None \<Rightarrow> (io_fault faults SyncAll path, fs(path \<mapsto> encoded)))"

section \<open>What creating and writing a table does\<close>

text \<open>Ids are handed out in order, and nothing else of the manifest manager changes.\<close>

definition only_ids :: "'h manifest_manager \<Rightarrow> 'h manifest_manager \<Rightarrow> bool" where
  "only_ids mm mm' \<longleftrightarrow>
     (\<exists>n. ms_next_file_id (mm_state mm) \<le> n \<and> mm' = mm\<lparr>mm_state := (mm_state mm)\<lparr>ms_next_file_id := n\<rparr>\<rparr>)"

lemma only_ids_refl [simp]: "only_ids mm mm"
  unfolding only_ids_def by (intro exI [of _ "ms_next_file_id (mm_state mm)"]) simp

lemma only_ids_trans:
  assumes "only_ids a b" and "only_ids b c"
  shows "only_ids a c"
proof -
  from assms obtain n n' where
    "ms_next_file_id (mm_state a) \<le> n" "b = a\<lparr>mm_state := (mm_state a)\<lparr>ms_next_file_id := n\<rparr>\<rparr>"
    "ms_next_file_id (mm_state b) \<le> n'" "c = b\<lparr>mm_state := (mm_state b)\<lparr>ms_next_file_id := n'\<rparr>\<rparr>"
    unfolding only_ids_def by blast
  then show ?thesis unfolding only_ids_def by (intro exI [of _ n']) simp
qed

lemma only_idsI: "ms_next_file_id (mm_state mm) \<le> n \<Longrightarrow>
    only_ids mm (mm\<lparr>mm_state := (mm_state mm)\<lparr>ms_next_file_id := n\<rparr>\<rparr>)"
  unfolding only_ids_def by blast

lemma only_ids_allocate: "only_ids mm (snd (allocate_file_id mm))"
  by (auto simp: allocate_file_id_def Let_def split: option.split
      dest!: checked_add_one_Some(2) intro!: only_idsI less_imp_le)

lemma create_table_file_ok:
  assumes "create_table_file path_of before faults fs mm = (r, mm')"
  shows "only_ids mm mm'
     \<and> (\<forall>i path. r = Inr (i, path) \<longrightarrow> path = path_of i \<and> fs path = None
          \<and> ms_next_file_id (mm_state mm) \<le> i \<and> i < ms_next_file_id (mm_state mm'))"
  using assms
proof (induction path_of before faults fs mm arbitrary: r mm' rule: create_table_file.induct)
  case (1 path_of before faults fs mm)
  obtain a mm1 where a: "allocate_file_id mm = (a, mm1)" by force
  have ids: "only_ids mm mm1" using only_ids_allocate [of mm] a by simp
  show ?case
  proof (cases a)
    case (Inl e)
    with 1(2) a ids show ?thesis by (auto simp: create_table_file.simps [of path_of before faults fs mm])
  next
    case (Inr i)
    have i: "ms_next_file_id (mm_state mm) = i" "unat (ms_next_file_id (mm_state mm1)) = Suc (unat i)"
      using allocate_next [of mm i mm1] a Inr by simp_all
    then have lt: "i < ms_next_file_id (mm_state mm1)" by (simp add: word_less_nat_alt)
    show ?thesis
    proof (cases "\<exists>u. before (path_of i) = Inr u \<and> faults CreateNew (path_of i) = None \<and> fs (path_of i) \<noteq> None")
      case True
      with 1(2) a Inr have rec: "create_table_file path_of before faults fs mm1 = (r, mm')"
        by (auto simp: create_table_file.simps [of path_of before faults fs mm])
      have "only_ids mm1 mm'
        \<and> (\<forall>i path. r = Inr (i, path) \<longrightarrow> path = path_of i \<and> fs path = None
             \<and> ms_next_file_id (mm_state mm1) \<le> i \<and> i < ms_next_file_id (mm_state mm'))"
        using 1(1) [OF _ _ _ _ _ rec] a Inr True by fastforce
      with ids i lt show ?thesis by (auto intro: only_ids_trans less_imp_le order.strict_trans2)
    next
      case False
      with 1(2) a Inr ids i lt show ?thesis
        by (auto simp: create_table_file.simps [of path_of before faults fs mm] split: sum.splits if_splits)
    qed
  qed
qed

lemma write_table_file_Inr:
  "write_table_file faults path encoded fs = (Inr u, fs') \<Longrightarrow> fs' = fs(path \<mapsto> encoded)"
  by (auto simp: write_table_file_def split: option.splits)

lemma write_table_file_other:
  "write_table_file faults path encoded fs = (r, fs') \<Longrightarrow> p \<noteq> path \<Longrightarrow> fs' p = fs p"
  by (auto simp: write_table_file_def split: option.splits)

end
