(* ===== verification/Write_Component.thy ===== *)
theory Write_Component
  imports Admission Generation_Codec Wal Read_Path Config Table_Files
begin

text \<open>
  \<open>WriteComponent\<close> of \<open>src/storage/writemanager/write.rs\<close>: the batches a runner takes from the
  admission queue become transactions of the log, then entries of the memtable; a flush writes the
  memtable as a table of level 0, registers it, rotates the log and, when the component owns the
  checkpoints, publishes a recovery checkpoint and reclaims the log.

  The component's own fields are a record; the managers it shares through \<open>Arc\<close> are a second one. The
  writer lock orders rounds and flushes, so each is one step. What the file system does is an
  argument. A memtable entry has an empty \<open>mr_key\<close>; its key is the one it is filed under.
\<close>

definition MAX_WAL_FRAME_BYTES :: nat where "MAX_WAL_FRAME_BYTES = 64 * 1024 * 1024"
definition MAX_WAL_TRANSACTION_BYTES :: nat where "MAX_WAL_TRANSACTION_BYTES = 256 * 1024 * 1024"

record checkpoint_result =
  cr_sstable_path :: bytes
  cr_record_count :: nat
  cr_level :: u32
  cr_file_id :: u64
  cr_data :: bytes

datatype payload_mode = Inline | WalReference u64

record write_component =
  wc_memtable :: memtable
  wc_memtable_size :: u64
  wc_sequence_number :: u64
  wc_admission :: admission_queue
  wc_checkpoint_owner :: "nat option"
  wc_payload_mode :: payload_mode
  wc_sstable_dir :: bytes
  wc_config :: storage_config

record managers =
  mg_wal :: wal_manager
  mg_manifest :: "bytes manifest_manager"
  mg_files :: files

record memtable_write =
  mw_key :: bytes
  mw_value :: bytes
  mw_record_type :: record_type
  mw_lsn :: u64

section \<open>The memtable\<close>

definition append_to_memtable ::
  "bytes \<Rightarrow> bytes \<Rightarrow> record_type \<Rightarrow> u64 \<Rightarrow> write_component \<Rightarrow> write_component" where
  "append_to_memtable key v record_type lsn w =
     (let added_bytes = (if record_type = Delete then length key else length key + length v)
      in w\<lparr>wc_memtable := bt_insert (key, lsn) (MemtableRecord_new v record_type lsn) (wc_memtable w),
           wc_memtable_size := wc_memtable_size w + of_nat added_bytes\<rparr>)"

text \<open>\<open>address\<close> is the address of the token that \<open>register_checkpoint_owner\<close> may hand out.\<close>

definition with_payload_mode ::
  "nat \<Rightarrow> bytes \<Rightarrow> u64 \<Rightarrow> storage_config \<Rightarrow> payload_mode \<Rightarrow> wal_manager \<Rightarrow> write_component \<times> wal_manager" where
  "with_payload_mode address sstable_dir sequence_number config payload_mode wal =
     (case register_checkpoint_owner address wal of
        (checkpoint_owner, wal) \<Rightarrow>
          (\<lparr>wc_memtable = [], wc_memtable_size = 0, wc_sequence_number = sequence_number,
            wc_admission = AdmissionQueue_new, wc_checkpoint_owner = checkpoint_owner,
            wc_payload_mode = payload_mode, wc_sstable_dir = sstable_dir, wc_config = config\<rparr>, wal))"

definition WriteComponent_new ::
  "nat \<Rightarrow> bytes \<Rightarrow> u64 \<Rightarrow> storage_config \<Rightarrow> wal_manager \<Rightarrow> write_component \<times> wal_manager" where
  "WriteComponent_new address sstable_dir sequence_number config wal =
     with_payload_mode address sstable_dir sequence_number config Inline wal"

definition new_reference_index ::
  "nat \<Rightarrow> bytes \<Rightarrow> u64 \<Rightarrow> storage_config \<Rightarrow> u64 \<Rightarrow> wal_manager \<Rightarrow> write_component \<times> wal_manager" where
  "new_reference_index address sstable_dir sequence_number config generation wal =
     with_payload_mode address sstable_dir sequence_number config (WalReference generation) wal"

definition restore_memtable :: "memtable \<Rightarrow> u64 \<Rightarrow> write_component \<Rightarrow> write_component" where
  "restore_memtable recovered recovered_size w =
     w\<lparr>wc_memtable := recovered, wc_memtable_size := recovered_size\<rparr>"

definition lock_memtable ::
  "write_component \<Rightarrow> managers \<Rightarrow> memtable \<times> write_component \<times> managers" where
  "lock_memtable w g =
     (wc_memtable w, w\<lparr>wc_memtable := [], wc_memtable_size := 0\<rparr>,
      g\<lparr>mg_wal := mark_untracked_mutation (mg_wal g)\<rparr>)"

definition apply_replicated_command ::
  "log_command \<Rightarrow> write_component \<Rightarrow> managers \<Rightarrow> write_component \<times> managers" where
  "apply_replicated_command cmd w g =
     (let normalized_value = (if lc_record_type cmd = Delete then [] else lc_value cmd);
          w = append_to_memtable (lc_key cmd) normalized_value (lc_record_type cmd) (lc_lsn cmd) w
      in (w\<lparr>wc_sequence_number := max (wc_sequence_number w) (lc_lsn cmd)\<rparr>,
          g\<lparr>mg_wal := mark_untracked_mutation (mg_wal g)\<rparr>))"

section \<open>Writing\<close>

definition operation_fields :: "batch_operation \<Rightarrow> bytes \<times> bytes" where
  "operation_fields op = (case op of Batch_Put key v \<Rightarrow> (key, v) | Batch_Delete key \<Rightarrow> (key, []))"

fun validate_operations :: "batch_operation list \<Rightarrow> nat \<Rightarrow> nat result" where
  "validate_operations [] transaction_bytes = Inr transaction_bytes"
| "validate_operations (op # ops) transaction_bytes =
     (let (key, v) = operation_fields op; frame_payload = 42 + length key + length v in
      rbind (guard_err (usize_max < frame_payload) (StorageError ''WAL frame size overflow'')) (\<lambda>_.
      rbind (guard_err (MAX_WAL_FRAME_BYTES < frame_payload) (StorageError ''WAL frame exceeds 64 MiB'')) (\<lambda>_.
      let frame_bytes = 20 + frame_payload in
      rbind (guard_err (usize_max < frame_bytes) (StorageError ''WAL frame size overflow'')) (\<lambda>_.
      rbind (guard_err (usize_max < transaction_bytes + frame_bytes)
               (StorageError ''WAL transaction size overflow'')) (\<lambda>_.
      rbind (guard_err (MAX_WAL_TRANSACTION_BYTES < transaction_bytes + frame_bytes)
               (StorageError ''WAL transaction exceeds group limit'')) (\<lambda>_.
      validate_operations ops (transaction_bytes + frame_bytes)))))))"

definition validate_batch :: "batch_operation list \<Rightarrow> nat result" where
  "validate_batch operations = validate_operations operations 37"

definition operation_command :: "batch_operation \<Rightarrow> u64 \<Rightarrow> log_command" where
  "operation_command op lsn =
     (case op of
        Batch_Put key v \<Rightarrow> LogCommand_new Put key v lsn
      | Batch_Delete key \<Rightarrow> LogCommand_new Delete key [] lsn)"

text \<open>The commands of one request, and of all requests; \<open>None\<close> is \<open>build_error\<close>.\<close>

fun build_commands :: "batch_operation list \<Rightarrow> u64 \<Rightarrow> (log_command list \<times> u64) option" where
  "build_commands [] next_lsn = Some ([], next_lsn)"
| "build_commands (op # ops) next_lsn =
     (case checked_add next_lsn 1 of
        None \<Rightarrow> None
      | Some lsn \<Rightarrow>
          (case build_commands ops lsn of
             None \<Rightarrow> None
           | Some (commands, next_lsn) \<Rightarrow> Some (operation_command op lsn # commands, next_lsn)))"

fun build_groups :: "request list \<Rightarrow> u64 \<Rightarrow> (log_command list list \<times> u64) option" where
  "build_groups [] next_lsn = Some ([], next_lsn)"
| "build_groups (request # requests) next_lsn =
     (case build_commands (rq_operations request) next_lsn of
        None \<Rightarrow> None
      | Some (commands, next_lsn) \<Rightarrow>
          (case build_groups requests next_lsn of
             None \<Rightarrow> None
           | Some (groups, next_lsn) \<Rightarrow> Some (commands # groups, next_lsn)))"

definition reference_write ::
  "(bytes \<Rightarrow> u32) \<Rightarrow> u64 \<Rightarrow> log_command \<Rightarrow> wal_value_ref \<Rightarrow> memtable_write result" where
  "reference_write crc generation command reference =
     rbind (guard_err (vr_record_type reference \<noteq> lc_record_type command
                       \<or> vr_application_sequence reference \<noteq> lc_lsn command)
              (StorageError ''WAL receipt does not match its command'')) (\<lambda>_.
     Inr \<lparr>mw_key = lc_key command,
          mw_value = (case lc_record_type command of
                        Put \<Rightarrow> ReferenceValue_encode crc \<lparr>rv_generation = generation, rv_reference = reference\<rparr>
                      | Delete \<Rightarrow> []),
          mw_record_type = lc_record_type command, mw_lsn = lc_lsn command\<rparr>)"

fun reference_writes ::
  "(bytes \<Rightarrow> u32) \<Rightarrow> u64 \<Rightarrow> (log_command \<times> wal_value_ref) list \<Rightarrow> memtable_write list \<Rightarrow>
   memtable_write list result" where
  "reference_writes crc generation [] writes = Inr writes"
| "reference_writes crc generation ((command, reference) # rest) writes =
     rbind (reference_write crc generation command reference) (\<lambda>w.
     reference_writes crc generation rest (writes @ [w]))"

fun reference_groups ::
  "(bytes \<Rightarrow> u32) \<Rightarrow> u64 \<Rightarrow> (log_command list \<times> wal_value_ref list) list \<Rightarrow> memtable_write list \<Rightarrow>
   memtable_write list result" where
  "reference_groups crc generation [] writes = Inr writes"
| "reference_groups crc generation ((commands, references) # rest) writes =
     rbind (guard_err (length commands \<noteq> length references)
              (StorageError ''WAL receipts do not match admitted commands'')) (\<lambda>_.
     rbind (reference_writes crc generation (zip commands references) writes)
       (reference_groups crc generation rest))"

definition encode_reference_writes ::
  "(bytes \<Rightarrow> u32) \<Rightarrow> u64 \<Rightarrow> log_command list list \<Rightarrow> wal_value_ref list list \<Rightarrow> memtable_write list result" where
  "encode_reference_writes crc generation groups receipts =
     rbind (guard_err (length groups \<noteq> length receipts)
              (StorageError ''WAL receipts do not match admitted groups'')) (\<lambda>_.
     reference_groups crc generation (zip groups receipts) [])"

definition append_commands :: "log_command list \<Rightarrow> write_component \<Rightarrow> write_component" where
  "append_commands commands w =
     fold (\<lambda>c. append_to_memtable (lc_key c) (lc_value c) (lc_record_type c) (lc_lsn c)) commands w"

definition append_writes :: "memtable_write list \<Rightarrow> write_component \<Rightarrow> write_component" where
  "append_writes writes w =
     fold (\<lambda>m. append_to_memtable (mw_key m) (mw_value m) (mw_record_type m) (mw_lsn m)) writes w"

text \<open>One round of \<open>run_write_admission\<close>: what happens to the drained requests under the writer lock.\<close>

definition write_round ::
  "(bytes \<Rightarrow> u32) \<Rightarrow> rotate_io \<times> write_io \<Rightarrow> request list \<Rightarrow> write_component \<Rightarrow> wal_manager \<Rightarrow>
   unit result \<times> write_component \<times> wal_manager" where
  "write_round crc io requests w wal =
     (case build_groups requests (wc_sequence_number w) of
        None \<Rightarrow> (Inl (Err (StorageError ''batch sequence exhausted'')), w, wal)
      | Some (groups, next_lsn) \<Rightarrow>
          (case wc_payload_mode w of
             Inline \<Rightarrow>
               (case write_engine_transactions crc (fst io) (snd io) groups (wc_checkpoint_owner w) wal of
                  (Inl e, wal) \<Rightarrow> (Inl e, w, wal)
                | (Inr _, wal) \<Rightarrow>
                    (Inr (), (append_commands (concat groups) w)\<lparr>wc_sequence_number := next_lsn\<rparr>, wal))
           | WalReference generation \<Rightarrow>
               (case append_engine_transactions_with_receipts crc (fst io) (snd io) groups
                       (wc_checkpoint_owner w) wal of
                  (Inl e, wal) \<Rightarrow> (Inl e, w, wal)
                | (Inr receipts, wal) \<Rightarrow>
                    (case encode_reference_writes crc generation groups receipts of
                       Inl e \<Rightarrow> (Inl e, w, wal)
                     | Inr writes \<Rightarrow>
                         (Inr (), (append_writes writes w)\<lparr>wc_sequence_number := next_lsn\<rparr>, wal)))))"

definition clone_db_error :: "db_error \<Rightarrow> db_error" where
  "clone_db_error error =
     (case error of
        IO kind \<Rightarrow> IO kind
      | TryIntoError \<Rightarrow> TryIntoError
      | Corrupted message \<Rightarrow> Corrupted message
      | MutexPoisoned message \<Rightarrow> MutexPoisoned message
      | StorageError message \<Rightarrow> StorageError message
      | NotFound \<Rightarrow> NotFound)"

definition clone_result :: "unit result \<Rightarrow> unit result" where
  "clone_result r = (case r of Inl (Err e) \<Rightarrow> Inl (Err (clone_db_error e)) | _ \<Rightarrow> r)"

fun complete_all :: "request list \<Rightarrow> unit result \<Rightarrow> admission_queue \<Rightarrow> admission_queue" where
  "complete_all [] r q = q"
| "complete_all (request # requests) r q = complete_all requests r (snd (complete request (clone_result r) q))"

lemma complete_requests [simp]: "aq_requests (snd (complete rq r q)) = aq_requests q"
  by (simp add: complete_def release_request_def)

lemma complete_all_requests [simp]: "aq_requests (complete_all rqs r q) = aq_requests q"
  by (induction rqs arbitrary: q) simp_all

lemma complete_all_ticket [simp]: "aq_next_ticket (complete_all rqs r q) = aq_next_ticket q"
  by (induction rqs arbitrary: q) (simp_all add: complete_def release_request_def)

lemma fold_append_admission [simp]:
  "wc_admission (append_commands cs w) = wc_admission w" "wc_admission (append_writes ms w) = wc_admission w"
  unfolding append_commands_def append_writes_def
  by (induction cs arbitrary: w, simp_all add: append_to_memtable_def Let_def)
    (induction ms arbitrary: w, simp_all add: append_to_memtable_def Let_def)

lemma write_round_admission [simp]: "wc_admission (fst (snd (write_round crc io requests w wal))) = wc_admission w"
  by (simp add: write_round_def split: option.split prod.split sum.split payload_mode.split)

lemma write_round_queue: "write_round crc io requests w wal = (r, w', wal') \<Longrightarrow> wc_admission w' = wc_admission w"
  using write_round_admission [of crc io requests w wal] by simp

lemma drain_shrinks:
  "drain_ready MAX_DRAIN_REQUESTS MAX_DRAIN_BYTES q = (Some requests, q') \<Longrightarrow>
     length (aq_requests q') < length (aq_requests q)"
  using drain_ready_Some [of MAX_DRAIN_REQUESTS MAX_DRAIN_BYTES q requests q']
  by (auto simp: MAX_DRAIN_REQUESTS_def MAX_DRAIN_BYTES_def ADMITTED_BYTE_BUDGET_def size_bounds)

text \<open>
  The runner: rounds until the queue is empty. \<open>ios i\<close> is what the log's files do in round \<open>i\<close>. It
  ends because every round takes at least one request and no one admits more while it runs alone.
\<close>

function run_write_admission ::
  "(bytes \<Rightarrow> u32) \<Rightarrow> (nat \<Rightarrow> rotate_io \<times> write_io) \<Rightarrow> nat \<Rightarrow> write_component \<Rightarrow> wal_manager \<Rightarrow>
   write_component \<times> wal_manager" where
  "run_write_admission crc ios i w wal =
     (case drain_ready MAX_DRAIN_REQUESTS MAX_DRAIN_BYTES (wc_admission w) of
        (None, q) \<Rightarrow> (w\<lparr>wc_admission := q\<rparr>, wal)
      | (Some requests, q) \<Rightarrow>
          (case write_round crc (ios i) requests (w\<lparr>wc_admission := q\<rparr>) wal of
             (r, w, wal) \<Rightarrow>
               run_write_admission crc ios (Suc i)
                 (w\<lparr>wc_admission := complete_all requests r (wc_admission w)\<rparr>) wal))"
  by pat_completeness auto
termination
  by (relation "measure (\<lambda>(crc, ios, i, w, wal). length (aq_requests (wc_admission w)))")
    (auto dest!: drain_shrinks [OF sym] write_round_queue [OF sym])

declare run_write_admission.simps [simp del]

text \<open>What a writer finds on its completion channel, \<open>None\<close> while nothing has been sent.\<close>

definition received :: "u64 \<Rightarrow> admission_queue \<Rightarrow> unit result option" where
  "received ticket q =
     (case map_of (aq_sent q) ticket of
        None \<Rightarrow> None
      | Some None \<Rightarrow> Some (Inl (Err (StorageError ''write runner stopped before completion'')))
      | Some (Some r) \<Rightarrow> Some r)"

text \<open>
  A whole \<open>write_batch\<close> whose runner is the one it starts; \<open>None\<close> when it waits, for permits or for a
  runner another writer started.
\<close>

definition write_batch ::
  "(bytes \<Rightarrow> u32) \<Rightarrow> (nat \<Rightarrow> rotate_io \<times> write_io) \<Rightarrow> batch_operation list \<Rightarrow> write_component \<Rightarrow>
   wal_manager \<Rightarrow> (unit result \<times> write_component \<times> wal_manager) option" where
  "write_batch crc ios operations w wal =
     (if operations = [] then Some (Inr (), w, wal)
      else
        (case validate_batch operations of
           Inl e \<Rightarrow> Some (Inl e, w, wal)
         | Inr estimated_bytes \<Rightarrow>
             (case enqueue operations estimated_bytes (wc_admission w) of
                None \<Rightarrow> None
              | Some (Inl e, q) \<Rightarrow> Some (Inl e, w\<lparr>wc_admission := q\<rparr>, wal)
              | Some (Inr admission, q) \<Rightarrow>
                  if eq_should_start_runner admission then
                    (case run_write_admission crc ios 0 (w\<lparr>wc_admission := q\<rparr>) wal of
                       (w, wal) \<Rightarrow>
                         map_option (\<lambda>r. (r, w, wal)) (received (eq_ticket admission) (wc_admission w)))
                  else None)))"

section \<open>Flushing\<close>

text \<open>What the file system does during a flush.\<close>

record flush_env =
  fe_faults :: faults
  fe_register :: append_io
  fe_rotate :: rotate_io
  fe_mark :: append_io
  fe_recovery :: append_io
  fe_remove_ok :: "dir_entry \<Rightarrow> bool"
  fe_sync_ok :: bool

text \<open>The newest version of every key of the memtable.\<close>

definition valid_records :: "memtable \<Rightarrow> (bytes, memtable_record) btree_map" where
  "valid_records memtable = merge_records flush_pick (map (\<lambda>((key, lsn), record). (key, record)) memtable) []"

record 'f flush_state =
  fl_builder :: block_builder
  fl_blocks :: "block list"
  fl_sparse_index :: "sparse_index_entry list"
  fl_bloom :: "'f bloom_wrapper"
  fl_encoded_offset :: u64

definition sparse_entry :: "u64 \<Rightarrow> block \<Rightarrow> sparse_index_entry" where
  "sparse_entry encoded_offset block =
     \<lparr>si_first_key = b_first_key block, si_block_offset = encoded_offset, si_last_key = b_last_key block,
      si_record_count = b_record_count block\<rparr>"

definition flush_entry ::
  "(bytes \<Rightarrow> u32) \<Rightarrow> ('f, 'r) bloom_api \<Rightarrow> bytes \<times> memtable_record \<Rightarrow> 'f flush_state \<Rightarrow> 'f flush_state result" where
  "flush_entry crc api entry fl =
     (let key = fst entry; record = snd entry; fl = fl\<lparr>fl_bloom := bloom_insert api key (fl_bloom fl)\<rparr> in
      rbind (add_record crc (fl_builder fl) key record) (\<lambda>(bb, state).
        case state of
          EnoughSpace \<Rightarrow> Inr (fl\<lparr>fl_builder := bb\<rparr>)
        | Full block _ \<Rightarrow>
            rbind (add_record crc bb key record) (\<lambda>(bb, _).
              Inr (fl\<lparr>fl_builder := bb,
                      fl_sparse_index := fl_sparse_index fl @ [sparse_entry (fl_encoded_offset fl) block],
                      fl_encoded_offset := fl_encoded_offset fl + ucast (b_data_size block),
                      fl_blocks := fl_blocks fl @ [block]\<rparr>))))"

fun flush_entries ::
  "(bytes \<Rightarrow> u32) \<Rightarrow> ('f, 'r) bloom_api \<Rightarrow> (bytes \<times> memtable_record) list \<Rightarrow> 'f flush_state \<Rightarrow>
   'f flush_state result" where
  "flush_entries crc api [] fl = Inr fl"
| "flush_entries crc api (e # es) fl = rbind (flush_entry crc api e fl) (flush_entries crc api es)"

definition flush_last :: "'f flush_state \<Rightarrow> 'f flush_state result" where
  "flush_last fl =
     rbind (build (fl_builder fl)) (\<lambda>last_block.
       Inr (case last_block of
              None \<Rightarrow> fl
            | Some (block, _) \<Rightarrow>
                fl\<lparr>fl_sparse_index := fl_sparse_index fl @ [sparse_entry (fl_encoded_offset fl) block],
                   fl_blocks := fl_blocks fl @ [block]\<rparr>))"

text \<open>The check that the blocks hold exactly the snapshot; \<open>keys\<close> are the ones seen so far.\<close>

fun check_coverage ::
  "(bytes, memtable_record) btree_map \<Rightarrow> memtable_record list \<Rightarrow> bytes list \<Rightarrow> bytes list result" where
  "check_coverage valid [] keys = Inr keys"
| "check_coverage valid (record # records) keys =
     (case map_of valid (mr_key record) of
        None \<Rightarrow> Inl (Err (Corrupted ''SSTable block contains a record outside the flush snapshot''))
      | Some expected \<Rightarrow>
          if mr_key record \<in> set keys \<or> mr_lsn expected \<noteq> mr_lsn record \<or> mr_type expected \<noteq> mr_type record
             \<or> mr_value expected \<noteq> mr_value record
          then Inl (Err (Corrupted ''SSTable block records do not cover the flush snapshot''))
          else check_coverage valid records (mr_key record # keys))"

text \<open>The table of a flush: the blocks, the index and the filter, checked against the snapshot.\<close>

definition flush_table ::
  "(bytes \<Rightarrow> u32) \<Rightarrow> ('f, f64) bloom_api \<Rightarrow> storage_config \<Rightarrow> (bytes, memtable_record) btree_map \<Rightarrow>
   'f sstable_codec result" where
  "flush_table crc api config valid =
     rbind (flush_entries crc api valid
              \<lparr>fl_builder = BlockBuilder_new 0, fl_blocks = [], fl_sparse_index = [],
               fl_bloom = bloom_with_rate api (length valid + 10) (bloom_false_positive_rate config),
               fl_encoded_offset = 0\<rparr>) (\<lambda>fl.
     rbind (flush_last fl) (\<lambda>fl.
     rbind (check_coverage valid
              (concat (map (\<lambda>block. case b_data block of Some rs \<Rightarrow> rs | None \<Rightarrow> []) (fl_blocks fl))) []) (\<lambda>keys.
     rbind (guard_err (length keys \<noteq> length valid)
              (Corrupted ''SSTable blocks omit records from the flush snapshot'')) (\<lambda>_.
     Inr (SSTableCodec_new (fl_blocks fl) (fl_sparse_index fl) (fl_bloom fl))))))"

definition level0_dir :: "bytes \<Rightarrow> bytes" where
  "level0_dir sstable_dir = path_join sstable_dir (ascii ''level-0'')"

definition level0_path :: "bytes \<Rightarrow> u64 \<Rightarrow> bytes" where
  "level0_path sstable_dir file_id =
     path_join sstable_dir (ascii ''level-0/sstable-'' @ decimal (unat file_id) @ ascii ''.dat'')"

text \<open>Writing the table file and describing it.\<close>

definition write_flush_table ::
  "(bytes \<Rightarrow> u32) \<Rightarrow> ('f, f64) bloom_api \<Rightarrow> flush_env \<Rightarrow> bytes \<Rightarrow> nat \<Rightarrow> 'f sstable_codec \<Rightarrow>
   bytes manifest_manager \<times> files \<Rightarrow> (sstable_meta \<times> bytes) result \<times> bytes manifest_manager \<times> files" where
  "write_flush_table crc api env sstable_dir record_count table st =
     (let (encoded, footer) = serialize crc api table in
      if isize_max < length encoded then (Inl (Panic ''capacity overflow''), st)
      else
        (case range_from_index (sc_index table) of
           None \<Rightarrow> (Inl (Err (Corrupted ''cannot register SSTable without sparse index range'')), st)
         | Some (smallest_key, largest_key) \<Rightarrow>
             (case io_fault (fe_faults env) MakeDirs (level0_dir sstable_dir) of
                Inl e \<Rightarrow> (Inl e, st)
              | Inr _ \<Rightarrow>
                  (case create_table_file (level0_path sstable_dir) (\<lambda>_. Inr ()) (fe_faults env) (snd st) (fst st) of
                     (Inl e, mm) \<Rightarrow> (Inl e, mm, snd st)
                   | (Inr (file_id, file_path), mm) \<Rightarrow>
                       (case write_table_file (fe_faults env) file_path encoded ((snd st)(file_path \<mapsto> [])) of
                          (Inl e, fs) \<Rightarrow> (Inl e, mm, fs)
                        | (Inr _, fs) \<Rightarrow>
                            (rbind (io_fault (fe_faults env) SyncDir (level0_dir sstable_dir)) (\<lambda>_.
                             Inr (\<lparr>sm_file_id = file_id, sm_level = 0, sm_path = file_path,
                                   sm_record_count = of_nat record_count, sm_smallest_key = smallest_key,
                                   sm_largest_key = largest_key, sm_bloom_offset = bloom_block_start footer,
                                   sm_bloom_size = bloom_block_end footer - bloom_block_start footer\<rparr>,
                                  encoded)), mm, fs))))))"

text \<open>The recovery checkpoint of a trusted flush; a reclamation that fails is only logged.\<close>

definition publish_checkpoint ::
  "(bytes \<Rightarrow> u32) \<Rightarrow> flush_env \<Rightarrow> nat option \<Rightarrow> u64 option \<Rightarrow> managers \<Rightarrow> unit result \<times> managers" where
  "publish_checkpoint crc env owner trusted_sequence g =
     (case trusted_sequence of
        None \<Rightarrow> (Inr (), g)
      | Some committed_sequence \<Rightarrow>
          if \<not> owns_recovery_checkpoints owner (mg_wal g) then (Inr (), g)
          else
            (case trusted_recovery_position (mg_wal g) of
               Inl e \<Rightarrow> (Inl e, g)
             | Inr None \<Rightarrow> (Inr (), g)
             | Inr (Some (replay_start_segment, next_physical_lsn)) \<Rightarrow>
                 let checkpoint = \<lparr>rc_replay_start_segment = replay_start_segment,
                                   rc_next_physical_lsn = next_physical_lsn,
                                   rc_committed_sequence = committed_sequence\<rparr>
                 in (case publish_recovery_checkpoint crc (fe_recovery env) checkpoint (mg_manifest g) of
                       (Inl e, mm) \<Rightarrow> (Inl e, g\<lparr>mg_manifest := mm\<rparr>)
                     | (Inr _, mm) \<Rightarrow>
                         (Inr (), g\<lparr>mg_manifest := mm,
                                    mg_wal := snd (reclaim_checkpointed_segments (fe_remove_ok env)
                                                     (fe_sync_ok env) checkpoint (mg_wal g))\<rparr>))))"

definition max_lsn :: "(bytes, memtable_record) btree_map \<Rightarrow> u64" where
  "max_lsn valid = fold max (map mr_lsn (bt_values valid)) 0"

text \<open>After the table is registered: rotation, the informational checkpoint, the recovery checkpoint.\<close>

definition flush_checkpoint ::
  "(bytes \<Rightarrow> u32) \<Rightarrow> flush_env \<Rightarrow> nat option \<Rightarrow> u64 \<Rightarrow> u64 option \<Rightarrow> managers \<Rightarrow> unit result \<times> managers" where
  "flush_checkpoint crc env owner checkpoint_lsn trusted_sequence g =
     (case rotate_wal_file crc (fe_rotate env) (mg_wal g) of
        (Inl e, wal) \<Rightarrow> (Inl e, g\<lparr>mg_wal := wal\<rparr>)
      | (Inr active_segment, wal) \<Rightarrow>
          (case mark_checkpoint crc (fe_mark env) checkpoint_lsn active_segment (mg_manifest g) of
             (Inl e, mm) \<Rightarrow> (Inl e, g\<lparr>mg_wal := wal, mg_manifest := mm\<rparr>)
           | (Inr _, mm) \<Rightarrow>
               publish_checkpoint crc env owner trusted_sequence (g\<lparr>mg_wal := wal, mg_manifest := mm\<rparr>)))"

definition flush_inner ::
  "(bytes \<Rightarrow> u32) \<Rightarrow> ('f, f64) bloom_api \<Rightarrow> flush_env \<Rightarrow> memtable \<Rightarrow> u64 option \<Rightarrow> write_component \<Rightarrow>
   managers \<Rightarrow> checkpoint_result result \<times> managers" where
  "flush_inner crc api env memtable trusted_sequence w g =
     (let valid = valid_records memtable in
      case flush_table crc api (wc_config w) valid of
        Inl e \<Rightarrow> (Inl e, g)
      | Inr table \<Rightarrow>
          (case write_flush_table crc api env (wc_sstable_dir w) (length valid) table
                  (mg_manifest g, mg_files g) of
             (Inl e, mm, fs) \<Rightarrow> (Inl e, g\<lparr>mg_manifest := mm, mg_files := fs\<rparr>)
           | (Inr (meta, encoded), mm, fs) \<Rightarrow>
               (case register_sstable crc (fe_register env) meta mm of
                  (Inl e, mm) \<Rightarrow> (Inl e, g\<lparr>mg_manifest := mm, mg_files := fs\<rparr>)
                | (Inr _, mm) \<Rightarrow>
                    (case flush_checkpoint crc env (wc_checkpoint_owner w) (max_lsn valid) trusted_sequence
                            (g\<lparr>mg_manifest := mm, mg_files := fs\<rparr>) of
                       (Inl e, g) \<Rightarrow> (Inl e, g)
                     | (Inr _, g) \<Rightarrow>
                         (Inr \<lparr>cr_sstable_path = sm_path meta, cr_record_count = length valid, cr_level = 0,
                               cr_file_id = sm_file_id meta, cr_data = encoded\<rparr>, g)))))"

definition flush ::
  "(bytes \<Rightarrow> u32) \<Rightarrow> ('f, f64) bloom_api \<Rightarrow> flush_env \<Rightarrow> memtable \<Rightarrow> write_component \<Rightarrow> managers \<Rightarrow>
   checkpoint_result result \<times> managers" where
  "flush crc api env memtable w g = flush_inner crc api env memtable None w g"

text \<open>Removing the flushed entries; the sizes are subtracted from an atomic counter, which wraps.\<close>

fun remove_flushed :: "memtable \<Rightarrow> memtable \<Rightarrow> nat \<Rightarrow> memtable \<times> nat" where
  "remove_flushed [] memtable removed_bytes = (memtable, removed_bytes)"
| "remove_flushed ((key, _) # frozen) memtable removed_bytes =
     (case map_of memtable key of
        None \<Rightarrow> remove_flushed frozen memtable removed_bytes
      | Some record \<Rightarrow>
          remove_flushed frozen (bt_remove key memtable)
            (removed_bytes + length (fst key) + length (mr_value record)))"

text \<open>
  \<open>flush_active_memtable\<close> first waits until the tickets admitted so far are complete
  (\<open>await_completed_through\<close>) and takes the writer lock; this is the part after that.
\<close>

definition flush_active_memtable ::
  "(bytes \<Rightarrow> u32) \<Rightarrow> ('f, f64) bloom_api \<Rightarrow> flush_env \<Rightarrow> write_component \<Rightarrow> managers \<Rightarrow>
   checkpoint_result result \<times> write_component \<times> managers" where
  "flush_active_memtable crc api env w g =
     (let frozen = wc_memtable w in
      case flush_inner crc api env frozen (Some (wc_sequence_number w)) w g of
        (Inl e, g) \<Rightarrow> (Inl e, w, g)
      | (Inr result, g) \<Rightarrow>
          (case remove_flushed frozen (wc_memtable w) 0 of
             (memtable, removed_bytes) \<Rightarrow>
               (Inr result,
                w\<lparr>wc_memtable := memtable, wc_memtable_size := wc_memtable_size w - of_nat removed_bytes\<rparr>,
                g)))"

end
