(* ===== verification/Preflight.thy ===== *)
theory Preflight
  imports SSTables
begin

text \<open>
  \<open>src/storage/sstable_preflight.rs\<close>: before a table is decoded at startup, every length in the file
  is checked against the bytes that are there, without allocating anything of the size a length
  claims. A cursor is the bytes that remain.
\<close>

definition preflight_corrupted :: failure where
  "preflight_corrupted = Err (Corrupted ''invalid SSTable serialized lengths'')"

section \<open>Cursors\<close>

definition cursor_take :: "nat \<Rightarrow> bytes reader" where
  "cursor_take len bs =
     (if len \<le> length bs then Inr (take len bs, drop len bs) else Inl preflight_corrupted)"

definition cursor_u32_be :: "u32 reader" where
  "cursor_u32_be = rd_bind (cursor_take 4) (\<lambda>b. rd_return (u32_of_be b))"

definition cursor_u64_be :: "u64 reader" where
  "cursor_u64_be = rd_bind (cursor_take 8) (\<lambda>b. rd_return (u64_of_be b))"

definition cursor_u32_le :: "u32 reader" where
  "cursor_u32_le = rd_bind (cursor_take 4) (\<lambda>b. rd_return (u32_of_le b))"

definition cursor_finish :: "unit reader" where
  "cursor_finish bs = (if bs = [] then Inr ((), bs) else Inl preflight_corrupted)"

definition preflight_check :: "bool \<Rightarrow> unit reader" where
  "preflight_check ok = (if ok then rd_return () else rd_fail preflight_corrupted)"

text \<open>\<open>bytes.get(start..end)\<close>\<close>

definition section_bytes :: "bytes \<Rightarrow> nat \<Rightarrow> nat \<Rightarrow> bytes result" where
  "section_bytes bytes start fin =
     (if start \<le> fin \<and> fin \<le> length bytes then Inr (take (fin - start) (drop start bytes))
      else Inl preflight_corrupted)"

section \<open>The sections\<close>

definition preflight_entry :: "u64 \<Rightarrow> u64 option \<Rightarrow> (u64 \<times> u32) reader" where
  "preflight_entry data_end previous_offset =
     rd_bind cursor_u64_be (\<lambda>first_len.
     rd_bind (cursor_take (unat first_len)) (\<lambda>_.
     rd_bind cursor_u64_be (\<lambda>offset.
     rd_bind cursor_u64_be (\<lambda>last_len.
     rd_bind (cursor_take (unat last_len)) (\<lambda>_.
     rd_bind cursor_u32_be (\<lambda>record_count.
     rd_bind (preflight_check (offset < data_end
                 \<and> (case previous_offset of None \<Rightarrow> True | Some previous \<Rightarrow> previous < offset))) (\<lambda>_.
     rd_return (offset, record_count))))))))"

fun preflight_entries :: "u64 \<Rightarrow> nat \<Rightarrow> u64 option \<Rightarrow> (u64 \<times> u32) list reader" where
  "preflight_entries data_end 0 previous_offset = rd_return []"
| "preflight_entries data_end (Suc n) previous_offset =
     rd_bind (preflight_entry data_end previous_offset) (\<lambda>e.
     rd_bind (preflight_entries data_end n (Some (fst e))) (\<lambda>es. rd_return (e # es)))"

definition preflight_index :: "u64 \<Rightarrow> bytes \<Rightarrow> (u64 \<times> u32) list result" where
  "preflight_index data_end index_bytes =
     rbind (rd_bind cursor_u64_be (\<lambda>count.
            rd_bind (preflight_check (unat count \<le> (length index_bytes - 8) div 28)) (\<lambda>_.
            rd_bind (preflight_entries data_end (unat count) None) (\<lambda>entries.
            rd_bind cursor_finish (\<lambda>_. rd_return entries)))) index_bytes) (\<lambda>(entries, _). Inr entries)"

definition preflight_bloom :: "bytes \<Rightarrow> unit result" where
  "preflight_bloom bloom =
     rbind (rd_bind (cursor_take 16) (\<lambda>_.
            rd_bind cursor_u64_be (\<lambda>bit_count.
            rd_bind cursor_u32_be (\<lambda>hashes.
            rd_bind cursor_u64_be (\<lambda>words.
            let bitmap_bytes = unat words * 8 in
            rd_bind (preflight_check (bitmap_bytes \<le> usize_max \<and> hashes \<noteq> 0 \<and> unat hashes \<le> unat bit_count
                      \<and> words \<noteq> 0 \<and> bit_count \<noteq> 0 \<and> unat bit_count + 63 \<le> usize_max
                      \<and> (unat bit_count + 63) div 64 = unat words
                      \<and> 36 \<le> length bloom \<and> length bloom - 36 = bitmap_bytes)) (\<lambda>_.
            rd_bind (cursor_take bitmap_bytes) (\<lambda>_. cursor_finish)))))) bloom) (\<lambda>_. Inr ())"

definition preflight_record :: "unit reader" where
  "preflight_record =
     rd_bind cursor_u32_le (\<lambda>key_len.
     rd_bind (cursor_take (unat key_len)) (\<lambda>_.
     rd_bind cursor_u32_le (\<lambda>value_len.
     rd_bind (cursor_take (unat value_len)) (\<lambda>_.
     rd_bind (cursor_take 1) (\<lambda>kind.
     rd_bind (preflight_check (hd kind = 1 \<or> hd kind = 2)) (\<lambda>_.
     rd_bind (cursor_take 8) (\<lambda>_. rd_return ())))))))"

definition preflight_records :: "nat \<Rightarrow> bytes \<Rightarrow> unit result" where
  "preflight_records block_count records =
     rbind (rd_bind (rd_times block_count preflight_record) (\<lambda>_. cursor_finish) records) (\<lambda>_. Inr ())"

definition preflight_block :: "u32 \<Rightarrow> bytes \<Rightarrow> unit result" where
  "preflight_block record_count block =
     rbind (rd_bind cursor_u32_be (\<lambda>first_len.
            rd_bind (cursor_take (unat first_len)) (\<lambda>_.
            rd_bind cursor_u32_be (\<lambda>last_len.
            rd_bind (cursor_take (unat last_len)) (\<lambda>_.
            rd_bind cursor_u32_be (\<lambda>block_count.
            rd_bind cursor_u32_be (\<lambda>data_size.
            rd_bind (preflight_check (block_count = record_count \<and> unat block_count \<le> unat data_size div 17)) (\<lambda>_.
            rd_bind (cursor_take (unat data_size)) (\<lambda>records.
            rd_bind (cursor_take 4) (\<lambda>_.
            rd_bind cursor_finish (\<lambda>_. rd_return (block_count, records))))))))))) block) (\<lambda>((block_count, records), _).
     preflight_records (unat block_count) records)"

fun preflight_blocks :: "bytes \<Rightarrow> u64 \<Rightarrow> (u64 \<times> u32) list \<Rightarrow> unit result" where
  "preflight_blocks bytes data_end [] = Inr ()"
| "preflight_blocks bytes data_end ((offset, record_count) # entries) =
     (let fin = (case entries of [] \<Rightarrow> data_end | (next_offset, _) # _ \<Rightarrow> next_offset) in
      rbind (section_bytes bytes (unat offset) (unat fin)) (\<lambda>block.
      rbind (preflight_block record_count block) (\<lambda>_. preflight_blocks bytes data_end entries)))"

definition FOOTER_BYTES :: u64 where "FOOTER_BYTES = of_nat FOOTER_SIZE"

definition sections_in_place :: "u64 \<Rightarrow> sstable_footer \<Rightarrow> bool" where
  "sections_in_place file_len footer \<longleftrightarrow>
     data_block_start footer = 0
     \<and> data_block_end footer = index_block_start footer
     \<and> index_block_start footer \<le> index_block_end footer
     \<and> index_block_end footer = bloom_block_start footer
     \<and> bloom_block_start footer \<le> bloom_block_end footer
     \<and> checked_add (bloom_block_end footer) FOOTER_BYTES = Some file_len"

definition preflight_validate :: "bytes \<Rightarrow> sstable_footer \<Rightarrow> unit result" where
  "preflight_validate bytes footer =
     (if \<not> sections_in_place (of_nat (length bytes)) footer then Inl preflight_corrupted
      else
        rbind (section_bytes bytes (unat (index_block_start footer)) (unat (index_block_end footer))) (\<lambda>index_bytes.
        rbind (preflight_index (data_block_end footer) index_bytes) (\<lambda>entries.
        rbind (section_bytes bytes (unat (bloom_block_start footer)) (unat (bloom_block_end footer))) (\<lambda>bloom.
        rbind (preflight_bloom bloom) (\<lambda>_.
        preflight_blocks bytes (data_block_end footer) entries)))))"

end
