(* ===== verification/Compaction.thy ===== *)
theory Compaction
  imports Read_Path Config Table_Files
begin

text \<open>
  \<open>src/storage/compactionmanager/compaction.rs\<close>: the choice of the tables to merge, the merge with
  the reclamation of deletions, the partition of the output into tables, publication through the
  manifest and the loop over the levels. The cancellation token is asked at many points; whether it
  is cancelled there is an argument, as are the failures of the file system and of the manifest
  append. The manifest manager and the files are the state. The leases order compactions, reads and
  flushes against each other; a compaction is one run of this state.
\<close>

datatype compaction_point =
    LoopStart
  | AtStart
  | RangeOf bytes
  | LevelRangeOf bytes
  | BeforeReading bytes
  | MergingTable nat
  | MergingKey bytes
  | AfterMerge
  | BeforeOutput nat
  | BeforePublish

record compaction_env =
  ce_cancelled :: "compaction_point \<Rightarrow> bool"
  ce_faults :: faults
  ce_append :: append_io

definition check_cancelled :: "compaction_env \<Rightarrow> compaction_point \<Rightarrow> unit result" where
  "check_cancelled env p = guard_err (ce_cancelled env p) (StorageError ''compaction cancelled'')"

section \<open>Key ranges\<close>

definition key_ranges_overlap :: "bytes \<times> bytes \<Rightarrow> bytes \<times> bytes \<Rightarrow> bool" where
  "key_ranges_overlap left right \<longleftrightarrow> fst left \<le> snd right \<and> fst right \<le> snd left"

definition range_from_blocks :: "block list \<Rightarrow> (bytes \<times> bytes) option" where
  "range_from_blocks blocks =
     (if blocks = [] then None else Some (b_first_key (hd blocks), b_last_key (last blocks)))"

definition compute_meta_range ::
  "(bytes \<Rightarrow> u32) \<Rightarrow> ('f, f64) bloom_api \<Rightarrow> compaction_env \<Rightarrow> files \<Rightarrow> sstable_meta \<Rightarrow>
   (bytes \<times> bytes) option result" where
  "compute_meta_range crc api env fs meta =
     rbind (check_cancelled env (RangeOf (sm_path meta))) (\<lambda>_.
       if sm_smallest_key meta \<noteq> [] \<and> sm_largest_key meta \<noteq> []
       then Inr (Some (sm_smallest_key meta, sm_largest_key meta))
       else
         rbind (open_path (ce_faults env) fs (sm_path meta)) (\<lambda>sstable_file.
         rbind (deserialize_sections crc api sstable_file) (\<lambda>(_, index, _).
           Inr (range_from_index index))))"

fun widen_range :: "(bytes \<times> bytes) option \<Rightarrow> bytes \<times> bytes \<Rightarrow> bytes \<times> bytes" where
  "widen_range None r = r"
| "widen_range (Some (cur_min, cur_max)) (smallest, largest) = (min cur_min smallest, max cur_max largest)"

fun level_range_loop ::
  "(bytes \<Rightarrow> u32) \<Rightarrow> ('f, f64) bloom_api \<Rightarrow> compaction_env \<Rightarrow> files \<Rightarrow> sstable_meta list \<Rightarrow>
   (bytes \<times> bytes) option \<Rightarrow> (bytes \<times> bytes) option result" where
  "level_range_loop crc api env fs [] rng = Inr rng"
| "level_range_loop crc api env fs (meta # metas) rng =
     rbind (check_cancelled env (LevelRangeOf (sm_path meta))) (\<lambda>_.
     rbind (compute_meta_range crc api env fs meta) (\<lambda>r.
       level_range_loop crc api env fs metas
         (case r of None \<Rightarrow> rng | Some kr \<Rightarrow> Some (widen_range rng kr))))"

definition compute_level_range ::
  "(bytes \<Rightarrow> u32) \<Rightarrow> ('f, f64) bloom_api \<Rightarrow> compaction_env \<Rightarrow> files \<Rightarrow> sstable_meta list \<Rightarrow>
   (bytes \<times> bytes) option result" where
  "compute_level_range crc api env fs metas = level_range_loop crc api env fs metas None"

text \<open>The range of one table, which has to have one.\<close>

definition table_range ::
  "(bytes \<Rightarrow> u32) \<Rightarrow> ('f, f64) bloom_api \<Rightarrow> compaction_env \<Rightarrow> files \<Rightarrow> sstable_meta \<Rightarrow>
   (bytes \<times> bytes) result" where
  "table_range crc api env fs meta =
     rbind (compute_meta_range crc api env fs meta) (\<lambda>r.
       case r of None \<Rightarrow> Inl (Err (Corrupted ''SSTable has no key range'')) | Some kr \<Rightarrow> Inr kr)"

section \<open>Choosing the inputs\<close>

text \<open>Oldest files first: one of a deeper level, a group of level 0 up to the target size.\<close>

fun initial_candidates ::
  "(bytes \<Rightarrow> u64 result) \<Rightarrow> u32 \<Rightarrow> u64 \<Rightarrow> sstable_meta list \<Rightarrow> sstable_meta list \<Rightarrow> u64 \<Rightarrow>
   sstable_meta list result" where
  "initial_candidates file_len level target [] merge_candidates input_bytes = Inr merge_candidates"
| "initial_candidates file_len level target (meta # metas) merge_candidates input_bytes =
     (if merge_candidates \<noteq> [] \<and> (level \<noteq> 0 \<or> input_bytes \<ge> target) then Inr merge_candidates
      else rbind (file_len (sm_path meta)) (\<lambda>n.
             initial_candidates file_len level target metas (merge_candidates @ [meta])
               (saturating_add input_bytes n)))"

text \<open>One pass over the files of both levels, and the repetition of the pass until nothing is added.\<close>

fun close_round ::
  "(sstable_meta \<Rightarrow> (bytes \<times> bytes) result) \<Rightarrow> sstable_meta list \<Rightarrow> sstable_meta list \<Rightarrow> bytes \<times> bytes \<Rightarrow>
   (sstable_meta list \<times> bytes \<times> bytes) result" where
  "close_round range_of [] merge_candidates selected = Inr (merge_candidates, selected)"
| "close_round range_of (candidate # candidates) merge_candidates selected =
     (if list_ex (\<lambda>meta. sm_file_id meta = sm_file_id candidate) merge_candidates
      then close_round range_of candidates merge_candidates selected
      else
        rbind (range_of candidate) (\<lambda>rng.
          if key_ranges_overlap selected rng
          then close_round range_of candidates (merge_candidates @ [candidate])
                 (min (fst selected) (fst rng), max (snd selected) (snd rng))
          else close_round range_of candidates merge_candidates selected))"

lemma close_round_grows:
  assumes "close_round range_of files cands sel = Inr (cands', sel')"
  shows "\<exists>added. cands' = cands @ added \<and> set added \<subseteq> set files
     \<and> (\<forall>m \<in> set added. sm_file_id m \<notin> sm_file_id ` set cands)"
  using assms
proof (induction range_of files cands sel rule: close_round.induct)
  case (2 range_of candidate candidates cands sel)
  show ?case
  proof (cases "list_ex (\<lambda>meta. sm_file_id meta = sm_file_id candidate) cands")
    case True
    with 2(1,4) show ?thesis by fastforce
  next
    case False
    then have new: "sm_file_id candidate \<notin> sm_file_id ` set cands" by (auto simp: list_ex_iff)
    from 2(4) False obtain rng where rng: "range_of candidate = Inr rng" by (auto simp: rbind_eq_Inr)
    show ?thesis
    proof (cases "key_ranges_overlap sel rng")
      case True
      with 2(4) False rng 2(2) [OF False True] obtain added where
        "cands' = (cands @ [candidate]) @ added" "set added \<subseteq> set candidates"
        "\<forall>m \<in> set added. sm_file_id m \<notin> sm_file_id ` set (cands @ [candidate])"
        by auto
      with new show ?thesis by (intro exI [of _ "candidate # added"]) auto
    next
      case no: False
      with 2(4) False rng 2(3) [OF False no] show ?thesis by fastforce
    qed
  qed
qed simp

text \<open>The measure of the closure loop: the files not chosen yet.\<close>

definition unchosen :: "sstable_meta list \<Rightarrow> sstable_meta list \<Rightarrow> nat" where
  "unchosen files cands = length (filter (\<lambda>f. sm_file_id f \<notin> sm_file_id ` set cands) files)"

lemma unchosen_less:
  assumes "close_round range_of files cands sel = Inr (cands', sel')" and "length cands' \<noteq> length cands"
  shows "unchosen files cands' < unchosen files cands"
proof -
  from close_round_grows [OF assms(1)] assms(2) obtain added where
    a: "cands' = cands @ added" "set added \<subseteq> set files" "added \<noteq> []"
    "\<forall>m \<in> set added. sm_file_id m \<notin> sm_file_id ` set cands"
    by auto
  let ?new = "filter (\<lambda>f. sm_file_id f \<notin> sm_file_id ` set cands)" and
    ?hit = "\<lambda>f. sm_file_id f \<in> sm_file_id ` set added"
  have "?new files \<noteq> []" using a by (auto simp: filter_empty_conv) (meson a(3) hd_in_set subsetD)
  have hd: "hd added \<in> set (?new files)" using a by auto
  have "filter (\<lambda>f. sm_file_id f \<notin> sm_file_id ` set cands') files = filter (\<lambda>f. \<not> ?hit f) (?new files)"
    by (auto simp: a(1) intro: filter_cong)
  moreover have "length (filter (\<lambda>f. \<not> ?hit f) (?new files)) < length (?new files)"
    by (rule length_filter_less [OF hd]) (use a(3) in auto)
  ultimately show ?thesis by (simp add: unchosen_def)
qed

function close_overlaps ::
  "(sstable_meta \<Rightarrow> (bytes \<times> bytes) result) \<Rightarrow> sstable_meta list \<Rightarrow> sstable_meta list \<Rightarrow> bytes \<times> bytes \<Rightarrow>
   (sstable_meta list \<times> bytes \<times> bytes) result" where
  "close_overlaps range_of files merge_candidates selected =
     (case close_round range_of files merge_candidates selected of
        Inl e \<Rightarrow> Inl e
      | Inr (merge_candidates', selected') \<Rightarrow>
          (if length merge_candidates' = length merge_candidates then Inr (merge_candidates', selected')
           else close_overlaps range_of files merge_candidates' selected'))"
  by pat_completeness auto
termination
  by (relation "measure (\<lambda>(range_of, files, cands, sel). unchosen files cands)") (auto simp: unchosen_less)

declare close_overlaps.simps [simp del]

definition select_inputs ::
  "(bytes \<Rightarrow> u32) \<Rightarrow> ('f, f64) bloom_api \<Rightarrow> compaction_env \<Rightarrow> storage_config \<Rightarrow> u32 \<Rightarrow>
   manifest_snapshot \<Rightarrow> files \<Rightarrow> (sstable_meta list \<times> sstable_meta list) result" where
  "select_inputs crc api env config level snap fs =
     (case map_of (sn_levels snap) level of
        None \<Rightarrow> Inl (Err (StorageError ''Level not found in manifest''))
      | Some manifest_level \<Rightarrow>
          let current_level_files = sort_key sm_file_id manifest_level
          in if level = - 1 then Inl (Err (StorageError ''compaction level overflow''))
             else
               let next_level_files =
                     (case map_of (sn_levels snap) (level + 1) of None \<Rightarrow> [] | Some files \<Rightarrow> files)
               in rbind (initial_candidates (metadata_len (ce_faults env) fs) level
                           (target_sstable_bytes config) current_level_files [] 0) (\<lambda>merge_candidates.
                  rbind (compute_level_range crc api env fs merge_candidates) (\<lambda>selected_range.
                    case selected_range of
                      None \<Rightarrow> Inl (Err (Corrupted ''Level has no valid key range''))
                    | Some selected_range \<Rightarrow>
                        rbind (close_overlaps (table_range crc api env fs)
                                 (current_level_files @ next_level_files) merge_candidates
                                 selected_range) (\<lambda>(merge_candidates, _).
                        Inr (current_level_files, merge_candidates)))))"

section \<open>Merging\<close>

definition flush_winner ::
  "(bytes \<Rightarrow> u32) \<Rightarrow> ('f, f64) bloom_api \<Rightarrow> memtable_record \<Rightarrow>
   (block_builder \<times> block list) \<times> 'f bloom_wrapper \<Rightarrow>
   ((block_builder \<times> block list) \<times> 'f bloom_wrapper) result" where
  "flush_winner crc api winner st =
     (let bloom_filter = bloom_insert api (mr_key winner) (snd st)
      in rbind (roll_record crc (mr_key winner) winner (fst st)) (\<lambda>blocks. Inr (blocks, bloom_filter)))"

fun merge_blocks ::
  "block list \<Rightarrow> (bytes, memtable_record) btree_map \<Rightarrow> (bytes, memtable_record) btree_map" where
  "merge_blocks [] merged_by_key = merged_by_key"
| "merge_blocks (block # blocks) merged_by_key =
     merge_blocks blocks
       (case b_data block of
          Some records \<Rightarrow> merge_records choose_winner (map (\<lambda>r. (mr_key r, r)) records) merged_by_key
        | None \<Rightarrow> merged_by_key)"

fun merge_tables ::
  "compaction_env \<Rightarrow> nat \<Rightarrow> 'f sstable_codec list \<Rightarrow> (bytes, memtable_record) btree_map \<Rightarrow>
   (bytes, memtable_record) btree_map result" where
  "merge_tables env i [] merged_by_key = Inr merged_by_key"
| "merge_tables env i (sstable # sstables) merged_by_key =
     rbind (check_cancelled env (MergingTable i)) (\<lambda>_.
       merge_tables env (Suc i) sstables (merge_blocks (sc_blocks sstable) merged_by_key))"

text \<open>A deletion that no other table can need: its key is outside the ranges of the tables left.\<close>

definition reclaimed :: "(bytes \<times> bytes) list option \<Rightarrow> memtable_record \<Rightarrow> bool" where
  "reclaimed protected_ranges winner \<longleftrightarrow>
     mr_type winner = Delete
     \<and> (case protected_ranges of
          None \<Rightarrow> False
        | Some ranges \<Rightarrow> \<not> list_ex (\<lambda>(start, e). start \<le> mr_key winner \<and> mr_key winner \<le> e) ranges)"

fun emit_winners ::
  "(bytes \<Rightarrow> u32) \<Rightarrow> ('f, f64) bloom_api \<Rightarrow> compaction_env \<Rightarrow> (bytes \<times> bytes) list option \<Rightarrow>
   memtable_record list \<Rightarrow> (block_builder \<times> block list) \<times> 'f bloom_wrapper \<Rightarrow>
   ((block_builder \<times> block list) \<times> 'f bloom_wrapper) result" where
  "emit_winners crc api env protected_ranges [] st = Inr st"
| "emit_winners crc api env protected_ranges (winner # winners) st =
     rbind (check_cancelled env (MergingKey (mr_key winner))) (\<lambda>_.
       if reclaimed protected_ranges winner then emit_winners crc api env protected_ranges winners st
       else rbind (flush_winner crc api winner st) (emit_winners crc api env protected_ranges winners))"

text \<open>The last block is what is left in the builder.\<close>

definition finish_blocks :: "block_builder \<times> block list \<Rightarrow> block list result" where
  "finish_blocks st =
     rbind (build (fst st)) (\<lambda>last_block.
       Inr (case last_block of None \<Rightarrow> snd st | Some (b, _) \<Rightarrow> snd st @ [b]))"

definition merge_files_with_reclamation ::
  "(bytes \<Rightarrow> u32) \<Rightarrow> ('f, f64) bloom_api \<Rightarrow> compaction_env \<Rightarrow> storage_config \<Rightarrow> 'f sstable_codec list \<Rightarrow>
   (bytes \<times> bytes) list option \<Rightarrow> 'f sstable_codec result" where
  "merge_files_with_reclamation crc api env config sstables protected_ranges =
     rbind (merge_tables env 0 sstables []) (\<lambda>merged_by_key.
     rbind (emit_winners crc api env protected_ranges (bt_values merged_by_key)
              ((BlockBuilder_new 0, []),
               bloom_with_rate api 1000000 (bloom_false_positive_rate config))) (\<lambda>(st, bloom_filter).
     rbind (finish_blocks st) (\<lambda>block_entries.
       Inr \<lparr>sc_blocks = block_entries, sc_index = [], sc_bloom = bloom_filter\<rparr>)))"

section \<open>Partition into output tables\<close>

fun flush_winners ::
  "(bytes \<Rightarrow> u32) \<Rightarrow> ('f, f64) bloom_api \<Rightarrow> memtable_record list \<Rightarrow>
   (block_builder \<times> block list) \<times> 'f bloom_wrapper \<Rightarrow>
   ((block_builder \<times> block list) \<times> 'f bloom_wrapper) result" where
  "flush_winners crc api [] st = Inr st"
| "flush_winners crc api (record # records) st =
     rbind (flush_winner crc api record st) (flush_winners crc api records)"

definition build_output ::
  "(bytes \<Rightarrow> u32) \<Rightarrow> ('f, f64) bloom_api \<Rightarrow> storage_config \<Rightarrow> memtable_record list \<Rightarrow>
   'f sstable_codec result" where
  "build_output crc api config records =
     rbind (flush_winners crc api records
              ((BlockBuilder_new 0, []),
               bloom_with_rate api (length records) (bloom_false_positive_rate config))) (\<lambda>(st, bloom).
     rbind (finish_blocks st) (\<lambda>blocks. Inr (SSTableCodec_new blocks [] bloom)))"

fun partition_loop ::
  "(bytes \<Rightarrow> u32) \<Rightarrow> ('f, f64) bloom_api \<Rightarrow> storage_config \<Rightarrow> memtable_record list \<Rightarrow>
   memtable_record list \<Rightarrow> u64 \<Rightarrow> 'f sstable_codec list \<Rightarrow> 'f sstable_codec list result" where
  "partition_loop crc api config [] records bytes outputs =
     (if records \<noteq> [] then rbind (build_output crc api config records) (\<lambda>t. Inr (outputs @ [t]))
      else Inr outputs)"
| "partition_loop crc api config (record # rest) records bytes outputs =
     (let record_bytes = of_nat (record_length record (mr_key record)) in
      if records \<noteq> [] \<and> saturating_add bytes record_bytes > target_sstable_bytes config
      then rbind (build_output crc api config records) (\<lambda>t.
             partition_loop crc api config rest [record] (saturating_add 0 record_bytes) (outputs @ [t]))
      else partition_loop crc api config rest (records @ [record]) (saturating_add bytes record_bytes) outputs)"

definition partition_output ::
  "(bytes \<Rightarrow> u32) \<Rightarrow> ('f, f64) bloom_api \<Rightarrow> storage_config \<Rightarrow> 'f sstable_codec \<Rightarrow>
   'f sstable_codec list result" where
  "partition_output crc api config merged =
     partition_loop crc api config
       (concat (map (\<lambda>block. case b_data block of Some rs \<Rightarrow> rs | None \<Rightarrow> []) (sc_blocks merged))) [] 0 []"

section \<open>Writing the outputs\<close>

definition build_compaction_output_path :: "bytes \<Rightarrow> u32 \<Rightarrow> u64 \<Rightarrow> bytes" where
  "build_compaction_output_path base_file_path level file_id =
     (let level_name = ascii ''level-'' @ decimal (unat level);
          level_dir = (case path_parent base_file_path of
                         None \<Rightarrow> level_name
                       | Some parent \<Rightarrow>
                           (case path_parent parent of
                              None \<Rightarrow> level_name
                            | Some sstable_root \<Rightarrow> path_join sstable_root level_name))
      in path_join level_dir (ascii ''sstable-'' @ decimal (unat file_id) @ ascii ''.dat''))"

definition make_parent :: "faults \<Rightarrow> bytes \<Rightarrow> unit result" where
  "make_parent faults path =
     (case path_parent path of None \<Rightarrow> Inr () | Some parent \<Rightarrow> io_fault faults MakeDirs parent)"

text \<open>The encoded table is a \<open>Vec\<close>, which cannot grow past \<open>isize::MAX\<close> bytes.\<close>

definition write_compaction_output ::
  "(bytes \<Rightarrow> u32) \<Rightarrow> ('f, f64) bloom_api \<Rightarrow> compaction_env \<Rightarrow> bytes \<Rightarrow> u32 \<Rightarrow> 'f sstable_codec \<Rightarrow>
   bytes manifest_manager \<times> files \<Rightarrow> sstable_meta result \<times> bytes manifest_manager \<times> files" where
  "write_compaction_output crc api env source_path level table st =
     (case create_table_file (build_compaction_output_path source_path level)
             (make_parent (ce_faults env)) (ce_faults env) (snd st) (fst st) of
        (Inl e, mm) \<Rightarrow> (Inl e, mm, snd st)
      | (Inr (file_id, output_path), mm) \<Rightarrow>
          let (encoded, footer) = serialize crc api table; fs = (snd st)(output_path \<mapsto> [])
          in if isize_max < length encoded then (Inl (Panic ''capacity overflow''), mm, fs)
             else
               (case write_table_file (ce_faults env) output_path encoded fs of
                  (Inl e, fs) \<Rightarrow> (Inl e, mm, fs)
                | (Inr _, fs) \<Rightarrow>
                    (rbind (case path_parent output_path of
                                   None \<Rightarrow> Inl (Panic ''called Option::unwrap() on a None value'')
                                 | Some parent \<Rightarrow> io_fault (ce_faults env) SyncDir parent) (\<lambda>_.
                          case range_from_blocks (sc_blocks table) of
                            None \<Rightarrow> Inl (Err (Corrupted ''compaction output has no key range''))
                          | Some (smallest_key, largest_key) \<Rightarrow>
                              Inr \<lparr>sm_file_id = file_id, sm_level = level, sm_path = output_path,
                                   sm_record_count =
                                     sum_list (map (\<lambda>block. ucast (b_record_count block)) (sc_blocks table)),
                                   sm_smallest_key = smallest_key, sm_largest_key = largest_key,
                                   sm_bloom_offset = bloom_block_start footer,
                                   sm_bloom_size = bloom_block_end footer - bloom_block_start footer\<rparr>),
                     mm, fs)))"

fun write_outputs ::
  "(bytes \<Rightarrow> u32) \<Rightarrow> ('f, f64) bloom_api \<Rightarrow> compaction_env \<Rightarrow> bytes \<Rightarrow> u32 \<Rightarrow> nat \<Rightarrow>
   'f sstable_codec list \<Rightarrow> bytes manifest_manager \<times> files \<Rightarrow>
   sstable_meta list result \<times> bytes manifest_manager \<times> files" where
  "write_outputs crc api env source_path level i [] st = (Inr [], st)"
| "write_outputs crc api env source_path level i (table # codecs) st =
     (case check_cancelled env (BeforeOutput i) of
        Inl e \<Rightarrow> (Inl e, st)
      | Inr _ \<Rightarrow>
          (case write_compaction_output crc api env source_path level table st of
             (Inl e, st') \<Rightarrow> (Inl e, st')
           | (Inr meta, st') \<Rightarrow>
               (case write_outputs crc api env source_path level (Suc i) codecs st' of
                  (r, st'') \<Rightarrow> (rbind r (\<lambda>metas. Inr (meta # metas)), st''))))"

text \<open>A file that cannot be removed is logged and left.\<close>

fun remove_compacted_files ::
  "compaction_env \<Rightarrow> sstable_meta list \<Rightarrow> bytes manifest_manager \<times> files \<Rightarrow>
   bytes manifest_manager \<times> files" where
  "remove_compacted_files env [] st = st"
| "remove_compacted_files env (input # inputs) st =
     remove_compacted_files env inputs
       (evict_file (sm_path input) (fst st),
        if ce_faults env RemoveFile (sm_path input) = None then (snd st)(sm_path input := None)
        else snd st)"

section \<open>A compaction\<close>

definition read_table ::
  "(bytes \<Rightarrow> u32) \<Rightarrow> ('f, f64) bloom_api \<Rightarrow> compaction_env \<Rightarrow> files \<Rightarrow> sstable_meta \<Rightarrow>
   'f sstable_codec result" where
  "read_table crc api env fs meta =
     rbind (check_cancelled env (BeforeReading (sm_path meta))) (\<lambda>_.
     rbind (open_path (ce_faults env) fs (sm_path meta)) (\<lambda>sstable_file.
     rbind (deserialize_sections crc api sstable_file) (\<lambda>(footer, index, bloom).
     rbind (get_all_blocks crc sstable_file footer index) (\<lambda>sstable_blocks.
       Inr \<lparr>sc_blocks = sstable_blocks, sc_index = index, sc_bloom = bloom\<rparr>))))"

fun read_tables ::
  "(bytes \<Rightarrow> u32) \<Rightarrow> ('f, f64) bloom_api \<Rightarrow> compaction_env \<Rightarrow> files \<Rightarrow> sstable_meta list \<Rightarrow>
   'f sstable_codec list result" where
  "read_tables crc api env fs [] = Inr []"
| "read_tables crc api env fs (meta # metas) =
     rbind (read_table crc api env fs meta) (\<lambda>t.
     rbind (read_tables crc api env fs metas) (\<lambda>ts. Inr (t # ts)))"

fun protect_ranges ::
  "(bytes \<Rightarrow> u32) \<Rightarrow> ('f, f64) bloom_api \<Rightarrow> compaction_env \<Rightarrow> files \<Rightarrow> sstable_meta list \<Rightarrow>
   sstable_meta list \<Rightarrow> (bytes \<times> bytes) list result" where
  "protect_ranges crc api env fs merge_candidates [] = Inr []"
| "protect_ranges crc api env fs merge_candidates (meta # metas) =
     (if list_ex (\<lambda>input. sm_file_id input = sm_file_id meta) merge_candidates
      then protect_ranges crc api env fs merge_candidates metas
      else rbind (table_range crc api env fs meta) (\<lambda>rng.
           rbind (protect_ranges crc api env fs merge_candidates metas) (\<lambda>rngs. Inr (rng # rngs))))"

text \<open>Everything a compaction reads: the inputs, their merge and its partition.\<close>

definition merge_inputs ::
  "(bytes \<Rightarrow> u32) \<Rightarrow> ('f, f64) bloom_api \<Rightarrow> compaction_env \<Rightarrow> storage_config \<Rightarrow> manifest_snapshot \<Rightarrow>
   sstable_meta list \<Rightarrow> files \<Rightarrow> 'f sstable_codec result" where
  "merge_inputs crc api env config snap merge_candidates fs =
     rbind (read_tables crc api env fs merge_candidates) (\<lambda>sstables.
     rbind (protect_ranges crc api env fs merge_candidates (concat (map snd (sn_levels snap)))) (\<lambda>protected_ranges.
       merge_files_with_reclamation crc api env config sstables (Some protected_ranges)))"

definition compaction_plan ::
  "(bytes \<Rightarrow> u32) \<Rightarrow> ('f, f64) bloom_api \<Rightarrow> compaction_env \<Rightarrow> storage_config \<Rightarrow> u32 \<Rightarrow>
   manifest_snapshot \<Rightarrow> files \<Rightarrow>
   (sstable_meta list \<times> sstable_meta list \<times> 'f sstable_codec \<times> 'f sstable_codec list) result" where
  "compaction_plan crc api env config level snap fs =
     rbind (check_cancelled env AtStart) (\<lambda>_.
     rbind (select_inputs crc api env config level snap fs) (\<lambda>(current_level_files, merge_candidates).
     rbind (merge_inputs crc api env config snap merge_candidates fs) (\<lambda>merged_sstable.
     rbind (check_cancelled env AfterMerge) (\<lambda>_.
     rbind (partition_output crc api config merged_sstable) (\<lambda>codecs.
       Inr (current_level_files, merge_candidates, merged_sstable, codecs))))))"

definition compaction ::
  "(bytes \<Rightarrow> u32) \<Rightarrow> ('f, f64) bloom_api \<Rightarrow> compaction_env \<Rightarrow> u32 \<Rightarrow> storage_config \<Rightarrow>
   bytes manifest_manager \<times> files \<Rightarrow>
   'f sstable_codec result \<times> bytes manifest_manager \<times> files" where
  "compaction crc api env level config st =
     (let snap = snapshot (fst st) in
      case compaction_plan crc api env config level snap (snd st) of
        Inl e \<Rightarrow> (Inl e, st)
      | Inr (current_level_files, merge_candidates, merged_sstable, codecs) \<Rightarrow>
          (case write_outputs crc api env (sm_path (hd current_level_files)) (level + 1) 0 codecs st of
             (Inl e, st') \<Rightarrow> (Inl e, st')
           | (Inr outputs, st') \<Rightarrow>
               (case check_cancelled env BeforePublish of
                  Inl e \<Rightarrow> (Inl e, st')
                | Inr _ \<Rightarrow>
                    (case publish_compaction crc (ce_append env) snap merge_candidates outputs (fst st') of
                       (Inl e, mm) \<Rightarrow> (Inl e, mm, snd st')
                     | (Inr _, mm) \<Rightarrow>
                         (Inr merged_sstable,
                          remove_compacted_files env merge_candidates (mm, snd st'))))))"

section \<open>The loop over the levels\<close>

definition saturating_mul :: "u64 \<Rightarrow> u64 \<Rightarrow> u64" where
  "saturating_mul a b = (if unat a * unat b < 2 ^ 64 then a * b else - 1)"

definition saturating_pow :: "u64 \<Rightarrow> u32 \<Rightarrow> u64" where
  "saturating_pow a n = (if unat a ^ unat n < 2 ^ 64 then a ^ unat n else - 1)"

fun level_bytes :: "(bytes \<Rightarrow> u64 result) \<Rightarrow> sstable_meta list \<Rightarrow> u64 \<Rightarrow> u64 result" where
  "level_bytes file_len [] bytes = Inr bytes"
| "level_bytes file_len (meta # metas) bytes =
     rbind (file_len (sm_path meta)) (\<lambda>n. level_bytes file_len metas (saturating_add bytes n))"

fun indebted_level ::
  "(bytes \<Rightarrow> u64 result) \<Rightarrow> storage_config \<Rightarrow> (u32 \<times> sstable_meta list) list \<Rightarrow> u32 option result" where
  "indebted_level file_len config [] = Inr None"
| "indebted_level file_len config ((level, files) # levels) =
     (let target = saturating_mul (level_base_bytes config)
                     (saturating_pow (level_size_multiplier config) (level - 1))
      in rbind (level_bytes file_len files 0) (\<lambda>bytes.
           if bytes > target then Inr (Some level) else indebted_level file_len config levels))"

definition pick_level ::
  "(bytes \<Rightarrow> u64 result) \<Rightarrow> storage_config \<Rightarrow> u32 option \<Rightarrow> manifest_snapshot \<Rightarrow> u32 option result" where
  "pick_level file_len config requested snap =
     (let full0 = (\<lambda>files. unat (max_level0_files config) \<le> length files);
          pending = (case requested of
                       None \<Rightarrow> None
                     | Some level \<Rightarrow>
                         (case map_of (sn_levels snap) level of
                            None \<Rightarrow> None
                          | Some files \<Rightarrow>
                              if files \<noteq> [] \<and> (level \<noteq> 0 \<or> full0 files) then Some level else None))
      in rbind (if pending = None
                then indebted_level file_len config (rev (filter (\<lambda>l. fst l > 0) (sn_levels snap)))
                else Inr pending) (\<lambda>pending.
           Inr (if pending = None
                   \<and> (case map_of (sn_levels snap) 0 of None \<Rightarrow> False | Some files \<Rightarrow> full0 files)
                then Some 0 else pending)))"

text \<open>
  The loop of \<open>compact_levels\<close>, whose round \<open>n\<close> runs in \<open>env n\<close>; not returning is \<open>None\<close>.
\<close>

partial_function (option) compact_loop ::
  "(bytes \<Rightarrow> u32) \<Rightarrow> ('f, f64) bloom_api \<Rightarrow> (nat \<Rightarrow> compaction_env) \<Rightarrow> storage_config \<Rightarrow> nat \<Rightarrow>
   u32 option \<Rightarrow> bytes manifest_manager \<times> files \<Rightarrow>
   (unit result \<times> bytes manifest_manager \<times> files) option" where
  "compact_loop crc api env config n requested st =
     (case check_cancelled (env n) LoopStart of
        Inl e \<Rightarrow> Some (Inl e, st)
      | Inr _ \<Rightarrow>
          (case pick_level (metadata_len (ce_faults (env n)) (snd st)) config requested
                  (snapshot (fst st)) of
             Inl e \<Rightarrow> Some (Inl e, st)
           | Inr None \<Rightarrow> Some (Inr (), st)
           | Inr (Some level) \<Rightarrow>
               (case compaction crc api (env n) level config st of
                  (Inl e, st') \<Rightarrow> Some (Inl e, st')
                | (Inr _, st') \<Rightarrow> compact_loop crc api env config (Suc n) None st')))"

definition compact_levels ::
  "(bytes \<Rightarrow> u32) \<Rightarrow> ('f, f64) bloom_api \<Rightarrow> (nat \<Rightarrow> compaction_env) \<Rightarrow> u32 \<Rightarrow> storage_config \<Rightarrow>
   bytes manifest_manager \<times> files \<Rightarrow> (unit result \<times> bytes manifest_manager \<times> files) option" where
  "compact_levels crc api env requested_level config st =
     (if target_sstable_bytes config = 0 \<or> level_base_bytes config = 0
         \<or> level_size_multiplier config < 2 \<or> max_level0_files config = 0
      then Some (Inl (Err (StorageError ''invalid compaction targets'')), st)
      else compact_loop crc api env config 0 (Some requested_level) st)"

end
