(* ===== verification/Engine.thy ===== *)
theory Engine
  imports Write_Component Preflight Compaction
begin

text \<open>
  \<open>KV2\<close> of \<open>src/storage/kv2.rs\<close>, the engine: it opens a directory (manifest, tables, log), serves reads
  and writes, flushes the memtable when it is large and hands compaction triggers to a worker.

  The reader and the writer share one memtable through \<open>Arc\<close>: the engine never replaces it, so it is
  stored once, in the writer. \<open>kv_triggers\<close> is what the compaction channel holds and \<open>kv_worker\<close> whether
  the worker still takes from it: a panic of a compaction ends its task. A table file is a regular
  file. What survives a crash is \<open>disk_of\<close>; an absent manifest file reads as an empty one.
\<close>

record disk =
  di_manifest :: bytes
  di_wal :: wal_directory
  di_files :: files

record kv2 =
  kv_base_dir :: bytes
  kv_writer :: write_component
  kv_managers :: managers
  kv_triggers :: "u32 list"
  kv_worker :: bool

text \<open>What the file system does while a directory is opened.\<close>

record open_env =
  oe_exists :: "bytes \<Rightarrow> bool"
  oe_faults :: faults
  oe_create :: create_io
  oe_remove_ok :: "dir_entry \<Rightarrow> bool"
  oe_sync_ok :: bool
  oe_address :: nat

definition disk_of :: "kv2 \<Rightarrow> disk" where
  "disk_of k =
     \<lparr>di_manifest = mm_file (mg_manifest (kv_managers k)), di_wal = wm_dir (mg_wal (kv_managers k)),
      di_files = mg_files (kv_managers k)\<rparr>"

section \<open>Opening\<close>

definition EXPERIMENTAL_BOOTSTRAP_ARTIFACTS :: "bytes list" where
  "EXPERIMENTAL_BOOTSTRAP_ARTIFACTS =
     map ascii [''EXPERIMENTAL-WAL-VALUES'', ''EXPERIMENTAL-WAL-VALUES.tmp'', ''CURRENT'', ''CURRENT.tmp'',
                ''NEXT-GENERATION'', ''NEXT-GENERATION.tmp'', ''SEAL'', ''SEAL.tmp'', ''LOCK'', ''generations'']"

definition ensure_not_experimental_storage :: "(bytes \<Rightarrow> bool) \<Rightarrow> bytes \<Rightarrow> unit result" where
  "ensure_not_experimental_storage path_exists path =
     guard_err (list_ex (\<lambda>artifact. path_exists (path_join path artifact)) EXPERIMENTAL_BOOTSTRAP_ARTIFACTS)
       (StorageError ''is reserved by an experimental WAL value store'')"

text \<open>The blocks against the index entries they belong to; \<open>n\<close> is \<open>actual_count\<close>.\<close>

fun check_blocks :: "(sparse_index_entry \<times> block) list \<Rightarrow> nat \<Rightarrow> nat result" where
  "check_blocks [] n = Inr n"
| "check_blocks ((entry, block) # rest) n =
     (case b_data block of
        None \<Rightarrow> Inl (Err (Corrupted ''SSTable block has no records''))
      | Some records \<Rightarrow>
          rbind (guard_err (records = [] \<or> length records \<noteq> unat (si_record_count entry)
                            \<or> mr_key (hd records) \<noteq> si_first_key entry \<or> mr_key (last records) \<noteq> si_last_key entry
                            \<or> b_first_key block \<noteq> si_first_key entry \<or> b_last_key block \<noteq> si_last_key entry)
                   (Corrupted ''SSTable block does not match sparse index'')) (\<lambda>_.
          rbind (guard_err (usize_max < n + length records) (Corrupted ''SSTable record count overflow'')) (\<lambda>_.
          check_blocks rest (n + length records))))"

definition validate_manifest_sstable ::
  "(bytes \<Rightarrow> u32) \<Rightarrow> ('f, 'r) bloom_api \<Rightarrow> faults \<Rightarrow> files \<Rightarrow> sstable_meta \<Rightarrow> unit result" where
  "validate_manifest_sstable crc api faults fs table =
     rbind (map_err (Corrupted ''cannot inspect manifest SSTable'') (metadata_len faults fs (sm_path table))) (\<lambda>_.
     rbind (map_err (Corrupted ''cannot open manifest SSTable'') (open_path faults fs (sm_path table))) (\<lambda>bytes.
     rbind (guard_err (length bytes < FOOTER_SIZE) (Corrupted ''manifest SSTable is shorter than its footer'')) (\<lambda>_.
     rbind (deserialize_footer crc bytes) (\<lambda>footer.
     rbind (guard_err (\<not> sections_in_place (of_nat (length bytes)) footer)
              (Corrupted ''invalid SSTable section offsets'')) (\<lambda>_.
     rbind (preflight_validate bytes footer) (\<lambda>_.
     rbind (read_sstable_sparse_index crc bytes footer) (\<lambda>checked_index.
     rbind (read_sstable_bloom crc api bytes footer) (\<lambda>_.
     rbind (deserialize_sections crc api bytes) (\<lambda>(decoded_footer, index, _).
     let index_records = sum_list (map (unat \<circ> si_record_count) index) in
     rbind (guard_err (usize_max < index_records) (Corrupted ''SSTable record count overflow'')) (\<lambda>_.
     rbind (guard_err (index = [] \<or> length checked_index \<noteq> length index
                       \<or> index_records \<noteq> unat (sm_record_count table)
                       \<or> si_first_key (hd index) \<noteq> sm_smallest_key table
                       \<or> si_last_key (last index) \<noteq> sm_largest_key table)
              (Corrupted ''SSTable index does not match manifest metadata'')) (\<lambda>_.
     rbind (get_all_blocks crc bytes decoded_footer index) (\<lambda>blocks.
     rbind (check_blocks (zip index blocks) 0) (\<lambda>actual_count.
     guard_err (actual_count \<noteq> unat (sm_record_count table))
       (Corrupted ''SSTable record count does not match manifest''))))))))))))))"

fun validate_tables ::
  "(bytes \<Rightarrow> u32) \<Rightarrow> ('f, 'r) bloom_api \<Rightarrow> faults \<Rightarrow> files \<Rightarrow> sstable_meta list \<Rightarrow> unit result" where
  "validate_tables crc api faults fs [] = Inr ()"
| "validate_tables crc api faults fs (t # ts) =
     rbind (validate_manifest_sstable crc api faults fs t) (\<lambda>_. validate_tables crc api faults fs ts)"

text \<open>The memtable of the recovered records, the highest LSN and the size.\<close>

fun build_recovered_memtable ::
  "wal_record list \<Rightarrow> memtable \<times> u64 \<times> u64 \<Rightarrow> memtable \<times> u64 \<times> u64" where
  "build_recovered_memtable [] s = s"
| "build_recovered_memtable (r # rs) (recovered, top_lsn, total_size) =
     (if wr_record_type r \<noteq> 1 \<and> wr_record_type r \<noteq> 2
      then build_recovered_memtable rs (recovered, top_lsn, total_size)
      else
        let record_type = (if wr_record_type r = 1 then Put else Delete);
            v = (if record_type = Delete then [] else wr_value r)
        in build_recovered_memtable rs
             (bt_insert (wr_key r, wr_lsn r) (MemtableRecord_new v record_type (wr_lsn r)) recovered,
              max top_lsn (wr_lsn r), total_size + of_nat (length (wr_key r) + length v)))"

definition KV2_open ::
  "(bytes \<Rightarrow> u32) \<Rightarrow> ('f, f64) bloom_api \<Rightarrow> open_env \<Rightarrow> bytes \<Rightarrow> storage_config \<Rightarrow> disk \<Rightarrow> kv2 result" where
  "KV2_open crc api env base_dir config d =
     (let wal_dir = path_join base_dir (ascii ''wal''); sstable_dir = path_join base_dir (ascii ''sstable'');
          manifest_path = path_join base_dir (ascii ''MANIFEST'') in
      rbind (ensure_not_experimental_storage (oe_exists env) base_dir) (\<lambda>_.
      rbind (io_fault (oe_faults env) MakeDirs base_dir) (\<lambda>_.
      rbind (io_fault (oe_faults env) MakeDirs wal_dir) (\<lambda>_.
      rbind (io_fault (oe_faults env) MakeDirs (level0_dir sstable_dir)) (\<lambda>_.
      rbind (load_or_create crc (if oe_faults env OpenFile manifest_path \<noteq> None then ReadFailed
                                 else ReadOk (di_manifest d))) (\<lambda>manifest.
      let checkpoint = sn_recovery_checkpoint (snapshot manifest) in
      rbind (validate_tables crc api (oe_faults env) (di_files d)
               (concat (bt_values (sn_levels (snapshot manifest))))) (\<lambda>_.
      rbind (new_with_checkpoint crc (oe_create env) (di_wal d) (wal_segment_size config) checkpoint) (\<lambda>wal.
      rbind (recover_records crc wal) (\<lambda>records.
      let wal = (case checkpoint of
                   None \<Rightarrow> wal
                 | Some c \<Rightarrow> snd (reclaim_checkpointed_segments (oe_remove_ok env) (oe_sync_ok env) c wal));
          (recovered, recovered_wal_sequence, recovered_size) = build_recovered_memtable records ([], 0, 0);
          recovered_sequence = max recovered_wal_sequence
            (case checkpoint of None \<Rightarrow> 0 | Some c \<Rightarrow> rc_committed_sequence c);
          (w, wal) = WriteComponent_new (oe_address env) sstable_dir recovered_sequence config wal
      in Inr \<lparr>kv_base_dir = base_dir, kv_writer = restore_memtable recovered recovered_size w,
              kv_managers = \<lparr>mg_wal = wal, mg_manifest = manifest, mg_files = di_files d\<rparr>,
              kv_triggers = [], kv_worker = True\<rparr>)))))))))"

text \<open>
  The engine over an index whose values are references into a log that the caller has opened and
  recovered; \<open>wal\<close>, the memtable, its size and its sequence are the caller's.
\<close>

definition open_reference_index ::
  "(bytes \<Rightarrow> u32) \<Rightarrow> ('f, f64) bloom_api \<Rightarrow> open_env \<Rightarrow> bytes \<Rightarrow> storage_config \<Rightarrow> u64 \<Rightarrow> memtable \<Rightarrow> u64 \<Rightarrow>
   u64 \<Rightarrow> wal_manager \<Rightarrow> bytes \<Rightarrow> files \<Rightarrow> kv2 result" where
  "open_reference_index crc api env index_dir config generation recovered recovered_size recovered_sequence wal
     manifest_content fs =
     rbind (StorageConfig_validate config) (\<lambda>_.
     rbind (load_or_create crc
              (if oe_faults env OpenFile (path_join index_dir (ascii ''MANIFEST'')) \<noteq> None then ReadFailed
               else ReadOk manifest_content)) (\<lambda>manifest.
     rbind (validate_tables crc api (oe_faults env) fs
              (concat (bt_values (sn_levels (snapshot manifest))))) (\<lambda>_.
     let (w, wal) = Write_Component.new_reference_index (oe_address env) (path_join index_dir (ascii ''sstable''))
                      recovered_sequence config generation wal
     in Inr \<lparr>kv_base_dir = index_dir, kv_writer = restore_memtable recovered recovered_size w,
             kv_managers = \<lparr>mg_wal = wal, mg_manifest = manifest, mg_files = fs\<rparr>, kv_triggers = [],
             kv_worker = True\<rparr>)))"

section \<open>Reads\<close>

text \<open>A read uses the handle cache of the manifest manager.\<close>

definition with_manifest :: "bytes manifest_manager \<Rightarrow> kv2 \<Rightarrow> kv2" where
  "with_manifest mm k = k\<lparr>kv_managers := (kv_managers k)\<lparr>mg_manifest := mm\<rparr>\<rparr>"

definition kv_reader :: "kv2 \<Rightarrow> read_manager" where
  "kv_reader k = ReadManager_new (wc_memtable (kv_writer k)) (mg_manifest (kv_managers k))"

definition get_record ::
  "(bytes \<Rightarrow> u32) \<Rightarrow> ('f, f64) bloom_api \<Rightarrow> faults \<Rightarrow> bytes \<Rightarrow> kv2 \<Rightarrow> memtable_record option result \<times> kv2" where
  "get_record crc api faults key k =
     (case ReadManager_get crc api (open_path faults (mg_files (kv_managers k))) key
             (wc_sequence_number (kv_writer k)) (kv_reader k) of
        (r, rm) \<Rightarrow> (r, with_manifest (rm_manifest rm) k))"

definition KV2_get ::
  "(bytes \<Rightarrow> u32) \<Rightarrow> ('f, f64) bloom_api \<Rightarrow> faults \<Rightarrow> bytes \<Rightarrow> kv2 \<Rightarrow> bytes option result \<times> kv2" where
  "KV2_get crc api faults key k =
     apfst (map_sum id (\<lambda>record. case record of
        Some rec \<Rightarrow> if mr_type rec = Delete then None else Some (mr_value rec) | None \<Rightarrow> None))
       (get_record crc api faults key k)"

definition scan_records ::
  "(bytes \<Rightarrow> u32) \<Rightarrow> ('f, f64) bloom_api \<Rightarrow> faults \<Rightarrow> key_range \<Rightarrow> kv2 \<Rightarrow>
   (bytes \<times> memtable_record) list result \<times> kv2" where
  "scan_records crc api faults rng k =
     (case scan_records_range crc api (open_path faults (mg_files (kv_managers k))) rng
             (wc_sequence_number (kv_writer k)) (kv_reader k) of
        (r, rm) \<Rightarrow> (r, with_manifest (rm_manifest rm) k))"

definition KV2_scan ::
  "(bytes \<Rightarrow> u32) \<Rightarrow> ('f, f64) bloom_api \<Rightarrow> faults \<Rightarrow> key_range \<Rightarrow> kv2 \<Rightarrow>
   (bytes \<times> bytes) list result \<times> kv2" where
  "KV2_scan crc api faults rng k =
     (case scan_range crc api (open_path faults (mg_files (kv_managers k))) rng
             (wc_sequence_number (kv_writer k)) (kv_reader k) of
        (r, rm) \<Rightarrow> (r, with_manifest (rm_manifest rm) k))"

section \<open>Writes\<close>

record write_env =
  we_ios :: "nat \<Rightarrow> rotate_io \<times> write_io"
  we_flush :: flush_env

definition level0_count :: "manifest_snapshot \<Rightarrow> nat" where
  "level0_count snap = (case map_of (sn_levels snap) 0 of None \<Rightarrow> 0 | Some files \<Rightarrow> length files)"

text \<open>
  Sending a trigger waits while the channel is full; what it leaves in the channel is the same. When the
  worker is gone the channel is closed and the error of the send is dropped.
\<close>

definition maybe_flush_and_compact ::
  "(bytes \<Rightarrow> u32) \<Rightarrow> ('f, f64) bloom_api \<Rightarrow> flush_env \<Rightarrow> kv2 \<Rightarrow> unit result \<times> kv2" where
  "maybe_flush_and_compact crc api env k =
     (if wc_memtable_size (kv_writer k) < memtable_size_threshold (wc_config (kv_writer k)) then (Inr (), k)
      else
        (case flush_active_memtable crc api env (kv_writer k) (kv_managers k) of
           (Inl e, w, g) \<Rightarrow> (Inl e, k\<lparr>kv_writer := w, kv_managers := g\<rparr>)
         | (Inr _, w, g) \<Rightarrow>
             (Inr (), k\<lparr>kv_writer := w, kv_managers := g,
                        kv_triggers := kv_triggers k @
                          (if kv_worker k \<and> unat (max_level0_files (wc_config w)) \<le> level0_count (snapshot (mg_manifest g))
                           then [0] else [])\<rparr>)))"

text \<open>An error of the maintenance is logged; a panic is not caught.\<close>

definition maintain_after_commit ::
  "(bytes \<Rightarrow> u32) \<Rightarrow> ('f, f64) bloom_api \<Rightarrow> flush_env \<Rightarrow> kv2 \<Rightarrow> unit result \<times> kv2" where
  "maintain_after_commit crc api env k =
     (case maybe_flush_and_compact crc api env k of
        (Inl (Panic m), k) \<Rightarrow> (Inl (Panic m), k)
      | (_, k) \<Rightarrow> (Inr (), k))"

definition KV2_write_batch ::
  "(bytes \<Rightarrow> u32) \<Rightarrow> ('f, f64) bloom_api \<Rightarrow> write_env \<Rightarrow> batch_operation list \<Rightarrow> kv2 \<Rightarrow> (unit result \<times> kv2) option" where
  "KV2_write_batch crc api env operations k =
     (if operations = [] then Some (Inr (), k)
      else
        (case write_batch crc (we_ios env) operations (kv_writer k) (mg_wal (kv_managers k)) of
           None \<Rightarrow> None
         | Some (Inl e, w, wal) \<Rightarrow>
             Some (Inl e, k\<lparr>kv_writer := w, kv_managers := (kv_managers k)\<lparr>mg_wal := wal\<rparr>\<rparr>)
         | Some (Inr _, w, wal) \<Rightarrow>
             Some (maintain_after_commit crc api (we_flush env)
                     (k\<lparr>kv_writer := w, kv_managers := (kv_managers k)\<lparr>mg_wal := wal\<rparr>\<rparr>))))"

definition KV2_put ::
  "(bytes \<Rightarrow> u32) \<Rightarrow> ('f, f64) bloom_api \<Rightarrow> write_env \<Rightarrow> bytes \<Rightarrow> bytes \<Rightarrow> kv2 \<Rightarrow> (unit result \<times> kv2) option" where
  "KV2_put crc api env key v k = KV2_write_batch crc api env [Batch_Put key v] k"

definition KV2_delete ::
  "(bytes \<Rightarrow> u32) \<Rightarrow> ('f, f64) bloom_api \<Rightarrow> write_env \<Rightarrow> bytes \<Rightarrow> kv2 \<Rightarrow> (unit result \<times> kv2) option" where
  "KV2_delete crc api env key k = KV2_write_batch crc api env [Batch_Delete key] k"

definition flush_reference_memtable ::
  "(bytes \<Rightarrow> u32) \<Rightarrow> ('f, f64) bloom_api \<Rightarrow> flush_env \<Rightarrow> kv2 \<Rightarrow> nat result \<times> kv2" where
  "flush_reference_memtable crc api env k =
     (case flush_active_memtable crc api env (kv_writer k) (kv_managers k) of
        (r, w, g) \<Rightarrow> (map_sum id cr_record_count r, k\<lparr>kv_writer := w, kv_managers := g\<rparr>))"

section \<open>The compaction worker\<close>

text \<open>One trigger taken from the channel; the error of a compaction is logged, a panic ends the worker.\<close>

definition worker_step ::
  "(bytes \<Rightarrow> u32) \<Rightarrow> ('f, f64) bloom_api \<Rightarrow> (nat \<Rightarrow> compaction_env) \<Rightarrow> kv2 \<Rightarrow> kv2 option" where
  "worker_step crc api env k =
     (case kv_triggers k of
        [] \<Rightarrow> Some k
      | level # triggers \<Rightarrow>
          if \<not> kv_worker k then Some k
          else
            map_option (\<lambda>(r, mm, fs).
                k\<lparr>kv_triggers := triggers, kv_managers := (kv_managers k)\<lparr>mg_manifest := mm, mg_files := fs\<rparr>,
                  kv_worker := (case r of Inl (Panic _) \<Rightarrow> False | _ \<Rightarrow> True)\<rparr>)
              (compact_levels crc api env level (wc_config (kv_writer k))
                 (mg_manifest (kv_managers k), mg_files (kv_managers k))))"

text \<open>\<open>env\<close> is indexed by the number of triggers left.\<close>

fun drain_triggers ::
  "(bytes \<Rightarrow> u32) \<Rightarrow> ('f, f64) bloom_api \<Rightarrow> (nat \<Rightarrow> nat \<Rightarrow> compaction_env) \<Rightarrow> nat \<Rightarrow> kv2 \<Rightarrow> kv2 option" where
  "drain_triggers crc api env 0 k = Some k"
| "drain_triggers crc api env (Suc n) k =
     Option.bind (worker_step crc api (env n) k) (drain_triggers crc api env n)"

text \<open>
  \<open>shutdown\<close>, once no write is pending: the worker empties the channel before it stops, and joining a
  worker that panicked is an error.
\<close>

definition KV2_shutdown ::
  "(bytes \<Rightarrow> u32) \<Rightarrow> ('f, f64) bloom_api \<Rightarrow> (nat \<Rightarrow> nat \<Rightarrow> compaction_env) \<Rightarrow> kv2 \<Rightarrow> (unit result \<times> kv2) option" where
  "KV2_shutdown crc api env k =
     map_option (\<lambda>k. (if kv_worker k then Inr () else Inl (Err (StorageError ''task panicked'')), k))
       (drain_triggers crc api env (length (kv_triggers k)) k)"

end
