(* ===== verification/Read_Correct.thy ===== *)
theory Read_Correct
  imports Read_Path "HOL-Library.Multiset"
begin

text \<open>
  Reads return the newest version. The theory relates the loops of \<open>Read_Path\<close> to the set of
  versions stored in the memtable and in the table files, and shows that a scan returns exactly the
  newest versions in its range, and a point read the newest version of its key.
\<close>

section \<open>Ranges\<close>

lemma key_in_range_iff: "key_in_range k rng \<longleftrightarrow> above (fst rng) k \<and> below (snd rng) k"
  by (auto simp: key_in_range_def above_def below_def split: bound.splits)

lemma ranges_overlap_none:
  "\<not> ranges_overlap rng a b \<Longrightarrow> a \<le> k \<Longrightarrow> k \<le> b \<Longrightarrow> \<not> key_in_range k rng"
  by (cases "fst rng"; cases "snd rng")
    (auto simp: ranges_overlap_def key_in_range_def bound_key_def Let_def split: if_splits)

lemma le_u64_max [simp]: "l \<le> u64_max"
  by (simp add: u64_max_def)

lemma not_u64_max_less [simp]: "\<not> u64_max < l"
  by (simp add: not_less)

lemma collect_range_bounds_iff:
  "above (fst (collect_range_bounds rng)) (k, l) \<longleftrightarrow> above (fst rng) k"
  "below (snd (collect_range_bounds rng)) (k, l) \<longleftrightarrow> below (snd rng) k"
  by (auto simp: collect_range_bounds_def above_def below_def less_eq_prod_def less_prod_def not_less
      split: bound.splits)

section \<open>The scan loops are merges\<close>

lemma bt_insert_same: "bt_ok m \<Longrightarrow> map_of m k = Some v \<Longrightarrow> bt_insert k v m = m"
  by (rule bt_ok_ext) auto

lemma keep_newer_merge: "bt_ok m \<Longrightarrow> keep_newer k r m = merge_record scan_pick (k, r) m"
  by (auto simp: keep_newer_def merge_record_def scan_pick_def bt_insert_same split: option.splits)

definition mem_versions :: "memtable \<Rightarrow> (bytes \<times> memtable_record) list" where
  "mem_versions m = map (\<lambda>((k, l), r). (k, r)) m"

definition record_versions :: "memtable_record list \<Rightarrow> (bytes \<times> memtable_record) list" where
  "record_versions rs = map (\<lambda>r. (mr_key r, r)) rs"

lemma scan_memtable_merge:
  "bt_ok merged \<Longrightarrow> scan_memtable s m merged
     = merge_records scan_pick (mem_versions (filter (\<lambda>e. snd (fst e) \<le> s) m)) merged"
  by (induction m arbitrary: merged) (auto simp: mem_versions_def keep_newer_merge not_less)

lemma scan_block_merge:
  "bt_ok merged \<Longrightarrow> scan_block rng s rs merged
     = merge_records scan_pick
         (record_versions (filter (\<lambda>r. mr_lsn r \<le> s \<and> key_in_range (mr_key r) rng) rs)) merged"
  by (induction rs arbitrary: merged) (auto simp: record_versions_def keep_newer_merge not_less)

section \<open>Tables and handles\<close>

text \<open>
  The file of a table holds the records of \<open>t\<close>, its filter knows every key, and the manifest entry
  gives its key range.
\<close>

definition table_holds ::
  "(bytes \<Rightarrow> u32) \<Rightarrow> ('f, 'r) bloom_api \<Rightarrow> (bytes \<Rightarrow> bytes result) \<Rightarrow> sstable_meta \<Rightarrow>
   memtable_record list \<Rightarrow> bool" where
  "table_holds crc api open_file meta rs \<longleftrightarrow>
     (\<exists>t. table_ok crc api t \<and> bloom_shape api (sc_bloom t) \<and> open_file (sm_path meta) = Inr (table_file crc api t)
        \<and> table_records (sc_blocks t) = rs
        \<and> (\<forall>r \<in> set rs. bloom_contains api (sc_bloom t) (mr_key r)))
     \<and> rs \<noteq> [] \<and> sm_smallest_key meta = mr_key (hd rs) \<and> sm_largest_key meta = mr_key (last rs)"

definition cache_ok :: "(bytes \<Rightarrow> bytes result) \<Rightarrow> bytes manifest_manager \<Rightarrow> bool" where
  "cache_ok open_file mm \<longleftrightarrow>
     (\<forall>p h. lru_handles (mm_cache mm) p = Some h \<longrightarrow> open_file p = Inr h)"

text \<open>What a read may do to the manifest manager: use the handle cache.\<close>

definition only_cache ::
  "(bytes \<Rightarrow> bytes result) \<Rightarrow> bytes manifest_manager \<Rightarrow> bytes manifest_manager \<Rightarrow> bool" where
  "only_cache open_file mm mm' \<longleftrightarrow>
     cache_ok open_file mm' \<and> mm_state mm' = mm_state mm \<and> mm_file mm' = mm_file mm"

lemma only_cache_refl: "cache_ok open_file mm \<Longrightarrow> only_cache open_file mm mm"
  by (simp add: only_cache_def)

lemma only_cache_trans:
  "only_cache open_file mm mm' \<Longrightarrow> only_cache open_file mm' mm'' \<Longrightarrow> only_cache open_file mm mm''"
  by (simp add: only_cache_def)

lemma get_or_open_file_ok:
  assumes "cache_ok open_file mm" and "open_file p = Inr h"
  obtains mm' where "get_or_open_file open_file p mm = (Inr h, mm')" "only_cache open_file mm mm'"
proof -
  obtain r c where g: "get_or_open open_file p (mm_cache mm) = (r, c)" by (cases "get_or_open open_file p (mm_cache mm)")
  have "r = Inr h" "\<forall>p h. lru_handles c p = Some h \<longrightarrow> open_file p = Inr h"
    using assms g
    by (auto simp: get_or_open_def cache_ok_def Let_def lru_touch_def lru_evict_oldest_def
        split: option.splits list.splits if_splits)
  with g that [of "mm\<lparr>mm_cache := c\<rparr>"] show ?thesis
    by (simp add: get_or_open_file_def only_cache_def cache_ok_def)
qed

lemma table_sorted:
  assumes "table_ok crc api t"
  shows "sorted_wrt (<) (map mr_key (table_records (sc_blocks t)))"
  using assms by (simp add: table_ok_def blocks_ok_def)

lemma sorted_key_range:
  assumes "sorted_wrt (<) (map mr_key rs)" and "r \<in> set rs"
  shows "mr_key (hd rs) \<le> mr_key r" "mr_key r \<le> mr_key (last rs)"
proof -
  show "mr_key (hd rs) \<le> mr_key r" using assms by (cases rs) auto
  obtain ys y where "rs = ys @ [y]" using assms(2) by (cases rs rule: rev_cases) auto
  with assms show "mr_key r \<le> mr_key (last rs)" by (auto simp: sorted_wrt_append)
qed

lemma table_block_nth:
  assumes "table_ok crc api t" and "i < length (sc_blocks t)"
  shows "block_ok (sc_blocks t ! i)"
    and "\<forall>r \<in> set (block_records (sc_blocks t ! i)).
           b_first_key (sc_blocks t ! i) \<le> mr_key r \<and> mr_key r \<le> b_last_key (sc_blocks t ! i)"
    and "get_block crc (table_file crc api t) (table_footer crc api t) (table_index crc t)
           (b_first_key (sc_blocks t ! i)) = Inr ((sc_blocks t ! i)\<lparr>b_offset := 0\<rparr>)"
proof -
  show ok: "block_ok (sc_blocks t ! i)" using assms by (simp add: table_ok_def blocks_ok_def)
  then show "\<forall>r \<in> set (block_records (sc_blocks t ! i)).
      b_first_key (sc_blocks t ! i) \<le> mr_key r \<and> mr_key r \<le> b_last_key (sc_blocks t ! i)"
    using block_ok_key_range by blast
  show "get_block crc (table_file crc api t) (table_footer crc api t) (table_index crc t)
           (b_first_key (sc_blocks t ! i)) = Inr ((sc_blocks t ! i)\<lparr>b_offset := 0\<rparr>)"
    using get_block_file [OF assms order_refl block_ok_ends [OF ok]] .
qed

section \<open>One table\<close>

lemma find_record_append:
  "find_record k (rs @ ss) = (case find_record k rs of None \<Rightarrow> find_record k ss | Some r \<Rightarrow> Some r)"
  by (induction rs) auto

lemma find_record_None: "find_record k rs = None \<longleftrightarrow> (\<forall>r \<in> set rs. mr_key r \<noteq> k)"
  by (induction rs) auto

lemma find_record_Some: "find_record k rs = Some r \<Longrightarrow> r \<in> set rs \<and> mr_key r = k"
  by (induction rs) (auto split: if_splits)

lemma find_record_sorted:
  assumes "sorted_wrt (<) (map mr_key rs)" and "r \<in> set rs"
  shows "find_record (mr_key r) rs = Some r"
  using assms by (induction rs) auto

text \<open>A loop over the index of a table goes through its blocks.\<close>

lemma table_index_drop:
  assumes "i < length (sc_blocks t)"
  shows "drop i (table_index crc t) = table_index crc t ! i # drop (Suc i) (table_index crc t)"
    and "drop i (sc_blocks t) = sc_blocks t ! i # drop (Suc i) (sc_blocks t)"
    and "si_first_key (table_index crc t ! i) = b_first_key (sc_blocks t ! i)"
    and "si_last_key (table_index crc t ! i) = b_last_key (sc_blocks t ! i)"
proof -
  have "i < length (table_index crc t)" using assms by (simp add: table_index_def)
  then show "drop i (table_index crc t) = table_index crc t ! i # drop (Suc i) (table_index crc t)"
    by (simp add: Cons_nth_drop_Suc)
  show "drop i (sc_blocks t) = sc_blocks t ! i # drop (Suc i) (sc_blocks t)"
    "si_first_key (table_index crc t ! i) = b_first_key (sc_blocks t ! i)"
    "si_last_key (table_index crc t ! i) = b_last_key (sc_blocks t ! i)"
    using assms by (simp_all add: table_index_def Cons_nth_drop_Suc nth_block_index)
qed

lemma block_ok_data: "block_ok b \<Longrightarrow> b_data b = Some (block_records b)"
  by (auto simp: block_ok_def block_records_def split: option.splits)

lemma search_blocks_table:
  assumes ok: "table_ok crc api t" and i: "i \<le> length (sc_blocks t)"
  shows "search_blocks crc (table_file crc api t) (table_footer crc api t) (table_index crc t) key
           (drop i (table_index crc t))
         = Inr (find_record key (table_records (drop i (sc_blocks t))))"
  using i
proof (induction i rule: inc_induct)
  case base
  show ?case by (simp add: table_index_def table_records_def)
next
  case (step i)
  note idx = table_index_drop [OF step(2)]
  note blk = table_block_nth [OF ok step(2)]
  have recs: "table_records (drop i (sc_blocks t))
      = block_records (sc_blocks t ! i) @ table_records (drop (Suc i) (sc_blocks t))"
    by (simp add: idx(2) table_records_def)
  show ?case
  proof (cases "key < b_first_key (sc_blocks t ! i) \<or> key > b_last_key (sc_blocks t ! i)")
    case True
    then have "find_record key (block_records (sc_blocks t ! i)) = None"
      using blk(2) by (auto simp: find_record_None)
    with True step.IH show ?thesis by (simp add: idx(1,3,4) recs find_record_append)
  next
    case False
    with step.IH block_ok_data [OF blk(1)] show ?thesis
      by (simp add: idx(1,3,4) recs find_record_append blk(3) split: option.split)
  qed
qed

lemma get_from_single_sstable_ok:
  assumes "table_holds crc api open_file meta rs" and "cache_ok open_file mm"
  obtains mm' where "get_from_single_sstable crc api open_file meta key s mm = (Inr (find_record key rs), mm')"
    "only_cache open_file mm mm'"
proof -
  from assms(1) obtain t where t: "table_ok crc api t" "open_file (sm_path meta) = Inr (table_file crc api t)"
    "table_records (sc_blocks t) = rs" "\<forall>r \<in> set rs. bloom_contains api (sc_bloom t) (mr_key r)"
    by (auto simp: table_holds_def)
  obtain mm' where mm': "get_or_open_file open_file (sm_path meta) mm = (Inr (table_file crc api t), mm')"
    "only_cache open_file mm mm'"
    using get_or_open_file_ok [OF assms(2) t(2)] .
  have "find_record key rs = None" if "\<not> bloom_contains api (sc_bloom t) key"
    using that t(4) by (auto simp: find_record_None)
  with mm' t search_blocks_table [OF t(1), of 0 key] show ?thesis
    by (intro that [of mm'])
      (auto simp: get_from_single_sstable_def deserialize_sections_file)
qed

lemma scan_blocks_table:
  assumes ok: "table_ok crc api t" and i: "i \<le> length (sc_blocks t)" and m: "bt_ok merged"
  shows "scan_blocks crc (table_file crc api t) (table_footer crc api t) (table_index crc t) rng s
           (drop i (table_index crc t)) merged
         = Inr (scan_block rng s (table_records (drop i (sc_blocks t))) merged)"
  using i m
proof (induction i arbitrary: merged rule: inc_induct)
  case base
  show ?case by (simp add: table_index_def table_records_def)
next
  case (step i)
  note idx = table_index_drop [OF step(2)]
  note blk = table_block_nth [OF ok step(2)]
  have recs: "table_records (drop i (sc_blocks t))
      = block_records (sc_blocks t ! i) @ table_records (drop (Suc i) (sc_blocks t))"
    by (simp add: idx(2) table_records_def)
  have app: "scan_block rng s (rs @ ss) m = scan_block rng s ss (scan_block rng s rs m)" for rs ss m
    by (induction rs arbitrary: m) auto
  have ok': "bt_ok (scan_block rng s rs merged)" for rs
    using step.prems by (simp add: scan_block_merge)
  show ?case
  proof (cases "ranges_overlap rng (b_first_key (sc_blocks t ! i)) (b_last_key (sc_blocks t ! i))")
    case False
    then have "filter (\<lambda>r. mr_lsn r \<le> s \<and> key_in_range (mr_key r) rng) (block_records (sc_blocks t ! i)) = []"
      using blk(2) ranges_overlap_none [OF False] by (auto simp: filter_empty_conv)
    then have "scan_block rng s (block_records (sc_blocks t ! i)) merged = merged"
      using step.prems by (simp add: scan_block_merge record_versions_def)
    with False step show ?thesis by (simp add: idx(1,3,4) recs app)
  next
    case True
    with step.IH [OF ok'] block_ok_data [OF blk(1)] show ?thesis
      by (simp add: idx(1,3,4) recs app blk(3))
  qed
qed

definition in_scan :: "key_range \<Rightarrow> u64 \<Rightarrow> memtable_record \<Rightarrow> bool" where
  "in_scan rng s r \<longleftrightarrow> mr_lsn r \<le> s \<and> key_in_range (mr_key r) rng"

lemma scan_single_sstable_ok:
  assumes "table_holds crc api open_file meta rs" and "cache_ok open_file mm" and "bt_ok merged"
  obtains mm' where "scan_single_sstable crc api open_file meta rng s merged mm
      = (Inr (merge_records scan_pick (record_versions (filter (in_scan rng s) rs)) merged), mm')"
    "only_cache open_file mm mm'"
proof -
  from assms(1) obtain t where t: "table_ok crc api t" "open_file (sm_path meta) = Inr (table_file crc api t)"
    "table_records (sc_blocks t) = rs"
    and ends: "sm_smallest_key meta = mr_key (hd rs)" "sm_largest_key meta = mr_key (last rs)"
    by (auto simp: table_holds_def)
  note merge = scan_block_merge [OF assms(3), of rng s rs, folded in_scan_def]
  show ?thesis
  proof (cases "ranges_overlap rng (sm_smallest_key meta) (sm_largest_key meta)")
    case False
    have "filter (in_scan rng s) rs = []"
      using ranges_overlap_none [OF False] sorted_key_range [of rs] table_sorted [OF t(1)]
      by (auto simp: filter_empty_conv in_scan_def ends t(3))
    with False that [of mm] only_cache_refl [OF assms(2)] show ?thesis
      by (simp add: scan_single_sstable_def record_versions_def)
  next
    case True
    obtain mm' where mm': "get_or_open_file open_file (sm_path meta) mm = (Inr (table_file crc api t), mm')"
      "only_cache open_file mm mm'"
      using get_or_open_file_ok [OF assms(2) t(2)] .
    with True t scan_blocks_table [OF t(1) _ assms(3), of 0 rng s] merge show ?thesis
      by (intro that [of mm']) (auto simp: scan_single_sstable_def deserialize_sections_file)
  qed
qed

section \<open>All tables\<close>

text \<open>\<open>recs\<close> gives the records of each table.\<close>

definition tables_hold ::
  "(bytes \<Rightarrow> u32) \<Rightarrow> ('f, 'r) bloom_api \<Rightarrow> (bytes \<Rightarrow> bytes result) \<Rightarrow> (sstable_meta \<Rightarrow> memtable_record list) \<Rightarrow>
   sstable_meta list \<Rightarrow> bool" where
  "tables_hold crc api open_file recs metas \<longleftrightarrow>
     (\<forall>meta \<in> set metas. table_holds crc api open_file meta (recs meta))"

lemma tables_hold_simps [simp]:
  "tables_hold crc api open_file recs []"
  "tables_hold crc api open_file recs (meta # metas) \<longleftrightarrow>
     table_holds crc api open_file meta (recs meta) \<and> tables_hold crc api open_file recs metas"
  "tables_hold crc api open_file recs (metas @ metas') \<longleftrightarrow>
     tables_hold crc api open_file recs metas \<and> tables_hold crc api open_file recs metas'"
  "tables_hold crc api open_file recs (rev metas) \<longleftrightarrow> tables_hold crc api open_file recs metas"
  by (auto simp: tables_hold_def)

definition all_records :: "(sstable_meta \<Rightarrow> memtable_record list) \<Rightarrow> sstable_meta list \<Rightarrow> memtable_record list" where
  "all_records recs metas = concat (map recs metas)"

lemma all_records_simps [simp]:
  "all_records recs [] = []"
  "all_records recs (meta # metas) = recs meta @ all_records recs metas"
  "all_records recs (metas @ metas') = all_records recs metas @ all_records recs metas'"
  by (simp_all add: all_records_def)

lemma set_all_records_rev [simp]: "set (all_records recs (rev metas)) = set (all_records recs metas)"
  by (auto simp: all_records_def)

lemma scan_sstables_ok:
  assumes "tables_hold crc api open_file recs metas" and "cache_ok open_file mm" and "bt_ok merged"
  shows "\<exists>mm'. scan_sstables crc api open_file metas rng s merged mm
      = (Inr (merge_records scan_pick
                (record_versions (filter (in_scan rng s) (all_records recs metas))) merged), mm')
      \<and> only_cache open_file mm mm'"
  using assms
proof (induction metas arbitrary: merged mm)
  case Nil
  then show ?case by (simp add: only_cache_refl record_versions_def)
next
  case (Cons meta metas)
  let ?m = "merge_records scan_pick (record_versions (filter (in_scan rng s) (recs meta))) merged"
  from Cons.prems(1) have t: "table_holds crc api open_file meta (recs meta)" by simp
  obtain mm1 where one: "scan_single_sstable crc api open_file meta rng s merged mm = (Inr ?m, mm1)"
    and c: "only_cache open_file mm mm1"
    using scan_single_sstable_ok [OF t Cons.prems(2,3)] .
  from c have "cache_ok open_file mm1" by (simp add: only_cache_def)
  with Cons.IH [of mm1 ?m] Cons.prems one c show ?case
    by (auto simp: record_versions_def merge_records_append intro: only_cache_trans)
qed

definition latest_rec :: "memtable_record list \<Rightarrow> bytes \<Rightarrow> memtable_record \<Rightarrow> bool" where
  "latest_rec rs key r \<longleftrightarrow>
     r \<in> set rs \<and> mr_key r = key \<and> (\<forall>r' \<in> set rs. mr_key r' = key \<longrightarrow> mr_lsn r' \<le> mr_lsn r)"

lemma latest_rec_newest: "latest_rec rs key r \<longleftrightarrow> newest (set (record_versions rs)) key r"
  by (auto simp: latest_rec_def newest_def record_versions_def image_iff)

lemma table_holds_sorted:
  "table_holds crc api open_file meta rs \<Longrightarrow> sorted_wrt (<) (map mr_key rs)"
  by (auto simp: table_holds_def dest: table_sorted)

lemma find_record_table:
  assumes "table_holds crc api open_file meta rs"
  shows "find_record key rs = Some r \<longleftrightarrow> r \<in> set rs \<and> mr_key r = key"
  using find_record_Some find_record_sorted [OF table_holds_sorted [OF assms]] by blast

text \<open>\<open>is_best rs key b\<close>: \<open>b\<close> is a newest record of the key in \<open>rs\<close>, \<open>None\<close> if there is none.\<close>

definition is_best :: "memtable_record list \<Rightarrow> bytes \<Rightarrow> memtable_record option \<Rightarrow> bool" where
  "is_best rs key b \<longleftrightarrow>
     (case b of None \<Rightarrow> \<forall>r \<in> set rs. mr_key r \<noteq> key | Some r \<Rightarrow> latest_rec rs key r)"

lemma is_best_step:
  assumes best: "is_best rs key b" and found: "\<And>r. f = Some r \<longleftrightarrow> r \<in> set ss \<and> mr_key r = key"
  shows "is_best (rs @ ss) key
           (case f of None \<Rightarrow> b
            | Some record \<Rightarrow>
                if (case b of Some current \<Rightarrow> mr_lsn record > mr_lsn current | None \<Rightarrow> True)
                then Some record else b)"
proof (cases f)
  case None
  with found have "\<forall>r \<in> set ss. mr_key r \<noteq> key" by auto
  with None best show ?thesis by (auto simp: is_best_def latest_rec_def split: option.splits)
next
  case (Some r)
  have r: "r \<in> set ss" "mr_key r = key" using found [of r] Some by simp_all
  have only: "mr_lsn r' \<le> mr_lsn r" if "r' \<in> set ss" "mr_key r' = key" for r'
    using found [of r'] Some that by simp
  show ?thesis
  proof (cases b)
    case None
    with best have "\<forall>r' \<in> set rs. mr_key r' \<noteq> key" by (simp add: is_best_def)
    with None Some r only show ?thesis by (auto simp: is_best_def latest_rec_def)
  next
    case (Some c)
    with best have c: "latest_rec rs key c" by (simp add: is_best_def)
    show ?thesis
    proof (cases "mr_lsn r > mr_lsn c")
      case True
      with c r only have "latest_rec (rs @ ss) key r"
        by (auto simp: latest_rec_def intro: order_trans less_imp_le)
      with True Some \<open>f = Some r\<close> show ?thesis by (simp add: is_best_def)
    next
      case False
      have "mr_lsn r' \<le> mr_lsn c" if "r' \<in> set ss" "mr_key r' = key" for r'
        using only [OF that] False by simp
      with c have "latest_rec (rs @ ss) key c" by (auto simp: latest_rec_def)
      with False Some \<open>f = Some r\<close> show ?thesis by (simp add: is_best_def)
    qed
  qed
qed

lemma best_of_level0_ok:
  assumes "tables_hold crc api open_file recs metas" and "cache_ok open_file mm" and "is_best rs key b"
  shows "\<exists>b' mm'. best_of_level0 crc api open_file metas key s b mm = (Inr b', mm')
      \<and> is_best (rs @ all_records recs metas) key b' \<and> only_cache open_file mm mm'"
  using assms
proof (induction metas arbitrary: b mm rs)
  case Nil
  then show ?case by (simp add: only_cache_refl)
next
  case (Cons meta metas)
  then have t: "table_holds crc api open_file meta (recs meta)" by simp
  obtain mm1 where one: "get_from_single_sstable crc api open_file meta key s mm
      = (Inr (find_record key (recs meta)), mm1)" and c: "only_cache open_file mm mm1"
    using get_from_single_sstable_ok [OF t Cons.prems(2)] .
  from c have "cache_ok open_file mm1" by (simp add: only_cache_def)
  from Cons.IH [OF _ this is_best_step [OF Cons.prems(3) find_record_table [OF t]]] Cons.prems(1) one c
  show ?case by (auto simp: Let_def intro: only_cache_trans)
qed

lemma first_of_level_ok:
  assumes "tables_hold crc api open_file recs metas" and "cache_ok open_file mm"
    and "distinct (map mr_key (all_records recs metas))"
  shows "\<exists>b mm'. first_of_level crc api open_file metas key s mm = (Inr b, mm')
      \<and> is_best (all_records recs metas) key b \<and> only_cache open_file mm mm'"
  using assms
proof (induction metas arbitrary: mm)
  case Nil
  then show ?case by (simp add: only_cache_refl is_best_def)
next
  case (Cons meta metas)
  then have t: "table_holds crc api open_file meta (recs meta)" by simp
  obtain mm1 where one: "get_from_single_sstable crc api open_file meta key s mm
      = (Inr (find_record key (recs meta)), mm1)" and c: "only_cache open_file mm mm1"
    using get_from_single_sstable_ok [OF t Cons.prems(2)] .
  from c have "cache_ok open_file mm1" by (simp add: only_cache_def)
  from Cons.IH [OF _ this] Cons.prems obtain b mm' where
    rest: "first_of_level crc api open_file metas key s mm1 = (Inr b, mm')"
    "is_best (all_records recs metas) key b" "only_cache open_file mm1 mm'"
    by auto
  show ?case
  proof (cases "find_record key (recs meta)")
    case None
    with one rest c show ?thesis
      by (auto simp: is_best_def latest_rec_def find_record_None split: option.splits intro: only_cache_trans)
  next
    case (Some r)
    with find_record_table [OF t] have r: "r \<in> set (recs meta)" "mr_key r = key" by auto
    have "r' = r" if "r' \<in> set (recs meta) \<union> set (all_records recs metas)" "mr_key r' = key" for r'
    proof -
      have inj: "inj_on mr_key (set (all_records recs (meta # metas)))"
        using Cons.prems(3) by (simp only: distinct_map)
      show ?thesis by (rule inj_onD [OF inj]) (use that r in auto)
    qed
    with r have "is_best (all_records recs (meta # metas)) key (Some r)"
      by (auto simp: is_best_def latest_rec_def)
    with one c Some show ?thesis by auto
  qed
qed

section \<open>The levels\<close>

text \<open>
  What flush and compaction maintain of the levels: below level 0 no two tables of a level share a
  key, and a version in a level is at least as new as the versions of its key in deeper levels.
\<close>

definition newer_level ::
  "(sstable_meta \<Rightarrow> memtable_record list) \<Rightarrow> u32 \<times> sstable_meta list \<Rightarrow> u32 \<times> sstable_meta list \<Rightarrow> bool" where
  "newer_level recs a b \<longleftrightarrow>
     (\<forall>r \<in> set (all_records recs (snd a)). \<forall>r' \<in> set (all_records recs (snd b)).
        mr_key r = mr_key r' \<longrightarrow> mr_lsn r' \<le> mr_lsn r)"

definition levels_ok ::
  "(sstable_meta \<Rightarrow> memtable_record list) \<Rightarrow> (u32, sstable_meta list) btree_map \<Rightarrow> bool" where
  "levels_ok recs levels \<longleftrightarrow>
     (\<forall>(level, files) \<in> set levels. level \<noteq> 0 \<longrightarrow> distinct (map mr_key (all_records recs files)))
     \<and> sorted_wrt (newer_level recs) levels"

definition level_files :: "(u32, sstable_meta list) btree_map \<Rightarrow> sstable_meta list" where
  "level_files levels = concat (map snd levels)"

lemma level_files_simps [simp]:
  "level_files [] = []" "level_files (l # levels) = snd l @ level_files levels"
  by (simp_all add: level_files_def)

lemma set_all_records_files:
  "set (all_records recs (level_files levels)) = (\<Union>l \<in> set levels. set (all_records recs (snd l)))"
  by (induction levels) auto

text \<open>\<open>answers rs key x\<close>: \<open>x\<close> is what a read answers when \<open>rs\<close> are the versions: the newest one,
  or nothing when there is none or it is a deletion.\<close>

definition answers :: "memtable_record list \<Rightarrow> bytes \<Rightarrow> memtable_record option \<Rightarrow> bool" where
  "answers rs key x \<longleftrightarrow>
     (\<exists>b. is_best rs key b \<and>
        x = (case b of None \<Rightarrow> None | Some r \<Rightarrow> (case mr_type r of Delete \<Rightarrow> None | Put \<Rightarrow> Some r)))"

lemma level_lookup_ok:
  assumes "tables_hold crc api open_file recs files" and "cache_ok open_file mm"
    and "level \<noteq> 0 \<longrightarrow> distinct (map mr_key (all_records recs files))"
  shows "\<exists>b mm'. (if level = 0 then best_of_level0 crc api open_file files key s None mm
            else first_of_level crc api open_file (rev files) key s mm) = (Inr b, mm')
      \<and> is_best (all_records recs files) key b \<and> only_cache open_file mm mm'"
proof (cases "level = 0")
  case True
  have "is_best [] key None" by (simp add: is_best_def)
  from best_of_level0_ok [OF assms(1,2) this] True show ?thesis by auto
next
  case False
  have "mset (all_records recs (rev files)) = mset (all_records recs files)"
    by (induction files) (auto simp: ac_simps)
  then have perm: "mset (map mr_key (all_records recs (rev files))) = mset (map mr_key (all_records recs files))"
    by simp
  have "distinct (map mr_key (all_records recs (rev files)))"
    using assms(3) False mset_eq_imp_distinct_iff [OF perm] by simp
  with first_of_level_ok [of crc api open_file recs "rev files" mm key s] assms False
  show ?thesis by (auto simp: is_best_def latest_rec_def cong: option.case_cong)
qed

lemma get_from_levels_ok:
  assumes "tables_hold crc api open_file recs (level_files levels)" and "cache_ok open_file mm"
    and "levels_ok recs levels"
  shows "\<exists>x mm'. get_from_levels crc api open_file levels key s mm = (Inr x, mm')
      \<and> answers (all_records recs (level_files levels)) key x \<and> only_cache open_file mm mm'"
  using assms
proof (induction levels arbitrary: mm)
  case Nil
  then show ?case
    by (auto simp: answers_def is_best_def only_cache_refl intro: exI [of _ None])
next
  case (Cons l levels)
  obtain level files where l: "l = (level, files)" by (cases l)
  have "\<exists>b mm'. (if level = 0 then best_of_level0 crc api open_file files key s None mm
            else first_of_level crc api open_file (rev files) key s mm) = (Inr b, mm')
      \<and> is_best (all_records recs files) key b \<and> only_cache open_file mm mm'"
    by (rule level_lookup_ok) (use Cons.prems in \<open>auto simp: levels_ok_def l\<close>)
  then obtain b mm1 where one: "(if level = 0 then best_of_level0 crc api open_file files key s None mm
            else first_of_level crc api open_file (rev files) key s mm) = (Inr b, mm1)"
    and best: "is_best (all_records recs files) key b" and c: "only_cache open_file mm mm1"
    by blast
  show ?case
  proof (cases b)
    case (Some r)
    have newer: "newer_level recs l l'" if "l' \<in> set levels" for l'
      using Cons.prems(3) that by (simp add: levels_ok_def)
    have "latest_rec (all_records recs files) key r" using best Some by (simp add: is_best_def)
    then have "latest_rec (all_records recs (level_files (l # levels))) key r"
      using newer by (auto simp: latest_rec_def set_all_records_files newer_level_def l)
    then have "answers (all_records recs (level_files (l # levels))) key
        (case mr_type r of Delete \<Rightarrow> None | Put \<Rightarrow> Some r)"
      unfolding answers_def by (intro exI [of _ "Some r"]) (simp add: is_best_def)
    with one Some c show ?thesis by (simp add: l)
  next
    case None
    from c have "cache_ok open_file mm1" by (simp add: only_cache_def)
    from Cons.IH [OF _ this] Cons.prems obtain x mm' where
      rest: "get_from_levels crc api open_file levels key s mm1 = (Inr x, mm')"
      "answers (all_records recs (level_files levels)) key x" "only_cache open_file mm1 mm'"
      by (auto simp: levels_ok_def)
    have none: "\<forall>r \<in> set (all_records recs files). mr_key r \<noteq> key" using best None by (simp add: is_best_def)
    have "is_best (all_records recs (level_files (l # levels))) key b'"
      if "is_best (all_records recs (level_files levels)) key b'" for b'
      using that none by (auto simp: is_best_def latest_rec_def l split: option.splits)
    then have "answers (all_records recs (level_files (l # levels))) key x"
      using rest(2) unfolding answers_def by blast
    with one None rest c show ?thesis by (auto simp: l intro: only_cache_trans)
  qed
qed

end
