(* ===== verification/Reads.thy ===== *)
theory Reads
  imports Read_Correct
begin

text \<open>
  What the engine stores, as the list of its versions, and the properties of reads against it:
  a point read and a scan both answer from the newest version of each key
  (\<open>src/storage/readmanager/read.rs\<close>).
\<close>

section \<open>The versions of a store\<close>

text \<open>Memtable records carry no key of their own; the map's key completes them.\<close>

definition mem_records :: "memtable \<Rightarrow> memtable_record list" where
  "mem_records mem = map (\<lambda>((k, l), r). with_key r k) mem"

definition mem_ok :: "memtable \<Rightarrow> bool" where
  "mem_ok mem \<longleftrightarrow> bt_ok mem \<and> (\<forall>((k, l), r) \<in> set mem. mr_lsn r = l)"

definition store_records ::
  "(sstable_meta \<Rightarrow> memtable_record list) \<Rightarrow> memtable \<Rightarrow> (u32, sstable_meta list) btree_map \<Rightarrow>
   memtable_record list" where
  "store_records recs mem levels = mem_records mem @ all_records recs (level_files levels)"

definition versions_ok :: "memtable_record list \<Rightarrow> bool" where
  "versions_ok rs \<longleftrightarrow> versioned (set (record_versions rs))"

text \<open>A key that is in the memtable at all has its newest version there.\<close>

definition mem_newest :: "memtable \<Rightarrow> memtable_record list \<Rightarrow> bool" where
  "mem_newest mem rs \<longleftrightarrow>
     (\<forall>m \<in> set (mem_records mem). \<forall>r \<in> set rs. mr_key m = mr_key r \<longrightarrow>
        (\<exists>m' \<in> set (mem_records mem). mr_key m' = mr_key r \<and> mr_lsn r \<le> mr_lsn m'))"

definition store_ok ::
  "(sstable_meta \<Rightarrow> memtable_record list) \<Rightarrow> memtable \<Rightarrow> (u32, sstable_meta list) btree_map \<Rightarrow> bool" where
  "store_ok recs mem levels \<longleftrightarrow>
     mem_ok mem \<and> levels_ok recs levels \<and> mem_newest mem (all_records recs (level_files levels))
     \<and> versions_ok (store_records recs mem levels)"

text \<open>What the engine answers for a record found (\<open>KV2::get\<close> of \<open>src/storage/kv2.rs\<close>).\<close>

definition record_value :: "memtable_record option \<Rightarrow> bytes option" where
  "record_value x =
     (case x of
        Some rec \<Rightarrow> (if mr_type rec = Delete then None else Some (mr_value rec))
      | None \<Rightarrow> None)"

text \<open>The abstract contents of a store: the value of the newest version, nothing if that is a deletion.\<close>

definition reads_as :: "memtable_record list \<Rightarrow> bytes \<Rightarrow> bytes option \<Rightarrow> bool" where
  "reads_as rs key v \<longleftrightarrow> (\<exists>b. is_best rs key b \<and> v = record_value b)"

lemma is_best_unique:
  assumes "versions_ok rs" and "is_best rs key a" and "is_best rs key b"
  shows "a = b"
proof (cases a; cases b)
  fix r r'
  assume "a = Some r" "b = Some r'"
  with assms(2,3) have "newest (set (record_versions rs)) key r" "newest (set (record_versions rs)) key r'"
    by (simp_all add: is_best_def latest_rec_newest)
  with newest_unique assms(1) show "a = b"
    unfolding versions_ok_def \<open>a = Some r\<close> \<open>b = Some r'\<close> by blast
qed (use assms(2,3) in \<open>auto simp: is_best_def latest_rec_def\<close>)

lemma reads_as_unique: "versions_ok rs \<Longrightarrow> reads_as rs key v \<Longrightarrow> reads_as rs key w \<Longrightarrow> v = w"
  unfolding reads_as_def using is_best_unique by blast

lemma reads_as_Some:
  "reads_as rs key (Some v) \<longleftrightarrow> (\<exists>r. latest_rec rs key r \<and> mr_type r = Put \<and> mr_value r = v)"
proof
  assume "reads_as rs key (Some v)"
  then obtain b where b: "is_best rs key b" "Some v = record_value b" by (auto simp: reads_as_def)
  then obtain r where "b = Some r" "mr_type r \<noteq> Delete" "mr_value r = v"
    by (cases b) (auto simp: record_value_def split: if_splits)
  with b show "\<exists>r. latest_rec rs key r \<and> mr_type r = Put \<and> mr_value r = v"
    by (cases "mr_type r") (auto simp: is_best_def)
next
  assume "\<exists>r. latest_rec rs key r \<and> mr_type r = Put \<and> mr_value r = v"
  then obtain r where "latest_rec rs key r" "mr_type r = Put" "mr_value r = v" by blast
  then show "reads_as rs key (Some v)"
    unfolding reads_as_def by (intro exI [of _ "Some r"]) (simp add: is_best_def record_value_def)
qed

lemma answers_reads_as: "answers rs key x \<Longrightarrow> reads_as rs key (record_value x)"
proof -
  assume "answers rs key x"
  then obtain b where b: "is_best rs key b"
    "x = (case b of None \<Rightarrow> None | Some r \<Rightarrow> (case mr_type r of Delete \<Rightarrow> None | Put \<Rightarrow> Some r))"
    by (auto simp: answers_def)
  have "record_value x = record_value b"
    by (cases b) (auto simp: b(2) record_value_def split: record_type.split)
  with b(1) show ?thesis unfolding reads_as_def by blast
qed

section \<open>Point reads\<close>

lemma mem_ok_entry: "mem_ok mem \<Longrightarrow> ((k, l), r) \<in> set mem \<Longrightarrow> mr_lsn r = l"
  by (auto simp: mem_ok_def)

lemma sorted_le_last: "sorted xs \<Longrightarrow> x \<in> set xs \<Longrightarrow> x \<le> last xs"
  by (cases xs rule: rev_cases) (auto simp: sorted_append)

lemma mem_range_last:
  assumes ok: "mem_ok mem" and ne: "skip_range (Included (key, 0), Included (key, s)) mem \<noteq> []"
    and top: "\<forall>m \<in> set (mem_records mem). mr_lsn m \<le> s"
  defines "v \<equiv> last (skip_range (Included (key, 0), Included (key, s)) mem)"
  shows "latest_rec (mem_records mem) key (with_key (snd v) key)"
proof -
  let ?vs = "skip_range (Included (key, 0), Included (key, s)) mem"
  have mem: "x \<in> set ?vs \<longleftrightarrow> x \<in> set mem \<and> fst (fst x) = key \<and> snd (fst x) \<le> s" for x
    by (cases x) (auto simp: skip_range_def above_def below_def less_eq_prod_def)
  have "v \<in> set ?vs" using ne by (simp add: v_def)
  then have "v \<in> set mem" "fst (fst v) = key" using mem [of v] by simp_all
  then obtain l r where v: "v = ((key, l), r)" "((key, l), r) \<in> set mem" by (metis prod.collapse)
  have "bt_ok ?vs" using ok unfolding skip_range_def by (simp add: mem_ok_def bt_ok_filter)
  then have srt: "sorted (map fst ?vs)" by (rule bt_ok_sorted)
  have max: "l' \<le> l" if "((key, l'), r') \<in> set mem" for l' r'
  proof -
    have "with_key r' key \<in> set (mem_records mem)"
      using that by (force simp: mem_records_def)
    then have "l' \<le> s" using top mem_ok_entry [OF ok that] by (auto simp: with_key_def)
    with that mem have "((key, l'), r') \<in> set ?vs" by simp
    then have "(key, l') \<in> set (map fst ?vs)" by (force simp: image_iff)
    then have "(key, l') \<le> last (map fst ?vs)" by (rule sorted_le_last [OF srt])
    then have "(key, l') \<le> fst (last ?vs)" by (simp add: last_map ne)
    then show ?thesis using v(1) by (simp add: v_def less_eq_prod_def)
  qed
  have "with_key r key \<in> set (mem_records mem)" using v(2) by (force simp: mem_records_def)
  moreover have "mr_lsn m \<le> mr_lsn (with_key r key)"
    if "m \<in> set (mem_records mem)" "mr_key m = key" for m
  proof -
    from that obtain l' r' where "((key, l'), r') \<in> set mem" "m = with_key r' key"
      by (auto simp: mem_records_def with_key_def)
    with max mem_ok_entry [OF ok] v(2) show ?thesis by (auto simp: with_key_def)
  qed
  ultimately show ?thesis by (auto simp: latest_rec_def v(1) with_key_def)
qed

text \<open>
  A reader over a consistent store: the table files hold the records \<open>recs\<close>, the handle cache
  agrees with the files, and the sequence number it reads at is not below any in the memtable.
\<close>

definition reader_ok ::
  "(bytes \<Rightarrow> u32) \<Rightarrow> ('f, 'r) bloom_api \<Rightarrow> (bytes \<Rightarrow> bytes result) \<Rightarrow> (sstable_meta \<Rightarrow> memtable_record list) \<Rightarrow>
   read_manager \<Rightarrow> bool" where
  "reader_ok crc api open_file recs rm \<longleftrightarrow>
     tables_hold crc api open_file recs (level_files (sn_levels (snapshot (rm_manifest rm))))
     \<and> cache_ok open_file (rm_manifest rm)
     \<and> store_ok recs (rm_memtable rm) (sn_levels (snapshot (rm_manifest rm)))"

definition reader_records ::
  "(sstable_meta \<Rightarrow> memtable_record list) \<Rightarrow> read_manager \<Rightarrow> memtable_record list" where
  "reader_records recs rm = store_records recs (rm_memtable rm) (sn_levels (snapshot (rm_manifest rm)))"

lemma record_value_with_key [simp]: "record_value (Some (with_key r k)) = record_value (Some r)"
  by (simp add: record_value_def with_key_def)

lemma mem_hit_best:
  assumes "latest_rec (mem_records mem) key m" and "mem_newest mem rs"
  shows "is_best (mem_records mem @ rs) key (Some m)"
proof -
  have "mr_lsn r \<le> mr_lsn m" if "r \<in> set rs" "mr_key r = key" for r
  proof -
    from assms that obtain m' where "m' \<in> set (mem_records mem)" "mr_key m' = key" "mr_lsn r \<le> mr_lsn m'"
      unfolding mem_newest_def latest_rec_def by metis
    with assms(1) show ?thesis by (auto simp: latest_rec_def intro: order_trans)
  qed
  with assms(1) show ?thesis by (auto simp: is_best_def latest_rec_def)
qed

lemma mem_miss_best:
  assumes "\<forall>m \<in> set (mem_records mem). mr_key m \<noteq> key"
  shows "is_best (mem_records mem @ rs) key b \<longleftrightarrow> is_best rs key b"
  using assms by (auto simp: is_best_def latest_rec_def split: option.splits)

lemma mem_range_empty:
  assumes "mem_ok mem" and "skip_range (Included (key, 0), Included (key, s)) mem = []"
    and "\<forall>m \<in> set (mem_records mem). mr_lsn m \<le> s"
  shows "\<forall>m \<in> set (mem_records mem). mr_key m \<noteq> key"
proof
  fix m assume m: "m \<in> set (mem_records mem)"
  then obtain k l r where e: "((k, l), r) \<in> set mem" "m = with_key r k" by (auto simp: mem_records_def)
  with assms(3) m mem_ok_entry [OF assms(1) e(1)] have "l \<le> s" by (auto simp: with_key_def)
  with e assms(2) show "mr_key m \<noteq> key"
    by (auto simp: skip_range_def filter_empty_conv above_def below_def less_eq_prod_def with_key_def)
qed

lemma get_reads:
  assumes ok: "reader_ok crc api open_file recs rm"
    and top: "\<forall>m \<in> set (mem_records (rm_memtable rm)). mr_lsn m \<le> s"
  shows "\<exists>x mm. ReadManager_get crc api open_file key s rm = (Inr x, rm\<lparr>rm_manifest := mm\<rparr>)
           \<and> reads_as (reader_records recs rm) key (record_value x)
           \<and> only_cache open_file (rm_manifest rm) mm"
proof -
  let ?mem = "rm_memtable rm" and ?levels = "sn_levels (snapshot (rm_manifest rm))"
  let ?vs = "skip_range (Included (key, 0), Included (key, s)) ?mem"
  let ?tabs = "all_records recs (level_files ?levels)"
  have st: "mem_ok ?mem" "levels_ok recs ?levels" "mem_newest ?mem ?tabs"
    and th: "tables_hold crc api open_file recs (level_files ?levels)" and c: "cache_ok open_file (rm_manifest rm)"
    using ok by (auto simp: reader_ok_def store_ok_def)
  show ?thesis
  proof (cases "?vs = []")
    case False
    from mem_hit_best [OF mem_range_last [OF st(1) False top] st(3)]
    have "reads_as (reader_records recs rm) key (record_value (Some (snd (last ?vs))))"
      unfolding reads_as_def reader_records_def store_records_def
      by (intro exI [of _ "Some (with_key (snd (last ?vs)) key)"]) simp
    with False only_cache_refl [OF c] show ?thesis
      by (intro exI [of _ "Some (snd (last ?vs))"] exI [of _ "rm_manifest rm"]) (simp add: ReadManager_get_def Let_def)
  next
    case True
    from get_from_levels_ok [OF th c st(2)] obtain x mm where
      x: "get_from_levels crc api open_file ?levels key s (rm_manifest rm) = (Inr x, mm)"
      "answers ?tabs key x" "only_cache open_file (rm_manifest rm) mm"
      by blast
    have "reads_as (reader_records recs rm) key (record_value x)"
      using answers_reads_as [OF x(2)] mem_miss_best [OF mem_range_empty [OF st(1) True top]]
      by (simp add: reads_as_def reader_records_def store_records_def)
    with x True show ?thesis by (auto simp: ReadManager_get_def get_from_sstable_def Let_def)
  qed
qed

section \<open>Scans\<close>

text \<open>The entries a scan merges, and the versions they stand for.\<close>

definition scan_entries ::
  "(sstable_meta \<Rightarrow> memtable_record list) \<Rightarrow> key_range \<Rightarrow> u64 \<Rightarrow> read_manager \<Rightarrow> (bytes \<times> memtable_record) list" where
  "scan_entries recs rng s rm =
     mem_versions (filter (\<lambda>e. snd (fst e) \<le> s)
       (skip_range (collect_range_bounds rng) (rm_memtable rm)))
     @ record_versions (filter (in_scan rng s)
         (all_records recs (level_files (sn_levels (snapshot (rm_manifest rm))))))"

definition up_to :: "u64 \<Rightarrow> memtable_record list \<Rightarrow> memtable_record list" where
  "up_to s rs = filter (\<lambda>r. mr_lsn r \<le> s) rs"

lemma scan_entries_iff:
  assumes "mem_ok (rm_memtable rm)"
  shows "(\<exists>r0. (k, r0) \<in> set (scan_entries recs rng s rm) \<and> with_key r0 k = r)
     \<longleftrightarrow> key_in_range k rng \<and> r \<in> set (up_to s (reader_records recs rm)) \<and> mr_key r = k"
proof -
  let ?mem = "rm_memtable rm" and ?tabs = "all_records recs (level_files (sn_levels (snapshot (rm_manifest rm))))"
  have m: "(k, r0) \<in> set (mem_versions (filter (\<lambda>e. snd (fst e) \<le> s)
      (skip_range (collect_range_bounds rng) ?mem)))
      \<longleftrightarrow> key_in_range k rng \<and> (\<exists>l. ((k, l), r0) \<in> set ?mem \<and> l \<le> s)" for r0
    by (auto simp: mem_versions_def skip_range_def collect_range_bounds_iff key_in_range_iff image_iff)
  have t: "(k, r0) \<in> set (record_versions (filter (in_scan rng s) ?tabs))
      \<longleftrightarrow> key_in_range k rng \<and> r0 \<in> set ?tabs \<and> mr_key r0 = k \<and> mr_lsn r0 \<le> s" for r0
    by (auto simp: record_versions_def in_scan_def)
  have mm: "r \<in> set (mem_records ?mem) \<and> mr_key r = k \<and> mr_lsn r \<le> s
      \<longleftrightarrow> (\<exists>r0 l. ((k, l), r0) \<in> set ?mem \<and> l \<le> s \<and> with_key r0 k = r)"
    using mem_ok_entry [OF assms] by (force simp: mem_records_def with_key_def image_iff)
  have key: "with_key r0 k = r0" if "mr_key r0 = k" for r0 using that by (simp add: with_key_def)
  show ?thesis
    unfolding scan_entries_def up_to_def reader_records_def store_records_def set_append Un_iff m t
      set_filter mem_Collect_eq
    using mm key by (auto simp: with_key_def)
qed

lemma versions_ok_subset: "versions_ok rs \<Longrightarrow> set ss \<subseteq> set rs \<Longrightarrow> versions_ok ss"
  unfolding versions_ok_def by (rule versioned_mono) (auto simp: record_versions_def)

lemma scan_merged_reads:
  assumes ok: "reader_ok crc api open_file recs rm" and m_def: "m = merge_records scan_pick (scan_entries recs rng s rm) []"
  shows "(\<exists>r. map_of m k = Some r \<and> mr_type r \<noteq> Delete \<and> mr_value r = v)
     \<longleftrightarrow> key_in_range k rng \<and> reads_as (up_to s (reader_records recs rm)) k (Some v)"
proof -
  let ?es = "scan_entries recs rng s rm" and ?V = "up_to s (reader_records recs rm)"
  have mem: "mem_ok (rm_memtable rm)" using ok by (simp add: reader_ok_def store_ok_def)
  note iff = scan_entries_iff [OF mem]
  have holds: "holds_newest m (set ?es)" unfolding m_def by (rule scan_newest.merged_from_empty)
  have vok: "versions_ok ?V"
    by (rule versions_ok_subset [of "reader_records recs rm"])
      (use ok in \<open>auto simp: reader_ok_def store_ok_def up_to_def reader_records_def\<close>)
  have fwd: "key_in_range k rng \<and> latest_rec ?V k (with_key r k)" if "map_of m k = Some r" for r
  proof -
    from that holds have n: "newest (set ?es) k r" by (simp add: holds_newest_def)
    then have "(k, r) \<in> set ?es" by (simp add: newest_def)
    with iff have "key_in_range k rng" "with_key r k \<in> set ?V" by blast+
    moreover have "mr_lsn r' \<le> mr_lsn r" if "r' \<in> set ?V" "mr_key r' = k" for r'
    proof -
      from iff that \<open>key_in_range k rng\<close> obtain r0 where "(k, r0) \<in> set ?es" "with_key r0 k = r'" by blast
      with n show ?thesis by (auto simp: newest_def with_key_def)
    qed
    ultimately show ?thesis by (simp add: latest_rec_def with_key_def)
  qed
  show ?thesis
  proof
    assume "\<exists>r. map_of m k = Some r \<and> mr_type r \<noteq> Delete \<and> mr_value r = v"
    then obtain r where r: "map_of m k = Some r" "mr_type r \<noteq> Delete" "mr_value r = v" by blast
    then have "mr_type (with_key r k) = Put" "mr_value (with_key r k) = v"
      by (cases "mr_type r"; simp add: with_key_def)+
    with fwd [OF r(1)] show "key_in_range k rng \<and> reads_as ?V k (Some v)"
      unfolding reads_as_Some by blast
  next
    assume a: "key_in_range k rng \<and> reads_as ?V k (Some v)"
    then obtain r' where r': "latest_rec ?V k r'" "mr_type r' = Put" "mr_value r' = v"
      unfolding reads_as_Some by blast
    then have "r' \<in> set ?V" "mr_key r' = k" by (simp_all add: latest_rec_def)
    with iff a obtain r0 where "(k, r0) \<in> set ?es" by blast
    with holds obtain r where r: "map_of m k = Some r" unfolding holds_newest_def by fastforce
    have "Some (with_key r k) = Some r'"
      by (rule is_best_unique [OF vok, of k]) (use fwd [OF r] r' in \<open>simp_all add: is_best_def\<close>)
    with r r' show "\<exists>r. map_of m k = Some r \<and> mr_type r \<noteq> Delete \<and> mr_value r = v"
      by (auto simp: with_key_def)
  qed
qed

lemma scan_reads:
  assumes ok: "reader_ok crc api open_file recs rm"
  shows "\<exists>out mm. scan_range crc api open_file rng s rm = (Inr out, rm\<lparr>rm_manifest := mm\<rparr>)
           \<and> sorted_wrt (<) (map fst out)
           \<and> (\<forall>k v. (k, v) \<in> set out \<longleftrightarrow>
                 key_in_range k rng \<and> reads_as (up_to s (reader_records recs rm)) k (Some v))
           \<and> only_cache open_file (rm_manifest rm) mm"
proof -
  let ?mem = "rm_memtable rm" and ?files = "level_files (sn_levels (snapshot (rm_manifest rm)))"
  let ?init = "scan_memtable s (skip_range (collect_range_bounds rng) ?mem) []"
  let ?m = "merge_records scan_pick (scan_entries recs rng s rm) []"
  have th: "tables_hold crc api open_file recs ?files" and c: "cache_ok open_file (rm_manifest rm)"
    using ok by (auto simp: reader_ok_def)
  have m0: "?init = merge_records scan_pick (mem_versions (filter (\<lambda>e. snd (fst e) \<le> s)
      (skip_range (collect_range_bounds rng) ?mem))) []"
    by (rule scan_memtable_merge) simp
  from scan_sstables_ok [OF th c, of ?init rng s] obtain mm where
    mm: "scan_sstables crc api open_file ?files rng s ?init (rm_manifest rm) = (Inr ?m, mm)"
    "only_cache open_file (rm_manifest rm) mm"
    by (auto simp: m0 scan_entries_def merge_records_append)
  have bt: "bt_ok ?m" by simp
  let ?live = "filter (\<lambda>e. mr_type (snd e) \<noteq> Delete) ?m"
  let ?out = "map (\<lambda>(key, record). (key, mr_value record)) ?live"
  have "bt_ok ?live" by (rule bt_ok_filter [OF bt])
  then have live: "sort_key fst ?live = ?live" "sorted_wrt (<) (map fst ?live)"
    by (simp_all add: sort_key_id_if_sorted bt_ok_sorted bt_ok_def)
  have "scan_range crc api open_file rng s rm = (Inr ?out, rm\<lparr>rm_manifest := mm\<rparr>)"
    using mm(1) live(1) by (simp add: scan_range_def scan_records_range_def level_order_def level_files_def)
  moreover have "map fst ?out = map fst ?live" by (simp add: case_prod_unfold comp_def)
  moreover have "(k, v) \<in> set ?out \<longleftrightarrow>
      key_in_range k rng \<and> reads_as (up_to s (reader_records recs rm)) k (Some v)" for k v
    using scan_merged_reads [OF ok refl, of rng s k v] bt_ok_in_set [OF bt, of k]
    by (force simp: image_iff)
  ultimately show ?thesis using live(2) mm(2) by metis
qed

lemma up_to_all: "\<forall>r \<in> set rs. mr_lsn r \<le> s \<Longrightarrow> up_to s rs = rs"
  by (simp add: up_to_def)

section \<open>The sequence number of a point read\<close>

lemma get_from_single_sstable_sequence:
  "get_from_single_sstable crc api open_file meta key s = get_from_single_sstable crc api open_file meta key s'"
  by (simp add: get_from_single_sstable_def fun_eq_iff)

lemma best_of_level0_sequence:
  "best_of_level0 crc api open_file files key s best mm = best_of_level0 crc api open_file files key s' best mm"
  by (induction files arbitrary: best mm)
    (simp_all add: get_from_single_sstable_sequence [of _ _ _ _ _ s s'] split: prod.split sum.split)

lemma first_of_level_sequence:
  "first_of_level crc api open_file files key s mm = first_of_level crc api open_file files key s' mm"
  by (induction files arbitrary: mm)
    (simp_all add: get_from_single_sstable_sequence [of _ _ _ _ _ s s'] split: prod.split sum.split option.split)

lemma get_from_levels_sequence:
  "get_from_levels crc api open_file levels key s mm = get_from_levels crc api open_file levels key s' mm"
  by (induction levels arbitrary: mm)
    (auto simp: best_of_level0_sequence [of _ _ _ _ _ s _ _ s'] first_of_level_sequence [of _ _ _ _ _ s _ s']
      split: prod.split sum.split option.split)

section \<open>Properties\<close>

text \<open>
  C10: a point read over a consistent store succeeds and answers with the newest version of the key,
  wherever it is stored: in the memtable, in any file of level 0, or in the one file of a deeper
  level; a newest version that is a deletion is answered with nothing. The read leaves the memtable
  and the manifest as they were and only uses the handle cache, which still agrees with the files.
\<close>

theorem get_correct:
  assumes "reader_ok crc api open_file recs rm"
    and "\<forall>m \<in> set (mem_records (rm_memtable rm)). mr_lsn m \<le> sequence_number"
  shows "\<exists>x mm. ReadManager_get crc api open_file key sequence_number rm = (Inr x, rm\<lparr>rm_manifest := mm\<rparr>)
           \<and> reads_as (reader_records recs rm) key (record_value x)
           \<and> only_cache open_file (rm_manifest rm) mm"
  using assms by (rule get_reads)

text \<open>
  C11: a range scan at a sequence number succeeds and returns, in strictly increasing key order,
  exactly the keys of the range whose newest version at or below that sequence number is a value,
  each with that value.
\<close>

theorem scan_correct:
  assumes "reader_ok crc api open_file recs rm"
  shows "\<exists>out mm. scan_range crc api open_file rng sequence_number rm = (Inr out, rm\<lparr>rm_manifest := mm\<rparr>)
           \<and> sorted_wrt (<) (map fst out)
           \<and> (\<forall>k v. (k, v) \<in> set out \<longleftrightarrow>
                 key_in_range k rng
                 \<and> reads_as (up_to sequence_number (reader_records recs rm)) k (Some v))
           \<and> only_cache open_file (rm_manifest rm) mm"
  using assms by (rule scan_reads)

text \<open>
  C12: scans and point reads agree. At a sequence number that is not below any stored version, a
  scan of a range returns a key with a value exactly when the point read of that key does.
\<close>

theorem get_scan_agree:
  assumes "reader_ok crc api open_file recs rm"
    and "\<forall>r \<in> set (reader_records recs rm). mr_lsn r \<le> sequence_number"
    and "key_in_range key rng"
  shows "\<exists>out x. fst (scan_range crc api open_file rng sequence_number rm) = Inr out
           \<and> fst (ReadManager_get crc api open_file key sequence_number rm) = Inr x
           \<and> (\<forall>v. (key, v) \<in> set out \<longleftrightarrow> record_value x = Some v)"
proof -
  have top: "\<forall>m \<in> set (mem_records (rm_memtable rm)). mr_lsn m \<le> sequence_number"
    using assms(2) by (simp add: reader_records_def store_records_def)
  have vok: "versions_ok (reader_records recs rm)"
    using assms(1) by (simp add: reader_ok_def store_ok_def reader_records_def)
  from get_reads [OF assms(1) top] obtain x mm where
    x: "ReadManager_get crc api open_file key sequence_number rm = (Inr x, rm\<lparr>rm_manifest := mm\<rparr>)"
    "reads_as (reader_records recs rm) key (record_value x)"
    by blast
  from scan_reads [OF assms(1)] obtain out mm' where
    out: "scan_range crc api open_file rng sequence_number rm = (Inr out, rm\<lparr>rm_manifest := mm'\<rparr>)"
    "\<And>k v. (k, v) \<in> set out \<longleftrightarrow>
       key_in_range k rng \<and> reads_as (up_to sequence_number (reader_records recs rm)) k (Some v)"
    by blast
  have "(key, v) \<in> set out \<longleftrightarrow> record_value x = Some v" for v
    using out(2) [of key v] assms(3) up_to_all [OF assms(2)] x(2) reads_as_unique [OF vok] by metis
  with x out show ?thesis by auto
qed

text \<open>
  C37: a point read of a key the memtable does not hold gives the same answer at every sequence
  number. The tables are searched without regard to it, so a read at an old sequence number sees
  table records written after it, while a scan at that number does not.
\<close>

theorem get_ignores_sequence:
  assumes "\<forall>((k, l), r) \<in> set (rm_memtable rm). k \<noteq> key"
  shows "ReadManager_get crc api open_file key s rm = ReadManager_get crc api open_file key s' rm"
proof -
  have "skip_range (Included (key, 0), Included (key, s)) (rm_memtable rm) = []" for s
    using assms
    by (fastforce simp: skip_range_def filter_empty_conv above_def below_def less_eq_prod_def less_prod_def)
  then show ?thesis
    by (simp add: ReadManager_get_def get_from_sstable_def get_from_levels_sequence [of _ _ _ _ _ s _ s'])
qed

section \<open>Witnesses\<close>

text \<open>A table with the keys 1 and 2, and a memtable in which key 2 is deleted.\<close>

definition sample_reader :: read_manager where
  "sample_reader =
     \<lparr>rm_memtable = [(([2], 5), \<lparr>mr_type = Delete, mr_lsn = 5, mr_key = [], mr_value = []\<rparr>)],
      rm_manifest =
        \<lparr>mm_file = [],
         mm_state = ManifestState_default\<lparr>ms_levels := [(0, [(7, sample_meta 7)])], ms_next_file_id := 8\<rparr>,
         mm_cache = lru_new DEFAULT_FILE_CACHE_CAPACITY\<rparr>\<rparr>"

abbreviation sample_open :: "bytes \<Rightarrow> bytes result" where
  "sample_open \<equiv> (\<lambda>_. Inr (table_file (\<lambda>_. 0) word_bloom sample_table))"

abbreviation sample_recs :: "sstable_meta \<Rightarrow> memtable_record list" where
  "sample_recs \<equiv> (\<lambda>_. [sample_record 1, sample_record 2])"

lemma sample_table_holds: "table_holds (\<lambda>_. 0) word_bloom sample_open (sample_meta 7) (sample_recs m)"
  unfolding table_holds_def
proof (intro conjI exI [of _ sample_table])
  show "table_records (sc_blocks sample_table) = sample_recs m"
    by (simp add: table_records_def sample_table_def SSTableCodec_new_def sample_block_def block_records_def)
  show "\<forall>r \<in> set (sample_recs m). bloom_contains word_bloom (sc_bloom sample_table) (mr_key r)"
    using bloom_insert_all_contains [OF word_bloom_ok, of _ "[[1], [2]]"]
    by (simp add: sample_table_def SSTableCodec_new_def sample_record_def)
qed (simp_all add: sample_table_ok word_bloom_shape sample_meta_def sample_record_def)

lemma sample_levels: "sn_levels (snapshot (rm_manifest sample_reader)) = [(0, [sample_meta 7])]"
  by (simp add: sample_reader_def snapshot_def snapshot_from_state_def snapshot_levels_def bt_values_def)

lemma sample_records:
  "reader_records sample_recs sample_reader
   = [\<lparr>mr_type = Delete, mr_lsn = 5, mr_key = [2], mr_value = []\<rparr>, sample_record 1, sample_record 2]"
  unfolding reader_records_def store_records_def sample_levels
  by (simp add: sample_reader_def mem_records_def with_key_def all_records_def)

lemma sample_reader_ok: "reader_ok (\<lambda>_. 0) word_bloom sample_open sample_recs sample_reader"
proof -
  have "cache_ok sample_open (rm_manifest sample_reader)"
    by (simp add: sample_reader_def cache_ok_def lru_new_def)
  moreover have "versions_ok (reader_records sample_recs sample_reader)"
    unfolding sample_records by (simp add: versions_ok_def versioned_def record_versions_def sample_record_def)
  moreover have "mem_ok (rm_memtable sample_reader)"
    by (simp add: mem_ok_def sample_reader_def)
  moreover have "levels_ok sample_recs [(0, [sample_meta 7])]" by (simp add: levels_ok_def)
  moreover have "mem_newest (rm_memtable sample_reader) [sample_record 1, sample_record 2]"
    by (simp add: mem_newest_def mem_records_def sample_reader_def with_key_def sample_record_def)
  ultimately show ?thesis
    using sample_table_holds
    by (simp add: reader_ok_def store_ok_def sample_levels reader_records_def all_records_def)
qed

lemma sample_reads:
  "reads_as (reader_records sample_recs sample_reader) [1] v \<longleftrightarrow> v = Some [7]"
  "reads_as (reader_records sample_recs sample_reader) [2] v \<longleftrightarrow> v = None"
proof -
  let ?rs = "reader_records sample_recs sample_reader"
  have vok: "versions_ok ?rs"
    using sample_reader_ok by (simp add: reader_ok_def store_ok_def reader_records_def)
  have "is_best ?rs [1] (Some (sample_record 1))"
    unfolding sample_records by (simp add: is_best_def latest_rec_def sample_record_def)
  then have one: "reads_as ?rs [1] (Some [7])"
    unfolding reads_as_def
    by (intro exI [of _ "Some (sample_record 1)"]) (simp add: record_value_def sample_record_def)
  have "is_best ?rs [2] (Some \<lparr>mr_type = Delete, mr_lsn = 5, mr_key = [2], mr_value = []\<rparr>)"
    unfolding sample_records by (simp add: is_best_def latest_rec_def sample_record_def)
  then have two: "reads_as ?rs [2] None"
    unfolding reads_as_def
    by (intro exI [of _ "Some \<lparr>mr_type = Delete, mr_lsn = 5, mr_key = [2], mr_value = []\<rparr>"])
      (simp add: record_value_def)
  show "reads_as ?rs [1] v \<longleftrightarrow> v = Some [7]" "reads_as ?rs [2] v \<longleftrightarrow> v = None"
    using one two reads_as_unique [OF vok] by blast+
qed

lemma sample_lsn:
  "\<forall>r \<in> set (reader_records sample_recs sample_reader). mr_lsn r \<le> 9"
  "\<forall>m \<in> set (mem_records (rm_memtable sample_reader)). mr_lsn m \<le> 9"
  unfolding sample_records by (simp_all add: mem_records_def sample_reader_def with_key_def sample_record_def)

theorem get_correct_witness:
  "\<exists>x y. fst (ReadManager_get (\<lambda>_. 0) word_bloom sample_open [1] 9 sample_reader) = Inr x
       \<and> fst (ReadManager_get (\<lambda>_. 0) word_bloom sample_open [2] 9 sample_reader) = Inr y
       \<and> record_value x = Some [7] \<and> record_value y = None"
  using get_correct [OF sample_reader_ok sample_lsn(2), of "[1]"]
    get_correct [OF sample_reader_ok sample_lsn(2), of "[2]"]
  by (auto simp: sample_reads)

theorem scan_correct_witness:
  "\<exists>out. fst (scan_range (\<lambda>_. 0) word_bloom sample_open (Unbounded, Unbounded) 9 sample_reader) = Inr out
       \<and> ([1], [7]) \<in> set out \<and> (\<forall>v. ([2], v) \<notin> set out)"
proof -
  have "up_to 9 (reader_records sample_recs sample_reader) = reader_records sample_recs sample_reader"
    by (rule up_to_all [OF sample_lsn(1)])
  with scan_correct [OF sample_reader_ok, of "(Unbounded, Unbounded)" 9] show ?thesis
    by (auto simp: sample_reads key_in_range_def)
qed

theorem get_scan_agree_witness:
  "\<exists>out x. fst (scan_range (\<lambda>_. 0) word_bloom sample_open (Unbounded, Unbounded) 9 sample_reader) = Inr out
         \<and> fst (ReadManager_get (\<lambda>_. 0) word_bloom sample_open [1] 9 sample_reader) = Inr x
         \<and> (\<forall>v. ([1], v) \<in> set out \<longleftrightarrow> record_value x = Some v)"
  by (rule get_scan_agree [OF sample_reader_ok sample_lsn(1)]) (simp add: key_in_range_def)

theorem get_ignores_sequence_witness:
  "ReadManager_get (\<lambda>_. 0) word_bloom sample_open [1] 0 sample_reader
   = ReadManager_get (\<lambda>_. 0) word_bloom sample_open [1] 9 sample_reader"
  by (rule get_ignores_sequence) (simp add: sample_reader_def)

end
