(* ===== verification/Live_Tables.thy ===== *)
theory Live_Tables
  imports Reads
begin

text \<open>
  The set of live tables of a manifest, and the conditions reads rely on as conditions on that set:
  which tables are live matters, not the order in which the manifest lists them. Flush and
  compaction replace some live tables by others.
\<close>

definition live :: "levels \<Rightarrow> sstable_meta set" where
  "live ls = ran (tables ls)"

text \<open>What every operation of the manifest keeps: entries are filed under their level and id, and
  ids and paths are not shared.\<close>

definition manifest_ok :: "levels \<Rightarrow> bool" where
  "manifest_ok ls \<longleftrightarrow>
     bt_ok ls \<and> (\<forall>(l, files) \<in> set ls. bt_ok files)
     \<and> (\<forall>l i m. tables ls (l, i) = Some m \<longrightarrow> sm_level m = l \<and> sm_file_id m = i)
     \<and> inj_on sm_file_id (live ls) \<and> inj_on sm_path (live ls)"

lemma tables_in_set:
  assumes "manifest_ok ls"
  shows "tables ls (l, i) = Some m \<longleftrightarrow> (\<exists>files. (l, files) \<in> set ls \<and> (i, m) \<in> set files)"
proof -
  have bt: "bt_ok ls" and in_ok: "(l, files) \<in> set ls \<Longrightarrow> bt_ok files" for files
    using assms by (auto simp: manifest_ok_def)
  show ?thesis
  proof (cases "map_of ls l")
    case None
    then have "(l, files) \<notin> set ls" for files using bt_ok_in_set [OF bt] by simp
    with None show ?thesis by (simp add: tables_def)
  next
    case (Some files)
    then have f: "(l, files) \<in> set ls" using bt_ok_in_set [OF bt] by simp
    have "(l, files') \<in> set ls \<longleftrightarrow> files' = files" for files' using Some bt_ok_in_set [OF bt] by auto
    with Some bt_ok_in_set [OF in_ok [OF f]] show ?thesis by (simp add: tables_def)
  qed
qed

lemma live_iff:
  assumes "manifest_ok ls"
  shows "m \<in> live ls \<longleftrightarrow> (\<exists>l files i. (l, files) \<in> set ls \<and> (i, m) \<in> set files)"
  unfolding live_def ran_def using tables_in_set [OF assms] by auto

lemma live_tables: "manifest_ok ls \<Longrightarrow> m \<in> live ls \<longleftrightarrow> tables ls (sm_level m, sm_file_id m) = Some m"
  by (auto simp: live_def ran_def manifest_ok_def)

lemma live_inj:
  "manifest_ok ls \<Longrightarrow> m \<in> live ls \<Longrightarrow> m' \<in> live ls \<Longrightarrow> sm_file_id m = sm_file_id m' \<Longrightarrow> m = m'"
  "manifest_ok ls \<Longrightarrow> m \<in> live ls \<Longrightarrow> m' \<in> live ls \<Longrightarrow> sm_path m = sm_path m' \<Longrightarrow> m = m'"
  by (auto simp: manifest_ok_def dest: inj_onD)

lemma finite_live: "manifest_ok ls \<Longrightarrow> finite (live ls)"
proof -
  assume ok: "manifest_ok ls"
  have "live ls \<subseteq> (\<Union>(l, files) \<in> set ls. snd ` set files)" using live_iff [OF ok] by force
  then show ?thesis by (rule finite_subset) auto
qed

lemma set_level_files:
  assumes "manifest_ok ls"
  shows "set (level_files (snapshot_levels ls)) = live ls"
  using live_iff [OF assms]
  by (force simp: level_files_def snapshot_levels_def bt_values_def)

section \<open>Levels\<close>

definition live_ok :: "(sstable_meta \<Rightarrow> memtable_record list) \<Rightarrow> sstable_meta set \<Rightarrow> bool" where
  "live_ok recs L \<longleftrightarrow>
     (\<forall>m \<in> L. \<forall>m' \<in> L. \<forall>r \<in> set (recs m). \<forall>r' \<in> set (recs m'). mr_key r = mr_key r' \<longrightarrow>
        (sm_level m < sm_level m' \<longrightarrow> mr_lsn r' \<le> mr_lsn r)
        \<and> (sm_level m = sm_level m' \<and> sm_level m \<noteq> 0 \<longrightarrow> m = m'))"

lemma live_ok_lsn:
  "\<lbrakk>live_ok recs L; m \<in> L; m' \<in> L; r \<in> set (recs m); r' \<in> set (recs m'); mr_key r = mr_key r';
    sm_level m < sm_level m'\<rbrakk> \<Longrightarrow> mr_lsn r' \<le> mr_lsn r"
  unfolding live_ok_def by blast

lemma live_ok_same:
  "\<lbrakk>live_ok recs L; m \<in> L; m' \<in> L; r \<in> set (recs m); r' \<in> set (recs m'); mr_key r = mr_key r';
    sm_level m = sm_level m'; sm_level m \<noteq> 0\<rbrakk> \<Longrightarrow> m = m'"
  unfolding live_ok_def by blast

definition keys_apart :: "(sstable_meta \<Rightarrow> memtable_record list) \<Rightarrow> sstable_meta \<Rightarrow> sstable_meta \<Rightarrow> bool" where
  "keys_apart recs m m' \<longleftrightarrow> (\<forall>r \<in> set (recs m). \<forall>r' \<in> set (recs m'). mr_key r \<noteq> mr_key r')"

lemma keys_apart_sym: "keys_apart recs m m' \<longleftrightarrow> keys_apart recs m' m"
  unfolding keys_apart_def by metis

lemma distinct_all_records:
  assumes "distinct metas" and "\<forall>m \<in> set metas. distinct (map mr_key (recs m))"
  shows "distinct (map mr_key (all_records recs metas))
     \<longleftrightarrow> (\<forall>m \<in> set metas. \<forall>m' \<in> set metas. m \<noteq> m' \<longrightarrow> keys_apart recs m m')"
  using assms
proof (induction metas)
  case (Cons a metas)
  have iff: "mr_key ` set (recs a) \<inter> mr_key ` set (all_records recs metas) = {}
      \<longleftrightarrow> (\<forall>m \<in> set metas. keys_apart recs a m)"
    by (fastforce simp: all_records_def keys_apart_def)
  have sym: "keys_apart recs a m \<Longrightarrow> keys_apart recs m a" for m using keys_apart_sym by blast
  have "a \<notin> set metas" using Cons.prems by simp
  then have "(\<forall>m \<in> set (a # metas). \<forall>m' \<in> set (a # metas). m \<noteq> m' \<longrightarrow> keys_apart recs m m')
      \<longleftrightarrow> (\<forall>m \<in> set metas. \<forall>m' \<in> set metas. m \<noteq> m' \<longrightarrow> keys_apart recs m m')
        \<and> (\<forall>m \<in> set metas. keys_apart recs a m)"
    using sym by auto
  with Cons iff show ?case by (simp add: all_records_def)
qed (simp add: all_records_def)

lemma sorted_wrt_keys:
  assumes "sorted_wrt (<) (map f xs)"
  shows "sorted_wrt P xs \<longleftrightarrow> (\<forall>x \<in> set xs. \<forall>y \<in> set xs. (f x :: 'a :: linorder) < f y \<longrightarrow> P x y)"
  using assms by (induction xs) (auto dest: less_asym)

lemma in_level:
  assumes ok: "manifest_ok ls" and "(l, files) \<in> set ls" and "m \<in> set (bt_values files)"
  shows "m \<in> live ls" "sm_level m = l"
proof -
  obtain i where "(i, m) \<in> set files" using assms(3) by (auto simp: bt_values_def)
  then have t: "tables ls (l, i) = Some m" using tables_in_set [OF ok] assms(2) by blast
  then show "m \<in> live ls" unfolding live_def by (rule ranI)
  show "sm_level m = l" using ok t by (auto simp: manifest_ok_def)
qed

lemma level_of:
  assumes ok: "manifest_ok ls" and "m \<in> live ls"
  obtains files where "(sm_level m, files) \<in> set ls" "m \<in> set (bt_values files)"
proof -
  have "tables ls (sm_level m, sm_file_id m) = Some m" using live_tables [OF ok] assms(2) by blast
  then obtain files where "(sm_level m, files) \<in> set ls" "(sm_file_id m, m) \<in> set files"
    using tables_in_set [OF ok] by blast
  then show ?thesis by (intro that) (force simp: bt_values_def)+
qed

lemma level_unique:
  "manifest_ok ls \<Longrightarrow> (l, files) \<in> set ls \<Longrightarrow> (l, files') \<in> set ls \<Longrightarrow> files = files'"
  using bt_ok_in_set [of ls] by (auto simp: manifest_ok_def)

lemma level_distinct:
  assumes ok: "manifest_ok ls" and "(l, files) \<in> set ls"
  shows "distinct (bt_values files)"
proof -
  have "bt_ok files" using assms by (auto simp: manifest_ok_def)
  then have d: "distinct (map fst files)" by (rule bt_ok_distinct)
  have "i = sm_file_id m" if "(i, m) \<in> set files" for i m
  proof -
    have "tables ls (l, i) = Some m" using that assms(2) tables_in_set [OF ok] by blast
    then show ?thesis using ok by (auto simp: manifest_ok_def)
  qed
  then have "map fst files = map sm_file_id (bt_values files)" by (auto simp: bt_values_def)
  with d show ?thesis by (metis distinct_map)
qed

lemma in_snapshot_levels:
  "(l, metas) \<in> set (snapshot_levels ls) \<longleftrightarrow> (\<exists>files. (l, files) \<in> set ls \<and> metas = bt_values files)"
  by (force simp: snapshot_levels_def)

lemma in_all_records: "r \<in> set (all_records recs metas) \<longleftrightarrow> (\<exists>m \<in> set metas. r \<in> set (recs m))"
  by (auto simp: all_records_def)

lemma snapshot_levels_sorted:
  assumes "manifest_ok ls"
  shows "sorted_wrt P (snapshot_levels ls)
    \<longleftrightarrow> (\<forall>x \<in> set (snapshot_levels ls). \<forall>y \<in> set (snapshot_levels ls). fst x < fst y \<longrightarrow> P x y)"
  by (rule sorted_wrt_keys)
    (use assms in \<open>simp add: manifest_ok_def bt_ok_def snapshot_levels_def comp_def case_prod_unfold\<close>)

lemma level_keys:
  assumes ok: "manifest_ok ls" and dist: "\<forall>m \<in> live ls. distinct (map mr_key (recs m))"
    and "(l, files) \<in> set ls"
  shows "distinct (map mr_key (all_records recs (bt_values files)))
    \<longleftrightarrow> (\<forall>m \<in> set (bt_values files). \<forall>m' \<in> set (bt_values files). m \<noteq> m' \<longrightarrow> keys_apart recs m m')"
  by (rule distinct_all_records [OF level_distinct [OF ok assms(3)]])
    (use dist in_level(1) [OF ok assms(3)] in blast)

lemma levels_ok_imp_live:
  assumes ok: "manifest_ok ls" and dist: "\<forall>m \<in> live ls. distinct (map mr_key (recs m))"
    and lo: "levels_ok recs (snapshot_levels ls)"
  shows "live_ok recs (live ls)"
  unfolding live_ok_def
proof (intro ballI impI conjI)
  fix m m' r r'
  assume m: "m \<in> live ls" "m' \<in> live ls" "r \<in> set (recs m)" "r' \<in> set (recs m')" "mr_key r = mr_key r'"
  obtain fs fs' where f: "(sm_level m, fs) \<in> set ls" "m \<in> set (bt_values fs)"
    "(sm_level m', fs') \<in> set ls" "m' \<in> set (bt_values fs')"
    using level_of [OF ok m(1)] level_of [OF ok m(2)] by metis
  have s: "(sm_level m, bt_values fs) \<in> set (snapshot_levels ls)"
    "(sm_level m', bt_values fs') \<in> set (snapshot_levels ls)"
    using f in_snapshot_levels by blast+
  show "mr_lsn r' \<le> mr_lsn r" if lt: "sm_level m < sm_level m'"
  proof -
    have "newer_level recs (sm_level m, bt_values fs) (sm_level m', bt_values fs')"
      using lo s lt unfolding levels_ok_def snapshot_levels_sorted [OF ok] by fastforce
    moreover have "r \<in> set (all_records recs (bt_values fs))" "r' \<in> set (all_records recs (bt_values fs'))"
      using m f in_all_records by blast+
    ultimately show ?thesis using m(5) by (simp add: newer_level_def)
  qed
  show "m = m'" if l: "sm_level m = sm_level m' \<and> sm_level m \<noteq> 0"
  proof -
    have "distinct (map mr_key (all_records recs (bt_values fs)))"
      using lo s(1) l unfolding levels_ok_def by fastforce
    moreover have "fs' = fs" using level_unique [OF ok f(3)] f(1) l by simp
    ultimately show ?thesis using level_keys [OF ok dist f(1)] f m unfolding keys_apart_def by blast
  qed
qed

lemma live_imp_levels_ok:
  assumes ok: "manifest_ok ls" and dist: "\<forall>m \<in> live ls. distinct (map mr_key (recs m))"
    and lo: "live_ok recs (live ls)"
  shows "levels_ok recs (snapshot_levels ls)"
proof -
  have "distinct (map mr_key (all_records recs (bt_values fs)))" if f: "(l, fs) \<in> set ls" and "l \<noteq> 0" for l fs
  proof -
    have "m = m'" if m: "m \<in> set (bt_values fs)" "m' \<in> set (bt_values fs)" "r \<in> set (recs m)" "r' \<in> set (recs m')"
      "mr_key r = mr_key r'" for m m' r r'
      using live_ok_same [OF lo _ _ m(3-5)] in_level [OF ok f m(1)] in_level [OF ok f m(2)] \<open>l \<noteq> 0\<close> by simp
    then have "\<forall>m \<in> set (bt_values fs). \<forall>m' \<in> set (bt_values fs). m \<noteq> m' \<longrightarrow> keys_apart recs m m'"
      unfolding keys_apart_def by blast
    then show ?thesis using level_keys [OF ok dist f] by simp
  qed
  moreover have "newer_level recs (l, bt_values fs) (l', bt_values fs')"
    if f: "(l, fs) \<in> set ls" "(l', fs') \<in> set ls" "l < l'" for l l' fs fs'
    unfolding newer_level_def snd_conv
  proof (intro ballI impI)
    fix r r'
    assume r: "r \<in> set (all_records recs (bt_values fs))" "r' \<in> set (all_records recs (bt_values fs'))"
      "mr_key r = mr_key r'"
    then obtain m m' where m: "m \<in> set (bt_values fs)" "r \<in> set (recs m)" "m' \<in> set (bt_values fs')" "r' \<in> set (recs m')"
      using in_all_records by blast
    show "mr_lsn r' \<le> mr_lsn r"
      using live_ok_lsn [OF lo _ _ m(2,4) r(3)] in_level [OF ok f(1) m(1)] in_level [OF ok f(2) m(3)] f(3) by simp
  qed
  ultimately show ?thesis
    unfolding levels_ok_def snapshot_levels_sorted [OF ok] by (auto simp: in_snapshot_levels)
qed

lemma levels_ok_live:
  assumes "manifest_ok ls" and "\<forall>m \<in> live ls. distinct (map mr_key (recs m))"
  shows "levels_ok recs (snapshot_levels ls) \<longleftrightarrow> live_ok recs (live ls)"
  using levels_ok_imp_live [OF assms] live_imp_levels_ok [OF assms] by blast

section \<open>Versions\<close>

text \<open>The records of a set of tables, and what a store of them answers.\<close>

definition recs_of :: "(sstable_meta \<Rightarrow> memtable_record list) \<Rightarrow> sstable_meta set \<Rightarrow> memtable_record set" where
  "recs_of recs L = (\<Union>m \<in> L. set (recs m))"

lemma set_all_records_live:
  "manifest_ok ls \<Longrightarrow> set (all_records recs (level_files (snapshot_levels ls))) = recs_of recs (live ls)"
  by (simp add: all_records_def recs_of_def set_level_files)

lemma is_best_cong: "set rs = set rs' \<Longrightarrow> is_best rs key b \<longleftrightarrow> is_best rs' key b"
  by (simp add: is_best_def latest_rec_def split: option.split)

lemma versions_ok_cong: "set rs = set rs' \<Longrightarrow> versions_ok rs \<longleftrightarrow> versions_ok rs'"
  by (simp add: versions_ok_def record_versions_def)

section \<open>Changing the set of live tables\<close>

definition levels_bt :: "levels \<Rightarrow> bool" where
  "levels_bt ls \<longleftrightarrow> bt_ok ls \<and> (\<forall>(l, files) \<in> set ls. bt_ok files)"

lemma bt_insert_in: "e \<in> set (bt_insert k v m) \<Longrightarrow> e = (k, v) \<or> e \<in> set m"
  by (induction k v m rule: bt_insert.induct) (auto split: if_splits)

lemma levels_bt_insert:
  assumes "levels_bt ls"
  shows "levels_bt (levels_insert meta ls)"
proof -
  have "bt_ok (case map_of ls (sm_level meta) of None \<Rightarrow> [] | Some files \<Rightarrow> files)"
    using assms by (auto simp: levels_bt_def dest: map_of_SomeD split: option.split)
  with assms show ?thesis by (auto simp: levels_bt_def levels_insert_def dest!: bt_insert_in)
qed

lemma levels_bt_remove:
  assumes "levels_bt ls"
  shows "levels_bt (levels_remove level file_id ls)"
proof (cases "map_of ls level")
  case (Some files)
  then have "bt_ok files" using assms by (auto simp: levels_bt_def dest: map_of_SomeD)
  with Some assms show ?thesis
    by (auto simp: levels_bt_def levels_remove_def Let_def set_bt_remove dest!: bt_insert_in)
qed (use assms in \<open>simp add: levels_remove_def\<close>)

lemma levels_bt_compaction:
  assumes "levels_bt (ms_levels st)"
  shows "levels_bt (ms_levels (apply_compaction st removals outputs))"
proof -
  have "levels_bt (foldl (\<lambda>ls (level, file_id). levels_remove level file_id ls) ls rs)" if "levels_bt ls" for ls rs
    using that by (induction rs arbitrary: ls) (auto intro: levels_bt_remove)
  moreover have "levels_bt (ms_levels (foldl apply_output st os))" if "levels_bt (ms_levels st)" for st os
    using that
  proof (induction os arbitrary: st)
    case (Cons out os)
    have "levels_bt (ms_levels (apply_output st out))"
      using Cons.prems by (simp add: apply_output_def levels_bt_insert)
    with Cons.IH show ?case by simp
  qed simp
  ultimately show ?thesis using assms by (simp add: apply_compaction_def)
qed

lemma manifest_ok_levels_bt: "manifest_ok ls \<Longrightarrow> levels_bt ls"
  by (simp add: manifest_ok_def levels_bt_def)

lemma map_of_keyed:
  assumes "distinct (map sm_file_id outputs)"
  shows "map_of (rev (map keyed_meta outputs)) (l, i) = Some m
     \<longleftrightarrow> m \<in> set outputs \<and> sm_level m = l \<and> sm_file_id m = i"
proof -
  have "inj_on (fst \<circ> keyed_meta) (set outputs)" "distinct outputs"
    using assms by (auto simp: distinct_map inj_on_def keyed_meta_def)
  then have "distinct (map (fst \<circ> keyed_meta) outputs)" by (simp add: distinct_map)
  then have "distinct (map fst (rev (map keyed_meta outputs)))" by (simp only: rev_map [symmetric] distinct_rev list.map_comp)
  then show ?thesis by (auto simp: map_of_eq_Some_iff keyed_meta_def)
qed

lemma inj_on_swap:
  "inj_on f L \<Longrightarrow> distinct (map f os) \<Longrightarrow> f ` set os \<inter> f ` L = {} \<Longrightarrow> inj_on f ((L - I) \<union> set os)"
  unfolding inj_on_Un by (auto simp: distinct_map intro: inj_on_subset)

lemma manifest_swap:
  assumes ok: "manifest_ok ls" and bt: "levels_bt ls'" and sub: "set inputs \<subseteq> live ls"
    and ids: "distinct (map sm_file_id outputs)" "sm_file_id ` set outputs \<inter> sm_file_id ` live ls = {}"
    and paths: "distinct (map sm_path outputs)" "sm_path ` set outputs \<inter> sm_path ` live ls = {}"
    and t: "tables ls' = (tables ls |` (- set (map (fst \<circ> keyed_meta) inputs))) ++ map_of (rev (map keyed_meta outputs))"
  shows "manifest_ok ls' \<and> live ls' = (live ls - set inputs) \<union> set outputs"
proof -
  have in_key: "(l, i) \<in> set (map (fst \<circ> keyed_meta) inputs) \<longleftrightarrow> (\<exists>m \<in> set inputs. sm_level m = l \<and> sm_file_id m = i)" for l i
    by (auto simp: keyed_meta_def)
  have inp: "tables ls (l, i) = Some m \<Longrightarrow> m \<in> set inputs \<longleftrightarrow> (l, i) \<in> set (map (fst \<circ> keyed_meta) inputs)" for l i m
  proof -
    assume m: "tables ls (l, i) = Some m"
    then have k: "sm_level m = l" "sm_file_id m = i" using ok by (auto simp: manifest_ok_def)
    have "m' = m" if "m' \<in> set inputs" "sm_level m' = l" "sm_file_id m' = i" for m'
      using that sub live_tables [OF ok, of m'] m by auto
    with k show ?thesis unfolding in_key by blast
  qed
  have out: "tables ls' (l, i) = Some m \<longleftrightarrow>
      (m \<in> set outputs \<and> sm_level m = l \<and> sm_file_id m = i) \<or> (tables ls (l, i) = Some m \<and> m \<notin> set inputs)" for l i m
  proof (cases "map_of (rev (map keyed_meta outputs)) (l, i)")
    case None
    then have "\<not> (m \<in> set outputs \<and> sm_level m = l \<and> sm_file_id m = i)" using map_of_keyed [OF ids(1)] by (metis option.distinct(1))
    moreover have "tables ls' (l, i) = (tables ls |` (- set (map (fst \<circ> keyed_meta) inputs))) (l, i)"
      using None t by (simp add: map_add_def)
    ultimately show ?thesis using inp [of l i m] by (auto simp: restrict_map_def simp del: set_map)
  next
    case (Some o')
    then have o': "o' \<in> set outputs" "sm_level o' = l" "sm_file_id o' = i" using map_of_keyed [OF ids(1)] by blast+
    have "tables ls (l, i) = None"
    proof (rule ccontr)
      assume "tables ls (l, i) \<noteq> None"
      then obtain m where "tables ls (l, i) = Some m" by blast
      then have "m \<in> live ls" "sm_file_id m = i" using ok by (auto simp: live_def ran_def manifest_ok_def)
      with o' ids(2) show False by blast
    qed
    moreover have "tables ls' (l, i) = Some o'" using Some t by (simp add: map_add_def)
    ultimately show ?thesis using map_of_keyed [OF ids(1), of l i m] Some by auto
  qed
  have live': "live ls' = (live ls - set inputs) \<union> set outputs"
  proof (rule set_eqI)
    fix m
    have "m \<in> live ls' \<longleftrightarrow> (\<exists>l i. tables ls' (l, i) = Some m)" "m \<in> live ls \<longleftrightarrow> (\<exists>l i. tables ls (l, i) = Some m)"
      by (auto simp: live_def ran_def)
    then show "m \<in> live ls' \<longleftrightarrow> m \<in> (live ls - set inputs) \<union> set outputs" using out by auto
  qed
  moreover have "inj_on sm_file_id (live ls')" "inj_on sm_path (live ls')"
    unfolding live' using ok ids paths by (auto simp: manifest_ok_def intro!: inj_on_swap)
  moreover have "sm_level m = l \<and> sm_file_id m = i" if "tables ls' (l, i) = Some m" for l i m
    using that out [of l i m] ok by (auto simp: manifest_ok_def)
  ultimately show ?thesis using bt by (simp add: manifest_ok_def levels_bt_def)
qed

end
