(* ===== verification/Table_Swap.thy ===== *)
theory Table_Swap
  imports Live_Tables
begin

text \<open>
  Replacing tables \<open>I\<close> of two adjacent levels by tables \<open>O\<close> of the lower one that hold the newest
  versions of \<open>I\<close>: what a compaction does to the versions of the store. Deletions may be left out of
  \<open>O\<close> when no table that stays has the key. The order of the levels survives, and so does what
  every read answers.
\<close>

section \<open>The order of the levels\<close>

lemma level_succ_less: "(n :: u32) \<noteq> - 1 \<Longrightarrow> l < n + 1 \<longleftrightarrow> l \<le> n"
proof -
  assume "n \<noteq> - 1"
  then have "1 + n \<noteq> 0" by (metis add.commute add_eq_0_iff2)
  then have "unat (n + 1) = Suc (unat n)" by (simp add: unatSuc add.commute)
  then show ?thesis by (simp add: word_less_nat_alt word_le_nat_alt less_Suc_eq_le)
qed

lemma swap_live_ok:
  assumes lo: "live_ok recs L" and sub: "I \<subseteq> L" and n: "n \<noteq> - 1"
    and lev: "\<forall>m \<in> I. sm_level m = n \<or> sm_level m = n + 1"
    and olev: "\<forall>m \<in> Out. sm_level m = n + 1"
    and came: "recs_of recs Out \<subseteq> recs_of recs I"
    and apart: "\<forall>m \<in> L - I. sm_level m = n \<or> sm_level m = n + 1 \<longrightarrow> (\<forall>m0 \<in> I. keys_apart recs m m0)"
    and out_apart: "\<forall>m \<in> Out. \<forall>m' \<in> Out. m \<noteq> m' \<longrightarrow> keys_apart recs m m'"
  shows "live_ok recs ((L - I) \<union> Out)"
  unfolding live_ok_def
proof (intro ballI impI conjI)
  fix m m' r r'
  assume m: "m \<in> (L - I) \<union> Out" "m' \<in> (L - I) \<union> Out" "r \<in> set (recs m)" "r' \<in> set (recs m')" "mr_key r = mr_key r'"
  have src: "\<exists>m0 \<in> I. w \<in> set (recs m0)" if "x \<in> Out" "w \<in> set (recs x)" for x w
    using came that by (auto simp: recs_of_def)
  have not_apart: "\<not> keys_apart recs a b" if "x \<in> set (recs a)" "y \<in> set (recs b)" "mr_key x = mr_key y" for a b x y
    using that by (auto simp: keys_apart_def)
  have le_n: "sm_level m0 < l" if "m0 \<in> I" "n + 1 < l" for m0 l
    using lev that level_succ_less [OF n, of n] by (metis less_trans order_refl)
  show "mr_lsn r' \<le> mr_lsn r" if lt: "sm_level m < sm_level m'"
  proof (cases "m \<in> Out")
    case True
    then obtain m0 where m0: "m0 \<in> I" "r \<in> set (recs m0)" using src m(3) by blast
    have "n + 1 < sm_level m'" using True olev lt by simp
    moreover from this have "m' \<in> L" using m(2) olev by auto
    ultimately show ?thesis using live_ok_lsn [OF lo _ _ m0(2) m(4,5)] m0(1) sub le_n by blast
  next
    case False
    then have mL: "m \<in> L - I" using m(1) by blast
    show ?thesis
    proof (cases "m' \<in> Out")
      case True
      then obtain m0 where m0: "m0 \<in> I" "r' \<in> set (recs m0)" using src m(4) by blast
      have "sm_level m \<le> n" using lt True olev level_succ_less [OF n] by simp
      moreover have "sm_level m \<noteq> n" using apart mL m0 not_apart [OF m(3) m0(2) m(5)] by blast
      ultimately have "sm_level m < n" by simp
      moreover have "n \<le> sm_level m0" using lev m0(1) level_succ_less [OF n, of n] by fastforce
      ultimately have "sm_level m < sm_level m0" by (rule less_le_trans)
      then show ?thesis using live_ok_lsn [OF lo _ _ m(3) m0(2) m(5)] mL m0(1) sub by blast
    next
      case False
      then show ?thesis using live_ok_lsn [OF lo _ _ m(3-5) lt] mL m(2) by blast
    qed
  qed
  show "m = m'" if l: "sm_level m = sm_level m' \<and> sm_level m \<noteq> 0"
  proof (rule ccontr)
    assume ne: "m \<noteq> m'"
    have *: False if ab: "a \<in> L - I" "b \<in> Out" "x \<in> set (recs a)" "y \<in> set (recs b)" "mr_key x = mr_key y"
      "sm_level a = sm_level b" for a b x y
    proof -
      obtain m0 where m0: "m0 \<in> I" "y \<in> set (recs m0)" using src [OF ab(2,4)] by blast
      have "sm_level a = n + 1" using olev ab(2,6) by simp
      then have "keys_apart recs a m0" using apart ab(1) m0(1) by blast
      with not_apart [OF ab(3) m0(2) ab(5)] show False by simp
    qed
    have "m \<notin> Out \<or> m' \<notin> Out" using out_apart ne not_apart [OF m(3-5)] by blast
    moreover have "\<not> (m \<in> L - I \<and> m' \<in> L - I)" using live_ok_same [OF lo _ _ m(3-5)] l ne by blast
    ultimately show False using m l * [of m m' r r'] * [of m' m r' r] by (metis Un_iff)
  qed
qed

section \<open>What reads answer\<close>

lemma is_best_exists: "\<exists>b. is_best rs key b"
proof (cases "\<exists>r \<in> set rs. mr_key r = key")
  case True
  then obtain r where "(key, r) \<in> set (record_versions rs)" by (auto simp: record_versions_def)
  then obtain r' where "newest (set (record_versions rs)) key r'" using newest_exists by blast
  then show ?thesis by (intro exI [of _ "Some r'"]) (simp add: is_best_def latest_rec_newest)
next
  case False
  then show ?thesis by (intro exI [of _ None]) (simp add: is_best_def)
qed

lemma reads_as_total: "\<exists>v. reads_as rs key v"
  using is_best_exists by (auto simp: reads_as_def)

lemma versions_okD:
  "versions_ok rs \<Longrightarrow> r \<in> set rs \<Longrightarrow> r' \<in> set rs \<Longrightarrow> mr_key r = mr_key r' \<Longrightarrow> mr_lsn r = mr_lsn r' \<Longrightarrow> r = r'"
  unfolding versions_ok_def versioned_def record_versions_def by fastforce

text \<open>
  \<open>M\<close> are the versions in the memtable, \<open>S\<close> those in the tables that stay, \<open>A\<close> those in the tables
  replaced and \<open>B\<close> those in the tables put in their place.
\<close>

lemma swap_reads_one:
  assumes vok: "versions_ok rs" and rs: "set rs = M \<union> S \<union> A" and rs': "set rs' = M \<union> S \<union> B"
    and sub: "B \<subseteq> A" and newB: "\<forall>w \<in> B. \<forall>a \<in> A. mr_key a = mr_key w \<longrightarrow> mr_lsn a \<le> mr_lsn w"
    and gone: "\<forall>a \<in> A. (\<exists>w \<in> B. mr_key w = mr_key a)
       \<or> (\<exists>d \<in> A. mr_key d = mr_key a \<and> mr_type d = Delete
            \<and> (\<forall>a' \<in> A. mr_key a' = mr_key a \<longrightarrow> mr_lsn a' \<le> mr_lsn d) \<and> (\<forall>s \<in> S. mr_key s \<noteq> mr_key a))"
    and mem: "\<forall>m \<in> M. \<forall>a \<in> A. mr_key m = mr_key a \<longrightarrow> (\<exists>m' \<in> M. mr_key m' = mr_key a \<and> mr_lsn a \<le> mr_lsn m')"
    and b: "reads_as rs key v"
  shows "reads_as rs' key v"
proof -
  from b obtain x where x: "is_best rs key x" "v = record_value x" by (auto simp: reads_as_def)
  have incl: "set rs' \<subseteq> set rs" using rs rs' sub by blast
  show ?thesis
  proof (cases x)
    case None
    then have "is_best rs' key None" using x(1) incl by (auto simp: is_best_def)
    with None x(2) show ?thesis by (auto simp: reads_as_def)
  next
    case (Some r)
    then have r: "r \<in> set rs" "mr_key r = key" "\<And>r'. r' \<in> set rs \<Longrightarrow> mr_key r' = key \<Longrightarrow> mr_lsn r' \<le> mr_lsn r"
      using x(1) by (auto simp: is_best_def latest_rec_def)
    have same: "r' = r" if "r' \<in> set rs" "mr_key r' = key" "mr_lsn r \<le> mr_lsn r'" for r'
      using versions_okD [OF vok that(1) r(1)] that r(2) r(3) [OF that(1,2)] by auto
    show ?thesis
    proof (cases "r \<in> set rs'")
      case True
      then have "is_best rs' key (Some r)" using r incl by (auto simp: is_best_def latest_rec_def)
      with Some x(2) show ?thesis by (auto simp: reads_as_def)
    next
      case False
      then have A: "r \<in> A" "r \<notin> M" "r \<notin> B" using r(1) rs rs' by auto
      have noB: "mr_key w \<noteq> key" if wB: "w \<in> B" for w
      proof
        assume k: "mr_key w = key"
        have "mr_lsn r \<le> mr_lsn w" using newB wB A(1) k r(2) by auto
        moreover have "w \<in> set rs" using wB sub rs by blast
        ultimately have "w = r" using k by (intro same)
        with A(3) wB show False by simp
      qed
      then obtain d where d: "d \<in> A" "mr_key d = key" "mr_type d = Delete" "mr_lsn r \<le> mr_lsn d"
        and noS: "\<forall>s \<in> S. mr_key s \<noteq> key"
        using gone A(1) r(2) by metis
      have "d = r" by (rule same) (use d rs in auto)
      moreover have "mr_key m \<noteq> key" if mM: "m \<in> M" for m
      proof
        assume "mr_key m = key"
        with mem mM A(1) r(2) have "\<exists>m' \<in> M. mr_key m' = key \<and> mr_lsn r \<le> mr_lsn m'" by blast
        then obtain m' where "m' \<in> M" "mr_key m' = key" "mr_lsn r \<le> mr_lsn m'" by blast
        moreover from this have "m' = r" by (intro same) (use rs in auto)
        ultimately show False using A(2) by simp
      qed
      ultimately have "is_best rs' key None" "record_value (Some r) = record_value None"
        using rs' noB noS d(3) by (auto simp: is_best_def record_value_def)
      with Some x(2) show ?thesis unfolding reads_as_def by blast
    qed
  qed
qed

lemma swap_reads:
  assumes vok: "versions_ok rs" and incl: "set rs' \<subseteq> set rs"
    and one: "\<And>v. reads_as rs key v \<Longrightarrow> reads_as rs' key v"
  shows "reads_as rs' key v \<longleftrightarrow> reads_as rs key v"
proof -
  obtain w where w: "reads_as rs key w" using reads_as_total by blast
  have "versions_ok rs'" using versions_ok_subset [OF vok incl] .
  then show ?thesis using w one [OF w] reads_as_unique vok by metis
qed

section \<open>The replacement as a whole\<close>

text \<open>
  \<open>compacts recs L I Out n recs'\<close>: the tables \<open>I\<close> of levels \<open>n\<close> and \<open>n + 1\<close> are replaced by \<open>Out\<close>,
  and \<open>recs'\<close> are the versions the tables hold afterwards.
\<close>

definition compacts ::
  "(sstable_meta \<Rightarrow> memtable_record list) \<Rightarrow> sstable_meta set \<Rightarrow> sstable_meta set \<Rightarrow> sstable_meta set \<Rightarrow> u32 \<Rightarrow>
   (sstable_meta \<Rightarrow> memtable_record list) \<Rightarrow> bool" where
  "compacts recs L I Out n recs' \<longleftrightarrow>
     finite L \<and> I \<subseteq> L \<and> finite Out \<and> Out \<inter> L = {} \<and> n \<noteq> - 1
     \<and> (\<forall>m \<in> I. sm_level m = n \<or> sm_level m = n + 1) \<and> (\<exists>m \<in> I. sm_level m = n \<and> recs m \<noteq> [])
     \<and> (\<forall>m \<in> Out. sm_level m = n + 1) \<and> (\<forall>m \<in> L. recs' m = recs m)
     \<and> (\<forall>m \<in> L - I. sm_level m = n \<or> sm_level m = n + 1 \<longrightarrow> (\<forall>m0 \<in> I. keys_apart recs m m0))
     \<and> (\<forall>m \<in> Out. \<forall>m' \<in> Out. m \<noteq> m' \<longrightarrow> keys_apart recs' m m')
     \<and> recs_of recs' Out \<subseteq> recs_of recs I
     \<and> (\<forall>w \<in> recs_of recs' Out. \<forall>a \<in> recs_of recs I. mr_key a = mr_key w \<longrightarrow> mr_lsn a \<le> mr_lsn w)
     \<and> (\<forall>a \<in> recs_of recs I. (\<exists>w \<in> recs_of recs' Out. mr_key w = mr_key a)
          \<or> (\<exists>d \<in> recs_of recs I. mr_key d = mr_key a \<and> mr_type d = Delete
               \<and> (\<forall>a' \<in> recs_of recs I. mr_key a' = mr_key a \<longrightarrow> mr_lsn a' \<le> mr_lsn d)
               \<and> (\<forall>s \<in> recs_of recs (L - I). mr_key s \<noteq> mr_key a)))
     \<and> (\<Sum>m \<in> Out. length (recs' m)) \<le> (\<Sum>m \<in> I. length (recs m))"

lemma recs_of_cong: "(\<And>m. m \<in> S \<Longrightarrow> recs' m = recs m) \<Longrightarrow> recs_of recs' S = recs_of recs S"
  by (simp add: recs_of_def)

lemma recs_of_Un [simp]: "recs_of recs (S \<union> T) = recs_of recs S \<union> recs_of recs T"
  by (auto simp: recs_of_def)

lemma recs_of_split: "I \<subseteq> L \<Longrightarrow> recs_of recs L = recs_of recs (L - I) \<union> recs_of recs I"
  by (auto simp: recs_of_def)

lemma live_ok_cong: "(\<And>m. m \<in> L \<Longrightarrow> recs' m = recs m) \<Longrightarrow> live_ok recs' L \<longleftrightarrow> live_ok recs L"
  by (simp add: live_ok_def)

lemma compacts_live_ok:
  assumes c: "compacts recs L I Out n recs'" and lo: "live_ok recs L"
  shows "live_ok recs' ((L - I) \<union> Out)"
proof (rule swap_live_ok [where n = n])
  have same: "recs' m = recs m" if "m \<in> L" for m using c that by (simp add: compacts_def)
  have sub: "I \<subseteq> L" using c by (simp add: compacts_def)
  show "live_ok recs' L" using lo live_ok_cong same by blast
  have "recs_of recs' I = recs_of recs I" by (rule recs_of_cong) (use sub same in blast)
  then show "recs_of recs' Out \<subseteq> recs_of recs' I" using c by (simp add: compacts_def)
  have apart: "keys_apart recs m m0"
    if "m \<in> L - I" "sm_level m = n \<or> sm_level m = n + 1" "m0 \<in> I" for m m0
    using c that unfolding compacts_def by blast
  show "\<forall>m \<in> L - I. sm_level m = n \<or> sm_level m = n + 1 \<longrightarrow> (\<forall>m0 \<in> I. keys_apart recs' m m0)"
  proof (intro ballI impI)
    fix m m0 assume m: "m \<in> L - I" "sm_level m = n \<or> sm_level m = n + 1" "m0 \<in> I"
    then have "m \<in> L" "m0 \<in> L" using sub by auto
    with apart [OF m] same show "keys_apart recs' m m0" by (simp add: keys_apart_def)
  qed
qed (use c in \<open>auto simp: compacts_def\<close>)

lemma compacts_recs:
  assumes c: "compacts recs L I Out n recs'"
  shows "recs_of recs' ((L - I) \<union> Out) \<subseteq> recs_of recs L"
proof -
  have sub: "I \<subseteq> L" and came: "recs_of recs' Out \<subseteq> recs_of recs I" using c by (auto simp: compacts_def)
  have "recs_of recs' (L - I) = recs_of recs (L - I)" using c by (intro recs_of_cong) (simp add: compacts_def)
  with came recs_of_split [OF sub, of recs] show ?thesis by auto
qed

lemma compacts_reads:
  assumes c: "compacts recs L I Out n recs'" and vok: "versions_ok rs"
    and rs: "set rs = M \<union> recs_of recs L" and rs': "set rs' = M \<union> recs_of recs' ((L - I) \<union> Out)"
    and mem: "\<forall>m \<in> M. \<forall>a \<in> recs_of recs L. mr_key m = mr_key a \<longrightarrow> (\<exists>m' \<in> M. mr_key m' = mr_key a \<and> mr_lsn a \<le> mr_lsn m')"
  shows "reads_as rs' key v \<longleftrightarrow> reads_as rs key v"
proof (rule swap_reads [OF vok])
  have sub: "I \<subseteq> L" using c by (simp add: compacts_def)
  have S: "recs_of recs' (L - I) = recs_of recs (L - I)" using c by (intro recs_of_cong) (simp add: compacts_def)
  show "set rs' \<subseteq> set rs" using compacts_recs [OF c] rs rs' by blast
  fix v assume r: "reads_as rs key v"
  show "reads_as rs' key v"
  proof (rule swap_reads_one [OF vok _ _ _ _ _ _ r])
    show "set rs = M \<union> recs_of recs (L - I) \<union> recs_of recs I" using rs recs_of_split [OF sub, of recs] by blast
    show "set rs' = M \<union> recs_of recs (L - I) \<union> recs_of recs' Out" using rs' S by auto
    show "\<forall>m \<in> M. \<forall>a \<in> recs_of recs I. mr_key m = mr_key a \<longrightarrow> (\<exists>m' \<in> M. mr_key m' = mr_key a \<and> mr_lsn a \<le> mr_lsn m')"
      using mem recs_of_split [OF sub, of recs] by blast
  qed (use c in \<open>simp_all add: compacts_def\<close>)
qed

text \<open>Each version moves down: the measure of the compaction loop.\<close>

definition weight :: "(sstable_meta \<Rightarrow> memtable_record list) \<Rightarrow> sstable_meta set \<Rightarrow> nat" where
  "weight recs L = (\<Sum>m \<in> L. length (recs m) * (2 ^ 32 - unat (sm_level m)))"

lemma compacts_weight:
  assumes c: "compacts recs L I Out n recs'"
  shows "weight recs' ((L - I) \<union> Out) < weight recs L"
proof -
  let ?k = "2 ^ 32 - unat (n + 1)"
  have sub: "I \<subseteq> L" and fin: "finite L" "finite Out" "finite I" and disj: "Out \<inter> L = {}" and n: "n \<noteq> - 1"
    using c by (auto simp: compacts_def intro: finite_subset)
  have n1: "unat (n + 1) = Suc (unat n)" using n by (metis add.commute add_eq_0_iff2 unatSuc)
  have lt: "unat (n + 1) < 2 ^ 32" by simp
  obtain m where m: "m \<in> I" "sm_level m = n" "recs m \<noteq> []" using c by (auto simp: compacts_def)
  have "weight recs' ((L - I) \<union> Out) = weight recs' (L - I) + weight recs' Out"
    unfolding weight_def by (rule sum.union_disjoint) (use fin disj in auto)
  moreover have "weight recs' (L - I) = weight recs (L - I)"
    unfolding weight_def using c by (intro sum.cong) (auto simp: compacts_def)
  moreover have "weight recs L = weight recs (L - I) + weight recs I"
    unfolding weight_def by (rule sum.subset_diff [OF sub fin(1)])
  moreover have "weight recs' Out < weight recs I"
  proof -
    have "weight recs' Out = (\<Sum>m \<in> Out. length (recs' m)) * ?k"
      unfolding weight_def sum_distrib_right using c by (intro sum.cong) (auto simp: compacts_def)
    also have "\<dots> \<le> (\<Sum>m \<in> I. length (recs m)) * ?k" using c by (intro mult_right_mono) (auto simp: compacts_def)
    also have "\<dots> < weight recs I"
      unfolding weight_def sum_distrib_right
    proof (rule sum_strict_mono_ex1 [OF fin(3)])
      show "\<forall>x \<in> I. length (recs x) * ?k \<le> length (recs x) * (2 ^ 32 - unat (sm_level x))"
        using c n1 by (auto simp: compacts_def intro!: mult_left_mono)
      show "\<exists>x \<in> I. length (recs x) * ?k < length (recs x) * (2 ^ 32 - unat (sm_level x))"
        using m n1 lt by (intro bexI [of _ m]) auto
    qed
    finally show ?thesis .
  qed
  ultimately show ?thesis by simp
qed

end
