(* ===== verification/Compaction_Select.thy ===== *)
theory Compaction_Select
  imports Compaction Table_Swap
begin

text \<open>
  The inputs of a compaction (\<open>select_inputs\<close> of \<open>src/storage/compactionmanager/compaction.rs\<close>): the
  chosen tables are live tables of the level and the next one, and no other table of the two levels
  shares a key with them.
\<close>

section \<open>Ranges\<close>

text \<open>A table's range, from its metadata or from its index, is that of its records.\<close>

definition covers :: "bytes \<times> bytes \<Rightarrow> memtable_record list \<Rightarrow> bool" where
  "covers rng rs \<longleftrightarrow> (\<forall>r \<in> set rs. fst rng \<le> mr_key r \<and> mr_key r \<le> snd rng)"

lemma block_index_keys:
  "map si_first_key (block_index crc off bs) = map b_first_key bs"
  "map si_last_key (block_index crc off bs) = map b_last_key bs"
  by (induction bs arbitrary: off) simp_all

lemma blocks_ends:
  assumes ok: "blocks_ok bs" and rs: "table_records bs = rs" and ne: "rs \<noteq> []"
  shows "bs \<noteq> []" "b_first_key (hd bs) = mr_key (hd rs)" "b_last_key (last bs) = mr_key (last rs)"
proof -
  have okb: "\<forall>b \<in> set bs. block_ok b" using ok by (simp add: blocks_ok_def)
  show bs: "bs \<noteq> []" using rs ne by (auto simp: table_records_def)
  obtain b cs where b: "bs = b # cs" using bs by (cases bs) auto
  with okb have "block_records b \<noteq> []" "b_first_key b = mr_key (hd (block_records b))"
    by (auto simp: block_records_def elim!: block_okE)
  moreover have "rs = block_records b @ table_records cs" using rs b by (simp add: table_records_def)
  ultimately show "b_first_key (hd bs) = mr_key (hd rs)" using b by simp
  obtain b cs where b: "bs = cs @ [b]" using bs by (cases bs rule: rev_cases) auto
  with okb have "block_records b \<noteq> []" "b_last_key b = mr_key (last (block_records b))"
    by (auto simp: block_records_def elim!: block_okE)
  moreover have "rs = table_records cs @ block_records b" using rs b by (simp add: table_records_def)
  ultimately show "b_last_key (last bs) = mr_key (last rs)" using b by simp
qed

lemma range_from_table_index:
  assumes ok: "table_ok crc api t" and rs: "table_records (sc_blocks t) = rs" and ne: "rs \<noteq> []"
  shows "range_from_index (table_index crc t) = Some (mr_key (hd rs), mr_key (last rs))"
proof -
  have "blocks_ok (sc_blocks t)" using ok by (simp add: table_ok_def)
  note e = blocks_ends [OF this rs ne]
  have keys: "map si_first_key (table_index crc t) = map b_first_key (sc_blocks t)"
    "map si_last_key (table_index crc t) = map b_last_key (sc_blocks t)"
    by (simp_all add: table_index_def block_index_keys)
  then have i: "table_index crc t \<noteq> []" using e(1) by (metis map_is_Nil_conv)
  have "si_first_key (hd (table_index crc t)) = b_first_key (hd (sc_blocks t))"
    "si_last_key (last (table_index crc t)) = b_last_key (last (sc_blocks t))"
    using keys i e(1) by (metis list.map_sel(1), metis last_map)
  with e i show ?thesis by (simp add: range_from_index_def)
qed

lemma table_range_Inr:
  assumes holds: "table_holds crc api (file_contents fs) meta rs"
    and r: "table_range crc api env fs meta = Inr rng"
  shows "rng = (mr_key (hd rs), mr_key (last rs))"
proof -
  obtain t where t: "table_ok crc api t" "fs (sm_path meta) = Some (table_file crc api t)"
    "table_records (sc_blocks t) = rs" and ne: "rs \<noteq> []"
    and m: "sm_smallest_key meta = mr_key (hd rs)" "sm_largest_key meta = mr_key (last rs)"
    using holds by (auto simp: table_holds_def file_contents_def split: option.splits)
  show ?thesis
  proof (cases "sm_smallest_key meta \<noteq> [] \<and> sm_largest_key meta \<noteq> []")
    case True
    with r m show ?thesis by (auto simp: table_range_def compute_meta_range_def rbind_eq_Inr)
  next
    case False
    with r obtain c where c: "open_path (ce_faults env) fs (sm_path meta) = Inr c"
      "rbind (deserialize_sections crc api c) (\<lambda>(_, index, _). Inr (range_from_index index)) = Inr (Some rng)"
      by (auto simp: table_range_def compute_meta_range_def rbind_eq_Inr split: option.splits if_splits)
    then have "c = table_file crc api t" using open_path_Inr t(2) by fastforce
    with c(2) deserialize_sections_file [OF t(1)] range_from_table_index [OF t(1,3) ne] show ?thesis by simp
  qed
qed

lemma table_range_covers:
  assumes "table_holds crc api (file_contents fs) meta rs" and "table_range crc api env fs meta = Inr rng"
  shows "covers rng rs" "fst rng \<le> snd rng"
    "\<exists>r \<in> set rs. mr_key r = fst rng" "\<exists>r \<in> set rs. mr_key r = snd rng"
proof -
  have rng: "rng = (mr_key (hd rs), mr_key (last rs))" by (rule table_range_Inr [OF assms])
  have srt: "sorted_wrt (<) (map mr_key rs)" and ne: "rs \<noteq> []"
    using table_holds_sorted [OF assms(1)] assms(1) by (auto simp: table_holds_def)
  show "covers rng rs" using sorted_key_range [OF srt] by (simp add: covers_def rng)
  show "fst rng \<le> snd rng" using sorted_key_range(1) [OF srt, of "last rs"] ne by (simp add: rng)
  show "\<exists>r \<in> set rs. mr_key r = fst rng" "\<exists>r \<in> set rs. mr_key r = snd rng" using ne by (auto simp: rng)
qed

lemma covers_widen:
  "covers (a, b) rs \<Longrightarrow> covers (min a c, max b d) rs" "covers (c, d) rs \<Longrightarrow> covers (min a c, max b d) rs"
  by (auto simp: covers_def min_le_iff_disj le_max_iff_disj)

section \<open>The first inputs\<close>

lemma initial_candidates_prefix:
  assumes "initial_candidates len level target metas cands b = Inr cands'"
  shows "\<exists>n. cands' = cands @ take n metas \<and> (cands = [] \<longrightarrow> metas \<noteq> [] \<longrightarrow> 0 < n)"
  using assms
proof (induction metas arbitrary: cands b)
  case (Cons meta metas)
  show ?case
  proof (cases "cands \<noteq> [] \<and> (level \<noteq> 0 \<or> b \<ge> target)")
    case True
    with Cons.prems show ?thesis by (intro exI [of _ 0]) auto
  next
    case False
    with Cons.prems obtain m where
      "initial_candidates len level target metas (cands @ [meta]) (saturating_add b m) = Inr cands'"
      by (auto simp: rbind_eq_Inr split: if_splits)
    with Cons.IH obtain n where "cands' = (cands @ [meta]) @ take n metas" by blast
    then show ?thesis by (intro exI [of _ "Suc n"]) simp
  qed
qed simp

lemma level_range_covers:
  assumes "level_range_loop crc api env fs metas rng = Inr (Some sel)"
    and "\<forall>m \<in> set metas. table_holds crc api (file_contents fs) m (recs m)"
    and "\<forall>m \<in> S. \<exists>r. rng = Some r \<and> covers r (recs m)"
  shows "\<forall>m \<in> S \<union> set metas. covers sel (recs m)"
  using assms
proof (induction metas arbitrary: rng S)
  case (Cons meta metas)
  from Cons.prems(1) obtain r where r: "compute_meta_range crc api env fs meta = Inr r"
    "level_range_loop crc api env fs metas (case r of None \<Rightarrow> rng | Some kr \<Rightarrow> Some (widen_range rng kr)) = Inr (Some sel)"
    by (auto simp: rbind_eq_Inr)
  have th: "table_holds crc api (file_contents fs) meta (recs meta)" using Cons.prems(2) by simp
  have "r \<noteq> None"
  proof
    assume "r = None"
    with r(1) th range_from_table_index deserialize_sections_file open_path_Inr show False
      by (fastforce simp: compute_meta_range_def rbind_eq_Inr table_holds_def file_contents_def
          split: option.splits if_splits)
  qed
  then obtain kr where kr: "r = Some kr" by blast
  with r(1) have tr: "table_range crc api env fs meta = Inr kr" by (simp add: table_range_def)
  have "\<forall>m \<in> insert meta S. \<exists>r'. Some (widen_range rng kr) = Some r' \<and> covers r' (recs m)"
  proof
    fix m assume m: "m \<in> insert meta S"
    have new: "covers kr (recs meta)" by (rule table_range_covers(1) [OF th tr])
    obtain c d where kr': "kr = (c, d)" by (cases kr)
    show "\<exists>r'. Some (widen_range rng kr) = Some r' \<and> covers r' (recs m)"
    proof (cases rng)
      case None
      with m new Cons.prems(3) show ?thesis by auto
    next
      case (Some r0)
      obtain a b where r0: "r0 = (a, b)" by (cases r0)
      have "covers (a, b) (recs m) \<or> covers (c, d) (recs m)"
        using m new Cons.prems(3) Some r0 kr' by auto
      with covers_widen show ?thesis by (auto simp: Some r0 kr')
    qed
  qed
  then show ?case using Cons.IH [OF r(2) [unfolded kr option.case], of "insert meta S"] Cons.prems(2) by simp
qed auto

section \<open>Closing the overlaps\<close>

lemma close_round_covers:
  assumes "close_round range_of files cands sel = Inr (cands', sel')"
    and "\<forall>m \<in> set cands. covers sel (recs m)"
    and "\<forall>m \<in> set files. \<forall>rng. range_of m = Inr rng \<longrightarrow> covers rng (recs m)"
  shows "\<forall>m \<in> set cands'. covers sel' (recs m)"
  using assms
proof (induction range_of files cands sel rule: close_round.induct)
  case (2 range_of candidate candidates cands sel)
  show ?case
  proof (cases "list_ex (\<lambda>meta. sm_file_id meta = sm_file_id candidate) cands")
    case True
    with 2 show ?thesis by simp
  next
    case False
    from 2(4) False obtain rng where rng: "range_of candidate = Inr rng" by (auto simp: rbind_eq_Inr)
    show ?thesis
    proof (cases "key_ranges_overlap sel rng")
      case True
      have "covers (min (fst sel) (fst rng), max (snd sel) (snd rng)) (recs m)"
        if "m \<in> set (cands @ [candidate])" for m
        using that 2(5,6) rng by (cases sel; cases rng) (auto intro: covers_widen)
      with 2(2) [OF False True] 2(4,6) False True rng show ?thesis by simp
    next
      case no: False
      with 2(3) [OF False no] 2(4-6) False rng show ?thesis by simp
    qed
  qed
qed simp

lemma close_round_distinct:
  assumes "close_round range_of files cands sel = Inr (cands', sel')" and "distinct (map sm_file_id cands)"
  shows "distinct (map sm_file_id cands')"
  using assms
proof (induction range_of files cands sel rule: close_round.induct)
  case (2 range_of candidate candidates cands sel)
  show ?case
  proof (cases "list_ex (\<lambda>meta. sm_file_id meta = sm_file_id candidate) cands")
    case True
    with 2 show ?thesis by simp
  next
    case False
    then have d: "distinct (map sm_file_id (cands @ [candidate]))" using 2(5) by (auto simp: list_ex_iff)
    from 2(4) False obtain rng where rng: "range_of candidate = Inr rng" by (auto simp: rbind_eq_Inr)
    with 2(2,3) [OF False, of rng] 2(4,5) False d show ?thesis by (auto split: if_splits)
  qed
qed simp

lemma close_round_stable:
  assumes "close_round range_of files cands sel = Inr (cands', sel')" and "length cands' = length cands"
  shows "cands' = cands \<and> sel' = sel
    \<and> (\<forall>f \<in> set files. sm_file_id f \<in> sm_file_id ` set cands
         \<or> (\<exists>rng. range_of f = Inr rng \<and> \<not> key_ranges_overlap sel rng))"
  using assms
proof (induction range_of files cands sel rule: close_round.induct)
  case (2 range_of candidate candidates cands sel)
  show ?case
  proof (cases "list_ex (\<lambda>meta. sm_file_id meta = sm_file_id candidate) cands")
    case True
    then have "sm_file_id candidate \<in> sm_file_id ` set cands" by (metis (mono_tags) image_eqI list_ex_iff)
    with True 2 show ?thesis by simp
  next
    case False
    from 2(4) False obtain rng where rng: "range_of candidate = Inr rng" by (auto simp: rbind_eq_Inr)
    show ?thesis
    proof (cases "key_ranges_overlap sel rng")
      case True
      with 2(4) False rng have "close_round range_of candidates (cands @ [candidate])
          (min (fst sel) (fst rng), max (snd sel) (snd rng)) = Inr (cands', sel')" by simp
      from close_round_grows [OF this] 2(5) show ?thesis by auto
    next
      case no: False
      with 2(3) [OF False no] 2(4,5) False rng show ?thesis by (cases rng) auto
    qed
  qed
qed simp

lemma close_overlaps_ok:
  assumes "close_overlaps range_of files cands sel = Inr (cands', sel')"
    and "\<forall>m \<in> set cands. covers sel (recs m)" and "distinct (map sm_file_id cands)"
    and "\<forall>m \<in> set files. \<forall>rng. range_of m = Inr rng \<longrightarrow> covers rng (recs m)"
  shows "set cands \<subseteq> set cands' \<and> set cands' \<subseteq> set cands \<union> set files \<and> distinct (map sm_file_id cands')
    \<and> (\<forall>m \<in> set cands'. covers sel' (recs m))
    \<and> (\<forall>f \<in> set files. sm_file_id f \<in> sm_file_id ` set cands'
         \<or> (\<exists>rng. range_of f = Inr rng \<and> \<not> key_ranges_overlap sel' rng))"
  using assms
proof (induction range_of files cands sel rule: close_overlaps.induct)
  case (1 range_of files cands sel)
  obtain c s where r: "close_round range_of files cands sel = Inr (c, s)"
    using 1(2) by (auto simp: close_overlaps.simps [of range_of files cands sel] split: sum.splits)
  note inv = close_round_covers [OF r 1(3,5)] close_round_distinct [OF r 1(4)]
  show ?case
  proof (cases "length c = length cands")
    case True
    with r 1(2) have "cands' = c" "sel' = s" by (simp_all add: close_overlaps.simps [of range_of files cands sel])
    with close_round_stable [OF r True] 1(3,4) show ?thesis by auto
  next
    case False
    with r 1(2) have rec: "close_overlaps range_of files c s = Inr (cands', sel')"
      by (simp add: close_overlaps.simps [of range_of files cands sel])
    from close_round_grows [OF r] have "set cands \<subseteq> set c" "set c \<subseteq> set cands \<union> set files" by auto
    with 1(1) [OF r refl False rec inv(1,2) 1(5)] show ?thesis by blast
  qed
qed

section \<open>The selection\<close>

lemma map_of_snapshot_levels: "map_of (snapshot_levels ls) l = map_option bt_values (map_of ls l)"
  by (induction ls) (auto simp: snapshot_levels_def)

lemma snapshot_level_files:
  assumes ok: "manifest_ok ls"
  shows "m \<in> set (case map_of (snapshot_levels ls) l of None \<Rightarrow> [] | Some files \<Rightarrow> files)
    \<longleftrightarrow> m \<in> live ls \<and> sm_level m = l"
proof -
  have iff: "map_of ls l = Some files \<longleftrightarrow> (l, files) \<in> set ls" for files
    using ok bt_ok_in_set [of ls l files] by (auto simp: manifest_ok_def)
  show ?thesis
  proof (cases "map_of ls l")
    case None
    then have "(l, files) \<notin> set ls" for files using iff by simp
    with None show ?thesis using level_of [OF ok] by (auto simp: map_of_snapshot_levels)
  next
    case (Some files)
    then have f: "(l, files) \<in> set ls" using iff by simp
    show ?thesis
      using Some in_level [OF ok f] level_of [OF ok, of m] level_unique [OF ok f]
      by (auto simp: map_of_snapshot_levels)
  qed
qed

definition inputs_ok ::
  "(sstable_meta \<Rightarrow> memtable_record list) \<Rightarrow> levels \<Rightarrow> u32 \<Rightarrow> sstable_meta list \<Rightarrow> bool" where
  "inputs_ok recs ls level inputs \<longleftrightarrow>
     set inputs \<subseteq> live ls \<and> distinct (map sm_file_id inputs)
     \<and> (\<forall>m \<in> set inputs. sm_level m = level \<or> sm_level m = level + 1)
     \<and> (\<exists>m \<in> set inputs. sm_level m = level)
     \<and> (\<forall>m \<in> live ls - set inputs. sm_level m = level \<or> sm_level m = level + 1 \<longrightarrow>
          (\<forall>m0 \<in> set inputs. keys_apart recs m m0))"

lemma select_inputs_ok:
  assumes ok: "manifest_ok ls" and th: "\<forall>m \<in> live ls. table_holds crc api (file_contents fs) m (recs m)"
    and snap: "sn_levels snap = snapshot_levels ls"
    and sel: "select_inputs crc api env config level snap fs = Inr (current, inputs)"
  shows "level \<noteq> - 1 \<and> current \<noteq> [] \<and> inputs_ok recs ls level inputs"
proof -
  let ?next = "case map_of (snapshot_levels ls) (level + 1) of None \<Rightarrow> [] | Some files \<Rightarrow> files"
  let ?ro = "table_range crc api env fs"
  obtain metas cands rng sel' where m: "map_of (snapshot_levels ls) level = Some metas"
    and cur: "current = sort_key sm_file_id metas" and lv: "level \<noteq> - 1"
    and ini: "initial_candidates (metadata_len (ce_faults env) fs) level (target_sstable_bytes config) current [] 0 = Inr cands"
    and rng: "compute_level_range crc api env fs cands = Inr (Some rng)"
    and close: "close_overlaps ?ro (current @ ?next) cands rng = Inr (inputs, sel')"
    using sel by (auto simp: select_inputs_def snap Let_def rbind_eq_Inr split: option.splits if_splits)
  have set_cur: "x \<in> set current \<longleftrightarrow> x \<in> live ls \<and> sm_level x = level" for x
    using snapshot_level_files [OF ok, of x level] m cur by simp
  have set_next: "x \<in> set ?next \<longleftrightarrow> x \<in> live ls \<and> sm_level x = level + 1" for x
    by (rule snapshot_level_files [OF ok])
  from initial_candidates_prefix [OF ini] obtain n where n: "cands = take n current" by auto
  have cands_ne: "cands \<noteq> []" using rng by (auto simp: compute_level_range_def)
  have cands_sub: "set cands \<subseteq> set current" using n by (simp add: set_take_subset)
  have inj: "inj_on sm_file_id (live ls)" using ok by (simp add: manifest_ok_def)
  obtain files where files: "(level, files) \<in> set ls" "metas = bt_values files"
    using m ok bt_ok_in_set [of ls level] by (auto simp: map_of_snapshot_levels manifest_ok_def)
  have "distinct current" using level_distinct [OF ok files(1)] files(2) cur by simp
  then have dist: "distinct (map sm_file_id cands)"
    using n set_cur cands_sub inj by (auto simp: distinct_map intro: inj_on_subset)
  have cov: "\<forall>m \<in> set cands. covers rng (recs m)"
    using level_range_covers [of crc api env fs cands None rng recs "{}"] rng th cands_sub set_cur
    by (auto simp: compute_level_range_def)
  have ro: "\<forall>m \<in> set (current @ ?next). \<forall>r. ?ro m = Inr r \<longrightarrow> covers r (recs m)"
    using table_range_covers(1) th set_cur set_next by (metis Un_iff set_append)
  note fin = close_overlaps_ok [OF close cov dist ro]
  have sub: "x \<in> live ls \<and> (sm_level x = level \<or> sm_level x = level + 1)" if "x \<in> set inputs" for x
    using fin that cands_sub set_cur set_next by fastforce
  have "keys_apart recs x m0"
    if x: "x \<in> live ls - set inputs" "sm_level x = level \<or> sm_level x = level + 1" and m0: "m0 \<in> set inputs" for x m0
  proof -
    have "x \<in> set (current @ ?next)" using x set_cur set_next by auto
    moreover have "sm_file_id x \<notin> sm_file_id ` set inputs"
      using x sub inj by (auto simp: inj_on_def)
    ultimately obtain r where r: "?ro x = Inr r" "\<not> key_ranges_overlap sel' r" using fin by blast
    have "covers r (recs x)" "covers sel' (recs m0)" using ro \<open>x \<in> set (current @ ?next)\<close> r(1) fin m0 by blast+
    with r(2) show ?thesis
      by (fastforce simp: keys_apart_def covers_def key_ranges_overlap_def intro: order_trans)
  qed
  moreover have "\<exists>m \<in> set inputs. sm_level m = level"
    using cands_ne cands_sub set_cur fin by (metis list.set_intros(1) neq_Nil_conv subsetD)
  ultimately show ?thesis
    using lv sub fin cands_ne cands_sub unfolding inputs_ok_def by auto
qed

end
