(* ===== verification/Compaction_Merge.thy ===== *)
theory Compaction_Merge
  imports Compaction_Select
begin

text \<open>
  The merge of a compaction (\<open>merge_files_with_reclamation\<close> and \<open>partition_output\<close> of
  \<open>src/storage/compactionmanager/compaction.rs\<close>): the output tables together hold, in key order, the
  newest version of every key of the inputs, except the deletions that no other table needs.
\<close>

section \<open>Reading the inputs\<close>

lemma read_table_Inr:
  assumes holds: "table_holds crc api (file_contents fs) meta rs" and r: "read_table crc api env fs meta = Inr t"
  shows "table_records (sc_blocks t) = rs"
proof -
  obtain u where u: "table_ok crc api u" "fs (sm_path meta) = Some (table_file crc api u)"
    "table_records (sc_blocks u) = rs"
    using holds by (auto simp: table_holds_def file_contents_def split: option.splits)
  from r obtain c where c: "open_path (ce_faults env) fs (sm_path meta) = Inr c"
    "rbind (deserialize_sections crc api c) (\<lambda>(footer, index, bloom).
       rbind (get_all_blocks crc c footer index) (\<lambda>bs. Inr \<lparr>sc_blocks = bs, sc_index = index, sc_bloom = bloom\<rparr>)) = Inr t"
    by (auto simp: read_table_def rbind_eq_Inr)
  then have "c = table_file crc api u" using open_path_Inr u(2) by fastforce
  with c(2) deserialize_sections_file [OF u(1)] get_blocks_file [OF u(1)]
  have "sc_blocks t = map (\<lambda>b. b\<lparr>b_offset := 0\<rparr>) (sc_blocks u)" by auto
  with u(3) show ?thesis by (simp add: table_records_def comp_def)
qed

lemma read_tables_Inr:
  assumes "read_tables crc api env fs metas = Inr ts"
    and "\<forall>m \<in> set metas. table_holds crc api (file_contents fs) m (recs m)"
  shows "concat (map (\<lambda>t. table_records (sc_blocks t)) ts) = all_records recs metas"
  using assms
  by (induction metas arbitrary: ts) (auto simp: rbind_eq_Inr all_records_def read_table_Inr)

section \<open>Merging\<close>

lemma record_versions_simps [simp]:
  "record_versions [] = []" "record_versions (r # rs) = (mr_key r, r) # record_versions rs"
  "record_versions (rs @ ss) = record_versions rs @ record_versions ss"
  by (simp_all add: record_versions_def)

lemma merge_blocks_eq:
  "merge_blocks blocks m = merge_records choose_winner (record_versions (table_records blocks)) m"
  by (induction blocks arbitrary: m)
    (auto simp: table_records_def block_records_def merge_records_append record_versions_def split: option.split)

lemma merge_tables_Inr:
  "merge_tables env i ts m = Inr m' \<Longrightarrow>
     m' = merge_records choose_winner (record_versions (concat (map (\<lambda>t. table_records (sc_blocks t)) ts))) m"
  by (induction ts arbitrary: i m) (auto simp: rbind_eq_Inr merge_blocks_eq merge_records_append)

text \<open>\<open>winners rs\<close>: what merging the versions \<open>rs\<close> leaves.\<close>

definition winners :: "memtable_record list \<Rightarrow> memtable_record list" where
  "winners rs = bt_values (merge_records choose_winner (record_versions rs) [])"

lemma winners_ok:
  shows "sorted_wrt (<) (map mr_key (winners rs))" and "set (winners rs) \<subseteq> set rs"
    and "\<forall>w \<in> set (winners rs). \<forall>r \<in> set rs. mr_key r = mr_key w \<longrightarrow> mr_lsn r \<le> mr_lsn w"
    and "\<forall>r \<in> set rs. \<exists>w \<in> set (winners rs). mr_key w = mr_key r"
proof -
  let ?m = "merge_records choose_winner (record_versions rs) []"
  have bt: "bt_ok ?m" by simp
  have hn: "holds_newest ?m (set (record_versions rs))" by (rule compaction_newest.merged_from_empty)
  have new: "newest (set (record_versions rs)) k r" if "(k, r) \<in> set ?m" for k r
    using that hn bt_ok_in_set [OF bt] by (simp add: holds_newest_def)
  have ver: "(k, r) \<in> set (record_versions rs) \<longleftrightarrow> r \<in> set rs \<and> mr_key r = k" for k r
    by (auto simp: record_versions_def)
  have "mr_key r = k" if "(k, r) \<in> set ?m" for k r using new [OF that] ver by (simp add: newest_def)
  then have keys: "map mr_key (winners rs) = map fst ?m" by (auto simp: winners_def bt_values_def)
  then show "sorted_wrt (<) (map mr_key (winners rs))" using bt by (simp add: bt_ok_def)
  have w: "\<exists>k. (k, w) \<in> set ?m" if "w \<in> set (winners rs)" for w
    using that by (auto simp: winners_def bt_values_def)
  show "set (winners rs) \<subseteq> set rs"
  proof
    fix w assume "w \<in> set (winners rs)"
    then obtain k where "(k, w) \<in> set ?m" using w by blast
    then show "w \<in> set rs" using new [of k w] ver by (auto simp: newest_def)
  qed
  show "\<forall>w \<in> set (winners rs). \<forall>r \<in> set rs. mr_key r = mr_key w \<longrightarrow> mr_lsn r \<le> mr_lsn w"
  proof (intro ballI impI)
    fix w r assume wr: "w \<in> set (winners rs)" "r \<in> set rs" "mr_key r = mr_key w"
    then obtain k where k: "(k, w) \<in> set ?m" using w by blast
    then have n: "newest (set (record_versions rs)) k w" by (rule new)
    then have "mr_key w = k" using ver by (simp add: newest_def)
    with n wr ver show "mr_lsn r \<le> mr_lsn w" by (auto simp: newest_def)
  qed
  show "\<forall>r \<in> set rs. \<exists>w \<in> set (winners rs). mr_key w = mr_key r"
  proof
    fix r assume "r \<in> set rs"
    then have "(mr_key r, r) \<in> set (record_versions rs)" using ver by blast
    then have "map_of ?m (mr_key r) \<noteq> None" using hn by (auto simp: holds_newest_def)
    then have "mr_key r \<in> set (map fst ?m)" by (metis map_of_eq_None list.set_map)
    then have "mr_key r \<in> set (map mr_key (winners rs))" by (simp only: keys)
    then show "\<exists>w \<in> set (winners rs). mr_key w = mr_key r" by auto
  qed
qed

section \<open>Packing\<close>

lemma flush_winners_Inr:
  "flush_winners crc api rs st = Inr st' \<Longrightarrow>
     roll_records crc rs (fst st) = Inr (fst st') \<and> snd st' = bloom_insert_all api (map mr_key rs) (snd st)"
  by (induction rs arbitrary: st) (fastforce simp: rbind_eq_Inr flush_winner_def Let_def)+

lemma emit_winners_Inr:
  "emit_winners crc api env prot ws st = Inr st' \<Longrightarrow>
     flush_winners crc api (filter (\<lambda>w. \<not> reclaimed prot w) ws) st = Inr st'"
  by (induction ws arbitrary: st) (auto simp: rbind_eq_Inr split: if_splits)

lemma finish_pack:
  "roll_records crc rs (BlockBuilder_new 0, []) = Inr st \<Longrightarrow> finish_blocks st = Inr blocks \<Longrightarrow>
     pack_blocks crc rs = Inr blocks"
  by (cases st; cases "build (fst st)") (auto simp: pack_blocks_def finish_blocks_def split: option.split)

lemma build_output_Inr:
  assumes "build_output crc api config rs = Inr t"
  shows "pack_blocks crc rs = Inr (sc_blocks t)"
    and "sc_bloom t = bloom_insert_all api (map mr_key rs)
           (bloom_with_rate api (length rs) (bloom_false_positive_rate config))"
proof -
  obtain st bl where f: "flush_winners crc api rs ((BlockBuilder_new 0, []),
      bloom_with_rate api (length rs) (bloom_false_positive_rate config)) = Inr (st, bl)"
    and t: "finish_blocks st = Inr (sc_blocks t)" "sc_bloom t = bl"
    using assms by (auto simp: build_output_def rbind_eq_Inr SSTableCodec_new_def)
  from flush_winners_Inr [OF f] show "pack_blocks crc rs = Inr (sc_blocks t)"
    "sc_bloom t = bloom_insert_all api (map mr_key rs)
       (bloom_with_rate api (length rs) (bloom_false_positive_rate config))"
    using finish_pack t by simp_all
qed

lemma merge_files_Inr:
  assumes "merge_files_with_reclamation crc api env config ts prot = Inr t"
    and "concat (map (\<lambda>t. table_records (sc_blocks t)) ts) = rs"
  shows "pack_blocks crc (filter (\<lambda>w. \<not> reclaimed prot w) (winners rs)) = Inr (sc_blocks t)"
proof -
  obtain m st bl where m: "merge_tables env 0 ts [] = Inr m"
    and e: "emit_winners crc api env prot (bt_values m) ((BlockBuilder_new 0, []),
       bloom_with_rate api 1000000 (bloom_false_positive_rate config)) = Inr (st, bl)"
    and t: "finish_blocks st = Inr (sc_blocks t)"
    using assms(1) by (auto simp: merge_files_with_reclamation_def rbind_eq_Inr)
  have "bt_values m = winners rs" using merge_tables_Inr [OF m] assms(2) by (simp add: winners_def)
  with flush_winners_Inr [OF emit_winners_Inr [OF e]] finish_pack [OF _ t] show ?thesis by simp
qed

section \<open>Partition\<close>

lemma partition_loop_Inr:
  assumes "partition_loop crc api config rs acc bytes outputs = Inr outs"
  shows "\<exists>ts chunks. outs = outputs @ ts \<and> concat chunks = acc @ rs
    \<and> list_all2 (\<lambda>chunk t. chunk \<noteq> [] \<and> build_output crc api config chunk = Inr t) chunks ts"
  using assms
proof (induction rs arbitrary: acc bytes outputs)
  case Nil
  show ?case
  proof (cases "acc = []")
    case True
    with Nil show ?thesis by (intro exI [of _ "[]"]) simp
  next
    case False
    with Nil obtain t where "build_output crc api config acc = Inr t" "outs = outputs @ [t]"
      by (auto simp: rbind_eq_Inr)
    with False show ?thesis by (intro exI [of _ "[t]"] exI [of _ "[acc]"]) simp
  qed
next
  case (Cons r rs)
  let ?n = "of_nat (record_length r (mr_key r)) :: u64"
  show ?case
  proof (cases "acc \<noteq> [] \<and> saturating_add bytes ?n > target_sstable_bytes config")
    case True
    with Cons.prems obtain t where t: "build_output crc api config acc = Inr t"
      "partition_loop crc api config rs [r] (saturating_add 0 ?n) (outputs @ [t]) = Inr outs"
      by (auto simp: rbind_eq_Inr Let_def)
    from Cons.IH [OF t(2)] obtain ts chunks where "outs = (outputs @ [t]) @ ts" "concat chunks = [r] @ rs"
      "list_all2 (\<lambda>chunk t. chunk \<noteq> [] \<and> build_output crc api config chunk = Inr t) chunks ts"
      by blast
    with True t(1) show ?thesis by (intro exI [of _ "t # ts"] exI [of _ "acc # chunks"]) simp
  next
    case False
    with Cons.prems have "partition_loop crc api config rs (acc @ [r]) (saturating_add bytes ?n) outputs = Inr outs"
      by (auto simp: Let_def)
    from Cons.IH [OF this] show ?thesis by simp
  qed
qed

text \<open>The size of a table's records: what the block offsets can address.\<close>

definition records_fit :: "memtable_record list \<Rightarrow> bool" where
  "records_fit rs \<longleftrightarrow> (\<forall>r \<in> set rs. rec_len r < 2 ^ 32) \<and> 5 * recs_len rs < 2 ^ 64"

text \<open>The same for the versions of a whole store, counting a version that two tables share once.\<close>

definition versions_fit :: "memtable_record set \<Rightarrow> bool" where
  "versions_fit R \<longleftrightarrow> finite R \<and> (\<forall>r \<in> R. rec_len r < 2 ^ 32) \<and> 5 * sum rec_len R < 2 ^ 64"

lemma versions_fit_mono:
  assumes "versions_fit R" and "S \<subseteq> R"
  shows "versions_fit S"
proof -
  have "sum rec_len S \<le> sum rec_len R" using assms by (intro sum_mono2) (auto simp: versions_fit_def)
  with assms show ?thesis by (auto simp: versions_fit_def intro: finite_subset)
qed

lemma versions_fit_list:
  assumes "versions_fit R" and "distinct ss" and "set ss \<subseteq> R"
  shows "records_fit ss"
proof -
  have "recs_len ss = sum rec_len (set ss)" using assms(2) by (simp add: recs_len_def sum_list_distinct_conv_sum_set)
  with versions_fit_mono [OF assms(1,3)] show ?thesis by (simp add: records_fit_def versions_fit_def)
qed

lemma pack_blocks_records:
  assumes "pack_blocks crc rs = Inr blocks" and "sorted_wrt (<) (map mr_key rs)" and "records_fit rs"
  shows "table_records blocks = rs" "blocks_ok blocks"
proof -
  have ne: "map mr_key rs \<noteq> [[]]" by (rule pack_blocks_not_lone [OF assms(1)])
  have fit: "\<forall>r \<in> set rs. rec_len r < 2 ^ 32" "5 * recs_len rs < 2 ^ 64"
    using assms(3) by (auto simp: records_fit_def)
  from pack_blocks_ok [OF assms(2) fit ne, of crc] assms(1)
  have c: "concat (map block_records blocks) = rs" "\<forall>b \<in> set blocks. block_ok b" by auto
  then show "table_records blocks = rs" by (simp add: table_records_def)
  show "blocks_ok blocks" using c assms(2) by (intro blocks_ok_packed) auto
qed

text \<open>What the output tables of a compaction of the versions \<open>rs\<close> hold.\<close>

definition merged_records :: "(bytes \<times> bytes) list \<Rightarrow> memtable_record list \<Rightarrow> memtable_record list" where
  "merged_records prot rs = filter (\<lambda>w. \<not> reclaimed (Some prot) w) (winners rs)"

lemma merged_records_sorted: "sorted_wrt (<) (map mr_key (merged_records prot rs))"
proof -
  have "sorted_wrt (\<lambda>a b. mr_key a < mr_key b) (winners rs)"
    using winners_ok(1) [of rs] by (simp add: sorted_wrt_map)
  then show ?thesis by (simp add: merged_records_def sorted_wrt_map sorted_wrt_filter)
qed

lemma merged_records_distinct: "distinct (merged_records prot rs)"
  using merged_records_sorted [of prot rs] by (simp add: strict_sorted_iff distinct_map)

lemma merged_records_subset: "set (merged_records prot rs) \<subseteq> set rs"
  using winners_ok(2) by (auto simp: merged_records_def)

lemma merged_records_length: "length (merged_records prot rs) \<le> length rs"
proof -
  have "length (merged_records prot rs) = card (set (merged_records prot rs))"
    by (simp add: distinct_card merged_records_distinct)
  also have "\<dots> \<le> card (set rs)" by (intro card_mono merged_records_subset) simp
  also have "\<dots> \<le> length rs" by (rule card_length)
  finally show ?thesis .
qed

lemma partition_output_Inr:
  assumes "merge_files_with_reclamation crc api env config ts (Some prot) = Inr t"
    and "concat (map (\<lambda>t. table_records (sc_blocks t)) ts) = rs" and "records_fit (merged_records prot rs)"
    and "partition_output crc api config t = Inr outs"
  shows "\<exists>chunks. concat chunks = merged_records prot rs
    \<and> list_all2 (\<lambda>chunk t. chunk \<noteq> [] \<and> build_output crc api config chunk = Inr t) chunks outs"
proof -
  have "pack_blocks crc (merged_records prot rs) = Inr (sc_blocks t)"
    using merge_files_Inr [OF assms(1,2)] by (simp add: merged_records_def)
  then have "table_records (sc_blocks t) = merged_records prot rs"
    by (rule pack_blocks_records(1) [OF _ merged_records_sorted assms(3)])
  then have "partition_loop crc api config (merged_records prot rs) [] 0 [] = Inr outs"
    using assms(4) by (simp add: partition_output_def table_records_def block_records_def [abs_def])
  from partition_loop_Inr [OF this] show ?thesis by auto
qed

section \<open>Protected ranges\<close>

lemma protect_ranges_Inr:
  assumes "protect_ranges crc api env fs cands metas = Inr prot"
    and "\<forall>m \<in> set metas. table_holds crc api (file_contents fs) m (recs m)"
    and "m \<in> set metas" and "sm_file_id m \<notin> sm_file_id ` set cands"
  shows "\<exists>rng \<in> set prot. covers rng (recs m)"
  using assms
proof (induction metas arbitrary: prot)
  case (Cons meta metas)
  show ?case
  proof (cases "list_ex (\<lambda>input. sm_file_id input = sm_file_id meta) cands")
    case True
    then have "m \<noteq> meta" using Cons.prems(4) by (metis (mono_tags) image_eqI list_ex_iff)
    with True Cons show ?thesis by simp
  next
    case False
    with Cons.prems(1) obtain rng rngs where r: "table_range crc api env fs meta = Inr rng"
      "protect_ranges crc api env fs cands metas = Inr rngs" "prot = rng # rngs"
      by (auto simp: rbind_eq_Inr)
    show ?thesis
    proof (cases "m = meta")
      case True
      with table_range_covers(1) [OF _ r(1)] Cons.prems(2) r(3) show ?thesis by auto
    next
      case ne: False
      with Cons.IH [OF r(2)] Cons.prems r(3) show ?thesis by auto
    qed
  qed
qed simp

lemma reclaimed_unprotected:
  assumes "reclaimed (Some prot) w" and "rng \<in> set prot" and "covers rng rs" and "r \<in> set rs"
  shows "mr_key r \<noteq> mr_key w"
  using assms by (fastforce simp: reclaimed_def covers_def list_ex_iff split: prod.splits)

end
