(* ===== verification/Compaction_Correct.thy ===== *)
theory Compaction_Correct
  imports Compaction_Merge
begin

text \<open>
  A compaction changes which tables hold the data and not what reads answer; whatever fails on the
  way, the store stays consistent. The loop over the levels ends.
\<close>

section \<open>The invariant of a store\<close>

definition store_inv ::
  "(bytes \<Rightarrow> u32) \<Rightarrow> ('f, f64) bloom_api \<Rightarrow> (sstable_meta \<Rightarrow> memtable_record list) \<Rightarrow> memtable \<Rightarrow>
   bytes manifest_manager \<times> files \<Rightarrow> bool" where
  "store_inv crc api recs mem st \<longleftrightarrow>
     manifest_ok (ms_levels (mm_state (fst st))) \<and> ids_below (mm_state (fst st))
     \<and> reader_ok crc api (file_contents (snd st)) recs (ReadManager_new mem (fst st))"

text \<open>The versions of the store, in the memtable and in the tables.\<close>

definition versions_of ::
  "(sstable_meta \<Rightarrow> memtable_record list) \<Rightarrow> memtable \<Rightarrow> bytes manifest_manager \<times> files \<Rightarrow> memtable_record list" where
  "versions_of recs mem st = reader_records recs (ReadManager_new mem (fst st))"

abbreviation live_of :: "bytes manifest_manager \<times> files \<Rightarrow> sstable_meta set" where
  "live_of st \<equiv> live (ms_levels (mm_state (fst st)))"

lemma sn_levels_snapshot [simp]: "sn_levels (snapshot mm) = snapshot_levels (ms_levels (mm_state mm))"
  by (simp add: snapshot_def snapshot_from_state_def)

lemma set_versions_of:
  "manifest_ok (ms_levels (mm_state (fst st))) \<Longrightarrow>
     set (versions_of recs mem st) = set (mem_records mem) \<union> recs_of recs (live_of st)"
  by (simp add: versions_of_def reader_records_def store_records_def ReadManager_new_def set_all_records_live)

lemma store_inv_iff:
  "store_inv crc api recs mem st \<longleftrightarrow>
     manifest_ok (ms_levels (mm_state (fst st))) \<and> ids_below (mm_state (fst st))
     \<and> (\<forall>m \<in> live_of st. table_holds crc api (file_contents (snd st)) m (recs m))
     \<and> cache_ok (file_contents (snd st)) (fst st)
     \<and> mem_ok mem \<and> live_ok recs (live_of st)
     \<and> (\<forall>m \<in> set (mem_records mem). \<forall>r \<in> recs_of recs (live_of st). mr_key m = mr_key r \<longrightarrow>
          (\<exists>m' \<in> set (mem_records mem). mr_key m' = mr_key r \<and> mr_lsn r \<le> mr_lsn m'))
     \<and> versions_ok (versions_of recs mem st)"
  (is "?L \<longleftrightarrow> ?R")
proof (cases "manifest_ok (ms_levels (mm_state (fst st)))
    \<and> (\<forall>m \<in> live_of st. table_holds crc api (file_contents (snd st)) m (recs m))")
  case True
  then have ok: "manifest_ok (ms_levels (mm_state (fst st)))" by blast
  have "\<forall>m \<in> live_of st. distinct (map mr_key (recs m))"
    using True table_holds_sorted by (metis strict_sorted_iff)
  from levels_ok_live [OF ok this]
  have lv: "levels_ok recs (snapshot_levels (ms_levels (mm_state (fst st)))) \<longleftrightarrow> live_ok recs (live_of st)" .
  show ?thesis
    using True
    by (simp add: store_inv_def reader_ok_def store_ok_def ReadManager_new_def tables_hold_def set_level_files [OF ok]
        lv mem_newest_def set_all_records_live [OF ok] versions_of_def reader_records_def)
next
  case False
  then show ?thesis
    by (auto simp: store_inv_def reader_ok_def ReadManager_new_def tables_hold_def set_level_files)
qed

text \<open>Nothing that was there is gone.\<close>

definition fs_extends :: "files \<Rightarrow> files \<Rightarrow> bool" where
  "fs_extends fs fs' \<longleftrightarrow> (\<forall>p c. fs p = Some c \<longrightarrow> fs' p = Some c)"

lemma fs_extends_refl [simp]: "fs_extends fs fs"
  by (simp add: fs_extends_def)

lemma fs_extends_trans: "fs_extends a b \<Longrightarrow> fs_extends b c \<Longrightarrow> fs_extends a c"
  by (simp add: fs_extends_def)

lemma fs_extends_new: "fs p = None \<Longrightarrow> (\<And>q. q \<noteq> p \<Longrightarrow> fs' q = fs q) \<Longrightarrow> fs_extends fs fs'"
  unfolding fs_extends_def by (metis option.distinct(1))

lemma file_contents_Inr: "file_contents fs p = Inr c \<longleftrightarrow> fs p = Some c"
  by (simp add: file_contents_def split: option.split)

lemma table_holds_mono:
  "table_holds crc api (file_contents fs) m rs \<Longrightarrow> fs' (sm_path m) = fs (sm_path m) \<Longrightarrow>
     table_holds crc api (file_contents fs') m rs"
  by (simp add: table_holds_def file_contents_def)

lemma table_holds_extends:
  "table_holds crc api (file_contents fs) m rs \<Longrightarrow> fs_extends fs fs' \<Longrightarrow>
     table_holds crc api (file_contents fs') m rs"
  by (auto simp: table_holds_def file_contents_def fs_extends_def split: option.splits)

lemma cache_ok_extends:
  "cache_ok (file_contents fs) mm \<Longrightarrow> fs_extends fs fs' \<Longrightarrow> mm_cache mm' = mm_cache mm \<Longrightarrow>
     cache_ok (file_contents fs') mm'"
  by (simp add: cache_ok_def file_contents_Inr fs_extends_def)

text \<open>A step that hands out ids, creates files and leaves the live tables alone.\<close>

lemma store_inv_frame:
  assumes inv: "store_inv crc api recs mem st" and fs: "fs_extends (snd st) (snd st')"
    and lv: "ms_levels (mm_state (fst st')) = ms_levels (mm_state (fst st))"
    and ids: "ms_next_file_id (mm_state (fst st)) \<le> ms_next_file_id (mm_state (fst st'))"
    and cache: "mm_cache (fst st') = mm_cache (fst st)"
  shows "store_inv crc api recs mem st'" "versions_of recs mem st' = versions_of recs mem st"
proof -
  show v: "versions_of recs mem st' = versions_of recs mem st"
    by (simp add: versions_of_def reader_records_def ReadManager_new_def lv)
  have "ids_below (mm_state (fst st'))"
    using inv lv ids by (auto simp: store_inv_def ids_below_def intro: less_le_trans)
  then show "store_inv crc api recs mem st'"
    using inv table_holds_extends [OF _ fs] cache_ok_extends [OF _ fs cache]
    unfolding store_inv_iff v lv by blast
qed

section \<open>Writing the outputs\<close>

lemma write_output_frame:
  assumes "write_compaction_output crc api env src level table (mm, fs) = (r, mm', fs')"
  shows "only_ids mm mm' \<and> fs_extends fs fs'"
proof -
  obtain c mm1 where c: "create_table_file (build_compaction_output_path src level)
      (make_parent (ce_faults env)) (ce_faults env) fs mm = (c, mm1)" by force
  note created = create_table_file_ok [OF c]
  show ?thesis
  proof (cases c)
    case (Inl e)
    with assms c created show ?thesis by (simp add: write_compaction_output_def)
  next
    case (Inr p)
    obtain i path where p: "p = (i, path)" by (cases p)
    have none: "fs path = None" using created Inr p by blast
    obtain enc footer where ser: "serialize crc api table = (enc, footer)" by force
    have "mm' = mm1 \<and> (\<forall>q. q \<noteq> path \<longrightarrow> fs' q = fs q)"
      using assms c Inr p ser
      by (auto simp: write_compaction_output_def write_table_file_def Let_def split: sum.splits if_splits option.splits)
    with created fs_extends_new [of fs path fs'] none show ?thesis by blast
  qed
qed

text \<open>The metadata of an output describes the file written for it.\<close>

definition describes ::
  "(bytes \<Rightarrow> u32) \<Rightarrow> ('f, f64) bloom_api \<Rightarrow> files \<Rightarrow> u32 \<Rightarrow> 'f sstable_codec \<Rightarrow> sstable_meta \<Rightarrow> bool" where
  "describes crc api fs level table meta \<longleftrightarrow>
     sm_level meta = level \<and> fs (sm_path meta) = Some (table_file crc api table)
     \<and> length (table_file crc api table) \<le> isize_max
     \<and> range_from_blocks (sc_blocks table) = Some (sm_smallest_key meta, sm_largest_key meta)"

lemma write_output_Inr:
  assumes "write_compaction_output crc api env src level table (mm, fs) = (Inr meta, mm', fs')"
  shows "describes crc api fs' level table meta \<and> fs (sm_path meta) = None
     \<and> ms_next_file_id (mm_state mm) \<le> sm_file_id meta \<and> sm_file_id meta < ms_next_file_id (mm_state mm')"
proof -
  obtain c mm1 where c: "create_table_file (build_compaction_output_path src level)
      (make_parent (ce_faults env)) (ce_faults env) fs mm = (c, mm1)" by force
  note created = create_table_file_ok [OF c]
  from assms c obtain i path where p: "c = Inr (i, path)"
    by (cases c) (auto simp: write_compaction_output_def)
  have ids: "fs path = None" "ms_next_file_id (mm_state mm) \<le> i" "i < ms_next_file_id (mm_state mm1)"
    using created p by blast+
  obtain enc footer where ser: "serialize crc api table = (enc, footer)" by force
  have small: "length enc \<le> isize_max" using assms c p ser
    by (auto simp: write_compaction_output_def Let_def split: if_splits)
  obtain u fs1 where w: "write_table_file (ce_faults env) path enc (fs(path \<mapsto> [])) = (u, fs1)" by force
  from assms c p ser small w obtain v where v: "u = Inr v" by (cases u) (auto simp: write_compaction_output_def Let_def)
  have fs1: "fs1 path = Some enc" using write_table_file_Inr [OF w [unfolded v]] by simp
  from assms c p ser small w v fs1 ids show ?thesis
    by (auto simp: write_compaction_output_def Let_def describes_def table_file_def rbind_eq_Inr split: option.splits)
qed

lemma write_outputs_frame:
  "write_outputs crc api env src level i ts (mm, fs) = (r, mm', fs') \<Longrightarrow> only_ids mm mm' \<and> fs_extends fs fs'"
proof (induction ts arbitrary: i mm fs r)
  case (Cons t ts)
  show ?case
  proof (cases "check_cancelled env (BeforeOutput i)")
    case (Inl e)
    with Cons.prems show ?thesis by simp
  next
    case (Inr u)
    obtain w mm1 fs1 where w: "write_compaction_output crc api env src level t (mm, fs) = (w, mm1, fs1)"
      by (metis prod.exhaust)
    note f = write_output_frame [OF w]
    show ?thesis
    proof (cases w)
      case (Inl e)
      with w Inr Cons.prems f show ?thesis by simp
    next
      case (Inr m)
      with w \<open>check_cancelled env (BeforeOutput i) = Inr u\<close> Cons.prems
      obtain r' where "write_outputs crc api env src level (Suc i) ts (mm1, fs1) = (r', mm', fs')"
        by (auto split: prod.splits)
      from Cons.IH [OF this] f show ?thesis by (metis only_ids_trans fs_extends_trans)
    qed
  qed
qed simp

lemma describes_extends: "describes crc api fs level t m \<Longrightarrow> fs_extends fs fs' \<Longrightarrow> describes crc api fs' level t m"
  by (simp add: describes_def fs_extends_def)

lemma only_ids_le: "only_ids mm mm' \<Longrightarrow> ms_next_file_id (mm_state mm) \<le> ms_next_file_id (mm_state mm')"
  by (auto simp: only_ids_def)

lemma write_outputs_Inr:
  assumes "write_outputs crc api env src level i ts (mm, fs) = (Inr metas, mm', fs')"
  shows "list_all2 (describes crc api fs' level) ts metas
     \<and> distinct (map sm_file_id metas) \<and> distinct (map sm_path metas)
     \<and> (\<forall>m \<in> set metas. fs (sm_path m) = None \<and> ms_next_file_id (mm_state mm) \<le> sm_file_id m
          \<and> sm_file_id m < ms_next_file_id (mm_state mm'))"
  using assms
proof (induction ts arbitrary: i mm fs metas)
  case (Cons t ts)
  obtain w mm1 fs1 where w: "write_compaction_output crc api env src level t (mm, fs) = (w, mm1, fs1)"
    by (metis prod.exhaust)
  from Cons.prems w obtain meta where m: "w = Inr meta"
    by (auto split: sum.splits)
  from Cons.prems w m obtain ms where ms: "metas = meta # ms"
    and rest: "write_outputs crc api env src level (Suc i) ts (mm1, fs1) = (Inr ms, mm', fs')"
    by (auto simp: rbind_eq_Inr split: sum.splits prod.splits)
  note one = write_output_Inr [OF w [unfolded m]] and f1 = write_output_frame [OF w]
    and f2 = write_outputs_frame [OF rest] and ih = Cons.IH [OF rest]
  have d: "describes crc api fs' level t meta" using one f2 describes_extends by blast
  have path: "fs1 (sm_path meta) \<noteq> None" using one by (auto simp: describes_def)
  have "sm_path m \<noteq> sm_path meta \<and> sm_file_id m \<noteq> sm_file_id meta \<and> fs (sm_path m) = None
      \<and> ms_next_file_id (mm_state mm) \<le> sm_file_id m" if "m \<in> set ms" for m
  proof -
    have m: "fs1 (sm_path m) = None" "ms_next_file_id (mm_state mm1) \<le> sm_file_id m" using ih that by blast+
    have "sm_file_id meta < sm_file_id m" using one m(2) by (blast intro: less_le_trans)
    moreover have "fs (sm_path m) = None" using f1 m(1) by (auto simp: fs_extends_def split: option.split)
        (metis not_None_eq)
    moreover have "ms_next_file_id (mm_state mm) \<le> sm_file_id m"
      using only_ids_le f1 m(2) by (blast intro: order_trans)
    ultimately show ?thesis using m(1) path by auto
  qed
  moreover have "sm_file_id meta < ms_next_file_id (mm_state mm')"
    using one only_ids_le f2 by (blast intro: less_le_trans)
  moreover have "sm_path meta \<notin> sm_path ` set ms" "sm_file_id meta \<notin> sm_file_id ` set ms"
    using calculation(1) by (metis imageE)+
  ultimately show ?case using ih d one unfolding ms by simp
qed simp

text \<open>Where an output is put and how many records it claims.\<close>

definition output_meta :: "bytes \<Rightarrow> u32 \<Rightarrow> 'f sstable_codec \<Rightarrow> sstable_meta \<Rightarrow> bool" where
  "output_meta src level table meta \<longleftrightarrow>
     sm_path meta = build_compaction_output_path src level (sm_file_id meta)
     \<and> sm_record_count meta = sum_list (map (\<lambda>block. ucast (b_record_count block)) (sc_blocks table))"

lemma write_output_meta:
  assumes "write_compaction_output crc api env src level table (mm, fs) = (Inr meta, st')"
  shows "output_meta src level table meta"
proof -
  obtain c mm1 where c: "create_table_file (build_compaction_output_path src level)
      (make_parent (ce_faults env)) (ce_faults env) fs mm = (c, mm1)" by force
  from assms c obtain i path where p: "c = Inr (i, path)"
    by (cases c) (auto simp: write_compaction_output_def)
  have "path = build_compaction_output_path src level i" using create_table_file_ok [OF c] p by blast
  with assms c p show ?thesis
    by (auto simp: write_compaction_output_def Let_def output_meta_def rbind_eq_Inr
        split: option.splits prod.splits if_splits sum.splits)
qed

lemma write_outputs_meta:
  "write_outputs crc api env src level i ts (mm, fs) = (Inr metas, st') \<Longrightarrow> list_all2 (output_meta src level) ts metas"
proof (induction ts arbitrary: i mm fs metas)
  case (Cons t ts)
  obtain w mm1 fs1 where w: "write_compaction_output crc api env src level t (mm, fs) = (w, mm1, fs1)"
    by (metis prod.exhaust)
  from Cons.prems w obtain meta where m: "w = Inr meta" by (auto split: sum.splits)
  from Cons.prems w m obtain ms where "metas = meta # ms"
    and "write_outputs crc api env src level (Suc i) ts (mm1, fs1) = (Inr ms, st')"
    by (auto simp: rbind_eq_Inr split: sum.splits prod.splits)
  with Cons.IH write_output_meta [OF w [unfolded m]] show ?case by simp
qed simp

section \<open>The outputs hold the merged versions\<close>

text \<open>
  What the filter crate promises: no false negatives, and a filter made by \<open>with_rate\<close> and
  insertions is rebuilt exactly from its bitmap, has at least one hash and no more hashes than bits, and
  keeps its bits in 64-bit words.
\<close>

definition bloom_crate_ok :: "('f, f64) bloom_api \<Rightarrow> bool" where
  "bloom_crate_ok api \<longleftrightarrow>
     bloom_no_false_negatives api
     \<and> (\<forall>n rate ks. bloom_wf api (bloom_insert_all api ks (bloom_with_rate api n rate))
          \<and> bloom_shape api (bloom_insert_all api ks (bloom_with_rate api n rate)))"

lemma packed_holds:
  assumes api: "bloom_crate_ok api" and pack: "pack_blocks crc rs = Inr (sc_blocks t)"
    and bloom: "sc_bloom t = bloom_insert_all api (map mr_key rs) (bloom_with_rate api n rate)"
    and ne: "rs \<noteq> []" and srt: "sorted_wrt (<) (map mr_key rs)" and fit: "records_fit rs"
    and d: "describes crc api fs level t meta"
  shows "table_holds crc api (file_contents fs) meta rs"
proof -
  note p = pack_blocks_records [OF pack srt fit]
  have "table_ok crc api t" "bloom_shape api (sc_bloom t)"
    using p(2) d api bloom by (simp_all add: table_ok_def describes_def bloom_crate_ok_def)
  moreover have "\<forall>r \<in> set rs. bloom_contains api (sc_bloom t) (mr_key r)"
    using api bloom_insert_all_contains unfolding bloom bloom_crate_ok_def by fastforce
  moreover note blocks_ends [OF p(2,1) ne]
  ultimately show ?thesis
    using d ne p(1) unfolding table_holds_def
    by (auto simp: describes_def file_contents_Inr range_from_blocks_def)
qed

text \<open>The record counts of the blocks add up to the number of records.\<close>

lemma block_counts:
  "\<forall>b \<in> set bs. block_ok b \<Longrightarrow>
     sum_list (map (\<lambda>b. ucast (b_record_count b)) bs) = (of_nat (length (table_records bs)) :: u64)"
proof (induction bs)
  case (Cons b bs)
  then have "block_ok b" by simp
  then obtain rs where rs: "b_data b = Some rs" "b_record_count b = of_nat (length rs)" "recs_len rs < 2 ^ 32"
    by (rule block_okE)
  then have "length rs < 2 ^ 32" using length_le_recs_len [of rs] by simp
  then have "(ucast (of_nat (length rs) :: u32) :: u64) = of_nat (length rs)"
    by (simp add: word_unat_eq_iff unat_of_nat unsigned_ucast_eq take_bit_eq_mod)
  with Cons rs show ?case by (simp add: table_records_def block_records_def)
qed (simp add: table_records_def)

lemma output_holds:
  assumes "bloom_crate_ok api" and "build_output crc api config chunk = Inr t"
    and "chunk \<noteq> []" and "sorted_wrt (<) (map mr_key chunk)" and "records_fit chunk"
    and "describes crc api fs level t meta"
  shows "table_holds crc api (file_contents fs) meta chunk"
  using packed_holds [OF assms(1) build_output_Inr [OF assms(2)] assms(3-)] .

lemma sorted_chunks:
  assumes "sorted_wrt (<) (map f (concat chunks))" and "c \<in> set chunks"
  shows "sorted_wrt (<) (map f c)" "set c \<subseteq> set (concat chunks)"
proof -
  obtain as bs where "chunks = as @ c # bs" using assms(2) by (meson split_list)
  with assms(1) show "sorted_wrt (<) (map f c)" "set c \<subseteq> set (concat chunks)"
    by (auto simp: sorted_wrt_append)
qed

text \<open>Which versions a table holds once the outputs are written.\<close>

definition with_outputs ::
  "(sstable_meta \<Rightarrow> memtable_record list) \<Rightarrow> sstable_meta list \<Rightarrow> memtable_record list list \<Rightarrow>
   sstable_meta \<Rightarrow> memtable_record list" where
  "with_outputs recs outputs chunks m = (case map_of (zip outputs chunks) m of Some c \<Rightarrow> c | None \<Rightarrow> recs m)"

lemma with_outputs_other: "m \<notin> set outputs \<Longrightarrow> with_outputs recs outputs chunks m = recs m"
  by (auto simp: with_outputs_def map_of_eq_None split: option.split dest: map_of_SomeD set_zip_leftD)

lemma with_outputs_map:
  assumes "distinct outputs" and "length outputs = length chunks"
  shows "map (with_outputs recs outputs chunks) outputs = chunks"
  using assms by (intro nth_equalityI) (auto simp: with_outputs_def map_of_zip_nth)

section \<open>A successful compaction\<close>

lemma publish_Inr:
  "publish_compaction crc io snap inputs outputs mm = (Inr u, mm') \<Longrightarrow>
     mm_state mm' = apply_compaction (mm_state mm) (map (fst \<circ> keyed_meta) inputs) outputs
     \<and> mm_cache mm' = mm_cache mm"
  by (auto simp: publish_compaction_def append_then_def Let_def keyed_meta_def comp_def
      split: if_splits sum.splits prod.splits)

lemma publish_Inl:
  "publish_compaction crc io snap inputs outputs mm = (Inl e, mm') \<Longrightarrow>
     mm_state mm' = mm_state mm \<and> mm_cache mm' = mm_cache mm"
  by (auto simp: publish_compaction_def append_then_def Let_def split: if_splits sum.splits prod.splits)

lemma remove_compacted_files_eq:
  "mm_state (fst (remove_compacted_files env inputs st)) = mm_state (fst st)
   \<and> lru_handles (mm_cache (fst (remove_compacted_files env inputs st)))
       = lru_handles (mm_cache (fst st)) |` (- sm_path ` set inputs)
   \<and> (\<forall>p. p \<notin> sm_path ` set inputs \<longrightarrow> snd (remove_compacted_files env inputs st) p = snd st p)"
  by (induction inputs arbitrary: st)
    (auto simp: evict_file_def lru_remove_def restrict_map_def fun_eq_iff)

lemma compaction_plan_Inr:
  assumes inv: "store_inv crc api recs mem st" and fit: "versions_fit (recs_of recs (live_of st))"
    and plan: "compaction_plan crc api env config level (snapshot (fst st)) (snd st)
                 = Inr (current, inputs, merged, codecs)"
  shows "\<exists>prot chunks. level \<noteq> - 1 \<and> current \<noteq> [] \<and> inputs_ok recs (ms_levels (mm_state (fst st))) level inputs
     \<and> concat chunks = merged_records prot (all_records recs inputs)
     \<and> list_all2 (\<lambda>chunk t. chunk \<noteq> [] \<and> build_output crc api config chunk = Inr t) chunks codecs
     \<and> (\<forall>w. reclaimed (Some prot) w \<longrightarrow>
          (\<forall>s \<in> recs_of recs (live_of st - set inputs). mr_key s \<noteq> mr_key w))"
proof -
  let ?ls = "ms_levels (mm_state (fst st))"
  have ok: "manifest_ok ?ls" and th: "\<forall>m \<in> live ?ls. table_holds crc api (file_contents (snd st)) m (recs m)"
    using inv by (auto simp: store_inv_iff)
  from plan obtain ts prot where sel: "select_inputs crc api env config level (snapshot (fst st)) (snd st) = Inr (current, inputs)"
    and ts: "read_tables crc api env (snd st) inputs = Inr ts"
    and prot: "protect_ranges crc api env (snd st) inputs (level_files (snapshot_levels ?ls)) = Inr prot"
    and merge: "merge_files_with_reclamation crc api env config ts (Some prot) = Inr merged"
    and part: "partition_output crc api config merged = Inr codecs"
    by (auto simp: compaction_plan_def merge_inputs_def rbind_eq_Inr level_files_def)
  from select_inputs_ok [OF ok th _ sel]
  have io: "level \<noteq> - 1" "current \<noteq> []" "inputs_ok recs ?ls level inputs" by simp_all
  have sub: "set inputs \<subseteq> live ?ls" using io(3) by (simp add: inputs_ok_def)
  have "set (merged_records prot (all_records recs inputs)) \<subseteq> recs_of recs (live ?ls)"
    using merged_records_subset [of prot "all_records recs inputs"] sub by (fastforce simp: recs_of_def in_all_records)
  then have mfit: "records_fit (merged_records prot (all_records recs inputs))"
    by (rule versions_fit_list [OF fit merged_records_distinct])
  have "concat (map (\<lambda>t. table_records (sc_blocks t)) ts) = all_records recs inputs"
    by (rule read_tables_Inr [OF ts]) (use th sub in blast)
  from partition_output_Inr [OF merge this mfit part] obtain chunks where
    ch: "concat chunks = merged_records prot (all_records recs inputs)"
    "list_all2 (\<lambda>chunk t. chunk \<noteq> [] \<and> build_output crc api config chunk = Inr t) chunks codecs"
    by blast
  have "mr_key s \<noteq> mr_key w" if w: "reclaimed (Some prot) w" and s: "s \<in> recs_of recs (live ?ls - set inputs)" for w s
  proof -
    obtain m where m: "m \<in> live ?ls" "m \<notin> set inputs" "s \<in> set (recs m)" using s by (auto simp: recs_of_def)
    have "sm_file_id m \<notin> sm_file_id ` set inputs"
      using live_inj(1) [OF ok m(1)] m(2) sub by (metis imageE subsetD)
    then obtain rng where "rng \<in> set prot" "covers rng (recs m)"
      using protect_ranges_Inr [OF prot, of recs m] th m(1) set_level_files [OF ok] by blast
    with reclaimed_unprotected [OF w] m(3) show ?thesis by blast
  qed
  with io ch show ?thesis by blast
qed

text \<open>The replacement a plan stands for, once its outputs have metadata and files.\<close>

lemma plan_compacts:
  assumes ok: "manifest_ok ls" and nonempty: "\<forall>m \<in> live ls. recs m \<noteq> []"
    and n: "n \<noteq> - 1" and io: "inputs_ok recs ls n inputs"
    and ch: "concat chunks = merged_records prot (all_records recs inputs)"
    and prot: "\<forall>w. reclaimed (Some prot) w \<longrightarrow> (\<forall>s \<in> recs_of recs (live ls - set inputs). mr_key s \<noteq> mr_key w)"
    and outs: "distinct outputs" "length outputs = length chunks" "set outputs \<inter> live ls = {}"
    and olev: "\<forall>m \<in> set outputs. sm_level m = n + 1"
  shows "compacts recs (live ls) (set inputs) (set outputs) n (with_outputs recs outputs chunks)"
proof -
  let ?recs = "with_outputs recs outputs chunks" and ?rs = "all_records recs inputs"
  have same: "?recs m = recs m" if "m \<in> live ls" for m using that outs(3) by (intro with_outputs_other) blast
  have all: "all_records ?recs outputs = merged_records prot ?rs"
    by (simp add: all_records_def with_outputs_map [OF outs(1,2)] ch)
  have B: "recs_of ?recs (set outputs) = set (merged_records prot ?rs)"
    unfolding all [symmetric] by (simp add: recs_of_def all_records_def)
  have A: "recs_of recs (set inputs) = set ?rs" by (simp add: recs_of_def all_records_def)
  have keys: "distinct (map mr_key (all_records ?recs outputs))"
    unfolding all using merged_records_sorted by (simp add: strict_sorted_iff)
  have "distinct (map mr_key (?recs m))" if "m \<in> set outputs" for m
  proof -
    have "?recs m \<in> set chunks" using that with_outputs_map [OF outs(1,2), of recs] by (metis image_eqI list.set_map)
    moreover have "sorted_wrt (<) (map mr_key (concat chunks))" unfolding ch by (rule merged_records_sorted)
    ultimately show ?thesis using sorted_chunks(1) by (metis strict_sorted_iff)
  qed
  then have apart: "\<forall>m \<in> set outputs. \<forall>m' \<in> set outputs. m \<noteq> m' \<longrightarrow> keys_apart ?recs m m'"
    using distinct_all_records [OF outs(1)] keys by blast
  have gone: "(\<exists>w \<in> set (merged_records prot ?rs). mr_key w = mr_key a)
      \<or> (\<exists>d \<in> set ?rs. mr_key d = mr_key a \<and> mr_type d = Delete
           \<and> (\<forall>a' \<in> set ?rs. mr_key a' = mr_key a \<longrightarrow> mr_lsn a' \<le> mr_lsn d)
           \<and> (\<forall>s \<in> recs_of recs (live ls - set inputs). mr_key s \<noteq> mr_key a))" if a: "a \<in> set ?rs" for a
  proof -
    obtain w where w: "w \<in> set (winners ?rs)" "mr_key w = mr_key a" using winners_ok(4) a by blast
    show ?thesis
    proof (cases "reclaimed (Some prot) w")
      case True
      then have "mr_type w = Delete" by (simp add: reclaimed_def)
      moreover have "w \<in> set ?rs" "\<forall>a' \<in> set ?rs. mr_key a' = mr_key a \<longrightarrow> mr_lsn a' \<le> mr_lsn w"
        using w winners_ok(2,3) [of ?rs] by auto
      moreover have "\<forall>s \<in> recs_of recs (live ls - set inputs). mr_key s \<noteq> mr_key a" using prot True w(2) by auto
      ultimately show ?thesis using w(2) by blast
    next
      case False
      with w show ?thesis by (auto simp: merged_records_def)
    qed
  qed
  have newest: "mr_lsn a \<le> mr_lsn w" if "w \<in> set (merged_records prot ?rs)" "a \<in> set ?rs" "mr_key a = mr_key w" for a w
    using that winners_ok(3) by (auto simp: merged_records_def)
  have dist: "distinct inputs" using io by (auto simp: inputs_ok_def distinct_map)
  have "(\<Sum>m \<in> set outputs. length (?recs m)) = length (all_records ?recs outputs)"
    using outs(1) by (simp add: all_records_def length_concat sum_list_distinct_conv_sum_set comp_def)
  also have "\<dots> \<le> length ?rs" unfolding all by (rule merged_records_length)
  also have "\<dots> = (\<Sum>m \<in> set inputs. length (recs m))"
    using dist by (simp add: all_records_def length_concat sum_list_distinct_conv_sum_set comp_def)
  finally have count: "(\<Sum>m \<in> set outputs. length (?recs m)) \<le> (\<Sum>m \<in> set inputs. length (recs m))" .
  have io': "set inputs \<subseteq> live ls" "\<forall>m \<in> set inputs. sm_level m = n \<or> sm_level m = n + 1"
    "\<exists>m \<in> set inputs. sm_level m = n"
    "\<forall>m \<in> live ls - set inputs. sm_level m = n \<or> sm_level m = n + 1 \<longrightarrow> (\<forall>m0 \<in> set inputs. keys_apart recs m m0)"
    using io by (simp_all add: inputs_ok_def)
  have "\<exists>m \<in> set inputs. sm_level m = n \<and> recs m \<noteq> []" using io'(1,3) nonempty by blast
  moreover have "set outputs \<inter> live ls = {}" "finite (live ls)" using outs(3) finite_live [OF ok] by simp_all
  ultimately show ?thesis
    unfolding compacts_def A B
    using io' n olev same apart gone newest count merged_records_subset [of prot ?rs] by simp
qed

end
