(* ===== verification/Compactions.thy ===== *)
theory Compactions
  imports Compaction_Correct
begin

text \<open>
  The properties of \<open>compaction\<close> and \<open>compact_levels\<close>
  (\<open>src/storage/compactionmanager/compaction.rs\<close>) on a consistent store.
\<close>

section \<open>A compaction that fails\<close>

lemma only_ids_frame:
  "only_ids mm mm' \<Longrightarrow>
     ms_levels (mm_state mm') = ms_levels (mm_state mm) \<and> mm_cache mm' = mm_cache mm
     \<and> ms_next_file_id (mm_state mm) \<le> ms_next_file_id (mm_state mm')"
  by (auto simp: only_ids_def)

lemma compaction_Inl:
  assumes inv: "store_inv crc api recs mem st"
    and c: "compaction crc api env level config st = (Inl e, st')"
  shows "store_inv crc api recs mem st' \<and> versions_of recs mem st' = versions_of recs mem st
    \<and> live_of st' = live_of st"
proof (cases "compaction_plan crc api env config level (snapshot (fst st)) (snd st)")
  case (Inl e)
  with c inv show ?thesis by (simp add: compaction_def)
next
  case (Inr p)
  obtain current inputs merged codecs where p: "p = (current, inputs, merged, codecs)" by (cases p) auto
  obtain r mm1 fs1 where w: "write_outputs crc api env (sm_path (hd current)) (level + 1) 0 codecs (fst st, snd st)
      = (r, mm1, fs1)" by (metis prod.exhaust)
  note f = write_outputs_frame [OF w]
  have "snd st' = fs1 \<and> mm_state (fst st') = mm_state mm1 \<and> mm_cache (fst st') = mm_cache mm1"
  proof (cases r)
    case (Inl e)
    with c w \<open>compaction_plan _ _ _ _ _ _ _ = Inr p\<close> p show ?thesis by (auto simp: compaction_def)
  next
    case outs: (Inr outputs)
    show ?thesis
    proof (cases "check_cancelled env BeforePublish")
      case (Inl e)
      with c w outs Inr p show ?thesis by (auto simp: compaction_def)
    next
      case go: (Inr u)
      obtain q mm2 where q: "publish_compaction crc (ce_append env) (snapshot (fst st)) inputs outputs mm1 = (q, mm2)" by force
      with c w outs Inr p go obtain e' where "q = Inl e'" "st' = (mm2, fs1)"
        by (cases q) (auto simp: compaction_def)
      with publish_Inl [OF q [unfolded \<open>q = Inl e'\<close>]] show ?thesis by simp
    qed
  qed
  with f only_ids_frame [of "fst st" mm1] store_inv_frame [OF inv, of st'] show ?thesis by simp
qed

section \<open>A compaction that succeeds\<close>

lemma live_id_below:
  assumes "manifest_ok (ms_levels s)" and "ids_below s" and "m \<in> live (ms_levels s)"
  shows "sm_file_id m < ms_next_file_id s"
  using assms live_tables by (fastforce simp: ids_below_def)

lemma compaction_steps:
  assumes "compaction crc api env level config (mm, fs) = (Inr t, st')"
  obtains current inputs codecs outputs mm1 fs1 mm2 where
    "compaction_plan crc api env config level (snapshot mm) fs = Inr (current, inputs, t, codecs)"
    "write_outputs crc api env (sm_path (hd current)) (level + 1) 0 codecs (mm, fs) = (Inr outputs, mm1, fs1)"
    "publish_compaction crc (ce_append env) (snapshot mm) inputs outputs mm1 = (Inr (), mm2)"
    "st' = remove_compacted_files env inputs (mm2, fs1)"
  using assms by (auto simp: compaction_def Let_def split: sum.splits prod.splits)

lemma list_all2_outputs:
  assumes "list_all2 P chunks codecs" and "list_all2 Q codecs outputs" and "m \<in> set outputs"
    and "distinct outputs"
  shows "\<exists>t. P (with_outputs recs outputs chunks m) t \<and> Q t m \<and> with_outputs recs outputs chunks m \<in> set chunks"
proof -
  obtain i where i: "i < length outputs" "outputs ! i = m" using assms(3) by (auto simp: in_set_conv_nth)
  have len: "length outputs = length chunks" "length codecs = length outputs"
    using list_all2_lengthD [OF assms(1)] list_all2_lengthD [OF assms(2)] by simp_all
  have "with_outputs recs outputs chunks m = chunks ! i"
    using with_outputs_map [OF assms(4) len(1), of recs] i by (metis nth_map)
  with assms(1,2) i len show ?thesis
    by (intro exI [of _ "codecs ! i"]) (auto simp: list_all2_conv_all_nth)
qed

text \<open>An output's file holds the versions of its chunk.\<close>

lemma output_table:
  assumes api: "bloom_crate_ok api" and fit: "versions_fit R"
    and blt: "list_all2 (\<lambda>chunk t. chunk \<noteq> [] \<and> build_output crc api config chunk = Inr t) chunks codecs"
    and desc: "list_all2 (describes crc api fs level) codecs outputs"
    and om: "list_all2 (output_meta src level) codecs outputs"
    and dist: "distinct outputs" and srt: "sorted_wrt (<) (map mr_key (concat chunks))" and sub: "set (concat chunks) \<subseteq> R"
    and m: "m \<in> set outputs"
  shows "table_holds crc api (file_contents fs) m (with_outputs recs outputs chunks m)
     \<and> sm_path m = build_compaction_output_path src level (sm_file_id m)
     \<and> sm_record_count m = of_nat (length (with_outputs recs outputs chunks m))"
proof -
  let ?rs = "with_outputs recs outputs chunks m"
  have "list_all2 (\<lambda>t m. describes crc api fs level t m \<and> output_meta src level t m) codecs outputs"
    using desc om by (simp add: list_all2_conv_all_nth)
  from list_all2_outputs [OF blt this m dist] obtain t where t: "?rs \<noteq> []" "build_output crc api config ?rs = Inr t"
    "describes crc api fs level t m" "output_meta src level t m" "?rs \<in> set chunks" by blast
  note c = sorted_chunks [OF srt t(5)]
  have "distinct ?rs" using c(1) by (simp add: strict_sorted_iff distinct_map)
  then have rf: "records_fit ?rs" using fit c(2) sub by (intro versions_fit_list [of R]) auto
  note b = pack_blocks_records [OF build_output_Inr(1) [OF t(2)] c(1) rf]
  show ?thesis using output_holds [OF api t(2,1) c(1) rf t(3)] block_counts [of "sc_blocks t"] b t(4)
    by (simp add: output_meta_def blocks_ok_def)
qed

lemma plan_current:
  assumes "manifest_ok (ms_levels (mm_state mm))"
    and "compaction_plan crc api env config level (snapshot mm) fs = Inr (current, inputs, t, codecs)"
  shows "set current \<subseteq> live (ms_levels (mm_state mm))"
proof -
  from assms(2) obtain metas where "map_of (snapshot_levels (ms_levels (mm_state mm))) level = Some metas" "current = sort_key sm_file_id metas"
    by (auto simp: compaction_plan_def select_inputs_def rbind_eq_Inr Let_def split: option.splits if_splits)
  then have "set current \<subseteq> set (level_files (snapshot_levels (ms_levels (mm_state mm))))"
    by (force simp: level_files_def dest: map_of_SomeD)
  then show ?thesis using set_level_files [OF assms(1)] by simp
qed

text \<open>
  The tables of a store after a compaction's outputs have replaced its inputs; the files of the inputs may
  still be there or not.
\<close>

lemma outputs_swap:
  assumes inv: "store_inv crc api recs mem (mm, fs)" and fit: "versions_fit (recs_of recs (live_of (mm, fs)))"
    and api: "bloom_crate_ok api"
    and plan: "compaction_plan crc api env config level (snapshot mm) fs = Inr (current, inputs, t, codecs)"
    and wr: "write_outputs crc api env (sm_path (hd current)) (level + 1) 0 codecs (mm, fs) = (Inr outputs, mm1, fs1)"
    and state: "mm_state (fst st') = apply_compaction (mm_state mm1) (map (fst \<circ> keyed_meta) inputs) outputs"
    and files: "\<And>p. p \<notin> sm_path ` set inputs \<Longrightarrow> snd st' p = fs1 p"
  shows "\<exists>recs'. compacts recs (live_of (mm, fs)) (set inputs) (set outputs) level recs'
     \<and> manifest_ok (ms_levels (mm_state (fst st'))) \<and> ids_below (mm_state (fst st'))
     \<and> live_of st' = (live_of (mm, fs) - set inputs) \<union> set outputs
     \<and> (\<forall>m \<in> live_of st'. table_holds crc api (file_contents (snd st')) m (recs' m))
     \<and> (\<forall>m \<in> set outputs. sm_path m = build_compaction_output_path (sm_path (hd current)) (level + 1) (sm_file_id m)
          \<and> sm_record_count m = of_nat (length (recs' m)))
     \<and> sm_path (hd current) \<in> sm_path ` live_of (mm, fs)"
proof -
  let ?ls = "ms_levels (mm_state mm)"
  have ok: "manifest_ok ?ls" and ids: "ids_below (mm_state mm)"
    and th: "\<forall>m \<in> live ?ls. table_holds crc api (file_contents fs) m (recs m)"
    using inv by (auto simp: store_inv_iff)
  obtain prot chunks where lv: "level \<noteq> - 1" and cur: "current \<noteq> []" and io: "inputs_ok recs ?ls level inputs"
    and ch: "concat chunks = merged_records prot (all_records recs inputs)"
    and blt: "list_all2 (\<lambda>chunk t. chunk \<noteq> [] \<and> build_output crc api config chunk = Inr t) chunks codecs"
    and pr: "\<forall>w. reclaimed (Some prot) w \<longrightarrow> (\<forall>s \<in> recs_of recs (live ?ls - set inputs). mr_key s \<noteq> mr_key w)"
    using compaction_plan_Inr [OF inv fit] plan by fastforce
  note w = write_outputs_Inr [OF wr] and wf = write_outputs_frame [OF wr]
  let ?recs = "with_outputs recs outputs chunks"
  have dist: "distinct outputs" using w by (auto simp: distinct_map)
  have desc: "list_all2 (describes crc api fs1 (level + 1)) codecs outputs" using w by blast
  have len: "length outputs = length chunks" using blt desc by (auto dest!: list_all2_lengthD)
  have sub: "set inputs \<subseteq> live ?ls" using io by (simp add: inputs_ok_def)
  have on_disk: "fs (sm_path m) \<noteq> None" if "m \<in> live ?ls" for m
    using th that by (auto simp: table_holds_def file_contents_def split: option.splits)
  have ids_apart: "sm_file_id ` set outputs \<inter> sm_file_id ` live ?ls = {}"
    using live_id_below [OF ok ids] w by (fastforce simp: not_le [symmetric])
  have paths_apart: "sm_path ` set outputs \<inter> sm_path ` live ?ls = {}" using on_disk w by fastforce
  have olev: "\<forall>m \<in> set outputs. sm_level m = level + 1"
    using desc by (auto simp: list_all2_conv_all_nth in_set_conv_nth describes_def)
  have nonempty: "\<forall>m \<in> live ?ls. recs m \<noteq> []" using th by (auto simp: table_holds_def)
  have comp: "compacts recs (live ?ls) (set inputs) (set outputs) level ?recs"
    by (rule plan_compacts [OF ok nonempty lv io ch pr dist len _ olev]) (use ids_apart in blast)
  have swap: "manifest_ok (ms_levels (mm_state (fst st'))) \<and> live_of st' = (live ?ls - set inputs) \<union> set outputs"
  proof (rule manifest_swap [OF ok _ sub _ ids_apart _ paths_apart])
    show "levels_bt (ms_levels (mm_state (fst st')))"
      unfolding state using manifest_ok_levels_bt [OF ok] only_ids_frame [of mm mm1] wf
      by (intro levels_bt_compaction) simp
    show "tables (ms_levels (mm_state (fst st'))) = (tables ?ls |` (- set (map (fst \<circ> keyed_meta) inputs)))
        ++ map_of (rev (map keyed_meta outputs))"
      unfolding state tables_compaction using only_ids_frame [of mm mm1] wf by simp
  qed (use w in blast)+
  have next_ids: "ms_next_file_id (mm_state mm1) \<le> ms_next_file_id (mm_state (fst st'))"
    unfolding state using next_id_outputs [of "(mm_state mm1)\<lparr>ms_levels := _\<rparr>" outputs] by (simp add: apply_compaction_def)
  have "sm_file_id m < ms_next_file_id (mm_state mm1)" if "m \<in> live_of st'" for m
    using that swap live_id_below [OF ok ids] w only_ids_le [of mm mm1] wf by (auto intro: less_le_trans)
  then have ids': "ids_below (mm_state (fst st'))"
    using swap next_ids unfolding ids_below_def live_def ran_def manifest_ok_def by (force intro: less_le_trans)
  have in_path: "p \<notin> sm_path ` set inputs" if "fs p = None" for p
    using that on_disk sub by blast
  have "set (concat chunks) \<subseteq> recs_of recs (live_of (mm, fs))"
    unfolding ch using merged_records_subset [of prot "all_records recs inputs"] sub by (fastforce simp: recs_of_def in_all_records)
  note outs = output_table [OF api fit blt desc write_outputs_meta [OF wr] dist merged_records_sorted [of prot "all_records recs inputs",
    folded ch] this]
  have "table_holds crc api (file_contents (snd st')) m (?recs m)" if m: "m \<in> live_of st'" for m
  proof (cases "m \<in> set outputs")
    case True
    then have "table_holds crc api (file_contents fs1) m (?recs m)" using outs by blast
    moreover have "snd st' (sm_path m) = fs1 (sm_path m)" using files in_path w True by blast
    ultimately show ?thesis by (rule table_holds_mono)
  next
    case False
    then have ml: "m \<in> live ?ls" "m \<notin> set inputs" using m swap by auto
    then have "sm_path m \<notin> sm_path ` set inputs" using live_inj(2) [OF ok ml(1)] sub by (metis imageE subsetD)
    then have "snd st' (sm_path m) = fs1 (sm_path m)" by (rule files)
    moreover have "table_holds crc api (file_contents fs1) m (recs m)"
      using th ml(1) table_holds_extends wf by blast
    ultimately show ?thesis using table_holds_mono with_outputs_other [OF False, of recs chunks] by metis
  qed
  moreover have "sm_path (hd current) \<in> sm_path ` live ?ls" using plan_current [OF ok plan] cur by (auto simp: subset_iff)
  ultimately show ?thesis using comp swap ids' outs by (intro exI [of _ ?recs]) auto
qed

lemma compaction_swap:
  assumes inv: "store_inv crc api recs mem (mm, fs)" and fit: "versions_fit (recs_of recs (live_of (mm, fs)))"
    and api: "bloom_crate_ok api"
    and c: "compaction crc api env level config (mm, fs) = (Inr t, st')"
  shows "\<exists>recs' inputs outputs. compacts recs (live_of (mm, fs)) (set inputs) (set outputs) level recs'
     \<and> manifest_ok (ms_levels (mm_state (fst st'))) \<and> ids_below (mm_state (fst st'))
     \<and> live_of st' = (live_of (mm, fs) - set inputs) \<union> set outputs
     \<and> (\<forall>m \<in> live_of st'. table_holds crc api (file_contents (snd st')) m (recs' m))
     \<and> cache_ok (file_contents (snd st')) (fst st')"
proof -
  have cache: "cache_ok (file_contents fs) mm" using inv by (simp add: store_inv_iff)
  obtain current inputs codecs outputs mm1 fs1 mm2 where
    plan: "compaction_plan crc api env config level (snapshot mm) fs = Inr (current, inputs, t, codecs)"
    and wr: "write_outputs crc api env (sm_path (hd current)) (level + 1) 0 codecs (mm, fs) = (Inr outputs, mm1, fs1)"
    and pub: "publish_compaction crc (ce_append env) (snapshot mm) inputs outputs mm1 = (Inr (), mm2)"
    and st': "st' = remove_compacted_files env inputs (mm2, fs1)"
    using compaction_steps [OF c] by blast
  note wf = write_outputs_frame [OF wr]
  have state: "mm_state (fst st') = apply_compaction (mm_state mm1) (map (fst \<circ> keyed_meta) inputs) outputs"
    and cache': "lru_handles (mm_cache (fst st')) = lru_handles (mm_cache mm) |` (- sm_path ` set inputs)"
    and files: "\<And>p. p \<notin> sm_path ` set inputs \<Longrightarrow> snd st' p = fs1 p"
    using remove_compacted_files_eq [of env inputs "(mm2, fs1)"] publish_Inr [OF pub] only_ids_frame [of mm mm1] wf st'
    by simp_all
  have "cache_ok (file_contents (snd st')) (fst st')"
    using cache cache' files wf
    by (auto simp: cache_ok_def file_contents_Inr fs_extends_def restrict_map_def split: if_splits)
  with outputs_swap [OF inv fit api plan wr state files] show ?thesis by blast
qed

lemma swapped_inv:
  assumes inv: "store_inv crc api recs mem st"
    and comp: "compacts recs (live_of st) (set inputs) (set outputs) level recs'"
    and ok': "manifest_ok (ms_levels (mm_state (fst st')))" and ids': "ids_below (mm_state (fst st'))"
    and lv: "live_of st' = (live_of st - set inputs) \<union> set outputs"
    and th: "\<forall>m \<in> live_of st'. table_holds crc api (file_contents (snd st')) m (recs' m)"
    and cache: "cache_ok (file_contents (snd st')) (fst st')"
  shows "store_inv crc api recs' mem st'
     \<and> (\<forall>key v. reads_as (versions_of recs' mem st') key v \<longleftrightarrow> reads_as (versions_of recs mem st) key v)
     \<and> recs_of recs' (live_of st') \<subseteq> recs_of recs (live_of st)
     \<and> weight recs' (live_of st') < weight recs (live_of st)"
proof -
  have ok: "manifest_ok (ms_levels (mm_state (fst st)))" and lo: "live_ok recs (live_of st)"
    and mem: "mem_ok mem" and vok: "versions_ok (versions_of recs mem st)"
    and new: "\<forall>m \<in> set (mem_records mem). \<forall>r \<in> recs_of recs (live_of st). mr_key m = mr_key r \<longrightarrow>
          (\<exists>m' \<in> set (mem_records mem). mr_key m' = mr_key r \<and> mr_lsn r \<le> mr_lsn m')"
    using inv by (simp_all add: store_inv_iff)
  note vs = set_versions_of [OF ok, of recs mem] and vs' = set_versions_of [OF ok', of recs' mem]
  have sub: "recs_of recs' (live_of st') \<subseteq> recs_of recs (live_of st)" unfolding lv by (rule compacts_recs [OF comp])
  have "live_ok recs' (live_of st')" unfolding lv by (rule compacts_live_ok [OF comp lo])
  moreover have "versions_ok (versions_of recs' mem st')"
    by (rule versions_ok_subset [OF vok]) (use vs vs' sub in blast)
  ultimately have inv': "store_inv crc api recs' mem st'"
    using ok' ids' th cache mem new sub unfolding store_inv_iff by blast
  moreover have "reads_as (versions_of recs' mem st') key v \<longleftrightarrow> reads_as (versions_of recs mem st) key v" for key v
    by (rule compacts_reads [OF comp vok vs _ new]) (use vs' lv in simp)
  moreover have "weight recs' (live_of st') < weight recs (live_of st)"
    unfolding lv by (rule compacts_weight [OF comp])
  ultimately show ?thesis using sub by blast
qed

lemma compaction_Inr:
  assumes inv: "store_inv crc api recs mem st" and fit: "versions_fit (recs_of recs (live_of st))"
    and api: "bloom_crate_ok api" and c: "compaction crc api env level config st = (Inr t, st')"
  shows "\<exists>recs'. store_inv crc api recs' mem st'
     \<and> (\<forall>key v. reads_as (versions_of recs' mem st') key v \<longleftrightarrow> reads_as (versions_of recs mem st) key v)
     \<and> recs_of recs' (live_of st') \<subseteq> recs_of recs (live_of st)
     \<and> weight recs' (live_of st') < weight recs (live_of st)"
proof -
  obtain mm fs where st: "st = (mm, fs)" by (cases st)
  from compaction_swap [OF inv [unfolded st] fit [unfolded st] api c [unfolded st]] obtain recs' inputs outputs where
    *: "compacts recs (live_of st) (set inputs) (set outputs) level recs'"
    "manifest_ok (ms_levels (mm_state (fst st')))" "ids_below (mm_state (fst st'))"
    "live_of st' = (live_of st - set inputs) \<union> set outputs"
    "\<forall>m \<in> live_of st'. table_holds crc api (file_contents (snd st')) m (recs' m)"
    "cache_ok (file_contents (snd st')) (fst st')"
    unfolding st by blast
  from swapped_inv [OF inv *] show ?thesis by blast
qed

section \<open>The loop\<close>

lemma compact_loop_returns:
  assumes "store_inv crc api recs mem st" and "versions_fit (recs_of recs (live_of st))" and "bloom_crate_ok api"
  shows "\<exists>r st'. compact_loop crc api env config n requested st = Some (r, st')
     \<and> (\<exists>recs'. store_inv crc api recs' mem st'
         \<and> (\<forall>key v. reads_as (versions_of recs' mem st') key v \<longleftrightarrow> reads_as (versions_of recs mem st) key v))"
  using assms(1,2)
proof (induction "weight recs (live_of st)" arbitrary: recs st n requested rule: less_induct)
  case less
  show ?case
  proof (cases "check_cancelled (env n) LoopStart")
    case (Inl e)
    with less.prems show ?thesis by (subst compact_loop.simps) auto
  next
    case go: (Inr u)
    show ?thesis
    proof (cases "pick_level (metadata_len (ce_faults (env n)) (snd st)) config requested (snapshot (fst st))")
      case (Inl e)
      with go less.prems show ?thesis by (subst compact_loop.simps) auto
    next
      case pick: (Inr l)
      show ?thesis
      proof (cases l)
        case None
        with go pick less.prems show ?thesis by (subst compact_loop.simps) auto
      next
        case (Some level)
        obtain c st1 where c: "compaction crc api (env n) level config st = (c, st1)" by (metis surj_pair)
        show ?thesis
        proof (cases c)
          case (Inl e)
          with go pick Some c compaction_Inl [OF less.prems(1) c [unfolded Inl]] show ?thesis
            by (subst compact_loop.simps) fastforce
        next
          case (Inr t)
          from compaction_Inr [OF less.prems assms(3) c [unfolded Inr]] obtain recs1 where
            r1: "store_inv crc api recs1 mem st1" "recs_of recs1 (live_of st1) \<subseteq> recs_of recs (live_of st)"
            "weight recs1 (live_of st1) < weight recs (live_of st)"
            "\<forall>key v. reads_as (versions_of recs1 mem st1) key v \<longleftrightarrow> reads_as (versions_of recs mem st) key v"
            by blast
          from less.hyps [OF r1(3,1) versions_fit_mono [OF less.prems(2) r1(2)], of "Suc n" None]
          show ?thesis using go pick Some c Inr r1(4) by (subst compact_loop.simps) fastforce
        qed
      qed
    qed
  qed
qed

section \<open>The size of the outputs\<close>

lemma unat_saturating_add: "unat (saturating_add a b) = min (unat a + unat b) (2 ^ 64 - 1)"
proof (cases "unat a + unat b < 2 ^ 64")
  case True
  then show ?thesis by (simp add: saturating_add_def unat_word_ariths)
next
  case False
  then show ?thesis by (simp add: saturating_add_def unsigned_minus_1_eq_mask mask_eq_exp_minus_1)
qed

definition chunk_small :: "storage_config \<Rightarrow> memtable_record list \<Rightarrow> bool" where
  "chunk_small config rs \<longleftrightarrow> recs_len rs \<le> unat (target_sstable_bytes config) \<or> length rs = 1"

lemma partition_loop_small:
  assumes "partition_loop crc api config rs acc bytes outputs = Inr outs"
    and "unat bytes = recs_len acc" and "recs_len (acc @ rs) < 2 ^ 64"
    and "acc = [] \<or> chunk_small config acc"
  shows "\<exists>ts chunks. outs = outputs @ ts \<and> concat chunks = acc @ rs \<and> list_all (chunk_small config) chunks
    \<and> list_all2 (\<lambda>chunk t. build_output crc api config chunk = Inr t) chunks ts"
  using assms
proof (induction rs arbitrary: acc bytes outputs)
  case Nil
  show ?case
  proof (cases "acc = []")
    case True
    with Nil show ?thesis by (intro exI [of _ "[]"]) simp
  next
    case False
    with Nil obtain t where "build_output crc api config acc = Inr t" "outs = outputs @ [t]"
      by (auto simp: rbind_eq_Inr)
    with False Nil.prems(4) show ?thesis by (intro exI [of _ "[t]"] exI [of _ "[acc]"]) simp
  qed
next
  case (Cons r rs)
  let ?n = "of_nat (rec_len r) :: u64"
  have n: "unat ?n = rec_len r" using Cons.prems(3) by (simp add: unat_of_nat)
  have one: "unat (saturating_add 0 ?n) = recs_len [r]" "chunk_small config [r]"
    using Cons.prems(3) n by (simp_all add: unat_saturating_add chunk_small_def)
  have sum: "unat (saturating_add bytes ?n) = recs_len (acc @ [r])"
    using Cons.prems(2,3) n by (simp add: unat_saturating_add)
  show ?case
  proof (cases "acc \<noteq> [] \<and> saturating_add bytes ?n > target_sstable_bytes config")
    case True
    with Cons.prems(1) obtain t where t: "build_output crc api config acc = Inr t"
      "partition_loop crc api config rs [r] (saturating_add 0 ?n) (outputs @ [t]) = Inr outs"
      by (auto simp: rbind_eq_Inr Let_def rec_len_def)
    from Cons.IH [OF t(2) one(1)] one(2) Cons.prems(3) obtain ts chunks where "outs = (outputs @ [t]) @ ts"
      "concat chunks = [r] @ rs" "list_all (chunk_small config) chunks"
      "list_all2 (\<lambda>chunk t. build_output crc api config chunk = Inr t) chunks ts"
      by auto
    with True t(1) Cons.prems(4) show ?thesis by (intro exI [of _ "t # ts"] exI [of _ "acc # chunks"]) auto
  next
    case False
    then have "chunk_small config (acc @ [r])"
      using one(2) sum by (auto simp: chunk_small_def word_less_nat_alt not_less)
    with Cons.IH [of "acc @ [r]" "saturating_add bytes ?n" outputs] Cons.prems(1,3) False sum show ?thesis
      by (auto simp: Let_def rec_len_def)
  qed
qed

section \<open>Properties\<close>

text \<open>
  C13: compaction does not change what the store answers. Whether it succeeds, is cancelled or
  fails at any file operation, after \<open>compaction\<close> the store is consistent again (live tables and
  files agree, levels are ordered, the handle cache is right), and the newest version of every key,
  hence what a read answers, is what it was. Deletions are dropped only where nothing older is left.
\<close>

theorem compaction_preserves_reads:
  assumes "store_inv crc api recs mem st" and "versions_fit (recs_of recs (live_of st))"
    and "bloom_crate_ok api" and "compaction crc api env level config st = (r, st')"
  shows "\<exists>recs'. store_inv crc api recs' mem st'
     \<and> (\<forall>key v. reads_as (versions_of recs' mem st') key v \<longleftrightarrow> reads_as (versions_of recs mem st) key v)"
proof (cases r)
  case (Inl e)
  with compaction_Inl [OF assms(1)] assms(4) show ?thesis by (intro exI [of _ recs]) simp
next
  case (Inr t)
  with compaction_Inr [OF assms(1-3)] assms(4) show ?thesis by blast
qed

text \<open>
  C15: a client cannot tell whether a compaction ran. A point read after any compaction, successful
  or not, returns the same value as the same read before it.
\<close>

theorem get_after_compaction:
  assumes "store_inv crc api recs mem st" and "versions_fit (recs_of recs (live_of st))"
    and "bloom_crate_ok api" and "compaction crc api env level config st = (r, st')"
    and "\<forall>m \<in> set (mem_records mem). mr_lsn m \<le> s"
  shows "\<exists>x y. fst (ReadManager_get crc api (file_contents (snd st)) key s (ReadManager_new mem (fst st))) = Inr x
     \<and> fst (ReadManager_get crc api (file_contents (snd st')) key s (ReadManager_new mem (fst st'))) = Inr y
     \<and> record_value x = record_value y"
proof -
  obtain recs' where inv': "store_inv crc api recs' mem st'"
    and same: "\<And>v. reads_as (versions_of recs' mem st') key v \<longleftrightarrow> reads_as (versions_of recs mem st) key v"
  proof (cases r)
    case (Inl e)
    with compaction_Inl [OF assms(1)] assms(4) that show thesis by metis
  next
    case (Inr t)
    with compaction_Inr [OF assms(1-3)] assms(4) that show thesis by blast
  qed
  have read: "\<exists>x. fst (ReadManager_get crc api (file_contents (snd u)) key s (ReadManager_new mem (fst u))) = Inr x
      \<and> reads_as (versions_of rs mem u) key (record_value x)" if "store_inv crc api rs mem u" for rs u
    using get_reads [of crc api "file_contents (snd u)" rs "ReadManager_new mem (fst u)" s key] that assms(5)
    by (fastforce simp: store_inv_def versions_of_def ReadManager_new_def)
  obtain x y where "fst (ReadManager_get crc api (file_contents (snd st)) key s (ReadManager_new mem (fst st))) = Inr x"
    "reads_as (versions_of recs mem st) key (record_value x)"
    "fst (ReadManager_get crc api (file_contents (snd st')) key s (ReadManager_new mem (fst st'))) = Inr y"
    "reads_as (versions_of recs' mem st') key (record_value y)"
    using read [OF assms(1)] read [OF inv'] by blast
  moreover have "versions_ok (versions_of recs mem st)" using assms(1) by (simp add: store_inv_iff)
  ultimately show ?thesis using same reads_as_unique by blast
qed

text \<open>
  C24: a compaction that returns an error has not touched the live tables, and every file that
  existed is still there with its contents.
\<close>

theorem compaction_error_harmless:
  assumes "compaction crc api env level config st = (Inl e, st')"
  shows "live_of st' = live_of st \<and> (\<forall>p c. snd st p = Some c \<longrightarrow> snd st' p = Some c)"
proof (cases "compaction_plan crc api env config level (snapshot (fst st)) (snd st)")
  case (Inl e)
  with assms show ?thesis by (simp add: compaction_def)
next
  case (Inr p)
  obtain current inputs merged codecs where p: "p = (current, inputs, merged, codecs)" by (cases p) auto
  obtain q mm1 fs1 where w: "write_outputs crc api env (sm_path (hd current)) (level + 1) 0 codecs (fst st, snd st)
      = (q, mm1, fs1)" by (metis prod.exhaust)
  have "snd st' = fs1 \<and> ms_levels (mm_state (fst st')) = ms_levels (mm_state mm1)"
    using assms w Inr p
    by (auto simp: compaction_def Let_def dest!: publish_Inl split: sum.splits prod.splits)
  with write_outputs_frame [OF w] only_ids_frame [of "fst st" mm1] show ?thesis
    by (auto simp: fs_extends_def)
qed

text \<open>
  C14: the compaction loop ends. On a consistent store \<open>compact_levels\<close> returns, since every
  round moves at least one version down a level; when it returns, with an error or without, the
  store is consistent and answers reads as before.
\<close>

theorem compact_levels_returns:
  assumes "store_inv crc api recs mem st" and "versions_fit (recs_of recs (live_of st))" and "bloom_crate_ok api"
  shows "\<exists>r st' recs'. compact_levels crc api env requested config st = Some (r, st')
     \<and> store_inv crc api recs' mem st'
     \<and> (\<forall>key v. reads_as (versions_of recs' mem st') key v \<longleftrightarrow> reads_as (versions_of recs mem st) key v)"
proof (cases "target_sstable_bytes config = 0 \<or> level_base_bytes config = 0
    \<or> level_size_multiplier config < 2 \<or> max_level0_files config = 0")
  case True
  with assms(1) show ?thesis by (auto simp: compact_levels_def)
next
  case False
  with compact_loop_returns [OF assms, of env config 0 "Some requested"] show ?thesis
    by (simp add: compact_levels_def)
qed

text \<open>
  C23: the inputs of a compaction are closed under overlap. They are live tables of the level and
  the next one, and no other table of these levels has a key in common with them, so no output can
  cover an untouched table of its level and no older version can end up above a newer one.
\<close>

theorem compaction_inputs_closed:
  assumes "store_inv crc api recs mem st"
    and "select_inputs crc api env config level (snapshot (fst st)) (snd st) = Inr (current, inputs)"
  shows "set inputs \<subseteq> live_of st \<and> (\<forall>i \<in> set inputs. sm_level i = level \<or> sm_level i = level + 1)
     \<and> (\<forall>m \<in> live_of st - set inputs. sm_level m = level \<or> sm_level m = level + 1 \<longrightarrow>
          (\<forall>i \<in> set inputs. \<forall>r \<in> set (recs m). \<forall>r' \<in> set (recs i). mr_key r \<noteq> mr_key r'))"
proof -
  have "inputs_ok recs (ms_levels (mm_state (fst st))) level inputs"
    using select_inputs_ok [OF _ _ sn_levels_snapshot assms(2), of recs] assms(1) by (auto simp: store_inv_iff)
  then show ?thesis by (simp add: inputs_ok_def keys_apart_def)
qed

text \<open>
  C25: the outputs of a compaction respect the target size. Each table \<open>partition_output\<close> makes
  holds at most \<open>target_sstable_bytes\<close> of records, or one record that alone is larger.
\<close>

theorem partition_output_bounded:
  assumes "partition_output crc api config merged = Inr outs"
    and "sorted_wrt (<) (map mr_key (table_records (sc_blocks merged)))"
    and "records_fit (table_records (sc_blocks merged))"
  shows "\<forall>t \<in> set outs. recs_len (table_records (sc_blocks t)) \<le> unat (target_sstable_bytes config)
     \<or> length (table_records (sc_blocks t)) = 1"
proof
  fix t assume t: "t \<in> set outs"
  let ?rs = "table_records (sc_blocks merged)"
  have "partition_loop crc api config ?rs [] 0 [] = Inr outs"
    using assms(1) by (simp add: partition_output_def table_records_def block_records_def [abs_def])
  from partition_loop_small [OF this] assms(3) obtain chunks where ch: "concat chunks = ?rs"
    "list_all (chunk_small config) chunks" "list_all2 (\<lambda>chunk t. build_output crc api config chunk = Inr t) chunks outs"
    by (auto simp: records_fit_def)
  from t obtain j where j: "j < length outs" "outs ! j = t" by (auto simp: in_set_conv_nth)
  then have c: "chunks ! j \<in> set chunks" "build_output crc api config (chunks ! j) = Inr t"
    using ch(3) by (auto simp: list_all2_conv_all_nth)
  note srt = sorted_chunks [OF assms(2) [folded ch(1)] c(1)]
  have "versions_fit (set ?rs)"
    using assms(2,3) by (auto simp: versions_fit_def records_fit_def recs_len_def strict_sorted_iff distinct_map
        sum_list_distinct_conv_sum_set)
  then have "records_fit (chunks ! j)"
    by (rule versions_fit_list) (use srt ch(1) in \<open>auto simp: strict_sorted_iff distinct_map\<close>)
  from pack_blocks_records(1) [OF build_output_Inr(1) [OF c(2)] srt(1) this] ch(2) c(1)
  show "recs_len (table_records (sc_blocks t)) \<le> unat (target_sstable_bytes config)
     \<or> length (table_records (sc_blocks t)) = 1"
    by (auto simp: list_all_iff chunk_small_def)
qed

section \<open>Witnesses\<close>

text \<open>The store of the read witnesses, with its one table file on disk, and an undisturbed environment.\<close>

definition sample_store :: "bytes manifest_manager \<times> files" where
  "sample_store =
     (rm_manifest sample_reader, [[0x61] \<mapsto> table_file (\<lambda>_. 0) word_bloom sample_table])"

abbreviation sample_mem :: memtable where "sample_mem \<equiv> rm_memtable sample_reader"

definition quiet_env :: compaction_env where
  "quiet_env = \<lparr>ce_cancelled = \<lambda>_. False, ce_faults = \<lambda>_ _. None, ce_append = AppendOk\<rparr>"

lemma reader_collapse: "ReadManager_new (rm_memtable rm) (rm_manifest rm) = rm"
  by (cases rm) (simp add: ReadManager_new_def)

lemma sample_file: "snd sample_store [0x61] = Some (table_file (\<lambda>_. 0) word_bloom sample_table)"
  by (simp add: sample_store_def)

lemma sample_store_levels: "ms_levels (mm_state (fst sample_store)) = [(0, [(7, sample_meta 7)])]"
  by (simp add: sample_store_def sample_reader_def)

lemma sample_manifest_ok: "manifest_ok [(0, [(7, sample_meta 7)])]"
  by (auto simp: manifest_ok_def tables_def live_def ran_def inj_on_def sample_meta_def split: if_splits)

lemma sample_live: "live_of sample_store = {sample_meta 7}"
  unfolding sample_store_levels by (auto simp: live_def ran_def tables_def split: if_splits)

lemma sample_store_holds:
  "table_holds (\<lambda>_. 0) word_bloom (file_contents (snd sample_store)) (sample_meta 7) (sample_recs m)"
  using sample_table_holds
  by (simp add: table_holds_def sample_store_def file_contents_def sample_meta_def)

lemma sample_store_inv: "store_inv (\<lambda>_. 0) word_bloom sample_recs sample_mem sample_store"
proof -
  have "ids_below (mm_state (fst sample_store))"
    by (simp add: ids_below_def sample_store_levels tables_def sample_store_def sample_reader_def)
  moreover have "cache_ok (file_contents (snd sample_store)) (fst sample_store)"
    by (simp add: cache_ok_def sample_store_def sample_reader_def lru_new_def)
  moreover have "store_ok sample_recs sample_mem [(0, [sample_meta 7])]"
    using sample_reader_ok unfolding reader_ok_def sample_levels by blast
  ultimately show ?thesis
    using sample_store_holds sample_manifest_ok
    by (simp add: store_inv_def reader_ok_def ReadManager_new_def sample_store_levels snapshot_levels_def
        bt_values_def)
qed

lemma sample_fit: "versions_fit (recs_of sample_recs (live_of sample_store))"
  by (simp add: sample_live recs_of_def versions_fit_def sample_record_def rec_len_def record_length_def)

lemma word_bloom_crate: "bloom_crate_ok word_bloom"
  by (simp add: bloom_crate_ok_def word_bloom_ok word_bloom_wf word_bloom_shape)

theorem compaction_preserves_reads_witness:
  "\<exists>recs'. store_inv (\<lambda>_. 0) word_bloom recs' sample_mem
            (snd (compaction (\<lambda>_. 0) word_bloom quiet_env 0 StorageConfig_default sample_store))
     \<and> reads_as (versions_of recs' sample_mem
            (snd (compaction (\<lambda>_. 0) word_bloom quiet_env 0 StorageConfig_default sample_store))) [1] (Some [7])"
proof -
  have "reads_as (versions_of sample_recs sample_mem sample_store) [1] (Some [7])"
    using sample_reads by (simp add: versions_of_def sample_store_def reader_collapse)
  with compaction_preserves_reads [OF sample_store_inv sample_fit word_bloom_crate prod.collapse [symmetric],
      of quiet_env 0 StorageConfig_default]
  show ?thesis by blast
qed

theorem get_after_compaction_witness:
  "\<exists>x y. fst (ReadManager_get (\<lambda>_. 0) word_bloom (file_contents (snd sample_store)) [1] 9
               (ReadManager_new sample_mem (fst sample_store))) = Inr x
     \<and> fst (ReadManager_get (\<lambda>_. 0) word_bloom
           (file_contents (snd (snd (compaction (\<lambda>_. 0) word_bloom quiet_env 0 StorageConfig_default sample_store)))) [1] 9
           (ReadManager_new sample_mem
              (fst (snd (compaction (\<lambda>_. 0) word_bloom quiet_env 0 StorageConfig_default sample_store))))) = Inr y
     \<and> record_value x = record_value y"
  using get_after_compaction [OF sample_store_inv sample_fit word_bloom_crate prod.collapse [symmetric] sample_lsn(2)]
  by blast

theorem compaction_error_harmless_witness:
  "live_of (snd (compaction (\<lambda>_. 0) word_bloom quiet_env 5 StorageConfig_default sample_store))
   = live_of sample_store"
proof -
  have "compaction (\<lambda>_. 0) word_bloom quiet_env 5 StorageConfig_default sample_store
    = (Inl (Err (StorageError ''Level not found in manifest'')), sample_store)"
    by (simp add: compaction_def compaction_plan_def check_cancelled_def quiet_env_def select_inputs_def
        sample_store_levels snapshot_levels_def)
  from compaction_error_harmless [OF this] this show ?thesis by simp
qed

theorem compact_levels_returns_witness:
  "\<exists>r st'. compact_levels (\<lambda>_. 0) word_bloom (\<lambda>_. quiet_env) 0 StorageConfig_default sample_store = Some (r, st')"
  using compact_levels_returns [OF sample_store_inv sample_fit word_bloom_crate, of "\<lambda>_. quiet_env" 0 StorageConfig_default]
  by blast

theorem compaction_inputs_closed_witness:
  "\<exists>current inputs. select_inputs (\<lambda>_. 0) word_bloom quiet_env StorageConfig_default 0
       (snapshot (fst sample_store)) (snd sample_store) = Inr (current, inputs)
     \<and> set inputs \<subseteq> live_of sample_store"
proof -
  have "select_inputs (\<lambda>_. 0) word_bloom quiet_env StorageConfig_default 0
      (snapshot (fst sample_store)) (snd sample_store) = Inr ([sample_meta 7], [sample_meta 7])"
    by (simp add: select_inputs_def sample_store_levels snapshot_levels_def bt_values_def metadata_len_def io_fault_def
        quiet_env_def file_contents_def sample_file sample_meta_def compute_level_range_def compute_meta_range_def
        check_cancelled_def close_overlaps.simps Let_def)
  with compaction_inputs_closed [OF sample_store_inv this] show ?thesis by blast
qed

theorem partition_output_bounded_witness:
  "\<exists>outs. partition_output (\<lambda>_. 0) word_bloom StorageConfig_default sample_table = Inr outs
     \<and> (\<forall>t \<in> set outs. recs_len (table_records (sc_blocks t)) \<le> unat (target_sstable_bytes StorageConfig_default)
          \<or> length (table_records (sc_blocks t)) = 1)"
proof -
  have "\<exists>outs. partition_output (\<lambda>_. 0) word_bloom StorageConfig_default sample_table = Inr outs"
    by (simp add: partition_output_def sample_table_def SSTableCodec_new_def sample_block_def Let_def
        StorageConfig_default_def saturating_add_def record_length_def sample_record_def build_output_def
        flush_winner_def roll_record_def add_record_def BlockBuilder_new_def SSTABLE_BLOCK_SIZE_def
        unwrap_or_default_def finish_blocks_def build_def)
  moreover have "table_records (sc_blocks sample_table) = [sample_record 1, sample_record 2]"
    by (simp add: table_records_def sample_table_def SSTableCodec_new_def sample_block_def block_records_def)
  then have "sorted_wrt (<) (map mr_key (table_records (sc_blocks sample_table)))"
    "records_fit (table_records (sc_blocks sample_table))"
    by (simp_all add: sample_record_def records_fit_def rec_len_def record_length_def)
  ultimately show ?thesis using partition_output_bounded by blast
qed

end
