(* ===== verification/Histories.thy ===== *)
theory Histories
  imports Compactions Write_Component
begin

text \<open>
  The abstract engine: a map from keys to values, changed by batches of puts and deletes. A history is
  the list of commands written so far with increasing LSNs; the versions a store holds come from it.
  The lemmas say which sets of versions read like a history.
\<close>

section \<open>The abstract map\<close>

definition apply_operation :: "batch_operation \<Rightarrow> (bytes \<rightharpoonup> bytes) \<Rightarrow> (bytes \<rightharpoonup> bytes)" where
  "apply_operation op m = (case op of Batch_Put key v \<Rightarrow> m(key \<mapsto> v) | Batch_Delete key \<Rightarrow> m(key := None))"

definition kv_contents :: "batch_operation list list \<Rightarrow> bytes \<rightharpoonup> bytes" where
  "kv_contents batches = fold apply_operation (concat batches) Map.empty"

definition apply_command :: "log_command \<Rightarrow> (bytes \<rightharpoonup> bytes) \<Rightarrow> (bytes \<rightharpoonup> bytes)" where
  "apply_command c m = m(lc_key c := (if lc_record_type c = Delete then None else Some (lc_value c)))"

definition kv_map :: "log_command list \<Rightarrow> bytes \<rightharpoonup> bytes" where
  "kv_map H = fold apply_command H Map.empty"

lemma kv_map_simps [simp]:
  "kv_map [] = Map.empty" "kv_map (H @ [c]) = apply_command c (kv_map H)"
  by (simp_all add: kv_map_def)

text \<open>The commands built for some operations change the map as the operations do.\<close>

lemma build_commands_apply:
  "build_commands ops lsn = Some (cs, lsn') \<Longrightarrow> fold apply_command cs m = fold apply_operation ops m"
proof (induction ops arbitrary: lsn cs m)
  case (Cons op ops)
  have "apply_command (operation_command op l) m = apply_operation op m" for l m
    by (simp add: apply_command_def operation_command_def LogCommand_new_def apply_operation_def split: batch_operation.split)
  with Cons show ?case by (fastforce split: option.splits)
qed simp

text \<open>LSNs increase along a history, and a deletion has no value.\<close>

definition history_ok :: "log_command list \<Rightarrow> bool" where
  "history_ok H \<longleftrightarrow>
     sorted_wrt (<) (map lc_lsn H) \<and> (\<forall>c \<in> set H. lc_record_type c = Delete \<longrightarrow> lc_value c = [])"

lemma build_commands_lsns:
  "build_commands ops lsn = Some (cs, lsn') \<Longrightarrow>
     history_ok cs \<and> (\<forall>c \<in> set cs. lsn < lc_lsn c \<and> lc_lsn c \<le> lsn') \<and> lsn \<le> lsn'
     \<and> length cs = length ops"
proof (induction ops arbitrary: lsn cs)
  case (Cons op ops)
  then obtain l cs' where l: "checked_add lsn 1 = Some l" and cs': "build_commands ops l = Some (cs', lsn')"
    and cs: "cs = operation_command op l # cs'" by (auto split: option.splits)
  have "lc_lsn (operation_command op l) = l"
    "lc_record_type (operation_command op l) = Delete \<longrightarrow> lc_value (operation_command op l) = []"
    by (simp_all add: operation_command_def LogCommand_new_def split: batch_operation.split)
  with Cons.IH [OF cs'] checked_add_one_Some(2) [OF l] show ?case
    by (auto simp: cs history_ok_def intro: less_trans order.trans less_imp_le)
qed (simp add: history_ok_def)

section \<open>Records of commands\<close>

definition cmd_record :: "log_command \<Rightarrow> memtable_record" where
  "cmd_record c = with_key (MemtableRecord_new (lc_value c) (lc_record_type c) (lc_lsn c)) (lc_key c)"

lemma cmd_record_sel [simp]:
  "mr_key (cmd_record c) = lc_key c" "mr_lsn (cmd_record c) = lc_lsn c" "mr_type (cmd_record c) = lc_record_type c"
  "mr_value (cmd_record c) = lc_value c"
  by (simp_all add: cmd_record_def with_key_def MemtableRecord_new_def)

lemma history_ok_append:
  "history_ok (H @ cs) \<longleftrightarrow> history_ok H \<and> history_ok cs \<and> (\<forall>c \<in> set H. \<forall>d \<in> set cs. lc_lsn c < lc_lsn d)"
  by (auto simp: history_ok_def sorted_wrt_append)

lemma history_ok_Nil [simp]: "history_ok []"
  by (simp add: history_ok_def)

lemma history_ok_inj: "history_ok H \<Longrightarrow> c \<in> set H \<Longrightarrow> d \<in> set H \<Longrightarrow> lc_lsn c = lc_lsn d \<Longrightarrow> c = d"
  by (auto simp: history_ok_def strict_sorted_iff distinct_map dest: inj_onD)

lemma versions_ok_history:
  assumes "history_ok H" and "set rs \<subseteq> cmd_record ` set H"
  shows "versions_ok rs"
  unfolding versions_ok_def versioned_def
proof (intro allI impI)
  fix k r r'
  assume "(k, r) \<in> set (record_versions rs)" "(k, r') \<in> set (record_versions rs)" and l: "mr_lsn r = mr_lsn r'"
  then have "r \<in> set rs" "r' \<in> set rs" by (auto simp: record_versions_def)
  then obtain c d where "c \<in> set H" "d \<in> set H" "r = cmd_record c" "r' = cmd_record d" using assms(2) by blast
  moreover from this l have "c = d" by (intro history_ok_inj [OF assms(1)]) simp_all
  ultimately show "r = r'" by simp
qed

text \<open>The last command of a key decides.\<close>

lemma kv_map_last:
  assumes "history_ok H" and "c \<in> set H" and "\<forall>d \<in> set H. lc_key d = lc_key c \<longrightarrow> lc_lsn d \<le> lc_lsn c"
  shows "kv_map H (lc_key c) = record_value (Some (cmd_record c))"
  using assms
proof (induction H rule: rev_induct)
  case (snoc d H)
  show ?case
  proof (cases "lc_key d = lc_key c")
    case True
    then have "lc_lsn d \<le> lc_lsn c" using snoc.prems(3) by simp
    moreover have "lc_lsn c \<le> lc_lsn d" using snoc.prems(1,2) by (auto simp: history_ok_append intro: less_imp_le)
    ultimately have "d = c" using history_ok_inj [OF snoc.prems(1)] snoc.prems(2) by simp
    then show ?thesis by (simp add: apply_command_def record_value_def)
  next
    case False
    then have "c \<in> set H" using snoc.prems(2) by auto
    with False snoc show ?thesis by (simp add: apply_command_def history_ok_append)
  qed
qed simp

lemma kv_map_absent: "\<forall>d \<in> set H. lc_key d \<noteq> key \<Longrightarrow> kv_map H key = None"
  by (induction H rule: rev_induct) (auto simp: apply_command_def)

lemma kv_map_append_absent:
  assumes "\<forall>d \<in> set cs. lc_key d \<noteq> key"
  shows "kv_map (H @ cs) key = kv_map H key"
proof -
  have "fold apply_command cs m key = m key" for m using assms by (induction cs arbitrary: m) (auto simp: apply_command_def)
  then show ?thesis by (simp add: kv_map_def)
qed

section \<open>Versions that read like a history\<close>

definition reads_like :: "memtable_record list \<Rightarrow> log_command list \<Rightarrow> bool" where
  "reads_like rs H \<longleftrightarrow> (\<forall>key v. reads_as rs key v \<longleftrightarrow> v = kv_map H key)"

lemma reads_as_cong: "set rs = set rs' \<Longrightarrow> reads_as rs key v \<longleftrightarrow> reads_as rs' key v"
  unfolding reads_as_def by (simp only: is_best_cong [of rs rs'])

lemma reads_as_other:
  assumes "set rs' = set rs \<union> X" and "\<forall>x \<in> X. mr_key x \<noteq> key"
  shows "reads_as rs' key v \<longleftrightarrow> reads_as rs key v"
proof -
  have "is_best rs' key b \<longleftrightarrow> is_best rs key b" for b
    using assms by (cases b) (auto simp: is_best_def latest_rec_def)
  then show ?thesis by (simp add: reads_as_def)
qed

text \<open>A key that occurs in the last commands \<open>cs\<close> reads as after them, whatever else is stored.\<close>

lemma reads_as_last:
  assumes ok: "history_ok (H @ cs)" and sub: "set rs \<subseteq> cmd_record ` set (H @ cs)" and cs: "cmd_record ` set cs \<subseteq> set rs"
    and key: "d \<in> set cs" "lc_key d = key"
  shows "reads_as rs key v \<longleftrightarrow> v = kv_map (H @ cs) key"
proof -
  let ?ls = "lc_lsn ` {c \<in> set cs. lc_key c = key}"
  have "Max ?ls \<in> ?ls" using key by (intro Max_in) auto
  then obtain c where c: "c \<in> set cs" "lc_key c = key" "lc_lsn c = Max ?ls" by auto
  have top: "lc_lsn d \<le> lc_lsn c" if "d \<in> set (H @ cs)" "lc_key d = key" for d
  proof (cases "d \<in> set cs")
    case True
    then show ?thesis unfolding c(3) using that by (intro Max_ge) auto
  next
    case False
    then show ?thesis using that c(1) ok by (auto simp: history_ok_append intro: less_imp_le)
  qed
  have "latest_rec rs key (cmd_record c)" using c cs sub top by (fastforce simp: latest_rec_def)
  then have "reads_as rs key (record_value (Some (cmd_record c)))"
    unfolding reads_as_def by (intro exI [of _ "Some (cmd_record c)"]) (simp add: is_best_def)
  moreover have "kv_map (H @ cs) key = record_value (Some (cmd_record c))"
    using kv_map_last [OF ok, of c] c top by auto
  ultimately show ?thesis using reads_as_unique [OF versions_ok_history [OF ok sub]] by metis
qed

lemma reads_like_append:
  assumes ok: "history_ok (H @ cs)" and sub: "set rs \<subseteq> cmd_record ` set H" and like: "reads_like rs H"
    and rs': "set rs' = set rs \<union> cmd_record ` set cs"
  shows "reads_like rs' (H @ cs)"
  unfolding reads_like_def
proof (intro allI)
  fix key v
  show "reads_as rs' key v \<longleftrightarrow> v = kv_map (H @ cs) key"
  proof (cases "\<exists>d \<in> set cs. lc_key d = key")
    case True
    then obtain d where d: "d \<in> set cs" "lc_key d = key" by blast
    show ?thesis by (rule reads_as_last [OF ok _ _ d]) (use sub rs' in auto)
  next
    case False
    then show ?thesis using reads_as_other [OF rs'] like by (auto simp: reads_like_def kv_map_append_absent)
  qed
qed

text \<open>Adding the last commands, of which the store may hold some, restores the history.\<close>

lemma reads_like_recover:
  assumes ok: "history_ok (H0 @ cs)" and like: "reads_like rs (H0 @ cs)"
    and rs: "set rs = M \<union> T" and T: "T \<subseteq> cmd_record ` set (H0 @ cs)" and M: "M \<subseteq> cmd_record ` set cs"
    and rs': "set rs' = cmd_record ` set cs \<union> T"
  shows "reads_like rs' (H0 @ cs)"
  unfolding reads_like_def
proof (intro allI)
  fix key v
  show "reads_as rs' key v \<longleftrightarrow> v = kv_map (H0 @ cs) key"
  proof (cases "\<exists>d \<in> set cs. lc_key d = key")
    case True
    then obtain d where d: "d \<in> set cs" "lc_key d = key" by blast
    show ?thesis by (rule reads_as_last [OF ok _ _ d]) (use T rs' in auto)
  next
    case False
    have "set rs' = set rs \<union> cmd_record ` set cs" using rs rs' M by blast
    then show ?thesis using reads_as_other [of rs' rs "cmd_record ` set cs" key v] False like by (auto simp: reads_like_def)
  qed
qed

section \<open>The memtable\<close>

lemma set_bt_insert: "bt_ok m \<Longrightarrow> k \<notin> fst ` set m \<Longrightarrow> set (bt_insert k v m) = insert (k, v) (set m)"
  by (induction k v m rule: bt_insert.induct) auto

lemma mem_ok_insert:
  assumes "mem_ok mem" and "mr_lsn r = l"
  shows "mem_ok (bt_insert (k, l) r mem)"
proof -
  have "mr_lsn r' = l'" if "((k', l'), r') \<in> set (bt_insert (k, l) r mem)" for k' l' r'
    using bt_insert_in [OF that] assms by (auto simp: mem_ok_def)
  with assms(1) show ?thesis by (auto simp: mem_ok_def)
qed

lemma mem_ok_Nil [simp]: "mem_ok []"
  by (simp add: mem_ok_def)

lemma mem_records_insert:
  assumes "mem_ok mem" and "\<forall>m \<in> set (mem_records mem). mr_lsn m \<noteq> l"
  shows "set (mem_records (bt_insert (k, l) r mem)) = insert (with_key r k) (set (mem_records mem))"
proof -
  have "(k, l) \<notin> fst ` set mem"
  proof
    assume "(k, l) \<in> fst ` set mem"
    then obtain r' where "((k, l), r') \<in> set mem" by auto
    then have "with_key r' k \<in> set (mem_records mem)" "mr_lsn (with_key r' k) = l"
      using mem_ok_entry [OF assms(1)] by (force simp: mem_records_def, simp add: with_key_def)
    with assms(2) show False by blast
  qed
  with assms(1) have "set (bt_insert (k, l) r mem) = insert ((k, l), r) (set mem)" by (simp add: set_bt_insert mem_ok_def)
  then show ?thesis by (simp add: mem_records_def)
qed

text \<open>What a list of commands leaves in a memtable that has none of them.\<close>

definition insert_commands :: "log_command list \<Rightarrow> memtable \<Rightarrow> memtable" where
  "insert_commands cs mem =
     fold (\<lambda>c. bt_insert (lc_key c, lc_lsn c) (MemtableRecord_new (lc_value c) (lc_record_type c) (lc_lsn c))) cs mem"

lemma insert_commands_ok:
  assumes "mem_ok mem" and "history_ok cs" and "\<forall>m \<in> set (mem_records mem). \<forall>c \<in> set cs. mr_lsn m < lc_lsn c"
  shows "mem_ok (insert_commands cs mem) \<and> set (mem_records (insert_commands cs mem)) = set (mem_records mem) \<union> cmd_record ` set cs"
  using assms
proof (induction cs rule: rev_induct)
  case (snoc c cs)
  let ?mem = "insert_commands cs mem" and ?r = "MemtableRecord_new (lc_value c) (lc_record_type c) (lc_lsn c)"
  have ih: "mem_ok ?mem" "set (mem_records ?mem) = set (mem_records mem) \<union> cmd_record ` set cs"
    using snoc by (auto simp: history_ok_append)
  have "\<forall>m \<in> set (mem_records ?mem). mr_lsn m \<noteq> lc_lsn c" using snoc.prems(2,3) by (auto simp: ih(2) history_ok_append)
  then have "set (mem_records (bt_insert (lc_key c, lc_lsn c) ?r ?mem)) = insert (cmd_record c) (set (mem_records ?mem))"
    using mem_records_insert [OF ih(1)] by (simp add: cmd_record_def)
  moreover have "mem_ok (bt_insert (lc_key c, lc_lsn c) ?r ?mem)"
    by (rule mem_ok_insert [OF ih(1)]) (simp add: MemtableRecord_new_def)
  moreover have "insert_commands (cs @ [c]) mem = bt_insert (lc_key c, lc_lsn c) ?r ?mem" by (simp add: insert_commands_def)
  ultimately show ?case by (simp add: ih(2))
qed (simp add: insert_commands_def)

lemma append_to_memtable_sel [simp]:
  "wc_memtable (append_to_memtable k v t l w) = bt_insert (k, l) (MemtableRecord_new v t l) (wc_memtable w)"
  "wc_sequence_number (append_to_memtable k v t l w) = wc_sequence_number w"
  "wc_payload_mode (append_to_memtable k v t l w) = wc_payload_mode w"
  "wc_checkpoint_owner (append_to_memtable k v t l w) = wc_checkpoint_owner w"
  "wc_config (append_to_memtable k v t l w) = wc_config w"
  "wc_sstable_dir (append_to_memtable k v t l w) = wc_sstable_dir w"
  by (simp_all add: append_to_memtable_def Let_def)

lemma append_commands_Cons [simp]:
  "append_commands (c # cs) w = append_commands cs (append_to_memtable (lc_key c) (lc_value c) (lc_record_type c) (lc_lsn c) w)"
  "append_commands [] w = w"
  by (simp_all add: append_commands_def)

lemma append_commands_sel [simp]:
  "wc_sequence_number (append_commands cs w) = wc_sequence_number w"
  "wc_payload_mode (append_commands cs w) = wc_payload_mode w"
  "wc_checkpoint_owner (append_commands cs w) = wc_checkpoint_owner w"
  "wc_config (append_commands cs w) = wc_config w"
  "wc_sstable_dir (append_commands cs w) = wc_sstable_dir w"
  by (induction cs arbitrary: w) simp_all

lemma append_commands_size:
  "wc_memtable_size w = wc_memtable_size w' \<Longrightarrow> wc_memtable_size (append_commands cs w) = wc_memtable_size (append_commands cs w')"
  by (induction cs arbitrary: w w') (simp_all add: append_to_memtable_def Let_def)

lemma append_commands_mem [simp]: "wc_memtable (append_commands cs w) = insert_commands cs (wc_memtable w)"
  by (induction cs arbitrary: w) (simp_all add: insert_commands_def)

end
