(* ===== verification/Flush_Correct.thy ===== *)
theory Flush_Correct
  imports Histories
begin

text \<open>
  What a flush does to the store (\<open>flush_inner\<close> of \<open>src/storage/writemanager/write.rs\<close>): the table it writes
  holds the newest version of every key of the memtable, the check of the blocks against the snapshot
  never fails, registering the table keeps the store consistent and changes no answer, and neither does
  removing the flushed entries from the memtable afterwards.
\<close>

section \<open>The newest records of the memtable\<close>

definition entry_records :: "(bytes, memtable_record) btree_map \<Rightarrow> memtable_record list" where
  "entry_records valid = map (\<lambda>(k, r). with_key r k) valid"

lemma entry_records_simps [simp]:
  "entry_records [] = []" "entry_records ((k, r) # es) = with_key r k # entry_records es"
  by (simp_all add: entry_records_def)

lemma entry_records_keys: "map mr_key (entry_records valid) = map fst valid"
  by (induction valid) (auto simp: with_key_def)

lemma valid_records_ok: "bt_ok (valid_records mem)"
  by (simp add: valid_records_def)

lemma valid_records_newest:
  "holds_newest (valid_records mem) (set (map (\<lambda>((k, l), r). (k, r)) mem))"
  unfolding valid_records_def by (rule flush_newest.merged_from_empty)

lemma entry_records_sorted: "sorted_wrt (<) (map mr_key (entry_records (valid_records mem)))"
  using valid_records_ok [of mem] by (simp add: entry_records_keys bt_ok_def)

text \<open>Each flushed record is in the memtable and newest for its key, and every key is flushed.\<close>

lemma entry_records_newest:
  shows "set (entry_records (valid_records mem)) \<subseteq> set (mem_records mem)"
    and "r \<in> set (entry_records (valid_records mem)) \<Longrightarrow> m \<in> set (mem_records mem) \<Longrightarrow> mr_key m = mr_key r \<Longrightarrow>
           mr_lsn m \<le> mr_lsn r"
    and "m \<in> set (mem_records mem) \<Longrightarrow> \<exists>r \<in> set (entry_records (valid_records mem)). mr_key r = mr_key m"
proof -
  let ?vs = "set (map (\<lambda>((k, l), r). (k, r)) mem)"
  have n: "newest ?vs k r" if "(k, r) \<in> set (valid_records mem)" for k r
    using that valid_records_newest [of mem] bt_ok_in_set [OF valid_records_ok] by (simp add: holds_newest_def)
  have vs: "(k, r) \<in> ?vs \<Longrightarrow> with_key r k \<in> set (mem_records mem)" for k r by (force simp: mem_records_def)
  show "set (entry_records (valid_records mem)) \<subseteq> set (mem_records mem)"
    using n vs by (auto simp: entry_records_def newest_def)
  show "mr_lsn m \<le> mr_lsn r"
    if r: "r \<in> set (entry_records (valid_records mem))" and m: "m \<in> set (mem_records mem)" and k: "mr_key m = mr_key r"
  proof -
    obtain k' r' where r': "(k', r') \<in> set (valid_records mem)" "r = with_key r' k'" using r by (auto simp: entry_records_def)
    obtain l m' where m': "((mr_key m, l), m') \<in> set mem" "m = with_key m' (mr_key m)"
      using m by (auto simp: mem_records_def with_key_def)
    have "(mr_key m, m') \<in> ?vs" using m'(1) by force
    moreover have "k' = mr_key m" using k r'(2) by (simp add: with_key_def)
    ultimately have "mr_lsn m' \<le> mr_lsn r'" using n [OF r'(1)] by (simp add: newest_def)
    moreover have "mr_lsn m = mr_lsn m'" using m'(2) by (metis with_key_def memtable_record.select_convs(2) memtable_record.surjective memtable_record.update_convs(3))
    ultimately show ?thesis using r'(2) by (simp add: with_key_def)
  qed
  show "\<exists>r \<in> set (entry_records (valid_records mem)). mr_key r = mr_key m" if m: "m \<in> set (mem_records mem)"
  proof -
    obtain k l m' where m': "((k, l), m') \<in> set mem" "m = with_key m' k" using m by (auto simp: mem_records_def)
    then have "(k, m') \<in> ?vs" by force
    then have "map_of (valid_records mem) k \<noteq> None" using valid_records_newest [of mem] unfolding holds_newest_def by blast
    then obtain r where "(k, r) \<in> set (valid_records mem)" by (meson map_of_SomeD not_Some_eq)
    then have "with_key r k \<in> set (entry_records (valid_records mem))" by (force simp: entry_records_def)
    then show ?thesis using m'(2) by (intro bexI) (simp_all add: with_key_def)
  qed
qed

lemma entry_records_distinct: "distinct (entry_records (valid_records mem))"
  using entry_records_sorted [of mem] by (simp add: strict_sorted_iff distinct_map)

section \<open>The table\<close>

lemma add_record_with_key [simp]: "add_record crc bb key (with_key r k) = add_record crc bb key r"
  by (simp add: add_record_def with_key_def record_length_def Let_def)

text \<open>The block loop is the packing of the records, with their keys filled in.\<close>

lemma flush_entries_roll:
  "map_sum id (\<lambda>fl. (fl_builder fl, fl_blocks fl)) (flush_entries crc api es fl)
   = roll_records crc (entry_records es) (fl_builder fl, fl_blocks fl)"
proof (induction es arbitrary: fl)
  case (Cons e es)
  obtain k r where e: "e = (k, r)" by (cases e)
  have one: "map_sum id (\<lambda>fl. (fl_builder fl, fl_blocks fl)) (flush_entry crc api e fl)
      = roll_record crc k (with_key r k) (fl_builder fl, fl_blocks fl)"
    by (auto simp: e flush_entry_def roll_record_def rbind_def Let_def
        split: sum.splits prod.splits block_builder_state.splits)
  have key: "mr_key (with_key r k) = k" by (simp add: with_key_def)
  show ?case
  proof (cases "flush_entry crc api e fl")
    case (Inl x)
    with one show ?thesis by (cases "roll_record crc k (with_key r k) (fl_builder fl, fl_blocks fl)") (simp_all add: e key)
  next
    case (Inr fl')
    with one have "roll_record crc k (with_key r k) (fl_builder fl, fl_blocks fl) = Inr (fl_builder fl', fl_blocks fl')" by simp
    with Inr Cons.IH [of fl'] show ?thesis by (simp add: e key)
  qed
qed simp

definition index_of_blocks :: "sparse_index_entry list \<Rightarrow> block list \<Rightarrow> bool" where
  "index_of_blocks index blocks \<longleftrightarrow>
     map si_first_key index = map b_first_key blocks \<and> map si_last_key index = map b_last_key blocks"

lemma flush_entries_Inr:
  "flush_entries crc api es fl = Inr fl' \<Longrightarrow>
     fl_bloom fl' = bloom_insert_all api (map fst es) (fl_bloom fl)
     \<and> (index_of_blocks (fl_sparse_index fl) (fl_blocks fl) \<longrightarrow> index_of_blocks (fl_sparse_index fl') (fl_blocks fl'))"
proof (induction es arbitrary: fl)
  case (Cons e es)
  then obtain fl1 where fl1: "flush_entry crc api e fl = Inr fl1" "flush_entries crc api es fl1 = Inr fl'"
    by (auto simp: rbind_eq_Inr)
  have "fl_bloom fl1 = bloom_insert api (fst e) (fl_bloom fl)
      \<and> (index_of_blocks (fl_sparse_index fl) (fl_blocks fl) \<longrightarrow> index_of_blocks (fl_sparse_index fl1) (fl_blocks fl1))"
  proof -
    obtain bb state where add: "add_record crc (fl_builder fl) (fst e) (snd e) = Inr (bb, state)"
      using fl1(1) by (auto simp: flush_entry_def rbind_eq_Inr Let_def)
    show ?thesis
    proof (cases state)
      case EnoughSpace
      with add fl1(1) show ?thesis by (auto simp: flush_entry_def Let_def)
    next
      case (Full block bytes)
      with add fl1(1) show ?thesis
        by (auto simp: flush_entry_def Let_def rbind_eq_Inr index_of_blocks_def sparse_entry_def)
    qed
  qed
  with Cons.IH [OF fl1(2)] show ?case by simp
qed simp

lemma range_from_index_blocks: "index_of_blocks index blocks \<Longrightarrow> range_from_index index = range_from_blocks blocks"
proof -
  assume i: "index_of_blocks index blocks"
  show ?thesis
  proof (cases "blocks = []")
    case True
    with i have "index = []" by (simp add: index_of_blocks_def)
    with True show ?thesis by (simp add: range_from_index_def range_from_blocks_def)
  next
    case False
    with i have ne: "index \<noteq> []" by (auto simp: index_of_blocks_def)
    have "si_first_key (hd index) = b_first_key (hd blocks)" "si_last_key (last index) = b_last_key (last blocks)"
      using i ne False unfolding index_of_blocks_def by (metis list.map_sel(1), metis last_map)
    with ne False show ?thesis by (simp add: range_from_index_def range_from_blocks_def)
  qed
qed

lemma check_coverage_ok:
  assumes "distinct (map fst es)" and "set (map fst es) \<inter> set keys = {}" and "\<forall>(k, r) \<in> set es. map_of valid k = Some r"
  shows "check_coverage valid (entry_records es) keys = Inr (rev (map fst es) @ keys)"
  using assms
proof (induction es arbitrary: keys)
  case (Cons e es)
  obtain k r where e: "e = (k, r)" by (cases e)
  show ?case using Cons.IH [of "k # keys"] Cons.prems by (auto simp: e with_key_def)
qed simp

lemma flush_table_pack:
  assumes bt: "bt_ok valid" and fit: "records_fit (entry_records valid)" and ne: "map fst valid \<noteq> [[]]"
  shows "\<exists>t. flush_table crc api config valid = Inr t \<and> pack_blocks crc (entry_records valid) = Inr (sc_blocks t)
     \<and> sc_bloom t = bloom_insert_all api (map mr_key (entry_records valid))
          (bloom_with_rate api (length valid + 10) (bloom_false_positive_rate config))
     \<and> range_from_index (sc_index t) = range_from_blocks (sc_blocks t)"
proof -
  let ?rs = "entry_records valid"
  let ?fl = "\<lparr>fl_builder = BlockBuilder_new 0, fl_blocks = [], fl_sparse_index = [],
      fl_bloom = bloom_with_rate api (length valid + 10) (bloom_false_positive_rate config), fl_encoded_offset = 0\<rparr>"
  have srt: "sorted_wrt (<) (map mr_key ?rs)" using bt by (simp add: entry_records_keys bt_ok_def)
  obtain blocks where pack: "pack_blocks crc ?rs = Inr blocks"
    using pack_blocks_ok [OF srt, of crc] fit ne by (auto simp: records_fit_def entry_records_keys)
  then obtain bb bs lb where roll: "roll_records crc ?rs (BlockBuilder_new 0, []) = Inr (bb, bs)"
    and b: "build bb = Inr lb" "blocks = (case lb of None \<Rightarrow> bs | Some (b, _) \<Rightarrow> bs @ [b])"
    by (auto simp: pack_blocks_def rbind_eq_Inr)
  from flush_entries_roll [of crc api valid ?fl] roll obtain fl where
    fl: "flush_entries crc api valid ?fl = Inr fl" "fl_builder fl = bb" "fl_blocks fl = bs"
    by (cases "flush_entries crc api valid ?fl") auto
  note i = flush_entries_Inr [OF fl(1)]
  obtain fl' where fl': "flush_last fl = Inr fl'" "fl_blocks fl' = blocks" "fl_bloom fl' = fl_bloom fl"
    "index_of_blocks (fl_sparse_index fl') blocks"
  proof (cases lb)
    case None
    with that [of fl] b fl i show thesis by (simp add: flush_last_def index_of_blocks_def)
  next
    case (Some p)
    obtain l y where p: "p = (l, y)" by (cases p)
    show thesis
    proof (rule that)
      show "flush_last fl = Inr (fl\<lparr>fl_sparse_index := fl_sparse_index fl @ [sparse_entry (fl_encoded_offset fl) l],
          fl_blocks := fl_blocks fl @ [l]\<rparr>)" using Some p b fl by (simp add: flush_last_def)
    qed (use Some p b fl i in \<open>simp_all add: index_of_blocks_def sparse_entry_def\<close>)
  qed
  have recs: "concat (map (\<lambda>b. case b_data b of Some rs \<Rightarrow> rs | None \<Rightarrow> []) blocks) = ?rs"
    using pack_blocks_records(1) [OF pack srt fit] by (simp add: table_records_def block_records_def [abs_def] cong: option.case_cong)
  have cov: "check_coverage valid ?rs [] = Inr (rev (map fst valid) @ [])"
    by (rule check_coverage_ok) (use bt_ok_distinct [OF bt] bt_ok_in_set [OF bt] in auto)
  have "flush_table crc api config valid = Inr (SSTableCodec_new blocks (fl_sparse_index fl') (fl_bloom fl'))"
    using fl fl' recs cov by (simp add: flush_table_def)
  with pack fl' i range_from_index_blocks [OF fl'(4)] show ?thesis
    by (intro exI [of _ "SSTableCodec_new blocks (fl_sparse_index fl') (fl_bloom fl')"])
      (simp add: SSTableCodec_new_def entry_records_keys)
qed

section \<open>Writing the table\<close>

lemma write_flush_created:
  assumes "write_flush_table crc api env dir n table (mm, fs) = (r, mm', fs')"
  shows "only_ids mm mm' \<and> fs_extends fs fs'"
proof -
  obtain enc footer where ser: "serialize crc api table = (enc, footer)" by force
  obtain c mm1 where c: "create_table_file (level0_path dir) (\<lambda>_. Inr ()) (fe_faults env) fs mm = (c, mm1)" by force
  note created = create_table_file_ok [OF c]
  show ?thesis
  proof (cases "isize_max < length enc \<or> range_from_index (sc_index table) = None
      \<or> io_fault (fe_faults env) MakeDirs (level0_dir dir) \<noteq> Inr ()")
    case True
    with assms ser have "mm' = mm \<and> fs' = fs" by (auto simp: write_flush_table_def split: option.splits sum.splits if_splits)
    then show ?thesis by simp
  next
    case False
    show ?thesis
    proof (cases c)
      case (Inl e)
      with False assms ser c created show ?thesis by (auto simp: write_flush_table_def split: option.splits)
    next
      case (Inr p)
      obtain i path where p: "p = (i, path)" by (cases p)
      have none: "fs path = None" using created Inr p by blast
      have "mm' = mm1 \<and> (\<forall>q. q \<noteq> path \<longrightarrow> fs' q = fs q)"
        using False assms ser c Inr p
        by (auto simp: write_flush_table_def write_table_file_def split: option.splits sum.splits)
      with created fs_extends_new [of fs path fs'] none show ?thesis by blast
    qed
  qed
qed

lemma write_flush_Inr:
  assumes wr: "write_flush_table crc api env dir n table (mm, fs) = (Inr (meta, enc), mm', fs')"
    and rng: "range_from_index (sc_index table) = range_from_blocks (sc_blocks table)"
  shows "describes crc api fs' 0 table meta \<and> fs (sm_path meta) = None
     \<and> ms_next_file_id (mm_state mm) \<le> sm_file_id meta \<and> sm_file_id meta < ms_next_file_id (mm_state mm')
     \<and> sm_path meta = level0_path dir (sm_file_id meta) \<and> sm_record_count meta = of_nat n
     \<and> enc = table_file crc api table"
proof -
  obtain enc' footer where ser: "serialize crc api table = (enc', footer)" by force
  obtain c mm1 where c: "create_table_file (level0_path dir) (\<lambda>_. Inr ()) (fe_faults env) fs mm = (c, mm1)" by force
  note created = create_table_file_ok [OF c]
  have small: "length enc' \<le> isize_max" using wr ser by (auto simp: write_flush_table_def split: if_splits)
  obtain lo hi where lh: "range_from_index (sc_index table) = Some (lo, hi)"
    using wr ser by (auto simp: write_flush_table_def split: if_splits option.splits)
  have dir: "io_fault (fe_faults env) MakeDirs (level0_dir dir) = Inr ()"
    using wr ser lh small by (auto simp: write_flush_table_def split: sum.splits)
  from wr ser lh small dir c obtain i path where p: "c = Inr (i, path)"
    by (cases c) (auto simp: write_flush_table_def)
  have ids: "path = level0_path dir i" "fs path = None" "ms_next_file_id (mm_state mm) \<le> i" "i < ms_next_file_id (mm_state mm1)"
    using created p by blast+
  obtain u fs1 where w: "write_table_file (fe_faults env) path enc' (fs(path \<mapsto> [])) = (u, fs1)" by force
  from wr ser lh small dir c p w obtain v where v: "u = Inr v" by (cases u) (auto simp: write_flush_table_def)
  have "fs1 path = Some enc'" using write_table_file_Inr [OF w [unfolded v]] by simp
  with wr ser lh small dir c p w v ids rng show ?thesis
    by (auto simp: write_flush_table_def describes_def table_file_def rbind_eq_Inr)
qed

section \<open>Registering the table\<close>

lemma register_id_ok:
  assumes "sm_file_id meta < ms_next_file_id (mm_state mm)"
  shows "register_apply meta mm = (Inr (), mm\<lparr>mm_state := (mm_state mm)\<lparr>ms_levels := levels_insert meta (ms_levels (mm_state mm))\<rparr>\<rparr>)"
proof -
  have "\<not> ms_next_file_id (mm_state mm) \<le> sm_file_id meta" using assms by (simp add: not_le)
  then show ?thesis by (simp add: register_apply_def Let_def)
qed

lemma register_cases_state:
  assumes "register_sstable crc io meta mm = (r, mm')" and "sm_file_id meta < ms_next_file_id (mm_state mm)"
  shows "mm_cache mm' = mm_cache mm \<and>
     (case r of Inr _ \<Rightarrow> mm_state mm' = (mm_state mm)\<lparr>ms_levels := levels_insert meta (ms_levels (mm_state mm))\<rparr>
              | Inl _ \<Rightarrow> mm_state mm' = mm_state mm)"
proof -
  have "register_apply meta (mm\<lparr>mm_file := f\<rparr>)
      = (Inr (), mm\<lparr>mm_file := f, mm_state := (mm_state mm)\<lparr>ms_levels := levels_insert meta (ms_levels (mm_state mm))\<rparr>\<rparr>)" for f
    using register_id_ok [of meta "mm\<lparr>mm_file := f\<rparr>"] assms(2) by simp
  with assms(1) show ?thesis
    by (auto simp: register_sstable_def append_then_def append_manifest_entry_def split: sum.splits prod.splits append_io.splits)
qed

text \<open>A table of the newest memtable records, put into level 0 while the memtable still has them.\<close>

lemma flushed_table_inv:
  assumes inv: "store_inv crc api recs mem (mm, fs)" and th: "table_holds crc api (file_contents fs1) meta V"
    and V: "V = entry_records (valid_records mem)" and lev: "sm_level meta = 0"
    and ids: "only_ids mm mm1" "ms_next_file_id (mm_state mm) \<le> sm_file_id meta" "sm_file_id meta < ms_next_file_id (mm_state mm1)"
    and fs: "fs_extends fs fs1" "fs (sm_path meta) = None"
    and st: "mm_state mm2 = (mm_state mm1)\<lparr>ms_levels := levels_insert meta (ms_levels (mm_state mm1))\<rparr>" "mm_cache mm2 = mm_cache mm1"
  shows "store_inv crc api (recs(meta := V)) mem (mm2, fs1)
     \<and> set (versions_of (recs(meta := V)) mem (mm2, fs1)) = set (versions_of recs mem (mm, fs))
     \<and> live_of (mm2, fs1) = insert meta (live_of (mm, fs))"
proof -
  let ?ls = "ms_levels (mm_state mm)" and ?recs = "recs(meta := V)"
  have ok: "manifest_ok ?ls" and below: "ids_below (mm_state mm)" and lo: "live_ok recs (live ?ls)" and mem: "mem_ok mem"
    and ths: "\<forall>m \<in> live ?ls. table_holds crc api (file_contents fs) m (recs m)" and cache: "cache_ok (file_contents fs) mm"
    and new: "\<forall>m \<in> set (mem_records mem). \<forall>r \<in> recs_of recs (live ?ls). mr_key m = mr_key r \<longrightarrow>
          (\<exists>m' \<in> set (mem_records mem). mr_key m' = mr_key r \<and> mr_lsn r \<le> mr_lsn m')"
    and vok: "versions_ok (versions_of recs mem (mm, fs))"
    using inv by (simp_all add: store_inv_iff)
  have frame: "ms_levels (mm_state mm1) = ?ls" "mm_cache mm1 = mm_cache mm" "ms_next_file_id (mm_state mm) \<le> ms_next_file_id (mm_state mm1)"
    using ids(1) by (auto simp: only_ids_def)
  have old_id: "sm_file_id m < sm_file_id meta" if "m \<in> live ?ls" for m
    using live_id_below [OF ok below that] ids(2) by (rule less_le_trans)
  have old_path: "sm_path m \<noteq> sm_path meta" if "m \<in> live ?ls" for m
    using ths that fs(2) by (auto simp: table_holds_def file_contents_def split: option.splits)
  have notin: "meta \<notin> live ?ls" using old_id by blast
  have swap: "manifest_ok (ms_levels (mm_state mm2)) \<and> live (ms_levels (mm_state mm2)) = (live ?ls - set []) \<union> set [meta]"
  proof (rule manifest_swap [OF ok])
    show "levels_bt (ms_levels (mm_state mm2))" using levels_bt_insert [OF manifest_ok_levels_bt [OF ok]] by (simp add: st frame)
    show "sm_file_id ` set [meta] \<inter> sm_file_id ` live ?ls = {}" using old_id by force
    show "sm_path ` set [meta] \<inter> sm_path ` live ?ls = {}" using old_path by force
    show "tables (ms_levels (mm_state mm2)) = (tables ?ls |` (- set (map (fst \<circ> keyed_meta) []))) ++ map_of (rev (map keyed_meta [meta]))"
      by (auto simp: st frame tables_insert keyed_meta_def fun_eq_iff restrict_map_def)
  qed simp_all
  then have live': "live (ms_levels (mm_state mm2)) = insert meta (live ?ls)" by simp
  have same: "?recs m = recs m" if "m \<in> live ?ls" for m using that notin by auto
  have recs': "recs_of ?recs (live (ms_levels (mm_state mm2))) = set V \<union> recs_of recs (live ?ls)"
    unfolding live' using same by (auto simp: recs_of_def)
  have sub: "set V \<subseteq> set (mem_records mem)" unfolding V by (rule entry_records_newest(1))
  have below': "ids_below (mm_state mm2)"
  proof -
    have "sm_file_id m < ms_next_file_id (mm_state mm1)" if "m \<in> live (ms_levels (mm_state mm2))" for m
      using that live' live_id_below [OF ok below] frame(3) ids(3) by (auto intro: less_le_trans)
    then show ?thesis using swap by (fastforce simp: ids_below_def live_def ran_def manifest_ok_def st(1))
  qed
  have newer: "mr_lsn r' \<le> mr_lsn r" if rr: "r \<in> set V" "r' \<in> recs_of recs (live ?ls)" "mr_key r = mr_key r'" for r r'
  proof -
    have r: "r \<in> set (mem_records mem)" using rr(1) sub by blast
    obtain m' where m': "m' \<in> set (mem_records mem)" "mr_key m' = mr_key r'" "mr_lsn r' \<le> mr_lsn m'"
      using bspec [OF bspec [OF new r] rr(2)] rr(3) by blast
    have "mr_lsn m' \<le> mr_lsn r"
      using entry_records_newest(2) [OF rr(1) [unfolded V] m'(1)] m'(2) rr(3) by simp
    with m'(3) show ?thesis by simp
  qed
  have "live_ok ?recs (insert meta (live ?ls))"
    unfolding live_ok_def
  proof (intro ballI impI conjI)
    fix m m' r r'
    assume m: "m \<in> insert meta (live ?ls)" "m' \<in> insert meta (live ?ls)" "r \<in> set (?recs m)" "r' \<in> set (?recs m')"
      and key: "mr_key r = mr_key r'"
    show "mr_lsn r' \<le> mr_lsn r" if lt: "sm_level m < sm_level m'"
    proof -
      have "m' \<noteq> meta" using lt lev by auto
      then have m': "m' \<in> live ?ls" "r' \<in> set (recs m')" using m same by auto
      show ?thesis
      proof (cases "m = meta")
        case True
        then show ?thesis using newer [of r r'] m m' key by (auto simp: recs_of_def)
      next
        case False
        then show ?thesis using live_ok_lsn [OF lo, of m m' r r'] m m' key lt by auto
      qed
    qed
    show "m = m'" if "sm_level m = sm_level m' \<and> sm_level m \<noteq> 0"
    proof -
      have "m \<noteq> meta" "m' \<noteq> meta" using that lev by auto
      then show ?thesis using live_ok_same [OF lo, of m m' r r'] m key that by auto
    qed
  qed
  moreover have vs: "set (versions_of ?recs mem (mm2, fs1)) = set (versions_of recs mem (mm, fs))"
    using set_versions_of [of "(mm2, fs1)" ?recs mem] set_versions_of [of "(mm, fs)" recs mem] swap ok recs' sub by auto
  moreover have "versions_ok (versions_of ?recs mem (mm2, fs1))" using vok versions_ok_cong [OF vs] by simp
  moreover have "\<forall>m \<in> live (ms_levels (mm_state mm2)). table_holds crc api (file_contents fs1) m (?recs m)"
  proof
    fix m assume m: "m \<in> live (ms_levels (mm_state mm2))"
    show "table_holds crc api (file_contents fs1) m (?recs m)"
    proof (cases "m = meta")
      case True
      with th show ?thesis by simp
    next
      case False
      then have "table_holds crc api (file_contents fs) m (recs m)" using m ths live' by blast
      from table_holds_extends [OF this fs(1)] False show ?thesis by simp
    qed
  qed
  moreover have "cache_ok (file_contents fs1) mm2" using cache_ok_extends [OF cache fs(1)] st(2) frame(2) by simp
  moreover have "\<forall>m \<in> set (mem_records mem). \<forall>r \<in> set V \<union> recs_of recs (live ?ls). mr_key m = mr_key r \<longrightarrow>
          (\<exists>m' \<in> set (mem_records mem). mr_key m' = mr_key r \<and> mr_lsn r \<le> mr_lsn m')"
    using new sub by blast
  ultimately show ?thesis using swap below' mem unfolding store_inv_iff by (simp add: live' recs' [unfolded live'])
qed

section \<open>Emptying the memtable\<close>

lemma remove_flushed_eq: "fst (remove_flushed es mem n) = filter (\<lambda>e. fst e \<notin> fst ` set es) mem"
proof (induction es arbitrary: mem n)
  case (Cons e es)
  obtain k r where e: "e = (k, r)" by (cases e)
  show ?case
  proof (cases "map_of mem k")
    case None
    then have "k \<notin> fst ` set mem" by (simp add: map_of_eq_None)
    then have "filter (\<lambda>x. fst x \<notin> fst ` set es) mem = filter (\<lambda>x. fst x \<notin> fst ` set (e # es)) mem"
      by (intro filter_cong) (auto simp: e)
    with None Cons show ?thesis by (simp add: e)
  next
    case (Some r')
    have "filter (\<lambda>x. fst x \<notin> fst ` set es) (bt_remove k mem) = filter (\<lambda>x. fst x \<notin> fst ` set (e # es)) mem"
      by (auto simp: bt_remove_def e filter_filter intro!: filter_cong)
    with Some Cons show ?thesis by (simp add: e)
  qed
qed simp

lemma remove_flushed_all: "fst (remove_flushed mem mem n) = []"
  by (simp add: remove_flushed_eq filter_empty_conv)

lemma flushed_reads:
  assumes vok: "versions_ok rs" and rs: "set rs = M \<union> T" and rs': "set rs' = V \<union> T" and sub: "V \<subseteq> M"
    and newest: "\<And>m. m \<in> M \<Longrightarrow> \<exists>r \<in> V. mr_key r = mr_key m \<and> mr_lsn m \<le> mr_lsn r"
  shows "reads_as rs' key v \<longleftrightarrow> reads_as rs key v"
proof (rule swap_reads [OF vok])
  show "set rs' \<subseteq> set rs" using rs rs' sub by blast
  fix v assume "reads_as rs key v"
  then obtain b where b: "is_best rs key b" "v = record_value b" by (auto simp: reads_as_def)
  have "is_best rs' key b"
  proof (cases b)
    case None
    with b(1) rs rs' sub show ?thesis by (auto simp: is_best_def)
  next
    case (Some r)
    with b(1) have r: "r \<in> set rs" "mr_key r = key" "\<And>r'. r' \<in> set rs \<Longrightarrow> mr_key r' = key \<Longrightarrow> mr_lsn r' \<le> mr_lsn r"
      by (auto simp: is_best_def latest_rec_def)
    have "r \<in> V \<union> T"
    proof (cases "r \<in> T")
      case False
      then have "r \<in> M" using r(1) rs by blast
      then obtain r' where r': "r' \<in> V" "mr_key r' = mr_key r" "mr_lsn r \<le> mr_lsn r'" using newest by blast
      then have "r' \<in> set rs" using sub rs by blast
      then have "r' = r" using versions_okD [OF vok _ r(1)] r' r(2) r(3) [of r'] by (metis antisym)
      with r'(1) show ?thesis by blast
    qed blast
    with r rs rs' sub Some show ?thesis by (auto simp: is_best_def latest_rec_def)
  qed
  with b(2) show "reads_as rs' key v" unfolding reads_as_def by blast
qed

lemma flushed_memtable_inv:
  assumes inv: "store_inv crc api recs mem (mm, fs)" and live: "meta \<in> live_of (mm, fs)"
    and V: "recs meta = entry_records (valid_records mem)"
  shows "store_inv crc api recs [] (mm, fs)
     \<and> (\<forall>key v. reads_as (versions_of recs [] (mm, fs)) key v \<longleftrightarrow> reads_as (versions_of recs mem (mm, fs)) key v)
     \<and> set (versions_of recs [] (mm, fs)) \<subseteq> set (versions_of recs mem (mm, fs))"
proof -
  have ok: "manifest_ok (ms_levels (mm_state mm))" and vok: "versions_ok (versions_of recs mem (mm, fs))"
    using inv by (simp_all add: store_inv_iff)
  note vs = set_versions_of [of "(mm, fs)" recs, simplified, OF ok]
  have sub: "set (versions_of recs [] (mm, fs)) \<subseteq> set (versions_of recs mem (mm, fs))" by (simp add: vs mem_records_def)
  have "store_inv crc api recs [] (mm, fs)"
    using inv versions_ok_subset [OF vok sub] by (simp add: store_inv_iff mem_records_def)
  moreover have "reads_as (versions_of recs [] (mm, fs)) key v \<longleftrightarrow> reads_as (versions_of recs mem (mm, fs)) key v" for key v
  proof (rule flushed_reads [OF vok vs [of mem], where V = "set (recs meta)"])
    show "set (versions_of recs [] (mm, fs)) = set (recs meta) \<union> recs_of recs (live (ms_levels (mm_state mm)))"
      using live by (auto simp: vs mem_records_def recs_of_def)
    show "set (recs meta) \<subseteq> set (mem_records mem)" unfolding V by (rule entry_records_newest(1))
    show "\<exists>r \<in> set (recs meta). mr_key r = mr_key m \<and> mr_lsn m \<le> mr_lsn r" if "m \<in> set (mem_records mem)" for m
      using entry_records_newest(3) [OF that] entry_records_newest(2) [OF _ that] unfolding V by metis
  qed
  ultimately show ?thesis using sub by blast
qed

end
