(* ===== verification/Wal_Durability.thy ===== *)
theory Wal_Durability
  imports Wal "HOL-Library.Multiset"
begin

text \<open>
  What the log guarantees: an append that reports success is recovered, in order; an append that
  fails or is cut off anywhere leaves, after reopening, a prefix of its transactions and nothing
  else; a manager whose write failed refuses to continue.
\<close>

section \<open>What is planned\<close>

lemma update_frames_ok:
  "list_all command_ok cs \<Longrightarrow> list_all frame_ok (update_frames tid prev lsn cs)"
  by (induction cs arbitrary: prev lsn) (auto simp: frame_ok_def)

lemma tx_frames_ok: "list_all command_ok cs \<Longrightarrow> list_all frame_ok (tx_frames lsn cs)"
  by (simp add: tx_frames_def update_frames_ok frame_ok_def)

lemma log_frames_ok:
  "list_all (list_all command_ok) css \<Longrightarrow> list_all frame_ok (log_frames lsn css)"
  by (induction css arbitrary: lsn) (auto simp: tx_frames_ok)

lemma plan_update_Inr:
  assumes "plan_update crc col tid so c p = Inr p'"
  shows "command_ok c
     \<and> pl_bytes p' = pl_bytes p @ frame_bytes crc
         \<lparr>fr_lsn = pl_next_lsn p, fr_transaction_id = tid, fr_previous_lsn = pl_previous_lsn p,
          fr_record = Update c\<rparr>
     \<and> pl_previous_lsn p' = pl_next_lsn p \<and> checked_add (pl_next_lsn p) 1 = Some (pl_next_lsn p')"
proof -
  let ?f = "\<lparr>fr_lsn = pl_next_lsn p, fr_transaction_id = tid, fr_previous_lsn = pl_previous_lsn p,
             fr_record = Update c\<rparr>"
  from assms obtain frame where frame: "encode_frame crc ?f = Inr frame"
    and del: "lc_record_type c = Delete \<longrightarrow> lc_value c = []"
    and p': "pl_bytes p' = pl_bytes p @ frame" "pl_previous_lsn p' = pl_next_lsn p"
      "checked_add (pl_next_lsn p) 1 = Some (pl_next_lsn p')"
    by (auto simp: plan_update_def rbind_eq_Inr Let_def split: option.splits)
  have "frame_ok ?f \<and> frame = frame_bytes crc ?f"
    by (rule encode_frame_Inr [OF frame]) (use del in auto)
  with p' show ?thesis by (simp add: frame_ok_def)
qed

lemma plan_updates_Inr:
  assumes "plan_updates crc col tid so cs p = Inr p'"
  shows "list_all command_ok cs
     \<and> pl_bytes p' = pl_bytes p
         @ frames_bytes crc (update_frames tid (pl_previous_lsn p) (pl_next_lsn p) cs)
     \<and> pl_next_lsn p' = pl_next_lsn p + of_nat (length cs)
     \<and> unat (pl_next_lsn p) + length cs < 2 ^ 64
     \<and> (cs \<noteq> [] \<longrightarrow> pl_previous_lsn p' = pl_next_lsn p' - 1)"
  using assms
proof (induction cs arbitrary: p)
  case (Cons c cs)
  then obtain p1 where p1: "plan_update crc col tid so c p = Inr p1"
    and rest: "plan_updates crc col tid so cs p1 = Inr p'"
    by (auto simp: rbind_eq_Inr)
  note step = plan_update_Inr [OF p1]
  then have "pl_next_lsn p1 = pl_next_lsn p + 1" "unat (pl_next_lsn p1) = Suc (unat (pl_next_lsn p))"
    using checked_add_one_Some by auto
  moreover have "unat (pl_next_lsn p) < 18446744073709551615"
    using step checked_add_one_room by blast
  ultimately show ?case
    using step Cons.IH [OF rest] rest by (cases cs) (auto simp: algebra_simps)
qed (auto simp: unat_lt_64)

lemma plan_transaction_Inr:
  assumes "plan_transaction crc col cs (bytes, lsn, planned) = Inr (bytes', lsn', planned')"
  shows "cs \<noteq> [] \<and> list_all command_ok cs \<and> bytes' = bytes @ frames_bytes crc (tx_frames lsn cs)
     \<and> lsn' = lsn + of_nat (length cs + 1) \<and> unat lsn + (length cs + 1) < 2 ^ 64"
proof -
  let ?p0 = "\<lparr>pl_bytes = bytes, pl_next_lsn = lsn, pl_previous_lsn = 0, pl_group_size = 0,
              pl_updates = []\<rparr>"
  obtain p commit where cs: "cs \<noteq> []"
    and p: "plan_updates crc col lsn (of_nat (length bytes)) cs ?p0 = Inr p"
    and commit: "encode_frame crc \<lparr>fr_lsn = pl_next_lsn p, fr_transaction_id = lsn,
        fr_previous_lsn = pl_previous_lsn p, fr_record = Commit\<rparr> = Inr commit"
    and res: "checked_add (pl_next_lsn p) 1 = Some lsn'" "bytes' = pl_bytes p @ commit"
    using assms
    by (auto simp: plan_transaction_def rbind_eq_Inr Let_def split: option.splits)
  note upd = plan_updates_Inr [OF p, simplified]
  have lsn': "lsn' = pl_next_lsn p + 1" "unat lsn' = Suc (unat (pl_next_lsn p))"
    using checked_add_one_Some [OF res(1)] by auto
  have "unat (pl_next_lsn p) = unat lsn + length cs"
    using upd lsn_add [of lsn "length cs"] by simp
  then have room: "unat lsn + (length cs + 1) < 2 ^ 64"
    using checked_add_one_room [OF res(1)] by simp
  have "commit = frame_bytes crc \<lparr>fr_lsn = pl_next_lsn p, fr_transaction_id = lsn,
        fr_previous_lsn = pl_previous_lsn p, fr_record = Commit\<rparr>"
    using encode_frame_Inr [OF commit] by simp
  with upd cs res(2) lsn'(1) room show ?thesis by (simp add: tx_frames_def add.assoc)
qed

lemma plan_groups_Inr:
  assumes "plan_groups crc col css (bytes, lsn, planned) = Inr (bytes', lsn', planned')"
  shows "list_all (\<lambda>cs. cs \<noteq> []) css \<and> list_all (list_all command_ok) css
     \<and> bytes' = bytes @ frames_bytes crc (log_frames lsn css)
     \<and> lsn' = lsn + of_nat (tx_frame_count css) \<and> unat lsn + tx_frame_count css < 2 ^ 64"
  using assms
proof (induction css arbitrary: bytes lsn planned)
  case Nil
  then show ?case by auto
next
  case (Cons cs css)
  then obtain b1 l1 q1 where t: "plan_transaction crc col cs (bytes, lsn, planned) = Inr (b1, l1, q1)"
    and rest: "plan_groups crc col css (b1, l1, q1) = Inr (bytes', lsn', planned')"
    by (auto simp: rbind_eq_Inr)
  note step = plan_transaction_Inr [OF t]
  then have "unat l1 = unat lsn + (length cs + 1)" using lsn_add [of lsn "length cs + 1"] by simp
  with step Cons.IH [OF rest] show ?case by (auto simp: algebra_simps)
qed

section \<open>Directories\<close>

definition dir_ok :: "wal_directory \<Rightarrow> bool" where
  "dir_ok dir \<longleftrightarrow> distinct (map de_id (filter de_canonical dir))"

lemma segment_file_Cons:
  "segment_file (e # dir) i =
     (if de_canonical e \<and> de_id e = i then Some (de_bytes e) else segment_file dir i)"
  by (simp add: segment_file_def)

lemma segment_file_Nil [simp]: "segment_file [] i = None"
  by (simp add: segment_file_def)

lemma segment_file_append:
  "segment_file (dir @ dir') i =
     (case segment_file dir i of None \<Rightarrow> segment_file dir' i | Some b \<Rightarrow> Some b)"
  by (induction dir) (auto simp: segment_file_Cons)

lemma segment_file_write:
  "segment_file (write_file i b dir) j =
     (if i = j then map_option (\<lambda>_. b) (segment_file dir j) else segment_file dir j)"
  by (induction dir) (auto simp: segment_file_Cons write_file_def)

lemma segment_file_None: "segment_file dir i = None \<longleftrightarrow> (\<forall>e \<in> set dir. de_canonical e \<longrightarrow> de_id e \<noteq> i)"
  by (induction dir) (auto simp: segment_file_Cons)

lemma write_file_absent: "segment_file dir i = None \<Longrightarrow> write_file i b dir = dir"
  by (induction dir) (auto simp: segment_file_Cons write_file_def split: if_splits)

lemma write_file_same: "dir_ok dir \<Longrightarrow> segment_file dir i = Some b \<Longrightarrow> write_file i b dir = dir"
proof (induction dir)
  case (Cons e dir)
  show ?case
  proof (cases "de_canonical e \<and> de_id e = i")
    case True
    with Cons.prems have "segment_file dir i = None"
      by (auto simp: dir_ok_def segment_file_None image_iff)
    then have "write_file i b dir = dir" by (rule write_file_absent)
    with True Cons.prems(2) show ?thesis by (simp add: write_file_def segment_file_Cons)
  next
    case False
    with Cons show ?thesis
      by (auto simp: dir_ok_def write_file_def segment_file_Cons split: if_splits)
  qed
qed simp

lemma write_file_ids [simp]:
  "map de_id (write_file i b dir) = map de_id dir"
  "map de_id (filter de_canonical (write_file i b dir)) = map de_id (filter de_canonical dir)"
  by (induction dir) (auto simp: write_file_def)

lemma dir_ok_write [simp]: "dir_ok (write_file i b dir) = dir_ok dir"
  by (simp add: dir_ok_def)

lemma write_file_write [simp]: "write_file i b (write_file i b' dir) = write_file i b dir"
  by (induction dir) (auto simp: write_file_def)

lemma collect_segments_write [simp]:
  "collect_segments floor (write_file i b dir) = collect_segments floor dir"
  by (induction dir) (simp_all add: write_file_def cong: option.case_cong split: option.split)

lemma segment_paths_write [simp]: "segment_paths (write_file i b dir) floor = segment_paths dir floor"
  by (simp add: segment_paths_def)

lemma collect_segments_append:
  "collect_segments floor (dir @ dir') =
     rbind (collect_segments floor dir) (\<lambda>ids. rbind (collect_segments floor dir') (\<lambda>js. Inr (ids @ js)))"
  by (induction dir) (auto simp: rbind_def split: sum.splits)

lemma collect_segments_set:
  "collect_segments floor dir = Inr ids \<Longrightarrow> set ids \<subseteq> de_id ` set dir"
  by (induction dir arbitrary: ids) (auto simp: rbind_eq_Inr split: if_splits)

lemma segment_paths_set: "segment_paths dir floor = Inr ids \<Longrightarrow> set ids \<subseteq> de_id ` set dir"
  by (auto simp: segment_paths_def rbind_eq_Inr Let_def split: if_splits
      dest!: collect_segments_set)

lemma windows_ok_snoc:
  "windows_ok (ids @ [i]) \<Longrightarrow> checked_add i 1 = Some j \<Longrightarrow> windows_ok (ids @ [i, j])"
proof (induction ids)
  case (Cons k ids)
  then show ?case by (cases ids) auto
qed (auto dest: checked_add_one_Some(2))

text \<open>A new segment after the last one becomes the last of the paths.\<close>

lemma segment_paths_new:
  assumes paths: "segment_paths dir floor = Inr (ids @ [i])" and next_id: "checked_add i 1 = Some j"
    and top: "\<forall>e \<in> set dir. de_id e \<le> i"
    and e: "de_id e = j" "de_canonical e" "de_kind e = RegularFile"
  shows "segment_paths (dir @ [e]) floor = Inr (ids @ [i, j])"
proof -
  have ij: "i < j" using checked_add_one_Some(2) [OF next_id] .
  from paths obtain js where js: "collect_segments floor dir = Inr js"
    by (auto simp: segment_paths_def rbind_eq_Inr)
  let ?first = "case floor of Some f \<Rightarrow> f | None \<Rightarrow> if sort js = [] then 0 else hd (sort js)"
  have p: "filter (\<lambda>k. ?first \<le> k) (sort js) = ids @ [i]"
    and fl: "floor = None \<or> Some (hd (ids @ [i])) = floor" and w: "windows_ok (ids @ [i])"
    using paths js by (auto simp: segment_paths_def Let_def split: if_splits)
  have "i \<in> set (filter (\<lambda>k. ?first \<le> k) (sort js))" using p by simp
  then have first: "?first \<le> i" and ne: "js \<noteq> []" by auto
  have "\<forall>k \<in> set js. k \<le> j"
    using collect_segments_set [OF js] top ij by fastforce
  then have sort: "sort (js @ [j]) = sort js @ [j]"
    by (intro properties_for_sort) (auto simp: sorted_append)
  have "\<not> (case floor of None \<Rightarrow> False | Some f \<Rightarrow> de_id e < f)"
    using first ij e(1) by (auto split: option.splits)
  then have "collect_segments floor (dir @ [e]) = Inr (js @ [j])"
    using js e by (simp add: collect_segments_append)
  moreover have "(case floor of Some f \<Rightarrow> f
      | None \<Rightarrow> if sort (js @ [j]) = [] then 0 else hd (sort (js @ [j]))) = ?first"
    using ne by (auto simp: sort split: option.split) (metis hd_append2 set_empty set_sort)+
  moreover have "filter (\<lambda>k. ?first \<le> k) (sort (js @ [j])) = ids @ [i, j]"
    using p first ij by (simp add: sort)
  moreover have "hd (ids @ [i, j]) = hd (ids @ [i])" by (cases ids) auto
  ultimately show ?thesis
    using fl windows_ok_snoc [OF w next_id]
    by (simp add: segment_paths_def Let_def)
qed

section \<open>Scanning a directory\<close>

text \<open>The scan of sealed segments, which writes nothing.\<close>

fun scan_sealed ::
  "(bytes \<Rightarrow> u32) \<Rightarrow> wal_directory \<Rightarrow> u64 list \<Rightarrow> u64 \<Rightarrow> analysis \<Rightarrow> (u64 \<times> analysis) result" where
  "scan_sealed crc dir [] version a = Inr (version, a)"
| "scan_sealed crc dir (i # ids) version a =
     (case segment_file dir i of
        None \<Rightarrow> Inl (Err (IO OtherIo))
      | Some bytes \<Rightarrow>
          rbind (scan_segment_with_tail_handling crc Reject i bytes a) (\<lambda>(version, a, _).
          scan_sealed crc dir ids version a))"

lemma scan_reject_bytes:
  "scan_segment_with_tail_handling crc Reject i b a = Inr (v, a', b') \<Longrightarrow> b' = b"
  by (auto simp: scan_segment_with_tail_handling_def rbind_eq_Inr split: if_splits)

lemma scan_paths_snoc:
  assumes "dir_ok dir"
  shows "scan_paths crc mode dir (ids @ [i]) version a =
     rbind (scan_sealed crc dir ids version a) (\<lambda>(version, a).
       case segment_file dir i of
         None \<Rightarrow> Inl (Err (IO OtherIo))
       | Some bytes \<Rightarrow>
           rbind (scan_segment_with_tail_handling crc mode i bytes a) (\<lambda>(version, a, bytes).
           Inr (write_file i bytes dir, version, a)))"
proof (induction ids arbitrary: version a)
  case Nil
  show ?case by (auto simp: rbind_def split: option.split sum.split prod.split)
next
  case (Cons j ids)
  show ?case
  proof (cases "segment_file dir j")
    case (Some bytes)
    show ?thesis
    proof (cases "scan_segment_with_tail_handling crc Reject j bytes a")
      case (Inr r)
      obtain v a' b' where r: "r = (v, a', b')" by (cases r)
      with Inr have "b' = bytes" by (simp add: scan_reject_bytes)
      with Some have "write_file j b' dir = dir" using write_file_same [OF assms] by simp
      with Some Inr r Cons show ?thesis by simp
    qed (use Some in simp)
  qed simp
qed

lemma scan_sealed_append:
  "scan_sealed crc dir (ids @ js) version a =
     rbind (scan_sealed crc dir ids version a) (\<lambda>(version, a). scan_sealed crc dir js version a)"
  by (induction ids arbitrary: version a)
    (auto simp: rbind_def split: option.split sum.split prod.split)

lemma scan_sealed_cong:
  "(\<And>i. i \<in> set ids \<Longrightarrow> segment_file dir i = segment_file dir' i) \<Longrightarrow>
     scan_sealed crc dir ids version a = scan_sealed crc dir' ids version a"
proof (induction ids arbitrary: version a)
  case (Cons i ids)
  then have "segment_file dir i = segment_file dir' i"
    and "\<And>v a. scan_sealed crc dir ids v a = scan_sealed crc dir' ids v a" by simp_all
  then show ?case by (auto simp: rbind_def split: option.split sum.split prod.split)
qed simp

lemma scan_sealed_write:
  "i \<notin> set ids \<Longrightarrow>
     scan_sealed crc (write_file i b dir) ids version a = scan_sealed crc dir ids version a"
  by (rule scan_sealed_cong) (auto simp: segment_file_write)

lemma WALHeader_decode_append:
  "WAL_HEADER_SIZE \<le> length bytes \<Longrightarrow> WALHeader_decode crc (bytes @ ext) = WALHeader_decode crc bytes"
  by (simp add: WALHeader_decode_def WAL_HEADER_SIZE_def Let_def)

text \<open>A segment that scans to its end, extended by frames and possibly a torn one.\<close>

lemma scan_segment_extend:
  assumes scan: "scan_segment_with_tail_handling crc Reject i bytes a = Inr (v, a', bytes)"
    and v: "v \<noteq> LEGACY_WAL_VERSION" and fs: "list_all frame_ok fs" and torn: "torn_frame crc torn"
    and acc: "accept_frames crc (if an_track_refs a then i else 0) (length bytes) fs a' = Inr a''"
  shows "scan_segment_with_tail_handling crc Repair i (bytes @ frames_bytes crc fs @ torn) a
         = Inr (v, a'', bytes @ frames_bytes crc fs)"
    and "torn = [] \<Longrightarrow> scan_segment_with_tail_handling crc Reject i (bytes @ frames_bytes crc fs) a
         = Inr (v, a'', bytes @ frames_bytes crc fs)"
proof -
  let ?sid = "if an_track_refs a then i else 0"
  from scan obtain h where h: "WALHeader_decode crc bytes = Inr h" "wh_version h = v"
    "\<not> (wh_version h = LEGACY_WAL_VERSION \<and> an_latest_lsn a \<noteq> 0)"
    "\<not> (wh_last_checkpoint h \<noteq> 0 \<or> wh_last_checkpoint_offset h \<noteq> 0)"
    and loop: "scan_loop crc v ?sid bytes WAL_HEADER_SIZE a = Inr (length bytes, a')"
    by (auto simp: scan_segment_with_tail_handling_def rbind_eq_Inr split: if_splits)
  from h(1) have len: "WAL_HEADER_SIZE \<le> length bytes"
    by (auto simp: WALHeader_decode_def split: if_splits)
  have step: "scan_loop crc v ?sid (bytes @ frames_bytes crc fs @ t) WAL_HEADER_SIZE a
      = Inr (length bytes + length (frames_bytes crc fs), a'')" if "torn_frame crc t" for t
    using scan_loop_append [OF loop v len, of "frames_bytes crc fs @ t"]
      scan_loop_frames [OF fs that v, of ?sid bytes a'] acc
    by simp
  show "scan_segment_with_tail_handling crc Repair i (bytes @ frames_bytes crc fs @ torn) a
        = Inr (v, a'', bytes @ frames_bytes crc fs)"
    using h v len step [OF torn]
    by (simp add: scan_segment_with_tail_handling_def WALHeader_decode_append not_less)
  show "scan_segment_with_tail_handling crc Reject i (bytes @ frames_bytes crc fs) a
        = Inr (v, a'', bytes @ frames_bytes crc fs)"
    using h v len step [OF torn_frame_Nil]
    by (simp add: scan_segment_with_tail_handling_def WALHeader_decode_append)
qed

text \<open>A fresh segment, whole or with its header cut short.\<close>

lemma default_header_sel:
  "wh_version WALHeader_default = WAL_VERSION" "wh_last_checkpoint WALHeader_default = 0"
  "wh_last_checkpoint_offset WALHeader_default = 0"
  by (simp_all add: WALHeader_default_def)

lemma version_not_legacy [simp]: "WAL_VERSION \<noteq> LEGACY_WAL_VERSION"
  by (simp add: WAL_VERSION_def LEGACY_WAL_VERSION_def)

lemma scan_new_segment:
  "scan_segment_with_tail_handling crc Reject i (WALHeader_encode crc WALHeader_default) a
   = Inr (WAL_VERSION, a, WALHeader_encode crc WALHeader_default)"
  using WALHeader_decode_encode [OF header_ok_default, of crc "[]"]
    length_WALHeader_encode [OF header_ok_default, of crc]
  by (simp add: scan_segment_with_tail_handling_def scan_loop.simps default_header_sel)

lemma scan_torn_header:
  assumes "n < WAL_HEADER_SIZE"
  shows "scan_segment_with_tail_handling crc Repair i
           (take n (WALHeader_encode crc WALHeader_default)) a
         = Inr (WAL_VERSION, a, WALHeader_encode crc WALHeader_default)"
proof -
  let ?h = "WALHeader_encode crc WALHeader_default"
  have len: "length ?h = WAL_HEADER_SIZE" by (simp add: length_WALHeader_encode)
  have d: "versioned_header WAL_VERSION = WALHeader_default"
    by (simp add: versioned_header_def WALHeader_default_def)
  have "complete_header crc (take n ?h) a = Some ?h"
    using len assms by (simp add: complete_header_def d)
  then show ?thesis
    using assms len WALHeader_decode_encode [OF header_ok_default, of crc "[]"]
    by (simp add: scan_segment_with_tail_handling_def scan_loop.simps default_header_sel)
qed

section \<open>The log in a directory\<close>

text \<open>
  \<open>dir_log crc cp dir ids seg bytes a\<close>: the segments of the directory from the checkpoint on are
  \<open>ids\<close> and, last, \<open>seg\<close> with contents \<open>bytes\<close>; scanning them all, with nothing left over, gives the
  analysis \<open>a\<close>.
\<close>

definition dir_log ::
  "(bytes \<Rightarrow> u32) \<Rightarrow> recovery_checkpoint option \<Rightarrow> wal_directory \<Rightarrow> u64 list \<Rightarrow> u64 \<Rightarrow> bytes \<Rightarrow>
   analysis \<Rightarrow> bool" where
  "dir_log crc cp dir ids seg bytes a \<longleftrightarrow>
     dir_ok dir \<and> (\<forall>e \<in> set dir. de_id e \<le> seg)
     \<and> segment_paths dir (map_option rc_replay_start_segment cp) = Inr (ids @ [seg])
     \<and> segment_file dir seg = Some bytes
     \<and> tids_below a \<and> an_latest_lsn a + 1 \<noteq> 0
     \<and> (\<exists>a0 v a1 v'. checkpoint_analysis cp False = Inr a0
          \<and> scan_sealed crc dir ids WAL_VERSION a0 = Inr (v, a1)
          \<and> scan_segment_with_tail_handling crc Reject seg bytes a1 = Inr (v', a, bytes)
          \<and> v' \<noteq> LEGACY_WAL_VERSION)"

definition wal_inv :: "(bytes \<Rightarrow> u32) \<Rightarrow> wal_manager \<Rightarrow> analysis \<Rightarrow> bool" where
  "wal_inv crc m a \<longleftrightarrow>
     (\<exists>ids bytes. dir_log crc (ws_checkpoint (wm_state m)) (wm_dir m) ids
                    (ws_segment_id (wm_state m)) bytes a
        \<and> ws_size (wm_state m) = of_nat (length bytes))
     \<and> \<not> ws_poisoned (wm_state m) \<and> ws_next_lsn (wm_state m) = an_latest_lsn a + 1"

text \<open>A directory that opens, with whatever repair it needs, to the analysis \<open>a\<close>.\<close>

definition reopens ::
  "(bytes \<Rightarrow> u32) \<Rightarrow> recovery_checkpoint option \<Rightarrow> wal_directory \<Rightarrow> analysis \<Rightarrow> bool" where
  "reopens crc cp dir a \<longleftrightarrow>
     (\<forall>io max_size owner. \<exists>m. new_inner crc io dir max_size cp owner = Inr m \<and> wal_inv crc m a
        \<and> ws_checkpoint (wm_state m) = cp)"

lemma reopensI:
  assumes "dir_ok dir" and "\<forall>e \<in> set dir. de_id e \<le> seg"
    and paths: "segment_paths dir (map_option rc_replay_start_segment cp) = Inr (ids @ [seg])"
    and seg_file: "segment_file dir seg = Some b"
    and cp: "checkpoint_analysis cp False = Inr a0"
    and sealed: "scan_sealed crc dir ids WAL_VERSION a0 = Inr (v, a1)"
    and repair: "scan_segment_with_tail_handling crc Repair seg b a1 = Inr (v', a, b')"
    and again: "scan_segment_with_tail_handling crc Reject seg b' a1 = Inr (v', a, b')"
    and v': "v' \<noteq> LEGACY_WAL_VERSION" and a: "tids_below a" "an_latest_lsn a + 1 \<noteq> 0"
    and seg: "seg \<notin> set ids"
  shows "reopens crc cp dir a"
  unfolding reopens_def
proof (intro allI)
  fix io max_size owner
  let ?dir = "write_file seg b' dir"
  have scan: "scan_paths crc Repair dir (ids @ [seg]) WAL_VERSION a0 = Inr (?dir, v', a)"
    using sealed seg_file repair by (simp add: scan_paths_snoc [OF assms(1)])
  have file': "segment_file ?dir seg = Some b'"
    using seg_file by (simp add: segment_file_write)
  obtain m where m: "new_inner crc io dir max_size cp owner = Inr m"
    and fields: "wm_dir m = ?dir" "ws_segment_id (wm_state m) = seg"
      "ws_checkpoint (wm_state m) = cp" "\<not> ws_poisoned (wm_state m)"
      "ws_next_lsn (wm_state m) = an_latest_lsn a + 1" "ws_size (wm_state m) = of_nat (length b')"
    using paths cp scan v' file' by (simp add: new_inner_def Let_def)
  have "scan_sealed crc ?dir ids WAL_VERSION a0 = Inr (v, a1)"
    using sealed seg by (simp add: scan_sealed_write)
  moreover have "\<forall>e \<in> set ?dir. de_id e \<le> seg"
    using assms(2) by (auto simp: write_file_def)
  ultimately have "dir_log crc cp ?dir ids seg b' a"
    using assms(1) paths file' cp again v' a by (auto simp: dir_log_def)
  then have "wal_inv crc m a" using fields by (auto simp: wal_inv_def)
  with m fields show "\<exists>m. new_inner crc io dir max_size cp owner = Inr m \<and> wal_inv crc m a
      \<and> ws_checkpoint (wm_state m) = cp"
    by blast
qed

lemma windows_ok_less: "windows_ok (ids @ [i]) \<Longrightarrow> \<forall>j \<in> set ids. j < i"
proof (induction ids)
  case (Cons k ids)
  show ?case
  proof (cases ids)
    case Nil
    with Cons.prems show ?thesis by (auto dest: checked_add_one_Some(2))
  next
    case (Cons l ls)
    with Cons.prems Cons.IH show ?thesis
      by (auto dest!: checked_add_one_Some(2) intro: less_trans)
  qed
qed simp

lemma segment_paths_windows: "segment_paths dir floor = Inr paths \<Longrightarrow> windows_ok paths"
  by (auto simp: segment_paths_def rbind_eq_Inr Let_def split: if_splits)

lemma dir_log_seg: "dir_log crc cp dir ids seg bytes a \<Longrightarrow> seg \<notin> set ids"
  by (auto simp: dir_log_def dest!: segment_paths_windows windows_ok_less)

lemma lsn_room:
  assumes "an_latest_lsn a + 1 \<noteq> 0" and "unat (an_latest_lsn a + 1) + n < 2 ^ 64"
  shows "unat (an_latest_lsn a) + n < 2 ^ 64" "unat (an_latest_lsn a + 1) = unat (an_latest_lsn a) + 1"
proof -
  have "unat (an_latest_lsn a + 1) \<noteq> 0" using assms(1) by (metis unsigned_eq_0_iff)
  then show "unat (an_latest_lsn a + 1) = unat (an_latest_lsn a) + 1"
    by (simp add: unat_word_ariths mod_Suc split: if_splits)
  with assms(2) show "unat (an_latest_lsn a) + n < 2 ^ 64" by simp
qed

text \<open>Writing the first \<open>k\<close> bytes of some transactions at the end of the last segment.\<close>

lemma dir_log_extend:
  fixes k :: nat
  assumes log: "dir_log crc cp dir ids seg bytes a"
    and css: "list_all (\<lambda>cs. cs \<noteq> []) css" "list_all (list_all command_ok) css"
    and room: "unat (an_latest_lsn a + 1) + tx_frame_count css < 2 ^ 64"
  defines "fb \<equiv> frames_bytes crc (log_frames (an_latest_lsn a + 1) css)"
  defines "dir' \<equiv> write_file seg (bytes @ take k fb) dir"
  shows "\<exists>n a'. reopens crc cp dir' a'
     \<and> an_legacy a' = an_legacy a \<and> committed_commands a' = committed_commands a @ concat (take n css)
     \<and> (length fb \<le> k \<longrightarrow> take n css = css
          \<and> an_latest_lsn a' = an_latest_lsn a + of_nat (tx_frame_count css)
          \<and> dir_log crc cp dir' ids seg (bytes @ fb) a')"
proof -
  let ?fs = "log_frames (an_latest_lsn a + 1) css"
  let ?w = "whole_frames crc k ?fs"
  have ok: "list_all frame_ok ?fs" by (rule log_frames_ok [OF css(2)])
  then have okw: "list_all frame_ok (take ?w ?fs)" by (auto simp: list_all_iff dest: in_set_takeD)
  obtain torn where cut: "take k fb = frames_bytes crc (take ?w ?fs) @ torn" and torn: "torn_frame crc torn"
    using take_frames_bytes [OF ok, of k crc] by (auto simp: fb_def)
  from log obtain a0 v a1 v' where cp: "checkpoint_analysis cp False = Inr a0"
    and sealed: "scan_sealed crc dir ids WAL_VERSION a0 = Inr (v, a1)"
    and scan: "scan_segment_with_tail_handling crc Reject seg bytes a1 = Inr (v', a, bytes)"
    and v': "v' \<noteq> LEGACY_WAL_VERSION" and nz: "an_latest_lsn a + 1 \<noteq> 0" and below: "tids_below a"
    and dir: "dir_ok dir" "\<forall>e \<in> set dir. de_id e \<le> seg"
      "segment_paths dir (map_option rc_replay_start_segment cp) = Inr (ids @ [seg])"
      "segment_file dir seg = Some bytes"
    by (auto simp: dir_log_def)
  note lsn = lsn_room [OF nz room]
  obtain a' where acc: "accept_frames crc (if an_track_refs a1 then seg else 0) (length bytes)
      (take ?w ?fs) a = Inr a'"
    and ext: "tx_ext (concat (complete_txs ?w css)) (min ?w (tx_frame_count css)) a a'"
    using accept_log_prefix [OF below css(1) lsn(1)] by blast
  note scans = scan_segment_extend [OF scan v' okw torn acc]
    scan_segment_extend(2) [OF scan v' okw torn_frame_Nil acc refl]
  have seg: "seg \<notin> set ids" using dir_log_seg [OF log] .
  have sealed': "scan_sealed crc dir' ids WAL_VERSION a0 = Inr (v, a1)"
    using sealed seg by (simp add: dir'_def scan_sealed_write)
  have a': "tids_below a'" "an_legacy a' = an_legacy a"
    "committed_commands a' = committed_commands a @ concat (complete_txs ?w css)"
    "an_latest_lsn a' = an_latest_lsn a + of_nat (min ?w (tx_frame_count css))"
    using ext by (auto simp: tx_ext_def)
  have "unat (an_latest_lsn a + 1 + of_nat (min ?w (tx_frame_count css)))
      = unat (an_latest_lsn a + 1) + min ?w (tx_frame_count css)"
    by (rule lsn_add) (use room in simp)
  moreover have "an_latest_lsn a' + 1 = an_latest_lsn a + 1 + of_nat (min ?w (tx_frame_count css))"
    by (simp only: a'(4) add_ac)
  ultimately have "unat (an_latest_lsn a' + 1)
      = unat (an_latest_lsn a) + 1 + min ?w (tx_frame_count css)"
    by (simp only: lsn(2))
  then have "unat (an_latest_lsn a' + 1) \<noteq> 0" by linarith
  then have nz': "an_latest_lsn a' + 1 \<noteq> 0" by (metis unsigned_0)
  have top: "\<forall>e \<in> set dir'. de_id e \<le> seg" using dir(2) by (auto simp: dir'_def write_file_def)
  have dir': "dir_ok dir'"
    "segment_paths dir' (map_option rc_replay_start_segment cp) = Inr (ids @ [seg])"
    "segment_file dir' seg = Some (bytes @ take k fb)"
    using dir by (simp_all add: dir'_def segment_file_write)
  have reop: "reopens crc cp dir' a'"
    using reopensI [OF dir'(1) top dir'(2,3) cp sealed' _ scans(3) v' a'(1) nz' seg] scans(1) by (simp add: cut)
  obtain n where n: "complete_txs ?w css = take n css" using complete_txs_prefix by blast
  have "take n css = css \<and> an_latest_lsn a' = an_latest_lsn a + of_nat (tx_frame_count css)
      \<and> dir_log crc cp dir' ids seg (bytes @ fb) a'" if "length fb \<le> k"
  proof -
    have w: "?w = tx_frame_count css" using whole_frames_all [of crc ?fs k] that by (simp add: fb_def)
    then have fb: "frames_bytes crc (take ?w ?fs) = fb" by (simp add: fb_def)
    have "take k fb = fb" using that by simp
    with dir' top scans(3) fb cp sealed' v' a'(1) nz' have "dir_log crc cp dir' ids seg (bytes @ fb) a'"
      by (auto simp: dir_log_def)
    with w n a'(4) complete_txs_all [of css ?w] show ?thesis by simp
  qed
  with reop a'(2,3) n show ?thesis by (intro exI [of _ n] exI [of _ a']) simp
qed

lemma dir_log_reopens:
  assumes log: "dir_log crc cp dir ids seg bytes a"
  shows "reopens crc cp dir a"
proof -
  from log obtain a0 v a1 v' where cp: "checkpoint_analysis cp False = Inr a0"
    and sealed: "scan_sealed crc dir ids WAL_VERSION a0 = Inr (v, a1)"
    and scan: "scan_segment_with_tail_handling crc Reject seg bytes a1 = Inr (v', a, bytes)"
    and v': "v' \<noteq> LEGACY_WAL_VERSION" and a: "tids_below a" "an_latest_lsn a + 1 \<noteq> 0"
    and dir: "dir_ok dir" "\<forall>e \<in> set dir. de_id e \<le> seg"
      "segment_paths dir (map_option rc_replay_start_segment cp) = Inr (ids @ [seg])"
      "segment_file dir seg = Some bytes"
    by (auto simp: dir_log_def)
  from scan_segment_extend(1) [OF scan v', of "[]" "[]" a]
  have "scan_segment_with_tail_handling crc Repair seg bytes a1 = Inr (v', a, bytes)"
    by (simp add: torn_frame_Nil)
  from reopensI [OF dir cp sealed this scan v' a dir_log_seg [OF log]] show ?thesis .
qed

text \<open>Creating the next segment, completely or with a header cut short.\<close>

lemma dir_log_new_segment:
  assumes log: "dir_log crc cp dir ids seg bytes a" and next_id: "checked_add seg 1 = Some j"
  defines "header \<equiv> WALHeader_encode crc WALHeader_default"
  defines "e \<equiv> \<lparr>de_id = j, de_canonical = True, de_kind = RegularFile, de_bytes = header\<rparr>"
  shows "segment_file dir j = None"
    and "dir_log crc cp (dir @ [e]) (ids @ [seg]) j header a"
    and "n < WAL_HEADER_SIZE \<Longrightarrow> reopens crc cp (dir @ [e\<lparr>de_bytes := take n header\<rparr>]) a"
proof -
  from log obtain a0 v a1 v' where cp: "checkpoint_analysis cp False = Inr a0"
    and sealed: "scan_sealed crc dir ids WAL_VERSION a0 = Inr (v, a1)"
    and scan: "scan_segment_with_tail_handling crc Reject seg bytes a1 = Inr (v', a, bytes)"
    and a: "tids_below a" "an_latest_lsn a + 1 \<noteq> 0"
    and dir: "dir_ok dir" "\<forall>e \<in> set dir. de_id e \<le> seg"
      "segment_paths dir (map_option rc_replay_start_segment cp) = Inr (ids @ [seg])"
      "segment_file dir seg = Some bytes"
    by (auto simp: dir_log_def)
  have lt: "seg < j" using checked_add_one_Some(2) [OF next_id] .
  with dir(2) show none: "segment_file dir j = None" by (auto simp: segment_file_None)
  have new: "j \<notin> set (ids @ [seg])"
    using segment_paths_set [OF dir(3)] dir(2) lt by (auto dest!: subsetD)
  have paths: "segment_paths (dir @ [e\<lparr>de_bytes := b\<rparr>]) (map_option rc_replay_start_segment cp)
      = Inr ((ids @ [seg]) @ [j])" for b
    using segment_paths_new [OF dir(3) next_id dir(2), of "e\<lparr>de_bytes := b\<rparr>"] by (simp add: e_def)
  have sealed': "scan_sealed crc (dir @ [e\<lparr>de_bytes := b\<rparr>]) (ids @ [seg]) WAL_VERSION a0 = Inr (v', a)"
    for b
  proof -
    have "scan_sealed crc (dir @ [e\<lparr>de_bytes := b\<rparr>]) (ids @ [seg]) WAL_VERSION a0
        = scan_sealed crc dir (ids @ [seg]) WAL_VERSION a0"
      using new by (intro scan_sealed_cong)
        (auto simp: segment_file_append segment_file_Cons e_def split: option.split)
    also have "\<dots> = Inr (v', a)" using sealed scan dir(4) by (simp add: scan_sealed_append)
    finally show ?thesis .
  qed
  have ok: "dir_ok (dir @ [e\<lparr>de_bytes := b\<rparr>])" for b
    using dir(1) none by (auto simp: dir_ok_def e_def segment_file_None)
  have top: "\<forall>e' \<in> set (dir @ [e\<lparr>de_bytes := b\<rparr>]). de_id e' \<le> j" for b
    using dir(2) lt by (auto simp: e_def)
  have seg_file: "segment_file (dir @ [e\<lparr>de_bytes := b\<rparr>]) j = Some b" for b
    using none by (simp add: segment_file_append segment_file_Cons e_def)
  have "e\<lparr>de_bytes := header\<rparr> = e" by (simp add: e_def)
  then show "dir_log crc cp (dir @ [e]) (ids @ [seg]) j header a"
    using ok [of header] top [of header] paths [of header] seg_file [of header] sealed' [of header] cp a
      scan_new_segment [of crc j a]
    by (simp add: dir_log_def header_def)
  show "reopens crc cp (dir @ [e\<lparr>de_bytes := take n header\<rparr>]) a" if "n < WAL_HEADER_SIZE"
    using reopensI [OF ok top paths seg_file cp sealed', of "take n header" WAL_VERSION a header]
      scan_torn_header [OF that] scan_new_segment a new
    by (simp add: header_def)
qed

section \<open>Appending and recovering\<close>

text \<open>What an append leaves: \<open>m\<close> before, \<open>m'\<close> after, some of the groups in the log.\<close>

definition append_leaves ::
  "(bytes \<Rightarrow> u32) \<Rightarrow> analysis \<Rightarrow> log_command list list \<Rightarrow> bool \<Rightarrow> recovery_checkpoint option \<Rightarrow>
   wal_manager \<Rightarrow> bool" where
  "append_leaves crc a groups success cp m' \<longleftrightarrow>
     (\<exists>n a'. reopens crc cp (wm_dir m') a' \<and> ws_checkpoint (wm_state m') = cp
        \<and> an_legacy a' = an_legacy a
        \<and> committed_commands a' = committed_commands a @ concat (take n groups)
        \<and> (success \<longrightarrow> take n groups = groups \<and> wal_inv crc m' a'))"

lemma append_leaves_same:
  assumes "dir_log crc cp (wm_dir m) ids seg bytes a" and "ws_checkpoint (wm_state m) = cp"
  shows "append_leaves crc a groups False cp m"
  unfolding append_leaves_def using assms dir_log_reopens [OF assms(1)]
  by (intro exI [of _ 0] exI [of _ a]) simp

lemma append_file_eq:
  assumes "segment_file (wm_dir m) (ws_segment_id (wm_state m)) = Some old"
  shows "append_file bytes m
         = m\<lparr>wm_dir := write_file (ws_segment_id (wm_state m)) (old @ bytes) (wm_dir m)\<rparr>"
  using assms by (simp add: append_file_def Let_def)

lemma write_planned_leaves:
  assumes log: "dir_log crc cp (wm_dir m) ids (ws_segment_id (wm_state m)) bytes a"
    and st: "ws_checkpoint (wm_state m) = cp" "ws_size (wm_state m) = of_nat (length bytes)"
    and css: "list_all (\<lambda>cs. cs \<noteq> []) css" "list_all (list_all command_ok) css"
    and room: "unat (an_latest_lsn a + 1) + tx_frame_count css < 2 ^ 64"
    and fb: "fb = frames_bytes crc (log_frames (an_latest_lsn a + 1) css)"
    and next_lsn: "next_lsn = an_latest_lsn a + 1 + of_nat (tx_frame_count css)"
    and wr: "write_planned wio fb next_lsn planned m = (r, m')"
  shows "append_leaves crc a css (is_ok r) cp m'"
proof -
  let ?seg = "ws_segment_id (wm_state m)"
  have seg_file: "segment_file (wm_dir m) ?seg = Some bytes" using log by (simp add: dir_log_def)
  note ext = dir_log_extend [OF log css room, folded fb]
  show ?thesis
  proof (cases "rmap (transaction_receipts ?seg (ws_size (wm_state m))) planned")
    case (Inl e)
    with wr have "r = Inl e" "m' = m" by (auto simp: write_planned_def)
    with append_leaves_same [OF log st(1)] show ?thesis by simp
  next
    case (Inr receipts)
    show ?thesis
    proof (cases wio)
      case (WriteFail k)
      with wr Inr have "r = Inl (Err (IO OtherIo))"
        "m' = m\<lparr>wm_dir := write_file ?seg (bytes @ take k fb) (wm_dir m)\<rparr>"
        using append_file_eq [OF seg_file] by (auto simp: write_planned_def)
      with ext [of k] st(1) show ?thesis by (auto simp: append_leaves_def)
    next
      case WriteOk
      then have m': "r = Inr receipts" "wm_dir m' = write_file ?seg (bytes @ fb) (wm_dir m)"
        "wm_state m' = (wm_state m)\<lparr>ws_size := ws_size (wm_state m) + of_nat (length fb),
            ws_next_lsn := next_lsn, ws_poisoned := False\<rparr>"
        using wr Inr append_file_eq [OF seg_file] by (auto simp: write_planned_def Let_def)
      from ext [of "length fb"] obtain n a' where
        *: "reopens crc cp (wm_dir m') a'" "an_legacy a' = an_legacy a"
        "committed_commands a' = committed_commands a @ concat (take n css)" "take n css = css"
        "an_latest_lsn a' = an_latest_lsn a + of_nat (tx_frame_count css)"
        "dir_log crc cp (wm_dir m') ids ?seg (bytes @ fb) a'"
        using m'(2) by auto
      have "ws_size (wm_state m') = of_nat (length (bytes @ fb))" using m' st by simp
      then have "wal_inv crc m' a'"
        using * m' st next_lsn unfolding wal_inv_def by (auto simp: algebra_simps simp del: of_nat_add length_append)
      with * m' st(1) show ?thesis
        unfolding append_leaves_def by (intro exI [of _ n] exI [of _ a']) simp
    qed
  qed
qed

lemma write_planned_poisoned:
  assumes "write_planned wio fb next_lsn planned m = (r, m')" and "ws_poisoned (wm_state m)"
  shows "\<not> is_ok r \<longrightarrow> ws_poisoned (wm_state m')"
  using assms
  by (cases r) (auto simp: write_planned_def append_file_def Let_def
      split: sum.splits write_io.splits option.splits)

lemma rotate_leaves:
  assumes log: "dir_log crc cp (wm_dir m) ids (ws_segment_id (wm_state m)) bytes a"
    and st: "ws_checkpoint (wm_state m) = cp"
    and rot: "rotate_locked crc rio m = (r, m1)"
  shows "(\<not> is_ok r \<longrightarrow> append_leaves crc a groups False cp m1)
     \<and> (is_ok r \<longrightarrow> (\<exists>ids'. dir_log crc cp (wm_dir m1) ids' (ws_segment_id (wm_state m1))
           (WALHeader_encode crc WALHeader_default) a)
         \<and> ws_size (wm_state m1) = of_nat WAL_HEADER_SIZE)
     \<and> ws_checkpoint (wm_state m1) = cp \<and> ws_next_lsn (wm_state m1) = ws_next_lsn (wm_state m)
     \<and> ws_poisoned (wm_state m1) = ws_poisoned (wm_state m)"
proof (cases rio)
  case RotateSyncFail
  with rot st append_leaves_same [OF log st] show ?thesis by (auto simp: rotate_locked_def)
next
  case (RotateIo cio)
  show ?thesis
  proof (cases "checked_add (ws_segment_id (wm_state m)) 1")
    case None
    with RotateIo rot st append_leaves_same [OF log st] show ?thesis
      by (auto simp: rotate_locked_def)
  next
    case (Some j)
    note new = dir_log_new_segment [OF log Some]
    have torn: "append_leaves crc a groups False cp (m\<lparr>wm_dir := wm_dir m @ [\<lparr>de_id = j,
        de_canonical = True, de_kind = RegularFile,
        de_bytes = take n (WALHeader_encode crc WALHeader_default)\<rparr>]\<rparr>)" for n
    proof (cases "n < WAL_HEADER_SIZE")
      case True
      from new(3) [OF this] st show ?thesis
        unfolding append_leaves_def by (intro exI [of _ 0] exI [of _ a]) simp
    next
      case False
      then have "take n (WALHeader_encode crc WALHeader_default) = WALHeader_encode crc WALHeader_default"
        by (simp add: length_WALHeader_encode)
      with new(2) st show ?thesis
        by (intro append_leaves_same [of crc cp _ "ids @ [ws_segment_id (wm_state m)]" j]) simp_all
    qed
    consider "cio = CreateOk" | "cio = CreateFail None" | n where "cio = CreateFail (Some n)"
      by (cases cio) auto
    then show ?thesis
    proof cases
      case 1
      then have "r = Inr ()" "wm_dir m1 = wm_dir m @ [\<lparr>de_id = j, de_canonical = True,
          de_kind = RegularFile, de_bytes = WALHeader_encode crc WALHeader_default\<rparr>]"
        "ws_segment_id (wm_state m1) = j" "ws_size (wm_state m1) = of_nat WAL_HEADER_SIZE"
        "ws_checkpoint (wm_state m1) = cp" "ws_next_lsn (wm_state m1) = ws_next_lsn (wm_state m)"
        "ws_poisoned (wm_state m1) = ws_poisoned (wm_state m)"
        using RotateIo Some rot new(1) st by (auto simp: rotate_locked_def create_segment_def Let_def)
      with new(2) show ?thesis by auto
    next
      case 2
      with RotateIo Some rot new(1) st append_leaves_same [OF log st] show ?thesis
        by (auto simp: rotate_locked_def create_segment_def Let_def)
    next
      case (3 n)
      then have "r = Inl (Err (IO OtherIo))" "m1 = m\<lparr>wm_dir := wm_dir m @ [\<lparr>de_id = j,
        de_canonical = True, de_kind = RegularFile,
        de_bytes = take n (WALHeader_encode crc WALHeader_default)\<rparr>]\<rparr>"
        using RotateIo Some rot new(1) by (auto simp: rotate_locked_def create_segment_def Let_def)
      with torn [of n] st show ?thesis by simp
    qed
  qed
qed

lemma append_transactions_leaves:
  assumes inv: "wal_inv crc m a" and app: "append_transactions crc rio wio col groups m = (r, m')"
  shows "append_leaves crc a groups (is_ok r) (ws_checkpoint (wm_state m)) m'
     \<and> (\<not> is_ok r \<longrightarrow> m' = m \<or> ws_poisoned (wm_state m'))"
proof -
  let ?cp = "ws_checkpoint (wm_state m)" and ?m = "set_poisoned True m"
  from inv obtain ids bytes where
    log: "dir_log crc ?cp (wm_dir m) ids (ws_segment_id (wm_state m)) bytes a"
    and size: "ws_size (wm_state m) = of_nat (length bytes)" and healthy: "\<not> ws_poisoned (wm_state m)"
    and lsn: "ws_next_lsn (wm_state m) = an_latest_lsn a + 1"
    by (auto simp: wal_inv_def)
  note same = append_leaves_same [OF log refl]
  let ?plan = "plan_groups crc col groups ([], ws_next_lsn (wm_state m), [])"
  consider (none) "groups = []" | (refused) e where "r = Inl e" "m' = m"
    | (planned) fb next_lsn planned where "groups \<noteq> []" "length groups \<le> MAX_GROUP_COUNT"
        "?plan = Inr (fb, next_lsn, planned)"
    using app healthy
    by (cases ?plan) (auto simp: append_transactions_def ensure_healthy_def split: if_splits)
  then show ?thesis
  proof cases
    case none
    with app have "r = Inr []" "m' = m" by (auto simp: append_transactions_def)
    with none inv dir_log_reopens [OF log] show ?thesis
      by (auto simp: append_leaves_def)
  next
    case refused
    with same show ?thesis by simp
  next
    case planned
    note plan = plan_groups_Inr [OF planned(3)]
    have poisoned_same: "wm_dir ?m = wm_dir m" "wm_max_segment_size ?m = wm_max_segment_size m"
      "wm_state ?m = (wm_state m)\<lparr>ws_poisoned := True\<rparr>" by (simp_all add: set_poisoned_def)
    have wr: "append_leaves crc a groups (is_ok r) ?cp m' \<and> (\<not> is_ok r \<longrightarrow> ws_poisoned (wm_state m'))"
      if "dir_log crc ?cp (wm_dir k) ids' (ws_segment_id (wm_state k)) bytes' a"
        "ws_checkpoint (wm_state k) = ?cp" "ws_size (wm_state k) = of_nat (length bytes')"
        "ws_poisoned (wm_state k)" "write_planned wio fb next_lsn planned k = (r, m')"
      for k ids' bytes'
      using write_planned_leaves [OF that(1-3) _ _ _ _ _ that(5)] plan lsn write_planned_poisoned [OF that(5,4)]
      by simp
    show ?thesis
    proof (cases "of_nat WAL_HEADER_SIZE < ws_size (wm_state m)
        \<and> wm_max_segment_size m < saturating_add (ws_size (wm_state m)) (of_nat (length fb))")
      case False
      then have "write_planned wio fb next_lsn planned ?m = (r, m')"
        using app planned healthy by (auto simp: append_transactions_def ensure_healthy_def poisoned_same Let_def)
      from wr [OF _ _ _ _ this] log size show ?thesis by (auto simp: poisoned_same)
    next
      case True
      obtain q m1 where rot: "rotate_locked crc rio ?m = (q, m1)" by (cases "rotate_locked crc rio ?m")
      have log': "dir_log crc ?cp (wm_dir ?m) ids (ws_segment_id (wm_state ?m)) bytes a"
        using log by (simp add: poisoned_same)
      note leaves = rotate_leaves [OF log' _ rot, of groups]
      show ?thesis
      proof (cases q)
        case (Inl e)
        then have "r = Inl e" "m' = m1"
          using app planned healthy True rot
          by (auto simp: append_transactions_def ensure_healthy_def poisoned_same Let_def)
        with leaves Inl show ?thesis by (simp add: poisoned_same)
      next
        case (Inr u)
        then have w: "write_planned wio fb next_lsn planned m1 = (r, m')"
          using app planned healthy True rot
          by (auto simp: append_transactions_def ensure_healthy_def poisoned_same Let_def)
        from leaves Inr obtain ids' where
          "dir_log crc ?cp (wm_dir m1) ids' (ws_segment_id (wm_state m1))
             (WALHeader_encode crc WALHeader_default) a"
          "ws_size (wm_state m1) = of_nat WAL_HEADER_SIZE" "ws_checkpoint (wm_state m1) = ?cp"
          "ws_poisoned (wm_state m1)"
          by (auto simp: poisoned_same)
        from wr [OF this(1,3) _ this(4) w] this(2) show ?thesis by (simp add: length_WALHeader_encode)
      qed
    qed
  qed
qed

end
