(* ===== verification/Wal_History.thy ===== *)
theory Wal_History
  imports Wal_Durability "HOL-Library.Sublist"
begin

text \<open>
  The lifetime of a log: a directory that starts empty, managers opened on it, transactions appended
  with every outcome of the file system, rotations, failures and restarts
  (\<open>src/storage/recovermanager/wal.rs\<close>). The step relation \<open>wal_history\<close> composes the operations of \<open>Wal\<close>; the
  properties say what recovery returns at any point of such a lifetime.
\<close>

section \<open>What a manager recovers\<close>

lemma rmap_map_Inr: "(\<And>x. x \<in> set xs \<Longrightarrow> f (g x) = Inr (h x)) \<Longrightarrow> rmap f (map g xs) = Inr (map h xs)"
  by (induction xs) auto

lemma update_record_command:
  "decode_record_type (wr_record_type (update_record u)) = Inr (lc_record_type (lu_command u))"
  "LogCommand_new (lc_record_type (lu_command u)) (wr_key (update_record u)) (wr_value (update_record u))
     (wr_lsn (update_record u)) = lu_command u"
  by (simp_all add: update_record_def decode_record_type_def LogCommand_new_def)

lemma analyze_committed_inv:
  assumes "wal_inv crc m a"
  shows "analyze_committed crc False m = Inr a"
proof -
  from assms obtain ids bytes where
    log: "dir_log crc (ws_checkpoint (wm_state m)) (wm_dir m) ids (ws_segment_id (wm_state m)) bytes a"
    and healthy: "\<not> ws_poisoned (wm_state m)"
    by (auto simp: wal_inv_def)
  then show ?thesis
    by (auto simp: analyze_committed_def dir_log_def ensure_healthy_def scan_paths_snoc)
qed

lemma recover_commands_inv:
  assumes "wal_inv crc m a" and "an_legacy a = []"
  shows "recover_commands crc m = Inr (committed_commands a)"
  unfolding recover_commands_def recover_records_def
  using assms
  by (simp add: analyze_committed_inv Analysis_redo_def committed_commands_def rmap_map_Inr
      update_record_command)

section \<open>The lifetime of a log\<close>

text \<open>
  \<open>wal_history crc m txs\<close>: \<open>m\<close> is a manager reached from an empty directory, and \<open>txs\<close> are the
  transactions submitted so far, in order, each with whether its append returned successfully. A
  restart (\<open>reopen\<close>) is possible at any time, also after a failed operation.
\<close>

inductive wal_history ::
  "(bytes \<Rightarrow> u32) \<Rightarrow> wal_manager \<Rightarrow> (bool \<times> log_command list) list \<Rightarrow> bool" for crc where
  create: "new_inner crc io [] max_size None owner = Inr m \<Longrightarrow> wal_history crc m []"
| engine: "wal_history crc m txs \<Longrightarrow>
     append_engine_transactions crc rio wio groups owner collecting m = (r, m') \<Longrightarrow>
     wal_history crc m' (txs @ map (Pair (is_ok r)) groups)"
| public: "wal_history crc m txs \<Longrightarrow> write_transaction crc rio wio commands m = (q, m') \<Longrightarrow>
     wal_history crc m' (txs @ [(is_ok q, commands)])"
| rotate: "wal_history crc m txs \<Longrightarrow> rotate_wal_file crc rio m = (s, m') \<Longrightarrow> wal_history crc m' txs"
| reserve: "wal_history crc m txs \<Longrightarrow> change_to_reserve i m = (s, m') \<Longrightarrow> wal_history crc m' txs"
| reopen: "wal_history crc m txs \<Longrightarrow> new_inner crc io (wm_dir m) max_size None owner = Inr m' \<Longrightarrow>
     wal_history crc m' txs"

lemma wal_invI:
  "dir_log crc (ws_checkpoint (wm_state m)) (wm_dir m) ids (ws_segment_id (wm_state m)) bytes a \<Longrightarrow>
   ws_size (wm_state m) = of_nat (length bytes) \<Longrightarrow> \<not> ws_poisoned (wm_state m) \<Longrightarrow>
   ws_next_lsn (wm_state m) = an_latest_lsn a + 1 \<Longrightarrow> wal_inv crc m a"
  by (auto simp: wal_inv_def)

text \<open>Some transactions were kept, in order: at least every acknowledged one.\<close>

definition kept_of :: "(bool \<times> 'a) list \<Rightarrow> (bool \<times> 'a) list \<Rightarrow> bool" where
  "kept_of kept txs \<longleftrightarrow> subseq kept txs \<and> filter fst kept = filter fst txs"

lemma kept_of_append:
  assumes "kept_of kept txs" and "b \<longrightarrow> take n groups = groups"
  shows "kept_of (kept @ map (Pair b) (take n groups)) (txs @ map (Pair b) groups)"
proof -
  have "subseq (take n groups) groups" by (simp add: prefix_imp_subseq take_is_prefix)
  with assms show ?thesis
    by (cases b) (auto simp: kept_of_def intro!: list_emb_append_mono subseq_map)
qed

lemma kept_of_all:
  assumes "kept_of kept txs" and "list_all fst txs"
  shows "kept = txs"
proof -
  have "filter fst txs = txs" using assms(2) by (simp add: filter_id_conv list_all_iff)
  with assms(1) have "subseq txs kept" by (metis kept_of_def subseq_filter_left)
  with assms(1) show ?thesis by (simp add: kept_of_def subseq_order.antisym)
qed

definition wal_keeps :: "(bytes \<Rightarrow> u32) \<Rightarrow> wal_manager \<Rightarrow> (bool \<times> log_command list) list \<Rightarrow> bool" where
  "wal_keeps crc m txs \<longleftrightarrow>
     (\<exists>a kept. reopens crc None (wm_dir m) a \<and> ws_checkpoint (wm_state m) = None
        \<and> an_legacy a = [] \<and> committed_commands a = concat (map snd kept) \<and> kept_of kept txs
        \<and> (\<not> ws_poisoned (wm_state m) \<longrightarrow> wal_inv crc m a))"

lemma wal_keeps_cong:
  assumes "wm_dir m' = wm_dir m" "ws_checkpoint (wm_state m') = ws_checkpoint (wm_state m)"
    "ws_poisoned (wm_state m') = ws_poisoned (wm_state m)"
    "ws_segment_id (wm_state m') = ws_segment_id (wm_state m)" "ws_size (wm_state m') = ws_size (wm_state m)"
    "ws_next_lsn (wm_state m') = ws_next_lsn (wm_state m)"
  shows "wal_keeps crc m' txs = wal_keeps crc m txs"
  using assms by (simp add: wal_keeps_def wal_inv_def)

lemma wal_keeps_mark [simp]: "wal_keeps crc (mark_untracked_mutation m) txs = wal_keeps crc m txs"
  by (rule wal_keeps_cong) (simp_all add: mark_untracked_mutation_def)

lemma wal_keeps_fail:
  assumes "wal_keeps crc m txs"
  shows "wal_keeps crc m (txs @ map (Pair False) groups)"
proof -
  have "kept_of kept (txs @ map (Pair False) groups)" if "kept_of kept txs" for kept
    using kept_of_append [OF that, of False 0 groups] by simp
  with assms show ?thesis unfolding wal_keeps_def by blast
qed

lemma wal_keeps_append:
  assumes "wal_keeps crc m txs" and app: "append_transactions crc rio wio col groups m = (r, m')"
  shows "wal_keeps crc m' (txs @ map (Pair (is_ok r)) groups)"
proof (cases "ws_poisoned (wm_state m)")
  case True
  with app have "m' = m" "groups = [] \<or> \<not> is_ok r"
    by (auto simp: append_transactions_def ensure_healthy_def guard_err_def split: if_splits)
  with assms(1) wal_keeps_fail [OF assms(1)] show ?thesis by (cases "is_ok r") auto
next
  case False
  with assms(1) obtain a kept where a: "wal_inv crc m a" "ws_checkpoint (wm_state m) = None"
    "an_legacy a = []" "committed_commands a = concat (map snd kept)" and kept: "kept_of kept txs"
    by (auto simp: wal_keeps_def)
  note leaves = append_transactions_leaves [OF a(1) app]
  show ?thesis
  proof (cases "is_ok r \<or> m' \<noteq> m")
    case True
    from leaves obtain n a' where "reopens crc None (wm_dir m') a'" "ws_checkpoint (wm_state m') = None"
      "an_legacy a' = []" "committed_commands a' = concat (map snd kept) @ concat (take n groups)"
      and ok: "is_ok r \<longrightarrow> take n groups = groups \<and> wal_inv crc m' a'"
      by (auto simp: append_leaves_def a)
    moreover have "kept_of (kept @ map (Pair (is_ok r)) (take n groups)) (txs @ map (Pair (is_ok r)) groups)"
      by (rule kept_of_append [OF kept]) (use ok in simp)
    moreover have "concat (map snd kept) @ concat (take n groups)
        = concat (map snd (kept @ map (Pair (is_ok r)) (take n groups)))"
      by (simp add: comp_def)
    ultimately show ?thesis
      unfolding wal_keeps_def using True leaves
      by (intro exI [of _ a'] exI [of _ "kept @ map (Pair (is_ok r)) (take n groups)"]) auto
  next
    case False
    with wal_keeps_fail [OF assms(1), of groups] show ?thesis by simp
  qed
qed

lemma wal_keeps_rotate:
  assumes keeps: "wal_keeps crc m txs" and rot: "rotate_wal_file crc rio m = (s, m')"
  shows "wal_keeps crc m' txs"
proof (cases "ws_poisoned (wm_state m)")
  case True
  with rot have "m' = m" by (auto simp: rotate_wal_file_def ensure_healthy_def guard_err_def)
  with keeps show ?thesis by simp
next
  case False
  let ?m = "set_poisoned True m"
  from False keeps obtain a kept ids bytes where
    log: "dir_log crc None (wm_dir ?m) ids (ws_segment_id (wm_state ?m)) bytes a"
    and cp: "ws_checkpoint (wm_state ?m) = None" and lsn: "ws_next_lsn (wm_state m) = an_latest_lsn a + 1"
    and a: "an_legacy a = []" "committed_commands a = concat (map snd kept)" and kept: "kept_of kept txs"
    by (auto simp: wal_keeps_def wal_inv_def set_poisoned_def)
  obtain q m1 where q: "rotate_locked crc rio ?m = (q, m1)" by (cases "rotate_locked crc rio ?m")
  note leaves = rotate_leaves [OF log cp q, of "[]"]
  show ?thesis
  proof (cases q)
    case (Inl e)
    then have "m' = m1" using rot q False by (auto simp: rotate_wal_file_def ensure_healthy_def guard_err_def)
    with leaves Inl a kept show ?thesis
      by (auto simp: wal_keeps_def append_leaves_def set_poisoned_def)
  next
    case (Inr u)
    then have m': "m' = set_poisoned False m1"
      using rot q False by (auto simp: rotate_wal_file_def ensure_healthy_def guard_err_def Let_def)
    from leaves Inr obtain ids' where
      *: "dir_log crc None (wm_dir m1) ids' (ws_segment_id (wm_state m1))
         (WALHeader_encode crc WALHeader_default) a"
      "ws_size (wm_state m1) = of_nat WAL_HEADER_SIZE" "ws_checkpoint (wm_state m1) = None"
      "ws_next_lsn (wm_state m1) = an_latest_lsn a + 1"
      by (auto simp: lsn set_poisoned_def)
    then have "wal_inv crc m' a"
      by (intro wal_invI [of crc _ ids' "WALHeader_encode crc WALHeader_default"])
        (simp_all add: m' set_poisoned_def length_WALHeader_encode)
    with * dir_log_reopens [OF *(1)] a kept show ?thesis
      unfolding wal_keeps_def by (auto simp: m' set_poisoned_def)
  qed
qed

lemma wal_created:
  assumes "new_inner crc io [] max_size None owner = Inr m"
  shows "wal_inv crc m Analysis_default" "reopens crc None (wm_dir m) Analysis_default" "ws_checkpoint (wm_state m) = None"
proof -
  let ?h = "WALHeader_encode crc WALHeader_default"
  let ?e = "\<lparr>de_id = 0, de_canonical = True, de_kind = RegularFile, de_bytes = ?h\<rparr>"
  have paths: "segment_paths [?e] None = Inr ([] @ [0])"
    by (simp add: segment_paths_def)
  have m: "wm_dir m = [?e]" "ws_segment_id (wm_state m) = 0" "ws_checkpoint (wm_state m) = None"
    "\<not> ws_poisoned (wm_state m)" "ws_next_lsn (wm_state m) = an_latest_lsn Analysis_default + 1"
    "ws_size (wm_state m) = of_nat (length ?h)"
    using assms
    by (auto simp: new_inner_def segment_paths_def checkpoint_analysis_def Analysis_default_def Let_def
        create_segment_def segment_file_Cons LEGACY_WAL_VERSION_def WAL_VERSION_def
        split: create_io.splits option.splits)
  have "dir_log crc None (wm_dir m) [] 0 ?h Analysis_default"
    using paths scan_new_segment [of crc 0 "Analysis_default\<lparr>an_track_refs := False\<rparr>"]
    by (auto simp: dir_log_def m dir_ok_def segment_file_Cons checkpoint_analysis_def Analysis_default_def
        tids_below_def WAL_VERSION_def LEGACY_WAL_VERSION_def)
  with m show "wal_inv crc m Analysis_default" "reopens crc None (wm_dir m) Analysis_default" "ws_checkpoint (wm_state m) = None"
    by (auto intro: wal_invI dir_log_reopens)
qed

lemma Analysis_default_commands [simp]: "committed_commands Analysis_default = []" "an_legacy Analysis_default = []"
  by (simp_all add: Analysis_default_def committed_commands_def)

lemma wal_keeps_create: "new_inner crc io [] max_size None owner = Inr m \<Longrightarrow> wal_keeps crc m []"
  unfolding wal_keeps_def using wal_created [of crc io max_size owner m]
  by (intro exI [of _ Analysis_default] exI [of _ "[]"]) (simp add: kept_of_def)

lemma reopensD:
  "reopens crc cp dir a \<Longrightarrow> \<exists>m. new_inner crc io dir max_size cp owner = Inr m \<and> wal_inv crc m a
     \<and> ws_checkpoint (wm_state m) = cp"
  by (simp add: reopens_def)

lemma is_ok_map_sum [simp]: "is_ok (map_sum id f r) = is_ok r"
  by (cases r) simp_all

lemma wal_history_keeps: "wal_history crc m txs \<Longrightarrow> wal_keeps crc m txs"
proof (induction rule: wal_history.induct)
  case (create io max_size owner m)
  then show ?case by (rule wal_keeps_create)
next
  case (engine m txs rio wio groups owner collecting r m')
  let ?k = "if wm_token m \<noteq> None \<and> owner = wm_token m then m else mark_untracked_mutation m"
  have "wal_keeps crc ?k txs" using engine by simp
  moreover have "append_transactions crc rio wio collecting groups ?k = (r, m')"
    using engine(2) by (simp add: append_engine_transactions_def)
  ultimately show ?case by (rule wal_keeps_append)
next
  case (public m txs rio wio commands q m')
  obtain r where r: "append_transactions crc rio wio False [commands] (mark_untracked_mutation m) = (r, m')"
    "is_ok q = is_ok r"
    using public(2)
    by (cases "append_transactions crc rio wio False [commands] (mark_untracked_mutation m)")
      (auto simp: write_transaction_def write_transactions_inner_def)
  with wal_keeps_append [OF _ r(1)] public show ?case by simp
next
  case (rotate m txs rio s m')
  then show ?case by (blast intro: wal_keeps_rotate)
next
  case (reserve m txs i s m')
  then have "wal_keeps crc m' txs = wal_keeps crc m txs"
    by (intro wal_keeps_cong) (auto simp: change_to_reserve_def split: sum.splits if_splits)
  with reserve show ?case by simp
next
  case (reopen m txs io max_size owner m')
  then obtain a kept where a: "reopens crc None (wm_dir m) a" "an_legacy a = []"
    "committed_commands a = concat (map snd kept)" "kept_of kept txs"
    by (auto simp: wal_keeps_def)
  from reopensD [OF a(1), of io max_size owner] reopen(2)
  have inv: "wal_inv crc m' a" "ws_checkpoint (wm_state m') = None" by auto
  then have "reopens crc None (wm_dir m') a" by (auto simp: wal_inv_def intro: dir_log_reopens)
  with a inv show ?case unfolding wal_keeps_def by blast
qed

lemma append_ok_healthy:
  assumes "append_engine_transactions crc rio wio groups owner collecting m = (Inr receipts, m')"
    and "groups \<noteq> []"
  shows "\<not> ws_poisoned (wm_state m')"
proof -
  have "\<not> ws_poisoned (wm_state m')" if "write_planned wio b n planned k = (Inr receipts, m')" for b n planned k
    using that by (auto simp: write_planned_def Let_def split: sum.splits write_io.splits)
  with assms show ?thesis
    by (auto simp: append_engine_transactions_def append_transactions_def Let_def
        split: sum.splits if_splits prod.splits)
qed

section \<open>The log store contract\<close>

text \<open>
  What a client of \<open>LogStore\<close> relies on: recovery returns the commands the store holds, and a
  successful append adds one at the end.
\<close>

locale log_store =
  fixes holds :: "'s \<Rightarrow> log_command list \<Rightarrow> bool"
    and append_entry :: "log_command \<Rightarrow> 's \<Rightarrow> u64 result \<times> 's"
    and recover_all :: "'s \<Rightarrow> log_command list result"
  assumes recover_holds: "holds s cs \<Longrightarrow> recover_all s = Inr cs"
    and append_holds: "holds s cs \<Longrightarrow> append_entry c s = (Inr p, s') \<Longrightarrow> holds s' (cs @ [c])"
begin

lemma leader_entries_hold:
  "holds s cs \<Longrightarrow> append_entries_from_leader append_entry es s = (Inr u, s') \<Longrightarrow> holds s' (cs @ es)"
proof (induction es arbitrary: s cs)
  case (Cons e es)
  then obtain p s1 where "append_entry e s = (Inr p, s1)"
    "append_entries_from_leader append_entry es s1 = (Inr u, s')"
    by (auto split: prod.splits sum.splits)
  with Cons.IH [OF append_holds [OF Cons.prems(1)]] show ?case by fastforce
qed simp

lemma leader_entries_recover:
  "holds s cs \<Longrightarrow> append_entries_from_leader append_entry es s = (Inr u, s') \<Longrightarrow>
   recover_all s' = Inr (cs @ es)"
  using leader_entries_hold recover_holds by blast

end

definition wal_holds :: "(bytes \<Rightarrow> u32) \<Rightarrow> wal_manager \<Rightarrow> log_command list \<Rightarrow> bool" where
  "wal_holds crc m cs \<longleftrightarrow> (\<exists>a. wal_inv crc m a \<and> an_legacy a = [] \<and> committed_commands a = cs)"

lemma wal_inv_mark [simp]: "wal_inv crc (mark_untracked_mutation m) a = wal_inv crc m a"
  by (simp add: wal_inv_def mark_untracked_mutation_def)

lemma wal_holds_append:
  assumes "wal_holds crc m cs" and "LogStore_append crc rio wio c m = (Inr p, m')"
  shows "wal_holds crc m' (cs @ [c])"
proof -
  from assms(2) obtain r where app: "append_transactions crc rio wio False [[c]]
      (mark_untracked_mutation m) = (Inr r, m')"
    by (cases "append_transactions crc rio wio False [[c]] (mark_untracked_mutation m)";
        cases "fst (append_transactions crc rio wio False [[c]] (mark_untracked_mutation m))")
      (auto simp: LogStore_append_def write_transaction_def write_transactions_inner_def)
  from assms(1) obtain a where a: "wal_inv crc (mark_untracked_mutation m) a" "an_legacy a = []"
    "committed_commands a = cs"
    by (auto simp: wal_holds_def)
  from append_transactions_leaves [OF a(1) app] a(2,3) show ?thesis
    by (fastforce simp: append_leaves_def wal_holds_def)
qed

text \<open>The outcome of the file system may depend on the command and on the state.\<close>

interpretation wal_store: log_store "wal_holds crc"
  "\<lambda>c m. LogStore_append crc (fst (io c m)) (snd (io c m)) c m" "recover_commands crc" for crc io
  by unfold_locales (auto simp: wal_holds_def recover_commands_inv intro: wal_holds_append [unfolded wal_holds_def])

lemma wal_history_holds:
  assumes "wal_history crc m txs" and "\<not> ws_poisoned (wm_state m)" and "recover_commands crc m = Inr cs"
  shows "wal_holds crc m cs"
  using wal_history_keeps [OF assms(1)] assms(2,3) recover_commands_inv [of crc m]
  by (auto simp: wal_keeps_def wal_holds_def)

section \<open>Properties\<close>

text \<open>
  C8: at any point of the lifetime of a log, whatever writes, rotations and restarts happened
  and however they failed, the directory can be opened again, and the log then recovers whole
  transactions in the order they were submitted: every acknowledged one, none of them partly, and
  nothing that was not submitted.
\<close>

theorem wal_crash_recovery:
  assumes "wal_history crc m txs"
  shows "\<exists>m' kept. new_inner crc io (wm_dir m) max_size None owner = Inr m'
           \<and> subseq kept txs \<and> filter fst kept = filter fst txs
           \<and> recover_commands crc m' = Inr (concat (map snd kept))"
proof -
  from wal_history_keeps [OF assms] obtain a kept where a: "reopens crc None (wm_dir m) a"
    "an_legacy a = []" "committed_commands a = concat (map snd kept)" and kept: "kept_of kept txs"
    by (auto simp: wal_keeps_def)
  from reopensD [OF a(1), of io max_size owner] obtain m' where
    "new_inner crc io (wm_dir m) max_size None owner = Inr m'" "wal_inv crc m' a"
    by blast
  with a kept recover_commands_inv [of crc m' a] show ?thesis by (auto simp: kept_of_def)
qed

text \<open>
  C20: a manager that no operation has failed on recovers exactly the transactions it
  acknowledged: an append that returns is read back by the next recovery, after the earlier
  ones.
\<close>

theorem wal_append_recovers:
  assumes "wal_history crc m txs" and "list_all fst txs"
    and "append_engine_transactions crc rio wio groups owner collecting m = (Inr receipts, m')"
    and "groups \<noteq> []"
  shows "recover_commands crc m' = Inr (concat (map snd txs) @ concat groups)"
proof -
  have "wal_history crc m' (txs @ map (Pair True) groups)"
    using wal_history.engine [OF assms(1,3)] by simp
  from wal_history_keeps [OF this] append_ok_healthy [OF assms(3,4)] obtain a kept where a: "wal_inv crc m' a" "an_legacy a = []"
    "committed_commands a = concat (map snd kept)"
    and kept: "kept_of kept (txs @ map (Pair True) groups)"
    by (auto simp: wal_keeps_def)
  moreover have "list_all fst (txs @ map (Pair True) groups)"
    using assms(2) by (auto simp: list_all_iff)
  ultimately have "kept = txs @ map (Pair True) groups" using kept_of_all by blast
  with a recover_commands_inv [OF a(1,2)] show ?thesis by (simp add: comp_def)
qed

text \<open>
  C22: after a failed write or rotation the manager refuses every further write, rotation and
  recovery, and leaves the directory as it is, until the log is reopened.
\<close>

theorem wal_poisoned_refuses:
  assumes "ws_poisoned (wm_state m)" and "groups \<noteq> []"
  defines "refusal \<equiv> Err (StorageError ''WAL write interrupted or failed; reopen before reuse'')"
  shows "\<not> is_ok (fst (append_engine_transactions crc rio wio groups owner collecting m))
    \<and> wm_dir (snd (append_engine_transactions crc rio wio groups owner collecting m)) = wm_dir m
    \<and> rotate_wal_file crc rio m = (Inl refusal, m) \<and> recover_commands crc m = Inl refusal"
  using assms
  by (auto simp: append_engine_transactions_def append_transactions_def ensure_healthy_def guard_err_def
      mark_untracked_mutation_def rotate_wal_file_def recover_commands_def recover_records_def
      analyze_committed_def Let_def)

text \<open>
  C21: the entries a leader sends are appended one transaction each; when the call returns, the
  log recovers what it held before and then the entries, in order.
\<close>

theorem leader_entries_recovered:
  assumes "wal_history crc m txs" and "\<not> ws_poisoned (wm_state m)" and "recover_commands crc m = Inr cs"
    and "append_entries_from_leader (\<lambda>c m. LogStore_append crc (fst (io c m)) (snd (io c m)) c m) entries m
         = (Inr (), m')"
  shows "recover_commands crc m' = Inr (cs @ entries)"
  using wal_store.leader_entries_recover [OF wal_history_holds [OF assms(1-3)] assms(4)] .

section \<open>Witnesses\<close>

text \<open>A log with one transaction appended, and then one cut short after its first five bytes.\<close>

definition sample_wal :: wal_manager where
  "sample_wal = projr (new_inner (\<lambda>_. 0) CreateOk [] 4096 None False)"

definition sample_groups :: "log_command list list" where
  "sample_groups = [[LogCommand_new Put [0x61] [0x62] 1]]"

definition sample_append :: "wal_value_ref list list result \<times> wal_manager" where
  "sample_append = append_engine_transactions (\<lambda>_. 0) (RotateIo CreateOk) WriteOk sample_groups None False
                     sample_wal"

definition sample_torn :: "wal_value_ref list list result \<times> wal_manager" where
  "sample_torn = append_engine_transactions (\<lambda>_. 0) (RotateIo CreateOk) (WriteFail 5) sample_groups None
                   False (snd sample_append)"

lemma sample_wal_new: "new_inner (\<lambda>_. 0) CreateOk [] 4096 None False = Inr sample_wal"
  by (simp add: sample_wal_def new_inner_def segment_paths_def checkpoint_analysis_def Let_def
      create_segment_def segment_file_Cons LEGACY_WAL_VERSION_def WAL_VERSION_def)

lemma sample_wal_state:
  "ws_next_lsn (wm_state sample_wal) = 1" "\<not> ws_poisoned (wm_state sample_wal)"
  "ws_size (wm_state sample_wal) = of_nat WAL_HEADER_SIZE" "wm_token sample_wal = None"
  by (simp_all add: sample_wal_def new_inner_def segment_paths_def checkpoint_analysis_def Let_def
      create_segment_def segment_file_Cons LEGACY_WAL_VERSION_def WAL_VERSION_def Analysis_default_def
      length_WALHeader_encode)

lemma sample_plan:
  "lsn \<in> {1, 3} \<Longrightarrow> \<exists>bytes. plan_groups (\<lambda>_. 0) False sample_groups ([], lsn, []) = Inr (bytes, lsn + 2, [])"
proof -
  assume lsn: "lsn \<in> {1, 3}"
  let ?c = "LogCommand_new Put [0x61] [0x62] 1"
  have ok: "frame_ok \<lparr>fr_lsn = l, fr_transaction_id = t, fr_previous_lsn = p, fr_record = Update ?c\<rparr>"
    "frame_ok \<lparr>fr_lsn = l, fr_transaction_id = t, fr_previous_lsn = p, fr_record = Commit\<rparr>"
    for l t p :: u64
    by (simp_all add: frame_ok_def command_ok_def LogCommand_new_def wal_sizes)
  from lsn show ?thesis
    by (auto simp: sample_groups_def plan_transaction_def plan_update_def encode_frame_ok
        ok [unfolded LogCommand_new_def] LogCommand_new_def Let_def length_frame_bytes wal_sizes checked_add_def frame_body_def
        usize_max_def MAX_GROUP_ENCODED_SIZE_def)
qed

lemma sample_append_ok:
  "is_ok (fst sample_append)" "ws_next_lsn (wm_state (snd sample_append)) = 3"
  "\<not> ws_poisoned (wm_state (snd sample_append))" 
  using sample_plan [of 1]
  by (auto simp: sample_append_def append_engine_transactions_def append_transactions_def sample_wal_state
      mark_untracked_mutation_def ensure_healthy_def set_poisoned_def write_planned_def append_file_def
      wal_sizes Let_def sample_groups_def split: option.split)

lemma sample_torn_fails: "\<not> is_ok (fst sample_torn)"
proof -
  have "fst (write_planned (WriteFail 5) b n [] k) = Inl (Err (IO OtherIo))" for b n k
    by (simp add: write_planned_def)
  moreover have "sample_groups \<noteq> []" "length sample_groups \<le> MAX_GROUP_COUNT"
    by (simp_all add: sample_groups_def wal_sizes)
  ultimately show ?thesis
    using sample_plan [of 3] sample_append_ok
    by (auto simp: sample_torn_def append_engine_transactions_def mark_untracked_mutation_def
        append_transactions_def ensure_healthy_def Let_def split: sum.split prod.split)
qed

lemma sample_calls:
  "append_engine_transactions (\<lambda>_. 0) (RotateIo CreateOk) WriteOk sample_groups None False sample_wal
   = (fst sample_append, snd sample_append)"
  "append_engine_transactions (\<lambda>_. 0) (RotateIo CreateOk) (WriteFail 5) sample_groups None False
     (snd sample_append) = (fst sample_torn, snd sample_torn)"
  by (simp_all add: sample_append_def sample_torn_def)

lemma sample_history:
  "wal_history (\<lambda>_. 0) sample_wal []"
  "wal_history (\<lambda>_. 0) (snd sample_torn) [(True, hd sample_groups), (False, hd sample_groups)]"
proof -
  show new: "wal_history (\<lambda>_. 0) sample_wal []" using wal_history.create [OF sample_wal_new] .
  have "wal_history (\<lambda>_. 0) (snd sample_append) [(True, hd sample_groups)]"
    using wal_history.engine [OF new sample_calls(1)]
      sample_append_ok(1)
    by (simp add: sample_groups_def)
  from wal_history.engine [OF this sample_calls(2)]
    sample_torn_fails
  show "wal_history (\<lambda>_. 0) (snd sample_torn) [(True, hd sample_groups), (False, hd sample_groups)]"
    by (simp add: sample_groups_def)
qed

theorem wal_crash_recovery_witness:
  "\<exists>m' kept. new_inner (\<lambda>_. 0) CreateOk (wm_dir (snd sample_torn)) 4096 None False = Inr m'
     \<and> filter fst kept = [(True, hd sample_groups)]
     \<and> recover_commands (\<lambda>_. 0) m' = Inr (concat (map snd kept))"
  using wal_crash_recovery [OF sample_history(2)] by fastforce

theorem wal_append_recovers_witness:
  "recover_commands (\<lambda>_. 0) (snd sample_append) = Inr [LogCommand_new Put [0x61] [0x62] 1]"
proof -
  obtain receipts m' where "sample_append = (Inr receipts, m')"
    using sample_append_ok(1) by (metis is_ok_simps(2) obj_sumE prod.collapse)
  with wal_append_recovers [OF sample_history(1)] show ?thesis
    by (simp add: sample_append_def sample_groups_def)
qed

theorem wal_poisoned_refuses_witness:
  "let m = snd (rotate_wal_file (\<lambda>_. 0) RotateSyncFail sample_wal) in
   rotate_wal_file (\<lambda>_. 0) (RotateIo CreateOk) m
   = (Inl (Err (StorageError ''WAL write interrupted or failed; reopen before reuse'')), m)"
proof -
  have "ws_poisoned (wm_state (snd (rotate_wal_file (\<lambda>_. 0) RotateSyncFail sample_wal)))"
    using sample_wal_state
    by (simp add: rotate_wal_file_def ensure_healthy_def rotate_locked_def set_poisoned_def)
  from wal_poisoned_refuses [OF this, of "[[]]"] show ?thesis by simp
qed

lemma sample_recover_empty: "recover_commands (\<lambda>_. 0) sample_wal = Inr []"
proof -
  from wal_history_keeps [OF sample_history(1)] obtain a where "wal_inv (\<lambda>_. 0) sample_wal a"
    "an_legacy a = []" "committed_commands a = []"
    by (auto simp: wal_keeps_def kept_of_def sample_wal_state dest!: list_emb_Nil2)
  then show ?thesis by (simp add: recover_commands_inv)
qed

lemma sample_store_append:
  "\<exists>m. LogStore_append (\<lambda>_. 0) RotateSyncFail WriteOk (LogCommand_new Put [0x61] [0x62] 1) sample_wal
       = (Inr 1, m)"
  using sample_plan [of 1]
  by (auto simp: LogStore_append_def write_transaction_def write_transactions_inner_def
      append_transactions_def sample_wal_state mark_untracked_mutation_def ensure_healthy_def
      set_poisoned_def write_planned_def wal_sizes Let_def sample_groups_def LogCommand_new_def)

theorem leader_entries_recovered_witness:
  "recover_commands (\<lambda>_. 0)
     (snd (append_entries_from_leader (LogStore_append (\<lambda>_. 0) RotateSyncFail WriteOk)
             [LogCommand_new Put [0x61] [0x62] 1] sample_wal))
   = Inr [LogCommand_new Put [0x61] [0x62] 1]"
proof -
  let ?r = "append_entries_from_leader (LogStore_append (\<lambda>_. 0) RotateSyncFail WriteOk)
              [LogCommand_new Put [0x61] [0x62] 1] sample_wal"
  have "?r = (Inr (), snd ?r)" using sample_store_append by auto
  with leader_entries_recovered [OF sample_history(1) sample_wal_state(2) sample_recover_empty,
      of "\<lambda>c m. (RotateSyncFail, WriteOk)"] show ?thesis
    by (metis (no_types, lifting) append_Nil fst_conv snd_conv)
qed

end
