(* ===== verification/Wal_Checkpoints.thy ===== *)
theory Wal_Checkpoints
  imports Wal_History
begin

text \<open>
  Recovery checkpoints and the log (\<open>src/storage/recovermanager/wal.rs\<close>): after a rotation the new, empty
  segment and the next LSN are a position from which the log opens with nothing to replay, and deleting
  the segments before a checkpoint changes nothing that recovery from the checkpoint sees.
\<close>

section \<open>A checkpoint at a fresh segment\<close>

lemma collect_from:
  assumes "collect_segments floor dir = Inr js" and "case floor of None \<Rightarrow> True | Some f \<Rightarrow> f \<le> seg"
  shows "collect_segments (Some seg) dir = Inr (filter (\<lambda>i. seg \<le> i) js)"
  using assms
proof (induction dir arbitrary: js)
  case (Cons e dir)
  show ?case
  proof (cases "case floor of None \<Rightarrow> False | Some f \<Rightarrow> de_id e < f")
    case True
    then have "de_id e < seg" using Cons.prems(2) by (auto split: option.splits)
    with True Cons show ?thesis by simp
  next
    case False
    with Cons.prems(1) obtain ks where "de_canonical e" "de_kind e = RegularFile" "collect_segments floor dir = Inr ks" "js = de_id e # ks"
      by (auto simp: rbind_eq_Inr split: if_splits)
    with Cons.IH Cons.prems(2) show ?thesis by (auto simp: not_le)
  qed
qed simp

lemma collect_distinct:
  assumes "dir_ok dir" and "collect_segments floor dir = Inr js"
  shows "distinct js"
  using assms
proof (induction dir arbitrary: js)
  case (Cons e dir)
  have ok: "dir_ok dir" using Cons.prems(1) by (auto simp: dir_ok_def split: if_splits)
  have can: "set ks \<subseteq> de_id ` set (filter de_canonical dir)" if "collect_segments floor dir = Inr ks" for ks
    using that
  proof (induction dir arbitrary: ks)
    case (Cons e dir)
    then show ?case by (fastforce simp: rbind_eq_Inr split: if_splits)
  qed simp
  show ?case
  proof (cases "case floor of None \<Rightarrow> False | Some f \<Rightarrow> de_id e < f")
    case True
    with Cons ok show ?thesis by simp
  next
    case False
    with Cons.prems(2) obtain ks where i: "de_canonical e" "collect_segments floor dir = Inr ks" "js = de_id e # ks"
      by (auto simp: rbind_eq_Inr split: if_splits)
    with Cons.prems(1) can [OF i(2)] Cons.IH [OF ok i(2)] show ?thesis by (auto simp: dir_ok_def)
  qed
qed simp

lemma filter_eq_members: "filter P xs = ys \<Longrightarrow> set ys \<subseteq> set xs \<and> (\<forall>y \<in> set ys. P y)"
  by auto

lemma filter_one: "distinct xs \<Longrightarrow> x \<in> set xs \<Longrightarrow> filter (\<lambda>y. y = x) xs = [x]"
  by (induction xs) (auto simp: filter_empty_conv)

lemma segment_paths_last:
  assumes ok: "dir_ok dir" and top: "\<forall>e \<in> set dir. de_id e \<le> seg" and paths: "segment_paths dir floor = Inr (ids @ [seg])"
  shows "segment_paths dir (Some seg) = Inr [seg]"
proof -
  from paths obtain js where js: "collect_segments floor dir = Inr js" by (auto simp: segment_paths_def rbind_eq_Inr)
  let ?first = "case floor of Some f \<Rightarrow> f | None \<Rightarrow> if sort js = [] then 0 else hd (sort js)"
  have p: "filter (\<lambda>k. ?first \<le> k) (sort js) = ids @ [seg]"
    and fl: "floor = None \<or> Some (hd (ids @ [seg])) = floor" and w: "windows_ok (ids @ [seg])"
    using paths js by (auto simp: segment_paths_def Let_def split: if_splits)
  have mem: "set (ids @ [seg]) \<subseteq> set js" using filter_eq_members [OF p] by simp
  have "hd (ids @ [seg]) \<le> seg" using windows_ok_less [OF w] by (cases ids) (auto intro: less_imp_le)
  then have "case floor of None \<Rightarrow> True | Some f \<Rightarrow> f \<le> seg" using fl by (auto split: option.splits)
  from collect_from [OF js this] have c: "collect_segments (Some seg) dir = Inr (filter (\<lambda>i. seg \<le> i) js)" .
  have "filter (\<lambda>i. seg \<le> i) js = [seg]"
  proof -
    have "\<forall>i \<in> set js. i \<le> seg" using collect_segments_set [OF js] top by auto
    then have "filter (\<lambda>i. seg \<le> i) js = filter (\<lambda>i. i = seg) js" by (intro filter_cong) auto
    moreover have "distinct js" "seg \<in> set js" using collect_distinct [OF ok js] mem by auto
    ultimately show ?thesis by (simp add: filter_one)
  qed
  with c show ?thesis by (simp add: segment_paths_def Let_def)
qed

definition checkpoint_start :: "u64 \<Rightarrow> analysis" where
  "checkpoint_start lsn = Analysis_default\<lparr>an_track_refs := False, an_latest_lsn := lsn\<rparr>"

lemma checkpoint_start_sel [simp]:
  "an_latest_lsn (checkpoint_start lsn) = lsn" "an_legacy (checkpoint_start lsn) = []"
  "committed_commands (checkpoint_start lsn) = []" "tids_below (checkpoint_start lsn)"
  by (simp_all add: checkpoint_start_def Analysis_default_def committed_commands_def tids_below_def)

lemma dir_log_checkpoint:
  assumes log: "dir_log crc cp dir ids seg (WALHeader_encode crc WALHeader_default) a"
    and c: "rc_replay_start_segment c = seg" "rc_next_physical_lsn c = an_latest_lsn a + 1"
  shows "dir_log crc (Some c) dir [] seg (WALHeader_encode crc WALHeader_default) (checkpoint_start (an_latest_lsn a))"
proof -
  have ok: "dir_ok dir" "\<forall>e \<in> set dir. de_id e \<le> seg" "an_latest_lsn a + 1 \<noteq> 0"
    and paths: "segment_paths dir (map_option rc_replay_start_segment cp) = Inr (ids @ [seg])"
    and f: "segment_file dir seg = Some (WALHeader_encode crc WALHeader_default)"
    using log by (auto simp: dir_log_def)
  have "checked_sub (an_latest_lsn a + 1) 1 = Some (an_latest_lsn a)"
    using ok(3) by (simp add: checked_sub_def word_le_nat_alt unat_gt_0 Suc_le_eq)
  then have "checkpoint_analysis (Some c) False = Inr (checkpoint_start (an_latest_lsn a))"
    by (simp add: checkpoint_analysis_def checkpoint_start_def c(2))
  with ok f segment_paths_last [OF ok(1,2) paths] scan_new_segment [of crc seg "checkpoint_start (an_latest_lsn a)"] show ?thesis
    by (auto simp: dir_log_def c(1))
qed

section \<open>Deleting covered segments\<close>

lemma collect_remove: "de_id e < f \<Longrightarrow> collect_segments (Some f) (remove1 e dir) = collect_segments (Some f) dir"
  by (induction dir) auto

lemma segment_file_remove: "de_id e \<noteq> i \<Longrightarrow> segment_file (remove1 e dir) i = segment_file dir i"
  by (induction dir) (auto simp: segment_file_Cons)

lemma dir_ok_remove: "dir_ok dir \<Longrightarrow> dir_ok (remove1 e dir)"
proof (induction dir)
  case (Cons d dir)
  have "set (filter de_canonical (remove1 e dir)) \<subseteq> set (filter de_canonical dir)" by (auto dest: notin_set_remove1 set_remove1_subset [THEN subsetD])
  with Cons show ?case by (auto simp: dir_ok_def dest!: set_remove1_subset [THEN subsetD])
qed simp

lemma dir_log_remove:
  assumes log: "dir_log crc (Some c) dir ids seg bytes a" and e: "de_id e < rc_replay_start_segment c"
  shows "dir_log crc (Some c) (remove1 e dir) ids seg bytes a"
proof -
  let ?f = "rc_replay_start_segment c" and ?dir = "remove1 e dir"
  have paths: "segment_paths dir (Some ?f) = Inr (ids @ [seg])" using log by (simp add: dir_log_def)
  then have above: "\<forall>i \<in> set (ids @ [seg]). ?f \<le> i"
    by (auto simp: segment_paths_def rbind_eq_Inr Let_def split: if_splits dest!: filter_eq_members)
  then have same: "segment_file ?dir i = segment_file dir i" if "i \<in> set (ids @ [seg])" for i
    using that e by (intro segment_file_remove) auto
  have "segment_paths ?dir (Some ?f) = segment_paths dir (Some ?f)" by (simp add: segment_paths_def collect_remove [OF e])
  moreover have "scan_sealed crc ?dir ids WAL_VERSION a0 = scan_sealed crc dir ids WAL_VERSION a0" for a0
    by (rule scan_sealed_cong) (use same in simp)
  moreover have "\<forall>d \<in> set ?dir. de_id d \<le> seg" using log set_remove1_subset [of e dir] by (auto simp: dir_log_def)
  ultimately show ?thesis using log dir_ok_remove [of dir e] same [of seg] by (simp add: dir_log_def)
qed

lemma reclaim_loop_inv:
  assumes "reclaim_loop remove_ok es m removed = (removed', completed, m')"
    and "\<forall>e \<in> set es. de_id e < rc_replay_start_segment c"
    and "ws_checkpoint (wm_state m) = Some c" and "wal_inv crc m a"
  shows "wal_inv crc m' a \<and> ws_checkpoint (wm_state m') = Some c
     \<and> wm_checkpoint_owner m' = wm_checkpoint_owner m \<and> wm_token m' = wm_token m \<and> wm_raw_writes m' = wm_raw_writes m"
  using assms
proof (induction remove_ok es m removed rule: reclaim_loop.induct)
  case (2 remove_ok e es m removed_any)
  let ?m = "m\<lparr>wm_dir := remove1 e (wm_dir m), wm_state := (wm_state m)\<lparr>ws_sealed := ws_sealed (wm_state m) - {de_id e}\<rparr>\<rparr>"
  have "wal_inv crc ?m a"
    using 2(6) dir_log_remove [of crc c "wm_dir m" _ "ws_segment_id (wm_state m)" _ a e] 2(4,5) by (fastforce simp: wal_inv_def)
  with 2 show ?case by (auto split: if_splits)
qed auto

lemma wal_inv_checkpoint:
  assumes inv: "wal_inv crc m a" and c: "ws_checkpoint (wm_state m) = Some c"
    and r: "reclaim_checkpointed_segments remove_ok sync_ok c m = (r, m')"
  shows "wal_inv crc m' a \<and> ws_checkpoint (wm_state m') = Some c
     \<and> wm_checkpoint_owner m' = wm_checkpoint_owner m \<and> wm_token m' = wm_token m \<and> wm_raw_writes m' = wm_raw_writes m"
proof -
  have healthy: "\<not> ws_poisoned (wm_state m)" using inv by (simp add: wal_inv_def)
  show ?thesis
  proof (cases "\<not> wm_checkpoint_owner m \<or> ws_segment_id (wm_state m) < rc_replay_start_segment c
    \<or> ws_next_lsn (wm_state m) < rc_next_physical_lsn c")
  case True
  with r healthy have "m' = m" by (auto simp: reclaim_checkpointed_segments_def ensure_healthy_def guard_err_def split: if_splits)
  with inv c show ?thesis by simp
next
  case False
  let ?m = "m\<lparr>wm_state := (wm_state m)\<lparr>ws_checkpoint := Some c\<rparr>\<rparr>"
  have same: "?m = m" using c by simp
  obtain x y m1 where l: "reclaim_loop remove_ok (sort_key de_id (filter (\<lambda>e. de_id e < rc_replay_start_segment c) (wm_dir m))) m False
      = (x, y, m1)" by (metis prod.exhaust)
  have "m' = m1" using r False healthy l
    by (auto simp: reclaim_checkpointed_segments_def ensure_healthy_def guard_err_def Let_def same split: if_splits)
  with reclaim_loop_inv [OF l _ c inv] show ?thesis by simp
  qed
qed

section \<open>Rotation, checkpoint and reclamation\<close>

text \<open>A rotated log, as a directory and as a manager.\<close>

lemma rotated_inv:
  assumes inv: "wal_inv crc m a" and rot: "rotate_wal_file crc rio m = (Inr seg, m')"
  shows "wal_inv crc m' a \<and> seg = ws_segment_id (wm_state m')
     \<and> (\<exists>ids. dir_log crc (ws_checkpoint (wm_state m)) (wm_dir m') ids seg (WALHeader_encode crc WALHeader_default) a)
     \<and> ws_checkpoint (wm_state m') = ws_checkpoint (wm_state m) \<and> ws_next_lsn (wm_state m') = an_latest_lsn a + 1
     \<and> wm_checkpoint_owner m' = wm_checkpoint_owner m \<and> wm_token m' = wm_token m \<and> wm_raw_writes m' = wm_raw_writes m"
proof -
  let ?m = "set_poisoned True m" and ?cp = "ws_checkpoint (wm_state m)"
  from inv obtain ids bytes where log: "dir_log crc ?cp (wm_dir ?m) ids (ws_segment_id (wm_state ?m)) bytes a"
    and h: "\<not> ws_poisoned (wm_state m)" "ws_next_lsn (wm_state m) = an_latest_lsn a + 1"
    by (auto simp: wal_inv_def set_poisoned_def)
  have cp: "ws_checkpoint (wm_state ?m) = ?cp" by (simp add: set_poisoned_def)
  obtain q m1 where q: "rotate_locked crc rio ?m = (q, m1)" by (cases "rotate_locked crc rio ?m")
  from rot q h(1) obtain u where Inr: "q = Inr u" "m' = set_poisoned False m1" "seg = ws_segment_id (wm_state m')"
    by (cases q) (auto simp: rotate_wal_file_def ensure_healthy_def guard_err_def Let_def)
  from rotate_leaves [OF log cp q, of "[]"] Inr obtain ids' where
    *: "dir_log crc ?cp (wm_dir m1) ids' (ws_segment_id (wm_state m1)) (WALHeader_encode crc WALHeader_default) a"
    "ws_size (wm_state m1) = of_nat WAL_HEADER_SIZE" "ws_checkpoint (wm_state m1) = ?cp"
    "ws_next_lsn (wm_state m1) = an_latest_lsn a + 1"
    using h(2) by (auto simp: set_poisoned_def)
  then have "wal_inv crc m' a"
    by (intro wal_invI [of crc _ ids' "WALHeader_encode crc WALHeader_default"])
      (simp_all add: Inr(2) set_poisoned_def length_WALHeader_encode)
  moreover have "wm_checkpoint_owner m1 = wm_checkpoint_owner m \<and> wm_token m1 = wm_token m \<and> wm_raw_writes m1 = wm_raw_writes m"
    using q by (auto simp: rotate_locked_def set_poisoned_def split: rotate_io.splits option.splits sum.splits prod.splits)
  ultimately show ?thesis using * Inr by (auto simp: set_poisoned_def)
qed

text \<open>What a rotation that fails leaves.\<close>

lemma rotate_failed:
  assumes inv: "wal_inv crc m a" and rot: "rotate_wal_file crc rio m = (Inl e, m')"
  shows "ws_poisoned (wm_state m')
     \<and> (\<exists>a'. reopens crc (ws_checkpoint (wm_state m)) (wm_dir m') a' \<and> an_legacy a' = an_legacy a
          \<and> committed_commands a' = committed_commands a)"
proof -
  let ?m = "set_poisoned True m" and ?cp = "ws_checkpoint (wm_state m)"
  from inv obtain ids bytes where log: "dir_log crc ?cp (wm_dir ?m) ids (ws_segment_id (wm_state ?m)) bytes a"
    and h: "\<not> ws_poisoned (wm_state m)" by (auto simp: wal_inv_def set_poisoned_def)
  have cp: "ws_checkpoint (wm_state ?m) = ?cp" by (simp add: set_poisoned_def)
  obtain q m1 where q: "rotate_locked crc rio ?m = (q, m1)" by (cases "rotate_locked crc rio ?m")
  from rot q h obtain e' where Inl: "q = Inl e'" "m' = m1"
    by (cases q) (auto simp: rotate_wal_file_def ensure_healthy_def guard_err_def Let_def)
  have "ws_poisoned (wm_state m1)"
    using q Inl by (auto simp: rotate_locked_def set_poisoned_def split: rotate_io.splits option.splits sum.splits prod.splits)
  with rotate_leaves [OF log cp q, of "[]"] Inl show ?thesis by (auto simp: append_leaves_def)
qed

text \<open>Publishing the position and reclaiming what it covers empties the log.\<close>

lemma checkpointed_inv:
  assumes log: "dir_log crc cp (wm_dir m) ids seg (WALHeader_encode crc WALHeader_default) a" and inv: "wal_inv crc m a"
    and seg: "seg = ws_segment_id (wm_state m)" and own: "wm_checkpoint_owner m"
    and c: "rc_replay_start_segment c = seg" "rc_next_physical_lsn c = ws_next_lsn (wm_state m)"
    and r: "reclaim_checkpointed_segments remove_ok sync_ok c m = (r, m')"
  shows "wal_inv crc m' (checkpoint_start (an_latest_lsn a)) \<and> ws_checkpoint (wm_state m') = Some c
     \<and> wm_checkpoint_owner m' = wm_checkpoint_owner m \<and> wm_token m' = wm_token m \<and> wm_raw_writes m' = wm_raw_writes m"
proof -
  let ?m = "m\<lparr>wm_state := (wm_state m)\<lparr>ws_checkpoint := Some c\<rparr>\<rparr>"
  have h: "\<not> ws_poisoned (wm_state m)" "ws_next_lsn (wm_state m) = an_latest_lsn a + 1" using inv by (simp_all add: wal_inv_def)
  have log': "dir_log crc (Some c) (wm_dir m) [] seg (WALHeader_encode crc WALHeader_default) (checkpoint_start (an_latest_lsn a))"
    by (rule dir_log_checkpoint [OF log c(1)]) (simp add: c(2) h(2))
  obtain ids' bytes where b: "dir_log crc (ws_checkpoint (wm_state m)) (wm_dir m) ids' seg bytes a" "ws_size (wm_state m) = of_nat (length bytes)"
    using inv seg by (auto simp: wal_inv_def)
  have "bytes = WALHeader_encode crc WALHeader_default" using b(1) log by (auto simp: dir_log_def)
  then have inv': "wal_inv crc ?m (checkpoint_start (an_latest_lsn a))"
    using log' b(2) h seg by (intro wal_invI [of crc _ "[]" "WALHeader_encode crc WALHeader_default"]) simp_all
  have "reclaim_checkpointed_segments remove_ok sync_ok c ?m = (r, m')"
    using r own h(1) c seg by (simp add: reclaim_checkpointed_segments_def ensure_healthy_def guard_err_def Let_def)
  from wal_inv_checkpoint [OF inv' _ this] show ?thesis by simp
qed

end
