(* ===== verification/Path_Text.thy ===== *)
theory Path_Text
  imports Paths Utf8
begin

text \<open>
  The paths the code builds are text: the parent of a path in UTF-8, and a path joined from text and ASCII
  names, are in UTF-8 again. The manifest stores paths as strings and checks them when it is replayed.
\<close>

lemma utf8_len_ascii_bound:
  assumes "b < 0x80" and "0 < utf8_len (xs @ b # ys)" and "xs \<noteq> []"
  shows "utf8_len (xs @ b # ys) = utf8_len xs"
proof -
  have "\<not> utf8_cont b" using assms(1) by (auto simp: utf8_cont_def)
  with assms show ?thesis
    by (cases xs rule: list_upto4_cases) (auto simp: utf8_len_def utf8_char3_def utf8_char4_def cong: if_cong
        split: if_split_asm list.splits)
qed

lemma utf8_valid_split:
  assumes "utf8_valid (xs @ b # ys)" and "b < 0x80"
  shows "utf8_valid xs \<and> utf8_valid ys"
  using assms(1)
proof (induction xs rule: utf8_valid.induct)
  case (1 xs)
  show ?case
  proof (cases "xs = []")
    case True
    with 1(2) assms(2) show ?thesis by (simp add: utf8_valid_Cons_ascii)
  next
    case False
    from 1(2) have pos: "0 < utf8_len (xs @ b # ys)" by (auto simp: utf8_valid.simps [of "xs @ b # ys"] split: if_splits)
    note len = utf8_len_ascii_bound [OF assms(2) pos False]
    have "utf8_valid (drop (utf8_len xs) xs @ b # ys)"
      using 1(2) len pos utf8_len_le [of xs] by (simp add: utf8_valid.simps [of "xs @ b # ys"] split: if_splits)
    with 1(1) [OF False] len pos have "utf8_valid (drop (utf8_len xs) xs) \<and> utf8_valid ys" by simp
    with len pos show ?thesis by (simp add: utf8_valid.simps [of xs])
  qed
qed

lemma slash_ascii: "slash < 0x80" "dot < 0x80"
  by simp_all

lemma split_last_eq:
  "slash \<in> set b \<Longrightarrow> b = fst (split_last b) @ slash # snd (split_last b)"
  "slash \<notin> set b \<Longrightarrow> fst (split_last b) = []"
proof -
  show "fst (split_last b) = []" if "slash \<notin> set b"
  proof -
    have "takeWhile (\<lambda>x. x \<noteq> slash) (rev b) = rev b" using that by (subst takeWhile_eq_all_conv) auto
    then show ?thesis by (simp only: split_last_def Let_def fst_conv length_rev) simp
  qed
  show "b = fst (split_last b) @ slash # snd (split_last b)" if m: "slash \<in> set b"
  proof -
    obtain xs ys where b: "b = xs @ slash # ys" "slash \<notin> set ys" using split_list_last [OF m] by blast
    then show ?thesis using split_last_join [OF b(2), of xs] by simp
  qed
qed

lemma utf8_split_last: "utf8_valid b \<Longrightarrow> utf8_valid (fst (split_last b))"
  using split_last_eq [of b] utf8_valid_split [of "fst (split_last b)" slash "snd (split_last b)"] slash_ascii
  by (cases "slash \<in> set b") auto

lemma utf8_path_trim: "utf8_valid b \<Longrightarrow> utf8_valid (path_trim b)"
proof (induction b rule: path_trim.induct)
  case (1 b)
  then show ?case using utf8_split_last [of b] by (subst path_trim.simps) auto
qed

lemma utf8_path_parent:
  assumes "utf8_valid p" and "path_parent p = Some q"
  shows "utf8_valid q"
proof -
  let ?n = "before_body p"
  have "utf8_valid (take ?n p) \<and> utf8_valid (drop ?n p)"
  proof (cases p)
    case (Cons b bs)
    show ?thesis
    proof (cases "has_root p \<or> leading_dot p")
      case True
      then have "b < 0x80" using slash_ascii by (auto simp: Cons has_root_def leading_dot_def)
      with assms(1) True show ?thesis by (simp add: Cons before_body_def utf8_valid_Cons_ascii [of b])
    next
      case False
      with assms(1) show ?thesis by (simp add: before_body_def)
    qed
  qed simp
  then have "utf8_valid (take ?n p @ path_trim (fst (split_last (path_trim (drop ?n p)))))"
    by (intro utf8_valid_append utf8_path_trim utf8_split_last) simp_all
  with assms(2) show ?thesis by (auto simp: path_parent_def Let_def split: if_splits)
qed

lemma utf8_path_join: "utf8_valid d \<Longrightarrow> utf8_valid n \<Longrightarrow> utf8_valid (path_join d n)"
  using utf8_valid_append [of "[slash]" n] utf8_valid_ascii [of "[slash]"] by (simp add: path_join_def utf8_valid_append)

lemma utf8_decimal: "utf8_valid (decimal n)"
proof (induction n rule: decimal.induct)
  case (1 n)
  have "(of_nat (48 + n mod 10) :: byte) < 0x80" for n
  proof -
    have "48 + n mod 10 < 2 ^ 8" by (simp add: trans_less_add1)
    then have "unat (of_nat (48 + n mod 10) :: byte) = 48 + n mod 10" by (simp only: unat_of_nat take_bit_eq_mod) simp
    then show ?thesis by (simp only: word_less_nat_alt) simp
  qed
  from utf8_valid_ascii [of "[of_nat (48 + n mod 10)]"] this have d: "utf8_valid [of_nat (48 + n mod 10)]" by simp
  show ?case
  proof (cases "n < 10")
    case True
    then have "decimal n = [of_nat (48 + n mod 10)]" by (subst decimal.simps) simp
    with d show ?thesis by simp
  next
    case False
    with 1 d show ?thesis by (subst decimal.simps) (simp add: utf8_valid_append)
  qed
qed

lemma utf8_ascii: "\<forall>c \<in> set s. of_char c < (0x80 :: byte) \<Longrightarrow> utf8_valid (ascii s)"
  by (intro utf8_valid_ascii) (auto simp: ascii_def)

end
