(* ===== verification/Store_History.thy ===== *)
theory Store_History
  imports Flush_Correct Wal_Checkpoints Path_Text
begin

text \<open>
  The engine's data against a history of commands: the tables, the memtable and the log of a running
  engine hold a history (\<open>core_inv\<close>), and what its directory would recover is a history (\<open>recoverable\<close>,
  \<open>disk_inv\<close>). The lemmas say that the steps of a flush keep both, whatever the file system does.
\<close>

section \<open>The manifest file\<close>

text \<open>An append that succeeds, or fails without writing anything.\<close>

definition clean_append :: "append_io \<Rightarrow> bool" where
  "clean_append io \<longleftrightarrow> io = AppendOk \<or> io = AppendFail 0"

text \<open>An operation of the manifest manager that appends at most one entry.\<close>

definition logs_op ::
  "(bytes \<Rightarrow> u32) \<Rightarrow> (append_io \<Rightarrow> 'a \<times> 'h manifest_manager) \<Rightarrow> 'h manifest_manager \<Rightarrow> bool" where
  "logs_op crc f mm \<longleftrightarrow> (\<forall>io. snd (f io) = mm) \<or> (\<exists>op. \<forall>io. served crc io op mm (snd (f io)))"

lemma mm_inv_only_ids: "mm_inv crc ops mm \<Longrightarrow> only_ids mm mm' \<Longrightarrow> mm_inv crc ops mm'"
  by (auto simp: mm_inv_def only_ids_def agrees_def intro: order_trans)

lemma mm_inv_cong:
  "mm_inv crc ops mm \<Longrightarrow> mm_file mm' = mm_file mm \<Longrightarrow> mm_state mm' = mm_state mm \<Longrightarrow> mm_inv crc ops mm'"
  by (simp add: mm_inv_def)

lemma served_ok: "mm_inv crc ops mm \<Longrightarrow> served crc AppendOk op mm mm' \<Longrightarrow> mm_inv crc (ops @ [op]) mm'"
  by (simp add: mm_inv_def served_def appended_def)

lemma append_then_ok: "append_then io entry m k = (Inr u, m') \<Longrightarrow> io = AppendOk"
  by (auto simp: append_then_def append_manifest_entry_def split: sum.splits append_io.splits)

lemma logs_clean:
  assumes "mm_inv crc ops mm" and "logs_op crc f mm" and "clean_append io"
  shows "\<exists>ops'. mm_inv crc ops' (snd (f io))"
proof (cases "\<forall>io. snd (f io) = mm")
  case False
  then obtain op where op: "\<forall>io. served crc io op mm (snd (f io))" using assms(2) by (auto simp: logs_op_def)
  show ?thesis
  proof (cases "io = AppendOk")
    case True
    with served_ok [OF assms(1)] op show ?thesis by blast
  next
    case False
    then have "io = AppendFail 0" using assms(3) by (simp add: clean_append_def)
    with op have "mm_file (snd (f io)) = mm_file mm" "mm_state (snd (f io)) = mm_state mm" by (auto simp: served_def appended_def)
    with assms(1) mm_inv_cong show ?thesis by blast
  qed
qed (use assms(1) in auto)

lemma op_bytes_small: "op_ok op \<Longrightarrow> length (op_bytes crc op) < 2 ^ 33"
  by (cases op) (auto simp: length_op_bytes op_ok_def)

text \<open>What the file replays to after any outcome of the append: the state before, or the state after.\<close>

lemma logs_replay:
  assumes inv: "mm_inv crc ops mm" and logs: "logs_op crc f mm" and r: "replay_manifest crc (mm_file (snd (f io))) = Inr st"
    and len: "length (mm_file (snd (f io))) + 2 ^ 33 \<le> isize_max"
  shows "\<exists>ops'. list_all op_ok ops' \<and> mm_file (snd (f io)) = manifest_bytes crc ops' \<and> st = replayed ops'
     \<and> (ops' = ops \<or> mm_inv crc ops' (snd (f AppendOk)))"
proof (cases "mm_file (snd (f io)) = mm_file mm")
  case True
  with r len inv show ?thesis by (intro exI [of _ ops]) (simp add: mm_inv_def replay_manifest_ops replayed_def)
next
  case False
  then obtain op where op: "\<forall>io. served crc io op mm (snd (f io))" using logs by (auto simp: logs_op_def)
  have ok: "list_all op_ok ops" "op_ok op" "mm_file mm = manifest_bytes crc ops"
    using inv op by (auto simp: mm_inv_def served_def)
  have eq: "manifest_bytes crc (ops @ [op]) = manifest_bytes crc ops @ op_bytes crc op" by simp
  have whole: "mm_file (snd (f io)) = manifest_bytes crc ops @ appended io (op_bytes crc op)" using op ok(3) by (auto simp: served_def)
  have small: "length (manifest_bytes crc (ops @ [op])) \<le> isize_max"
    using len whole op_bytes_small [OF ok(2), of crc] by (simp add: eq)
  show ?thesis
  proof (cases "appended io (op_bytes crc op) = op_bytes crc op")
    case True
    with whole have "mm_file (snd (f io)) = manifest_bytes crc (ops @ [op])" by (simp add: eq)
    moreover from this r replay_manifest_ops [of "ops @ [op]" crc] ok small have "st = replayed (ops @ [op])" by (simp add: replayed_def)
    moreover have "mm_inv crc (ops @ [op]) (snd (f AppendOk))" using served_ok [OF inv] op by blast
    ultimately show ?thesis using ok by (intro exI [of _ "ops @ [op]"]) simp
  next
    case torn: False
    then obtain n where n: "io = AppendFail n" by (cases io) (auto simp: appended_def)
    with torn False whole ok(3) have "0 < n" "n < length (op_bytes crc op)" by (auto simp: appended_def not_less[symmetric] intro: Nat.gr0I)
    from replay_manifest_torn [OF ok(1,2) this small] r whole n show ?thesis by (auto simp: appended_def)
  qed
qed

section \<open>Histories of a store and of a log\<close>

definition meta_sound :: "(sstable_meta \<Rightarrow> memtable_record list) \<Rightarrow> sstable_meta \<Rightarrow> bool" where
  "meta_sound recs m \<longleftrightarrow> utf8_valid (sm_path m) \<and> sm_record_count m = of_nat (length (recs m))"

definition store_hist ::
  "(bytes \<Rightarrow> u32) \<Rightarrow> ('f, f64) bloom_api \<Rightarrow> (sstable_meta \<Rightarrow> memtable_record list) \<Rightarrow> log_command list \<Rightarrow> memtable \<Rightarrow>
   bytes manifest_manager \<times> files \<Rightarrow> bool" where
  "store_hist crc api recs H mem st \<longleftrightarrow>
     store_inv crc api recs mem st \<and> history_ok H \<and> set (versions_of recs mem st) \<subseteq> cmd_record ` set H
     \<and> reads_like (versions_of recs mem st) H \<and> (\<forall>m \<in> live_of st. meta_sound recs m)"

definition cp_sequence :: "recovery_checkpoint option \<Rightarrow> u64" where
  "cp_sequence cp = (case cp of None \<Rightarrow> 0 | Some c \<Rightarrow> rc_committed_sequence c)"

text \<open>
  The log holds the commands since the checkpoint: those of \<open>H\<close> that are not covered, and \<open>extra\<close>, the
  commands of writes that failed but reached the file.
\<close>

definition log_hist ::
  "(bytes \<Rightarrow> u32) \<Rightarrow> log_command list \<Rightarrow> log_command list \<Rightarrow> recovery_checkpoint option \<Rightarrow> memtable \<Rightarrow> wal_manager \<Rightarrow> bool" where
  "log_hist crc H extra cp mem wal \<longleftrightarrow>
     (\<exists>a H0 cs. reopens crc cp (wm_dir wal) a \<and> an_legacy a = [] \<and> H = H0 @ cs
        \<and> committed_commands a = cs @ extra \<and> set (mem_records mem) \<subseteq> cmd_record ` set cs
        \<and> (\<forall>c \<in> set H0. lc_lsn c \<le> cp_sequence cp)
        \<and> (ws_poisoned (wm_state wal) \<or> extra = [] \<and> wal_inv crc wal a \<and> ws_checkpoint (wm_state wal) = cp))
     \<and> history_ok (H @ extra)"

lemma log_histI:
  assumes "reopens crc cp (wm_dir wal) a" and "an_legacy a = []" and "H = H0 @ cs" and "committed_commands a = cs @ extra"
    and "set (mem_records mem) \<subseteq> cmd_record ` set cs" and "\<forall>c \<in> set H0. lc_lsn c \<le> cp_sequence cp"
    and "ws_poisoned (wm_state wal) \<or> extra = [] \<and> wal_inv crc wal a \<and> ws_checkpoint (wm_state wal) = cp"
    and "history_ok (H @ extra)"
  shows "log_hist crc H extra cp mem wal"
  unfolding log_hist_def using assms by blast

definition core_inv ::
  "(bytes \<Rightarrow> u32) \<Rightarrow> ('f, f64) bloom_api \<Rightarrow> log_command list \<Rightarrow> log_command list \<Rightarrow> memtable \<Rightarrow> u64 \<Rightarrow> managers \<Rightarrow> bool" where
  "core_inv crc api H extra mem sequence_number g \<longleftrightarrow>
     (\<exists>recs. store_hist crc api recs H mem (mg_manifest g, mg_files g))
     \<and> (\<exists>ops. mm_inv crc ops (mg_manifest g))
     \<and> log_hist crc H extra (ms_recovery_checkpoint (mm_state (mg_manifest g))) mem (mg_wal g)
     \<and> (\<forall>c \<in> set H. lc_lsn c \<le> sequence_number)"

text \<open>A directory whose manifest replays to \<open>st\<close> recovers the history \<open>H\<close>.\<close>

definition table_versions :: "(sstable_meta \<Rightarrow> memtable_record list) \<Rightarrow> manifest_state \<Rightarrow> memtable_record list" where
  "table_versions recs st = all_records recs (level_files (snapshot_levels (ms_levels st)))"

definition recoverable ::
  "(bytes \<Rightarrow> u32) \<Rightarrow> ('f, f64) bloom_api \<Rightarrow> log_command list \<Rightarrow> manifest_state \<Rightarrow> wal_directory \<Rightarrow> files \<Rightarrow> bool" where
  "recoverable crc api H st dir fs \<longleftrightarrow>
     history_ok H
     \<and> (\<exists>recs a H0. manifest_ok (ms_levels st) \<and> ids_below st \<and> live_ok recs (live (ms_levels st))
          \<and> (\<forall>m \<in> live (ms_levels st). table_holds crc api (file_contents fs) m (recs m) \<and> meta_sound recs m)
          \<and> reopens crc (ms_recovery_checkpoint st) dir a \<and> an_legacy a = []
          \<and> H = H0 @ committed_commands a \<and> (\<forall>c \<in> set H0. lc_lsn c \<le> cp_sequence (ms_recovery_checkpoint st))
          \<and> set (table_versions recs st) \<subseteq> cmd_record ` set H
          \<and> reads_like (map cmd_record (committed_commands a) @ table_versions recs st) H)"

lemma set_table_versions:
  "manifest_ok (ms_levels st) \<Longrightarrow> set (table_versions recs st) = recs_of recs (live (ms_levels st))"
  by (simp add: table_versions_def set_all_records_live)

lemma recoverable_agrees:
  assumes "recoverable crc api H st dir fs" and "ms_levels st' = ms_levels st"
    and "ms_recovery_checkpoint st' = ms_recovery_checkpoint st" and "ids_below st'"
  shows "recoverable crc api H st' dir fs"
  using assms by (simp add: recoverable_def table_versions_def)

lemma core_recoverable:
  assumes core: "core_inv crc api H extra mem sn g" and ops: "mm_inv crc ops (mg_manifest g)"
  shows "recoverable crc api (H @ extra) (replayed ops) (wm_dir (mg_wal g)) (mg_files g)"
proof -
  let ?mm = "mg_manifest g" and ?st = "mm_state (mg_manifest g)"
  from core obtain recs where hist: "store_hist crc api recs H mem (?mm, mg_files g)"
    and log: "log_hist crc H extra (ms_recovery_checkpoint ?st) mem (mg_wal g)" by (auto simp: core_inv_def)
  let ?T = "table_versions recs ?st"
  have inv: "manifest_ok (ms_levels ?st)" "ids_below ?st" "live_ok recs (live (ms_levels ?st))"
    "\<forall>m \<in> live (ms_levels ?st). table_holds crc api (file_contents (mg_files g)) m (recs m) \<and> meta_sound recs m"
    using hist by (auto simp: store_hist_def store_inv_iff)
  from log obtain a H0 cs where a: "reopens crc (ms_recovery_checkpoint ?st) (wm_dir (mg_wal g)) a" "an_legacy a = []"
    "H = H0 @ cs" "committed_commands a = cs @ extra" "set (mem_records mem) \<subseteq> cmd_record ` set cs"
    "\<forall>c \<in> set H0. lc_lsn c \<le> cp_sequence (ms_recovery_checkpoint ?st)" and ok: "history_ok (H @ extra)"
    unfolding log_hist_def by blast
  have vs: "set (versions_of recs mem (?mm, mg_files g)) = set (mem_records mem) \<union> set ?T"
    using set_versions_of [of "(?mm, mg_files g)" recs mem] inv(1) by (simp add: set_table_versions)
  have T: "set ?T \<subseteq> cmd_record ` set H" using hist vs by (auto simp: store_hist_def)
  have "reads_like (map cmd_record cs @ ?T) H"
    unfolding a(3)
  proof (rule reads_like_recover [OF _ _ vs])
    show "reads_like (versions_of recs mem (?mm, mg_files g)) (H0 @ cs)" using hist a(3) by (simp add: store_hist_def)
  qed (use ok a(3,5) T in \<open>auto simp: history_ok_append\<close>)
  then have "reads_like (map cmd_record (cs @ extra) @ ?T) (H @ extra)"
    by (rule reads_like_append [OF ok, rotated]) (use T a(3) in auto)
  then have "recoverable crc api (H @ extra) ?st (wm_dir (mg_wal g)) (mg_files g)"
    unfolding recoverable_def using ok inv a T by (intro conjI exI [of _ recs] exI [of _ a] exI [of _ H0]) auto
  then show ?thesis
    by (rule recoverable_agrees) (use ops ids_below_replayed in \<open>auto simp: mm_inv_def agrees_def\<close>)
qed

section \<open>What a directory recovers\<close>

text \<open>
  A directory recovers \<open>H\<close> if its manifest replays at all. The bound keeps the file, with one more entry,
  below the size of the buffer it is read into.
\<close>

definition disk_inv ::
  "(bytes \<Rightarrow> u32) \<Rightarrow> ('f, f64) bloom_api \<Rightarrow> log_command list \<Rightarrow> bytes \<Rightarrow> wal_directory \<Rightarrow> files \<Rightarrow> bool" where
  "disk_inv crc api H content dir fs \<longleftrightarrow>
     (length content + 2 ^ 33 \<le> isize_max \<longrightarrow>
        (\<forall>st. replay_manifest crc content = Inr st \<longrightarrow>
           (\<exists>ops. list_all op_ok ops \<and> content = manifest_bytes crc ops \<and> st = replayed ops)
           \<and> recoverable crc api H st dir fs))"

abbreviation dir_inv :: "(bytes \<Rightarrow> u32) \<Rightarrow> ('f, f64) bloom_api \<Rightarrow> log_command list \<Rightarrow> managers \<Rightarrow> bool" where
  "dir_inv crc api H g \<equiv> disk_inv crc api H (mm_file (mg_manifest g)) (wm_dir (mg_wal g)) (mg_files g)"

lemma core_disk:
  assumes "core_inv crc api H extra mem sn g"
  shows "dir_inv crc api (H @ extra) g"
proof -
  obtain ops where ops: "mm_inv crc ops (mg_manifest g)" using assms by (auto simp: core_inv_def)
  have "replay_manifest crc (mm_file (mg_manifest g)) = Inr (replayed ops)" if "length (mm_file (mg_manifest g)) + 2 ^ 33 \<le> isize_max"
    using ops that by (simp add: mm_inv_def replay_manifest_ops replayed_def)
  with core_recoverable [OF assms ops] ops show ?thesis by (auto simp: disk_inv_def mm_inv_def)
qed

lemma logs_disk:
  assumes "mm_inv crc ops mm" and "logs_op crc f mm" and "recoverable crc api H (replayed ops) dir fs"
    and "\<And>ops'. mm_inv crc ops' (snd (f AppendOk)) \<Longrightarrow> recoverable crc api H (replayed ops') dir fs"
  shows "disk_inv crc api H (mm_file (snd (f io))) dir fs"
  unfolding disk_inv_def using logs_replay [OF assms(1,2)] assms(3,4) by metis

section \<open>Steps that leave the live tables alone\<close>

lemma core_frame:
  assumes core: "core_inv crc api H extra mem sn g" and fs: "fs_extends (mg_files g) fs'"
    and lv: "ms_levels (mm_state mm') = ms_levels (mm_state (mg_manifest g))"
    and cp: "ms_recovery_checkpoint (mm_state mm') = ms_recovery_checkpoint (mm_state (mg_manifest g))"
    and ids: "ms_next_file_id (mm_state (mg_manifest g)) \<le> ms_next_file_id (mm_state mm')"
    and cache: "mm_cache mm' = mm_cache (mg_manifest g)" and ops: "mm_inv crc ops mm'"
  shows "core_inv crc api H extra mem sn (g\<lparr>mg_manifest := mm', mg_files := fs'\<rparr>)"
proof -
  obtain recs where hist: "store_hist crc api recs H mem (mg_manifest g, mg_files g)" using core by (auto simp: core_inv_def)
  have "store_hist crc api recs H mem (mm', fs')"
    using store_inv_frame [of crc api recs mem "(mg_manifest g, mg_files g)" "(mm', fs')"] hist fs lv ids cache
    by (simp add: store_hist_def)
  with core ops cp show ?thesis by (auto simp: core_inv_def)
qed

lemma core_only_ids:
  assumes core: "core_inv crc api H extra mem sn g" and fs: "fs_extends (mg_files g) fs'" and ids: "only_ids (mg_manifest g) mm'"
  shows "core_inv crc api H extra mem sn (g\<lparr>mg_manifest := mm', mg_files := fs'\<rparr>)"
proof -
  obtain ops where "mm_inv crc ops (mg_manifest g)" using core by (auto simp: core_inv_def)
  from mm_inv_only_ids [OF this ids] ids show ?thesis
    by (intro core_frame [OF core fs]) (auto simp: only_ids_def)
qed

section \<open>The log\<close>

lemma log_hist_wal:
  assumes "log_hist crc H extra cp mem wal" and "\<not> ws_poisoned (wm_state wal)"
  obtains a where "wal_inv crc wal a" "ws_checkpoint (wm_state wal) = cp" "extra = []"
  using assms by (auto simp: log_hist_def)

lemma wal_inv_reopens: "wal_inv crc m a \<Longrightarrow> reopens crc (ws_checkpoint (wm_state m)) (wm_dir m) a"
  by (auto simp: wal_inv_def intro: dir_log_reopens)

lemma wal_inv_unique: "wal_inv crc m a \<Longrightarrow> wal_inv crc m a' \<Longrightarrow> a' = a"
  by (drule analyze_committed_inv)+ simp

text \<open>Replacing the manager by one whose directory opens to the same commands.\<close>

lemma log_hist_same:
  assumes log: "log_hist crc H extra cp mem wal" and inv: "wal_inv crc wal a" and healthy: "\<not> ws_poisoned (wm_state wal)"
    and re: "reopens crc cp (wm_dir wal') a'" "an_legacy a' = an_legacy a" "committed_commands a' = committed_commands a"
    and inv': "ws_poisoned (wm_state wal') \<or> wal_inv crc wal' a' \<and> ws_checkpoint (wm_state wal') = cp"
  shows "log_hist crc H extra cp mem wal'"
proof -
  from log healthy obtain b H0 cs where b: "reopens crc cp (wm_dir wal) b" "an_legacy b = []" "H = H0 @ cs"
    "committed_commands b = cs @ extra" "set (mem_records mem) \<subseteq> cmd_record ` set cs" "\<forall>c \<in> set H0. lc_lsn c \<le> cp_sequence cp"
    and x: "extra = []" "wal_inv crc wal b" unfolding log_hist_def by blast
  have "b = a" by (rule wal_inv_unique [OF inv x(2)])
  with b re inv' x log show ?thesis
    unfolding log_hist_def by (intro conjI exI [of _ a'] exI [of _ H0] exI [of _ cs]) auto
qed

lemma log_hist_rotate:
  assumes log: "log_hist crc H extra cp mem wal" and rot: "rotate_wal_file crc rio wal = (r, wal')"
  shows "log_hist crc H extra cp mem wal'"
proof (cases "ws_poisoned (wm_state wal)")
  case True
  with rot have "wal' = wal" by (auto simp: rotate_wal_file_def ensure_healthy_def guard_err_def)
  with log show ?thesis by simp
next
  case False
  from log_hist_wal [OF log False] obtain a where a: "wal_inv crc wal a" "ws_checkpoint (wm_state wal) = cp" by blast
  show ?thesis
  proof (cases r)
    case (Inl e)
    from rotate_failed [OF a(1) rot [unfolded Inl]] log_hist_same [OF log a(1) False] a(2) show ?thesis by auto
  next
    case (Inr seg)
    from rotated_inv [OF a(1) rot [unfolded Inr]] a(2) have "wal_inv crc wal' a" "ws_checkpoint (wm_state wal') = cp" by auto
    with log_hist_same [OF log a(1) False] wal_inv_reopens show ?thesis by blast
  qed
qed

lemma core_wal:
  assumes "core_inv crc api H extra mem sn g" and "log_hist crc H extra (ms_recovery_checkpoint (mm_state (mg_manifest g))) mem wal'"
  shows "core_inv crc api H extra mem sn (g\<lparr>mg_wal := wal'\<rparr>)"
  using assms by (simp add: core_inv_def)

lemma core_rotate:
  "core_inv crc api H extra mem sn g \<Longrightarrow> rotate_wal_file crc rio (mg_wal g) = (r, wal') \<Longrightarrow>
     core_inv crc api H extra mem sn (g\<lparr>mg_wal := wal'\<rparr>)"
  by (rule core_wal) (auto simp: core_inv_def intro: log_hist_rotate)

end
