(* ===== verification/Write_History.thy ===== *)
theory Write_History
  imports Store_History
begin

text \<open>
  Writes against the history (\<open>src/storage/writemanager/write.rs\<close>): a round of the write runner adds the commands of its
  requests to the history when it succeeds; when it fails, what the log may hold of them is a prefix
  of the requests, each whole. A \<open>write_batch\<close> on an idle queue is one such round.
\<close>

section \<open>The commands of a round\<close>

definition commands_for :: "batch_operation list \<Rightarrow> log_command list \<Rightarrow> bool" where
  "commands_for operations cs \<longleftrightarrow> (\<exists>lsn lsn'. build_commands operations lsn = Some (cs, lsn'))"

lemma build_groups_commands:
  "build_groups requests lsn = Some (groups, lsn') \<Longrightarrow>
     history_ok (concat groups) \<and> (\<forall>c \<in> set (concat groups). lsn < lc_lsn c \<and> lc_lsn c \<le> lsn') \<and> lsn \<le> lsn'
     \<and> list_all2 commands_for (map rq_operations requests) groups"
proof (induction requests arbitrary: lsn groups)
  case (Cons rq requests)
  then obtain cs l gs where cs: "build_commands (rq_operations rq) lsn = Some (cs, l)" and gs: "build_groups requests l = Some (gs, lsn')"
    and groups: "groups = cs # gs" by (auto split: option.splits)
  note c = build_commands_lsns [OF cs] and ih = Cons.IH [OF gs]
  have "commands_for (rq_operations rq) cs" using cs by (auto simp: commands_for_def)
  moreover have "history_ok (cs @ concat gs)" unfolding history_ok_append using c ih by (auto intro: le_less_trans)
  moreover have "\<forall>c \<in> set (cs @ concat gs). lsn < lc_lsn c \<and> lc_lsn c \<le> lsn'" "lsn \<le> lsn'"
    using c ih by (auto intro: le_less_trans order_trans)
  ultimately show ?case using ih by (simp add: groups)
qed simp

lemma history_ok_take:
  assumes "history_ok (concat groups)"
  shows "history_ok (concat (take n groups))"
proof -
  have "concat groups = concat (take n groups) @ concat (drop n groups)" by (metis append_take_drop_id concat_append)
  with assms show ?thesis by (metis history_ok_append)
qed

lemma set_concat_take: "set (concat (take n groups)) \<subseteq> set (concat groups)"
  by (auto dest: in_set_takeD)

section \<open>A round\<close>

lemma history_ok_extend:
  assumes "history_ok H" and "\<forall>c \<in> set H. lc_lsn c \<le> sn" and "history_ok cs" and "\<forall>c \<in> set cs. sn < lc_lsn c"
  shows "history_ok (H @ cs)"
  using assms by (auto simp: history_ok_append intro: le_less_trans)

lemma inserted_store:
  assumes hist: "store_hist crc api recs H mem st" and ok: "history_ok (H @ cs)"
  shows "store_hist crc api recs (H @ cs) (insert_commands cs mem) st"
proof -
  let ?mem = "insert_commands cs mem"
  have inv: "store_inv crc api recs mem st" and mok: "manifest_ok (ms_levels (mm_state (fst st)))" and mem: "mem_ok mem"
    and sub: "set (versions_of recs mem st) \<subseteq> cmd_record ` set H" and like: "reads_like (versions_of recs mem st) H"
    and new: "\<forall>m \<in> set (mem_records mem). \<forall>r \<in> recs_of recs (live_of st). mr_key m = mr_key r \<longrightarrow>
          (\<exists>m' \<in> set (mem_records mem). mr_key m' = mr_key r \<and> mr_lsn r \<le> mr_lsn m')"
    using hist by (simp_all add: store_hist_def store_inv_iff)
  note vs = set_versions_of [OF mok, of recs]
  have "\<forall>m \<in> set (mem_records mem). \<forall>c \<in> set cs. mr_lsn m < lc_lsn c" using ok sub vs [of mem] by (auto simp: history_ok_append)
  with insert_commands_ok [OF mem] ok have ins: "mem_ok ?mem" "set (mem_records ?mem) = set (mem_records mem) \<union> cmd_record ` set cs"
    by (auto simp: history_ok_append)
  have v': "set (versions_of recs ?mem st) = set (versions_of recs mem st) \<union> cmd_record ` set cs"
    using vs [of mem] vs [of ?mem] ins(2) by auto
  then have sub': "set (versions_of recs ?mem st) \<subseteq> cmd_record ` set (H @ cs)" using sub by auto
  have older: "mr_lsn r \<le> lc_lsn c" if r: "r \<in> recs_of recs (live_of st)" and c: "c \<in> set cs" for r c
  proof -
    have "r \<in> cmd_record ` set H" using r sub vs [of mem] by blast
    then obtain d where "d \<in> set H" "r = cmd_record d" by blast
    with c ok show ?thesis by (auto simp: history_ok_append intro: less_imp_le)
  qed
  have "\<forall>m \<in> set (mem_records ?mem). \<forall>r \<in> recs_of recs (live_of st). mr_key m = mr_key r \<longrightarrow>
      (\<exists>m' \<in> set (mem_records ?mem). mr_key m' = mr_key r \<and> mr_lsn r \<le> mr_lsn m')"
  proof (intro ballI impI)
    fix m r assume m: "m \<in> set (mem_records ?mem)" and r: "r \<in> recs_of recs (live_of st)" and key: "mr_key m = mr_key r"
    show "\<exists>m' \<in> set (mem_records ?mem). mr_key m' = mr_key r \<and> mr_lsn r \<le> mr_lsn m'"
    proof (cases "m \<in> set (mem_records mem)")
      case True
      from bspec [OF bspec [OF new True] r] key ins(2) show ?thesis by auto
    next
      case False
      with m ins(2) obtain c where "c \<in> set cs" "m = cmd_record c" by auto
      with m key older [OF r] show ?thesis by (intro bexI [of _ m]) auto
    qed
  qed
  moreover have "reads_like (versions_of recs ?mem st) (H @ cs)" by (rule reads_like_append [OF ok sub like v'])
  ultimately show ?thesis
    using hist ins(1) ok sub' versions_ok_history [OF ok sub'] by (simp add: store_hist_def store_inv_iff)
qed

text \<open>The log after an append, successful or not.\<close>

lemma log_hist_mark: "log_hist crc H extra cp mem (mark_untracked_mutation wal) = log_hist crc H extra cp mem wal"
proof -
  have "wm_dir (mark_untracked_mutation wal) = wm_dir wal" "wm_state (mark_untracked_mutation wal) = wm_state wal"
    by (simp_all add: mark_untracked_mutation_def)
  then show ?thesis unfolding log_hist_def by simp
qed

lemma log_hist_append:
  assumes log: "log_hist crc H extra cp mem wal" and app: "append_transactions crc rio wio col groups wal = (r, wal')"
    and ne: "groups \<noteq> []" and ok: "history_ok (H @ concat groups)"
    and mem': "set (mem_records mem') \<subseteq> set (mem_records mem) \<union> cmd_record ` set (concat groups)"
  shows "if is_ok r then extra = [] \<and> log_hist crc (H @ concat groups) [] cp mem' wal'
     else log_hist crc H extra cp mem wal' \<or> (extra = [] \<and> (\<exists>n. log_hist crc H (concat (take n groups)) cp mem wal'))"
proof (cases "ws_poisoned (wm_state wal)")
  case True
  with app ne have "wal' = wal" "\<not> is_ok r"
    by (auto simp: append_transactions_def ensure_healthy_def guard_err_def split: if_splits)
  with log show ?thesis by simp
next
  case False
  with log obtain a H0 cs where a: "an_legacy a = []" "H = H0 @ cs" "committed_commands a = cs" "set (mem_records mem) \<subseteq> cmd_record ` set cs"
    "\<forall>c \<in> set H0. lc_lsn c \<le> cp_sequence cp" "extra = []" "wal_inv crc wal a" "ws_checkpoint (wm_state wal) = cp"
    unfolding log_hist_def by auto
  note leaves = append_transactions_leaves [OF a(7) app]
  from leaves obtain n a' where l: "reopens crc cp (wm_dir wal') a'" "ws_checkpoint (wm_state wal') = cp" "an_legacy a' = []"
    "committed_commands a' = cs @ concat (take n groups)" and good: "is_ok r \<longrightarrow> take n groups = groups \<and> wal_inv crc wal' a'"
    by (auto simp: append_leaves_def a)
  show ?thesis
  proof (cases "is_ok r")
    case True
    have m: "set (mem_records mem') \<subseteq> cmd_record ` set (cs @ concat groups)" using mem' a(4) by (auto simp: image_Un)
    have "log_hist crc (H @ concat groups) [] cp mem' wal'"
      by (rule log_histI [OF l(1), of _ H0 "cs @ concat groups"]) (use l a(1,2,5) m ok good True in simp_all)
    with True a(6) show ?thesis by simp
  next
    case fail: False
    show ?thesis
    proof (cases "wal' = wal")
      case True
      with log fail show ?thesis by simp
    next
      case False
      with leaves fail have "ws_poisoned (wm_state wal')" by simp
      moreover have "history_ok (H @ concat (take n groups))"
        using ok history_ok_take [of groups n] set_concat_take [of n groups] by (auto simp: history_ok_append)
      ultimately have "log_hist crc H (concat (take n groups)) cp mem wal'"
        by (intro log_histI [OF l(1), of _ H0 cs]) (use l a in auto)
      with fail a(6) show ?thesis by auto
    qed
  qed
qed

lemma write_round_inline:
  assumes "wc_payload_mode w = Inline" and "build_groups requests (wc_sequence_number w) = Some (groups, next_lsn)"
  shows "write_round crc io requests w wal =
     (case append_transactions crc (fst io) (snd io) False groups
             (if wm_token wal \<noteq> None \<and> wc_checkpoint_owner w = wm_token wal then wal else mark_untracked_mutation wal) of
        (q, wal') \<Rightarrow> (map_sum id (\<lambda>_. ()) q,
          if is_ok q then (append_commands (concat groups) w)\<lparr>wc_sequence_number := next_lsn\<rparr> else w, wal'))"
proof -
  let ?wal = "if wm_token wal \<noteq> None \<and> wc_checkpoint_owner w = wm_token wal then wal else mark_untracked_mutation wal"
  obtain q wal' where q: "append_transactions crc (fst io) (snd io) False groups ?wal = (q, wal')" by force
  then have "write_engine_transactions crc (fst io) (snd io) groups (wc_checkpoint_owner w) wal = (map_sum id (\<lambda>_. ()) q, wal')"
    by (simp only: write_engine_transactions_def append_engine_transactions_def Let_def apfst_conv)
  with assms show ?thesis unfolding q by (cases q) (simp_all add: write_round_def)
qed

lemma write_round_core:
  assumes core: "core_inv crc api H extra (wc_memtable w) (wc_sequence_number w) g" and mode: "wc_payload_mode w = Inline"
    and ne: "requests \<noteq> []" and round: "write_round crc io requests w (mg_wal g) = (r, w', wal')"
  shows "if is_ok r
     then extra = [] \<and> (\<exists>groups. list_all2 commands_for (map rq_operations requests) groups
       \<and> core_inv crc api (H @ concat groups) [] (wc_memtable w') (wc_sequence_number w') (g\<lparr>mg_wal := wal'\<rparr>)
       \<and> w' = (append_commands (concat groups) w)\<lparr>wc_sequence_number := wc_sequence_number w'\<rparr>)
     else w' = w \<and> (\<exists>extra'. core_inv crc api H extra' (wc_memtable w) (wc_sequence_number w) (g\<lparr>mg_wal := wal'\<rparr>)
       \<and> (extra' = extra \<or> extra = [] \<and> (\<exists>groups n. list_all2 commands_for (map rq_operations requests) groups \<and> extra' = concat (take n groups))))"
proof (cases "build_groups requests (wc_sequence_number w)")
  case None
  with round have "r = Inl (Err (StorageError ''batch sequence exhausted''))" "w' = w" "wal' = mg_wal g" by (auto simp: write_round_def)
  with core show ?thesis by auto
next
  case (Some p)
  obtain groups next_lsn where p: "p = (groups, next_lsn)" by (cases p)
  note b = build_groups_commands [OF Some [unfolded p]]
  let ?wal = "if wm_token (mg_wal g) \<noteq> None \<and> wc_checkpoint_owner w = wm_token (mg_wal g) then mg_wal g
              else mark_untracked_mutation (mg_wal g)"
  let ?cp = "ms_recovery_checkpoint (mm_state (mg_manifest g))" and ?cs = "concat groups"
  obtain q where q: "append_transactions crc (fst io) (snd io) False groups ?wal = (q, wal')" "is_ok q = is_ok r"
    and res: "w' = (if is_ok r then (append_commands ?cs w)\<lparr>wc_sequence_number := next_lsn\<rparr> else w)"
    using round unfolding write_round_inline [OF mode Some [unfolded p]] by (auto split: prod.splits)
  obtain recs where hist: "store_hist crc api recs H (wc_memtable w) (mg_manifest g, mg_files g)"
    and log: "log_hist crc H extra ?cp (wc_memtable w) (mg_wal g)" and seq: "\<forall>c \<in> set H. lc_lsn c \<le> wc_sequence_number w"
    using core by (auto simp: core_inv_def)
  have ok: "history_ok (H @ ?cs)" using history_ok_extend [OF _ seq] hist b by (auto simp: store_hist_def)
  note st = inserted_store [OF hist ok]
  have "set (mem_records (insert_commands ?cs (wc_memtable w))) \<subseteq> set (mem_records (wc_memtable w)) \<union> cmd_record ` set ?cs"
  proof -
    have "\<forall>m \<in> set (mem_records (wc_memtable w)). \<forall>c \<in> set ?cs. mr_lsn m < lc_lsn c"
      using hist ok set_versions_of [of "(mg_manifest g, mg_files g)" recs "wc_memtable w"]
      by (auto simp: history_ok_append store_hist_def store_inv_iff)
    with insert_commands_ok [of "wc_memtable w" ?cs] hist b show ?thesis by (auto simp: store_hist_def store_inv_iff)
  qed
  moreover have "groups \<noteq> []" using b ne by auto
  moreover have "log_hist crc H extra ?cp (wc_memtable w) ?wal" using log by (simp add: log_hist_mark)
  ultimately have app: "if is_ok q then extra = [] \<and> log_hist crc (H @ ?cs) [] ?cp (insert_commands ?cs (wc_memtable w)) wal'
      else log_hist crc H extra ?cp (wc_memtable w) wal'
        \<or> (extra = [] \<and> (\<exists>n. log_hist crc H (concat (take n groups)) ?cp (wc_memtable w) wal'))"
    using log_hist_append [OF _ q(1) _ ok] by blast
  show ?thesis
  proof (cases "is_ok r")
    case True
    have "\<forall>c \<in> set (H @ ?cs). lc_lsn c \<le> next_lsn" using seq b by (auto intro: order_trans)
    moreover have "log_hist crc (H @ ?cs) [] ?cp (insert_commands ?cs (wc_memtable w)) wal'" "extra = []" using app True q(2) by simp_all
    moreover have "\<exists>ops. mm_inv crc ops (mg_manifest g)" using core by (simp add: core_inv_def)
    ultimately have "core_inv crc api (H @ ?cs) [] (wc_memtable w') (wc_sequence_number w') (g\<lparr>mg_wal := wal'\<rparr>)"
      using st True by (auto simp: core_inv_def res)
    with b \<open>extra = []\<close> True show ?thesis by (auto simp: res)
  next
    case False
    from app False q(2) consider "log_hist crc H extra ?cp (wc_memtable w) wal'"
      | n where "extra = []" "log_hist crc H (concat (take n groups)) ?cp (wc_memtable w) wal'" by auto
    then show ?thesis
    proof cases
      case 1
      from core_wal [OF core 1] False show ?thesis by (auto simp: res)
    next
      case 2
      have "core_inv crc api H (concat (take n groups)) (wc_memtable w) (wc_sequence_number w) (g\<lparr>mg_wal := wal'\<rparr>)"
        using 2(2) core by (simp add: core_inv_def)
      with b False 2(1) show ?thesis by (auto simp: res)
    qed
  qed
qed

section \<open>A batch on an idle queue\<close>

definition queue_idle :: "admission_queue \<Rightarrow> bool" where
  "queue_idle q \<longleftrightarrow>
     aq_requests q = [] \<and> \<not> aq_running q \<and> aq_completed_ticket q = aq_next_ticket q
     \<and> aq_slots q = MAX_ADMITTED_REQUESTS \<and> aq_bytes q = ADMITTED_BYTE_BUDGET
     \<and> (\<forall>t. aq_next_ticket q < t \<longrightarrow> map_of (aq_sent q) t = None)"

lemma queue_idle_new: "queue_idle AdmissionQueue_new"
  by (simp add: queue_idle_def AdmissionQueue_new_def)

lemma clone_result_id [simp]: "clone_result r = r"
  by (simp add: clone_result_def clone_db_error_def split: sum.split failure.split db_error.split)

text \<open>The queue while its only request is being written, and after that.\<close>

definition queue_one :: "request \<Rightarrow> admission_queue \<Rightarrow> admission_queue" where
  "queue_one rq q = q\<lparr>aq_slots := aq_slots q - 1, aq_bytes := aq_bytes q - rq_permits rq, aq_next_ticket := rq_ticket rq,
     aq_requests := [], aq_running := True\<rparr>"

lemma enqueue_idle:
  assumes idle: "queue_idle q" and t: "checked_add (aq_next_ticket q) 1 = Some t"
    and rq: "rq = \<lparr>rq_operations = ops, rq_ticket = t, rq_permits = byte_permits n, rq_byte_weight = n\<rparr>"
  shows "enqueue ops n q = Some (Inr \<lparr>eq_ticket = t, eq_should_start_runner = True\<rparr>, (queue_one rq q)\<lparr>aq_requests := [rq]\<rparr>)"
  using idle t rq
  by (simp add: enqueue_def acquire_slot_def acquire_bytes_def byte_permits_def admit_def queue_idle_def queue_one_def
      MAX_ADMITTED_REQUESTS_def ADMITTED_BYTE_BUDGET_def)

lemma enqueue_idle_exhausted:
  assumes "queue_idle q" and "checked_add (aq_next_ticket q) 1 = None"
  shows "\<exists>e. enqueue ops n q = Some (Inl e, q)"
  using assms
  by (simp add: enqueue_def acquire_slot_def acquire_bytes_def byte_permits_def admit_def queue_idle_def release_request_def
      MAX_ADMITTED_REQUESTS_def ADMITTED_BYTE_BUDGET_def)

lemma drain_one:
  "drain_ready MAX_DRAIN_REQUESTS MAX_DRAIN_BYTES (q\<lparr>aq_requests := [rq]\<rparr>) = (Some [rq], q\<lparr>aq_requests := []\<rparr>)"
  by (simp add: drain_ready_def MAX_DRAIN_REQUESTS_def)

lemma run_idle: "aq_requests (wc_admission w) = [] \<Longrightarrow>
    run_write_admission crc ios i w wal = (w\<lparr>wc_admission := (wc_admission w)\<lparr>aq_running := False\<rparr>\<rparr>, wal)"
  by (subst run_write_admission.simps) (simp add: drain_ready_def)

lemma run_one:
  assumes "aq_requests q = []" and "write_round crc (ios 0) [rq] (w\<lparr>wc_admission := q\<rparr>) wal = (r, w1, wal')"
  shows "run_write_admission crc ios 0 (w\<lparr>wc_admission := q\<lparr>aq_requests := [rq]\<rparr>\<rparr>) wal
    = (w1\<lparr>wc_admission := (complete_all [rq] r q)\<lparr>aq_running := False\<rparr>\<rparr>, wal')"
proof -
  have q: "wc_admission w1 = q" using write_round_queue [OF assms(2)] by simp
  have "q\<lparr>aq_requests := []\<rparr> = q" using assms(1) by simp
  with drain_one [of rq q] have d: "drain_ready MAX_DRAIN_REQUESTS MAX_DRAIN_BYTES (q\<lparr>aq_requests := [rq]\<rparr>) = (Some [rq], q)" by simp
  let ?w = "w1\<lparr>wc_admission := complete_all [rq] r q\<rparr>"
  have "run_write_admission crc ios 0 (w\<lparr>wc_admission := q\<lparr>aq_requests := [rq]\<rparr>\<rparr>) wal = run_write_admission crc ios (Suc 0) ?w wal'"
    using assms(2) q by (subst run_write_admission.simps) (simp add: d)
  also have "\<dots> = (?w\<lparr>wc_admission := (wc_admission ?w)\<lparr>aq_running := False\<rparr>\<rparr>, wal')"
    by (rule run_idle) (use assms(1) in \<open>simp del: complete_all.simps\<close>)
  finally show ?thesis by (simp del: complete_all.simps)
qed

lemma completed_idle:
  assumes idle: "queue_idle q" and t: "checked_add (aq_next_ticket q) 1 = Some (rq_ticket rq)" and n: "rq_permits rq \<le> ADMITTED_BYTE_BUDGET"
    and q': "q' = (complete_all [rq] r (queue_one rq q))\<lparr>aq_running := False\<rparr>"
  shows "queue_idle q' \<and> received (rq_ticket rq) q' = Some r"
proof -
  have tk: "rq_ticket rq = aq_next_ticket q + 1" "aq_next_ticket q < rq_ticket rq" using checked_add_one_Some [OF t] by simp_all
  have sent: "map_of (aq_sent q) (rq_ticket rq) = None" using idle tk(2) by (simp add: queue_idle_def)
  have "map_of (aq_sent q @ [(rq_ticket rq, Some r)]) t = (if t = rq_ticket rq then Some (Some r) else map_of (aq_sent q) t)" for t
    using sent by (auto simp: map_add_def split: option.split)
  then show ?thesis
    using idle tk n less_trans [OF tk(2)]
    by (auto simp: q' complete_def queue_one_def queue_idle_def release_request_def received_def MAX_ADMITTED_REQUESTS_def)
qed

lemma write_batch_admitted:
  assumes idle: "queue_idle (wc_admission w)" and ne: "operations \<noteq> []" and valid: "validate_batch operations = Inr n"
    and t: "checked_add (aq_next_ticket (wc_admission w)) 1 = Some t"
  shows "\<exists>rq q1 r w1 wal' q2. rq_operations rq = operations \<and> write_round crc (ios 0) [rq] (w\<lparr>wc_admission := q1\<rparr>) wal = (r, w1, wal')
          \<and> write_batch crc ios operations w wal = Some (r, w1\<lparr>wc_admission := q2\<rparr>, wal') \<and> queue_idle q2 \<and> aq_next_ticket q2 = t"
proof -
  let ?q = "wc_admission w"
  let ?rq = "\<lparr>rq_operations = operations, rq_ticket = t, rq_permits = byte_permits n, rq_byte_weight = n\<rparr>"
  let ?w = "w\<lparr>wc_admission := (queue_one ?rq ?q)\<lparr>aq_requests := [?rq]\<rparr>\<rparr>"
  obtain r w1 wal' where round: "write_round crc (ios 0) [?rq] (w\<lparr>wc_admission := queue_one ?rq ?q\<rparr>) wal = (r, w1, wal')"
    by (metis prod.exhaust)
  let ?q2 = "(complete_all [?rq] r (queue_one ?rq ?q))\<lparr>aq_running := False\<rparr>"
  have fin: "queue_idle ?q2 \<and> received t ?q2 = Some r"
    using completed_idle [OF idle, of ?rq ?q2 r] t by (simp add: byte_permits_def ADMITTED_BYTE_BUDGET_def)
  have "run_write_admission crc ios 0 ?w wal = (w1\<lparr>wc_admission := ?q2\<rparr>, wal')"
    by (rule run_one) (use round in \<open>simp_all add: queue_one_def\<close>)
  then have "write_batch crc ios operations w wal = Some (r, w1\<lparr>wc_admission := ?q2\<rparr>, wal')"
    using ne valid enqueue_idle [OF idle t refl, of operations n] fin by (simp add: write_batch_def)
  moreover have "aq_next_ticket ?q2 = t" by (simp add: queue_one_def del: complete_all.simps)
  ultimately show ?thesis using round fin
    by (intro exI [of _ ?rq] exI [of _ "queue_one ?rq ?q"] exI [of _ r] exI [of _ w1] exI [of _ wal'] exI [of _ ?q2]) simp
qed

lemma write_batch_idle:
  assumes idle: "queue_idle (wc_admission w)" and ne: "operations \<noteq> []"
  shows "(\<exists>e. write_batch crc ios operations w wal = Some (Inl e, w, wal))
     \<or> (\<exists>rq q1 r w1 wal' q2. rq_operations rq = operations \<and> write_round crc (ios 0) [rq] (w\<lparr>wc_admission := q1\<rparr>) wal = (r, w1, wal')
          \<and> write_batch crc ios operations w wal = Some (r, w1\<lparr>wc_admission := q2\<rparr>, wal') \<and> queue_idle q2)"
proof (cases "validate_batch operations")
  case (Inl e)
  with ne show ?thesis by (simp add: write_batch_def)
next
  case (Inr n)
  show ?thesis
  proof (cases "checked_add (aq_next_ticket (wc_admission w)) 1")
    case None
    from enqueue_idle_exhausted [OF idle None, of operations n] Inr ne show ?thesis by (auto simp: write_batch_def)
  next
    case (Some t)
    from write_batch_admitted [OF idle ne Inr Some] show ?thesis by blast
  qed
qed

end
