(* ===== verification/Engine_Open.thy ===== *)
theory Engine_Open
  imports Engine Write_History
begin

text \<open>
  \<open>KV2::open\<close> (\<open>src/storage/kv2.rs\<close>): on a directory that recovers a history, an engine that opens holds that
  history, with the commands of the log back in the memtable.
\<close>

section \<open>The recovered memtable\<close>

lemma recovered_step:
  assumes "lc_record_type (lu_command u) = Delete \<longrightarrow> lc_value (lu_command u) = []"
  shows "build_recovered_memtable (update_record u # rs) (mem, hi, n) =
     build_recovered_memtable rs
       (insert_commands [lu_command u] mem, max hi (lc_lsn (lu_command u)),
        n + of_nat (length (lc_key (lu_command u)) + length (lc_value (lu_command u))))"
  using assms by (cases "lc_record_type (lu_command u)") (auto simp: update_record_def insert_commands_def rt_byte_def Let_def)

lemma recovered_memtable:
  assumes "\<forall>u \<in> set us. lc_record_type (lu_command u) = Delete \<longrightarrow> lc_value (lu_command u) = []"
  shows "\<exists>n'. build_recovered_memtable (map update_record us) (mem, hi, n)
     = (insert_commands (map lu_command us) mem, fold max (map (lc_lsn \<circ> lu_command) us) hi, n')"
  using assms
proof (induction us arbitrary: mem hi n)
  case (Cons u us)
  let ?n = "n + of_nat (length (lc_key (lu_command u)) + length (lc_value (lu_command u)))"
  have "build_recovered_memtable (map update_record (u # us)) (mem, hi, n)
      = build_recovered_memtable (map update_record us) (insert_commands [lu_command u] mem, max hi (lc_lsn (lu_command u)), ?n)"
    using recovered_step [of u "map update_record us" mem hi n] Cons.prems by simp
  moreover obtain n' where "build_recovered_memtable (map update_record us)
      (insert_commands [lu_command u] mem, max hi (lc_lsn (lu_command u)), ?n)
      = (insert_commands (map lu_command us) (insert_commands [lu_command u] mem),
         fold max (map (lc_lsn \<circ> lu_command) us) (max hi (lc_lsn (lu_command u))), n')"
    using Cons.IH [of "insert_commands [lu_command u] mem" "max hi (lc_lsn (lu_command u))" ?n] Cons.prems by (auto simp: comp_def)
  ultimately show ?case by (simp add: insert_commands_def max.commute [of hi] comp_def del: build_recovered_memtable.simps)
qed (simp add: insert_commands_def)

lemma fold_max_ge: "hi \<le> fold max xs (hi :: u64) \<and> (\<forall>x \<in> set xs. x \<le> fold max xs hi)"
proof (induction xs arbitrary: hi)
  case (Cons x xs)
  from Cons [of "max x hi"] show ?case by (auto simp: max_def split: if_splits)
qed simp

lemma recover_records_inv:
  assumes "wal_inv crc m a" and "an_legacy a = []"
  obtains us where "recover_records crc m = Inr (map update_record us)" "committed_commands a = map lu_command us"
  using assms by (auto simp: recover_records_def analyze_committed_inv Analysis_redo_def committed_commands_def)

section \<open>The opened engine\<close>

definition kv_inv ::
  "(bytes \<Rightarrow> u32) \<Rightarrow> ('f, f64) bloom_api \<Rightarrow> log_command list \<Rightarrow> log_command list \<Rightarrow> kv2 \<Rightarrow> bool" where
  "kv_inv crc api H extra k \<longleftrightarrow>
     core_inv crc api H extra (wc_memtable (kv_writer k)) (wc_sequence_number (kv_writer k)) (kv_managers k)
     \<and> wc_payload_mode (kv_writer k) = Inline \<and> utf8_valid (wc_sstable_dir (kv_writer k)) \<and> queue_idle (wc_admission (kv_writer k))"

text \<open>The tables and the recovered memtable hold the history.\<close>

lemma recovered_store:
  assumes st: "manifest_ok (ms_levels (mm_state mm))" "ids_below (mm_state mm)" "live_ok recs (live (ms_levels (mm_state mm)))"
      "\<forall>m \<in> live (ms_levels (mm_state mm)). table_holds crc api (file_contents fs) m (recs m) \<and> meta_sound recs m"
    and cache: "cache_ok (file_contents fs) mm" and ok: "history_ok H" and H: "H = H0 @ cs"
    and sub: "set (table_versions recs (mm_state mm)) \<subseteq> cmd_record ` set H"
    and like: "reads_like (map cmd_record cs @ table_versions recs (mm_state mm)) H"
  shows "store_hist crc api recs H (insert_commands cs []) (mm, fs)
     \<and> set (mem_records (insert_commands cs [])) = cmd_record ` set cs"
proof -
  let ?mem = "insert_commands cs []" and ?st = "(mm, fs)"
  have ins: "mem_ok ?mem" "set (mem_records ?mem) = cmd_record ` set cs"
    using insert_commands_ok [of "[]" cs] ok H by (simp_all add: history_ok_append mem_records_def)
  have T: "set (table_versions recs (mm_state mm)) = recs_of recs (live_of ?st)" using set_table_versions [OF st(1)] by simp
  have vs: "set (versions_of recs ?mem ?st) = set (map cmd_record cs @ table_versions recs (mm_state mm))"
    using set_versions_of [of ?st recs ?mem] st(1) ins(2) T by simp
  have sub': "set (versions_of recs ?mem ?st) \<subseteq> cmd_record ` set H" unfolding vs using sub H by auto
  have "reads_like (versions_of recs ?mem ?st) H" using like reads_as_cong [OF vs] by (simp add: reads_like_def)
  moreover have "\<forall>m \<in> set (mem_records ?mem). \<forall>r \<in> recs_of recs (live_of ?st). mr_key m = mr_key r \<longrightarrow>
      (\<exists>m' \<in> set (mem_records ?mem). mr_key m' = mr_key r \<and> mr_lsn r \<le> mr_lsn m')"
  proof (intro ballI impI)
    fix m r assume m: "m \<in> set (mem_records ?mem)" and r: "r \<in> recs_of recs (live_of ?st)" and key: "mr_key m = mr_key r"
    obtain d where d: "d \<in> set H" "r = cmd_record d" using r sub T by blast
    show "\<exists>m' \<in> set (mem_records ?mem). mr_key m' = mr_key r \<and> mr_lsn r \<le> mr_lsn m'"
    proof (cases "d \<in> set cs")
      case True
      with d(2) ins(2) show ?thesis by (intro bexI [of _ r]) auto
    next
      case False
      with d H have "d \<in> set H0" by simp
      with m ins(2) ok H d(2) have "mr_lsn r \<le> mr_lsn m" by (auto simp: history_ok_append intro: less_imp_le)
      with m key show ?thesis by auto
    qed
  qed
  ultimately show ?thesis
    using st cache ins ok sub' versions_ok_history [OF ok sub'] by (simp add: store_hist_def store_inv_iff)
qed

lemma load_failed [simp]: "load_or_create crc ReadFailed \<noteq> Inr mm"
  by (simp add: load_or_create_def)

lemma KV2_open_Inr:
  assumes "KV2_open crc api env base_dir config d = Inr k"
  obtains mm wal records wal' where "load_or_create crc (ReadOk (di_manifest d)) = Inr (mm :: bytes manifest_manager)"
    "new_with_checkpoint crc (oe_create env) (di_wal d) (wal_segment_size config) (sn_recovery_checkpoint (snapshot mm)) = Inr wal"
    "recover_records crc wal = Inr records"
    "wal' = (case sn_recovery_checkpoint (snapshot mm) of None \<Rightarrow> wal
          | Some c \<Rightarrow> snd (reclaim_checkpointed_segments (oe_remove_ok env) (oe_sync_ok env) c wal))"
    "kv_managers k = \<lparr>mg_wal = snd (register_checkpoint_owner (oe_address env) wal'), mg_manifest = mm, mg_files = di_files d\<rparr>"
    "wc_memtable (kv_writer k) = fst (build_recovered_memtable records ([], 0, 0))"
    "wc_sequence_number (kv_writer k) = max (fst (snd (build_recovered_memtable records ([], 0, 0))))
        (cp_sequence (sn_recovery_checkpoint (snapshot mm)))"
    "wc_payload_mode (kv_writer k) = Inline" "wc_sstable_dir (kv_writer k) = path_join base_dir (ascii ''sstable'')"
    "wc_admission (kv_writer k) = AdmissionQueue_new"
    "wc_memtable_size (kv_writer k) = snd (snd (build_recovered_memtable records ([], 0, 0)))" "wc_config (kv_writer k) = config"
proof -
  show thesis
    using assms
    apply (clarsimp simp: KV2_open_def Let_def rbind_eq_Inr case_prod_beta split: if_splits)
    apply (rule that [OF _ _ _ refl], assumption, assumption, assumption)
         apply (simp_all add: restore_memtable_def WriteComponent_new_def with_payload_mode_def case_prod_beta cp_sequence_def)
    done
qed

text \<open>
  Opening a directory whose manifest and tables stand for \<open>H0\<close> and more, and whose log, once opened, has
  the analysis \<open>a\<close>.
\<close>

lemma opened_inv:
  assumes op: "KV2_open crc api env base_dir config d = Inr k" and dir: "utf8_valid base_dir"
    and replay: "replay_manifest crc (di_manifest d) = Inr s"
    and ops': "list_all op_ok ops" "di_manifest d = manifest_bytes crc ops" "s = replayed ops"
    and st: "manifest_ok (ms_levels s)" "ids_below s" "live_ok recs (live (ms_levels s))"
      "\<forall>m \<in> live (ms_levels s). table_holds crc api (file_contents (di_files d)) m (recs m) \<and> meta_sound recs m"
    and log: "\<And>m. new_with_checkpoint crc (oe_create env) (di_wal d) (wal_segment_size config) (ms_recovery_checkpoint s) = Inr m \<Longrightarrow>
        wal_inv crc m a \<and> ws_checkpoint (wm_state m) = ms_recovery_checkpoint s"
    and leg: "an_legacy a = []" and ok: "history_ok H" and H: "H = H0 @ committed_commands a"
    and H0: "\<forall>c \<in> set H0. lc_lsn c \<le> cp_sequence (ms_recovery_checkpoint s)" and sub: "set (table_versions recs s) \<subseteq> cmd_record ` set H"
    and like: "reads_like (map cmd_record (committed_commands a) @ table_versions recs s) H"
  shows "kv_inv crc api H [] k"
proof -
  obtain mm wal records wal' where load: "load_or_create crc (ReadOk (di_manifest d)) = Inr (mm :: bytes manifest_manager)"
    and wal: "new_with_checkpoint crc (oe_create env) (di_wal d) (wal_segment_size config) (sn_recovery_checkpoint (snapshot mm)) = Inr wal"
    and rec: "recover_records crc wal = Inr records"
    and wal': "wal' = (case sn_recovery_checkpoint (snapshot mm) of None \<Rightarrow> wal
          | Some c \<Rightarrow> snd (reclaim_checkpointed_segments (oe_remove_ok env) (oe_sync_ok env) c wal))"
    and k: "kv_managers k = \<lparr>mg_wal = snd (register_checkpoint_owner (oe_address env) wal'), mg_manifest = mm, mg_files = di_files d\<rparr>"
      "wc_memtable (kv_writer k) = fst (build_recovered_memtable records ([], 0, 0))"
      "wc_sequence_number (kv_writer k) = max (fst (snd (build_recovered_memtable records ([], 0, 0))))
          (cp_sequence (sn_recovery_checkpoint (snapshot mm)))"
      "wc_payload_mode (kv_writer k) = Inline" "wc_sstable_dir (kv_writer k) = path_join base_dir (ascii ''sstable'')"
      "wc_admission (kv_writer k) = AdmissionQueue_new"
      "wc_memtable_size (kv_writer k) = snd (snd (build_recovered_memtable records ([], 0, 0)))" "wc_config (kv_writer k) = config"
    using KV2_open_Inr [OF op] by blast
  let ?cp = "ms_recovery_checkpoint (mm_state mm)"
  have mm: "replay_manifest crc (di_manifest d) = Inr (mm_state mm)" "mm_file mm = di_manifest d"
    "mm_cache mm = lru_new DEFAULT_FILE_CACHE_CAPACITY" and cp: "sn_recovery_checkpoint (snapshot mm) = ?cp"
    using load by (auto simp: load_or_create_def rbind_eq_Inr snapshot_def snapshot_from_state_def)
  have s: "s = mm_state mm" using replay mm(1) by simp
  have ops: "mm_inv crc ops mm" using mm(2) ops' s by (simp add: mm_inv_def agrees_def)
  have "cache_ok (file_contents (di_files d)) mm" by (simp add: cache_ok_def mm(3) lru_new_def)
  from recovered_store [OF st [unfolded s] this ok H sub [unfolded s] like [unfolded s]] obtain
    hist: "store_hist crc api recs H (insert_commands (committed_commands a) []) (mm, di_files d)"
    and mem: "set (mem_records (insert_commands (committed_commands a) [])) = cmd_record ` set (committed_commands a)" by blast
  have inv: "wal_inv crc wal a" "ws_checkpoint (wm_state wal) = ?cp"
    using log wal cp s by auto
  obtain us where us: "records = map update_record us" "committed_commands a = map lu_command us"
    using recover_records_inv [OF inv(1) leg] rec by auto
  obtain n where b: "build_recovered_memtable records ([], 0, 0) = (insert_commands (committed_commands a) [], fold max (map lc_lsn (committed_commands a)) 0, n)"
    using recovered_memtable [of us "[]" 0 0] ok H us by (auto simp: history_ok_def)
  let ?wal = "case ?cp of None \<Rightarrow> wal | Some c \<Rightarrow> snd (reclaim_checkpointed_segments (oe_remove_ok env) (oe_sync_ok env) c wal)"
  have inv': "wal_inv crc ?wal a" "ws_checkpoint (wm_state ?wal) = ?cp"
    using inv wal_inv_checkpoint [OF inv(1) _ surjective_pairing, of _ "oe_remove_ok env" "oe_sync_ok env"]
    by (cases ?cp; simp)+
  let ?sn = "max (fold max (map lc_lsn (committed_commands a)) 0) (cp_sequence ?cp)"
  have seq: "\<forall>c \<in> set H. lc_lsn c \<le> ?sn"
    using H H0 s fold_max_ge [of 0 "map lc_lsn (committed_commands a)"] by (auto simp: le_max_iff_disj)
  have log': "log_hist crc H [] ?cp (insert_commands (committed_commands a) []) wal'" if "wal_inv crc wal' a" "ws_checkpoint (wm_state wal') = ?cp" for wal'
    by (rule log_histI [of _ _ _ a _ H0 "committed_commands a"]) (use that wal_inv_reopens [OF that(1)] leg H mem H0 s ok in auto)
  have reg: "wal_inv crc (snd (register_checkpoint_owner (oe_address env) wal')) a"
    "ws_checkpoint (wm_state (snd (register_checkpoint_owner (oe_address env) wal'))) = ?cp"
    using inv' wal' cp by (auto simp: register_checkpoint_owner_def wal_inv_def)
  have "utf8_valid (path_join base_dir (ascii ''sstable''))" by (intro utf8_path_join dir utf8_ascii) simp
  with log' [OF reg] hist ops b cp seq show ?thesis by (auto simp: kv_inv_def core_inv_def k queue_idle_new)
qed

lemma open_inv:
  assumes disk: "disk_inv crc api H (di_manifest d) (di_wal d) (di_files d)" and len: "length (di_manifest d) + 2 ^ 33 \<le> isize_max"
    and dir: "utf8_valid base_dir" and op: "KV2_open crc api env base_dir config d = Inr k"
  shows "kv_inv crc api H [] k"
proof -
  obtain mm where load: "load_or_create crc (ReadOk (di_manifest d)) = Inr (mm :: bytes manifest_manager)"
    using KV2_open_Inr [OF op] by blast
  then obtain s where s: "replay_manifest crc (di_manifest d) = Inr s" by (auto simp: load_or_create_def rbind_eq_Inr)
  from disk len s obtain ops where ops: "list_all op_ok ops" "di_manifest d = manifest_bytes crc ops" "s = replayed ops"
    and recov: "recoverable crc api H s (di_wal d) (di_files d)" unfolding disk_inv_def by blast
  from recov obtain recs a H0 where ok: "history_ok H"
    and st: "manifest_ok (ms_levels s)" "ids_below s" "live_ok recs (live (ms_levels s))"
      "\<forall>m \<in> live (ms_levels s). table_holds crc api (file_contents (di_files d)) m (recs m) \<and> meta_sound recs m"
    and re: "reopens crc (ms_recovery_checkpoint s) (di_wal d) a" "an_legacy a = []" and H: "H = H0 @ committed_commands a"
    and H0: "\<forall>c \<in> set H0. lc_lsn c \<le> cp_sequence (ms_recovery_checkpoint s)" and sub: "set (table_versions recs s) \<subseteq> cmd_record ` set H"
    and like: "reads_like (map cmd_record (committed_commands a) @ table_versions recs s) H"
    unfolding recoverable_def by blast
  show ?thesis
  proof (rule opened_inv [OF op dir s ops st _ re(2) ok H H0 sub like])
    fix m assume "new_with_checkpoint crc (oe_create env) (di_wal d) (wal_segment_size config) (ms_recovery_checkpoint s) = Inr m"
    then show "wal_inv crc m a \<and> ws_checkpoint (wm_state m) = ms_recovery_checkpoint s"
      using reopensD [OF re(1), of "oe_create env" "wal_segment_size config" True] by (auto simp: new_with_checkpoint_def)
  qed
qed

text \<open>A directory with no manifest and no log.\<close>

lemma create_inv:
  assumes op: "KV2_open crc api env base_dir config d = Inr k" and dir: "utf8_valid base_dir"
    and "di_manifest d = []" and "di_wal d = []"
  shows "kv_inv crc api [] [] k"
proof -
  have replay: "replay_manifest crc (di_manifest d) = Inr ManifestState_default"
    using assms(3) by (simp add: replay_manifest_def replay_loop.simps)
  have live: "live (ms_levels ManifestState_default) = {}" "table_versions (\<lambda>_. []) ManifestState_default = []"
    by (simp_all add: ran_def ManifestState_default_def live_def tables_def table_versions_def snapshot_levels_def level_files_def all_records_def)
  obtain mm wal where "load_or_create crc (ReadOk (di_manifest d)) = Inr (mm :: bytes manifest_manager)"
    and wal: "new_with_checkpoint crc (oe_create env) (di_wal d) (wal_segment_size config) (sn_recovery_checkpoint (snapshot mm)) = Inr wal"
    using KV2_open_Inr [OF op] by blast
  then have "sn_recovery_checkpoint (snapshot mm) = None"
    using replay by (auto simp: load_or_create_def snapshot_def snapshot_from_state_def ManifestState_default_def)
  with wal assms(4) have new: "new_inner crc (oe_create env) [] (wal_segment_size config) None True = Inr wal"
    by (simp add: new_with_checkpoint_def)
  have "is_best [] key b \<longleftrightarrow> b = None" for key b by (cases b) (simp_all add: is_best_def latest_rec_def)
  then have "reads_like [] []" by (simp add: reads_like_def reads_as_def record_value_def)
  moreover have "manifest_ok (ms_levels ManifestState_default)" "ids_below ManifestState_default"
    "live_ok (\<lambda>_. []) {}" "ms_recovery_checkpoint ManifestState_default = None"
    using live(1) by (auto simp: ManifestState_default_def manifest_ok_def ids_below_def tables_def live_ok_def)
  ultimately show ?thesis
    using wal_created [OF new] assms(3,4) new
    by (intro opened_inv [OF op dir replay, of "[]" "\<lambda>_. []" Analysis_default "[]" "[]"])
      (simp_all add: live replayed_def new_with_checkpoint_def)
qed

end
