(* ===== verification/Engine_Reads.thy ===== *)
theory Engine_Reads
  imports Engine_Open
begin

text \<open>
  The reads of an engine that satisfies its invariant. With any faults of the file system a read
  changes nothing but the handle cache, which keeps naming the contents of the files; without faults it
  succeeds and answers from the map that the history of the engine stands for.
\<close>

section \<open>What a read leaves\<close>

text \<open>\<open>open_file\<close> may fail where \<open>real\<close> succeeds, and returns what \<open>real\<close> does where it succeeds.\<close>

definition opens_as :: "(bytes \<Rightarrow> bytes result) \<Rightarrow> (bytes \<Rightarrow> bytes result) \<Rightarrow> bool" where
  "opens_as open_file real \<longleftrightarrow> (\<forall>p h. open_file p = Inr h \<longrightarrow> real p = Inr h)"

lemma opens_as_path: "opens_as (open_path faults fs) (file_contents fs)"
  by (auto simp: opens_as_def open_path_def rbind_eq_Inr)

lemma get_or_open_file_cache:
  assumes "opens_as open_file real" and "cache_ok real mm" and "get_or_open_file open_file p mm = (r, mm')"
  shows "only_cache real mm mm'"
proof -
  have eq: "Inr h = open_file p \<Longrightarrow> real p = open_file p" for h using assms(1) by (metis opens_as_def)
  show ?thesis
    using assms(2,3)
    by (auto simp: get_or_open_file_def get_or_open_def only_cache_def cache_ok_def Let_def lru_touch_def
        lru_evict_oldest_def case_prod_beta split: option.splits sum.splits if_splits list.splits intro: eq)
qed

lemma only_cache_ok: "only_cache real mm mm' \<Longrightarrow> cache_ok real mm'"
  by (simp add: only_cache_def)

lemma get_from_single_sstable_cache:
  assumes "opens_as open_file real" and "cache_ok real mm"
  shows "only_cache real mm (snd (get_from_single_sstable crc api open_file t key s mm))"
  using get_or_open_file_cache [OF assms, of "sm_path t"]
  by (auto simp: get_from_single_sstable_def split: prod.split sum.split)

lemma best_of_level0_cache:
  assumes "opens_as open_file real" and "cache_ok real mm"
  shows "only_cache real mm (snd (best_of_level0 crc api open_file ts key s best mm))"
  using assms(2)
proof (induction ts arbitrary: best mm)
  case Nil
  then show ?case by (simp add: only_cache_refl)
next
  case (Cons t ts)
  obtain r mm1 where g: "get_from_single_sstable crc api open_file t key s mm = (r, mm1)" by fastforce
  then have "only_cache real mm mm1" using get_from_single_sstable_cache [OF assms(1) Cons.prems, of crc api t key s] by simp
  with Cons.IH [OF only_cache_ok] show ?case by (auto simp: g split: sum.split intro: only_cache_trans)
qed

lemma first_of_level_cache:
  assumes "opens_as open_file real" and "cache_ok real mm"
  shows "only_cache real mm (snd (first_of_level crc api open_file ts key s mm))"
  using assms(2)
proof (induction ts arbitrary: mm)
  case Nil
  then show ?case by (simp add: only_cache_refl)
next
  case (Cons t ts)
  obtain r mm1 where g: "get_from_single_sstable crc api open_file t key s mm = (r, mm1)" by fastforce
  then have "only_cache real mm mm1" using get_from_single_sstable_cache [OF assms(1) Cons.prems, of crc api t key s] by simp
  with Cons.IH [OF only_cache_ok] show ?case by (auto simp: g split: sum.split option.split intro: only_cache_trans)
qed

lemma get_from_levels_cache:
  assumes "opens_as open_file real" and "cache_ok real mm"
  shows "only_cache real mm (snd (get_from_levels crc api open_file ls key s mm))"
  using assms(2)
proof (induction ls arbitrary: mm)
  case Nil
  then show ?case by (simp add: only_cache_refl)
next
  case (Cons l ls)
  obtain level files where l: "l = (level, files)" by fastforce
  obtain r mm1 where g: "(if level = 0 then best_of_level0 crc api open_file files key s None mm
            else first_of_level crc api open_file (rev files) key s mm) = (r, mm1)" by fastforce
  then have "only_cache real mm mm1"
    using best_of_level0_cache [OF assms(1) Cons.prems, of crc api files key s None]
      first_of_level_cache [OF assms(1) Cons.prems, of crc api "rev files" key s] by (auto split: if_splits)
  with Cons.IH [OF only_cache_ok] show ?case by (auto simp: l g split: sum.split option.split intro: only_cache_trans)
qed

lemma ReadManager_get_cache:
  assumes "opens_as open_file real" and "cache_ok real (rm_manifest rm)"
  shows "only_cache real (rm_manifest rm) (rm_manifest (snd (ReadManager_get crc api open_file key s rm)))"
  by (simp add: ReadManager_get_def get_from_sstable_def Let_def case_prod_beta only_cache_refl [OF assms(2)]
      get_from_levels_cache [OF assms])

lemma scan_single_sstable_cache:
  assumes "opens_as open_file real" and "cache_ok real mm"
  shows "only_cache real mm (snd (scan_single_sstable crc api open_file t rng s merged mm))"
  using get_or_open_file_cache [OF assms, of "sm_path t"] only_cache_refl [OF assms(2)]
  by (auto simp: scan_single_sstable_def split: prod.split sum.split)

lemma scan_sstables_cache:
  assumes "opens_as open_file real" and "cache_ok real mm"
  shows "only_cache real mm (snd (scan_sstables crc api open_file ts rng s merged mm))"
  using assms(2)
proof (induction ts arbitrary: merged mm)
  case Nil
  then show ?case by (simp add: only_cache_refl)
next
  case (Cons t ts)
  obtain r mm1 where g: "scan_single_sstable crc api open_file t rng s merged mm = (r, mm1)" by fastforce
  then have "only_cache real mm mm1" using scan_single_sstable_cache [OF assms(1) Cons.prems, of crc api t rng s merged] by simp
  with Cons.IH [OF only_cache_ok] show ?case by (auto simp: g split: sum.split intro: only_cache_trans)
qed

lemma scan_range_cache:
  assumes "opens_as open_file real" and "cache_ok real (rm_manifest rm)"
  shows "only_cache real (rm_manifest rm) (rm_manifest (snd (scan_range crc api open_file rng s rm)))"
  using scan_sstables_cache [OF assms, of crc api "level_order (snapshot (rm_manifest rm))" rng s
      "scan_memtable s (skip_range (collect_range_bounds rng) (rm_memtable rm)) []"]
  by (simp add: scan_range_def scan_records_range_def Let_def case_prod_beta split: sum.split)

section \<open>Reads of the engine\<close>

lemma core_only_cache:
  assumes core: "core_inv crc api H extra mem sn g" and c: "only_cache (file_contents (mg_files g)) (mg_manifest g) mm'"
  shows "core_inv crc api H extra mem sn (g\<lparr>mg_manifest := mm'\<rparr>)"
proof -
  obtain ops where "mm_inv crc ops (mg_manifest g)" using core by (auto simp: core_inv_def)
  with c have "mm_inv crc ops mm'" by (simp add: mm_inv_def only_cache_def)
  moreover from c have "snapshot mm' = snapshot (mg_manifest g)" by (simp add: snapshot_def only_cache_def)
  ultimately show ?thesis
    using core c
    by (auto simp: core_inv_def store_hist_def store_inv_def reader_ok_def ReadManager_new_def versions_of_def
        reader_records_def only_cache_def)
qed

lemma core_cache: "core_inv crc api H extra mem sn g \<Longrightarrow> cache_ok (file_contents (mg_files g)) (mg_manifest g)"
  by (auto simp: core_inv_def store_hist_def store_inv_iff)

lemma kv_inv_only_cache:
  assumes "kv_inv crc api H extra k" and "only_cache (file_contents (mg_files (kv_managers k))) (mg_manifest (kv_managers k)) mm'"
  shows "kv_inv crc api H extra (with_manifest mm' k)"
  using assms core_only_cache by (auto simp: kv_inv_def with_manifest_def)

lemma kv_inv_get:
  assumes "kv_inv crc api H extra k"
  shows "kv_inv crc api H extra (snd (KV2_get crc api faults key k))"
proof -
  have "cache_ok (file_contents (mg_files (kv_managers k))) (rm_manifest (kv_reader k))"
    using assms core_cache by (auto simp: kv_inv_def kv_reader_def ReadManager_new_def)
  from ReadManager_get_cache [OF opens_as_path this] show ?thesis
    by (auto simp: KV2_get_def get_record_def case_prod_beta kv_reader_def ReadManager_new_def intro!: kv_inv_only_cache [OF assms])
qed

lemma kv_inv_scan:
  assumes "kv_inv crc api H extra k"
  shows "kv_inv crc api H extra (snd (KV2_scan crc api faults rng k))"
proof -
  have "cache_ok (file_contents (mg_files (kv_managers k))) (rm_manifest (kv_reader k))"
    using assms core_cache by (auto simp: kv_inv_def kv_reader_def ReadManager_new_def)
  from scan_range_cache [OF opens_as_path this, of crc api faults rng "wc_sequence_number (kv_writer k)"] show ?thesis
    by (auto simp: KV2_scan_def case_prod_beta kv_reader_def ReadManager_new_def intro!: kv_inv_only_cache [OF assms])
qed

definition no_faults :: faults where
  "no_faults = (\<lambda>_ _. None)"

lemma open_path_no_faults: "open_path no_faults fs = file_contents fs"
  by (simp add: fun_eq_iff open_path_def io_fault_def no_faults_def)

lemma kv_inv_reader:
  assumes "kv_inv crc api H extra k"
  obtains recs where "reader_ok crc api (file_contents (mg_files (kv_managers k))) recs (kv_reader k)"
    "reads_like (reader_records recs (kv_reader k)) H"
    "\<forall>r \<in> set (reader_records recs (kv_reader k)). mr_lsn r \<le> wc_sequence_number (kv_writer k)"
proof -
  from assms obtain recs where "store_hist crc api recs H (wc_memtable (kv_writer k)) (mg_manifest (kv_managers k), mg_files (kv_managers k))"
    and top: "\<forall>c \<in> set H. lc_lsn c \<le> wc_sequence_number (kv_writer k)" by (auto simp: kv_inv_def core_inv_def)
  then have *: "reader_ok crc api (file_contents (mg_files (kv_managers k))) recs (kv_reader k)"
    "reads_like (reader_records recs (kv_reader k)) H" "set (reader_records recs (kv_reader k)) \<subseteq> cmd_record ` set H"
    by (simp_all add: store_hist_def store_inv_def kv_reader_def versions_of_def)
  show thesis by (rule that [OF *(1,2)]) (use *(3) top in auto)
qed

text \<open>A point read and a range scan answer from the map of the history.\<close>

lemma kv_get_result:
  assumes "kv_inv crc api H extra k"
  shows "fst (KV2_get crc api no_faults key k) = Inr (kv_map H key)"
proof -
  from assms obtain recs where ok: "reader_ok crc api (file_contents (mg_files (kv_managers k))) recs (kv_reader k)"
    and like: "reads_like (reader_records recs (kv_reader k)) H"
    and top: "\<forall>r \<in> set (reader_records recs (kv_reader k)). mr_lsn r \<le> wc_sequence_number (kv_writer k)"
    by (rule kv_inv_reader)
  have "\<forall>m \<in> set (mem_records (rm_memtable (kv_reader k))). mr_lsn m \<le> wc_sequence_number (kv_writer k)"
    using top by (auto simp: reader_records_def store_records_def)
  from get_reads [OF ok this, of key] obtain x mm where
    g: "ReadManager_get crc api (file_contents (mg_files (kv_managers k))) key (wc_sequence_number (kv_writer k)) (kv_reader k)
          = (Inr x, (kv_reader k)\<lparr>rm_manifest := mm\<rparr>)"
    and "reads_as (reader_records recs (kv_reader k)) key (record_value x)" by blast
  then have "record_value x = kv_map H key" using like by (simp add: reads_like_def)
  then show ?thesis
    by (simp add: KV2_get_def get_record_def open_path_no_faults g record_value_def split: option.splits if_splits)
qed

lemma kv_scan_result:
  assumes "kv_inv crc api H extra k"
  shows "\<exists>out. fst (KV2_scan crc api no_faults rng k) = Inr out \<and> sorted_wrt (<) (map fst out)
     \<and> (\<forall>key v. (key, v) \<in> set out \<longleftrightarrow> key_in_range key rng \<and> kv_map H key = Some v)"
proof -
  from assms obtain recs where ok: "reader_ok crc api (file_contents (mg_files (kv_managers k))) recs (kv_reader k)"
    and like: "reads_like (reader_records recs (kv_reader k)) H"
    and top: "\<forall>r \<in> set (reader_records recs (kv_reader k)). mr_lsn r \<le> wc_sequence_number (kv_writer k)"
    by (rule kv_inv_reader)
  from scan_reads [OF ok, of rng "wc_sequence_number (kv_writer k)"] obtain out mm where
    "scan_range crc api (file_contents (mg_files (kv_managers k))) rng (wc_sequence_number (kv_writer k)) (kv_reader k)
       = (Inr out, (kv_reader k)\<lparr>rm_manifest := mm\<rparr>)" "sorted_wrt (<) (map fst out)"
    "\<forall>key v. (key, v) \<in> set out \<longleftrightarrow> key_in_range key rng \<and> reads_as (reader_records recs (kv_reader k)) key (Some v)"
    unfolding up_to_all [OF top] by blast
  moreover have "reads_as (reader_records recs (kv_reader k)) key (Some v) \<longleftrightarrow> kv_map H key = Some v" for key v
    using like by (auto simp: reads_like_def)
  ultimately show ?thesis by (simp add: KV2_scan_def open_path_no_faults)
qed

end
