(* ===== verification/Flush_History.thy ===== *)
theory Flush_History
  imports Store_History
begin

text \<open>
  \<open>flush_active_memtable\<close> (\<open>src/storage/writemanager/write.rs\<close>) keeps the history of the engine: whichever step of
  it fails, a running engine still answers as before, and a directory left at any point of it recovers
  the same history.
\<close>

section \<open>The flushed table\<close>

lemma flush_table_packs:
  assumes "flush_table crc api config valid = Inr t"
  shows "\<exists>blocks. pack_blocks crc (entry_records valid) = Inr blocks"
proof -
  let ?fl = "\<lparr>fl_builder = BlockBuilder_new 0, fl_blocks = [], fl_sparse_index = [],
      fl_bloom = bloom_with_rate api (length valid + 10) (bloom_false_positive_rate config), fl_encoded_offset = 0\<rparr>"
  from assms obtain fl fl' where fl: "flush_entries crc api valid ?fl = Inr fl" "flush_last fl = Inr fl'"
    by (auto simp: flush_table_def rbind_eq_Inr)
  from fl(2) obtain lb where "build (fl_builder fl) = Inr lb" by (auto simp: flush_last_def rbind_eq_Inr)
  moreover have "roll_records crc (entry_records valid) (BlockBuilder_new 0, []) = Inr (fl_builder fl, fl_blocks fl)"
    using flush_entries_roll [of crc api valid ?fl] fl(1) by simp
  ultimately show ?thesis by (simp add: pack_blocks_def)
qed

lemma flushed_table:
  assumes api: "bloom_crate_ok api" and fit: "versions_fit R" and sub: "set (mem_records mem) \<subseteq> R"
    and t: "flush_table crc api config (valid_records mem) = Inr t"
    and w: "write_flush_table crc api env dir (length (valid_records mem)) t (mm, fs) = (Inr (meta, enc), mm1, fs1)"
    and dir: "utf8_valid dir" and V: "V = entry_records (valid_records mem)"
  shows "table_holds crc api (file_contents fs1) meta V \<and> sm_level meta = 0 \<and> fs (sm_path meta) = None
     \<and> ms_next_file_id (mm_state mm) \<le> sm_file_id meta \<and> sm_file_id meta < ms_next_file_id (mm_state mm1)
     \<and> new_meta_ok meta \<and> meta_sound (recs(meta := V)) meta"
proof -
  let ?valid = "valid_records mem"
  have fitV: "records_fit V"
    unfolding V by (rule versions_fit_list [OF fit entry_records_distinct]) (use entry_records_newest(1) sub in blast)
  obtain blocks where "pack_blocks crc V = Inr blocks" using flush_table_packs [OF t] unfolding V ..
  from pack_blocks_not_lone [OF this] have "map mr_key V \<noteq> [[]]" .
  then obtain t' where t': "flush_table crc api config ?valid = Inr t'" "pack_blocks crc V = Inr (sc_blocks t')"
    "sc_bloom t' = bloom_insert_all api (map mr_key V) (bloom_with_rate api (length ?valid + 10) (bloom_false_positive_rate config))"
    "range_from_index (sc_index t') = range_from_blocks (sc_blocks t')"
    using flush_table_pack [OF valid_records_ok fitV [unfolded V], of crc api config] unfolding V entry_records_keys by blast
  then have t'_eq: "t' = t" using t by simp
  note wi = write_flush_Inr [OF w t'(4) [unfolded t'_eq]]
  have "sc_blocks t \<noteq> []" using wi by (auto simp: describes_def range_from_blocks_def)
  then have "V \<noteq> []" using pack_blocks_records(1) [OF t'(2) _ fitV] t'_eq t'(2)
    by (auto simp: pack_blocks_def V rbind_eq_Inr build_def BlockBuilder_new_def split: option.splits if_splits)
  then have th: "table_holds crc api (file_contents fs1) meta V"
    using packed_holds [OF api t'(2,3), of fs1 0 meta] entry_records_sorted fitV wi t'_eq V by blast
  have "utf8_valid (level0_path dir i)" for i
    unfolding level0_path_def by (intro utf8_path_join utf8_valid_append utf8_decimal utf8_ascii dir) simp_all
  moreover have "sm_file_id meta \<noteq> - 1" using wi word_order.extremum_strict by (metis word_n1_ge leD)
  moreover have "length V = length ?valid" by (simp add: V entry_records_def)
  ultimately show ?thesis using th wi by (auto simp: new_meta_ok_def meta_sound_def describes_def)
qed

section \<open>Registering it\<close>

lemma register_logs: "new_meta_ok meta \<Longrightarrow> logs_op crc (\<lambda>io. register_sstable crc io meta mm) mm"
  using register_cases [of meta crc mm] by (auto simp: logs_op_def)

lemma register_core:
  assumes core: "core_inv crc api H extra mem sn g" and api: "bloom_crate_ok api" and fit: "versions_fit (cmd_record ` set H)"
    and t: "flush_table crc api config (valid_records mem) = Inr t"
    and w: "write_flush_table crc api env dir (length (valid_records mem)) t (mg_manifest g, mg_files g) = (Inr (meta, enc), mm1, fs1)"
    and dir: "utf8_valid dir" and reg: "register_sstable crc io meta mm1 = (Inr u, mm2)" and ops: "mm_inv crc ops mm2"
  shows "core_inv crc api H extra mem sn (g\<lparr>mg_manifest := mm2, mg_files := fs1\<rparr>)
     \<and> core_inv crc api H extra [] sn (g\<lparr>mg_manifest := mm2, mg_files := fs1\<rparr>)"
proof -
  let ?mm = "mg_manifest g" and ?fs = "mg_files g" and ?V = "entry_records (valid_records mem)"
  obtain recs where hist: "store_hist crc api recs H mem (?mm, ?fs)" using core by (auto simp: core_inv_def)
  then have inv: "store_inv crc api recs mem (?mm, ?fs)" and ok: "manifest_ok (ms_levels (mm_state ?mm))"
    and sub: "set (versions_of recs mem (?mm, ?fs)) \<subseteq> cmd_record ` set H"
    and like: "reads_like (versions_of recs mem (?mm, ?fs)) H" by (auto simp: store_hist_def store_inv_iff)
  have "set (mem_records mem) \<subseteq> cmd_record ` set H" using sub set_versions_of [of "(?mm, ?fs)" recs mem] ok by auto
  note ft = flushed_table [OF api fit this t w dir refl, of recs]
  note fr = write_flush_created [OF w]
  note rs = register_cases_state [OF reg]
  have st: "mm_state mm2 = (mm_state mm1)\<lparr>ms_levels := levels_insert meta (ms_levels (mm_state mm1))\<rparr>" "mm_cache mm2 = mm_cache mm1"
    using rs ft by simp_all
  let ?recs = "recs(meta := ?V)"
  have fti: "store_inv crc api ?recs mem (mm2, fs1)
      \<and> set (versions_of ?recs mem (mm2, fs1)) = set (versions_of recs mem (?mm, ?fs))
      \<and> live_of (mm2, fs1) = insert meta (live_of (?mm, ?fs))"
    by (rule flushed_table_inv [OF inv _ refl _ _ _ _ _ _ st]) (use ft fr in blast)+
  have "meta \<notin> live_of (?mm, ?fs)"
    using live_id_below [OF ok, of meta] inv ft by (auto simp: store_inv_iff)
  then have sound: "\<forall>m \<in> live_of (mm2, fs1). meta_sound ?recs m"
    using hist ft fti by (auto simp: store_hist_def meta_sound_def)
  have like': "reads_like (versions_of ?recs mem (mm2, fs1)) H"
    using like reads_as_cong fti unfolding reads_like_def by blast
  have h1: "store_hist crc api ?recs H mem (mm2, fs1)" using hist fti sound like' by (simp add: store_hist_def)
  have "store_hist crc api ?recs H [] (mm2, fs1)"
    using flushed_memtable_inv [of crc api ?recs mem mm2 fs1 meta] fti sub sound like' hist
    by (auto simp: store_hist_def reads_like_def)
  moreover have cp: "ms_recovery_checkpoint (mm_state mm2) = ms_recovery_checkpoint (mm_state ?mm)"
    using st fr by (auto simp: only_ids_def)
  moreover have "log_hist crc H extra cp [] wal" if "log_hist crc H extra cp mem wal" for cp wal
    using that by (auto simp: log_hist_def mem_records_def)
  ultimately show ?thesis using h1 ops core by (auto simp: core_inv_def)
qed

section \<open>The checkpoints\<close>

lemma mark_logs: "logs_op crc (\<lambda>io. mark_checkpoint crc io lsn segment mm) mm"
  using mark_cases [of crc lsn segment mm] by (auto simp: logs_op_def)

lemma mark_state:
  "mark_checkpoint crc io lsn segment mm = (r, mm') \<Longrightarrow>
     ms_levels (mm_state mm') = ms_levels (mm_state mm) \<and> mm_cache mm' = mm_cache mm
     \<and> ms_recovery_checkpoint (mm_state mm') = ms_recovery_checkpoint (mm_state mm)
     \<and> ms_next_file_id (mm_state mm') = ms_next_file_id (mm_state mm)"
  by (auto simp: mark_checkpoint_def append_then_def append_manifest_entry_def split: sum.splits append_io.splits)

lemma mark_core:
  assumes "core_inv crc api H extra mem sn g" and "mark_checkpoint crc io lsn segment (mg_manifest g) = (r, mm')"
    and "mm_inv crc ops mm'"
  shows "core_inv crc api H extra mem sn (g\<lparr>mg_manifest := mm'\<rparr>)"
  using core_frame [OF assms(1) fs_extends_refl, of mm' ops] mark_state [OF assms(2)] assms(3) by simp

lemma recovery_logs: "logs_op crc (\<lambda>io. publish_recovery_checkpoint crc io c mm) mm"
  using recovery_cases [of crc c mm] by (auto simp: logs_op_def)

lemma recovery_state:
  "publish_recovery_checkpoint crc io c mm = (r, mm') \<Longrightarrow>
     ms_levels (mm_state mm') = ms_levels (mm_state mm) \<and> mm_cache mm' = mm_cache mm
     \<and> ms_next_file_id (mm_state mm') = ms_next_file_id (mm_state mm)
     \<and> ms_recovery_checkpoint (mm_state mm') = (case r of Inr _ \<Rightarrow> Some c | Inl _ \<Rightarrow> ms_recovery_checkpoint (mm_state mm))"
  by (auto simp: publish_recovery_checkpoint_def append_then_def append_manifest_entry_def split: sum.splits append_io.splits)

text \<open>With the memtable empty, a checkpoint at a fresh segment covers the whole history.\<close>

lemma published_core:
  assumes core: "core_inv crc api H extra [] sn g" and healthy: "\<not> ws_poisoned (wm_state wal')"
    and st: "ms_levels (mm_state mm') = ms_levels (mm_state (mg_manifest g))" "mm_cache mm' = mm_cache (mg_manifest g)"
      "ms_next_file_id (mm_state mm') = ms_next_file_id (mm_state (mg_manifest g))"
      "ms_recovery_checkpoint (mm_state mm') = Some c" and ops: "mm_inv crc ops mm'"
    and wal: "wal_inv crc wal' a" "ws_checkpoint (wm_state wal') = Some c" "committed_commands a = []" "an_legacy a = []"
    and c: "rc_committed_sequence c = sn" and x: "extra = []"
  shows "core_inv crc api H extra [] sn (g\<lparr>mg_manifest := mm', mg_wal := wal'\<rparr>)"
proof -
  obtain recs where hist: "store_hist crc api recs H [] (mg_manifest g, mg_files g)"
    and seq: "\<forall>d \<in> set H. lc_lsn d \<le> sn" using core by (auto simp: core_inv_def)
  then have "store_hist crc api recs H [] (mm', mg_files g)"
    using store_inv_frame [of crc api recs "[]" "(mg_manifest g, mg_files g)" "(mm', mg_files g)"] st
    by (simp add: store_hist_def)
  moreover have "log_hist crc H extra (Some c) [] wal'"
    unfolding log_hist_def using hist seq wal wal_inv_reopens [OF wal(1)] c x
    by (intro conjI exI [of _ a] exI [of _ H] exI [of _ "[]"]) (auto simp: cp_sequence_def mem_records_def store_hist_def)
  ultimately show ?thesis using ops seq st(4) by (auto simp: core_inv_def)
qed

lemma fresh_checkpoint_wal:
  assumes inv: "wal_inv crc wal a" and seg: "seg = ws_segment_id (wm_state wal)"
    and log: "dir_log crc cp (wm_dir wal) ids seg (WALHeader_encode crc WALHeader_default) a"
    and c: "rc_replay_start_segment c = seg" "rc_next_physical_lsn c = ws_next_lsn (wm_state wal)"
  shows "wal_inv crc (wal\<lparr>wm_state := (wm_state wal)\<lparr>ws_checkpoint := Some c\<rparr>\<rparr>) (checkpoint_start (an_latest_lsn a))"
proof -
  have h: "\<not> ws_poisoned (wm_state wal)" "ws_next_lsn (wm_state wal) = an_latest_lsn a + 1" using inv by (simp_all add: wal_inv_def)
  have log': "dir_log crc (Some c) (wm_dir wal) [] seg (WALHeader_encode crc WALHeader_default) (checkpoint_start (an_latest_lsn a))"
    by (rule dir_log_checkpoint [OF log c(1)]) (simp add: c(2) h(2))
  obtain ids' bytes where b: "dir_log crc (ws_checkpoint (wm_state wal)) (wm_dir wal) ids' seg bytes a"
    "ws_size (wm_state wal) = of_nat (length bytes)" using inv seg by (auto simp: wal_inv_def)
  then have "bytes = WALHeader_encode crc WALHeader_default" using log by (auto simp: dir_log_def)
  with log' b(2) h seg show ?thesis
    by (intro wal_invI [of crc _ "[]" "WALHeader_encode crc WALHeader_default"]) simp_all
qed

text \<open>Whatever becomes of the entry of the checkpoint, the directory recovers the history.\<close>

lemma recovery_disk:
  assumes core: "core_inv crc api H [] mem sn g" and core0: "core_inv crc api H [] [] sn g"
    and inv: "wal_inv crc (mg_wal g) a" and seg: "seg = ws_segment_id (wm_state (mg_wal g))"
    and log: "dir_log crc cp (wm_dir (mg_wal g)) ids seg (WALHeader_encode crc WALHeader_default) a"
    and c: "rc_replay_start_segment c = seg" "rc_next_physical_lsn c = ws_next_lsn (wm_state (mg_wal g))" "rc_committed_sequence c = sn"
  shows "disk_inv crc api H (mm_file (snd (publish_recovery_checkpoint crc io c (mg_manifest g)))) (wm_dir (mg_wal g)) (mg_files g)"
proof -
  let ?f = "\<lambda>io. publish_recovery_checkpoint crc io c (mg_manifest g)"
  obtain ops where ops: "mm_inv crc ops (mg_manifest g)" using core by (auto simp: core_inv_def)
  show ?thesis
  proof (rule logs_disk [OF ops recovery_logs])
    show "recoverable crc api H (replayed ops) (wm_dir (mg_wal g)) (mg_files g)" using core_recoverable [OF core ops] by simp
    fix ops' assume ops': "mm_inv crc ops' (snd (?f AppendOk))"
    obtain q mm where q: "?f AppendOk = (q, mm)" by force
    show "recoverable crc api H (replayed ops') (wm_dir (mg_wal g)) (mg_files g)"
    proof (cases q)
      case (Inl e)
      with recovery_state [OF q] core_frame [OF core fs_extends_refl, of mm ops'] ops' q
      have "core_inv crc api H [] mem sn (g\<lparr>mg_manifest := mm\<rparr>)" by simp
      from core_recoverable [OF this] ops' q show ?thesis by simp
    next
      case (Inr u)
      let ?wal = "(mg_wal g)\<lparr>wm_state := (wm_state (mg_wal g))\<lparr>ws_checkpoint := Some c\<rparr>\<rparr>"
      have "wal_inv crc ?wal (checkpoint_start (an_latest_lsn a))" by (rule fresh_checkpoint_wal [OF inv seg log c(1,2)])
      moreover have "\<not> ws_poisoned (wm_state ?wal)" using inv by (simp add: wal_inv_def)
      ultimately have "core_inv crc api H [] [] sn (g\<lparr>mg_manifest := mm, mg_wal := ?wal\<rparr>)"
        using recovery_state [OF q] Inr ops' q c(3) by (intro published_core [OF core0, of _ _ c ops']) auto
      from core_recoverable [OF this] ops' q show ?thesis by simp
    qed
  qed
qed

lemma publish_checkpoint_core:
  assumes core: "core_inv crc api H extra mem sn g" and core0: "core_inv crc api H extra [] sn g"
    and inv: "wal_inv crc (mg_wal g) a" and seg: "seg = ws_segment_id (wm_state (mg_wal g))"
    and log: "dir_log crc cp (wm_dir (mg_wal g)) ids seg (WALHeader_encode crc WALHeader_default) a"
    and pc: "publish_checkpoint crc env owner (Some sn) g = (r, g')"
  shows "dir_inv crc api (H @ extra) g'
     \<and> (clean_append (fe_recovery env) \<longrightarrow> core_inv crc api H extra (if is_ok r then [] else mem) sn g')"
proof (cases "owns_recovery_checkpoints owner (mg_wal g) \<and> \<not> wm_raw_writes (mg_wal g)")
  case False
  have "\<not> ws_poisoned (wm_state (mg_wal g))" using inv by (simp add: wal_inv_def)
  with False pc have "r = Inr ()" "g' = g"
    by (auto simp: publish_checkpoint_def trusted_recovery_position_def ensure_healthy_def guard_err_def split: if_splits)
  with core_disk [OF core0] core0 show ?thesis by simp
next
  case True
  let ?wal = "mg_wal g" and ?mm = "mg_manifest g"
  let ?c = "\<lparr>rc_replay_start_segment = seg, rc_next_physical_lsn = ws_next_lsn (wm_state ?wal), rc_committed_sequence = sn\<rparr>"
  have h: "\<not> ws_poisoned (wm_state ?wal)" using inv by (simp add: wal_inv_def)
  have x: "extra = []" using core h by (auto simp: core_inv_def elim: log_hist_wal)
  obtain ops where ops: "mm_inv crc ops ?mm" using core by (auto simp: core_inv_def)
  obtain q mm' where q: "publish_recovery_checkpoint crc (fe_recovery env) ?c ?mm = (q, mm')" by force
  note st = recovery_state [OF q]
  have pos: "trusted_recovery_position ?wal = Inr (Some (seg, ws_next_lsn (wm_state ?wal)))"
    using h True seg by (simp add: trusted_recovery_position_def ensure_healthy_def)
  show ?thesis
  proof (cases q)
    case (Inl e)
    with pc True pos q have g': "r = Inl e" "g' = g\<lparr>mg_manifest := mm'\<rparr>" by (auto simp: publish_checkpoint_def)
    have "core_inv crc api H extra mem sn g'" if "clean_append (fe_recovery env)"
      using logs_clean [OF ops recovery_logs that, of ?c] core_frame [OF core fs_extends_refl, of mm'] st Inl q g'(2) by auto
    with recovery_disk [OF core [unfolded x] core0 [unfolded x] inv seg log, of ?c "fe_recovery env"] g' q x
    show ?thesis by simp
  next
    case (Inr u)
    obtain rr wal' where rr: "reclaim_checkpointed_segments (fe_remove_ok env) (fe_sync_ok env) ?c ?wal = (rr, wal')" by force
    with pc True pos q Inr have g': "r = Inr ()" "g' = g\<lparr>mg_manifest := mm', mg_wal := wal'\<rparr>" by (auto simp: publish_checkpoint_def)
    have io: "fe_recovery env = AppendOk" using append_then_ok q Inr by (auto simp: publish_recovery_checkpoint_def)
    obtain ops' where ops': "mm_inv crc ops' mm'"
      using logs_clean [OF ops recovery_logs, of AppendOk ?c] q io by (auto simp: clean_append_def)
    have "wm_checkpoint_owner ?wal" using True by (simp add: owns_recovery_checkpoints_def)
    with checkpointed_inv [OF log inv seg _ _ _ rr]
    have w: "wal_inv crc wal' (checkpoint_start (an_latest_lsn a))" "ws_checkpoint (wm_state wal') = Some ?c" by simp_all
    then have "\<not> ws_poisoned (wm_state wal')" by (simp add: wal_inv_def)
    then have "core_inv crc api H extra [] sn g'"
      unfolding g'(2) using st Inr w x ops' by (intro published_core [OF core0, of _ _ ?c ops']) auto
    with core_disk [OF this] g' show ?thesis by simp
  qed
qed

lemma flush_checkpoint_core:
  assumes core: "core_inv crc api H extra mem sn g" and core0: "core_inv crc api H extra [] sn g"
    and fc: "flush_checkpoint crc env owner lsn (Some sn) g = (r, g')"
  shows "dir_inv crc api (H @ extra) g'
     \<and> (clean_append (fe_mark env) \<and> clean_append (fe_recovery env) \<longrightarrow>
          core_inv crc api H extra (if is_ok r then [] else mem) sn g')"
proof -
  obtain q wal where rot: "rotate_wal_file crc (fe_rotate env) (mg_wal g) = (q, wal)" by force
  let ?g = "g\<lparr>mg_wal := wal\<rparr>"
  note c1 = core_rotate [OF core rot] and c2 = core_rotate [OF core0 rot]
  show ?thesis
  proof (cases q)
    case (Inl e)
    with fc rot have "r = Inl e" "g' = ?g" by (auto simp: flush_checkpoint_def)
    with c1 core_disk [OF c1] show ?thesis by simp
  next
    case (Inr seg)
    let ?f = "\<lambda>io. mark_checkpoint crc io lsn seg (mg_manifest ?g)"
    obtain ops where ops: "mm_inv crc ops (mg_manifest ?g)" using c1 by (auto simp: core_inv_def)
    obtain u mm where u: "?f (fe_mark env) = (u, mm)" by force
    have after: "core_inv crc api H extra m sn (?g\<lparr>mg_manifest := snd (?f io)\<rparr>)"
      if "core_inv crc api H extra m sn ?g" "mm_inv crc ops' (snd (?f io))" for io ops' m
      by (rule mark_core [OF that(1) _ that(2)]) (rule surjective_pairing)
    show ?thesis
    proof (cases u)
      case (Inl e)
      with fc rot Inr u have g': "r = Inl e" "g' = ?g\<lparr>mg_manifest := mm\<rparr>" by (auto simp: flush_checkpoint_def)
      have "core_inv crc api H extra mem sn g'" if "clean_append (fe_mark env)"
        using logs_clean [OF ops mark_logs that, of lsn seg] after [OF c1, of _ "fe_mark env"] u g'(2) by auto
      moreover have "disk_inv crc api (H @ extra) (mm_file (snd (?f (fe_mark env)))) (wm_dir wal) (mg_files g)"
        by (rule logs_disk [OF ops mark_logs])
          (use core_recoverable [OF c1 ops] core_recoverable [OF after [OF c1]] in simp_all)
      ultimately show ?thesis using g' u by simp
    next
      case ok: (Inr v)
      then have io: "fe_mark env = AppendOk" using append_then_ok u by (auto simp: mark_checkpoint_def)
      obtain ops' where ops': "mm_inv crc ops' mm"
        using logs_clean [OF ops mark_logs, of AppendOk lsn seg] u io by (auto simp: clean_append_def)
      have healthy: "\<not> ws_poisoned (wm_state (mg_wal g))"
        using rot Inr by (auto simp: rotate_wal_file_def ensure_healthy_def guard_err_def split: if_splits)
      obtain a where a: "wal_inv crc (mg_wal g) a" using core healthy by (auto simp: core_inv_def elim: log_hist_wal)
      from rotated_inv [OF a rot [unfolded Inr]] obtain ids where w: "wal_inv crc wal a" "seg = ws_segment_id (wm_state wal)"
        "dir_log crc (ws_checkpoint (wm_state (mg_wal g))) (wm_dir wal) ids seg (WALHeader_encode crc WALHeader_default) a" by blast
      have pc: "publish_checkpoint crc env owner (Some sn) (?g\<lparr>mg_manifest := mm\<rparr>) = (r, g')"
        using fc rot Inr u ok by (auto simp: flush_checkpoint_def)
      have k: "core_inv crc api H extra mem sn (?g\<lparr>mg_manifest := mm\<rparr>)" "core_inv crc api H extra [] sn (?g\<lparr>mg_manifest := mm\<rparr>)"
        using after [OF c1, of ops' "fe_mark env"] after [OF c2, of ops' "fe_mark env"] ops' u by simp_all
      have "wal_inv crc (mg_wal (?g\<lparr>mg_manifest := mm\<rparr>)) a" using w(1) by simp
      from publish_checkpoint_core [OF k this _ _ pc] w(2,3) show ?thesis by simp
    qed
  qed
qed

section \<open>A whole flush\<close>

definition clean_flush :: "flush_env \<Rightarrow> bool" where
  "clean_flush env \<longleftrightarrow> clean_append (fe_register env) \<and> clean_append (fe_mark env) \<and> clean_append (fe_recovery env)"

text \<open>The table is written and its entry in the manifest fails, or not.\<close>

lemma core_flushed:
  assumes core: "core_inv crc api H extra mem sn g" and "bloom_crate_ok api" and "versions_fit (cmd_record ` set H)"
    and "flush_table crc api config (valid_records mem) = Inr t"
    and "write_flush_table crc api env dir (length (valid_records mem)) t (mg_manifest g, mg_files g) = (Inr (meta, enc), mm1, fs1)"
    and "utf8_valid dir"
  shows "new_meta_ok meta \<and> sm_file_id meta < ms_next_file_id (mm_state mm1)"
proof -
  obtain recs where "store_hist crc api recs H mem (mg_manifest g, mg_files g)" using core by (auto simp: core_inv_def)
  then have "set (mem_records mem) \<subseteq> cmd_record ` set H"
    using set_versions_of [of "(mg_manifest g, mg_files g)" recs mem] by (auto simp: store_hist_def store_inv_iff)
  from flushed_table [OF assms(2,3) this assms(4-6) refl] show ?thesis by blast
qed

lemma register_step:
  assumes core: "core_inv crc api H extra mem sn g" and api: "bloom_crate_ok api" and fit: "versions_fit (cmd_record ` set H)"
    and t: "flush_table crc api config (valid_records mem) = Inr t"
    and w: "write_flush_table crc api env dir (length (valid_records mem)) t (mg_manifest g, mg_files g) = (Inr (meta, enc), mm1, fs1)"
    and dir: "utf8_valid dir" and reg: "register_sstable crc io meta mm1 = (r, mm2)" and ops: "mm_inv crc ops mm2"
  shows "core_inv crc api H extra mem sn (g\<lparr>mg_manifest := mm2, mg_files := fs1\<rparr>)"
proof (cases r)
  case (Inr u)
  from register_core [OF core api fit t w dir reg [unfolded Inr] ops] show ?thesis ..
next
  case (Inl e)
  have fr: "only_ids (mg_manifest g) mm1" "fs_extends (mg_files g) fs1" using write_flush_created [OF w] by simp_all
  have "mm_state mm2 = mm_state mm1 \<and> mm_cache mm2 = mm_cache mm1"
    using register_cases_state [OF reg] core_flushed [OF core api fit t w dir] Inl by simp
  with fr show ?thesis by (intro core_frame [OF core fr(2) _ _ _ _ ops]) (auto simp: only_ids_def)
qed

lemma flush_inner_core:
  assumes core: "core_inv crc api H extra mem sn g" and api: "bloom_crate_ok api" and fit: "versions_fit (cmd_record ` set H)"
    and dir: "utf8_valid (wc_sstable_dir w)" and fi: "flush_inner crc api env mem (Some sn) w g = (r, g')"
  shows "dir_inv crc api (H @ extra) g' \<and> (clean_flush env \<longrightarrow> core_inv crc api H extra (if is_ok r then [] else mem) sn g')"
proof (cases "flush_table crc api (wc_config w) (valid_records mem)")
  case (Inl e)
  with fi have "r = Inl e" "g' = g" by (auto simp: flush_inner_def)
  with core core_disk [OF core] show ?thesis by simp
next
  case t: (Inr t)
  obtain q mm1 fs1 where w: "write_flush_table crc api env (wc_sstable_dir w) (length (valid_records mem)) t (mg_manifest g, mg_files g)
      = (q, mm1, fs1)" by (metis prod.exhaust)
  note fr = write_flush_created [OF w]
  let ?g1 = "g\<lparr>mg_manifest := mm1, mg_files := fs1\<rparr>"
  have c1: "core_inv crc api H extra mem sn ?g1" using core_only_ids [OF core] fr by blast
  show ?thesis
  proof (cases q)
    case (Inl e)
    with fi t w have "r = Inl e" "g' = ?g1" by (auto simp: flush_inner_def)
    with c1 core_disk [OF c1] show ?thesis by simp
  next
    case (Inr p)
    then obtain meta enc where w': "write_flush_table crc api env (wc_sstable_dir w) (length (valid_records mem)) t
        (mg_manifest g, mg_files g) = (Inr (meta, enc), mm1, fs1)" using w by (cases p) auto
    have q: "q = Inr (meta, enc)" using w w' by simp
    let ?f = "\<lambda>io. register_sstable crc io meta mm1"
    obtain u mm2 where u: "?f (fe_register env) = (u, mm2)" by force
    have meta: "new_meta_ok meta" using core_flushed [OF core api fit t w' dir] by blast
    obtain ops where ops: "mm_inv crc ops mm1" using c1 by (auto simp: core_inv_def)
    have step: "core_inv crc api H extra mem sn (g\<lparr>mg_manifest := snd (?f io), mg_files := fs1\<rparr>)" if "mm_inv crc ops' (snd (?f io))" for io ops'
      by (rule register_step [OF core api fit t w' dir _ that]) (rule surjective_pairing)
    show ?thesis
    proof (cases u)
      case (Inl e)
      with fi t w q u have g': "r = Inl e" "g' = g\<lparr>mg_manifest := mm2, mg_files := fs1\<rparr>" by (auto simp: flush_inner_def)
      have "core_inv crc api H extra mem sn g'" if "clean_flush env"
        using logs_clean [OF ops register_logs [OF meta], of "fe_register env"] that step [of _ "fe_register env"] u g'(2)
        by (auto simp: clean_flush_def)
      moreover have "disk_inv crc api (H @ extra) (mm_file (snd (?f (fe_register env)))) (wm_dir (mg_wal g)) fs1"
        by (rule logs_disk [OF ops register_logs [OF meta]])
          (use core_recoverable [OF c1] ops core_recoverable [OF step] in simp_all)
      ultimately show ?thesis using g' u by simp
    next
      case (Inr v)
      then have io: "fe_register env = AppendOk" using append_then_ok u by (auto simp: register_sstable_def)
      obtain ops' where ops': "mm_inv crc ops' mm2"
        using logs_clean [OF ops register_logs [OF meta], of AppendOk] u io by (auto simp: clean_append_def)
      let ?g2 = "g\<lparr>mg_manifest := mm2, mg_files := fs1\<rparr>"
      note c2 = register_core [OF core api fit t w' dir u [unfolded Inr] ops']
      obtain s where fc: "flush_checkpoint crc env (wc_checkpoint_owner w) (max_lsn (valid_records mem)) (Some sn) ?g2 = (s, g')"
        "is_ok s = is_ok r" using fi t w q u Inr by (auto simp: flush_inner_def Let_def split: prod.splits sum.splits)
      from flush_checkpoint_core [OF c2 [THEN conjunct1] c2 [THEN conjunct2] fc(1)] fc(2) show ?thesis
        by (simp add: clean_flush_def)
    qed
  qed
qed

lemma flush_active_core:
  assumes core: "core_inv crc api H extra (wc_memtable w) (wc_sequence_number w) g" and api: "bloom_crate_ok api"
    and fit: "versions_fit (cmd_record ` set H)" and dir: "utf8_valid (wc_sstable_dir w)"
    and fl: "flush_active_memtable crc api env w g = (r, w', g')"
  shows "dir_inv crc api (H @ extra) g'
     \<and> (clean_flush env \<longrightarrow> core_inv crc api H extra (wc_memtable w') (wc_sequence_number w') g')
     \<and> (\<exists>mem n. w' = w\<lparr>wc_memtable := mem, wc_memtable_size := n\<rparr>)"
proof -
  obtain q g1 where fi: "flush_inner crc api env (wc_memtable w) (Some (wc_sequence_number w)) w g = (q, g1)" by force
  note core' = flush_inner_core [OF core api fit dir fi]
  show ?thesis
  proof (cases q)
    case (Inl e)
    with fl fi have "w' = w" "g' = g1" by (auto simp: flush_active_memtable_def)
    moreover have "\<exists>mem n. w = w\<lparr>wc_memtable := mem, wc_memtable_size := n\<rparr>"
      by (intro exI [of _ "wc_memtable w"] exI [of _ "wc_memtable_size w"]) simp
    ultimately show ?thesis using core' Inl by simp
  next
    case (Inr res)
    let ?rf = "remove_flushed (wc_memtable w) (wc_memtable w) 0"
    have "w' = w\<lparr>wc_memtable := [], wc_memtable_size := wc_memtable_size w - of_nat (snd ?rf)\<rparr>" "g' = g1"
      using fl fi Inr remove_flushed_all [of "wc_memtable w" 0] by (auto simp: flush_active_memtable_def Let_def split: prod.splits)
    with core' Inr show ?thesis by auto
  qed
qed

end
