(* ===== verification/Compaction_History.thy ===== *)
theory Compaction_History
  imports Store_History
begin

text \<open>
  \<open>compact_levels\<close> (\<open>src/storage/compactionmanager/compaction.rs\<close>) keeps the history of the engine, and a directory
  left at any point of it recovers the same history.
\<close>

lemma utf8_output_path: "utf8_valid src \<Longrightarrow> utf8_valid (build_compaction_output_path src level i)"
proof -
  assume src: "utf8_valid src"
  have name: "utf8_valid (ascii ''level-'' @ decimal (unat level))"
    by (intro utf8_valid_append utf8_ascii utf8_decimal) simp
  have "utf8_valid (ascii ''sstable-'' @ decimal (unat i) @ ascii ''.dat'')"
    by (intro utf8_valid_append utf8_ascii utf8_decimal) simp_all
  then show ?thesis
    using utf8_path_parent [OF src] utf8_path_parent name
    by (auto simp: build_compaction_output_path_def Let_def intro!: utf8_path_join split: option.splits)
qed

section \<open>One compaction\<close>

lemma apply_compaction_cp [simp]: "ms_recovery_checkpoint (apply_compaction st removals outputs) = ms_recovery_checkpoint st"
proof -
  have "ms_recovery_checkpoint (foldl apply_output st outputs) = ms_recovery_checkpoint st" for st
    by (induction outputs arbitrary: st) (simp_all add: apply_output_def)
  then show ?thesis by (simp add: apply_compaction_def)
qed

lemma compacts_same: "compacts recs L A B n recs' \<Longrightarrow> m \<in> L \<Longrightarrow> recs' m = recs m"
  by (simp add: compacts_def)

lemma swapped_core:
  assumes core: "core_inv crc api H extra mem sn g" and api: "bloom_crate_ok api" and fit: "versions_fit (cmd_record ` set H)"
    and plan: "compaction_plan crc api env config level (snapshot (mg_manifest g)) (mg_files g) = Inr (current, inputs, t, codecs)"
    and wr: "write_outputs crc api env (sm_path (hd current)) (level + 1) 0 codecs (mg_manifest g, mg_files g) = (Inr outputs, mm1, fs1)"
    and state: "mm_state mm' = apply_compaction (mm_state mm1) (map (fst \<circ> keyed_meta) inputs) outputs"
    and files: "\<And>p. p \<notin> sm_path ` set inputs \<Longrightarrow> fs' p = fs1 p"
    and cache: "cache_ok (file_contents fs') mm'" and ops: "mm_inv crc ops mm'"
  shows "core_inv crc api H extra mem sn (g\<lparr>mg_manifest := mm', mg_files := fs'\<rparr>)"
proof -
  let ?st = "(mg_manifest g, mg_files g)"
  obtain recs where hist: "store_hist crc api recs H mem ?st" using core by (auto simp: core_inv_def)
  then have inv: "store_inv crc api recs mem ?st" and ok: "manifest_ok (ms_levels (mm_state (fst ?st)))"
    and sub: "set (versions_of recs mem ?st) \<subseteq> cmd_record ` set H" by (auto simp: store_hist_def store_inv_iff)
  note vs = set_versions_of [OF ok, of recs mem]
  have fit': "versions_fit (recs_of recs (live_of ?st))" using versions_fit_mono [OF fit] sub vs by blast
  obtain recs' where *: "compacts recs (live_of ?st) (set inputs) (set outputs) level recs'"
    "manifest_ok (ms_levels (mm_state (fst (mm', fs'))))" "ids_below (mm_state (fst (mm', fs')))"
    "live_of (mm', fs') = (live_of ?st - set inputs) \<union> set outputs"
    "\<forall>m \<in> live_of (mm', fs'). table_holds crc api (file_contents (snd (mm', fs'))) m (recs' m)"
    and outs: "\<forall>m \<in> set outputs. sm_path m = build_compaction_output_path (sm_path (hd current)) (level + 1) (sm_file_id m)
        \<and> sm_record_count m = of_nat (length (recs' m))"
    and src: "sm_path (hd current) \<in> sm_path ` live_of ?st"
    using outputs_swap [OF inv fit' api plan wr, of "(mm', fs')"] state files by auto
  have cache': "cache_ok (file_contents (snd (mm', fs'))) (fst (mm', fs'))" using cache by simp
  note sw = swapped_inv [OF inv * cache']
  have "utf8_valid (sm_path (hd current))" using src hist by (auto simp: store_hist_def meta_sound_def)
  then have sound: "\<forall>m \<in> live_of (mm', fs'). meta_sound recs' m"
    using outs utf8_output_path hist *(4) compacts_same [OF *(1)] by (auto simp: store_hist_def meta_sound_def)
  have "set (versions_of recs' mem (mm', fs')) \<subseteq> set (versions_of recs mem ?st)"
    using sw set_versions_of [OF *(2), of recs' mem] vs by blast
  then have "store_hist crc api recs' H mem (mm', fs')"
    using hist sw sound by (auto simp: store_hist_def reads_like_def)
  moreover have "ms_recovery_checkpoint (mm_state mm') = ms_recovery_checkpoint (mm_state (mg_manifest g))"
    using write_outputs_frame [OF wr] by (auto simp: state only_ids_def)
  ultimately show ?thesis using core ops by (auto simp: core_inv_def)
qed

lemma outputs_metas:
  assumes core: "core_inv crc api H extra mem sn g" and fit: "versions_fit (cmd_record ` set H)"
    and plan: "compaction_plan crc api env config level (snapshot (mg_manifest g)) (mg_files g) = Inr (current, inputs, t, codecs)"
    and wr: "write_outputs crc api env (sm_path (hd current)) (level + 1) 0 codecs (mg_manifest g, mg_files g) = (Inr outputs, mm1, fs1)"
  shows "list_all new_meta_ok outputs"
proof -
  obtain recs where hist: "store_hist crc api recs H mem (mg_manifest g, mg_files g)" using core by (auto simp: core_inv_def)
  then have inv: "store_inv crc api recs mem (mg_manifest g, mg_files g)" and ok: "manifest_ok (ms_levels (mm_state (mg_manifest g)))"
    and sub: "set (versions_of recs mem (mg_manifest g, mg_files g)) \<subseteq> cmd_record ` set H"
    by (auto simp: store_hist_def store_inv_iff)
  have "versions_fit (recs_of recs (live_of (mg_manifest g, mg_files g)))"
    by (rule versions_fit_mono [OF fit]) (use sub ok set_versions_of [of "(mg_manifest g, mg_files g)" recs mem] in auto)
  from compaction_plan_Inr [OF inv this] plan have ne: "current \<noteq> []" by fastforce
  from plan_current [OF ok plan] ne have "hd current \<in> live (ms_levels (mm_state (mg_manifest g)))" by (auto simp: subset_iff)
  then have src: "utf8_valid (sm_path (hd current))" using hist by (auto simp: store_hist_def meta_sound_def)
  have "\<forall>m \<in> set outputs. sm_path m = build_compaction_output_path (sm_path (hd current)) (level + 1) (sm_file_id m)"
    using write_outputs_meta [OF wr] by (fastforce simp: list_all2_conv_all_nth in_set_conv_nth output_meta_def)
  moreover have "\<forall>m \<in> set outputs. sm_file_id m \<noteq> - 1" using write_outputs_Inr [OF wr] by (metis word_n1_ge leD)
  ultimately show ?thesis using utf8_output_path [OF src] by (auto simp: list_all_iff new_meta_ok_def)
qed

lemma publish_logs:
  "list_all new_meta_ok outputs \<Longrightarrow> logs_op crc (\<lambda>io. publish_compaction crc io snap inputs outputs mm) mm"
  using publish_cases [of outputs crc snap inputs mm] unfolding logs_op_def by blast

lemma remove_compacted_file: "mm_file (fst (remove_compacted_files env inputs st)) = mm_file (fst st)"
  by (induction inputs arbitrary: st) (simp_all add: evict_file_def)

lemma publish_step:
  assumes core: "core_inv crc api H extra mem sn g" and api: "bloom_crate_ok api" and fit: "versions_fit (cmd_record ` set H)"
    and plan: "compaction_plan crc api env config level (snapshot (mg_manifest g)) (mg_files g) = Inr (current, inputs, t, codecs)"
    and wr: "write_outputs crc api env (sm_path (hd current)) (level + 1) 0 codecs (mg_manifest g, mg_files g) = (Inr outputs, mm1, fs1)"
    and pub: "publish_compaction crc io snap inputs outputs mm1 = (r, mm2)" and ops: "mm_inv crc ops mm2"
  shows "core_inv crc api H extra mem sn (g\<lparr>mg_manifest := mm2, mg_files := fs1\<rparr>)"
proof -
  have fr: "only_ids (mg_manifest g) mm1" "fs_extends (mg_files g) fs1" using write_outputs_frame [OF wr] by simp_all
  show ?thesis
  proof (cases r)
    case (Inl e)
    from publish_Inl [OF pub [unfolded Inl]] fr ops show ?thesis
      by (intro core_frame [OF core fr(2)]) (auto simp: only_ids_def)
  next
    case (Inr v)
    note pi = publish_Inr [OF pub [unfolded Inr]]
    have "cache_ok (file_contents (mg_files g)) (mg_manifest g)" using core by (auto simp: core_inv_def store_hist_def store_inv_iff)
    then have "cache_ok (file_contents fs1) mm2" using cache_ok_extends [OF _ fr(2)] pi fr(1) by (auto simp: only_ids_def)
    with swapped_core [OF core api fit plan wr, of mm2 fs1] pi ops show ?thesis by simp
  qed
qed

lemma compaction_core:
  assumes core: "core_inv crc api H extra mem sn g" and api: "bloom_crate_ok api" and fit: "versions_fit (cmd_record ` set H)"
    and c: "compaction crc api env level config (mg_manifest g, mg_files g) = (r, mm', fs')"
  shows "dir_inv crc api (H @ extra) (g\<lparr>mg_manifest := mm', mg_files := fs'\<rparr>)
     \<and> (is_ok r \<or> clean_append (ce_append env) \<longrightarrow> core_inv crc api H extra mem sn (g\<lparr>mg_manifest := mm', mg_files := fs'\<rparr>))"
proof (cases "compaction_plan crc api env config level (snapshot (mg_manifest g)) (mg_files g)")
  case (Inl e)
  with c have "mm' = mg_manifest g" "fs' = mg_files g" by (auto simp: compaction_def)
  with core core_disk [OF core] show ?thesis by simp
next
  case (Inr p)
  obtain current inputs t codecs where p: "p = (current, inputs, t, codecs)" by (cases p) auto
  note plan = Inr [unfolded p]
  obtain q mm1 fs1 where w: "write_outputs crc api env (sm_path (hd current)) (level + 1) 0 codecs (mg_manifest g, mg_files g)
      = (q, mm1, fs1)" by (metis prod.exhaust)
  have fr: "only_ids (mg_manifest g) mm1" "fs_extends (mg_files g) fs1" using write_outputs_frame [OF w] by simp_all
  let ?g = "\<lambda>mm fs. g\<lparr>mg_manifest := mm, mg_files := fs\<rparr>"
  note c1 = core_only_ids [OF core fr(2,1)]
  show ?thesis
  proof (cases "\<exists>outputs u. q = Inr outputs \<and> check_cancelled env BeforePublish = Inr u")
    case False
    with c plan w have "mm' = mm1" "fs' = fs1" by (auto simp: compaction_def split: sum.splits)
    with c1 core_disk [OF c1] show ?thesis by simp
  next
    case True
    then obtain outputs where q: "q = Inr outputs" and go: "check_cancelled env BeforePublish = Inr ()" by auto
    note wr = w [unfolded q]
    let ?f = "\<lambda>io. publish_compaction crc io (snapshot (mg_manifest g)) inputs outputs mm1"
    obtain u mm2 where u: "?f (ce_append env) = (u, mm2)" by force
    have logs: "logs_op crc ?f mm1" by (rule publish_logs [OF outputs_metas [OF core fit plan wr]])
    obtain ops where ops: "mm_inv crc ops mm1" using c1 by (auto simp: core_inv_def)
    have cache: "cache_ok (file_contents (mg_files g)) (mg_manifest g)" using core by (auto simp: core_inv_def store_hist_def store_inv_iff)
    have step: "core_inv crc api H extra mem sn (?g (snd (?f io)) fs1)" if "mm_inv crc ops' (snd (?f io))" for io ops'
      by (rule publish_step [OF core api fit plan wr _ that]) (rule surjective_pairing)
    show ?thesis
    proof (cases u)
      case (Inl e)
      with c plan w q go u have r: "r = Inl e" "mm' = mm2" "fs' = fs1" by (auto simp: compaction_def)
      have "core_inv crc api H extra mem sn (?g mm' fs')" if "clean_append (ce_append env)"
        using logs_clean [OF ops logs that] step [of _ "ce_append env"] u r by auto
      moreover have "disk_inv crc api (H @ extra) (mm_file (snd (?f (ce_append env)))) (wm_dir (mg_wal g)) fs1"
        by (rule logs_disk [OF ops logs]) (use core_recoverable [OF c1] ops core_recoverable [OF step] in simp_all)
      ultimately show ?thesis using r u by simp
    next
      case (Inr v)
      with c plan w q go u have st': "(mm', fs') = remove_compacted_files env inputs (mm2, fs1)" by (auto simp: compaction_def)
      have io: "ce_append env = AppendOk"
        using append_then_ok u Inr by (auto simp: publish_compaction_def Let_def split: if_splits)
      obtain ops' where ops': "mm_inv crc ops' mm2" using logs_clean [OF ops logs, of AppendOk] u io by (auto simp: clean_append_def)
      note rm = remove_compacted_files_eq [of env inputs "(mm2, fs1)", folded st']
        and rmf = remove_compacted_file [of env inputs "(mm2, fs1)", folded st']
      have "mm_inv crc ops' mm'" by (rule mm_inv_cong [OF ops']) (use rm rmf in simp_all)
      moreover have "cache_ok (file_contents fs') mm'"
        using cache rm publish_Inr [OF u [unfolded Inr]] fr
        by (auto simp: cache_ok_def file_contents_Inr fs_extends_def restrict_map_def only_ids_def split: if_splits)
      ultimately have "core_inv crc api H extra mem sn (?g mm' fs')"
        using swapped_core [OF core api fit plan wr, of mm' fs' ops'] publish_Inr [OF u [unfolded Inr]] rm by simp
      with core_disk [OF this] show ?thesis by simp
    qed
  qed
qed

section \<open>The loop\<close>

text \<open>A round that goes on has published; only the last one can have failed in the middle of its entry.\<close>

definition keeps_core ::
  "(bytes \<Rightarrow> u32) \<Rightarrow> ('f, f64) bloom_api \<Rightarrow> (nat \<Rightarrow> compaction_env) \<Rightarrow> bytes manifest_manager \<times> files \<Rightarrow>
   bytes manifest_manager \<times> files \<Rightarrow> bool" where
  "keeps_core crc api env st st' \<longleftrightarrow>
     (\<forall>g H extra mem sn. st = (mg_manifest g, mg_files g) \<longrightarrow> core_inv crc api H extra mem sn g \<longrightarrow> versions_fit (cmd_record ` set H) \<longrightarrow>
        dir_inv crc api (H @ extra) (g\<lparr>mg_manifest := fst st', mg_files := snd st'\<rparr>)
        \<and> ((\<forall>n. clean_append (ce_append (env n))) \<longrightarrow>
             core_inv crc api H extra mem sn (g\<lparr>mg_manifest := fst st', mg_files := snd st'\<rparr>)))"

lemma keeps_core_refl: "keeps_core crc api env st st"
  unfolding keeps_core_def using core_disk by fastforce

lemma keeps_core_compaction:
  assumes "compaction crc api (env n) level config st = (r, st')" and "bloom_crate_ok api"
  shows "keeps_core crc api env st st'"
  unfolding keeps_core_def
proof (intro allI impI)
  fix g H extra mem sn
  assume "st = (mg_manifest g, mg_files g)" and "core_inv crc api H extra mem sn g" and "versions_fit (cmd_record ` set H)"
  with compaction_core [of crc api H extra mem sn g "env n" level config r "fst st'" "snd st'"] assms
  show "dir_inv crc api (H @ extra) (g\<lparr>mg_manifest := fst st', mg_files := snd st'\<rparr>)
      \<and> ((\<forall>n. clean_append (ce_append (env n))) \<longrightarrow>
           core_inv crc api H extra mem sn (g\<lparr>mg_manifest := fst st', mg_files := snd st'\<rparr>))" by simp
qed

lemma keeps_core_round:
  assumes "compaction crc api (env n) level config st = (Inr t, st1)" and "bloom_crate_ok api" and "keeps_core crc api env st1 st'"
  shows "keeps_core crc api env st st'"
  unfolding keeps_core_def
proof (intro allI impI)
  fix g H extra mem sn
  assume st: "st = (mg_manifest g, mg_files g)" and core: "core_inv crc api H extra mem sn g" and fit: "versions_fit (cmd_record ` set H)"
  let ?g = "g\<lparr>mg_manifest := fst st1, mg_files := snd st1\<rparr>"
  have "core_inv crc api H extra mem sn ?g"
    using compaction_core [OF core assms(2) fit, of "env n" level config "Inr t" "fst st1" "snd st1"] assms(1) st by simp
  with assms(3) fit show "dir_inv crc api (H @ extra) (g\<lparr>mg_manifest := fst st', mg_files := snd st'\<rparr>)
      \<and> ((\<forall>n. clean_append (ce_append (env n))) \<longrightarrow>
           core_inv crc api H extra mem sn (g\<lparr>mg_manifest := fst st', mg_files := snd st'\<rparr>))"
    unfolding keeps_core_def by (auto dest!: spec [of _ ?g])
qed

lemma compact_loop_core:
  assumes "compact_loop crc api env config n requested st = Some z" and "bloom_crate_ok api"
  shows "keeps_core crc (api :: ('f, f64) bloom_api) env st (snd z)"
proof (rule compact_loop.raw_induct
      [where P = "\<lambda>crc api env config n requested st z. bloom_crate_ok api \<longrightarrow> keeps_core crc api env st (snd z)",
        OF _ assms(1), THEN mp, OF _ assms(2)])
  fix loop crc env config n requested st z and api :: "('f, f64) bloom_api"
  assume ih: "\<And>crc (api :: ('f, f64) bloom_api) env config n requested st z.
      loop crc api env config n requested st = Some z \<Longrightarrow> bloom_crate_ok api \<longrightarrow> keeps_core crc api env st (snd z)"
    and z: "(case check_cancelled (env n) LoopStart of
        Inl e \<Rightarrow> Some (Inl e, st)
      | Inr _ \<Rightarrow>
          (case pick_level (metadata_len (ce_faults (env n)) (snd st)) config requested (snapshot (fst st)) of
             Inl e \<Rightarrow> Some (Inl e, st)
           | Inr None \<Rightarrow> Some (Inr (), st)
           | Inr (Some level) \<Rightarrow>
               (case compaction crc api (env n) level config st of
                  (Inl e, st') \<Rightarrow> Some (Inl e, st')
                | (Inr _, st') \<Rightarrow> loop crc api env config (Suc n) None st'))) = Some z"
  show "bloom_crate_ok api \<longrightarrow> keeps_core crc api env st (snd z)"
  proof
  assume api: "bloom_crate_ok api"
  show "keeps_core crc api env st (snd z)"
  proof (cases "snd z = st")
    case True
    show ?thesis unfolding True by (rule keeps_core_refl)
  next
    case False
    with z obtain level q st1 where c: "compaction crc api (env n) level config st = (q, st1)"
      and rest: "case q of Inl e \<Rightarrow> z = (Inl e, st1) | Inr _ \<Rightarrow> loop crc api env config (Suc n) None st1 = Some z"
      by (auto split: sum.splits option.splits prod.splits)
    show ?thesis
    proof (cases q)
      case (Inl e)
      with rest keeps_core_compaction [of crc api env n, OF c api] show ?thesis by simp
    next
      case (Inr t)
      with rest have "keeps_core crc api env st1 (snd z)" by (intro mp [OF ih api]) simp
      with keeps_core_round [of crc api env n, OF c [unfolded Inr] api] show ?thesis .
    qed
  qed
  qed
qed

lemma compact_levels_core:
  assumes "compact_levels crc api env level config (mg_manifest g, mg_files g) = Some (r, mm', fs')"
    and "core_inv crc api H extra mem sn g" and "bloom_crate_ok api" and "versions_fit (cmd_record ` set H)"
  shows "dir_inv crc api (H @ extra) (g\<lparr>mg_manifest := mm', mg_files := fs'\<rparr>)
     \<and> ((\<forall>n. clean_append (ce_append (env n))) \<longrightarrow> core_inv crc api H extra mem sn (g\<lparr>mg_manifest := mm', mg_files := fs'\<rparr>))"
proof -
  have "keeps_core crc api env (mg_manifest g, mg_files g) (mm', fs')"
  proof (cases "compact_loop crc api env config 0 (Some level) (mg_manifest g, mg_files g) = Some (r, mm', fs')")
    case True
    from compact_loop_core [OF this assms(3)] show ?thesis by simp
  next
    case False
    with assms(1) show ?thesis by (auto simp: compact_levels_def keeps_core_refl split: if_splits)
  qed
  with assms(2,4) show ?thesis unfolding keeps_core_def by fastforce
qed

end
