(* ===== verification/Engine_History.thy ===== *)
theory Engine_History
  imports Engine_Reads Flush_History Compaction_History
begin

text \<open>
  The engine over its whole life: batches, rounds of concurrent requests, flushes, compactions, reads,
  crashes and reopenings in any order. What it answers is the contents of a map on which the batches it
  was given have been applied, every acknowledged one included.
\<close>

section \<open>Transactions and the history they leave\<close>

text \<open>The size of the record of an operation in a table.\<close>

definition operation_size :: "batch_operation \<Rightarrow> nat" where
  "operation_size op = 17 + (case op of Batch_Put key v \<Rightarrow> length key + length v | Batch_Delete key \<Rightarrow> length key)"

text \<open>Lengths are 32-bit in a record and offsets 64-bit in a table.\<close>

definition txs_fit :: "(bool \<times> batch_operation list) list \<Rightarrow> bool" where
  "txs_fit txs \<longleftrightarrow>
     (\<forall>tx \<in> set txs. \<forall>op \<in> set (snd tx). operation_size op < 2 ^ 32)
     \<and> 5 * sum_list (map (\<lambda>tx. sum_list (map operation_size (snd tx))) txs) < 2 ^ 64"

lemma txs_fit_prefix: "txs_fit (txs @ new) \<Longrightarrow> txs_fit txs"
  by (auto simp: txs_fit_def)

text \<open>
  \<open>H\<close> is what the transactions left in the engine, and \<open>extra\<close> what a failed append left after it in the
  log. Some transactions that were not acknowledged may be missing, or be in \<open>extra\<close>.
\<close>

definition logged :: "(bool \<times> batch_operation list) list \<Rightarrow> log_command list \<Rightarrow> log_command list \<Rightarrow> bool" where
  "logged txs H extra \<longleftrightarrow>
     (\<exists>kept late gs gs'. kept_of (kept @ late) txs \<and> list_all (Not \<circ> fst) late
        \<and> list_all2 commands_for (map snd kept) gs \<and> list_all2 commands_for (map snd late) gs'
        \<and> H = concat gs \<and> extra = concat gs')"

lemma kept_of_prefix:
  assumes "kept_of (kept @ late) txs" and "list_all (Not \<circ> fst) late"
  shows "kept_of kept txs"
proof -
  have "filter fst late = []" using assms(2) by (auto simp: filter_empty_conv list_all_iff)
  with assms(1) show ?thesis by (auto simp: kept_of_def intro: subseq_order.trans [of _ "kept @ late"])
qed

lemma loggedE:
  assumes "logged txs H extra"
  obtains kept gs where "kept_of kept txs" "list_all2 commands_for (map snd kept) gs" "H = concat gs"
  using assms unfolding logged_def by (blast intro: kept_of_prefix)

lemma loggedI:
  assumes "kept_of kept txs" and "list_all2 commands_for (map snd kept) gs"
  shows "logged txs (concat gs) []"
  unfolding logged_def by (rule exI [of _ kept], rule exI [of _ "[]"], rule exI [of _ gs], rule exI [of _ "[]"]) (use assms in simp)

lemma logged_Nil: "logged [] [] []"
  using loggedI [of "[]" "[]" "[]"] by (simp add: kept_of_def)

lemma logged_all:
  assumes "logged txs H extra"
  shows "logged txs (H @ extra) []"
proof -
  from assms obtain kept late gs gs' where "kept_of (kept @ late) txs" "list_all2 commands_for (map snd kept) gs"
    "list_all2 commands_for (map snd late) gs'" "H = concat gs" "extra = concat gs'" unfolding logged_def by blast
  then show ?thesis using loggedI [of "kept @ late" txs "gs @ gs'"] by (simp add: list_all2_appendI)
qed

lemma map_snd_Pair [simp]: "map snd (map (Pair b) xs) = xs"
  by (simp add: comp_def)

lemma logged_ok:
  assumes "logged txs H extra" and "list_all2 commands_for opss groups"
  shows "logged (txs @ map (Pair b) opss) (H @ concat groups) []"
proof -
  from assms(1) obtain kept gs where k: "kept_of kept txs" "list_all2 commands_for (map snd kept) gs" "H = concat gs" by (rule loggedE)
  have "kept_of (kept @ map (Pair b) opss) (txs @ map (Pair b) opss)"
    using kept_of_append [OF k(1), of b "length opss" opss] by simp
  from loggedI [OF this, of "gs @ groups"] k assms(2) show ?thesis by (simp add: list_all2_appendI comp_def)
qed

lemma logged_fail:
  assumes "logged txs H extra"
  shows "logged (txs @ map (Pair False) opss) H extra"
proof -
  have "kept_of kept (txs @ map (Pair False) opss)" if "kept_of kept txs" for kept
    using kept_of_append [OF that, of False 0 opss] by simp
  with assms show ?thesis unfolding logged_def by blast
qed

lemma logged_torn:
  assumes "logged txs H extra" and "list_all2 commands_for opss groups"
  shows "logged (txs @ map (Pair False) opss) H (concat (take n groups))"
proof -
  from assms(1) obtain kept gs where k: "kept_of kept txs" "list_all2 commands_for (map snd kept) gs" "H = concat gs" by (rule loggedE)
  show ?thesis
    unfolding logged_def
    by (rule exI [of _ kept], rule exI [of _ "map (Pair False) (take n opss)"], rule exI [of _ gs], rule exI [of _ "take n groups"])
      (use kept_of_append [OF k(1), of False n opss] k(2,3) assms(2) in \<open>simp add: list_all2_takeI list_all_iff comp_def\<close>)
qed

lemma logged_map:
  assumes "logged txs H extra"
  obtains kept where "kept_of kept txs" "kv_map H = kv_contents (map snd kept)"
proof -
  from assms obtain kept gs where k: "kept_of kept txs" "list_all2 commands_for (map snd kept) gs" "H = concat gs" by (rule loggedE)
  have "fold apply_command (concat gs) m = fold apply_operation (concat opss) m" if "list_all2 commands_for opss gs" for opss m
    using that by (induction arbitrary: m) (auto simp: commands_for_def build_commands_apply)
  with k show thesis by (intro that [of kept]) (simp_all add: kv_map_def kv_contents_def)
qed

section \<open>Sizes\<close>

lemma build_commands_size:
  "build_commands ops lsn = Some (cs, lsn') \<Longrightarrow> map (\<lambda>c. rec_len (cmd_record c)) cs = map operation_size ops"
proof (induction ops arbitrary: lsn cs)
  case (Cons op ops)
  have "rec_len (cmd_record (operation_command op l)) = operation_size op" for l
    by (simp add: rec_len_def record_length_def operation_command_def LogCommand_new_def operation_size_def split: batch_operation.split)
  with Cons show ?case by (fastforce split: option.splits)
qed simp

lemma commands_size:
  assumes "list_all2 commands_for opss gs"
  shows "map (\<lambda>c. rec_len (cmd_record c)) (concat gs) = map operation_size (concat opss)"
  using assms by induction (auto simp: commands_for_def build_commands_size)

lemma subseq_sum_list: "subseq xs ys \<Longrightarrow> sum_list (map f xs) \<le> sum_list (map (f :: 'a \<Rightarrow> nat) ys)"
  by (induction rule: list_emb.induct) auto

lemma sum_image_list: "sum f (set xs) \<le> sum_list (map (f :: 'a \<Rightarrow> nat) xs)"
  by (induction xs) (auto simp: sum.insert_if)

lemma logged_fit:
  assumes log: "logged txs H extra" and fit: "txs_fit txs"
  shows "versions_fit (cmd_record ` set H)"
proof -
  from log obtain kept gs where k: "kept_of kept txs" "list_all2 commands_for (map snd kept) gs" "H = concat gs" by (rule loggedE)
  have len: "map (\<lambda>c. rec_len (cmd_record c)) H = map operation_size (concat (map snd kept))"
    unfolding k(3) by (rule commands_size [OF k(2)])
  have sub: "subseq kept txs" using k(1) by (simp add: kept_of_def)
  have "rec_len r < 2 ^ 32" if r: "r \<in> cmd_record ` set H" for r
  proof -
    have "rec_len r \<in> set (map (\<lambda>c. rec_len (cmd_record c)) H)" using r by auto
    then obtain tx op where "tx \<in> set kept" "op \<in> set (snd tx)" "rec_len r = operation_size op" unfolding len by auto
    moreover from this(1) have "tx \<in> set txs" using list_emb_set [OF sub, of tx] by blast
    ultimately show ?thesis using fit by (auto simp: txs_fit_def)
  qed
  moreover have "sum rec_len (cmd_record ` set H) \<le> sum_list (map (\<lambda>tx. sum_list (map operation_size (snd tx))) txs)"
  proof -
    have "sum rec_len (cmd_record ` set H) \<le> sum_list (map rec_len (map cmd_record H))"
      using sum_image_list [of rec_len "map cmd_record H"] by simp
    also have "\<dots> = sum_list (map operation_size (concat (map snd kept)))" using len by (simp add: comp_def)
    also have "\<dots> = sum_list (map (\<lambda>tx. sum_list (map operation_size (snd tx))) kept)"
      by (induction kept) simp_all
    also have "\<dots> \<le> sum_list (map (\<lambda>tx. sum_list (map operation_size (snd tx))) txs)" by (rule subseq_sum_list [OF sub])
    finally show ?thesis .
  qed
  ultimately show ?thesis using fit by (auto simp: versions_fit_def txs_fit_def)
qed

section \<open>Steps of the engine\<close>

text \<open>
  One step, and the transactions it was given with whether they were acknowledged: a batch on an idle
  queue, a round of requests that were admitted together, maintenance, a compaction the worker runs, and
  reads, with any outcome of the file system. An empty batch returns at once. In a clean step an append to the manifest happens in full
  or not at all.
\<close>

inductive kv_step ::
  "(bytes \<Rightarrow> u32) \<Rightarrow> ('f, f64) bloom_api \<Rightarrow> bool \<Rightarrow> kv2 \<Rightarrow> (bool \<times> batch_operation list) list \<Rightarrow> kv2 \<Rightarrow> bool"
  for crc api clean where
  batch: "KV2_write_batch crc api env operations k = Some (r, k') \<Longrightarrow> operations \<noteq> [] \<Longrightarrow> clean \<longrightarrow> clean_flush (we_flush env) \<Longrightarrow>
    kv_step crc api clean k [(is_ok r, operations)] k'"
| round: "write_round crc io requests (kv_writer k) (mg_wal (kv_managers k)) = (r, w, wal) \<Longrightarrow> requests \<noteq> [] \<Longrightarrow>
    kv_step crc api clean k (map (\<lambda>rq. (is_ok r, rq_operations rq)) requests)
      (k\<lparr>kv_writer := w, kv_managers := (kv_managers k)\<lparr>mg_wal := wal\<rparr>\<rparr>)"
| maintain: "maintain_after_commit crc api env k = (r, k') \<Longrightarrow> clean \<longrightarrow> clean_flush env \<Longrightarrow> kv_step crc api clean k [] k'"
| worker: "worker_step crc api envs k = Some k' \<Longrightarrow> clean \<longrightarrow> (\<forall>n. clean_append (ce_append (envs n))) \<Longrightarrow>
    kv_step crc api clean k [] k'"
| get: "KV2_get crc api faults key k = (r, k') \<Longrightarrow> kv_step crc api clean k [] k'"
| scan: "KV2_scan crc api faults rng k = (r, k') \<Longrightarrow> kv_step crc api clean k [] k'"

text \<open>What the engine and its directory keep of the transactions.\<close>

definition kv_logged :: "(bytes \<Rightarrow> u32) \<Rightarrow> ('f, f64) bloom_api \<Rightarrow> (bool \<times> batch_operation list) list \<Rightarrow> kv2 \<Rightarrow> bool" where
  "kv_logged crc api txs k \<longleftrightarrow> (\<exists>H extra. logged txs H extra \<and> kv_inv crc api H extra k)"

definition disk_logged :: "(bytes \<Rightarrow> u32) \<Rightarrow> ('f, f64) bloom_api \<Rightarrow> (bool \<times> batch_operation list) list \<Rightarrow> kv2 \<Rightarrow> bool" where
  "disk_logged crc api txs k \<longleftrightarrow> (\<exists>H. logged txs H [] \<and> dir_inv crc api H (kv_managers k))"

lemma kv_logged_disk: "kv_logged crc api txs k \<Longrightarrow> disk_logged crc api txs k"
  unfolding kv_logged_def disk_logged_def kv_inv_def by (blast intro: logged_all core_disk)

lemma kv_logged_round:
  assumes log: "kv_logged crc api txs k" and ne: "requests \<noteq> []" and idle: "queue_idle q2" and b: "b \<longrightarrow> is_ok r"
    and round: "write_round crc io requests ((kv_writer k)\<lparr>wc_admission := q1\<rparr>) (mg_wal (kv_managers k)) = (r, w, wal)"
  shows "kv_logged crc api (txs @ map (Pair b) (map rq_operations requests))
     (k\<lparr>kv_writer := w\<lparr>wc_admission := q2\<rparr>, kv_managers := (kv_managers k)\<lparr>mg_wal := wal\<rparr>\<rparr>)"
proof -
  from log obtain H extra where H: "logged txs H extra" and inv: "kv_inv crc api H extra k" by (auto simp: kv_logged_def)
  let ?w = "(kv_writer k)\<lparr>wc_admission := q1\<rparr>"
  have core: "core_inv crc api H extra (wc_memtable ?w) (wc_sequence_number ?w) (kv_managers k)" and mode: "wc_payload_mode ?w = Inline"
    using inv by (simp_all add: kv_inv_def)
  note step = write_round_core [OF core mode ne round]
  show ?thesis
  proof (cases "is_ok r")
    case True
    with step obtain groups where g: "list_all2 commands_for (map rq_operations requests) groups"
      and c: "core_inv crc api (H @ concat groups) [] (wc_memtable w) (wc_sequence_number w) ((kv_managers k)\<lparr>mg_wal := wal\<rparr>)"
      and w: "w = (append_commands (concat groups) ?w)\<lparr>wc_sequence_number := wc_sequence_number w\<rparr>" by auto
    have "wc_payload_mode w = Inline" "wc_sstable_dir w = wc_sstable_dir (kv_writer k)" using mode by (subst w, simp)+
    with inv c idle show ?thesis
      unfolding kv_logged_def using logged_ok [OF H g, of b] by (auto simp: kv_inv_def)
  next
    case False
    with b have b': "b = False" by simp
    from False step obtain extra' where w: "w = ?w"
      and c: "core_inv crc api H extra' (wc_memtable ?w) (wc_sequence_number ?w) ((kv_managers k)\<lparr>mg_wal := wal\<rparr>)"
      and ex: "extra' = extra \<or> extra = [] \<and> (\<exists>groups n. list_all2 commands_for (map rq_operations requests) groups \<and> extra' = concat (take n groups))"
      by auto
    have "logged (txs @ map (Pair b) (map rq_operations requests)) H extra'"
      using ex logged_fail [OF H] logged_torn [OF H] unfolding b' by blast
    with inv c idle w show ?thesis unfolding kv_logged_def by (auto simp: kv_inv_def)
  qed
qed

lemma maintain_kv_inv:
  assumes inv: "kv_inv crc api H extra k" and api: "bloom_crate_ok api" and fit: "versions_fit (cmd_record ` set H)"
    and m: "maintain_after_commit crc api env k = (r, k')"
  shows "dir_inv crc api (H @ extra) (kv_managers k') \<and> (clean_flush env \<longrightarrow> kv_inv crc api H extra k')"
proof (cases "wc_memtable_size (kv_writer k) < memtable_size_threshold (wc_config (kv_writer k))")
  case True
  with m have "k' = k" by (simp add: maintain_after_commit_def maybe_flush_and_compact_def)
  with inv show ?thesis using core_disk by (auto simp: kv_inv_def)
next
  case False
  obtain q w g where f: "flush_active_memtable crc api env (kv_writer k) (kv_managers k) = (q, w, g)" by (metis prod.exhaust)
  have k': "kv_writer k' = w" "kv_managers k' = g"
    using m False by (auto simp: maintain_after_commit_def maybe_flush_and_compact_def f split: sum.splits failure.splits)
  have core: "core_inv crc api H extra (wc_memtable (kv_writer k)) (wc_sequence_number (kv_writer k)) (kv_managers k)"
    and dir: "utf8_valid (wc_sstable_dir (kv_writer k))" using inv by (simp_all add: kv_inv_def)
  from flush_active_core [OF core api fit dir f] inv show ?thesis by (auto simp: kv_inv_def k')
qed

lemma kv_logged_maintain:
  assumes log: "kv_logged crc api txs k" and api: "bloom_crate_ok api" and fit: "txs_fit txs"
    and m: "maintain_after_commit crc api env k = (r, k')"
  shows "disk_logged crc api txs k' \<and> (clean_flush env \<longrightarrow> kv_logged crc api txs k')"
proof -
  from log obtain H extra where H: "logged txs H extra" and inv: "kv_inv crc api H extra k" by (auto simp: kv_logged_def)
  from maintain_kv_inv [OF inv api logged_fit [OF H fit] m] H logged_all [OF H] show ?thesis
    unfolding kv_logged_def disk_logged_def by blast
qed

lemma kv_logged_batch:
  assumes log: "kv_logged crc api txs k" and api: "bloom_crate_ok api" and fit: "txs_fit (txs @ [(is_ok r, operations)])"
    and ne: "operations \<noteq> []" and wr: "KV2_write_batch crc api env operations k = Some (r, k')"
  shows "disk_logged crc api (txs @ [(is_ok r, operations)]) k'
     \<and> (clean_flush (we_flush env) \<longrightarrow> kv_logged crc api (txs @ [(is_ok r, operations)]) k')"
proof -
  have idle: "queue_idle (wc_admission (kv_writer k))" using log by (auto simp: kv_logged_def kv_inv_def)
  from write_batch_idle [OF idle ne, of crc "we_ios env" "mg_wal (kv_managers k)"] show ?thesis
  proof (elim disjE exE conjE)
    fix e assume "write_batch crc (we_ios env) operations (kv_writer k) (mg_wal (kv_managers k)) = Some (Inl e, kv_writer k, mg_wal (kv_managers k))"
    with wr ne have "k' = k" "\<not> is_ok r" by (auto simp: KV2_write_batch_def)
    moreover have "kv_logged crc api (txs @ [(False, operations)]) k"
      using log logged_fail [of txs _ _ "[operations]"] by (auto simp: kv_logged_def)
    ultimately show ?thesis using kv_logged_disk by auto
  next
    fix rq q1 r1 w wal q2
    assume rq: "rq_operations rq = operations" and idle': "queue_idle q2"
      and round: "write_round crc (we_ios env 0) [rq] ((kv_writer k)\<lparr>wc_admission := q1\<rparr>) (mg_wal (kv_managers k)) = (r1, w, wal)"
      and batch: "write_batch crc (we_ios env) operations (kv_writer k) (mg_wal (kv_managers k)) = Some (r1, w\<lparr>wc_admission := q2\<rparr>, wal)"
    let ?k = "k\<lparr>kv_writer := w\<lparr>wc_admission := q2\<rparr>, kv_managers := (kv_managers k)\<lparr>mg_wal := wal\<rparr>\<rparr>"
    have step: "kv_logged crc api (txs @ [(b, operations)]) ?k" if "b \<longrightarrow> is_ok r1" for b
      using kv_logged_round [OF log _ idle' that round] rq by simp
    show ?thesis
    proof (cases r1)
      case (Inl e)
      with wr batch ne have "k' = ?k" "r = Inl e" by (simp_all add: KV2_write_batch_def)
      with step [of False] kv_logged_disk show ?thesis by auto
    next
      case (Inr u)
      with wr batch ne have "maintain_after_commit crc api (we_flush env) ?k = (r, k')" by (simp add: KV2_write_batch_def)
      from kv_logged_maintain [OF step api fit this] Inr show ?thesis by simp
    qed
  qed
qed

lemma worker_kv_inv:
  assumes inv: "kv_inv crc api H extra k" and api: "bloom_crate_ok api" and fit: "versions_fit (cmd_record ` set H)"
    and wk: "worker_step crc api envs k = Some k'"
  shows "dir_inv crc api (H @ extra) (kv_managers k') \<and> ((\<forall>n. clean_append (ce_append (envs n))) \<longrightarrow> kv_inv crc api H extra k')"
proof (cases "kv_triggers k = [] \<or> \<not> kv_worker k")
  case True
  with wk have "k' = k" by (auto simp: worker_step_def split: list.splits if_splits)
  with inv show ?thesis using core_disk by (auto simp: kv_inv_def)
next
  case False
  then obtain level triggers where t: "kv_triggers k = level # triggers" "kv_worker k" by (cases "kv_triggers k") auto
  let ?g = "kv_managers k"
  from wk t obtain r mm fs where c: "compact_levels crc api envs level (wc_config (kv_writer k)) (mg_manifest ?g, mg_files ?g) = Some (r, mm, fs)"
    and k': "kv_writer k' = kv_writer k" "kv_managers k' = ?g\<lparr>mg_manifest := mm, mg_files := fs\<rparr>"
    by (auto simp: worker_step_def)
  have "core_inv crc api H extra (wc_memtable (kv_writer k)) (wc_sequence_number (kv_writer k)) ?g" using inv by (simp add: kv_inv_def)
  from compact_levels_core [OF c this api fit] inv show ?thesis unfolding kv_inv_def k' by blast
qed

lemma kv_logged_worker:
  assumes log: "kv_logged crc api txs k" and api: "bloom_crate_ok api" and fit: "txs_fit txs"
    and wk: "worker_step crc api envs k = Some k'"
  shows "disk_logged crc api txs k' \<and> ((\<forall>n. clean_append (ce_append (envs n))) \<longrightarrow> kv_logged crc api txs k')"
proof -
  from log obtain H extra where H: "logged txs H extra" and inv: "kv_inv crc api H extra k" by (auto simp: kv_logged_def)
  from worker_kv_inv [OF inv api logged_fit [OF H fit] wk] H logged_all [OF H] show ?thesis
    unfolding kv_logged_def disk_logged_def by blast
qed

lemma kv_step_logged:
  assumes step: "kv_step crc api clean k new k'" and log: "kv_logged crc api txs k" and api: "bloom_crate_ok api"
    and fit: "txs_fit (txs @ new)"
  shows "disk_logged crc api (txs @ new) k' \<and> (clean \<longrightarrow> kv_logged crc api (txs @ new) k')"
  using step fit
proof cases
  case (batch env operations r)
  with kv_logged_batch [OF log api _ batch(3,2)] fit show ?thesis by blast
next
  case (round io requests r w wal)
  have idle: "queue_idle (wc_admission (kv_writer k))" using log by (auto simp: kv_logged_def kv_inv_def)
  have "wc_admission w = wc_admission (kv_writer k)" using write_round_queue [OF round(3)] by simp
  then have "w\<lparr>wc_admission := wc_admission (kv_writer k)\<rparr> = w" by simp
  with kv_logged_round [OF log round(4) idle, of "is_ok r" r io "wc_admission (kv_writer k)" w wal] round
  have "kv_logged crc api (txs @ new) k'" by (simp add: comp_def)
  with kv_logged_disk show ?thesis by blast
next
  case (maintain env r)
  with kv_logged_maintain [OF log api] fit show ?thesis by auto
next
  case (worker envs)
  with kv_logged_worker [OF log api] fit show ?thesis by auto
next
  case (get faults key r)
  with log kv_inv_get [of crc api _ _ k faults key] have "kv_logged crc api txs k'" by (auto simp: kv_logged_def)
  with kv_logged_disk get show ?thesis by auto
next
  case (scan faults rng r)
  with log kv_inv_scan [of crc api _ _ k faults rng] have "kv_logged crc api txs k'" by (auto simp: kv_logged_def)
  with kv_logged_disk scan show ?thesis by auto
qed

section \<open>Runs\<close>

text \<open>
  The life of a directory: it is created empty, and then there are clean steps, steps after which the
  process stops, and reopenings. The bound keeps the manifest within what a Rust slice may hold.
\<close>

inductive kv_run ::
  "(bytes \<Rightarrow> u32) \<Rightarrow> ('f, f64) bloom_api \<Rightarrow> bytes \<Rightarrow> kv2 \<Rightarrow> (bool \<times> batch_operation list) list \<Rightarrow> bool"
  for crc api base_dir where
  create: "KV2_open crc api env base_dir config d = Inr k \<Longrightarrow> di_manifest d = [] \<Longrightarrow> di_wal d = [] \<Longrightarrow> kv_run crc api base_dir k []"
| step: "kv_run crc api base_dir k txs \<Longrightarrow> kv_step crc api True k new k' \<Longrightarrow> kv_run crc api base_dir k' (txs @ new)"
| crash: "kv_run crc api base_dir k txs \<Longrightarrow> kv_step crc api False k new k' \<Longrightarrow>
    length (di_manifest (disk_of k')) + 2 ^ 33 \<le> isize_max \<Longrightarrow>
    KV2_open crc api env base_dir config (disk_of k') = Inr k'' \<Longrightarrow> kv_run crc api base_dir k'' (txs @ new)"
| reopen: "kv_run crc api base_dir k txs \<Longrightarrow> length (di_manifest (disk_of k)) + 2 ^ 33 \<le> isize_max \<Longrightarrow>
    KV2_open crc api env base_dir config (disk_of k) = Inr k' \<Longrightarrow> kv_run crc api base_dir k' txs"

lemma open_logged:
  assumes "disk_logged crc api txs k" and "length (di_manifest (disk_of k)) + 2 ^ 33 \<le> isize_max" and "utf8_valid base_dir"
    and "KV2_open crc api env base_dir config (disk_of k) = Inr k'"
  shows "kv_logged crc api txs k'"
proof -
  from assms(1) obtain H where H: "logged txs H []" and d: "dir_inv crc api H (kv_managers k)" by (auto simp: disk_logged_def)
  have "disk_inv crc api H (di_manifest (disk_of k)) (di_wal (disk_of k)) (di_files (disk_of k))" using d by (simp add: disk_of_def)
  from open_inv [OF this assms(2-4)] H show ?thesis by (auto simp: kv_logged_def)
qed

lemma kv_run_logged:
  assumes "kv_run crc api base_dir k txs" and "utf8_valid base_dir" and "bloom_crate_ok api" and "txs_fit txs"
  shows "kv_logged crc api txs k"
  using assms(1,4)
proof induction
  case (create env config d k)
  from create_inv [OF create(1) assms(2) create(2,3)] logged_Nil show ?case by (auto simp: kv_logged_def)
next
  case (step k txs new k')
  from kv_step_logged [OF step(2) step.IH [OF txs_fit_prefix [OF step.prems]] assms(3) step.prems] show ?case by simp
next
  case (crash k txs new k' env config k'')
  from kv_step_logged [OF crash(2) crash.IH [OF txs_fit_prefix [OF crash.prems]] assms(3) crash.prems]
  have "disk_logged crc api (txs @ new) k'" by simp
  from open_logged [OF this crash(3) assms(2) crash(4)] show ?case .
next
  case (reopen k txs env config k')
  from open_logged [OF kv_logged_disk [OF reopen.IH [OF reopen.prems]] reopen(2) assms(2) reopen(3)] show ?case .
qed

lemma kv_run_reads:
  assumes "kv_run crc api base_dir k txs" and "utf8_valid base_dir" and "bloom_crate_ok api" and "txs_fit txs"
  obtains kept where "kept_of kept txs"
    "\<And>key. fst (KV2_get crc api no_faults key k) = Inr (kv_contents (map snd kept) key)"
    "\<And>rng. \<exists>out. fst (KV2_scan crc api no_faults rng k) = Inr out \<and> sorted_wrt (<) (map fst out)
        \<and> (\<forall>key v. (key, v) \<in> set out \<longleftrightarrow> key_in_range key rng \<and> kv_contents (map snd kept) key = Some v)"
proof -
  from kv_run_logged [OF assms] obtain H extra where log: "logged txs H extra" and inv: "kv_inv crc api H extra k"
    by (auto simp: kv_logged_def)
  from log obtain kept where k: "kept_of kept txs" "kv_map H = kv_contents (map snd kept)" by (rule logged_map)
  show thesis
    by (rule that [OF k(1)]) (use kv_get_result [OF inv] kv_scan_result [OF inv] in \<open>simp_all add: k(2)\<close>)
qed

text \<open>
  C1: what the engine answers over its whole life. After any run from an empty directory, with batches,
  rounds of concurrent requests, flushes, compactions, failed calls, crashes and reopenings in any
  order, there is a choice of the batches it was given, in order and with every acknowledged one, such
  that a point read returns the value of the key in the map those batches build, and a range scan
  returns exactly the entries of that map in the range, in key order. The hypotheses bound the sizes,
  and state what the Bloom filter crate promises.
\<close>

theorem engine_reads_history:
  assumes "kv_run crc api base_dir k txs" and "utf8_valid base_dir" and "bloom_crate_ok api" and "txs_fit txs"
  shows "\<exists>kept. kept_of kept txs
     \<and> (\<forall>key. fst (KV2_get crc api no_faults key k) = Inr (kv_contents (map snd kept) key))
     \<and> (\<forall>rng. \<exists>out. fst (KV2_scan crc api no_faults rng k) = Inr out \<and> sorted_wrt (<) (map fst out)
          \<and> (\<forall>key v. (key, v) \<in> set out \<longleftrightarrow> key_in_range key rng \<and> kv_contents (map snd kept) key = Some v))"
  by (rule kv_run_reads [OF assms]) blast

text \<open>
  C2: durability of acknowledged writes. When every batch of the run was acknowledged, a point read returns
  the value the batches give its key, whatever flushes, compactions, crashes and reopenings happened.
\<close>

theorem engine_acknowledged_durable:
  assumes "kv_run crc api base_dir k txs" and "utf8_valid base_dir" and "bloom_crate_ok api" and "txs_fit txs" and "list_all fst txs"
  shows "fst (KV2_get crc api no_faults key k) = Inr (kv_contents (map snd txs) key)"
  by (rule kv_run_reads [OF assms(1-4)]) (use kept_of_all [OF _ assms(5)] in blast)

end
