(* ===== verification/Engine_Api.thy ===== *)
theory Engine_Api
  imports Engine_History
begin

text \<open>
  The interface of an engine, \<open>AsyncKVEngine\<close> (\<open>src/api/api.rs\<close>), and its implementation by \<open>KV2\<close>
  (\<open>src/storage/kv2.rs\<close>). A call takes the state of the engine and returns its result with the new state;
  \<open>None\<close> is a call that does not return. The locales say what a client may rely on: \<open>map_reader\<close> that reads
  answer from a map from keys to values, \<open>map_engine\<close> that a batch changes the map as a whole, with a
  second map that a failed write may have left to a later recovery.
\<close>

section \<open>Calls\<close>

type_synonym ('s, 'a) io = "'s \<Rightarrow> ('a result \<times> 's) option"

definition io_lift :: "'a result \<Rightarrow> ('s, 'a) io" where
  "io_lift r s = Some (r, s)"

definition io_return :: "'a \<Rightarrow> ('s, 'a) io" where
  "io_return x = io_lift (Inr x)"

definition io_fail :: "db_error \<Rightarrow> ('s, 'a) io" where
  "io_fail e = io_lift (Inl (Err e))"

text \<open>\<open>c.await?\<close> followed by the rest.\<close>

definition io_bind :: "('s, 'a) io \<Rightarrow> ('a \<Rightarrow> ('s, 'b) io) \<Rightarrow> ('s, 'b) io" where
  "io_bind c f s = (case c s of None \<Rightarrow> None | Some (Inl e, s') \<Rightarrow> Some (Inl e, s') | Some (Inr x, s') \<Rightarrow> f x s')"

text \<open>\<open>for x in xs\<close>, with what the loop assigns as the accumulator.\<close>

fun io_fold :: "('x \<Rightarrow> 'a \<Rightarrow> ('s, 'a) io) \<Rightarrow> 'x list \<Rightarrow> 'a \<Rightarrow> ('s, 'a) io" where
  "io_fold f [] a = io_return a"
| "io_fold f (x # xs) a = io_bind (f x a) (io_fold f xs)"

record 's kv_api =
  ka_get :: "bytes \<Rightarrow> ('s, bytes option) io"
  ka_put :: "bytes \<Rightarrow> bytes \<Rightarrow> ('s, unit) io"
  ka_delete :: "bytes \<Rightarrow> ('s, unit) io"
  ka_write_batch :: "batch_operation list \<Rightarrow> ('s, unit) io"
  ka_await_pending_writes :: "('s, unit) io"
  ka_scan :: "key_range \<Rightarrow> ('s, (bytes \<times> bytes) list) io"

definition unsupported_batch :: db_error where
  "unsupported_batch = StorageError ''atomic batches are unsupported by this engine''"

text \<open>What an engine gets that does not define the two methods.\<close>

definition default_write_batch :: "batch_operation list \<Rightarrow> ('s, unit) io" where
  "default_write_batch operations = io_fail unsupported_batch"

definition default_await_pending_writes :: "('s, unit) io" where
  "default_await_pending_writes = io_fail (StorageError ''pending-write barriers are unsupported by this engine'')"

section \<open>The engine \<open>KV2\<close>\<close>

text \<open>
  The state carries the number of calls so far, and the file system does in call \<open>i\<close> what \<open>envs i\<close> says.
\<close>

record call_env =
  cl_faults :: faults
  cl_write :: write_env

definition read_call ::
  "(nat \<Rightarrow> call_env) \<Rightarrow> (faults \<Rightarrow> kv2 \<Rightarrow> 'a result \<times> kv2) \<Rightarrow> (kv2 \<times> nat, 'a) io" where
  "read_call envs f s = (case f (cl_faults (envs (snd s))) (fst s) of (r, k) \<Rightarrow> Some (r, (k, Suc (snd s))))"

definition write_call ::
  "(nat \<Rightarrow> call_env) \<Rightarrow> (write_env \<Rightarrow> kv2 \<Rightarrow> ('a result \<times> kv2) option) \<Rightarrow> (kv2 \<times> nat, 'a) io" where
  "write_call envs f s =
     map_option (\<lambda>(r, k). (r, (k, Suc (snd s)))) (f (cl_write (envs (snd s))) (fst s))"

text \<open>
  \<open>WriteComponent::await_pending_writes\<close> waits for the last admitted ticket, and then for the writer
  lock, which nobody holds between calls.
\<close>

definition await_pending_writes :: "write_component \<Rightarrow> unit option" where
  "await_pending_writes w =
     (if await_completed_through (last_admitted_ticket (wc_admission w)) (wc_admission w) then Some () else None)"

definition kv2_api :: "(bytes \<Rightarrow> u32) \<Rightarrow> ('f, f64) bloom_api \<Rightarrow> (nat \<Rightarrow> call_env) \<Rightarrow> (kv2 \<times> nat) kv_api" where
  "kv2_api crc api envs =
     \<lparr>ka_get = (\<lambda>key. read_call envs (\<lambda>faults. KV2_get crc api faults key)),
      ka_put = (\<lambda>key v. write_call envs (\<lambda>env. KV2_put crc api env key v)),
      ka_delete = (\<lambda>key. write_call envs (\<lambda>env. KV2_delete crc api env key)),
      ka_write_batch = (\<lambda>operations. write_call envs (\<lambda>env. KV2_write_batch crc api env operations)),
      ka_await_pending_writes =
        write_call envs (\<lambda>_ k. map_option (\<lambda>u. (Inr u, k)) (await_pending_writes (kv_writer k))),
      ka_scan = (\<lambda>rng. read_call envs (\<lambda>faults. KV2_scan crc api faults rng))\<rparr>"

section \<open>The contract\<close>

lemma io_bind_simps [simp]:
  "io_bind (io_return x) f = f x" "io_bind (io_lift (Inr x)) f = f x" "io_bind (io_lift (Inl e)) f = io_lift (Inl e)"
  "io_bind (io_fail e') f = io_fail e'"
  by (simp_all add: io_bind_def io_return_def io_fail_def io_lift_def fun_eq_iff)

lemma io_bind_assoc: "io_bind (io_bind c f) g = io_bind c (\<lambda>x. io_bind (f x) g)"
  by (auto simp: io_bind_def fun_eq_iff split: option.split sum.split prod.split)

lemma io_bind_return [simp]: "io_bind c io_return = c"
  by (auto simp: io_bind_def io_return_def io_lift_def fun_eq_iff split: option.split sum.split prod.split)

lemma io_bind_unit [simp]: "io_bind c (\<lambda>_. io_return ()) = c"
  using io_bind_return [of c] by (simp add: io_bind_def fun_eq_iff old.unit.exhaust split: option.split sum.split prod.split)

fun rfold :: "('x \<Rightarrow> 'a \<Rightarrow> 'a result) \<Rightarrow> 'x list \<Rightarrow> 'a \<Rightarrow> 'a result" where
  "rfold f [] a = Inr a"
| "rfold f (x # xs) a = rbind (f x a) (rfold f xs)"

definition apply_batch :: "batch_operation list \<Rightarrow> (bytes \<rightharpoonup> bytes) \<Rightarrow> (bytes \<rightharpoonup> bytes)" where
  "apply_batch operations m = fold apply_operation operations m"

definition range_entries :: "key_range \<Rightarrow> (bytes \<rightharpoonup> bytes) \<Rightarrow> (bytes \<times> bytes) list" where
  "range_entries rng m = map (\<lambda>key. (key, the (m key))) (sorted_list_of_set {key \<in> dom m. key_in_range key rng})"

text \<open>
  \<open>rep n s m alt\<close>: the engine holds \<open>m\<close>, a recovery would find \<open>alt\<close>, and \<open>n\<close> more writes fit into
  it. Reads return what the map gives, or fail where \<open>faulty\<close>.
\<close>

locale map_reader =
  fixes eng :: "'s kv_api" and rep :: "nat \<Rightarrow> 's \<Rightarrow> (bytes \<rightharpoonup> bytes) \<Rightarrow> (bytes \<rightharpoonup> bytes) \<Rightarrow> bool" and faulty :: bool
  assumes rep_finite: "rep n s m alt \<Longrightarrow> finite (dom m)"
    and get_law: "rep n s m alt \<Longrightarrow>
      \<exists>r s'. ka_get eng key s = Some (r, s') \<and> rep n s' m alt \<and> (r = Inr (m key) \<or> faulty \<and> \<not> is_ok r)"
    and scan_law: "rep n s m alt \<Longrightarrow>
      \<exists>r s'. ka_scan eng rng s = Some (r, s') \<and> rep n s' m alt \<and> (r = Inr (range_entries rng m) \<or> faulty \<and> \<not> is_ok r)"
    and await_law: "rep n s m alt \<Longrightarrow> \<exists>s'. ka_await_pending_writes eng s = Some (Inr (), s') \<and> rep n s' m alt"
begin

text \<open>A computation that only reads, and what it returns when no read fails.\<close>

definition computes :: "(bytes \<rightharpoonup> bytes) \<Rightarrow> ('s, 'a) io \<Rightarrow> 'a result \<Rightarrow> bool" where
  "computes m c v \<longleftrightarrow>
     (\<forall>n s alt. rep n s m alt \<longrightarrow> (\<exists>r s'. c s = Some (r, s') \<and> rep n s' m alt \<and> (r = v \<or> faulty \<and> \<not> is_ok r)))"

text \<open>A computation that reads, then writes \<open>operations\<close> and returns \<open>x\<close>.\<close>

definition plans :: "(bytes \<rightharpoonup> bytes) \<Rightarrow> ('s, 'a) io \<Rightarrow> batch_operation list \<Rightarrow> 'a \<Rightarrow> bool" where
  "plans m c operations x \<longleftrightarrow>
     (\<forall>n s alt. rep n s m alt \<longrightarrow>
        (\<exists>s'. rep n s' m alt \<and> c s = io_bind (ka_write_batch eng operations) (\<lambda>_. io_return x) s')
        \<or> faulty \<and> (\<exists>e s'. c s = Some (Inl e, s') \<and> rep n s' m alt))"

lemma computesI:
  "(\<And>n s alt. rep n s m alt \<Longrightarrow> \<exists>r s'. c s = Some (r, s') \<and> rep n s' m alt \<and> (r = v \<or> faulty \<and> \<not> is_ok r)) \<Longrightarrow> computes m c v"
  by (simp add: computes_def)

lemma computesE:
  assumes "computes m c v" and "rep n s m alt"
  obtains r s' where "c s = Some (r, s')" "rep n s' m alt" "r = v \<or> faulty \<and> \<not> is_ok r"
  using assms unfolding computes_def by blast

lemma computes_lift [intro]: "computes m (io_lift v) v"
  by (rule computesI) (simp add: io_lift_def)

lemma computes_return [intro]: "computes m (io_return x) (Inr x)"
  unfolding io_return_def by (rule computes_lift)

lemma computes_fail [intro]: "computes m (io_fail e) (Inl (Err e))"
  unfolding io_fail_def by (rule computes_lift)

lemma computes_get: "computes m (ka_get eng key) (Inr (m key))"
  by (rule computesI) (rule get_law)

lemma computes_scan: "computes m (ka_scan eng rng) (Inr (range_entries rng m))"
  by (rule computesI) (rule scan_law)

lemma computes_await: "computes m (ka_await_pending_writes eng) (Inr ())"
  by (rule computesI) (use await_law in blast)

lemma computes_bind:
  assumes "computes m c v" and "\<And>x. v = Inr x \<Longrightarrow> computes m (f x) (g x)"
  shows "computes m (io_bind c f) (rbind v g)"
proof (rule computesI)
  fix n s alt assume "rep n s m alt"
  with assms(1) obtain r s' where r: "c s = Some (r, s')" "rep n s' m alt" "r = v \<or> faulty \<and> \<not> is_ok r" by (rule computesE)
  show "\<exists>r s'. io_bind c f s = Some (r, s') \<and> rep n s' m alt \<and> (r = rbind v g \<or> faulty \<and> \<not> is_ok r)"
  proof (cases r)
    case (Inl e)
    with r show ?thesis by (auto simp: io_bind_def)
  next
    case (Inr x)
    with r have v: "v = Inr x" by auto
    from assms(2) [OF v] r(2) obtain r' s'' where "f x s' = Some (r', s'')" "rep n s'' m alt" "r' = g x \<or> faulty \<and> \<not> is_ok r'" by (rule computesE)
    with r Inr v show ?thesis by (auto simp: io_bind_def)
  qed
qed

lemma computes_bind_Inr:
  "computes m c (Inr x) \<Longrightarrow> computes m (f x) w \<Longrightarrow> computes m (io_bind c f) w"
  using computes_bind [of m c "Inr x" f "\<lambda>_. w"] by simp

lemma computes_bind_Inl: "computes m c (Inl e) \<Longrightarrow> computes m (io_bind c f) (Inl e)"
  using computes_bind [of m c "Inl e" f] by simp

lemma computes_fold:
  assumes "\<And>x a. x \<in> set xs \<Longrightarrow> computes m (f x a) (g x a)"
  shows "computes m (io_fold f xs a) (rfold g xs a)"
  using assms
proof (induction xs arbitrary: a)
  case Nil
  show ?case by (simp add: computes_return)
next
  case (Cons x xs)
  have "computes m (f x a) (g x a)" by (rule Cons.prems) simp
  moreover have "computes m (io_fold f xs b) (rfold g xs b)" for b by (rule Cons.IH) (simp add: Cons.prems)
  ultimately show ?case by (simp add: computes_bind)
qed

lemma plans_write: "plans m (ka_write_batch eng operations) operations ()"
  unfolding plans_def by auto

lemma plans_write_return: "plans m (io_bind (ka_write_batch eng operations) (\<lambda>_. io_return x)) operations x"
  unfolding plans_def by blast

lemma plans_bind:
  assumes "computes m c (Inr x)" and "plans m (f x) operations y"
  shows "plans m (io_bind c f) operations y"
  unfolding plans_def
proof (intro allI impI)
  fix n s alt assume "rep n s m alt"
  with assms(1) obtain r s' where r: "c s = Some (r, s')" "rep n s' m alt" "r = Inr x \<or> faulty \<and> \<not> is_ok r" by (rule computesE)
  show "(\<exists>s'. rep n s' m alt \<and> io_bind c f s = io_bind (ka_write_batch eng operations) (\<lambda>_. io_return y) s')
        \<or> faulty \<and> (\<exists>e s'. io_bind c f s = Some (Inl e, s') \<and> rep n s' m alt)"
  proof (cases r)
    case (Inl e)
    with r show ?thesis by (auto simp: io_bind_def)
  next
    case (Inr z)
    with r have "io_bind c f s = f x s'" by (simp add: io_bind_def)
    with assms(2) r(2) show ?thesis unfolding plans_def by metis
  qed
qed

end

text \<open>An engine whose writes happen as a whole, or fail and may still be found by a recovery.\<close>

locale map_engine = map_reader +
  assumes rep_Suc: "rep (Suc n) s m alt \<Longrightarrow> rep n s m alt"
    and write_law: "rep (Suc n) s m alt \<Longrightarrow> operations \<noteq> [] \<Longrightarrow>
      \<exists>r s'. ka_write_batch eng operations s = Some (r, s')
         \<and> (rep n s' (apply_batch operations m) (apply_batch operations m)
            \<or> \<not> is_ok r \<and> (rep n s' m alt \<or> rep n s' m (apply_batch operations m)))"
    and put_law: "ka_put eng key v = ka_write_batch eng [Batch_Put key v]"
    and delete_law: "ka_delete eng key = ka_write_batch eng [Batch_Delete key]"
begin

text \<open>What a plan leaves, and what it returns.\<close>

lemma plans_outcome:
  assumes "plans m c operations x" and "rep (Suc n) s m alt" and "operations \<noteq> []"
  shows "\<exists>r s'. c s = Some (r, s') \<and> (is_ok r \<longrightarrow> r = Inr x)
     \<and> (rep n s' (apply_batch operations m) (apply_batch operations m)
        \<or> \<not> is_ok r \<and> (rep n s' m alt \<or> rep n s' m (apply_batch operations m)))"
proof -
  from assms(1,2) consider s1 where "rep (Suc n) s1 m alt" "c s = io_bind (ka_write_batch eng operations) (\<lambda>_. io_return x) s1"
    | e s1 where "c s = Some (Inl e, s1)" "rep (Suc n) s1 m alt" unfolding plans_def by blast
  then show ?thesis
  proof cases
    case 1
    from write_law [OF 1(1) assms(3)] obtain r s' where w: "ka_write_batch eng operations s1 = Some (r, s')"
      "rep n s' (apply_batch operations m) (apply_batch operations m)
         \<or> \<not> is_ok r \<and> (rep n s' m alt \<or> rep n s' m (apply_batch operations m))" by blast
    then show ?thesis unfolding 1(2) io_bind_def by (cases r) (auto simp: io_return_def io_lift_def)
  next
    case 2
    then show ?thesis using rep_Suc by auto
  qed
qed

end

end
