(* ===== verification/Write_Commits.thy ===== *)
theory Write_Commits
  imports Write_History
begin

text \<open>
  A batch that passes \<open>validate_batch\<close> is committed when the file system does its part: the size that
  is checked is the size the log will write, so no limit of the log can refuse it afterwards.
\<close>

section \<open>Planning\<close>

definition command_frame :: "log_command \<Rightarrow> nat" where
  "command_frame c = 62 + length (lc_key c) + length (lc_value c)"

lemma plan_update_fit:
  assumes c: "command_ok c" and size: "pl_group_size p + command_frame c \<le> MAX_GROUP_ENCODED_SIZE" and lsn: "unat (pl_next_lsn p) + 1 < 2 ^ 64"
  shows "\<exists>p'. plan_update crc col tid so c p = Inr p' \<and> pl_next_lsn p' = pl_next_lsn p + 1
    \<and> pl_group_size p' = pl_group_size p + command_frame c \<and> length (pl_bytes p') = length (pl_bytes p) + command_frame c"
proof -
  let ?f = "\<lparr>fr_lsn = pl_next_lsn p, fr_transaction_id = tid, fr_previous_lsn = pl_previous_lsn p, fr_record = Update c\<rparr>"
  have f: "frame_ok ?f" using c by (simp add: frame_ok_def)
  have len: "length (frame_bytes crc ?f) = command_frame c"
    by (simp add: length_frame_bytes length_frame_body command_frame_def wal_sizes)
  have "length (lc_key c) < 2 ^ 32" "command_frame c < 2 ^ 32" "lc_record_type c = Delete \<longrightarrow> lc_value c = []"
    using c by (auto simp: command_ok_def command_frame_def wal_sizes)
  then have guards: "guard_err (2 ^ 32 \<le> length (lc_key c)) e = Inr ()" "guard_err (2 ^ 32 \<le> command_frame c) e = Inr ()"
    "guard_err (lc_record_type c = Delete \<and> lc_value c \<noteq> []) e = Inr ()"
    "guard_err (usize_max < pl_group_size p + command_frame c) e = Inr ()"
    "guard_err (MAX_GROUP_ENCODED_SIZE < pl_group_size p + command_frame c) e = Inr ()" for e
    using size by (auto simp: wal_sizes size_bounds)
  have add: "checked_add (pl_next_lsn p) 1 = Some (pl_next_lsn p + 1)" using lsn by (simp add: checked_add_def)
  show ?thesis unfolding plan_update_def encode_frame_ok [OF f] by (simp add: guards [simplified] guards Let_def add len)
qed

lemma plan_updates_fit:
  assumes "list_all command_ok cs" and "pl_group_size p + sum_list (map command_frame cs) \<le> MAX_GROUP_ENCODED_SIZE"
    and "unat (pl_next_lsn p) + length cs < 2 ^ 64"
  shows "\<exists>p'. plan_updates crc col tid so cs p = Inr p' \<and> pl_next_lsn p' = pl_next_lsn p + of_nat (length cs)
    \<and> pl_group_size p' = pl_group_size p + sum_list (map command_frame cs)
    \<and> length (pl_bytes p') = length (pl_bytes p) + sum_list (map command_frame cs)"
  using assms
proof (induction cs arbitrary: p)
  case (Cons c cs)
  from Cons.prems plan_update_fit [of c p crc col tid so] obtain p1 where
    p1: "plan_update crc col tid so c p = Inr p1" "pl_next_lsn p1 = pl_next_lsn p + 1"
      "pl_group_size p1 = pl_group_size p + command_frame c" "length (pl_bytes p1) = length (pl_bytes p) + command_frame c" by auto
  have "checked_add (pl_next_lsn p) 1 = Some (pl_next_lsn p + 1)" using Cons.prems(3) by (simp add: checked_add_def)
  from checked_add_one_Some(1) [OF this] have "unat (pl_next_lsn p1) = Suc (unat (pl_next_lsn p))" by (simp add: p1(2))
  with Cons.IH [of p1] Cons.prems p1(3) obtain p' where "plan_updates crc col tid so cs p1 = Inr p'"
    "pl_next_lsn p' = pl_next_lsn p1 + of_nat (length cs)" "pl_group_size p' = pl_group_size p1 + sum_list (map command_frame cs)"
    "length (pl_bytes p') = length (pl_bytes p1) + sum_list (map command_frame cs)" by auto
  with p1 show ?case by simp
qed simp

lemma plan_transaction_fit:
  assumes ok: "list_all command_ok cs" and ne: "cs \<noteq> []" and size: "37 + sum_list (map command_frame cs) \<le> MAX_GROUP_ENCODED_SIZE"
    and lsn: "unat lsn + length cs + 1 < 2 ^ 64"
  shows "\<exists>bytes'. plan_transaction crc False cs (bytes, lsn, planned) = Inr (bytes', lsn + of_nat (length cs) + 1, planned)
    \<and> length bytes' = length bytes + 37 + sum_list (map command_frame cs)"
proof -
  let ?p = "\<lparr>pl_bytes = bytes, pl_next_lsn = lsn, pl_previous_lsn = 0, pl_group_size = 0, pl_updates = []\<rparr>"
  from plan_updates_fit [OF ok, of ?p crc False lsn "of_nat (length bytes)"] size lsn obtain p where
    p: "plan_updates crc False lsn (of_nat (length bytes)) cs ?p = Inr p" "pl_next_lsn p = lsn + of_nat (length cs)"
      "pl_group_size p = sum_list (map command_frame cs)" "length (pl_bytes p) = length bytes + sum_list (map command_frame cs)" by auto
  have f: "frame_ok \<lparr>fr_lsn = l, fr_transaction_id = t, fr_previous_lsn = v, fr_record = Commit\<rparr>" for l t v by (simp add: frame_ok_def)
  have len: "length (frame_bytes crc \<lparr>fr_lsn = l, fr_transaction_id = t, fr_previous_lsn = v, fr_record = Commit\<rparr>) = 37" for l t v
    by (simp add: length_frame_bytes length_frame_body wal_sizes)
  have "unat (of_nat (length cs) :: u64) = length cs" by (rule unat_of_nat_64) (use lsn in simp)
  then have "unat (lsn + of_nat (length cs)) = unat lsn + length cs" using lsn by (simp add: unat_word_ariths)
  then have add: "checked_add (lsn + of_nat (length cs)) 1 = Some (lsn + of_nat (length cs) + 1)" using lsn by (simp add: checked_add_def)
  have guards: "guard_err (usize_max < sum_list (map command_frame cs) + 37) e = Inr ()"
    "guard_err (MAX_GROUP_ENCODED_SIZE < sum_list (map command_frame cs) + 37) e = Inr ()" for e
    using size by (auto simp: wal_sizes size_bounds)
  show ?thesis
    unfolding plan_transaction_def by (simp add: ne p encode_frame_ok [OF f] len guards Let_def add)
qed

section \<open>Validation\<close>

definition operation_frame :: "batch_operation \<Rightarrow> nat" where
  "operation_frame op = 62 + length (fst (operation_fields op)) + length (snd (operation_fields op))"

lemma validate_operations_Inr:
  "validate_operations ops n = Inr m \<Longrightarrow> m = n + sum_list (map operation_frame ops)
     \<and> (ops \<noteq> [] \<longrightarrow> m \<le> MAX_GROUP_ENCODED_SIZE) \<and> (\<forall>op \<in> set ops. operation_frame op \<le> 20 + MAX_FRAME_SIZE)"
proof (induction ops arbitrary: n)
  case (Cons op ops)
  from Cons.prems have step: "operation_frame op \<le> 20 + MAX_FRAME_SIZE" "n + operation_frame op \<le> MAX_GROUP_ENCODED_SIZE"
    and rest: "validate_operations ops (n + operation_frame op) = Inr m"
    by (auto simp: rbind_eq_Inr Let_def operation_frame_def wal_sizes MAX_WAL_FRAME_BYTES_def MAX_WAL_TRANSACTION_BYTES_def
        algebra_simps case_prod_beta)
  from Cons.IH [OF rest] step show ?case by (cases ops) auto
qed simp

lemma build_commands_fit:
  assumes "unat lsn + length ops < 2 ^ 64"
  shows "\<exists>cs. build_commands ops lsn = Some (cs, lsn + of_nat (length ops)) \<and> map command_frame cs = map operation_frame ops"
  using assms
proof (induction ops arbitrary: lsn)
  case (Cons op ops)
  have add: "checked_add lsn 1 = Some (lsn + 1)" using Cons.prems by (simp add: checked_add_def)
  have frame: "command_frame (operation_command op l) = operation_frame op" for l
    by (simp add: command_frame_def operation_frame_def operation_command_def operation_fields_def LogCommand_new_def split: batch_operation.split)
  from Cons.IH [of "lsn + 1"] checked_add_one_Some(1) [OF add] Cons.prems show ?case by (auto simp: add frame algebra_simps)
qed simp

section \<open>Appending and acknowledging\<close>

lemma rotate_ok:
  assumes inv: "wal_inv crc m a" and seg: "unat (ws_segment_id (wm_state m)) + 1 < 2 ^ 64"
  shows "\<exists>m'. rotate_locked crc (RotateIo CreateOk) (set_poisoned True m) = (Inr (), m') \<and> ws_segment_id (wm_state m') = ws_segment_id (wm_state m) + 1"
proof -
  let ?seg = "ws_segment_id (wm_state m)"
  have add: "checked_add ?seg 1 = Some (?seg + 1)" using seg by (simp add: checked_add_def)
  have "\<forall>e \<in> set (wm_dir m). de_id e \<le> ?seg" using inv by (auto simp: wal_inv_def dir_log_def)
  then have "segment_file (wm_dir m) (?seg + 1) = None"
    using checked_add_one_Some(2) [OF add] by (force simp: segment_file_None)
  then show ?thesis by (simp add: rotate_locked_def set_poisoned_def add create_segment_def Let_def)
qed

lemma write_planned_ok:
  "is_ok (fst (write_planned WriteOk bytes lsn [] m))" "ws_next_lsn (wm_state (snd (write_planned WriteOk bytes lsn [] m))) = lsn"
  "ws_segment_id (wm_state (snd (write_planned WriteOk bytes lsn [] m))) = ws_segment_id (wm_state m)"
  by (simp_all add: write_planned_def append_file_def Let_def split: option.split)

lemma append_fit:
  assumes inv: "wal_inv crc m a" and ok: "list_all command_ok cs" and ne: "cs \<noteq> []"
    and size: "37 + sum_list (map command_frame cs) \<le> MAX_GROUP_ENCODED_SIZE"
    and lsn: "unat (ws_next_lsn (wm_state m)) + length cs + 1 < 2 ^ 64" and seg: "unat (ws_segment_id (wm_state m)) + 1 < 2 ^ 64"
    and m': "m' = snd (append_transactions crc (RotateIo CreateOk) WriteOk False [cs] m)"
  shows "is_ok (fst (append_transactions crc (RotateIo CreateOk) WriteOk False [cs] m))"
    "ws_next_lsn (wm_state m') = ws_next_lsn (wm_state m) + of_nat (length cs) + 1"
    "unat (ws_segment_id (wm_state m')) \<le> unat (ws_segment_id (wm_state m)) + 1"
proof -
  from plan_transaction_fit [OF ok ne size lsn, of crc "[]" "[]"] obtain bytes where
    plan: "plan_transaction crc False cs ([], ws_next_lsn (wm_state m), []) = Inr (bytes, ws_next_lsn (wm_state m) + of_nat (length cs) + 1, [])" by auto
  obtain m1 where rot: "rotate_locked crc (RotateIo CreateOk) (set_poisoned True m) = (Inr (), m1)"
    "ws_segment_id (wm_state m1) = ws_segment_id (wm_state m) + 1" using rotate_ok [OF inv seg] by blast
  have "\<not> ws_poisoned (wm_state m)" using inv by (simp add: wal_inv_def)
  then have app: "append_transactions crc (RotateIo CreateOk) WriteOk False [cs] m
      = write_planned WriteOk bytes (ws_next_lsn (wm_state m) + of_nat (length cs) + 1) []
          (if of_nat WAL_HEADER_SIZE < ws_size (wm_state (set_poisoned True m))
              \<and> wm_max_segment_size (set_poisoned True m) < saturating_add (ws_size (wm_state (set_poisoned True m))) (of_nat (length bytes))
           then m1 else set_poisoned True m)"
    by (simp add: append_transactions_def ensure_healthy_def plan rot Let_def wal_sizes)
  obtain m2 where m2: "append_transactions crc (RotateIo CreateOk) WriteOk False [cs] m
      = write_planned WriteOk bytes (ws_next_lsn (wm_state m) + of_nat (length cs) + 1) [] m2" "m2 = m1 \<or> m2 = set_poisoned True m"
    by (rule that [OF app]) (simp split: if_split)
  show "is_ok (fst (append_transactions crc (RotateIo CreateOk) WriteOk False [cs] m))"
    "ws_next_lsn (wm_state m') = ws_next_lsn (wm_state m) + of_nat (length cs) + 1"
    unfolding m' m2(1) by (rule write_planned_ok)+
  have "unat (ws_segment_id (wm_state m) + 1) \<le> unat (ws_segment_id (wm_state m)) + 1" using seg by (simp add: unat_word_ariths)
  with m2(2) rot(2) show "unat (ws_segment_id (wm_state m')) \<le> unat (ws_segment_id (wm_state m)) + 1"
    unfolding m' m2(1) by (auto simp: write_planned_ok set_poisoned_def)
qed

lemma write_batch_ok:
  assumes idle: "queue_idle (wc_admission w)" and ticket: "unat (aq_next_ticket (wc_admission w)) + 1 < 2 ^ 64"
    and mode: "wc_payload_mode w = Inline" and inv: "wal_inv crc wal a" and ne: "operations \<noteq> []"
    and valid: "validate_batch operations = Inr n"
    and sn: "unat (wc_sequence_number w) + length operations < 2 ^ 64"
    and lsn: "unat (ws_next_lsn (wm_state wal)) + length operations + 1 < 2 ^ 64"
    and seg: "unat (ws_segment_id (wm_state wal)) + 1 < 2 ^ 64" and io: "ios 0 = (RotateIo CreateOk, WriteOk)"
  shows "\<exists>cs w' wal'. write_batch crc ios operations w wal = Some (Inr (), w', wal')
     \<and> build_commands operations (wc_sequence_number w) = Some (cs, wc_sequence_number w')
     \<and> wc_memtable w' = insert_commands cs (wc_memtable w)
     \<and> wc_memtable_size w' = wc_memtable_size (append_commands cs w) \<and> wc_config w' = wc_config w \<and> queue_idle (wc_admission w')
     \<and> (\<exists>a'. wal_inv crc wal' a' \<and> an_legacy a' = an_legacy a \<and> committed_commands a' = committed_commands a @ cs)
     \<and> wc_payload_mode w' = Inline \<and> unat (aq_next_ticket (wc_admission w')) = unat (aq_next_ticket (wc_admission w)) + 1
     \<and> unat (ws_next_lsn (wm_state wal')) = unat (ws_next_lsn (wm_state wal)) + length operations + 1
     \<and> unat (ws_segment_id (wm_state wal')) \<le> unat (ws_segment_id (wm_state wal)) + 1"
proof -
  have "checked_add (aq_next_ticket (wc_admission w)) 1 = Some (aq_next_ticket (wc_admission w) + 1)" using ticket by (simp add: checked_add_def)
  from write_batch_admitted [OF idle ne valid this, of crc ios wal] obtain rq q1 r w1 wal' q2 where rq: "rq_operations rq = operations"
    and round: "write_round crc (ios 0) [rq] (w\<lparr>wc_admission := q1\<rparr>) wal = (r, w1, wal')"
    and batch: "write_batch crc ios operations w wal = Some (r, w1\<lparr>wc_admission := q2\<rparr>, wal')" and q2: "queue_idle q2" "aq_next_ticket q2 = aq_next_ticket (wc_admission w) + 1" by blast
  from build_commands_fit [OF sn] obtain cs where cs: "build_commands operations (wc_sequence_number w) = Some (cs, wc_sequence_number w + of_nat (length operations))"
    and frames: "map command_frame cs = map operation_frame operations" by blast
  note size = validate_operations_Inr [OF valid [unfolded validate_batch_def]]
  have csl: "history_ok cs" "length cs = length operations" using build_commands_lsns [OF cs] by simp_all
  have cok: "list_all command_ok cs" unfolding list_all_iff
  proof
    fix c assume c: "c \<in> set cs"
    then have "command_frame c \<in> set (map operation_frame operations)" unfolding frames [symmetric] by simp
    with size have "command_frame c \<le> 20 + MAX_FRAME_SIZE" by auto
    with csl(1) c show "command_ok c" by (simp add: command_ok_def command_frame_def history_ok_def)
  qed
  let ?wal = "if wm_token wal \<noteq> None \<and> wc_checkpoint_owner w = wm_token wal then wal else mark_untracked_mutation wal"
  have inv': "wal_inv crc ?wal a" using inv by simp
  have st: "wm_state ?wal = wm_state wal" by (simp add: mark_untracked_mutation_def)
  obtain q wal1 where app: "append_transactions crc (RotateIo CreateOk) WriteOk False [cs] ?wal = (q, wal1)" by fastforce
  have "cs \<noteq> []" using csl(2) ne by auto
  then have fit: "is_ok q" "ws_next_lsn (wm_state wal1) = ws_next_lsn (wm_state wal) + of_nat (length cs) + 1"
    "unat (ws_segment_id (wm_state wal1)) \<le> unat (ws_segment_id (wm_state wal)) + 1"
    using append_fit [OF inv' cok _ _ _ _ refl] size ne frames lsn seg csl(2) app unfolding st by simp_all
  from fit(1) append_transactions_leaves [OF inv' app] obtain a' where a': "wal_inv crc wal1 a'" "an_legacy a' = an_legacy a"
    "committed_commands a' = committed_commands a @ cs" by (auto simp: append_leaves_def)
  have out: "(r, w1, wal') = (Inr (), (append_commands cs (w\<lparr>wc_admission := q1\<rparr>))\<lparr>wc_sequence_number := wc_sequence_number w + of_nat (length operations)\<rparr>, wal1)"
    using write_round_inline [of "w\<lparr>wc_admission := q1\<rparr>" "[rq]" "[cs]"] mode cs rq round io app fit(1)
    by (cases q) (simp_all split del: if_split)
  have "unat (aq_next_ticket q2) = unat (aq_next_ticket (wc_admission w)) + 1"
    unfolding q2(2) using unat_add_lem [of "aq_next_ticket (wc_admission w)" 1] ticket by simp
  moreover have "unat (ws_next_lsn (wm_state wal1)) = unat (ws_next_lsn (wm_state wal)) + length operations + 1"
    unfolding fit(2) csl(2) using lsn by (simp add: unat_word_ariths unat_of_nat)
  ultimately show ?thesis using batch q2(1) cs a' mode out fit(3) append_commands_size [of "w\<lparr>wc_admission := q1\<rparr>" w cs]
    by (intro exI [of _ cs] exI [of _ "w1\<lparr>wc_admission := q2\<rparr>"] exI [of _ wal1]) auto
qed

text \<open>
  C7: a batch that passes validation is committed. On an idle queue and a healthy log, when the sequence
  numbers, tickets and segment ids are not exhausted and the file system writes and syncs, a valid batch
  is acknowledged: its commands get the next sequence numbers, they are in the memtable, and reading
  the log back returns them after everything that was committed before. No limit of the log refuses a
  batch that \<open>validate_batch\<close> let through.
\<close>

theorem valid_batch_committed:
  assumes "queue_idle (wc_admission w)" and "unat (aq_next_ticket (wc_admission w)) + 1 < 2 ^ 64"
    and "wc_payload_mode w = Inline" and "wal_inv crc wal a" and "an_legacy a = []"
    and "operations \<noteq> []" and "validate_batch operations = Inr n"
    and "unat (wc_sequence_number w) + length operations < 2 ^ 64"
    and "unat (ws_next_lsn (wm_state wal)) + length operations + 1 < 2 ^ 64"
    and "unat (ws_segment_id (wm_state wal)) + 1 < 2 ^ 64" and "ios 0 = (RotateIo CreateOk, WriteOk)"
  shows "\<exists>cs w' wal'. write_batch crc ios operations w wal = Some (Inr (), w', wal')
     \<and> build_commands operations (wc_sequence_number w) = Some (cs, wc_sequence_number w')
     \<and> wc_memtable w' = insert_commands cs (wc_memtable w)
     \<and> recover_commands crc wal' = Inr (committed_commands a @ cs)"
proof -
  from write_batch_ok [where ios = ios, OF assms(1-4,6-11)] obtain cs w' wal' a' where
    "write_batch crc ios operations w wal = Some (Inr (), w', wal')"
    "build_commands operations (wc_sequence_number w) = Some (cs, wc_sequence_number w')"
    "wc_memtable w' = insert_commands cs (wc_memtable w)" "wal_inv crc wal' a'" "an_legacy a' = an_legacy a"
    "committed_commands a' = committed_commands a @ cs" by blast
  with recover_commands_inv [of crc wal' a'] assms(5) show ?thesis by auto
qed

definition sample_writer :: write_component where
  "sample_writer = fst (WriteComponent_new 1 [] 0 StorageConfig_default sample_wal)"

lemma sample_writer_state:
  "wc_payload_mode sample_writer = Inline" "wc_sequence_number sample_writer = 0" "queue_idle (wc_admission sample_writer)"
  "aq_next_ticket (wc_admission sample_writer) = 0" "ws_segment_id (wm_state sample_wal) = 0"
  "wal_inv (\<lambda>_. 0) sample_wal Analysis_default"
  using wal_created [OF sample_wal_new] queue_idle_new
  by (simp_all add: sample_writer_def WriteComponent_new_def with_payload_mode_def case_prod_beta AdmissionQueue_new_def sample_wal_def
      new_inner_def segment_paths_def checkpoint_analysis_def Let_def create_segment_def segment_file_Cons LEGACY_WAL_VERSION_def WAL_VERSION_def)

lemma sample_valid: "validate_batch [Batch_Put [0x61] [0x62]] = Inr 101"
  by (simp add: validate_batch_def operation_fields_def size_bounds MAX_WAL_FRAME_BYTES_def MAX_WAL_TRANSACTION_BYTES_def)

theorem valid_batch_committed_witness:
  "\<exists>w' wal'. write_batch (\<lambda>_. 0) (\<lambda>_. (RotateIo CreateOk, WriteOk)) [Batch_Put [0x61] [0x62]] sample_writer sample_wal
       = Some (Inr (), w', wal')
     \<and> recover_commands (\<lambda>_. 0) wal' = Inr [LogCommand_new Put [0x61] [0x62] 1]"
proof -
  from valid_batch_committed [of sample_writer "\<lambda>_. 0" sample_wal Analysis_default "[Batch_Put [0x61] [0x62]]" 101
      "\<lambda>_. (RotateIo CreateOk, WriteOk)"]
  show ?thesis
    by (auto simp: sample_writer_state sample_valid sample_wal_state operation_command_def checked_add_def)
qed

end
