(* ===== verification/Engine_Map.thy ===== *)
theory Engine_Map
  imports Engine_Api Write_Commits
begin

text \<open>
  \<open>KV2\<close> satisfies the contract of an engine, with any faults of the file system: a read that succeeds
  returns what it returns without faults, and a batch is applied as a whole or fails.
\<close>

section \<open>A read that succeeds despite faults\<close>

text \<open>\<open>f open_file\<close> ok_agrees with \<open>f real\<close> where it succeeds.\<close>

definition ok_agrees :: "'a result \<times> 'b \<Rightarrow> 'a result \<times> 'b \<Rightarrow> bool" where
  "ok_agrees q q' \<longleftrightarrow> (is_ok (fst q) \<longrightarrow> q' = q)"

lemma agrees_refl [intro]: "ok_agrees q q"
  by (simp add: ok_agrees_def)

lemma agrees_Inl [intro]: "ok_agrees (Inl e, s) q"
  by (simp add: ok_agrees_def)

lemma get_or_open_file_agrees:
  assumes "opens_as open_file real"
  shows "ok_agrees (get_or_open_file open_file p mm) (get_or_open_file real p mm)"
proof -
  have "real p = open_file p" if "is_ok (open_file p)"
    using assms that by (cases "open_file p") (auto simp: opens_as_def)
  then show ?thesis
    by (cases "open_file p") (auto simp: ok_agrees_def get_or_open_file_def get_or_open_def Let_def case_prod_beta split: option.split if_split)
qed

lemma agrees_case:
  assumes "ok_agrees q q'" and "\<And>x s. ok_agrees (f x s) (f' x s)"
  shows "ok_agrees (case q of (Inl e, s) \<Rightarrow> (Inl e, s) | (Inr x, s) \<Rightarrow> f x s) (case q' of (Inl e, s) \<Rightarrow> (Inl e, s) | (Inr x, s) \<Rightarrow> f' x s)"
proof (cases q)
  case (Pair r s)
  then show ?thesis using assms by (cases r) (auto simp: ok_agrees_def)
qed

lemma agrees_case_update:
  assumes "ok_agrees q q'" and "\<And>x s. ok_agrees (f x s) (f' x s)"
  shows "ok_agrees (case q of (Inl e, s) \<Rightarrow> (Inl e, h s) | (Inr x, s) \<Rightarrow> f x s) (case q' of (Inl e, s) \<Rightarrow> (Inl e, h s) | (Inr x, s) \<Rightarrow> f' x s)"
proof (cases q)
  case (Pair r s)
  then show ?thesis using assms by (cases r) (auto simp: ok_agrees_def)
qed

lemma agrees_if: "ok_agrees x x' \<Longrightarrow> ok_agrees y y' \<Longrightarrow> ok_agrees (if b then x else y) (if b then x' else y')"
  by simp

lemma agrees_apfst: "ok_agrees q q' \<Longrightarrow> ok_agrees (apfst (map_sum id h) q) (apfst (map_sum id h) q')"
  by (cases q; cases "fst q") (auto simp: ok_agrees_def)

lemma agrees_snd: "ok_agrees q q' \<Longrightarrow> ok_agrees (case q of (r, s) \<Rightarrow> (r, h s)) (case q' of (r, s) \<Rightarrow> (r, h s))"
  by (cases q) (auto simp: ok_agrees_def)

lemma get_from_single_sstable_agrees:
  "opens_as open_file real \<Longrightarrow>
   ok_agrees (get_from_single_sstable crc api open_file t key n mm) (get_from_single_sstable crc api real t key n mm)"
  unfolding get_from_single_sstable_def by (intro agrees_case get_or_open_file_agrees agrees_refl)

lemma best_of_level0_agrees:
  assumes "opens_as open_file real"
  shows "ok_agrees (best_of_level0 crc api open_file ts key n best mm) (best_of_level0 crc api real ts key n best mm)"
proof (induction ts arbitrary: best mm)
  case Nil
  show ?case by (simp add: agrees_refl)
next
  case (Cons t ts)
  show ?case unfolding best_of_level0.simps by (intro agrees_case get_from_single_sstable_agrees assms Cons.IH)
qed

text \<open>The loops that stop at the first record.\<close>

lemma agrees_found:
  assumes "ok_agrees q q'" and "\<And>s. ok_agrees (f s) (f' s)"
  shows "ok_agrees (case q of (Inl e, s) \<Rightarrow> (Inl e, s) | (Inr (Some x), s) \<Rightarrow> g x s | (Inr None, s) \<Rightarrow> f s)
     (case q' of (Inl e, s) \<Rightarrow> (Inl e, s) | (Inr (Some x), s) \<Rightarrow> g x s | (Inr None, s) \<Rightarrow> f' s)"
proof (cases q)
  case (Pair r s)
  then show ?thesis using assms by (cases r) (auto simp: ok_agrees_def split: option.split)
qed

lemma first_of_level_agrees:
  assumes "opens_as open_file real"
  shows "ok_agrees (first_of_level crc api open_file ts key n mm) (first_of_level crc api real ts key n mm)"
proof (induction ts arbitrary: mm)
  case Nil
  show ?case by (simp add: agrees_refl)
next
  case (Cons t ts)
  show ?case
    unfolding first_of_level.simps by (intro agrees_found get_from_single_sstable_agrees assms Cons.IH)
qed

lemma get_from_levels_agrees:
  assumes "opens_as open_file real"
  shows "ok_agrees (get_from_levels crc api open_file ls key n mm) (get_from_levels crc api real ls key n mm)"
proof (induction ls arbitrary: mm)
  case Nil
  show ?case by (simp add: agrees_refl)
next
  case (Cons l ls)
  obtain level files where l: "l = (level, files)" by fastforce
  have "ok_agrees (if level = 0 then best_of_level0 crc api open_file files key n None mm else first_of_level crc api open_file (rev files) key n mm)
     (if level = 0 then best_of_level0 crc api real files key n None mm else first_of_level crc api real (rev files) key n mm)"
    by (intro agrees_if best_of_level0_agrees first_of_level_agrees assms)
  then show ?case unfolding l get_from_levels.simps by (intro agrees_found Cons.IH)
qed

lemma ReadManager_get_agrees:
  "opens_as open_file real \<Longrightarrow> ok_agrees (ReadManager_get crc api open_file key n rm) (ReadManager_get crc api real key n rm)"
  unfolding ReadManager_get_def Let_def get_from_sstable_def by (intro agrees_if agrees_refl agrees_snd get_from_levels_agrees)

lemma scan_single_sstable_agrees:
  "opens_as open_file real \<Longrightarrow>
   ok_agrees (scan_single_sstable crc api open_file t rng n merged mm) (scan_single_sstable crc api real t rng n merged mm)"
  unfolding scan_single_sstable_def by (intro agrees_if agrees_case get_or_open_file_agrees agrees_refl)

lemma scan_sstables_agrees:
  assumes "opens_as open_file real"
  shows "ok_agrees (scan_sstables crc api open_file ts rng n merged mm) (scan_sstables crc api real ts rng n merged mm)"
proof (induction ts arbitrary: merged mm)
  case Nil
  show ?case by (simp add: agrees_refl)
next
  case (Cons t ts)
  show ?case unfolding scan_sstables.simps by (intro agrees_case scan_single_sstable_agrees assms Cons.IH)
qed

lemma scan_range_agrees:
  "opens_as open_file real \<Longrightarrow> ok_agrees (scan_range crc api open_file rng n rm) (scan_range crc api real rng n rm)"
  unfolding scan_range_def scan_records_range_def Let_def
  by (intro agrees_apfst agrees_case_update scan_sstables_agrees agrees_refl)

section \<open>Reads of the engine\<close>

lemma kv_get_faults:
  assumes "kv_inv crc api H extra k"
  shows "fst (KV2_get crc api faults key k) = Inr (kv_map H key) \<or> faults \<noteq> no_faults \<and> \<not> is_ok (fst (KV2_get crc api faults key k))"
proof -
  have "ok_agrees (KV2_get crc api faults key k) (KV2_get crc api no_faults key k)"
    unfolding KV2_get_def get_record_def open_path_no_faults by (intro agrees_apfst agrees_snd ReadManager_get_agrees opens_as_path)
  with kv_get_result [OF assms, of key] show ?thesis by (cases "faults = no_faults") (auto simp: ok_agrees_def)
qed

lemma range_entriesI:
  assumes "sorted_wrt (<) (map fst out)" and out: "\<And>key v. (key, v) \<in> set out \<longleftrightarrow> key_in_range key rng \<and> m key = Some v"
  shows "out = range_entries rng m"
proof -
  have keys: "set (map fst out) = {key \<in> dom m. key_in_range key rng}"
    by (auto simp: out image_iff) (metis fst_conv out)+
  have "sorted_list_of_set (set (map fst out)) = map fst out"
    using assms(1) by (intro sorted_list_of_set.idem_if_sorted_distinct) (simp_all add: strict_sorted_iff)
  then have "range_entries rng m = map (\<lambda>key. (key, the (m key))) (map fst out)"
    by (simp only: range_entries_def keys [symmetric])
  also have "\<dots> = map (\<lambda>e. (fst e, the (m (fst e)))) out" by simp
  also have "\<dots> = map (\<lambda>e. e) out"
  proof (rule map_cong)
    fix e assume "e \<in> set out"
    with out [of "fst e" "snd e"] show "(fst e, the (m (fst e))) = e" by (simp add: prod_eq_iff)
  qed simp
  finally show ?thesis by simp
qed

lemma kv_scan_faults:
  assumes "kv_inv crc api H extra k"
  shows "fst (KV2_scan crc api faults rng k) = Inr (range_entries rng (kv_map H))
     \<or> faults \<noteq> no_faults \<and> \<not> is_ok (fst (KV2_scan crc api faults rng k))"
proof -
  have "ok_agrees (KV2_scan crc api faults rng k) (KV2_scan crc api no_faults rng k)"
    unfolding KV2_scan_def open_path_no_faults by (intro agrees_snd scan_range_agrees opens_as_path)
  moreover have "fst (KV2_scan crc api no_faults rng k) = Inr (range_entries rng (kv_map H))"
    using kv_scan_result [OF assms, of rng]
  proof (elim exE conjE)
    fix out assume out: "fst (KV2_scan crc api no_faults rng k) = Inr out" "sorted_wrt (<) (map fst out)"
      "\<forall>key v. (key, v) \<in> set out \<longleftrightarrow> key_in_range key rng \<and> kv_map H key = Some v"
    have "out = range_entries rng (kv_map H)" by (rule range_entriesI [OF out(2)]) (simp add: out(3))
    with out(1) show ?thesis by simp
  qed
  ultimately show ?thesis by (cases "faults = no_faults") (auto simp: ok_agrees_def)
qed

section \<open>Batches\<close>

text \<open>The history fits into tables, with room for \<open>n\<close> more transactions.\<close>

definition history_fits :: "nat \<Rightarrow> log_command list \<Rightarrow> bool" where
  "history_fits n H \<longleftrightarrow> (\<forall>c \<in> set H. rec_len (cmd_record c) < 2 ^ 32)
     \<and> 5 * (sum_list (map (\<lambda>c. rec_len (cmd_record c)) H) + n * MAX_WAL_TRANSACTION_BYTES) < 2 ^ 64"

lemma history_fits_Nil: "5 * n * MAX_WAL_TRANSACTION_BYTES < 2 ^ 64 \<Longrightarrow> history_fits n []"
  by (simp add: history_fits_def)

lemma history_fits_Suc: "history_fits (Suc n) H \<Longrightarrow> history_fits n H"
  by (simp add: history_fits_def)

lemma history_fits_append: "history_fits n (H @ H') \<Longrightarrow> history_fits n H"
  by (simp add: history_fits_def)

lemma history_fits_versions: "history_fits n H \<Longrightarrow> versions_fit (cmd_record ` set H)"
  using sum_image_list [of rec_len "map cmd_record H"] by (auto simp: history_fits_def versions_fit_def comp_def)

lemma history_fits_batch:
  assumes "history_fits (Suc n) H" and "commands_for operations cs" and "validate_batch operations = Inr m" and "operations \<noteq> []"
  shows "history_fits n (H @ cs)"
proof -
  from assms(2) have sizes: "map (\<lambda>c. rec_len (cmd_record c)) cs = map operation_size operations"
    by (auto simp: commands_for_def build_commands_size)
  from validate_operations_Inr [OF assms(3) [unfolded validate_batch_def]] assms(4)
  have v: "sum_list (map operation_frame operations) \<le> MAX_WAL_TRANSACTION_BYTES" "\<forall>op \<in> set operations. operation_frame op < 2 ^ 32"
    by (auto simp: wal_sizes MAX_WAL_TRANSACTION_BYTES_def)
  have le: "operation_size op \<le> operation_frame op" for op
    by (simp add: operation_size_def operation_frame_def operation_fields_def split: batch_operation.split)
  then have "sum_list (map operation_size operations) \<le> sum_list (map operation_frame operations)" by (intro sum_list_mono) simp
  with v(1) have total: "sum_list (map (\<lambda>c. rec_len (cmd_record c)) cs) \<le> MAX_WAL_TRANSACTION_BYTES" by (simp add: sizes)
  have "rec_len (cmd_record c) < 2 ^ 32" if "c \<in> set cs" for c
  proof -
    have "rec_len (cmd_record c) \<in> set (map operation_size operations)" unfolding sizes [symmetric] using that by simp
    then obtain op where "op \<in> set operations" "rec_len (cmd_record c) = operation_size op" by auto
    with v(2) le [of op] show ?thesis by (auto intro: le_less_trans)
  qed
  with total assms(1) show ?thesis by (auto simp: history_fits_def)
qed

lemma kv_map_commands: "commands_for operations cs \<Longrightarrow> kv_map (H @ cs) = apply_batch operations (kv_map H)"
  by (auto simp: commands_for_def kv_map_def apply_batch_def build_commands_apply)

text \<open>A round with one request.\<close>

lemma kv_inv_round:
  assumes inv: "kv_inv crc api H extra k" and idle: "queue_idle q2"
    and round: "write_round crc io [rq] ((kv_writer k)\<lparr>wc_admission := q1\<rparr>) (mg_wal (kv_managers k)) = (r, w, wal)"
  defines "k' \<equiv> k\<lparr>kv_writer := w\<lparr>wc_admission := q2\<rparr>, kv_managers := (kv_managers k)\<lparr>mg_wal := wal\<rparr>\<rparr>"
  shows "if is_ok r then extra = [] \<and> (\<exists>cs. commands_for (rq_operations rq) cs \<and> kv_inv crc api (H @ cs) [] k')
     else \<exists>extra'. kv_inv crc api H extra' k' \<and> (extra' = extra \<or> extra = [] \<and> (extra' = [] \<or> commands_for (rq_operations rq) extra'))"
proof -
  let ?w = "(kv_writer k)\<lparr>wc_admission := q1\<rparr>"
  have core: "core_inv crc api H extra (wc_memtable ?w) (wc_sequence_number ?w) (kv_managers k)" and mode: "wc_payload_mode ?w = Inline"
    using inv by (simp_all add: kv_inv_def)
  note step = write_round_core [OF core mode _ round, simplified]
  show ?thesis
  proof (cases "is_ok r")
    case True
    with step obtain groups where e: "extra = []" and g: "list_all2 commands_for [rq_operations rq] groups"
      and c: "core_inv crc api (H @ concat groups) [] (wc_memtable w) (wc_sequence_number w) ((kv_managers k)\<lparr>mg_wal := wal\<rparr>)"
      and w: "w = (append_commands (concat groups) ?w)\<lparr>wc_sequence_number := wc_sequence_number w\<rparr>" by auto
    have "wc_payload_mode w = Inline" "wc_sstable_dir w = wc_sstable_dir (kv_writer k)" using mode by (subst w, simp)+
    moreover from g obtain cs where "groups = [cs]" "commands_for (rq_operations rq) cs" by (auto simp: list_all2_Cons1)
    ultimately show ?thesis using True inv c idle e by (auto simp: kv_inv_def k'_def)
  next
    case False
    with step obtain extra' where w: "w = ?w"
      and c: "core_inv crc api H extra' (wc_memtable ?w) (wc_sequence_number ?w) ((kv_managers k)\<lparr>mg_wal := wal\<rparr>)"
      and ex: "extra' = extra \<or> extra = [] \<and> (\<exists>groups n. list_all2 commands_for [rq_operations rq] groups \<and> extra' = concat (take n groups))"
      by auto
    have "extra' = extra \<or> extra = [] \<and> (extra' = [] \<or> commands_for (rq_operations rq) extra')"
      using ex by (auto simp: list_all2_Cons1 take_Cons')
    with False inv c idle w show ?thesis by (auto simp: kv_inv_def k'_def)
  qed
qed

text \<open>A batch on the engine.\<close>

lemma kv_inv_batch:
  assumes inv: "kv_inv crc api H extra k" and api: "bloom_crate_ok api" and fit: "history_fits (Suc n) (H @ extra)"
    and ne: "operations \<noteq> []" and clean: "clean_flush (we_flush env)"
  shows "\<exists>r k' H' extra'. KV2_write_batch crc api env operations k = Some (r, k') \<and> kv_inv crc api H' extra' k'
     \<and> history_fits n (H' @ extra')
     \<and> (extra' = [] \<and> kv_map H' = apply_batch operations (kv_map H)
        \<or> \<not> is_ok r \<and> H' = H \<and> (extra' = extra \<or> kv_map (H' @ extra') = apply_batch operations (kv_map H)))"
proof -
  have idle: "queue_idle (wc_admission (kv_writer k))" using inv by (simp add: kv_inv_def)
  show ?thesis
  proof (cases "validate_batch operations")
    case (Inl e)
    then have "KV2_write_batch crc api env operations k = Some (Inl e, k)" using ne by (simp add: KV2_write_batch_def write_batch_def)
    with inv history_fits_Suc [OF fit] show ?thesis by auto
  next
    case (Inr bytes)
    from write_batch_idle [OF idle ne, of crc "we_ios env" "mg_wal (kv_managers k)"] show ?thesis
    proof (elim disjE exE conjE)
      fix e assume "write_batch crc (we_ios env) operations (kv_writer k) (mg_wal (kv_managers k)) = Some (Inl e, kv_writer k, mg_wal (kv_managers k))"
      then have "KV2_write_batch crc api env operations k = Some (Inl e, k)" using ne by (simp add: KV2_write_batch_def)
      with inv history_fits_Suc [OF fit] show ?thesis by auto
    next
      fix rq q1 r1 w wal q2
      assume rq: "rq_operations rq = operations" and idle': "queue_idle q2"
        and round: "write_round crc (we_ios env 0) [rq] ((kv_writer k)\<lparr>wc_admission := q1\<rparr>) (mg_wal (kv_managers k)) = (r1, w, wal)"
        and batch: "write_batch crc (we_ios env) operations (kv_writer k) (mg_wal (kv_managers k)) = Some (r1, w\<lparr>wc_admission := q2\<rparr>, wal)"
      let ?k = "k\<lparr>kv_writer := w\<lparr>wc_admission := q2\<rparr>, kv_managers := (kv_managers k)\<lparr>mg_wal := wal\<rparr>\<rparr>"
      note step = kv_inv_round [OF inv idle' round, unfolded rq]
      show ?thesis
      proof (cases r1)
        case (Inl e)
        with step obtain extra' where e: "kv_inv crc api H extra' ?k"
          "extra' = extra \<or> extra = [] \<and> (extra' = [] \<or> commands_for operations extra')" by auto
        have "history_fits n (H @ extra')"
          using e(2) history_fits_Suc [OF fit] history_fits_batch [OF _ _ Inr ne, of n H extra'] fit by auto
        moreover have "KV2_write_batch crc api env operations k = Some (Inl e, ?k)" using Inl batch ne by (simp add: KV2_write_batch_def)
        moreover have "extra' = extra \<or> kv_map (H @ extra') = apply_batch operations (kv_map H)" using e(2) kv_map_commands by blast
        ultimately show ?thesis using e(1)
          by (intro exI [of _ "Inl e"] exI [of _ ?k] exI [of _ H] exI [of _ extra']) simp
      next
        case (Inr u)
        with step obtain cs where c: "extra = []" "commands_for operations cs" "kv_inv crc api (H @ cs) [] ?k" by auto
        have f: "history_fits n (H @ cs)" using history_fits_batch [OF _ c(2) \<open>validate_batch operations = Inr bytes\<close> ne] fit c(1) by simp
        obtain r k' where m: "maintain_after_commit crc api (we_flush env) ?k = (r, k')" by fastforce
        from maintain_kv_inv [OF c(3) api history_fits_versions [OF f] m] clean have "kv_inv crc api (H @ cs) [] k'" by simp
        moreover have "KV2_write_batch crc api env operations k = Some (r, k')" using Inr batch ne m by (simp add: KV2_write_batch_def)
        ultimately show ?thesis using f kv_map_commands [OF c(2), of H] by (metis append_Nil2)
      qed
    qed
  qed
qed

section \<open>The contract\<close>

definition kv2_holds ::
  "(bytes \<Rightarrow> u32) \<Rightarrow> ('f, f64) bloom_api \<Rightarrow> nat \<Rightarrow> kv2 \<Rightarrow> (bytes \<rightharpoonup> bytes) \<Rightarrow> (bytes \<rightharpoonup> bytes) \<Rightarrow> bool" where
  "kv2_holds crc api n k m alt \<longleftrightarrow>
     (\<exists>H extra. kv_inv crc api H extra k \<and> kv_map H = m \<and> kv_map (H @ extra) = alt \<and> history_fits n (H @ extra))"

text \<open>An append to the manifest happens in full or not at all.\<close>

definition clean_calls :: "(nat \<Rightarrow> call_env) \<Rightarrow> bool" where
  "clean_calls envs \<longleftrightarrow> (\<forall>i. clean_flush (we_flush (cl_write (envs i))))"

definition kv2_rep ::
  "(bytes \<Rightarrow> u32) \<Rightarrow> ('f, f64) bloom_api \<Rightarrow> (nat \<Rightarrow> call_env) \<Rightarrow> nat \<Rightarrow> kv2 \<times> nat \<Rightarrow> (bytes \<rightharpoonup> bytes) \<Rightarrow> (bytes \<rightharpoonup> bytes) \<Rightarrow> bool" where
  "kv2_rep crc api envs n s m alt \<longleftrightarrow> bloom_crate_ok api \<and> clean_calls envs \<and> kv2_holds crc api n (fst s) m alt"

definition read_faults :: "(nat \<Rightarrow> call_env) \<Rightarrow> bool" where
  "read_faults envs \<longleftrightarrow> (\<exists>i. cl_faults (envs i) \<noteq> no_faults)"

lemma finite_kv_map: "finite (dom (kv_map H))"
proof (induction H rule: rev_induct)
  case (snoc c H)
  have "dom (kv_map (H @ [c])) \<subseteq> insert (lc_key c) (dom (kv_map H))" by (auto simp: apply_command_def split: if_splits)
  then show ?case using snoc by (rule finite_subset [OF _ finite.insertI])
qed simp

interpretation kv2_engine: map_engine "kv2_api crc api envs" "kv2_rep crc api envs" "read_faults envs" for crc api envs
proof
  fix n s m alt key v rng operations
  show "finite (dom m)" if "kv2_rep crc api envs n s m alt" for n s m alt
    using that finite_kv_map by (auto simp: kv2_rep_def kv2_holds_def)
  show "kv2_rep crc api envs n s m alt" if "kv2_rep crc api envs (Suc n) s m alt" for n s m alt
    using that history_fits_Suc by (fastforce simp: kv2_rep_def kv2_holds_def)
  show "\<exists>r s'. ka_get (kv2_api crc api envs) key s = Some (r, s') \<and> kv2_rep crc api envs n s' m alt
      \<and> (r = Inr (m key) \<or> read_faults envs \<and> \<not> is_ok r)" if "kv2_rep crc api envs n s m alt" for n s m alt key
    using that kv_inv_get [of crc api _ _ "fst s" "cl_faults (envs (snd s))" key] kv_get_faults [of crc api _ _ "fst s" "cl_faults (envs (snd s))" key]
    by (fastforce simp: kv2_rep_def kv2_holds_def kv2_api_def read_call_def read_faults_def case_prod_beta)
  show "\<exists>r s'. ka_scan (kv2_api crc api envs) rng s = Some (r, s') \<and> kv2_rep crc api envs n s' m alt
      \<and> (r = Inr (range_entries rng m) \<or> read_faults envs \<and> \<not> is_ok r)" if "kv2_rep crc api envs n s m alt" for n s m alt rng
    using that kv_inv_scan [of crc api _ _ "fst s" "cl_faults (envs (snd s))" rng] kv_scan_faults [of crc api _ _ "fst s" "cl_faults (envs (snd s))" rng]
    by (fastforce simp: kv2_rep_def kv2_holds_def kv2_api_def read_call_def read_faults_def case_prod_beta)
  show "\<exists>s'. ka_await_pending_writes (kv2_api crc api envs) s = Some (Inr (), s') \<and> kv2_rep crc api envs n s' m alt"
    if "kv2_rep crc api envs n s m alt" for n s m alt
  proof -
    have "queue_idle (wc_admission (kv_writer (fst s)))" using that by (auto simp: kv2_rep_def kv2_holds_def kv_inv_def)
    then have "await_pending_writes (kv_writer (fst s)) = Some ()"
      by (simp add: await_pending_writes_def queue_idle_def await_completed_through_def last_admitted_ticket_def)
    with that show ?thesis by (simp add: kv2_rep_def kv2_api_def write_call_def)
  qed
  show "\<exists>r s'. ka_write_batch (kv2_api crc api envs) operations s = Some (r, s')
      \<and> (kv2_rep crc api envs n s' (apply_batch operations m) (apply_batch operations m)
         \<or> \<not> is_ok r \<and> (kv2_rep crc api envs n s' m alt \<or> kv2_rep crc api envs n s' m (apply_batch operations m)))"
    if rep: "kv2_rep crc api envs (Suc n) s m alt" and ne: "operations \<noteq> []" for n s m alt operations
  proof -
    from rep obtain H extra where inv: "kv_inv crc api H extra (fst s)" and m: "kv_map H = m" "kv_map (H @ extra) = alt"
      and fit: "history_fits (Suc n) (H @ extra)" and api: "bloom_crate_ok api" and clean: "clean_calls envs"
      by (auto simp: kv2_rep_def kv2_holds_def)
    from clean have "clean_flush (we_flush (cl_write (envs (snd s))))" by (simp add: clean_calls_def)
    from kv_inv_batch [OF inv api fit ne this] obtain r k' H' extra' where
      w: "KV2_write_batch crc api (cl_write (envs (snd s))) operations (fst s) = Some (r, k')" and new: "kv_inv crc api H' extra' k'"
      "history_fits n (H' @ extra')"
      "extra' = [] \<and> kv_map H' = apply_batch operations (kv_map H)
        \<or> \<not> is_ok r \<and> H' = H \<and> (extra' = extra \<or> kv_map (H' @ extra') = apply_batch operations (kv_map H))" by blast
    have "kv2_rep crc api envs n (k', Suc (snd s)) (kv_map H') (kv_map (H' @ extra'))"
      using api clean new(1,2) by (auto simp: kv2_rep_def kv2_holds_def)
    with w new(3) m show ?thesis by (auto simp: kv2_api_def write_call_def)
  qed
  show "ka_put (kv2_api crc api envs) key v = ka_write_batch (kv2_api crc api envs) [Batch_Put key v]" for key v
    by (simp add: kv2_api_def KV2_put_def [abs_def])
  show "ka_delete (kv2_api crc api envs) key = ka_write_batch (kv2_api crc api envs) [Batch_Delete key]" for key
    by (simp add: kv2_api_def KV2_delete_def [abs_def])
qed

text \<open>
  Reads leave the writer and the log as they are: the read laws hold for the engines with a given writer
  and a given log.
\<close>

definition kv2_pinned ::
  "(bytes \<Rightarrow> u32) \<Rightarrow> ('f, f64) bloom_api \<Rightarrow> (nat \<Rightarrow> call_env) \<Rightarrow> write_component \<Rightarrow> wal_manager \<Rightarrow> nat \<Rightarrow> kv2 \<times> nat
    \<Rightarrow> (bytes \<rightharpoonup> bytes) \<Rightarrow> (bytes \<rightharpoonup> bytes) \<Rightarrow> bool" where
  "kv2_pinned crc api envs w wal n s m alt \<longleftrightarrow>
     kv2_rep crc api envs n s m alt \<and> kv_writer (fst s) = w \<and> mg_wal (kv_managers (fst s)) = wal"

lemma reads_keep_writer:
  "kv_writer (snd (KV2_get crc api faults key k)) = kv_writer k" "mg_wal (kv_managers (snd (KV2_get crc api faults key k))) = mg_wal (kv_managers k)"
  "kv_writer (snd (KV2_scan crc api faults rng k)) = kv_writer k" "mg_wal (kv_managers (snd (KV2_scan crc api faults rng k))) = mg_wal (kv_managers k)"
  by (simp_all add: KV2_get_def KV2_scan_def get_record_def with_manifest_def Let_def case_prod_beta)

lemma api_reads_keep_writer:
  "ka_get (kv2_api crc api envs) key s = Some (r, s') \<Longrightarrow> kv_writer (fst s') = kv_writer (fst s) \<and> mg_wal (kv_managers (fst s')) = mg_wal (kv_managers (fst s))"
  "ka_scan (kv2_api crc api envs) rng s = Some (x, s') \<Longrightarrow> kv_writer (fst s') = kv_writer (fst s) \<and> mg_wal (kv_managers (fst s')) = mg_wal (kv_managers (fst s))"
  "ka_await_pending_writes (kv2_api crc api envs) s = Some (y, s') \<Longrightarrow> fst s' = fst s"
  by (auto simp: reads_keep_writer kv2_api_def read_call_def write_call_def case_prod_beta)

interpretation kv2_reader: map_reader "kv2_api crc api envs" "kv2_pinned crc api envs w wal" "read_faults envs" for crc api envs w wal
proof
  fix n s m alt key rng
  show "finite (dom m)" if "kv2_pinned crc api envs w wal n s m alt" for n s m alt
    using that kv2_engine.rep_finite [of crc api envs n s m alt] by (simp add: kv2_pinned_def)
  show "\<exists>r s'. ka_get (kv2_api crc api envs) key s = Some (r, s') \<and> kv2_pinned crc api envs w wal n s' m alt
      \<and> (r = Inr (m key) \<or> read_faults envs \<and> \<not> is_ok r)" if "kv2_pinned crc api envs w wal n s m alt" for n s m alt key
    using that kv2_engine.get_law [of crc api envs n s m alt key] api_reads_keep_writer(1) [of crc api envs key s] by (fastforce simp: kv2_pinned_def)
  show "\<exists>r s'. ka_scan (kv2_api crc api envs) rng s = Some (r, s') \<and> kv2_pinned crc api envs w wal n s' m alt
      \<and> (r = Inr (range_entries rng m) \<or> read_faults envs \<and> \<not> is_ok r)" if "kv2_pinned crc api envs w wal n s m alt" for n s m alt rng
    using that kv2_engine.scan_law [of crc api envs n s m alt rng] api_reads_keep_writer(2) [of crc api envs rng s] by (fastforce simp: kv2_pinned_def)
  show "\<exists>s'. ka_await_pending_writes (kv2_api crc api envs) s = Some (Inr (), s') \<and> kv2_pinned crc api envs w wal n s' m alt"
    if "kv2_pinned crc api envs w wal n s m alt" for n s m alt
    using that kv2_engine.await_law [of crc api envs n s m alt] api_reads_keep_writer(3) [of crc api envs s] by (fastforce simp: kv2_pinned_def)
qed

end
