(* ===== verification/Utf8_Chars.thy ===== *)
theory Utf8_Chars
  imports Utf8 "HOL-Library.List_Lexorder"
begin

text \<open>
  The characters of a Rust string: \<open>str::chars\<close> and \<open>String::push\<close>. A \<open>char\<close> is a Unicode scalar value,
  here a natural number; a string is its UTF-8 bytes.
\<close>

definition scalar_value :: "nat \<Rightarrow> bool" where
  "scalar_value c \<longleftrightarrow> c < 0xD800 \<or> 0xE000 \<le> c \<and> c < 0x110000"

definition char_bytes :: "nat \<Rightarrow> bytes" where
  "char_bytes c =
     (if c < 0x80 then [of_nat c]
      else if c < 0x800 then [of_nat (0xC0 + c div 64), of_nat (0x80 + c mod 64)]
      else if c < 0x10000 then [of_nat (0xE0 + c div 4096), of_nat (0x80 + c div 64 mod 64), of_nat (0x80 + c mod 64)]
      else [of_nat (0xF0 + c div 262144), of_nat (0x80 + c div 4096 mod 64), of_nat (0x80 + c div 64 mod 64),
            of_nat (0x80 + c mod 64)])"

text \<open>The character at the head of a string.\<close>

definition head_char :: "bytes \<Rightarrow> nat" where
  "head_char bs =
     (case utf8_len bs of
        Suc 0 \<Rightarrow> unat (bs ! 0)
      | Suc (Suc 0) \<Rightarrow> (unat (bs ! 0) - 0xC0) * 64 + (unat (bs ! 1) - 0x80)
      | Suc (Suc (Suc 0)) \<Rightarrow> (unat (bs ! 0) - 0xE0) * 4096 + (unat (bs ! 1) - 0x80) * 64 + (unat (bs ! 2) - 0x80)
      | _ \<Rightarrow> (unat (bs ! 0) - 0xF0) * 262144 + (unat (bs ! 1) - 0x80) * 4096 + (unat (bs ! 2) - 0x80) * 64
               + (unat (bs ! 3) - 0x80))"

function chars :: "bytes \<Rightarrow> nat list" where
  "chars bs = (if utf8_len bs = 0 then [] else head_char bs # chars (drop (utf8_len bs) bs))"
  by auto
termination
proof (relation "measure length")
  fix bs :: bytes
  assume "utf8_len bs \<noteq> 0"
  then show "(drop (utf8_len bs) bs, bs) \<in> measure length" using utf8_len_le [of bs] by (cases bs) (auto simp: utf8_len_def)
qed simp

declare chars.simps [simp del]

definition string_of :: "nat list \<Rightarrow> bytes" where
  "string_of cs = concat (map char_bytes cs)"

section \<open>Encoding and decoding\<close>

lemma byte_le: "(a :: byte) \<le> b \<longleftrightarrow> unat a \<le> unat b" "a < b \<longleftrightarrow> unat a < unat b"
  by (simp_all add: word_le_nat_alt word_less_nat_alt)

lemma utf8_cont_iff: "utf8_cont b \<longleftrightarrow> 0x80 \<le> unat b \<and> unat b < 0xC0"
  by (auto simp: utf8_cont_def byte_le)

lemma byte_num_eq: "(b :: byte) = numeral n \<longleftrightarrow> unat b = unat (numeral n :: byte)"
  by (simp add: word_unat_eq_iff)

lemma utf8_len_char:
  assumes "scalar_value c"
  shows "utf8_len (char_bytes c @ bs) = length (char_bytes c)"
proof -
  consider "c < 0x80" | "0x80 \<le> c" "c < 0x800" | "0x800 \<le> c" "c < 0x10000" | "0x10000 \<le> c" "c < 0x110000"
    using assms by (force simp: scalar_value_def)
  then show ?thesis
  proof cases
    case 1
    then show ?thesis by (simp add: char_bytes_def utf8_len_def byte_le)
  next
    case 2
    then have "2 \<le> c div 64" "c div 64 < 32" by auto
    then show ?thesis using 2 by (simp add: char_bytes_def utf8_len_def byte_le utf8_cont_iff del: of_nat_add)
  next
    case 3
    have d: "c div 4096 < 16" "c div 64 mod 64 < 64" using 3 by auto
    have e0: "c div 4096 = 0 \<Longrightarrow> 32 \<le> c div 64 mod 64"
    proof -
      assume "c div 4096 = 0"
      then have "c < 4096" by simp
      then have "c div 64 < 64" by simp
      then show ?thesis using 3 by simp
    qed
    have ed: "c div 4096 = 13 \<Longrightarrow> c div 64 mod 64 < 32"
    proof -
      assume a: "c div 4096 = 13"
      have "c div 64 = 64 * (c div 4096) + c div 64 mod 64" by (simp add: div_mult2_eq [of c 64 64, simplified])
      moreover have "c < 0xD800" using assms a by (auto simp: scalar_value_def)
      ultimately show ?thesis using a by simp
    qed
    show ?thesis using 3 d e0 ed
      by (auto simp: char_bytes_def utf8_len_def byte_le utf8_cont_iff utf8_char3_def byte_num_eq simp del: of_nat_add)
  next
    case 4
    have d: "c div 262144 < 5" "c div 4096 mod 64 < 64" "c div 64 mod 64 < 64" using 4 by auto
    have e0: "c div 262144 = 0 \<Longrightarrow> 16 \<le> c div 4096 mod 64"
    proof -
      assume "c div 262144 = 0"
      then have "c < 262144" by simp
      then have "c div 4096 < 64" by simp
      then show ?thesis using 4 by simp
    qed
    have e4: "c div 262144 = 4 \<Longrightarrow> c div 4096 mod 64 < 16"
    proof -
      assume a: "c div 262144 = 4"
      have "c div 4096 = 64 * (c div 262144) + c div 4096 mod 64" by (simp add: div_mult2_eq [of c 4096 64, simplified])
      with a 4 show ?thesis by simp
    qed
    show ?thesis using 4 d e0 e4
      by (auto simp: char_bytes_def utf8_len_def byte_le utf8_cont_iff utf8_char4_def byte_num_eq simp del: of_nat_add)
  qed
qed

lemma base64_digits:
  "(c :: nat) = c div 4096 * 4096 + c div 64 mod 64 * 64 + c mod 64"
  "c = c div 262144 * 262144 + c div 4096 mod 64 * 4096 + c div 64 mod 64 * 64 + c mod 64"
proof -
  have a: "c = 64 * (c div 64) + c mod 64" "c div 64 = 64 * (c div 64 div 64) + c div 64 mod 64"
    "c div 4096 = 64 * (c div 4096 div 64) + c div 4096 mod 64" by simp_all
  have b: "c div 4096 = c div 64 div 64" "c div 262144 = c div 4096 div 64" by (simp_all add: div_mult2_eq [symmetric])
  show "c = c div 4096 * 4096 + c div 64 mod 64 * 64 + c mod 64" using a(1,2) b(1) by linarith
  with a(3) b(2) show "c = c div 262144 * 262144 + c div 4096 mod 64 * 4096 + c div 64 mod 64 * 64 + c mod 64" by linarith
qed

lemma cont_byte [simp]: "(128 + x mod 64) mod 256 = 128 + x mod (64 :: nat)"
proof -
  have "128 + x mod 64 < 256" using mod_less_divisor [of 64 x] by linarith
  then show ?thesis by simp
qed

lemma head_char_bytes:
  assumes "scalar_value c"
  shows "head_char (char_bytes c @ bs) = c"
proof -
  consider "c < 0x80" | "0x80 \<le> c" "c < 0x800" | "0x800 \<le> c" "c < 0x10000" | "0x10000 \<le> c" "c < 0x110000"
    using assms by (force simp: scalar_value_def)
  then show ?thesis
  proof cases
    case 1
    then show ?thesis using utf8_len_char [OF assms, of bs] by (simp add: head_char_def char_bytes_def)
  next
    case 2
    then have "c div 64 < 32" by auto
    then show ?thesis using 2 utf8_len_char [OF assms, of bs] by (simp add: head_char_def char_bytes_def del: of_nat_add)
  next
    case 3
    have "c div 4096 < 16" using 3 by auto
    then show ?thesis using 3 utf8_len_char [OF assms, of bs] base64_digits(1) [of c]
      by (simp add: head_char_def char_bytes_def del: of_nat_add)
  next
    case 4
    have "c div 262144 < 5" using 4 by auto
    then show ?thesis using 4 utf8_len_char [OF assms, of bs] base64_digits(2) [of c]
      by (simp add: head_char_def char_bytes_def del: of_nat_add)
  qed
qed

lemma utf8_len_Nil [simp]: "utf8_len [] = 0"
  by (simp add: utf8_len_def)

lemma chars_Nil [simp]: "chars [] = []"
  by (simp add: chars.simps)

lemma char_bytes_ne [simp]: "char_bytes c \<noteq> []" "0 < length (char_bytes c)"
  by (simp_all add: char_bytes_def)

lemma chars_char [simp]: "scalar_value c \<Longrightarrow> chars (char_bytes c @ bs) = c # chars bs"
  by (subst chars.simps) (simp add: utf8_len_char head_char_bytes)

lemma chars_string_of: "list_all scalar_value cs \<Longrightarrow> chars (string_of cs @ bs) = cs @ chars bs"
  by (induction cs) (simp_all add: string_of_def)

lemma string_of_simps [simp]: "string_of [] = []" "string_of (c # cs) = char_bytes c @ string_of cs"
  "string_of (cs @ ds) = string_of cs @ string_of ds"
  by (simp_all add: string_of_def)

lemma utf8_valid_char [simp]: "scalar_value c \<Longrightarrow> utf8_valid (char_bytes c @ bs) = utf8_valid bs"
  by (subst utf8_valid.simps) (simp add: utf8_len_char)

lemma utf8_valid_string_of: "list_all scalar_value cs \<Longrightarrow> utf8_valid (string_of cs)"
  by (induction cs) simp_all

text \<open>A valid string is the encoding of its characters.\<close>

lemma digits64:
  "(n :: nat) < 64 \<Longrightarrow> (a * 64 + n) div 64 = a" "n < 64 \<Longrightarrow> (a * 64 + n) mod 64 = n"
  by simp_all

lemma of_nat_byte [simp]: "of_nat (unat (b :: byte)) = b"
  by simp

lemma char_bytes2:
  assumes "0xC2 \<le> unat b" "unat b \<le> 0xDF" "utf8_cont c1"
  defines "c \<equiv> (unat b - 0xC0) * 64 + (unat c1 - 0x80)"
  shows "scalar_value c \<and> char_bytes c = [b, c1]"
proof -
  have c1: "0x80 \<le> unat c1" "unat c1 - 0x80 < 64" using assms(3) by (auto simp: utf8_cont_iff)
  have r: "0x80 \<le> c" "c < 0x800" using assms(1,2) c1 unfolding c_def by linarith+
  have d: "c div 64 = unat b - 0xC0" "c mod 64 = unat c1 - 0x80" unfolding c_def using c1(2) by (simp_all add: digits64)
  show ?thesis
    using r assms(1) c1(1) by (simp add: scalar_value_def char_bytes_def d del: of_nat_add)
qed

lemma char_bytes3:
  assumes "0xE0 \<le> unat b" "unat b \<le> 0xEF" "utf8_char3 b c1 c2"
  defines "c \<equiv> (unat b - 0xE0) * 4096 + (unat c1 - 0x80) * 64 + (unat c2 - 0x80)"
  shows "scalar_value c \<and> char_bytes c = [b, c1, c2]"
proof -
  have c1: "0x80 \<le> unat c1" "unat c1 - 0x80 < 64" "0x80 \<le> unat c2" "unat c2 - 0x80 < 64"
    and e: "unat b = 0xE0 \<Longrightarrow> 0xA0 \<le> unat c1" "unat b = 0xED \<Longrightarrow> unat c1 \<le> 0x9F"
    using assms(3) by (auto simp: utf8_char3_def utf8_cont_iff byte_num_eq byte_le)
  have c: "c = ((unat b - 0xE0) * 64 + (unat c1 - 0x80)) * 64 + (unat c2 - 0x80)" by (simp add: c_def)
  have d: "c div 64 = (unat b - 0xE0) * 64 + (unat c1 - 0x80)" "c mod 64 = unat c2 - 0x80"
    unfolding c using c1(4) by (rule digits64)+
  have "c div 4096 = c div 64 div 64" by (simp add: div_mult2_eq [symmetric])
  with d c1(2) have d': "c div 4096 = unat b - 0xE0" "c div 64 mod 64 = unat c1 - 0x80" by (simp_all add: digits64)
  have "0x800 \<le> c"
  proof (cases "unat b = 0xE0")
    case True
    with e(1) c1 show ?thesis by (simp add: c)
  next
    case False
    then have "1 \<le> unat b - 0xE0" using assms(1) by simp
    then show ?thesis unfolding c_def by linarith
  qed
  moreover have "c < 0x10000" using assms(2) c1 unfolding c_def by linarith
  moreover have "c < 0xD800 \<or> 0xE000 \<le> c"
  proof -
    consider "unat b \<le> 0xEC" | "unat b = 0xED" | "0xEE \<le> unat b" by linarith
    then show ?thesis
    proof cases
      case 1
      then show ?thesis using c1 unfolding c_def by linarith
    next
      case 2
      then have "unat c1 - 0x80 \<le> 31" "unat b - 0xE0 = 13" using e(2) by simp_all
      then show ?thesis using c1 unfolding c_def by linarith
    next
      case 3
      then show ?thesis using c1 unfolding c_def by linarith
    qed
  qed
  ultimately show ?thesis
    using assms(1) c1(1,3) by (auto simp: scalar_value_def char_bytes_def d(2) d' simp del: of_nat_add)
qed

lemma char_bytes4:
  assumes "0xF0 \<le> unat b" "unat b \<le> 0xF4" "utf8_char4 b c1 c2 c3"
  defines "c \<equiv> (unat b - 0xF0) * 262144 + (unat c1 - 0x80) * 4096 + (unat c2 - 0x80) * 64 + (unat c3 - 0x80)"
  shows "scalar_value c \<and> char_bytes c = [b, c1, c2, c3]"
proof -
  have c1: "0x80 \<le> unat c1" "unat c1 - 0x80 < 64" "0x80 \<le> unat c2" "unat c2 - 0x80 < 64" "0x80 \<le> unat c3" "unat c3 - 0x80 < 64"
    and e: "unat b = 0xF0 \<Longrightarrow> 0x90 \<le> unat c1" "unat b = 0xF4 \<Longrightarrow> unat c1 \<le> 0x8F"
    using assms(3) by (auto simp: utf8_char4_def utf8_cont_iff byte_num_eq byte_le)
  have c: "c = (((unat b - 0xF0) * 64 + (unat c1 - 0x80)) * 64 + (unat c2 - 0x80)) * 64 + (unat c3 - 0x80)" by (simp add: c_def)
  have d: "c div 64 = ((unat b - 0xF0) * 64 + (unat c1 - 0x80)) * 64 + (unat c2 - 0x80)" "c mod 64 = unat c3 - 0x80"
    unfolding c using c1(6) by (rule digits64)+
  have dd: "c div 4096 = c div 64 div 64" "c div 262144 = c div 4096 div 64" by (simp_all add: div_mult2_eq [symmetric])
  have d': "c div 4096 = (unat b - 0xF0) * 64 + (unat c1 - 0x80)" "c div 64 mod 64 = unat c2 - 0x80"
    unfolding dd(1) d(1) using c1(4) by (rule digits64)+
  have d'': "c div 262144 = unat b - 0xF0" "c div 4096 mod 64 = unat c1 - 0x80" unfolding dd(2) d'(1) using c1(2) by (rule digits64)+
  have "0x10000 \<le> c"
  proof (cases "unat b = 0xF0")
    case True
    with e(1) c1 show ?thesis by (simp add: c_def)
  next
    case False
    then have "1 \<le> unat b - 0xF0" using assms(1) by simp
    then show ?thesis unfolding c_def by linarith
  qed
  moreover have "c < 0x110000"
  proof (cases "unat b = 0xF4")
    case True
    with e(2) c1 show ?thesis unfolding c_def by simp
  next
    case False
    then have "unat b - 0xF0 \<le> 3" using assms(2) by simp
    then show ?thesis using c1 unfolding c_def by linarith
  qed
  ultimately show ?thesis
    using assms(1) c1(1,3,5) by (auto simp: scalar_value_def char_bytes_def d(2) d'(2) d'' simp del: of_nat_add)
qed

lemma head_char_valid:
  assumes "0 < utf8_len bs"
  shows "scalar_value (head_char bs) \<and> char_bytes (head_char bs) = take (utf8_len bs) bs"
proof -
  obtain b cs where bs: "bs = b # cs" using assms by (cases bs) auto
  consider "unat b < 0x80" | c1 ds where "cs = c1 # ds" "0xC2 \<le> unat b" "unat b \<le> 0xDF" "utf8_cont c1"
    | c1 c2 ds where "cs = c1 # c2 # ds" "0xE0 \<le> unat b" "unat b \<le> 0xEF" "utf8_char3 b c1 c2"
    | c1 c2 c3 ds where "cs = c1 # c2 # c3 # ds" "0xF0 \<le> unat b" "unat b \<le> 0xF4" "utf8_char4 b c1 c2 c3"
    using assms unfolding bs utf8_len_def by (auto simp: byte_le split: if_splits list.splits)
  then show ?thesis
  proof cases
    case 1
    then have "utf8_len bs = Suc 0" by (simp add: bs utf8_len_def byte_le)
    with 1 show ?thesis by (simp add: head_char_def bs scalar_value_def char_bytes_def)
  next
    case 2
    then have "utf8_len bs = Suc (Suc 0)" by (simp add: bs utf8_len_def byte_le)
    with char_bytes2 [OF 2(2-4)] 2 show ?thesis by (simp add: head_char_def bs)
  next
    case 3
    then have "utf8_len bs = Suc (Suc (Suc 0))" by (simp add: bs utf8_len_def byte_le)
    with char_bytes3 [OF 3(2-4)] 3 show ?thesis by (simp add: head_char_def bs)
  next
    case 4
    then have "utf8_len bs = Suc (Suc (Suc (Suc 0)))" by (simp add: bs utf8_len_def byte_le)
    with char_bytes4 [OF 4(2-4)] 4 show ?thesis by (simp add: head_char_def bs numeral_2_eq_2 numeral_3_eq_3)
  qed
qed

lemma string_of_chars: "utf8_valid bs \<Longrightarrow> string_of (chars bs) = bs \<and> list_all scalar_value (chars bs)"
proof (induction bs rule: chars.induct)
  case (1 bs)
  show ?case
  proof (cases "bs = []")
    case False
    then have l: "0 < utf8_len bs" "utf8_valid (drop (utf8_len bs) bs)"
      using "1.prems" by (simp_all add: utf8_valid.simps [of bs] split: if_splits)
    with 1 have ih: "string_of (chars (drop (utf8_len bs) bs)) = drop (utf8_len bs) bs" "list_all scalar_value (chars (drop (utf8_len bs) bs))"
      by simp_all
    with head_char_valid [OF l(1)] l show ?thesis by (simp add: chars.simps [of bs])
  qed simp
qed

text \<open>Fewer characters than bytes.\<close>

lemma length_chars: "length (chars bs) \<le> length bs"
proof (induction bs rule: chars.induct)
  case (1 bs)
  then show ?case using utf8_len_le [of bs] by (cases "utf8_len bs = 0") (auto simp: chars.simps [of bs])
qed

end
