(* ===== verification/Tokens.thy ===== *)
theory Tokens
  imports Btree_Map Utf8_Chars
begin

text \<open>
  The tokenizer of the full-text index (\<open>tokenize\<close> and \<open>normalize_terms\<close> in \<open>src/fts/mod.rs\<close>) and
  \<open>str::to_lowercase\<close>. The tables of the Unicode character database, which come with the compiler and
  not with the repository, are a parameter.
\<close>

record unicode =
  uc_is_alphanumeric :: "nat \<Rightarrow> bool"
  uc_to_lowercase :: "nat \<Rightarrow> nat list"
  uc_cased :: "nat \<Rightarrow> bool"
  uc_case_ignorable :: "nat \<Rightarrow> bool"

section \<open>Lower case\<close>

definition case_ignorable_then_cased :: "unicode \<Rightarrow> nat list \<Rightarrow> bool" where
  "case_ignorable_then_cased u cs =
     (case dropWhile (uc_case_ignorable u) cs of [] \<Rightarrow> False | c # _ \<Rightarrow> uc_cased u c)"

text \<open>A capital sigma becomes a final sigma at the end of a word; \<open>before\<close> is what precedes, backwards.\<close>

fun lowercase_chars :: "unicode \<Rightarrow> nat list \<Rightarrow> nat list \<Rightarrow> nat list" where
  "lowercase_chars u before [] = []"
| "lowercase_chars u before (c # cs) =
     (if c = 0x3A3
      then [if case_ignorable_then_cased u before \<and> \<not> case_ignorable_then_cased u cs then 0x3C2 else 0x3C3]
      else uc_to_lowercase u c) @ lowercase_chars u (c # before) cs"

definition str_to_lowercase :: "unicode \<Rightarrow> bytes \<Rightarrow> bytes" where
  "str_to_lowercase u s = string_of (lowercase_chars u [] (chars s))"

section \<open>Terms\<close>

type_synonym terms = "(bytes, u64) btree_map"

text \<open>\<open>*terms.entry(term).or_insert(0) += 1\<close>\<close>

definition count_term :: "bytes \<Rightarrow> terms \<Rightarrow> terms" where
  "count_term term terms = bt_insert term ((case map_of terms term of None \<Rightarrow> 0 | Some n \<Rightarrow> n) + 1) terms"

fun tokenize_chars :: "unicode \<Rightarrow> nat list \<Rightarrow> bytes \<Rightarrow> terms \<Rightarrow> terms" where
  "tokenize_chars u [] current terms = (if current \<noteq> [] then count_term current terms else terms)"
| "tokenize_chars u (character # cs) current terms =
     (if uc_is_alphanumeric u character
      then tokenize_chars u cs (current @ string_of (uc_to_lowercase u character)) terms
      else if current \<noteq> [] then tokenize_chars u cs [] (count_term current terms)
      else tokenize_chars u cs current terms)"

definition tokenize :: "unicode \<Rightarrow> bytes \<Rightarrow> terms" where
  "tokenize u text = tokenize_chars u (chars text) [] []"

text \<open>\<open>collect::<BTreeSet<_>>()\<close>\<close>

definition btree_set :: "'a::linorder list \<Rightarrow> 'a list" where
  "btree_set xs = sort (remdups xs)"

definition normalize_terms :: "unicode \<Rightarrow> bytes list \<Rightarrow> bytes list" where
  "normalize_terms u input = btree_set (concat (map (\<lambda>term. map fst (tokenize u term)) input))"

section \<open>What the tokenizer computes\<close>

text \<open>
  The lower case of an alphanumeric character is one to three characters that are their own lower case,
  and not capital sigmas.
\<close>

definition unicode_ok :: "unicode \<Rightarrow> bool" where
  "unicode_ok u \<longleftrightarrow>
     (\<forall>c. scalar_value c \<and> uc_is_alphanumeric u c \<longrightarrow>
        uc_to_lowercase u c \<noteq> [] \<and> length (uc_to_lowercase u c) \<le> 3
        \<and> (\<forall>d \<in> set (uc_to_lowercase u c). scalar_value d \<and> d \<noteq> 0x3A3 \<and> uc_to_lowercase u d = [d]))"

text \<open>The tokens of a text in order, and the characters of each.\<close>

fun token_chars :: "unicode \<Rightarrow> nat list \<Rightarrow> nat list \<Rightarrow> nat list list" where
  "token_chars u [] current = (if current \<noteq> [] then [current] else [])"
| "token_chars u (c # cs) current =
     (if uc_is_alphanumeric u c then token_chars u cs (current @ uc_to_lowercase u c)
      else if current \<noteq> [] then current # token_chars u cs [] else token_chars u cs current)"

definition tokens :: "unicode \<Rightarrow> bytes \<Rightarrow> bytes list" where
  "tokens u text = map string_of (token_chars u (chars text) [])"

lemma string_of_append [simp]: "string_of [] = []" "string_of (cs @ ds) = string_of cs @ string_of ds"
  by (simp_all add: string_of_def)

lemma char_bytes_not_Nil [simp]: "char_bytes c \<noteq> []"
  by (simp add: char_bytes_def)

lemma string_of_Nil_iff [simp]: "string_of cs = [] \<longleftrightarrow> cs = []"
  by (cases cs) (simp_all add: string_of_def)

lemma tokenize_chars_fold:
  "tokenize_chars u cs (string_of cur) terms = fold count_term (map string_of (token_chars u cs cur)) terms"
proof (induction cs arbitrary: cur terms)
  case (Cons c cs)
  have nil: "tokenize_chars u cs [] terms = fold count_term (map string_of (token_chars u cs [])) terms" for terms
    using Cons.IH [of "[]"] by simp
  show ?case using Cons.IH [of "cur @ uc_to_lowercase u c"] Cons.IH [of cur] by (auto simp: nil)
qed simp

lemma tokenize_fold: "tokenize u text = fold count_term (tokens u text) []"
  using tokenize_chars_fold [of u "chars text" "[]" "[]"] by (simp add: tokenize_def tokens_def)

lemma fold_count_term:
  assumes "bt_ok terms"
  shows "bt_ok (fold count_term ts terms)
     \<and> map_of (fold count_term ts terms) t = (if t \<in> set ts then Some ((case map_of terms t of None \<Rightarrow> 0 | Some n \<Rightarrow> n) + of_nat (count_list ts t)) else map_of terms t)"
  using assms
proof (induction ts arbitrary: terms)
  case (Cons x ts)
  have "bt_ok (count_term x terms)" using Cons.prems by (simp add: count_term_def)
  from Cons.IH [OF this] show ?case by (auto simp: count_term_def algebra_simps split: option.split)
qed simp

lemma tokenize_ok: "bt_ok (tokenize u text)"
  using fold_count_term [of "[]"] by (simp add: tokenize_fold)

lemma tokenize_get:
  "map_of (tokenize u text) t = (if t \<in> set (tokens u text) then Some (of_nat (count_list (tokens u text) t)) else None)"
  using fold_count_term [of "[]" "tokens u text" t] by (simp add: tokenize_fold)

lemma length_token_chars: "length (token_chars u cs cur) \<le> length cs + (if cur = [] then 0 else 1)"
proof (induction cs arbitrary: cur)
  case (Cons c cs)
  show ?case
    using Cons.IH [of "cur @ uc_to_lowercase u c"] Cons.IH [of "[]"] Cons.IH [of cur] by (auto split: if_splits)
qed simp

lemma length_tokens: "length (tokens u text) \<le> length text"
  using length_token_chars [of u "chars text" "[]"] length_chars [of "text"] by (simp add: tokens_def)

text \<open>The tokens are strings in lower case.\<close>

definition stable_char :: "unicode \<Rightarrow> nat \<Rightarrow> bool" where
  "stable_char u d \<longleftrightarrow> scalar_value d \<and> d \<noteq> 0x3A3 \<and> uc_to_lowercase u d = [d]"

lemma token_chars_stable:
  assumes "unicode_ok u" and "list_all scalar_value cs" and "list_all (stable_char u) cur" and "t \<in> set (token_chars u cs cur)"
  shows "t \<noteq> [] \<and> list_all (stable_char u) t"
  using assms(2-4)
proof (induction cs arbitrary: cur)
  case (Cons c cs)
  have "list_all (stable_char u) (uc_to_lowercase u c)" if "uc_is_alphanumeric u c"
    using assms(1) Cons.prems(1) that by (auto simp: unicode_ok_def stable_char_def list_all_iff)
  with Cons.prems Cons.IH [of "cur @ uc_to_lowercase u c"] Cons.IH [of "[]"] Cons.IH [of cur] show ?case by (auto split: if_splits)
qed (auto split: if_splits)

lemma lowercase_stable: "list_all (stable_char u) cs \<Longrightarrow> lowercase_chars u before cs = cs"
  by (induction cs arbitrary: before) (auto simp: stable_char_def)

lemma token_normal:
  assumes "unicode_ok u" and "utf8_valid text" and "t \<in> set (tokens u text)"
  shows "t \<noteq> []" "utf8_valid t" "str_to_lowercase u t = t"
proof -
  from assms(3) obtain cs where t: "t = string_of cs" and cs: "cs \<in> set (token_chars u (chars text) [])" by (auto simp: tokens_def)
  have "list_all scalar_value (chars text)" using string_of_chars [OF assms(2)] by simp
  from token_chars_stable [OF assms(1) this _ cs] have st: "cs \<noteq> []" "list_all (stable_char u) cs" by simp_all
  then have sc: "list_all scalar_value cs" by (auto simp: list_all_iff stable_char_def)
  show "t \<noteq> []" using st(1) by (simp add: t)
  show "utf8_valid t" using utf8_valid_string_of [OF sc] by (simp add: t)
  show "str_to_lowercase u t = t" using chars_string_of [OF sc, of "[]"] lowercase_stable [OF st(2)] by (simp add: t str_to_lowercase_def chars.simps [of "[]"] utf8_len_def)
qed

text \<open>The frequencies of a text that fits into memory.\<close>

lemma fst_set_tokenize: "fst ` set (tokenize u text) = set (tokens u text)"
proof -
  have "fst ` set (tokenize u text) = dom (map_of (tokenize u text))" by (simp add: dom_map_of_conv_image_fst)
  also have "\<dots> = set (tokens u text)" by (auto simp: tokenize_get split: if_splits)
  finally show ?thesis .
qed

lemma unat_term_count:
  "length text < 2 ^ 64 \<Longrightarrow> unat (of_nat (count_list (tokens u text) t) :: u64) = count_list (tokens u text) t"
  by (rule unat_of_nat_64) (use count_le_length [of "tokens u text" t] length_tokens [of u "text"] in linarith)

lemma tokenize_frequency:
  assumes "length text < 2 ^ 64" and "(t, n) \<in> set (tokenize u text)"
  shows "unat n = count_list (tokens u text) t" "n \<noteq> 0" "t \<in> set (tokens u text)"
proof -
  have "map_of (tokenize u text) t = Some n" using assms(2) bt_ok_in_set [OF tokenize_ok] by simp
  then have n: "t \<in> set (tokens u text)" "n = of_nat (count_list (tokens u text) t)" by (simp_all add: tokenize_get split: if_splits)
  then show u: "unat n = count_list (tokens u text) t" "t \<in> set (tokens u text)" using unat_term_count [OF assms(1)] by simp_all
  then show "n \<noteq> 0" by (metis count_list_0_iff unat_0)
qed

lemma sum_tokenize:
  assumes "length text < 2 ^ 64"
  shows "sum_list (map (\<lambda>e. unat (snd e)) (tokenize u text)) = length (tokens u text)"
proof -
  have "map (\<lambda>e. unat (snd e)) (tokenize u text) = map (count_list (tokens u text)) (map fst (tokenize u text))"
    using tokenize_frequency(1) [OF assms] by auto
  then have "sum_list (map (\<lambda>e. unat (snd e)) (tokenize u text)) = sum (count_list (tokens u text)) (set (tokens u text))"
    by (simp only: sum_list_distinct_conv_sum_set [OF bt_ok_distinct [OF tokenize_ok]] set_map fst_set_tokenize)
  then show ?thesis by (simp add: sum_count_set)
qed

text \<open>The terms of a text are not much longer than it is.\<close>

lemma token_chars_total:
  assumes "unicode_ok u" and "list_all scalar_value cs"
  shows "sum_list (map length (token_chars u cs cur)) \<le> 3 * length cs + length cur"
  using assms(2)
proof (induction cs arbitrary: cur)
  case (Cons c cs)
  have "length (uc_to_lowercase u c) \<le> 3" if "uc_is_alphanumeric u c"
    using assms(1) Cons.prems that by (auto simp: unicode_ok_def)
  with Cons.prems Cons.IH [of "cur @ uc_to_lowercase u c"] Cons.IH [of "[]"] Cons.IH [of cur] show ?case by auto
qed simp

lemma length_string_of: "length (string_of cs) \<le> 4 * length cs"
  by (induction cs) (auto simp: string_of_def char_bytes_def)

lemma tokens_total:
  assumes "unicode_ok u" and "utf8_valid text"
  shows "sum_list (map (\<lambda>t. 12 + length t) (tokens u text)) \<le> 24 * length text"
proof -
  let ?ts = "token_chars u (chars text) []"
  have "sum_list (map length ?ts) \<le> 3 * length (chars text)"
    using token_chars_total [OF assms(1), of "chars text" "[]"] string_of_chars [OF assms(2)] by simp
  moreover have "sum_list (map (\<lambda>t. length (string_of t)) ts) \<le> 4 * sum_list (map length ts)" for ts
  proof (induction ts)
    case (Cons t ts)
    then show ?case using length_string_of [of t] by simp
  qed simp
  from this [of ?ts] have "sum_list (map length (tokens u text)) \<le> 4 * sum_list (map length ?ts)" by (simp add: tokens_def comp_def)
  moreover have "sum_list (map (\<lambda>t. 12 + length t) ts) = 12 * length ts + sum_list (map length ts)" for ts :: "bytes list"
    by (induction ts) simp_all
  ultimately show ?thesis using length_tokens [of u "text"] length_chars [of "text"] by simp
qed

lemma terms_total:
  assumes "unicode_ok u" and "utf8_valid text"
  shows "sum_list (map (\<lambda>e. 12 + length (fst e)) (tokenize u text)) \<le> 24 * length text"
proof -
  have "sum f (set xs) \<le> sum_list (map f xs)" for f :: "bytes \<Rightarrow> nat" and xs
    by (induction xs) (auto simp: sum.insert_if)
  from this [of "\<lambda>t. 12 + length t" "tokens u text"]
  have "sum_list (map (\<lambda>t. 12 + length t) (map fst (tokenize u text))) \<le> sum_list (map (\<lambda>t. 12 + length t) (tokens u text))"
    by (simp only: sum_list_distinct_conv_sum_set [OF bt_ok_distinct [OF tokenize_ok]] set_map fst_set_tokenize)
  with tokens_total [OF assms] show ?thesis by (simp add: comp_def)
qed

lemma sorted_list_eq: "sorted xs \<Longrightarrow> distinct xs \<Longrightarrow> set xs = S \<Longrightarrow> xs = sorted_list_of_set S"
  by (auto simp: sorted_list_of_set.idem_if_sorted_distinct)

lemma set_btree_set [simp]: "set (btree_set xs) = set xs"
  by (simp add: btree_set_def)

lemma sorted_btree_set [simp]: "sorted (btree_set xs)" "distinct (btree_set xs)"
  by (simp_all add: btree_set_def)

lemma btree_set_eq: "btree_set xs = sorted_list_of_set (set xs)"
  by (simp add: sorted_distinct_set_unique)

end
