(* ===== verification/Float64.thy ===== *)
theory Float64
  imports Complex_Main Prelude "HOL-Library.Log_Nat"
begin

text \<open>
  The arithmetic of \<open>f64\<close> that the ranking of search results uses: every operation is the exact result
  rounded to the nearest value with 53 bits, ties to even, as IEEE 754 and Rust require. Both zeros are
  one value here; the ranking never divides by zero and starts its sums with a positive zero.
\<close>

definition round_half_even :: "rat \<Rightarrow> int" where
  "round_half_even x =
     (let f = \<lfloor>x\<rfloor>; d = x - of_int f
      in if d < 1 / 2 \<or> d = 1 / 2 \<and> even f then f else f + 1)"

definition scaled :: "rat \<Rightarrow> int \<Rightarrow> rat" where
  "scaled x e = (if 0 \<le> e then x * 2 ^ nat e else x / 2 ^ nat (- e))"

text \<open>The exponent of the leading bit of a positive rational.\<close>

definition leading_exponent :: "rat \<Rightarrow> int" where
  "leading_exponent x =
     (case quotient_of x of (p, q) \<Rightarrow>
        let k = int (floorlog 2 (nat p)) - int (floorlog 2 (nat q))
        in if scaled 1 k \<le> x then k else k - 1)"

definition f64_round :: "rat \<Rightarrow> f64" where
  "f64_round x =
     (if x = 0 then Dyadic 0 0
      else
        let unit = max (leading_exponent \<bar>x\<bar> - 52) (- 1074);
            n = round_half_even (scaled x (- unit))
        in if 2 ^ 1024 \<le> scaled (of_int \<bar>n\<bar>) unit then Infinite (0 < x)
           else if 0 \<le> unit then Dyadic (n * 2 ^ nat unit) 0
           else Dyadic n (nat (- unit)))"

definition f64_value :: "f64 \<Rightarrow> rat" where
  "f64_value a = (case a of Dyadic m e \<Rightarrow> of_int m / 2 ^ e | _ \<Rightarrow> 0)"

definition is_finite :: "f64 \<Rightarrow> bool" where
  "is_finite a = (case a of Dyadic _ _ \<Rightarrow> True | _ \<Rightarrow> False)"

definition f64_lt :: "f64 \<Rightarrow> f64 \<Rightarrow> bool" where
  "f64_lt a b \<longleftrightarrow> f64_le a b \<and> \<not> f64_le b a"

definition f64_of_u64 :: "u64 \<Rightarrow> f64" where
  "f64_of_u64 n = f64_round (of_nat (unat n))"

fun f64_neg :: "f64 \<Rightarrow> f64" where
  "f64_neg NaN = NaN"
| "f64_neg (Infinite pos) = Infinite (\<not> pos)"
| "f64_neg (Dyadic m e) = Dyadic (- m) e"

fun f64_add :: "f64 \<Rightarrow> f64 \<Rightarrow> f64" where
  "f64_add NaN _ = NaN"
| "f64_add _ NaN = NaN"
| "f64_add (Infinite pos) (Infinite pos') = (if pos = pos' then Infinite pos else NaN)"
| "f64_add (Infinite pos) (Dyadic _ _) = Infinite pos"
| "f64_add (Dyadic _ _) (Infinite pos) = Infinite pos"
| "f64_add a b = f64_round (f64_value a + f64_value b)"

definition f64_sub :: "f64 \<Rightarrow> f64 \<Rightarrow> f64" where
  "f64_sub a b = f64_add a (f64_neg b)"

fun f64_mul :: "f64 \<Rightarrow> f64 \<Rightarrow> f64" where
  "f64_mul NaN _ = NaN"
| "f64_mul _ NaN = NaN"
| "f64_mul (Infinite pos) (Infinite pos') = Infinite (pos = pos')"
| "f64_mul (Infinite pos) (Dyadic m _) = (if m = 0 then NaN else Infinite (pos = (0 < m)))"
| "f64_mul (Dyadic m _) (Infinite pos) = (if m = 0 then NaN else Infinite (pos = (0 < m)))"
| "f64_mul a b = f64_round (f64_value a * f64_value b)"

fun f64_div :: "f64 \<Rightarrow> f64 \<Rightarrow> f64" where
  "f64_div NaN _ = NaN"
| "f64_div _ NaN = NaN"
| "f64_div (Infinite _) (Infinite _) = NaN"
| "f64_div (Infinite pos) (Dyadic m _) = Infinite (pos = (0 \<le> m))"
| "f64_div (Dyadic _ _) (Infinite _) = Dyadic 0 0"
| "f64_div (Dyadic m e) (Dyadic m' e') =
     (if m' = 0 then (if m = 0 then NaN else Infinite (0 < m))
      else f64_round (f64_value (Dyadic m e) / f64_value (Dyadic m' e')))"

text \<open>Rounding moves a value by at most half a unit.\<close>

lemma round_half_even_near: "\<bar>of_int (round_half_even x) - x\<bar> \<le> 1 / 2"
proof -
  obtain f where f: "\<lfloor>x\<rfloor> = f" by simp
  then have "of_int f \<le> x" "x < of_int f + 1" by linarith+
  then show ?thesis unfolding abs_le_iff round_half_even_def Let_def f by (auto simp: field_simps)
qed

end
