(* ===== verification/Fts.thy ===== *)
theory Fts
  imports Engine_Map Tokens Float64
begin

text \<open>
  The full-text index (\<open>src/fts/mod.rs\<close>) over any engine with the interface of \<open>AsyncKVEngine\<close>: the
  layout of its records under a reserved prefix, the operations on documents, the Boolean and the ranked
  search, and the index as an engine that keeps its clients out of the prefix. Strings are their UTF-8
  bytes; a \<open>DocumentId\<close> is its string.
\<close>

section \<open>Constants and data\<close>

definition NAMESPACE :: bytes where "NAMESPACE = 0 # ascii ''ceredb:fts:v1:''"
definition META_KEY :: bytes where "META_KEY = 0 # ascii ''ceredb:fts:v1:m''"
definition STATS_KEY :: bytes where "STATS_KEY = 0 # ascii ''ceredb:fts:v1:s''"
definition DOCUMENT_MARKER :: byte where "DOCUMENT_MARKER = 0x64"
definition FORWARD_MARKER :: byte where "FORWARD_MARKER = 0x66"
definition POSTING_MARKER :: byte where "POSTING_MARKER = 0x70"
definition DF_MARKER :: byte where "DF_MARKER = 0x67"
definition FORMAT_VERSION :: byte where "FORMAT_VERSION = 2"
definition TOKENIZER_VERSION :: byte where "TOKENIZER_VERSION = 1"
definition MAX_QUERY_TERMS :: nat where "MAX_QUERY_TERMS = 32"
definition MAX_LIMIT :: nat where "MAX_LIMIT = 1000"
definition MAX_DOCUMENT_BATCH_DOCUMENTS :: nat where "MAX_DOCUMENT_BATCH_DOCUMENTS = 256"
definition MAX_DOCUMENT_BATCH_INPUT_BYTES :: nat where "MAX_DOCUMENT_BATCH_INPUT_BYTES = 4 * 1024 * 1024"
definition MAX_DOCUMENT_BATCH_MUTATION_BYTES :: nat where "MAX_DOCUMENT_BATCH_MUTATION_BYTES = 8 * 1024 * 1024"
definition MAX_DOCUMENT_BATCH_MUTATIONS :: nat where "MAX_DOCUMENT_BATCH_MUTATIONS = 16384"
definition WAL_UPDATE_FRAME_OVERHEAD_BYTES :: nat where "WAL_UPDATE_FRAME_OVERHEAD_BYTES = 62"
definition WAL_COMMIT_FRAME_BYTES :: nat where "WAL_COMMIT_FRAME_BYTES = 37"

definition DocumentId_new :: "bytes \<Rightarrow> bytes result" where
  "DocumentId_new did = (if did = [] then Inl (Err (StorageError ''document ID must not be empty'')) else Inr did)"

datatype fts_query = Fts_And "bytes list" | Fts_Or "bytes list"

record search_hit =
  sh_id :: bytes
  sh_document :: bytes

record bm25_config =
  bc_k1 :: f64
  bc_b :: f64

definition Bm25Config_new :: "f64 \<Rightarrow> f64 \<Rightarrow> bm25_config result" where
  "Bm25Config_new k1 b =
     (if \<not> is_finite k1 \<or> f64_le k1 (Dyadic 0 0) \<or> \<not> is_finite b \<or> \<not> (f64_le (Dyadic 0 0) b \<and> f64_le b (Dyadic 1 0))
      then Inl (Err (StorageError ''invalid BM25 configuration''))
      else Inr \<lparr>bc_k1 = k1, bc_b = b\<rparr>)"

text \<open>The literals 1.2 and 0.75.\<close>

definition Bm25Config_default :: bm25_config where
  "Bm25Config_default = \<lparr>bc_k1 = Dyadic 5404319552844595 52, bc_b = Dyadic 3 2\<rparr>"

record ranked_search_hit =
  rh_id :: bytes
  rh_document :: bytes
  rh_score :: f64

definition corrupt :: "string \<Rightarrow> failure" where
  "corrupt message = Err (Corrupted message)"

definition ok_or :: "failure \<Rightarrow> 'a option \<Rightarrow> 'a result" where
  "ok_or e x = (case x of None \<Rightarrow> Inl e | Some y \<Rightarrow> Inr y)"

section \<open>Integers and components\<close>

text \<open>\<open>bytes.get(cursor..end)\<close>\<close>

definition get_slice :: "bytes \<Rightarrow> nat \<Rightarrow> nat \<Rightarrow> bytes option" where
  "get_slice bs cursor stop = (if cursor \<le> stop \<and> stop \<le> length bs then Some (take (stop - cursor) (drop cursor bs)) else None)"

text \<open>The cursor the functions advance is returned with the value.\<close>

definition fts_read_u32 :: "bytes \<Rightarrow> nat \<Rightarrow> (u32 \<times> nat) result" where
  "fts_read_u32 bs cursor =
     (let stop = cursor + 4 in
      if usize_max < stop then Inl (corrupt ''length overflow'')
      else rbind (ok_or (corrupt ''truncated length'') (get_slice bs cursor stop)) (\<lambda>b. Inr (u32_of_be b, stop)))"

definition fts_read_u64 :: "bytes \<Rightarrow> nat \<Rightarrow> (u64 \<times> nat) result" where
  "fts_read_u64 bs cursor =
     (let stop = cursor + 8 in
      if usize_max < stop then Inl (corrupt ''length overflow'')
      else rbind (ok_or (corrupt ''truncated integer'') (get_slice bs cursor stop)) (\<lambda>b. Inr (u64_of_be b, stop)))"

definition decode_u64 :: "bytes \<Rightarrow> u64 result" where
  "decode_u64 bs =
     rbind (fts_read_u64 bs 0) (\<lambda>(v, cursor).
     if cursor \<noteq> length bs then Inl (corrupt ''malformed integer'') else Inr v)"

definition encode_stats :: "u64 \<Rightarrow> u64 \<Rightarrow> bytes" where
  "encode_stats n t = u64_be n @ u64_be t"

definition decode_stats :: "bytes \<Rightarrow> (u64 \<times> u64) result" where
  "decode_stats bs =
     (if length bs \<noteq> 16 then Inl (corrupt ''malformed FTS corpus statistics'')
      else
        rbind (decode_u64 (take 8 bs)) (\<lambda>count.
        rbind (decode_u64 (drop 8 bs)) (\<lambda>total.
        if count = 0 \<and> total \<noteq> 0 then Inl (corrupt ''invalid FTS corpus statistics'') else Inr (count, total))))"

definition read_component :: "bytes \<Rightarrow> nat \<Rightarrow> (bytes \<times> nat) result" where
  "read_component bs cursor =
     rbind (fts_read_u32 bs cursor) (\<lambda>(len, cursor).
     let stop = cursor + unat len in
     if usize_max < stop then Inl (corrupt ''length overflow'')
     else rbind (ok_or (corrupt ''truncated component'') (get_slice bs cursor stop)) (\<lambda>v. Inr (v, stop)))"

text \<open>What \<open>encode_component\<close> appends to its output.\<close>

definition encode_component :: "bytes \<Rightarrow> bytes result" where
  "encode_component v =
     (if 2 ^ 32 \<le> length v then Inl (Err (StorageError ''FTS component too long''))
      else Inr (u32_be (of_nat (length v)) @ v))"

section \<open>Keys\<close>

definition record_key :: "byte \<Rightarrow> bytes \<Rightarrow> bytes result" where
  "record_key marker did = rbind (encode_component did) (\<lambda>c. Inr (NAMESPACE @ [marker] @ c))"

definition document_key :: "bytes \<Rightarrow> bytes result" where
  "document_key did = record_key DOCUMENT_MARKER did"

definition forward_key :: "bytes \<Rightarrow> bytes result" where
  "forward_key did = record_key FORWARD_MARKER did"

definition posting_prefix :: "bytes \<Rightarrow> bytes result" where
  "posting_prefix term = rbind (encode_component term) (\<lambda>c. Inr (NAMESPACE @ [POSTING_MARKER] @ c))"

definition posting_key :: "bytes \<Rightarrow> bytes \<Rightarrow> bytes result" where
  "posting_key term did =
     rbind (posting_prefix term) (\<lambda>key. rbind (encode_component did) (\<lambda>c. Inr (key @ c)))"

definition df_key :: "bytes \<Rightarrow> bytes result" where
  "df_key term = rbind (encode_component term) (\<lambda>c. Inr (NAMESPACE @ [DF_MARKER] @ c))"

text \<open>\<open>upper\<close> backwards; a prefix of bytes 255 has no successor.\<close>

fun successor_rev :: "bytes \<Rightarrow> bytes option" where
  "successor_rev [] = None"
| "successor_rev (b # bs) = (if b \<noteq> 255 then Some (rev ((b + 1) # bs)) else successor_rev bs)"

definition prefix_successor :: "bytes \<Rightarrow> bytes option" where
  "prefix_successor pre = successor_rev (rev pre)"

definition prefix_range :: "bytes \<Rightarrow> key_range" where
  "prefix_range pre =
     (Included pre, case prefix_successor pre of None \<Rightarrow> Unbounded | Some upper \<Rightarrow> Excluded upper)"

definition namespace_range :: key_range where
  "namespace_range = prefix_range NAMESPACE"

definition starts_with :: "bytes \<Rightarrow> bytes \<Rightarrow> bool" where
  "starts_with key pre \<longleftrightarrow> take (length pre) key = pre"

definition reserved :: "bytes \<Rightarrow> bool" where
  "reserved key \<longleftrightarrow> starts_with key NAMESPACE"

definition reserved_error :: db_error where
  "reserved_error = StorageError ''key belongs to the reserved FTS namespace''"

section \<open>Records\<close>

definition try_sum :: "failure \<Rightarrow> u64 list \<Rightarrow> u64 result" where
  "try_sum e tfs = rfold (\<lambda>tf sum. ok_or e (checked_add sum tf)) tfs 0"

definition encode_terms :: "terms \<Rightarrow> bytes result" where
  "encode_terms terms =
     rbind (try_sum (Err (StorageError ''FTS document length overflow'')) (map snd terms)) (\<lambda>len.
     rfold (\<lambda>(term, tf) bs. rbind (encode_component term) (\<lambda>c. Inr (bs @ c @ u64_be tf))) terms
       (u64_be (of_nat (length terms)) @ u64_be len))"

text \<open>One round of the loop of \<open>decode_terms\<close>: the cursor, the terms so far, their length and the last one.\<close>

type_synonym decode_state = "nat \<times> terms \<times> u64 \<times> bytes option"

definition decode_term :: "unicode \<Rightarrow> bytes \<Rightarrow> nat \<Rightarrow> decode_state \<Rightarrow> decode_state result" where
  "decode_term u bs i st =
     (case st of (cursor, terms, observed_length, previous) \<Rightarrow>
        rbind (read_component bs cursor) (\<lambda>(term, cursor).
        if \<not> utf8_valid term then Inl (corrupt ''invalid UTF-8 term'')
        else
          rbind (fts_read_u64 bs cursor) (\<lambda>(tf, cursor).
          if term = [] \<or> str_to_lowercase u term \<noteq> term then Inl (corrupt ''non-normalized forward term'')
          else if tf = 0 \<or> (case previous of None \<Rightarrow> False | Some previous \<Rightarrow> term \<le> previous)
            then Inl (corrupt ''invalid forward term frequency'')
          else
            rbind (ok_or (corrupt ''document length overflow'') (checked_add observed_length tf)) (\<lambda>observed_length.
            Inr (cursor, bt_insert term tf terms, observed_length, Some term)))))"

definition decode_terms :: "unicode \<Rightarrow> bytes \<Rightarrow> (terms \<times> u64) result" where
  "decode_terms u bs =
     rbind (fts_read_u64 bs 0) (\<lambda>(count, cursor).
     rbind (fts_read_u64 bs cursor) (\<lambda>(len, cursor).
     if (length bs - cursor) div 12 < unat count then Inl (corrupt ''impossible forward term count'')
     else
       rbind (rfold (decode_term u bs) [0..<unat count] (cursor, [], 0, None)) (\<lambda>(cursor, terms, observed_length, _).
       if cursor \<noteq> length bs \<or> observed_length \<noteq> len then Inl (corrupt ''malformed forward record'')
       else Inr (terms, len))))"

definition parse_posting :: "bytes \<Rightarrow> bytes \<Rightarrow> bytes \<Rightarrow> (bytes \<times> u64) result" where
  "parse_posting pre key v =
     (if \<not> starts_with key pre then Inl (corrupt ''malformed posting record'')
      else
        rbind (read_component key (length pre)) (\<lambda>(did, cursor).
        if \<not> utf8_valid did then Inl (corrupt ''invalid UTF-8 posting ID'')
        else if cursor \<noteq> length key then Inl (corrupt ''trailing posting key bytes'')
        else
          rbind (map_err (Corrupted ''empty posting ID'') (DocumentId_new did)) (\<lambda>did.
          rbind (decode_u64 v) (\<lambda>tf. Inr (did, tf)))))"

section \<open>Loading\<close>

definition load_stats :: "'s kv_api \<Rightarrow> ('s, u64 \<times> u64) io" where
  "load_stats engine =
     io_bind (ka_get engine STATS_KEY) (\<lambda>v.
     io_bind (io_lift (ok_or (corrupt ''missing FTS corpus statistics'') v)) (\<lambda>v.
     io_lift (decode_stats v)))"

definition load_df :: "'s kv_api \<Rightarrow> bytes \<Rightarrow> ('s, u64) io" where
  "load_df engine term =
     io_bind (io_lift (df_key term)) (\<lambda>key.
     io_bind (ka_get engine key) (\<lambda>v.
     case v of
       None \<Rightarrow> io_return 0
     | Some v \<Rightarrow>
         io_bind (io_lift (decode_u64 v)) (\<lambda>df.
         if df = 0 then io_lift (Inl (corrupt ''zero document frequency'')) else io_return df)))"

text \<open>The postings of a document against its forward record.\<close>

definition check_posting :: "'s kv_api \<Rightarrow> bytes \<Rightarrow> bytes \<times> u64 \<Rightarrow> unit \<Rightarrow> ('s, unit) io" where
  "check_posting engine did entry _ =
     (case entry of (term, tf) \<Rightarrow>
        io_bind (io_lift (posting_key term did)) (\<lambda>key.
        io_bind (ka_get engine key) (\<lambda>v.
        case v of
          Some v \<Rightarrow>
            io_bind (io_lift (decode_u64 v)) (\<lambda>n.
            if n = tf then io_return () else io_lift (Inl (corrupt ''forward term and posting disagree'')))
        | None \<Rightarrow> io_lift (Inl (corrupt ''forward term and posting disagree'')))))"

definition load_document_state ::
  "unicode \<Rightarrow> 's kv_api \<Rightarrow> bytes \<Rightarrow> ('s, (bytes \<times> terms \<times> u64) option) io" where
  "load_document_state u engine did =
     io_bind (io_lift (document_key did)) (\<lambda>key.
     io_bind (ka_get engine key) (\<lambda>document.
     io_bind (io_lift (forward_key did)) (\<lambda>key.
     io_bind (ka_get engine key) (\<lambda>forward.
     case (document, forward) of
       (None, None) \<Rightarrow> io_return None
     | (Some document, Some forward) \<Rightarrow>
         if \<not> utf8_valid document then io_lift (Inl (corrupt ''stored document is not UTF-8''))
         else
           io_bind (io_lift (decode_terms u forward)) (\<lambda>(terms, len).
           if terms \<noteq> tokenize u document then io_lift (Inl (corrupt ''document and forward terms disagree''))
           else
             io_bind (io_fold (check_posting engine did) terms ()) (\<lambda>_.
             io_return (Some (document, terms, len))))
     | _ \<Rightarrow> io_lift (Inl (corrupt ''document and forward index disagree''))))))"

definition validate_posting :: "unicode \<Rightarrow> 's kv_api \<Rightarrow> bytes \<Rightarrow> bytes \<Rightarrow> ('s, unit) io" where
  "validate_posting u engine did term =
     io_bind (load_document_state u engine did) (\<lambda>state.
     case state of
       None \<Rightarrow> io_lift (Inl (corrupt ''posting references a missing document''))
     | Some (_, terms, _) \<Rightarrow>
         if map_of terms term = None then io_lift (Inl (corrupt ''posting is absent from forward index''))
         else io_return ())"

section \<open>Opening\<close>

definition FtsIndex_open :: "'s kv_api \<Rightarrow> ('s, unit) io" where
  "FtsIndex_open engine =
     io_bind (ka_await_pending_writes engine) (\<lambda>_.
     let metadata = [FORMAT_VERSION, TOKENIZER_VERSION] in
     io_bind (ka_get engine META_KEY) (\<lambda>v.
     case v of
       Some v \<Rightarrow>
         if v = metadata then io_return ()
         else if v = [1, TOKENIZER_VERSION] then io_lift (Inl (corrupt ''FTS format 1 requires rebuilding the index''))
         else io_lift (Inl (corrupt ''unknown or malformed FTS metadata''))
     | None \<Rightarrow>
         io_bind (ka_scan engine namespace_range) (\<lambda>rows.
         if rows \<noteq> [] then io_lift (Inl (corrupt ''FTS records exist without metadata''))
         else ka_write_batch engine [Batch_Put META_KEY metadata, Batch_Put STATS_KEY (encode_stats 0 0)])))"

section \<open>Documents\<close>

definition old_terms_of :: "(bytes \<times> terms \<times> u64) option \<Rightarrow> terms" where
  "old_terms_of old = (case old of None \<Rightarrow> [] | Some (_, terms, _) \<Rightarrow> terms)"

definition old_length_of :: "(bytes \<times> terms \<times> u64) option \<Rightarrow> u64" where
  "old_length_of old = (case old of None \<Rightarrow> 0 | Some (_, _, len) \<Rightarrow> len)"

definition frequency :: "terms \<Rightarrow> bytes \<Rightarrow> u64" where
  "frequency terms term = (case map_of terms term of None \<Rightarrow> 0 | Some tf \<Rightarrow> tf)"

text \<open>The operation that stores a counter, or removes it when it is zero.\<close>

definition counter_operation :: "bytes \<Rightarrow> u64 \<Rightarrow> batch_operation" where
  "counter_operation key n = (if n = 0 then Batch_Delete key else Batch_Put key (u64_be n))"

definition put_term ::
  "'s kv_api \<Rightarrow> bytes \<Rightarrow> terms \<Rightarrow> terms \<Rightarrow> bytes \<Rightarrow> batch_operation list \<Rightarrow> ('s, batch_operation list) io" where
  "put_term engine did old_frequency frequencies term operations =
     (let previous = frequency old_frequency term; following = frequency frequencies term in
      if previous \<noteq> following then
        io_bind (load_df engine term) (\<lambda>df.
        io_bind (io_lift
          (if previous = 0 \<and> following \<noteq> 0 then ok_or (corrupt ''document frequency overflow'') (checked_add df 1)
           else if previous \<noteq> 0 \<and> following = 0 then ok_or (corrupt ''document frequency underflow'') (checked_sub df 1)
           else Inr df)) (\<lambda>updated.
        io_bind (io_lift (df_key term)) (\<lambda>dkey.
        io_bind (io_lift (posting_key term did)) (\<lambda>pkey.
        io_return (operations @ [counter_operation dkey updated, counter_operation pkey following])))))
      else io_return operations)"

definition put_document :: "unicode \<Rightarrow> 's kv_api \<Rightarrow> bytes \<Rightarrow> bytes \<Rightarrow> ('s, unit) io" where
  "put_document u engine did document =
     io_bind (ka_await_pending_writes engine) (\<lambda>_.
     if \<not> utf8_valid document then io_fail (StorageError ''document is not valid UTF-8'')
     else
       let frequencies = tokenize u document in
       io_bind (load_document_state u engine did) (\<lambda>old.
       io_bind (load_stats engine) (\<lambda>(n, total).
       let old_frequency = old_terms_of old; old_length = old_length_of old in
       io_bind (io_lift (try_sum (corrupt ''document length overflow'') (map snd frequencies))) (\<lambda>new_length.
       io_bind (io_lift (if old = None then ok_or (corrupt ''document count overflow'') (checked_add n 1) else Inr n)) (\<lambda>n.
       io_bind (io_lift (ok_or (corrupt ''corpus length overflow'')
                  (Option.bind (checked_sub total old_length) (\<lambda>v. checked_add v new_length)))) (\<lambda>total.
       io_bind (io_fold (put_term engine did old_frequency frequencies)
                  (btree_set (map fst old_frequency @ map fst frequencies)) []) (\<lambda>operations.
       io_bind (io_lift (document_key did)) (\<lambda>dkey.
       io_bind (io_lift (forward_key did)) (\<lambda>fkey.
       io_bind (io_lift (encode_terms frequencies)) (\<lambda>forward.
       ka_write_batch engine
         (operations @ [Batch_Put dkey document, Batch_Put fkey forward, Batch_Put STATS_KEY (encode_stats n total)])))))))))))"

definition delete_term ::
  "'s kv_api \<Rightarrow> bytes \<Rightarrow> bytes \<Rightarrow> batch_operation list \<Rightarrow> ('s, batch_operation list) io" where
  "delete_term engine did term operations =
     io_bind (load_df engine term) (\<lambda>df.
     io_bind (io_lift (ok_or (corrupt ''document frequency underflow'') (checked_sub df 1))) (\<lambda>df.
     io_bind (io_lift (df_key term)) (\<lambda>dkey.
     io_bind (io_lift (posting_key term did)) (\<lambda>pkey.
     io_return (operations @ [counter_operation dkey df, Batch_Delete pkey])))))"

definition delete_document :: "unicode \<Rightarrow> 's kv_api \<Rightarrow> bytes \<Rightarrow> ('s, bool) io" where
  "delete_document u engine did =
     io_bind (ka_await_pending_writes engine) (\<lambda>_.
     io_bind (load_document_state u engine did) (\<lambda>state.
     case state of
       None \<Rightarrow> io_return False
     | Some (_, terms, len) \<Rightarrow>
         io_bind (load_stats engine) (\<lambda>(n, total).
         io_bind (io_lift (ok_or (corrupt ''document count underflow'') (checked_sub n 1))) (\<lambda>n.
         io_bind (io_lift (ok_or (corrupt ''corpus length underflow'') (checked_sub total len))) (\<lambda>total.
         io_bind (io_fold (delete_term engine did) (map fst terms) []) (\<lambda>operations.
         io_bind (io_lift (document_key did)) (\<lambda>dkey.
         io_bind (io_lift (forward_key did)) (\<lambda>fkey.
         io_bind (ka_write_batch engine
           (operations @ [Batch_Delete dkey, Batch_Delete fkey, Batch_Put STATS_KEY (encode_stats n total)])) (\<lambda>_.
         io_return True)))))))))"

definition get_document :: "unicode \<Rightarrow> 's kv_api \<Rightarrow> bytes \<Rightarrow> ('s, bytes option) io" where
  "get_document u engine did =
     io_bind (ka_await_pending_writes engine) (\<lambda>_.
     io_bind (load_document_state u engine did) (\<lambda>state.
     io_return (map_option fst state)))"

section \<open>Batches of documents\<close>

type_synonym document_state = "(bytes \<times> terms \<times> u64) option"

text \<open>
  Deltas are \<open>i64\<close> in the source; a batch has at most 256 documents, each of which changes a delta by
  one, so they are integers here. The loop over the documents carries the count, the total length, the
  deltas and the operations.
\<close>

type_synonym batch_state = "u64 \<times> u64 \<times> (bytes, int) btree_map \<times> batch_operation list"

definition add_delta :: "bytes \<Rightarrow> int \<Rightarrow> (bytes, int) btree_map \<Rightarrow> (bytes, int) btree_map" where
  "add_delta term d df_deltas =
     bt_insert term ((case map_of df_deltas term of None \<Rightarrow> 0 | Some n \<Rightarrow> n) + d) df_deltas"

definition batch_term ::
  "bytes \<Rightarrow> terms \<Rightarrow> terms \<Rightarrow> bytes \<Rightarrow> (bytes, int) btree_map \<times> batch_operation list \<Rightarrow>
   ((bytes, int) btree_map \<times> batch_operation list) result" where
  "batch_term did old_terms frequencies term st =
     (let previous = frequency old_terms term; following = frequency frequencies term in
      if previous \<noteq> following then
        (let df_deltas =
           (if previous = 0 \<and> following \<noteq> 0 then add_delta term 1 (fst st)
            else if previous \<noteq> 0 \<and> following = 0 then add_delta term (- 1) (fst st)
            else fst st)
         in rbind (posting_key term did) (\<lambda>key. Inr (df_deltas, snd st @ [counter_operation key following])))
      else Inr st)"

definition batch_document ::
  "(bytes, document_state) btree_map \<Rightarrow> bytes \<times> bytes \<times> terms \<Rightarrow> batch_state \<Rightarrow> batch_state result" where
  "batch_document old_states entry st =
     (case (entry, st) of ((did, document, frequencies), (n, corpus, df_deltas, operations)) \<Rightarrow>
        rbind (ok_or (Panic ''state loaded for every batch ID'') (map_of old_states did)) (\<lambda>old.
        let old_terms = old_terms_of old; old_length = old_length_of old in
        rbind (try_sum (corrupt ''document length overflow'') (map snd frequencies)) (\<lambda>new_length.
        rbind (if old = None then ok_or (corrupt ''document count overflow'') (checked_add n 1) else Inr n) (\<lambda>n.
        rbind (ok_or (corrupt ''corpus length overflow'')
                 (Option.bind (checked_sub corpus old_length) (\<lambda>v. checked_add v new_length))) (\<lambda>corpus.
        rbind (rfold (batch_term did old_terms frequencies) (btree_set (map fst old_terms @ map fst frequencies))
                 (df_deltas, operations)) (\<lambda>(df_deltas, operations).
        rbind (document_key did) (\<lambda>dkey.
        rbind (forward_key did) (\<lambda>fkey.
        rbind (encode_terms frequencies) (\<lambda>forward.
        Inr (n, corpus, df_deltas, operations @ [Batch_Put dkey document, Batch_Put fkey forward]))))))))))"

definition batch_delta ::
  "'s kv_api \<Rightarrow> bytes \<times> int \<Rightarrow> batch_operation list \<Rightarrow> ('s, batch_operation list) io" where
  "batch_delta engine entry operations =
     (case entry of (term, delta) \<Rightarrow>
        io_bind (load_df engine term) (\<lambda>current.
        io_bind (io_lift
          (if 0 \<le> delta then ok_or (corrupt ''document frequency overflow'') (checked_add current (of_int delta))
           else ok_or (corrupt ''document frequency underflow'') (checked_sub current (of_int (- delta))))) (\<lambda>updated.
        io_bind (io_lift (df_key term)) (\<lambda>key.
        io_return (operations @ [counter_operation key updated])))))"

definition operation_mutation_bytes :: "batch_operation \<Rightarrow> nat" where
  "operation_mutation_bytes op =
     (case op of Batch_Put key v \<Rightarrow> length key + length v | Batch_Delete key \<Rightarrow> length key) + WAL_UPDATE_FRAME_OVERHEAD_BYTES"

text \<open>The checks after planning, which only look at the operations.\<close>

definition check_mutations :: "batch_operation list \<Rightarrow> unit result" where
  "check_mutations operations =
     (let mutation_bytes = sum_list (map operation_mutation_bytes operations) in
      rbind (guard_err (usize_max < mutation_bytes) (StorageError ''FTS mutation size overflow'')) (\<lambda>_.
      let encoded_transaction_bytes = mutation_bytes + WAL_COMMIT_FRAME_BYTES in
      rbind (guard_err (usize_max < encoded_transaction_bytes) (StorageError ''FTS mutation size overflow'')) (\<lambda>_.
      guard_err (MAX_DOCUMENT_BATCH_MUTATIONS < length operations
                 \<or> MAX_DOCUMENT_BATCH_MUTATION_BYTES < encoded_transaction_bytes)
        (StorageError ''FTS document batch exceeds mutation limit''))))"

definition final_documents :: "unicode \<Rightarrow> (bytes \<times> bytes) list \<Rightarrow> (bytes, bytes \<times> terms) btree_map result" where
  "final_documents u documents =
     rfold (\<lambda>(did, document) final.
       if \<not> utf8_valid document then Inl (Err (StorageError ''document is not valid UTF-8''))
       else Inr (bt_insert did (document, tokenize u document) final)) documents []"

text \<open>The rest of a batch once its documents are read: the counters, the checks and the one write;
  and before it the states the documents have and the loop over them.\<close>

definition write_documents :: "'s kv_api \<Rightarrow> u64 \<times> u64 \<times> (bytes, int) btree_map \<times> batch_operation list \<Rightarrow> ('s, unit) io" where
  "write_documents engine = (\<lambda>(n, total, df_deltas, operations).
     io_bind (io_fold (batch_delta engine) df_deltas operations) (\<lambda>operations.
     let operations = operations @ [Batch_Put STATS_KEY (encode_stats n total)] in
     io_bind (io_lift (check_mutations operations)) (\<lambda>_.
     ka_write_batch engine operations)))"

definition index_documents :: "unicode \<Rightarrow> 's kv_api \<Rightarrow> (bytes, bytes \<times> terms) btree_map \<Rightarrow> ('s, unit) io" where
  "index_documents u engine final =
     io_bind (ka_await_pending_writes engine) (\<lambda>_.
     io_bind (io_fold (\<lambda>did states.
         io_bind (load_document_state u engine did) (\<lambda>old. io_return (bt_insert did old states)))
       (map fst final) []) (\<lambda>old_states.
     io_bind (load_stats engine) (\<lambda>(n, total).
     io_bind (io_lift (rfold (batch_document old_states) final (n, total, [], [])))
       (write_documents engine))))"

definition put_documents :: "unicode \<Rightarrow> 's kv_api \<Rightarrow> (bytes \<times> bytes) list \<Rightarrow> ('s, unit) io" where
  "put_documents u engine documents =
     (if documents = [] then io_return ()
      else if MAX_DOCUMENT_BATCH_DOCUMENTS < length documents
        then io_fail (StorageError ''FTS document batch exceeds document limit'')
      else
        let input_bytes = sum_list (map (\<lambda>d. length (snd d)) documents) in
        if usize_max < input_bytes then io_fail (StorageError ''FTS document batch size overflow'')
        else if MAX_DOCUMENT_BATCH_INPUT_BYTES < input_bytes
          then io_fail (StorageError ''FTS document batch exceeds input byte limit'')
        else io_bind (io_lift (final_documents u documents)) (index_documents u engine))"

section \<open>Search\<close>

definition query_input :: "fts_query \<Rightarrow> bytes list" where
  "query_input query = (case query of Fts_And terms \<Rightarrow> terms | Fts_Or terms \<Rightarrow> terms)"

definition query_is_and :: "fts_query \<Rightarrow> bool" where
  "query_is_and query = (case query of Fts_And _ \<Rightarrow> True | Fts_Or _ \<Rightarrow> False)"

text \<open>The checks both searches start with.\<close>

definition query_terms :: "unicode \<Rightarrow> fts_query \<Rightarrow> nat \<Rightarrow> bytes list result" where
  "query_terms u query limit =
     (if MAX_LIMIT < limit then Inl (Err (StorageError ''FTS result limit exceeds 1000''))
      else
        let terms = normalize_terms u (query_input query) in
        if terms = [] then Inl (Err (StorageError ''FTS query contains no searchable terms''))
        else if MAX_QUERY_TERMS < length terms then Inl (Err (StorageError ''FTS query exceeds 32 distinct terms''))
        else Inr terms)"

text \<open>The rows of a term, with each posting checked against the document it names.\<close>

definition posting_row ::
  "unicode \<Rightarrow> 's kv_api \<Rightarrow> bytes \<Rightarrow> bytes \<Rightarrow> bytes \<times> bytes \<Rightarrow> (bytes, u64) btree_map \<Rightarrow>
   ('s, (bytes, u64) btree_map) io" where
  "posting_row u engine pre term row postings =
     io_bind (io_lift (parse_posting pre (fst row) (snd row))) (\<lambda>(did, tf).
     if tf = 0 then io_lift (Inl (corrupt ''zero posting frequency''))
     else io_bind (validate_posting u engine did term) (\<lambda>_. io_return (bt_insert did tf postings)))"

definition posting_set ::
  "unicode \<Rightarrow> 's kv_api \<Rightarrow> bytes \<Rightarrow> bytes list list \<Rightarrow> ('s, bytes list list) io" where
  "posting_set u engine term posting_sets =
     io_bind (io_lift (posting_prefix term)) (\<lambda>pre.
     io_bind (ka_scan engine (prefix_range pre)) (\<lambda>rows.
     io_bind (io_fold (posting_row u engine pre term) rows []) (\<lambda>ids.
     io_return (posting_sets @ [map fst ids]))))"

definition intersect_all :: "bytes list list \<Rightarrow> bytes list" where
  "intersect_all posting_sets =
     (case sort_key length posting_sets of
        [] \<Rightarrow> []
      | ids # rest \<Rightarrow> fold (\<lambda>ids current. filter (\<lambda>did. did \<in> set ids) current) rest ids)"

definition hit_of :: "'s kv_api \<Rightarrow> bytes \<Rightarrow> search_hit list \<Rightarrow> ('s, search_hit list) io" where
  "hit_of engine did hits =
     io_bind (io_lift (document_key did)) (\<lambda>key.
     io_bind (ka_get engine key) (\<lambda>document.
     io_bind (io_lift (ok_or (corrupt ''posting references a missing document'') document)) (\<lambda>document.
     io_return (hits @ [\<lparr>sh_id = did, sh_document = document\<rparr>]))))"

definition search :: "unicode \<Rightarrow> 's kv_api \<Rightarrow> fts_query \<Rightarrow> nat \<Rightarrow> ('s, search_hit list) io" where
  "search u engine query limit =
     io_bind (ka_await_pending_writes engine) (\<lambda>_.
     io_bind (io_lift (query_terms u query limit)) (\<lambda>terms.
     if limit = 0 then io_return []
     else
       io_bind (io_fold (posting_set u engine) terms []) (\<lambda>posting_sets.
       let matches = (if query_is_and query then intersect_all posting_sets else btree_set (concat posting_sets))
       in io_fold (hit_of engine) (take limit matches) [])))"

section \<open>Ranked search\<close>

text \<open>
  \<open>f64_ln\<close> stands for \<open>f64::ln\<close>, whose precision the standard library leaves open. A score is finite when
  the hits are sorted, and \<open>total_cmp\<close> then orders by value.
\<close>

definition check_empty_term :: "'s kv_api \<Rightarrow> bytes \<Rightarrow> unit \<Rightarrow> ('s, unit) io" where
  "check_empty_term engine term _ =
     io_bind (load_df engine term) (\<lambda>df.
     if df \<noteq> 0 then io_lift (Inl (corrupt ''zero corpus length has indexed terms''))
     else
       io_bind (io_lift (posting_prefix term)) (\<lambda>pre.
       io_bind (ka_scan engine (prefix_range pre)) (\<lambda>rows.
       if rows \<noteq> [] then io_lift (Inl (corrupt ''zero corpus length has indexed terms'')) else io_return ())))"

type_synonym ranked_entry = "bytes \<times> f64 \<times> (bytes, u64) btree_map"

definition inverse_document_frequency :: "(f64 \<Rightarrow> f64) \<Rightarrow> u64 \<Rightarrow> u64 \<Rightarrow> f64" where
  "inverse_document_frequency f64_ln n df =
     f64_sub (f64_ln (f64_add (f64_of_u64 n) (Dyadic 1 0))) (f64_ln (f64_add (f64_of_u64 df) (Dyadic 1 1)))"

definition ranked_term ::
  "unicode \<Rightarrow> (f64 \<Rightarrow> f64) \<Rightarrow> 's kv_api \<Rightarrow> u64 \<Rightarrow> bytes \<Rightarrow> ranked_entry list \<Rightarrow> ('s, ranked_entry list) io" where
  "ranked_term u f64_ln engine n term per_term =
     io_bind (load_df engine term) (\<lambda>df.
     if n < df then io_lift (Inl (corrupt ''document frequency exceeds document count''))
     else
       io_bind (io_lift (posting_prefix term)) (\<lambda>pre.
       io_bind (ka_scan engine (prefix_range pre)) (\<lambda>rows.
       io_bind (io_fold (posting_row u engine pre term) rows []) (\<lambda>frequencies.
       if of_nat (length frequencies) \<noteq> df then io_lift (Inl (corrupt ''document frequency disagrees with postings''))
       else
         let idf = inverse_document_frequency f64_ln n df in
         if \<not> is_finite idf \<or> f64_lt idf (Dyadic 0 0)
         then io_lift (Inl (corrupt ''invalid BM25 inverse document frequency''))
         else io_return (per_term @ [(term, idf, frequencies)])))))"

definition length_factor :: "bm25_config \<Rightarrow> f64 \<Rightarrow> u64 \<Rightarrow> f64" where
  "length_factor config average len =
     f64_add (f64_sub (Dyadic 1 0) (bc_b config)) (f64_mul (bc_b config) (f64_div (f64_of_u64 len) average))"

definition contribution :: "bm25_config \<Rightarrow> f64 \<Rightarrow> f64 \<Rightarrow> u64 \<Rightarrow> f64" where
  "contribution config factor idf tf =
     (let tf = f64_of_u64 tf; k1 = bc_k1 config in
      if f64_le k1 (Dyadic 1 0)
      then f64_div (f64_mul idf (f64_mul tf (f64_add (Dyadic 1 0) k1))) (f64_add tf (f64_mul k1 factor))
      else
        let k1_inverse = f64_div (Dyadic 1 0) k1 in
        f64_div (f64_mul idf (f64_mul tf (f64_add (Dyadic 1 0) k1_inverse))) (f64_add (f64_mul tf k1_inverse) factor))"

definition score_term ::
  "bm25_config \<Rightarrow> f64 \<Rightarrow> bytes \<Rightarrow> terms \<Rightarrow> u64 \<Rightarrow> ranked_entry \<Rightarrow> f64 \<Rightarrow> f64 result" where
  "score_term config average did forward len entry score =
     (case entry of (term, idf, postings) \<Rightarrow>
        case map_of postings did of
          None \<Rightarrow> Inr score
        | Some tf \<Rightarrow>
            let factor = length_factor config average len; c = contribution config factor idf tf in
            if \<not> is_finite c \<or> f64_le factor (Dyadic 0 0) \<or> map_of forward term = None
            then Inl (corrupt ''invalid BM25 score state'')
            else Inr (f64_add score c))"

definition score_document ::
  "unicode \<Rightarrow> 's kv_api \<Rightarrow> bm25_config \<Rightarrow> f64 \<Rightarrow> ranked_entry list \<Rightarrow> bytes \<Rightarrow> ranked_search_hit list \<Rightarrow>
   ('s, ranked_search_hit list) io" where
  "score_document u engine config average per_term did ranked =
     io_bind (load_document_state u engine did) (\<lambda>state.
     io_bind (io_lift (ok_or (corrupt ''posting references a missing document'') state)) (\<lambda>(document, forward, len).
     io_bind (io_lift (rfold (score_term config average did forward len) per_term (Dyadic 0 0))) (\<lambda>score.
     if \<not> is_finite score then io_lift (Inl (corrupt ''BM25 score overflow''))
     else io_return (ranked @ [\<lparr>rh_id = did, rh_document = document, rh_score = score\<rparr>]))))"

definition candidates_of :: "bool \<Rightarrow> ranked_entry list \<Rightarrow> bytes list" where
  "candidates_of is_and per_term =
     (let candidates = btree_set (concat (map (\<lambda>(_, _, frequencies). map fst frequencies) per_term))
      in if is_and
         then filter (\<lambda>did. list_all (\<lambda>(_, _, postings). map_of postings did \<noteq> None) per_term) candidates
         else candidates)"

definition search_ranked ::
  "unicode \<Rightarrow> (f64 \<Rightarrow> f64) \<Rightarrow> 's kv_api \<Rightarrow> fts_query \<Rightarrow> nat \<Rightarrow> bm25_config \<Rightarrow> ('s, ranked_search_hit list) io" where
  "search_ranked u f64_ln engine query limit config =
     io_bind (ka_await_pending_writes engine) (\<lambda>_.
     io_bind (io_lift (query_terms u query limit)) (\<lambda>terms.
     io_bind (load_stats engine) (\<lambda>(n, total).
     if n = 0 \<or> total = 0 then
       (if n = 0 \<and> total \<noteq> 0 then io_lift (Inl (corrupt ''invalid FTS corpus statistics''))
        else io_bind (io_fold (check_empty_term engine) terms ()) (\<lambda>_. io_return []))
     else
       let average = f64_div (f64_of_u64 total) (f64_of_u64 n) in
       if \<not> is_finite average \<or> f64_le average (Dyadic 0 0)
       then io_lift (Inl (corrupt ''invalid average document length''))
       else
         io_bind (io_fold (ranked_term u f64_ln engine n) terms []) (\<lambda>per_term.
         io_bind (io_fold (score_document u engine config average per_term)
                    (candidates_of (query_is_and query) per_term) []) (\<lambda>ranked.
         io_return (take limit (sort_key (\<lambda>h. (- f64_value (rh_score h), rh_id h)) ranked)))))))"

section \<open>The index as an engine\<close>

definition fts_get :: "'s kv_api \<Rightarrow> bytes \<Rightarrow> ('s, bytes option) io" where
  "fts_get engine key =
     io_bind (ka_await_pending_writes engine) (\<lambda>_.
     if reserved key then io_fail reserved_error else ka_get engine key)"

definition fts_put :: "'s kv_api \<Rightarrow> bytes \<Rightarrow> bytes \<Rightarrow> ('s, unit) io" where
  "fts_put engine key v = (if reserved key then io_fail reserved_error else ka_put engine key v)"

definition fts_delete :: "'s kv_api \<Rightarrow> bytes \<Rightarrow> ('s, unit) io" where
  "fts_delete engine key = (if reserved key then io_fail reserved_error else ka_delete engine key)"

definition fts_write_batch :: "'s kv_api \<Rightarrow> batch_operation list \<Rightarrow> ('s, unit) io" where
  "fts_write_batch engine operations =
     (if list_ex (\<lambda>op. reserved (case op of Batch_Put key _ \<Rightarrow> key | Batch_Delete key \<Rightarrow> key)) operations
      then io_fail reserved_error else ka_write_batch engine operations)"

definition fts_scan :: "'s kv_api \<Rightarrow> key_range \<Rightarrow> ('s, (bytes \<times> bytes) list) io" where
  "fts_scan engine rng =
     io_bind (ka_await_pending_writes engine) (\<lambda>_.
     io_bind (ka_scan engine rng) (\<lambda>rows. io_return (filter (\<lambda>row. \<not> reserved (fst row)) rows)))"

definition fts_api :: "'s kv_api \<Rightarrow> 's kv_api" where
  "fts_api engine =
     \<lparr>ka_get = fts_get engine, ka_put = fts_put engine, ka_delete = fts_delete engine,
      ka_write_batch = fts_write_batch engine, ka_await_pending_writes = ka_await_pending_writes engine,
      ka_scan = fts_scan engine\<rparr>"

end
