(* ===== verification/Fts_Layout.thy ===== *)
theory Fts_Layout
  imports Fts
begin

text \<open>
  The records of the full-text index: what its encoders write its decoders read, its keys do not collide,
  and the range of a prefix holds exactly the keys that start with it.
\<close>

section \<open>Integers and components\<close>

lemma get_slice_append [simp]: "get_slice (xs @ ys @ zs) (length xs) (length xs + length ys) = Some ys"
  by (simp add: get_slice_def)

lemma fts_read_u64_be:
  assumes "length xs + 8 \<le> usize_max"
  shows "fts_read_u64 (xs @ u64_be n @ ys) (length xs) = Inr (n, length xs + 8)"
  using assms get_slice_append [of xs "u64_be n" ys] by (simp add: fts_read_u64_def ok_or_def)

lemma fts_read_u32_be:
  assumes "length xs + 4 \<le> usize_max"
  shows "fts_read_u32 (xs @ u32_be n @ ys) (length xs) = Inr (n, length xs + 4)"
  using assms get_slice_append [of xs "u32_be n" ys] by (simp add: fts_read_u32_def ok_or_def)

definition sized :: "bytes \<Rightarrow> bool" where
  "sized v \<longleftrightarrow> length v < 2 ^ 32"

definition component :: "bytes \<Rightarrow> bytes" where
  "component v = u32_be (of_nat (length v)) @ v"

definition too_long :: failure where
  "too_long = Err (StorageError ''FTS component too long'')"

lemma encode_component_eq: "encode_component v = (if sized v then Inr (component v) else Inl too_long)"
  by (auto simp: encode_component_def sized_def component_def too_long_def)

lemma length_component [simp]: "length (component v) = 4 + length v"
  by (simp add: component_def)

lemma read_component_at:
  assumes "sized v" and "length xs + 4 + length v \<le> usize_max"
  shows "read_component (xs @ component v @ ys) (length xs) = Inr (v, length xs + 4 + length v)"
proof -
  have len: "unat (of_nat (length v) :: u32) = length v" using assms(1) by (simp add: sized_def unat_of_nat_32)
  have "get_slice (xs @ component v @ ys) (length xs + 4) (length xs + 4 + length v) = Some v"
    using get_slice_append [of "xs @ u32_be (of_nat (length v))" v ys] by (simp add: component_def add.assoc)
  then show ?thesis
    using assms(2) fts_read_u32_be [of xs "of_nat (length v)" "v @ ys"]
    by (simp add: read_component_def component_def len Let_def ok_or_def)
qed

lemma component_inj:
  assumes "sized v" "sized w" "component v @ xs = component w @ ys"
  shows "v = w \<and> xs = ys"
proof -
  have "u32_be (of_nat (length v)) = u32_be (of_nat (length w))" using assms(3) by (simp add: component_def append_eq_append_conv)
  then have "(of_nat (length v) :: u32) = of_nat (length w)" by (metis int_of_bytes(1))
  then have "length v = length w" using assms(1,2) by (metis sized_def unat_of_nat_32)
  with assms(3) show ?thesis by (simp add: component_def append_eq_append_conv)
qed

lemma component_inj': "sized v \<Longrightarrow> sized w \<Longrightarrow> component v = component w \<longleftrightarrow> v = w"
  using component_inj [of v w "[]" "[]"] by auto

lemma components_inj:
  "sized v \<Longrightarrow> sized w \<Longrightarrow> sized v' \<Longrightarrow> sized w' \<Longrightarrow> component v @ component v' = component w @ component w' \<longleftrightarrow> v = w \<and> v' = w'"
  using component_inj [of v w "component v'" "component w'"] by (auto simp: component_inj')

lemma decode_u64_be [simp]: "decode_u64 (u64_be n) = Inr n"
  using fts_read_u64_be [of "[]" n "[]"] by (simp add: decode_u64_def size_bounds)

lemma decode_stats_encode: "(n = 0 \<longrightarrow> t = 0) \<Longrightarrow> decode_stats (encode_stats n t) = Inr (n, t)"
  by (simp add: decode_stats_def encode_stats_def)

section \<open>Forward records\<close>

definition forward_record :: "terms \<Rightarrow> bytes" where
  "forward_record terms =
     u64_be (of_nat (length terms)) @ u64_be (sum_list (map snd terms)) @ concat (map (\<lambda>(t, tf). component t @ u64_be tf) terms)"

lemma try_sum_from:
  "unat s + sum_list (map unat tfs) < 2 ^ 64 \<Longrightarrow>
     rfold (\<lambda>tf sum. ok_or e (checked_add sum tf)) tfs s = Inr (s + sum_list tfs)
     \<and> unat (s + sum_list tfs) = unat s + sum_list (map unat tfs)"
proof (induction tfs arbitrary: s)
  case (Cons tf tfs)
  then have add: "checked_add s tf = Some (s + tf)" by (simp add: checked_add_def)
  from Cons.IH [of "s + tf"] Cons.prems checked_add_Some [OF add] show ?case by (simp add: ok_or_def add algebra_simps)
qed simp

lemma try_sum_Inr:
  "sum_list (map unat tfs) < 2 ^ 64 \<Longrightarrow> try_sum e tfs = Inr (sum_list tfs) \<and> unat (sum_list tfs) = sum_list (map unat tfs)"
  using try_sum_from [of 0 tfs e] by (simp add: try_sum_def)

lemma encode_terms_loop:
  assumes "\<forall>t \<in> set (map fst terms). sized t"
  shows "rfold (\<lambda>(term, tf) bs. rbind (encode_component term) (\<lambda>c. Inr (bs @ c @ u64_be tf))) terms bs
     = Inr (bs @ concat (map (\<lambda>(t, tf). component t @ u64_be tf) terms))"
  using assms by (induction terms arbitrary: bs) (auto simp: encode_component_eq)

lemma encode_terms_loop_Inl:
  assumes "\<exists>t \<in> set (map fst terms). \<not> sized t"
  shows "rfold (\<lambda>(term, tf) bs. rbind (encode_component term) (\<lambda>c. Inr (bs @ c @ u64_be tf))) terms bs = Inl too_long"
  using assms
proof (induction terms arbitrary: bs)
  case (Cons e terms)
  then show ?case by (cases "sized (fst e)") (auto simp: encode_component_eq case_prod_beta)
qed simp

lemma encode_terms_eq:
  assumes "sum_list (map (\<lambda>e. unat (snd e)) terms) < 2 ^ 64"
  shows "encode_terms terms = (if \<forall>t \<in> set (map fst terms). sized t then Inr (forward_record terms) else Inl too_long)"
  using try_sum_Inr [of "map snd terms"] assms encode_terms_loop [of terms] encode_terms_loop_Inl [of terms]
  by (auto simp: encode_terms_def forward_record_def comp_def)

text \<open>What \<open>decode_terms\<close> accepts.\<close>

definition terms_ok :: "unicode \<Rightarrow> terms \<Rightarrow> bool" where
  "terms_ok u terms \<longleftrightarrow> bt_ok terms
     \<and> (\<forall>(t, tf) \<in> set terms. sized t \<and> t \<noteq> [] \<and> utf8_valid t \<and> str_to_lowercase u t = t \<and> tf \<noteq> 0)
     \<and> sum_list (map (\<lambda>e. unat (snd e)) terms) < 2 ^ 64 \<and> length (forward_record terms) \<le> usize_max"

lemma decode_term_step:
  assumes "sized t" "t \<noteq> []" "utf8_valid t" "str_to_lowercase u t = t" "tf \<noteq> 0" "\<forall>p. previous = Some p \<longrightarrow> p < t"
    and "unat n + unat tf < 2 ^ 64" and "length xs + 12 + length t \<le> usize_max"
  shows "decode_term u (xs @ component t @ u64_be tf @ ys) i (length xs, terms, n, previous)
     = Inr (length (xs @ component t @ u64_be tf), bt_insert t tf terms, n + tf, Some t)"
proof -
  have "read_component (xs @ component t @ u64_be tf @ ys) (length xs) = Inr (t, length xs + 4 + length t)"
    using read_component_at [OF assms(1), of xs "u64_be tf @ ys"] assms(8) by simp
  moreover have "fts_read_u64 (xs @ component t @ u64_be tf @ ys) (length xs + 4 + length t) = Inr (tf, length xs + 12 + length t)"
    using fts_read_u64_be [of "xs @ component t" tf ys] assms(8) by (simp add: add.assoc add.commute add.left_commute)
  ultimately show ?thesis
    using assms(2-7) by (auto simp: decode_term_def checked_add_def ok_or_def split: option.split)
qed

lemma decode_terms_loop:
  assumes "bt_ok (done_terms @ terms)" and "\<forall>(t, tf) \<in> set terms. sized t \<and> t \<noteq> [] \<and> utf8_valid t \<and> str_to_lowercase u t = t \<and> tf \<noteq> 0"
    and "unat n + sum_list (map (\<lambda>e. unat (snd e)) terms) < 2 ^ 64"
    and "length (xs @ concat (map (\<lambda>(t, tf). component t @ u64_be tf) terms)) \<le> usize_max"
    and "previous = (if done_terms = [] then None else Some (fst (last done_terms)))" and "length is = length terms"
  shows "\<exists>p. rfold (decode_term u (xs @ concat (map (\<lambda>(t, tf). component t @ u64_be tf) terms))) is (length xs, done_terms, n, previous)
     = Inr (length (xs @ concat (map (\<lambda>(t, tf). component t @ u64_be tf) terms)), done_terms @ terms, n + sum_list (map snd terms), p)"
  using assms
proof (induction terms arbitrary: done_terms n xs previous "is")
  case (Cons e terms)
  obtain t tf where e: "e = (t, tf)" by fastforce
  obtain i "is'" where "is": "is = i # is'" using Cons.prems(6) by (cases "is") auto
  let ?cs = "concat (map (\<lambda>(t, tf). component t @ u64_be tf) terms)"
  have less: "\<forall>k \<in> fst ` set done_terms. k < t" using Cons.prems(1) by (auto simp: e bt_ok_def sorted_wrt_append)
  have prev: "\<forall>p. previous = Some p \<longrightarrow> p < t" using Cons.prems(5) less by auto
  have len: "length xs + 12 + length t \<le> usize_max" using Cons.prems(4) by (simp add: e)
  have add: "unat n + unat tf < 2 ^ 64" using Cons.prems(3) by (simp add: e)
  then have un: "unat (n + tf) = unat n + unat tf" by (simp add: unat_word_ariths)
  have step: "decode_term u (xs @ component t @ u64_be tf @ ?cs) i (length xs, done_terms, n, previous)
     = Inr (length (xs @ component t @ u64_be tf), done_terms @ [(t, tf)], n + tf, Some t)"
    using decode_term_step [OF _ _ _ _ _ prev add len, of u ?cs i done_terms] Cons.prems(2) bt_insert_last [OF less] by (simp add: e)
  have "\<exists>p. rfold (decode_term u ((xs @ component t @ u64_be tf) @ ?cs)) is' (length (xs @ component t @ u64_be tf), done_terms @ [(t, tf)], n + tf, Some t)
     = Inr (length ((xs @ component t @ u64_be tf) @ ?cs), (done_terms @ [(t, tf)]) @ terms, (n + tf) + sum_list (map snd terms), p)"
    by (rule Cons.IH) (use Cons.prems in \<open>simp_all add: e un "is"\<close>)
  with step show ?case by (simp add: e "is" add.assoc)
qed simp

lemma length_forward_terms: "12 * length terms \<le> length (concat (map (\<lambda>(t, tf). component t @ u64_be tf) terms))"
  by (induction terms) auto

lemma decode_terms_forward:
  assumes "terms_ok u terms"
  shows "decode_terms u (forward_record terms) = Inr (terms, sum_list (map snd terms))"
proof -
  let ?cs = "concat (map (\<lambda>(t, tf). component t @ u64_be tf) terms)" and ?n = "of_nat (length terms) :: u64" and ?l = "sum_list (map snd terms)"
  have len: "length (forward_record terms) = 16 + length ?cs" by (simp add: forward_record_def)
  have "length terms < 2 ^ 64" using assms length_forward_terms [of terms] len by (simp add: terms_ok_def size_bounds)
  then have n: "unat ?n = length terms" by (simp add: unat_of_nat_64)
  have r1: "fts_read_u64 (forward_record terms) 0 = Inr (?n, 8)"
    using fts_read_u64_be [of "[]" ?n "u64_be ?l @ ?cs"] by (simp add: forward_record_def size_bounds)
  have r2: "fts_read_u64 (forward_record terms) 8 = Inr (?l, 16)"
    using fts_read_u64_be [of "u64_be ?n" ?l ?cs] by (simp add: forward_record_def size_bounds)
  have "\<exists>p. rfold (decode_term u ((u64_be ?n @ u64_be ?l) @ ?cs)) [0..<length terms] (length (u64_be ?n @ u64_be ?l), [], 0, None)
     = Inr (length ((u64_be ?n @ u64_be ?l) @ ?cs), [] @ terms, 0 + ?l, p)"
    by (rule decode_terms_loop) (use assms in \<open>simp_all add: terms_ok_def forward_record_def\<close>)
  moreover have "length terms \<le> (length (forward_record terms) - 16) div 12" using length_forward_terms [of terms] len by simp
  ultimately show ?thesis by (auto simp: decode_terms_def r1 r2 n len) (auto simp: forward_record_def)
qed

section \<open>Prefixes\<close>

lemma successor_rev_snoc:
  "successor_rev (xs @ [b]) = (case successor_rev xs of Some q \<Rightarrow> Some (b # q) | None \<Rightarrow> if b \<noteq> 255 then Some [b + 1] else None)"
  by (induction xs) auto

lemma prefix_successor_simps:
  "prefix_successor [] = None"
  "prefix_successor (b # p) = (case prefix_successor p of Some q \<Rightarrow> Some (b # q) | None \<Rightarrow> if b \<noteq> 255 then Some [b + 1] else None)"
  by (simp_all add: prefix_successor_def successor_rev_snoc)

lemma unat_255: "unat (255 :: byte) = 255"
  by simp

lemma byte_between: "b \<noteq> 255 \<Longrightarrow> b \<le> c \<and> c < b + 1 \<longleftrightarrow> c = (b :: byte)"
proof -
  assume "b \<noteq> 255"
  then have "unat b \<noteq> 255" by (metis word_unat_eq_iff unat_255)
  then have "unat b < 255" using unat_lt_8 [of b] by linarith
  then have "unat (b + 1) = unat b + 1" by (simp add: unat_word_ariths)
  then show ?thesis by (auto simp: byte_le word_unat_eq_iff)
qed

lemma starts_with_Cons: "starts_with key (b # p) \<longleftrightarrow> (\<exists>key'. key = b # key' \<and> starts_with key' p)"
  by (cases key) (auto simp: starts_with_def)

lemma prefix_range_iff: "key_in_range key (prefix_range p) \<longleftrightarrow> starts_with key p"
proof -
  have "p \<le> key \<and> (case prefix_successor p of None \<Rightarrow> True | Some q \<Rightarrow> key < q) \<longleftrightarrow> starts_with key p"
  proof (induction p arbitrary: key)
    case Nil
    show ?case by (simp add: prefix_successor_simps starts_with_def)
  next
    case (Cons b p)
    show ?case
    proof (cases key)
      case Nil
      then show ?thesis by (simp add: starts_with_Cons)
    next
      case (Cons c key')
      have max: "b = 255 \<Longrightarrow> \<not> b < c" using unat_lt_8 [of c] by (simp only: byte_le unat_255)
      show ?thesis
        using Cons.IH [of key'] max byte_between [of b c] unfolding local.Cons
        by (cases "prefix_successor p") (auto simp: prefix_successor_simps starts_with_Cons)
    qed
  qed
  then show ?thesis by (auto simp: key_in_range_def prefix_range_def not_less not_le split: option.splits)
qed

section \<open>Keys\<close>

text \<open>The records of an index, and the key of each.\<close>

datatype fts_key =
    Meta_Record
  | Stats_Record
  | Document_Record bytes
  | Forward_Record bytes
  | Posting_Record bytes bytes
  | Df_Record bytes

fun key_tail :: "fts_key \<Rightarrow> bytes" where
  "key_tail Meta_Record = [0x6D]"
| "key_tail Stats_Record = [0x73]"
| "key_tail (Document_Record did) = DOCUMENT_MARKER # component did"
| "key_tail (Forward_Record did) = FORWARD_MARKER # component did"
| "key_tail (Posting_Record t did) = POSTING_MARKER # component t @ component did"
| "key_tail (Df_Record t) = DF_MARKER # component t"

definition key_of :: "fts_key \<Rightarrow> bytes" where
  "key_of k = NAMESPACE @ key_tail k"

fun key_sized :: "fts_key \<Rightarrow> bool" where
  "key_sized (Document_Record did) = sized did"
| "key_sized (Forward_Record did) = sized did"
| "key_sized (Posting_Record t did) = (sized t \<and> sized did)"
| "key_sized (Df_Record t) = sized t"
| "key_sized _ = True"

lemmas marker_defs = DOCUMENT_MARKER_def FORWARD_MARKER_def POSTING_MARKER_def DF_MARKER_def

lemma fixed_keys: "META_KEY = key_of Meta_Record" "STATS_KEY = key_of Stats_Record"
  by (simp_all add: META_KEY_def STATS_KEY_def key_of_def NAMESPACE_def ascii_def)

lemma key_of_inj: "key_sized j \<Longrightarrow> key_sized k \<Longrightarrow> key_of j = key_of k \<longleftrightarrow> j = k"
  by (cases j; cases k) (simp_all add: key_of_def marker_defs component_inj' components_inj)

lemma starts_with_iff: "starts_with key p \<longleftrightarrow> (\<exists>r. key = p @ r)"
proof
  assume "starts_with key p"
  then have "key = p @ drop (length p) key" using append_take_drop_id [of "length p" key] by (simp add: starts_with_def)
  then show "\<exists>r. key = p @ r" by blast
qed (auto simp: starts_with_def)

lemma reserved_key_of [simp]: "reserved (key_of k)"
  by (simp add: reserved_def key_of_def starts_with_iff)

definition posting_start :: "bytes \<Rightarrow> bytes" where
  "posting_start t = NAMESPACE @ POSTING_MARKER # component t"

lemma key_functions:
  "document_key did = (if sized did then Inr (key_of (Document_Record did)) else Inl too_long)"
  "forward_key did = (if sized did then Inr (key_of (Forward_Record did)) else Inl too_long)"
  "df_key t = (if sized t then Inr (key_of (Df_Record t)) else Inl too_long)"
  "posting_prefix t = (if sized t then Inr (posting_start t) else Inl too_long)"
  "posting_key t did = (if sized t \<and> sized did then Inr (key_of (Posting_Record t did)) else Inl too_long)"
  by (simp_all add: document_key_def forward_key_def df_key_def posting_prefix_def posting_key_def record_key_def
      encode_component_eq key_of_def posting_start_def)

lemma posting_start_key:
  assumes "sized t" and "key_sized k"
  shows "starts_with (key_of k) (posting_start t) \<longleftrightarrow> (\<exists>did. k = Posting_Record t did)"
proof
  assume "starts_with (key_of k) (posting_start t)"
  then obtain r where "key_tail k = POSTING_MARKER # component t @ r" by (auto simp: starts_with_iff key_of_def posting_start_def)
  with assms show "\<exists>did. k = Posting_Record t did" by (cases k) (auto simp: marker_defs dest: component_inj)
qed (auto simp: starts_with_iff key_of_def posting_start_def)

lemma reserved_posting_start: "starts_with key (posting_start t) \<Longrightarrow> reserved key"
  by (auto simp: starts_with_iff posting_start_def reserved_def)

lemma parse_posting_key:
  assumes "sized t" "sized did" "did \<noteq> []" "utf8_valid did"
  shows "parse_posting (posting_start t) (key_of (Posting_Record t did)) (u64_be tf) = Inr (did, tf)"
proof -
  have ns: "length NAMESPACE = 15" by (simp add: NAMESPACE_def ascii_def)
  have key: "key_of (Posting_Record t did) = posting_start t @ component did" by (simp add: key_of_def posting_start_def)
  have "read_component (posting_start t @ component did) (length (posting_start t)) = Inr (did, length (posting_start t) + 4 + length did)"
    using read_component_at [OF assms(2), of "posting_start t" "[]"] assms(1,2)
    by (simp add: posting_start_def ns sized_def size_bounds)
  with assms(3,4) show ?thesis by (simp add: parse_posting_def key starts_with_def DocumentId_new_def)
qed

end
