(* ===== verification/Fts_Index.thy ===== *)
theory Fts_Index
  imports Fts_Layout
begin

text \<open>
  What the index stands for: a map from document ids to documents. \<open>indexes u m docs\<close> says that the reserved
  part of the engine's map \<open>m\<close> holds exactly the records of \<open>docs\<close>. The reads of the index compute
  from it, over every engine that satisfies \<open>map_reader\<close>.
\<close>

section \<open>Documents and their records\<close>

definition id_ok :: "bytes \<Rightarrow> bool" where
  "id_ok did \<longleftrightarrow> did \<noteq> [] \<and> utf8_valid did \<and> sized did"

text \<open>The bound on the length keeps the forward record within what a slice may hold.\<close>

definition document_ok :: "unicode \<Rightarrow> bytes \<Rightarrow> bool" where
  "document_ok u d \<longleftrightarrow> utf8_valid d \<and> length d < 2 ^ 59 \<and> (\<forall>t \<in> set (tokens u d). sized t)"

definition corpus_length :: "unicode \<Rightarrow> (bytes \<rightharpoonup> bytes) \<Rightarrow> nat" where
  "corpus_length u docs = (\<Sum>did \<in> dom docs. length (tokens u (the (docs did))))"

definition documents_with :: "unicode \<Rightarrow> (bytes \<rightharpoonup> bytes) \<Rightarrow> bytes \<Rightarrow> bytes set" where
  "documents_with u docs t = {did \<in> dom docs. t \<in> set (tokens u (the (docs did)))}"

definition docs_ok :: "unicode \<Rightarrow> (bytes \<rightharpoonup> bytes) \<Rightarrow> bool" where
  "docs_ok u docs \<longleftrightarrow> finite (dom docs) \<and> (\<forall>did d. docs did = Some d \<longrightarrow> id_ok did \<and> document_ok u d)
     \<and> card (dom docs) < 2 ^ 64 \<and> corpus_length u docs < 2 ^ 64"

fun image_of :: "unicode \<Rightarrow> (bytes \<rightharpoonup> bytes) \<Rightarrow> fts_key \<Rightarrow> bytes option" where
  "image_of u docs Meta_Record = Some [FORMAT_VERSION, TOKENIZER_VERSION]"
| "image_of u docs Stats_Record = Some (encode_stats (of_nat (card (dom docs))) (of_nat (corpus_length u docs)))"
| "image_of u docs (Document_Record did) = docs did"
| "image_of u docs (Forward_Record did) = map_option (\<lambda>d. forward_record (tokenize u d)) (docs did)"
| "image_of u docs (Posting_Record t did) = Option.bind (docs did) (\<lambda>d. map_option u64_be (map_of (tokenize u d) t))"
| "image_of u docs (Df_Record t) =
     (if documents_with u docs t = {} then None else Some (u64_be (of_nat (card (documents_with u docs t)))))"

definition indexes :: "unicode \<Rightarrow> (bytes \<rightharpoonup> bytes) \<Rightarrow> (bytes \<rightharpoonup> bytes) \<Rightarrow> bool" where
  "indexes u m docs \<longleftrightarrow> docs_ok u docs
     \<and> (\<forall>k. key_sized k \<longrightarrow> m (key_of k) = image_of u docs k)
     \<and> (\<forall>key. reserved key \<and> m key \<noteq> None \<longrightarrow> (\<exists>k. key_sized k \<and> key = key_of k))"

lemma indexes_get: "indexes u m docs \<Longrightarrow> key_sized k \<Longrightarrow> m (key_of k) = image_of u docs k"
  by (simp add: indexes_def)

lemma indexes_ok: "indexes u m docs \<Longrightarrow> docs_ok u docs"
  by (simp add: indexes_def)

lemma docs_okD:
  assumes "docs_ok u docs" and "docs did = Some d"
  shows "id_ok did" "document_ok u d"
  using assms by (auto simp: docs_ok_def)

text \<open>The state of a document that \<open>load_document_state\<close> returns.\<close>

definition state_of :: "unicode \<Rightarrow> bytes \<Rightarrow> bytes \<times> terms \<times> u64" where
  "state_of u d = (d, tokenize u d, of_nat (length (tokens u d)))"

lemma document_length: "document_ok u d \<Longrightarrow> length d < 2 ^ 64"
  by (simp add: document_ok_def)

lemma document_sum:
  assumes "length d < 2 ^ 64"
  shows "sum_list (map (\<lambda>e. unat (snd e)) (tokenize u d)) < 2 ^ 64"
    "sum_list (map snd (tokenize u d)) = of_nat (length (tokens u d))"
proof -
  show le: "sum_list (map (\<lambda>e. unat (snd e)) (tokenize u d)) < 2 ^ 64"
    using sum_tokenize [OF assms, of u] length_tokens [of u d] assms by simp
  then have "unat (sum_list (map snd (tokenize u d))) = length (tokens u d)"
    using try_sum_Inr [of "map snd (tokenize u d)"] sum_tokenize [OF assms, of u] by (simp add: comp_def)
  then have "of_nat (unat (sum_list (map snd (tokenize u d)))) = (of_nat (length (tokens u d)) :: u64)" by (simp only:)
  then show "sum_list (map snd (tokenize u d)) = of_nat (length (tokens u d))" by simp
qed

lemma try_sum_tokenize: "length d < 2 ^ 64 \<Longrightarrow> try_sum e (map snd (tokenize u d)) = Inr (of_nat (length (tokens u d)))"
  using try_sum_Inr [of "map snd (tokenize u d)" e] document_sum [of d u] by (simp add: comp_def)

lemma document_terms_ok:
  assumes "unicode_ok u" and "document_ok u d"
  shows "terms_ok u (tokenize u d)"
proof -
  have len: "length d < 2 ^ 64" and v: "utf8_valid d" using assms(2) by (simp_all add: document_ok_def)
  have "sized t \<and> t \<noteq> [] \<and> utf8_valid t \<and> str_to_lowercase u t = t \<and> tf \<noteq> 0" if "(t, tf) \<in> set (tokenize u d)" for t tf
    using tokenize_frequency [OF len that] token_normal [OF assms(1) v] assms(2) by (auto simp: document_ok_def)
  moreover have "length (forward_record ts) = 16 + sum_list (map (\<lambda>e. 12 + length (fst e)) ts)" for ts
    by (simp add: forward_record_def length_concat comp_def case_prod_beta add.commute)
  then have "length (forward_record (tokenize u d)) \<le> usize_max"
    using terms_total [OF assms(1) v] assms(2) by (simp add: document_ok_def size_bounds)
  ultimately show ?thesis using tokenize_ok document_sum(1) [OF len, of u] unfolding terms_ok_def by blast
qed

lemma decode_document:
  assumes "unicode_ok u" and "document_ok u d"
  shows "decode_terms u (forward_record (tokenize u d)) = Inr (tokenize u d, of_nat (length (tokens u d)))"
  using decode_terms_forward [OF document_terms_ok [OF assms]] document_sum(2) [OF document_length [OF assms(2)], of u] by simp

lemma documents_with_subset: "documents_with u docs t \<subseteq> dom docs"
  by (auto simp: documents_with_def)

lemma documents_with_card:
  assumes "docs_ok u docs"
  shows "finite (documents_with u docs t)" "card (documents_with u docs t) \<le> card (dom docs)"
    "unat (of_nat (card (documents_with u docs t)) :: u64) = card (documents_with u docs t)"
proof -
  show f: "finite (documents_with u docs t)" "card (documents_with u docs t) \<le> card (dom docs)"
    using assms documents_with_subset [of u docs t] by (auto simp: docs_ok_def intro: finite_subset card_mono)
  then show "unat (of_nat (card (documents_with u docs t)) :: u64) = card (documents_with u docs t)"
    using assms by (intro unat_of_nat_64) (simp add: docs_ok_def)
qed

lemma stats_words:
  assumes "docs_ok u docs"
  shows "unat (of_nat (card (dom docs)) :: u64) = card (dom docs)" "unat (of_nat (corpus_length u docs) :: u64) = corpus_length u docs"
  using assms by (simp_all add: docs_ok_def unat_of_nat_64)

section \<open>Reads\<close>

context map_reader
begin

lemma computes_bind_lift: "computes m (io_bind (io_lift v) f) w \<longleftrightarrow> computes m (case v of Inl e \<Rightarrow> io_lift (Inl e) | Inr x \<Rightarrow> f x) w"
  by (cases v) simp_all

lemma computes_await_bind: "computes m (f ()) w \<Longrightarrow> computes m (io_bind (ka_await_pending_writes eng) f) w"
  by (rule computes_bind_Inr [OF computes_await])

lemma computes_get_bind: "computes m (f (m key)) w \<Longrightarrow> computes m (io_bind (ka_get eng key) f) w"
  by (rule computes_bind_Inr [OF computes_get])

lemma computes_load_stats:
  assumes "indexes u m docs"
  shows "computes m (load_stats eng) (Inr (of_nat (card (dom docs)), of_nat (corpus_length u docs)))"
proof -
  note ok = indexes_ok [OF assms]
  have "corpus_length u docs = 0" if "(of_nat (card (dom docs)) :: u64) = 0"
  proof -
    have "card (dom docs) = 0" using that stats_words(1) [OF ok] by simp
    then show ?thesis using ok by (simp add: docs_ok_def corpus_length_def)
  qed
  then have "decode_stats (encode_stats (of_nat (card (dom docs))) (of_nat (corpus_length u docs)))
     = Inr (of_nat (card (dom docs)), of_nat (corpus_length u docs))" by (intro decode_stats_encode) simp
  then show ?thesis
    unfolding load_stats_def fixed_keys
    by (intro computes_get_bind) (simp add: indexes_get [OF assms] ok_or_def computes_lift)
qed

lemma computes_load_df:
  assumes "indexes u m docs" and "sized t"
  shows "computes m (load_df eng t) (Inr (of_nat (card (documents_with u docs t))))"
proof -
  note c = documents_with_card [OF indexes_ok [OF assms(1)], of t]
  have "(of_nat (card (documents_with u docs t)) :: u64) \<noteq> 0" if "documents_with u docs t \<noteq> {}" using that c(1,3) by (auto simp: card_eq_0_iff)
  then show ?thesis
    using assms unfolding load_df_def key_functions
    by (auto simp: indexes_get intro!: computes_get_bind computes_return)
qed

lemma computes_check_posting:
  assumes "indexes u m docs" and "docs did = Some d" and "(t, tf) \<in> set (tokenize u d)"
  shows "computes m (check_posting eng did (t, tf) x) (Inr ())"
proof -
  note ok = docs_okD [OF indexes_ok [OF assms(1)] assms(2)]
  have "sized t" using ok(2) tokenize_frequency(3) [OF document_length [OF ok(2)] assms(3)] by (simp add: document_ok_def)
  moreover have "sized did" using ok(1) by (simp add: id_ok_def)
  moreover have "map_of (tokenize u d) t = Some tf" using assms(3) bt_ok_in_set [OF tokenize_ok] by simp
  ultimately show ?thesis
    using assms(1,2) unfolding check_posting_def key_functions
    by (auto simp: indexes_get intro!: computes_get_bind computes_return)
qed

lemma computes_load_document_state:
  assumes u: "unicode_ok u" and ix: "indexes u m docs" and "sized did"
  shows "computes m (load_document_state u eng did) (Inr (map_option (state_of u) (docs did)))"
proof (cases "docs did")
  case None
  then show ?thesis
    using assms(3) unfolding load_document_state_def key_functions
    by (auto simp: indexes_get [OF ix] intro!: computes_get_bind computes_return)
next
  case (Some d)
  note ok = docs_okD(2) [OF indexes_ok [OF ix] Some]
  have "rfold (\<lambda>e _. Inr ()) es () = Inr ()" for es :: "(bytes \<times> u64) list" by (induction es) simp_all
  moreover have "computes m (io_fold (check_posting eng did) (tokenize u d) ()) (rfold (\<lambda>e _. Inr ()) (tokenize u d) ())"
    using computes_check_posting [OF ix Some] by (intro computes_fold) auto
  ultimately have "computes m (io_fold (check_posting eng did) (tokenize u d) ()) (Inr ())" by simp
  then show ?thesis
    using assms(3) ok Some decode_document [OF u ok] unfolding load_document_state_def key_functions
    by (auto simp: indexes_get [OF ix] document_ok_def state_of_def intro!: computes_get_bind computes_return computes_bind_Inr)
qed

lemma computes_load_document_state_long:
  "\<not> sized did \<Longrightarrow> computes m (load_document_state u eng did) (Inl too_long)"
  by (simp add: load_document_state_def key_functions computes_lift)

lemma computes_validate_posting:
  assumes "unicode_ok u" "indexes u m docs" "docs did = Some d" "t \<in> set (tokens u d)"
  shows "computes m (validate_posting u eng did t) (Inr ())"
proof -
  have "sized did" using docs_okD(1) [OF indexes_ok [OF assms(2)] assms(3)] by (simp add: id_ok_def)
  then show ?thesis
    using assms unfolding validate_posting_def
    by (auto simp: state_of_def tokenize_get intro!: computes_bind_Inr [OF computes_load_document_state] computes_return)
qed

lemma computes_get_document:
  assumes "unicode_ok u" and "indexes u m docs" and "sized did"
  shows "computes m (get_document u eng did) (Inr (docs did))"
proof -
  have "map_option fst (map_option (state_of u) (docs did)) = docs did" by (simp add: option.map_comp comp_def state_of_def option.map_ident)
  then show ?thesis
    unfolding get_document_def
    by (auto intro!: computes_await_bind computes_bind_Inr [OF computes_load_document_state [OF assms]] computes_return)
qed

end

end
