(* ===== verification/Fts_Search.thy ===== *)
theory Fts_Search
  imports Fts_Index
begin

text \<open>
  What a search returns, in terms of the documents the index stands for: the postings of a term are the
  documents that contain it, the Boolean search returns the matching documents in the order of their ids,
  and the ranked search returns them with their scores.
\<close>

section \<open>The documents that match\<close>

definition matching :: "unicode \<Rightarrow> (bytes \<rightharpoonup> bytes) \<Rightarrow> bool \<Rightarrow> bytes list \<Rightarrow> bytes set" where
  "matching u docs is_and terms =
     {did \<in> dom docs. if is_and then \<forall>t \<in> set terms. t \<in> set (tokens u (the (docs did)))
        else \<exists>t \<in> set terms. t \<in> set (tokens u (the (docs did)))}"

definition document_hit :: "(bytes \<rightharpoonup> bytes) \<Rightarrow> bytes \<Rightarrow> search_hit" where
  "document_hit docs did = \<lparr>sh_id = did, sh_document = the (docs did)\<rparr>"

definition found_documents :: "unicode \<Rightarrow> (bytes \<rightharpoonup> bytes) \<Rightarrow> fts_query \<Rightarrow> nat \<Rightarrow> search_hit list result" where
  "found_documents u docs query limit =
     rbind (query_terms u query limit) (\<lambda>terms.
     if limit = 0 then Inr []
     else if \<exists>t \<in> set terms. \<not> sized t then Inl too_long
     else Inr (map (document_hit docs) (take limit (sorted_list_of_set (matching u docs (query_is_and query) terms)))))"

definition term_postings :: "unicode \<Rightarrow> (bytes \<rightharpoonup> bytes) \<Rightarrow> bytes \<Rightarrow> (bytes, u64) btree_map" where
  "term_postings u docs t =
     map (\<lambda>did. (did, frequency (tokenize u (the (docs did))) t)) (sorted_list_of_set (documents_with u docs t))"

lemma term_postings_simps:
  assumes "docs_ok u docs"
  shows "map fst (term_postings u docs t) = sorted_list_of_set (documents_with u docs t)" "bt_ok (term_postings u docs t)"
    "map_of (term_postings u docs t) did
       = (if did \<in> documents_with u docs t then Some (frequency (tokenize u (the (docs did))) t) else None)"
    "length (term_postings u docs t) = card (documents_with u docs t)"
  using documents_with_card(1) [OF assms, of t]
  by (auto simp: term_postings_def comp_def bt_ok_def map_of_map_keys strict_sorted_list_of_set [unfolded strict_sorted_iff]
      map_of_eq_None_iff)

section \<open>The rows of a term\<close>

lemma finite_matching: "docs_ok u docs \<Longrightarrow> finite (matching u docs b terms)"
  by (auto simp: matching_def docs_ok_def)

lemma matching_subset: "matching u docs b terms \<subseteq> dom docs"
  by (auto simp: matching_def)

text \<open>The entry that a row stands for.\<close>

definition row_entry :: "bytes \<Rightarrow> bytes \<times> bytes \<Rightarrow> bytes \<times> u64" where
  "row_entry t row = (case parse_posting (posting_start t) (fst row) (snd row) of Inr e \<Rightarrow> e | Inl _ \<Rightarrow> ([], 0))"

lemma rfold_insert: "rfold (\<lambda>x m. Inr (bt_insert (fst (f x)) (snd (f x)) m)) xs m = Inr (bt_insert_all (map f xs) m)"
proof (induction xs arbitrary: m)
  case (Cons x xs)
  then show ?case by (cases "f x") simp
qed simp

lemma insert_all_ext:
  assumes "bt_ok m'" and "set es = set m'"
  shows "bt_insert_all es [] = m'"
proof (rule bt_ok_ext)
  show "map_of (bt_insert_all es []) = map_of m'"
  proof
    fix k
    have in_m: "(k, v) \<in> set es \<longleftrightarrow> map_of m' k = Some v" for v using bt_ok_in_set [OF assms(1)] assms(2) by simp
    show "map_of (bt_insert_all es []) k = map_of m' k"
    proof (cases "map_of (rev es) k")
      case None
      then have "k \<notin> fst ` set es" by (simp add: map_of_eq_None)
      then show ?thesis using None in_m by (cases "map_of m' k") (force simp: map_of_bt_insert_all)+
    next
      case (Some v)
      then have "(k, v) \<in> set es" by (auto dest: map_of_SomeD)
      with Some in_m show ?thesis by (simp add: map_of_bt_insert_all)
    qed
  qed
qed (use assms(1) in \<open>simp_all add: bt_ok_insert_all\<close>)

context map_reader
begin

lemma term_rows:
  assumes ix: "indexes u m docs" and t: "sized t" and fin: "finite (dom m)"
  shows "set (range_entries (prefix_range (posting_start t)) m)
     = (\<lambda>(did, tf). (key_of (Posting_Record t did), u64_be tf)) ` set (term_postings u docs t)"
proof -
  have "key \<in> dom m \<and> starts_with key (posting_start t) \<longleftrightarrow> (\<exists>did \<in> documents_with u docs t. key = key_of (Posting_Record t did))" for key
  proof
    assume key: "key \<in> dom m \<and> starts_with key (posting_start t)"
    then obtain k where k: "key_sized k" "key = key_of k" using ix reserved_posting_start [of key t] by (auto simp: indexes_def)
    with key posting_start_key [OF t k(1)] obtain did where did: "k = Posting_Record t did" by blast
    have "m (key_of k) \<noteq> None" using key k(2) by auto
    then have "image_of u docs (Posting_Record t did) \<noteq> None" using indexes_get [OF ix k(1)] did by simp
    then have "did \<in> documents_with u docs t" by (auto simp: documents_with_def tokenize_get split: bind_splits if_splits)
    with k did show "\<exists>did \<in> documents_with u docs t. key = key_of (Posting_Record t did)" by blast
  next
    assume "\<exists>did \<in> documents_with u docs t. key = key_of (Posting_Record t did)"
    then obtain did d where did: "docs did = Some d" "t \<in> set (tokens u d)" "key = key_of (Posting_Record t did)" by (auto simp: documents_with_def)
    have "sized did" using docs_okD(1) [OF indexes_ok [OF ix] did(1)] by (simp add: id_ok_def)
    with did t indexes_get [OF ix, of "Posting_Record t did"] show "key \<in> dom m \<and> starts_with key (posting_start t)"
      by (auto simp: tokenize_get starts_with_iff key_of_def posting_start_def)
  qed
  then have keys: "{key \<in> dom m. key_in_range key (prefix_range (posting_start t))} = (\<lambda>did. key_of (Posting_Record t did)) ` documents_with u docs t"
    by (auto simp: prefix_range_iff)
  have v: "m (key_of (Posting_Record t did)) = Some (u64_be (frequency (tokenize u (the (docs did))) t))" if "did \<in> documents_with u docs t" for did
  proof -
    from that obtain d where did: "docs did = Some d" "t \<in> set (tokens u d)" by (auto simp: documents_with_def)
    have "sized did" using docs_okD(1) [OF indexes_ok [OF ix] did(1)] by (simp add: id_ok_def)
    with did t indexes_get [OF ix, of "Posting_Record t did"] show ?thesis by (simp add: frequency_def tokenize_get)
  qed
  have fin': "finite {key \<in> dom m. key_in_range key (prefix_range (posting_start t))}" using fin by simp
  have "set (range_entries (prefix_range (posting_start t)) m)
     = (\<lambda>did. (key_of (Posting_Record t did), the (m (key_of (Posting_Record t did))))) ` documents_with u docs t"
    unfolding range_entries_def set_map set_sorted_list_of_set [OF fin'] unfolding keys by (simp add: image_image)
  also have "\<dots> = (\<lambda>(did, tf). (key_of (Posting_Record t did), u64_be tf)) ` set (term_postings u docs t)"
    using documents_with_card(1) [OF indexes_ok [OF ix], of t] v by (auto simp: term_postings_def image_image cong: image_cong)
  finally show ?thesis .
qed

lemma computes_posting_row:
  assumes u: "unicode_ok u" and ix: "indexes u m docs" and t: "sized t" and e: "(did, tf) \<in> set (term_postings u docs t)"
  shows "computes m (posting_row u eng (posting_start t) t (key_of (Posting_Record t did), u64_be tf) ps) (Inr (bt_insert did tf ps))"
    "row_entry t (key_of (Posting_Record t did), u64_be tf) = (did, tf)"
proof -
  note dok = indexes_ok [OF ix]
  from e documents_with_card(1) [OF dok, of t] obtain d where d: "docs did = Some d" "t \<in> set (tokens u d)" "tf = frequency (tokenize u d) t"
    by (auto simp: term_postings_def documents_with_def)
  note ok = docs_okD [OF dok d(1)]
  have p: "parse_posting (posting_start t) (key_of (Posting_Record t did)) (u64_be tf) = Inr (did, tf)"
    using parse_posting_key [OF t] ok(1) by (simp add: id_ok_def)
  then show "row_entry t (key_of (Posting_Record t did), u64_be tf) = (did, tf)" by (simp add: row_entry_def)
  have "(t, tf) \<in> set (tokenize u d)" using d bt_ok_in_set [OF tokenize_ok] by (simp add: frequency_def tokenize_get)
  from tokenize_frequency(2) [OF document_length [OF ok(2)] this] p
  show "computes m (posting_row u eng (posting_start t) t (key_of (Posting_Record t did), u64_be tf) ps) (Inr (bt_insert did tf ps))"
    unfolding posting_row_def
    by (auto intro!: computes_bind_Inr [OF computes_validate_posting [OF u ix d(1,2)]] computes_return)
qed

lemma computes_postings:
  assumes u: "unicode_ok u" and ix: "indexes u m docs" and t: "sized t" and fin: "finite (dom m)"
  shows "computes m (io_fold (posting_row u eng (posting_start t) t) (range_entries (prefix_range (posting_start t)) m) [])
     (Inr (term_postings u docs t))"
proof -
  let ?rows = "range_entries (prefix_range (posting_start t)) m"
  note rows = term_rows [OF ix t fin]
  have "computes m (posting_row u eng (posting_start t) t row ps) (Inr (bt_insert (fst (row_entry t row)) (snd (row_entry t row)) ps))"
    if "row \<in> set ?rows" for row ps
    using that computes_posting_row [OF u ix t] unfolding rows by auto
  then have "computes m (io_fold (posting_row u eng (posting_start t) t) ?rows []) (Inr (bt_insert_all (map (row_entry t) ?rows) []))"
    using computes_fold [of ?rows m "posting_row u eng (posting_start t) t" "\<lambda>row ps. Inr (bt_insert (fst (row_entry t row)) (snd (row_entry t row)) ps)" "[]"]
    by (simp only: rfold_insert)
  moreover have "bt_insert_all (map (row_entry t) ?rows) [] = term_postings u docs t"
  proof (rule insert_all_ext)
    show "set (map (row_entry t) ?rows) = set (term_postings u docs t)"
      unfolding set_map rows using computes_posting_row(2) [OF u ix t] by (force simp: image_image)
  qed (simp add: term_postings_simps(2) [OF indexes_ok [OF ix]])
  ultimately show ?thesis by simp
qed

end

section \<open>Boolean search\<close>

lemma fold_filter: "fold (\<lambda>ids current. filter (\<lambda>d. d \<in> set ids) current) rest xs = filter (\<lambda>d. \<forall>ids \<in> set rest. d \<in> set ids) xs"
  by (induction rest arbitrary: xs) simp_all

lemma intersect_all_sorted:
  assumes "lss \<noteq> []" and "\<And>l. l \<in> set lss \<Longrightarrow> sorted l \<and> distinct l"
  shows "intersect_all lss = sorted_list_of_set {d. \<forall>l \<in> set lss. d \<in> set l}"
proof -
  obtain ids rest where s: "sort_key length lss = ids # rest" using assms(1) by (metis list.exhaust set_empty set_sort)
  have set: "set lss = insert ids (set rest)" using s by (metis list.simps(15) set_sort)
  have eq: "intersect_all lss = filter (\<lambda>d. \<forall>l \<in> set rest. d \<in> set l) ids" by (simp add: intersect_all_def s fold_filter)
  have "sorted (intersect_all lss)" "distinct (intersect_all lss)" using assms(2) [of ids] set by (simp_all add: eq sorted_wrt_filter)
  moreover have "set (intersect_all lss) = {d. \<forall>l \<in> set lss. d \<in> set l}" by (auto simp: eq set)
  ultimately show ?thesis by (metis sorted_list_of_set.idem_if_sorted_distinct)
qed

lemma rfold_append_terms:
  "rfold (\<lambda>t sets. if P t then Inr (sets @ [f t]) else Inl e) ts sets
     = (if \<forall>t \<in> set ts. P t then Inr (sets @ map f ts) else Inl e)"
  by (induction ts arbitrary: sets) auto

lemma matching_sets:
  assumes "terms \<noteq> []"
  shows "{d. \<forall>t \<in> set terms. d \<in> documents_with u docs t} = matching u docs True terms"
    "(\<Union>t \<in> set terms. documents_with u docs t) = matching u docs False terms"
proof -
  have "hd terms \<in> set terms" using assms by simp
  then show "{d. \<forall>t \<in> set terms. d \<in> documents_with u docs t} = matching u docs True terms" by (auto simp: matching_def documents_with_def)
  show "(\<Union>t \<in> set terms. documents_with u docs t) = matching u docs False terms" by (auto simp: matching_def documents_with_def)
qed

context map_reader
begin

lemma computes_posting_set:
  assumes "unicode_ok u" and ix: "indexes u m docs" and "finite (dom m)"
  shows "computes m (posting_set u eng t sets)
     (if sized t then Inr (sets @ [sorted_list_of_set (documents_with u docs t)]) else Inl too_long)"
proof (cases "sized t")
  case True
  have "computes m (io_bind (io_fold (posting_row u eng (posting_start t) t) (range_entries (prefix_range (posting_start t)) m) [])
      (\<lambda>ids. io_return (sets @ [map fst ids]))) (Inr (sets @ [map fst (term_postings u docs t)]))"
    by (rule computes_bind_Inr [OF computes_postings [OF assms(1,2) True assms(3)] computes_return])
  then show ?thesis
    using True term_postings_simps(1) [OF indexes_ok [OF ix]]
    by (auto simp: posting_set_def key_functions intro!: computes_bind_Inr [OF computes_scan])
qed (simp add: posting_set_def key_functions computes_lift)

lemma computes_hits:
  assumes ix: "indexes u m docs" and "set ids \<subseteq> dom docs"
  shows "computes m (io_fold (hit_of eng) ids hits) (Inr (hits @ map (document_hit docs) ids))"
  using assms(2)
proof (induction ids arbitrary: hits)
  case Nil
  show ?case by (simp add: computes_return)
next
  case (Cons did ids)
  then obtain d where d: "docs did = Some d" by auto
  have "sized did" using docs_okD(1) [OF indexes_ok [OF ix] d] by (simp add: id_ok_def)
  then have "computes m (hit_of eng did hits) (Inr (hits @ [document_hit docs did]))"
    using d by (auto simp: hit_of_def key_functions indexes_get [OF ix] ok_or_def document_hit_def intro!: computes_get_bind computes_return)
  moreover have "computes m (io_fold (hit_of eng) ids (hits @ [document_hit docs did])) (Inr ((hits @ [document_hit docs did]) @ map (document_hit docs) ids))"
    by (rule Cons.IH) (use Cons.prems in simp)
  ultimately show ?case by (simp add: computes_bind_Inr)
qed

lemma computes_search:
  assumes u: "unicode_ok u" and ix: "indexes u m docs" and fin: "finite (dom m)"
  shows "computes m (search u eng query limit) (found_documents u docs query limit)"
proof (cases "query_terms u query limit")
  case (Inl e)
  then show ?thesis unfolding search_def found_documents_def by (auto intro!: computes_await_bind computes_lift)
next
  case (Inr terms)
  then have ne: "terms \<noteq> []" by (auto simp: query_terms_def Let_def split: if_splits)
  let ?set = "\<lambda>t. sorted_list_of_set (documents_with u docs t)"
  have f: "finite (documents_with u docs t)" for t using documents_with_card(1) [OF indexes_ok [OF ix]] .
  have sets: "computes m (io_fold (posting_set u eng) terms [])
     (if \<forall>t \<in> set terms. sized t then Inr (map ?set terms) else Inl too_long)"
    using computes_fold [of terms m "posting_set u eng" "\<lambda>t sets. if sized t then Inr (sets @ [?set t]) else Inl too_long" "[]",
        OF computes_posting_set [OF u ix fin]] by (simp only: rfold_append_terms append_Nil)
  have "intersect_all (map ?set terms) = sorted_list_of_set {d. \<forall>l \<in> set (map ?set terms). d \<in> set l}"
    by (rule intersect_all_sorted) (use ne in auto)
  also have "{d. \<forall>l \<in> set (map ?set terms). d \<in> set l} = matching u docs True terms"
    unfolding matching_sets(1) [OF ne, symmetric] using f by simp
  finally have both: "(if query_is_and query then intersect_all (map ?set terms) else btree_set (concat (map ?set terms)))
     = sorted_list_of_set (matching u docs (query_is_and query) terms)"
    using f by (simp add: btree_set_eq matching_sets(2) [OF ne, symmetric])
  have "set (sorted_list_of_set (matching u docs (query_is_and query) terms)) \<subseteq> dom docs"
    using finite_matching [OF indexes_ok [OF ix], of "query_is_and query" terms] matching_subset by simp
  then have "set (take limit (sorted_list_of_set (matching u docs (query_is_and query) terms))) \<subseteq> dom docs"
    using set_take_subset by (rule order.trans [rotated])
  note hits = computes_hits [OF ix this, of "[]"]
  show ?thesis
  proof (cases "limit = 0")
    case True
    show ?thesis unfolding search_def found_documents_def Inr using True by (intro computes_await_bind) (simp add: computes_return)
  next
    case False
    show ?thesis
    proof (cases "\<forall>t \<in> set terms. sized t")
      case True
      with sets have "computes m (io_fold (posting_set u eng) terms []) (Inr (map ?set terms))" by simp
      then have "computes m (io_bind (io_fold (posting_set u eng) terms []) (\<lambda>posting_sets.
          io_fold (hit_of eng) (take limit (if query_is_and query then intersect_all posting_sets else btree_set (concat posting_sets))) []))
        (Inr (map (document_hit docs) (take limit (sorted_list_of_set (matching u docs (query_is_and query) terms)))))"
        by (rule computes_bind_Inr) (use hits in \<open>simp only: both append_Nil\<close>)
      then show ?thesis unfolding search_def found_documents_def Inr Let_def using False True
        by (intro computes_await_bind) simp
    next
      case unsized: False
      with sets have "computes m (io_fold (posting_set u eng) terms []) (Inl too_long)" by (simp split: if_splits)
      from computes_bind_Inl [OF this] show ?thesis
        unfolding search_def found_documents_def Inr Let_def using False unsized by (intro computes_await_bind) auto
    qed
  qed
qed

end

end
