(* ===== verification/Fts_Ranked.thy ===== *)
theory Fts_Ranked
  imports Fts_Search
begin

text \<open>
  The ranked search returns the matching documents with the BM25 score computed from the documents
  themselves: the frequencies, the lengths and the counts that the index stores are the true ones.
\<close>

section \<open>The score of a document\<close>

definition term_idf :: "unicode \<Rightarrow> (f64 \<Rightarrow> f64) \<Rightarrow> (bytes \<rightharpoonup> bytes) \<Rightarrow> bytes \<Rightarrow> f64" where
  "term_idf u f64_ln docs t =
     inverse_document_frequency f64_ln (of_nat (card (dom docs))) (of_nat (card (documents_with u docs t)))"

definition average_length :: "unicode \<Rightarrow> (bytes \<rightharpoonup> bytes) \<Rightarrow> f64" where
  "average_length u docs = f64_div (f64_of_u64 (of_nat (corpus_length u docs))) (f64_of_u64 (of_nat (card (dom docs))))"

definition document_factor :: "unicode \<Rightarrow> (bytes \<rightharpoonup> bytes) \<Rightarrow> bm25_config \<Rightarrow> bytes \<Rightarrow> f64" where
  "document_factor u docs config did =
     length_factor config (average_length u docs) (of_nat (length (tokens u (the (docs did)))))"

definition bm25_part :: "unicode \<Rightarrow> (f64 \<Rightarrow> f64) \<Rightarrow> (bytes \<rightharpoonup> bytes) \<Rightarrow> bm25_config \<Rightarrow> bytes \<Rightarrow> bytes \<Rightarrow> f64" where
  "bm25_part u f64_ln docs config did t =
     contribution config (document_factor u docs config did) (term_idf u f64_ln docs t)
       (of_nat (count_list (tokens u (the (docs did))) t))"

definition bm25_score :: "unicode \<Rightarrow> (f64 \<Rightarrow> f64) \<Rightarrow> (bytes \<rightharpoonup> bytes) \<Rightarrow> bm25_config \<Rightarrow> bytes list \<Rightarrow> bytes \<Rightarrow> f64" where
  "bm25_score u f64_ln docs config terms did =
     fold (\<lambda>t score. if t \<in> set (tokens u (the (docs did))) then f64_add score (bm25_part u f64_ln docs config did t) else score)
       terms (Dyadic 0 0)"

text \<open>The scores are numbers; otherwise the search reports an error.\<close>

definition bm25_defined ::
  "unicode \<Rightarrow> (f64 \<Rightarrow> f64) \<Rightarrow> (bytes \<rightharpoonup> bytes) \<Rightarrow> bm25_config \<Rightarrow> bool \<Rightarrow> bytes list \<Rightarrow> bool" where
  "bm25_defined u f64_ln docs config is_and terms \<longleftrightarrow>
     is_finite (average_length u docs) \<and> \<not> f64_le (average_length u docs) (Dyadic 0 0)
     \<and> (\<forall>t \<in> set terms. is_finite (term_idf u f64_ln docs t) \<and> \<not> f64_lt (term_idf u f64_ln docs t) (Dyadic 0 0))
     \<and> (\<forall>did \<in> matching u docs is_and terms.
          (\<forall>t \<in> set terms. t \<in> set (tokens u (the (docs did))) \<longrightarrow>
             is_finite (bm25_part u f64_ln docs config did t) \<and> \<not> f64_le (document_factor u docs config did) (Dyadic 0 0))
          \<and> is_finite (bm25_score u f64_ln docs config terms did))"

definition ranked_hit :: "unicode \<Rightarrow> (f64 \<Rightarrow> f64) \<Rightarrow> (bytes \<rightharpoonup> bytes) \<Rightarrow> bm25_config \<Rightarrow> bytes list \<Rightarrow> bytes \<Rightarrow> ranked_search_hit" where
  "ranked_hit u f64_ln docs config terms did =
     \<lparr>rh_id = did, rh_document = the (docs did), rh_score = bm25_score u f64_ln docs config terms did\<rparr>"

definition ranked_hits ::
  "unicode \<Rightarrow> (f64 \<Rightarrow> f64) \<Rightarrow> (bytes \<rightharpoonup> bytes) \<Rightarrow> bm25_config \<Rightarrow> bool \<Rightarrow> bytes list \<Rightarrow> nat \<Rightarrow> ranked_search_hit list" where
  "ranked_hits u f64_ln docs config is_and terms limit =
     take limit (sort_key (\<lambda>h. (- f64_value (rh_score h), rh_id h))
       (map (ranked_hit u f64_ln docs config terms) (sorted_list_of_set (matching u docs is_and terms))))"

section \<open>Loops\<close>

lemma rfold_collect:
  assumes "\<And>x a. x \<in> set xs \<Longrightarrow> P x \<Longrightarrow> g x a = Inr (a @ [f x])" and "\<And>x a. x \<in> set xs \<Longrightarrow> \<not> P x \<Longrightarrow> \<not> is_ok (g x a)"
  shows "if \<forall>x \<in> set xs. P x then rfold g xs a = Inr (a @ map f xs) else \<not> is_ok (rfold g xs a)"
  using assms
proof (induction xs arbitrary: a)
  case (Cons x xs)
  have ih: "if \<forall>x \<in> set xs. P x then rfold g xs b = Inr (b @ map f xs) else \<not> is_ok (rfold g xs b)" for b
    by (rule Cons.IH) (simp_all add: Cons.prems)
  show ?case
  proof (cases "P x")
    case True
    then show ?thesis using ih [of "a @ [f x]"] Cons.prems(1) [of x a] by simp
  next
    case False
    then show ?thesis using Cons.prems(2) [of x a] by (cases "g x a") auto
  qed
qed simp

lemma score_terms:
  assumes "docs_ok u docs" and "docs did = Some d"
  shows "if \<forall>t \<in> set terms. t \<in> set (tokens u d) \<longrightarrow>
        is_finite (bm25_part u f64_ln docs config did t) \<and> \<not> f64_le (document_factor u docs config did) (Dyadic 0 0)
     then rfold (score_term config (average_length u docs) did (tokenize u d) (of_nat (length (tokens u d))))
            (map (\<lambda>t. (t, term_idf u f64_ln docs t, term_postings u docs t)) terms) s
          = Inr (fold (\<lambda>t score. if t \<in> set (tokens u d) then f64_add score (bm25_part u f64_ln docs config did t) else score) terms s)
     else \<not> is_ok (rfold (score_term config (average_length u docs) did (tokenize u d) (of_nat (length (tokens u d))))
            (map (\<lambda>t. (t, term_idf u f64_ln docs t, term_postings u docs t)) terms) s)"
proof (induction terms arbitrary: s)
  case (Cons t terms)
  have w: "did \<in> documents_with u docs t \<longleftrightarrow> t \<in> set (tokens u d)" using assms(2) by (auto simp: documents_with_def)
  have "score_term config (average_length u docs) did (tokenize u d) (of_nat (length (tokens u d)))
      (t, term_idf u f64_ln docs t, term_postings u docs t) s
     = (if t \<notin> set (tokens u d) then Inr s
        else if is_finite (bm25_part u f64_ln docs config did t) \<and> \<not> f64_le (document_factor u docs config did) (Dyadic 0 0)
        then Inr (f64_add s (bm25_part u f64_ln docs config did t)) else Inl (corrupt ''invalid BM25 score state''))"
    using assms(2)
    by (auto simp: score_term_def term_postings_simps(3) [OF assms(1)] w frequency_def tokenize_get bm25_part_def document_factor_def Let_def)
  then show ?case using Cons.IH by (simp split: if_splits)
qed simp

lemma candidates_matching:
  assumes ok: "docs_ok u docs" and "terms \<noteq> []"
  shows "candidates_of is_and (map (\<lambda>t. (t, idf t, term_postings u docs t)) terms) = sorted_list_of_set (matching u docs is_and terms)"
proof -
  let ?per = "map (\<lambda>t. (t, idf t, term_postings u docs t)) terms"
  have f: "finite (documents_with u docs t)" for t by (rule documents_with_card(1) [OF ok])
  have keys: "map (\<lambda>(_, _, frequencies). map fst frequencies) ?per = map (\<lambda>t. sorted_list_of_set (documents_with u docs t)) terms"
    by (simp add: term_postings_simps(1) [OF ok])
  have all: "btree_set (concat (map (\<lambda>(_, _, frequencies). map fst frequencies) ?per)) = sorted_list_of_set (matching u docs False terms)"
    unfolding keys btree_set_eq matching_sets(2) [OF assms(2), symmetric] using f by simp
  have "filter (\<lambda>did. list_all (\<lambda>(_, _, postings). map_of postings did \<noteq> None) ?per) (sorted_list_of_set (matching u docs False terms))
     = sorted_list_of_set (matching u docs True terms)" (is "filter ?P ?xs = _")
  proof -
    have "?P did \<longleftrightarrow> (\<forall>t \<in> set terms. did \<in> documents_with u docs t)" for did
      by (auto simp: list_all_iff term_postings_simps(3) [OF ok])
    then have "set (filter ?P ?xs) = matching u docs True terms"
      using assms(2) finite_matching [OF ok, of False terms] by (auto simp: matching_def documents_with_def neq_Nil_conv)
    then show ?thesis by (rule sorted_list_eq [rotated 2]) (simp_all add: sorted_wrt_filter)
  qed
  with all show ?thesis by (cases is_and) (simp_all add: candidates_of_def Let_def)
qed

section \<open>The ranked search\<close>

context map_reader
begin

lemma computes_check_empty:
  assumes ix: "indexes u m docs" and "finite (dom m)" and e: "documents_with u docs t = {}"
  shows "computes m (check_empty_term eng t x) (if sized t then Inr () else Inl too_long)"
proof (cases "sized t")
  case True
  have "set (range_entries (prefix_range (posting_start t)) m) = {}"
    unfolding term_rows [OF ix True assms(2)] by (simp add: term_postings_def e)
  then have "computes m (io_bind (ka_scan eng (prefix_range (posting_start t))) (\<lambda>rows.
      if rows \<noteq> [] then io_lift (Inl (corrupt ''zero corpus length has indexed terms'')) else io_return ())) (Inr ())"
    by (intro computes_bind_Inr [OF computes_scan]) (auto intro: computes_return)
  then show ?thesis
    using True unfolding check_empty_term_def key_functions
    by (intro computes_bind_Inr [OF computes_load_df [OF ix True]]) (simp_all add: e)
next
  case False
  then show ?thesis by (simp add: check_empty_term_def load_df_def key_functions computes_lift)
qed

lemma computes_ranked_term:
  assumes u: "unicode_ok u" and ix: "indexes u m docs" and fin: "finite (dom m)"
  shows "computes m (ranked_term u f64_ln eng (of_nat (card (dom docs))) t per_term)
     (if \<not> sized t then Inl too_long
      else if is_finite (term_idf u f64_ln docs t) \<and> \<not> f64_lt (term_idf u f64_ln docs t) (Dyadic 0 0)
      then Inr (per_term @ [(t, term_idf u f64_ln docs t, term_postings u docs t)])
      else Inl (corrupt ''invalid BM25 inverse document frequency''))"
proof (cases "sized t")
  case True
  note ok = indexes_ok [OF ix]
  note c = documents_with_card [OF ok, of t]
  have le: "\<not> (of_nat (card (dom docs)) :: u64) < of_nat (card (documents_with u docs t))"
    using c stats_words(1) [OF ok] by (simp add: word_less_nat_alt)
  show ?thesis
    unfolding ranked_term_def key_functions using True le
    by (intro computes_bind_Inr [OF computes_load_df [OF ix True]])
      (auto simp: term_idf_def Let_def term_postings_simps(4) [OF ok]
        intro!: computes_bind_Inr [OF computes_scan] computes_bind_Inr [OF computes_postings [OF u ix True fin]] computes_return computes_lift)
next
  case False
  then show ?thesis by (simp add: ranked_term_def load_df_def key_functions computes_lift)
qed

lemma computes_score_document:
  assumes u: "unicode_ok u" and ix: "indexes u m docs" and "did \<in> dom docs"
  shows "computes m (score_document u eng config (average_length u docs) per_term did ranked)
     (rbind (rfold (score_term config (average_length u docs) did (tokenize u (the (docs did))) (of_nat (length (tokens u (the (docs did))))))
              per_term (Dyadic 0 0)) (\<lambda>score.
        if \<not> is_finite score then Inl (corrupt ''BM25 score overflow'')
        else Inr (ranked @ [\<lparr>rh_id = did, rh_document = the (docs did), rh_score = score\<rparr>])))"
proof -
  obtain d where d: "docs did = Some d" using assms(3) by blast
  have "sized did" using docs_okD(1) [OF indexes_ok [OF ix] d] by (simp add: id_ok_def)
  note load = computes_load_document_state [OF u ix this]
  show ?thesis
    unfolding score_document_def
    by (intro computes_bind_Inr [OF load])
      (auto simp: d ok_or_def state_of_def intro!: computes_bind [OF computes_lift] computes_lift computes_return)
qed

lemma computes_scores:
  fixes f64_ln :: "f64 \<Rightarrow> f64" and config :: bm25_config
  assumes u: "unicode_ok u" and ix: "indexes u m docs" and ne: "terms \<noteq> []"
  defines "per \<equiv> map (\<lambda>t. (t, term_idf u f64_ln docs t, term_postings u docs t)) terms"
  defines "good \<equiv> \<lambda>did. (\<forall>t \<in> set terms. t \<in> set (tokens u (the (docs did))) \<longrightarrow>
      is_finite (bm25_part u f64_ln docs config did t) \<and> \<not> f64_le (document_factor u docs config did) (Dyadic 0 0))
    \<and> is_finite (bm25_score u f64_ln docs config terms did)"
  shows "\<exists>v. computes m (io_fold (score_document u eng config (average_length u docs) per) (candidates_of is_and per) []) v
     \<and> (if \<forall>did \<in> matching u docs is_and terms. good did
        then v = Inr (map (ranked_hit u f64_ln docs config terms) (sorted_list_of_set (matching u docs is_and terms)))
        else \<not> is_ok v)"
proof -
  note ok = indexes_ok [OF ix]
  let ?ids = "sorted_list_of_set (matching u docs is_and terms)"
  have ids: "candidates_of is_and per = ?ids" unfolding per_def by (rule candidates_matching [OF ok ne])
  have set: "set ?ids = matching u docs is_and terms" by (rule set_sorted_list_of_set [OF finite_matching [OF ok]])
  let ?g = "\<lambda>did ranked. rbind (rfold (score_term config (average_length u docs) did (tokenize u (the (docs did)))
        (of_nat (length (tokens u (the (docs did)))))) per (Dyadic 0 0)) (\<lambda>score.
      if \<not> is_finite score then Inl (corrupt ''BM25 score overflow'')
      else Inr (ranked @ [\<lparr>rh_id = did, rh_document = the (docs did), rh_score = score\<rparr>]))"
  have step: "if good did then ?g did ranked = Inr (ranked @ [ranked_hit u f64_ln docs config terms did]) else \<not> is_ok (?g did ranked)"
    if did: "did \<in> set ?ids" for did ranked
  proof -
    obtain d where d: "docs did = Some d" using did matching_subset [of u docs is_and terms] unfolding set by blast
    show ?thesis
      using score_terms [OF ok d, of terms f64_ln config "Dyadic 0 0"] d
      by (auto simp: good_def per_def ranked_hit_def bm25_score_def is_ok_def split: if_splits sum.splits)
  qed
  have "computes m (io_fold (score_document u eng config (average_length u docs) per) ?ids []) (rfold ?g ?ids [])"
    by (rule computes_fold, rule computes_score_document [OF u ix]) (use matching_subset set in blast)
  moreover have "if \<forall>did \<in> set ?ids. good did then rfold ?g ?ids [] = Inr ([] @ map (ranked_hit u f64_ln docs config terms) ?ids)
      else \<not> is_ok (rfold ?g ?ids [])"
    by (rule rfold_collect) (use step in \<open>simp_all split: if_splits\<close>)
  ultimately show ?thesis unfolding ids set append_Nil by blast
qed

lemma computes_ranked_terms:
  assumes u: "unicode_ok u" and ix: "indexes u m docs" and fin: "finite (dom m)" and sized: "\<forall>t \<in> set terms. sized t"
  shows "\<exists>r. computes m (io_fold (ranked_term u f64_ln eng (of_nat (card (dom docs)))) terms []) r
     \<and> (if \<forall>t \<in> set terms. is_finite (term_idf u f64_ln docs t) \<and> \<not> f64_lt (term_idf u f64_ln docs t) (Dyadic 0 0)
        then r = Inr (map (\<lambda>t. (t, term_idf u f64_ln docs t, term_postings u docs t)) terms) else \<not> is_ok r)"
proof -
  let ?P = "\<lambda>t. is_finite (term_idf u f64_ln docs t) \<and> \<not> f64_lt (term_idf u f64_ln docs t) (Dyadic 0 0)"
  let ?f = "\<lambda>t. (t, term_idf u f64_ln docs t, term_postings u docs t)"
  let ?g = "\<lambda>t per_term. (if \<not> sized t then Inl too_long else if ?P t then Inr (per_term @ [?f t])
       else Inl (corrupt ''invalid BM25 inverse document frequency''))"
  have "computes m (io_fold (ranked_term u f64_ln eng (of_nat (card (dom docs)))) terms []) (rfold ?g terms [])"
    by (rule computes_fold) (rule computes_ranked_term [OF u ix fin])
  moreover have "if \<forall>t \<in> set terms. ?P t then rfold ?g terms [] = Inr ([] @ map ?f terms) else \<not> is_ok (rfold ?g terms [])"
    by (rule rfold_collect) (use sized in simp_all)
  ultimately show ?thesis unfolding append_Nil by blast
qed

lemma corpus_empty:
  assumes "docs_ok u docs" and "corpus_length u docs = 0"
  shows "documents_with u docs t = {}"
  using assms by (auto simp: corpus_length_def docs_ok_def documents_with_def)

lemma computes_search_ranked:
  assumes u: "unicode_ok u" and ix: "indexes u m docs" and fin: "finite (dom m)"
    and terms: "query_terms u query limit = Inr terms" and sized: "\<forall>t \<in> set terms. sized t"
  shows "\<exists>v. computes m (search_ranked u f64_ln eng query limit config) v
     \<and> (if corpus_length u docs = 0 \<or> bm25_defined u f64_ln docs config (query_is_and query) terms
        then v = Inr (ranked_hits u f64_ln docs config (query_is_and query) terms limit) else \<not> is_ok v)"
proof -
  note ok = indexes_ok [OF ix] and w = stats_words [OF indexes_ok [OF ix]]
  have ne: "terms \<noteq> []" using terms by (auto simp: query_terms_def Let_def split: if_splits)
  let ?n = "of_nat (card (dom docs)) :: u64" and ?total = "of_nat (corpus_length u docs) :: u64"
  have total: "?total = 0 \<longleftrightarrow> corpus_length u docs = 0" 
  proof
    assume "?total = 0"
    then have "unat ?total = 0" by (simp only: unat_0)
    with w(2) show "corpus_length u docs = 0" by (simp only:)
  qed simp
  have n: "?n = 0 \<Longrightarrow> corpus_length u docs = 0"
  proof -
    assume "?n = 0"
    then have "card (dom docs) = 0" using w(1) by simp
    then show ?thesis using ok by (simp add: docs_ok_def corpus_length_def)
  qed
  show ?thesis
  proof (cases "corpus_length u docs = 0")
    case True
    have "rfold (\<lambda>t _. if sized t then Inr () else Inl too_long) ts () = Inr ()" if "\<forall>t \<in> set ts. sized t" for ts
      using that by (induction ts) simp_all
    with computes_fold [of terms m "check_empty_term eng" "\<lambda>t _. if sized t then Inr () else Inl too_long" "()",
        OF computes_check_empty [OF ix fin corpus_empty [OF ok True]]] sized
    have "computes m (io_fold (check_empty_term eng) terms ()) (Inr ())" by simp
    from computes_bind_Inr [OF this computes_return]
    have "computes m (io_bind (io_fold (check_empty_term eng) terms ()) (\<lambda>_. io_return [])) (Inr [])" .
    then have "computes m (search_ranked u f64_ln eng query limit config) (Inr [])"
      unfolding search_ranked_def terms io_bind_simps
      by (intro computes_await_bind computes_bind_Inr [OF computes_load_stats [OF ix]]) (simp add: True)
    moreover have "matching u docs b terms = {}" for b
      using corpus_empty [OF ok True] ne unfolding matching_sets [OF ne, symmetric] by (cases b) (auto simp: matching_def documents_with_def neq_Nil_conv)
    ultimately show ?thesis using True by (auto simp: ranked_hits_def)
  next
    case False
    show ?thesis
    proof (cases "is_finite (average_length u docs) \<and> \<not> f64_le (average_length u docs) (Dyadic 0 0)")
      case avg: False
      then have "computes m (search_ranked u f64_ln eng query limit config) (Inl (corrupt ''invalid average document length''))"
        unfolding search_ranked_def terms io_bind_simps using False total n
        by (intro computes_await_bind computes_bind_Inr [OF computes_load_stats [OF ix]]) (auto simp: average_length_def Let_def intro!: computes_lift)
      with avg False show ?thesis by (auto simp: bm25_defined_def)
    next
      case avg: True
      let ?P = "\<lambda>t. is_finite (term_idf u f64_ln docs t) \<and> \<not> f64_lt (term_idf u f64_ln docs t) (Dyadic 0 0)"
      let ?per = "map (\<lambda>t. (t, term_idf u f64_ln docs t, term_postings u docs t)) terms"
      let ?rest = "\<lambda>per_term. io_bind (io_fold (score_document u eng config (average_length u docs) per_term)
          (candidates_of (query_is_and query) per_term) [])
        (\<lambda>ranked. io_return (take limit (sort_key (\<lambda>h. (- f64_value (rh_score h), rh_id h)) ranked)))"
      have body: "computes m (search_ranked u f64_ln eng query limit config) v"
        if "computes m (io_bind (io_fold (ranked_term u f64_ln eng ?n) terms []) ?rest) v" for v
        unfolding search_ranked_def terms io_bind_simps using False total n that avg
        by (intro computes_await_bind computes_bind_Inr [OF computes_load_stats [OF ix]]) (auto simp: average_length_def Let_def)
      obtain r where r: "computes m (io_fold (ranked_term u f64_ln eng ?n) terms []) r"
        "if \<forall>t \<in> set terms. ?P t then r = Inr ?per else \<not> is_ok r"
        using computes_ranked_terms [OF u ix fin sized] by blast
      show ?thesis
      proof (cases "\<forall>t \<in> set terms. ?P t")
        case idf: False
        with r obtain e where "computes m (io_fold (ranked_term u f64_ln eng ?n) terms []) (Inl e)" by (cases r) auto
        from body [OF computes_bind_Inl [OF this]] idf False show ?thesis by (auto simp: bm25_defined_def)
      next
        case idf: True
        with r have per: "computes m (io_fold (ranked_term u f64_ln eng ?n) terms []) (Inr ?per)" by simp
        obtain v where v: "computes m (io_fold (score_document u eng config (average_length u docs) ?per) (candidates_of (query_is_and query) ?per) []) v"
          "if bm25_defined u f64_ln docs config (query_is_and query) terms
           then v = Inr (map (ranked_hit u f64_ln docs config terms) (sorted_list_of_set (matching u docs (query_is_and query) terms))) else \<not> is_ok v"
          using computes_scores [OF u ix ne, where config = config and f64_ln = f64_ln and is_and = "query_is_and query"] avg idf unfolding bm25_defined_def by auto
        have "computes m (?rest ?per) (rbind v (\<lambda>ranked. Inr (take limit (sort_key (\<lambda>h. (- f64_value (rh_score h), rh_id h)) ranked))))"
          by (rule computes_bind [OF v(1) computes_return])
        from body [OF computes_bind_Inr [where f = ?rest, OF per this]] v(2) False show ?thesis
          by (cases v) (auto simp: ranked_hits_def split: if_splits)
      qed
    qed
  qed
qed

end

end
