(* ===== verification/Float_Error.thy ===== *)
theory Float_Error
  imports Float64
begin

text \<open>
  How far the arithmetic of \<open>f64\<close> is from exact arithmetic: every operation whose exact result is not huge
  gives a finite value within half a unit in the last place, so sums, products and quotients of numbers that are
  not negative stay within a small relative distance of the exact ones.
\<close>

section \<open>Rounding\<close>

lemma scaled_powr: "real_of_rat (scaled x e) = real_of_rat x * 2 powr real_of_int e"
proof (cases "0 \<le> e")
  case True
  then have "2 powr real_of_int e = (2 :: real) ^ nat e" by (simp add: powr_realpow [symmetric])
  with True show ?thesis by (simp add: scaled_def of_rat_mult of_rat_power)
next
  case False
  then have "2 powr real_of_int (- e) = (2 :: real) ^ nat (- e)" by (simp add: powr_realpow [symmetric])
  then have "2 powr real_of_int e = 1 / (2 :: real) ^ nat (- e)" by (simp add: powr_minus field_simps)
  with False show ?thesis by (simp add: scaled_def of_rat_divide of_rat_power)
qed

lemma leading_exponent_le:
  assumes "0 < x"
  shows "2 powr real_of_int (leading_exponent x) \<le> real_of_rat x"
proof -
  obtain p q where pq: "quotient_of x = (p, q)" by fastforce
  have q: "0 < q" and x: "x = of_int p / of_int q" using pq by (simp_all add: quotient_of_denom_pos quotient_of_div)
  have p: "0 < p" using assms q by (simp add: x zero_less_divide_iff)
  let ?k = "int (floorlog 2 (nat p)) - int (floorlog 2 (nat q))"
  have "2 powr real_of_int (?k - 1) \<le> real_of_rat x"
  proof -
    have "2 ^ (floorlog 2 (nat p) - 1) \<le> nat p" "nat q < 2 ^ floorlog 2 (nat q)"
      using floorlog_bounds [of "nat p" 2] floorlog_bounds [of "nat q" 2] p q by auto
    then have b: "real (2 ^ (floorlog 2 (nat p) - 1)) \<le> real (nat p)" "real (nat q) < real (2 ^ floorlog 2 (nat q))"
      by (simp_all only: of_nat_le_iff of_nat_less_iff)
    have "0 < floorlog 2 (nat p)" using p by (simp add: floorlog_def)
    then have "2 powr real_of_int (?k - 1) = 2 ^ (floorlog 2 (nat p) - 1) / 2 ^ floorlog 2 (nat q)"
      by (simp add: powr_diff powr_add powr_realpow power_diff field_simps)
    also have "\<dots> \<le> real (nat p) / real (nat q)" using b p q by (intro frac_le) simp_all
    also have "\<dots> = real_of_rat x" using p q by (simp add: x of_rat_divide)
    finally show ?thesis .
  qed
  moreover have "2 powr real_of_int ?k \<le> real_of_rat x" if "scaled 1 ?k \<le> x"
  proof -
    have "real_of_rat (scaled 1 ?k) \<le> real_of_rat x" using that by (simp only: of_rat_less_eq)
    then show ?thesis by (simp add: scaled_powr)
  qed
  ultimately show ?thesis by (simp add: leading_exponent_def pq Let_def)
qed

text \<open>
  The value of a number as a real. Half the smallest positive number is the most that rounding moves a
  subnormal number; \<open>tiny\<close> and \<open>huge\<close> are well within the range of the normal numbers.
\<close>

definition val :: "f64 \<Rightarrow> real" where
  "val a = real_of_rat (f64_value a)"

definition half_min :: real where
  "half_min = (1 / 2) ^ 1075"

definition tiny :: real where
  "tiny = (1 / 2) ^ 800"

definition huge :: real where
  "huge = 2 ^ 1000"

lemma half_min_pos: "0 < half_min" "half_min \<le> 1"
  by (simp_all only: half_min_def power_le_one) simp_all

lemma half_min_tiny: "half_min * 2 ^ 160 \<le> tiny / 2 ^ 60"
proof -
  have "half_min * 2 ^ 160 = (1 / 2) ^ 915 * ((1 / 2) ^ 160 * 2 ^ 160)"
    unfolding half_min_def mult.assoc [symmetric] power_add [symmetric] by (simp only: numeral_plus_numeral add_num_simps)
  also have "(1 / 2 :: real) ^ 160 * 2 ^ 160 = 1" by (simp only: power_mult_distrib [symmetric]) simp
  also have "(1 / 2 :: real) ^ 915 * 1 \<le> (1 / 2) ^ 800 * (1 / 2) ^ (60 :: nat)"
    unfolding mult_1_right power_add [symmetric] by (rule power_decreasing) simp_all
  finally show ?thesis by (simp only: tiny_def power_one_over times_divide_eq_right mult_1_right)
qed

lemma tiny_bounds: "0 < tiny" "tiny \<le> 1 / 2 ^ 200"
proof -
  show "0 < tiny" by (simp only: tiny_def zero_less_power zero_less_divide_1_iff zero_less_numeral)
  have "(1 / 2 :: real) ^ 800 \<le> (1 / 2) ^ 200" by (rule power_decreasing) simp_all
  then show "tiny \<le> 1 / 2 ^ 200" by (simp only: tiny_def power_one_over)
qed

lemma huge_bounds: "2 ^ 300 \<le> huge" "4 * huge < 2 ^ 1024"
proof -
  show "2 ^ 300 \<le> huge" unfolding huge_def by (rule power_increasing) simp_all
  have "4 * huge = 2 ^ 1002" unfolding huge_def by simp
  also have "\<dots> < 2 ^ 1024" by (rule power_strict_increasing) simp_all
  finally show "4 * huge < 2 ^ 1024" .
qed

lemma round_half_even_sign: "0 \<le> x \<Longrightarrow> 0 \<le> round_half_even x"
  by (simp add: round_half_even_def Let_def)

lemma round_scaled_near:
  "\<bar>real_of_int (round_half_even (scaled x (- e))) * 2 powr real_of_int e - real_of_rat x\<bar> \<le> 2 powr real_of_int e / 2"
proof -
  let ?n = "round_half_even (scaled x (- e))" and ?u = "2 powr real_of_int e"
  have "real_of_rat \<bar>rat_of_int ?n - scaled x (- e)\<bar> \<le> real_of_rat (1 / 2)"
    using round_half_even_near by (simp only: of_rat_less_eq)
  then have "\<bar>real_of_int ?n - real_of_rat x * 2 powr - real_of_int e\<bar> \<le> 1 / 2"
    by (simp add: abs_of_rat [symmetric] of_rat_diff scaled_powr of_rat_divide)
  then have "\<bar>real_of_int ?n - real_of_rat x * 2 powr - real_of_int e\<bar> * ?u \<le> 1 / 2 * ?u" by (rule mult_right_mono) simp
  moreover have "\<bar>real_of_int ?n - real_of_rat x * 2 powr - real_of_int e\<bar> * ?u = \<bar>real_of_int ?n * ?u - real_of_rat x\<bar>"
    by (subst abs_mult_pos) (simp_all add: left_diff_distrib powr_minus mult.assoc)
  ultimately show ?thesis by simp
qed

lemma unit_bound:
  assumes "x \<noteq> 0"
  shows "2 powr real_of_int (max (leading_exponent \<bar>x\<bar> - 52) (- 1074)) / 2 \<le> \<bar>real_of_rat x\<bar> / 2 ^ 53 + half_min"
proof -
  let ?l = "real_of_int (leading_exponent \<bar>x\<bar>)"
  have "2 powr ?l \<le> \<bar>real_of_rat x\<bar>" using leading_exponent_le [of "\<bar>x\<bar>"] assms by (simp add: abs_of_rat)
  moreover have "2 powr (?l - 52) = 2 powr ?l / 2 ^ 52" by (simp add: powr_diff)
  moreover have "2 powr (- 1074 :: real) = 2 * half_min"
  proof -
    have "2 powr (- 1074 :: real) = 1 / 2 ^ 1074" by (simp only: powr_minus_divide powr_numeral)
    also have "\<dots> = 2 * half_min" unfolding half_min_def power_one_over by (simp only: eval_nat_numeral power_Suc)
    finally show ?thesis .
  qed
  ultimately show ?thesis using half_min_pos by (auto simp: max_def)
qed

lemma f64_round_near:
  assumes "\<bar>real_of_rat x\<bar> \<le> huge"
  shows "is_finite (f64_round x) \<and> \<bar>val (f64_round x) - real_of_rat x\<bar> \<le> \<bar>real_of_rat x\<bar> / 2 ^ 53 + half_min
     \<and> (0 \<le> x \<longrightarrow> 0 \<le> val (f64_round x))"
proof (cases "x = 0")
  case True
  then show ?thesis using half_min_pos by (simp add: f64_round_def is_finite_def f64_value_def val_def)
next
  case False
  define e where "e = max (leading_exponent \<bar>x\<bar> - 52) (- 1074)"
  define n where "n = round_half_even (scaled x (- e))"
  let ?x = "real_of_rat x" and ?u = "2 powr real_of_int e" and ?n = "real_of_int n"
  have err: "\<bar>?n * ?u - ?x\<bar> \<le> \<bar>?x\<bar> / 2 ^ 53 + half_min"
    using round_scaled_near [of x e] unit_bound [OF False] unfolding n_def e_def by linarith
  have small: "\<bar>?n * ?u\<bar> < 2 ^ 1024"
  proof -
    have "1 \<le> huge" using huge_bounds by (auto intro: order_trans [of _ "2 ^ 300"])
    moreover have "\<bar>?x\<bar> / 2 ^ 53 \<le> \<bar>?x\<bar>" by (simp add: divide_le_eq)
    ultimately have "\<bar>?n * ?u\<bar> \<le> 4 * huge" using err assms half_min_pos(2) by linarith
    then show ?thesis using huge_bounds(2) by (rule le_less_trans)
  qed
  have "\<not> 2 ^ 1024 \<le> scaled (of_int \<bar>n\<bar>) e"
  proof
    assume "2 ^ 1024 \<le> scaled (of_int \<bar>n\<bar>) e"
    then have "real_of_rat (2 ^ 1024) \<le> real_of_rat (scaled (of_int \<bar>n\<bar>) e)" by (simp only: of_rat_less_eq)
    moreover have "real_of_rat (scaled (of_int \<bar>n\<bar>) e) = \<bar>?n * ?u\<bar>"
      by (simp add: scaled_powr abs_mult flip: of_int_abs)
    ultimately have "2 ^ 1024 \<le> \<bar>?n * ?u\<bar>" by (simp only: of_rat_power of_rat_numeral_eq)
    from le_less_trans [OF this small] show False by (rule less_irrefl [THEN notE])
  qed
  then have round: "f64_round x = (if 0 \<le> e then Dyadic (n * 2 ^ nat e) 0 else Dyadic n (nat (- e)))"
    using False unfolding f64_round_def Let_def e_def [symmetric] n_def [symmetric] by simp
  then have "f64_value (f64_round x) = scaled (of_int n) e" by (simp add: f64_value_def scaled_def)
  then have v: "val (f64_round x) = ?n * ?u" by (simp add: scaled_powr val_def)
  have "0 \<le> n" if "0 \<le> x" unfolding n_def by (rule round_half_even_sign) (use that in \<open>simp add: scaled_def\<close>)
  with err v round show ?thesis by (simp add: is_finite_def)
qed

section \<open>The operations\<close>

text \<open>\<open>rounds a x\<close>: \<open>a\<close> is the exact result \<open>x\<close> of an operation, rounded.\<close>

definition rounds :: "f64 \<Rightarrow> real \<Rightarrow> bool" where
  "rounds a x \<longleftrightarrow> is_finite a \<and> \<bar>val a - x\<bar> \<le> \<bar>x\<bar> / 2 ^ 53 + half_min \<and> (0 \<le> x \<longrightarrow> 0 \<le> val a)"

lemma is_finiteE: "is_finite a \<Longrightarrow> (\<And>m e. a = Dyadic m e \<Longrightarrow> thesis) \<Longrightarrow> thesis"
  by (cases a) (simp_all add: is_finite_def)

lemma rounds_round: "\<bar>real_of_rat x\<bar> \<le> huge \<Longrightarrow> rounds (f64_round x) (real_of_rat x)"
  using f64_round_near [of x] by (simp add: rounds_def zero_le_of_rat_iff)

lemma rounds_add:
  assumes "is_finite a" "is_finite b" "\<bar>val a + val b\<bar> \<le> huge"
  shows "rounds (f64_add a b) (val a + val b)"
  using assms rounds_round [of "f64_value a + f64_value b"] by (elim is_finiteE) (simp add: of_rat_add val_def)

lemma rounds_sub:
  assumes "is_finite a" "is_finite b" "\<bar>val a - val b\<bar> \<le> huge"
  shows "rounds (f64_sub a b) (val a - val b)"
proof -
  have "is_finite (f64_neg b)" "val (f64_neg b) = - val b"
    using assms(2) by (cases b; simp add: is_finite_def f64_value_def of_rat_minus of_rat_divide val_def)+
  with rounds_add [OF assms(1), of "f64_neg b"] assms(3) show ?thesis by (simp add: f64_sub_def)
qed

lemma rounds_mul:
  assumes "is_finite a" "is_finite b" "\<bar>val a * val b\<bar> \<le> huge"
  shows "rounds (f64_mul a b) (val a * val b)"
  using assms rounds_round [of "f64_value a * f64_value b"] by (elim is_finiteE) (simp add: of_rat_mult val_def)

lemma rounds_div:
  assumes "is_finite a" "is_finite b" "val b \<noteq> 0" "\<bar>val a / val b\<bar> \<le> huge"
  shows "rounds (f64_div a b) (val a / val b)"
proof -
  have "f64_div a b = f64_round (f64_value a / f64_value b)"
    using assms(1-3) by (elim is_finiteE) (auto simp: f64_value_def val_def)
  with assms(4) rounds_round [of "f64_value a / f64_value b"] show ?thesis by (simp add: of_rat_divide val_def)
qed

lemma f64_le_val: "is_finite a \<Longrightarrow> is_finite b \<Longrightarrow> f64_le a b \<longleftrightarrow> val a \<le> val b"
proof (elim is_finiteE)
  fix m e m' e' assume ab: "a = Dyadic m e" "b = Dyadic m' e'"
  have "m * 2 ^ e' \<le> m' * 2 ^ e \<longleftrightarrow> rat_of_int (m * 2 ^ e') \<le> rat_of_int (m' * 2 ^ e)" by (simp only: of_int_le_iff)
  also have "\<dots> \<longleftrightarrow> f64_value a \<le> f64_value b" by (simp add: ab f64_value_def divide_simps)
  finally show ?thesis by (simp add: ab f64_le_def of_rat_less_eq val_def)
qed

lemma val_Dyadic [simp]: "val (Dyadic m e) = of_int m / 2 ^ e" "is_finite (Dyadic m e)"
  by (simp_all add: val_def f64_value_def is_finite_def of_rat_divide of_rat_power)

section \<open>Relative distance\<close>

text \<open>\<open>x\<close> is within \<open>k\<close> relative errors of \<open>y\<close>, where \<open>y\<close> is not negative.\<close>

definition ulp :: real where
  "ulp = 1 + 1 / 2 ^ 52"

definition near :: "nat \<Rightarrow> real \<Rightarrow> real \<Rightarrow> bool" where
  "near k x y \<longleftrightarrow> 0 \<le> y \<and> y / ulp ^ k \<le> x \<and> x \<le> y * ulp ^ k"

lemma ulp_ge: "1 < ulp" "0 < ulp" "1 \<le> ulp ^ k" "0 < ulp ^ k"
proof -
  show "1 < ulp" by (simp add: ulp_def)
  then show "0 < ulp" by simp
  then show "0 < ulp ^ k" by simp
  show "1 \<le> ulp ^ k" using \<open>1 < ulp\<close> by simp
qed

lemma near_refl [simp]: "near 0 y y \<longleftrightarrow> 0 \<le> y"
  by (simp add: near_def)

lemma nearD: "near k x y \<Longrightarrow> 0 \<le> x \<and> 0 \<le> y"
  using ulp_ge(4) [of k] by (auto simp: near_def intro: order_trans [of 0 "y / ulp ^ k"])

lemma near_trans: "near k x y \<Longrightarrow> near l y z \<Longrightarrow> near (k + l) x z"
proof -
  assume xy: "near k x y" and yz: "near l y z"
  have "z / ulp ^ l / ulp ^ k \<le> y / ulp ^ k" "y * ulp ^ k \<le> z * ulp ^ l * ulp ^ k"
    using yz less_imp_le [OF ulp_ge(4) [of k]] by (auto simp only: near_def intro: divide_right_mono mult_right_mono)
  with xy yz show ?thesis by (simp add: near_def power_add ac_simps)
qed

lemma near_weaken: "near k x y \<Longrightarrow> near (k + l) x y"
proof -
  assume n: "near k x y"
  then have y: "0 \<le> y" by (simp add: near_def)
  then have "y * 1 \<le> y * ulp ^ l" using ulp_ge(3) by (rule mult_left_mono [rotated])
  moreover from this have "y / ulp ^ l \<le> y" using ulp_ge(4) by (simp add: field_simps)
  ultimately have "y / ulp ^ l \<le> y" "y \<le> y * ulp ^ l" by simp_all
  then have "near l y y" using n by (simp add: near_def)
  from near_trans [OF n this] show ?thesis .
qed

lemma near_mult: "near k x y \<Longrightarrow> near l x' y' \<Longrightarrow> near (k + l) (x * x') (y * y')"
proof -
  assume n: "near k x y" "near l x' y'"
  note d = nearD [OF n(1)] nearD [OF n(2)] and p = less_imp_le [OF ulp_ge(4)]
  have "y / ulp ^ k * (y' / ulp ^ l) \<le> x * x'" "x * x' \<le> y * ulp ^ k * (y' * ulp ^ l)"
    by (rule mult_mono; use n d p in \<open>simp add: near_def\<close>)+
  with n show ?thesis by (simp add: near_def power_add ac_simps)
qed

lemma near_inverse: "near k x y \<Longrightarrow> 0 < y \<Longrightarrow> near k (1 / x) (1 / y)"
proof -
  assume n: "near k x y" and y: "0 < y"
  have p: "0 < y / ulp ^ k" "0 < y * ulp ^ k" using y ulp_ge(4) [of k] by simp_all
  then have x: "0 < x" using n by (simp add: near_def)
  have "1 / (y * ulp ^ k) \<le> 1 / x" "1 / x \<le> 1 / (y / ulp ^ k)"
    using n x p by (simp_all only: near_def frac_le zero_le_one order_refl)
  with y show ?thesis by (simp add: near_def)
qed

lemma near_divide: "near k x y \<Longrightarrow> near l x' y' \<Longrightarrow> 0 < y' \<Longrightarrow> near (k + l) (x / x') (y / y')"
  using near_mult [OF _ near_inverse] by force

lemma near_add: "near k x y \<Longrightarrow> near k x' y' \<Longrightarrow> near k (x + x') (y + y')"
  by (simp add: near_def add_divide_distrib distrib_right)

lemma near_error:
  assumes "\<bar>x - y\<bar> \<le> y * (3 / 4) / 2 ^ 52"
  shows "near 1 x y"
proof -
  have "0 \<le> y * (3 / 4) / 2 ^ 52" using assms abs_ge_zero by (rule order_trans [rotated])
  then have y: "0 \<le> y" by simp
  have "1 / ulp \<le> 1 - 3 / 4 / 2 ^ 52" by (simp add: ulp_def)
  then have "y * (1 / ulp) \<le> y * (1 - 3 / 4 / 2 ^ 52)" using y by (rule mult_left_mono)
  then have "y / ulp \<le> y - y * (3 / 4) / 2 ^ 52" by (simp add: right_diff_distrib)
  moreover have "y * ulp = y + y / 2 ^ 52" by (simp add: ulp_def distrib_left)
  ultimately show ?thesis using assms y unfolding near_def power_one_right by linarith
qed

lemma near_slack:
  assumes "\<bar>x - y\<bar> \<le> y / 2 ^ 53 + half_min * 2 ^ 160" and "tiny \<le> y"
  shows "near 1 x y"
proof (rule near_error)
  have "0 \<le> y" "half_min * 2 ^ 160 \<le> y / 2 ^ 60" using assms(2) tiny_bounds(1) half_min_tiny by simp_all
  with assms(1) show "\<bar>x - y\<bar> \<le> y * (3 / 4) / 2 ^ 52" by simp
qed

lemma rounds_near:
  assumes "rounds a x" and "tiny \<le> x"
  shows "near 1 (val a) x"
proof (rule near_slack [OF _ assms(2)])
  show "\<bar>val a - x\<bar> \<le> x / 2 ^ 53 + half_min * 2 ^ 160"
    using assms tiny_bounds(1) half_min_pos(1) unfolding rounds_def by simp
qed

text \<open>A few relative errors change a number by less than a factor of two, and its logarithm by little.\<close>

lemma near_double: "near k x y \<Longrightarrow> k \<le> 64 \<Longrightarrow> x \<le> 2 * y \<and> y \<le> 2 * x"
proof -
  assume n: "near k x y" and k: "k \<le> 64"
  have "ulp ^ k \<le> ulp ^ 64" using ulp_ge(1) k by (intro power_increasing) simp_all
  also have "\<dots> \<le> (1001 / 1000) ^ 64" by (rule power_mono) (simp_all add: ulp_def)
  also have "\<dots> \<le> 2" by (simp add: power_divide)
  finally have u: "ulp ^ k \<le> 2" .
  have y: "0 \<le> y" using n by (simp add: near_def)
  have "x \<le> y * ulp ^ k" "y \<le> x * ulp ^ k" using n ulp_ge(4) [of k] by (simp_all add: near_def divide_le_eq)
  moreover have "y * ulp ^ k \<le> y * 2" "x * ulp ^ k \<le> x * 2" using u y nearD [OF n] by (simp_all add: mult_left_mono)
  ultimately show ?thesis by linarith
qed

lemma near_16: "near k x y \<Longrightarrow> k \<le> 16 \<Longrightarrow> \<bar>x - y\<bar> \<le> y / 2 ^ 47"
proof -
  assume n: "near k x y" and k: "k \<le> 16"
  have "ulp ^ k \<le> ulp ^ 16" using ulp_ge(1) k by (intro power_increasing) simp_all
  also have "\<dots> \<le> 1 + 1 / 2 ^ 47" by (simp add: ulp_def power_divide)
  finally have u: "ulp ^ k \<le> 1 + 1 / 2 ^ 47" .
  have y: "0 \<le> y" using n by (simp add: near_def)
  have "x \<le> y * ulp ^ k" "y \<le> x * ulp ^ k" using n ulp_ge(4) [of k] by (simp_all add: near_def divide_le_eq)
  moreover have "y * ulp ^ k \<le> y * (1 + 1 / 2 ^ 47)" "x * ulp ^ k \<le> x * (1 + 1 / 2 ^ 47)"
    using u y nearD [OF n] by (simp_all only: mult_left_mono)
  ultimately have "x \<le> y * (1 + 1 / 2 ^ 47)" "y \<le> x * (1 + 1 / 2 ^ 47)" by linarith+
  then show ?thesis using y unfolding abs_le_iff by simp
qed

lemma near_ln: "near k x y \<Longrightarrow> 0 < y \<Longrightarrow> \<bar>ln x - ln y\<bar> \<le> k / 2 ^ 52"
proof -
  assume n: "near k x y" and y: "0 < y"
  have u: "ln (ulp ^ k) \<le> k / 2 ^ 52"
  proof -
    have "ln ulp \<le> 1 / 2 ^ 52" unfolding ulp_def by (rule ln_add_one_self_le_self) simp
    then have "k * ln ulp \<le> k * (1 / 2 ^ 52)" by (rule mult_left_mono) simp
    then show ?thesis by (simp add: ln_realpow ulp_ge(2))
  qed
  have p: "0 < y / ulp ^ k" "y / ulp ^ k \<le> x" "x \<le> y * ulp ^ k" using n y ulp_ge(4) [of k] by (simp_all add: near_def)
  then have "ln (y / ulp ^ k) \<le> ln x" "ln x \<le> ln (y * ulp ^ k)" by (simp_all add: ln_mono)
  moreover have "ln (y / ulp ^ k) = ln y - ln (ulp ^ k)" "ln (y * ulp ^ k) = ln y + ln (ulp ^ k)"
    using y ulp_ge(2) by (simp_all add: ln_div ln_mult_pos)
  ultimately show ?thesis using u by linarith
qed

end
