(* ===== verification/Bm25.thy ===== *)
theory Bm25
  imports Fts_Ranked Float_Error
begin

text \<open>
  The score of the ranked search against the formula it stands for. BM25 gives a document the sum, over the
  query terms it contains, of the term's inverse document frequency times a weight that grows with the
  frequency of the term in the document and falls with the length of the document. The code computes it in
  64-bit floating point, in one of two arrangements of the fraction. The lemmas bound the distance between the
  two, and show that the checks on the way never fail except for a negative inverse document frequency.
\<close>

section \<open>The formula\<close>

definition bm25_idf :: "nat \<Rightarrow> nat \<Rightarrow> real" where
  "bm25_idf n df = ln ((real n + 1) / (real df + 1 / 2))"

definition bm25_weight :: "real \<Rightarrow> real \<Rightarrow> real \<Rightarrow> nat \<Rightarrow> nat \<Rightarrow> real" where
  "bm25_weight k1 b average len tf =
     real tf * (k1 + 1) / (real tf + k1 * (1 - b + b * (real len / average)))"

text \<open>
  What the search relies on of \<open>f64::ln\<close>: on the arguments it is given the result is a number within
  \<open>d\<close> of the natural logarithm.
\<close>

definition ln_within :: "real \<Rightarrow> (f64 \<Rightarrow> f64) \<Rightarrow> bool" where
  "ln_within d f64_ln \<longleftrightarrow>
     (\<forall>x. is_finite x \<and> 1 / 4 \<le> val x \<and> val x \<le> 2 ^ 65 \<longrightarrow> is_finite (f64_ln x) \<and> \<bar>val (f64_ln x) - ln (val x)\<bar> \<le> d)"

section \<open>Lengths\<close>

lemma huge_ge: "x \<le> 2 ^ 300 \<Longrightarrow> x \<le> huge"
  using huge_bounds(1) by linarith

text \<open>A count as a number.\<close>

definition f64_nat :: "nat \<Rightarrow> f64" where
  "f64_nat n = f64_of_u64 (of_nat n)"

lemma f64_nat_round: "n < 2 ^ 64 \<Longrightarrow> f64_nat n = f64_round (of_nat n)"
  by (simp add: f64_nat_def f64_of_u64_def unat_of_nat)

lemma f64_nat_near:
  assumes "n < 2 ^ 64"
  shows "is_finite (f64_nat n)" "near 1 (val (f64_nat n)) (real n)"
proof -
  have "real n \<le> real (2 ^ 64)" using assms by (simp only: of_nat_le_iff)
  then have "real n \<le> 2 ^ 300" by simp
  from rounds_round [of "of_nat n"] huge_ge [OF this] have r: "rounds (f64_nat n) (real n)"
    by (simp add: f64_nat_round [OF assms])
  then show "is_finite (f64_nat n)" by (simp add: rounds_def)
  show "near 1 (val (f64_nat n)) (real n)"
  proof (cases "n = 0")
    case True
    then show ?thesis by (simp add: f64_nat_round f64_round_def near_def)
  next
    case False
    then have "tiny \<le> real n" using tiny_bounds(2) by simp
    with r show ?thesis by (rule rounds_near)
  qed
qed

lemma f64_nat_bounds:
  assumes "n < 2 ^ 64"
  shows "val (f64_nat n) \<le> 2 ^ 65" "0 \<le> val (f64_nat n)" "n \<noteq> 0 \<Longrightarrow> 1 / 2 \<le> val (f64_nat n)"
proof -
  have "real n \<le> real (2 ^ 64)" using assms by (simp only: of_nat_le_iff)
  then have u: "real n \<le> 2 ^ 64" by simp
  note near = f64_nat_near(2) [OF assms]
  have d: "val (f64_nat n) \<le> 2 * real n \<and> real n \<le> 2 * val (f64_nat n)" by (rule near_double [OF near]) simp
  from d u show "val (f64_nat n) \<le> 2 ^ 65" by simp
  show "0 \<le> val (f64_nat n)" using nearD [OF near] by blast
  from d show "n \<noteq> 0 \<Longrightarrow> 1 / 2 \<le> val (f64_nat n)" by simp
qed

lemma distance_trans: "\<bar>x - y\<bar> \<le> d \<Longrightarrow> \<bar>y - z\<bar> \<le> e \<Longrightarrow> d + e \<le> f \<Longrightarrow> \<bar>x - z\<bar> \<le> f" for x y z d e f :: real
  unfolding abs_le_iff by linarith

lemma distance_add: "\<bar>x - y\<bar> \<le> d \<Longrightarrow> \<bar>x' - y'\<bar> \<le> e \<Longrightarrow> \<bar>x + x' - (y + y')\<bar> \<le> d + e" for x y x' y' d e :: real
  unfolding abs_le_iff by linarith

lemma near_le: "near k x y \<Longrightarrow> k \<le> l \<Longrightarrow> near l x y"
  using near_weaken [of k x y "l - k"] by simp

lemma near_scale: "near k x y \<Longrightarrow> 0 \<le> c \<Longrightarrow> near k (c * x) (c * y)"
  using near_mult [of 0 c c k x y] by simp

lemma roundsD: "rounds a x \<Longrightarrow> 0 \<le> x \<Longrightarrow> \<bar>val a - x\<bar> \<le> x / 2 ^ 53 + half_min"
  by (simp add: rounds_def)

lemma rounds_ok: "rounds a x \<Longrightarrow> tiny \<le> x \<Longrightarrow> is_finite a \<and> near 1 (val a) x"
  using rounds_near [of a x] by (simp add: rounds_def)

text \<open>A sum of two numbers that is near \<open>S\<close>, rounded.\<close>

lemma rounded_sum:
  assumes "is_finite p" "is_finite q" "near k (val p + val q) S" "k \<le> 64" "1 / 2 ^ 100 \<le> S" "S \<le> 2 ^ 200"
  shows "is_finite (f64_add p q)" "near (Suc k) (val (f64_add p q)) S"
proof -
  have d: "S / 2 \<le> val p + val q" "val p + val q \<le> 2 ^ 201" using near_double [OF assms(3,4)] assms(5,6) by simp_all
  then have "tiny \<le> val p + val q" using assms(5) tiny_bounds(2) by simp
  moreover from this have "rounds (f64_add p q) (val p + val q)" using d tiny_bounds(1) by (intro rounds_add assms huge_ge) simp_all
  ultimately have "is_finite (f64_add p q)" "near 1 (val (f64_add p q)) (val p + val q)" using rounds_ok by blast+
  with near_trans [OF this(2) assms(3)] show "is_finite (f64_add p q)" "near (Suc k) (val (f64_add p q)) S" by simp_all
qed

lemma divide_bounds:
  fixes x :: real
  assumes "l \<le> x" "x \<le> h" "l' \<le> y" "y \<le> h'" "0 < l" "0 < l'"
  shows "l / h' \<le> x / y" "x / y \<le> h / l'" "0 < x / y"
  using assms by (auto intro!: frac_le divide_pos_pos)

lemma quotient_near:
  assumes "v < 2 ^ 64" "w < 2 ^ 64" and pos: "v \<noteq> 0" "w \<noteq> 0"
  shows "is_finite (f64_div (f64_nat v) (f64_nat w))" "near 3 (val (f64_div (f64_nat v) (f64_nat w))) (real v / real w)"
proof -
  let ?v = "val (f64_nat v)" and ?w = "val (f64_nat w)"
  note v = f64_nat_bounds [OF assms(1)] f64_nat_near [OF assms(1)] and w = f64_nat_bounds [OF assms(2)] f64_nat_near [OF assms(2)]
  have b: "1 / 2 / 2 ^ 65 \<le> ?v / ?w" "?v / ?w \<le> 2 ^ 65 / (1 / 2)" "0 < ?v / ?w"
    using divide_bounds [of "1 / 2" ?v "2 ^ 65" "1 / 2" ?w "2 ^ 65"] v w pos by simp_all
  have r: "rounds (f64_div (f64_nat v) (f64_nat w)) (?v / ?w)"
    using b w pos by (intro rounds_div v w huge_ge) simp_all
  then show "is_finite (f64_div (f64_nat v) (f64_nat w))" by (simp add: rounds_def)
  have "tiny \<le> ?v / ?w" using b(1) tiny_bounds(2) by simp
  from near_trans [OF rounds_near [OF r this] near_divide [OF v(5) w(5)]] pos
  show "near 3 (val (f64_div (f64_nat v) (f64_nat w))) (real v / real w)" by (simp add: numeral_3_eq_3)
qed

lemma relative_length_bounds:
  fixes b r l h :: real
  assumes "0 \<le> b" "b \<le> 1" "l \<le> r" "r \<le> h" "0 < l" "l \<le> 1" "1 \<le> h"
  shows "l \<le> 1 - b + b * r" "1 - b + b * r \<le> h"
proof -
  have "(1 - b) * l \<le> (1 - b) * 1" "b * l \<le> b * r" "(1 - b) * 1 \<le> (1 - b) * h" "b * r \<le> b * h"
    using assms by (simp_all only: mult_left_mono diff_ge_0_iff_ge)
  moreover have "(1 - b) * l + b * l = l" "(1 - b) * h + b * h = h" by (simp_all add: algebra_simps)
  ultimately show "l \<le> 1 - b + b * r" "1 - b + b * r \<le> h" by simp_all
qed

lemma ratio_near:
  fixes A :: real
  assumes avg: "is_finite average" "near 3 (val average) A" "1 / 2 ^ 64 \<le> A" "A \<le> 2 ^ 64" and len: "n < 2 ^ 64" "n \<noteq> 0"
  defines "ratio \<equiv> f64_div (f64_nat n) average"
  shows "is_finite ratio" "near 5 (val ratio) (real n / A)" "1 / 2 ^ 67 \<le> val ratio" "val ratio \<le> 2 ^ 132"
proof -
  let ?l = "val (f64_nat n)" and ?a = "val average"
  note l = f64_nat_bounds [OF len(1)] f64_nat_near [OF len(1)]
  have a: "1 / 2 ^ 65 \<le> ?a" "?a \<le> 2 ^ 65" using near_double [OF avg(2)] avg(3,4) by simp_all
  from less_le_trans [OF _ this(1)] have a0: "0 < ?a" by simp
  have q: "1 / 2 / 2 ^ 65 \<le> ?l / ?a" "?l / ?a \<le> 2 ^ 65 / (1 / 2 ^ 65)" "0 < ?l / ?a"
    using divide_bounds [of "1 / 2" ?l "2 ^ 65" "1 / 2 ^ 65" ?a "2 ^ 65"] l len(2) a by simp_all
  have "rounds ratio (?l / ?a)" unfolding ratio_def using q a0 by (intro rounds_div l avg huge_ge) simp_all
  moreover have "tiny \<le> ?l / ?a" using q(1) tiny_bounds(2) by simp
  ultimately have r: "is_finite ratio" "near 1 (val ratio) (?l / ?a)" using rounds_ok by blast+
  have "0 < A" using avg(3) by (rule less_le_trans [rotated]) simp
  from near_trans [OF r(2) near_divide [OF l(5) avg(2) this]] show "near 5 (val ratio) (real n / A)" by simp
  from r(1) show "is_finite ratio" .
  have "?l / ?a \<le> 2 * val ratio" "val ratio \<le> 2 * (?l / ?a)" using near_double [OF r(2)] by simp_all
  with order_trans [OF q(1) this(1)] order_trans [OF this(2) mult_left_mono [OF q(2)]]
  show "1 / 2 ^ 67 \<le> val ratio" "val ratio \<le> 2 ^ 132" by simp_all
qed

lemma blend_near:
  assumes b: "is_finite b" "0 \<le> val b" "val b \<le> 1" and r: "is_finite ratio" "1 / 2 ^ 67 \<le> val ratio" "val ratio \<le> 2 ^ 132"
  defines "factor \<equiv> f64_add (f64_sub (Dyadic 1 0) b) (f64_mul b ratio)"
  shows "is_finite factor" "near 2 (val factor) (1 - val b + val b * val ratio)"
proof -
  let ?S = "1 - val b + val b * val ratio" and ?rest = "f64_sub (Dyadic 1 0) b" and ?part = "f64_mul b ratio"
  have S: "1 / 2 ^ 67 \<le> ?S" "?S \<le> 2 ^ 132" using relative_length_bounds [OF b(2,3) r(2,3)] by simp_all
  have p: "0 \<le> val b * val ratio" using b r by (intro mult_nonneg_nonneg) (simp_all add: order_trans [of 0 "1 / 2 ^ 67"])
  have "rounds ?rest (val (Dyadic 1 0) - val b)" using b by (intro rounds_sub huge_ge) simp_all
  then have rest: "rounds ?rest (1 - val b)" by simp
  have part: "rounds ?part (val b * val ratio)" using b r p S by (intro rounds_mul huge_ge) simp_all
  have "tiny \<le> ?S" using S(1) tiny_bounds(2) by simp
  moreover have "\<bar>val ?rest + val ?part - ?S\<bar> \<le> ?S / 2 ^ 53 + half_min * 2 ^ 160"
    using roundsD [OF rest] roundsD [OF part] p b(3) half_min_pos(1) by (simp add: add_divide_distrib)
  ultimately have sum: "near 1 (val ?rest + val ?part) ?S" by (intro near_slack)
  from rounded_sum [OF _ _ sum] rest part S show "is_finite factor" "near 2 (val factor) ?S"
    by (simp_all add: factor_def rounds_def numeral_2_eq_2)
qed

lemma length_factor_near:
  fixes A :: real
  assumes avg: "is_finite average" "near 3 (val average) A" "1 / 2 ^ 64 \<le> A" "A \<le> 2 ^ 64" and len: "n < 2 ^ 64" "n \<noteq> 0"
    and b: "is_finite (bc_b config)" "0 \<le> val (bc_b config)" "val (bc_b config) \<le> 1"
  shows "is_finite (length_factor config average (of_nat n))"
    "near 7 (val (length_factor config average (of_nat n))) (1 - val (bc_b config) + val (bc_b config) * (real n / A))"
proof -
  let ?ratio = "f64_div (f64_nat n) average"
  note r = ratio_near [OF avg len]
  note f = blend_near [OF b r(1,3,4)]
  have "near 5 (1 - val (bc_b config) + val (bc_b config) * val ?ratio) (1 - val (bc_b config) + val (bc_b config) * (real n / A))"
    using near_add [OF near_le [of 0 "1 - val (bc_b config)"] near_scale [OF r(2) b(2)]] b by simp
  from near_trans [OF f(2) this] f(1) show "is_finite (length_factor config average (of_nat n))"
    "near 7 (val (length_factor config average (of_nat n))) (1 - val (bc_b config) + val (bc_b config) * (real n / A))"
    by (simp_all add: length_factor_def f64_nat_def)
qed

section \<open>The contribution of a term\<close>

lemma quotient_error:
  fixes h Q Y Z res :: real
  assumes "\<bar>res - Q\<bar> \<le> Q / 2 ^ 53 + h" "\<bar>Q - Z\<bar> \<le> Z / 2 ^ 53 + h * 2 ^ 146" "\<bar>Z - Y\<bar> \<le> Y / 2 ^ 47" "0 \<le> Z" "0 < h"
  shows "\<bar>res - Y\<bar> \<le> Y / 2 ^ 46 + h * 2 ^ 160"
proof -
  have "0 \<le> Y" using order_trans [OF abs_ge_zero assms(3)] by simp
  with abs_le_D1 [OF assms(3)] have Z: "Z \<le> Y * 2" "0 \<le> Y" by simp_all
  then have "Q \<le> Y * 4 + h * 2 ^ 147" using assms(2,4,5) by simp
  then have "\<bar>res - Q\<bar> \<le> Y / 2 ^ 51 + h * 2 ^ 147" using assms(1,5) Z by simp
  moreover have "\<bar>Q - Z\<bar> \<le> Y / 2 ^ 51 + h * 2 ^ 146" using assms(2) Z by simp
  ultimately have "\<bar>res - Y\<bar> \<le> Y / 2 ^ 51 + h * 2 ^ 147 + (Y / 2 ^ 51 + h * 2 ^ 146) + Y / 2 ^ 47" using assms(3) by linarith
  also have "\<dots> \<le> Y / 2 ^ 46 + h * 2 ^ 160" using Z assms(5) by simp
  finally show ?thesis .
qed

lemma fraction_near:
  assumes i: "is_finite idf" "0 \<le> val idf" "val idf \<le> 256"
    and c: "is_finite c" "near 4 (val c) C" "C \<le> 2 ^ 67" and d: "is_finite den" "near 10 (val den) D" "1 / 2 ^ 145 \<le> D"
  defines "res \<equiv> f64_div (f64_mul idf c) den"
  shows "is_finite res" "\<bar>val res - val idf * (C / D)\<bar> \<le> val idf * (C / D) / 2 ^ 46 + half_min * 2 ^ 160"
proof -
  let ?I = "val idf" and ?c = "val c" and ?d = "val den" and ?num = "f64_mul idf c"
  define Z where "Z = ?I * ?c / ?d"
  have D: "0 < D" using d(3) by (rule less_le_trans [rotated]) simp
  have d': "1 / 2 ^ 146 \<le> ?d" using near_double [OF d(2)] d(3) by simp
  from less_le_trans [OF _ this] have d0: "0 < ?d" by simp
  have c': "0 \<le> ?c" "?c \<le> 2 ^ 68" using nearD [OF c(2)] near_double [OF c(2)] c(3) by simp_all
  have Ic: "0 \<le> ?I * ?c" "?I * ?c \<le> 256 * 2 ^ 68" using i c' by (simp_all only: mult_mono mult_nonneg_nonneg zero_le_numeral)
  have num: "rounds ?num (?I * ?c)" using Ic by (intro rounds_mul i c huge_ge) simp_all
  then have n0: "0 \<le> val ?num" using Ic(1) by (simp add: rounds_def)
  note n = roundsD [OF num Ic(1)]
  have "\<bar>val ?num - ?I * ?c\<bar> / ?d \<le> (?I * ?c / 2 ^ 53 + half_min) / ?d" using n d0 by (intro divide_right_mono) simp_all
  then have "\<bar>val ?num / ?d - Z\<bar> \<le> Z / 2 ^ 53 + half_min / ?d"
    using d0 by (simp add: Z_def diff_divide_distrib [symmetric] add_divide_distrib abs_divide)
  moreover have "half_min / ?d \<le> half_min * 2 ^ 146"
    using divide_left_mono [OF d', of half_min] half_min_pos(1) d0 by simp
  ultimately have q: "\<bar>val ?num / ?d - Z\<bar> \<le> Z / 2 ^ 53 + half_min * 2 ^ 146" by linarith
  have "near (0 + 4 + 10) Z (?I * C / D)" unfolding Z_def by (rule near_divide [OF near_mult d(2) D]) (simp_all add: i c)
  then have Z': "near 14 Z (?I * (C / D))" by simp
  have Z: "\<bar>Z - ?I * (C / D)\<bar> \<le> ?I * (C / D) / 2 ^ 47" "0 \<le> Z" using near_16 [OF Z'] nearD [OF Z'] by simp_all
  have "val ?num / ?d \<le> (2 ^ 78) / (1 / 2 ^ 146)"
    using n Ic(2) half_min_pos(2) d' n0 by (intro frac_le) simp_all
  then have "rounds res (val ?num / ?d)"
    unfolding res_def using num d0 n0 by (intro rounds_div d huge_ge) (simp_all add: rounds_def)
  then have "is_finite res" and e: "\<bar>val res - val ?num / ?d\<bar> \<le> val ?num / ?d / 2 ^ 53 + half_min"
    using n0 d0 by (simp_all add: rounds_def)
  then show "is_finite res" by simp
  show "\<bar>val res - ?I * (C / D)\<bar> \<le> ?I * (C / D) / 2 ^ 46 + half_min * 2 ^ 160"
    by (rule quotient_error [OF e q Z half_min_pos(1)])
qed

lemma numerator_near:
  assumes t: "n < 2 ^ 64" "n \<noteq> 0" and a: "is_finite a" "near 2 (val a) A" "1 \<le> A" "A \<le> 2"
  shows "is_finite (f64_mul (f64_nat n) a)" "near 4 (val (f64_mul (f64_nat n) a)) (real n * A)" "real n * A \<le> 2 ^ 67"
proof -
  let ?t = "val (f64_nat n)" and ?c = "f64_mul (f64_nat n) a"
  note n = f64_nat_bounds [OF t(1)] f64_nat_near [OF t(1)]
  have a': "1 / 2 \<le> val a" "val a \<le> 4" using near_double [OF a(2)] a(3,4) by simp_all
  have ta: "1 / 4 \<le> ?t * val a" "?t * val a \<le> 2 ^ 65 * 4"
    using mult_mono [of "1 / 2" ?t "1 / 2" "val a"] mult_mono [of ?t "2 ^ 65" "val a" 4] n t(2) a' by simp_all
  have "rounds ?c (?t * val a)" using ta by (intro rounds_mul n a huge_ge) simp_all
  then have "is_finite ?c \<and> near 1 (val ?c) (?t * val a)" using ta tiny_bounds(2) by (intro rounds_ok) simp_all
  then show "is_finite ?c" "near 4 (val ?c) (real n * A)"
    using near_le [OF near_trans [OF _ near_mult [OF n(5) a(2)]], of 1 "val ?c" 4] by simp_all
  have "real n \<le> real (2 ^ 64)" using t(1) by (simp only: of_nat_le_iff)
  then have "real n * A \<le> 2 ^ 64 * 2" using a by (intro mult_mono) simp_all
  then show "real n * A \<le> 2 ^ 67" by simp
qed

lemma contribution_small:
  assumes i: "is_finite idf" "0 \<le> val idf" "val idf \<le> 256" and k: "is_finite k1" "0 < val k1" "val k1 \<le> 1"
    and t: "n < 2 ^ 64" "n \<noteq> 0" and f: "is_finite factor" "near 7 (val factor) F" "1 / 2 ^ 64 \<le> F" "F \<le> 2 ^ 128"
  defines "res \<equiv> f64_div (f64_mul idf (f64_mul (f64_nat n) (f64_add (Dyadic 1 0) k1))) (f64_add (f64_nat n) (f64_mul k1 factor))"
    and "W \<equiv> real n * (val k1 + 1) / (real n + val k1 * F)"
  shows "is_finite res" "\<bar>val res - val idf * W\<bar> \<le> val idf * W / 2 ^ 46 + half_min * 2 ^ 160"
proof -
  let ?k = "val k1" and ?t = "val (f64_nat n)" and ?a = "f64_add (Dyadic 1 0) k1" and ?kf = "f64_mul k1 factor" and ?f = "val factor"
  let ?c = "f64_mul (f64_nat n) ?a" and ?den = "f64_add (f64_nat n) ?kf"
  note n = f64_nat_bounds [OF t(1)] f64_nat_near [OF t(1)]
  have "near 1 (val (Dyadic 1 0) + ?k) (1 + ?k)" by (rule near_le [of 0]) (use k in simp_all)
  from rounded_sum [OF _ k(1) this] k have "is_finite ?a" "near 2 (val ?a) (?k + 1)" by (simp_all add: numeral_2_eq_2 add.commute)
  from numerator_near [OF t this] k have c: "is_finite ?c" "near 4 (val ?c) (real n * (?k + 1))" "real n * (?k + 1) \<le> 2 ^ 67" by simp_all
  have f': "0 \<le> ?f" "?f \<le> 2 ^ 129" using nearD [OF f(2)] near_double [OF f(2)] f(4) by simp_all
  have kf: "0 \<le> ?k * ?f" "?k * ?f \<le> 1 * 2 ^ 129" using k f' by (simp_all only: mult_mono mult_nonneg_nonneg zero_le_one less_imp_le)
  have r: "rounds ?kf (?k * ?f)" using kf by (intro rounds_mul k f huge_ge) simp_all
  have "\<bar>?t + val ?kf - (?t + ?k * ?f)\<bar> \<le> (?t + ?k * ?f) / 2 ^ 53 + half_min * 2 ^ 160"
    using roundsD [OF r kf(1)] n half_min_pos(1) by (simp add: add_divide_distrib)
  then have s: "near 1 (?t + val ?kf) (?t + ?k * ?f)" using n(3) [OF t(2)] kf(1) tiny_bounds(2) by (intro near_slack) simp_all
  have "near 7 (?t + ?k * ?f) (real n + ?k * F)" using near_add [OF near_le [OF n(5), of 7] near_scale [OF f(2)]] k by simp
  from near_trans [OF s this] have s: "near 9 (?t + val ?kf) (real n + ?k * F)" by (rule near_le) simp
  have "?k * F \<le> 1 * 2 ^ 128" using k f(4) nearD [OF f(2)] by (intro mult_mono) simp_all
  moreover have "real n \<le> real (2 ^ 64)" using t(1) by (simp only: of_nat_le_iff)
  ultimately have b: "1 \<le> real n" "0 \<le> ?k * F" "?k * F \<le> 2 ^ 128" "real n \<le> 2 ^ 64" using t(2) k nearD [OF f(2)] by simp_all
  from rounded_sum [OF n(4) _ s] r b have d: "is_finite ?den" "near 10 (val ?den) (real n + ?k * F)" by (simp_all add: rounds_def)
  have "1 / 2 ^ 145 \<le> real n + ?k * F" using b by simp
  from fraction_near [OF i c d this] show "is_finite res" "\<bar>val res - val idf * W\<bar> \<le> val idf * W / 2 ^ 46 + half_min * 2 ^ 160"
    by (simp_all only: res_def W_def)
qed

lemma contribution_large:
  assumes i: "is_finite idf" "0 \<le> val idf" "val idf \<le> 256" and k: "is_finite k1" "1 < val k1"
    and t: "n < 2 ^ 64" "n \<noteq> 0" and f: "is_finite factor" "near 7 (val factor) F" "1 / 2 ^ 64 \<le> F" "F \<le> 2 ^ 128"
  defines "k1_inverse \<equiv> f64_div (Dyadic 1 0) k1"
  defines "res \<equiv> f64_div (f64_mul idf (f64_mul (f64_nat n) (f64_add (Dyadic 1 0) k1_inverse))) (f64_add (f64_mul (f64_nat n) k1_inverse) factor)"
    and "W \<equiv> real n * (val k1 + 1) / (real n + val k1 * F)"
  shows "is_finite res" "\<bar>val res - val idf * W\<bar> \<le> val idf * W / 2 ^ 46 + half_min * 2 ^ 160"
proof -
  define j where "j = 1 / val k1"
  let ?i = "val k1_inverse" and ?t = "val (f64_nat n)" and ?f = "val factor"
  let ?a = "f64_add (Dyadic 1 0) k1_inverse" and ?ti = "f64_mul (f64_nat n) k1_inverse"
  let ?c = "f64_mul (f64_nat n) ?a" and ?den = "f64_add ?ti factor"
  note n = f64_nat_bounds [OF t(1)] f64_nat_near [OF t(1)]
  have j: "0 < j" "j \<le> 1" using k by (simp_all add: j_def)
  have "j \<le> huge" using j(2) by (intro huge_ge) simp
  with rounds_div [of "Dyadic 1 0" k1] k have inv: "rounds k1_inverse j" unfolding k1_inverse_def j_def by simp
  note e = roundsD [OF inv less_imp_le [OF j(1)]]
  have i': "is_finite k1_inverse" "0 \<le> ?i" "?i \<le> 4" using inv abs_le_D1 [OF e] j half_min_pos(2) by (simp_all add: rounds_def)
  have "near 1 (1 + ?i) (1 + j)" using e j half_min_pos(1) tiny_bounds(2) by (intro near_slack) (simp_all add: add_divide_distrib)
  from rounded_sum [of "Dyadic 1 0" k1_inverse 1, OF _ i'(1)] this j have "is_finite ?a" "near 2 (val ?a) (1 + j)" by (simp_all add: numeral_2_eq_2)
  from numerator_near [OF t this] j have c: "is_finite ?c" "near 4 (val ?c) (real n * (1 + j))" "real n * (1 + j) \<le> 2 ^ 67" by simp_all
  have ti: "0 \<le> ?t * ?i" "?t * ?i \<le> 2 ^ 65 * 4" using n i' by (simp_all only: mult_mono mult_nonneg_nonneg zero_le_numeral zero_le_power)
  have r: "rounds ?ti (?t * ?i)" using ti by (intro rounds_mul n i' huge_ge) simp_all
  have f': "1 / 2 ^ 65 \<le> ?f" using near_double [OF f(2)] f(3) by simp
  have "near 1 (val ?ti + ?f) (?t * ?i + ?f)"
    using roundsD [OF r ti(1)] ti f' half_min_pos(1) tiny_bounds(2) by (intro near_slack) (simp_all add: add_divide_distrib)
  moreover have "near 1 (?t * ?i + ?f) (?t * j + ?f)"
  proof (rule near_slack)
    have "\<bar>?t * ?i - ?t * j\<bar> = ?t * \<bar>?i - j\<bar>" using n(2) by (simp only: right_diff_distrib [symmetric] abs_mult abs_of_nonneg)
    also have "\<dots> \<le> ?t * (j / 2 ^ 53 + half_min)" by (rule mult_left_mono [OF e n(2)])
    finally have "\<bar>?t * ?i - ?t * j\<bar> \<le> ?t * j / 2 ^ 53 + ?t * half_min" by (simp only: distrib_left times_divide_eq_right)
    moreover have "?t * half_min \<le> 2 ^ 160 * half_min" using n(1) half_min_pos(1) by (intro mult_right_mono) simp_all
    moreover have "0 \<le> ?f / 2 ^ 53" using f' by simp
    ultimately show "\<bar>?t * ?i + ?f - (?t * j + ?f)\<bar> \<le> (?t * j + ?f) / 2 ^ 53 + half_min * 2 ^ 160"
      unfolding add_divide_distrib mult.commute [of half_min] by linarith
    show "tiny \<le> ?t * j + ?f" using f' tiny_bounds(2) mult_nonneg_nonneg [OF n(2) less_imp_le [OF j(1)]] by simp
  qed
  moreover have "near 7 (?t * j + ?f) (real n * j + F)" using near_add [OF near_le [OF near_mult [OF n(5), of 0 j j]] f(2)] j by simp
  ultimately have s: "near 9 (val ?ti + ?f) (real n * j + F)" using near_trans [OF near_trans] by fastforce
  have "real n \<le> real (2 ^ 64)" using t(1) by (simp only: of_nat_le_iff)
  then have "real n * j \<le> 2 ^ 64 * 1" using j by (intro mult_mono) simp_all
  then have b: "0 \<le> real n * j" "real n * j \<le> 2 ^ 64" using j by simp_all
  from rounded_sum [OF _ f(1) s] r b f have d: "is_finite ?den" "near 10 (val ?den) (real n * j + F)" by (simp_all add: rounds_def)
  have "1 / 2 ^ 145 \<le> real n * j + F" using b f(3) by simp
  note fraction_near [OF i c d this]
  moreover have "real n * (1 + j) / (real n * j + F) = W"
  proof -
    have kj: "val k1 * j = 1" using k by (simp add: j_def)
    have "val k1 * F * j = (val k1 * j) * F" by (simp only: ac_simps)
    then have "(val k1 + 1) * j = 1 + j" "(real n + val k1 * F) * j = real n * j + F" by (simp_all only: distrib_right kj mult_1_left)
    then have "real n * (1 + j) / (real n * j + F) = (real n * (val k1 + 1) * j) / ((real n + val k1 * F) * j)"
      by (simp only: mult.assoc)
    also have "\<dots> = W" unfolding W_def using j by (intro mult_divide_mult_cancel_right) simp
    finally show ?thesis .
  qed
  ultimately show "is_finite res" "\<bar>val res - val idf * W\<bar> \<le> val idf * W / 2 ^ 46 + half_min * 2 ^ 160"
    by (simp_all only: res_def)
qed

text \<open>Both arrangements, with the bounds on the weight.\<close>

lemma weight_bounds:
  fixes k F t :: real
  assumes "0 < k" "1 / 2 ^ 64 \<le> F" "F \<le> 2 ^ 128" "1 \<le> t" "t \<le> 2 ^ 64"
  shows "tiny \<le> t * (k + 1) / (t + k * F)" "t * (k + 1) / (t + k * F) \<le> 2 ^ 130"
proof -
  have F: "0 < F" using assms(2) by (rule less_le_trans [rotated]) simp
  have kF: "0 < k * F" "k * F \<le> k * 2 ^ 128" "k * (1 / 2 ^ 64) \<le> k * F" using assms F by (simp_all add: mult_left_mono)
  have kt: "k \<le> k * t" "k * t \<le> k * 2 ^ 64" using assms by (simp_all add: mult_left_mono)
  have "t + k * F \<le> (t * (k + 1)) * 2 ^ 128" using kF(2) kt(1) assms(4) by (simp add: distrib_left ac_simps)
  then have "1 / 2 ^ 128 \<le> t * (k + 1) / (t + k * F)" using kF(1) assms(4) by (simp add: field_simps)
  then show "tiny \<le> t * (k + 1) / (t + k * F)" using tiny_bounds(2) by simp
  have "k \<le> (k * F) * 2 ^ 64" using kF(3) by simp
  moreover have "a \<le> b * 2 ^ 128" if "a \<le> c * 2 ^ 64" "c \<le> b * 2 ^ 64" for a b c :: real using that by simp
  ultimately have "k * t \<le> (k * F) * 2 ^ 128" using kt(2) by blast
  moreover have "t * (k + 1) = k * t + t" by (simp add: algebra_simps)
  ultimately have "t * (k + 1) \<le> 2 ^ 130 * (t + k * F)" using kF(1) assms(4) by simp
  then show "t * (k + 1) / (t + k * F) \<le> 2 ^ 130" using kF(1) assms(4) by (simp add: divide_le_eq)
qed

lemma contribution_near:
  assumes i: "is_finite idf" "0 \<le> val idf" "val idf \<le> 256" and k: "is_finite (bc_k1 config)" "0 < val (bc_k1 config)"
    and t: "n < 2 ^ 64" "n \<noteq> 0" and f: "is_finite factor" "near 7 (val factor) F" "1 / 2 ^ 64 \<le> F" "F \<le> 2 ^ 128"
  defines "W \<equiv> real n * (val (bc_k1 config) + 1) / (real n + val (bc_k1 config) * F)"
  shows "is_finite (contribution config factor idf (of_nat n))"
    "\<bar>val (contribution config factor idf (of_nat n)) - val idf * W\<bar> \<le> W / 2 ^ 37"
proof -
  let ?res = "contribution config factor idf (of_nat n)"
  have "is_finite ?res \<and> \<bar>val ?res - val idf * W\<bar> \<le> val idf * W / 2 ^ 46 + half_min * 2 ^ 160"
  proof (cases "val (bc_k1 config) \<le> 1")
    case True
    with contribution_small [OF i k True t f] show ?thesis
      by (simp add: contribution_def Let_def f64_le_val [OF k(1)] W_def f64_nat_def [symmetric])
  next
    case False
    with contribution_large [OF i k(1) _ t f] show ?thesis
      by (simp add: contribution_def Let_def f64_le_val [OF k(1)] W_def f64_nat_def [symmetric])
  qed
  moreover have "real n \<le> real (2 ^ 64)" using t(1) by (simp only: of_nat_le_iff)
  then have "tiny \<le> W" unfolding W_def using t(2) by (intro weight_bounds k f) simp_all
  moreover from this have "val idf * W \<le> 256 * W" using i tiny_bounds(1) by (intro mult_right_mono) simp_all
  moreover have "\<bar>r - x\<bar> \<le> w / 2 ^ 37" if "\<bar>r - x\<bar> \<le> x / 2 ^ 46 + h" "x \<le> 256 * w" "h \<le> y / 2 ^ 60" "y \<le> w" "0 < y" for r x w h y :: real
    using that by simp
  ultimately show "is_finite ?res" "\<bar>val ?res - val idf * W\<bar> \<le> W / 2 ^ 37" using half_min_tiny tiny_bounds(1) by blast+
qed

section \<open>The inverse document frequency\<close>

lemma ln_bounds:
  fixes x :: real
  assumes "1 / 4 \<le> x" "x \<le> 2 ^ 65"
  shows "- 3 \<le> ln x" "ln x \<le> 65"
proof -
  have x: "0 < x" using assms(1) by simp
  have "ln (1 / x) \<le> 1 / x - 1" by (rule ln_le_minus_one) (use x in simp)
  moreover have "1 / x \<le> 4" using assms(1) x by (simp add: divide_le_eq)
  ultimately show "- 3 \<le> ln x" using x by (simp add: ln_div)
  have "ln x \<le> ln (2 ^ 65 :: real)" using assms(2) x by (intro ln_mono) simp_all
  also have "\<dots> = 65 * ln 2" by (simp only: ln_realpow zero_less_numeral)
  also have "\<dots> \<le> 65" using ln_le_minus_one [of 2] by simp
  finally show "ln x \<le> 65" .
qed

lemma ln_count_near:
  assumes ln: "ln_within d f64_ln" and n: "n < 2 ^ 64" and x: "is_finite x" "1 / 2 \<le> val x" "val x \<le> 1"
  defines "l \<equiv> f64_ln (f64_add (f64_nat n) x)"
  shows "is_finite l" "\<bar>val l - ln (real n + val x)\<bar> \<le> d + 1 / 2 ^ 50" "\<bar>val l\<bar> \<le> 65 + d"
proof -
  let ?s = "f64_add (f64_nat n) x"
  have b: "real n + 1 \<le> 2 ^ 64"
  proof -
    have "real (n + 1) \<le> real (2 ^ 64)" using n by (simp only: of_nat_le_iff)
    then show ?thesis by simp
  qed
  have "near 1 (val (f64_nat n) + val x) (real n + val x)"
    by (rule near_add [OF f64_nat_near(2) [OF n] near_le [of 0]]) (use x in simp_all)
  from rounded_sum [OF f64_nat_near(1) [OF n] x(1) this] x b have s: "is_finite ?s" "near 2 (val ?s) (real n + val x)"
    by (simp_all add: numeral_2_eq_2)
  have "1 / 4 \<le> val ?s" "val ?s \<le> 2 ^ 65" using near_double [OF s(2)] x b by simp_all
  with ln s(1) ln_bounds [OF this] have l: "is_finite l" "\<bar>val l - ln (val ?s)\<bar> \<le> d" "\<bar>ln (val ?s)\<bar> \<le> 65"
    by (simp_all add: ln_within_def l_def)
  then show "is_finite l" "\<bar>val l\<bar> \<le> 65 + d" by simp_all
  have "\<bar>ln (val ?s) - ln (real n + val x)\<bar> \<le> real 2 / 2 ^ 52" by (rule near_ln [OF s(2)]) (use x in simp)
  from distance_trans [OF l(2) this] show "\<bar>val l - ln (real n + val x)\<bar> \<le> d + 1 / 2 ^ 50" by simp
qed

lemma idf_near:
  assumes ln: "ln_within d f64_ln" "0 \<le> d" "d \<le> 1" and n: "n < 2 ^ 64" and df: "df < 2 ^ 64"
  defines "idf \<equiv> inverse_document_frequency f64_ln (of_nat n) (of_nat df)"
  shows "is_finite idf" "\<bar>val idf - bm25_idf n df\<bar> \<le> 2 * d + 1 / 2 ^ 43" "\<bar>bm25_idf n df\<bar> \<le> 135"
proof -
  let ?l = "f64_ln (f64_add (f64_nat n) (Dyadic 1 0))" and ?l' = "f64_ln (f64_add (f64_nat df) (Dyadic 1 1))"
  have l: "is_finite ?l" "\<bar>val ?l - ln (real n + 1)\<bar> \<le> d + 1 / 2 ^ 50" "\<bar>val ?l\<bar> \<le> 65 + d"
    using ln_count_near [OF ln(1) n, of "Dyadic 1 0"] by simp_all
  have l': "is_finite ?l'" "\<bar>val ?l' - ln (real df + 1 / 2)\<bar> \<le> d + 1 / 2 ^ 50" "\<bar>val ?l'\<bar> \<le> 65 + d"
    using ln_count_near [OF ln(1) df, of "Dyadic 1 1"] by simp_all
  have r: "rounds idf (val ?l - val ?l')"
    unfolding idf_def inverse_document_frequency_def f64_nat_def [symmetric]
    using l l' ln(3) by (intro rounds_sub huge_ge) simp_all
  then show "is_finite idf" by (simp add: rounds_def)
  have "\<bar>val ?l - val ?l'\<bar> / 2 ^ 53 \<le> 132 / 2 ^ 53" using l(3) l'(3) ln(3) by (intro divide_right_mono) simp_all
  moreover have "half_min \<le> 1 / 2 ^ 200" using half_min_tiny tiny_bounds(2) half_min_pos(1) by simp
  ultimately have "\<bar>val idf - (val ?l - val ?l')\<bar> \<le> 1 / 2 ^ 44" using r by (simp add: rounds_def)
  moreover have e: "bm25_idf n df = ln (real n + 1) - ln (real df + 1 / 2)" by (simp add: bm25_idf_def ln_div)
  have d: "\<bar>(val ?l - val ?l') - bm25_idf n df\<bar> \<le> 2 * d + 2 / 2 ^ 50" using l(2) l'(2) unfolding e abs_le_iff by simp
  ultimately show "\<bar>val idf - bm25_idf n df\<bar> \<le> 2 * d + 1 / 2 ^ 43" by (rule distance_trans) simp
  show "\<bar>bm25_idf n df\<bar> \<le> 135" using d l(3) l'(3) ln(3) unfolding abs_le_iff by simp
qed

section \<open>The sum over the terms\<close>

lemma score_step:
  fixes W w b c E :: real
  assumes s: "is_finite s" "\<bar>val s - b\<bar> \<le> (E + real i / 2 ^ 44) * W" "\<bar>b\<bar> \<le> 135 * W" "0 \<le> W" "W \<le> real i * 2 ^ 130"
    and x: "is_finite x" "\<bar>val x - c\<bar> \<le> E * w" "\<bar>c\<bar> \<le> 135 * w" "tiny \<le> w" "w \<le> 2 ^ 130"
    and E: "0 \<le> E" "E \<le> 3" "i < 64"
  shows "is_finite (f64_add s x)" "\<bar>val (f64_add s x) - (b + c)\<bar> \<le> (E + real (Suc i) / 2 ^ 44) * (W + w)"
    "\<bar>b + c\<bar> \<le> 135 * (W + w)" "0 \<le> W + w" "W + w \<le> real (Suc i) * 2 ^ 130"
proof -
  have w: "0 < w" using x(4) tiny_bounds(1) by linarith
  have "real i / 2 ^ 44 \<le> 1" using E(3) by simp
  then have "(E + real i / 2 ^ 44) * W \<le> 4 * W" "E * w \<le> 3 * w" using E s(4) w by (auto intro: mult_right_mono)
  then have sum: "\<bar>val s + val x\<bar> \<le> 200 * (W + w)" using s(2,3) x(2,3) by (simp add: abs_le_iff)
  have "real i * 2 ^ 130 \<le> 64 * 2 ^ 130" using E(3) by (intro mult_right_mono) simp_all
  then have "200 * (W + w) \<le> 2 ^ 300" using s(5) x(5) by simp
  with sum have r: "rounds (f64_add s x) (val s + val x)" by (intro rounds_add s x huge_ge) simp
  then show "is_finite (f64_add s x)" by (simp add: rounds_def)
  have "half_min * 2 ^ 160 \<le> w / 2 ^ 60" using half_min_tiny x(4) by simp
  then have "half_min \<le> w / 2 ^ 60" using half_min_pos(1) by simp
  moreover have "\<bar>val s + val x\<bar> / 2 ^ 53 \<le> 200 * (W + w) / 2 ^ 53" by (rule divide_right_mono [OF sum]) simp
  ultimately have d: "\<bar>val (f64_add s x) - (val s + val x)\<bar> \<le> (W + w) / 2 ^ 44" using r w s(4) by (simp add: rounds_def)
  have "(E + real i / 2 ^ 44) * W \<le> E * W + real i / 2 ^ 44 * (W + w)" using w by (simp add: distrib_right distrib_left)
  moreover have "E * W + real i / 2 ^ 44 * (W + w) + E * w + (W + w) / 2 ^ 44 = (E + real (Suc i) / 2 ^ 44) * (W + w)"
    by (simp add: distrib_right distrib_left add_divide_distrib)
  ultimately have "(W + w) / 2 ^ 44 + ((E + real i / 2 ^ 44) * W + E * w) \<le> (E + real (Suc i) / 2 ^ 44) * (W + w)" by linarith
  then show "\<bar>val (f64_add s x) - (b + c)\<bar> \<le> (E + real (Suc i) / 2 ^ 44) * (W + w)"
    by (rule distance_trans [OF d distance_add [OF s(2) x(2)]])
  show "\<bar>b + c\<bar> \<le> 135 * (W + w)" using s(3) x(3) unfolding abs_le_iff by simp
  show "0 \<le> W + w" using w s(4) by linarith
  show "W + w \<le> real (Suc i) * 2 ^ 130" using s(5) x(5) by (simp add: distrib_right)
qed

lemma score_sum:
  fixes w c :: "'t \<Rightarrow> real" and E b W :: real
  assumes s: "is_finite s" "\<bar>val s - b\<bar> \<le> (E + real i / 2 ^ 44) * W" "\<bar>b\<bar> \<le> 135 * W" "0 \<le> W" "W \<le> real i * 2 ^ 130"
    and x: "\<forall>t \<in> set ts. is_finite (x t) \<and> \<bar>val (x t) - c t\<bar> \<le> E * w t \<and> \<bar>c t\<bar> \<le> 135 * w t \<and> tiny \<le> w t \<and> w t \<le> 2 ^ 130"
    and E: "0 \<le> E" "E \<le> 3" "i + length ts \<le> 64"
  shows "is_finite (fold (\<lambda>t score. f64_add score (x t)) ts s)
     \<and> \<bar>val (fold (\<lambda>t score. f64_add score (x t)) ts s) - (b + sum_list (map c ts))\<bar>
         \<le> (E + real (i + length ts) / 2 ^ 44) * (W + sum_list (map w ts))"
  using s x E(3)
proof (induction ts arbitrary: s b W i)
  case (Cons t ts)
  from Cons.prems(6) have x: "is_finite (x t)" "\<bar>val (x t) - c t\<bar> \<le> E * w t" "\<bar>c t\<bar> \<le> 135 * w t" "tiny \<le> w t" "w t \<le> 2 ^ 130" by simp_all
  have "i < 64" using Cons.prems(7) by simp
  from Cons.IH [OF score_step [OF Cons.prems(1-5) x E(1,2) this]] Cons.prems(6,7) show ?case by (simp add: add.assoc)
qed simp

section \<open>The score of a document\<close>

text \<open>
  The weight of a term in a document of the collection, and the score of a document for a list of terms. The
  total of the weights is the scale of the error.
\<close>

definition term_weight :: "unicode \<Rightarrow> (bytes \<rightharpoonup> bytes) \<Rightarrow> bm25_config \<Rightarrow> bytes \<Rightarrow> bytes \<Rightarrow> real" where
  "term_weight u docs config did t =
     bm25_weight (val (bc_k1 config)) (val (bc_b config)) (real (corpus_length u docs) / real (card (dom docs)))
       (length (tokens u (the (docs did)))) (count_list (tokens u (the (docs did))) t)"

definition terms_of :: "unicode \<Rightarrow> (bytes \<rightharpoonup> bytes) \<Rightarrow> bytes list \<Rightarrow> bytes \<Rightarrow> bytes list" where
  "terms_of u docs terms did = filter (\<lambda>t. t \<in> set (tokens u (the (docs did)))) terms"

definition bm25 :: "unicode \<Rightarrow> (bytes \<rightharpoonup> bytes) \<Rightarrow> bm25_config \<Rightarrow> bytes list \<Rightarrow> bytes \<Rightarrow> real" where
  "bm25 u docs config terms did =
     sum_list (map (\<lambda>t. bm25_idf (card (dom docs)) (card (documents_with u docs t)) * term_weight u docs config did t)
       (terms_of u docs terms did))"

definition bm25_scale :: "unicode \<Rightarrow> (bytes \<rightharpoonup> bytes) \<Rightarrow> bm25_config \<Rightarrow> bytes list \<Rightarrow> bytes \<Rightarrow> real" where
  "bm25_scale u docs config terms did = sum_list (map (term_weight u docs config did) (terms_of u docs terms did))"

lemma Bm25Config_new_ok:
  assumes "Bm25Config_new k1 b = Inr config"
  shows "bc_k1 config = k1" "bc_b config = b" "is_finite k1" "0 < val k1" "is_finite b" "0 \<le> val b" "val b \<le> 1"
proof -
  from assms have c: "is_finite k1" "\<not> f64_le k1 (Dyadic 0 0)" "is_finite b" "f64_le (Dyadic 0 0) b" "f64_le b (Dyadic 1 0)"
    "config = \<lparr>bc_k1 = k1, bc_b = b\<rparr>" unfolding Bm25Config_new_def by (auto split: if_splits)
  then show "bc_k1 config = k1" "bc_b config = b" "is_finite k1" "0 < val k1" "is_finite b" "0 \<le> val b" "val b \<le> 1"
    by (simp_all add: f64_le_val)
qed

lemma document_lengths:
  assumes ok: "docs_ok u docs" and did: "did \<in> dom docs" and t: "t \<in> set (tokens u (the (docs did)))"
  defines "len \<equiv> length (tokens u (the (docs did)))" and "tf \<equiv> count_list (tokens u (the (docs did))) t"
  shows "len \<noteq> 0" "tf \<noteq> 0" "len \<le> corpus_length u docs" "tf \<le> len" "corpus_length u docs < 2 ^ 64" "card (dom docs) < 2 ^ 64" "card (dom docs) \<noteq> 0"
proof -
  show "len \<noteq> 0" "tf \<noteq> 0" "tf \<le> len" using t by (auto simp: len_def tf_def count_list_0_iff count_le_length)
  show "corpus_length u docs < 2 ^ 64" "card (dom docs) < 2 ^ 64" "card (dom docs) \<noteq> 0" using ok did by (auto simp: docs_ok_def)
  show "len \<le> corpus_length u docs" unfolding len_def corpus_length_def using ok did by (intro member_le_sum) (auto simp: docs_ok_def)
qed

lemma average_bounds:
  assumes "n < 2 ^ 64" "m < 2 ^ 64" "n \<noteq> 0" "m \<noteq> 0"
  shows "1 / 2 ^ 64 \<le> real n / real m" "real n / real m \<le> 2 ^ 64"
proof -
  have "real n \<le> real (2 ^ 64)" "real m \<le> real (2 ^ 64)" using assms by (simp_all only: of_nat_le_iff)
  then show "1 / 2 ^ 64 \<le> real n / real m" "real n / real m \<le> 2 ^ 64"
    using divide_bounds [of 1 "real n" "2 ^ 64" 1 "real m" "2 ^ 64"] assms by simp_all
qed

lemma average_length_near:
  assumes "docs_ok u docs" and "corpus_length u docs \<noteq> 0" and "card (dom docs) \<noteq> 0"
  shows "is_finite (average_length u docs)" "near 3 (val (average_length u docs)) (real (corpus_length u docs) / real (card (dom docs)))"
    "\<not> f64_le (average_length u docs) (Dyadic 0 0)"
proof -
  have b: "corpus_length u docs < 2 ^ 64" "card (dom docs) < 2 ^ 64" using assms(1) by (simp_all add: docs_ok_def)
  note q = quotient_near [OF b assms(2,3)]
  from q show f: "is_finite (average_length u docs)" and n: "near 3 (val (average_length u docs)) (real (corpus_length u docs) / real (card (dom docs)))"
    by (simp_all add: average_length_def f64_nat_def)
  have "0 < real (corpus_length u docs) / real (card (dom docs))" using assms(2,3) by simp
  then show "\<not> f64_le (average_length u docs) (Dyadic 0 0)" using near_double [OF n] by (simp add: f64_le_val [OF f])
qed

lemma part_near:
  assumes ok: "docs_ok u docs" and did: "did \<in> dom docs" and t: "t \<in> set (tokens u (the (docs did)))"
    and config: "Bm25Config_new k1 b = Inr config" and ln: "ln_within d f64_ln" "0 \<le> d" "d \<le> 1"
    and idf: "0 \<le> val (term_idf u f64_ln docs t)"
  defines "W \<equiv> term_weight u docs config did t" and "part \<equiv> bm25_part u f64_ln docs config did t"
  shows "is_finite part" "\<not> f64_le (document_factor u docs config did) (Dyadic 0 0)" "tiny \<le> W" "W \<le> 2 ^ 130"
    "\<bar>val part - bm25_idf (card (dom docs)) (card (documents_with u docs t)) * W\<bar> \<le> (2 * d + 1 / 2 ^ 36) * W"
    "\<bar>bm25_idf (card (dom docs)) (card (documents_with u docs t)) * W\<bar> \<le> 135 * W"
proof -
  let ?len = "length (tokens u (the (docs did)))" and ?tf = "count_list (tokens u (the (docs did))) t"
  let ?A = "real (corpus_length u docs) / real (card (dom docs))" and ?idf = "term_idf u f64_ln docs t"
  let ?e = "bm25_idf (card (dom docs)) (card (documents_with u docs t))" and ?factor = "document_factor u docs config did"
  define F where "F = 1 - val b + val b * (real ?len / ?A)"
  note l = document_lengths [OF ok did t] and c = Bm25Config_new_ok [OF config]
  from l have l': "?len < 2 ^ 64" "?tf < 2 ^ 64" "corpus_length u docs \<noteq> 0" by simp_all
  note A = average_length_near [OF ok l'(3) l(7)] average_bounds [OF l(5,6) l'(3) l(7)]
  have f: "is_finite ?factor" "near 7 (val ?factor) F"
    using length_factor_near [OF A(1,2,4,5) l'(1) l(1), of config] c by (simp_all add: document_factor_def F_def)
  have F: "1 / 2 ^ 64 \<le> F" "F \<le> 2 ^ 128"
  proof -
    have "real ?len \<le> real (2 ^ 64)" using l'(1) by (simp only: of_nat_le_iff)
    then have "1 / 2 ^ 64 \<le> real ?len / ?A" "real ?len / ?A \<le> 2 ^ 128"
      using divide_bounds [of 1 "real ?len" "2 ^ 64" "1 / 2 ^ 64" ?A "2 ^ 64"] l(1) A(4,5) by simp_all
    from relative_length_bounds [OF c(6,7) this] show "1 / 2 ^ 64 \<le> F" "F \<le> 2 ^ 128" unfolding F_def by simp_all
  qed
  have W: "W = real ?tf * (val (bc_k1 config) + 1) / (real ?tf + val (bc_k1 config) * F)"
    by (simp only: W_def term_weight_def bm25_weight_def F_def c(2))
  have "near 7 0 F \<Longrightarrow> False" using near_double [of 7 0 F] less_le_trans [OF _ F(1), of 0] by simp
  with f(2) nearD [OF f(2)] have "0 < val ?factor" by (cases "val ?factor = 0") simp_all
  then show "\<not> f64_le ?factor (Dyadic 0 0)" by (simp add: f64_le_val [OF f(1)])
  have "real ?tf \<le> real (2 ^ 64)" using l'(2) by (simp only: of_nat_le_iff)
  then show w: "tiny \<le> W" "W \<le> 2 ^ 130" unfolding W using weight_bounds [OF _ F, of "val (bc_k1 config)" "real ?tf"] c l(2) by simp_all
  have "card (documents_with u docs t) < 2 ^ 64" using documents_with_card(2) [OF ok, of t] l(6) by linarith
  from idf_near [OF ln l(6) this] have i: "is_finite ?idf" "\<bar>val ?idf - ?e\<bar> \<le> 2 * d + 1 / 2 ^ 43" "\<bar>?e\<bar> \<le> 135"
    by (simp_all add: term_idf_def)
  have "val ?idf \<le> 256" using i(2,3) ln(3) unfolding abs_le_iff by simp
  from contribution_near [OF i(1) idf this _ _ l'(2) l(2) f F, of config] c
  have p: "is_finite part" "\<bar>val part - val ?idf * W\<bar> \<le> W / 2 ^ 37" unfolding W by (simp_all add: part_def bm25_part_def)
  from p(1) show "is_finite part" .
  have W0: "0 \<le> W" using w(1) tiny_bounds(1) by linarith
  then have "\<bar>val ?idf * W - ?e * W\<bar> \<le> (2 * d + 1 / 2 ^ 43) * W"
    using mult_right_mono [OF i(2) W0] by (simp only: left_diff_distrib [symmetric] abs_mult abs_of_nonneg)
  moreover have "W / 2 ^ 37 + (2 * d + 1 / 2 ^ 43) * W \<le> (2 * d + 1 / 2 ^ 36) * W" using W0 by (simp add: distrib_right)
  ultimately show "\<bar>val part - ?e * W\<bar> \<le> (2 * d + 1 / 2 ^ 36) * W" by (rule distance_trans [OF p(2)])
  show "\<bar>?e * W\<bar> \<le> 135 * W" using mult_right_mono [OF i(3) W0] W0 by (simp only: abs_mult abs_of_nonneg)
qed

lemma score_near:
  assumes ok: "docs_ok u docs" and did: "did \<in> dom docs" and terms: "length terms \<le> 64"
    and config: "Bm25Config_new k1 b = Inr config" and ln: "ln_within d f64_ln" "0 \<le> d" "d \<le> 1"
    and idf: "\<forall>t \<in> set terms. 0 \<le> val (term_idf u f64_ln docs t)"
  shows "is_finite (bm25_score u f64_ln docs config terms did)"
    "\<bar>val (bm25_score u f64_ln docs config terms did) - bm25 u docs config terms did\<bar> \<le> (2 * d + 1 / 2 ^ 35) * bm25_scale u docs config terms did"
proof -
  let ?ts = "terms_of u docs terms did" and ?x = "bm25_part u f64_ln docs config did" and ?w = "term_weight u docs config did"
  let ?c = "\<lambda>t. bm25_idf (card (dom docs)) (card (documents_with u docs t)) * ?w t" and ?E = "2 * d + 1 / 2 ^ 36"
  have fold: "fold (\<lambda>t score. if P t then f64_add score (?x t) else score) ts s = fold (\<lambda>t score. f64_add score (?x t)) (filter P ts) s" for P ts s
    by (induction ts arbitrary: s) simp_all
  have x: "\<forall>t \<in> set ?ts. is_finite (?x t) \<and> \<bar>val (?x t) - ?c t\<bar> \<le> ?E * ?w t \<and> \<bar>?c t\<bar> \<le> 135 * ?w t \<and> tiny \<le> ?w t \<and> ?w t \<le> 2 ^ 130"
    using part_near [OF ok did _ config ln] idf by (auto simp: terms_of_def)
  have len: "length ?ts \<le> 64" using terms length_filter_le [of _ terms] unfolding terms_of_def by (rule order_trans [rotated])
  have "is_finite (fold (\<lambda>t score. f64_add score (?x t)) ?ts (Dyadic 0 0))
     \<and> \<bar>val (fold (\<lambda>t score. f64_add score (?x t)) ?ts (Dyadic 0 0)) - (0 + sum_list (map ?c ?ts))\<bar>
         \<le> (?E + real (0 + length ?ts) / 2 ^ 44) * (0 + sum_list (map ?w ?ts))"
    by (rule score_sum [OF _ _ _ _ _ x]) (use ln len in simp_all)
  moreover have "fold (\<lambda>t score. f64_add score (?x t)) ?ts (Dyadic 0 0) = bm25_score u f64_ln docs config terms did"
    by (simp only: bm25_score_def fold terms_of_def)
  ultimately have r: "is_finite (bm25_score u f64_ln docs config terms did)"
    "\<bar>val (bm25_score u f64_ln docs config terms did) - bm25 u docs config terms did\<bar>
       \<le> (?E + real (length ?ts) / 2 ^ 44) * bm25_scale u docs config terms did"
    by (simp_all only: bm25_def bm25_scale_def add_0)
  then show "is_finite (bm25_score u f64_ln docs config terms did)" by simp
  have "0 \<le> bm25_scale u docs config terms did" unfolding bm25_scale_def using x tiny_bounds(1) by (intro sum_list_nonneg) auto
  then have "(?E + real (length ?ts) / 2 ^ 44) * bm25_scale u docs config terms did \<le> (2 * d + 1 / 2 ^ 35) * bm25_scale u docs config terms did"
    using len by (intro mult_right_mono) simp_all
  with r(2) show "\<bar>val (bm25_score u f64_ln docs config terms did) - bm25 u docs config terms did\<bar> \<le> (2 * d + 1 / 2 ^ 35) * bm25_scale u docs config terms did"
    by (rule order_trans)
qed

section \<open>The ranked search\<close>

text \<open>The hits for given scores: the documents in the order of falling score, ties in the order of the identifiers.\<close>

definition hits_by_score :: "(bytes \<rightharpoonup> bytes) \<Rightarrow> (bytes \<Rightarrow> f64) \<Rightarrow> bytes set \<Rightarrow> nat \<Rightarrow> ranked_search_hit list" where
  "hits_by_score docs score ids limit =
     take limit (sort_key (\<lambda>h. (- f64_value (rh_score h), rh_id h))
       (map (\<lambda>did. \<lparr>rh_id = did, rh_document = the (docs did), rh_score = score did\<rparr>) (sorted_list_of_set ids)))"

lemma ranked_hits_by_score:
  "ranked_hits u f64_ln docs config is_and terms limit
     = hits_by_score docs (bm25_score u f64_ln docs config terms) (matching u docs is_and terms) limit"
  by (simp add: ranked_hits_def hits_by_score_def ranked_hit_def [abs_def])

lemma not_f64_lt_zero: "is_finite a \<Longrightarrow> \<not> f64_lt a (Dyadic 0 0) \<longleftrightarrow> 0 \<le> val a"
  by (auto simp: f64_lt_def f64_le_val)

lemma query_terms_bounds:
  assumes "query_terms u query limit = Inr terms"
  shows "terms \<noteq> []" "length terms \<le> 64"
  using assms by (auto simp: query_terms_def Let_def MAX_QUERY_TERMS_def split: if_splits)

lemma bm25_defined_accurate:
  assumes ok: "docs_ok u docs" and terms: "query_terms u query limit = Inr terms"
    and config: "Bm25Config_new k1 b = Inr config" and ln: "ln_within d f64_ln" "0 \<le> d" "d \<le> 1"
    and def: "corpus_length u docs = 0 \<or> bm25_defined u f64_ln docs config is_and terms" and did: "did \<in> matching u docs is_and terms"
  shows "is_finite (bm25_score u f64_ln docs config terms did)
     \<and> \<bar>val (bm25_score u f64_ln docs config terms did) - bm25 u docs config terms did\<bar> \<le> (2 * d + 1 / 2 ^ 35) * bm25_scale u docs config terms did"
proof -
  note q = query_terms_bounds [OF terms]
  obtain t where t: "did \<in> dom docs" "t \<in> set (tokens u (the (docs did)))"
    using did q(1) by (cases terms) (auto simp: matching_def split: if_splits)
  from document_lengths [OF ok t] def have "bm25_defined u f64_ln docs config is_and terms" by simp
  then have "\<forall>t \<in> set terms. 0 \<le> val (term_idf u f64_ln docs t)" by (auto simp: bm25_defined_def not_f64_lt_zero)
  from score_near [OF ok t(1) q(2) config ln this] show ?thesis by simp
qed

lemma bm25_undefined_idf:
  assumes ok: "docs_ok u docs" and terms: "query_terms u query limit = Inr terms"
    and config: "Bm25Config_new k1 b = Inr config" and ln: "ln_within d f64_ln" "0 \<le> d" "d \<le> 1"
    and undef: "corpus_length u docs \<noteq> 0" "\<not> bm25_defined u f64_ln docs config is_and terms"
  shows "\<exists>t \<in> set terms. bm25_idf (card (dom docs)) (card (documents_with u docs t)) < 2 * d + 1 / 2 ^ 43"
proof (rule ccontr)
  assume *: "\<not> ?thesis"
  have n: "card (dom docs) < 2 ^ 64" using ok by (simp add: docs_ok_def)
  have i: "is_finite (term_idf u f64_ln docs t)" "0 \<le> val (term_idf u f64_ln docs t)" if "t \<in> set terms" for t
  proof -
    have "card (documents_with u docs t) < 2 ^ 64" using documents_with_card(2) [OF ok, of t] n by linarith
    note near = idf_near [OF ln n this]
    from near(1) show "is_finite (term_idf u f64_ln docs t)" by (simp add: term_idf_def)
    have "2 * d + 1 / 2 ^ 43 \<le> bm25_idf (card (dom docs)) (card (documents_with u docs t))" using * that by (meson not_less)
    with abs_le_D2 [OF near(2)] show "0 \<le> val (term_idf u f64_ln docs t)" by (simp add: term_idf_def)
  qed
  have c: "card (dom docs) \<noteq> 0" using undef(1) ok by (auto simp: corpus_length_def docs_ok_def)
  note avg = average_length_near [OF ok undef(1) c]
  have "bm25_defined u f64_ln docs config is_and terms"
    unfolding bm25_defined_def
  proof (intro conjI ballI impI avg)
    fix did t assume did: "did \<in> matching u docs is_and terms"
    then have dom: "did \<in> dom docs" using matching_subset by blast
    from score_near(1) [OF ok dom query_terms_bounds(2) [OF terms] config ln] i(2)
    show "is_finite (bm25_score u f64_ln docs config terms did)" by blast
    assume "t \<in> set terms" "t \<in> set (tokens u (the (docs did)))"
    with part_near [OF ok dom _ config ln] i(2)
    show "is_finite (bm25_part u f64_ln docs config did t)" "\<not> f64_le (document_factor u docs config did) (Dyadic 0 0)" by blast+
  qed (use i not_f64_lt_zero in blast)+
  with undef(2) show False by blast
qed

end
