(* ===== verification/Fts_Write.thy ===== *)
theory Fts_Write
  imports Fts_Index
begin

text \<open>
  The writes of the index: each plans one batch, from what it reads, after which the engine holds exactly
  the records of the changed documents.
\<close>

section \<open>Batches on the map\<close>

definition op_key :: "batch_operation \<Rightarrow> bytes" where
  "op_key op = (case op of Batch_Put key _ \<Rightarrow> key | Batch_Delete key \<Rightarrow> key)"

definition op_value :: "batch_operation \<Rightarrow> bytes option" where
  "op_value op = (case op of Batch_Put _ v \<Rightarrow> Some v | Batch_Delete _ \<Rightarrow> None)"

lemma op_simps [simp]:
  "op_key (Batch_Put key v) = key" "op_value (Batch_Put key v) = Some v" "op_key (Batch_Delete key) = key" "op_value (Batch_Delete key) = None"
  by (simp_all add: op_key_def op_value_def)

lemma apply_operation_eq: "apply_operation op m = m(op_key op := op_value op)"
  by (cases op) (simp_all add: apply_operation_def)

lemma apply_batch_other: "key \<notin> op_key ` set ops \<Longrightarrow> apply_batch ops m key = m key"
  by (induction ops arbitrary: m) (auto simp: apply_batch_def apply_operation_eq)

lemma apply_batch_same:
  assumes "\<forall>op \<in> set ops. op_key op = key \<longrightarrow> op_value op = x" and "key \<in> op_key ` set ops"
  shows "apply_batch ops m key = x"
  using assms
proof (induction ops arbitrary: m)
  case (Cons op ops)
  show ?case
  proof (cases "key \<in> op_key ` set ops")
    case True
    then have "apply_batch ops (apply_operation op m) key = x" using Cons by simp
    then show ?thesis by (simp add: apply_batch_def)
  next
    case False
    then have "apply_batch ops (apply_operation op m) key = apply_operation op m key" by (rule apply_batch_other)
    with False Cons.prems show ?thesis by (auto simp: apply_batch_def apply_operation_eq)
  qed
qed simp

text \<open>A batch that writes the records that changed, and nothing outside the namespace of the index.\<close>

definition reindexes :: "unicode \<Rightarrow> (bytes \<rightharpoonup> bytes) \<Rightarrow> (bytes \<rightharpoonup> bytes) \<Rightarrow> (bytes \<rightharpoonup> bytes) \<Rightarrow> bool" where
  "reindexes u m m' docs' \<longleftrightarrow> indexes u m' docs' \<and> (\<forall>key. \<not> reserved key \<longrightarrow> m' key = m key)"

lemma unreserved_kept:
  assumes "\<And>op. op \<in> set ops \<Longrightarrow> reserved (op_key op)" and "\<not> reserved key"
  shows "apply_batch ops m key = m key"
  using assms by (intro apply_batch_other) auto

lemma indexes_update:
  assumes ix: "indexes u m docs" and ok: "docs_ok u docs'"
    and ops: "\<And>op. op \<in> set ops \<Longrightarrow> \<exists>k. key_sized k \<and> op_key op = key_of k \<and> op_value op = image_of u docs' k"
    and rest: "\<And>k. key_sized k \<Longrightarrow> image_of u docs' k \<noteq> image_of u docs k \<Longrightarrow> key_of k \<in> op_key ` set ops"
  shows "reindexes u m (apply_batch ops m) docs'"
  unfolding reindexes_def indexes_def
proof (intro conjI allI impI)
  show "docs_ok u docs'" by (rule ok)
next
  fix k assume k: "key_sized k"
  show "apply_batch ops m (key_of k) = image_of u docs' k"
  proof (cases "key_of k \<in> op_key ` set ops")
    case True
    show ?thesis
    proof (rule apply_batch_same [OF _ True], intro ballI impI)
      fix op assume "op \<in> set ops" "op_key op = key_of k"
      with ops [of op] k show "op_value op = image_of u docs' k" by (auto simp: key_of_inj)
    qed
  next
    case False
    with rest [OF k] have "image_of u docs' k = image_of u docs k" by blast
    with apply_batch_other [OF False, of m] indexes_get [OF ix k] show ?thesis by simp
  qed
next
  fix key assume key: "reserved key \<and> apply_batch ops m key \<noteq> None"
  show "\<exists>k. key_sized k \<and> key = key_of k"
  proof (cases "key \<in> op_key ` set ops")
    case True
    then show ?thesis using ops by fastforce
  next
    case False
    with key ix show ?thesis by (simp add: apply_batch_other indexes_def)
  qed
next
  fix key assume "\<not> reserved key"
  moreover have "reserved (op_key op)" if "op \<in> set ops" for op using ops [OF that] by auto
  ultimately show "apply_batch ops m key = m key" by (rule unreserved_kept [rotated])
qed

section \<open>Changing one document\<close>

definition terms_at :: "unicode \<Rightarrow> (bytes \<rightharpoonup> bytes) \<Rightarrow> bytes \<Rightarrow> terms" where
  "terms_at u docs did = (case docs did of None \<Rightarrow> [] | Some d \<Rightarrow> tokenize u d)"

definition length_at :: "unicode \<Rightarrow> (bytes \<rightharpoonup> bytes) \<Rightarrow> bytes \<Rightarrow> nat" where
  "length_at u docs did = (case docs did of None \<Rightarrow> 0 | Some d \<Rightarrow> length (tokens u d))"

lemma frequency_zero:
  assumes "docs_ok u docs"
  shows "frequency (terms_at u docs did) t = 0 \<longleftrightarrow> did \<notin> documents_with u docs t"
proof (cases "docs did")
  case None
  then show ?thesis by (auto simp: terms_at_def frequency_def documents_with_def)
next
  case (Some d)
  note len = document_length [OF docs_okD(2) [OF assms Some]]
  show ?thesis
    using Some unat_term_count [OF len, of u t] count_list_0_iff [of "tokens u d" t]
    by (auto simp: terms_at_def frequency_def documents_with_def tokenize_get simp flip: unat_eq_zero)
qed

lemma posting_image:
  assumes "docs_ok u docs"
  shows "image_of u docs (Posting_Record t did)
     = (if frequency (terms_at u docs did) t = 0 then None else Some (u64_be (frequency (terms_at u docs did) t)))"
proof (cases "docs did")
  case None
  then show ?thesis by (simp add: terms_at_def frequency_def)
next
  case (Some d)
  then have "t \<in> set (tokens u d) \<longleftrightarrow> frequency (terms_at u docs did) t \<noteq> 0"
    using frequency_zero [OF assms, of did t] by (auto simp: documents_with_def)
  with Some show ?thesis by (auto simp: terms_at_def frequency_def tokenize_get)
qed

lemma df_image:
  assumes "docs_ok u docs"
  shows "image_of u docs (Df_Record t)
     = (let n = of_nat (card (documents_with u docs t)) :: u64 in if n = 0 then None else Some (u64_be n))"
proof -
  note c = documents_with_card [OF assms, of t]
  have "(of_nat (card (documents_with u docs t)) :: u64) = 0 \<longleftrightarrow> documents_with u docs t = {}"
    using c(1,3) by (auto simp flip: unat_eq_zero)
  then show ?thesis by (simp add: Let_def)
qed

lemma counter_operation_simps [simp]:
  "op_key (counter_operation key n) = key" "op_value (counter_operation key n) = (if n = 0 then None else Some (u64_be n))"
  by (simp_all add: counter_operation_def)

text \<open>What the update of a document does to the documents with a term.\<close>

lemma documents_with_update:
  "documents_with u (docs(did := x)) t
     = (if (case x of None \<Rightarrow> False | Some d \<Rightarrow> t \<in> set (tokens u d)) then insert did (documents_with u docs t)
        else documents_with u docs t - {did})"
  by (auto simp: documents_with_def split: option.splits if_splits)

lemma corpus_update:
  assumes "finite (dom docs)"
  shows "corpus_length u (docs(did := x)) + length_at u docs did
     = corpus_length u docs + (case x of None \<Rightarrow> 0 | Some d \<Rightarrow> length (tokens u d))"
proof -
  let ?f = "\<lambda>docs did. length (tokens u (the (docs did)))" and ?rest = "dom docs - {did}"
  have split: "corpus_length u docs' = (case docs' did of None \<Rightarrow> 0 | Some d \<Rightarrow> length (tokens u d)) + sum (?f docs) ?rest"
    if "dom docs' - {did} = ?rest" "finite (dom docs')" "\<forall>i \<in> ?rest. docs' i = docs i" for docs'
  proof (cases "docs' did")
    case None
    then have "dom docs' = ?rest" using that(1) by auto
    then show ?thesis using that None by (simp add: corpus_length_def)
  next
    case (Some d)
    then have "dom docs' = insert did ?rest" using that(1) by auto
    moreover have "sum (?f docs') (insert did ?rest) = ?f docs' did + sum (?f docs') ?rest" by (rule sum.insert) (use assms in auto)
    ultimately have "corpus_length u docs' = ?f docs' did + sum (?f docs') ?rest" unfolding corpus_length_def by (simp only:)
    then show ?thesis using that(3) Some by simp
  qed
  have "dom (docs(did := x)) \<subseteq> insert did (dom docs)" by auto
  then have "finite (dom (docs(did := x)))" using assms by (rule finite_subset [OF _ finite.insertI])
  from split [OF _ this] split [OF _ assms] show ?thesis by (auto simp: length_at_def)
qed

lemma card_update:
  assumes "finite (dom docs)"
  shows "card (dom (docs(did \<mapsto> d))) = (if docs did = None then Suc (card (dom docs)) else card (dom docs))"
  using assms by (auto simp: card_insert_if insert_absorb domIff)

text \<open>The operations on the records of one term of a document, and of the document itself.\<close>

definition term_operations :: "unicode \<Rightarrow> (bytes \<rightharpoonup> bytes) \<Rightarrow> (bytes \<rightharpoonup> bytes) \<Rightarrow> bytes \<Rightarrow> bytes \<Rightarrow> batch_operation list" where
  "term_operations u docs docs' did t =
     (if frequency (terms_at u docs did) t = frequency (terms_at u docs' did) t then []
      else [counter_operation (key_of (Df_Record t)) (of_nat (card (documents_with u docs' t))),
            counter_operation (key_of (Posting_Record t did)) (frequency (terms_at u docs' did) t)])"

definition record_operation :: "unicode \<Rightarrow> (bytes \<rightharpoonup> bytes) \<Rightarrow> fts_key \<Rightarrow> batch_operation" where
  "record_operation u docs k =
     (case image_of u docs k of None \<Rightarrow> Batch_Delete (key_of k) | Some v \<Rightarrow> Batch_Put (key_of k) v)"

definition document_operations ::
  "unicode \<Rightarrow> (bytes \<rightharpoonup> bytes) \<Rightarrow> (bytes \<rightharpoonup> bytes) \<Rightarrow> bytes \<Rightarrow> bytes list \<Rightarrow> batch_operation list" where
  "document_operations u docs docs' did ts =
     concat (map (term_operations u docs docs' did) ts)
     @ map (record_operation u docs') [Document_Record did, Forward_Record did, Stats_Record]"

lemma record_operation_simps [simp]:
  "op_key (record_operation u docs k) = key_of k" "op_value (record_operation u docs k) = image_of u docs k"
  by (simp_all add: record_operation_def split: option.split)

lemma document_operations_not_Nil [simp]: "document_operations u docs docs' did ts \<noteq> []"
  by (simp add: document_operations_def)

lemma documents_with_changed:
  assumes "docs_ok u docs" "docs_ok u docs'" and "docs' = docs(did := x)" and "documents_with u docs' t \<noteq> documents_with u docs t"
  shows "frequency (terms_at u docs did) t \<noteq> frequency (terms_at u docs' did) t"
proof -
  have "did \<in> documents_with u docs t \<longleftrightarrow> did \<notin> documents_with u docs' t"
    using assms(4) unfolding assms(3) documents_with_update by (auto split: if_splits)
  then show ?thesis using frequency_zero [OF assms(1), of did t] frequency_zero [OF assms(2), of did t] by auto
qed

lemma frequency_term: "frequency (terms_at u docs did) t \<noteq> 0 \<Longrightarrow> t \<in> fst ` set (terms_at u docs did)"
  by (cases "map_of (terms_at u docs did) t") (auto simp: frequency_def intro: rev_image_eqI dest: map_of_SomeD)

lemma document_operations_image:
  assumes ok': "docs_ok u docs'" and did: "sized did" and ts: "\<forall>t \<in> set ts. sized t"
    and op: "op \<in> set (document_operations u docs docs' did ts)"
  shows "\<exists>k. key_sized k \<and> op_key op = key_of k \<and> op_value op = image_of u docs' k"
proof -
  from op consider k where "k \<in> {Document_Record did, Forward_Record did, Stats_Record}" "op = record_operation u docs' k"
    | t where "t \<in> set ts" "op = counter_operation (key_of (Df_Record t)) (of_nat (card (documents_with u docs' t)))"
    | t where "t \<in> set ts" "op = counter_operation (key_of (Posting_Record t did)) (frequency (terms_at u docs' did) t)"
    unfolding document_operations_def by (auto simp: term_operations_def split: if_splits)
  then show ?thesis
  proof cases
    case 1
    then have "key_sized k" using did by auto
    with 1 show ?thesis by auto
  next
    case 2
    then show ?thesis using df_image [OF ok', of t] ts by (intro exI [of _ "Df_Record t"]) (simp add: Let_def)
  next
    case 3
    then show ?thesis using posting_image [OF ok', of t did] ts did by (intro exI [of _ "Posting_Record t did"]) simp
  qed
qed

lemma document_operations_cover:
  assumes ok: "docs_ok u docs" and ok': "docs_ok u docs'" and docs': "docs' = docs(did := x)"
    and ts: "fst ` set (terms_at u docs did) \<union> fst ` set (terms_at u docs' did) \<subseteq> set ts"
    and k: "image_of u docs' k \<noteq> image_of u docs k"
  shows "key_of k \<in> op_key ` set (document_operations u docs docs' did ts)"
proof -
  have changed: "key_of (Df_Record t) \<in> op_key ` set (document_operations u docs docs' did ts)
      \<and> key_of (Posting_Record t did) \<in> op_key ` set (document_operations u docs docs' did ts)"
    if ne: "frequency (terms_at u docs did) t \<noteq> frequency (terms_at u docs' did) t" for t
  proof -
    have "frequency (terms_at u docs did) t \<noteq> 0 \<or> frequency (terms_at u docs' did) t \<noteq> 0" using ne by auto
    then have "t \<in> set ts" using ts frequency_term [of u _ did t] by blast
    then have "set (term_operations u docs docs' did t) \<subseteq> set (document_operations u docs docs' did ts)" by (auto simp: document_operations_def)
    then have "op_key ` set (term_operations u docs docs' did t) \<subseteq> op_key ` set (document_operations u docs docs' did ts)" by (rule image_mono)
    with ne show ?thesis by (simp add: term_operations_def)
  qed
  show ?thesis
  proof (cases k)
    case (Posting_Record t did')
    then have did': "did' = did" using k docs' by (cases "did' = did") auto
    have "frequency (terms_at u docs did) t \<noteq> frequency (terms_at u docs' did) t"
      using k posting_image [OF ok, of t did] posting_image [OF ok', of t did] unfolding Posting_Record did' by metis
    with changed Posting_Record did' show ?thesis by blast
  next
    case (Df_Record t)
    have "image_of u docs' (Df_Record t) = image_of u docs (Df_Record t)" if eq: "documents_with u docs' t = documents_with u docs t"
      unfolding image_of.simps eq ..
    with k Df_Record have "documents_with u docs' t \<noteq> documents_with u docs t" by blast
    from changed [OF documents_with_changed [OF ok ok' docs' this]] Df_Record show ?thesis by blast
  qed (use k docs' in \<open>auto simp: document_operations_def split: if_splits\<close>)
qed

lemma document_operations_index:
  assumes "indexes u m docs" and "docs_ok u docs'" and "docs' = docs(did := x)" and "sized did"
    and "fst ` set (terms_at u docs did) \<union> fst ` set (terms_at u docs' did) \<subseteq> set ts" "\<forall>t \<in> set ts. sized t"
  shows "reindexes u m (apply_batch (document_operations u docs docs' did ts) m) docs'"
  using assms by (intro indexes_update [OF assms(1,2)] document_operations_image document_operations_cover [OF indexes_ok [OF assms(1)]])

end
