(* ===== verification/Fts_Put.thy ===== *)
theory Fts_Put
  imports Fts_Write
begin

text \<open>
  Putting and deleting one document. The batch that \<open>put_document\<close> writes turns the records of the old
  documents into the records of the new ones; it fails before writing exactly when the new documents
  could not be indexed.
\<close>

section \<open>Counters\<close>

lemma ok_or_Some [simp]: "ok_or e (Some x) = Inr x"
  by (simp add: ok_or_def)

lemma df_update:
  assumes ok: "docs_ok u docs" and ok': "docs_ok u docs'" and docs': "docs' = docs(did := x)"
    and ne: "frequency (terms_at u docs did) t \<noteq> frequency (terms_at u docs' did) t"
  shows "(if frequency (terms_at u docs did) t = 0 \<and> frequency (terms_at u docs' did) t \<noteq> 0
          then ok_or e (checked_add (of_nat (card (documents_with u docs t))) 1)
          else if frequency (terms_at u docs did) t \<noteq> 0 \<and> frequency (terms_at u docs' did) t = 0
          then ok_or e' (checked_sub (of_nat (card (documents_with u docs t))) 1)
          else Inr (of_nat (card (documents_with u docs t)))) = Inr (of_nat (card (documents_with u docs' t)))"
proof -
  note z = frequency_zero [OF ok, of did t] and z' = frequency_zero [OF ok', of did t]
  note c = documents_with_card [OF ok, of t] and c' = documents_with_card [OF ok', of t]
  have rest: "documents_with u docs' t - {did} = documents_with u docs t - {did}" unfolding docs' documents_with_update by auto
  consider "did \<notin> documents_with u docs t" "did \<in> documents_with u docs' t"
    | "did \<in> documents_with u docs t" "did \<notin> documents_with u docs' t"
    | "did \<in> documents_with u docs t" "did \<in> documents_with u docs' t"
    using ne z z' by fastforce
  then show ?thesis
  proof cases
    case 1
    then have "documents_with u docs' t = insert did (documents_with u docs t)" using rest by auto
    then have card: "card (documents_with u docs' t) = Suc (card (documents_with u docs t))" using 1(1) c(1) by simp
    then have "unat (of_nat (card (documents_with u docs t)) :: u64) + 1 < 2 ^ 64" using c(3) c'(2) ok' by (simp add: docs_ok_def)
    with 1 z z' card show ?thesis by (simp add: checked_add_def ok_or_def add.commute)
  next
    case 2
    then have "documents_with u docs t = insert did (documents_with u docs' t)" using rest by auto
    then have card: "card (documents_with u docs t) = Suc (card (documents_with u docs' t))" using 2(2) c'(1) by simp
    have "(1 :: u64) \<le> of_nat (card (documents_with u docs t))" using c(3) card by (simp add: word_le_nat_alt)
    with 2 z z' card show ?thesis by (simp add: checked_sub_def ok_or_def)
  next
    case 3
    then have "documents_with u docs' t = documents_with u docs t" using rest by auto
    with 3 z z' show ?thesis by simp
  qed
qed

lemma count_update:
  assumes ok: "docs_ok u docs" and "docs_ok u (docs(did \<mapsto> d))"
  shows "(if docs did = None then ok_or e (checked_add (of_nat (card (dom docs))) 1) else Inr (of_nat (card (dom docs))))
     = Inr (of_nat (card (dom (docs(did \<mapsto> d)))))"
proof -
  have c: "card (dom (docs(did \<mapsto> d))) = (if docs did = None then Suc (card (dom docs)) else card (dom docs))"
    using ok by (intro card_update) (simp add: docs_ok_def)
  have "card (dom (docs(did \<mapsto> d))) < 2 ^ 64" using assms(2) by (simp only: docs_ok_def)
  then show ?thesis using c stats_words(1) [OF ok] by (auto simp: checked_add_def ok_or_def add.commute split: if_splits)
qed

lemma total_update:
  assumes ok: "docs_ok u docs" and ok': "corpus_length u (docs(did := x)) < 2 ^ 64"
    and len: "(case x of None \<Rightarrow> 0 | Some d \<Rightarrow> length (tokens u d)) < 2 ^ 64"
  shows "Option.bind (checked_sub (of_nat (corpus_length u docs)) (of_nat (length_at u docs did)))
       (\<lambda>v. checked_add v (of_nat (case x of None \<Rightarrow> 0 | Some d \<Rightarrow> length (tokens u d))))
     = Some (of_nat (corpus_length u (docs(did := x))) :: u64)"
proof -
  let ?new = "case x of None \<Rightarrow> 0 | Some d \<Rightarrow> length (tokens u d)"
  have fin: "finite (dom docs)" using ok by (simp add: docs_ok_def)
  note eq = corpus_update [OF fin, of u did x]
  have le: "length_at u docs did \<le> corpus_length u docs"
    using corpus_update [OF fin, of u did None] by simp
  then have lt: "length_at u docs did < 2 ^ 64" using ok by (simp add: docs_ok_def)
  let ?c = "of_nat (corpus_length u docs) :: u64" and ?l = "of_nat (length_at u docs did) :: u64"
  have l: "unat ?l = length_at u docs did" and n: "unat (of_nat ?new :: u64) = ?new" using lt len by (simp_all only: unat_of_nat_64)
  have sub: "checked_sub ?c ?l = Some (?c - ?l)" "unat (?c - ?l) = corpus_length u docs - length_at u docs did"
    using le stats_words(2) [OF ok] l by (simp_all add: checked_sub_def word_le_nat_alt unat_sub)
  have "unat (?c - ?l) + unat (of_nat ?new :: u64) = corpus_length u (docs(did := x))" unfolding sub(2) n using eq le by linarith
  then have "checked_add (?c - ?l) (of_nat ?new) = Some (?c - ?l + of_nat ?new)" "unat (?c - ?l + of_nat ?new) = corpus_length u (docs(did := x))"
    using ok' by (simp_all add: checked_add_def unat_word_ariths)
  then have "?c - ?l + of_nat ?new = of_nat (corpus_length u (docs(did := x)))" by (metis of_nat_unat ucast_id)
  with \<open>checked_add (?c - ?l) (of_nat ?new) = _\<close> sub(1) show ?thesis by simp
qed

lemma total_overflow:
  assumes ok: "docs_ok u docs" and ok': "\<not> corpus_length u (docs(did \<mapsto> d)) < 2 ^ 64" and len: "length (tokens u d) < 2 ^ 64"
  shows "Option.bind (checked_sub (of_nat (corpus_length u docs)) (of_nat (length_at u docs did)))
       (\<lambda>v. checked_add v (of_nat (length (tokens u d)))) = (None :: u64 option)"
proof -
  have fin: "finite (dom docs)" using ok by (simp add: docs_ok_def)
  note eq = corpus_update [OF fin, of u did "Some d"]
  have le: "length_at u docs did \<le> corpus_length u docs" using corpus_update [OF fin, of u did None] by simp
  then have "length_at u docs did < 2 ^ 64" using ok by (simp add: docs_ok_def)
  then have l: "unat (of_nat (length_at u docs did) :: u64) = length_at u docs did" by (rule unat_of_nat_64)
  have "unat (of_nat (corpus_length u docs) - of_nat (length_at u docs did) :: u64) = corpus_length u docs - length_at u docs did"
    using le stats_words(2) [OF ok] l by (simp add: unat_sub word_le_nat_alt)
  then show ?thesis using eq le ok' unat_of_nat_64 [OF len] by (auto simp: checked_sub_def checked_add_def)
qed

lemma count_overflow:
  assumes ok: "docs_ok u docs" and "\<not> card (dom (docs(did \<mapsto> d))) < 2 ^ 64"
  shows "docs did = None" "checked_add (of_nat (card (dom docs))) 1 = (None :: u64 option)"
proof -
  have c: "card (dom (docs(did \<mapsto> d))) = (if docs did = None then Suc (card (dom docs)) else card (dom docs))"
    using ok by (intro card_update) (simp add: docs_ok_def)
  show "docs did = None" "checked_add (of_nat (card (dom docs))) 1 = (None :: u64 option)"
    using assms(2) stats_words(1) [OF ok] ok unfolding c by (auto simp: docs_ok_def checked_add_def split: if_splits)
qed

section \<open>Putting a document\<close>

lemma rfold_concat: "rfold (\<lambda>x a. Inr (a @ f x)) xs a = Inr (a @ concat (map f xs))"
  by (induction xs arbitrary: a) simp_all

lemma old_state:
  "old_terms_of (map_option (state_of u) (docs did)) = terms_at u docs did"
  "old_length_of (map_option (state_of u) (docs did)) = of_nat (length_at u docs did)"
  by (simp_all add: old_terms_of_def old_length_of_def terms_at_def length_at_def state_of_def split: option.split)

definition put_terms :: "unicode \<Rightarrow> (bytes \<rightharpoonup> bytes) \<Rightarrow> bytes \<Rightarrow> bytes \<Rightarrow> bytes list" where
  "put_terms u docs did d = btree_set (map fst (terms_at u docs did) @ map fst (tokenize u d))"

definition put_operations :: "unicode \<Rightarrow> (bytes \<rightharpoonup> bytes) \<Rightarrow> bytes \<Rightarrow> bytes \<Rightarrow> batch_operation list" where
  "put_operations u docs did d = document_operations u docs (docs(did \<mapsto> d)) did (put_terms u docs did d)"

lemma terms_at_sized:
  assumes "docs_ok u docs" and "t \<in> fst ` set (terms_at u docs did)"
  shows "sized t"
proof (cases "docs did")
  case None
  with assms(2) show ?thesis by (simp add: terms_at_def)
next
  case (Some d)
  with assms(2) have "t \<in> set (tokens u d)" by (simp add: terms_at_def fst_set_tokenize)
  with docs_okD(2) [OF assms(1) Some] show ?thesis by (simp add: document_ok_def)
qed

lemma put_terms_sized:
  assumes "docs_ok u docs" and "docs_ok u (docs(did \<mapsto> d))"
  shows "\<forall>t \<in> set (put_terms u docs did d). sized t"
proof
  fix t assume "t \<in> set (put_terms u docs did d)"
  then have "t \<in> fst ` set (terms_at u docs did) \<or> t \<in> fst ` set (terms_at u (docs(did \<mapsto> d)) did)"
    by (simp add: put_terms_def terms_at_def)
  then show "sized t" using terms_at_sized [OF assms(1)] terms_at_sized [OF assms(2)] by blast
qed

lemma put_operations_index:
  assumes "indexes u m docs" and "docs_ok u (docs(did \<mapsto> d))"
  shows "reindexes u m (apply_batch (put_operations u docs did d) m) (docs(did \<mapsto> d))"
  unfolding put_operations_def
proof (rule document_operations_index [OF assms refl])
  show "sized did" using docs_okD(1) [OF assms(2), of did d] by (simp add: id_ok_def)
  show "\<forall>t \<in> set (put_terms u docs did d). sized t" by (rule put_terms_sized [OF indexes_ok [OF assms(1)] assms(2)])
qed (auto simp: put_terms_def terms_at_def)

context map_reader
begin

lemma computes_put_term:
  assumes ix: "indexes u m docs" and ok': "docs_ok u docs'" and docs': "docs' = docs(did := x)" and "sized t" "sized did"
  shows "computes m (put_term eng did (terms_at u docs did) (terms_at u docs' did) t ops) (Inr (ops @ term_operations u docs docs' did t))"
proof (cases "frequency (terms_at u docs did) t = frequency (terms_at u docs' did) t")
  case True
  then show ?thesis by (simp add: put_term_def term_operations_def computes_return)
next
  case False
  from df_update [OF indexes_ok [OF ix] ok' docs' this] assms(4,5) False show ?thesis
    unfolding put_term_def Let_def
    by (simp add: key_functions term_operations_def) (intro computes_bind_Inr [OF computes_load_df [OF ix assms(4)]], simp add: computes_return)
qed

lemma put_document_plans:
  assumes u: "unicode_ok u" and ix: "indexes u m docs" and ok': "docs_ok u (docs(did \<mapsto> d))"
  shows "plans m (put_document u eng did d) (put_operations u docs did d) ()"
proof -
  note ok = indexes_ok [OF ix] and new = docs_okD [OF ok', of did d, simplified]
  let ?docs' = "docs(did \<mapsto> d)"
  have did: "sized did" and v: "utf8_valid d" using new by (simp_all add: id_ok_def document_ok_def)
  note len = document_length [OF new(2)]
  have tokens_len: "length (tokens u d) < 2 ^ 64" using len length_tokens [of u d] by simp
  have new_terms: "terms_at u ?docs' did = tokenize u d" by (simp add: terms_at_def)
  have fold: "computes m (io_fold (put_term eng did (terms_at u docs did) (tokenize u d)) (put_terms u docs did d) [])
      (Inr (concat (map (term_operations u docs ?docs' did) (put_terms u docs did d))))"
    using computes_fold [of "put_terms u docs did d" m "put_term eng did (terms_at u docs did) (tokenize u d)"
        "\<lambda>t ops. Inr (ops @ term_operations u docs ?docs' did t)" "[]"]
      computes_put_term [OF ix ok' refl _ did] put_terms_sized [OF ok ok'] unfolding rfold_concat new_terms by simp
  have enc: "encode_terms (tokenize u d) = Inr (forward_record (tokenize u d))"
    using encode_terms_eq [OF document_sum(1) [OF len, of u]] new(2) by (simp add: fst_set_tokenize document_ok_def)
  have tot: "Option.bind (checked_sub (of_nat (corpus_length u docs)) (of_nat (length_at u docs did)))
      (\<lambda>v. checked_add v (of_nat (length (tokens u d)))) = Some (of_nat (corpus_length u ?docs'))"
    using total_update [OF ok, of did "Some d"] ok' tokens_len by (simp add: docs_ok_def)
  have cnt: "docs did = None \<Longrightarrow> ok_or e (checked_add (of_nat (card (dom docs))) 1) = Inr (of_nat (card (dom ?docs')) :: u64)"
    "docs did \<noteq> None \<Longrightarrow> (of_nat (card (dom ?docs')) :: u64) = of_nat (card (dom docs))" for e
    using count_update [OF ok ok', of e] by (auto simp del: dom_fun_upd)
  have ops: "concat (map (term_operations u docs ?docs' did) (put_terms u docs did d))
      @ [Batch_Put (key_of (Document_Record did)) d, Batch_Put (key_of (Forward_Record did)) (forward_record (tokenize u d)),
         Batch_Put (key_of Stats_Record) (encode_stats (of_nat (card (dom ?docs'))) (of_nat (corpus_length u ?docs')))]
     = put_operations u docs did d"
    by (simp add: put_operations_def document_operations_def record_operation_def)
  have rest: "plans m (io_bind (io_fold (put_term eng did (terms_at u docs did) (tokenize u d)) (put_terms u docs did d) []) (\<lambda>operations.
      ka_write_batch eng (operations @ [Batch_Put (key_of (Document_Record did)) d,
        Batch_Put (key_of (Forward_Record did)) (forward_record (tokenize u d)),
        Batch_Put (key_of Stats_Record) (encode_stats (of_nat (card (dom ?docs'))) (of_nat (corpus_length u ?docs')))])))
     (put_operations u docs did d) ()"
    by (rule plans_bind [OF fold]) (simp only: ops plans_write)
  show ?thesis
    unfolding put_document_def Let_def
    by (rule plans_bind [OF computes_await], simp only: v simp_thms if_False, rule plans_bind [OF computes_load_document_state [OF u ix did]],
        rule plans_bind [OF computes_load_stats [OF ix]], simp only: prod.case old_state option.map_disc_iff)
      (cases "docs did = None"; use rest in \<open>simp add: try_sum_tokenize [OF len] cnt tot ok_or_Some did key_functions enc
        fixed_keys del: dom_fun_upd not_None_eq flip: put_terms_def\<close>)
qed

text \<open>A computation that reads, whatever it returns.\<close>

definition reads :: "(bytes \<rightharpoonup> bytes) \<Rightarrow> ('s, 'a) io \<Rightarrow> bool" where
  "reads m c \<longleftrightarrow> (\<exists>v. computes m c v)"

lemma reads_lift: "reads m (io_lift v)"
  by (auto simp: reads_def intro: computes_lift)

lemma reads_return: "reads m (io_return x)"
  by (auto simp: reads_def intro: computes_return)

lemma reads_bind: "reads m c \<Longrightarrow> (\<And>x. reads m (f x)) \<Longrightarrow> reads m (io_bind c f)"
  unfolding reads_def by (meson computes_bind)

lemma fold_fails:
  assumes "\<And>x a. x \<in> set xs \<Longrightarrow> reads m (f x a)" and "x \<in> set xs" and "\<And>a. \<exists>e. computes m (f x a) (Inl e)"
  shows "\<exists>e. computes m (io_fold f xs a) (Inl e)"
  using assms(1,2)
proof (induction xs arbitrary: a)
  case (Cons y ys)
  show ?case
  proof (cases "x = y")
    case True
    with assms(3) [of a] show ?thesis by (auto intro: computes_bind_Inl)
  next
    case False
    obtain v where v: "computes m (f y a) v" using Cons.prems(1) [of y] by (auto simp: reads_def)
    show ?thesis
    proof (cases v)
      case (Inl e)
      with v show ?thesis by (auto intro: computes_bind_Inl)
    next
      case (Inr b)
      have "\<exists>e. computes m (io_fold f ys b) (Inl e)" by (rule Cons.IH) (use Cons.prems False in auto)
      with v Inr show ?thesis by (auto intro: computes_bind_Inr)
    qed
  qed
qed simp

lemma reads_load_df: "indexes u m docs \<Longrightarrow> reads m (load_df eng t)"
  using computes_load_df [of u m docs t] by (cases "sized t") (auto simp: reads_def load_df_def key_functions intro: computes_lift)

lemma reads_put_term: "indexes u m docs \<Longrightarrow> reads m (put_term eng did old new t ops)"
  unfolding put_term_def Let_def
  by (cases "frequency old t = frequency new t") (simp_all add: reads_return reads_bind reads_lift reads_load_df)

lemma put_term_fails:
  "\<not> sized t \<Longrightarrow> frequency old t \<noteq> frequency new t \<Longrightarrow> computes m (put_term eng did old new t ops) (Inl too_long)"
  by (simp add: put_term_def Let_def load_df_def key_functions computes_lift)

lemma bind_fails: "(\<And>x. \<exists>e. computes m (f x) (Inl e)) \<Longrightarrow> \<exists>e. computes m (io_bind (io_lift r) f) (Inl e)"
  by (cases r) (auto intro: computes_lift)

lemma put_document_fails:
  assumes u: "unicode_ok u" and ix: "indexes u m docs" and did: "did \<noteq> []" "utf8_valid did" and len: "length d < 2 ^ 59"
    and bad: "\<not> docs_ok u (docs(did \<mapsto> d))"
  shows "\<exists>e. computes m (put_document u eng did d) (Inl e)"
proof -
  note ok = indexes_ok [OF ix]
  have len': "length d < 2 ^ 64" using len by simp
  show ?thesis
  proof (cases "utf8_valid d \<and> sized did")
    case False
    then consider "\<not> utf8_valid d" | "utf8_valid d" "\<not> sized did" by blast
    then show ?thesis
    proof cases
      case 1
      then have "computes m (put_document u eng did d) (Inl (Err (StorageError ''document is not valid UTF-8'')))"
        unfolding put_document_def by (intro computes_await_bind) (auto intro: computes_fail)
      then show ?thesis by blast
    next
      case 2
      then have "computes m (put_document u eng did d) (Inl too_long)"
        unfolding put_document_def Let_def
        by (intro computes_await_bind) (auto intro!: computes_bind_Inl computes_load_document_state_long)
      then show ?thesis by blast
    qed
  next
    case True
    have start: "\<exists>e. computes m (put_document u eng did d) (Inl e)"
      if "\<exists>e. computes m (io_bind (io_lift (if docs did = None then ok_or (corrupt ''document count overflow'') (checked_add (of_nat (card (dom docs))) 1)
              else Inr (of_nat (card (dom docs))))) (\<lambda>n.
            io_bind (io_lift (ok_or (corrupt ''corpus length overflow'') (Option.bind (checked_sub (of_nat (corpus_length u docs)) (of_nat (length_at u docs did)))
              (\<lambda>v. checked_add v (of_nat (length (tokens u d))))))) (\<lambda>total.
            io_bind (io_fold (put_term eng did (terms_at u docs did) (tokenize u d)) (put_terms u docs did d) []) (g n total)))) (Inl e)"
        and "g = (\<lambda>n total operations. io_bind (io_lift (document_key did)) (\<lambda>dkey. io_bind (io_lift (forward_key did)) (\<lambda>fkey.
            io_bind (io_lift (encode_terms (tokenize u d))) (\<lambda>forward. ka_write_batch eng
              (operations @ [Batch_Put dkey d, Batch_Put fkey forward, Batch_Put STATS_KEY (encode_stats n total)])))))" for g
      using that(1) unfolding that(2) put_document_def Let_def
      by (elim exE, intro exI, intro computes_await_bind, simp only: True simp_thms if_False,
          intro computes_bind_Inr [OF computes_load_document_state [OF u ix conjunct2 [OF True]]] computes_bind_Inr [OF computes_load_stats [OF ix]])
        (simp add: try_sum_tokenize [OF len'] old_state flip: put_terms_def)
    consider "\<not> card (dom (docs(did \<mapsto> d))) < 2 ^ 64" | "\<not> corpus_length u (docs(did \<mapsto> d)) < 2 ^ 64"
      | t where "t \<in> set (tokens u d)" "\<not> sized t"
      using bad ok did len True by (auto simp: docs_ok_def document_ok_def id_ok_def split: if_splits)
    then show ?thesis
    proof cases
      case 1
      from count_overflow [OF ok 1] show ?thesis by (intro start [OF _ refl]) (auto simp: ok_or_def intro: computes_lift)
    next
      case 2
      have "length (tokens u d) < 2 ^ 64" using length_tokens [of u d] len' by simp
      note none = total_overflow [OF ok 2 this]
      show ?thesis by (rule start [OF _ refl], rule bind_fails) (auto simp: none ok_or_def intro: computes_lift)
    next
      case 3
      have "t \<notin> fst ` set (terms_at u docs did)" using terms_at_sized [OF ok] 3(2) by blast
      then have "frequency (terms_at u docs did) t \<noteq> frequency (tokenize u d) t"
        using tokenize_frequency(2) [OF len', of t _ u] 3(1) bt_ok_in_set [OF tokenize_ok, of t _ u d]
        by (auto simp: frequency_def map_of_eq_None [symmetric] tokenize_get)
      note fails = put_term_fails [OF 3(2) this]
      have "\<exists>e. computes m (io_fold (put_term eng did (terms_at u docs did) (tokenize u d)) (put_terms u docs did d) []) (Inl e)"
        by (rule fold_fails [where x = t, OF reads_put_term [OF ix]]) (use fails 3(1) in \<open>auto simp: put_terms_def fst_set_tokenize\<close>)
      then show ?thesis by (intro start [OF _ refl] bind_fails) (auto intro: computes_bind_Inl)
    qed
  qed
qed

end

end
