(* ===== verification/Fts_Delete.thy ===== *)
theory Fts_Delete
  imports Fts_Put
begin

text \<open>Deleting a document, and opening an index.\<close>

section \<open>Deleting\<close>

lemma docs_ok_remove:
  assumes "docs_ok u docs"
  shows "docs_ok u (docs(did := None))"
proof -
  have fin: "finite (dom docs)" using assms by (simp add: docs_ok_def)
  have "corpus_length u (docs(did := None)) \<le> corpus_length u docs" using corpus_update [OF fin, of u did None] by simp
  moreover have "card (dom (docs(did := None))) \<le> card (dom docs)" using fin by (auto intro: card_mono)
  ultimately show ?thesis using assms by (auto simp: docs_ok_def)
qed

definition delete_operations :: "unicode \<Rightarrow> (bytes \<rightharpoonup> bytes) \<Rightarrow> bytes \<Rightarrow> batch_operation list" where
  "delete_operations u docs did = document_operations u docs (docs(did := None)) did (map fst (terms_at u docs did))"

lemma delete_operations_index:
  assumes "indexes u m docs" and "sized did"
  shows "reindexes u m (apply_batch (delete_operations u docs did) m) (docs(did := None))"
  unfolding delete_operations_def
  by (rule document_operations_index [OF assms(1) docs_ok_remove [OF indexes_ok [OF assms(1)]] refl assms(2)])
    (auto simp: terms_at_def [of _ "docs(did := None)"] intro: terms_at_sized [OF indexes_ok [OF assms(1)]] rev_image_eqI)

context map_reader
begin

lemma computes_delete_term:
  assumes ix: "indexes u m docs" and d: "docs did = Some d" and t: "t \<in> set (tokens u d)"
  shows "computes m (delete_term eng did t ops) (Inr (ops @ term_operations u docs (docs(did := None)) did t))"
proof -
  note ok = indexes_ok [OF ix]
  let ?docs' = "docs(did := None)"
  have sized: "sized t" "sized did" using docs_okD [OF ok d] t by (simp_all add: document_ok_def id_ok_def)
  have z: "frequency (terms_at u docs did) t \<noteq> 0" "frequency (terms_at u ?docs' did) t = 0"
    using frequency_zero [OF ok, of did t] d t by (auto simp: documents_with_def terms_at_def frequency_def)
  from df_update [OF ok docs_ok_remove [OF ok] refl, of did t] z sized show ?thesis
    unfolding delete_term_def
    by (intro computes_bind_Inr [OF computes_load_df [OF ix sized(1)]])
      (simp add: key_functions term_operations_def counter_operation_def computes_return)
qed

lemma delete_document_missing:
  assumes "unicode_ok u" "indexes u m docs" "sized did" "docs did = None"
  shows "computes m (delete_document u eng did) (Inr False)"
  unfolding delete_document_def using assms(4)
  by (intro computes_await_bind computes_bind_Inr [OF computes_load_document_state [OF assms(1-3)]]) (simp add: computes_return)

lemma delete_document_long: "\<not> sized did \<Longrightarrow> computes m (delete_document u eng did) (Inl too_long)"
  unfolding delete_document_def by (intro computes_await_bind computes_bind_Inl computes_load_document_state_long)

lemma delete_document_plans:
  assumes u: "unicode_ok u" and ix: "indexes u m docs" and d: "docs did = Some d"
  shows "plans m (delete_document u eng did) (delete_operations u docs did) True"
proof -
  note ok = indexes_ok [OF ix] and new = docs_okD [OF indexes_ok [OF ix] d]
  let ?docs' = "docs(did := None)"
  have did: "sized did" using new(1) by (simp add: id_ok_def)
  have terms: "terms_at u docs did = tokenize u d" using d by (simp add: terms_at_def)
  have fold: "computes m (io_fold (delete_term eng did) (map fst (tokenize u d)) [])
      (Inr (concat (map (term_operations u docs ?docs' did) (map fst (tokenize u d)))))"
    using computes_fold [of "map fst (tokenize u d)" m "delete_term eng did" "\<lambda>t ops. Inr (ops @ term_operations u docs ?docs' did t)" "[]"]
      computes_delete_term [OF ix d] fst_set_tokenize [of u d] unfolding rfold_concat by auto
  have tot: "checked_sub (of_nat (corpus_length u docs)) (of_nat (length (tokens u d))) = Some (of_nat (corpus_length u ?docs') :: u64)"
    using total_update [OF ok, of did None] docs_ok_remove [OF ok, of did] d
    by (auto simp: docs_ok_def length_at_def checked_add_def split: Option.bind_splits if_splits)
  have card: "card (dom docs) = Suc (card (dom ?docs'))" 

  proof -
    have "card (dom docs) = Suc (card (dom docs - {did}))" by (rule card.remove) (use ok d in \<open>auto simp: docs_ok_def\<close>)
    then show ?thesis by simp
  qed
  have cnt: "checked_sub (of_nat (card (dom docs))) 1 = Some (of_nat (card (dom ?docs')) :: u64)"
    using stats_words(1) [OF ok] unfolding card by (auto simp: checked_sub_def word_le_nat_alt)
  have ops: "concat (map (term_operations u docs ?docs' did) (map fst (tokenize u d)))
      @ [Batch_Delete (key_of (Document_Record did)), Batch_Delete (key_of (Forward_Record did)),
         Batch_Put (key_of Stats_Record) (encode_stats (of_nat (card (dom ?docs'))) (of_nat (corpus_length u ?docs')))]
     = delete_operations u docs did"
    by (simp add: delete_operations_def document_operations_def record_operation_def terms)
  have rest: "plans m (io_bind (io_fold (delete_term eng did) (map fst (tokenize u d)) []) (\<lambda>operations.
      io_bind (ka_write_batch eng (operations @ [Batch_Delete (key_of (Document_Record did)), Batch_Delete (key_of (Forward_Record did)),
        Batch_Put (key_of Stats_Record) (encode_stats (of_nat (card (dom ?docs'))) (of_nat (corpus_length u ?docs')))])) (\<lambda>_. io_return True)))
     (delete_operations u docs did) True"
    by (rule plans_bind [OF fold]) (simp only: ops plans_write_return)
  show ?thesis
    unfolding delete_document_def
    by (rule plans_bind [OF computes_await], rule plans_bind [OF computes_load_document_state [OF u ix did]],
        simp only: d option.map option.case state_of_def prod.case, rule plans_bind [OF computes_load_stats [OF ix]])
      (use rest in \<open>simp add: cnt tot did key_functions fixed_keys del: dom_fun_upd\<close>)
qed

end

section \<open>Opening\<close>

lemma indexes_empty:
  assumes "\<And>key. reserved key \<Longrightarrow> m key = None"
  shows "indexes u (apply_batch [Batch_Put META_KEY [FORMAT_VERSION, TOKENIZER_VERSION], Batch_Put STATS_KEY (encode_stats 0 0)] m) Map.empty"
proof -
  have "image_of u Map.empty k = None" if "k \<noteq> Meta_Record" "k \<noteq> Stats_Record" for k
    using that by (cases k) (simp_all add: documents_with_def)
  moreover have "key_of k = key_of Meta_Record \<longleftrightarrow> k = Meta_Record" "key_of k = key_of Stats_Record \<longleftrightarrow> k = Stats_Record" if "key_sized k" for k
    using that key_of_inj [of k] by simp_all
  ultimately show ?thesis
    using assms
    by (auto simp: indexes_def apply_batch_def apply_operation_eq fixed_keys docs_ok_def corpus_length_def split: if_splits
        intro: exI [of _ Meta_Record] exI [of _ Stats_Record])
qed

context map_reader
begin

text \<open>An index is opened, or created where nothing is.\<close>

lemma open_existing:
  assumes "indexes u m docs"
  shows "computes m (FtsIndex_open eng) (Inr ())"
  unfolding FtsIndex_open_def Let_def fixed_keys
  by (intro computes_await_bind computes_get_bind) (simp add: indexes_get [OF assms] computes_return)

lemma open_new:
  assumes "finite (dom m)" and "\<And>key. reserved key \<Longrightarrow> m key = None"
  shows "plans m (FtsIndex_open eng) [Batch_Put META_KEY [FORMAT_VERSION, TOKENIZER_VERSION], Batch_Put STATS_KEY (encode_stats 0 0)] ()"
proof -
  have "{key \<in> dom m. key_in_range key namespace_range} = {}"
    using assms(2) unfolding namespace_range_def prefix_range_iff by (auto simp: reserved_def)
  then have rows: "range_entries namespace_range m = []" by (simp only: range_entries_def sorted_list_of_set_empty list.map)
  have "m META_KEY = None" using assms(2) by (simp add: fixed_keys)
  then show ?thesis
    unfolding FtsIndex_open_def Let_def
    by (intro plans_bind [OF computes_await] plans_bind [OF computes_get])
      (simp, rule plans_bind [OF computes_scan], simp add: rows plans_write)
qed

end

end
