(* ===== verification/Fts_Batch.thy ===== *)
theory Fts_Batch
  imports Fts_Delete
begin

text \<open>
  Putting a batch of documents: it plans one batch of operations, after which the index stands for the
  documents that putting them one after the other gives.
\<close>

section \<open>The terms of one document\<close>

text \<open>How the number of documents with a term changes.\<close>

definition df_change :: "terms \<Rightarrow> terms \<Rightarrow> bytes \<Rightarrow> int" where
  "df_change old new t =
     (if frequency old t = 0 \<and> frequency new t \<noteq> 0 then 1 else if frequency old t \<noteq> 0 \<and> frequency new t = 0 then - 1 else 0)"

definition delta_of :: "(bytes, int) btree_map \<Rightarrow> bytes \<Rightarrow> int" where
  "delta_of deltas t = (case map_of deltas t of None \<Rightarrow> 0 | Some n \<Rightarrow> n)"

definition posting_operations :: "bytes \<Rightarrow> terms \<Rightarrow> terms \<Rightarrow> bytes \<Rightarrow> batch_operation list" where
  "posting_operations did old new t =
     (if frequency old t = frequency new t then [] else [counter_operation (key_of (Posting_Record t did)) (frequency new t)])"

lemma map_of_add_delta: "map_of (add_delta t d deltas) = (map_of deltas)(t \<mapsto> delta_of deltas t + d)"
  by (simp add: add_delta_def delta_of_def)

lemma batch_terms:
  assumes "\<forall>t \<in> set ts. sized t" and "sized did" and "distinct ts" and "bt_ok deltas"
  shows "\<exists>deltas'. rfold (batch_term did old new) ts (deltas, ops) = Inr (deltas', ops @ concat (map (posting_operations did old new) ts))
     \<and> bt_ok deltas' \<and> (\<forall>t. map_of deltas' t
          = (if t \<in> set ts \<and> df_change old new t \<noteq> 0 then Some (delta_of deltas t + df_change old new t) else map_of deltas t))"
  using assms
proof (induction ts arbitrary: deltas ops)
  case (Cons t ts)
  let ?d = "if df_change old new t = 0 then deltas else add_delta t (df_change old new t) deltas"
  have step: "batch_term did old new t (deltas, ops) = Inr (?d, ops @ posting_operations did old new t)"
    using Cons.prems by (auto simp: batch_term_def Let_def key_functions posting_operations_def df_change_def)
  have "bt_ok ?d" using Cons.prems(4) by (simp add: add_delta_def)
  from Cons.IH [OF _ _ _ this, of "ops @ posting_operations did old new t"] Cons.prems
  obtain deltas' where d: "rfold (batch_term did old new) ts (?d, ops @ posting_operations did old new t)
      = Inr (deltas', (ops @ posting_operations did old new t) @ concat (map (posting_operations did old new) ts))" "bt_ok deltas'"
    "\<forall>s. map_of deltas' s = (if s \<in> set ts \<and> df_change old new s \<noteq> 0 then Some (delta_of ?d s + df_change old new s) else map_of ?d s)"
    by auto
  have "map_of deltas' s = (if s \<in> set (t # ts) \<and> df_change old new s \<noteq> 0 then Some (delta_of deltas s + df_change old new s) else map_of deltas s)" for s
    using d(3) Cons.prems(3) by (auto simp: map_of_add_delta delta_of_def)
  with d(1,2) step show ?case by (intro exI [of _ deltas']) simp
qed simp

lemma df_change_card:
  assumes ok: "docs_ok u docs" and ok': "docs_ok u docs'" and docs': "docs' = docs(did := x)"
  shows "int (card (documents_with u docs' t)) = int (card (documents_with u docs t)) + df_change (terms_at u docs did) (terms_at u docs' did) t"
    "df_change (terms_at u docs did) (terms_at u docs' did) t = 0 \<Longrightarrow> documents_with u docs' t = documents_with u docs t"
proof -
  note z = frequency_zero [OF ok, of did t] and z' = frequency_zero [OF ok', of did t]
  note c = documents_with_card(1) [OF ok, of t] and c' = documents_with_card(1) [OF ok', of t]
  have rest: "documents_with u docs' t - {did} = documents_with u docs t - {did}" unfolding docs' documents_with_update by auto
  have "card (documents_with u ds t) = card (documents_with u ds t - {did}) + (if did \<in> documents_with u ds t then 1 else 0)"
    if fin: "finite (documents_with u ds t)" for ds
  proof (cases "did \<in> documents_with u ds t")
    case True
    then show ?thesis using card.remove [OF fin True] by (simp only: if_True Suc_eq_plus1)
  qed simp
  from this [OF c] this [OF c'] show "int (card (documents_with u docs' t)) = int (card (documents_with u docs t)) + df_change (terms_at u docs did) (terms_at u docs' did) t"
    unfolding rest df_change_def z z' by auto
  show "documents_with u docs' t = documents_with u docs t" if "df_change (terms_at u docs did) (terms_at u docs' did) t = 0"
    using that rest unfolding df_change_def z z' by (auto split: if_splits)
qed

section \<open>The loop over the documents\<close>

text \<open>The id of the document that a record belongs to.\<close>

fun key_did :: "fts_key \<Rightarrow> bytes option" where
  "key_did (Document_Record did) = Some did"
| "key_did (Forward_Record did) = Some did"
| "key_did (Posting_Record _ did) = Some did"
| "key_did _ = None"

lemma image_other: "key_did k = Some did' \<Longrightarrow> did' \<noteq> did \<Longrightarrow> image_of u (docs(did := x)) k = image_of u docs k"
  by (cases k) auto

text \<open>The deltas are the changes so far, and the operations write the records of the documents so far.\<close>

definition deltas_inv :: "unicode \<Rightarrow> (bytes \<rightharpoonup> bytes) \<Rightarrow> (bytes \<rightharpoonup> bytes) \<Rightarrow> (bytes, int) btree_map \<Rightarrow> bool" where
  "deltas_inv u docs docs' deltas \<longleftrightarrow> bt_ok deltas
     \<and> (\<forall>t d. map_of deltas t = Some d \<longrightarrow>
          sized t \<and> d = int (card (documents_with u docs' t)) - int (card (documents_with u docs t)))
     \<and> (\<forall>t. map_of deltas t = None \<longrightarrow> documents_with u docs' t = documents_with u docs t)"

definition operations_inv ::
  "unicode \<Rightarrow> (bytes \<rightharpoonup> bytes) \<Rightarrow> (bytes \<rightharpoonup> bytes) \<Rightarrow> bytes set \<Rightarrow> batch_operation list \<Rightarrow> bool" where
  "operations_inv u docs docs' processed operations \<longleftrightarrow>
     (\<forall>did. did \<notin> processed \<longrightarrow> docs' did = docs did)
     \<and> (\<forall>op \<in> set operations. \<exists>k did. key_sized k \<and> key_did k = Some did \<and> did \<in> processed
          \<and> op_key op = key_of k \<and> op_value op = image_of u docs' k)
     \<and> (\<forall>k. key_did k \<noteq> None \<and> image_of u docs' k \<noteq> image_of u docs k \<longrightarrow> key_of k \<in> op_key ` set operations)"

definition batch_inv ::
  "unicode \<Rightarrow> (bytes \<rightharpoonup> bytes) \<Rightarrow> (bytes \<rightharpoonup> bytes) \<Rightarrow> bytes set \<Rightarrow> batch_state \<Rightarrow> bool" where
  "batch_inv u docs docs' processed st \<longleftrightarrow>
     (case st of (n, corpus, deltas, operations) \<Rightarrow>
        docs_ok u docs' \<and> n = of_nat (card (dom docs')) \<and> corpus = of_nat (corpus_length u docs')
        \<and> deltas_inv u docs docs' deltas \<and> operations_inv u docs docs' processed operations)"

lemma image_local: "key_did k = Some did \<Longrightarrow> docs did = docs' did \<Longrightarrow> image_of u docs k = image_of u docs' k"
  by (cases k) auto

text \<open>A round that succeeds: the documents stay such that they can be indexed.\<close>

lemma batch_document_Inr:
  assumes ok: "docs_ok u docs'" and did: "did \<noteq> []" "utf8_valid did" and d: "utf8_valid d" "length d < 2 ^ 59"
    and old: "map_of old_states did = Some (map_option (state_of u) (docs' did))" and "bt_ok deltas"
    and res: "batch_document old_states (did, d, tokenize u d) (of_nat (card (dom docs')), of_nat (corpus_length u docs'), deltas, ops) = Inr st"
  defines "docs'' \<equiv> docs'(did \<mapsto> d)" and "ts \<equiv> put_terms u docs' did d"
  shows "docs_ok u docs'' \<and> (\<exists>deltas'. st = (of_nat (card (dom docs'')), of_nat (corpus_length u docs''), deltas',
       ops @ concat (map (posting_operations did (terms_at u docs' did) (tokenize u d)) ts)
         @ [Batch_Put (key_of (Document_Record did)) d, Batch_Put (key_of (Forward_Record did)) (forward_record (tokenize u d))])
     \<and> bt_ok deltas' \<and> (\<forall>t. map_of deltas' t
          = (if t \<in> set ts \<and> df_change (terms_at u docs' did) (tokenize u d) t \<noteq> 0
             then Some (delta_of deltas t + df_change (terms_at u docs' did) (tokenize u d) t) else map_of deltas t)))"
proof -
  have len: "length d < 2 ^ 64" using d(2) by simp
  then have tl: "length (tokens u d) < 2 ^ 64" using length_tokens [of u d] by simp
  from res have cnt: "\<exists>n. (if docs' did = None then ok_or (corrupt ''document count overflow'') (checked_add (of_nat (card (dom docs'))) 1)
        else Inr (of_nat (card (dom docs')))) = Inr n"
    and tot: "\<exists>c. ok_or (corrupt ''corpus length overflow'') (Option.bind (checked_sub (of_nat (corpus_length u docs')) (of_nat (length_at u docs' did)))
        (\<lambda>v. checked_add v (of_nat (length (tokens u d))))) = Inr c"
    and sz: "sized did" "\<forall>t \<in> set (map fst (tokenize u d)). sized t"
    unfolding batch_document_def
    by (auto simp: old rbind_eq_Inr old_state try_sum_tokenize [OF len] key_functions encode_terms_eq [OF document_sum(1) [OF len, of u]]
        Let_def case_prod_beta split: if_splits)
  have "card (dom docs'') < 2 ^ 64" unfolding docs''_def using cnt count_overflow [OF ok, of did d] by (force simp: ok_or_def)
  moreover have "corpus_length u docs'' < 2 ^ 64" unfolding docs''_def using tot total_overflow [OF ok _ tl, of did] by (force simp: ok_or_def)
  moreover have "document_ok u d" using d sz(2) by (simp add: document_ok_def fst_set_tokenize)
  ultimately have ok'': "docs_ok u docs''" using ok did sz(1) by (auto simp: docs_ok_def id_ok_def docs''_def)
  have "\<forall>t \<in> set ts. sized t" unfolding ts_def using put_terms_sized [OF ok ok'' [unfolded docs''_def]] .
  from batch_terms [OF this sz(1) _ assms(7), of "terms_at u docs' did" "tokenize u d" ops] obtain deltas' where
    t: "rfold (batch_term did (terms_at u docs' did) (tokenize u d)) ts (deltas, ops)
        = Inr (deltas', ops @ concat (map (posting_operations did (terms_at u docs' did) (tokenize u d)) ts))" "bt_ok deltas'"
      "\<forall>t. map_of deltas' t = (if t \<in> set ts \<and> df_change (terms_at u docs' did) (tokenize u d) t \<noteq> 0
             then Some (delta_of deltas t + df_change (terms_at u docs' did) (tokenize u d) t) else map_of deltas t)"
    by (auto simp: ts_def put_terms_def)
  have tot': "Option.bind (checked_sub (of_nat (corpus_length u docs')) (of_nat (length_at u docs' did)))
      (\<lambda>v. checked_add v (of_nat (length (tokens u d)))) = Some (of_nat (corpus_length u docs''))"
    using total_update [OF ok, of did "Some d"] ok'' tl by (simp add: docs_ok_def docs''_def)
  have "st = (of_nat (card (dom docs'')), of_nat (corpus_length u docs''), deltas',
      ops @ concat (map (posting_operations did (terms_at u docs' did) (tokenize u d)) ts)
        @ [Batch_Put (key_of (Document_Record did)) d, Batch_Put (key_of (Forward_Record did)) (forward_record (tokenize u d))])"
    using res count_update [OF ok, of did d, folded docs''_def, OF ok''] t(1) sz tot'
    unfolding batch_document_def ts_def put_terms_def
    by (simp add: old old_state try_sum_tokenize [OF len] key_functions encode_terms_eq [OF document_sum(1) [OF len, of u]] Let_def)
  with ok'' t(2,3) show ?thesis by blast
qed

text \<open>The terms of a document whose frequency changes are among those the round visits.\<close>

lemma changed_term:
  assumes "frequency (terms_at u docs did) t \<noteq> frequency (tokenize u d) t"
  shows "t \<in> set (put_terms u docs did d)"
  using assms frequency_term [of u docs did t] frequency_term [of u "docs(did \<mapsto> d)" did t]
  by (cases "frequency (terms_at u docs did) t = 0") (auto simp: put_terms_def terms_at_def)

lemma unchanged_term: "t \<notin> set (put_terms u docs did d) \<Longrightarrow> df_change (terms_at u docs did) (tokenize u d) t = 0"
  by (cases "frequency (terms_at u docs did) t = frequency (tokenize u d) t") (auto simp: df_change_def dest: changed_term)

lemma deltas_step:
  assumes ok': "docs_ok u docs'" and ok'': "docs_ok u (docs'(did \<mapsto> d))" and inv: "deltas_inv u docs docs' deltas" and "bt_ok deltas'"
    and del': "\<And>t. map_of deltas' t = (if t \<in> set (put_terms u docs' did d) \<and> df_change (terms_at u docs' did) (tokenize u d) t \<noteq> 0
      then Some (delta_of deltas t + df_change (terms_at u docs' did) (tokenize u d) t) else map_of deltas t)"
  shows "deltas_inv u docs (docs'(did \<mapsto> d)) deltas'"
  unfolding deltas_inv_def
proof (intro conjI allI impI)
  let ?docs'' = "docs'(did \<mapsto> d)" and ?change = "df_change (terms_at u docs' did) (tokenize u d)"
  have new_terms: "terms_at u ?docs'' did = tokenize u d" by (simp add: terms_at_def)
  note card = df_change_card [OF ok' ok'' refl, unfolded new_terms]
  have delta_of: "delta_of deltas t = int (card (documents_with u docs' t)) - int (card (documents_with u docs t))" for t
    using inv by (cases "map_of deltas t") (auto simp: delta_of_def deltas_inv_def)
  fix t
  show "sized t" "x = int (card (documents_with u ?docs'' t)) - int (card (documents_with u docs t))" if x: "map_of deltas' t = Some x" for x
  proof -
    have "sized t \<and> x = int (card (documents_with u ?docs'' t)) - int (card (documents_with u docs t))"
    proof (cases "t \<in> set (put_terms u docs' did d) \<and> ?change t \<noteq> 0")
      case True
      with x del' [of t] put_terms_sized [OF ok' ok''] show ?thesis by (simp add: delta_of card(1))
    next
      case False
      then have "map_of deltas t = Some x" "?change t = 0" using x del' [of t] unchanged_term [of t u docs' did d] by auto
      with inv show ?thesis by (simp add: card(1) deltas_inv_def)
    qed
    then show "sized t" "x = int (card (documents_with u ?docs'' t)) - int (card (documents_with u docs t))" by blast+
  qed
  show "documents_with u ?docs'' t = documents_with u docs t" if "map_of deltas' t = None"
    using that del' [of t] unchanged_term [of t u docs' did d] inv card(2) [of t] by (auto simp: deltas_inv_def split: if_splits)
qed (rule assms(4))

lemma operations_step:
  assumes ok': "docs_ok u docs'" and ok'': "docs_ok u (docs'(did \<mapsto> d))" and inv: "operations_inv u docs docs' processed ops"
    and new: "did \<notin> processed"
    and ops': "ops' = ops @ concat (map (posting_operations did (terms_at u docs' did) (tokenize u d)) (put_terms u docs' did d))
        @ [Batch_Put (key_of (Document_Record did)) d, Batch_Put (key_of (Forward_Record did)) (forward_record (tokenize u d))]"
  shows "operations_inv u docs (docs'(did \<mapsto> d)) (insert did processed) ops'"
  unfolding operations_inv_def
proof (intro conjI allI impI ballI)
  let ?docs'' = "docs'(did \<mapsto> d)" and ?old = "terms_at u docs' did" and ?new = "tokenize u d" and ?ts = "put_terms u docs' did d"
  have new_terms: "terms_at u ?docs'' did = ?new" by (simp add: terms_at_def)
  have szd: "sized did" using docs_okD(1) [OF ok'', of did d] by (simp add: id_ok_def)
  have szt: "\<forall>t \<in> set ?ts. sized t" by (rule put_terms_sized [OF ok' ok''])
  show "\<exists>k i. key_sized k \<and> key_did k = Some i \<and> i \<in> insert did processed \<and> op_key op = key_of k \<and> op_value op = image_of u ?docs'' k"
    if op: "op \<in> set ops'" for op
  proof -
    from op consider "op \<in> set ops" | t where "t \<in> set ?ts" "op = counter_operation (key_of (Posting_Record t did)) (frequency ?new t)"
      | "op = Batch_Put (key_of (Document_Record did)) d" | "op = Batch_Put (key_of (Forward_Record did)) (forward_record ?new)"
      unfolding ops' by (auto simp: posting_operations_def split: if_splits)
    then show ?thesis
    proof cases
      case 1
      with inv new image_other [of _ _ did u docs' "Some d"] show ?thesis unfolding operations_inv_def by (metis insertCI)
    next
      case 2
      then show ?thesis using szt szd posting_image [OF ok'', of t did] unfolding new_terms by (intro exI [of _ "Posting_Record t did"]) simp
    next
      case 3
      then show ?thesis using szd by (intro exI [of _ "Document_Record did"]) simp
    next
      case 4
      then show ?thesis using szd by (intro exI [of _ "Forward_Record did"]) simp
    qed
  qed
  fix k assume k: "key_did k \<noteq> None \<and> image_of u ?docs'' k \<noteq> image_of u docs k"
  then obtain i where i: "key_did k = Some i" by blast
  show "key_of k \<in> op_key ` set ops'"
  proof (cases "i = did")
    case False
    then have "image_of u docs' k \<noteq> image_of u docs k" using k image_other [OF i False, of u docs' "Some d"] by simp
    with inv k show ?thesis unfolding ops' operations_inv_def by auto
  next
    case True
    have "image_of u docs' k = image_of u docs k" using image_local [OF i, of docs' docs u] inv new True by (simp add: operations_inv_def)
    with k have ne: "image_of u ?docs'' k \<noteq> image_of u docs' k" by simp
    show ?thesis
    proof (cases k)
      case (Posting_Record t j)
      with i True have k': "k = Posting_Record t did" by simp
      have "frequency ?old t \<noteq> frequency ?new t"
        using ne posting_image [OF ok', of t did] posting_image [OF ok'', of t did] unfolding k' new_terms by metis
      with changed_term [OF this] have "counter_operation (key_of k) (frequency ?new t) \<in> set ops'"
        unfolding ops' k' by (auto simp: posting_operations_def)
      then show ?thesis by (metis counter_operation_simps(1) imageI)
    qed (use i True in \<open>auto simp: ops'\<close>)
  qed
qed (use inv in \<open>auto simp: operations_inv_def\<close>)

lemma batch_inv_step:
  assumes inv: "batch_inv u docs docs' processed st" and new: "did \<notin> processed"
    and did: "did \<noteq> []" "utf8_valid did" and d: "utf8_valid d" "length d < 2 ^ 59"
    and old: "map_of old_states did = Some (map_option (state_of u) (docs did))"
    and res: "batch_document old_states (did, d, tokenize u d) st = Inr st'"
  shows "batch_inv u docs (docs'(did \<mapsto> d)) (insert did processed) st'"
proof -
  obtain n c deltas ops where st: "st = (n, c, deltas, ops)" by (metis prod.exhaust)
  from inv have ok': "docs_ok u docs'" and nc: "n = of_nat (card (dom docs'))" "c = of_nat (corpus_length u docs')"
    and del: "deltas_inv u docs docs' deltas" and ops: "operations_inv u docs docs' processed ops" by (simp_all add: batch_inv_def st)
  have "map_of old_states did = Some (map_option (state_of u) (docs' did))" using old ops new by (simp add: operations_inv_def)
  from batch_document_Inr [OF ok' did d this _ res [unfolded st nc]] del obtain deltas' where
    ok'': "docs_ok u (docs'(did \<mapsto> d))" and "bt_ok deltas'"
    and st': "st' = (of_nat (card (dom (docs'(did \<mapsto> d)))), of_nat (corpus_length u (docs'(did \<mapsto> d))), deltas',
        ops @ concat (map (posting_operations did (terms_at u docs' did) (tokenize u d)) (put_terms u docs' did d))
          @ [Batch_Put (key_of (Document_Record did)) d, Batch_Put (key_of (Forward_Record did)) (forward_record (tokenize u d))])"
    and del': "\<And>t. map_of deltas' t = (if t \<in> set (put_terms u docs' did d) \<and> df_change (terms_at u docs' did) (tokenize u d) t \<noteq> 0
        then Some (delta_of deltas t + df_change (terms_at u docs' did) (tokenize u d) t) else map_of deltas t)"
    by (auto simp: deltas_inv_def)
  show ?thesis
    unfolding batch_inv_def st' prod.case
    using ok'' deltas_step [OF ok' ok'' del \<open>bt_ok deltas'\<close> del'] operations_step [OF ok' ok'' ops new refl] by blast
qed

section \<open>The whole batch\<close>

definition put_all :: "(bytes \<times> bytes) list \<Rightarrow> (bytes \<rightharpoonup> bytes) \<Rightarrow> (bytes \<rightharpoonup> bytes)" where
  "put_all documents docs = fold (\<lambda>e docs. docs(fst e \<mapsto> snd e)) documents docs"

lemma put_all_eq: "put_all documents docs = docs ++ map_of (rev documents)"
  by (induction documents arbitrary: docs) (auto simp: put_all_def map_add_upd_left map_of_append fun_eq_iff map_add_def split: option.splits)

definition valid_entry :: "unicode \<Rightarrow> bytes \<times> bytes \<times> terms \<Rightarrow> bool" where
  "valid_entry u e \<longleftrightarrow> (case e of (did, d, ts) \<Rightarrow> did \<noteq> [] \<and> utf8_valid did \<and> utf8_valid d \<and> length d < 2 ^ 59 \<and> ts = tokenize u d)"

lemma batch_loop:
  assumes "batch_inv u docs docs' processed st" and "\<forall>e \<in> set entries. valid_entry u e" and "distinct (map fst entries)"
    and "\<forall>e \<in> set entries. fst e \<notin> processed \<and> map_of old_states (fst e) = Some (map_option (state_of u) (docs (fst e)))"
    and "rfold (batch_document old_states) entries st = Inr st'"
  shows "batch_inv u docs (put_all (map (\<lambda>e. (fst e, fst (snd e))) entries) docs') (fst ` set entries \<union> processed) st'"
  using assms
proof (induction entries arbitrary: docs' processed st)
  case (Cons e entries)
  obtain did d ts where e: "e = (did, d, ts)" by (metis prod.exhaust)
  from Cons.prems(2) have v: "did \<noteq> []" "utf8_valid did" "utf8_valid d" "length d < 2 ^ 59" and ts: "ts = tokenize u d" by (simp_all add: valid_entry_def e)
  from Cons.prems(5) obtain st1 where st1: "batch_document old_states (did, d, tokenize u d) st = Inr st1"
    and rest: "rfold (batch_document old_states) entries st1 = Inr st'" by (auto simp: e ts rbind_eq_Inr)
  have inv1: "batch_inv u docs (docs'(did \<mapsto> d)) (insert did processed) st1"
    by (rule batch_inv_step [OF Cons.prems(1) _ v _ st1]) (use Cons.prems(4) in \<open>simp_all add: e\<close>)
  have "\<forall>e' \<in> set entries. fst e' \<notin> insert did processed
      \<and> map_of old_states (fst e') = Some (map_option (state_of u) (docs (fst e')))" using Cons.prems(3,4) by (force simp: e)
  then have "batch_inv u docs (put_all (map (\<lambda>e. (fst e, fst (snd e))) entries) (docs'(did \<mapsto> d))) (fst ` set entries \<union> insert did processed) st'"
    using Cons.prems(2,3) by (intro Cons.IH [OF inv1 _ _ _ rest]) simp_all
  then show ?case by (simp add: e put_all_def)
qed (simp add: put_all_def)

lemma batch_inv_start: "docs_ok u docs \<Longrightarrow> batch_inv u docs docs {} (of_nat (card (dom docs)), of_nat (corpus_length u docs), [], [])"
  by (simp add: batch_inv_def deltas_inv_def operations_inv_def)

text \<open>The operations of the whole batch.\<close>

definition df_operations :: "unicode \<Rightarrow> (bytes \<rightharpoonup> bytes) \<Rightarrow> (bytes, int) btree_map \<Rightarrow> batch_operation list" where
  "df_operations u docs' deltas =
     map (\<lambda>(t, _). counter_operation (key_of (Df_Record t)) (of_nat (card (documents_with u docs' t)))) deltas"

lemma batch_index:
  assumes ix: "indexes u m docs" and inv: "batch_inv u docs docs' processed (n, c, deltas, ops)"
  shows "reindexes u m (apply_batch (ops @ df_operations u docs' deltas @ [Batch_Put STATS_KEY (encode_stats n c)]) m) docs'"
proof -
  from inv have ok': "docs_ok u docs'" and nc: "n = of_nat (card (dom docs'))" "c = of_nat (corpus_length u docs')"
    and del: "deltas_inv u docs docs' deltas" and opsi: "operations_inv u docs docs' processed ops" by (simp_all add: batch_inv_def)
  let ?ops = "ops @ df_operations u docs' deltas @ [Batch_Put STATS_KEY (encode_stats n c)]"
  show ?thesis
  proof (rule indexes_update [OF ix ok'])
    fix op assume "op \<in> set ?ops"
    then consider "op \<in> set ops" | t x where "(t, x) \<in> set deltas" "op = counter_operation (key_of (Df_Record t)) (of_nat (card (documents_with u docs' t)))"
      | "op = Batch_Put STATS_KEY (encode_stats n c)" by (auto simp: df_operations_def)
    then show "\<exists>k. key_sized k \<and> op_key op = key_of k \<and> op_value op = image_of u docs' k"
    proof cases
      case 1
      with opsi show ?thesis unfolding operations_inv_def by blast
    next
      case 2
      then have "sized t" using del bt_ok_in_set [of deltas t x] by (simp add: deltas_inv_def)
      with 2 df_image [OF ok', of t] show ?thesis by (intro exI [of _ "Df_Record t"]) (simp add: Let_def)
    next
      case 3
      then show ?thesis using nc by (intro exI [of _ Stats_Record]) (simp add: fixed_keys)
    qed
  next
    fix k assume k: "key_sized k" "image_of u docs' k \<noteq> image_of u docs k"
    show "key_of k \<in> op_key ` set ?ops"
    proof (cases "key_did k = None")
      case False
      with opsi k(2) have "key_of k \<in> op_key ` set ops" unfolding operations_inv_def by blast
      then show ?thesis by (simp add: image_Un)
    next
      case True
      then show ?thesis
      proof (cases k)
        case (Df_Record t)
        have "image_of u docs' (Df_Record t) = image_of u docs (Df_Record t)" if eq: "documents_with u docs' t = documents_with u docs t"
          unfolding image_of.simps eq ..
        with k(2) Df_Record del have "map_of deltas t \<noteq> None" unfolding deltas_inv_def by blast
        then have "t \<in> fst ` set deltas" by (simp add: map_of_eq_None)
        then show ?thesis by (force simp: Df_Record df_operations_def image_iff)
      next
        case Stats_Record
        then show ?thesis by (simp add: fixed_keys)
      qed (use k in auto)
    qed
  qed
qed

context map_reader
begin

lemma computes_batch_delta:
  assumes ix: "indexes u m docs" and ok': "docs_ok u docs'" and t: "sized t"
    and d: "d = int (card (documents_with u docs' t)) - int (card (documents_with u docs t))"
  shows "computes m (batch_delta eng (t, d) ops) (Inr (ops @ [counter_operation (key_of (Df_Record t)) (of_nat (card (documents_with u docs' t)))]))"
proof -
  let ?n = "card (documents_with u docs t)" and ?n' = "card (documents_with u docs' t)"
  note c = documents_with_card [OF indexes_ok [OF ix], of t] and c' = documents_with_card [OF ok', of t]
  have lt: "?n < 2 ^ 64" "?n' < 2 ^ 64" using c(2) c'(2) indexes_ok [OF ix] ok' by (simp_all add: docs_ok_def)
  have "(if 0 \<le> d then ok_or e (checked_add (of_nat ?n) (of_int d)) else ok_or e' (checked_sub (of_nat ?n) (of_int (- d)))) = Inr (of_nat ?n')" for e e'
  proof (cases "0 \<le> d")
    case True
    define k where "k = ?n' - ?n"
    have k: "?n' = ?n + k" "d = int k" using True d unfolding k_def by linarith+
    then have "unat (of_nat k :: u64) = k" using lt by (intro unat_of_nat_64) simp
    with True k c(3) lt show ?thesis by (simp add: checked_add_def)
  next
    case False
    define k where "k = ?n - ?n'"
    have k: "?n = ?n' + k" "d = - int k" using False d unfolding k_def by linarith+
    then have "unat (of_nat k :: u64) = k" using lt by (intro unat_of_nat_64) simp
    with False k c(3) lt show ?thesis by (simp add: checked_sub_def word_le_nat_alt)
  qed
  then show ?thesis
    unfolding batch_delta_def prod.case
    by (intro computes_bind_Inr [OF computes_load_df [OF ix t]]) (simp add: key_functions t computes_return)
qed

lemma computes_df_operations:
  assumes ix: "indexes u m docs" and ok': "docs_ok u docs'" and del: "deltas_inv u docs docs' deltas"
  shows "computes m (io_fold (batch_delta eng) deltas ops) (Inr (ops @ df_operations u docs' deltas))"
proof -
  let ?f = "\<lambda>e. [counter_operation (key_of (Df_Record (fst e))) (of_nat (card (documents_with u docs' (fst e))))]"
  have "computes m (io_fold (batch_delta eng) deltas ops) (rfold (\<lambda>e a. Inr (a @ ?f e)) deltas ops)"
  proof (rule computes_fold)
    fix e a assume e: "e \<in> set deltas"
    have "map_of deltas (fst e) = Some (snd e)" using e del bt_ok_in_set [of deltas "fst e" "snd e"] by (simp add: deltas_inv_def)
    with del have "sized (fst e)" "snd e = int (card (documents_with u docs' (fst e))) - int (card (documents_with u docs (fst e)))"
      unfolding deltas_inv_def by blast+
    from computes_batch_delta [OF ix ok' this, of a] show "computes m (batch_delta eng e a) (Inr (a @ ?f e))" by (simp only: prod.collapse)
  qed
  moreover have "concat (map ?f deltas) = df_operations u docs' deltas" by (simp add: df_operations_def case_prod_beta)
  ultimately show ?thesis unfolding rfold_concat [where f = ?f] by (simp only:)
qed

text \<open>The states of the documents before the batch.\<close>

lemma old_states_lookup:
  "rfold (\<lambda>did states. if sized did then Inr (bt_insert did (f did) states) else Inl too_long) dids states = Inr states' \<Longrightarrow>
     map_of states' did = (if did \<in> set dids then Some (f did) else map_of states did)"
  by (induction dids arbitrary: states) (auto simp: rbind_eq_Inr split: if_splits)

lemma computes_old_states:
  assumes "unicode_ok u" and "indexes u m docs"
  shows "computes m (io_fold (\<lambda>did states. io_bind (load_document_state u eng did) (\<lambda>old. io_return (bt_insert did old states))) dids states)
     (rfold (\<lambda>did states. if sized did then Inr (bt_insert did (map_option (state_of u) (docs did)) states) else Inl too_long) dids states)"
proof (rule computes_fold)
  fix did states
  show "computes m (io_bind (load_document_state u eng did) (\<lambda>old. io_return (bt_insert did old states)))
     (if sized did then Inr (bt_insert did (map_option (state_of u) (docs did)) states) else Inl too_long)"
  proof (cases "sized did")
    case True
    with computes_bind_Inr [OF computes_load_document_state [OF assms True] computes_return] show ?thesis by simp
  next
    case False
    with computes_bind_Inl [OF computes_load_document_state_long [OF False]] show ?thesis by simp
  qed
qed

end

lemma final_documents_eq:
  "final_documents u documents = (if \<forall>e \<in> set documents. utf8_valid (snd e)
     then Inr (bt_insert_all (map (\<lambda>e. (fst e, snd e, tokenize u (snd e))) documents) [])
     else Inl (Err (StorageError ''document is not valid UTF-8'')))"
proof -
  have "rfold (\<lambda>(did, document) final. if \<not> utf8_valid document then Inl (Err (StorageError ''document is not valid UTF-8''))
       else Inr (bt_insert did (document, tokenize u document) final)) documents m
     = (if \<forall>e \<in> set documents. utf8_valid (snd e) then Inr (bt_insert_all (map (\<lambda>e. (fst e, snd e, tokenize u (snd e))) documents) m)
        else Inl (Err (StorageError ''document is not valid UTF-8'')))" for m
  proof (induction documents arbitrary: m)
    case (Cons e documents)
    then show ?case by (cases "utf8_valid (snd e)") (simp_all add: case_prod_beta)
  qed simp
  then show ?thesis by (simp add: final_documents_def)
qed

lemma map_of_rev_unique: "distinct (map fst xs) \<Longrightarrow> map_of (rev xs) = map_of xs"
proof (rule ext)
  fix k assume d: "distinct (map fst xs)"
  then have "map_of (rev xs) k = Some v \<longleftrightarrow> map_of xs k = Some v" for v
    by (simp add: map_of_eq_Some_iff rev_map [symmetric])
  then show "map_of (rev xs) k = map_of xs k" by (cases "map_of xs k") (auto intro: option.exhaust)
qed

lemma map_of_second: "map_of (map (\<lambda>e. (fst e, f (snd e))) xs) k = map_option f (map_of xs k)"
  by (induction xs) auto

lemma final_documents_entries:
  fixes u :: unicode and documents :: "(bytes \<times> bytes) list"
  assumes docs: "\<forall>e \<in> set documents. fst e \<noteq> [] \<and> utf8_valid (fst e) \<and> length (snd e) < 2 ^ 59" and v: "\<forall>e \<in> set documents. utf8_valid (snd e)"
  defines "final \<equiv> bt_insert_all (map (\<lambda>e. (fst e, snd e, tokenize u (snd e))) documents) []"
  shows "\<forall>e \<in> set final. valid_entry u e" "distinct (map fst final)"
    "put_all (map (\<lambda>e. (fst e, fst (snd e))) final) docs = put_all documents docs"
proof -
  let ?g = "\<lambda>e. (fst e, snd e, tokenize u (snd e))"
  have ok: "bt_ok final" unfolding final_def by (simp add: bt_ok_insert_all)
  show dist: "distinct (map fst final)" by (rule bt_ok_distinct [OF ok])
  have lookup: "map_of final = map_of (rev (map ?g documents))" unfolding final_def map_of_bt_insert_all by simp
  show "\<forall>e \<in> set final. valid_entry u e"
  proof
    fix e assume "e \<in> set final"
    then have "map_of final (fst e) = Some (snd e)" using bt_ok_in_set [OF ok, of "fst e" "snd e"] by simp
    then have "e \<in> ?g ` set documents" unfolding lookup using map_of_SomeD by fastforce
    with docs v show "valid_entry u e" by (auto simp: valid_entry_def)
  qed
  have "map_of (rev (map (\<lambda>e. (fst e, fst (snd e))) final)) i = map_of (rev documents) i" for i
  proof -
    have "map_of (rev (map (\<lambda>e. (fst e, fst (snd e))) final)) i = map_of (map (\<lambda>e. (fst e, fst (snd e))) final) i"
      by (intro fun_cong [OF map_of_rev_unique]) (use dist in \<open>simp add: comp_def\<close>)
    also have "map_of (map (\<lambda>e. (fst e, fst (snd e))) final) i = map_option fst (map_of final i)"
      by (rule map_of_second)
    also have "\<dots> = map_of (rev documents) i"
      using map_of_second [of "\<lambda>d. (d, tokenize u d)" "rev documents" i]
      by (simp add: lookup rev_map option.map_comp comp_def option.map_ident)
    finally show ?thesis .
  qed
  then show "put_all (map (\<lambda>e. (fst e, fst (snd e))) final) docs = put_all documents docs"
    unfolding put_all_eq map_add_def by auto
qed

text \<open>A command that either fails before it writes, or writes one batch with the stated effect.\<close>

context map_reader
begin

definition settles :: "(bytes \<rightharpoonup> bytes) \<Rightarrow> ('s, 'b) io \<Rightarrow> 'b \<Rightarrow> (batch_operation list \<Rightarrow> bool) \<Rightarrow> bool" where
  "settles m c x P \<longleftrightarrow> (\<exists>e. computes m c (Inl e)) \<or> (\<exists>ops. ops \<noteq> [] \<and> plans m c ops x \<and> P ops)"

lemma settles_bind:
  assumes "computes m c v" and "\<And>x. v = Inr x \<Longrightarrow> settles m (f x) y P"
  shows "settles m (io_bind c f) y P"
proof (cases v)
  case (Inl e)
  with assms(1) show ?thesis unfolding settles_def using computes_bind_Inl by blast
next
  case (Inr x)
  with assms(1) have c: "computes m c (Inr x)" by simp
  from assms(2) [OF Inr] consider e where "computes m (f x) (Inl e)" | ops where "ops \<noteq> []" "plans m (f x) ops y" "P ops"
    unfolding settles_def by blast
  then show ?thesis
  proof cases
    case 1
    from computes_bind_Inr [where f = f, OF c this] show ?thesis unfolding settles_def by blast
  next
    case 2
    from plans_bind [where f = f, OF c 2(2)] 2 show ?thesis unfolding settles_def by blast
  qed
qed

lemma settles_fail: "settles m (io_fail e) x P"
  unfolding settles_def using computes_fail by blast

lemma settles_write: "ops \<noteq> [] \<Longrightarrow> P ops \<Longrightarrow> settles m (ka_write_batch eng ops) () P"
  unfolding settles_def using plans_write by blast

lemma write_documents_settles:
  assumes ix: "indexes u m docs" and inv: "batch_inv u docs docs' processed st"
  shows "settles m (write_documents eng st) () (\<lambda>ops. reindexes u m (apply_batch ops m) docs')"
proof -
  obtain n c deltas ops where st: "st = (n, c, deltas, ops)" by (metis prod.exhaust)
  with inv have ok': "docs_ok u docs'" and del: "deltas_inv u docs docs' deltas" by (simp_all add: batch_inv_def)
  have batch: "reindexes u m (apply_batch ((ops @ df_operations u docs' deltas) @ [Batch_Put STATS_KEY (encode_stats n c)]) m) docs'"
    using batch_index [OF ix] inv by (simp only: st append_assoc)
  have "settles m (io_bind (io_lift (check_mutations ((ops @ df_operations u docs' deltas) @ [Batch_Put STATS_KEY (encode_stats n c)]))) (\<lambda>_.
      ka_write_batch eng ((ops @ df_operations u docs' deltas) @ [Batch_Put STATS_KEY (encode_stats n c)]))) ()
      (\<lambda>ops. reindexes u m (apply_batch ops m) docs')"
    by (rule settles_bind [OF computes_lift], rule settles_write) (use batch in simp_all)
  then show ?thesis unfolding st write_documents_def prod.case Let_def
    by (intro settles_bind [OF computes_df_operations [OF ix ok' del]]) (simp only: sum.inject)
qed

lemma index_documents_settles:
  assumes u: "unicode_ok u" and ix: "indexes u m docs" and valid: "\<forall>e \<in> set final. valid_entry u e" and dist: "distinct (map fst final)"
  shows "settles m (index_documents u eng final) ()
    (\<lambda>ops. reindexes u m (apply_batch ops m) (put_all (map (\<lambda>e. (fst e, fst (snd e))) final) docs))"
  unfolding index_documents_def
proof (rule settles_bind [OF computes_await], rule settles_bind [OF computes_old_states [OF u ix]],
    rule settles_bind [OF computes_load_stats [OF ix]])
  fix old_states nc
  assume states: "rfold (\<lambda>did states. if sized did then Inr (bt_insert did (map_option (state_of u) (docs did)) states) else Inl too_long)
      (map fst final) [] = Inr old_states"
    and nc: "Inr (of_nat (card (dom docs)), of_nat (corpus_length u docs)) = (Inr nc :: (u64 \<times> u64) result)"
  obtain n c where nc': "nc = (n, c)" by fastforce
  have start: "batch_inv u docs docs {} (n, c, [], [])" using batch_inv_start [of u docs] ix nc by (simp add: nc' indexes_def)
  have old: "\<forall>e \<in> set final. fst e \<notin> {} \<and> map_of old_states (fst e) = Some (map_option (state_of u) (docs (fst e)))"
    using old_states_lookup [OF states] by auto
  show "settles m (case nc of (n, c) \<Rightarrow> io_bind (io_lift (rfold (batch_document old_states) final (n, c, [], []))) (write_documents eng)) ()
      (\<lambda>ops. reindexes u m (apply_batch ops m) (put_all (map (\<lambda>e. (fst e, fst (snd e))) final) docs))"
    unfolding nc' prod.case
    by (rule settles_bind [OF computes_lift], rule write_documents_settles [OF ix batch_loop [OF start valid dist old]])
qed

lemma put_documents_settles:
  assumes u: "unicode_ok u" and ix: "indexes u m docs" and ids: "\<forall>e \<in> set documents. fst e \<noteq> [] \<and> utf8_valid (fst e)" and ne: "documents \<noteq> []"
  shows "settles m (put_documents u eng documents) () (\<lambda>ops. reindexes u m (apply_batch ops m) (put_all documents docs))"
proof (cases "sum_list (map (\<lambda>d. length (snd d)) documents) \<le> MAX_DOCUMENT_BATCH_INPUT_BYTES")
  case True
  have small: "\<forall>e \<in> set documents. fst e \<noteq> [] \<and> utf8_valid (fst e) \<and> length (snd e) < 2 ^ 59"
  proof
    fix e assume e: "e \<in> set documents"
    then have "length (snd e) \<le> sum_list (map (\<lambda>d. length (snd d)) documents)" by (intro member_le_sum_list) auto
    with True have "length (snd e) < 2 ^ 59" by (simp add: MAX_DOCUMENT_BATCH_INPUT_BYTES_def)
    with e ids show "fst e \<noteq> [] \<and> utf8_valid (fst e) \<and> length (snd e) < 2 ^ 59" by blast
  qed
  have "settles m (io_bind (io_lift (final_documents u documents)) (index_documents u eng)) ()
      (\<lambda>ops. reindexes u m (apply_batch ops m) (put_all documents docs))"
  proof (rule settles_bind [OF computes_lift])
    fix final assume "final_documents u documents = Inr final"
    then have v: "\<forall>e \<in> set documents. utf8_valid (snd e)"
      and f: "final = bt_insert_all (map (\<lambda>e. (fst e, snd e, tokenize u (snd e))) documents) []"
      by (auto simp: final_documents_eq split: if_splits)
    note entries = final_documents_entries [OF small v, of u, folded f]
    from index_documents_settles [OF u ix entries(1,2)]
    show "settles m (index_documents u eng final) () (\<lambda>ops. reindexes u m (apply_batch ops m) (put_all documents docs))"
      by (simp only: entries(3))
  qed
  with True ne show ?thesis by (simp add: put_documents_def Let_def settles_fail)
qed (simp add: put_documents_def Let_def ne settles_fail)

end

end
