(* ===== verification/Engine_Ready.thy ===== *)
theory Engine_Ready
  imports Engine_Map
begin

text \<open>
  When a write of the engine (\<open>src/storage/kv2.rs\<close>) is acknowledged: the log is healthy, nothing is
  queued, no counter is exhausted and the memtable has room. One number bounds what the writes so far
  used of the counters and of the memtable.
\<close>

definition kv2_ready :: "(bytes \<Rightarrow> u32) \<Rightarrow> nat \<Rightarrow> kv2 \<Rightarrow> bool" where
  "kv2_ready crc b k \<longleftrightarrow> (\<exists>a. wal_inv crc (mg_wal (kv_managers k)) a)
     \<and> queue_idle (wc_admission (kv_writer k)) \<and> wc_payload_mode (kv_writer k) = Inline
     \<and> unat (aq_next_ticket (wc_admission (kv_writer k))) \<le> b \<and> unat (wc_sequence_number (kv_writer k)) \<le> b
     \<and> unat (ws_next_lsn (wm_state (mg_wal (kv_managers k)))) \<le> b + 1
     \<and> unat (ws_segment_id (wm_state (mg_wal (kv_managers k)))) \<le> b \<and> unat (wc_memtable_size (kv_writer k)) \<le> b"

text \<open>The calls to the file system succeed.\<close>

definition good_calls :: "(nat \<Rightarrow> call_env) \<Rightarrow> bool" where
  "good_calls envs \<longleftrightarrow> (\<forall>i. cl_faults (envs i) = no_faults \<and> (\<forall>j. we_ios (cl_write (envs i)) j = (RotateIo CreateOk, WriteOk)))"

lemma good_calls_read: "good_calls envs \<Longrightarrow> \<not> read_faults envs"
  by (simp add: good_calls_def read_faults_def)

lemma unat_add_le: "unat ((x :: 'a::len word) + of_nat n) \<le> unat x + n"
proof -
  have "unat (x + of_nat n) \<le> unat x + unat (of_nat n :: 'a word)" by (simp add: unat_word_ariths)
  also have "\<dots> \<le> unat x + n" by (simp add: unat_of_nat)
  finally show ?thesis .
qed

lemma append_commands_growth:
  "unat (wc_memtable_size (append_commands cs w)) \<le> unat (wc_memtable_size w) + sum_list (map command_frame cs)"
proof (induction cs arbitrary: w)
  case (Cons c cs)
  let ?w = "append_to_memtable (lc_key c) (lc_value c) (lc_record_type c) (lc_lsn c) w"
  have "unat (wc_memtable_size ?w) \<le> unat (wc_memtable_size w) + command_frame c"
    using unat_add_le [of "wc_memtable_size w" "length (lc_key c)"] unat_add_le [of "wc_memtable_size w" "length (lc_key c) + length (lc_value c)"]
    by (simp add: append_to_memtable_def command_frame_def Let_def del: of_nat_add)
  with Cons.IH [of ?w] show ?case by (simp add: append_commands_def)
qed (simp add: append_commands_def)

lemma ready_write:
  assumes ready: "kv2_ready crc b k" and ne: "operations \<noteq> []" and valid: "validate_batch operations = Inr n"
    and room: "b + n < unat (memtable_size_threshold (wc_config (kv_writer k)))"
    and env: "we_ios env 0 = (RotateIo CreateOk, WriteOk)"
  shows "\<exists>k'. KV2_write_batch crc api env operations k = Some (Inr (), k') \<and> kv2_ready crc (b + n) k'
     \<and> wc_config (kv_writer k') = wc_config (kv_writer k) \<and> mg_manifest (kv_managers k') = mg_manifest (kv_managers k)"
proof -
  let ?w = "kv_writer k" and ?wal = "mg_wal (kv_managers k)"
  from ready obtain a where inv: "wal_inv crc ?wal a" and idle: "queue_idle (wc_admission ?w)" and mode: "wc_payload_mode ?w = Inline"
    and le: "unat (aq_next_ticket (wc_admission ?w)) \<le> b" "unat (wc_sequence_number ?w) \<le> b" "unat (ws_next_lsn (wm_state ?wal)) \<le> b + 1"
      "unat (ws_segment_id (wm_state ?wal)) \<le> b" "unat (wc_memtable_size ?w) \<le> b" by (auto simp: kv2_ready_def)
  have "unat (memtable_size_threshold (wc_config ?w)) < 2 ^ 64" by simp
  with room have big: "b + n + 1 < 2 ^ 64" by linarith
  from validate_operations_Inr [OF valid [unfolded validate_batch_def]] have n: "n = 37 + sum_list (map operation_frame operations)" by simp
  have "length operations \<le> sum_list (map operation_frame operations)"
    by (induction operations) (simp_all add: operation_frame_def [abs_def])
  with n have len: "length operations + 37 \<le> n" by simp
  have fits: "unat (aq_next_ticket (wc_admission ?w)) + 1 < 2 ^ 64" "unat (wc_sequence_number ?w) + length operations < 2 ^ 64"
    "unat (ws_next_lsn (wm_state ?wal)) + length operations + 1 < 2 ^ 64" "unat (ws_segment_id (wm_state ?wal)) + 1 < 2 ^ 64"
    using le len big by linarith+
  from write_batch_ok [where ios = "we_ios env", OF idle fits(1) mode inv ne valid fits(2-4) env] obtain cs w' wal' a' where
    w: "write_batch crc (we_ios env) operations ?w ?wal = Some (Inr (), w', wal')"
    and cs: "build_commands operations (wc_sequence_number ?w) = Some (cs, wc_sequence_number w')"
    and size: "wc_memtable_size w' = wc_memtable_size (append_commands cs ?w)" and conf: "wc_config w' = wc_config ?w"
    and new: "queue_idle (wc_admission w')" "wal_inv crc wal' a'" "wc_payload_mode w' = Inline"
      "unat (aq_next_ticket (wc_admission w')) = unat (aq_next_ticket (wc_admission ?w)) + 1"
      "unat (ws_next_lsn (wm_state wal')) = unat (ws_next_lsn (wm_state ?wal)) + length operations + 1"
      "unat (ws_segment_id (wm_state wal')) \<le> unat (ws_segment_id (wm_state ?wal)) + 1" by blast
  from build_commands_fit [OF fits(2)] cs have sn: "wc_sequence_number w' = wc_sequence_number ?w + of_nat (length operations)"
    and frames: "map command_frame cs = map operation_frame operations" by auto
  have mem: "unat (wc_memtable_size w') \<le> b + n" using append_commands_growth [of cs ?w] le n by (simp add: size frames)
  let ?k = "k\<lparr>kv_writer := w', kv_managers := (kv_managers k)\<lparr>mg_wal := wal'\<rparr>\<rparr>"
  have "wc_memtable_size w' < memtable_size_threshold (wc_config w')" using mem room by (simp add: word_less_nat_alt conf)
  then have "KV2_write_batch crc api env operations k = Some (Inr (), ?k)"
    using w ne by (simp add: KV2_write_batch_def maintain_after_commit_def maybe_flush_and_compact_def)
  moreover have "kv2_ready crc (b + n) ?k"
    using new le len mem unat_add_le [of "wc_sequence_number ?w" "length operations"] sn by (auto simp: kv2_ready_def)
  ultimately show ?thesis using conf by auto
qed

end
