(* ===== verification/Fts_History.thy ===== *)
theory Fts_History
  imports Bm25 Fts_Batch Engine_Ready
begin

text \<open>
  The full-text index over the key-value engine (\<open>src/fts/mod.rs\<close> over \<open>src/storage/kv2.rs\<close>): the life of a
  directory that holds an index and plain keys, as a sequence of index operations, writes of plain keys,
  steps of the engine and reopenings, and what the index answers after it. The index lemmas are those of
  the engine contract, taken at the engine's own operations.
\<close>

section \<open>Commands\<close>

datatype fts_event =
    Open_Index
  | Put_Document bytes bytes
  | Put_Documents "(bytes \<times> bytes) list"
  | Delete_Document bytes
  | Write_Batch "batch_operation list"

type_synonym fts_store = "(bytes \<rightharpoonup> bytes) \<times> (bytes \<rightharpoonup> bytes)"

text \<open>What a command does to the documents and to the plain keys.\<close>

fun apply_event :: "fts_event \<Rightarrow> fts_store \<Rightarrow> fts_store" where
  "apply_event Open_Index st = st"
| "apply_event (Put_Document did d) (docs, kv) = (docs(did \<mapsto> d), kv)"
| "apply_event (Put_Documents documents) (docs, kv) = (put_all documents docs, kv)"
| "apply_event (Delete_Document did) (docs, kv) = (docs(did := None), kv)"
| "apply_event (Write_Batch operations) (docs, kv) = (docs, apply_batch operations kv)"

definition fts_contents :: "(bool \<times> fts_event) list \<Rightarrow> fts_store" where
  "fts_contents evs = fold (\<lambda>e. apply_event (snd e)) evs (Map.empty, Map.empty)"

lemma fts_contents_simps [simp]:
  "fts_contents [] = (Map.empty, Map.empty)"
  "fts_contents (evs @ [e]) = apply_event (snd e) (fts_contents evs)"
  by (simp_all add: fts_contents_def)

text \<open>The map an engine holds, as documents and plain keys. Before the index is first opened there is none.\<close>

definition plain_keys :: "(bytes \<rightharpoonup> bytes) \<Rightarrow> (bytes \<rightharpoonup> bytes) \<Rightarrow> bool" where
  "plain_keys m kv \<longleftrightarrow> (\<forall>key. kv key = (if reserved key then None else m key))"

definition represents :: "unicode \<Rightarrow> (bytes \<rightharpoonup> bytes) \<Rightarrow> fts_store \<Rightarrow> bool" where
  "represents u m st \<longleftrightarrow>
     (indexes u m (fst st) \<or> fst st = Map.empty \<and> (\<forall>key. reserved key \<longrightarrow> m key = None)) \<and> plain_keys m (snd st)"

lemma representsI: "indexes u m docs \<Longrightarrow> plain_keys m kv \<Longrightarrow> represents u m (docs, kv)"
  by (simp add: represents_def)

lemma reindexes_represents:
  "reindexes u m m' docs' \<Longrightarrow> plain_keys m kv \<Longrightarrow> indexes u m' docs' \<and> represents u m' (docs', kv)"
  by (simp add: reindexes_def represents_def plain_keys_def)

lemma apply_batch_at: "m key = m' key \<Longrightarrow> apply_batch operations m key = apply_batch operations m' key"
proof (induction operations arbitrary: m m')
  case (Cons op operations)
  have "apply_operation op m key = apply_operation op m' key" using Cons.prems by (simp add: apply_operation_eq)
  from Cons.IH [of "apply_operation op m" "apply_operation op m'", OF this] show ?case by (simp add: apply_batch_def)
qed (simp add: apply_batch_def)

lemma plain_batch:
  assumes ix: "indexes u m docs" and kv: "plain_keys m kv" and ops: "\<forall>op \<in> set operations. \<not> reserved (op_key op)"
  shows "indexes u (apply_batch operations m) docs \<and> plain_keys (apply_batch operations m) (apply_batch operations kv)"
proof -
  have other: "apply_batch operations f key = f key" if "reserved key" for f key
    using ops that by (intro apply_batch_other) auto
  have "indexes u (apply_batch operations m) docs"
    using ix other [OF reserved_key_of, of m] other [of _ m] by (auto simp: indexes_def)
  moreover have "plain_keys (apply_batch operations m) (apply_batch operations kv)"
    using kv other [of _ kv] apply_batch_at [of kv _ m operations] by (auto simp: plain_keys_def)
  ultimately show ?thesis ..
qed

section \<open>Commands on an engine\<close>

context map_reader
begin

lemma put_document_settles:
  assumes "unicode_ok u" and "indexes u m docs" and "did \<noteq> []" "utf8_valid did" and "length d < 2 ^ 59"
  shows "settles m (put_document u eng did d) () (\<lambda>ops. reindexes u m (apply_batch ops m) (docs(did \<mapsto> d)))"
proof (cases "docs_ok u (docs(did \<mapsto> d))")
  case True
  have "put_operations u docs did d \<noteq> []" by (simp add: put_operations_def document_operations_def)
  with put_document_plans [OF assms(1,2) True] put_operations_index [OF assms(2) True] show ?thesis
    unfolding settles_def by blast
next
  case False
  from put_document_fails [OF assms False] show ?thesis unfolding settles_def by blast
qed

lemma delete_document_settles:
  assumes "unicode_ok u" and "indexes u m docs" and "docs did \<noteq> None"
  shows "settles m (delete_document u eng did) True (\<lambda>ops. reindexes u m (apply_batch ops m) (docs(did := None)))"
proof -
  from assms(3) obtain d where d: "docs did = Some d" by blast
  have "sized did" using docs_okD(1) [OF indexes_ok [OF assms(2)] d] by (simp add: id_ok_def)
  moreover have "delete_operations u docs did \<noteq> []" by (simp add: delete_operations_def document_operations_def)
  ultimately show ?thesis
    using delete_operations_index [OF assms(2)] delete_document_plans [OF assms(1,2) d] unfolding settles_def by blast
qed

lemma delete_document_absent:
  assumes "unicode_ok u" and "indexes u m docs" and "docs did = None"
  shows "\<exists>v. computes m (delete_document u eng did) v \<and> (v = Inr False \<or> \<not> is_ok v)"
proof (cases "sized did")
  case True
  from delete_document_missing [OF assms(1,2) True assms(3)] show ?thesis by blast
next
  case False
  from delete_document_long [OF False] show ?thesis by (intro exI conjI) auto
qed

lemma fts_write_batch_settles:
  assumes ix: "indexes u m docs" and kv: "plain_keys m kv" and ne: "operations \<noteq> []"
  shows "settles m (fts_write_batch eng operations) ()
     (\<lambda>ops. indexes u (apply_batch ops m) docs \<and> plain_keys (apply_batch ops m) (apply_batch operations kv))"
proof (cases "list_ex (\<lambda>op. reserved (op_key op)) operations")
  case True
  then show ?thesis by (simp add: fts_write_batch_def op_key_def settles_fail)
next
  case False
  then have "\<forall>op \<in> set operations. \<not> reserved (op_key op)" by (auto simp: list_ex_iff)
  from plain_batch [OF ix kv this] False ne show ?thesis
    by (auto simp: fts_write_batch_def op_key_def intro: settles_write)
qed

lemma settles_mono: "settles m c x P \<Longrightarrow> (\<And>ops. P ops \<Longrightarrow> Q ops) \<Longrightarrow> settles m c x Q"
  unfolding settles_def by blast

end

text \<open>What a command that settles leaves in the engine.\<close>

context map_engine
begin

lemma settles_outcome:
  assumes "settles m c x P" and "rep (Suc n) s m alt" and "c s = Some (r, s')"
  shows "(is_ok r \<longrightarrow> r = Inr x)
     \<and> ((\<exists>ops. P ops \<and> rep n s' (apply_batch ops m) (apply_batch ops m))
        \<or> \<not> is_ok r \<and> (rep n s' m alt \<or> (\<exists>ops. P ops \<and> rep n s' m (apply_batch ops m))))"
  using assms(1) unfolding settles_def
proof (elim disjE exE conjE)
  fix e assume c: "computes m c (Inl e)"
  from c assms(2) obtain r' s1 where "c s = Some (r', s1)" "rep (Suc n) s1 m alt" "r' = Inl e \<or> faulty \<and> \<not> is_ok r'" by (rule computesE)
  with assms(3) have "\<not> is_ok r" "rep (Suc n) s' m alt" by auto
  with rep_Suc [of n s' m alt] show ?thesis by simp
next
  fix ops assume "ops \<noteq> []" "plans m c ops x" "P ops"
  from plans_outcome [OF this(2) assms(2) this(1)] this(3) assms(3) show ?thesis by auto
qed

end

section \<open>Steps of the engine\<close>

lemma kv2_holds_create:
  assumes "KV2_open crc api env base_dir config d = Inr k" and "di_manifest d = []" "di_wal d = []" and "utf8_valid base_dir"
    and "n \<le> 2 ^ 33 + 1"
  shows "kv2_holds crc api n k Map.empty Map.empty"
proof -
  have "history_fits n []" using assms(5) by (intro history_fits_Nil) (simp add: MAX_WAL_TRANSACTION_BYTES_def)
  moreover have "kv_inv crc api [] [] k" by (rule create_inv [OF assms(1,4,2,3)])
  ultimately show ?thesis unfolding kv2_holds_def by (auto intro!: exI [of _ "[]"])
qed

lemma kv2_holds_reopen:
  assumes "kv2_holds crc api n k m alt" and "length (di_manifest (disk_of k)) + 2 ^ 33 \<le> isize_max" and "utf8_valid base_dir"
    and "KV2_open crc api env base_dir config (disk_of k) = Inr k'"
  shows "kv2_holds crc api n k' alt alt"
proof -
  from assms(1) obtain H extra where inv: "kv_inv crc api H extra k" and alt: "kv_map (H @ extra) = alt" and fit: "history_fits n (H @ extra)"
    by (auto simp: kv2_holds_def)
  from inv have "dir_inv crc api (H @ extra) (kv_managers k)" unfolding kv_inv_def by (blast intro: core_disk)
  then have "disk_inv crc api (H @ extra) (di_manifest (disk_of k)) (di_wal (disk_of k)) (di_files (disk_of k))" by (simp add: disk_of_def)
  from open_inv [OF this assms(2-4)] alt fit show ?thesis unfolding kv2_holds_def by (metis append_Nil2)
qed

lemma kv2_holds_step:
  assumes "kv2_holds crc api n k m alt" and api: "bloom_crate_ok api" and step: "kv_step crc api True k [] k'"
  shows "kv2_holds crc api n k' m alt"
proof -
  from assms(1) obtain H extra where inv: "kv_inv crc api H extra k" and m: "kv_map H = m" "kv_map (H @ extra) = alt"
    and fit: "history_fits n (H @ extra)" by (auto simp: kv2_holds_def)
  note versions = history_fits_versions [OF history_fits_append [OF fit]]
  have "kv_inv crc api H extra k'"
    using step
  proof cases
    case (maintain env r)
    with maintain_kv_inv [OF inv api versions] show ?thesis by simp
  next
    case (worker envs)
    with worker_kv_inv [OF inv api versions] show ?thesis by simp
  next
    case (get faults key r)
    with kv_inv_get [OF inv, of faults key] show ?thesis by simp
  next
    case (scan faults rng r)
    with kv_inv_scan [OF inv, of faults rng] show ?thesis by simp
  qed auto
  with m fit show ?thesis by (auto simp: kv2_holds_def)
qed

section \<open>Runs\<close>

text \<open>
  The life of a directory with an index: it is created empty, the index is opened, and then there are
  commands on the index, steps of the engine between them (compactions, flushes and the gets and scans
  that every read of the index consists of), and reopenings after a stop at any point between steps. A
  command is recorded with whether it was acknowledged. A deletion that reports that there was no
  document is not recorded. The manifest appends of a flush happen in full or not at all.
\<close>

inductive fts_run ::
  "(bytes \<Rightarrow> u32) \<Rightarrow> ('f, f64) bloom_api \<Rightarrow> unicode \<Rightarrow> bytes \<Rightarrow> kv2 \<Rightarrow> bool \<Rightarrow> (bool \<times> fts_event) list \<Rightarrow> bool"
  for crc api u base_dir where
  create: "KV2_open crc api env base_dir config d = Inr k \<Longrightarrow> di_manifest d = [] \<Longrightarrow> di_wal d = [] \<Longrightarrow> fts_run crc api u base_dir k False []"
| engine: "fts_run crc api u base_dir k opened evs \<Longrightarrow> kv_step crc api True k [] k' \<Longrightarrow> fts_run crc api u base_dir k' opened evs"
| open_index: "fts_run crc api u base_dir k opened evs \<Longrightarrow> clean_calls envs \<Longrightarrow>
    FtsIndex_open (kv2_api crc api envs) (k, 0) = Some (r, k', i) \<Longrightarrow>
    fts_run crc api u base_dir k' (opened \<or> is_ok r) (evs @ [(is_ok r, Open_Index)])"
| put_document: "fts_run crc api u base_dir k True evs \<Longrightarrow> clean_calls envs \<Longrightarrow>
    DocumentId_new did = Inr did \<Longrightarrow> utf8_valid did \<Longrightarrow> length d < 2 ^ 59 \<Longrightarrow>
    put_document u (kv2_api crc api envs) did d (k, 0) = Some (r, k', i) \<Longrightarrow>
    fts_run crc api u base_dir k' True (evs @ [(is_ok r, Put_Document did d)])"
| put_documents: "fts_run crc api u base_dir k True evs \<Longrightarrow> clean_calls envs \<Longrightarrow>
    \<forall>e \<in> set documents. DocumentId_new (fst e) = Inr (fst e) \<and> utf8_valid (fst e) \<Longrightarrow>
    put_documents u (kv2_api crc api envs) documents (k, 0) = Some (r, k', i) \<Longrightarrow>
    fts_run crc api u base_dir k' True (evs @ [(is_ok r, Put_Documents documents)])"
| delete_document: "fts_run crc api u base_dir k True evs \<Longrightarrow> clean_calls envs \<Longrightarrow>
    delete_document u (kv2_api crc api envs) did (k, 0) = Some (r, k', i) \<Longrightarrow>
    fts_run crc api u base_dir k' True (evs @ (if r = Inr False then [] else [(is_ok r, Delete_Document did)]))"
| write_batch: "fts_run crc api u base_dir k True evs \<Longrightarrow> clean_calls envs \<Longrightarrow>
    ka_write_batch (fts_api (kv2_api crc api envs)) operations (k, 0) = Some (r, k', i) \<Longrightarrow>
    fts_run crc api u base_dir k' True (evs @ [(is_ok r, Write_Batch operations)])"
| reopen: "fts_run crc api u base_dir k opened evs \<Longrightarrow> length (di_manifest (disk_of k)) + 2 ^ 33 \<le> isize_max \<Longrightarrow>
    KV2_open crc api env base_dir config (disk_of k) = Inr k' \<Longrightarrow> fts_run crc api u base_dir k' False evs"

text \<open>What the engine holds, and what a recovery would find, are the results of kept commands.\<close>

definition fts_holds ::
  "(bytes \<Rightarrow> u32) \<Rightarrow> ('f, f64) bloom_api \<Rightarrow> unicode \<Rightarrow> nat \<Rightarrow> kv2 \<Rightarrow> bool \<Rightarrow> (bool \<times> fts_event) list \<Rightarrow> bool" where
  "fts_holds crc api u n k opened evs \<longleftrightarrow>
     (\<exists>m alt kept kept'. kv2_holds crc api n k m alt \<and> kept_of kept evs \<and> kept_of kept' evs
        \<and> represents u m (fts_contents kept) \<and> represents u alt (fts_contents kept')
        \<and> (opened \<longrightarrow> indexes u m (fst (fts_contents kept))))"

lemma fts_holdsI:
  "kv2_holds crc api n k m alt \<Longrightarrow> kept_of kept evs \<Longrightarrow> kept_of kept' evs \<Longrightarrow> represents u m (fts_contents kept)
   \<Longrightarrow> represents u alt (fts_contents kept') \<Longrightarrow> (opened \<Longrightarrow> indexes u m (fst (fts_contents kept))) \<Longrightarrow> fts_holds crc api u n k opened evs"
  unfolding fts_holds_def by blast

lemma kept_of_one:
  "kept_of kept evs \<Longrightarrow> kept_of (kept @ [(b, e)]) (evs @ [(b, e)])"
  "kept_of kept evs \<Longrightarrow> kept_of kept (evs @ [(False, e)])"
  using kept_of_append [of kept evs b 1 "[e]"] kept_of_append [of kept evs False 0 "[e]"] by simp_all

abbreviation kv2_computes ::
  "(bytes \<Rightarrow> u32) \<Rightarrow> ('f, f64) bloom_api \<Rightarrow> (nat \<Rightarrow> call_env) \<Rightarrow> (bytes \<rightharpoonup> bytes) \<Rightarrow> (kv2 \<times> nat, 'a) io \<Rightarrow> 'a result \<Rightarrow> bool" where
  "kv2_computes crc api envs \<equiv> kv2_engine.computes TYPE('f) crc api envs"

abbreviation kv2_settles ::
  "(bytes \<Rightarrow> u32) \<Rightarrow> ('f, f64) bloom_api \<Rightarrow> (nat \<Rightarrow> call_env) \<Rightarrow> (bytes \<rightharpoonup> bytes) \<Rightarrow> (kv2 \<times> nat, 'a) io \<Rightarrow> 'a
    \<Rightarrow> (batch_operation list \<Rightarrow> bool) \<Rightarrow> bool" where
  "kv2_settles crc api envs \<equiv> kv2_engine.settles TYPE('f) crc api envs"

lemma kv2_repI: "bloom_crate_ok api \<Longrightarrow> clean_calls envs \<Longrightarrow> kv2_holds crc api n k m alt \<Longrightarrow> kv2_rep crc api envs n (k, i) m alt"
  by (simp add: kv2_rep_def)

lemma fts_holds_settles:
  assumes holds: "kv2_holds crc api (Suc n) k m alt" "kept_of kept evs" "kept_of kept' evs"
      "represents u m (fts_contents kept)" "represents u alt (fts_contents kept')"
    and opened: "opened \<longrightarrow> indexes u m (fst (fts_contents kept))"
    and env: "bloom_crate_ok api" "clean_calls envs"
    and set: "kv2_settles crc api envs m c x P"
    and eff: "\<And>ops. P ops \<Longrightarrow> indexes u (apply_batch ops m) (fst (apply_event e (fts_contents kept)))
        \<and> represents u (apply_batch ops m) (apply_event e (fts_contents kept))"
    and run: "c (k, 0) = Some (r, k', i)"
  shows "fts_holds crc api u n k' (opened \<or> is_ok r) (evs @ [(is_ok r, e)])"
proof -
  note new = kept_of_one(1) [OF holds(2), of "is_ok r" e]
  from kv2_engine.settles_outcome [OF set kv2_repI [OF env holds(1)] run]
  consider ops where "P ops" "kv2_holds crc api n k' (apply_batch ops m) (apply_batch ops m)"
    | "\<not> is_ok r" "kv2_holds crc api n k' m alt"
    | ops where "\<not> is_ok r" "P ops" "kv2_holds crc api n k' m (apply_batch ops m)" by (auto simp: kv2_rep_def)
  then show ?thesis
  proof cases
    case 1
    with eff [of ops] show ?thesis by (intro fts_holdsI [OF 1(2) new new]) simp_all
  next
    case 2
    with holds opened show ?thesis by (intro fts_holdsI [OF 2(2), of kept _ kept']) (simp_all add: kept_of_one(2))
  next
    case 3
    with eff [of ops] holds opened show ?thesis by (intro fts_holdsI [OF 3(3) _ new, of kept]) (simp_all add: kept_of_one(2))
  qed
qed

text \<open>A command that only reads.\<close>

lemma fts_holds_computes:
  assumes holds: "kv2_holds crc api (Suc n) k m alt" "kept_of kept evs" "kept_of kept' evs"
      "represents u m (fts_contents kept)" "represents u alt (fts_contents kept')"
    and opened: "opened \<longrightarrow> indexes u m (fst (fts_contents kept))"
    and env: "bloom_crate_ok api" "clean_calls envs"
    and c: "kv2_computes crc api envs m c v"
    and same: "\<And>st. is_ok r \<Longrightarrow> apply_event e st = st"
    and run: "c (k, 0) = Some (r, k', i)"
  shows "fts_holds crc api u n k' opened (evs @ [(is_ok r, e)])" "\<not> is_ok r \<or> r = v"
    "fts_holds crc api u (Suc n) k' opened evs"
proof -
  from kv2_repI [OF env holds(1)] obtain r' s' where
    r: "c (k, 0) = Some (r', s')" "kv2_rep crc api envs (Suc n) s' m alt" "r' = v \<or> read_faults envs \<and> \<not> is_ok r'"
    by (rule kv2_engine.computesE [OF c])
  then have k': "kv2_holds crc api (Suc n) k' m alt" and r': "r = v \<or> \<not> is_ok r" using run by (auto simp: kv2_rep_def)
  then show "\<not> is_ok r \<or> r = v" by blast
  show "fts_holds crc api u (Suc n) k' opened evs" by (rule fts_holdsI [OF k' holds(2-5)]) (use opened in simp)
  have k'': "kv2_holds crc api n k' m alt" using k' history_fits_Suc by (fastforce simp: kv2_holds_def)
  show "fts_holds crc api u n k' opened (evs @ [(is_ok r, e)])"
  proof (cases "is_ok r")
    case True
    with same have "apply_event e st = st" for st by auto
    with holds opened show ?thesis
      by (intro fts_holdsI [OF k'' kept_of_one(1) [OF holds(2)] kept_of_one(1) [OF holds(3)]]) simp_all
  next
    case False
    with holds opened show ?thesis by (intro fts_holdsI [OF k'', of kept _ kept']) (simp_all add: kept_of_one(2))
  qed
qed

text \<open>The commands one by one.\<close>

lemma fts_holds_open_index:
  assumes holds: "fts_holds crc api u (Suc n) k opened evs" and env: "bloom_crate_ok api" "clean_calls envs"
    and run: "FtsIndex_open (kv2_api crc api envs) (k, 0) = Some (r, k', i)"
  shows "fts_holds crc api u n k' (opened \<or> is_ok r) (evs @ [(is_ok r, Open_Index)])"
proof -
  from holds obtain m alt kept kept' where h: "kv2_holds crc api (Suc n) k m alt" "kept_of kept evs" "kept_of kept' evs"
      "represents u m (fts_contents kept)" "represents u alt (fts_contents kept')"
    and opened: "opened \<longrightarrow> indexes u m (fst (fts_contents kept))" by (auto simp: fts_holds_def)
  show ?thesis
  proof (cases "indexes u m (fst (fts_contents kept))")
    case True
    from fts_holds_computes(1) [where opened = True and e = Open_Index, OF h _ env kv2_engine.open_existing [OF True] _ run] True
    have t: "fts_holds crc api u n k' True (evs @ [(is_ok r, Open_Index)])" by simp
    then have "fts_holds crc api u n k' False (evs @ [(is_ok r, Open_Index)])" unfolding fts_holds_def by blast
    with t show ?thesis by (cases "opened \<or> is_ok r") simp_all
  next
    case False
    let ?ops = "[Batch_Put META_KEY [FORMAT_VERSION, TOKENIZER_VERSION], Batch_Put STATS_KEY (encode_stats 0 0)]"
    from False h(4) have e: "fst (fts_contents kept) = Map.empty" and none: "\<And>key. reserved key \<Longrightarrow> m key = None"
      and kv: "plain_keys m (snd (fts_contents kept))" by (auto simp: represents_def)
    have fin: "finite (dom m)" using h(1) finite_kv_map by (auto simp: kv2_holds_def)
    have "apply_batch ?ops m key = m key" if "\<not> reserved key" for key
      by (rule unreserved_kept [OF _ that]) (auto simp: fixed_keys)
    with kv have plain: "plain_keys (apply_batch ?ops m) (snd (fts_contents kept))" by (simp add: plain_keys_def)
    have "kv2_settles crc api envs m (FtsIndex_open (kv2_api crc api envs)) () (\<lambda>ops. ops = ?ops)"
      unfolding kv2_engine.settles_def using kv2_engine.open_new [OF fin none] by blast
    from fts_holds_settles [where e = Open_Index, OF h opened env this _ run] indexes_empty [where u = u, OF none] plain show ?thesis
      by (simp add: represents_def e)
  qed
qed

lemma fts_holdsE:
  assumes "fts_holds crc api u n k True evs"
  obtains m alt kept kept' docs kv where "kv2_holds crc api n k m alt" "kept_of kept evs" "kept_of kept' evs"
    "represents u m (fts_contents kept)" "represents u alt (fts_contents kept')"
    "fts_contents kept = (docs, kv)" "indexes u m docs" "plain_keys m kv"
proof -
  from assms obtain m alt kept kept' where h: "kv2_holds crc api n k m alt" "kept_of kept evs" "kept_of kept' evs"
      "represents u m (fts_contents kept)" "represents u alt (fts_contents kept')"
    and ix: "indexes u m (fst (fts_contents kept))" by (auto simp: fts_holds_def)
  obtain docs kv where st: "fts_contents kept = (docs, kv)" by fastforce
  with h(4) ix show thesis by (intro that [OF h st]) (simp_all add: represents_def)
qed

lemma fts_holds_command:
  assumes holds: "fts_holds crc api u (Suc n) k True evs" and env: "bloom_crate_ok api" "clean_calls envs"
    and cmd: "\<And>m docs kv. indexes u m docs \<Longrightarrow> plain_keys m kv \<Longrightarrow> kv2_settles crc api envs m c x
        (\<lambda>ops. indexes u (apply_batch ops m) (fst (apply_event e (docs, kv))) \<and> plain_keys (apply_batch ops m) (snd (apply_event e (docs, kv))))"
    and run: "c (k, 0) = Some (r, k', i)"
  shows "fts_holds crc api u n k' True (evs @ [(is_ok r, e)])"
proof -
  from holds obtain m alt kept kept' docs kv where h: "kv2_holds crc api (Suc n) k m alt" "kept_of kept evs" "kept_of kept' evs"
      "represents u m (fts_contents kept)" "represents u alt (fts_contents kept')"
    and st: "fts_contents kept = (docs, kv)" "indexes u m docs" "plain_keys m kv" by (rule fts_holdsE)
  have "fts_holds crc api u n k' (True \<or> is_ok r) (evs @ [(is_ok r, e)])"
    by (rule fts_holds_settles [OF h _ env cmd [OF st(2,3)] _ run]) (simp_all add: st represents_def)
  then show ?thesis by simp
qed

lemma settles_reindex:
  assumes "kv2_settles crc api envs m c x (\<lambda>ops. reindexes u m (apply_batch ops m) docs')" and "plain_keys m kv"
  shows "kv2_settles crc api envs m c x (\<lambda>ops. indexes u (apply_batch ops m) docs' \<and> plain_keys (apply_batch ops m) kv)"
  by (rule kv2_engine.settles_mono [OF assms(1)]) (use assms(2) in \<open>simp add: reindexes_def plain_keys_def\<close>)

lemma fts_holds_put_document:
  assumes "fts_holds crc api u (Suc n) k True evs" and "bloom_crate_ok api" "clean_calls envs" and "unicode_ok u"
    and "did \<noteq> []" "utf8_valid did" "length d < 2 ^ 59"
    and "put_document u (kv2_api crc api envs) did d (k, 0) = Some (r, k', i)"
  shows "fts_holds crc api u n k' True (evs @ [(is_ok r, Put_Document did d)])"
  by (rule fts_holds_command [where c = "put_document u (kv2_api crc api envs) did d", OF assms(1-3) _ assms(8)])
    (simp add: settles_reindex [OF kv2_engine.put_document_settles [OF assms(4) _ assms(5-7)]])

lemma fts_holds_put_documents:
  assumes holds: "fts_holds crc api u (Suc n) k True evs" and env: "bloom_crate_ok api" "clean_calls envs" and u: "unicode_ok u"
    and ids: "\<forall>e \<in> set documents. fst e \<noteq> [] \<and> utf8_valid (fst e)"
    and run: "put_documents u (kv2_api crc api envs) documents (k, 0) = Some (r, k', i)"
  shows "fts_holds crc api u n k' True (evs @ [(is_ok r, Put_Documents documents)])"
proof (cases "documents = []")
  case True
  from holds obtain m alt kept kept' docs kv where h: "kv2_holds crc api (Suc n) k m alt" "kept_of kept evs" "kept_of kept' evs"
      "represents u m (fts_contents kept)" "represents u alt (fts_contents kept')"
    and st: "fts_contents kept = (docs, kv)" "indexes u m docs" by (rule fts_holdsE)
  have c: "kv2_computes crc api envs m (put_documents u (kv2_api crc api envs) documents) (Inr ())"
    by (simp add: True put_documents_def kv2_engine.computes_return)
  show ?thesis by (rule fts_holds_computes(1) [OF h _ env c _ run]) (use st True in \<open>auto simp: put_all_def\<close>)
next
  case False
  show ?thesis
    by (rule fts_holds_command [where c = "put_documents u (kv2_api crc api envs) documents", OF holds env _ run]) (simp add: settles_reindex [OF kv2_engine.put_documents_settles [OF u _ ids False]])
qed

lemma fts_holds_write_batch:
  assumes holds: "fts_holds crc api u (Suc n) k True evs" and env: "bloom_crate_ok api" "clean_calls envs"
    and run: "ka_write_batch (fts_api (kv2_api crc api envs)) operations (k, 0) = Some (r, k', i)"
  shows "fts_holds crc api u n k' True (evs @ [(is_ok r, Write_Batch operations)])"
proof (cases "operations = []")
  case True
  from holds obtain m alt kept kept' docs kv where h: "kv2_holds crc api (Suc n) k m alt" "kept_of kept evs" "kept_of kept' evs"
      "represents u m (fts_contents kept)" "represents u alt (fts_contents kept')"
    and st: "fts_contents kept = (docs, kv)" "indexes u m docs" by (rule fts_holdsE)
  have c: "kv2_computes crc api envs m (ka_write_batch (fts_api (kv2_api crc api envs)) operations) (Inr ())"
    by (rule kv2_engine.computesI) (auto simp: True fts_api_def fts_write_batch_def kv2_api_def write_call_def KV2_write_batch_def kv2_rep_def)
  show ?thesis by (rule fts_holds_computes(1) [OF h _ env c _ run]) (use st True in \<open>auto simp: apply_batch_def\<close>)
next
  case False
  from run have run': "fts_write_batch (kv2_api crc api envs) operations (k, 0) = Some (r, k', i)" by (simp add: fts_api_def)
  show ?thesis
    by (rule fts_holds_command [where c = "fts_write_batch (kv2_api crc api envs) operations", OF holds env _ run']) (simp add: kv2_engine.fts_write_batch_settles [OF _ _ False])
qed

lemma fts_holds_delete_document:
  assumes holds: "fts_holds crc api u (Suc n) k True evs" and env: "bloom_crate_ok api" "clean_calls envs" and u: "unicode_ok u"
    and run: "delete_document u (kv2_api crc api envs) did (k, 0) = Some (r, k', i)"
  shows "if r = Inr False then fts_holds crc api u (Suc n) k' True evs
     else fts_holds crc api u n k' True (evs @ [(is_ok r, Delete_Document did)])"
proof -
  from holds obtain m alt kept kept' docs kv where h: "kv2_holds crc api (Suc n) k m alt" "kept_of kept evs" "kept_of kept' evs"
      "represents u m (fts_contents kept)" "represents u alt (fts_contents kept')"
    and st: "fts_contents kept = (docs, kv)" "indexes u m docs" "plain_keys m kv" by (rule fts_holdsE)
  show ?thesis
  proof (cases "docs did")
    case None
    from kv2_engine.delete_document_absent [OF u st(2) None] obtain v where
      c: "kv2_computes crc api envs m (delete_document u (kv2_api crc api envs) did) v" and v: "v = Inr False \<or> \<not> is_ok v" by blast
    note r = fts_holds_computes [where opened = True and c = "delete_document u (kv2_api crc api envs) did", OF h _ env c _ run]
    show ?thesis
    proof (cases "is_ok r")
      case True
      with r(2) [of Open_Index] r(3) [of Open_Index] st v show ?thesis by auto
    next
      case False
      with r(1) [of "Delete_Document did"] st show ?thesis by auto
    qed
  next
    case (Some d)
    then have "docs did \<noteq> None" by simp
    note set = settles_reindex [OF kv2_engine.delete_document_settles [OF u st(2) this] st(3)]
    have "fts_holds crc api u n k' (True \<or> is_ok r) (evs @ [(is_ok r, Delete_Document did)])"
      by (rule fts_holds_settles [where c = "delete_document u (kv2_api crc api envs) did", OF h _ env set _ run])
        (simp_all add: st represents_def)
    moreover have "r \<noteq> Inr False"
      using kv2_engine.settles_outcome [where c = "delete_document u (kv2_api crc api envs) did", OF set kv2_repI [OF env h(1)] run] by auto
    ultimately show ?thesis by simp
  qed
qed

text \<open>Every run leaves room for as many more commands as its bound.\<close>

lemma fts_run_holds:
  assumes "fts_run crc api u base_dir k opened evs" and u: "unicode_ok u" and api: "bloom_crate_ok api" and dir: "utf8_valid base_dir"
    and "length evs + n \<le> 2 ^ 33"
  shows "fts_holds crc api u (Suc n) k opened evs"
  using assms(1,5)
proof (induction arbitrary: n)
  case (create env config d k)
  have "kv2_holds crc api (Suc n) k Map.empty Map.empty"
    by (rule kv2_holds_create [OF create.hyps dir]) (use create.prems in simp)
  then show ?case by (rule fts_holdsI [where kept = "[]" and kept' = "[]"]) (simp_all add: kept_of_def represents_def plain_keys_def)
next
  case (engine k opened evs k')
  from engine.IH [OF engine.prems] kv2_holds_step [OF _ api engine.hyps(2)] show ?case unfolding fts_holds_def by blast
next
  case (open_index k opened evs envs r k' i)
  from open_index.prems have "fts_holds crc api u (Suc (Suc n)) k opened evs" by (intro open_index.IH) simp
  then show ?case by (rule fts_holds_open_index [OF _ api open_index.hyps(2,3)])
next
  case (put_document k evs envs did d r k' i)
  from put_document.prems have "fts_holds crc api u (Suc (Suc n)) k True evs" by (intro put_document.IH) simp
  then show ?case by (rule fts_holds_put_document [OF _ api put_document.hyps(2) u _ put_document.hyps(4-6)])
      (use put_document.hyps(3) in \<open>auto simp: DocumentId_new_def\<close>)
next
  case (put_documents k evs envs documents r k' i)
  from put_documents.prems have "fts_holds crc api u (Suc (Suc n)) k True evs" by (intro put_documents.IH) simp
  then show ?case by (rule fts_holds_put_documents [OF _ api put_documents.hyps(2) u _ put_documents.hyps(4)])
      (use put_documents.hyps(3) in \<open>auto simp: DocumentId_new_def\<close>)
next
  case (delete_document k evs envs did r k' i)
  show ?case
  proof (cases "r = Inr False")
    case True
    with delete_document.prems have "fts_holds crc api u (Suc n) k True evs" by (intro delete_document.IH) simp
    from fts_holds_delete_document [OF this api delete_document.hyps(2) u delete_document.hyps(3)] True show ?thesis by simp
  next
    case False
    with delete_document.prems have "fts_holds crc api u (Suc (Suc n)) k True evs" by (intro delete_document.IH) simp
    from fts_holds_delete_document [OF this api delete_document.hyps(2) u delete_document.hyps(3)] False show ?thesis by simp
  qed
next
  case (write_batch k evs envs operations r k' i)
  from write_batch.prems have "fts_holds crc api u (Suc (Suc n)) k True evs" by (intro write_batch.IH) simp
  then show ?case by (rule fts_holds_write_batch [OF _ api write_batch.hyps(2,3)])
next
  case (reopen k opened evs env config k')
  from reopen.IH [OF reopen.prems] kv2_holds_reopen [OF _ reopen.hyps(2) dir reopen.hyps(3)] show ?case unfolding fts_holds_def by blast
qed

section \<open>What the index answers\<close>

definition answer :: "(kv2 \<times> nat, 'a) io \<Rightarrow> kv2 \<Rightarrow> 'a result option" where
  "answer c k = map_option fst (c (k, 0))"

lemma computes_answer:
  assumes "kv2_computes crc api envs m c v" and "kv2_holds crc api n k m alt" and "bloom_crate_ok api" and "clean_calls envs" "\<not> read_faults envs"
  shows "answer c k = Some v"
proof -
  from kv2_engine.computesE [OF assms(1) kv2_repI [OF assms(3,4,2)]] obtain r s' where "c (k, 0) = Some (r, s')" "r = v \<or> read_faults envs \<and> \<not> is_ok r" .
  with assms(5) show ?thesis by (simp add: answer_def)
qed

lemma plain_entries:
  assumes "finite (dom m)" and "plain_keys m kv"
  shows "filter (\<lambda>row. \<not> reserved (fst row)) (range_entries rng m) = range_entries rng kv"
proof (rule range_entriesI)
  let ?keys = "sorted_list_of_set {key \<in> dom m. key_in_range key rng}"
  have "sorted_wrt (<) ?keys" by (simp add: strict_sorted_iff)
  then show "sorted_wrt (<) (map fst (filter (\<lambda>row. \<not> reserved (fst row)) (range_entries rng m)))"
    by (simp add: range_entries_def filter_map comp_def sorted_wrt_filter)
  have "set ?keys = {key \<in> dom m. key_in_range key rng}" using assms(1) by simp
  then show "(key, v) \<in> set (filter (\<lambda>row. \<not> reserved (fst row)) (range_entries rng m)) \<longleftrightarrow> key_in_range key rng \<and> kv key = Some v" for key v
    using assms(2) by (auto simp: range_entries_def plain_keys_def image_iff)
qed

lemma fts_run_state:
  assumes "fts_run crc api u base_dir k True evs" and "unicode_ok u" and "bloom_crate_ok api" and "utf8_valid base_dir" and "length evs \<le> 2 ^ 33"
  obtains m alt kept docs kv where "kv2_holds crc api (Suc 0) k m alt" "kept_of kept evs" "fts_contents kept = (docs, kv)"
    "indexes u m docs" "plain_keys m kv" "finite (dom m)"
proof -
  have "fts_holds crc api u (Suc 0) k True evs" by (rule fts_run_holds [OF assms(1-4)]) (use assms(5) in simp)
  then obtain m alt kept kept' docs kv where h: "kv2_holds crc api (Suc 0) k m alt" and kept: "kept_of kept evs" "fts_contents kept = (docs, kv)"
    and m: "indexes u m docs" "plain_keys m kv" by (rule fts_holdsE)
  have "finite (dom m)" using h finite_kv_map by (auto simp: kv2_holds_def)
  from that [OF h kept m this] show thesis .
qed

context map_reader
begin

lemma computes_fts_get:
  assumes "plain_keys m kv" and "\<not> reserved key"
  shows "computes m (fts_get eng key) (Inr (kv key))"
  unfolding fts_get_def using assms computes_get [of m key] by (intro computes_await_bind) (simp add: plain_keys_def)

lemma computes_fts_scan:
  assumes "plain_keys m kv" and "finite (dom m)"
  shows "computes m (fts_scan eng rng) (Inr (range_entries rng kv))"
  unfolding fts_scan_def plain_entries [OF assms(2,1), symmetric]
  by (intro computes_await_bind computes_bind_Inr [OF computes_scan] computes_return)

end

text \<open>
  C3: what the full-text index answers over its whole life. After any run of a directory, with documents
  put one by one and in batches, deleted, plain keys written beside them, flushes, compactions, failed
  calls, stops and reopenings in any order, there is a choice of the commands it was given, in order and
  with every acknowledged one, such that reading a document returns what those commands left of it, a
  search returns the documents whose text has all (or any) of the terms of the query, in the order of
  their ids and up to the limit, and reading or scanning the plain keys returns what those commands wrote,
  without a record of the index. The hypotheses are what is used of the Unicode tables and of the Bloom
  filter crate, and a bound on the number of commands.
\<close>

theorem fts_answers_history:
  assumes "fts_run crc api u base_dir k True evs" and "unicode_ok u" and "bloom_crate_ok api" and "utf8_valid base_dir"
    and "length evs \<le> 2 ^ 33" and "clean_calls envs" and "\<not> read_faults envs"
  shows "\<exists>kept docs kv. kept_of kept evs \<and> fts_contents kept = (docs, kv)
     \<and> (\<forall>did. sized did \<longrightarrow> answer (get_document u (kv2_api crc api envs) did) k = Some (Inr (docs did)))
     \<and> (\<forall>query limit. answer (search u (kv2_api crc api envs) query limit) k = Some (found_documents u docs query limit))
     \<and> (\<forall>key. \<not> reserved key \<longrightarrow> answer (ka_get (fts_api (kv2_api crc api envs)) key) k = Some (Inr (kv key)))
     \<and> (\<forall>rng. answer (ka_scan (fts_api (kv2_api crc api envs)) rng) k = Some (Inr (range_entries rng kv)))"
proof -
  from assms(1-5) obtain m alt kept docs kv where h: "kv2_holds crc api (Suc 0) k m alt" and kept: "kept_of kept evs" "fts_contents kept = (docs, kv)"
    and ix: "indexes u m docs" and kv: "plain_keys m kv" and fin: "finite (dom m)" by (rule fts_run_state)
  note a = computes_answer [OF _ h assms(3,6,7)]
  show ?thesis
    by (intro exI [of _ kept] exI [of _ docs] exI [of _ kv] conjI allI impI kept)
      (simp_all add: fts_api_def a [OF kv2_engine.computes_get_document [OF assms(2) ix]] a [OF kv2_engine.computes_search [OF assms(2) ix fin]]
        a [OF kv2_engine.computes_fts_get [OF kv]] a [OF kv2_engine.computes_fts_scan [OF kv fin]])
qed

lemma ranked_answer:
  assumes run: "fts_run crc api u base_dir k True evs" "unicode_ok u" "bloom_crate_ok api" "utf8_valid base_dir" "length evs \<le> 2 ^ 33"
    and env: "clean_calls envs" "\<not> read_faults envs"
  obtains kept docs kv where "kept_of kept evs" "fts_contents kept = (docs, kv)" "docs_ok u docs"
    "\<And>f64_ln query limit terms config. query_terms u query limit = Inr terms \<Longrightarrow> \<forall>t \<in> set terms. sized t \<Longrightarrow>
       if corpus_length u docs = 0 \<or> bm25_defined u f64_ln docs config (query_is_and query) terms
       then answer (search_ranked u f64_ln (kv2_api crc api envs) query limit config) k
          = Some (Inr (ranked_hits u f64_ln docs config (query_is_and query) terms limit))
       else \<exists>e. answer (search_ranked u f64_ln (kv2_api crc api envs) query limit config) k = Some (Inl e)"
proof -
  from run obtain m alt kept docs kv where h: "kv2_holds crc api (Suc 0) k m alt" and kept: "kept_of kept evs" "fts_contents kept = (docs, kv)"
    and ix: "indexes u m docs" and fin: "finite (dom m)" by (rule fts_run_state)
  note a = computes_answer [OF _ h run(3) env]
  show thesis
  proof (rule that [OF kept indexes_ok [OF ix]])
    fix f64_ln query limit terms config
    assume terms: "query_terms u query limit = Inr terms" "\<forall>t \<in> set terms. sized t"
    from kv2_engine.computes_search_ranked [OF run(2) ix fin terms, of crc api envs f64_ln config] obtain v where
      c: "kv2_computes crc api envs m (search_ranked u f64_ln (kv2_api crc api envs) query limit config) v"
      and v: "if corpus_length u docs = 0 \<or> bm25_defined u f64_ln docs config (query_is_and query) terms
         then v = Inr (ranked_hits u f64_ln docs config (query_is_and query) terms limit) else \<not> is_ok v" by blast
    from a [OF c] v show "if corpus_length u docs = 0 \<or> bm25_defined u f64_ln docs config (query_is_and query) terms
       then answer (search_ranked u f64_ln (kv2_api crc api envs) query limit config) k
          = Some (Inr (ranked_hits u f64_ln docs config (query_is_and query) terms limit))
       else \<exists>e. answer (search_ranked u f64_ln (kv2_api crc api envs) query limit config) k = Some (Inl e)"
      by (cases v) (simp_all split: if_splits)
  qed
qed

text \<open>
  C4: ranked search over the whole life of an index. After any run, with the same choice of commands as for
  the plain search, take a ranked search of a query with searchable terms and with parameters that
  \<open>Bm25Config::new\<close> accepts, where \<open>f64::ln\<close> is within \<open>d\<close> of the natural logarithm. It returns the matching
  documents in the order of falling score, up to the limit, and the score of each is the BM25 formula of its
  text in the collection, over the real numbers: the sum over the query terms it contains of
  $\ln((n + 1) / (df + 1/2)) \cdot tf (k_1 + 1) / (tf + k_1 (1 - b + b \cdot len / average))$, up to $2 d + 2^{-35}$
  times the sum of the weights. The only other outcome is an error, and only when the collection is so large
  that the inverse document frequency of a query term is below $2 d + 2^{-43}$.
\<close>

theorem fts_ranked_history:
  assumes "fts_run crc api u base_dir k True evs" and "unicode_ok u" and "bloom_crate_ok api" and "utf8_valid base_dir"
    and "length evs \<le> 2 ^ 33" and "clean_calls envs" and "\<not> read_faults envs"
    and ln: "ln_within d f64_ln" "0 \<le> d" "d \<le> 1"
  shows "\<exists>kept docs kv. kept_of kept evs \<and> fts_contents kept = (docs, kv)
     \<and> (\<forall>query limit terms k1 b config. query_terms u query limit = Inr terms \<and> (\<forall>t \<in> set terms. sized t)
          \<and> Bm25Config_new k1 b = Inr config \<longrightarrow>
          (\<exists>score. answer (search_ranked u f64_ln (kv2_api crc api envs) query limit config) k
                = Some (Inr (hits_by_score docs score (matching u docs (query_is_and query) terms) limit))
              \<and> (\<forall>did \<in> matching u docs (query_is_and query) terms. is_finite (score did)
                   \<and> \<bar>val (score did) - bm25 u docs config terms did\<bar> \<le> (2 * d + 1 / 2 ^ 35) * bm25_scale u docs config terms did))
          \<or> (\<exists>t \<in> set terms. bm25_idf (card (dom docs)) (card (documents_with u docs t)) < 2 * d + 1 / 2 ^ 43)
             \<and> (\<exists>e. answer (search_ranked u f64_ln (kv2_api crc api envs) query limit config) k = Some (Inl e)))"
proof (rule ranked_answer [OF assms(1-7)])
  fix kept docs kv
  assume kept: "kept_of kept evs" "fts_contents kept = (docs, kv)" and ok: "docs_ok u docs"
    and ranked: "\<And>f64_ln query limit terms config. query_terms u query limit = Inr terms \<Longrightarrow> \<forall>t \<in> set terms. sized t \<Longrightarrow>
       if corpus_length u docs = 0 \<or> bm25_defined u f64_ln docs config (query_is_and query) terms
       then answer (search_ranked u f64_ln (kv2_api crc api envs) query limit config) k
          = Some (Inr (ranked_hits u f64_ln docs config (query_is_and query) terms limit))
       else \<exists>e. answer (search_ranked u f64_ln (kv2_api crc api envs) query limit config) k = Some (Inl e)"
  have "(\<exists>score. answer (search_ranked u f64_ln (kv2_api crc api envs) query limit config) k
                = Some (Inr (hits_by_score docs score (matching u docs (query_is_and query) terms) limit))
              \<and> (\<forall>did \<in> matching u docs (query_is_and query) terms. is_finite (score did)
                   \<and> \<bar>val (score did) - bm25 u docs config terms did\<bar> \<le> (2 * d + 1 / 2 ^ 35) * bm25_scale u docs config terms did))
          \<or> (\<exists>t \<in> set terms. bm25_idf (card (dom docs)) (card (documents_with u docs t)) < 2 * d + 1 / 2 ^ 43)
             \<and> (\<exists>e. answer (search_ranked u f64_ln (kv2_api crc api envs) query limit config) k = Some (Inl e))"
    if terms: "query_terms u query limit = Inr terms" "\<forall>t \<in> set terms. sized t" and config: "Bm25Config_new k1 b = Inr config"
    for query limit terms k1 b config
    using ranked [OF terms, of f64_ln config] bm25_undefined_idf [OF ok terms(1) config ln, of "query_is_and query"]
      bm25_defined_accurate [OF ok terms(1) config ln, of "query_is_and query"]
    by (auto simp: ranked_hits_by_score split: if_splits)
  with kept show ?thesis by blast
qed

section \<open>When a document is accepted\<close>

text \<open>A plan on an engine that is ready, where the calls to the file system succeed.\<close>

lemma plan_acknowledged:
  fixes api :: "('f, f64) bloom_api"
  assumes plan: "kv2_reader.plans TYPE('f) crc api envs (kv_writer k) (mg_wal (kv_managers k)) m c operations x"
    and holds: "kv2_holds crc api n k m alt" and env: "bloom_crate_ok api" "clean_calls envs" "good_calls envs"
    and ready: "kv2_ready crc b k" and ne: "operations \<noteq> []" and valid: "validate_batch operations = Inr bytes"
    and room: "b + bytes < unat (memtable_size_threshold (wc_config (kv_writer k)))"
  shows "\<exists>k' i. c (k, 0) = Some (Inr x, k', i) \<and> kv2_ready crc (b + bytes) k' \<and> wc_config (kv_writer k') = wc_config (kv_writer k)"
proof -
  have "kv2_pinned crc api envs (kv_writer k) (mg_wal (kv_managers k)) n (k, 0) m alt"
    using kv2_repI [OF env(1,2) holds] by (simp add: kv2_pinned_def)
  with plan good_calls_read [OF env(3)] obtain s where s: "kv_writer (fst s) = kv_writer k" "mg_wal (kv_managers (fst s)) = mg_wal (kv_managers k)"
    and c: "c (k, 0) = io_bind (ka_write_batch (kv2_api crc api envs) operations) (\<lambda>_. io_return x) s"
    unfolding kv2_reader.plans_def kv2_pinned_def by blast
  have "kv2_ready crc b (fst s)" using ready s by (simp add: kv2_ready_def)
  from ready_write [OF this ne valid, of "cl_write (envs (snd s))" api] room s env(3) obtain k' where
    w: "KV2_write_batch crc api (cl_write (envs (snd s))) operations (fst s) = Some (Inr (), k')" "kv2_ready crc (b + bytes) k'"
      "wc_config (kv_writer k') = wc_config (kv_writer k)" by (auto simp: good_calls_def)
  have "c (k, 0) = Some (Inr x, k', Suc (snd s))"
    using w(1) by (simp add: c io_bind_def io_return_def io_lift_def kv2_api_def write_call_def)
  with w show ?thesis by blast
qed

lemma put_document_acknowledged:
  assumes run: "fts_run crc api u base_dir k True evs" and u: "unicode_ok u" and api: "bloom_crate_ok api" and dir: "utf8_valid base_dir"
    and evs: "length evs < 2 ^ 33" "list_all fst evs" "fts_contents evs = (docs, kv)"
    and new: "docs_ok u (docs(did \<mapsto> d))" and env: "clean_calls envs" "good_calls envs" and ready: "kv2_ready crc b k"
    and valid: "validate_batch (put_operations u docs did d) = Inr bytes"
    and room: "b + bytes < unat (memtable_size_threshold (wc_config (kv_writer k)))"
  shows "\<exists>k' i. put_document u (kv2_api crc api envs) did d (k, 0) = Some (Inr (), k', i)
     \<and> fts_run crc api u base_dir k' True (evs @ [(True, Put_Document did d)])
     \<and> kv2_ready crc (b + bytes) k' \<and> wc_config (kv_writer k') = wc_config (kv_writer k)"
proof -
  from run u api dir less_imp_le [OF evs(1)] obtain m alt kept docs' kv' where h: "kv2_holds crc api (Suc 0) k m alt"
    and kept: "kept_of kept evs" "fts_contents kept = (docs', kv')" and ix: "indexes u m docs'" by (rule fts_run_state)
  from kept_of_all [OF kept(1) evs(2)] kept(2) evs(3) have "docs' = docs" by simp
  with ix have ix: "indexes u m docs" by simp
  have did: "did \<noteq> []" "utf8_valid did" "length d < 2 ^ 59"
    using docs_okD [OF new, of did d] by (simp_all add: id_ok_def document_ok_def)
  have "put_operations u docs did d \<noteq> []" by (simp add: put_operations_def document_operations_def)
  from plan_acknowledged [OF kv2_reader.put_document_plans [OF u ix new] h api env ready this valid room] obtain k' i where
    put: "put_document u (kv2_api crc api envs) did d (k, 0) = Some (Inr (), k', i)"
      "kv2_ready crc (b + bytes) k'" "wc_config (kv_writer k') = wc_config (kv_writer k)" by blast
  from fts_run.put_document [OF run env(1) _ did(2,3) put(1)] did(1) put show ?thesis by (auto simp: DocumentId_new_def)
qed

lemma open_index_acknowledged:
  assumes run: "fts_run crc api u base_dir k False []" and holds: "kv2_holds crc api n k Map.empty alt"
    and api: "bloom_crate_ok api" and env: "clean_calls envs" "good_calls envs" and ready: "kv2_ready crc b k"
    and valid: "validate_batch [Batch_Put META_KEY [FORMAT_VERSION, TOKENIZER_VERSION], Batch_Put STATS_KEY (encode_stats 0 0)] = Inr bytes"
    and room: "b + bytes < unat (memtable_size_threshold (wc_config (kv_writer k)))"
  shows "\<exists>k'. fts_run crc api u base_dir k' True [(True, Open_Index)] \<and> kv2_ready crc (b + bytes) k' \<and> wc_config (kv_writer k') = wc_config (kv_writer k)"
proof -
  from plan_acknowledged [OF kv2_reader.open_new holds api env ready _ valid room] obtain k' i where
    "FtsIndex_open (kv2_api crc api envs) (k, 0) = Some (Inr (), k', i)" "kv2_ready crc (b + bytes) k'"
    "wc_config (kv_writer k') = wc_config (kv_writer k)" by auto
  with fts_run.open_index [OF run env(1)] show ?thesis by fastforce
qed

text \<open>
  C5: a document that fits is accepted and found. In any run whose commands were all acknowledged, on an
  engine with a healthy log, room in its memtable and counters, and calls to the file system that succeed,
  putting a document within the limits of the index is acknowledged. Reading it back then returns its
  text, and every search answers with it as part of the collection.
\<close>

theorem document_accepted_and_found:
  assumes run: "fts_run crc api u base_dir k True evs" and u: "unicode_ok u" and api: "bloom_crate_ok api" and dir: "utf8_valid base_dir"
    and evs: "length evs < 2 ^ 33" "list_all fst evs" "fts_contents evs = (docs, kv)"
    and new: "docs_ok u (docs(did \<mapsto> d))" and env: "clean_calls envs" "good_calls envs" and ready: "kv2_ready crc b k"
    and valid: "validate_batch (put_operations u docs did d) = Inr bytes"
    and room: "b + bytes < unat (memtable_size_threshold (wc_config (kv_writer k)))"
  shows "\<exists>k' i. put_document u (kv2_api crc api envs) did d (k, 0) = Some (Inr (), k', i)
     \<and> answer (get_document u (kv2_api crc api envs) did) k' = Some (Inr (Some d))
     \<and> (\<forall>query limit. answer (search u (kv2_api crc api envs) query limit) k' = Some (found_documents u (docs(did \<mapsto> d)) query limit))"
proof -
  from put_document_acknowledged [OF assms] obtain k' i where put: "put_document u (kv2_api crc api envs) did d (k, 0) = Some (Inr (), k', i)"
    and run': "fts_run crc api u base_dir k' True (evs @ [(True, Put_Document did d)])" by blast
  from evs(1) have len: "length (evs @ [(True, Put_Document did d)]) \<le> 2 ^ 33" by simp
  from run' u api dir len obtain m alt kept docs' kv' where h: "kv2_holds crc api (Suc 0) k' m alt"
    and kept: "kept_of kept (evs @ [(True, Put_Document did d)])" "fts_contents kept = (docs', kv')"
    and ix: "indexes u m docs'" and fin: "finite (dom m)" by (rule fts_run_state)
  have "kept = evs @ [(True, Put_Document did d)]" by (rule kept_of_all [OF kept(1)]) (use evs(2) in simp)
  with kept(2) evs(3) have docs': "docs' = docs(did \<mapsto> d)" by simp
  have did: "sized did" using docs_okD(1) [OF new, of did d] by (simp add: id_ok_def)
  note a = computes_answer [OF _ h api env(1) good_calls_read [OF env(2)]]
  have "answer (get_document u (kv2_api crc api envs) did) k' = Some (Inr (Some d))"
    using a [OF kv2_engine.computes_get_document [OF u ix did]] by (simp add: docs')
  moreover have "answer (search u (kv2_api crc api envs) query limit) k' = Some (found_documents u (docs(did \<mapsto> d)) query limit)" for query limit
    using a [OF kv2_engine.computes_search [OF u ix fin]] by (simp add: docs')
  ultimately show ?thesis using put by blast
qed

end
