(* ===== verification/Preflight_Correct.thy ===== *)
theory Preflight_Correct
  imports Preflight
begin

text \<open>
  The startup checks accept every table that the engine writes: the lengths in a serialized table are
  the lengths of what follows them.
\<close>

section \<open>Cursors on encoded input\<close>

lemma cursor_append [reader_simps]:
  "length xs = n \<Longrightarrow> cursor_take n (xs @ rest) = Inr (xs, rest)"
  "length xs = n \<Longrightarrow> cursor_take n xs = Inr (xs, [])"
  "cursor_u32_be (u32_be v32 @ rest) = Inr (v32, rest)"
  "cursor_u64_be (u64_be v64 @ rest) = Inr (v64, rest)"
  "cursor_u32_le (u32_le v32 @ rest) = Inr (v32, rest)"
  "cursor_finish [] = Inr ((), [])"
  by (simp_all add: cursor_take_def cursor_u32_be_def cursor_u64_be_def cursor_u32_le_def cursor_finish_def rd_bind_def rd_return_def)

lemma preflight_check_ok [reader_simps]: "ok \<Longrightarrow> preflight_check ok bs = Inr ((), bs)"
  by (simp add: preflight_check_def rd_return_def)

lemma section_bytes_append: "start = length pre \<Longrightarrow> fin = length pre + length xs \<Longrightarrow> section_bytes (pre @ xs @ rest) start fin = Inr xs"
  by (simp add: section_bytes_def)

section \<open>Blocks\<close>

lemma preflight_record_encode:
  assumes "mr_wf r"
  shows "preflight_record (mr_encode r (mr_key r) @ rest) = Inr ((), rest)"
proof -
  have kind: "rt_byte (mr_type r) = 1 \<or> rt_byte (mr_type r) = 2" by (cases "mr_type r") (simp_all add: rt_byte_def)
  have byte: "cursor_take (Suc 0) (b # xs) = Inr ([b], xs)" for b xs by (simp add: cursor_take_def)
  show ?thesis
    using assms kind by (simp add: preflight_record_def mr_encode_def reader_simps mr_wf_def unat_of_nat_32 byte)
qed

lemma preflight_records_encode:
  assumes "list_all mr_wf rs"
  shows "preflight_records (length rs) (concat (map (\<lambda>r. mr_encode r (mr_key r)) rs)) = Inr ()"
proof -
  have "rd_times (length rs) preflight_record (concat (map (\<lambda>r. mr_encode r (mr_key r)) rs)) = Inr (replicate (length rs) (), [])"
    using assms
  proof (induction rs)
    case (Cons r rs)
    then show ?case using preflight_record_encode [of r] by simp
  qed simp
  then show ?thesis by (simp add: preflight_records_def reader_simps)
qed

lemma preflight_block_encode:
  assumes "block_ok b"
  shows "preflight_block (b_record_count b) (Block_encode crc b) = Inr ()"
proof -
  from assms obtain rs where rs: "b_data b = Some rs" "rs \<noteq> []" "recs_len rs < 2 ^ 32"
    "b_record_count b = of_nat (length rs)" "b_data_size b = of_nat (recs_len rs)"
    "b_first_key b = mr_key (hd rs)" "b_last_key b = mr_key (last rs)"
    by (rule block_okE)
  have wf: "list_all mr_wf rs" using rs(3) by (rule recs_len_mr_wf)
  then have keys: "length (mr_key (hd rs)) < 2 ^ 32" "length (mr_key (last rs)) < 2 ^ 32"
    using rs(2) by (simp_all add: list_all_iff mr_wf_def)
  have cnt: "length rs < 2 ^ 32" "length rs \<le> recs_len rs div 17"
    using rs(3) length_le_recs_len [of rs] by simp_all
  note lens = unat_of_nat_32 [OF keys(1)] unat_of_nat_32 [OF keys(2)] unat_of_nat_32 [OF cnt(1)] unat_of_nat_32 [OF rs(3)]
  show ?thesis
    using cnt(2) preflight_records_encode [OF wf]
    by (simp add: preflight_block_def Block_encode_def block_header_def rs lens reader_simps length_concat_mr_encode Let_def)
qed

lemma Block_encode_large:
  assumes "block_ok b"
  shows "37 \<le> length (Block_encode crc b)"
proof -
  from assms obtain rs where rs: "b_data b = Some rs" "rs \<noteq> []" by (rule block_okE)
  then have "17 \<le> recs_len rs" using length_le_recs_len [of rs] by (cases rs) auto
  then show ?thesis by (simp add: Block_encode_def block_header_def rs length_concat_mr_encode Let_def)
qed

section \<open>The index\<close>

lemma length_SparseIndexEntry_encode:
  "length (SparseIndexEntry_encode e) = 28 + length (si_first_key e) + length (si_last_key e)"
  by (simp add: SparseIndexEntry_encode_def)

lemma preflight_entry_encode:
  assumes "si_wf e" and "si_block_offset e < data_end" and "\<forall>p. previous = Some p \<longrightarrow> p < si_block_offset e"
  shows "preflight_entry data_end previous (SparseIndexEntry_encode e @ rest) = Inr ((si_block_offset e, si_record_count e), rest)"
  using assms
  by (simp add: preflight_entry_def SparseIndexEntry_encode_def reader_simps si_wf_def unat_of_nat_isize split: option.split)

abbreviation index_offsets :: "sparse_index_entry list \<Rightarrow> (u64 \<times> u32) list" where
  "index_offsets idx \<equiv> map (\<lambda>e. (si_block_offset e, si_record_count e)) idx"

lemma preflight_entries_encode:
  assumes "\<forall>b \<in> set bs. block_ok b" and "off + length (blocks_bytes crc bs) < 2 ^ 64"
    and "\<forall>p. previous = Some p \<longrightarrow> p < of_nat off" and "data_end = of_nat (off + length (blocks_bytes crc bs))"
  shows "preflight_entries data_end (length bs) previous (concat (map SparseIndexEntry_encode (block_index crc off bs)) @ rest)
     = Inr (index_offsets (block_index crc off bs), rest)"
  using assms
proof (induction bs arbitrary: off previous)
  case (Cons b bs)
  let ?e = "\<lparr>si_first_key = b_first_key b, si_block_offset = of_nat off, si_last_key = b_last_key b, si_record_count = b_record_count b\<rparr>"
  have "si_wf ?e" using block_index_wf [of "b # bs" crc off] Cons.prems(1) by simp
  moreover have lt: "(of_nat off :: u64) < of_nat (off + length (Block_encode crc b) + n)"
    if "off + length (Block_encode crc b) + n < 2 ^ 64" for n
    using that Block_encode_large [of b crc] Cons.prems(1)
    by (auto simp: word_less_nat_alt unat_of_nat_64 simp del: of_nat_add)
  ultimately have "preflight_entry data_end previous (SparseIndexEntry_encode ?e @ xs) = Inr ((of_nat off, b_record_count b), xs)" for xs
    using preflight_entry_encode [of ?e data_end previous xs] Cons.prems(2-4) lt [of "length (blocks_bytes crc bs)"]
    by (simp add: add.assoc del: of_nat_add)
  moreover have "preflight_entries data_end (length bs) (Some (of_nat off))
      (concat (map SparseIndexEntry_encode (block_index crc (off + length (Block_encode crc b)) bs)) @ rest)
      = Inr (index_offsets (block_index crc (off + length (Block_encode crc b)) bs), rest)"
    by (rule Cons.IH) (use Cons.prems lt [of 0] in \<open>simp_all add: add.assoc del: of_nat_add\<close>)
  ultimately show ?case by (simp add: reader_simps)
qed (simp add: reader_simps)

lemma length_index_entries: "28 * length idx \<le> length (concat (map SparseIndexEntry_encode idx))"
  by (induction idx) (simp_all add: length_SparseIndexEntry_encode)

lemma preflight_index_encode:
  assumes "\<forall>b \<in> set bs. block_ok b" and "length (blocks_bytes crc bs) < 2 ^ 64" and "length bs < 2 ^ 64"
  shows "preflight_index (of_nat (length (blocks_bytes crc bs))) (encode_index (block_index crc 0 bs)) = Inr (index_offsets (block_index crc 0 bs))"
proof -
  have "length bs \<le> length (concat (map SparseIndexEntry_encode (block_index crc 0 bs))) div 28"
    using length_index_entries [of "block_index crc 0 bs"] by simp
  moreover have "preflight_entries (of_nat (length (blocks_bytes crc bs))) (length bs) None (concat (map SparseIndexEntry_encode (block_index crc 0 bs)))
      = Inr (index_offsets (block_index crc 0 bs), [])"
    using preflight_entries_encode [of bs 0 crc None _ "[]"] assms by simp
  ultimately show ?thesis
    by (simp add: preflight_index_def encode_index_def reader_simps unat_of_nat_64 [OF assms(3)])
qed

lemma preflight_blocks_encode:
  assumes "\<forall>b \<in> set bs. block_ok b" and "length pre + length (blocks_bytes crc bs) < 2 ^ 64"
    and "data_end = of_nat (length pre + length (blocks_bytes crc bs))"
  shows "preflight_blocks (pre @ blocks_bytes crc bs @ rest) data_end (index_offsets (block_index crc (length pre) bs)) = Inr ()"
  using assms
proof (induction bs arbitrary: pre)
  case (Cons b bs)
  let ?pre = "pre @ Block_encode crc b"
  have fin: "(case index_offsets (block_index crc (length ?pre) bs) of [] \<Rightarrow> data_end | (next_offset, _) # _ \<Rightarrow> next_offset)
      = of_nat (length pre + length (Block_encode crc b))"
    using Cons.prems(3) by (cases bs) simp_all
  have "unat (of_nat (length pre) :: u64) = length pre"
    "unat (of_nat (length pre + length (Block_encode crc b)) :: u64) = length pre + length (Block_encode crc b)"
    by (rule unat_of_nat_64; use Cons.prems(2) in simp)+
  then have "section_bytes (pre @ blocks_bytes crc (b # bs) @ rest) (unat (of_nat (length pre) :: u64))
      (unat (of_nat (length pre + length (Block_encode crc b)) :: u64)) = Inr (Block_encode crc b)"
    using section_bytes_append [of "length pre" pre _ "Block_encode crc b" "blocks_bytes crc bs @ rest"] by simp
  moreover have "preflight_blocks (?pre @ blocks_bytes crc bs @ rest) data_end (index_offsets (block_index crc (length ?pre) bs)) = Inr ()"
    by (rule Cons.IH) (use Cons.prems in \<open>simp_all add: add.assoc\<close>)
  ultimately show ?case
    using fin preflight_block_encode [of b crc] Cons.prems(1) by (simp add: Let_def del: of_nat_add)
qed simp

section \<open>The filter\<close>

lemma length_bloom_encode: "length (bloom_encode api w) = 36 + 8 * length (bf_as_slice api (bl_filter w))"
proof -
  have "length (concat (map u64_be ws)) = 8 * length ws" for ws by (induction ws) simp_all
  then show ?thesis by (simp add: bloom_encode_def Let_def)
qed

lemma preflight_bloom_encode:
  assumes "bloom_shape api w"
  shows "preflight_bloom (bloom_encode api w) = Inr ()"
proof -
  let ?f = "bl_filter w"
  let ?ws = "bf_as_slice api ?f" and ?n = "bf_num_bits api ?f"
  have s: "bf_num_hashes api ?f \<noteq> 0" "unat (bf_num_hashes api ?f) \<le> ?n" "0 < ?n" "?n + 63 \<le> usize_max"
    "length ?ws = (?n + 63) div 64"
    using assms by (simp_all add: bloom_shape_def Let_def)
  have lt: "?n < 2 ^ 64" "length ?ws < 2 ^ 64" "8 * length ?ws \<le> usize_max" "0 < length ?ws"
    using s(3-5) by (simp_all add: usize_max_def)
  have nz: "(of_nat ?n :: u64) \<noteq> 0" "(of_nat (length ?ws) :: u64) \<noteq> 0"
    using lt s(3) by (simp_all add: unat_eq_zero [symmetric] unat_of_nat_64 del: unat_eq_zero)
  have bm: "length (concat (map u64_be ?ws)) = 8 * length ?ws" using length_bloom_encode [of api w] by (simp add: bloom_encode_def Let_def)
  have "preflight_check True bs = Inr ((), bs)" for bs by (simp add: reader_simps)
  then show ?thesis
    unfolding preflight_bloom_def length_bloom_encode
    using s lt nz bm
    by (simp add: bloom_encode_def Let_def reader_simps unat_of_nat_64 mult.commute)
qed

section \<open>Whole tables\<close>

lemma table_parts_fit:
  assumes "table_ok crc api t"
  shows "length (blocks_bytes crc (sc_blocks t)) + length (encode_index (table_index crc t)) + length (bloom_encode api (sc_bloom t)) + 64 < 2 ^ 64"
  using assms by (simp add: table_ok_def table_file_eq isize_max_def FOOTER_SIZE_def)

lemma sections_in_place_file:
  assumes "table_ok crc api t"
  shows "sections_in_place (of_nat (length (table_file crc api t))) (table_footer crc api t)"
proof -
  let ?b = "length (blocks_bytes crc (sc_blocks t))" and ?i = "length (encode_index (table_index crc t))"
    and ?f = "length (bloom_encode api (sc_bloom t))"
  note fit = table_parts_fit [OF assms]
  have u: "unat (of_nat n :: u64) = n" if "n \<le> ?b + ?i + ?f + 64" for n
    by (rule unat_of_nat_64) (use that fit in simp)
  have "checked_add (of_nat (?b + ?i + ?f)) FOOTER_BYTES = Some (of_nat (?b + ?i + ?f + 64) :: u64)"
    using fit u [of "?b + ?i + ?f"] by (simp add: checked_add_def FOOTER_BYTES_def FOOTER_SIZE_def)
  then show ?thesis
    using u by (simp add: sections_in_place_def table_footer_sel table_file_eq FOOTER_SIZE_def word_le_nat_alt add.assoc del: of_nat_add)
qed

lemma preflight_validate_file:
  assumes ok: "table_ok crc api t" and shape: "bloom_shape api (sc_bloom t)"
  shows "preflight_validate (table_file crc api t) (table_footer crc api t) = Inr ()"
proof -
  let ?B = "blocks_bytes crc (sc_blocks t)" and ?I = "encode_index (table_index crc t)"
  let ?F = "bloom_encode api (sc_bloom t)" and ?E = "Footer_encode crc (table_footer crc api t)"
  note fit = table_parts_fit [OF ok]
  have u: "unat (of_nat n :: u64) = n" if "n \<le> length ?B + length ?I + length ?F + 64" for n
    by (rule unat_of_nat_64) (use that fit in simp)
  have offs: "unat (index_block_start (table_footer crc api t)) = length ?B" "unat (index_block_end (table_footer crc api t)) = length ?B + length ?I"
    "unat (bloom_block_start (table_footer crc api t)) = length (?B @ ?I)"
    "unat (bloom_block_end (table_footer crc api t)) = length (?B @ ?I) + length ?F"
    unfolding table_footer_sel by (simp_all add: u add.assoc del: of_nat_add)
  have secs: "section_bytes (table_file crc api t) (length ?B) (length ?B + length ?I) = Inr ?I"
    "section_bytes (table_file crc api t) (length (?B @ ?I)) (length (?B @ ?I) + length ?F) = Inr ?F"
    using section_bytes_append [of _ ?B _ ?I "?F @ ?E"] section_bytes_append [of _ "?B @ ?I" _ ?F ?E]
    by (simp_all add: table_file_eq)
  have blocks: "\<forall>b \<in> set (sc_blocks t). block_ok b" using ok by (simp add: table_ok_def blocks_ok_def)
  have "length (sc_blocks t) < 2 ^ 64" using fit length_le_encode_index [of "table_index crc t"] by (simp add: table_index_def)
  then have index: "preflight_index (data_block_end (table_footer crc api t)) ?I = Inr (index_offsets (table_index crc t))"
    using preflight_index_encode [OF blocks, of crc] fit by (simp add: table_footer_sel table_index_def)
  have "preflight_blocks (table_file crc api t) (data_block_end (table_footer crc api t)) (index_offsets (table_index crc t)) = Inr ()"
    using preflight_blocks_encode [OF blocks, of "[]" crc _ "?I @ ?F @ ?E"] fit by (simp add: table_footer_sel table_index_def table_file_eq)
  then show ?thesis
    using sections_in_place_file [OF ok] index preflight_bloom_encode [OF shape]
    by (simp add: preflight_validate_def offs secs secs [simplified])
qed

end
