(* ===== verification/Engine_Reopen.thy ===== *)
theory Engine_Reopen
  imports Engine_Map Preflight_Correct
begin

text \<open>
  Opening succeeds on every directory the engine leaves: the tables it wrote pass the startup checks
  against their manifest entries, the log is repaired and scanned, and what was acknowledged is there.
\<close>

section \<open>The tables pass the startup checks\<close>

lemma table_index_counts:
  assumes "\<forall>b \<in> set bs. block_ok b"
  shows "sum_list (map (unat \<circ> si_record_count) (block_index crc off bs)) = length (table_records bs)"
  using assms
proof (induction bs arbitrary: off)
  case (Cons b bs)
  then have "block_ok b" by simp
  then obtain rs where rs: "b_data b = Some rs" "b_record_count b = of_nat (length rs)" "recs_len rs < 2 ^ 32"
    by (rule block_okE)
  then have "length rs < 2 ^ 32" using length_le_recs_len [of rs] by simp
  with Cons rs show ?case by (simp add: table_records_def block_records_def unat_of_nat_32)
qed (simp add: table_records_def)

lemma table_records_length:
  assumes "\<forall>b \<in> set bs. block_ok b"
  shows "length (table_records bs) \<le> length (blocks_bytes crc bs)"
  using assms
proof (induction bs)
  case (Cons b bs)
  then have "block_ok b" by simp
  then obtain rs where rs: "b_data b = Some rs" by (rule block_okE)
  have "length rs \<le> length (Block_encode crc b)"
    using length_le_recs_len [of rs] by (simp add: Block_encode_def rs length_concat_mr_encode Let_def)
  with Cons rs show ?case by (simp add: table_records_def block_records_def)
qed (simp add: table_records_def)

lemma check_blocks_file:
  assumes "\<forall>b \<in> set bs. block_ok b" and "n + length (table_records bs) \<le> usize_max"
  shows "check_blocks (zip (block_index crc off bs) (map (\<lambda>b. b\<lparr>b_offset := 0\<rparr>) bs)) n = Inr (n + length (table_records bs))"
  using assms
proof (induction bs arbitrary: off n)
  case (Cons b bs)
  then have "block_ok b" by simp
  then obtain rs where rs: "b_data b = Some rs" "rs \<noteq> []" "recs_len rs < 2 ^ 32" "b_record_count b = of_nat (length rs)"
    "b_first_key b = mr_key (hd rs)" "b_last_key b = mr_key (last rs)" by (rule block_okE)
  then have "length rs < 2 ^ 32" using length_le_recs_len [of rs] by simp
  with Cons rs show ?case by (simp add: table_records_def block_records_def unat_of_nat_32)
qed (simp add: table_records_def)

text \<open>The index and the filter as the section readers of \<open>src/storage/index.rs\<close> return them.\<close>

lemma read_sections_file:
  assumes ok: "table_ok crc api t"
  shows "read_sstable_sparse_index crc (table_file crc api t) (table_footer crc api t) = Inr (table_index crc t)"
    "read_sstable_bloom crc api (table_file crc api t) (table_footer crc api t) = Inr (sc_bloom t)"
proof -
  let ?B = "blocks_bytes crc (sc_blocks t)" and ?I = "encode_index (table_index crc t)"
  let ?F = "bloom_encode api (sc_bloom t)" and ?E = "Footer_encode crc (table_footer crc api t)"
  have fit: "length ?B + length ?I + length ?F + 64 \<le> isize_max" using ok by (simp add: table_ok_def table_file_eq FOOTER_SIZE_def)
  have u: "unat (of_nat n :: u64) = n" if "n \<le> length ?B + length ?I + length ?F" for n
    by (rule unat_of_nat_isize) (use that fit in simp)
  have diff: "unat (of_nat (n + m) - of_nat n :: u64) = m" if "n + m \<le> length ?B + length ?I + length ?F" for n m
    using u [of m] that by simp
  have wf: "list_all si_wf (table_index crc t)"
    using ok by (auto simp: table_index_def table_ok_def blocks_ok_def intro: block_index_wf)
  have cnt: "length (table_index crc t) < 2 ^ 64"
    using fit length_le_encode_index [of "table_index crc t"] by (simp add: isize_max_def)
  have "rbind (read_u64_be ?I) (\<lambda>(n, bs). rd_times (unat n) SparseIndexEntry_decode bs) = Inr (table_index crc t, [])"
    using rd_times_index [OF wf cnt, of "[]"] by (simp add: SparseIndexEntry_async_decode_eq)
  then obtain n bs where idx: "read_u64_be ?I = Inr (n, bs)" "rd_times (unat n) SparseIndexEntry_decode bs = Inr (table_index crc t, [])"
    by (auto simp: rbind_eq_Inr)
  have "read_buf (length ?I) (?I @ ?F @ ?E) = Inr (?I, ?F @ ?E)" "read_buf (length ?F) (?F @ ?E) = Inr (?F, ?E)"
    using fit by (simp_all add: reader_simps)
  moreover have "unat (index_block_end (table_footer crc api t) - index_block_start (table_footer crc api t)) = length ?I"
    "unat (bloom_block_end (table_footer crc api t) - bloom_block_start (table_footer crc api t)) = length ?F"
    unfolding table_footer_sel using diff [of "length ?B" "length ?I"] diff [of "length ?B + length ?I" "length ?F"] by (simp_all add: add.assoc)
  moreover have "drop (unat (index_block_start (table_footer crc api t))) (table_file crc api t) = ?I @ ?F @ ?E"
    "drop (unat (bloom_block_start (table_footer crc api t))) (table_file crc api t) = ?F @ ?E"
    unfolding table_footer_sel using u [of "length ?B"] u [of "length (?B @ ?I)"] by (simp_all add: table_file_eq del: of_nat_add)
  moreover have "bloom_decode api ?F = Inr (sc_bloom t, [])"
    using bloom_decode_encode [of api "sc_bloom t" "[]"] ok by (simp add: table_ok_def)
  ultimately show "read_sstable_sparse_index crc (table_file crc api t) (table_footer crc api t) = Inr (table_index crc t)"
    "read_sstable_bloom crc api (table_file crc api t) (table_footer crc api t) = Inr (sc_bloom t)"
    by (simp_all add: read_sstable_sparse_index_def read_sstable_bloom_def verify_index_checksum_def verify_bloom_checksum_def
        table_footer_sel idx)
qed

lemma validate_accepts:
  assumes holds: "table_holds crc api (file_contents fs) m rs" and count: "sm_record_count m = of_nat (length rs)"
  shows "validate_manifest_sstable crc api no_faults fs m = Inr ()"
proof -
  from holds obtain t where ok: "table_ok crc api t" and shape: "bloom_shape api (sc_bloom t)"
    and f: "file_contents fs (sm_path m) = Inr (table_file crc api t)" and rs: "table_records (sc_blocks t) = rs" and ne: "rs \<noteq> []"
    and ends: "sm_smallest_key m = mr_key (hd rs)" "sm_largest_key m = mr_key (last rs)"
    by (auto simp: table_holds_def)
  have blocks: "\<forall>b \<in> set (sc_blocks t). block_ok b" using ok by (simp add: table_ok_def blocks_ok_def)
  have "length rs \<le> isize_max"
    using table_records_length [OF blocks, of crc] rs ok by (simp add: table_ok_def table_file_eq)
  then have len: "\<not> usize_max < length rs" "unat (of_nat (length rs) :: u64) = length rs"
    by (simp_all add: size_bounds unat_of_nat_isize)
  have foot: "deserialize_footer crc (table_file crc api t) = Inr (table_footer crc api t)"
    using Footer_async_decode_append [of crc "blocks_bytes crc (sc_blocks t) @ encode_index (table_index crc t) @ bloom_encode api (sc_bloom t)"]
    by (simp add: deserialize_footer_def table_file_eq)
  have big: "\<not> length (table_file crc api t) < FOOTER_SIZE" by (simp add: table_file_eq)
  have counts: "sum_list (map (unat \<circ> si_record_count) (table_index crc t)) = length rs"
    using table_index_counts [OF blocks] rs by (simp add: table_index_def)
  have keys: "table_index crc t \<noteq> []" "si_first_key (hd (table_index crc t)) = mr_key (hd rs)" "si_last_key (last (table_index crc t)) = mr_key (last rs)"
    using range_from_table_index [OF ok rs ne] by (auto simp: range_from_index_def split: if_splits)
  have check: "check_blocks (zip (table_index crc t) (map (\<lambda>b. b\<lparr>b_offset := 0\<rparr>) (sc_blocks t))) 0 = Inr (length rs)"
    using check_blocks_file [OF blocks, of 0 crc 0] len(1) rs by (simp add: table_index_def)
  show ?thesis
    unfolding validate_manifest_sstable_def
    by (simp add: metadata_len_def io_fault_def no_faults_def f open_path_no_faults [unfolded no_faults_def] big foot
        sections_in_place_file [OF ok] preflight_validate_file [OF ok shape] read_sections_file [OF ok] deserialize_sections_file [OF ok]
        get_blocks_file [OF ok] Let_def counts len keys ends count check)
qed

lemma validate_tables_ok:
  "\<forall>m \<in> set ts. validate_manifest_sstable crc api faults fs m = Inr () \<Longrightarrow> validate_tables crc api faults fs ts = Inr ()"
  by (induction ts) simp_all

section \<open>Opening\<close>

text \<open>A start in which no file-system call fails and no artifact of the experimental store is present.\<close>

definition clean_start :: "open_env \<Rightarrow> bool" where
  "clean_start env \<longleftrightarrow> oe_faults env = no_faults \<and> oe_exists env = (\<lambda>_. False)"

lemma KV2_open_total:
  assumes "clean_start env" and "replay_manifest crc (di_manifest d) = Inr s"
    and "validate_tables crc api no_faults (di_files d) (level_files (snapshot_levels (ms_levels s))) = Inr ()"
    and "new_with_checkpoint crc (oe_create env) (di_wal d) (wal_segment_size config) (ms_recovery_checkpoint s) = Inr wal"
    and "recover_records crc wal = Inr records"
  shows "\<exists>k. KV2_open crc api env base_dir config d = Inr k"
  using assms
  by (simp add: KV2_open_def clean_start_def no_faults_def io_fault_def Let_def ensure_not_experimental_storage_def list_ex_iff
      load_or_create_def snapshot_def snapshot_from_state_def level_files_def bt_values_def case_prod_beta)

lemma recoverable_opens:
  assumes env: "clean_start env" and s: "replay_manifest crc (di_manifest d) = Inr s"
    and rec: "recoverable crc api H s (di_wal d) (di_files d)"
  shows "\<exists>k. KV2_open crc api env base_dir config d = Inr k"
proof -
  from rec obtain recs a where st: "manifest_ok (ms_levels s)"
      "\<forall>m \<in> live (ms_levels s). table_holds crc api (file_contents (di_files d)) m (recs m) \<and> meta_sound recs m"
    and re: "reopens crc (ms_recovery_checkpoint s) (di_wal d) a" "an_legacy a = []"
    unfolding recoverable_def by blast
  have tabs: "validate_tables crc api no_faults (di_files d) (level_files (snapshot_levels (ms_levels s))) = Inr ()"
    by (rule validate_tables_ok) (use st in \<open>auto simp: set_level_files meta_sound_def intro: validate_accepts [where rs = "recs m" for m]\<close>)
  obtain wal where wal: "new_with_checkpoint crc (oe_create env) (di_wal d) (wal_segment_size config) (ms_recovery_checkpoint s) = Inr wal"
    and inv: "wal_inv crc wal a"
    using reopensD [OF re(1), of "oe_create env" "wal_segment_size config" True] by (auto simp: new_with_checkpoint_def)
  obtain us where "recover_records crc wal = Inr (map update_record us)" using recover_records_inv [OF inv re(2)] by blast
  from KV2_open_total [OF env s tabs wal this] show ?thesis .
qed

lemma kv_logged_opens:
  assumes log: "kv_logged crc api txs k" and env: "clean_start env" and len: "length (di_manifest (disk_of k)) \<le> isize_max"
  shows "\<exists>k'. KV2_open crc api env base_dir config (disk_of k) = Inr k'"
proof -
  from log obtain H extra where core: "core_inv crc api H extra (wc_memtable (kv_writer k)) (wc_sequence_number (kv_writer k)) (kv_managers k)"
    by (auto simp: kv_logged_def kv_inv_def)
  then obtain ops where ops: "mm_inv crc ops (mg_manifest (kv_managers k))" by (auto simp: core_inv_def)
  then have s: "replay_manifest crc (di_manifest (disk_of k)) = Inr (replayed ops)"
    using load_inv [OF ops] len by (auto simp: disk_of_def load_or_create_def rbind_eq_Inr)
  have "recoverable crc api (H @ extra) (replayed ops) (di_wal (disk_of k)) (di_files (disk_of k))"
    using core_recoverable [OF core ops] by (simp add: disk_of_def)
  from recoverable_opens [OF env s this] show ?thesis .
qed

text \<open>The batches behind the answers of the engine, and those that only the log has.\<close>

lemma logged_maps:
  assumes "logged txs H extra"
  obtains kept late where "kept_of (kept @ late) txs" "list_all (Not \<circ> fst) late"
    "kv_map H = kv_contents (map snd kept)" "kv_map (H @ extra) = kv_contents (map snd (kept @ late))"
proof -
  from assms obtain kept late gs gs' where k: "kept_of (kept @ late) txs" "list_all (Not \<circ> fst) late"
    "list_all2 commands_for (map snd kept) gs" "list_all2 commands_for (map snd late) gs'" "H = concat gs" "extra = concat gs'"
    unfolding logged_def by blast
  have "fold apply_command (concat gs) m = fold apply_operation (concat opss) m" if "list_all2 commands_for opss gs" for opss gs m
    using that by (induction arbitrary: m) (auto simp: commands_for_def build_commands_apply)
  from this [OF k(3)] this [OF k(4)] k show thesis by (intro that [of kept late]) (simp_all add: kv_map_def kv_contents_def)
qed

lemma late_nothing:
  assumes "kept_of (kept @ late) txs" and "list_all (Not \<circ> fst) late" and "list_all fst txs"
  shows "late = []"
  using kept_of_all [OF assms(1,3)] assms(2,3) by (cases late) auto

lemma kv_inv_answers:
  assumes "kv_inv crc api H extra k"
  shows "fst (KV2_get crc api no_faults key k) = Inr (kv_map H key)"
    "fst (KV2_scan crc api no_faults rng k) = Inr (range_entries rng (kv_map H))"
  using kv_get_result [OF assms] kv_scan_faults [OF assms, of no_faults rng] by simp_all

text \<open>
  C6: an engine can be reopened, and what it then answers. At the end of any run from an empty directory whose last
  append to the manifest was not interrupted, opening the directory succeeds when no file-system call fails: the
  manifest replays, every table passes the startup checks, and the log is repaired and read. The point reads and
  the scans of the engine answer from a choice of the batches it was given, in order and with every acknowledged
  one. Those of the reopened engine answer from the same batches, followed by batches (\<open>late\<close>) whose write was
  reported as failed although the log had them already. When every batch was acknowledged there are none, so
  the two engines answer every point read and every scan alike.
\<close>

theorem engine_reopens:
  assumes "kv_run crc api base_dir k txs" and "utf8_valid base_dir" and "bloom_crate_ok api" and "txs_fit txs"
    and "clean_start env" and "length (di_manifest (disk_of k)) + 2 ^ 33 \<le> isize_max"
  shows "\<exists>k' kept late. KV2_open crc api env base_dir config (disk_of k) = Inr k' \<and> kv_run crc api base_dir k' txs
     \<and> kept_of (kept @ late) txs \<and> list_all (Not \<circ> fst) late \<and> (list_all fst txs \<longrightarrow> late = [])
     \<and> (\<forall>key. fst (KV2_get crc api no_faults key k) = Inr (kv_contents (map snd kept) key))
     \<and> (\<forall>key. fst (KV2_get crc api no_faults key k') = Inr (kv_contents (map snd (kept @ late)) key))
     \<and> (\<forall>rng. fst (KV2_scan crc api no_faults rng k) = Inr (range_entries rng (kv_contents (map snd kept))))
     \<and> (\<forall>rng. fst (KV2_scan crc api no_faults rng k') = Inr (range_entries rng (kv_contents (map snd (kept @ late)))))"
proof -
  note log = kv_run_logged [OF assms(1-4)]
  from kv_logged_opens [OF log assms(5)] assms(6)
  obtain k' where k': "KV2_open crc api env base_dir config (disk_of k) = Inr k'" by auto
  have run: "kv_run crc api base_dir k' txs" using kv_run.reopen [OF assms(1,6) k'] .
  from log obtain H extra where H: "logged txs H extra" and inv: "kv_inv crc api H extra k" by (auto simp: kv_logged_def)
  then have "disk_inv crc api (H @ extra) (di_manifest (disk_of k)) (di_wal (disk_of k)) (di_files (disk_of k))"
    using core_disk by (auto simp: kv_inv_def disk_of_def)
  note inv' = open_inv [OF this assms(6,2) k']
  from H obtain kept late where m: "kept_of (kept @ late) txs" "list_all (Not \<circ> fst) late"
    "kv_map H = kv_contents (map snd kept)" "kv_map (H @ extra) = kv_contents (map snd (kept @ late))" by (rule logged_maps)
  from late_nothing [OF m(1,2)] kv_inv_answers [OF inv, unfolded m(3)] kv_inv_answers [OF inv', unfolded m(4)] k' run m(1,2)
  show ?thesis by blast
qed

end
