(* ===== verification/Engine_Samples.thy ===== *)
theory Engine_Samples
  imports Engine_Reopen Compactions Engine_Ready
begin

text \<open>
  A directory that is created, given one batch and opened again, as an instance of the properties of the
  engine's runs.
\<close>

definition sample_open_env :: open_env where
  "sample_open_env = \<lparr>oe_exists = \<lambda>_. False, oe_faults = no_faults, oe_create = CreateOk, oe_remove_ok = \<lambda>_. True,
     oe_sync_ok = True, oe_address = 1\<rparr>"

definition sample_disk :: disk where
  "sample_disk = \<lparr>di_manifest = [], di_wal = [], di_files = Map.empty\<rparr>"

definition sample_kv :: kv2 where
  "sample_kv = projr (KV2_open (\<lambda>_. 0) word_bloom sample_open_env (ascii ''db'') StorageConfig_default sample_disk)"

lemma sample_created:
  obtains m where "new_with_checkpoint (\<lambda>_. 0) CreateOk [] n None = Inr m" "wal_inv (\<lambda>_. 0) m Analysis_default"
    "ws_segment_id (wm_state m) = 0"
proof -
  have "\<exists>m. new_with_checkpoint (\<lambda>_. 0) CreateOk [] n None = Inr m \<and> ws_segment_id (wm_state m) = 0"
    by (simp add: new_with_checkpoint_def new_inner_def segment_paths_def checkpoint_analysis_def Let_def
        create_segment_def segment_file_Cons LEGACY_WAL_VERSION_def WAL_VERSION_def)
  then obtain m where m: "new_with_checkpoint (\<lambda>_. 0) CreateOk [] n None = Inr m" "ws_segment_id (wm_state m) = 0" by blast
  then have "wal_inv (\<lambda>_. 0) m Analysis_default" using wal_created by (auto simp: new_with_checkpoint_def)
  with m that show thesis by blast
qed

lemma sample_start: "clean_start sample_open_env"
  by (simp add: clean_start_def sample_open_env_def)

lemma sample_disk_replay: "replay_manifest (\<lambda>_. 0) (di_manifest sample_disk) = Inr ManifestState_default"
  by (simp add: sample_disk_def replay_manifest_def replay_loop.simps)

lemma sample_kv_open: "KV2_open (\<lambda>_. 0) word_bloom sample_open_env (ascii ''db'') StorageConfig_default sample_disk = Inr sample_kv"
proof -
  obtain m where m: "new_with_checkpoint (\<lambda>_. 0) CreateOk [] (wal_segment_size StorageConfig_default) None = Inr m"
    and inv: "wal_inv (\<lambda>_. 0) m Analysis_default" by (rule sample_created)
  obtain us where us: "recover_records (\<lambda>_. 0) m = Inr (map update_record us)"
    using recover_records_inv [OF inv Analysis_default_commands(2)] by blast
  have st: "ms_recovery_checkpoint ManifestState_default = None" "level_files (snapshot_levels (ms_levels ManifestState_default)) = []"
    by (simp_all add: ManifestState_default_def snapshot_levels_def level_files_def)
  have "\<exists>k. KV2_open (\<lambda>_. 0) word_bloom sample_open_env (ascii ''db'') StorageConfig_default sample_disk = Inr k"
    by (rule KV2_open_total [OF sample_start sample_disk_replay _ _ us]) (use m st in \<open>simp_all add: sample_disk_def sample_open_env_def\<close>)
  then show ?thesis by (auto simp: sample_kv_def)
qed

lemma sample_dir: "utf8_valid (ascii ''db'')"
  by (rule utf8_ascii) simp

text \<open>The engine as it was created.\<close>

lemma sample_kv_state:
  "wc_memtable_size (kv_writer sample_kv) = 0" "wc_sequence_number (kv_writer sample_kv) = 0" "wc_config (kv_writer sample_kv) = StorageConfig_default"
  "wc_payload_mode (kv_writer sample_kv) = Inline" "wc_admission (kv_writer sample_kv) = AdmissionQueue_new"
  "wal_inv (\<lambda>_. 0) (mg_wal (kv_managers sample_kv)) Analysis_default" "ws_segment_id (wm_state (mg_wal (kv_managers sample_kv))) = 0"
  "mm_file (mg_manifest (kv_managers sample_kv)) = []"
proof -
  obtain mm wal records wal' where *: "load_or_create (\<lambda>_. 0) (ReadOk (di_manifest sample_disk)) = Inr (mm :: bytes manifest_manager)"
    "new_with_checkpoint (\<lambda>_. 0) (oe_create sample_open_env) (di_wal sample_disk) (wal_segment_size StorageConfig_default)
        (sn_recovery_checkpoint (snapshot mm)) = Inr wal"
    "recover_records (\<lambda>_. 0) wal = Inr records"
    "wal' = (case sn_recovery_checkpoint (snapshot mm) of None \<Rightarrow> wal
          | Some c \<Rightarrow> snd (reclaim_checkpointed_segments (oe_remove_ok sample_open_env) (oe_sync_ok sample_open_env) c wal))"
    "kv_managers sample_kv = \<lparr>mg_wal = snd (register_checkpoint_owner (oe_address sample_open_env) wal'), mg_manifest = mm, mg_files = di_files sample_disk\<rparr>"
    "wc_memtable (kv_writer sample_kv) = fst (build_recovered_memtable records ([], 0, 0))"
    "wc_sequence_number (kv_writer sample_kv) = max (fst (snd (build_recovered_memtable records ([], 0, 0))))
        (cp_sequence (sn_recovery_checkpoint (snapshot mm)))"
    "wc_payload_mode (kv_writer sample_kv) = Inline" "wc_sstable_dir (kv_writer sample_kv) = path_join (ascii ''db'') (ascii ''sstable'')"
    "wc_admission (kv_writer sample_kv) = AdmissionQueue_new"
    "wc_memtable_size (kv_writer sample_kv) = snd (snd (build_recovered_memtable records ([], 0, 0)))"
    "wc_config (kv_writer sample_kv) = StorageConfig_default"
    using KV2_open_Inr [OF sample_kv_open] by blast
  have mm: "mm_state mm = ManifestState_default" "mm_file mm = []"
    using *(1) sample_disk_replay by (auto simp: load_or_create_def sample_disk_def)
  then have cp: "sn_recovery_checkpoint (snapshot mm) = None" by (simp add: snapshot_def snapshot_from_state_def ManifestState_default_def)
  obtain m where m: "new_with_checkpoint (\<lambda>_. 0) CreateOk [] (wal_segment_size StorageConfig_default) None = Inr m"
    "wal_inv (\<lambda>_. 0) m Analysis_default" "ws_segment_id (wm_state m) = 0" by (rule sample_created)
  with *(2,4) cp have wal: "wal = m" "wal' = m" by (simp_all add: sample_open_env_def sample_disk_def)
  obtain us where "recover_records (\<lambda>_. 0) m = Inr (map update_record us)" "committed_commands Analysis_default = map lu_command us"
    using recover_records_inv [OF m(2) Analysis_default_commands(2)] by blast
  with *(3) wal have "records = []" by simp
  with * cp mm wal m show "wc_memtable_size (kv_writer sample_kv) = 0" "wc_sequence_number (kv_writer sample_kv) = 0"
    "wc_config (kv_writer sample_kv) = StorageConfig_default"
    "wc_payload_mode (kv_writer sample_kv) = Inline" "wc_admission (kv_writer sample_kv) = AdmissionQueue_new"
    "wal_inv (\<lambda>_. 0) (mg_wal (kv_managers sample_kv)) Analysis_default" "ws_segment_id (wm_state (mg_wal (kv_managers sample_kv))) = 0"
    "mm_file (mg_manifest (kv_managers sample_kv)) = []"
    by (simp_all add: cp_sequence_def register_checkpoint_owner_def wal_inv_def)
qed

text \<open>A batch of one write: it is acknowledged and the memtable stays far below its threshold.\<close>

definition sample_flush :: flush_env where
  "sample_flush = \<lparr>fe_faults = no_faults, fe_register = AppendOk, fe_rotate = RotateIo CreateOk, fe_mark = AppendOk, fe_recovery = AppendOk,
     fe_remove_ok = \<lambda>_. True, fe_sync_ok = True\<rparr>"

definition sample_io :: write_env where
  "sample_io = \<lparr>we_ios = \<lambda>_. (RotateIo CreateOk, WriteOk), we_flush = sample_flush\<rparr>"

definition sample_batch :: "batch_operation list" where
  "sample_batch = [Batch_Put [0x61] [0x62]]"

definition sample_written :: kv2 where
  "sample_written = snd (the (KV2_write_batch (\<lambda>_. 0) word_bloom sample_io sample_batch sample_kv))"

lemma sample_ready: "kv2_ready (\<lambda>_. 0) 0 sample_kv"
proof -
  have "ws_next_lsn (wm_state (mg_wal (kv_managers sample_kv))) = 1" using sample_kv_state(6) by (simp add: wal_inv_def Analysis_default_def)
  moreover have "aq_next_ticket AdmissionQueue_new = 0" by (simp add: AdmissionQueue_new_def)
  ultimately show ?thesis unfolding kv2_ready_def by (auto simp: sample_kv_state queue_idle_new intro!: exI [of _ Analysis_default])
qed

lemma sample_write:
  "KV2_write_batch (\<lambda>_. 0) word_bloom sample_io sample_batch sample_kv = Some (Inr (), sample_written)"
  "mm_file (mg_manifest (kv_managers sample_written)) = []"
proof -
  obtain k where "KV2_write_batch (\<lambda>_. 0) word_bloom sample_io sample_batch sample_kv = Some (Inr (), k)"
    "mg_manifest (kv_managers k) = mg_manifest (kv_managers sample_kv)"
    using ready_write [OF sample_ready, of sample_batch 101 sample_io word_bloom]
    by (auto simp: sample_batch_def sample_valid sample_io_def sample_kv_state StorageConfig_default_def)
  then show "KV2_write_batch (\<lambda>_. 0) word_bloom sample_io sample_batch sample_kv = Some (Inr (), sample_written)"
    "mm_file (mg_manifest (kv_managers sample_written)) = []"
    by (simp_all add: sample_written_def sample_kv_state)
qed

lemma sample_run: "kv_run (\<lambda>_. 0) word_bloom (ascii ''db'') sample_written [(True, sample_batch)]"
proof -
  have "kv_run (\<lambda>_. 0) word_bloom (ascii ''db'') sample_kv []"
    by (rule kv_run.create [OF sample_kv_open]) (simp_all add: sample_disk_def)
  from kv_run.step [OF this kv_step.batch [OF sample_write(1)]] show ?thesis
    by (simp add: sample_batch_def sample_io_def sample_flush_def clean_flush_def clean_append_def)
qed

lemma sample_txs: "txs_fit [(True, sample_batch)]"
  by (simp add: txs_fit_def sample_batch_def operation_size_def)

lemma sample_manifest_fits: "length (di_manifest (disk_of sample_written)) + 2 ^ 33 \<le> isize_max"
  by (simp add: disk_of_def sample_write size_bounds)

theorem engine_reads_history_witness:
  "fst (KV2_scan (\<lambda>_. 0) word_bloom no_faults (Unbounded, Unbounded) sample_written) = Inr [([0x61], [0x62])]"
proof -
  from engine_reads_history [OF sample_run sample_dir word_bloom_crate sample_txs] obtain kept where
    kept: "kept_of kept [(True, sample_batch)]"
    and scan: "\<forall>rng. \<exists>out. fst (KV2_scan (\<lambda>_. 0) word_bloom no_faults rng sample_written) = Inr out \<and> sorted_wrt (<) (map fst out)
          \<and> (\<forall>key v. (key, v) \<in> set out \<longleftrightarrow> key_in_range key rng \<and> kv_contents (map snd kept) key = Some v)" by blast
  have k: "kept = [(True, sample_batch)]" using kept_of_all [OF kept] by simp
  have rng: "key_in_range key (Unbounded, Unbounded)" for key by (simp add: key_in_range_def)
  have contents: "kv_contents (map snd kept) = [[0x61] \<mapsto> [0x62]]"
    by (simp add: k kv_contents_def sample_batch_def apply_operation_def)
  from scan obtain out where out: "fst (KV2_scan (\<lambda>_. 0) word_bloom no_faults (Unbounded, Unbounded) sample_written) = Inr out"
    "sorted_wrt (<) (map fst out)" "\<forall>key v. (key, v) \<in> set out \<longleftrightarrow> [[0x61] \<mapsto> [0x62]] key = Some v"
    unfolding contents using rng by meson
  have "p \<in> set out \<longleftrightarrow> p = ([0x61], [0x62])" for p using out(3) by (cases p) (auto simp: fun_upd_apply split: if_splits)
  then have set_out: "set out = {([0x61], [0x62])}" by blast
  have "distinct out" using out(2) by (metis distinct_map strict_sorted_iff)
  then have "length out = 1" using set_out by (metis card.empty card_insert_disjoint distinct_card empty_iff finite.emptyI One_nat_def)
  then obtain p where "out = [p]" by (cases out) auto
  with set_out have "out = [([0x61], [0x62])]" by simp
  with out(1) show ?thesis by simp
qed

theorem engine_acknowledged_durable_witness:
  "fst (KV2_get (\<lambda>_. 0) word_bloom no_faults [0x61] sample_written) = Inr (Some [0x62])"
  using engine_acknowledged_durable [OF sample_run sample_dir word_bloom_crate sample_txs, of "[0x61]"]
  by (simp add: kv_contents_def sample_batch_def apply_operation_def)

theorem engine_reopens_witness:
  "\<exists>k'. KV2_open (\<lambda>_. 0) word_bloom sample_open_env (ascii ''db'') StorageConfig_default (disk_of sample_written) = Inr k'
     \<and> fst (KV2_get (\<lambda>_. 0) word_bloom no_faults [0x61] k') = Inr (Some [0x62])
     \<and> fst (KV2_scan (\<lambda>_. 0) word_bloom no_faults (Unbounded, Unbounded) k') = Inr [([0x61], [0x62])]
     \<and> (\<forall>rng. fst (KV2_scan (\<lambda>_. 0) word_bloom no_faults rng k') = fst (KV2_scan (\<lambda>_. 0) word_bloom no_faults rng sample_written))"
proof -
  from engine_reopens [OF sample_run sample_dir word_bloom_crate sample_txs sample_start sample_manifest_fits, of StorageConfig_default]
  obtain k' kept late where k': "KV2_open (\<lambda>_. 0) word_bloom sample_open_env (ascii ''db'') StorageConfig_default (disk_of sample_written) = Inr k'"
    and kept: "kept_of (kept @ late) [(True, sample_batch)]" "late = []"
    and get: "\<forall>key. fst (KV2_get (\<lambda>_. 0) word_bloom no_faults key k') = Inr (kv_contents (map snd (kept @ late)) key)"
    and scan: "\<forall>rng. fst (KV2_scan (\<lambda>_. 0) word_bloom no_faults rng sample_written) = Inr (range_entries rng (kv_contents (map snd kept)))"
    and scan': "\<forall>rng. fst (KV2_scan (\<lambda>_. 0) word_bloom no_faults rng k') = Inr (range_entries rng (kv_contents (map snd (kept @ late))))" by auto
  have "kept = [(True, sample_batch)]" using kept_of_all [OF kept(1)] kept(2) by simp
  then have contents: "kv_contents (map snd kept) = [[0x61] \<mapsto> [0x62]]"
    by (simp add: kv_contents_def sample_batch_def apply_operation_def)
  have "{key \<in> dom [[0x61] \<mapsto> [0x62]]. key_in_range key (Unbounded, Unbounded)} = {[0x61 :: byte]}"
    by (auto simp: key_in_range_def)
  then have "range_entries (Unbounded, Unbounded) [[0x61] \<mapsto> [0x62]] = [([0x61], [0x62])]" by (simp add: range_entries_def)
  with k' get scan scan' kept(2) contents show ?thesis by simp
qed

end
