(* ===== verification/Fts_Samples.thy ===== *)
theory Fts_Samples
  imports Fts_History Engine_Samples
begin

text \<open>
  A directory with an index that is created, opened and given one document, as an instance of the
  properties of the index: the letters and digits of ASCII are the alphanumeric characters.
\<close>

definition ascii_unicode :: unicode where
  "ascii_unicode = \<lparr>uc_is_alphanumeric = \<lambda>c. 48 \<le> c \<and> c \<le> 57 \<or> 65 \<le> c \<and> c \<le> 90 \<or> 97 \<le> c \<and> c \<le> 122,
     uc_to_lowercase = \<lambda>c. if 65 \<le> c \<and> c \<le> 90 then [c + 32] else [c],
     uc_cased = \<lambda>c. 65 \<le> c \<and> c \<le> 90 \<or> 97 \<le> c \<and> c \<le> 122, uc_case_ignorable = \<lambda>_. False\<rparr>"

lemma ascii_unicode_ok: "unicode_ok ascii_unicode"
  by (auto simp: unicode_ok_def ascii_unicode_def scalar_value_def)

definition sample_call_envs :: "nat \<Rightarrow> call_env" where
  "sample_call_envs i = \<lparr>cl_faults = no_faults, cl_write = sample_io\<rparr>"

lemma sample_call_envs_ok: "clean_calls sample_call_envs" "good_calls sample_call_envs" "\<not> read_faults sample_call_envs"
  by (simp_all add: clean_calls_def good_calls_def read_faults_def sample_call_envs_def sample_io_def sample_flush_def clean_flush_def clean_append_def)

text \<open>The document \<open>a\<close> with the text \<open>B\<close>, whose only term is \<open>b\<close>.\<close>

definition sample_docs :: "bytes \<rightharpoonup> bytes" where
  "sample_docs = [[0x61] \<mapsto> [0x42]]"

lemma sample_text: "tokenize ascii_unicode [0x42] = [([0x62], 1)]" "tokens ascii_unicode [0x42] = [[0x62]]"
  "utf8_valid [0x42]" "utf8_valid [0x61]"
proof -
  have c: "chars [0x42] = [66]" "chars [0x61] = [97]" by (simp_all add: chars.simps head_char_def utf8_len_def)
  show "tokenize ascii_unicode [0x42] = [([0x62], 1)]" "tokens ascii_unicode [0x42] = [[0x62]]"
    by (simp_all add: tokenize_def tokens_def c ascii_unicode_def count_term_def string_of_def char_bytes_def)
  show "utf8_valid [0x42]" "utf8_valid [0x61]" by (simp_all add: utf8_valid.simps utf8_len_def)
qed

lemma sample_docs_ok: "docs_ok ascii_unicode sample_docs"
  by (auto simp: docs_ok_def sample_docs_def id_ok_def document_ok_def sized_def corpus_length_def sample_text split: if_splits)

lemma small_batch_valid:
  "37 + sum_list (map operation_frame operations) \<le> 1000 \<Longrightarrow> validate_batch operations = Inr (37 + sum_list (map operation_frame operations))"
proof -
  have "n + sum_list (map operation_frame operations) \<le> 1000 \<Longrightarrow> validate_operations operations n = Inr (n + sum_list (map operation_frame operations))" for n
    by (induction operations arbitrary: n)
      (simp_all add: Let_def case_prod_beta operation_frame_def size_bounds MAX_WAL_FRAME_BYTES_def MAX_WAL_TRANSACTION_BYTES_def add.assoc)
  then show "37 + sum_list (map operation_frame operations) \<le> 1000 \<Longrightarrow> validate_batch operations = Inr (37 + sum_list (map operation_frame operations))"
    by (simp add: validate_batch_def)
qed

lemma sample_open_valid:
  "\<exists>n \<le> 1000. validate_batch [Batch_Put META_KEY [FORMAT_VERSION, TOKENIZER_VERSION], Batch_Put STATS_KEY (encode_stats 0 0)] = Inr n"
  (is "\<exists>n \<le> _. validate_batch ?ops = _")
proof -
  have "37 + sum_list (map operation_frame ?ops) \<le> 1000"
    by (simp add: operation_frame_def operation_fields_def META_KEY_def STATS_KEY_def NAMESPACE_def encode_stats_def ascii_def)
  with small_batch_valid [OF this] show ?thesis by blast
qed

lemma sample_put_valid: "\<exists>n \<le> 1000. validate_batch (put_operations ascii_unicode Map.empty [0x61] [0x42]) = Inr n"
proof -
  have "37 + sum_list (map operation_frame (put_operations ascii_unicode Map.empty [0x61] [0x42])) \<le> 1000"
    by (simp add: put_operations_def put_terms_def terms_at_def sample_text btree_set_def document_operations_def term_operations_def
        frequency_def record_operation_def counter_operation_def operation_frame_def operation_fields_def key_of_def NAMESPACE_def
        component_def forward_record_def encode_stats_def ascii_def)
  with small_batch_valid [OF this] show ?thesis by blast
qed

text \<open>The run.\<close>

lemma sample_fts_start: "fts_run (\<lambda>_. 0) word_bloom ascii_unicode (ascii ''db'') sample_kv False []"
  by (rule fts_run.create [OF sample_kv_open]) (simp_all add: sample_disk_def)

lemma sample_holds: "kv2_holds (\<lambda>_. 0) word_bloom 1 sample_kv Map.empty Map.empty"
  by (rule kv2_holds_create [OF sample_kv_open _ _ sample_dir]) (simp_all add: sample_disk_def)

lemma sample_opened:
  obtains k b where "fts_run (\<lambda>_. 0) word_bloom ascii_unicode (ascii ''db'') k True [(True, Open_Index)]"
    "kv2_ready (\<lambda>_. 0) b k" "wc_config (kv_writer k) = StorageConfig_default" "b \<le> 1000"
proof -
  from sample_open_valid obtain n where n: "n \<le> 1000"
    "validate_batch [Batch_Put META_KEY [FORMAT_VERSION, TOKENIZER_VERSION], Batch_Put STATS_KEY (encode_stats 0 0)] = Inr n" by blast
  from open_index_acknowledged [OF sample_fts_start sample_holds word_bloom_crate sample_call_envs_ok(1,2) sample_ready n(2)] n(1) that show thesis
    by (auto simp: sample_kv_state StorageConfig_default_def)
qed

lemma sample_fts_run:
  obtains k where "fts_run (\<lambda>_. 0) word_bloom ascii_unicode (ascii ''db'') k True [(True, Open_Index), (True, Put_Document [0x61] [0x42])]"
proof -
  obtain k b where k: "fts_run (\<lambda>_. 0) word_bloom ascii_unicode (ascii ''db'') k True [(True, Open_Index)]"
    "kv2_ready (\<lambda>_. 0) b k" "wc_config (kv_writer k) = StorageConfig_default" "b \<le> 1000" by (rule sample_opened)
  have c: "fts_contents [(True, Open_Index)] = (Map.empty, Map.empty)" by (simp add: fts_contents_def)
  from sample_put_valid obtain n where n: "n \<le> 1000" "validate_batch (put_operations ascii_unicode Map.empty [0x61] [0x42]) = Inr n" by blast
  from put_document_acknowledged [OF k(1) ascii_unicode_ok word_bloom_crate sample_dir _ _ c sample_docs_ok [unfolded sample_docs_def]
      sample_call_envs_ok(1,2) k(2) n(2)] n(1) k(3,4) that show thesis by (auto simp: StorageConfig_default_def)
qed

lemma sample_fts_contents: "fts_contents [(True, Open_Index), (True, Put_Document [0x61] [0x42])] = (sample_docs, Map.empty)"
  by (simp add: fts_contents_def sample_docs_def)

lemma sample_query: "query_terms ascii_unicode (Fts_And [[0x42]]) 10 = Inr [[0x62]]"
  by (simp add: query_terms_def query_input_def normalize_terms_def sample_text btree_set_def MAX_LIMIT_def MAX_QUERY_TERMS_def)

lemma sample_matching: "matching ascii_unicode sample_docs True [[0x62]] = {[0x61]}"
  by (auto simp: matching_def sample_docs_def sample_text split: if_splits)

lemma sample_search: "found_documents ascii_unicode sample_docs (Fts_And [[0x42]]) 10 = Inr [\<lparr>sh_id = [0x61], sh_document = [0x42]\<rparr>]"
proof -
  have "document_hit sample_docs [0x61] = \<lparr>sh_id = [0x61], sh_document = [0x42]\<rparr>" by (simp add: document_hit_def sample_docs_def)
  then show ?thesis using sample_matching by (simp add: found_documents_def sample_query query_is_and_def sized_def)
qed

theorem fts_answers_history_witness:
  "\<exists>k. fts_run (\<lambda>_. 0) word_bloom ascii_unicode (ascii ''db'') k True [(True, Open_Index), (True, Put_Document [0x61] [0x42])]
     \<and> answer (get_document ascii_unicode (kv2_api (\<lambda>_. 0) word_bloom sample_call_envs) [0x61]) k = Some (Inr (Some [0x42]))
     \<and> answer (search ascii_unicode (kv2_api (\<lambda>_. 0) word_bloom sample_call_envs) (Fts_And [[0x42]]) 10) k
         = Some (Inr [\<lparr>sh_id = [0x61], sh_document = [0x42]\<rparr>])"
proof -
  obtain k where run: "fts_run (\<lambda>_. 0) word_bloom ascii_unicode (ascii ''db'') k True [(True, Open_Index), (True, Put_Document [0x61] [0x42])]"
    by (rule sample_fts_run)
  from fts_answers_history [OF run ascii_unicode_ok word_bloom_crate sample_dir _ sample_call_envs_ok(1,3)] obtain kept docs kv where
    kept: "kept_of kept [(True, Open_Index), (True, Put_Document [0x61] [0x42])]" "fts_contents kept = (docs, kv)"
    and get: "\<forall>did. sized did \<longrightarrow> answer (get_document ascii_unicode (kv2_api (\<lambda>_. 0) word_bloom sample_call_envs) did) k = Some (Inr (docs did))"
    and search: "\<forall>query limit. answer (search ascii_unicode (kv2_api (\<lambda>_. 0) word_bloom sample_call_envs) query limit) k
        = Some (found_documents ascii_unicode docs query limit)" by auto
  have "docs = sample_docs" using kept_of_all [OF kept(1)] kept(2) sample_fts_contents by simp
  with run get search sample_search show ?thesis by (intro exI [of _ k]) (simp add: sized_def sample_docs_def)
qed

text \<open>The natural logarithm, rounded down to a multiple of $2^{-60}$.\<close>

definition sample_ln :: "f64 \<Rightarrow> f64" where
  "sample_ln x = Dyadic \<lfloor>ln (val x) * 2 ^ 60\<rfloor> 60"

lemma sample_ln_within: "ln_within (1 / 2 ^ 60) sample_ln"
proof -
  have "\<bar>of_int \<lfloor>y * 2 ^ 60\<rfloor> / 2 ^ 60 - y\<bar> \<le> 1 / 2 ^ 60" for y :: real
  proof -
    have "\<bar>of_int \<lfloor>z\<rfloor> - z\<bar> / 2 ^ 60 \<le> 1 / 2 ^ 60" for z :: real
      by (rule divide_right_mono) (unfold abs_le_iff, linarith, simp)
    from this [of "y * 2 ^ 60"] show ?thesis by (simp add: abs_divide [symmetric] diff_divide_distrib)
  qed
  then show ?thesis by (simp only: ln_within_def sample_ln_def val_Dyadic) simp
qed

lemma sample_config: "Bm25Config_new (bc_k1 Bm25Config_default) (bc_b Bm25Config_default) = Inr Bm25Config_default"
  by (simp add: Bm25Config_new_def Bm25Config_default_def f64_le_def)

text \<open>The only document has the average length, so its weight is 1 and its score is $\ln(2 / 1.5)$.\<close>

lemma sample_scores:
  "bm25 ascii_unicode sample_docs Bm25Config_default [[0x62]] [0x61] = ln (4 / 3)"
  "bm25_scale ascii_unicode sample_docs Bm25Config_default [[0x62]] [0x61] = 1"
  "bm25_idf (card (dom sample_docs)) (card (documents_with ascii_unicode sample_docs [0x62])) = ln (4 / 3)"
proof -
  have t: "terms_of ascii_unicode sample_docs [[0x62]] [0x61] = [[0x62]]" by (simp add: terms_of_def sample_docs_def sample_text)
  have d: "documents_with ascii_unicode sample_docs [0x62] = {[0x61]}" by (auto simp: documents_with_def sample_docs_def sample_text split: if_splits)
  have c: "card (dom sample_docs) = 1" "corpus_length ascii_unicode sample_docs = 1" "tokens ascii_unicode (the (sample_docs [0x61])) = [[0x62]]"
    by (simp_all add: sample_docs_def corpus_length_def sample_text)
  have "0 < val (bc_k1 Bm25Config_default)" by (simp add: Bm25Config_default_def)
  then have w: "term_weight ascii_unicode sample_docs Bm25Config_default [0x61] [0x62] = 1"
    by (simp add: term_weight_def bm25_weight_def c)
  show i: "bm25_idf (card (dom sample_docs)) (card (documents_with ascii_unicode sample_docs [0x62])) = ln (4 / 3)"
    by (simp add: bm25_idf_def c d)
  then show "bm25 ascii_unicode sample_docs Bm25Config_default [[0x62]] [0x61] = ln (4 / 3)" by (simp add: bm25_def t w)
  show "bm25_scale ascii_unicode sample_docs Bm25Config_default [[0x62]] [0x61] = 1" by (simp add: bm25_scale_def t w)
qed

lemma ln_four_thirds: "1 / 4 \<le> ln (4 / 3 :: real)"
  using ln_le_minus_one [of "3 / 4 :: real"] by (simp add: ln_div)

theorem fts_ranked_history_witness:
  "\<exists>k s. fts_run (\<lambda>_. 0) word_bloom ascii_unicode (ascii ''db'') k True [(True, Open_Index), (True, Put_Document [0x61] [0x42])]
     \<and> answer (search_ranked ascii_unicode sample_ln (kv2_api (\<lambda>_. 0) word_bloom sample_call_envs) (Fts_And [[0x42]]) 10 Bm25Config_default) k
         = Some (Inr [\<lparr>rh_id = [0x61], rh_document = [0x42], rh_score = s\<rparr>])
     \<and> is_finite s \<and> \<bar>val s - ln (4 / 3)\<bar> \<le> 1 / 2 ^ 34"
proof -
  let ?evs = "[(True, Open_Index), (True, Put_Document [0x61] [0x42])]"
  let ?search = "search_ranked ascii_unicode sample_ln (kv2_api (\<lambda>_. 0) word_bloom sample_call_envs) (Fts_And [[0x42]]) 10 Bm25Config_default"
  obtain k where run: "fts_run (\<lambda>_. 0) word_bloom ascii_unicode (ascii ''db'') k True ?evs" by (rule sample_fts_run)
  have q: "query_terms ascii_unicode (Fts_And [[0x42]]) 10 = Inr [[0x62]] \<and> (\<forall>t \<in> set [[0x62]]. sized t)
     \<and> Bm25Config_new (bc_k1 Bm25Config_default) (bc_b Bm25Config_default) = Inr Bm25Config_default"
    using sample_query sample_config by (simp add: sized_def)
  have len: "length ?evs \<le> 2 ^ 33" and d: "0 \<le> 1 / (2 :: real) ^ 60" "1 / (2 :: real) ^ 60 \<le> 1" by simp_all
  from fts_ranked_history [OF run ascii_unicode_ok word_bloom_crate sample_dir len sample_call_envs_ok(1,3) sample_ln_within d]
  obtain kept docs kv where kept: "kept_of kept ?evs" "fts_contents kept = (docs, kv)"
    and ranked: "(\<exists>score. answer ?search k = Some (Inr (hits_by_score docs score (matching ascii_unicode docs True [[0x62]]) 10))
        \<and> (\<forall>did \<in> matching ascii_unicode docs True [[0x62]]. is_finite (score did)
             \<and> \<bar>val (score did) - bm25 ascii_unicode docs Bm25Config_default [[0x62]] did\<bar>
                 \<le> (2 * (1 / 2 ^ 60) + 1 / 2 ^ 35) * bm25_scale ascii_unicode docs Bm25Config_default [[0x62]] did))
      \<or> (\<exists>t \<in> set [[0x62]]. bm25_idf (card (dom docs)) (card (documents_with ascii_unicode docs t)) < 2 * (1 / 2 ^ 60) + 1 / 2 ^ 43)
         \<and> (\<exists>e. answer ?search k = Some (Inl e))"
    using q unfolding query_is_and_def by fastforce
  have docs: "docs = sample_docs" using kept_of_all [OF kept(1)] kept(2) sample_fts_contents by simp
  have "\<not> ln (4 / 3) < 2 * (1 / 2 ^ 60) + 1 / (2 :: real) ^ 43" using ln_four_thirds by simp
  with ranked sample_scores(3) obtain score where
    s: "answer ?search k = Some (Inr (hits_by_score sample_docs score {[0x61]} 10))" "is_finite (score [0x61])"
      "\<bar>val (score [0x61]) - ln (4 / 3)\<bar> \<le> (2 * (1 / 2 ^ 60) + 1 / 2 ^ 35) * 1"
    unfolding docs sample_matching by (auto simp: sample_scores(1,2) simp del: mult_1_right)
  have "hits_by_score sample_docs score {[0x61]} 10 = [\<lparr>rh_id = [0x61], rh_document = [0x42], rh_score = score [0x61]\<rparr>]"
    by (simp add: hits_by_score_def sample_docs_def)
  moreover have "\<bar>val (score [0x61]) - ln (4 / 3)\<bar> \<le> 1 / 2 ^ 34" by (rule order_trans [OF s(3)]) simp
  ultimately show ?thesis using run s(1,2) by auto
qed

theorem document_accepted_and_found_witness:
  "\<exists>k k' i. fts_run (\<lambda>_. 0) word_bloom ascii_unicode (ascii ''db'') k True [(True, Open_Index)]
     \<and> put_document ascii_unicode (kv2_api (\<lambda>_. 0) word_bloom sample_call_envs) [0x61] [0x42] (k, 0) = Some (Inr (), k', i)
     \<and> answer (search ascii_unicode (kv2_api (\<lambda>_. 0) word_bloom sample_call_envs) (Fts_And [[0x42]]) 10) k'
         = Some (Inr [\<lparr>sh_id = [0x61], sh_document = [0x42]\<rparr>])"
proof -
  obtain k b where k: "fts_run (\<lambda>_. 0) word_bloom ascii_unicode (ascii ''db'') k True [(True, Open_Index)]"
    "kv2_ready (\<lambda>_. 0) b k" "wc_config (kv_writer k) = StorageConfig_default" "b \<le> 1000" by (rule sample_opened)
  have c: "fts_contents [(True, Open_Index)] = (Map.empty, Map.empty)" by (simp add: fts_contents_def)
  from sample_put_valid obtain n where n: "n \<le> 1000" "validate_batch (put_operations ascii_unicode Map.empty [0x61] [0x42]) = Inr n" by blast
  from n(1) k(3,4) have room: "b + n < unat (memtable_size_threshold (wc_config (kv_writer k)))" by (simp add: StorageConfig_default_def)
  from document_accepted_and_found [OF k(1) ascii_unicode_ok word_bloom_crate sample_dir _ _ c sample_docs_ok [unfolded sample_docs_def]
      sample_call_envs_ok(1,2) k(2) n(2) room] k(1) sample_search [unfolded sample_docs_def] show ?thesis by auto
qed

end
