(* ===== verification/Spec2Isabelle.thy ===== *)
theory Spec2Isabelle
  imports Fts_Samples
begin

text \<open>
  A model of the storage engine of cere-db and of the full-text index on top of it, with their
  correctness properties. Paths are relative to the repository root.

  \<^bold>\<open>The program.\<close> cere-db is an LSM-tree key-value store. A write passes the admission queue, goes to
  the write-ahead log and to the memtable; a full memtable is flushed to an immutable sorted table; the
  manifest records which tables are live; compaction merges tables; a read consults the memtable and
  the tables; opening a directory replays the manifest, checks the tables and recovers the log. The
  full-text index keeps documents, forward records, postings and counters as keys of the engine and
  writes each change of a document as one batch.

  \<^bold>\<open>Conventions.\<close> A struct is a record, an enum a datatype, \<open>u64\<close> and \<open>u32\<close> are words, bytes are 8-bit
  words, \<open>usize\<close> is a natural number with the checks of the code written out for a 64-bit target. An
  operation is a function from the state to its result and the new state; an error or a panic is a
  value (\<open>failure\<close>); what the file system does is an argument of the operation, so that every failed,
  short or cut off call is covered. A \<open>BTreeMap\<close> is its entries in key order. The checksum \<open>crc32fast\<close>,
  the Bloom filter crate \<open>fastbloom\<close>, the tables of the Unicode character database and \<open>f64::ln\<close> are
  parameters; \<open>bloom_crate_ok\<close>, \<open>unicode_ok\<close> and \<open>ln_within\<close> state what is used of the last three.

  \<^bold>\<open>The theories, in groups.\<close>
  \<^item> Shared: \<open>Prelude\<close> (integers, \<open>DBError\<close>, results, encodings, locale \<open>codec\<close>), \<open>Btree_Map\<close>,
    \<open>Binary_Search\<close>, \<open>Utf8\<close>, \<open>Utf8_Chars\<close>, \<open>Paths\<close>, \<open>Path_Text\<close>, \<open>Float64\<close>: the parts of the standard
    library the code uses. \<open>Float_Error\<close> bounds how far \<open>f64\<close> arithmetic is from exact arithmetic.
  \<^item> Table format: \<open>Records\<close> (\<open>src/storage/record.rs\<close>), \<open>Blocks\<close> (\<open>src/storage/checksum.rs\<close>,
    \<open>src/storage/writemanager/block.rs\<close>), \<open>Bloom_Filter\<close> (\<open>src/storage/bloom.rs\<close>), \<open>Table_Index\<close>
    (\<open>src/storage/index.rs\<close>, \<open>src/storage/footer.rs\<close>), \<open>SSTables\<close> (\<open>src/storage/sstable_codec.rs\<close>),
    \<open>Preflight\<close> and \<open>Preflight_Correct\<close> (\<open>src/storage/sstable_preflight.rs\<close>), \<open>Generation_Codec\<close> (the
    file formats of \<open>src/storage/experimental.rs\<close>, locale \<open>exact_codec\<close>): every decoder inverts its
    encoder, a packed and serialized table reads back unchanged, the block that is looked up holds the
    key, and the startup checks accept what the engine writes.
  \<^item> Manifest: \<open>Lru_Cache\<close>, \<open>Manifest_Codec\<close>, \<open>Manifest\<close> (\<open>src/storage/manifest_codec.rs\<close>): reopening
    restores the state, a torn append is atomic, file ids are fresh, the handle cache is bounded.
  \<^item> Log: \<open>Wal_Format\<close>, \<open>Wal_Recovery\<close>, \<open>Wal\<close>, \<open>Wal_Durability\<close>, \<open>Wal_History\<close>, \<open>Wal_Checkpoints\<close>
    (\<open>src/storage/recovermanager/\<close>, locale \<open>log_store\<close>): acknowledged transactions are recovered whole
    and in order after any failures and restarts; a checkpoint with reclaimed segments loses nothing.
  \<^item> Reads: \<open>Newest\<close> (locale \<open>newest_wins\<close>, shared by scan, flush and compaction), \<open>Read_Path\<close>,
    \<open>Read_Correct\<close>, \<open>Reads\<close> (\<open>src/storage/readmanager/read.rs\<close>): reads answer from the newest version.
  \<^item> Compaction: \<open>Table_Files\<close>, \<open>Compaction\<close>, \<open>Compaction_Select\<close>, \<open>Compaction_Merge\<close>, \<open>Table_Swap\<close>,
    \<open>Live_Tables\<close>, \<open>Compaction_Correct\<close>, \<open>Compactions\<close> (\<open>src/storage/compactionmanager/compaction.rs\<close>):
    whatever fails, reads answer as before; the loop over the levels ends.
  \<^item> Writes: \<open>Config\<close> (\<open>src/config.rs\<close>, \<open>src/storage/config.rs\<close>), \<open>Admission\<close>
    (\<open>src/storage/writemanager/admission.rs\<close>: a step relation with its invariant and progress),
    \<open>Write_Component\<close>, \<open>Flush_Correct\<close>, \<open>Write_History\<close>, \<open>Write_Commits\<close>
    (\<open>src/storage/writemanager/write.rs\<close>). \<open>Config\<close> states exactly what the builder and the conversion of
    the command line options accept, the wrap-around of the sizes included.
  \<^item> Engine: \<open>Engine\<close> (\<open>KV2\<close> of \<open>src/storage/kv2.rs\<close>), \<open>Histories\<close>, \<open>Store_History\<close>, \<open>Flush_History\<close>,
    \<open>Compaction_History\<close>, \<open>Engine_Open\<close>, \<open>Engine_Reads\<close>, \<open>Engine_History\<close>, \<open>Engine_Reopen\<close>,
    \<open>Engine_Ready\<close>, \<open>Engine_Samples\<close>. The abstract engine is a map changed by batches; \<open>core_inv\<close> relates
    tables, memtable and log to a history of commands and \<open>disk_inv\<close> says which history a directory
    recovers. The step relation \<open>kv_step\<close> and the runs \<open>kv_run\<close> compose batches, rounds of concurrent
    requests, flushes, compactions, reads, crashes and reopenings. \<open>Engine_Reopen\<close> shows that the directory
    at the end of a run opens, and which batches the answers before and after stand for.
  \<^item> Interface: \<open>Engine_Api\<close> (\<open>src/api/api.rs\<close>; locales \<open>map_reader\<close> and \<open>map_engine\<close>), \<open>Engine_Map\<close> (\<open>KV2\<close>
    as an instance of both).
  \<^item> Full-text index (\<open>src/fts/mod.rs\<close>): \<open>Tokens\<close>, \<open>Fts\<close> (the model), \<open>Fts_Layout\<close> (records and keys),
    \<open>Fts_Index\<close> (\<open>indexes u m docs\<close>: the engine's map holds exactly the records of the documents),
    \<open>Fts_Search\<close>, \<open>Fts_Ranked\<close>, \<open>Fts_Write\<close>, \<open>Fts_Put\<close>, \<open>Fts_Delete\<close>, \<open>Fts_Batch\<close> (all over any engine with
    the contract), \<open>Bm25\<close> (the computed scores against the BM25 formula over the reals), \<open>Fts_History\<close> (runs \<open>fts_run\<close> over \<open>KV2\<close>), \<open>Fts_Samples\<close>.

  \<^bold>\<open>Bounds and fuel.\<close> The loops are recursions that end; only the compaction loop, the closure of its
  inputs and the write runner carry fuel or an \<open>option\<close>, and their termination is proved for the states
  the engine reaches. The properties of runs assume sizes that keep a \<open>u64\<close> offset from overflowing:
  \<open>txs_fit\<close> for the transactions of a run, \<open>length evs \<le> 2 ^ 33\<close> commands for the index (each writes at
  most \<open>MAX_WAL_TRANSACTION_BYTES\<close>, so that their tables stay below \<open>2 ^ 64\<close> bytes), documents shorter
  than \<open>2 ^ 59\<close> bytes, and a manifest that is \<open>2 ^ 33\<close> bytes short of what a slice may hold when it is
  opened.

  \<^bold>\<open>What the model leaves out.\<close> A read is one step: the interleaving of concurrent reads on a shared
  handle, and a compaction inside an operation of the index, are not modelled; between operations both
  may happen. A failed opening is taken to leave the directory as it was. A manifest append that is cut
  off is followed by a stop in \<open>kv_run\<close>, and does not occur in \<open>fts_run\<close>. A deletion of a document that
  reports that there was none is not part of the recorded commands: after a put that failed but reached
  the log, it may be followed by a recovery that finds the document. Both zeros of \<open>f64\<close> are one value.

  \<^bold>\<open>Not modelled.\<close> \<open>src/command.rs\<close>, \<open>src/repl.rs\<close>, \<open>src/main.rs\<close> (command language, line editor,
  process entry), \<open>src/storage/raft/\<close> (adapters to openraft and gRPC), \<open>src/storage/durable_dir.rs\<close>
  (system calls), \<open>src/storage/block.rs\<close> and the searches of the first table format in
  \<open>src/storage/index.rs\<close> and \<open>src/storage/footer.rs\<close> (the current tables do not use them), the store of
  \<open>src/storage/experimental.rs\<close> (its codecs are modelled), the read of a logged value in
  \<open>src/storage/recovermanager/wal.rs\<close>, argument parsing and the logger, and the tests.
\<close>

end
